(* ===== verification/Prelude.thy ===== *)
theory Prelude
  imports Main
begin

text \<open>
  What the component theories share: the representation of Rust's values (a \<open>Vec<u8>\<close> or
  \<open>String\<close> is the list of its bytes, an \<open>Instant\<close> or \<open>Duration\<close> a number of nanoseconds, a
  \<open>Result\<close> a sum with the error on the left), the byte classes of \<open>core::ascii\<close>, association
  lists for the hash maps whose iteration order is irrelevant but whose size is bounded, and the
  generic facts on them that the component proofs use.
\<close>

section \<open>Types\<close>

type_synonym bytes = string
type_synonym instant = nat
type_synonym duration = nat
type_synonym ('e, 'a) result = "'e + 'a"

abbreviation Err :: "'e \<Rightarrow> ('e, 'a) result" where
  "Err \<equiv> Inl"

abbreviation Ok :: "'a \<Rightarrow> ('e, 'a) result" where
  "Ok \<equiv> Inr"

abbreviation is_Ok :: "('e, 'a) result \<Rightarrow> bool" where
  "is_Ok r \<equiv> \<not> isl r"

named_theorems limits \<comment> \<open>the numeric limits of the source, as equations\<close>
named_theorems keeps \<comment> \<open>an operation keeps its component's invariant\<close>

text \<open>The \<open>?\<close> operator: stop at the first error.\<close>

definition and_then :: "('e, 'a) result \<Rightarrow> ('a \<Rightarrow> ('e, 'b) result) \<Rightarrow> ('e, 'b) result" where
  "and_then r f = (case r of Inl e \<Rightarrow> Inl e | Inr a \<Rightarrow> f a)"

lemma and_then_simps [simp]:
  "and_then (Inl e) f = Inl e"
  "and_then (Inr a) f = f a"
  by (simp_all add: and_then_def)

lemma and_then_Ok_iff: "and_then r f = Inr b \<longleftrightarrow> (\<exists>a. r = Inr a \<and> f a = Inr b)"
  by (cases r) auto

lemma and_then_Err_iff:
  "and_then r f = Inl e \<longleftrightarrow> r = Inl e \<or> (\<exists>a. r = Inr a \<and> f a = Inl e)"
  by (cases r) auto

text \<open>\<open>Instant::saturating_duration_since\<close> is truncated subtraction.\<close>

definition seconds :: "nat \<Rightarrow> duration" where
  "seconds n = n * 1000000000"

lemma seconds_le_iff [simp]: "seconds a \<le> seconds b \<longleftrightarrow> a \<le> b"
  by (simp add: seconds_def)

lemma seconds_pos_iff [simp]: "0 < seconds a \<longleftrightarrow> 0 < a"
  by (simp add: seconds_def)

section \<open>Bytes\<close>

definition code :: "char \<Rightarrow> nat" where
  "code c = of_char c"

definition is_ascii_digit :: "char \<Rightarrow> bool" where
  "is_ascii_digit c \<longleftrightarrow> 48 \<le> code c \<and> code c \<le> 57"

definition is_ascii_lowercase :: "char \<Rightarrow> bool" where
  "is_ascii_lowercase c \<longleftrightarrow> 97 \<le> code c \<and> code c \<le> 122"

definition is_ascii_uppercase :: "char \<Rightarrow> bool" where
  "is_ascii_uppercase c \<longleftrightarrow> 65 \<le> code c \<and> code c \<le> 90"

definition is_ascii_alphanumeric :: "char \<Rightarrow> bool" where
  "is_ascii_alphanumeric c \<longleftrightarrow> is_ascii_digit c \<or> is_ascii_lowercase c \<or> is_ascii_uppercase c"

definition is_ascii_hexdigit :: "char \<Rightarrow> bool" where
  "is_ascii_hexdigit c \<longleftrightarrow>
     is_ascii_digit c \<or> (97 \<le> code c \<and> code c \<le> 102) \<or> (65 \<le> code c \<and> code c \<le> 70)"

text \<open>The digits and \<open>a..=f\<close> only: the lowercase hexadecimal alphabet the identifiers use.\<close>

definition is_lower_hex :: "char \<Rightarrow> bool" where
  "is_lower_hex c \<longleftrightarrow> is_ascii_digit c \<or> (97 \<le> code c \<and> code c \<le> 102)"

lemmas ascii_defs = code_def is_ascii_digit_def is_ascii_lowercase_def is_ascii_uppercase_def
  is_ascii_alphanumeric_def is_ascii_hexdigit_def is_lower_hex_def

lemma lower_hex_is_hexdigit: "is_lower_hex c \<Longrightarrow> is_ascii_hexdigit c"
  by (auto simp: is_lower_hex_def is_ascii_hexdigit_def)

section \<open>Integers\<close>

definition is_i64 :: "int \<Rightarrow> bool" where
  "is_i64 i \<longleftrightarrow> - (2 ^ 63) \<le> i \<and> i < 2 ^ 63"

text \<open>Rust's decimal formatting of a nonnegative number.\<close>

fun decimal :: "nat \<Rightarrow> string" where
  "decimal n = (if n < 10 then [char_of (48 + n)] else decimal (n div 10) @ [char_of (48 + n mod 10)])"

declare decimal.simps [simp del]

text \<open>Lowercase hexadecimal digits, as many as the format asks for (\<open>{:016x}\<close>).\<close>

lemma decimal_digits: "list_all is_ascii_digit (decimal n)"
proof (induction n rule: decimal.induct)
  case (1 n)
  have d: "is_ascii_digit (char_of (48 + m))" if "m < 10" for m :: nat using that by (simp add: is_ascii_digit_def code_def)
  show ?case
  proof (cases "n < 10")
    case True
    then show ?thesis using d by (simp add: decimal.simps)
  next
    case False
    then show ?thesis using "1.IH" [OF False] d [of "n mod 10"] by (simp add: decimal.simps [of n])
  qed
qed

lemma decimal_length: "n < 10 ^ Suc k \<Longrightarrow> length (decimal n) \<le> Suc k"
proof (induction k arbitrary: n)
  case 0
  then show ?case by (simp add: decimal.simps)
next
  case (Suc k)
  then have "n div 10 < 10 ^ Suc k" by (simp add: less_mult_imp_div_less)
  then show ?case using Suc.IH [of "n div 10"] by (simp add: decimal.simps [of n])
qed

text \<open>The number a run of decimal digits stands for.\<close>

fun undecimal :: "nat \<Rightarrow> string \<Rightarrow> nat" where
  "undecimal acc [] = acc"
| "undecimal acc (d # ds) = undecimal (acc * 10 + (code d - 48)) ds"

lemma undecimal_append: "undecimal acc (ds @ [d]) = undecimal acc ds * 10 + (code d - 48)"
  by (induction acc ds rule: undecimal.induct) simp_all

lemma undecimal_decimal: "undecimal 0 (decimal n) = n"
proof (induction n rule: decimal.induct)
  case (1 n)
  then show ?case by (simp add: decimal.simps [of n] undecimal_append code_def)
qed

definition int_decimal :: "int \<Rightarrow> string" where
  "int_decimal i = (if i < 0 then CHR ''-'' # decimal (nat (- i)) else decimal (nat i))"

definition hex_digit :: "nat \<Rightarrow> char" where
  "hex_digit d = (if d < 10 then char_of (48 + d) else char_of (87 + d))"

fun to_hex :: "nat \<Rightarrow> nat \<Rightarrow> string" where
  "to_hex 0 n = []"
| "to_hex (Suc k) n = to_hex k (n div 16) @ [hex_digit (n mod 16)]"

lemma hex_digit_inj: "a < 16 \<Longrightarrow> b < 16 \<Longrightarrow> hex_digit a = hex_digit b \<Longrightarrow> a = b"
proof -
  assume ab: "a < 16" "b < 16" "hex_digit a = hex_digit b"
  have val: "of_char (hex_digit d) = (if d < 10 then 48 + d else 87 + d)" if "d < 16" for d :: nat
    using that by (simp add: hex_digit_def)
  have "(if a < 10 then 48 + a else 87 + a) = (if b < 10 then 48 + b else 87 + b)"
    using val [OF ab(1)] val [OF ab(2)] ab(3) by simp
  then show "a = b" using ab(1,2) by (auto split: if_splits)
qed

lemma length_to_hex [simp]: "length (to_hex k n) = k"
  by (induction k arbitrary: n) auto

lemma to_hex_inj: "a < 16 ^ k \<Longrightarrow> b < 16 ^ k \<Longrightarrow> to_hex k a = to_hex k b \<Longrightarrow> a = b"
proof (induction k arbitrary: a b)
  case (Suc k)
  have "to_hex k (a div 16) = to_hex k (b div 16)" and "hex_digit (a mod 16) = hex_digit (b mod 16)"
    using Suc.prems(3) by auto
  moreover have "a div 16 < 16 ^ k" and "b div 16 < 16 ^ k" using Suc.prems by (auto simp: less_mult_imp_div_less)
  ultimately have "a div 16 = b div 16" and "a mod 16 = b mod 16"
    using Suc.IH hex_digit_inj by auto
  then show ?case by (metis div_mult_mod_eq)
qed simp

definition hex_bytes :: "bytes \<Rightarrow> string" where
  "hex_bytes bs = concat (map (\<lambda>b. to_hex 2 (code b)) bs)"

lemma to_hex_lower: "list_all is_lower_hex (to_hex k n)"
proof (induction k arbitrary: n)
  case (Suc k)
  have "is_lower_hex (hex_digit d)" if "d < 16" for d using that by (auto simp: hex_digit_def ascii_defs)
  then show ?case using Suc by simp
qed simp

lemma hex_bytes_shape: "length (hex_bytes bs) = 2 * length bs" "list_all is_lower_hex (hex_bytes bs)"
  by (induction bs) (simp_all add: hex_bytes_def to_hex_lower list_all_append)

text \<open>\<open>str::split\<close> on one character.\<close>

fun split_on :: "'a \<Rightarrow> 'a list \<Rightarrow> 'a list list" where
  "split_on c [] = [[]]"
| "split_on c (x # xs) =
     (if x = c then [] # split_on c xs
      else case split_on c xs of p # ps \<Rightarrow> (x # p) # ps | [] \<Rightarrow> [[x]])"

lemma split_on_nonempty [simp]: "split_on c xs \<noteq> []"
  by (cases xs) (auto split: list.split)

lemma concat_split_on: "concat (map ((#) c) (split_on c xs)) = c # xs"
proof (induction xs)
  case (Cons x xs)
  then show ?case by (cases "split_on c xs") auto
qed simp

lemma split_on_no_sep: "p \<in> set (split_on c xs) \<Longrightarrow> c \<notin> set p"
proof (induction xs arbitrary: p)
  case (Cons x xs)
  then show ?case by (cases "split_on c xs") (auto split: if_splits)
qed simp

lemma split_on_last: "c \<notin> set b \<Longrightarrow> split_on c b = [b]"
  by (induction b) auto

lemma split_on_append: "split_on c (a @ c # b) = split_on c a @ split_on c b"
proof (induction a)
  case (Cons x a)
  then show ?case by (cases "split_on c a") auto
qed simp

section \<open>Association lists\<close>

text \<open>
  A \<open>HashMap\<close> of the source is an association list with distinct keys. The iteration order of a
  hash map is unspecified and the code that is modelled so does not depend on it.
\<close>

definition keys :: "('k \<times> 'v) list \<Rightarrow> 'k list" where
  "keys m = map fst m"

definition remove_key :: "'k \<Rightarrow> ('k \<times> 'v) list \<Rightarrow> ('k \<times> 'v) list" where
  "remove_key k m = filter (\<lambda>e. fst e \<noteq> k) m"

definition insert_key :: "'k \<Rightarrow> 'v \<Rightarrow> ('k \<times> 'v) list \<Rightarrow> ('k \<times> 'v) list" where
  "insert_key k v m = remove_key k m @ [(k, v)]"

definition wf_map :: "('k \<times> 'v) list \<Rightarrow> bool" where
  "wf_map m \<longleftrightarrow> distinct (keys m)"

lemma wf_map_Nil [simp]: "wf_map []"
  by (simp add: wf_map_def keys_def)

lemma set_keys: "set (keys m) = dom (map_of m)"
  by (auto simp: keys_def dom_map_of_conv_image_fst)

lemma distinct_map_filter_fst: "distinct (map f m) \<Longrightarrow> distinct (map f (filter P m))"
  by (induction m) auto

lemma wf_map_filter [simp, intro]: "wf_map m \<Longrightarrow> wf_map (filter P m)"
  by (simp add: wf_map_def keys_def distinct_map_filter_fst)

lemma wf_map_remove_key [simp, intro]: "wf_map m \<Longrightarrow> wf_map (remove_key k m)"
  by (simp add: remove_key_def)

lemma keys_remove_key [simp]: "set (keys (remove_key k m)) = set (keys m) - {k}"
  by (auto simp: keys_def remove_key_def)

lemma wf_map_insert_key [simp, intro]: "wf_map m \<Longrightarrow> wf_map (insert_key k v m)"
  by (auto simp: wf_map_def insert_key_def keys_def remove_key_def distinct_map_filter_fst)

lemma map_of_remove_key [simp]: "map_of (remove_key k m) = (map_of m)(k := None)"
  by (induction m) (auto simp: remove_key_def)

lemma map_of_insert_key [simp]: "map_of (insert_key k v m) = (map_of m)(k := Some v)"
  by (auto simp: insert_key_def fun_eq_iff map_add_def split: option.split)

lemma remove_key_Nil [simp]: "remove_key k [] = []"
  by (simp add: remove_key_def)

lemma length_remove_key_le [simp]: "length (remove_key k m) \<le> length m"
  by (simp add: remove_key_def)

lemma map_of_None_remove_key: "map_of m k = None \<Longrightarrow> remove_key k m = m"
  by (induction m) (auto simp: remove_key_def split: if_splits)

lemma length_remove_key:
  assumes "wf_map m"
  shows "length (remove_key k m) = (if map_of m k = None then length m else length m - 1)"
  using assms
proof (induction m)
  case (Cons e m)
  have wf: "wf_map m" and new: "fst e \<notin> set (keys m)"
    using Cons.prems by (auto simp: wf_map_def keys_def)
  show ?case
  proof (cases "fst e = k")
    case True
    then have "map_of m k = None"
      using new by (simp add: set_keys domIff)
    then show ?thesis
      using True map_of_None_remove_key [of m k] by (cases e) (simp add: remove_key_def)
  next
    case False
    have "map_of m k \<noteq> None \<Longrightarrow> 0 < length m"
      by (cases m) auto
    then show ?thesis
      using False Cons.IH [OF wf] by (cases e) (auto simp: remove_key_def)
  qed
qed (simp add: remove_key_def)

lemma length_insert_key:
  assumes "wf_map m"
  shows "length (insert_key k v m) = (if map_of m k = None then Suc (length m) else length m)"
proof -
  have "map_of m k \<noteq> None \<Longrightarrow> 0 < length m"
    by (cases m) auto
  then show ?thesis
    by (auto simp: insert_key_def length_remove_key [OF assms])
qed

lemma map_of_filter_key:
  assumes "wf_map m"
  shows "map_of (filter P m) k = (case map_of m k of None \<Rightarrow> None | Some v \<Rightarrow> if P (k, v) then Some v else None)"
  using assms
proof (induction m)
  case (Cons e m)
  have wf: "wf_map m" and new: "fst e \<notin> set (keys m)"
    using Cons.prems by (auto simp: wf_map_def keys_def)
  then have none: "map_of m (fst e) = None"
    by (simp add: set_keys domIff)
  show ?case
    using Cons.IH [OF wf] none by (cases e) (auto split: option.splits)
qed simp

lemma map_of_mem: "wf_map m \<Longrightarrow> (k, v) \<in> set m \<Longrightarrow> map_of m k = Some v"
  by (simp add: wf_map_def keys_def)

lemma sum_remove_key:
  fixes f :: "'k \<times> 'v \<Rightarrow> nat"
  assumes "wf_map m" and "map_of m k = Some v"
  shows "sum_list (map f m) = sum_list (map f (remove_key k m)) + f (k, v)"
  using assms
proof (induction m)
  case (Cons e m)
  have new: "map_of m (fst e) = None" "wf_map m" using Cons.prems(1) by (auto simp: wf_map_def keys_def map_of_eq_None_iff)
  show ?case
  proof (cases "fst e = k")
    case True
    then show ?thesis using Cons.prems(2) map_of_None_remove_key [of m k] new by (cases e) (auto simp: remove_key_def)
  next
    case False
    then show ?thesis using Cons.IH [OF new(2)] Cons.prems(2) by (cases e) (simp add: remove_key_def)
  qed
qed simp

lemma sum_insert_key: "sum_list (map f (insert_key k v m)) = sum_list (map f (remove_key k m)) + f (k, v)"
  for f :: "'k \<times> 'v \<Rightarrow> nat"
  by (simp add: insert_key_def)

lemma sum_over_keys:
  assumes "wf_map m"
  shows "sum_list (map (\<lambda>k. f (k, the (map_of m k))) (filter P (keys m))) = sum_list (map f (filter (\<lambda>e. P (fst e)) m))"
proof -
  have "map (\<lambda>k. f (k, the (map_of m k))) (filter P (keys m)) = map (\<lambda>e. f (fst e, the (map_of m (fst e)))) (filter (\<lambda>e. P (fst e)) m)"
    by (simp add: keys_def filter_map comp_def)
  also have "\<dots> = map f (filter (\<lambda>e. P (fst e)) m)"
    by (rule map_cong [OF refl]) (use map_of_mem [OF assms] in force)
  finally show ?thesis by simp
qed

lemma remove_key_twice [simp]:
  "remove_key k (remove_key k m) = remove_key k m" "remove_key k (insert_key k v m) = remove_key k m"
  "insert_key k v (insert_key k w m) = insert_key k v m"
  by (simp_all add: remove_key_def insert_key_def conj_commute)

section \<open>Lists\<close>

definition drop_oldest :: "nat \<Rightarrow> 'a list \<Rightarrow> 'a list" where
  \<comment> \<open>make room for one more element in a buffer of \<open>n\<close>: \<open>if v.len() == n { v.remove(0); }\<close>\<close>
  "drop_oldest n xs = (if length xs = n then tl xs else xs)"

lemma length_drop_oldest: "0 < n \<Longrightarrow> length xs \<le> n \<Longrightarrow> length (drop_oldest n xs) < n"
  by (cases xs) (auto simp: drop_oldest_def)

lemma set_drop_oldest: "set (drop_oldest n xs) \<subseteq> set xs"
  by (cases xs) (auto simp: drop_oldest_def)

lemma distinct_map_drop_oldest: "distinct (map f xs) \<Longrightarrow> distinct (map f (drop_oldest n xs))"
  by (cases xs) (auto simp: drop_oldest_def)

lemma sum_list_le_length_times:
  fixes xs :: "nat list"
  shows "(\<And>x. x \<in> set xs \<Longrightarrow> x \<le> b) \<Longrightarrow> sum_list xs \<le> length xs * b"
proof (induction xs)
  case (Cons x xs)
  then have "sum_list xs \<le> length xs * b" and "x \<le> b" by auto
  then show ?case by simp
qed simp

lemma sum_list_filter_le:
  fixes f :: "'a \<Rightarrow> nat"
  shows "sum_list (map f (filter P xs)) \<le> sum_list (map f xs)"
  by (induction xs) auto

lemma filter_id_conv2: "(\<And>x. x \<in> set xs \<Longrightarrow> P x) \<Longrightarrow> filter P xs = xs"
  by (simp add: filter_id_conv)

lemma filter_unique:
  assumes "distinct xs" and "x \<in> set xs" and "P x" and "\<And>y. y \<in> set xs \<Longrightarrow> P y \<Longrightarrow> y = x"
  shows "filter P xs = [x]"
proof -
  have "filter P xs = filter (\<lambda>y. y = x) xs" by (rule filter_cong [OF refl]) (use assms(3,4) in blast)
  also have "\<dots> = [x]" using assms(1,2) by (induction xs) (auto simp: filter_empty_conv)
  finally show ?thesis .
qed

lemma find_SomeD: "find P xs = Some x \<Longrightarrow> x \<in> set xs \<and> P x"
  by (induction xs) (auto split: if_splits)

section \<open>Step relations\<close>

text \<open>
  The contract of a state machine: an invariant that every step keeps. What holds in one state of
  a run then holds in all later ones.
\<close>

locale step_invariant =
  fixes step :: "'s \<Rightarrow> 's \<Rightarrow> bool" and inv :: "'s \<Rightarrow> bool"
  assumes step_keeps: "step s s' \<Longrightarrow> inv s \<Longrightarrow> inv s'"
begin

lemma run_keeps: "step\<^sup>*\<^sup>* s s' \<Longrightarrow> inv s \<Longrightarrow> inv s'"
  by (induction rule: rtranclp_induct) (auto intro: step_keeps)

lemma run_keeps_rel:
  assumes "step\<^sup>*\<^sup>* s s'" and "inv s" and "P s"
    and "\<And>a b. step a b \<Longrightarrow> inv a \<Longrightarrow> P a \<Longrightarrow> P b"
  shows "P s'"
proof -
  from assms(1) have "inv s' \<and> P s'"
    by (induction rule: rtranclp_induct) (use assms step_keeps in blast)+
  then show ?thesis ..
qed

end

end
