(* ===== verification/Wire.thy ===== *)
theory Wire
  imports Prelude
begin

text \<open>
  The Gateway/Home JSON envelope of \<open>hmux-protocol/src/wire.rs\<close>: the field limits of a message,
  and the bounded writer that compacts and escapes the frame byte by byte while \<open>serde_json\<close>
  feeds it in arbitrary chunks. The writer is shown to compute the two-pass reference
  \<open>escape (compact raw)\<close>, whatever the chunks, and to fail exactly when that exceeds 4 MiB.
\<close>

section \<open>Limits and messages\<close>

definition MAX_MESSAGE :: nat where "MAX_MESSAGE = 4194304"
definition MAX_TERMINALS :: nat where "MAX_TERMINALS = 8"
definition MAX_DATA :: nat where "MAX_DATA = 32768"
definition MAX_UPLOAD_CHUNK :: nat where "MAX_UPLOAD_CHUNK = 262144"
definition HOME_OFFLINE :: nat where "HOME_OFFLINE = 4001"
definition OUTPUT_FULL :: nat where "OUTPUT_FULL = 4002"
definition VIEW_EXITED :: nat where "VIEW_EXITED = 4003"

lemmas wire_limits [limits] = MAX_MESSAGE_def MAX_TERMINALS_def MAX_DATA_def MAX_UPLOAD_CHUNK_def
  HOME_OFFLINE_def OUTPUT_FULL_def VIEW_EXITED_def

datatype codec_error = MessageLimit | InvalidJson | FieldLimit

text \<open>The session identity of the wire; \<open>created_at\<close> is an \<open>i64\<close>.\<close>

record wire_session =
  ws_id :: string
  ws_created_at :: int

fun strip_prefix :: "char \<Rightarrow> string \<Rightarrow> string option" where
  "strip_prefix c [] = None"
| "strip_prefix c (x # xs) = (if x = c then Some xs else None)"

definition wire_session_is_valid :: "wire_session \<Rightarrow> bool" where
  "wire_session_is_valid s =
     (case strip_prefix (CHR ''$'') (ws_id s) of
        None \<Rightarrow> False
      | Some digits \<Rightarrow>
          0 < ws_created_at s \<and> 1 \<le> length digits \<and> length digits \<le> 12 \<and>
          list_all is_ascii_digit digits)"

text \<open>
  The fields of \<open>Message\<close> that its limits read. The payload is \<open>serde_json\<close>'s \<open>RawValue\<close>, kept as
  its text.
\<close>

record message =
  m_kind :: string
  m_id :: string
  m_operation :: string
  m_session :: wire_session
  m_payload :: "bytes option"
  m_data :: bytes
  m_cols :: nat
  m_rows :: nat
  m_error :: string
  m_received :: int
  m_capabilities :: "string list"

definition validate_fields :: "message \<Rightarrow> (codec_error, unit) result" where
  "validate_fields m =
     (let limit = (if m_kind m = ''upload-data'' then MAX_UPLOAD_CHUNK else MAX_DATA) in
      if limit < length (m_data m) \<or> 64 < length (m_id m) \<or> 128 < length (m_error m) \<or>
         16 < length (m_capabilities m) \<or>
         list_ex (\<lambda>c. c = [] \<or> 64 < length c) (m_capabilities m)
      then Err FieldLimit else Ok ())"

section \<open>The bounded JSON writer\<close>

record bounded_json =
  bj_bytes :: bytes
  bj_full :: bool
  bj_quoted :: bool
  bj_escaped :: bool
  bj_unicode_prefix :: nat

definition bj_new :: bounded_json where
  "bj_new = \<lparr>bj_bytes = [], bj_full = False, bj_quoted = False, bj_escaped = False,
             bj_unicode_prefix = 0\<rparr>"

text \<open>
  An \<open>io::Result<()>\<close> of a method on \<open>&mut self\<close> is the state after the call, on the left when the
  call failed: \<open>encode\<close> reads the \<open>full\<close> flag after a failure.
\<close>

type_synonym io = "bounded_json + bounded_json"

definition bj_append :: "bounded_json \<Rightarrow> bytes \<Rightarrow> io" where
  "bj_append w bs =
     (if MAX_MESSAGE - length (bj_bytes w) < length bs then Inl (w\<lparr>bj_full := True\<rparr>)
      else Inr (w\<lparr>bj_bytes := bj_bytes w @ bs\<rparr>))"

definition bj_emit_byte :: "bounded_json \<Rightarrow> char \<Rightarrow> io" where
  \<comment> \<open>the second half of \<open>emit\<close>, after the pending prefix has been dealt with\<close>
  "bj_emit_byte w byte =
     (let w = w\<lparr>bj_unicode_prefix := 0\<rparr> in
      if byte = CHR 0xE2 then Inr (w\<lparr>bj_unicode_prefix := 1\<rparr>)
      else if byte = CHR ''&'' then bj_append w (CHR 0x5C # ''u0026'')
      else if byte = CHR ''<'' then bj_append w (CHR 0x5C # ''u003c'')
      else if byte = CHR ''>'' then bj_append w (CHR 0x5C # ''u003e'')
      else bj_append w [byte])"

definition bj_emit :: "bounded_json \<Rightarrow> char \<Rightarrow> io" where
  "bj_emit w byte =
     (if bj_unicode_prefix w = 1 then
        if byte = CHR 0x80 then Inr (w\<lparr>bj_unicode_prefix := 2\<rparr>)
        else and_then (bj_append w [CHR 0xE2]) (\<lambda>w. bj_emit_byte w byte)
      else if bj_unicode_prefix w = 2 then
        if byte = CHR 0xA8 then bj_append (w\<lparr>bj_unicode_prefix := 0\<rparr>) (CHR 0x5C # ''u2028'')
        else if byte = CHR 0xA9 then bj_append (w\<lparr>bj_unicode_prefix := 0\<rparr>) (CHR 0x5C # ''u2029'')
        else and_then (bj_append w [CHR 0xE2, CHR 0x80]) (\<lambda>w. bj_emit_byte w byte)
      else bj_emit_byte w byte)"

definition is_json_space :: "char \<Rightarrow> bool" where
  "is_json_space c \<longleftrightarrow> c = CHR '' '' \<or> c = CHR 0x0A \<or> c = CHR 0x0D \<or> c = CHR 0x09"

definition bj_write_byte :: "bounded_json \<Rightarrow> char \<Rightarrow> io" where
  "bj_write_byte w byte =
     (if bj_quoted w then
        bj_emit
          (if bj_escaped w then w\<lparr>bj_escaped := False\<rparr>
           else if byte = CHR 0x5C then w\<lparr>bj_escaped := True\<rparr>
           else if byte = CHR 0x22 then w\<lparr>bj_quoted := False\<rparr>
           else w) byte
      else if byte = CHR 0x22 then bj_emit (w\<lparr>bj_quoted := True\<rparr>) byte
      else if is_json_space byte then Inr w
      else bj_emit w byte)"

fun bj_write :: "bounded_json \<Rightarrow> bytes \<Rightarrow> io" where
  "bj_write w [] = Inr w"
| "bj_write w (b # raw) = and_then (bj_write_byte w b) (\<lambda>w. bj_write w raw)"

definition bj_finish :: "bounded_json \<Rightarrow> (unit, bytes) result" where
  "bj_finish w =
     (case (if bj_unicode_prefix w = 1 then bj_append w [CHR 0xE2]
            else if bj_unicode_prefix w = 2 then bj_append w [CHR 0xE2, CHR 0x80]
            else Inr w) of
        Inl _ \<Rightarrow> Err () | Inr w \<Rightarrow> Ok (bj_bytes w))"

text \<open>The chunks are those in which \<open>serde_json::to_writer\<close> hands over the serialised message.\<close>

fun bj_write_all :: "bounded_json \<Rightarrow> bytes list \<Rightarrow> io" where
  "bj_write_all w [] = Inr w"
| "bj_write_all w (c # cs) = and_then (bj_write w c) (\<lambda>w. bj_write_all w cs)"

definition message_encode :: "(message \<Rightarrow> bytes list option) \<Rightarrow> message \<Rightarrow> (codec_error, bytes) result" where
  \<comment> \<open>the parameter is \<open>serde_json\<close>: the chunks it writes, or its own failure\<close>
  "message_encode to_writer m =
     and_then (validate_fields m) (\<lambda>_.
       if (case m_payload m of None \<Rightarrow> False | Some p \<Rightarrow> MAX_MESSAGE < length p)
       then Err MessageLimit
       else case to_writer m of
              None \<Rightarrow> Err InvalidJson
            | Some chunks \<Rightarrow>
                (case bj_write_all bj_new chunks of
                   Inl w \<Rightarrow> Err (if bj_full w then MessageLimit else InvalidJson)
                 | Inr w \<Rightarrow> (case bj_finish w of Inl _ \<Rightarrow> Err MessageLimit | Inr out \<Rightarrow> Ok out)))"

definition message_decode :: "(bytes \<Rightarrow> message option) \<Rightarrow> bytes \<Rightarrow> (codec_error, message) result" where
  \<comment> \<open>the parameter is \<open>serde_json::from_slice\<close>\<close>
  "message_decode from_slice raw =
     (if MAX_MESSAGE < length raw then Err MessageLimit
      else if find (\<lambda>b. \<not> is_json_space b) raw \<noteq> Some (CHR 0x7B) then Err InvalidJson
      else case from_slice raw of
             None \<Rightarrow> Err InvalidJson
           | Some m \<Rightarrow> and_then (validate_fields m) (\<lambda>_. Ok m))"

section \<open>The reference: compaction, then escaping\<close>

fun compact :: "bool \<Rightarrow> bool \<Rightarrow> bytes \<Rightarrow> bytes" where
  \<comment> \<open>arguments: inside a string, after a backslash inside a string\<close>
  "compact q e [] = []"
| "compact True True (b # bs) = b # compact True False bs"
| "compact True False (b # bs) =
     b # (if b = CHR 0x5C then compact True True bs
          else if b = CHR 0x22 then compact False False bs else compact True False bs)"
| "compact False e (b # bs) =
     (if b = CHR 0x22 then b # compact True e bs
      else if is_json_space b then compact False e bs else b # compact False e bs)"

definition escape_byte :: "char \<Rightarrow> bytes" where
  "escape_byte b =
     (if b = CHR ''&'' then (CHR 0x5C # ''u0026'') else if b = CHR ''<'' then (CHR 0x5C # ''u003c'')
      else if b = CHR ''>'' then (CHR 0x5C # ''u003e'') else [b])"

fun escape :: "bytes \<Rightarrow> bytes" where
  "escape (a # b # c # bs) =
     (if a = CHR 0xE2 \<and> b = CHR 0x80 \<and> c = CHR 0xA8 then (CHR 0x5C # ''u2028'') @ escape bs
      else if a = CHR 0xE2 \<and> b = CHR 0x80 \<and> c = CHR 0xA9 then (CHR 0x5C # ''u2029'') @ escape bs
      else escape_byte a @ escape (b # c # bs))"
| "escape (a # bs) = escape_byte a @ escape bs"
| "escape [] = []"

text \<open>The bytes the writer still owes for its pending prefix.\<close>

definition pending :: "nat \<Rightarrow> bytes" where
  "pending p = (if p = 1 then [CHR 0xE2] else if p = 2 then [CHR 0xE2, CHR 0x80] else [])"


section \<open>One byte at a time\<close>

text \<open>What \<open>emit\<close> appends for a byte after a pending prefix, and the prefix it leaves.\<close>

definition emit_step :: "nat \<Rightarrow> char \<Rightarrow> bytes \<times> nat" where
  "emit_step p b =
     (if p = 1 \<and> b = CHR 0x80 then ([], 2)
      else if p = 2 \<and> b = CHR 0xA8 then (CHR 0x5C # ''u2028'', 0)
      else if p = 2 \<and> b = CHR 0xA9 then (CHR 0x5C # ''u2029'', 0)
      else (pending p @ (if b = CHR 0xE2 then [] else escape_byte b),
            if b = CHR 0xE2 then 1 else 0))"

lemma pending_simps [simp]:
  "pending 0 = []" "pending (Suc 0) = [CHR 0xE2]" "pending 2 = [CHR 0xE2, CHR 0x80]"
  by (simp_all add: pending_def)

lemma escape_byte_self: "b \<noteq> CHR ''&'' \<Longrightarrow> b \<noteq> CHR ''<'' \<Longrightarrow> b \<noteq> CHR ''>'' \<Longrightarrow> escape_byte b = [b]"
  by (simp add: escape_byte_def)

lemma escape_plain: "a \<noteq> CHR 0xE2 \<Longrightarrow> escape (a # bs) = escape_byte a @ escape bs"
  by (cases bs rule: list.exhaust [case_product list.exhaust]; cases "tl bs") auto

lemma escape_lead: "b \<noteq> CHR 0x80 \<Longrightarrow> escape (CHR 0xE2 # b # bs) = CHR 0xE2 # escape (b # bs)"
  by (cases bs) (simp_all add: escape_byte_def)

lemma escape_lead2:
  "c \<noteq> CHR 0xA8 \<Longrightarrow> c \<noteq> CHR 0xA9 \<Longrightarrow>
   escape (CHR 0xE2 # CHR 0x80 # c # bs) = CHR 0xE2 # CHR 0x80 # escape (c # bs)"
  by (simp add: escape_byte_self escape_plain)

lemma escape_step:
  assumes "p \<le> 2"
  shows "escape (pending p @ b # bs) = fst (emit_step p b) @ escape (pending (snd (emit_step p b)) @ bs)"
proof -
  have plain: "escape (b # bs) = (if b = CHR 0xE2 then escape (pending 1 @ bs) else escape_byte b @ escape bs)"
    by (simp add: escape_plain)
  consider "p = 0" | "p = 1" | "p = 2" using assms by linarith
  then show ?thesis
  proof cases
    case 1
    then show ?thesis using plain by (simp add: emit_step_def)
  next
    case 2
    then show ?thesis using plain by (auto simp: emit_step_def escape_lead)
  next
    case 3
    then show ?thesis using plain
      by (auto simp: emit_step_def escape_plain escape_byte_self)
  qed
qed

lemma emit_step_prefix: "snd (emit_step p b) \<le> 2"
  by (simp add: emit_step_def)

lemma bj_append_cases:
  assumes "length (bj_bytes w) \<le> MAX_MESSAGE"
  shows "bj_append w bs =
    (if length (bj_bytes w @ bs) \<le> MAX_MESSAGE then Inr (w\<lparr>bj_bytes := bj_bytes w @ bs\<rparr>)
     else Inl (w\<lparr>bj_full := True\<rparr>))"
  using assms by (auto simp: bj_append_def)

lemma bj_emit_step:
  assumes "length (bj_bytes w) \<le> MAX_MESSAGE" and "bj_unicode_prefix w \<le> 2"
  shows "case bj_emit w b of
      Inl w' \<Rightarrow> bj_full w' \<and> MAX_MESSAGE < length (bj_bytes w @ fst (emit_step (bj_unicode_prefix w) b))
    | Inr w' \<Rightarrow> w' = w\<lparr>bj_bytes := bj_bytes w @ fst (emit_step (bj_unicode_prefix w) b),
                      bj_unicode_prefix := snd (emit_step (bj_unicode_prefix w) b)\<rparr>
              \<and> length (bj_bytes w') \<le> MAX_MESSAGE"
proof -
  consider "bj_unicode_prefix w = 0" | "bj_unicode_prefix w = 1" | "bj_unicode_prefix w = 2"
    using assms(2) by linarith
  then show ?thesis
    using assms(1)
    by cases (auto simp: bj_emit_def bj_emit_byte_def emit_step_def bj_append_cases escape_byte_def
        Let_def split: if_splits)
qed


section \<open>Whole frames\<close>

definition bj_complete :: "bounded_json \<Rightarrow> bytes \<Rightarrow> (bool, bytes) result" where
  \<comment> \<open>write, then finish; a failure carries whether the limit was the reason\<close>
  "bj_complete w raw =
     (case bj_write w raw of
        Inl w' \<Rightarrow> Err (bj_full w')
      | Inr w' \<Rightarrow> (case bj_finish w' of Inl _ \<Rightarrow> Err True | Inr out \<Rightarrow> Ok out))"

definition bounded :: "bytes \<Rightarrow> (bool, bytes) result" where
  "bounded out = (if length out \<le> MAX_MESSAGE then Ok out else Err True)"

lemma bj_complete_Nil:
  assumes "length (bj_bytes w) \<le> MAX_MESSAGE" and "bj_unicode_prefix w \<le> 2"
  shows "bj_complete w [] = bounded (bj_bytes w @ escape (pending (bj_unicode_prefix w)))"
proof -
  consider "bj_unicode_prefix w = 0" | "bj_unicode_prefix w = 1" | "bj_unicode_prefix w = 2"
    using assms(2) by linarith
  then show ?thesis
    by cases (use assms(1) in \<open>auto simp: bj_complete_def bj_finish_def bounded_def bj_append_cases
        escape_byte_self\<close>)
qed

text \<open>One emitted byte, then the rest, when the rest is already known to match the reference.\<close>

lemma bj_complete_emit:
  assumes "length (bj_bytes w) \<le> MAX_MESSAGE" and "bj_unicode_prefix w \<le> 2"
    and rest: "\<And>w'. length (bj_bytes w') \<le> MAX_MESSAGE \<Longrightarrow> bj_unicode_prefix w' \<le> 2 \<Longrightarrow>
      bj_quoted w' = bj_quoted w \<Longrightarrow> bj_escaped w' = bj_escaped w \<Longrightarrow>
      bj_complete w' raw = bounded (bj_bytes w' @ escape (pending (bj_unicode_prefix w') @ out))"
  shows "(case bj_emit w b of Inl w' \<Rightarrow> Err (bj_full w') | Inr w' \<Rightarrow> bj_complete w' raw) =
    bounded (bj_bytes w @ escape (pending (bj_unicode_prefix w) @ b # out))"
proof (cases "bj_emit w b")
  case (Inl w')
  then show ?thesis
    using bj_emit_step [OF assms(1,2), of b] by (simp add: escape_step [OF assms(2)] bounded_def)
next
  case (Inr w')
  then have w': "w' = w\<lparr>bj_bytes := bj_bytes w @ fst (emit_step (bj_unicode_prefix w) b),
      bj_unicode_prefix := snd (emit_step (bj_unicode_prefix w) b)\<rparr>"
    and len: "length (bj_bytes w') \<le> MAX_MESSAGE"
    using bj_emit_step [OF assms(1,2), of b] by auto
  have "bj_complete w' raw = bounded (bj_bytes w' @ escape (pending (bj_unicode_prefix w') @ out))"
    using len by (intro rest) (simp_all add: w' emit_step_prefix)
  then show ?thesis
    using Inr by (simp add: escape_step [OF assms(2)] w')
qed

lemma bj_complete_Cons:
  "bj_complete w (b # raw) =
     (case bj_write_byte w b of Inl w' \<Rightarrow> Err (bj_full w') | Inr w' \<Rightarrow> bj_complete w' raw)"
  by (cases "bj_write_byte w b") (simp_all add: bj_complete_def)

lemma bj_complete_reference:
  assumes "length (bj_bytes w) \<le> MAX_MESSAGE" and "bj_unicode_prefix w \<le> 2"
    and "bj_quoted w \<or> \<not> bj_escaped w"
  shows "bj_complete w raw =
    bounded (bj_bytes w @ escape (pending (bj_unicode_prefix w) @ compact (bj_quoted w) (bj_escaped w) raw))"
  using assms
proof (induction raw arbitrary: w)
  case Nil
  then show ?case by (simp add: bj_complete_Nil)
next
  case (Cons b raw)
  have emitted: "(case bj_emit v b of Inl w' \<Rightarrow> Err (bj_full w') | Inr w' \<Rightarrow> bj_complete w' raw) =
      bounded (bj_bytes w @ escape (pending (bj_unicode_prefix w) @ b # compact (bj_quoted v) (bj_escaped v) raw))"
    if "bj_bytes v = bj_bytes w" "bj_unicode_prefix v = bj_unicode_prefix w" "bj_quoted v \<or> \<not> bj_escaped v"
    for v
    using bj_complete_emit [of v raw "compact (bj_quoted v) (bj_escaped v) raw" b]
      Cons.IH Cons.prems(1,2) that by simp
  consider (esc) "bj_quoted w" "bj_escaped w" | (str) "bj_quoted w" "\<not> bj_escaped w"
    | (out) "\<not> bj_quoted w" "\<not> bj_escaped w" using Cons.prems(3) by blast
  then show ?case
  proof cases
    case esc
    then show ?thesis by (simp add: bj_complete_Cons bj_write_byte_def emitted)
  next
    case str
    then show ?thesis by (simp add: bj_complete_Cons bj_write_byte_def emitted)
  next
    case out
    have flags: "bj_quoted w = False" "bj_escaped w = False" using out by auto
    consider "b = CHR 0x22" | "is_json_space b" "b \<noteq> CHR 0x22" | "b \<noteq> CHR 0x22" "\<not> is_json_space b" by blast
    then show ?thesis
      using Cons.IH [OF Cons.prems] emitted [of w] emitted [of "w\<lparr>bj_quoted := True\<rparr>"]
      by cases (simp_all add: bj_complete_Cons bj_write_byte_def flags)
  qed
qed

text \<open>The chunks do not matter.\<close>

lemma bj_write_append: "bj_write w (xs @ ys) = and_then (bj_write w xs) (\<lambda>w. bj_write w ys)"
  by (induction xs arbitrary: w) (auto simp: and_then_def split: sum.splits)

lemma bj_write_all_concat: "bj_write_all w cs = bj_write w (concat cs)"
  by (induction cs arbitrary: w) (simp_all add: bj_write_append)


section \<open>Separators\<close>

fun has_line_separator :: "bytes \<Rightarrow> bool" where
  \<comment> \<open>the UTF-8 bytes of U+2028 or U+2029 occur\<close>
  "has_line_separator (a # b # c # bs) =
     ((a = CHR 0xE2 \<and> b = CHR 0x80 \<and> (c = CHR 0xA8 \<or> c = CHR 0xA9)) \<or> has_line_separator (b # c # bs))"
| "has_line_separator _ = False"

lemma has_line_separator_Cons:
  "a \<noteq> CHR 0xE2 \<Longrightarrow> has_line_separator (a # bs) = has_line_separator bs"
  by (cases bs rule: has_line_separator.cases) auto

lemma has_line_separator_lead:
  "has_line_separator (CHR 0xE2 # bs) \<longleftrightarrow>
     (\<exists>c cs. bs = CHR 0x80 # c # cs \<and> (c = CHR 0xA8 \<or> c = CHR 0xA9)) \<or> has_line_separator bs"
  by (cases bs rule: has_line_separator.cases) auto

lemma escape_byte_cases:
  obtains "escape_byte b = [b]" "b \<noteq> CHR ''&''" "b \<noteq> CHR ''<''" "b \<noteq> CHR ''>''"
  | u where "escape_byte b = CHR 0x5C # u" "set u \<subseteq> set ''u0123456789ce''"
  by (cases "b = CHR ''&'' \<or> b = CHR ''<'' \<or> b = CHR ''>''") (auto simp: escape_byte_def)

lemma escape_head:
  assumes "escape (a # bs) = x # xs" and "128 \<le> code x"
  shows "x = a \<and> (a = CHR 0xE2 \<or> xs = escape bs)"
proof (cases "a = CHR 0xE2")
  case True
  then show ?thesis
    using assms by (cases bs rule: has_line_separator.cases)
      (auto simp: escape_byte_def code_def split: if_splits)
next
  case False
  then show ?thesis
    using assms by (auto simp: escape_plain escape_byte_def code_def split: if_splits)
qed

lemma escape_no_separator: "\<not> has_line_separator (escape bs)"
proof (induction bs rule: escape.induct)
  case (1 a b c bs)
  have skip: "\<not> has_line_separator (CHR 0x5C # u @ xs)"
    if "\<not> has_line_separator xs" "set u \<subseteq> set ''u0123456789ce''" for u xs
    using that by (induction u) (auto simp: has_line_separator_Cons)
  show ?case
  proof (cases "a = CHR 0xE2 \<and> b = CHR 0x80 \<and> (c = CHR 0xA8 \<or> c = CHR 0xA9)")
    case True
    then show ?thesis using 1 by (auto simp: has_line_separator_Cons)
  next
    case False
    then have esc: "escape (a # b # c # bs) = escape_byte a @ escape (b # c # bs)" by auto
    have IH: "\<not> has_line_separator (escape (b # c # bs))" using 1 False by auto
    show ?thesis
    proof (cases a rule: escape_byte_cases)
      case (2 u)
      then show ?thesis using esc skip [OF IH] by simp
    next
      case plain: 1
      have "x = CHR 0xA8 \<or> x = CHR 0xA9 \<Longrightarrow> escape (b # c # bs) \<noteq> CHR 0x80 # x # xs" if "a = CHR 0xE2" for x xs
      proof
        assume x: "x = CHR 0xA8 \<or> x = CHR 0xA9" and eq: "escape (b # c # bs) = CHR 0x80 # x # xs"
        then have "b = CHR 0x80" and "escape (c # bs) = x # xs"
          using escape_head [OF eq] by (auto simp: code_def)
        moreover from this(2) x have "c = x"
          using escape_head [of c bs x xs] by (auto simp: code_def)
        ultimately show False using False x that by auto
      qed
      then show ?thesis
        using plain IH esc by (cases "a = CHR 0xE2") (auto simp: has_line_separator_Cons has_line_separator_lead)
    qed
  qed
next
  case "2_1"
  then show ?case by (simp add: escape_byte_def)
next
  case "2_2"
  then show ?case by (auto simp: escape_byte_def)
qed auto

lemma escape_html_safe: "set (escape bs) \<inter> {CHR ''&'', CHR ''<'', CHR ''>''} = {}"
  by (induction bs rule: escape.induct) (auto simp: escape_byte_def)


section \<open>Properties\<close>

lemma bj_new_complete: "bj_complete bj_new raw = bounded (escape (compact False False raw))"
  using bj_complete_reference [of bj_new raw] by (simp add: bj_new_def)

text \<open>
  C28: encoding a message whose fields and payload are within limits yields exactly the two-pass
  reference (whitespace outside strings removed, then HTML-sensitive characters and U+2028/U+2029
  escaped) of what the serialiser wrote, however the serialiser cut it into chunks, even inside a
  string or a code point; and it fails, with the message-limit error, exactly when that text
  exceeds 4 MiB. The streaming writer itself never reports a JSON error.
\<close>

theorem encode_is_reference:
  assumes "validate_fields m = Ok ()" and "\<forall>p. m_payload m = Some p \<longrightarrow> length p \<le> MAX_MESSAGE"
    and "to_writer m = Some chunks"
  shows "message_encode to_writer m =
    (let out = escape (compact False False (concat chunks)) in
     if length out \<le> MAX_MESSAGE then Ok out else Err MessageLimit)"
proof -
  have payload: "(case m_payload m of None \<Rightarrow> False | Some p \<Rightarrow> MAX_MESSAGE < length p) = False"
    using assms(2) by (cases "m_payload m") (auto simp: not_less)
  have "(case bj_write_all bj_new chunks of
           Inl w \<Rightarrow> Err (if bj_full w then MessageLimit else InvalidJson)
         | Inr w \<Rightarrow> (case bj_finish w of Inl _ \<Rightarrow> Err MessageLimit | Inr out \<Rightarrow> Ok out)) =
        (case bj_complete bj_new (concat chunks) of
           Inl full \<Rightarrow> Err (if full then MessageLimit else InvalidJson) | Inr out \<Rightarrow> Ok out)"
    by (auto simp: bj_write_all_concat bj_complete_def split: sum.splits)
  then show ?thesis
    using assms(1,3) payload by (simp add: message_encode_def bj_new_complete bounded_def Let_def)
qed

definition sample_message :: message where
  "sample_message = \<lparr>m_kind = ''response'', m_id = ''a1'', m_operation = [],
     m_session = \<lparr>ws_id = [], ws_created_at = 0\<rparr>, m_payload = None, m_data = [], m_cols = 0,
     m_rows = 0, m_error = [], m_received = 0, m_capabilities = []\<rparr>"

theorem encode_is_reference_witness:
  "message_encode (\<lambda>_. Some [[CHR 0x7B, CHR '' '', CHR 0x22], [CHR ''<'', CHR 0x22, CHR 0x7D]]) sample_message =
   Ok ([CHR 0x7B, CHR 0x22, CHR 0x5C] @ ''u003c'' @ [CHR 0x22, CHR 0x7D])"
proof -
  have fields: "validate_fields sample_message = Ok ()"
    by (simp add: validate_fields_def sample_message_def wire_limits)
  have payload: "\<forall>p. m_payload sample_message = Some p \<longrightarrow> length p \<le> MAX_MESSAGE"
    by (simp add: sample_message_def)
  show ?thesis
    using encode_is_reference [OF fields payload, where to_writer =
        "\<lambda>_. Some [[CHR 0x7B, CHR '' '', CHR 0x22], [CHR ''<'', CHR 0x22, CHR 0x7D]]", OF refl]
    by (simp add: is_json_space_def escape_byte_def wire_limits)
qed

text \<open>
  A frame that was encoded is at most 4 MiB, holds no \<open>&\<close>, \<open><\<close> or \<open>>\<close> byte and nowhere the
  UTF-8 bytes of U+2028 or U+2029, whatever the serialiser produced, so it can be embedded in a
  page or script without further escaping.
\<close>

lemma encoded_frame_safe:
  assumes "message_encode to_writer m = Ok out"
  shows "length out \<le> MAX_MESSAGE \<and> set out \<inter> {CHR ''&'', CHR ''<'', CHR ''>''} = {} \<and>
    \<not> has_line_separator out"
proof -
  obtain chunks w where w: "bj_write_all bj_new chunks = Inr w" and out: "bj_finish w = Ok out"
    using assms by (auto simp: message_encode_def and_then_Ok_iff split: if_splits option.splits sum.splits)
  then have "bj_complete bj_new (concat chunks) = Ok out"
    by (simp add: bj_complete_def bj_write_all_concat)
  then have "out = escape (compact False False (concat chunks))" and "length out \<le> MAX_MESSAGE"
    by (auto simp: bj_new_complete bounded_def split: if_splits)
  then show ?thesis
    using escape_html_safe escape_no_separator by simp
qed

text \<open>
  A frame that decodes is at most 4 MiB, begins (after JSON whitespace) with an object brace, and its
  message is within the limits of id, error and data; encoding it again can only fail on the
  serialised length, never with a field error.
\<close>

lemma decode_enforces_limits:
  assumes "message_decode from_slice raw = Ok m"
  shows "length raw \<le> MAX_MESSAGE \<and> find (\<lambda>b. \<not> is_json_space b) raw = Some (CHR 0x7B) \<and>
    from_slice raw = Some m \<and> length (m_id m) \<le> 64 \<and> length (m_error m) \<le> 128 \<and>
    length (m_data m) \<le> MAX_UPLOAD_CHUNK \<and> (m_kind m \<noteq> ''upload-data'' \<longrightarrow> length (m_data m) \<le> MAX_DATA) \<and>
    message_encode to_writer m \<noteq> Err FieldLimit"
proof -
  have raw: "length raw \<le> MAX_MESSAGE" "find (\<lambda>b. \<not> is_json_space b) raw = Some (CHR 0x7B)"
    and m: "from_slice raw = Some m" and ok: "validate_fields m = Ok ()"
    using assms by (auto simp: message_decode_def and_then_Ok_iff split: if_splits option.splits)
  have "length (m_id m) \<le> 64 \<and> length (m_error m) \<le> 128 \<and> length (m_data m) \<le> MAX_UPLOAD_CHUNK \<and>
    (m_kind m \<noteq> ''upload-data'' \<longrightarrow> length (m_data m) \<le> MAX_DATA)"
    using ok by (auto simp: validate_fields_def Let_def wire_limits split: if_splits)
  moreover have "message_encode to_writer m \<noteq> Err FieldLimit"
    using ok by (auto simp: message_encode_def split: option.splits sum.splits if_splits)
  ultimately show ?thesis using raw m by blast
qed

end
