(* ===== verification/Model.thy ===== *)
theory Model
  imports Wire
begin

text \<open>
  The validators and text helpers of \<open>hmux-model/src/lib.rs\<close>. A string of which the code reads only
  bytes (an identifier) is a byte string; a string whose characters it inspects (a label) is the
  list of its Unicode scalar values, with \<open>len()\<close> the length of its UTF-8 encoding.
\<close>

section \<open>Identifiers\<close>

record session_identity =
  si_id :: string
  si_created_at :: int

definition validate_stable_id :: "string \<Rightarrow> bool" where
  \<comment> \<open>\<open>is_ok()\<close> of the source's result\<close>
  "validate_stable_id sid \<longleftrightarrow>
     (case sid of
        [] \<Rightarrow> False
      | b # bs \<Rightarrow> length sid \<le> 63 \<and> is_ascii_lowercase b \<and>
          \<not> list_ex (\<lambda>b. \<not> is_ascii_lowercase b \<and> \<not> is_ascii_digit b \<and> b \<noteq> CHR ''-'') bs)"

definition validate_session_id :: "string \<Rightarrow> bool" where
  "validate_session_id sid \<longleftrightarrow>
     \<not> (length sid < 2 \<or> 13 < length sid \<or> hd sid \<noteq> CHR ''$'' \<or> \<not> list_all is_ascii_digit (tl sid))"

lemma validate_session_id_iff:
  "validate_session_id sid \<longleftrightarrow>
     (\<exists>ds. sid = CHR ''$'' # ds \<and> 1 \<le> length ds \<and> length ds \<le> 12 \<and> list_all is_ascii_digit ds)"
  by (cases sid) (auto simp: validate_session_id_def Suc_le_eq)

section \<open>Text\<close>

type_synonym utext = "nat list"

definition len_utf8 :: "nat \<Rightarrow> nat" where
  "len_utf8 c = (if c < 0x80 then 1 else if c < 0x800 then 2 else if c < 0x10000 then 3 else 4)"

definition text_len :: "utext \<Rightarrow> nat" where
  "text_len cs = sum_list (map len_utf8 cs)"

definition is_control :: "nat \<Rightarrow> bool" where
  \<comment> \<open>\<open>char::is_control\<close>: the general category Cc\<close>
  "is_control c \<longleftrightarrow> c < 0x20 \<or> (0x7F \<le> c \<and> c < 0xA0)"

definition is_bidi_control :: "nat \<Rightarrow> bool" where
  "is_bidi_control c \<longleftrightarrow>
     c = 0x061C \<or> c = 0x200E \<or> c = 0x200F \<or> (0x202A \<le> c \<and> c \<le> 0x202E) \<or> (0x2066 \<le> c \<and> c \<le> 0x2069)"

definition is_whitespace :: "nat \<Rightarrow> bool" where
  \<comment> \<open>\<open>char::is_whitespace\<close>: the property White\_Space\<close>
  "is_whitespace c \<longleftrightarrow>
     (0x09 \<le> c \<and> c \<le> 0x0D) \<or> c = 0x20 \<or> c = 0x85 \<or> c = 0xA0 \<or> c = 0x1680 \<or> (0x2000 \<le> c \<and> c \<le> 0x200A) \<or>
     c = 0x2028 \<or> c = 0x2029 \<or> c = 0x202F \<or> c = 0x205F \<or> c = 0x3000"

definition has_control :: "utext \<Rightarrow> bool" where
  "has_control v = list_ex (\<lambda>c. is_control c \<or> is_bidi_control c) v"

definition trim :: "utext \<Rightarrow> utext" where
  "trim cs = rev (dropWhile is_whitespace (rev (dropWhile is_whitespace cs)))"

fun safe_text_loop :: "nat \<Rightarrow> utext \<Rightarrow> utext \<Rightarrow> utext" where
  "safe_text_loop max_bytes acc [] = acc"
| "safe_text_loop max_bytes acc (c # cs) =
     (let c = (if is_control c \<or> is_bidi_control c then 0x20 else c) in
      if max_bytes < text_len acc + len_utf8 c then acc
      else safe_text_loop max_bytes (acc @ [c]) cs)"

definition safe_text :: "utext \<Rightarrow> nat \<Rightarrow> utext" where
  "safe_text v max_bytes =
     (if max_bytes = 0 then [] else trim (safe_text_loop max_bytes [] v))"

definition safe_metadata :: "utext \<Rightarrow> nat \<Rightarrow> bool" where
  "safe_metadata v max_bytes \<longleftrightarrow>
     v \<noteq> [] \<and> text_len v \<le> max_bytes \<and> \<not> has_control v"

section \<open>The profile inventory\<close>

record profile =
  pr_id :: string
  pr_label :: utext
  pr_default_directory :: utext
  pr_command :: "utext list option"
  pr_tags :: "utext list option"

record inventory =
  in_schema_version :: int
  in_revision :: utext
  in_profiles :: "profile list option"

datatype inventory_error =
    SchemaVersion | Revision | NoProfile | StableId string | DuplicateProfile | ProfileLabel
  | ProfileCommand | ProfileArgument | ProfileDirectory | ProfileTags

definition unwrap_or_default :: "'a list option \<Rightarrow> 'a list" where
  "unwrap_or_default v = (case v of None \<Rightarrow> [] | Some xs \<Rightarrow> xs)"

definition check_profile :: "profile \<Rightarrow> (inventory_error, unit) result" where
  \<comment> \<open>the loop body after the duplicate test\<close>
  "check_profile p =
     (if \<not> safe_metadata (pr_label p) 256 then Err ProfileLabel
      else let command = unwrap_or_default (pr_command p) in
      if command = [] \<or> hd command = [] \<or> 64 < length command then Err ProfileCommand
      else if list_ex (\<lambda>arg. 4096 < text_len arg \<or> has_control arg) command then Err ProfileArgument
      else if pr_default_directory p = [] \<or> 4096 < text_len (pr_default_directory p) \<or>
              has_control (pr_default_directory p) then Err ProfileDirectory
      else let tags = unwrap_or_default (pr_tags p) in
      if 64 < length tags \<or> list_ex (\<lambda>tag. \<not> safe_metadata tag 64) tags then Err ProfileTags
      else Ok ())"

fun check_profiles :: "string list \<Rightarrow> profile list \<Rightarrow> (inventory_error, unit) result" where
  "check_profiles seen [] = Ok ()"
| "check_profiles seen (p # ps) =
     (if \<not> validate_stable_id (pr_id p) then Err (StableId (pr_id p))
      else if pr_id p \<in> set seen then Err DuplicateProfile
      else and_then (check_profile p) (\<lambda>_. check_profiles (pr_id p # seen) ps))"

definition inventory_validate :: "inventory \<Rightarrow> (inventory_error, unit) result" where
  "inventory_validate iv =
     (if in_schema_version iv \<noteq> 1 then Err SchemaVersion
      else if \<not> safe_metadata (in_revision iv) 128 then Err Revision
      else let profiles = unwrap_or_default (in_profiles iv) in
      if profiles = [] then Err NoProfile
      else check_profiles [] profiles)"

section \<open>Facts on the text helpers\<close>

lemma len_utf8_pos: "0 < len_utf8 c"
  by (simp add: len_utf8_def)

lemma text_len_simps [simp]:
  "text_len [] = 0" "text_len (c # cs) = len_utf8 c + text_len cs"
  "text_len (xs @ ys) = text_len xs + text_len ys" "text_len (rev xs) = text_len xs"
  by (simp_all add: text_len_def rev_map [symmetric] sum_list_rev)

lemma text_len_dropWhile: "text_len (dropWhile P xs) \<le> text_len xs"
  by (induction xs) auto

lemma text_len_trim: "text_len (trim cs) \<le> text_len cs"
proof -
  have "text_len (dropWhile is_whitespace (rev (dropWhile is_whitespace cs)))
      \<le> text_len (dropWhile is_whitespace cs)"
    using text_len_dropWhile [of is_whitespace "rev (dropWhile is_whitespace cs)"] by simp
  also have "\<dots> \<le> text_len cs" by (rule text_len_dropWhile)
  finally show ?thesis by (simp add: trim_def)
qed

lemma set_trim: "set (trim cs) \<subseteq> set cs"
  by (auto simp: trim_def dest!: set_dropWhileD)

lemma trim_id: "cs = [] \<or> (\<not> is_whitespace (hd cs) \<and> \<not> is_whitespace (last cs)) \<Longrightarrow> trim cs = cs"
proof -
  have drop: "dropWhile is_whitespace xs = xs" if "xs = [] \<or> \<not> is_whitespace (hd xs)" for xs
    using that by (cases xs) auto
  assume "cs = [] \<or> (\<not> is_whitespace (hd cs) \<and> \<not> is_whitespace (last cs))"
  then show ?thesis by (auto simp: trim_def drop hd_rev)
qed

lemma hd_dropWhile_not: "dropWhile P xs \<noteq> [] \<Longrightarrow> \<not> P (hd (dropWhile P xs))"
  by (induction xs) auto

lemma last_dropWhile: "dropWhile P xs \<noteq> [] \<Longrightarrow> last (dropWhile P xs) = last xs"
  by (induction xs) auto

lemma trim_ends: "trim cs = [] \<or> (\<not> is_whitespace (hd (trim cs)) \<and> \<not> is_whitespace (last (trim cs)))"
proof (cases "trim cs = []")
  case False
  let ?d = "dropWhile is_whitespace cs" and ?e = "dropWhile is_whitespace (rev (dropWhile is_whitespace cs))"
  have ne: "?e \<noteq> []" using False by (simp add: trim_def)
  then have d: "?d \<noteq> []" by (metis dropWhile.simps(1) rev.simps(1))
  have "\<not> is_whitespace (hd ?e)" by (rule hd_dropWhile_not [OF ne])
  moreover have "last ?e = hd ?d"
    using last_dropWhile [OF ne] d by (simp add: last_rev)
  moreover have "\<not> is_whitespace (hd ?d)" by (rule hd_dropWhile_not [OF d])
  ultimately show ?thesis
    using ne by (simp add: trim_def hd_rev last_rev)
qed simp

lemma trim_trim [simp]: "trim (trim cs) = trim cs"
  by (rule trim_id) (rule trim_ends)

lemma safe_text_loop_bound:
  "text_len acc \<le> m \<Longrightarrow> text_len (safe_text_loop m acc cs) \<le> m"
  by (induction m acc cs rule: safe_text_loop.induct) (auto simp: Let_def)

lemma safe_text_loop_control:
  "\<not> has_control acc \<Longrightarrow> \<not> has_control (safe_text_loop m acc cs)"
  by (induction m acc cs rule: safe_text_loop.induct)
    (auto simp: Let_def has_control_def is_control_def is_bidi_control_def)

lemma safe_text_loop_id:
  "\<not> has_control cs \<Longrightarrow> text_len acc + text_len cs \<le> m \<Longrightarrow> safe_text_loop m acc cs = acc @ cs"
  by (induction m acc cs rule: safe_text_loop.induct) (auto simp: Let_def has_control_def)

lemma has_control_subset: "set xs \<subseteq> set ys \<Longrightarrow> has_control xs \<Longrightarrow> has_control ys"
  by (auto simp: has_control_def list_ex_iff)

lemma safe_text_clean: "\<not> has_control (safe_text v m)"
  using has_control_subset [OF set_trim, of "safe_text_loop m [] v"]
    safe_text_loop_control [of "[]" m v]
  by (auto simp: safe_text_def has_control_def)

lemma safe_text_bound: "text_len (safe_text v m) \<le> m"
  using text_len_trim [of "safe_text_loop m [] v"] safe_text_loop_bound [of "[]" m v]
  by (simp add: safe_text_def)

section \<open>Properties\<close>

text \<open>
  Cleaned display text never exceeds its byte budget, holds no control or bidirectional
  override character, neither begins nor ends with whitespace, and cleaning it again changes
  nothing; when it is nonempty it passes the metadata test for the same budget.
\<close>

lemma safe_text_contract:
  "text_len (safe_text v m) \<le> m \<and> \<not> has_control (safe_text v m) \<and>
   trim (safe_text v m) = safe_text v m \<and>
   safe_text (safe_text v m) m = safe_text v m \<and>
   (safe_text v m = [] \<or> safe_metadata (safe_text v m) m)"
proof (intro conjI)
  show "text_len (safe_text v m) \<le> m" by (rule safe_text_bound)
  show "\<not> has_control (safe_text v m)" by (rule safe_text_clean)
  show trim: "trim (safe_text v m) = safe_text v m"
    by (simp add: safe_text_def trim_def [of "[]"])
  have "safe_text_loop m [] (safe_text v m) = safe_text v m"
    using safe_text_loop_id [OF safe_text_clean, of "[]"] safe_text_bound by simp
  then show "safe_text (safe_text v m) m = safe_text v m"
    using trim by (simp add: safe_text_def [of "safe_text v m"]) (simp add: safe_text_def)
  show "safe_text v m = [] \<or> safe_metadata (safe_text v m) m"
    by (simp add: safe_metadata_def safe_text_bound safe_text_clean)
qed

text \<open>
  The session-identity tests of the model and of the wire format accept exactly the same
  identities: a dollar sign, one to twelve digits, and a positive creation time.
\<close>

lemma session_tests_agree:
  "wire_session_is_valid \<lparr>ws_id = si_id s, ws_created_at = si_created_at s\<rparr> \<longleftrightarrow>
     validate_session_id (si_id s) \<and> 0 < si_created_at s"
  by (cases "si_id s") (auto simp: wire_session_is_valid_def validate_session_id_iff)

lemma check_profiles_ok:
  "check_profiles seen ps = Ok () \<longleftrightarrow>
     list_all (\<lambda>p. validate_stable_id (pr_id p) \<and> check_profile p = Ok ()) ps \<and>
     distinct (map pr_id ps) \<and> set (map pr_id ps) \<inter> set seen = {}"
proof (induction ps arbitrary: seen)
  case (Cons p ps)
  show ?case
    using Cons.IH [of "pr_id p # seen"] by (auto simp: and_then_Ok_iff)
qed simp

lemma check_profile_ok:
  "check_profile p = Ok () \<Longrightarrow>
     safe_metadata (pr_label p) 256 \<and>
     (\<exists>prog args. pr_command p = Some (prog # args) \<and> prog \<noteq> [] \<and> length args < 64 \<and>
        (\<forall>a \<in> set (prog # args). text_len a \<le> 4096 \<and> \<not> has_control a)) \<and>
     text_len (pr_default_directory p) \<le> 4096 \<and> \<not> has_control (pr_default_directory p)"
  by (cases "unwrap_or_default (pr_command p)")
    (auto simp: check_profile_def Let_def unwrap_or_default_def list_ex_iff not_less
      split: if_splits option.splits)

text \<open>
  An inventory that validates has at least one profile, profile ids that are pairwise distinct
  stable ids, and for every profile a nonempty program name and at most 63 further arguments, each
  of at most 4096 bytes and free of control characters, so nothing it says can smuggle a control
  character into a command line.
\<close>

lemma inventory_validate_sound:
  assumes "inventory_validate iv = Ok ()"
  shows "\<exists>ps. in_profiles iv = Some ps \<and> ps \<noteq> [] \<and> distinct (map pr_id ps) \<and>
    (\<forall>p \<in> set ps. validate_stable_id (pr_id p) \<and> safe_metadata (pr_label p) 256 \<and>
      (\<exists>prog args. pr_command p = Some (prog # args) \<and> prog \<noteq> [] \<and> length args < 64 \<and>
        (\<forall>a \<in> set (prog # args). text_len a \<le> 4096 \<and> \<not> has_control a)) \<and>
      text_len (pr_default_directory p) \<le> 4096 \<and> \<not> has_control (pr_default_directory p))"
proof -
  have ne: "unwrap_or_default (in_profiles iv) \<noteq> []"
    and ok: "check_profiles [] (unwrap_or_default (in_profiles iv)) = Ok ()"
    using assms by (auto simp: inventory_validate_def Let_def split: if_splits)
  then obtain ps where ps: "in_profiles iv = Some ps" "ps \<noteq> []" "check_profiles [] ps = Ok ()"
    by (cases "in_profiles iv") (auto simp: unwrap_or_default_def)
  then show ?thesis
    using check_profile_ok by (intro exI [of _ ps]) (auto simp: check_profiles_ok list_all_iff)
qed

end
