(* ===== verification/Workspace.thy ===== *)
theory Workspace
  imports Model "HOL-Library.Multiset"
begin

text \<open>
  The shared-tab reconciliation of \<open>hmux-model/src/workspace.rs\<close>: the three-way merge of a device's
  change into the stored tabs, the rebasing of tab identities along restore lineages, and
  \<open>reconcile\<close>, which composes them with the replay history and the revision counter.
\<close>

section \<open>Data\<close>

definition MAX_TABS :: nat where "MAX_TABS = 32"
definition MAX_BYTES :: nat where "MAX_BYTES = 32768"
definition HISTORY :: nat where "HISTORY = 64"
definition U64_MAX :: nat where "U64_MAX = 18446744073709551615"

lemmas workspace_limits [limits] = MAX_TABS_def MAX_BYTES_def HISTORY_def U64_MAX_def

record session_lineage =
  sl_id :: string
  sl_created_at :: int
  sl_restored_from :: "session_identity option"

record snapshot =
  sn_conflict :: string
  sn_applied :: "string list"
  sn_version :: int
  sn_initialized :: bool
  sn_revision :: nat
  sn_tabs :: "session_identity list"
  sn_selected :: "session_identity option"

record change =
  ch_operation_id :: string
  ch_revision :: nat
  ch_base :: "session_identity list"
  ch_tabs :: "session_identity list"
  ch_selected :: "session_identity option"

datatype workspace_error = WInvalid | TooManyTabs | RevisionExhausted

section \<open>Validity\<close>

definition valid_ids :: "session_identity list \<Rightarrow> bool" where
  "valid_ids ids \<longleftrightarrow>
     length ids \<le> MAX_TABS \<and>
     list_all (\<lambda>i. validate_session_id (si_id (ids ! i)) \<and> 0 < si_created_at (ids ! i) \<and>
       \<not> list_ex (\<lambda>previous. si_id previous = si_id (ids ! i)) (take i ids)) [0..<length ids]"

definition snapshot_empty :: snapshot where
  "snapshot_empty = \<lparr>sn_conflict = [], sn_applied = [], sn_version = 1, sn_initialized = False,
     sn_revision = 0, sn_tabs = [], sn_selected = None\<rparr>"

definition selected_in :: "session_identity option \<Rightarrow> session_identity list \<Rightarrow> bool" where
  "selected_in sel tabs = (case sel of None \<Rightarrow> True | Some s \<Rightarrow> s \<in> set tabs)"

definition snapshot_valid :: "snapshot \<Rightarrow> bool" where
  "snapshot_valid s \<longleftrightarrow>
     (sn_conflict s = [] \<or> sn_conflict s = ''workspace_conflict'') \<and>
     length (sn_applied s) \<le> HISTORY \<and> sn_version s = 1 \<and> valid_ids (sn_tabs s) \<and>
     selected_in (sn_selected s) (sn_tabs s)"

definition snapshot_decode :: "(bytes \<Rightarrow> snapshot option) \<Rightarrow> bytes \<Rightarrow> (workspace_error, snapshot) result" where
  \<comment> \<open>the parameter is \<open>serde_json::from_slice\<close>\<close>
  "snapshot_decode from_slice raw =
     (if MAX_BYTES < length raw then Err WInvalid
      else case from_slice raw of
             None \<Rightarrow> Err WInvalid
           | Some state \<Rightarrow> if \<not> snapshot_valid state then Err WInvalid else Ok state)"

definition change_valid :: "change \<Rightarrow> bool" where
  "change_valid c \<longleftrightarrow>
     16 \<le> length (ch_operation_id c) \<and> length (ch_operation_id c) \<le> 80 \<and>
     list_all (\<lambda>b. is_ascii_alphanumeric b \<or> b = CHR ''-'') (ch_operation_id c) \<and>
     valid_ids (ch_base c) \<and> valid_ids (ch_tabs c) \<and> selected_in (ch_selected c) (ch_tabs c)"

section \<open>Merge\<close>

fun position :: "'a \<Rightarrow> 'a list \<Rightarrow> nat option" where
  "position x [] = None"
| "position x (y # ys) = (if x = y then Some 0 else map_option Suc (position x ys))"

fun find_map :: "('a \<Rightarrow> 'b option) \<Rightarrow> 'a list \<Rightarrow> 'b option" where
  "find_map f [] = None"
| "find_map f (x # xs) = (case f x of Some y \<Rightarrow> Some y | None \<Rightarrow> find_map f xs)"

definition insert_at :: "nat \<Rightarrow> 'a \<Rightarrow> 'a list \<Rightarrow> 'a list" where
  "insert_at p x xs = take p xs @ x # drop p xs"

definition insert_position :: "session_identity list \<Rightarrow> nat \<Rightarrow> session_identity list \<Rightarrow> nat" where
  "insert_position wanted index tabs =
     (case find_map (\<lambda>x. position x tabs) (drop (Suc index) wanted) of
        Some p \<Rightarrow> p
      | None \<Rightarrow>
          (case find_map (\<lambda>x. map_option Suc (position x tabs)) (rev (take index wanted)) of
             Some p \<Rightarrow> p | None \<Rightarrow> length tabs))"

definition merge_tab :: "change \<Rightarrow> nat \<Rightarrow> session_identity list \<Rightarrow> session_identity list" where
  \<comment> \<open>one iteration of the insertion loop\<close>
  "merge_tab c index tabs =
     (let x = ch_tabs c ! index in
      if x \<in> set (ch_base c) \<or> x \<in> set tabs then tabs
      else let tabs = filter (\<lambda>old. si_id old \<noteq> si_id x) tabs in
           insert_at (insert_position (ch_tabs c) index tabs) x tabs)"

definition retained :: "change \<Rightarrow> session_identity list \<Rightarrow> session_identity list" where
  "retained c tabs = filter (\<lambda>x. x \<notin> set (ch_base c) \<or> x \<in> set (ch_tabs c)) tabs"

definition merge_insert :: "change \<Rightarrow> session_identity list \<Rightarrow> session_identity list" where
  "merge_insert c tabs = fold (merge_tab c) [0..<length (ch_tabs c)] tabs"

definition push_new :: "'a \<Rightarrow> 'a list \<Rightarrow> 'a list" where
  "push_new x xs = (if x \<in> set xs then xs else xs @ [x])"

definition reordered :: "change \<Rightarrow> bool" where
  "reordered c \<longleftrightarrow>
     filter (\<lambda>x. x \<in> set (ch_tabs c)) (ch_base c) \<noteq> filter (\<lambda>x. x \<in> set (ch_base c)) (ch_tabs c)"

definition merge_reorder :: "change \<Rightarrow> session_identity list \<Rightarrow> session_identity list" where
  "merge_reorder c tabs =
     (if reordered c then fold push_new tabs (filter (\<lambda>x. x \<in> set tabs) (ch_tabs c)) else tabs)"

definition merge_tabs :: "change \<Rightarrow> session_identity list \<Rightarrow> session_identity list" where
  "merge_tabs c tabs = merge_reorder c (merge_insert c (retained c tabs))"

definition merge :: "snapshot \<Rightarrow> change \<Rightarrow> (workspace_error, snapshot) result" where
  "merge current c =
     (if \<not> snapshot_valid current \<or> \<not> change_valid c then Err WInvalid
      else let tabs = merge_tabs c (sn_tabs current) in
      if MAX_TABS < length tabs then Err TooManyTabs
      else Ok (current\<lparr>sn_version := 1, sn_initialized := True, sn_tabs := tabs, sn_selected := None\<rparr>))"

section \<open>Restore lineages\<close>

definition live :: "session_identity \<Rightarrow> session_lineage list \<Rightarrow> bool" where
  "live x sessions = list_ex (\<lambda>s. sl_id s = si_id x \<and> sl_created_at s = si_created_at x) sessions"

definition lineage_identity :: "session_lineage \<Rightarrow> session_identity" where
  "lineage_identity s = \<lparr>si_id = sl_id s, si_created_at = sl_created_at s\<rparr>"

definition resolve :: "session_lineage list \<Rightarrow> session_identity \<Rightarrow> session_identity" where
  "resolve sessions x =
     (if live x sessions then x
      else case filter (\<lambda>s. sl_restored_from s = Some x) sessions of
             [s] \<Rightarrow> lineage_identity s
           | _ \<Rightarrow> x)"

definition rebase :: "session_lineage list \<Rightarrow> session_identity list \<Rightarrow> session_identity list" where
  "rebase sessions ids = fold (\<lambda>x result. push_new (resolve sessions x) result) ids []"

section \<open>Reconcile\<close>

record transition =
  tr_state :: snapshot
  tr_changed :: bool
  tr_conflict :: bool

definition transition_reply :: "transition \<Rightarrow> snapshot" where
  "transition_reply t =
     (if tr_conflict t then (tr_state t)\<lparr>sn_conflict := ''workspace_conflict''\<rparr> else tr_state t)"

definition rebase_change :: "session_lineage list \<Rightarrow> change \<Rightarrow> change" where
  "rebase_change sessions c =
     c\<lparr>ch_base := rebase sessions (ch_base c), ch_tabs := rebase sessions (ch_tabs c), ch_selected := None\<rparr>"

definition rebase_snapshot :: "session_lineage list \<Rightarrow> snapshot \<Rightarrow> snapshot" where
  \<comment> \<open>the current state after rebasing, with the device-local focus and conflict dropped\<close>
  "rebase_snapshot sessions s =
     s\<lparr>sn_tabs := rebase sessions (sn_tabs s), sn_selected := None, sn_conflict := []\<rparr>"

definition apply_change :: "session_lineage list \<Rightarrow> change \<Rightarrow> snapshot \<Rightarrow> snapshot \<times> bool" where
  \<comment> \<open>the body of \<open>if !current.applied.contains(..)\<close>: the next state and whether it conflicts\<close>
  "apply_change sessions c current =
     (if \<not> change_valid c \<or> sn_revision current < ch_revision c \<or>
         HISTORY < sn_revision current - ch_revision c
      then (current, True)
      else
        let rebased = rebase_change sessions c in
        if list_ex (\<lambda>x. x \<notin> set (ch_base rebased) \<and> \<not> live x sessions) (ch_tabs rebased)
        then (current, True)
        else case merge current rebased of
               Inl _ \<Rightarrow> (current, True)
             | Inr next \<Rightarrow>
                 (next\<lparr>sn_applied := drop_oldest HISTORY (sn_applied next) @ [ch_operation_id c]\<rparr>, False))"

definition reconcile :: "snapshot \<Rightarrow> change option \<Rightarrow> session_lineage list \<Rightarrow> (workspace_error, transition) result" where
  "reconcile before c sessions =
     (if \<not> snapshot_valid before then Err WInvalid
      else
        let current = rebase_snapshot sessions before;
            (current, conflict) =
              (case c of
                 None \<Rightarrow> (current, False)
               | Some c \<Rightarrow>
                   if ch_operation_id c \<in> set (sn_applied current) then (current, False)
                   else apply_change sessions c current) in
        if \<not> snapshot_valid current then Err WInvalid
        else if current \<noteq> before then
          (if U64_MAX \<le> sn_revision before then Err RevisionExhausted
           else Ok \<lparr>tr_state = current\<lparr>sn_revision := Suc (sn_revision before)\<rparr>,
                    tr_changed = True, tr_conflict = conflict\<rparr>)
        else Ok \<lparr>tr_state = current, tr_changed = False, tr_conflict = conflict\<rparr>)"

section \<open>Validity as a set of tabs with distinct ids\<close>

lemma valid_ids_iff:
  "valid_ids ids \<longleftrightarrow>
     length ids \<le> MAX_TABS \<and> distinct (map si_id ids) \<and>
     (\<forall>x \<in> set ids. validate_session_id (si_id x) \<and> 0 < si_created_at x)"
proof -
  have "(\<forall>i < length ids. \<not> list_ex (\<lambda>p. si_id p = si_id (ids ! i)) (take i ids)) \<longleftrightarrow>
      distinct (map si_id ids)"
    by (auto simp: distinct_conv_nth list_ex_length nat_neq_iff)
      (metis linorder_neqE_nat)+
  then show ?thesis
    by (auto simp: valid_ids_def list_all_iff all_set_conv_all_nth)
qed


section \<open>The merge as a set\<close>

lemma set_insert_at [simp]: "set (insert_at p x xs) = insert x (set xs)"
proof -
  have "set (take p xs) \<union> set (drop p xs) = set xs"
    by (metis append_take_drop_id set_append)
  then show ?thesis by (auto simp: insert_at_def)
qed

lemma distinct_map_insert_at [simp]:
  "distinct (map f (insert_at p x xs)) \<longleftrightarrow> f x \<notin> f ` set xs \<and> distinct (map f xs)"
proof -
  have "mset (map f (insert_at p x xs)) = mset (map f (x # take p xs @ drop p xs))"
    by (simp add: insert_at_def del: append_take_drop_id)
  then have "distinct (map f (insert_at p x xs)) = distinct (map f (x # take p xs @ drop p xs))"
    by (rule mset_eq_imp_distinct_iff)
  then show ?thesis by simp
qed

lemma filter_insert_at: "\<not> P x \<Longrightarrow> filter P (insert_at p x xs) = filter P xs"
  by (simp add: insert_at_def) (metis append_take_drop_id filter_append)

lemma fold_push_new:
  "distinct ys \<Longrightarrow> fold push_new ys acc = acc @ filter (\<lambda>x. x \<notin> set acc) ys"
proof (induction ys arbitrary: acc)
  case (Cons y ys)
  then have "filter (\<lambda>x. x \<notin> set (push_new y acc)) ys = filter (\<lambda>x. x \<notin> set acc) ys"
    by (intro filter_cong) (auto simp: push_new_def)
  then show ?case using Cons by (auto simp: push_new_def)
qed simp

text \<open>
  What the merge keeps of the tabs \<open>T\<close> and adds to them once the wanted tabs in \<open>P\<close> have been
  processed: a tab goes when a different tab with its session id is newly wanted.
\<close>

definition merged_set :: "session_identity set \<Rightarrow> session_identity set \<Rightarrow> session_identity set \<Rightarrow> session_identity set" where
  "merged_set B T P = {t \<in> T. \<not> (\<exists>u \<in> P - B. u \<noteq> t \<and> si_id u = si_id t)} \<union> (P - B)"

definition loop_inv :: "change \<Rightarrow> session_identity list \<Rightarrow> nat \<Rightarrow> session_identity list \<Rightarrow> bool" where
  "loop_inv c T k tabs \<longleftrightarrow>
     distinct (map si_id tabs) \<and>
     set tabs = merged_set (set (ch_base c)) (set T) (set (take k (ch_tabs c))) \<and>
     filter (\<lambda>t. t \<in> set T) tabs = filter (\<lambda>t. t \<in> set tabs) T"

lemma merged_set_insert_base: "x \<in> B \<Longrightarrow> merged_set B T (insert x P) = merged_set B T P"
  by (auto simp: merged_set_def)

lemma merged_set_insert_new:
  assumes "x \<notin> B" and "\<forall>u \<in> P - B. si_id u \<noteq> si_id x"
  shows "merged_set B T (insert x P) = insert x {t \<in> merged_set B T P. si_id t \<noteq> si_id x}"
proof -
  have "insert x P - B = insert x (P - B)" using assms(1) by auto
  then show ?thesis unfolding merged_set_def using assms(2) by auto
qed

lemma wanted_ids_differ:
  assumes "distinct (map si_id wanted)" and "k < length wanted" and "u \<in> set (take k wanted)"
  shows "si_id u \<noteq> si_id (wanted ! k)"
proof -
  obtain i where i: "i < k" "u = wanted ! i"
    using assms(2,3) by (auto simp: in_set_conv_nth)
  then have "map si_id wanted ! i \<noteq> map si_id wanted ! k"
    using assms(1,2) by (subst nth_eq_iff_index_eq) auto
  then show ?thesis using i assms(2) by simp
qed

lemma distinct_ids_eq: "distinct (map f xs) \<Longrightarrow> x \<in> set xs \<Longrightarrow> y \<in> set xs \<Longrightarrow> f x = f y \<Longrightarrow> x = y"
  by (auto simp: distinct_map inj_on_def)

lemma merge_tab_inv:
  assumes wanted: "distinct (map si_id (ch_tabs c))" and k: "k < length (ch_tabs c)"
    and inv: "loop_inv c T k tabs" and T: "distinct (map si_id T)"
  shows "loop_inv c T (Suc k) (merge_tab c k tabs)"
proof -
  let ?x = "ch_tabs c ! k" and ?B = "set (ch_base c)" and ?P = "set (take k (ch_tabs c))"
  have P: "set (take (Suc k) (ch_tabs c)) = insert ?x ?P"
    using k by (simp add: take_Suc_conv_app_nth)
  have dist: "distinct (map si_id tabs)" and tabs: "set tabs = merged_set ?B (set T) ?P"
    and order: "filter (\<lambda>t. t \<in> set T) tabs = filter (\<lambda>t. t \<in> set tabs) T"
    using inv by (auto simp: loop_inv_def)
  have differ: "\<forall>u \<in> ?P - ?B. si_id u \<noteq> si_id ?x"
    using wanted_ids_differ [OF wanted k] by blast
  consider (base) "?x \<in> ?B" | (there) "?x \<notin> ?B" "?x \<in> set tabs" | (new) "?x \<notin> ?B" "?x \<notin> set tabs"
    by blast
  then show ?thesis
  proof cases
    case base
    then show ?thesis
      using inv by (simp add: loop_inv_def merge_tab_def P merged_set_insert_base)
  next
    case there
    have "insert ?x {t \<in> set tabs. si_id t \<noteq> si_id ?x} = set tabs"
      using there(2) distinct_ids_eq [OF dist] by blast
    then have "merged_set ?B (set T) (insert ?x ?P) = set tabs"
      using merged_set_insert_new [OF there(1) differ] tabs by simp
    then show ?thesis
      using there dist order by (simp add: loop_inv_def merge_tab_def P)
  next
    case new
    let ?tabs = "filter (\<lambda>old. si_id old \<noteq> si_id ?x) tabs"
    have step: "merge_tab c k tabs = insert_at (insert_position (ch_tabs c) k ?tabs) ?x ?tabs"
      using new by (simp add: merge_tab_def Let_def)
    have set: "merged_set ?B (set T) (insert ?x ?P) = insert ?x (set ?tabs)"
      using merged_set_insert_new [OF new(1) differ] tabs by simp
    have notT: "?x \<notin> set T"
      using new(2) tabs differ by (auto simp: merged_set_def)
    have "filter (\<lambda>t. t \<in> set T) ?tabs = filter (\<lambda>t. si_id t \<noteq> si_id ?x) (filter (\<lambda>t. t \<in> set T) tabs)"
      by (simp add: filter_filter conj_commute)
    also have "\<dots> = filter (\<lambda>t. t \<in> insert ?x (set ?tabs)) T"
      unfolding order filter_filter using notT by (intro filter_cong) auto
    finally show ?thesis
      using dist notT by (auto simp: loop_inv_def step P set filter_insert_at distinct_map_filter_fst)
  qed
qed

lemma merge_insert_inv:
  assumes "distinct (map si_id (ch_tabs c))" and "distinct (map si_id T)"
  shows "loop_inv c T (length (ch_tabs c)) (merge_insert c T)"
proof -
  have "k \<le> length (ch_tabs c) \<Longrightarrow> loop_inv c T k (fold (merge_tab c) [0..<k] T)" for k
  proof (induction k)
    case 0
    show ?case using assms(2) by (simp add: loop_inv_def merged_set_def)
  next
    case (Suc k)
    then have "loop_inv c T k (fold (merge_tab c) [0..<k] T)" by simp
    then show ?case using merge_tab_inv [OF assms(1) _ _ assms(2), of k] Suc.prems by simp
  qed
  then show ?thesis by (simp add: merge_insert_def)
qed

lemma merge_reorder_set:
  assumes "distinct tabs" and "distinct (ch_tabs c)"
  shows "mset (merge_reorder c tabs) = mset tabs"
proof (cases "reordered c")
  case True
  let ?o = "filter (\<lambda>x. x \<in> set tabs) (ch_tabs c)"
  have eq: "merge_reorder c tabs = ?o @ filter (\<lambda>x. x \<notin> set ?o) tabs"
    using True fold_push_new [OF assms(1)] by (simp add: merge_reorder_def)
  have "distinct (merge_reorder c tabs)"
    unfolding eq using assms by auto
  moreover have "set (merge_reorder c tabs) = set tabs"
    unfolding eq by auto
  ultimately show ?thesis
    using assms(1) by (metis set_eq_iff_mset_eq_distinct)
qed (simp add: merge_reorder_def)

lemma valid_ids_distinct: "valid_ids ids \<Longrightarrow> distinct (map si_id ids) \<and> distinct ids"
  by (auto simp: valid_ids_iff distinct_map)

lemma merge_tabs_facts:
  assumes "valid_ids tabs" and "valid_ids (ch_tabs c)"
  shows merge_tabs_set: "set (merge_tabs c tabs) =
      merged_set (set (ch_base c)) (set (retained c tabs)) (set (ch_tabs c))"
    and merge_tabs_distinct: "distinct (map si_id (merge_tabs c tabs))"
    and merge_tabs_mset: "mset (merge_tabs c tabs) = mset (merge_insert c (retained c tabs))"
    and merge_tabs_order: "\<not> reordered c \<Longrightarrow>
      filter (\<lambda>t. t \<in> set (retained c tabs)) (merge_tabs c tabs) =
      filter (\<lambda>t. t \<in> set (merge_tabs c tabs)) (retained c tabs)"
    and merge_tabs_reordered: "reordered c \<Longrightarrow>
      merge_tabs c tabs = filter (\<lambda>x. x \<in> set (merge_tabs c tabs)) (ch_tabs c) @
        filter (\<lambda>x. x \<notin> set (ch_tabs c)) (merge_insert c (retained c tabs))"
proof -
  let ?T = "retained c tabs" and ?I = "merge_insert c (retained c tabs)"
  have T: "distinct (map si_id ?T)"
    using assms(1) by (simp add: retained_def distinct_map_filter_fst valid_ids_iff)
  have inv: "loop_inv c ?T (length (ch_tabs c)) ?I"
    using assms(2) T by (intro merge_insert_inv) (simp_all add: valid_ids_iff)
  have I: "distinct (map si_id ?I)" "distinct ?I"
    using inv by (auto simp: loop_inv_def distinct_map)
  have wanted: "distinct (ch_tabs c)" using assms(2) valid_ids_distinct by blast
  show mset: "mset (merge_tabs c tabs) = mset ?I"
    unfolding merge_tabs_def by (rule merge_reorder_set [OF I(2) wanted])
  have set: "set (merge_tabs c tabs) = set ?I" using mset by (rule mset_eq_setD)
  then show "set (merge_tabs c tabs) = merged_set (set (ch_base c)) (set ?T) (set (ch_tabs c))"
    using inv by (simp add: loop_inv_def)
  have "mset (map si_id (merge_tabs c tabs)) = mset (map si_id ?I)" using mset by simp
  then show "distinct (map si_id (merge_tabs c tabs))"
    using I(1) by (metis mset_eq_imp_distinct_iff)
  show "filter (\<lambda>t. t \<in> set ?T) (merge_tabs c tabs) = filter (\<lambda>t. t \<in> set (merge_tabs c tabs)) ?T"
    if "\<not> reordered c"
    using that inv by (simp add: merge_tabs_def merge_reorder_def loop_inv_def)
  show "merge_tabs c tabs = filter (\<lambda>x. x \<in> set (merge_tabs c tabs)) (ch_tabs c) @
      filter (\<lambda>x. x \<notin> set (ch_tabs c)) ?I" if "reordered c"
  proof -
    have "merge_tabs c tabs = fold push_new ?I (filter (\<lambda>x. x \<in> set ?I) (ch_tabs c))"
      using that by (simp add: merge_tabs_def merge_reorder_def)
    also have "\<dots> = filter (\<lambda>x. x \<in> set ?I) (ch_tabs c) @
        filter (\<lambda>x. x \<notin> set (filter (\<lambda>x. x \<in> set ?I) (ch_tabs c))) ?I"
      by (rule fold_push_new [OF I(2)])
    also have "filter (\<lambda>x. x \<notin> set (filter (\<lambda>x. x \<in> set ?I) (ch_tabs c))) ?I =
        filter (\<lambda>x. x \<notin> set (ch_tabs c)) ?I"
      by (intro filter_cong) auto
    finally show ?thesis using set by simp
  qed
qed


lemma merge_tabs_subset: "valid_ids tabs \<Longrightarrow> valid_ids (ch_tabs c) \<Longrightarrow> set (merge_tabs c tabs) \<subseteq> set tabs \<union> set (ch_tabs c)"
  by (auto simp: merge_tabs_set merged_set_def retained_def)

lemma merge_Ok:
  assumes "merge current c = Ok res"
  shows "snapshot_valid current" "change_valid c" "length (merge_tabs c (sn_tabs current)) \<le> MAX_TABS"
    "res = current\<lparr>sn_version := 1, sn_initialized := True, sn_tabs := merge_tabs c (sn_tabs current), sn_selected := None\<rparr>"
  using assms by (auto simp: merge_def Let_def split: if_splits)

lemma merge_valid:
  assumes "merge current c = Ok res"
  shows "snapshot_valid res"
proof -
  note ok = merge_Ok [OF assms]
  have tabs: "valid_ids (sn_tabs current)" "valid_ids (ch_tabs c)"
    using ok(1,2) by (simp_all add: snapshot_valid_def change_valid_def)
  have "\<forall>x \<in> set (merge_tabs c (sn_tabs current)). validate_session_id (si_id x) \<and> 0 < si_created_at x"
    using merge_tabs_subset [OF tabs] tabs by (auto simp: valid_ids_iff)
  then have "valid_ids (merge_tabs c (sn_tabs current))"
    using merge_tabs_distinct [OF tabs] ok(3) by (simp add: valid_ids_iff)
  then show ?thesis
    using ok(1,4) by (simp add: snapshot_valid_def selected_in_def)
qed

section \<open>Rebasing\<close>

lemma resolve_idem [simp]: "resolve sessions (resolve sessions x) = resolve sessions x"
proof (cases "live x sessions \<or> (\<nexists>s. filter (\<lambda>s. sl_restored_from s = Some x) sessions = [s])")
  case True
  then have "resolve sessions x = x"
    by (auto simp: resolve_def split: list.splits)
  then show ?thesis by simp
next
  case False
  then obtain s where s: "filter (\<lambda>s. sl_restored_from s = Some x) sessions = [s]" "\<not> live x sessions"
    by auto
  then have "s \<in> set sessions" using filter_eq_ConsD by fastforce
  then have "live (lineage_identity s) sessions"
    by (auto simp: live_def list_ex_iff lineage_identity_def)
  then show ?thesis using s by (simp add: resolve_def)
qed

lemma fold_push_resolve:
  "set (fold (\<lambda>x r. push_new (f x) r) ids acc) = set acc \<union> f ` set ids"
  "distinct acc \<Longrightarrow> distinct (fold (\<lambda>x r. push_new (f x) r) ids acc)"
  by (induction ids arbitrary: acc) (auto simp: push_new_def)

lemma set_rebase: "set (rebase sessions ids) = resolve sessions ` set ids"
  by (simp add: rebase_def fold_push_resolve)

lemma distinct_rebase: "distinct (rebase sessions ids)"
  by (simp add: rebase_def fold_push_resolve)

lemma rebase_fixpoint:
  assumes "distinct ids" and "\<forall>x \<in> set ids. resolve sessions x = x"
  shows "rebase sessions ids = ids"
proof -
  have "rebase sessions ids = fold push_new ids []"
    unfolding rebase_def using assms(2) by (intro fold_cong) auto
  then show ?thesis using fold_push_new [OF assms(1)] by simp
qed

section \<open>Reconciliation\<close>

definition settled :: "session_lineage list \<Rightarrow> snapshot \<Rightarrow> bool" where
  \<comment> \<open>rebasing changes nothing: what every reconciled state satisfies\<close>
  "settled sessions s \<longleftrightarrow>
     (\<forall>x \<in> set (sn_tabs s). resolve sessions x = x) \<and> sn_selected s = None \<and> sn_conflict s = []"

lemma settled_rebase: "settled sessions (rebase_snapshot sessions s)"
  by (auto simp: settled_def rebase_snapshot_def set_rebase)

lemma rebase_settled:
  "settled sessions s \<Longrightarrow> snapshot_valid s \<Longrightarrow> rebase_snapshot sessions s = s"
  by (simp add: rebase_snapshot_def settled_def snapshot_valid_def valid_ids_distinct rebase_fixpoint)

lemma apply_change_Ok:
  assumes "apply_change sessions c s = (s', False)"
  shows "change_valid c" "ch_revision c \<le> sn_revision s" "sn_revision s - ch_revision c \<le> HISTORY"
    "\<forall>x \<in> set (ch_tabs (rebase_change sessions c)). x \<in> set (ch_base (rebase_change sessions c)) \<or> live x sessions"
    "\<exists>m. merge s (rebase_change sessions c) = Ok m \<and>
         s' = m\<lparr>sn_applied := drop_oldest HISTORY (sn_applied m) @ [ch_operation_id c]\<rparr>"
  using assms by (auto simp: apply_change_def Let_def list_ex_iff not_less split: if_splits sum.splits)

lemma apply_change_conflict: "apply_change sessions c s = (s', True) \<Longrightarrow> s' = s"
  by (auto simp: apply_change_def Let_def split: if_splits sum.splits)

lemma apply_change_settled:
  assumes "settled sessions s" and "apply_change sessions c s = (s', conflict)"
  shows "settled sessions s'"
proof (cases conflict)
  case True
  then show ?thesis using assms apply_change_conflict [of sessions c s s'] by simp
next
  case False
  then have "apply_change sessions c s = (s', False)" using assms(2) by simp
  from apply_change_Ok(5) [OF this] obtain m where m: "merge s (rebase_change sessions c) = Ok m"
    and s': "s' = m\<lparr>sn_applied := drop_oldest HISTORY (sn_applied m) @ [ch_operation_id c]\<rparr>"
    by blast
  note ok = merge_Ok [OF m]
  have tabs: "valid_ids (sn_tabs s)" "valid_ids (ch_tabs (rebase_change sessions c))"
    using ok(1,2) by (simp_all add: snapshot_valid_def change_valid_def)
  have "\<forall>x \<in> set (merge_tabs (rebase_change sessions c) (sn_tabs s)). resolve sessions x = x"
    using merge_tabs_subset [OF tabs] assms(1)
    by (auto simp: settled_def rebase_change_def set_rebase)
  then show ?thesis
    using assms(1) s' ok(4) by (simp add: settled_def)
qed

text \<open>The state and conflict flag a call computes, before the final checks.\<close>

definition reconciled :: "snapshot \<Rightarrow> change option \<Rightarrow> session_lineage list \<Rightarrow> snapshot \<times> bool" where
  "reconciled before c sessions =
     (case c of
        None \<Rightarrow> (rebase_snapshot sessions before, False)
      | Some c \<Rightarrow>
          if ch_operation_id c \<in> set (sn_applied before) then (rebase_snapshot sessions before, False)
          else apply_change sessions c (rebase_snapshot sessions before))"

lemma reconcile_unfold:
  "reconcile before c sessions =
     (if \<not> snapshot_valid before \<or> \<not> snapshot_valid (fst (reconciled before c sessions)) then Err WInvalid
      else if fst (reconciled before c sessions) = before
      then Ok \<lparr>tr_state = before, tr_changed = False, tr_conflict = snd (reconciled before c sessions)\<rparr>
      else if U64_MAX \<le> sn_revision before then Err RevisionExhausted
      else Ok \<lparr>tr_state = (fst (reconciled before c sessions))\<lparr>sn_revision := Suc (sn_revision before)\<rparr>,
               tr_changed = True, tr_conflict = snd (reconciled before c sessions)\<rparr>)"
proof -
  have applied: "sn_applied (rebase_snapshot sessions before) = sn_applied before"
    by (simp add: rebase_snapshot_def)
  have eq: "(case c of None \<Rightarrow> (rebase_snapshot sessions before, False)
       | Some c \<Rightarrow> if ch_operation_id c \<in> set (sn_applied (rebase_snapshot sessions before))
                  then (rebase_snapshot sessions before, False)
                  else apply_change sessions c (rebase_snapshot sessions before)) =
      reconciled before c sessions"
    by (cases c) (simp_all add: reconciled_def applied)
  show ?thesis
    unfolding reconcile_def Let_def eq by (cases "reconciled before c sessions") auto
qed

lemma reconciled_settled: "settled sessions (fst (reconciled before c sessions))"
proof -
  have "settled sessions (fst (apply_change sessions d (rebase_snapshot sessions before)))" for d
    using apply_change_settled [OF settled_rebase] by (metis prod.collapse)
  then show ?thesis by (auto simp: reconciled_def settled_rebase split: option.splits)
qed

lemma snapshot_valid_revision [simp]: "snapshot_valid (s\<lparr>sn_revision := r\<rparr>) = snapshot_valid s"
  by (simp add: snapshot_valid_def)

lemma settled_revision [simp]: "settled sessions (s\<lparr>sn_revision := r\<rparr>) = settled sessions s"
  by (simp add: settled_def)

lemma reconcile_Ok:
  assumes "reconcile before c sessions = Ok t"
  shows "snapshot_valid before" "snapshot_valid (tr_state t)" "settled sessions (tr_state t)"
    "tr_conflict t = snd (reconciled before c sessions)"
    "tr_changed t \<longleftrightarrow> fst (reconciled before c sessions) \<noteq> before"
    "tr_state t = (fst (reconciled before c sessions))\<lparr>sn_revision := sn_revision (tr_state t)\<rparr>"
    "sn_revision (tr_state t) = (if tr_changed t then Suc (sn_revision before) else sn_revision before)"
proof -
  have eq: "fst (reconciled before c sessions) = before \<Longrightarrow> settled sessions before"
    using reconciled_settled [of sessions before c] by simp
  show "snapshot_valid before" "snapshot_valid (tr_state t)" "settled sessions (tr_state t)"
    "tr_conflict t = snd (reconciled before c sessions)"
    "tr_changed t \<longleftrightarrow> fst (reconciled before c sessions) \<noteq> before"
    "tr_state t = (fst (reconciled before c sessions))\<lparr>sn_revision := sn_revision (tr_state t)\<rparr>"
    "sn_revision (tr_state t) = (if tr_changed t then Suc (sn_revision before) else sn_revision before)"
    using assms eq by (auto simp: reconcile_unfold reconciled_settled split: if_splits)
qed


section \<open>Properties\<close>

text \<open>
  C4: merging a device's change into the shared tabs removes exactly the tabs the device itself
  closed (those of its base it no longer lists), adds exactly the tabs it opened, and otherwise
  leaves the tabs other devices opened in the meantime alone; a tab gives way only to a newly
  opened tab of the same tmux session id. The merged state is valid again.
\<close>

theorem merge_keeps_other_tabs:
  assumes "merge current c = Ok res"
  shows "snapshot_valid res \<and>
    (\<forall>t. t \<in> set (sn_tabs res) \<longleftrightarrow>
       (t \<in> set (ch_tabs c) \<and> t \<notin> set (ch_base c)) \<or>
       (t \<in> set (sn_tabs current) \<and> (t \<notin> set (ch_base c) \<or> t \<in> set (ch_tabs c)) \<and>
        \<not> (\<exists>u. u \<in> set (ch_tabs c) \<and> u \<notin> set (ch_base c) \<and> u \<noteq> t \<and> si_id u = si_id t)))"
proof -
  note ok = merge_Ok [OF assms]
  have tabs: "valid_ids (sn_tabs current)" "valid_ids (ch_tabs c)"
    using ok(1,2) by (simp_all add: snapshot_valid_def change_valid_def)
  show ?thesis
    using merge_valid [OF assms] ok(4) by (auto simp: merge_tabs_set [OF tabs] merged_set_def retained_def)
qed

definition tab :: "string \<Rightarrow> session_identity" where
  "tab n = \<lparr>si_id = CHR ''$'' # n, si_created_at = 1\<rparr>"

definition sample_snapshot :: snapshot where
  "sample_snapshot = snapshot_empty\<lparr>sn_tabs := [tab ''1'', tab ''2'']\<rparr>"

definition sample_change :: change where
  \<comment> \<open>a device that saw only tab 1, closes it and opens tab 3\<close>
  "sample_change = \<lparr>ch_operation_id = ''0123456789abcdef'', ch_revision = 0, ch_base = [tab ''1''],
     ch_tabs = [tab ''3''], ch_selected = None\<rparr>"

lemmas sample_defs = sample_snapshot_def sample_change_def snapshot_empty_def tab_def

lemma sample_merge:
  "merge sample_snapshot sample_change =
     Ok (sample_snapshot\<lparr>sn_initialized := True, sn_tabs := [tab ''2'', tab ''3'']\<rparr>)"
  by (simp add: merge_def snapshot_valid_def change_valid_def valid_ids_iff selected_in_def merge_tabs_def
      retained_def merge_insert_def merge_tab_def insert_position_def insert_at_def merge_reorder_def
      reordered_def validate_session_id_def ascii_defs workspace_limits sample_defs Let_def)

theorem merge_keeps_other_tabs_witness:
  "tab ''2'' \<in> set (sn_tabs (projr (merge sample_snapshot sample_change))) \<and>
   tab ''1'' \<notin> set (sn_tabs (projr (merge sample_snapshot sample_change)))"
  using merge_keeps_other_tabs [OF sample_merge] unfolding sample_merge
  by (simp add: sample_defs)

text \<open>
  Merging does not shuffle tabs: unless the device itself reordered the tabs it had, the tabs
  that were there before keep their relative order; when it did, its own tabs come out in exactly
  the order it asked for.
\<close>

lemma merge_order:
  assumes "merge current c = Ok res"
  shows "(\<not> reordered c \<longrightarrow>
      filter (\<lambda>t. t \<in> set (sn_tabs current)) (sn_tabs res) =
      filter (\<lambda>t. t \<in> set (sn_tabs res)) (sn_tabs current)) \<and>
    (reordered c \<longrightarrow>
      filter (\<lambda>t. t \<in> set (ch_tabs c)) (sn_tabs res) = filter (\<lambda>t. t \<in> set (sn_tabs res)) (ch_tabs c))"
proof (intro conjI impI)
  note ok = merge_Ok [OF assms]
  have tabs: "valid_ids (sn_tabs current)" "valid_ids (ch_tabs c)"
    using ok(1,2) by (simp_all add: snapshot_valid_def change_valid_def)
  let ?R = "merge_tabs c (sn_tabs current)" and ?T = "retained c (sn_tabs current)"
  have res: "sn_tabs res = ?R" using ok(4) by simp
  show "filter (\<lambda>t. t \<in> set (sn_tabs current)) (sn_tabs res) =
      filter (\<lambda>t. t \<in> set (sn_tabs res)) (sn_tabs current)" if "\<not> reordered c"
  proof -
    have both: "t \<in> set ?R \<Longrightarrow> t \<in> set (sn_tabs current) \<Longrightarrow> t \<in> set ?T" for t
      by (auto simp: merge_tabs_set [OF tabs] merged_set_def retained_def)
    have "filter (\<lambda>t. t \<in> set (sn_tabs current)) ?R = filter (\<lambda>t. t \<in> set ?T) ?R"
      using both by (intro filter_cong) (auto simp: retained_def)
    also have "\<dots> = filter (\<lambda>t. t \<in> set ?R) ?T"
      by (rule merge_tabs_order [OF tabs that])
    also have "\<dots> = filter (\<lambda>t. t \<in> set ?R) (sn_tabs current)"
      using both by (auto simp: retained_def filter_filter intro!: filter_cong)
    finally show ?thesis by (simp add: res)
  qed
  show "filter (\<lambda>t. t \<in> set (ch_tabs c)) (sn_tabs res) = filter (\<lambda>t. t \<in> set (sn_tabs res)) (ch_tabs c)"
    if "reordered c"
    unfolding res by (subst (1) merge_tabs_reordered [OF tabs that]) (auto simp: filter_filter intro!: filter_cong)
qed

lemma reconcile_retry_once:
  assumes "reconcile before (Some c) sessions = Ok t" and "\<not> tr_conflict t"
  shows "reconcile (tr_state t) (Some c) sessions =
    Ok \<lparr>tr_state = tr_state t, tr_changed = False, tr_conflict = False\<rparr>"
proof -
  note ok = reconcile_Ok [OF assms(1)]
  have "ch_operation_id c \<in> set (sn_applied (fst (reconciled before (Some c) sessions)))"
  proof (cases "ch_operation_id c \<in> set (sn_applied before)")
    case True
    then show ?thesis by (simp add: reconciled_def rebase_snapshot_def)
  next
    case False
    then have "apply_change sessions c (rebase_snapshot sessions before) =
        (fst (reconciled before (Some c) sessions), False)"
      using ok(4) assms(2) by (simp add: reconciled_def prod_eq_iff)
    from apply_change_Ok(5) [OF this] show ?thesis by auto
  qed
  then have "ch_operation_id c \<in> set (sn_applied (tr_state t))"
    using ok(6) by (metis snapshot.select_convs(2) snapshot.surjective snapshot.update_convs(5))
  then have "reconciled (tr_state t) (Some c) sessions = (tr_state t, False)"
    using rebase_settled [OF ok(3,2)] by (simp add: reconciled_def)
  then show ?thesis using ok(2) by (simp add: reconcile_unfold)
qed

text \<open>
  C8: sending the same change again, after a reply was lost, is a no-op: the retry reports neither
  a change nor a conflict and leaves the state, the revision included, exactly as the first call
  left it.
\<close>

theorem reconcile_retry_idempotent:
  assumes "reconcile before (Some c) sessions = Ok t" and "\<not> tr_conflict t"
  shows "reconcile (tr_state t) (Some c) sessions =
    Ok \<lparr>tr_state = tr_state t, tr_changed = False, tr_conflict = False\<rparr>"
  using assms by (rule reconcile_retry_once)

definition sample_sessions :: "session_lineage list" where
  "sample_sessions = [\<lparr>sl_id = ''$3'', sl_created_at = 1, sl_restored_from = None\<rparr>]"

lemma sample_reconcile:
  "reconcile sample_snapshot (Some sample_change) sample_sessions =
     Ok \<lparr>tr_state = sample_snapshot\<lparr>sn_initialized := True, sn_tabs := [tab ''2'', tab ''3''],
           sn_applied := [ch_operation_id sample_change], sn_revision := 1\<rparr>,
         tr_changed = True, tr_conflict = False\<rparr>"
  by (simp add: reconcile_def rebase_snapshot_def rebase_def resolve_def live_def push_new_def apply_change_def
      rebase_change_def sample_sessions_def merge_def snapshot_valid_def change_valid_def valid_ids_iff
      selected_in_def merge_tabs_def retained_def merge_insert_def merge_tab_def insert_position_def
      insert_at_def merge_reorder_def reordered_def validate_session_id_def ascii_defs workspace_limits
      drop_oldest_def sample_defs Let_def)

theorem reconcile_retry_idempotent_witness:
  "sn_revision (tr_state (projr (reconcile (tr_state (projr
     (reconcile sample_snapshot (Some sample_change) sample_sessions))) (Some sample_change) sample_sessions))) = 1"
  using reconcile_retry_idempotent [OF sample_reconcile] unfolding sample_reconcile by simp

text \<open>
  Every accepted reconciliation keeps the stored state valid and at most 64 operations of
  history, advances the revision by exactly one when the state changed and not at all otherwise,
  never wraps the 64-bit revision, and on a conflict applies nothing of the change: the tabs are
  the old tabs moved along their restore lineage, and the operation is not recorded, so it may be
  retried.
\<close>

lemma reconcile_discipline:
  assumes "reconcile before c sessions = Ok t"
  shows "snapshot_valid (tr_state t) \<and> length (sn_applied (tr_state t)) \<le> HISTORY \<and>
    sn_revision (tr_state t) = sn_revision before + (if tr_changed t then 1 else 0) \<and>
    (tr_changed t \<longrightarrow> sn_revision (tr_state t) \<le> U64_MAX) \<and>
    (tr_conflict t \<longrightarrow> sn_tabs (tr_state t) = rebase sessions (sn_tabs before) \<and>
       sn_applied (tr_state t) = sn_applied before \<and>
       sn_conflict (transition_reply t) = ''workspace_conflict'')"
proof -
  note ok = reconcile_Ok [OF assms]
  have bound: "tr_changed t \<longrightarrow> sn_revision (tr_state t) \<le> U64_MAX"
    using assms by (auto simp: reconcile_unfold split: if_splits)
  have "tr_conflict t \<Longrightarrow> fst (reconciled before c sessions) = rebase_snapshot sessions before"
    using ok(4) apply_change_conflict
    by (auto simp: reconciled_def split: option.splits if_splits) (metis prod.collapse)
  then have "tr_conflict t \<Longrightarrow> tr_state t = (rebase_snapshot sessions before)\<lparr>sn_revision := sn_revision (tr_state t)\<rparr>"
    using ok(6) by simp
  then have "tr_conflict t \<Longrightarrow> sn_tabs (tr_state t) = rebase sessions (sn_tabs before) \<and>
       sn_applied (tr_state t) = sn_applied before"
    by (metis (no_types, lifting) rebase_snapshot_def snapshot.select_convs(2,6) snapshot.surjective
        snapshot.update_convs(1,5,6,7))
  then show ?thesis
    using ok(2,7) bound by (auto simp: snapshot_valid_def transition_reply_def)
qed

end
