(* ===== verification/Private_File.thy ===== *)
theory Private_File
  imports Prelude
begin

text \<open>
  Private files as the stores see them: a directory is a map from names to contents, and an atomic
  write (\<open>write_atomic_private\<close> of \<open>hmux-core/src/lib.rs\<close>: a temporary file, a rename, a directory sync)
  either succeeds or fails before or after the rename.
\<close>

type_synonym private_dir = "string \<Rightarrow> bytes option"

datatype read_error = NotFound | ReadFailed

definition read_private :: "bool \<Rightarrow> private_dir \<Rightarrow> string \<Rightarrow> nat \<Rightarrow> (read_error, bytes) result" where
  \<comment> \<open>the first argument: whether the directory opens and the file passes its checks\<close>
  "read_private readable dir name limit =
     (if \<not> readable then Err ReadFailed
      else case dir name of
        None \<Rightarrow> Err NotFound
      | Some raw \<Rightarrow> if limit < length raw then Err ReadFailed else Ok raw)"

datatype write_result = WriteOk | WriteFailed bool
  \<comment> \<open>a failed write may already have renamed the new file into place\<close>

definition write_atomic :: "write_result \<Rightarrow> private_dir \<Rightarrow> string \<Rightarrow> bytes \<Rightarrow> bool \<times> private_dir" where
  "write_atomic w dir name raw =
     (case w of
        WriteOk \<Rightarrow> (True, dir(name \<mapsto> raw))
      | WriteFailed renamed \<Rightarrow> (False, if renamed then dir(name \<mapsto> raw) else dir))"

lemma write_atomic_ok: "write_atomic w dir name raw = (True, dir') \<Longrightarrow> dir' = dir(name \<mapsto> raw)"
  by (cases w) (auto simp: write_atomic_def)

lemma write_atomic_elsewhere:
  "write_atomic w dir name raw = (ok, dir') \<Longrightarrow> n \<noteq> name \<Longrightarrow> dir' n = dir n"
  by (cases w) (auto simp: write_atomic_def split: if_splits)

end
