(* ===== verification/Workspace_Store.thy ===== *)
theory Workspace_Store
  imports Workspace Private_File
begin

text \<open>
  The workspace transaction of \<open>hmux-core/src/workspace.rs\<close>. The private directory is a map from
  scope to file content; what the environment decides during one call (the authorization checks,
  the lock, external edits, the disk) is the record \<open>sync_env\<close>, so that a theorem about every
  environment is a theorem about every interleaving with the rest of the system. \<open>serde_json\<close> is
  the pair of parameters \<open>to_vec\<close> and \<open>from_slice\<close>.
\<close>

section \<open>Scopes and the lock\<close>

definition LOCK_WAIT :: duration where "LOCK_WAIT = 3000000000"
definition LOCK_POLL :: duration where "LOCK_POLL = 25000000"

datatype store_error = SBusy | SCancelled | SInvalid | SUnavailable

definition scope_valid :: "string option \<Rightarrow> bool" where
  "scope_valid scope =
     (case scope of None \<Rightarrow> True | Some s \<Rightarrow> length s = 64 \<and> list_all is_lower_hex s)"

datatype lock_try = LockAcquired | LockContended | LockFailed

text \<open>
  One attempt per index: whether the caller is still allowed, what the lock file answers, and the
  time since the wait began. The fuel makes the loop structural; \<open>lock_wait_terminates\<close> below shows
  how much is enough.
\<close>

record lock_env =
  le_check :: "nat \<Rightarrow> bool"
  le_try :: "nat \<Rightarrow> lock_try"
  le_elapsed :: "nat \<Rightarrow> duration"

fun lock_wait :: "nat \<Rightarrow> lock_env \<Rightarrow> nat \<Rightarrow> (store_error, unit) result option" where
  "lock_wait 0 env n = None"
| "lock_wait (Suc fuel) env n =
     (if \<not> le_check env n then Some (Err SCancelled)
      else case le_try env n of
             LockFailed \<Rightarrow> Some (Err SUnavailable)
           | LockAcquired \<Rightarrow> Some (Ok ())
           | LockContended \<Rightarrow>
               if LOCK_WAIT - le_elapsed env n = 0 then Some (Err SBusy)
               else lock_wait fuel env (Suc n))"

text \<open>\<open>thread::sleep\<close> sleeps at least as long as it is asked to.\<close>

definition sleeps :: "lock_env \<Rightarrow> bool" where
  "sleeps env \<longleftrightarrow>
     (\<forall>n. le_elapsed env n + min (LOCK_WAIT - le_elapsed env n) LOCK_POLL \<le> le_elapsed env (Suc n))"

definition LOCK_FUEL :: nat where "LOCK_FUEL = 121"

section \<open>One transaction\<close>

record sync_env =
  se_permit :: bool
  se_closed :: bool
  se_check_start :: bool
  se_fetch :: "(store_error, session_lineage list) result"
  se_check_fetched :: bool
  se_directories :: bool
  se_lock :: lock_env
  se_check_locked :: bool
  se_read :: bool
  se_reread :: "(unit, bytes option) result"
  se_check_write :: bool
  se_write :: write_result
  se_check_end :: bool

type_synonym files = "string option \<Rightarrow> bytes option"

definition sync_commit ::
  "(snapshot \<Rightarrow> bytes) \<Rightarrow> sync_env \<Rightarrow> files \<Rightarrow> string option \<Rightarrow> bytes option \<Rightarrow> transition \<Rightarrow>
   (store_error, unit) result \<times> files" where
  \<comment> \<open>the block \<open>if update.changed\<close>\<close>
  "sync_commit to_vec env files scope original update =
     (if \<not> tr_changed update then (Ok (), files)
      else
        let raw = to_vec (tr_state update) in
        if MAX_BYTES < length raw then (Err SInvalid, files)
        else case se_reread env of
               Inl _ \<Rightarrow> (Err SUnavailable, files)
             | Inr found \<Rightarrow>
                 if found \<noteq> original then (Err SUnavailable, files)
                 else if \<not> se_check_write env then (Err SCancelled, files)
                 else case se_write env of
                        WriteOk \<Rightarrow> (Ok (), files(scope := Some raw))
                      | WriteFailed renamed \<Rightarrow>
                          (Err SUnavailable, if renamed then files(scope := Some raw) else files))"

definition sync_locked ::
  "(bytes \<Rightarrow> snapshot option) \<Rightarrow> (snapshot \<Rightarrow> bytes) \<Rightarrow> sync_env \<Rightarrow> files \<Rightarrow> string option \<Rightarrow>
   change option \<Rightarrow> session_lineage list \<Rightarrow> (store_error, snapshot) result \<times> files" where
  \<comment> \<open>from the read under the lock to the reply\<close>
  "sync_locked from_slice to_vec env files scope c sessions =
     (if \<not> se_read env then (Err SUnavailable, files)
      else
        let original = files scope in
        case (case original of None \<Rightarrow> Ok snapshot_empty | Some raw \<Rightarrow> snapshot_decode from_slice raw) of
          Inl _ \<Rightarrow> (Err SInvalid, files)
        | Inr current \<Rightarrow>
            (case reconcile current c sessions of
               Inl _ \<Rightarrow> (Err SInvalid, files)
             | Inr update \<Rightarrow>
                 (case sync_commit to_vec env files scope original update of
                    (Inl e, files) \<Rightarrow> (Err e, files)
                  | (Inr _, files) \<Rightarrow>
                      (if se_check_end env then Ok (transition_reply update) else Err SCancelled, files))))"

definition sync ::
  "(bytes \<Rightarrow> snapshot option) \<Rightarrow> (snapshot \<Rightarrow> bytes) \<Rightarrow> sync_env \<Rightarrow> files \<Rightarrow> string option \<Rightarrow>
   change option \<Rightarrow> (store_error, snapshot) result \<times> files" where
  "sync from_slice to_vec env files scope c =
     (if \<not> scope_valid scope then (Err SInvalid, files)
      else if \<not> se_permit env then (Err SBusy, files)
      else if se_closed env then (Err SCancelled, files)
      else if \<not> se_check_start env then (Err SCancelled, files)
      else case se_fetch env of
             Inl e \<Rightarrow> (Err e, files)
           | Inr sessions \<Rightarrow>
               if \<not> se_check_fetched env then (Err SCancelled, files)
               else if \<not> se_directories env then (Err SUnavailable, files)
               else case lock_wait LOCK_FUEL (se_lock env) 0 of
                      None \<Rightarrow> (Err SBusy, files)
                    | Some (Inl e) \<Rightarrow> (Err e, files)
                    | Some (Inr _) \<Rightarrow>
                        if \<not> se_check_locked env then (Err SCancelled, files)
                        else sync_locked from_slice to_vec env files scope c sessions)"

section \<open>The wait is bounded\<close>

lemma elapsed_grows: "sleeps env \<Longrightarrow> min LOCK_WAIT (n * LOCK_POLL) \<le> le_elapsed env n"
proof (induction n)
  case (Suc n)
  then have "min LOCK_WAIT (n * LOCK_POLL) \<le> le_elapsed env n" by simp
  moreover have "le_elapsed env n + min (LOCK_WAIT - le_elapsed env n) LOCK_POLL \<le> le_elapsed env (Suc n)"
    using Suc.prems by (simp add: sleeps_def)
  ultimately show ?case by (auto simp: min_def split: if_splits)
qed simp

lemma lock_wait_enough:
  assumes "sleeps env" and "n + fuel = LOCK_FUEL" and "0 < fuel"
  shows "lock_wait fuel env n \<noteq> None"
  using assms(2,3)
proof (induction fuel arbitrary: n)
  case (Suc fuel)
  show ?case
  proof (cases "fuel = 0")
    case True
    then have "LOCK_WAIT \<le> le_elapsed env n"
      using elapsed_grows [OF assms(1), of n] Suc.prems
      by (simp add: LOCK_FUEL_def LOCK_WAIT_def LOCK_POLL_def)
    then show ?thesis by (auto split: lock_try.splits)
  next
    case False
    then show ?thesis using Suc.IH [of "Suc n"] Suc.prems by (auto split: lock_try.splits)
  qed
qed simp

section \<open>Commit\<close>

definition committed :: "(snapshot \<Rightarrow> bytes) \<Rightarrow> files \<Rightarrow> string option \<Rightarrow> transition \<Rightarrow> files \<Rightarrow> bool" where
  \<comment> \<open>the file holds the reconciled state\<close>
  "committed to_vec files scope update files' \<longleftrightarrow>
     (if tr_changed update then files' = files(scope := Some (to_vec (tr_state update))) else files' = files)"

definition stored :: "(bytes \<Rightarrow> snapshot option) \<Rightarrow> files \<Rightarrow> string option \<Rightarrow> snapshot \<Rightarrow> bool" where
  "stored from_slice files scope s \<longleftrightarrow>
     (case files scope of None \<Rightarrow> Ok snapshot_empty | Some raw \<Rightarrow> snapshot_decode from_slice raw) = Ok s"

lemma sync_commit_cases:
  "sync_commit to_vec env files scope original update = (r, files') \<Longrightarrow>
     (r = Ok () \<and> committed to_vec files scope update files' \<and>
        (tr_changed update \<longrightarrow> length (to_vec (tr_state update)) \<le> MAX_BYTES)) \<or>
     (is_Ok r = False \<and> files' = files) \<or>
     (r = Err SUnavailable \<and> se_write env = WriteFailed True \<and> committed to_vec files scope update files' \<and>
        length (to_vec (tr_state update)) \<le> MAX_BYTES)"
  by (auto simp: sync_commit_def committed_def Let_def split: if_splits sum.splits write_result.splits)

lemma sync_locked_cases:
  assumes "sync_locked from_slice to_vec env files scope c sessions = (r, files')"
  shows "(\<exists>current update. stored from_slice files scope current \<and> reconcile current c sessions = Ok update \<and>
            committed to_vec files scope update files' \<and>
            (tr_changed update \<longrightarrow> length (to_vec (tr_state update)) \<le> MAX_BYTES) \<and>
            (r = Ok (transition_reply update) \<or>
             (r = Err SCancelled \<and> \<not> se_check_end env) \<or>
             (r = Err SUnavailable \<and> se_write env = WriteFailed True))) \<or>
         (is_Ok r = False \<and> files' = files)"
proof -
  consider (early) "is_Ok r = False" "files' = files"
    | (run) current update where "stored from_slice files scope current"
      "reconcile current c sessions = Ok update"
      "case sync_commit to_vec env files scope (files scope) update of
         (Inl e, fs) \<Rightarrow> r = Err e \<and> files' = fs
       | (Inr _, fs) \<Rightarrow>
           r = (if se_check_end env then Ok (transition_reply update) else Err SCancelled) \<and> files' = fs"
    using assms by (auto simp: sync_locked_def stored_def Let_def split: if_splits sum.splits prod.splits)
  then show ?thesis
  proof cases
    case early
    then show ?thesis by blast
  next
    case run
    obtain q fs where q: "sync_commit to_vec env files scope (files scope) update = (q, fs)"
      by (cases "sync_commit to_vec env files scope (files scope) update")
    then show ?thesis
      using run sync_commit_cases [OF q] by (cases q) (auto split: if_splits)
  qed
qed

lemma sync_reaches:
  assumes "sync from_slice to_vec env files scope c = (r, files')" and "files' \<noteq> files \<or> is_Ok r"
  shows "\<exists>sessions. se_fetch env = Ok sessions \<and> scope_valid scope \<and>
    sync_locked from_slice to_vec env files scope c sessions = (r, files')"
  using assms by (auto simp: sync_def split: if_splits sum.splits option.splits)

section \<open>Properties\<close>

text \<open>
  Waiting for the workspace lock ends: whatever the lock file and the authorization checks
  answer, at most 121 attempts (three seconds in steps of 25 ms) are made before the call has an
  outcome, so a transaction never waits forever on another process.
\<close>

lemma lock_wait_terminates:
  assumes "sleeps env"
  shows "\<exists>r. lock_wait LOCK_FUEL env 0 = Some r"
  using lock_wait_enough [OF assms, of 0 LOCK_FUEL] by (auto simp: LOCK_FUEL_def)

definition patient_env :: lock_env where
  "patient_env = \<lparr>le_check = (\<lambda>_. True), le_try = (\<lambda>n. if n < 2 then LockContended else LockAcquired),
     le_elapsed = (\<lambda>n. n * LOCK_POLL)\<rparr>"

lemma sync_outcome:
  assumes "sync from_slice to_vec env files scope c = (r, files')"
  shows "(\<forall>other. other \<noteq> scope \<longrightarrow> files' other = files other) \<and>
    ((\<exists>sessions current update. se_fetch env = Ok sessions \<and> stored from_slice files scope current \<and>
        reconcile current c sessions = Ok update \<and> committed to_vec files scope update files' \<and>
        (r = Ok (transition_reply update) \<or>
         (r = Err SCancelled \<and> \<not> se_check_end env) \<or>
         (r = Err SUnavailable \<and> se_write env = WriteFailed True))) \<or>
     (is_Ok r = False \<and> files' = files))"
proof (cases "files' \<noteq> files \<or> is_Ok r")
  case True
  then obtain sessions where fetch: "se_fetch env = Ok sessions"
    and run: "sync_locked from_slice to_vec env files scope c sessions = (r, files')"
    using sync_reaches [OF assms] by blast
  show ?thesis
    using sync_locked_cases [OF run] fetch by (fastforce simp: committed_def split: if_splits)
next
  case False
  then show ?thesis by simp
qed

definition calm_env :: "session_lineage list \<Rightarrow> bytes option \<Rightarrow> sync_env" where
  \<comment> \<open>nothing interferes: the caller stays authorized, the lock is free, the disk works\<close>
  "calm_env sessions found = \<lparr>se_permit = True, se_closed = False, se_check_start = True,
     se_fetch = Ok sessions, se_check_fetched = True, se_directories = True, se_lock = patient_env,
     se_check_locked = True, se_read = True, se_reread = Ok found, se_check_write = True,
     se_write = WriteOk, se_check_end = True\<rparr>"

lemma patient_lock: "lock_wait LOCK_FUEL patient_env 0 = Some (Ok ())"
proof -
  have fuel: "LOCK_FUEL = Suc (Suc (Suc 118))" by (simp add: LOCK_FUEL_def)
  show ?thesis unfolding fuel lock_wait.simps by (simp add: patient_env_def LOCK_WAIT_def LOCK_POLL_def)
qed

lemma sync_calm:
  assumes "scope_valid scope" and "stored from_slice files scope current"
    and "reconcile current c sessions = Ok update"
    and "tr_changed update \<longrightarrow> length (to_vec (tr_state update)) \<le> MAX_BYTES"
  shows "sync from_slice to_vec (calm_env sessions (files scope)) files scope c =
    (Ok (transition_reply update),
     if tr_changed update then files(scope := Some (to_vec (tr_state update))) else files)"
  using assms
  by (auto simp: sync_def calm_env_def patient_lock sync_locked_def stored_def sync_commit_def Let_def not_le)

text \<open>
  When a transaction committed a device's change but its reply was lost (it was cancelled, or
  the disk reported an error after the rename), repeating the same request against the stored file
  succeeds, replies with the committed state without a conflict, and writes nothing more: the
  change is applied exactly once. This uses only that \<open>serde_json\<close> reads back what it wrote.
\<close>

lemma sync_retry_applies_once:
  assumes first: "sync from_slice to_vec env files scope (Some c) = (r, files')" and wrote: "files' \<noteq> files"
    and "se_fetch env = Ok sessions" and "stored from_slice files scope current"
    and "reconcile current (Some c) sessions = Ok update" and "\<not> tr_conflict update"
    and roundtrip: "from_slice (to_vec (tr_state update)) = Some (tr_state update)"
  shows "sync from_slice to_vec (calm_env sessions (files' scope)) files' scope (Some c) =
    (Ok (tr_state update), files') \<and> files' scope = Some (to_vec (tr_state update))"
proof -
  obtain sessions' where "se_fetch env = Ok sessions'" and valid: "scope_valid scope"
    and run: "sync_locked from_slice to_vec env files scope (Some c) sessions' = (r, files')"
    using sync_reaches [OF first] wrote by blast
  then have com: "committed to_vec files scope update files'"
    and len: "tr_changed update \<longrightarrow> length (to_vec (tr_state update)) \<le> MAX_BYTES"
    using sync_locked_cases [OF run] wrote assms(3-5) by (auto simp: stored_def)
  have changed: "tr_changed update" using com wrote by (auto simp: committed_def split: if_splits)
  then have content: "files' scope = Some (to_vec (tr_state update))"
    using com by (simp add: committed_def)
  have "stored from_slice files' scope (tr_state update)"
    using content len changed reconcile_Ok(2) [OF assms(5)]
    by (simp add: stored_def snapshot_decode_def roundtrip)
  moreover have "reconcile (tr_state update) (Some c) sessions =
      Ok \<lparr>tr_state = tr_state update, tr_changed = False, tr_conflict = False\<rparr>"
    by (rule reconcile_retry_once [OF assms(5,6)])
  ultimately have "sync from_slice to_vec (calm_env sessions (files' scope)) files' scope (Some c) =
      (Ok (tr_state update), files')"
    using sync_calm [OF valid] by (simp add: transition_reply_def)
  then show ?thesis using content by blast
qed

definition sample_after :: snapshot where
  "sample_after = sample_snapshot\<lparr>sn_initialized := True, sn_tabs := [tab ''2'', tab ''3''],
     sn_applied := [ch_operation_id sample_change], sn_revision := 1\<rparr>"

lemma sample_reconcile_after:
  "reconcile sample_snapshot (Some sample_change) sample_sessions =
     Ok \<lparr>tr_state = sample_after, tr_changed = True, tr_conflict = False\<rparr>"
  unfolding sample_after_def by (rule sample_reconcile)

definition sample_from_slice :: "bytes \<Rightarrow> snapshot option" where
  "sample_from_slice raw = (if raw = ''old'' then Some sample_snapshot
     else if raw = ''new'' then Some sample_after else None)"

text \<open>
  C37: a workspace transaction is atomic: it replies with the reconciliation of the stored state and
  has stored it, or it leaves every file as it was. The two exceptions are exactly the ones in
  which an error follows a commit: the caller was cancelled after the rename, or the disk reported
  a failure after it; then the file holds the complete reconciled state, never a part of it. Files
  of other scopes are never touched. When nothing interferes and the state can be reconciled within
  the limit of the file, the transaction does succeed.
\<close>

theorem sync_atomic:
  assumes "sync from_slice to_vec env files scope c = (r, files')"
  shows "(\<forall>other. other \<noteq> scope \<longrightarrow> files' other = files other) \<and>
    ((\<exists>sessions current update. se_fetch env = Ok sessions \<and> stored from_slice files scope current \<and>
        reconcile current c sessions = Ok update \<and> committed to_vec files scope update files' \<and>
        (r = Ok (transition_reply update) \<or>
         (r = Err SCancelled \<and> \<not> se_check_end env) \<or>
         (r = Err SUnavailable \<and> se_write env = WriteFailed True))) \<or>
     (is_Ok r = False \<and> files' = files)) \<and>
    (\<forall>sessions current update. env = calm_env sessions (files scope) \<and> scope_valid scope \<and> stored from_slice files scope current \<and>
        reconcile current c sessions = Ok update \<and> (tr_changed update \<longrightarrow> length (to_vec (tr_state update)) \<le> MAX_BYTES) \<longrightarrow>
        r = Ok (transition_reply update) \<and> committed to_vec files scope update files')"
  using sync_outcome [OF assms] assms sync_calm [of scope from_slice files _ c _ _ to_vec] by (auto simp: committed_def)

theorem sync_atomic_witness:
  "sync sample_from_slice (\<lambda>_. ''new'') (calm_env sample_sessions (Some ''old'')) ((\<lambda>_. None)(None := Some ''old'')) None (Some sample_change) =
     (Ok sample_after, (\<lambda>_. None)(None := Some ''new''))"
proof -
  let ?files = "((\<lambda>_. None)(None := Some ''old'')) :: files"
  let ?run = "sync sample_from_slice (\<lambda>_. ''new'') (calm_env sample_sessions (?files None)) ?files None (Some sample_change)"
  have valid: "snapshot_valid sample_snapshot" by (rule reconcile_Ok(1) [OF sample_reconcile])
  have "stored sample_from_slice ?files None sample_snapshot"
    by (simp add: stored_def snapshot_decode_def sample_from_slice_def valid workspace_limits)
  moreover have "scope_valid None" by (simp add: scope_valid_def)
  ultimately have "fst ?run = Ok (transition_reply \<lparr>tr_state = sample_after, tr_changed = True, tr_conflict = False\<rparr>) \<and>
      committed (\<lambda>_. ''new'') ?files None \<lparr>tr_state = sample_after, tr_changed = True, tr_conflict = False\<rparr> (snd ?run)"
    using sync_atomic [of sample_from_slice "\<lambda>_. ''new''" "calm_env sample_sessions (?files None)" ?files None "Some sample_change" "fst ?run" "snd ?run"]
      sample_reconcile_after by (simp add: workspace_limits)
  then show ?thesis by (simp add: committed_def transition_reply_def prod_eq_iff)
qed

end
