(* ===== verification/Sliding_Window.thy ===== *)
theory Sliding_Window
  imports Prelude
begin

text \<open>
  The sliding-window limiter that the gateway uses in three places: per key the times of the
  admitted attempts, a key forgotten once its last attempt has left the window, a bound on the
  attempts of a key and on the number of keys. The locale states the contract of such a limiter,
  over any clock, and proves once that its table takes exactly the decisions of a specification
  that keeps the whole history.
\<close>

definition slide_expire :: "('t \<Rightarrow> 't \<Rightarrow> bool) \<Rightarrow> 't \<Rightarrow> ('k \<times> 't list) list \<Rightarrow> ('k \<times> 't list) list" where
  "slide_expire within now m = filter (\<lambda>e. snd e \<noteq> [] \<and> within now (last (snd e))) m"

definition slide ::
  "('t \<Rightarrow> 't \<Rightarrow> bool) \<Rightarrow> nat \<Rightarrow> nat \<Rightarrow> ('k \<times> 't list) list \<Rightarrow> 'k \<Rightarrow> 't \<Rightarrow> bool \<times> ('k \<times> 't list) list" where
  "slide within attempts most m k now =
     (let m = slide_expire within now m in
      case map_of m k of
        Some ts \<Rightarrow>
          let ts = filter (within now) ts in
          if attempts \<le> length ts then (False, insert_key k ts m) else (True, insert_key k (ts @ [now]) m)
      | None \<Rightarrow> if most \<le> length m then (False, m) else (True, insert_key k [now] m))"

definition attempts_of :: "('k \<times> 't list) list \<Rightarrow> 'k \<Rightarrow> 't list" where
  "attempts_of m s = (case map_of m s of None \<Rightarrow> [] | Some ts \<Rightarrow> ts)"

definition history_of :: "'k \<Rightarrow> ('k \<times> 't) list \<Rightarrow> 't list" where
  "history_of s hist = map snd (filter (\<lambda>e. fst e = s) hist)"

lemma history_of_append [simp]: "history_of s (h @ h') = history_of s h @ history_of s h'"
  by (simp add: history_of_def)

lemma history_of_single [simp]: "history_of s [(s', t)] = (if s = s' then [t] else [])"
  by (auto simp: history_of_def)

lemma attempts_of_insert: "attempts_of (insert_key k ts m) s = (if s = k then ts else attempts_of m s)"
  by (simp add: attempts_of_def)

text \<open>
  The decision from the history alone: refuse a key with as many attempts in the window as are
  allowed, and a key with none when the table would be full of others.
\<close>

definition recent :: "('t \<Rightarrow> 't \<Rightarrow> bool) \<Rightarrow> 't \<Rightarrow> 'k \<Rightarrow> ('k \<times> 't) list \<Rightarrow> nat" where
  "recent within now s hist = length (filter (within now) (history_of s hist))"

definition live_keys :: "('t \<Rightarrow> 't \<Rightarrow> bool) \<Rightarrow> 't \<Rightarrow> ('k \<times> 't) list \<Rightarrow> 'k list" where
  "live_keys within now hist = remdups (map fst (filter (\<lambda>e. within now (snd e)) hist))"

definition decide :: "('t \<Rightarrow> 't \<Rightarrow> bool) \<Rightarrow> nat \<Rightarrow> nat \<Rightarrow> ('k \<times> 't) list \<Rightarrow> 'k \<Rightarrow> 't \<Rightarrow> bool" where
  "decide within attempts most hist s now \<longleftrightarrow>
     recent within now s hist < attempts \<and>
     (0 < recent within now s hist \<or> length (live_keys within now hist) < most)"

fun spec_admissions :: "('t \<Rightarrow> 't \<Rightarrow> bool) \<Rightarrow> nat \<Rightarrow> nat \<Rightarrow> ('k \<times> 't) list \<Rightarrow> ('k \<times> 't) list \<Rightarrow> ('k \<times> 't) list" where
  "spec_admissions within attempts most hist [] = []"
| "spec_admissions within attempts most hist ((k, now) # calls) =
     (if decide within attempts most hist k now
      then (k, now) # spec_admissions within attempts most (hist @ [(k, now)]) calls
      else spec_admissions within attempts most hist calls)"

text \<open>
  The limiter's own run: the admitted calls, each under the key \<open>norm\<close> gives its source, and the table
  at the end.
\<close>

definition keyed :: "('s \<Rightarrow> 'k) \<Rightarrow> ('s \<times> 't) list \<Rightarrow> ('k \<times> 't) list" where
  "keyed norm calls = map (\<lambda>c. (norm (fst c), snd c)) calls"

fun run_limiter :: "('s \<Rightarrow> 'k) \<Rightarrow> (('k \<times> 't list) list \<Rightarrow> 's \<Rightarrow> 't \<Rightarrow> bool \<times> ('k \<times> 't list) list) \<Rightarrow> ('k \<times> 't list) list \<Rightarrow>
    ('s \<times> 't) list \<Rightarrow> ('k \<times> 't) list \<times> ('k \<times> 't list) list" where
  "run_limiter norm admit m [] = ([], m)"
| "run_limiter norm admit m ((s, now) # calls) =
     (case admit m s now of (ok, m') \<Rightarrow>
        (case run_limiter norm admit m' calls of (hist, m'') \<Rightarrow> ((if ok then (norm s, now) # hist else hist), m'')))"

lemma keyed_simps [simp]:
  "keyed norm [] = []" "keyed norm (c # calls) = (norm (fst c), snd c) # keyed norm calls"
  "map snd (keyed norm calls) = map snd calls"
  by (simp_all add: keyed_def)

lemma recent_pos_iff: "0 < recent within now s hist \<longleftrightarrow> s \<in> set (live_keys within now hist)"
  by (force simp: recent_def live_keys_def history_of_def filter_empty_conv)

locale sliding_window =
  fixes within :: "'t::linorder \<Rightarrow> 't \<Rightarrow> bool" and attempts most :: nat
    and norm :: "'s \<Rightarrow> 'k"
    and admit :: "('k \<times> 't list) list \<Rightarrow> 's \<Rightarrow> 't \<Rightarrow> bool \<times> ('k \<times> 't list) list"
  assumes within_later: "n \<le> n' \<Longrightarrow> within n' t \<Longrightarrow> within n t"
    and within_newer: "t \<le> t' \<Longrightarrow> within n t \<Longrightarrow> within n t'"
    and within_now: "within n n"
    and some_attempt: "0 < attempts"
    and admit_slides: "admit m s now = slide within attempts most m (norm s) now"
begin

text \<open>
  The table agrees with the history on everything still inside the window; older attempts may have
  been forgotten. \<open>n\<close> is the time of the last call.
\<close>

definition remembers :: "'t \<Rightarrow> ('k \<times> 't list) list \<Rightarrow> ('k \<times> 't) list \<Rightarrow> bool" where
  "remembers n m hist \<longleftrightarrow>
     wf_map m \<and> length m \<le> most \<and>
     (\<forall>s. sorted (attempts_of m s) \<and> (\<forall>t \<in> set (attempts_of m s). t \<le> n) \<and>
        filter (within n) (attempts_of m s) = filter (within n) (history_of s hist))"

lemma filter_window_later:
  assumes "n \<le> n'" and "filter (within n) xs = filter (within n) ys"
  shows "filter (within n') xs = filter (within n') ys"
proof -
  have narrow: "filter (within n') zs = filter (within n') (filter (within n) zs)" for zs
    using within_later [OF assms(1)] by (auto simp: filter_filter intro: filter_cong)
  show ?thesis using narrow [of xs] narrow [of ys] assms(2) by simp
qed

lemma attempts_of_expire:
  assumes "wf_map m"
  shows "attempts_of (slide_expire within now m) s =
    (if attempts_of m s \<noteq> [] \<and> within now (last (attempts_of m s)) then attempts_of m s else [])"
  by (auto simp: attempts_of_def slide_expire_def map_of_filter_key [OF assms] split: option.splits)

lemma expired_empty:
  assumes "sorted ts" and "ts = [] \<or> \<not> within now (last ts)"
  shows "filter (within now) ts = []"
proof -
  have "\<forall>t \<in> set ts. t \<le> last ts"
    using assms(1) by (cases ts rule: rev_cases) (auto simp: sorted_append)
  then show ?thesis
    using assms(2) within_newer by (fastforce simp: filter_empty_conv)
qed

lemma expire_remembers:
  assumes "remembers n m hist" and "n \<le> now"
  shows "remembers now (slide_expire within now m) hist"
proof -
  have wf: "wf_map m" and len: "length m \<le> most"
    using assms(1) by (auto simp: remembers_def)
  have "sorted (attempts_of (slide_expire within now m) s) \<and>
      (\<forall>t \<in> set (attempts_of (slide_expire within now m) s). t \<le> now) \<and>
      filter (within now) (attempts_of (slide_expire within now m) s) =
      filter (within now) (history_of s hist)" for s
  proof -
    have s: "sorted (attempts_of m s)" "\<forall>t \<in> set (attempts_of m s). t \<le> n"
      "filter (within now) (attempts_of m s) = filter (within now) (history_of s hist)"
      using assms by (auto simp: remembers_def intro: filter_window_later)
    show ?thesis
      using s assms(2) expired_empty [OF s(1)]
      by (auto simp: attempts_of_expire [OF wf] intro: order_trans)
  qed
  moreover have "length (slide_expire within now m) \<le> most"
    using len by (simp add: slide_expire_def order_trans [OF length_filter_le])
  ultimately show ?thesis
    using wf by (simp add: remembers_def slide_expire_def)
qed

lemma remembers_update:
  assumes "remembers now m hist" and "length (insert_key k ts m) \<le> most"
    and "sorted ts" and "\<forall>t \<in> set ts. t \<le> now"
    and "filter (within now) ts = filter (within now) (history_of k hist')"
    and "\<And>s. s \<noteq> k \<Longrightarrow> history_of s hist' = history_of s hist"
  shows "remembers now (insert_key k ts m) hist'"
  using assms by (auto simp: remembers_def attempts_of_insert)

lemma expired_key_iff:
  assumes "remembers n m hist" and "n \<le> now"
  shows "map_of (slide_expire within now m) s \<noteq> None \<longleftrightarrow> 0 < recent within now s hist"
proof -
  let ?m = "slide_expire within now m"
  have wf: "wf_map m" and srt: "sorted (attempts_of m s)"
    and same: "filter (within now) (attempts_of m s) = filter (within now) (history_of s hist)"
    using assms by (auto simp: remembers_def intro: filter_window_later)
  have "map_of ?m s \<noteq> None \<longleftrightarrow> attempts_of m s \<noteq> [] \<and> within now (last (attempts_of m s))"
    by (auto simp: attempts_of_def slide_expire_def map_of_filter_key [OF wf] split: option.splits)
  also have "\<dots> \<longleftrightarrow> filter (within now) (attempts_of m s) \<noteq> []"
    using expired_empty [OF srt, of now] last_in_set [of "attempts_of m s"]
    by (auto simp: filter_empty_conv)
  finally show ?thesis by (simp add: same recent_def)
qed

lemma expired_length:
  assumes "remembers n m hist" and "n \<le> now"
  shows "length (slide_expire within now m) = length (live_keys within now hist)"
proof -
  let ?m = "slide_expire within now m"
  have "set (keys ?m) = set (live_keys within now hist)"
    using expired_key_iff [OF assms] by (auto simp: set_keys recent_pos_iff dom_def)
  moreover have "distinct (keys ?m)"
    using expire_remembers [OF assms] by (simp add: remembers_def wf_map_def)
  ultimately have "length (keys ?m) = length (live_keys within now hist)"
    by (metis distinct_card distinct_remdups live_keys_def)
  then show ?thesis by (simp add: keys_def)
qed

lemma admit_decides:
  assumes "remembers n m hist" and "n \<le> now" and "admit m src now = (ok, m')" and k: "k = norm src"
  shows "ok \<longleftrightarrow> decide within attempts most hist k now"
proof (cases "map_of (slide_expire within now m) k")
  case None
  then have "recent within now k hist = 0"
    using expired_key_iff [OF assms(1,2), of k] by simp
  then show ?thesis
    using None assms(3) expired_length [OF assms(1,2)] some_attempt
    by (auto simp: admit_slides k [symmetric] slide_def decide_def Let_def split: if_splits)
next
  case (Some ts)
  have "filter (within now) ts = filter (within now) (history_of k hist)"
    using expire_remembers [OF assms(1,2)] Some by (auto simp: remembers_def attempts_of_def dest!: spec [of _ k])
  then have "length (filter (within now) ts) = recent within now k hist"
    by (simp add: recent_def)
  moreover have "0 < recent within now k hist"
    using expired_key_iff [OF assms(1,2), of k] Some by simp
  ultimately show ?thesis
    using Some assms(3) by (auto simp: admit_slides k [symmetric] slide_def decide_def Let_def split: if_splits)
qed

lemma admit_remembers:
  assumes "remembers n m hist" and "n \<le> now" and "admit m src now = (ok, m')" and k: "k = norm src"
  shows "remembers now m' (if ok then hist @ [(k, now)] else hist)"
proof -
  let ?m = "slide_expire within now m"
  define ts where "ts = filter (within now) (attempts_of ?m k)"
  have rem: "remembers now ?m hist" by (rule expire_remembers [OF assms(1,2)])
  have wf: "wf_map ?m" and len: "length ?m \<le> most"
    using rem by (auto simp: remembers_def)
  have all: "sorted (attempts_of ?m k)" "\<forall>t \<in> set (attempts_of ?m k). t \<le> now"
    "ts = filter (within now) (history_of k hist)"
    using rem by (simp_all add: remembers_def ts_def)
  have srt: "sorted ts" using all(1) sorted_filter [of id "attempts_of ?m k" "within now"] by (simp add: ts_def)
  have le: "\<forall>t \<in> set ts. t \<le> now" using all(2) by (simp add: ts_def)
  have same: "filter (within now) ts = filter (within now) (history_of k hist)"
    by (simp add: all(3))
  have kept: "remembers now (insert_key k ts ?m) hist" if "map_of ?m k \<noteq> None"
    using that len srt le same by (intro remembers_update [OF rem]) (auto simp: length_insert_key [OF wf])
  have added: "remembers now (insert_key k (ts @ [now]) ?m) (hist @ [(k, now)])"
    if "map_of ?m k \<noteq> None \<or> length ?m < most"
    using that len srt le same within_now
    by (intro remembers_update [OF rem]) (auto simp: length_insert_key [OF wf] sorted_append)
  show ?thesis
  proof (cases "map_of ?m k")
    case None
    then have "ts = []" by (simp add: attempts_of_def ts_def)
    then show ?thesis
      using None rem added assms(3) by (auto simp: admit_slides k [symmetric] slide_def Let_def split: if_splits)
  next
    case (Some tms)
    then have "attempts_of ?m k = tms" by (simp add: attempts_of_def)
    then show ?thesis
      using Some kept added assms(3) by (auto simp: ts_def admit_slides k [symmetric] slide_def Let_def split: if_splits)
  qed
qed

lemma remembers_start: "remembers n [] []"
  by (simp add: remembers_def attempts_of_def history_of_def)

lemma run_refines:
  assumes "remembers n m hist" and "sorted (n # map snd calls)"
  shows "fst (run_limiter norm admit m calls) = spec_admissions within attempts most hist (keyed norm calls) \<and>
    length (snd (run_limiter norm admit m calls)) \<le> most"
  using assms
proof (induction calls arbitrary: n m hist)
  case (Cons call calls)
  obtain src now where call: "call = (src, now)" by force
  obtain ok m1 where step: "admit m src now = (ok, m1)" by force
  have le: "n \<le> now" and srt: "sorted (now # map snd calls)"
    using Cons.prems(2) call by auto
  note Cons.IH [OF admit_remembers [OF Cons.prems(1) le step refl] srt]
  then show ?case
    using admit_decides [OF Cons.prems(1) le step refl] call step by (auto split: prod.splits if_splits)
qed (simp add: remembers_def)

lemma run_refines_spec:
  assumes "sorted (map snd calls)"
  shows "fst (run_limiter norm admit [] calls) = spec_admissions within attempts most [] (keyed norm calls) \<and>
    length (snd (run_limiter norm admit [] calls)) \<le> most"
proof (cases calls)
  case (Cons c cs)
  then show ?thesis using run_refines [OF remembers_start [of "snd c"], of calls] assms by simp
qed simp

text \<open>Admitted attempts of a key in the window that begins at \<open>start\<close>.\<close>

definition attempts_between :: "'k \<Rightarrow> 't \<Rightarrow> ('k \<times> 't) list \<Rightarrow> nat" where
  "attempts_between s start hist = length (filter (\<lambda>t. start \<le> t \<and> within t start) (history_of s hist))"

lemma attempts_between_snoc:
  assumes "\<forall>s start. attempts_between s start hist \<le> attempts" and "recent within now s' hist < attempts"
    and "\<forall>e \<in> set hist. snd e \<le> now"
  shows "attempts_between s start (hist @ [(s', now)]) \<le> attempts"
proof (cases "s = s' \<and> start \<le> now \<and> within now start")
  case True
  let ?W = "\<lambda>t. start \<le> t \<and> within t start"
  have "filter ?W (history_of s hist) = filter ?W (filter (within now) (history_of s hist))"
    using True within_newer by (auto simp: filter_filter intro!: filter_cong)
  then have "length (filter ?W (history_of s hist)) < attempts"
    using assms(2) True length_filter_le [of ?W "filter (within now) (history_of s hist)"]
    by (auto simp: recent_def)
  then show ?thesis using True by (simp add: attempts_between_def)
next
  case False
  then show ?thesis using assms(1) by (auto simp: attempts_between_def)
qed

lemma spec_bounded:
  assumes "\<forall>s start. attempts_between s start hist \<le> attempts" and "sorted (map snd hist @ map snd calls)"
  shows "\<forall>s start. attempts_between s start (hist @ spec_admissions within attempts most hist calls) \<le> attempts"
  using assms
proof (induction calls arbitrary: hist)
  case (Cons call calls)
  obtain k now where call: "call = (k, now)" by force
  have hist_le: "\<forall>e \<in> set hist. snd e \<le> now" using Cons.prems(2) call by (auto simp: sorted_append)
  show ?case
  proof (cases "decide within attempts most hist k now")
    case True
    then have "\<forall>s start. attempts_between s start (hist @ [(k, now)]) \<le> attempts"
      using attempts_between_snoc [OF Cons.prems(1) _ hist_le] by (auto simp: decide_def)
    moreover have "sorted (map snd (hist @ [(k, now)]) @ map snd calls)" using Cons.prems(2) call by simp
    ultimately show ?thesis using Cons.IH [of "hist @ [(k, now)]"] True call by simp
  next
    case False
    have "sorted (map snd hist @ map snd calls)" using Cons.prems(2) call by (auto simp: sorted_append)
    then show ?thesis using Cons.IH [of hist] Cons.prems(1) False call by simp
  qed
qed simp

lemma run_bounded:
  assumes "sorted (map snd calls)"
  shows "attempts_between s start (fst (run_limiter norm admit [] calls)) \<le> attempts"
  using spec_bounded [of "[]" "keyed norm calls"] run_refines_spec [OF assms] assms
  by (simp add: attempts_between_def history_of_def)

end

end
