(* ===== verification/Admission.thy ===== *)
theory Admission
  imports Sliding_Window
begin

text \<open>
  Bounded login admission, \<open>hmux-gateway/src/admission.rs\<close>: the per-source sliding-window limiter,
  an instance of the contract of \<open>Sliding_Window\<close>, and the pool of password workers, a step relation
  whose reachable states are characterised by an invariant.
\<close>

section \<open>The login limiter\<close>

definition PASSWORD_WORKERS :: nat where "PASSWORD_WORKERS = 2"
definition LOGIN_SOURCES :: nat where "LOGIN_SOURCES = 1024"
definition LOGIN_ATTEMPTS :: nat where "LOGIN_ATTEMPTS = 5"
definition LOGIN_WINDOW :: duration where "LOGIN_WINDOW = seconds 60"

lemmas admission_limits [limits] = PASSWORD_WORKERS_def LOGIN_SOURCES_def LOGIN_ATTEMPTS_def

type_synonym login_limiter = "(string \<times> instant list) list"

definition source_key :: "string \<Rightarrow> string" where
  "source_key source = (if 80 < length source then ''unknown'' else source)"

definition in_window :: "instant \<Rightarrow> instant \<Rightarrow> bool" where
  "in_window now t \<longleftrightarrow> now - t < LOGIN_WINDOW"

definition expire_sources :: "instant \<Rightarrow> login_limiter \<Rightarrow> login_limiter" where
  "expire_sources now m = filter (\<lambda>e. snd e \<noteq> [] \<and> in_window now (last (snd e))) m"

definition admit :: "login_limiter \<Rightarrow> string \<Rightarrow> instant \<Rightarrow> bool \<times> login_limiter" where
  "admit m source now =
     (let source = source_key source;
          m = expire_sources now m in
      case map_of m source of
        Some ts \<Rightarrow>
          let ts = filter (in_window now) ts in
          if LOGIN_ATTEMPTS \<le> length ts then (False, insert_key source ts m)
          else (True, insert_key source (ts @ [now]) m)
      | None \<Rightarrow>
          if LOGIN_SOURCES \<le> length m then (False, m)
          else (True, insert_key source [now] m))"

definition sources :: "login_limiter \<Rightarrow> nat" where
  "sources m = length m"

definition admissions :: "login_limiter \<Rightarrow> (string \<times> instant) list \<Rightarrow> (string \<times> instant) list \<times> login_limiter" where
  "admissions = run_limiter source_key admit"

lemma admit_slides: "admit m s now = slide in_window LOGIN_ATTEMPTS LOGIN_SOURCES m (source_key s) now"
  by (simp add: admit_def slide_def expire_sources_def slide_expire_def Let_def)

interpretation limiter: sliding_window in_window LOGIN_ATTEMPTS LOGIN_SOURCES source_key admit
  by unfold_locales (auto simp: in_window_def LOGIN_WINDOW_def seconds_def admission_limits admit_slides)

section \<open>The password workers\<close>

text \<open>
  \<open>PasswordAdmission\<close> hands out \<open>PASSWORD_WORKERS\<close> permits; a permit belongs to the running job, not to
  the request, and returns when the job ends, whatever became of the request. \<open>pw_running\<close> lists the
  running jobs, \<open>pw_waiting\<close> those whose request still awaits them.
\<close>

record password_pool =
  pw_running :: "nat list"
  pw_waiting :: "nat list"
  pw_closed :: bool
  pw_draining :: bool
  pw_next :: nat

definition pool_default :: password_pool where
  "pool_default = \<lparr>pw_running = [], pw_waiting = [], pw_closed = False, pw_draining = False, pw_next = 0\<rparr>"

definition pool_available :: "password_pool \<Rightarrow> nat" where
  "pool_available p = PASSWORD_WORKERS - length (pw_running p)"

definition try_spawn :: "password_pool \<Rightarrow> nat option \<times> password_pool" where
  \<comment> \<open>a queued drain is first in line for every permit\<close>
  "try_spawn p =
     (if pw_closed p \<or> pw_draining p \<or> pool_available p = 0 then (None, p)
      else (Some (pw_next p),
            p\<lparr>pw_running := pw_next p # pw_running p, pw_waiting := pw_next p # pw_waiting p, pw_next := pw_next p + 1\<rparr>))"

definition drop_request :: "nat \<Rightarrow> password_pool \<Rightarrow> password_pool" where
  "drop_request j p = p\<lparr>pw_waiting := removeAll j (pw_waiting p)\<rparr>"

definition job_exit :: "nat \<Rightarrow> password_pool \<Rightarrow> password_pool" where
  "job_exit j p = p\<lparr>pw_running := removeAll j (pw_running p), pw_waiting := removeAll j (pw_waiting p)\<rparr>"

definition pool_drain :: "password_pool \<Rightarrow> password_pool" where
  "pool_drain p = p\<lparr>pw_draining := True\<rparr>"

definition pool_close :: "password_pool \<Rightarrow> password_pool option" where
  \<comment> \<open>\<open>None\<close>: the drain is still waiting for a permit\<close>
  "pool_close p = (if pw_draining p \<and> pw_running p = [] then Some (p\<lparr>pw_closed := True\<rparr>) else None)"

inductive pool_step :: "password_pool \<Rightarrow> password_pool \<Rightarrow> bool" where
  spawn: "pool_step p (snd (try_spawn p))"
| abandon: "pool_step p (drop_request j p)"
| finish: "pool_step p (job_exit j p)"
| drain: "pool_step p (pool_drain p)"
| close: "pool_close p = Some p' \<Longrightarrow> pool_step p p'"

definition pool_ok :: "password_pool \<Rightarrow> bool" where
  "pool_ok p \<longleftrightarrow>
     distinct (pw_running p) \<and> length (pw_running p) \<le> PASSWORD_WORKERS \<and> list_all (\<lambda>j. j < pw_next p) (pw_running p) \<and>
     set (pw_waiting p) \<subseteq> set (pw_running p) \<and> (pw_closed p \<longrightarrow> pw_draining p \<and> pw_running p = [])"

lemma pool_step_ok: "pool_step p p' \<Longrightarrow> pool_ok p \<Longrightarrow> pool_ok p'"
  by (induction rule: pool_step.induct)
    (auto simp: pool_ok_def try_spawn_def drop_request_def job_exit_def pool_drain_def pool_close_def pool_available_def
      list_all_iff PASSWORD_WORKERS_def distinct_removeAll removeAll_filter_not_eq split: if_splits
      intro: order_trans [OF length_filter_le])

interpretation pool: step_invariant pool_step pool_ok
  by unfold_locales (rule pool_step_ok)

section \<open>Properties\<close>

text \<open>
  The limiter's table, which forgets expired attempts and sources as it goes, takes exactly the
  decisions of the specification that keeps the whole history: over any run of calls in time
  order, the admitted attempts are those whose source has fewer than five admitted attempts in the
  last minute and either has one already or finds fewer than 1024 other live sources.
\<close>

lemma limiter_refines_history:
  assumes "sorted (map snd calls)"
  shows "fst (admissions [] calls) = spec_admissions in_window LOGIN_ATTEMPTS LOGIN_SOURCES [] (keyed source_key calls)"
  using limiter.run_refines_spec [OF assms] by (simp add: admissions_def)

text \<open>
  C7: whatever the sources and the pattern of the calls, as long as the clock does not run back, no
  source is admitted more than five times in any window of sixty seconds, and the table never
  holds more than 1024 sources.
\<close>

theorem login_window_bounded:
  assumes "sorted (map snd calls)"
  shows "length (filter (\<lambda>t. start \<le> t \<and> t < start + LOGIN_WINDOW) (history_of s (fst (admissions [] calls)))) \<le> LOGIN_ATTEMPTS \<and>
    sources (snd (admissions [] calls)) \<le> LOGIN_SOURCES"
proof -
  have "(\<lambda>t. start \<le> t \<and> t < start + LOGIN_WINDOW) = (\<lambda>t. start \<le> t \<and> in_window t start)"
    by (auto simp: in_window_def fun_eq_iff)
  then show ?thesis
    using limiter.run_bounded [OF assms, of s start] limiter.run_refines_spec [OF assms]
    by (simp add: limiter.attempts_between_def admissions_def sources_def)
qed

theorem login_window_bounded_witness:
  "length (filter (\<lambda>t. 0 \<le> t \<and> t < 0 + LOGIN_WINDOW) (history_of ''a'' (fst (admissions [] (replicate 7 (''a'', 3)))))) \<le> LOGIN_ATTEMPTS"
  using login_window_bounded [of "replicate 7 (''a'', 3)" 0 "''a''"] by (simp add: numeral_eq_Suc)

text \<open>
  A password is never derived by more than two workers at once. However requests are dropped or
  aborted, the permit stays with the running job; a request that still waits has its job running; and
  once the drain of a shutdown has returned, no job runs and none is ever started again.
\<close>

lemma password_workers_bounded:
  assumes "pool_step\<^sup>*\<^sup>* pool_default p"
  shows "length (pw_running p) \<le> PASSWORD_WORKERS \<and> set (pw_waiting p) \<subseteq> set (pw_running p) \<and>
    (pw_closed p \<longrightarrow> pw_running p = [] \<and> try_spawn p = (None, p))"
proof -
  have "pool_ok pool_default" by (simp add: pool_ok_def pool_default_def)
  then have "pool_ok p" by (rule pool.run_keeps [OF assms])
  then show ?thesis by (auto simp: pool_ok_def try_spawn_def)
qed

end
