(* ===== verification/Flow.thy ===== *)
theory Flow
  imports Prelude
begin

text \<open>
  The per-view rendering credit of \<open>hmux-protocol/src/flow.rs\<close>: a window of at most 32 frames of
  at most 16 KiB each, acknowledged oldest first with the exact frame size. The locale
  \<open>fifo_credit\<close> is the contract its two users (the gateway's view lease and Home's terminal
  writer) rely on; the window of the source interprets it.
\<close>

section \<open>The output window\<close>

definition CHUNK :: nat where "CHUNK = 16384"
definition FRAMES :: nat where "FRAMES = 32"
definition BYTES :: nat where "BYTES = CHUNK * FRAMES"
definition STALL :: duration where "STALL = seconds 30"

lemmas flow_limits [limits] = CHUNK_def FRAMES_def BYTES_def

record output_window =
  ow_frames :: "(nat \<times> instant) list"
  ow_bytes :: nat

definition window_default :: output_window where
  "window_default = \<lparr>ow_frames = [], ow_bytes = 0\<rparr>"

text \<open>
  \<open>BYTES - self.bytes\<close> is a \<open>usize\<close> subtraction; the invariant below shows that it never
  underflows, so the truncated subtraction of \<^typ>\<open>nat\<close> computes the same number.
\<close>

definition window_reserve :: "output_window \<Rightarrow> nat \<Rightarrow> instant \<Rightarrow> bool \<times> output_window" where
  "window_reserve w n now =
     (if n = 0 \<or> CHUNK < n \<or> FRAMES \<le> length (ow_frames w) \<or> BYTES - ow_bytes w < n
      then (False, w)
      else (True, w\<lparr>ow_frames := ow_frames w @ [(n, now)], ow_bytes := ow_bytes w + n\<rparr>))"

definition window_acknowledge :: "output_window \<Rightarrow> int \<Rightarrow> bool \<times> output_window" where
  "window_acknowledge w n =
     (case ow_frames w of
        [] \<Rightarrow> (False, w)
      | (n0, _) # rest \<Rightarrow>
          if n \<noteq> int n0 then (False, w)
          else (True, w\<lparr>ow_frames := rest, ow_bytes := ow_bytes w - n0\<rparr>))"

definition window_stalled :: "output_window \<Rightarrow> instant \<Rightarrow> bool" where
  "window_stalled w now =
     (case ow_frames w of [] \<Rightarrow> False | (_, queued) # _ \<Rightarrow> STALL \<le> now - queued)"

definition retained_bytes :: "output_window \<Rightarrow> nat" where
  "retained_bytes w = ow_bytes w"

definition retained_frames :: "output_window \<Rightarrow> nat" where
  "retained_frames w = length (ow_frames w)"

definition window_ok :: "output_window \<Rightarrow> bool" where
  "window_ok w \<longleftrightarrow>
     ow_bytes w = sum_list (map fst (ow_frames w)) \<and>
     length (ow_frames w) \<le> FRAMES \<and>
     (\<forall>f \<in> set (ow_frames w). 0 < fst f \<and> fst f \<le> CHUNK)"

lemma window_ok_bytes: "window_ok w \<Longrightarrow> ow_bytes w \<le> length (ow_frames w) * CHUNK"
  using sum_list_le_length_times [of "map fst (ow_frames w)" CHUNK]
  by (auto simp: window_ok_def)

lemma window_ok_no_underflow: "window_ok w \<Longrightarrow> ow_bytes w \<le> BYTES"
proof -
  assume ok: "window_ok w"
  then have "length (ow_frames w) * CHUNK \<le> FRAMES * CHUNK"
    by (simp add: window_ok_def)
  then show ?thesis
    using window_ok_bytes [OF ok] by (simp only: BYTES_def mult.commute)
qed

text \<open>The byte test is subsumed by the frame test: 32 frames of 16 KiB are exactly \<open>BYTES\<close>.\<close>

lemma window_byte_test_subsumed:
  assumes "window_ok w" and "n \<le> CHUNK" and "length (ow_frames w) < FRAMES"
  shows "n \<le> BYTES - ow_bytes w"
proof -
  have "ow_bytes w + CHUNK \<le> Suc (length (ow_frames w)) * CHUNK"
    using window_ok_bytes [OF assms(1)] by simp
  also have "\<dots> \<le> FRAMES * CHUNK"
    using assms(3) by (intro mult_right_mono) auto
  finally show ?thesis
    using assms(2) by (simp add: BYTES_def mult.commute)
qed

lemma window_reserve_iff:
  assumes "window_ok w"
  shows "fst (window_reserve w n now) \<longleftrightarrow> 0 < n \<and> n \<le> CHUNK \<and> length (ow_frames w) < FRAMES"
  using window_byte_test_subsumed [OF assms, of n] by (auto simp: window_reserve_def)

lemma window_default_ok [keeps]: "window_ok window_default"
  by (simp add: window_ok_def window_default_def)

lemma window_reserve_ok [keeps]: "window_ok w \<Longrightarrow> window_ok (snd (window_reserve w n now))"
  by (auto simp: window_ok_def window_reserve_def)

lemma window_acknowledge_ok [keeps]: "window_ok w \<Longrightarrow> window_ok (snd (window_acknowledge w n))"
  by (auto simp: window_ok_def window_acknowledge_def split: list.splits)

section \<open>The contract of a first-in-first-out credit window\<close>

datatype credit_op = Reserve nat instant | Acknowledge int

locale fifo_credit =
  fixes init :: 'w
    and reserve :: "'w \<Rightarrow> nat \<Rightarrow> instant \<Rightarrow> bool \<times> 'w"
    and acknowledge :: "'w \<Rightarrow> int \<Rightarrow> bool \<times> 'w"
    and outstanding :: "'w \<Rightarrow> nat list"
    and inv :: "'w \<Rightarrow> bool"
  assumes inv_init: "inv init"
    and outstanding_init: "outstanding init = []"
    and inv_reserve: "inv w \<Longrightarrow> inv (snd (reserve w n t))"
    and inv_acknowledge: "inv w \<Longrightarrow> inv (snd (acknowledge w k))"
    and reserve_accept: "inv w \<Longrightarrow> fst (reserve w n t) \<Longrightarrow>
           outstanding (snd (reserve w n t)) = outstanding w @ [n]"
    and reserve_reject: "inv w \<Longrightarrow> \<not> fst (reserve w n t) \<Longrightarrow> snd (reserve w n t) = w"
    and acknowledge_iff: "inv w \<Longrightarrow> fst (acknowledge w k) \<longleftrightarrow>
           (\<exists>n ns. outstanding w = n # ns \<and> k = int n)"
    and acknowledge_accept: "inv w \<Longrightarrow> fst (acknowledge w k) \<Longrightarrow>
           outstanding (snd (acknowledge w k)) = tl (outstanding w)"
    and acknowledge_reject: "inv w \<Longrightarrow> \<not> fst (acknowledge w k) \<Longrightarrow> snd (acknowledge w k) = w"
begin

text \<open>A run of the window: the sizes of the accepted frames and of the accepted acknowledgements.\<close>

fun run :: "'w \<Rightarrow> credit_op list \<Rightarrow> nat list \<times> nat list \<times> 'w" where
  "run w [] = ([], [], w)"
| "run w (Reserve n t # ops) =
     (case run (snd (reserve w n t)) ops of
        (sent, acked, w') \<Rightarrow> ((if fst (reserve w n t) then n # sent else sent), acked, w'))"
| "run w (Acknowledge k # ops) =
     (case run (snd (acknowledge w k)) ops of
        (sent, acked, w') \<Rightarrow>
          (sent, (if fst (acknowledge w k) then nat k # acked else acked), w'))"

lemma run_inv: "inv w \<Longrightarrow> inv (snd (snd (run w ops)))"
  by (induction w ops rule: run.induct)
    (simp_all add: split_beta inv_reserve inv_acknowledge)

lemma run_conserves:
  assumes "inv w" and "run w ops = (sent, acked, w')"
  shows "outstanding w @ sent = acked @ outstanding w'"
  using assms
proof (induction w ops arbitrary: sent acked rule: run.induct)
  case (1 w)
  then show ?case by simp
next
  case (2 w n t ops)
  let ?w = "snd (reserve w n t)"
  obtain s a where r: "run ?w ops = (s, a, w')"
    and acked: "acked = a" and sent: "sent = (if fst (reserve w n t) then n # s else s)"
    using "2.prems"(2) by (auto split: prod.splits)
  have "outstanding ?w @ s = a @ outstanding w'"
    using "2.IH" [OF _ r] "2.prems"(1) inv_reserve by simp
  then show ?case
    using "2.prems"(1) acked sent
    by (cases "fst (reserve w n t)") (simp_all add: reserve_accept reserve_reject)
next
  case (3 w k ops)
  let ?w = "snd (acknowledge w k)"
  obtain s a where r: "run ?w ops = (s, a, w')"
    and sent: "sent = s" and acked: "acked = (if fst (acknowledge w k) then nat k # a else a)"
    using "3.prems"(2) by (auto split: prod.splits)
  have IH: "outstanding ?w @ s = a @ outstanding w'"
    using "3.IH" [OF _ r] "3.prems"(1) inv_acknowledge by simp
  show ?case
  proof (cases "fst (acknowledge w k)")
    case True
    then obtain n ns where "outstanding w = n # ns" and "k = int n"
      using "3.prems"(1) by (auto simp: acknowledge_iff)
    then show ?thesis
      using IH True "3.prems"(1) sent acked by (simp add: acknowledge_accept)
  next
    case False
    then show ?thesis
      using IH "3.prems"(1) sent acked by (simp add: acknowledge_reject)
  qed
qed

end

definition window_sizes :: "output_window \<Rightarrow> nat list" where
  "window_sizes w = map fst (ow_frames w)"

interpretation window: fifo_credit window_default window_reserve window_acknowledge window_sizes window_ok
proof
  show "window_ok window_default" by (rule window_default_ok)
  show "window_sizes window_default = []"
    by (simp add: window_sizes_def window_default_def)
next
  fix w n t k
  assume "window_ok w"
  then show "window_ok (snd (window_reserve w n t))" and "window_ok (snd (window_acknowledge w k))"
    by (rule window_reserve_ok, rule window_acknowledge_ok)
qed (auto simp: window_reserve_def window_acknowledge_def window_sizes_def split: list.splits if_splits)

section \<open>Properties\<close>

text \<open>A client's run over the window, as a definition of its own for the statements below.\<close>

definition window_run :: "credit_op list \<Rightarrow> nat list \<times> nat list \<times> output_window" where
  "window_run ops = window.run window_default ops"

text \<open>
  C30: over any sequence of reservations and acknowledgements, accepted or not, the accepted
  frame sizes are the accepted acknowledgements followed by what is still outstanding: credit
  is returned in exactly the order it was taken, never twice and never for a frame not sent.
  The window holds at most 32 frames and 512 KiB throughout.
\<close>

theorem window_credit_fifo:
  "case window_run ops of (sent, acked, w) \<Rightarrow>
     sent = acked @ map fst (ow_frames w) \<and>
     retained_frames w \<le> FRAMES \<and>
     retained_bytes w = sum_list (map fst (ow_frames w)) \<and>
     retained_bytes w \<le> BYTES"
proof -
  obtain sent acked w where run: "window_run ops = (sent, acked, w)"
    by (cases "window_run ops")
  then have run': "window.run window_default ops = (sent, acked, w)"
    by (simp add: window_run_def)
  then have ok: "window_ok w"
    using window.run_inv [OF window_default_ok, of ops] by simp
  have "sent = acked @ map fst (ow_frames w)"
    using window.run_conserves [OF window_default_ok run']
    by (simp add: window_sizes_def window_default_def)
  then show ?thesis
    using run ok window_ok_no_underflow [OF ok]
    by (simp add: window_ok_def retained_frames_def retained_bytes_def)
qed

text \<open>
  On a well-formed window a reservation is granted exactly when the frame is nonempty, at most
  one chunk, and fewer than 32 frames are outstanding; the byte budget is never the binding test.
  The stall clock is that of the oldest frame alone: accepting further frames, or rejecting a
  wrong acknowledgement, does not move it.
\<close>

lemma window_grant_and_stall:
  assumes "window_ok w"
  shows "(fst (window_reserve w n t) \<longleftrightarrow> 0 < n \<and> n \<le> CHUNK \<and> retained_frames w < FRAMES) \<and>
    (ow_frames w \<noteq> [] \<longrightarrow>
       window_stalled (snd (window_reserve w n t)) now = window_stalled w now) \<and>
    (\<not> fst (window_acknowledge w k) \<longrightarrow>
       window_stalled (snd (window_acknowledge w k)) now = window_stalled w now)"
proof (intro conjI impI)
  show "fst (window_reserve w n t) \<longleftrightarrow> 0 < n \<and> n \<le> CHUNK \<and> retained_frames w < FRAMES"
    using window_reserve_iff [OF assms] by (simp add: retained_frames_def)
next
  assume "ow_frames w \<noteq> []"
  then show "window_stalled (snd (window_reserve w n t)) now = window_stalled w now"
    by (cases "ow_frames w") (simp_all add: window_reserve_def window_stalled_def)
next
  assume "\<not> fst (window_acknowledge w k)"
  then show "window_stalled (snd (window_acknowledge w k)) now = window_stalled w now"
    using window.acknowledge_reject [OF assms] by simp
qed

end
