(* ===== verification/Transport.thy ===== *)
theory Transport
  imports Wire
begin

text \<open>
  The bounded connection writer of \<open>hmux-protocol/src/transport.rs\<close>: admission before encoding
  (at most 16 frames and 4 MiB outstanding), the life of an admitted job in the single writer
  task, and the heartbeat that decides when a peer is gone. The runtime (tokio's semaphores,
  channels, timers and the socket) is not part of the program: what it answers is an argument of
  the operations, and what the code relies on is stated as a law of that argument.
\<close>

section \<open>Limits, errors and the runtime\<close>

definition QUEUED_FRAMES :: nat where "QUEUED_FRAMES = 16"
definition QUEUED_BYTES :: nat where "QUEUED_BYTES = MAX_MESSAGE"
definition QUEUE_DEADLINE :: duration where "QUEUE_DEADLINE = seconds 5"
definition WRITE_DEADLINE :: duration where "WRITE_DEADLINE = seconds 5"
definition HEARTBEAT_DEADLINE :: duration where "HEARTBEAT_DEADLINE = seconds 10"

lemmas transport_limits [limits] = QUEUED_FRAMES_def QUEUED_BYTES_def

datatype transport_error =
  TBusy | TSize | TCancelled | TQueueTimeout | TWriteTimeout | TClosed | TTransport | TProtocol

datatype negotiated = JsonV1 | ProtobufV2

text \<open>
  \<open>acquire permits held n\<close> is the answer of a counting semaphore of so many permits, of which \<open>held\<close>
  lists the outstanding ones, to \<open>try_acquire_many(n)\<close>; \<open>try_send\<close> of a bounded channel may find
  it full or closed.
\<close>

type_synonym semaphore = "nat \<Rightarrow> nat list \<Rightarrow> nat \<Rightarrow> bool"

datatype try_send = Sent | QueueFull | QueueClosed

definition semaphore_law :: "semaphore \<Rightarrow> bool" where
  "semaphore_law acquire \<longleftrightarrow>
     (\<forall>permits held n. acquire permits held n \<longrightarrow> sum_list held + n \<le> permits)"

section \<open>Sender and reservation\<close>

text \<open>
  \<open>sd_held\<close> lists the outstanding permits, one entry per reservation or job: its key and the bytes
  it holds (each holds one slot). \<open>Drop\<close> of an \<open>OwnedSemaphorePermit\<close> removes the entry.
\<close>

datatype frame = Text bytes | Binary bytes | CloseFrame nat bytes

record job =
  jb_permit :: nat
  jb_message :: frame
  jb_expires :: instant
  jb_reply :: bool \<comment> \<open>a receipt waits for the outcome; \<open>False\<close> for a detached job\<close>

record sender =
  sd_stopped :: bool
  sd_protocol :: negotiated
  sd_byte_limit :: nat
  sd_held :: "(nat \<times> nat) list"
  sd_next :: nat
  sd_queue :: "job list"

record reservation =
  rv_permit :: nat
  rv_bytes :: nat
  rv_admitted :: instant

definition hold :: "sender \<Rightarrow> nat \<Rightarrow> instant \<Rightarrow> reservation \<times> sender" where
  "hold s n now =
     (\<lparr>rv_permit = sd_next s, rv_bytes = n, rv_admitted = now\<rparr>,
      s\<lparr>sd_held := sd_held s @ [(sd_next s, n)], sd_next := sd_next s + 1\<rparr>)"

definition resize :: "sender \<Rightarrow> nat \<Rightarrow> nat \<Rightarrow> sender" where
  \<comment> \<open>\<open>split\<close> and drop the unused bytes of a permit, or add the bytes an acquisition was granted\<close>
  "resize s p n = s\<lparr>sd_held := map (\<lambda>e. if fst e = p then (p, n) else e) (sd_held s)\<rparr>"

definition release :: "sender \<Rightarrow> nat \<Rightarrow> sender" where
  "release s p = s\<lparr>sd_held := remove_key p (sd_held s)\<rparr>"

definition slots_grant :: "semaphore \<Rightarrow> sender \<Rightarrow> bool" where
  "slots_grant acquire s = acquire QUEUED_FRAMES (map (\<lambda>_. 1) (sd_held s)) 1"

definition bytes_grant :: "semaphore \<Rightarrow> sender \<Rightarrow> nat \<Rightarrow> bool" where
  "bytes_grant acquire s n = acquire (sd_byte_limit s) (map snd (sd_held s)) n"

definition try_reserve ::
  "semaphore \<Rightarrow> sender \<Rightarrow> nat \<Rightarrow> instant \<Rightarrow> (transport_error, reservation) result \<times> sender" where
  "try_reserve acquire s n now =
     (if sd_stopped s then (Err TClosed, s)
      else if n = 0 \<or> sd_byte_limit s < n then (Err TSize, s)
      else if \<not> slots_grant acquire s then (Err TBusy, s)
      else if \<not> bytes_grant acquire s n then (Err TBusy, s)
      else case hold s n now of (r, s') \<Rightarrow> (Ok r, s'))"

text \<open>
  The waiting variant: after a busy first try, one of the branches of the \<open>select!\<close> fires. The
  third branch takes a slot (an entry \<open>p\<close> with no bytes yet) and then the bytes, each when its
  semaphore grants it; \<open>s'\<close> is the sender when the wait ends, since other tasks ran meanwhile.
\<close>

datatype reserve_wait = WaitStopped | WaitCancelled | WaitTimeout | WaitSemaphoreClosed | WaitGranted nat instant

definition reserve ::
  "semaphore \<Rightarrow> sender \<Rightarrow> nat \<Rightarrow> instant \<Rightarrow> sender \<Rightarrow> reserve_wait \<Rightarrow>
    (transport_error, reservation) result \<times> sender" where
  "reserve acquire s n now s' w =
     (case try_reserve acquire s n now of
        (Inl TBusy, _) \<Rightarrow>
          (case w of
             WaitStopped \<Rightarrow> (Err TClosed, s')
           | WaitCancelled \<Rightarrow> (Err TCancelled, s')
           | WaitTimeout \<Rightarrow> (Err TQueueTimeout, s')
           | WaitSemaphoreClosed \<Rightarrow> (Err TClosed, s')
           | WaitGranted p now' \<Rightarrow>
               (Ok \<lparr>rv_permit = p, rv_bytes = n, rv_admitted = now'\<rparr>, resize s' p n))
      | done \<Rightarrow> done)"

definition sender_close :: "sender \<Rightarrow> sender" where
  "sender_close s = s\<lparr>sd_stopped := True\<rparr>"

definition sender_retained_bytes :: "sender \<Rightarrow> nat" where
  "sender_retained_bytes s = sum_list (map snd (sd_held s))"

definition sender_retained_frames :: "sender \<Rightarrow> nat" where
  "sender_retained_frames s = length (sd_held s)"

definition reservation_check ::
  "sender \<Rightarrow> reservation \<Rightarrow> nat \<Rightarrow> bool \<Rightarrow> instant \<Rightarrow> (transport_error, unit) result" where
  "reservation_check s r n cancelled now =
     (if sd_stopped s then Err TClosed
      else if cancelled then Err TCancelled
      else if QUEUE_DEADLINE \<le> now - rv_admitted r then Err TQueueTimeout
      else if n = 0 \<or> rv_bytes r < n then Err TSize
      else Ok ())"

text \<open>
  \<open>enqueue\<close> consumes the reservation: on an error its permits drop, on success the unused bytes are
  split off and the job keeps the rest until it leaves the writer.
\<close>

definition enqueue ::
  "try_send \<Rightarrow> sender \<Rightarrow> reservation \<Rightarrow> frame \<Rightarrow> nat \<Rightarrow> bool \<Rightarrow> bool \<Rightarrow> instant \<Rightarrow>
    (transport_error, unit) result \<times> sender" where
  "enqueue sent s r message n cancelled reply now =
     (case reservation_check s r n cancelled now of
        Inl e \<Rightarrow> (Err e, release s (rv_permit r))
      | Inr _ \<Rightarrow>
          (case sent of
             QueueFull \<Rightarrow> (Err TBusy, release s (rv_permit r))
           | QueueClosed \<Rightarrow> (Err TClosed, release s (rv_permit r))
           | Sent \<Rightarrow>
               (Ok (),
                (resize s (rv_permit r) n)\<lparr>sd_queue := sd_queue s @
                    [\<lparr>jb_permit = rv_permit r, jb_message = message,
                      jb_expires = rv_admitted r + QUEUE_DEADLINE, jb_reply = reply\<rparr>]\<rparr>)))"

definition submit_data ::
  "(bytes \<Rightarrow> bool) \<Rightarrow> try_send \<Rightarrow> sender \<Rightarrow> reservation \<Rightarrow> bytes \<Rightarrow> bool \<Rightarrow> bool \<Rightarrow> bool \<Rightarrow> instant \<Rightarrow>
    (transport_error, unit) result \<times> sender" where
  "submit_data is_utf8 sent s r raw binary cancelled reply now =
     (case reservation_check s r (length raw) cancelled now of
        Inl e \<Rightarrow> (Err e, release s (rv_permit r))
      | Inr _ \<Rightarrow>
          if binary then enqueue sent s r (Binary raw) (length raw) cancelled reply now
          else if is_utf8 raw then enqueue sent s r (Text raw) (length raw) cancelled reply now
          else (Err TProtocol, release s (rv_permit r)))"

definition submit_inner ::
  "(bytes \<Rightarrow> bool) \<Rightarrow> try_send \<Rightarrow> sender \<Rightarrow> reservation \<Rightarrow> bytes \<Rightarrow> bool \<Rightarrow> bool \<Rightarrow> instant \<Rightarrow>
    (transport_error, unit) result \<times> sender" where
  "submit_inner is_utf8 sent s r raw cancelled reply now =
     submit_data is_utf8 sent s r raw (sd_protocol s = ProtobufV2) cancelled reply now"

definition frame_size :: "frame \<Rightarrow> nat" where
  "frame_size f = (case f of Text raw \<Rightarrow> length raw | Binary raw \<Rightarrow> length raw | CloseFrame c reason \<Rightarrow> length reason + 2)"

text \<open>\<open>close_with\<close>: a best-effort close frame, then the unconditional stop.\<close>

definition close_with ::
  "semaphore \<Rightarrow> try_send \<Rightarrow> (nat \<Rightarrow> bool) \<Rightarrow> sender \<Rightarrow> nat \<Rightarrow> bytes \<Rightarrow> instant \<Rightarrow> sender" where
  "close_with acquire sent is_allowed s c reason now =
     sender_close
       (if is_allowed c \<and> length reason \<le> 123
        then case try_reserve acquire s (length reason + 2) now of
               (Inr r, s') \<Rightarrow> snd (enqueue sent s' r (CloseFrame c reason) (length reason + 2) False True now)
             | (Inl _, s') \<Rightarrow> s'
        else s)"

section \<open>Starting a connection\<close>

record websocket_config =
  wc_read_buffer_size :: nat
  wc_write_buffer_size :: nat
  wc_max_write_buffer_size :: nat
  wc_max_message_size :: "nat option"
  wc_max_frame_size :: "nat option"
  wc_accept_unmasked_frames :: bool

definition socket_config :: "websocket_config \<Rightarrow> websocket_config" where
  \<comment> \<open>the argument is the library's default configuration\<close>
  "socket_config dflt =
     dflt\<lparr>wc_read_buffer_size := 4096, wc_write_buffer_size := 0,
       wc_max_write_buffer_size := MAX_MESSAGE + 4096,
       wc_max_message_size := Some MAX_MESSAGE, wc_max_frame_size := Some MAX_MESSAGE\<rparr>"

definition start_with_limit ::
  "websocket_config \<Rightarrow> negotiated \<Rightarrow> nat \<Rightarrow> (transport_error, sender) result" where
  "start_with_limit c protocol byte_limit =
     (if byte_limit = 0 \<or> QUEUED_BYTES < byte_limit then Err TSize
      else if 4096 < wc_read_buffer_size c \<or> wc_write_buffer_size c \<noteq> 0
        \<or> byte_limit + 4096 < wc_max_write_buffer_size c
        \<or> (case wc_max_message_size c of None \<Rightarrow> True | Some n \<Rightarrow> byte_limit < n)
        \<or> (case wc_max_frame_size c of None \<Rightarrow> True | Some n \<Rightarrow> byte_limit < n)
        \<or> wc_accept_unmasked_frames c
      then Err TProtocol
      else Ok \<lparr>sd_stopped = False, sd_protocol = protocol, sd_byte_limit = byte_limit,
               sd_held = [], sd_next = 0, sd_queue = []\<rparr>)"

section \<open>The writer task\<close>

text \<open>
  The heartbeat: \<open>expected\<close> and \<open>seen\<close> are shared with the reader, \<open>pending\<close> belongs to the writer.
  The nonce is drawn from a hash of a sequence number, skipping 0 and the last one answered; the
  hash is keyed at random when the connection starts and is an argument here. The draw is a loop
  without a bound of its own and takes fuel.
\<close>

record heartbeat =
  hb_expected :: nat
  hb_seen :: nat
  hb_pending :: "(nat \<times> instant) option"
  hb_sequence :: nat

definition wrapping_succ :: "nat \<Rightarrow> nat" where
  "wrapping_succ n = (n + 1) mod 2 ^ 64"

fun draw_nonce :: "nat \<Rightarrow> (nat \<Rightarrow> nat) \<Rightarrow> nat \<Rightarrow> nat \<Rightarrow> (nat \<times> nat) option" where
  "draw_nonce 0 hash_one seen sq = None"
| "draw_nonce (Suc fuel) hash_one seen sq =
     (let sq = wrapping_succ sq; nonce = hash_one sq in
      if nonce = 0 \<or> seen = nonce then draw_nonce fuel hash_one seen sq
      else Some (nonce, sq))"

text \<open>The head of the writer loop: an answered heartbeat is cleared, an expired one ends the loop.\<close>

definition heartbeat_poll :: "heartbeat \<Rightarrow> instant \<Rightarrow> bool \<times> heartbeat" where
  "heartbeat_poll h now =
     (case hb_pending h of
        None \<Rightarrow> (True, h)
      | Some (nonce, deadline) \<Rightarrow>
          if hb_seen h = nonce then (True, h\<lparr>hb_expected := 0, hb_pending := None\<rparr>)
          else (\<not> deadline \<le> now, h))"

definition heartbeat_tick ::
  "nat \<Rightarrow> (nat \<Rightarrow> nat) \<Rightarrow> heartbeat \<Rightarrow> instant \<Rightarrow> bool \<Rightarrow> (bool \<times> heartbeat) option" where
  \<comment> \<open>\<open>sent\<close> is the outcome of sending the ping before its deadline\<close>
  "heartbeat_tick fuel hash_one h now sent =
     (case draw_nonce fuel hash_one (hb_seen h) (hb_sequence h) of
        None \<Rightarrow> None
      | Some (nonce, sq) \<Rightarrow>
          let h = h\<lparr>hb_sequence := sq, hb_expected := nonce\<rparr> in
          if sent then Some (True, h\<lparr>hb_pending := Some (nonce, now + HEARTBEAT_DEADLINE)\<rparr>)
          else Some (False, h))"

fun from_be_bytes :: "nat \<Rightarrow> bytes \<Rightarrow> nat" where
  "from_be_bytes acc [] = acc"
| "from_be_bytes acc (b # bs) = from_be_bytes (256 * acc + code b) bs"

definition on_pong :: "heartbeat \<Rightarrow> bytes \<Rightarrow> heartbeat" where
  "on_pong h payload =
     (if length payload \<noteq> 8 then h
      else let nonce = from_be_bytes 0 payload in
        if nonce \<noteq> 0 \<and> hb_expected h = nonce then h\<lparr>hb_seen := nonce\<rparr> else h)"

text \<open>
  \<open>write_with_deadlines\<close>. What happens around it, by the clock: when the connection is stopped, when the
  future of the write is ready and whether it succeeded, what the reader has stored as the last answered
  nonce at a moment, and how late the runtime polls a task that became ready at a moment. A \<open>select!\<close> is
  polled when the first of its branches is ready, or later; it then tries the branches in their order.
\<close>

record write_env =
  we_stopped :: "instant option"
  we_frame :: "(instant \<times> bool) option"
  we_seen :: "instant \<Rightarrow> nat"
  we_late :: "instant \<Rightarrow> duration"

definition happened :: "instant option \<Rightarrow> instant \<Rightarrow> bool" where
  "happened t now \<longleftrightarrow> (case t of None \<Rightarrow> False | Some t \<Rightarrow> t \<le> now)"

definition first_of :: "instant option \<Rightarrow> instant \<Rightarrow> instant" where
  "first_of t deadline = (case t of None \<Rightarrow> deadline | Some t \<Rightarrow> min t deadline)"

definition select_at :: "write_env \<Rightarrow> instant \<Rightarrow> instant \<Rightarrow> instant" where
  \<comment> \<open>when the runtime polls a select entered at \<open>now\<close> whose timers have fired at the deadline\<close>
  "select_at env now deadline =
     (let ready = max now (first_of (we_stopped env) (first_of (map_option fst (we_frame env)) deadline)) in ready + we_late env ready)"

definition write_outcome :: "write_env \<Rightarrow> instant \<Rightarrow> (transport_error, unit) result" where
  \<comment> \<open>\<open>timeout_at\<close> asks the future first: it reports the deadline only if the future is not ready\<close>
  "write_outcome env now =
     (case we_frame env of
        Some (ready, ok) \<Rightarrow> if ready \<le> now then (if ok then Ok () else Err TTransport) else Err TWriteTimeout
      | None \<Rightarrow> Err TWriteTimeout)"

definition select_write :: "write_env \<Rightarrow> instant \<Rightarrow> (transport_error, unit) result" where
  "select_write env now = (if happened (we_stopped env) now then Err TClosed else write_outcome env now)"

function write_loop :: "write_env \<Rightarrow> instant \<Rightarrow> instant \<Rightarrow> heartbeat \<Rightarrow> (transport_error, unit) result \<times> heartbeat \<times> instant" where
  \<comment> \<open>the deadline of the write and the moment; the last component is the moment it returns\<close>
  "write_loop env write_deadline now h =
     (let h = h\<lparr>hb_seen := we_seen env now\<rparr> in
      case hb_pending h of
        None \<Rightarrow> let now = select_at env now write_deadline in (select_write env now, h, now)
      | Some (nonce, heartbeat_deadline) \<Rightarrow>
          if hb_seen h = nonce then write_loop env write_deadline now (h\<lparr>hb_expected := 0, hb_pending := None\<rparr>)
          else if heartbeat_deadline \<le> now then (Err TWriteTimeout, h, now)
          else
            let now = select_at env now (min heartbeat_deadline write_deadline) in
            if happened (we_stopped env) now then (Err TClosed, h, now)
            else if heartbeat_deadline \<le> now then write_loop env write_deadline now h
            else (write_outcome env now, h, now))"
  by auto
termination
  by (relation "measure (\<lambda>(env, _, now, h). case hb_pending h of None \<Rightarrow> 0 | Some (_, deadline) \<Rightarrow> if deadline \<le> now then 1 else 2)")
    (auto split: option.splits)

declare write_loop.simps [simp del]

definition write_with_deadlines :: "write_env \<Rightarrow> instant \<Rightarrow> heartbeat \<Rightarrow> (transport_error, unit) result \<times> heartbeat \<times> instant" where
  "write_with_deadlines env now h = write_loop env (now + WRITE_DEADLINE) now h"

text \<open>
  What the writer does with the job it took from the queue: whether it starts the write, what it
  answers on the receipt, and whether the loop goes on.
\<close>

record served =
  sv_started :: bool
  sv_reply :: "(transport_error, unit) result option"
  sv_continue :: bool

definition serve_job ::
  "job \<Rightarrow> bool \<Rightarrow> bool \<Rightarrow> instant \<Rightarrow> (transport_error, unit) result \<Rightarrow> served" where
  "serve_job j cancelled reply_closed now written =
     (if cancelled \<or> (jb_reply j \<and> reply_closed)
      then if jb_reply j then \<lparr>sv_started = False, sv_reply = Some (Err TCancelled), sv_continue = True\<rparr>
           else \<lparr>sv_started = False, sv_reply = None, sv_continue = False\<rparr>
      else if jb_expires j \<le> now
      then if jb_reply j then \<lparr>sv_started = False, sv_reply = Some (Err TQueueTimeout), sv_continue = True\<rparr>
           else \<lparr>sv_started = False, sv_reply = None, sv_continue = False\<rparr>
      else \<lparr>sv_started = True,
            sv_reply = (if jb_reply j then Some written else None),
            sv_continue = is_Ok written \<and> \<not> (case jb_message j of CloseFrame _ _ \<Rightarrow> True | _ \<Rightarrow> False)\<rparr>)"

section \<open>The reader\<close>

datatype ws_message = WsText bytes | WsBinary bytes | WsPing bytes | WsPong bytes | WsOther

datatype read_action = Flush | Seen heartbeat | Deliver ws_message | Break

definition read_step :: "heartbeat \<Rightarrow> ws_message option \<Rightarrow> read_action" where
  \<comment> \<open>\<open>None\<close>: the stream ended or failed\<close>
  "read_step h message =
     (case message of
        Some (WsPing _) \<Rightarrow> Flush
      | Some (WsPong payload) \<Rightarrow> Seen (on_pong h payload)
      | Some (WsText raw) \<Rightarrow> Deliver (WsText raw)
      | Some (WsBinary raw) \<Rightarrow> Deliver (WsBinary raw)
      | _ \<Rightarrow> Break)"

datatype 'e incoming = Json message | Protobuf 'e

definition reader_receive ::
  "(bytes \<Rightarrow> message option) \<Rightarrow> (bytes \<Rightarrow> 'e option) \<Rightarrow> negotiated \<Rightarrow> ws_message option \<Rightarrow>
    (transport_error, 'e incoming) result" where
  "reader_receive from_slice pb_decode protocol message =
     (case message of
        Some (WsText raw) \<Rightarrow>
          if protocol = JsonV1
          then case message_decode from_slice raw of Inr m \<Rightarrow> Ok (Json m) | Inl _ \<Rightarrow> Err TProtocol
          else Err TProtocol
      | Some (WsBinary raw) \<Rightarrow>
          (case protocol of
             JsonV1 \<Rightarrow> (case message_decode from_slice raw of Inr m \<Rightarrow> Ok (Json m) | Inl _ \<Rightarrow> Err TProtocol)
           | ProtobufV2 \<Rightarrow> (case pb_decode raw of Some e \<Rightarrow> Ok (Protobuf e) | None \<Rightarrow> Err TProtocol))
      | None \<Rightarrow> Err TClosed
      | _ \<Rightarrow> Err TProtocol)"

section \<open>The sender's reachable states\<close>

text \<open>
  The steps of the tasks that share a sender. A reservation is owned by one task and consumed by
  its submission, so a permit in use by a queued job is neither submitted again nor dropped; the
  writer takes the oldest job and drops its permit when it is done with it.
\<close>

inductive sender_step :: "semaphore \<Rightarrow> sender \<Rightarrow> sender \<Rightarrow> bool" for acquire where
  step_reserve: "sender_step acquire s (snd (try_reserve acquire s n now))"
| step_slot: "slots_grant acquire s \<Longrightarrow> sender_step acquire s (snd (hold s 0 now))"
| step_bytes:
    "map_of (sd_held s) p = Some 0 \<Longrightarrow> p \<notin> jb_permit ` set (sd_queue s) \<Longrightarrow> bytes_grant acquire s n \<Longrightarrow>
     sender_step acquire s (resize s p n)"
| step_submit:
    "map_of (sd_held s) (rv_permit r) = Some (rv_bytes r) \<Longrightarrow> rv_permit r \<notin> jb_permit ` set (sd_queue s) \<Longrightarrow>
     sender_step acquire s (snd (submit_data is_utf8 sent s r raw binary cancelled reply now))"
| step_close_with: "sender_step acquire s (close_with acquire sent is_allowed s c reason now)"
| step_drop: "p \<notin> jb_permit ` set (sd_queue s) \<Longrightarrow> sender_step acquire s (release s p)"
| step_take: "sd_queue s = j # q \<Longrightarrow> sender_step acquire s (s\<lparr>sd_queue := q\<rparr>)"
| step_close: "sender_step acquire s (sender_close s)"

definition sender_ok :: "sender \<Rightarrow> bool" where
  "sender_ok s \<longleftrightarrow>
     wf_map (sd_held s) \<and> (\<forall>p \<in> set (keys (sd_held s)). p < sd_next s) \<and>
     length (sd_held s) \<le> QUEUED_FRAMES \<and> sender_retained_bytes s \<le> sd_byte_limit s \<and>
     distinct (map jb_permit (sd_queue s)) \<and>
     (\<forall>j \<in> set (sd_queue s). map_of (sd_held s) (jb_permit j) = Some (frame_size (jb_message j)))"

lemma map_of_resize:
  "map_of (sd_held (resize s p n)) = (\<lambda>k. if k = p then map_option (\<lambda>_. n) (map_of (sd_held s) p) else map_of (sd_held s) k)"
proof -
  have "map_of (map (\<lambda>e. if fst e = p then (p, n) else e) xs) k =
      (if k = p then map_option (\<lambda>_. n) (map_of xs p) else map_of xs k)" for xs :: "(nat \<times> nat) list" and k
    by (induction xs) auto
  then show ?thesis by (auto simp: resize_def)
qed

lemma keys_resize [simp]: "keys (sd_held (resize s p n)) = keys (sd_held s)"
  by (auto simp: resize_def keys_def)

lemma resize_simps [simp]:
  "sd_queue (resize s p n) = sd_queue s" "sd_next (resize s p n) = sd_next s"
  "sd_byte_limit (resize s p n) = sd_byte_limit s" "length (sd_held (resize s p n)) = length (sd_held s)"
  "wf_map (sd_held (resize s p n)) = wf_map (sd_held s)"
  by (simp_all add: resize_def wf_map_def) (simp add: keys_def comp_def if_distrib cong: if_cong)

lemma retained_resize:
  assumes "wf_map (sd_held s)" and "map_of (sd_held s) p = Some m"
  shows "sender_retained_bytes (resize s p n) + m = sender_retained_bytes s + n"
proof -
  have "wf_map xs \<Longrightarrow> map_of xs p = Some m \<Longrightarrow>
      sum_list (map snd (map (\<lambda>e. if fst e = p then (p, n) else e) xs)) + m = sum_list (map snd xs) + n"
    for xs :: "(nat \<times> nat) list"
  proof (induction xs)
    case (Cons e xs)
    have wf: "wf_map xs" and new: "fst e \<notin> set (keys xs)"
      using Cons.prems(1) by (auto simp: wf_map_def keys_def)
    show ?case
    proof (cases "fst e = p")
      case True
      then have "map (\<lambda>e. if fst e = p then (p, n) else e) xs = xs"
        using new by (intro map_idI) (metis image_eqI keys_def list.set_map)
      then show ?thesis using True Cons.prems(2) by (cases e) simp
    next
      case False
      then show ?thesis using Cons.IH [OF wf] Cons.prems(2) by (cases e) simp
    qed
  qed simp
  then show ?thesis using assms by (simp add: sender_retained_bytes_def resize_def)
qed

lemma release_simps [simp]:
  "sd_queue (release s p) = sd_queue s" "sd_next (release s p) = sd_next s"
  "sd_byte_limit (release s p) = sd_byte_limit s" "sd_held (release s p) = remove_key p (sd_held s)"
  by (simp_all add: release_def)

lemma release_ok [keeps]:
  assumes "sender_ok s" and "p \<notin> jb_permit ` set (sd_queue s)"
  shows "sender_ok (release s p)"
  using assms sum_list_filter_le [of snd "\<lambda>e. fst e \<noteq> p" "sd_held s"] length_remove_key_le [of p "sd_held s"]
  by (auto simp: sender_ok_def sender_retained_bytes_def remove_key_def [of p "sd_held s", symmetric]
      simp del: length_remove_key_le)

lemma hold_ok [keeps]:
  assumes "sender_ok s" and "length (sd_held s) < QUEUED_FRAMES"
    and "sender_retained_bytes s + n \<le> sd_byte_limit s"
  shows "sender_ok (snd (hold s n now))"
proof -
  have fresh: "sd_next s \<notin> set (keys (sd_held s))" using assms(1) by (auto simp: sender_ok_def)
  then have "wf_map (sd_held s @ [(sd_next s, n)])"
    using assms(1) by (auto simp: sender_ok_def wf_map_def keys_def)
  moreover have "map_of (sd_held s @ [(sd_next s, n)]) (jb_permit j) = Some (frame_size (jb_message j))"
    if "j \<in> set (sd_queue s)" for j
    using that assms(1) by (auto simp: sender_ok_def map_add_def split: option.splits)
  ultimately show ?thesis
    using assms by (auto simp: sender_ok_def hold_def sender_retained_bytes_def keys_def less_SucI)
qed

lemma slots_grantD: "semaphore_law acquire \<Longrightarrow> slots_grant acquire s \<Longrightarrow> length (sd_held s) < QUEUED_FRAMES"
  by (force simp: semaphore_law_def slots_grant_def sum_list_triv)

lemma bytes_grantD:
  "semaphore_law acquire \<Longrightarrow> bytes_grant acquire s n \<Longrightarrow> sender_retained_bytes s + n \<le> sd_byte_limit s"
  by (simp add: semaphore_law_def bytes_grant_def sender_retained_bytes_def)

lemma resize_ok [keeps]:
  assumes "sender_ok s" and "map_of (sd_held s) p = Some m" and "p \<notin> jb_permit ` set (sd_queue s)"
    and "sender_retained_bytes s + n \<le> sd_byte_limit s + m"
  shows "sender_ok (resize s p n)"
  using assms retained_resize [of s p m n]
  by (auto simp: sender_ok_def map_of_resize image_iff)

lemma try_reserve_ok [keeps]:
  assumes "semaphore_law acquire" and "sender_ok s"
  shows "sender_ok (snd (try_reserve acquire s n now))"
  using assms slots_grantD [OF assms(1)] bytes_grantD [OF assms(1)]
  by (auto simp: try_reserve_def split: prod.splits dest: hold_ok [of s n now])

lemma try_reserve_fresh:
  assumes "sender_ok s" and "try_reserve acquire s n now = (Inr r, s')"
  shows "map_of (sd_held s') (rv_permit r) = Some (rv_bytes r) \<and> rv_permit r \<notin> jb_permit ` set (sd_queue s') \<and> rv_bytes r = n"
proof -
  have "sd_next s \<notin> set (keys (sd_held s))" using assms(1) by (auto simp: sender_ok_def)
  then have none: "map_of (sd_held s) (sd_next s) = None" by (simp add: set_keys domIff)
  then have "sd_next s \<notin> jb_permit ` set (sd_queue s)"
    using assms(1) by (fastforce simp: sender_ok_def)
  then show ?thesis
    using assms(2) none
    by (auto simp: try_reserve_def hold_def map_add_def split: if_splits)
qed

lemma enqueue_ok [keeps]:
  assumes "sender_ok s" and "map_of (sd_held s) (rv_permit r) = Some (rv_bytes r)"
    and "rv_permit r \<notin> jb_permit ` set (sd_queue s)" and "frame_size message = n"
  shows "sender_ok (snd (enqueue sent s r message n cancelled reply now))"
proof (cases "reservation_check s r n cancelled now")
  case (Inl e)
  then show ?thesis using assms release_ok by (simp add: enqueue_def)
next
  case (Inr u)
  then have "n \<le> rv_bytes r" by (auto simp: reservation_check_def split: if_splits)
  moreover have "sender_retained_bytes s \<le> sd_byte_limit s" using assms(1) by (simp add: sender_ok_def)
  ultimately have "sender_ok (resize s (rv_permit r) n)"
    using assms by (intro resize_ok [OF assms(1,2,3)]) simp
  then show ?thesis
    using Inr assms release_ok [OF assms(1,3)]
    by (cases sent) (auto simp: enqueue_def sender_ok_def map_of_resize sender_retained_bytes_def)
qed

lemma submit_data_ok [keeps]:
  assumes "sender_ok s" and "map_of (sd_held s) (rv_permit r) = Some (rv_bytes r)"
    and "rv_permit r \<notin> jb_permit ` set (sd_queue s)"
  shows "sender_ok (snd (submit_data is_utf8 sent s r raw binary cancelled reply now))"
  using assms release_ok enqueue_ok
  by (auto simp: submit_data_def frame_size_def split: sum.splits)

lemma close_with_ok [keeps]:
  assumes "semaphore_law acquire" and "sender_ok s"
  shows "sender_ok (close_with acquire sent is_allowed s c reason now)"
proof -
  have close: "sender_ok t \<Longrightarrow> sender_ok (sender_close t)" for t
    by (simp add: sender_close_def sender_ok_def sender_retained_bytes_def)
  obtain res s' where r: "try_reserve acquire s (length reason + 2) now = (res, s')" by force
  have ok: "sender_ok s'" using try_reserve_ok [OF assms] r by (metis snd_conv)
  show ?thesis
  proof (cases res)
    case (Inl e)
    then show ?thesis using r ok assms close by (simp add: close_with_def)
  next
    case (Inr v)
    have "sender_ok (snd (enqueue sent s' v (CloseFrame c reason) (length reason + 2) False True now))"
      using try_reserve_fresh [OF assms(2)] r Inr by (intro enqueue_ok [OF ok]) (auto simp: frame_size_def)
    then show ?thesis using r Inr assms close by (simp add: close_with_def)
  qed
qed

lemma sender_step_ok [keeps]:
  assumes "sender_step acquire s s'" and "semaphore_law acquire" and "sender_ok s"
  shows "sender_ok s'"
  using assms(1)
proof (cases rule: sender_step.cases)
  case (step_slot now)
  then show ?thesis
    using hold_ok [OF assms(3) slots_grantD [OF assms(2)], of 0] assms(3) by (simp add: sender_ok_def)
next
  case (step_bytes p n)
  then show ?thesis using resize_ok [OF assms(3)] bytes_grantD [OF assms(2)] by fastforce
next
  case (step_take j q)
  then show ?thesis using assms(3) by (auto simp: sender_ok_def sender_retained_bytes_def)
next
  case step_close
  then show ?thesis using assms(3) by (simp add: sender_close_def sender_ok_def sender_retained_bytes_def)
qed (use assms try_reserve_ok submit_data_ok close_with_ok release_ok in auto)

interpretation sender: step_invariant "sender_step acquire" "\<lambda>s. semaphore_law acquire \<longrightarrow> sender_ok s"
  for acquire
  by unfold_locales (blast intro: sender_step_ok)

lemma start_with_limit_ok: "start_with_limit config protocol limit = Ok s \<Longrightarrow> sender_ok s"
  by (auto simp: start_with_limit_def sender_ok_def sender_retained_bytes_def keys_def split: if_splits)

lemma sender_reachable_ok:
  assumes "(sender_step acquire)\<^sup>*\<^sup>* s0 s" and "semaphore_law acquire"
    and "start_with_limit config protocol limit = Ok s0"
  shows "sender_ok s"
  using sender.run_keeps [OF assms(1)] assms(2) start_with_limit_ok [OF assms(3)] by simp

lemma sender_ok_queue:
  assumes "sender_ok s"
  shows "card (jb_permit ` set (sd_queue s)) = length (sd_queue s)"
    and "jb_permit ` set (sd_queue s) \<subseteq> set (keys (sd_held s))"
    and "card (set (keys (sd_held s))) = length (sd_held s)"
  using assms distinct_card [of "map jb_permit (sd_queue s)"] distinct_card [of "keys (sd_held s)"]
  by (force simp: sender_ok_def wf_map_def keys_def)+

section \<open>The heartbeat's runs\<close>

datatype hb_event = Tick nat instant | Pong bytes | Poll instant

text \<open>One event of the two tasks that share the heartbeat; \<open>Tick\<close> carries the nonce that was drawn.\<close>

fun hb_run :: "heartbeat \<Rightarrow> hb_event list \<Rightarrow> heartbeat" where
  "hb_run h [] = h"
| "hb_run h (Tick nonce now # es) =
     hb_run (h\<lparr>hb_expected := nonce, hb_pending := Some (nonce, now + HEARTBEAT_DEADLINE)\<rparr>) es"
| "hb_run h (Pong payload # es) = hb_run (on_pong h payload) es"
| "hb_run h (Poll now # es) = hb_run (snd (heartbeat_poll h now)) es"

definition is_tick :: "hb_event \<Rightarrow> bool" where
  "is_tick e = (case e of Tick _ _ \<Rightarrow> True | _ \<Rightarrow> False)"

lemma draw_nonce_fresh:
  "draw_nonce fuel hash_one seen sq = Some (nonce, sq') \<Longrightarrow> nonce \<noteq> 0 \<and> nonce \<noteq> seen"
  by (induction fuel arbitrary: sq) (auto simp: Let_def split: if_splits)

lemma draw_nonce_ends:
  assumes "hash_one (((wrapping_succ ^^ Suc k) sq)) \<notin> {0, seen}" and "k < fuel"
  shows "draw_nonce fuel hash_one seen sq \<noteq> None"
  using assms
proof (induction fuel arbitrary: sq k)
  case (Suc fuel)
  show ?case
  proof (cases k)
    case 0
    then show ?thesis using Suc.prems(1) by (auto simp: Let_def)
  next
    case (Suc k')
    then show ?thesis
      using Suc.IH [of k' "wrapping_succ sq"] Suc.prems by (auto simp: Let_def funpow_swap1)
  qed
qed simp

lemma hb_run_unanswered:
  assumes "hb_pending h = Some (nonce, deadline)" and "hb_seen h \<noteq> nonce"
    and "\<not> list_ex is_tick es" and "\<forall>p. Pong p \<in> set es \<longrightarrow> length p \<noteq> 8 \<or> from_be_bytes 0 p \<noteq> nonce"
  shows "hb_pending (hb_run h es) = Some (nonce, deadline) \<and> hb_seen (hb_run h es) \<noteq> nonce"
  using assms
proof (induction h es rule: hb_run.induct)
  case (3 h payload es)
  then show ?case by (auto simp: on_pong_def Let_def is_tick_def split: if_splits)
next
  case (4 h now es)
  then show ?case by (auto simp: heartbeat_poll_def is_tick_def)
qed (auto simp: is_tick_def)

section \<open>Properties\<close>

text \<open>
  Whatever the tasks sharing a connection do (reserve, wait for a slot and then for bytes,
  submit, close, drop a reservation, serve a job), and whatever a semaphore that never over-grants
  answers, at most 16 frames and \<open>byte_limit\<close> payload bytes are outstanding, every queued job
  holds exactly its frame's bytes, and a task that still owns a reservation finds room in the
  16-place queue, so that the channel's \<open>Full\<close> answer never occurs.
\<close>

lemma sender_admission_bounded:
  assumes "semaphore_law acquire" and "start_with_limit config protocol limit = Ok s0"
    and "(sender_step acquire)\<^sup>*\<^sup>* s0 s"
  shows "sender_retained_frames s \<le> QUEUED_FRAMES \<and> sender_retained_bytes s \<le> sd_byte_limit s \<and>
    (\<forall>j \<in> set (sd_queue s). map_of (sd_held s) (jb_permit j) = Some (frame_size (jb_message j))) \<and>
    (\<forall>p \<in> set (keys (sd_held s)) - jb_permit ` set (sd_queue s). length (sd_queue s) < QUEUED_FRAMES)"
proof -
  have ok: "sender_ok s" by (rule sender_reachable_ok [OF assms(3,1,2)])
  have "length (sd_queue s) < length (sd_held s)"
    if "p \<in> set (keys (sd_held s)) - jb_permit ` set (sd_queue s)" for p
    using that sender_ok_queue [OF ok] psubset_card_mono [of "set (keys (sd_held s))" "jb_permit ` set (sd_queue s)"]
    by fastforce
  then show ?thesis
    using ok by (fastforce simp: sender_ok_def sender_retained_frames_def)
qed

definition sample_semaphore :: semaphore where
  "sample_semaphore permits held n \<longleftrightarrow> sum_list held + n \<le> permits"

definition sample_config :: websocket_config where
  "sample_config = socket_config
     \<lparr>wc_read_buffer_size = 131072, wc_write_buffer_size = 131072, wc_max_write_buffer_size = 0,
      wc_max_message_size = None, wc_max_frame_size = None, wc_accept_unmasked_frames = False\<rparr>"

definition sample_sender :: sender where
  "sample_sender = \<lparr>sd_stopped = False, sd_protocol = ProtobufV2, sd_byte_limit = QUEUED_BYTES,
     sd_held = [], sd_next = 0, sd_queue = []\<rparr>"

lemma sample_sender_started: "start_with_limit sample_config ProtobufV2 QUEUED_BYTES = Ok sample_sender"
  by (simp add: start_with_limit_def sample_config_def socket_config_def sample_sender_def limits)

text \<open>
  A job that reaches the writer is settled: one with a receipt is answered exactly once,
  with the write's own outcome when the write started and with \<open>Cancelled\<close> or \<open>QueueTimeout\<close> when it
  did not; a detached one is written or the connection ends, so that no teardown control is ever
  skipped while the peer stays connected; and the loop goes on after a started write only if that
  write succeeded and was not the close frame.
\<close>

lemma job_settled:
  "let out = serve_job j cancelled reply_closed now written in
     (sv_reply out \<noteq> None \<longleftrightarrow> jb_reply j) \<and>
     (sv_started out \<longleftrightarrow> \<not> cancelled \<and> \<not> (jb_reply j \<and> reply_closed) \<and> now < jb_expires j) \<and>
     (sv_started out \<and> jb_reply j \<longrightarrow> sv_reply out = Some written) \<and>
     (\<not> sv_started out \<and> jb_reply j \<longrightarrow> sv_reply out \<in> {Some (Err TCancelled), Some (Err TQueueTimeout)} \<and> sv_continue out) \<and>
     (\<not> jb_reply j \<longrightarrow> sv_started out \<or> \<not> sv_continue out) \<and>
     (sv_started out \<and> sv_continue out \<longrightarrow> written = Ok () \<and> (\<forall>c r. jb_message j \<noteq> CloseFrame c r))"
  by (cases written) (auto simp: serve_job_def Let_def split: frame.splits)

lemma select_at:
  assumes "\<And>t. we_late env t \<le> d"
  shows "now \<le> select_at env now deadline" "select_at env now deadline \<le> max now deadline + d"
    "deadline \<le> select_at env now deadline \<or> happened (we_stopped env) (select_at env now deadline) \<or>
      happened (map_option fst (we_frame env)) (select_at env now deadline)"
proof -
  define due where "due = first_of (we_stopped env) (first_of (map_option fst (we_frame env)) deadline)"
  have at: "select_at env now deadline = max now due + we_late env (max now due)" by (simp add: select_at_def due_def Let_def)
  have early: "happened t a" if "t = Some b" "b \<le> a" for t a b using that by (simp add: happened_def)
  have due: "due \<le> deadline" "due = deadline \<or> we_stopped env = Some due \<or> map_option fst (we_frame env) = Some due"
    by (auto simp: due_def first_of_def min_def split: option.splits)
  show "now \<le> select_at env now deadline" by (simp add: at)
  show "select_at env now deadline \<le> max now deadline + d" using due(1) assms [of "max now due"] unfolding at by linarith
  have "due \<le> select_at env now deadline" by (simp add: at)
  then show "deadline \<le> select_at env now deadline \<or> happened (we_stopped env) (select_at env now deadline) \<or>
      happened (map_option fst (we_frame env)) (select_at env now deadline)"
    using due(2) early by metis
qed

text \<open>A result of a write at a moment, and why.\<close>

definition write_cause :: "write_env \<Rightarrow> instant \<Rightarrow> heartbeat \<Rightarrow> (transport_error, unit) result \<Rightarrow> instant \<Rightarrow> bool" where
  "write_cause env write_deadline h res now \<longleftrightarrow>
     (case res of
        Inr _ \<Rightarrow> (\<exists>ready. we_frame env = Some (ready, True) \<and> ready \<le> now)
      | Inl TTransport \<Rightarrow> (\<exists>ready. we_frame env = Some (ready, False) \<and> ready \<le> now)
      | Inl TClosed \<Rightarrow> happened (we_stopped env) now
      | Inl TWriteTimeout \<Rightarrow>
          \<not> happened (map_option fst (we_frame env)) now \<and> write_deadline \<le> now \<or>
          (\<exists>nonce deadline. hb_pending h = Some (nonce, deadline) \<and> deadline \<le> now \<and> we_seen env now \<noteq> nonce)
      | _ \<Rightarrow> False)"

lemma write_cause_seen [simp]: "write_cause env write_deadline (h\<lparr>hb_seen := n\<rparr>) = write_cause env write_deadline h"
  by (intro ext) (simp add: write_cause_def split: sum.split transport_error.split)

lemma write_outcome_cause:
  assumes "write_deadline \<le> now \<or> happened (map_option fst (we_frame env)) now"
  shows "write_cause env write_deadline h (write_outcome env now) now"
  using assms by (auto simp: write_outcome_def write_cause_def happened_def split: option.splits)

lemma select_write_cause:
  assumes "write_deadline \<le> now \<or> happened (we_stopped env) now \<or> happened (map_option fst (we_frame env)) now"
  shows "write_cause env write_deadline h (select_write env now) now"
  using assms write_outcome_cause [of write_deadline now env h] by (auto simp: select_write_def write_cause_def)

lemma unanswered_done:
  assumes "hb_pending h = None" and "\<And>t. we_late env t \<le> d" and "write_loop env write_deadline now h = (res, h', at)"
  shows "now \<le> at \<and> at \<le> max now write_deadline + d \<and> hb_pending h' = None \<and> write_cause env write_deadline g res at"
proof -
  have at: "at = select_at env now write_deadline" "res = select_write env at" "hb_pending h' = None"
    using assms(1,3) by (auto simp: write_loop.simps Let_def)
  show ?thesis
    using select_at [OF assms(2), where now = now and deadline = write_deadline, folded at(1)] select_write_cause [of write_deadline at env g] at by simp
qed

lemma deadline_passed:
  assumes "hb_pending h = Some (nonce, deadline)" "deadline \<le> now" and "\<And>t. we_late env t \<le> d"
    and "write_loop env write_deadline now h = (res, h', at)"
  shows "now \<le> at \<and> at \<le> max now write_deadline + d \<and> write_cause env write_deadline h res at \<and>
    (hb_pending h' = None \<and> we_seen env now = nonce \<or> at = now \<and> res = Err TWriteTimeout)"
proof (cases "we_seen env now = nonce")
  case True
  then have "write_loop env write_deadline now (h\<lparr>hb_seen := we_seen env now, hb_expected := 0, hb_pending := None\<rparr>) = (res, h', at)"
    using assms(1,4) by (subst (asm) write_loop.simps) simp
  from unanswered_done [OF _ assms(3) this] True show ?thesis by simp
next
  case False
  then have "res = Err TWriteTimeout \<and> at = now"
    using assms(1,2,4) by (auto simp: write_loop.simps)
  then show ?thesis using assms(1,2) False by (auto simp: write_cause_def)
qed

lemma write_loop_cause:
  assumes "\<And>t. we_late env t \<le> d" and "write_loop env write_deadline now h = (res, h', at)" and "now \<le> write_deadline"
  shows "now \<le> at \<and> at \<le> write_deadline + 2 * d \<and> write_cause env write_deadline h res at \<and>
    (\<forall>nonce deadline. hb_pending h = Some (nonce, deadline) \<longrightarrow>
       hb_pending h' = None \<and> (\<exists>t. now \<le> t \<and> t \<le> at \<and> we_seen env t = nonce) \<or> at \<le> max now deadline + d)"
proof (cases "hb_pending h")
  case None
  from unanswered_done [OF None assms(1,2), of h] assms(3) None show ?thesis by auto
next
  case (Some p)
  then obtain nonce deadline where p: "hb_pending h = Some (nonce, deadline)" by (cases p) simp
  let ?h = "h\<lparr>hb_seen := we_seen env now\<rparr>"
  consider "we_seen env now = nonce" | "deadline \<le> now" | "we_seen env now \<noteq> nonce" "now < deadline" by linarith
  then show ?thesis
  proof cases
    case 1
    then have "write_loop env write_deadline now (?h\<lparr>hb_expected := 0, hb_pending := None\<rparr>) = (res, h', at)"
      using p assms(2) by (subst (asm) write_loop.simps) simp
    from unanswered_done [OF _ assms(1) this, of h] 1 p assms(3) show ?thesis by auto
  next
    case 2
    from deadline_passed [OF p 2 assms(1,2)] p assms(3) show ?thesis by auto
  next
    case 3
    define w where "w = select_at env now (min deadline write_deadline)"
    have sel: "now \<le> w" "w \<le> max now (min deadline write_deadline) + d"
      "min deadline write_deadline \<le> w \<or> happened (we_stopped env) w \<or> happened (map_option fst (we_frame env)) w"
      unfolding w_def by (rule select_at [OF assms(1)])+
    have bounds: "w \<le> write_deadline + d" "w \<le> deadline + d" using sel(2) 3(2) assms(3) by linarith+
    have step: "write_loop env write_deadline now h =
        (if happened (we_stopped env) w then (Err TClosed, ?h, w)
         else if deadline \<le> w then write_loop env write_deadline w ?h else (write_outcome env w, ?h, w))"
      unfolding w_def using p 3 by (subst write_loop.simps) (simp add: Let_def)
    show ?thesis
    proof (cases "\<not> happened (we_stopped env) w \<and> deadline \<le> w")
      case True
      then have "write_loop env write_deadline w ?h = (res, h', at)" using step assms(2) by simp
      moreover have "hb_pending ?h = Some (nonce, deadline)" using p by simp
      ultimately have "w \<le> at" "at \<le> max w write_deadline + d" "write_cause env write_deadline h res at"
        "hb_pending h' = None \<and> we_seen env w = nonce \<or> at = w"
        using deadline_passed [of ?h nonce deadline w env d write_deadline res h' at] True assms(1) by auto
      then show ?thesis using sel(1) bounds p by auto
    next
      case False
      then consider "happened (we_stopped env) w" | "\<not> happened (we_stopped env) w" "w < deadline" by linarith
      then have "at = w \<and> write_cause env write_deadline h res at"
      proof cases
        case 1
        then show ?thesis using step assms(2) by (auto simp: write_cause_def)
      next
        case 2
        then have "at = w" "res = write_outcome env w" using step assms(2) by auto
        moreover have "write_deadline \<le> w \<or> happened (map_option fst (we_frame env)) w" using 2 sel(3) by (auto simp: min_def split: if_splits)
        ultimately show ?thesis using write_outcome_cause by blast
      qed
      then show ?thesis using sel(1) bounds p by auto
    qed
  qed
qed

text \<open>
  C32: the write of a frame ends, and only for a cause. Let the runtime poll the writer at most \<open>d\<close> after one of its
  branches is ready. However the connection, the frame and the pongs behave, the write returns within its five seconds, plus
  twice \<open>d\<close>. It reports success or failure of the frame only when the frame is done, that the connection is closed only when it
  was stopped, and a timeout only when the five seconds have passed without the frame being done or when the deadline of a heartbeat has
  passed and its pong is not there: an answered heartbeat never cuts a frame short. And a peer that does not answer the
  heartbeat ends the write at the heartbeat's deadline, plus \<open>d\<close>, at the latest.
\<close>

theorem write_ends_for_cause:
  assumes "\<And>t. we_late env t \<le> d" and "write_with_deadlines env now h = (res, h', at)"
  shows "now \<le> at \<and> at \<le> now + WRITE_DEADLINE + 2 * d \<and>
    (case res of
       Inr _ \<Rightarrow> (\<exists>ready. we_frame env = Some (ready, True) \<and> ready \<le> at)
     | Inl TTransport \<Rightarrow> (\<exists>ready. we_frame env = Some (ready, False) \<and> ready \<le> at)
     | Inl TClosed \<Rightarrow> happened (we_stopped env) at
     | Inl TWriteTimeout \<Rightarrow>
         \<not> happened (map_option fst (we_frame env)) at \<and> now + WRITE_DEADLINE \<le> at \<or>
         (\<exists>nonce deadline. hb_pending h = Some (nonce, deadline) \<and> deadline \<le> at \<and> we_seen env at \<noteq> nonce)
     | _ \<Rightarrow> False) \<and>
    (\<forall>nonce deadline. hb_pending h = Some (nonce, deadline) \<longrightarrow>
       hb_pending h' = None \<and> (\<exists>t. now \<le> t \<and> t \<le> at \<and> we_seen env t = nonce) \<or> at \<le> max now deadline + d)"
  using write_loop_cause [OF assms(1) assms(2) [unfolded write_with_deadlines_def]] unfolding write_cause_def by simp

definition slow_frame :: write_env where
  \<comment> \<open>written after three seconds, while the pong arrives after one\<close>
  "slow_frame = \<lparr>we_stopped = None, we_frame = Some (seconds 3, True), we_seen = \<lambda>t. if t < seconds 1 then 0 else 9, we_late = \<lambda>_. 0\<rparr>"

theorem write_ends_for_cause_witness:
  "\<exists>h' at. write_with_deadlines slow_frame 0 \<lparr>hb_expected = 9, hb_seen = 0, hb_pending = Some (9, seconds 2), hb_sequence = 1\<rparr> = (Ok (), h', at) \<and>
     hb_pending h' = None \<and> at \<le> seconds 5 \<and> seconds 3 \<le> at"
proof -
  let ?h = "\<lparr>hb_expected = 9, hb_seen = 0, hb_pending = Some (9 :: nat, seconds 2), hb_sequence = 1\<rparr>"
  obtain res h' at where w: "write_with_deadlines slow_frame 0 ?h = (res, h', at)" by (metis prod_cases3)
  have late: "we_late slow_frame t \<le> 0" for t by (simp add: slow_frame_def)
  have "res = Ok () \<and> hb_pending h' = None"
    using w by (auto simp add: write_with_deadlines_def write_loop.simps slow_frame_def select_at_def first_of_def happened_def select_write_def write_outcome_def
        WRITE_DEADLINE_def seconds_def Let_def)
  then show ?thesis
    using write_ends_for_cause [OF late w] w by (auto simp: slow_frame_def WRITE_DEADLINE_def)
qed

text \<open>
  C33: a stale pong cannot keep a dead peer alive. After a tick that drew its nonce by the code's
  loop, if no pong carrying that nonce arrives, the heartbeat stays pending whatever other pongs
  come, and the first poll at or after its deadline ends the writer.
\<close>

theorem missing_pong_ends_writer:
  assumes "draw_nonce fuel hash_one (hb_seen h) (hb_sequence h) = Some (nonce, sq)"
    and "\<not> list_ex is_tick es"
    and "\<forall>p. Pong p \<in> set es \<longrightarrow> length p \<noteq> 8 \<or> from_be_bytes 0 p \<noteq> nonce"
    and "start + HEARTBEAT_DEADLINE \<le> now"
  shows "\<exists>h'. heartbeat_tick fuel hash_one h start True = Some (True, h') \<and> \<not> fst (heartbeat_poll (hb_run h' es) now)"
proof -
  let ?h = "h\<lparr>hb_sequence := sq, hb_expected := nonce, hb_pending := Some (nonce, start + HEARTBEAT_DEADLINE)\<rparr>"
  have "hb_seen ?h \<noteq> nonce" using draw_nonce_fresh [OF assms(1)] by simp
  with hb_run_unanswered [of ?h nonce, OF _ _ assms(2,3)] assms(4)
  have "\<not> fst (heartbeat_poll (hb_run ?h es) now)" by (simp add: heartbeat_poll_def)
  then show ?thesis using assms(1) by (simp add: heartbeat_tick_def Let_def)
qed

theorem missing_pong_ends_writer_witness:
  "\<exists>h'. heartbeat_tick 3 (\<lambda>n. n) \<lparr>hb_expected = 0, hb_seen = 1, hb_pending = None, hb_sequence = 0\<rparr> 4 True = Some (True, h') \<and>
     \<not> fst (heartbeat_poll (hb_run h' [Pong ''abc'', Poll 5]) (4 + HEARTBEAT_DEADLINE))"
  by (rule missing_pong_ends_writer [where nonce = 2 and sq = 2])
    (simp_all add: numeral_3_eq_3 Let_def wrapping_succ_def is_tick_def)

end
