(* ===== verification/Payload.thy ===== *)
theory Payload
  imports Prelude
begin

text \<open>
  The payload budget of \<open>hmux-gateway/src/hub.rs\<close>: snapshots, queued replies and terminal output
  share 8 MiB, counted from the moment an allocation is requested to the moment its last owner
  drops it, also across a Home reconnect. The store of live allocations is explicit, because a
  \<open>Bytes\<close> clone in a caller's hands keeps its charge after the hub has dropped its own reference.
\<close>

section \<open>The budget\<close>

datatype hub_error =
  HOffline | HStale | HBusy | HCapacity | HUnsupported | HInvalid | HCancelled | HTransport
| HOutputFull | HRemoteOperation

definition RETAINED_PAYLOAD_BYTES :: nat where "RETAINED_PAYLOAD_BYTES = 8388608"

lemmas payload_limits [limits] = RETAINED_PAYLOAD_BYTES_def

text \<open>
  \<open>pb_used\<close> is the shared counter; \<open>pb_live\<close> maps each live allocation to what it has been charged
  (its own field \<open>charged\<close>). A \<open>Bytes\<close> names its owner, none for the empty one.
\<close>

record payload_budget =
  pb_used :: nat
  pb_live :: "(nat \<times> nat) list"
  pb_next :: nat

record payload =
  py_data :: bytes
  py_owner :: "nat option"

definition budget_default :: payload_budget where
  "budget_default = \<lparr>pb_used = 0, pb_live = [], pb_next = 0\<rparr>"

definition charged :: "payload_budget \<Rightarrow> nat \<Rightarrow> nat" where
  "charged b p = (case map_of (pb_live b) p of None \<Rightarrow> 0 | Some n \<Rightarrow> n)"

text \<open>
  \<open>fetch_update\<close> with \<open>checked_add\<close> and the limit: an addition that overflows \<open>usize\<close> exceeds the
  limit as well, so both failures are the one test.
\<close>

definition payload_charge :: "payload_budget \<Rightarrow> nat \<Rightarrow> nat \<Rightarrow> (hub_error, payload_budget) result" where
  "payload_charge b p capacity =
     (let extra = capacity - charged b p in
      if pb_used b + extra \<le> RETAINED_PAYLOAD_BYTES
      then Ok (b\<lparr>pb_used := pb_used b + extra, pb_live := insert_key p (charged b p + extra) (pb_live b)\<rparr>)
      else Err HCapacity)"

definition payload_drop :: "payload_budget \<Rightarrow> nat \<Rightarrow> payload_budget" where
  "payload_drop b p = b\<lparr>pb_used := pb_used b - charged b p, pb_live := remove_key p (pb_live b)\<rparr>"

definition payload_new :: "payload_budget \<Rightarrow> nat \<times> payload_budget" where
  "payload_new b = (pb_next b, b\<lparr>pb_live := insert_key (pb_next b) 0 (pb_live b), pb_next := pb_next b + 1\<rparr>)"

text \<open>
  \<open>reserve_exact n\<close> is the capacity the allocator gives a request for \<open>n\<close> bytes, if it succeeds.
  A failure after the first charge drops the payload and with it the charge.
\<close>

definition retain ::
  "(nat \<Rightarrow> nat option) \<Rightarrow> payload_budget \<Rightarrow> bytes \<Rightarrow> (hub_error, payload) result \<times> payload_budget" where
  "retain reserve_exact b raw =
     (if raw = [] then (Ok \<lparr>py_data = [], py_owner = None\<rparr>, b)
      else case payload_new b of (p, b) \<Rightarrow>
        (case payload_charge b p (length raw) of
           Inl e \<Rightarrow> (Err e, payload_drop b p)
         | Inr b \<Rightarrow>
             (case reserve_exact (length raw) of
                None \<Rightarrow> (Err HCapacity, payload_drop b p)
              | Some capacity \<Rightarrow>
                  (case payload_charge b p capacity of
                     Inl e \<Rightarrow> (Err e, payload_drop b p)
                   | Inr b \<Rightarrow> (Ok \<lparr>py_data = raw, py_owner = Some p\<rparr>, b)))))"

text \<open>A typed reply: \<open>n\<close> is its retained size with the fixed overhead of its shared cell.\<close>

definition retain_response :: "payload_budget \<Rightarrow> nat \<Rightarrow> (hub_error, nat) result \<times> payload_budget" where
  "retain_response b n =
     (if pb_used b + n \<le> RETAINED_PAYLOAD_BYTES
      then (Ok (pb_next b),
            b\<lparr>pb_used := pb_used b + n, pb_live := insert_key (pb_next b) n (pb_live b), pb_next := pb_next b + 1\<rparr>)
      else (Err HCapacity, b))"

definition retained_payload_bytes :: "payload_budget \<Rightarrow> nat" where
  "retained_payload_bytes b = pb_used b"

text \<open>Dropping the hub's reference; \<open>last\<close> tells whether no clone of it is left elsewhere.\<close>

definition drop_ref :: "(nat \<Rightarrow> bool) \<Rightarrow> payload_budget \<Rightarrow> payload option \<Rightarrow> payload_budget" where
  "drop_ref is_last b v =
     (case v of
        Some y \<Rightarrow> (case py_owner y of Some p \<Rightarrow> if is_last p then payload_drop b p else b | None \<Rightarrow> b)
      | None \<Rightarrow> b)"

section \<open>The accounting invariant\<close>

definition budget_ok :: "payload_budget \<Rightarrow> bool" where
  "budget_ok b \<longleftrightarrow>
     wf_map (pb_live b) \<and> (\<forall>p \<in> set (keys (pb_live b)). p < pb_next b) \<and>
     pb_used b = sum_list (map snd (pb_live b)) \<and> pb_used b \<le> RETAINED_PAYLOAD_BYTES"

lemma charged_remove:
  assumes "budget_ok b"
  shows "pb_used b = sum_list (map snd (remove_key p (pb_live b))) + charged b p"
  using assms sum_remove_key [of "pb_live b" p _ snd] map_of_None_remove_key [of "pb_live b" p]
  by (auto simp: budget_ok_def charged_def split: option.splits)

lemma keys_insert_key [simp]: "set (keys (insert_key k v m)) = insert k (set (keys m))"
  by (auto simp: insert_key_def keys_def remove_key_def)

lemma budget_default_ok [keeps]: "budget_ok budget_default"
  by (simp add: budget_ok_def budget_default_def keys_def)

lemma payload_drop_ok [keeps]:
  assumes "budget_ok b"
  shows "budget_ok (payload_drop b p)"
  using assms charged_remove [OF assms, of p] by (auto simp: budget_ok_def payload_drop_def)

lemma payload_charge_ok [keeps]:
  assumes "budget_ok b" and "p \<in> set (keys (pb_live b))" and "payload_charge b p n = Ok b'"
  shows "budget_ok b' \<and> charged b' p = max (charged b p) n \<and> pb_used b' = pb_used b + (n - charged b p) \<and>
    pb_next b' = pb_next b \<and> p \<in> set (keys (pb_live b'))"
  using assms charged_remove [OF assms(1), of p]
  by (auto simp: budget_ok_def payload_charge_def Let_def sum_insert_key charged_def split: if_splits)

lemma payload_new_ok [keeps]:
  assumes "budget_ok b" and "payload_new b = (p, b')"
  shows "budget_ok b' \<and> charged b' p = 0 \<and> pb_used b' = pb_used b \<and> p \<in> set (keys (pb_live b')) \<and>
    remove_key p (pb_live b') = pb_live b"
proof -
  have "pb_next b \<notin> set (keys (pb_live b))" using assms(1) by (auto simp: budget_ok_def)
  then have "remove_key (pb_next b) (pb_live b) = pb_live b"
    by (simp add: map_of_None_remove_key set_keys domIff)
  then show ?thesis
    using assms by (auto simp: budget_ok_def payload_new_def charged_def sum_insert_key less_SucI)
qed

lemma charge_same_others:
  "payload_charge b p n = Ok b' \<Longrightarrow> remove_key p (pb_live b') = remove_key p (pb_live b)"
  by (auto simp: payload_charge_def Let_def split: if_splits)

lemma payload_charge_Err: "payload_charge b p n = Err e \<Longrightarrow> e = HCapacity"
  by (auto simp: payload_charge_def Let_def split: if_splits)

lemma drop_restores:
  assumes "budget_ok b" and "budget_ok b0" and "remove_key p (pb_live b) = pb_live b0"
  shows "pb_live (payload_drop b p) = pb_live b0 \<and> pb_used (payload_drop b p) = pb_used b0 \<and> budget_ok (payload_drop b p)"
  using assms payload_drop_ok [OF assms(1), of p] by (simp add: payload_drop_def budget_ok_def)

text \<open>A failed retention leaves every charge as it was; a successful one covers its bytes.\<close>

lemma retain_cases:
  assumes ok: "budget_ok b" and run: "retain reserve_exact b raw = (res, b')"
  shows "budget_ok b' \<and>
    (case res of
       Inl e \<Rightarrow> e = HCapacity \<and> pb_live b' = pb_live b \<and> pb_used b' = pb_used b
     | Inr y \<Rightarrow> py_data y = raw \<and> (raw = [] \<and> py_owner y = None \<and> b' = b \<or>
         (\<exists>p. py_owner y = Some p \<and> p \<in> set (keys (pb_live b')) \<and> length raw \<le> charged b' p \<and>
           remove_key p (pb_live b') = pb_live b)))"
proof (cases "raw = []")
  case True
  then show ?thesis using ok run by (auto simp: retain_def)
next
  case False
  obtain p b1 where new: "payload_new b = (p, b1)" by force
  note n1 = payload_new_ok [OF ok new]
  note undo = drop_restores [OF _ ok]
  show ?thesis
  proof (cases "payload_charge b1 p (length raw)")
    case (Inl e)
    then show ?thesis
      using False run new n1 undo [of b1 p] payload_charge_Err [OF Inl] by (auto simp: retain_def)
  next
    case (Inr b2)
    then have n2: "budget_ok b2" "p \<in> set (keys (pb_live b2))" "charged b2 p = length raw"
      "remove_key p (pb_live b2) = pb_live b"
      using payload_charge_ok [of b1 p "length raw" b2] charge_same_others [OF Inr] n1 by auto
    show ?thesis
    proof (cases "reserve_exact (length raw)")
      case None
      then show ?thesis using False run new Inr n2 undo [of b2 p] by (auto simp: retain_def)
    next
      case (Some capacity)
      show ?thesis
      proof (cases "payload_charge b2 p capacity")
        case (Inl e)
        then show ?thesis
          using False run new Inr Some n2 undo [of b2 p] payload_charge_Err [OF Inl] by (auto simp: retain_def)
      next
        case Inr2: (Inr b3)
        then show ?thesis
          using False run new Inr Some n2 payload_charge_ok [OF n2(1,2) Inr2] charge_same_others [OF Inr2]
          by (auto simp: retain_def)
      qed
    qed
  qed
qed

lemma retain_ok [keeps]: "budget_ok b \<Longrightarrow> budget_ok (snd (retain reserve_exact b raw))"
  using retain_cases by (metis prod.collapse)

lemma retain_response_ok [keeps]:
  assumes "budget_ok b"
  shows "budget_ok (snd (retain_response b n))"
proof -
  have "pb_next b \<notin> set (keys (pb_live b))" using assms by (auto simp: budget_ok_def)
  then have "remove_key (pb_next b) (pb_live b) = pb_live b"
    by (simp add: map_of_None_remove_key set_keys domIff)
  then show ?thesis
    using assms by (auto simp: budget_ok_def retain_response_def sum_insert_key less_SucI)
qed

lemma drop_ref_ok [keeps]: "budget_ok b \<Longrightarrow> budget_ok (drop_ref is_last b v)"
  by (simp add: drop_ref_def payload_drop_ok split: option.split)

section \<open>Runs\<close>

inductive payload_step :: "payload_budget \<Rightarrow> payload_budget \<Rightarrow> bool" where
  ps_retain: "payload_step b (snd (retain reserve_exact b raw))"
| ps_response: "payload_step b (snd (retain_response b n))"
| ps_drop: "payload_step b (payload_drop b p)"

inductive_cases payload_stepE: "payload_step b b'"

interpretation budget: step_invariant payload_step budget_ok
  by unfold_locales (auto elim!: payload_stepE intro: retain_ok retain_response_ok payload_drop_ok)

section \<open>Properties\<close>

text \<open>
  Whatever is retained, replied and dropped, and in whatever order owners let go of their
  allocations, the shared counter is exactly the sum of what the live allocations were charged (so
  the subtraction of a drop never underflows and nothing is leaked from the budget), and it never
  exceeds 8 MiB.
\<close>

lemma payload_accounting_exact:
  assumes "payload_step\<^sup>*\<^sup>* budget_default b"
  shows "retained_payload_bytes b = sum_list (map snd (pb_live b)) \<and>
    retained_payload_bytes b \<le> RETAINED_PAYLOAD_BYTES"
  using budget.run_keeps [OF assms budget_default_ok] by (simp add: budget_ok_def retained_payload_bytes_def)

text \<open>
  Retaining a payload is all or nothing. On success the caller owns a copy of the bytes backed
  by a new allocation charged at least their length, and no other charge moved; on every failure,
  of the first charge, of the allocator, or of the second charge for the capacity it actually gave,
  the error is \<open>Capacity\<close> and the budget is as before.
\<close>

lemma retain_all_or_nothing:
  assumes "payload_step\<^sup>*\<^sup>* budget_default b" and "raw \<noteq> []"
  shows "case retain reserve_exact b raw of
      (Inl e, b') \<Rightarrow> e = HCapacity \<and> pb_live b' = pb_live b \<and> pb_used b' = pb_used b
    | (Inr y, b') \<Rightarrow> py_data y = raw \<and>
        (\<exists>p. py_owner y = Some p \<and> map_of (pb_live b) p = None \<and> length raw \<le> charged b' p \<and>
          remove_key p (pb_live b') = pb_live b)"
proof -
  have ok: "budget_ok b" by (rule budget.run_keeps [OF assms(1) budget_default_ok])
  obtain res b' where r: "retain reserve_exact b raw = (res, b')" by force
  have fresh: "map_of (pb_live b) p = None" if "remove_key p (pb_live b') = pb_live b" for p
    using map_of_remove_key [of p "pb_live b'"] that by simp
  show ?thesis
    using retain_cases [OF ok r] r assms(2) fresh by (auto split: sum.splits)
qed

end
