(* ===== verification/Completion_Queue.thy ===== *)
theory Completion_Queue
  imports Model
begin

text \<open>
  \<open>CompletionAdmission\<close> of \<open>hmux-gateway/src/hub.rs\<close>: which task-completion notifications of Home
  reach the gateway's lossy queue. The RFC 3339 parser and the queue are not part of the program:
  the parsed time (nanoseconds since the epoch) and the queue's answers are arguments.
\<close>

section \<open>The admission\<close>

record completion =
  cp_id :: string
  cp_session :: "session_identity option"
  cp_completed_at :: string

type_synonym seen = "(string \<times> instant) list"

definition SEEN_WINDOW :: duration where "SEEN_WINDOW = seconds 300"
definition SEEN_LIMIT :: nat where "SEEN_LIMIT = 4096"

lemmas completion_limits [limits] = SEEN_LIMIT_def

definition ns :: "int \<Rightarrow> int" where
  "ns s = s * 1000000000"

definition well_formed_completion :: "(string \<Rightarrow> int option) \<Rightarrow> completion \<Rightarrow> int \<Rightarrow> bool" where
  "well_formed_completion parse_rfc3339 event wall \<longleftrightarrow>
     length (cp_id event) = 64 \<and> list_all is_ascii_hexdigit (cp_id event) \<and>
     (case cp_session event of
        None \<Rightarrow> False
      | Some session \<Rightarrow>
          \<not> (si_created_at session < 1 \<or> \<not> validate_session_id (si_id session)) \<and>
          (case parse_rfc3339 (cp_completed_at event) of
             None \<Rightarrow> False
           | Some completed \<Rightarrow> \<not> (ns 60 < completed - wall \<or> ns 120 < wall - completed)))"

definition retain_seen :: "instant \<Rightarrow> seen \<Rightarrow> seen" where
  "retain_seen now sn = filter (\<lambda>e. now - snd e \<le> SEEN_WINDOW) sn"

definition completion_enqueue ::
  "(string \<Rightarrow> int option) \<Rightarrow> bool \<Rightarrow> bool \<Rightarrow> completion \<Rightarrow> int \<Rightarrow> instant \<Rightarrow> seen \<Rightarrow> completion option \<times> seen" where
  \<comment> \<open>\<open>closed\<close> and \<open>sent\<close>: the queue's \<open>is_closed\<close> and whether its \<open>try_send\<close> succeeds\<close>
  "completion_enqueue parse_rfc3339 closed sent event wall now sn =
     (if closed then (None, sn)
      else if \<not> well_formed_completion parse_rfc3339 event wall then (None, sn)
      else
        let sn = retain_seen now sn in
        if SEEN_LIMIT \<le> length sn \<or> map_of sn (cp_id event) \<noteq> None then (None, sn)
        else if sent then (Some event, insert_key (cp_id event) now sn)
        else (None, sn))"

section \<open>Runs\<close>

text \<open>One call: the queue's two answers, the event, and the wall and monotonic clocks.\<close>

type_synonym enqueue_call = "bool \<times> bool \<times> completion \<times> int \<times> instant"

definition call_now :: "enqueue_call \<Rightarrow> instant" where
  "call_now c = (case c of (_, _, _, _, now) \<Rightarrow> now)"

fun completion_run ::
  "(string \<Rightarrow> int option) \<Rightarrow> seen \<Rightarrow> enqueue_call list \<Rightarrow> (completion \<times> int \<times> instant) list \<times> seen" where
  "completion_run parse sn [] = ([], sn)"
| "completion_run parse sn ((closed, sent, event, wall, now) # calls) =
     (let r = completion_enqueue parse closed sent event wall now sn;
          rest = completion_run parse (snd r) calls in
      ((case fst r of None \<Rightarrow> fst rest | Some e \<Rightarrow> (e, wall, now) # fst rest), snd rest))"

lemma call_now_simp [simp]: "call_now (closed, sent, event, wall, now) = now"
  by (simp add: call_now_def)

definition seen_ok :: "seen \<Rightarrow> bool" where
  "seen_ok sn \<longleftrightarrow> wf_map sn \<and> length sn \<le> SEEN_LIMIT"

lemma retain_seen_lookup:
  assumes "wf_map sn"
  shows "map_of (retain_seen now sn) k =
    (case map_of sn k of Some t \<Rightarrow> if now - t \<le> SEEN_WINDOW then Some t else None | None \<Rightarrow> None)"
  by (simp add: retain_seen_def map_of_filter_key [OF assms] split: option.split)

lemma completion_enqueue_ok [keeps]:
  assumes "seen_ok sn"
  shows "seen_ok (snd (completion_enqueue parse closed sent event wall now sn))"
proof -
  have wf: "wf_map (retain_seen now sn)" and len: "length (retain_seen now sn) \<le> SEEN_LIMIT"
    using assms order_trans [OF length_filter_le, of "sn"] by (auto simp: seen_ok_def retain_seen_def)
  then show ?thesis
    using assms by (auto simp: completion_enqueue_def Let_def seen_ok_def length_insert_key)
qed

lemma completion_run_ok: "seen_ok sn \<Longrightarrow> seen_ok (snd (completion_run parse sn calls))"
  by (induction parse sn calls rule: completion_run.induct) (simp_all add: Let_def completion_enqueue_ok)

text \<open>Only a valid event is delivered, at its call's time, and it is remembered.\<close>

lemma completion_enqueue_Some:
  assumes "completion_enqueue parse closed sent event wall now sn = (Some e, sn')"
  shows "e = event \<and> well_formed_completion parse event wall \<and> map_of sn' (cp_id e) = Some now"
  using assms by (auto simp: completion_enqueue_def Let_def split: if_splits)

lemma completion_run_time:
  "(e, w, now) \<in> set (fst (completion_run parse sn calls)) \<Longrightarrow> now \<in> set (map call_now calls)"
  by (induction parse sn calls rule: completion_run.induct) (auto simp: Let_def split: option.splits)

lemma completion_run_valid:
  "(e, w, now) \<in> set (fst (completion_run parse sn calls)) \<Longrightarrow> well_formed_completion parse e w"
proof (induction parse sn calls rule: completion_run.induct)
  case (2 parse sn closed sent event wall nw calls)
  then show ?case
    using completion_enqueue_Some [of parse closed sent event wall nw sn]
    by (cases "completion_enqueue parse closed sent event wall nw sn")
      (auto simp: Let_def split: option.splits)
qed simp

text \<open>
  What a remembered delivery at \<open>t\<close> forbids: no later event with that identifier is delivered
  before more than five minutes have passed.
\<close>

lemma completion_enqueue_remembers:
  assumes "wf_map sn" and "map_of sn k = Some t" and "now - t \<le> SEEN_WINDOW"
    and "completion_enqueue parse closed sent event wall now sn = (out, sn')"
  shows "map_of sn' k = Some t \<and> (\<forall>e. out = Some e \<longrightarrow> cp_id e \<noteq> k)"
  using assms by (auto simp: completion_enqueue_def Let_def retain_seen_lookup split: if_splits)

lemma completion_run_later:
  assumes "seen_ok sn" and "map_of sn k = Some t" and "sorted (t # map call_now calls)"
    and "(e, w, now) \<in> set (fst (completion_run parse sn calls))" and "cp_id e = k"
  shows "t + SEEN_WINDOW < now"
  using assms
proof (induction parse sn calls arbitrary: t rule: completion_run.induct)
  case (2 parse sn closed sent event wall nw calls)
  obtain out sn' where step: "completion_enqueue parse closed sent event wall nw sn = (out, sn')" by force
  have ok': "seen_ok sn'" using completion_enqueue_ok [OF 2(2)] step by (metis snd_conv)
  have wf: "wf_map sn" using 2(2) by (simp add: seen_ok_def)
  show ?case
  proof (cases "nw - t \<le> SEEN_WINDOW")
    case True
    note kept = completion_enqueue_remembers [OF wf 2(3) True step]
    then have "(e, w, now) \<in> set (fst (completion_run parse sn' calls))"
      using 2(5,6) step by (auto simp: Let_def split: option.splits)
    then show ?thesis using "2.IH" [of "(out, sn')" t] step ok' kept 2(4,6) by simp
  next
    case False
    have "nw \<le> now" using completion_run_time [OF 2(5)] 2(4) by auto
    then show ?thesis using False by simp
  qed
qed simp

lemma completion_run_spaced:
  assumes "seen_ok sn" and "sorted (map call_now calls)"
  shows "sorted_wrt (\<lambda>(e, _, t) (e', _, t'). cp_id e = cp_id e' \<longrightarrow> t + SEEN_WINDOW < t')
    (fst (completion_run parse sn calls))"
  using assms
proof (induction parse sn calls rule: completion_run.induct)
  case (2 parse sn closed sent event wall nw calls)
  obtain out sn' where step: "completion_enqueue parse closed sent event wall nw sn = (out, sn')" by force
  have ok': "seen_ok sn'" using completion_enqueue_ok [OF 2(2)] step by (metis snd_conv)
  have rest: "sorted_wrt (\<lambda>(e, _, t) (e', _, t'). cp_id e = cp_id e' \<longrightarrow> t + SEEN_WINDOW < t')
      (fst (completion_run parse sn' calls))"
    using "2.IH" [of "(out, sn')"] step ok' 2(3) by simp
  show ?case
  proof (cases out)
    case None
    then show ?thesis using step rest by (simp add: Let_def)
  next
    case (Some e)
    then have "map_of sn' (cp_id e) = Some nw" using completion_enqueue_Some step by simp
    then have "cp_id e = cp_id e' \<longrightarrow> nw + SEEN_WINDOW < t'"
      if "(e', w', t') \<in> set (fst (completion_run parse sn' calls))" for e' w' t'
      using completion_run_later [OF ok', of "cp_id e" nw calls e' w' t' parse] 2(3) that by auto
    then show ?thesis using Some step rest by (auto simp: Let_def)
  qed
qed simp

section \<open>Properties\<close>

text \<open>
  Over any sequence of notifications, as long as the clock does not run back, two deliveries of
  the same identifier are more than five minutes apart: a replay within the window never reaches
  the queue, however the queue answered in between.
\<close>

lemma completion_delivered_once:
  assumes "sorted (map call_now calls)"
  shows "sorted_wrt (\<lambda>(e, _, t) (e', _, t'). cp_id e = cp_id e' \<longrightarrow> t + SEEN_WINDOW < t')
    (fst (completion_run parse [] calls))"
  using completion_run_spaced [of "[]" calls parse] assms by (simp add: seen_ok_def)

definition sample_completion :: completion where
  "sample_completion = \<lparr>cp_id = replicate 64 CHR ''a'', cp_session = Some \<lparr>si_id = ''$1'', si_created_at = 42\<rparr>,
     cp_completed_at = ''now''\<rparr>"

lemma sample_completion_well_formed: "well_formed_completion (\<lambda>_. Some 0) sample_completion 0"
  by (simp add: well_formed_completion_def sample_completion_def validate_session_id_def ascii_defs ns_def list_all_iff)

definition sample_calls :: "enqueue_call list" where
  "sample_calls = [(False, False, sample_completion, 0, 1), (False, True, sample_completion, 0, 2),
     (False, True, sample_completion, 0, 3)]"

text \<open>
  Every delivered event was acceptable when it was delivered: its identifier is 64 hexadecimal
  digits, its session is valid, and its completion time lies between 120 seconds before and 60
  seconds after the gateway's clock; and the memory of identifiers never exceeds 4096 entries.
\<close>

lemma completion_admission_valid:
  "(\<forall>(e, wall, now) \<in> set (fst (completion_run parse [] calls)).
      length (cp_id e) = 64 \<and> list_all is_ascii_hexdigit (cp_id e) \<and>
      (\<exists>s t. cp_session e = Some s \<and> validate_session_id (si_id s) \<and> 1 \<le> si_created_at s \<and>
        parse (cp_completed_at e) = Some t \<and> wall - ns 120 \<le> t \<and> t \<le> wall + ns 60)) \<and>
   length (snd (completion_run parse [] calls)) \<le> SEEN_LIMIT"
proof -
  have "length (snd (completion_run parse [] calls)) \<le> SEEN_LIMIT"
    using completion_run_ok [of "[]" parse calls] by (simp add: seen_ok_def)
  moreover have "length (cp_id e) = 64 \<and> list_all is_ascii_hexdigit (cp_id e) \<and>
      (\<exists>s t. cp_session e = Some s \<and> validate_session_id (si_id s) \<and> 1 \<le> si_created_at s \<and>
        parse (cp_completed_at e) = Some t \<and> wall - ns 120 \<le> t \<and> t \<le> wall + ns 60)"
    if "(e, wall, now) \<in> set (fst (completion_run parse [] calls))" for e wall now
    using completion_run_valid [OF that]
    by (auto simp: well_formed_completion_def not_less algebra_simps split: option.splits)
  ultimately show ?thesis by blast
qed

end
