(* ===== verification/Hub.thy ===== *)
theory Hub
  imports Flow Transport Payload Completion_Queue
begin

text \<open>
  \<open>Hub\<close> of \<open>hmux-gateway/src/hub.rs\<close>: the one authenticated Home connection of a gateway and the
  fan-out of its messages to pending requests, terminal views and uploads. Each function that
  takes the hub's lock is one definition over the state record; the asynchronous operations are
  composed of them, with what other tasks do between two locked sections as an argument.
\<close>

section \<open>State\<close>

definition MAX_PENDING :: nat where "MAX_PENDING = 16"
definition MAX_VIEWS :: nat where "MAX_VIEWS = MAX_TERMINALS"
definition MAX_UPLOADS :: nat where "MAX_UPLOADS = 2"
definition CATALOG_FRESH :: duration where "CATALOG_FRESH = seconds 40"
definition OUTPUT_CAP :: string where "OUTPUT_CAP = ''terminal-output-flow-v1''"
definition UPLOAD_CAP :: string where "UPLOAD_CAP = ''web-upload-v1''"
definition U64_LIMIT :: nat where "U64_LIMIT = 18446744073709551615"

lemmas hub_limits [limits] = MAX_PENDING_def MAX_VIEWS_def MAX_UPLOADS_def

type_synonym generation = nat

datatype operation =
  OpUnspecified | OpProfiles | OpCreate | OpAlias | OpHidden | OpConversation | OpWorkspace | OpProviders
| OpProviderKey | OpProviderJobStart | OpProviderJob | OpProviderJobInput | OpProviderJobCancel

datatype response_context = Operation operation | TerminalOpenContext | EmptyContext | UploadContext

datatype response_result = RProfiles | RCreated | ROk | RConversation | RWorkspace | RProviders | RStaged

record response =
  rp_id :: string
  rp_error :: string
  rp_result :: "response_result option"

definition response_matches :: "response \<Rightarrow> response_context \<Rightarrow> bool" where
  "response_matches v context =
     (if rp_error v \<noteq> [] then rp_result v = None
      else case (context, rp_result v) of
        (Operation OpProfiles, Some RProfiles) \<Rightarrow> True
      | (Operation OpCreate, Some RCreated) \<Rightarrow> True
      | (Operation OpAlias, Some ROk) \<Rightarrow> True
      | (Operation OpHidden, Some ROk) \<Rightarrow> True
      | (Operation OpConversation, Some RConversation) \<Rightarrow> True
      | (Operation OpWorkspace, Some RWorkspace) \<Rightarrow> True
      | (Operation OpProviders, Some RProviders) \<Rightarrow> True
      | (Operation OpProviderKey, Some RProviders) \<Rightarrow> True
      | (Operation OpProviderJobStart, Some RProviders) \<Rightarrow> True
      | (Operation OpProviderJob, Some RProviders) \<Rightarrow> True
      | (Operation OpProviderJobInput, Some RProviders) \<Rightarrow> True
      | (Operation OpProviderJobCancel, Some RProviders) \<Rightarrow> True
      | (TerminalOpenContext, Some ROk) \<Rightarrow> True
      | (EmptyContext, None) \<Rightarrow> True
      | (UploadContext, Some RStaged) \<Rightarrow> True
      | _ \<Rightarrow> False)"

record peer =
  pe_generation :: generation
  pe_sender :: sender
  pe_protocol :: negotiated

record pending =
  pd_generation :: generation
  pd_context :: response_context

record view_state =
  vs_generation :: generation

record upload_state =
  us_generation :: generation
  us_terminal :: bool

text \<open>The two atomics of a view, shared by its entry and its lease; they outlive the entry.\<close>

record view_cell =
  vc_closed :: nat
  vc_queued :: nat

record hub_state =
  hs_next_generation :: nat
  hs_next_id :: nat
  hs_peer :: "peer option"
  hs_pending :: "(string \<times> pending) list"
  hs_views :: "(string \<times> view_state) list"
  hs_uploads :: "(string \<times> upload_state) list"
  hs_seen :: seen
  hs_catalog :: "payload option"
  hs_claude :: "payload option"
  hs_codex :: "payload option"
  hs_updated :: "instant option"
  hs_output_cap :: bool
  hs_upload_cap :: bool
  hs_payloads :: payload_budget
  hs_cells :: "(string \<times> view_cell) list"

definition hub_new :: hub_state where
  "hub_new =
     \<lparr>hs_next_generation = 0, hs_next_id = 0, hs_peer = None, hs_pending = [], hs_views = [],
      hs_uploads = [], hs_seen = [], hs_catalog = None, hs_claude = None, hs_codex = None,
      hs_updated = None, hs_output_cap = False, hs_upload_cap = False,
      hs_payloads = budget_default, hs_cells = []\<rparr>"

section \<open>Messages and effects\<close>

datatype body =
  Hello "string list"
| Catalog bytes
| Usage nat bytes \<comment> \<open>the provider number on the wire: 1 is Claude, 2 is Codex\<close>
| UsageUnavailable
| Response response
| TerminalOutput string bytes
| TerminalExit string string
| RefreshResult string string
| UploadReady string
| UploadAck string int
| UploadComplete response
| UploadError response
| TaskComplete completion
| OtherBody

datatype out_body =
  Request string operation
| TerminalOpen string "string list"
| OutputAck string int
| TerminalInput string bytes
| Resize string nat nat
| Refresh string
| CloseView string
| CancelRequest string
| UploadStart string
| UploadData string bytes
| UploadFinish string
| UploadCancel string

datatype view_event = ViewData payload | ViewExit string | ViewRefreshResult bool

datatype upload_event = UpReady | UpAck int | UpComplete response | UpError response

text \<open>What a locked section sends to the waiting owners.\<close>

datatype effect =
  Reply string "(hub_error, response) result"
| ToView string view_event
| ToUpload string upload_event
| Notify completion
| PeerClosed generation

text \<open>
  The runtime and the code outside this theory, as arguments: the allocator, whether a reference is
  the last one, the retained size of a reply, the JSON payload of a snapshot, whether the receiver
  of the one send a section makes is there, the free places of an upload's event queue, and what
  the transport's own environment answers.
\<close>

record hub_env =
  ev_alloc :: "nat \<Rightarrow> nat option"
  ev_is_last :: "nat \<Rightarrow> bool"
  ev_reply_size :: "response \<Rightarrow> nat"
  ev_catalog :: "bytes \<Rightarrow> bytes option"
  ev_usage :: "bytes \<Rightarrow> bytes option"
  ev_sent :: bool
  ev_slots :: nat
  ev_parse_time :: "string \<Rightarrow> int option"
  ev_closed :: bool
  ev_wall :: int
  ev_now :: instant
  ev_acquire :: semaphore
  ev_utf8 :: "bytes \<Rightarrow> bool"
  ev_queue :: try_send
  ev_encode :: "negotiated \<Rightarrow> out_body \<Rightarrow> bytes option"
  ev_encoded_len :: "out_body \<Rightarrow> nat"
  ev_others :: "hub_state \<Rightarrow> hub_state" \<comment> \<open>what other tasks do while this one awaits\<close>
  ev_between :: "hub_state \<Rightarrow> hub_state" \<comment> \<open>and while it holds a reservation in \<open>submit\<close>\<close>
  ev_receipt :: "(transport_error, unit) result"

section \<open>Generations and identifiers\<close>

definition attached :: "hub_state \<Rightarrow> generation \<Rightarrow> bool" where
  "attached st g \<longleftrightarrow> (case hs_peer st of None \<Rightarrow> False | Some p \<Rightarrow> pe_generation p = g)"

definition attach :: "hub_state \<Rightarrow> sender \<Rightarrow> negotiated \<Rightarrow> (hub_error, generation) result \<times> hub_state" where
  "attach st s protocol =
     (case hs_peer st of
        Some _ \<Rightarrow> (Err HBusy, st)
      | None \<Rightarrow>
          if U64_LIMIT \<le> hs_next_generation st then (Err HCapacity, st)
          else let g = hs_next_generation st + 1 in
            (Ok g, st\<lparr>hs_next_generation := g,
                      hs_peer := Some \<lparr>pe_generation = g, pe_sender = s, pe_protocol = protocol\<rparr>\<rparr>))"

definition cell :: "hub_state \<Rightarrow> string \<Rightarrow> view_cell" where
  "cell st vid = (case map_of (hs_cells st) vid of Some c \<Rightarrow> c | None \<Rightarrow> \<lparr>vc_closed = 0, vc_queued = 0\<rparr>)"

definition set_closed :: "nat \<Rightarrow> string \<Rightarrow> hub_state \<Rightarrow> hub_state" where
  "set_closed c vid st = st\<lparr>hs_cells := insert_key vid ((cell st vid)\<lparr>vc_closed := c\<rparr>) (hs_cells st)\<rparr>"

definition set_queued :: "nat \<Rightarrow> string \<Rightarrow> hub_state \<Rightarrow> hub_state" where
  "set_queued n vid st = st\<lparr>hs_cells := insert_key vid ((cell st vid)\<lparr>vc_queued := n\<rparr>) (hs_cells st)\<rparr>"

definition detach_with_reason ::
  "hub_env \<Rightarrow> hub_state \<Rightarrow> generation \<Rightarrow> hub_error \<Rightarrow> hub_state \<times> effect list" where
  "detach_with_reason env st g reason =
     (if \<not> attached st g then (st, [])
      else
        let cells = fold (set_closed HOME_OFFLINE) (keys (hs_views st)) st;
            budget = drop_ref (ev_is_last env) (hs_payloads st) (hs_catalog st);
            budget = drop_ref (ev_is_last env) budget (hs_claude st);
            budget = drop_ref (ev_is_last env) budget (hs_codex st) in
        (cells\<lparr>hs_peer := None, hs_pending := [], hs_views := [], hs_uploads := [],
           hs_catalog := None, hs_claude := None, hs_codex := None, hs_updated := None,
           hs_output_cap := False, hs_upload_cap := False, hs_payloads := budget\<rparr>,
         PeerClosed g # map (\<lambda>k. Reply k (Err reason)) (keys (hs_pending st))))"

definition detach :: "hub_env \<Rightarrow> hub_state \<Rightarrow> generation \<Rightarrow> hub_state \<times> effect list" where
  "detach env st g = detach_with_reason env st g HOffline"

record home_snapshot =
  sn_connected :: bool
  sn_online :: bool
  sn_generation :: "generation option"
  sn_catalog :: "payload option"
  sn_claude_usage :: "payload option"
  sn_codex_usage :: "payload option"
  sn_output_flow :: bool
  sn_upload :: bool

definition hub_snapshot :: "hub_state \<Rightarrow> instant \<Rightarrow> home_snapshot" where
  "hub_snapshot st now =
     \<lparr>sn_connected = (hs_peer st \<noteq> None),
      sn_online = (hs_peer st \<noteq> None \<and>
        (case hs_updated st of None \<Rightarrow> False | Some at \<Rightarrow> now - at < CATALOG_FRESH)),
      sn_generation = map_option pe_generation (hs_peer st),
      sn_catalog = hs_catalog st, sn_claude_usage = hs_claude st, sn_codex_usage = hs_codex st,
      sn_output_flow = hs_output_cap st, sn_upload = hs_upload_cap st\<rparr>"

definition hub_peer :: "hub_state \<Rightarrow> generation \<Rightarrow> (hub_error, peer) result" where
  "hub_peer st g =
     (case hs_peer st of
        None \<Rightarrow> Err HOffline
      | Some p \<Rightarrow> if pe_generation p \<noteq> g then Err HStale else Ok p)"

definition format_id :: "generation \<Rightarrow> nat \<Rightarrow> string" where
  "format_id g n = to_hex 16 g @ to_hex 16 n"

definition next_id :: "hub_state \<Rightarrow> generation \<Rightarrow> (hub_error, string) result \<times> hub_state" where
  "next_id st g =
     (if U64_LIMIT \<le> hs_next_id st then (Err HCapacity, st)
      else (Ok (format_id g (hs_next_id st + 1)), st\<lparr>hs_next_id := hs_next_id st + 1\<rparr>))"

definition ensure_view :: "hub_state \<Rightarrow> generation \<Rightarrow> string \<Rightarrow> (hub_error, unit) result" where
  "ensure_view st g vid =
     (if \<not> attached st g then Err HStale
      else case map_of (hs_views st) vid of
        None \<Rightarrow> Err HStale
      | Some v \<Rightarrow> if vs_generation v \<noteq> g then Err HStale else Ok ())"

definition check_upload :: "hub_state \<Rightarrow> generation \<Rightarrow> string \<Rightarrow> bool \<Rightarrow> (hub_error, unit) result" where
  "check_upload st g uid allow_terminal =
     (if \<not> attached st g then Err HStale
      else case map_of (hs_uploads st) uid of
        None \<Rightarrow> Err HStale
      | Some u \<Rightarrow> if us_generation u \<noteq> g \<or> (\<not> allow_terminal \<and> us_terminal u) then Err HStale else Ok ())"

definition ensure_upload :: "hub_state \<Rightarrow> generation \<Rightarrow> string \<Rightarrow> (hub_error, unit) result" where
  "ensure_upload st g uid = check_upload st g uid False"

section \<open>Sending to Home\<close>

definition set_sender :: "sender \<Rightarrow> hub_state \<Rightarrow> hub_state" where
  "set_sender s st = st\<lparr>hs_peer := map_option (\<lambda>p. p\<lparr>pe_sender := s\<rparr>) (hs_peer st)\<rparr>"

text \<open>Best-effort teardown control: the peer is closed when it cannot be admitted.\<close>

definition cleanup :: "hub_env \<Rightarrow> hub_state \<Rightarrow> generation \<Rightarrow> out_body \<Rightarrow> hub_state" where
  "cleanup env st g b =
     (case hub_peer st g of
        Inl _ \<Rightarrow> st
      | Inr p \<Rightarrow>
          (case ev_encode env (pe_protocol p) b of
             None \<Rightarrow> set_sender (sender_close (pe_sender p)) st
           | Some raw \<Rightarrow>
               (case try_reserve (ev_acquire env) (pe_sender p) (length raw) (ev_now env) of
                  (Inl _, s) \<Rightarrow> set_sender (sender_close s) st
                | (Inr r, s) \<Rightarrow>
                    (case submit_inner (ev_utf8 env) (ev_queue env) s r raw False False (ev_now env) of
                       (Inl _, s) \<Rightarrow> set_sender (sender_close s) st
                     | (Inr _, s) \<Rightarrow> set_sender s st))))"

fun map_transport :: "transport_error \<Rightarrow> hub_error" where
  "map_transport TBusy = HBusy"
| "map_transport TCancelled = HCancelled"
| "map_transport TSize = HInvalid"
| "map_transport TProtocol = HInvalid"
| "map_transport TClosed = HOffline"
| "map_transport TQueueTimeout = HTransport"
| "map_transport TWriteTimeout = HTransport"
| "map_transport TTransport = HTransport"

definition estimate :: "hub_env \<Rightarrow> negotiated \<Rightarrow> out_body \<Rightarrow> nat" where
  "estimate env protocol b =
     (case protocol of
        ProtobufV2 \<Rightarrow> ev_encoded_len env b
      | JsonV1 \<Rightarrow> min (ev_encoded_len env b * 6 + 4096) MAX_MESSAGE)"

text \<open>
  Admission with an estimate before encoding, a second one for a frame that came out larger, the
  recheck of the generation (other tasks may have run since the peer was read: \<open>ev_between\<close>), and
  the submission on the reservation. A dropped reservation gives its permit back.
\<close>

definition submit_reserved ::
  "hub_env \<Rightarrow> hub_state \<Rightarrow> generation \<Rightarrow> bytes \<Rightarrow> reservation \<Rightarrow> (hub_error, unit) result \<times> hub_state" where
  "submit_reserved env st g raw r =
     (let st = ev_between env st in
      case hub_peer st g of
        Inl e \<Rightarrow> (Err e, st)
      | Inr p \<Rightarrow>
          (case submit_inner (ev_utf8 env) (ev_queue env) (pe_sender p) r raw False True (ev_now env) of
             (Inl e, s) \<Rightarrow> (Err (map_transport e), set_sender s st)
           | (Inr _, s) \<Rightarrow> (Ok (), set_sender s st)))"

definition submit ::
  "hub_env \<Rightarrow> hub_state \<Rightarrow> generation \<Rightarrow> out_body \<Rightarrow> (hub_error, unit) result \<times> hub_state" where
  "submit env st g b =
     (case hub_peer st g of
        Inl e \<Rightarrow> (Err e, st)
      | Inr p \<Rightarrow>
          (case try_reserve (ev_acquire env) (pe_sender p) (estimate env (pe_protocol p) b) (ev_now env) of
             (Inl e, s) \<Rightarrow> (Err (map_transport e), set_sender s st)
           | (Inr r, s) \<Rightarrow>
               (case ev_encode env (pe_protocol p) b of
                  None \<Rightarrow> (Err HInvalid, set_sender (release s (rv_permit r)) st)
                | Some raw \<Rightarrow>
                    if estimate env (pe_protocol p) b < length raw
                    then (case try_reserve (ev_acquire env) (release s (rv_permit r)) (length raw) (ev_now env) of
                            (Inl e, s) \<Rightarrow> (Err (map_transport e), set_sender s st)
                          | (Inr r, s) \<Rightarrow> submit_reserved env (set_sender s st) g raw r)
                    else submit_reserved env (set_sender s st) g raw r)))"

definition send ::
  "hub_env \<Rightarrow> hub_state \<Rightarrow> generation \<Rightarrow> out_body \<Rightarrow> (hub_error, unit) result \<times> hub_state" where
  "send env st g b =
     (case submit env st g b of
        (Inl e, st) \<Rightarrow> (Err e, st)
      | (Inr _, st) \<Rightarrow>
          let st = ev_others env st in
          (case ev_receipt env of
             Inl e \<Rightarrow> (Err (map_transport e), st)
           | Inr _ \<Rightarrow> (case hub_peer st g of Inl e \<Rightarrow> (Err e, st) | Inr _ \<Rightarrow> (Ok (), st))))"

section \<open>Removing owners\<close>

definition remove_pending :: "hub_state \<Rightarrow> generation \<Rightarrow> string \<Rightarrow> hub_state" where
  "remove_pending st g k =
     (case map_of (hs_pending st) k of
        Some p \<Rightarrow> if pd_generation p = g then st\<lparr>hs_pending := remove_key k (hs_pending st)\<rparr> else st
      | None \<Rightarrow> st)"

definition take_view :: "hub_state \<Rightarrow> string \<Rightarrow> nat \<Rightarrow> hub_state" where
  \<comment> \<open>\<open>views.remove(id)\<close> and the code stored in its \<open>closed\<close>\<close>
  "take_view st vid c = (set_closed c vid st)\<lparr>hs_views := remove_key vid (hs_views st)\<rparr>"

definition remove_view :: "hub_env \<Rightarrow> hub_state \<Rightarrow> generation \<Rightarrow> string \<Rightarrow> nat \<Rightarrow> bool \<Rightarrow> hub_state" where
  "remove_view env st g vid c clean =
     (case map_of (hs_views st) vid of
        Some v \<Rightarrow>
          if vs_generation v = g
          then let st = take_view st vid c in if clean then cleanup env st g (CloseView vid) else st
          else st
      | None \<Rightarrow> st)"

definition remove_upload :: "hub_env \<Rightarrow> hub_state \<Rightarrow> generation \<Rightarrow> string \<Rightarrow> bool \<Rightarrow> hub_state" where
  "remove_upload env st g uid clean =
     (case map_of (hs_uploads st) uid of
        Some u \<Rightarrow>
          if us_generation u = g
          then let st = st\<lparr>hs_uploads := remove_key uid (hs_uploads st)\<rparr> in
               if \<not> us_terminal u \<and> clean then cleanup env st g (UploadCancel uid) else st
          else st
      | None \<Rightarrow> st)"

definition drop_pending_guard ::
  "hub_env \<Rightarrow> hub_state \<Rightarrow> generation \<Rightarrow> string \<Rightarrow> bool \<Rightarrow> bool \<Rightarrow> hub_state" where
  "drop_pending_guard env st g k sent cancel_on_drop =
     (let st = remove_pending st g k in
      if sent \<and> cancel_on_drop then cleanup env st g (CancelRequest k) else st)"

section \<open>Requests, views and uploads\<close>

definition begin_request ::
  "hub_state \<Rightarrow> generation \<Rightarrow> operation option \<Rightarrow> (hub_error, string) result \<times> hub_state" where
  \<comment> \<open>\<open>None\<close>: the number is no operation of the protocol\<close>
  "begin_request st g op =
     (if \<not> attached st g then (Err HStale, st)
      else if MAX_PENDING \<le> length (hs_pending st) then (Err HBusy, st)
      else case next_id st g of
        (Inl e, st) \<Rightarrow> (Err e, st)
      | (Inr k, st) \<Rightarrow>
          (case op of
             None \<Rightarrow> (Err HInvalid, st)
           | Some op \<Rightarrow>
               (Ok k, st\<lparr>hs_pending :=
                  insert_key k \<lparr>pd_generation = g, pd_context = Operation op\<rparr> (hs_pending st)\<rparr>)))"

text \<open>
  The awaits of \<open>request_observed\<close>: the receipt of the frame, then the reply (\<open>None\<close> when its
  sender was dropped). The guard removes the entry on every way out and cancels the request at
  Home unless it was answered.
\<close>

definition request ::
  "hub_env \<Rightarrow> hub_state \<Rightarrow> generation \<Rightarrow> operation option \<Rightarrow> (hub_error, response) result option \<Rightarrow>
    (hub_error, response) result \<times> hub_state" where
  "request env st g op reply =
     (case begin_request st g op of
        (Inl e, st) \<Rightarrow> (Err e, st)
      | (Inr k, st) \<Rightarrow>
          (case submit env st g (Request k (the op)) of
             (Inl e, st) \<Rightarrow> (Err e, drop_pending_guard env st g k False True)
           | (Inr _, st) \<Rightarrow>
               let st = ev_others env st in
               (case ev_receipt env of
                  Inl e \<Rightarrow> (Err (map_transport e), drop_pending_guard env st g k True True)
                | Inr _ \<Rightarrow>
                    (case reply of
                       None \<Rightarrow> (Err HOffline, drop_pending_guard env st g k True True)
                     | Some (Inl e) \<Rightarrow> (Err e, drop_pending_guard env st g k True True)
                     | Some (Inr v) \<Rightarrow>
                         (case hub_peer st g of
                            Inl e \<Rightarrow> (Err e, drop_pending_guard env st g k True True)
                          | Inr _ \<Rightarrow> (Ok v, drop_pending_guard env st g k True False))))))"

record view_lease =
  vl_generation :: generation
  vl_id :: string
  vl_window :: output_window
  vl_home_flow :: bool
  vl_sent :: bool
  vl_exited :: bool

definition begin_view :: "hub_state \<Rightarrow> generation \<Rightarrow> (hub_error, string \<times> bool) result \<times> hub_state" where
  "begin_view st g =
     (if \<not> attached st g then (Err HStale, st)
      else if MAX_VIEWS \<le> length (hs_views st) then (Err HCapacity, st)
      else if MAX_PENDING \<le> length (hs_pending st) then (Err HBusy, st)
      else case next_id st g of
        (Inl e, st) \<Rightarrow> (Err e, st)
      | (Inr k, st) \<Rightarrow>
          (Ok (k, hs_output_cap st),
           st\<lparr>hs_views := insert_key k \<lparr>vs_generation = g\<rparr> (hs_views st),
              hs_cells := insert_key k \<lparr>vc_closed = 0, vc_queued = 0\<rparr> (hs_cells st),
              hs_pending := insert_key k \<lparr>pd_generation = g, pd_context = TerminalOpenContext\<rparr> (hs_pending st)\<rparr>))"

definition drop_view_lease :: "hub_env \<Rightarrow> hub_state \<Rightarrow> view_lease \<Rightarrow> hub_state" where
  "drop_view_lease env st l = remove_view env st (vl_generation l) (vl_id l) VIEW_EXITED (vl_sent l)"

text \<open>On an error the guard drops before the lease, the reverse of their declarations.\<close>

definition abandon_view :: "hub_env \<Rightarrow> hub_state \<Rightarrow> view_lease \<Rightarrow> hub_state" where
  "abandon_view env st l =
     drop_view_lease env (drop_pending_guard env st (vl_generation l) (vl_id l) (vl_sent l) False) l"

definition open_view ::
  "hub_env \<Rightarrow> hub_state \<Rightarrow> generation \<Rightarrow> (hub_error, response) result option \<Rightarrow>
    (hub_error, view_lease) result \<times> hub_state" where
  "open_view env st g reply =
     (case begin_view st g of
        (Inl e, st) \<Rightarrow> (Err e, st)
      | (Inr (k, home_flow), st) \<Rightarrow>
          let lease = \<lparr>vl_generation = g, vl_id = k, vl_window = window_default, vl_home_flow = home_flow,
                       vl_sent = False, vl_exited = False\<rparr> in
          (case submit env st g (TerminalOpen k (if home_flow then [OUTPUT_CAP] else [])) of
             (Inl e, st) \<Rightarrow> (Err e, abandon_view env st lease)
           | (Inr _, st) \<Rightarrow>
               let lease = lease\<lparr>vl_sent := True\<rparr>; st = ev_others env st in
               (case ev_receipt env of
                  Inl e \<Rightarrow> (Err (map_transport e), abandon_view env st lease)
                | Inr _ \<Rightarrow>
                    (case reply of
                       None \<Rightarrow> (Err HOffline, abandon_view env st lease)
                     | Some (Inl e) \<Rightarrow> (Err e, abandon_view env st lease)
                     | Some (Inr v) \<Rightarrow>
                         (case hub_peer st g of
                            Inl e \<Rightarrow> (Err e, abandon_view env st lease)
                          | Inr _ \<Rightarrow>
                              if rp_error v \<noteq> [] then (Err HInvalid, abandon_view env st lease)
                              else (Ok lease, drop_pending_guard env st g k True False))))))"

record upload_lease =
  ul_generation :: generation
  ul_id :: string
  ul_sent :: bool
  ul_terminal :: bool

definition begin_upload :: "hub_state \<Rightarrow> generation \<Rightarrow> (hub_error, string) result \<times> hub_state" where
  "begin_upload st g =
     (if \<not> attached st g then (Err HStale, st)
      else if \<not> hs_upload_cap st then (Err HUnsupported, st)
      else if MAX_UPLOADS \<le> length (hs_uploads st) then (Err HCapacity, st)
      else case next_id st g of
        (Inl e, st) \<Rightarrow> (Err e, st)
      | (Inr k, st) \<Rightarrow>
          (Ok k, st\<lparr>hs_uploads := insert_key k \<lparr>us_generation = g, us_terminal = False\<rparr> (hs_uploads st)\<rparr>))"

definition drop_upload_lease :: "hub_env \<Rightarrow> hub_state \<Rightarrow> upload_lease \<Rightarrow> hub_state" where
  "drop_upload_lease env st l = remove_upload env st (ul_generation l) (ul_id l) (ul_sent l)"

definition open_upload :: "hub_env \<Rightarrow> hub_state \<Rightarrow> generation \<Rightarrow> (hub_error, upload_lease) result \<times> hub_state" where
  "open_upload env st g =
     (case begin_upload st g of
        (Inl e, st) \<Rightarrow> (Err e, st)
      | (Inr k, st) \<Rightarrow>
          let lease = \<lparr>ul_generation = g, ul_id = k, ul_sent = False, ul_terminal = False\<rparr> in
          (case submit env st g (UploadStart k) of
             (Inl e, st) \<Rightarrow> (Err e, drop_upload_lease env st lease)
           | (Inr _, st) \<Rightarrow>
               let lease = lease\<lparr>ul_sent := True\<rparr>; st = ev_others env st in
               (case ev_receipt env of
                  Inl e \<Rightarrow> (Err (map_transport e), drop_upload_lease env st lease)
                | Inr _ \<Rightarrow>
                    (case check_upload st g k True of
                       Inl e \<Rightarrow> (Err e, drop_upload_lease env st lease)
                     | Inr _ \<Rightarrow> (Ok lease, st)))))"

section \<open>Messages from Home\<close>

datatype slot = CatalogSlot | ClaudeSlot | CodexSlot

fun get_slot :: "slot \<Rightarrow> hub_state \<Rightarrow> payload option" where
  "get_slot CatalogSlot st = hs_catalog st"
| "get_slot ClaudeSlot st = hs_claude st"
| "get_slot CodexSlot st = hs_codex st"

fun set_slot :: "slot \<Rightarrow> payload option \<Rightarrow> hub_state \<Rightarrow> hub_state" where
  "set_slot CatalogSlot v st = st\<lparr>hs_catalog := v\<rparr>"
| "set_slot ClaudeSlot v st = st\<lparr>hs_claude := v\<rparr>"
| "set_slot CodexSlot v st = st\<lparr>hs_codex := v\<rparr>"

text \<open>The old reference is dropped before the new allocation is charged.\<close>

definition cache_snapshot ::
  "hub_env \<Rightarrow> hub_state \<Rightarrow> generation \<Rightarrow> slot \<Rightarrow> bytes \<Rightarrow> (hub_error, unit) result \<times> hub_state" where
  "cache_snapshot env st g slot raw =
     (if \<not> attached st g then (Err HStale, st)
      else
        let b = drop_ref (ev_is_last env) (hs_payloads st) (get_slot slot st) in
        case retain (ev_alloc env) b raw of
          (Inl e, b) \<Rightarrow> (Err e, set_slot slot None (st\<lparr>hs_payloads := b\<rparr>))
        | (Inr v, b) \<Rightarrow>
            (Ok (), set_slot slot (Some v)
               (st\<lparr>hs_payloads := b, hs_updated := (if slot = CatalogSlot then Some (ev_now env) else hs_updated st)\<rparr>)))"

type_synonym handled = "(hub_error, unit) result \<times> hub_state \<times> effect list \<times> out_body option"

text \<open>Each arm of the locked \<open>match\<close>; the last component is the control sent after the lock is gone.\<close>

definition on_response :: "hub_env \<Rightarrow> hub_state \<Rightarrow> generation \<Rightarrow> response \<Rightarrow> handled" where
  "on_response env st g v =
     (case map_of (hs_pending st) (rp_id v) of
        None \<Rightarrow> (Ok (), st, [], None)
      | Some p \<Rightarrow>
          let st = st\<lparr>hs_pending := remove_key (rp_id v) (hs_pending st)\<rparr> in
          if pd_generation p \<noteq> g then (Ok (), st, [], None)
          else if \<not> response_matches v (pd_context p)
          then (Err HInvalid, st, [Reply (rp_id v) (Err HInvalid)], None)
          else
            (case retain_response (hs_payloads st) (ev_reply_size env v) of
               (Inl e, b) \<Rightarrow> (Err e, st\<lparr>hs_payloads := b\<rparr>, [Reply (rp_id v) (Err e)], None)
             | (Inr a, b) \<Rightarrow>
                 (Ok (), st\<lparr>hs_payloads := (if ev_sent env then b else payload_drop b a)\<rparr>,
                  [Reply (rp_id v) (Ok v)], None)))"

definition on_terminal_output :: "hub_env \<Rightarrow> hub_state \<Rightarrow> generation \<Rightarrow> string \<Rightarrow> bytes \<Rightarrow> handled" where
  "on_terminal_output env st g vid data =
     (case map_of (hs_views st) vid of
        None \<Rightarrow> (Ok (), st, [], None)
      | Some v \<Rightarrow>
          if vs_generation v \<noteq> g then (Ok (), st, [], None)
          else
            let queued = vc_queued (cell st vid);
                admitted = data \<noteq> [] \<and> length data \<le> CHUNK \<and> queued < FRAMES in
            if \<not> admitted then (Ok (), take_view st vid OUTPUT_FULL, [], Some (CloseView vid))
            else
              let st = set_queued (queued + 1) vid st in
              (case retain (ev_alloc env) (hs_payloads st) data of
                 (Inl e, b) \<Rightarrow>
                   (Ok (), take_view (set_queued queued vid (st\<lparr>hs_payloads := b\<rparr>)) vid OUTPUT_FULL, [], Some (CloseView vid))
               | (Inr y, b) \<Rightarrow>
                   if ev_sent env then (Ok (), st\<lparr>hs_payloads := b\<rparr>, [ToView vid (ViewData y)], None)
                   else (Ok (), take_view (set_queued queued vid
                           (st\<lparr>hs_payloads := (case py_owner y of Some a \<Rightarrow> payload_drop b a | None \<Rightarrow> b)\<rparr>)) vid OUTPUT_FULL,
                         [], Some (CloseView vid))))"

definition on_terminal_exit :: "hub_env \<Rightarrow> hub_state \<Rightarrow> string \<Rightarrow> string \<Rightarrow> handled" where
  "on_terminal_exit env st vid err =
     (case map_of (hs_views st) vid of
        None \<Rightarrow> (Ok (), st, [], None)
      | Some _ \<Rightarrow>
          if ev_sent env then (Ok (), set_closed VIEW_EXITED vid st, [ToView vid (ViewExit err)], None)
          else (Ok (), take_view st vid OUTPUT_FULL, [], None))"

definition on_refresh_result :: "hub_env \<Rightarrow> hub_state \<Rightarrow> string \<Rightarrow> string \<Rightarrow> handled" where
  "on_refresh_result env st vid err =
     (case map_of (hs_views st) vid of
        None \<Rightarrow> (Ok (), st, [], None)
      | Some _ \<Rightarrow>
          if ev_sent env then (Ok (), st, [ToView vid (ViewRefreshResult (err = []))], None)
          else (Ok (), take_view st vid OUTPUT_FULL, [], Some (CloseView vid)))"

definition on_upload_progress :: "hub_env \<Rightarrow> hub_state \<Rightarrow> string \<Rightarrow> upload_event \<Rightarrow> handled" where
  \<comment> \<open>the arms \<open>UploadReady\<close> and \<open>UploadAck\<close>: the last place of the queue is kept for the result\<close>
  "on_upload_progress env st uid event =
     (case map_of (hs_uploads st) uid of
        None \<Rightarrow> (Ok (), st, [], None)
      | Some u \<Rightarrow>
          if us_terminal u then (Ok (), st, [], None)
          else if ev_slots env \<le> 1 \<or> \<not> ev_sent env
          then (Ok (), st\<lparr>hs_uploads := remove_key uid (hs_uploads st)\<rparr>, [], Some (UploadCancel uid))
          else (Ok (), st, [ToUpload uid event], None))"

definition on_upload_result :: "hub_env \<Rightarrow> hub_state \<Rightarrow> response \<Rightarrow> upload_event \<Rightarrow> handled" where
  \<comment> \<open>the arms \<open>UploadComplete\<close> and \<open>UploadError\<close>\<close>
  "on_upload_result env st v event =
     (case map_of (hs_uploads st) (rp_id v) of
        None \<Rightarrow> (Ok (), st, [], None)
      | Some u \<Rightarrow>
          if us_terminal u then (Ok (), st, [], None)
          else
            (case retain_response (hs_payloads st) (ev_reply_size env v) of
               (Inl e, b) \<Rightarrow> (Err e, st\<lparr>hs_payloads := b\<rparr>, [], None)
             | (Inr a, b) \<Rightarrow>
                 let st = st\<lparr>hs_uploads := insert_key (rp_id v) (u\<lparr>us_terminal := True\<rparr>) (hs_uploads st)\<rparr> in
                 if ev_sent env then (Ok (), st\<lparr>hs_payloads := b\<rparr>, [ToUpload (rp_id v) event], None)
                 else (Err HCapacity, st\<lparr>hs_payloads := payload_drop b a\<rparr>, [], None)))"

definition on_task_complete :: "hub_env \<Rightarrow> hub_state \<Rightarrow> completion \<Rightarrow> handled" where
  "on_task_complete env st event =
     (case completion_enqueue (ev_parse_time env) (ev_closed env) (ev_sent env) event (ev_wall env) (ev_now env) (hs_seen st) of
        (out, sn) \<Rightarrow>
          (Ok (), st\<lparr>hs_seen := sn\<rparr>, (case out of None \<Rightarrow> [] | Some e \<Rightarrow> [Notify e]), None))"

definition on_hello :: "hub_state \<Rightarrow> string list \<Rightarrow> handled" where
  "on_hello st caps =
     (Ok (), st\<lparr>hs_output_cap := (OUTPUT_CAP \<in> set caps), hs_upload_cap := (UPLOAD_CAP \<in> set caps)\<rparr>, [], None)"

definition on_usage_unavailable :: "hub_env \<Rightarrow> hub_state \<Rightarrow> handled" where
  "on_usage_unavailable env st =
     (Ok (), st\<lparr>hs_claude := None, hs_codex := None,
        hs_payloads := drop_ref (ev_is_last env) (drop_ref (ev_is_last env) (hs_payloads st) (hs_claude st)) (hs_codex st)\<rparr>,
      [], None)"

definition handle :: "hub_env \<Rightarrow> hub_state \<Rightarrow> generation \<Rightarrow> body \<Rightarrow> handled" where
  "handle env st g b =
     (case b of
        Hello caps \<Rightarrow> on_hello st caps
      | UsageUnavailable \<Rightarrow> on_usage_unavailable env st
      | Response v \<Rightarrow> on_response env st g v
      | TerminalOutput vid data \<Rightarrow> on_terminal_output env st g vid data
      | TerminalExit vid err \<Rightarrow> on_terminal_exit env st vid err
      | RefreshResult vid err \<Rightarrow> on_refresh_result env st vid err
      | UploadReady uid \<Rightarrow> on_upload_progress env st uid UpReady
      | UploadAck uid n \<Rightarrow> on_upload_progress env st uid (UpAck n)
      | UploadComplete v \<Rightarrow> on_upload_result env st v (UpComplete v)
      | UploadError v \<Rightarrow> on_upload_result env st v (UpError v)
      | TaskComplete event \<Rightarrow> on_task_complete env st event
      | _ \<Rightarrow> (Err HInvalid, st, [], None))"

definition dispatch ::
  "hub_env \<Rightarrow> hub_state \<Rightarrow> generation \<Rightarrow> body option \<Rightarrow> (hub_error, unit) result \<times> hub_state \<times> effect list" where
  "dispatch env st g envelope_body =
     (case envelope_body of
        None \<Rightarrow> (Err HInvalid, st, [])
      | Some (Catalog c) \<Rightarrow>
          (case ev_catalog env c of
             None \<Rightarrow> (Err HInvalid, st, [])
           | Some raw \<Rightarrow> (case cache_snapshot env st g CatalogSlot raw of (res, st) \<Rightarrow> (res, st, [])))
      | Some (Usage provider u) \<Rightarrow>
          if provider \<noteq> 1 \<and> provider \<noteq> 2 then (Err HInvalid, st, [])
          else
            (case ev_usage env u of
               None \<Rightarrow> (Err HInvalid, st, [])
             | Some raw \<Rightarrow>
                 (case cache_snapshot env st g (if provider = 1 then ClaudeSlot else CodexSlot) raw of
                    (res, st) \<Rightarrow> (res, st, [])))
      | Some b \<Rightarrow>
          if \<not> attached st g then (Err HStale, st, [])
          else
            (case handle env st g b of
               (Inl e, st, effs, _) \<Rightarrow> (Err e, st, effs)
             | (Inr _, st, effs, control) \<Rightarrow>
                 (Ok (), (case control of None \<Rightarrow> st | Some c \<Rightarrow> cleanup env st g c), effs)))"

section \<open>Leases\<close>

text \<open>
  \<open>recv\<close> of the view's queue answers with the oldest event, or with nothing once the entry is gone
  and the queue is drained. An event that is not returned is dropped with its payload.
\<close>

definition drop_event :: "hub_env \<Rightarrow> view_event \<Rightarrow> hub_state \<Rightarrow> hub_state" where
  "drop_event env e st =
     (case e of
        ViewData y \<Rightarrow> st\<lparr>hs_payloads := drop_ref (ev_is_last env) (hs_payloads st) (Some y)\<rparr>
      | _ \<Rightarrow> st)"

definition view_receive ::
  "hub_env \<Rightarrow> hub_state \<Rightarrow> view_lease \<Rightarrow> view_event option \<Rightarrow>
    (hub_error, view_event) result \<times> hub_state \<times> view_lease" where
  "view_receive env st l recv =
     (if vl_exited l then (Err HStale, st, l)
      else case recv of
        None \<Rightarrow>
          (Err (if vc_closed (cell st (vl_id l)) = OUTPUT_FULL then HOutputFull
                else if vc_closed (cell st (vl_id l)) = HOME_OFFLINE then HOffline else HStale), st, l)
      | Some event \<Rightarrow>
          let st = (case event of
                      ViewData _ \<Rightarrow> set_queued (vc_queued (cell st (vl_id l)) - 1) (vl_id l) st
                    | _ \<Rightarrow> st) in
          (case hub_peer st (vl_generation l) of
             Inl e \<Rightarrow> (Err e, drop_event env event st, l)
           | Inr _ \<Rightarrow>
               if vc_closed (cell st (vl_id l)) = OUTPUT_FULL then (Err HOutputFull, drop_event env event st, l)
               else
                 (case event of
                    ViewData y \<Rightarrow>
                      if vl_home_flow l then
                        (case window_reserve (vl_window l) (length (py_data y)) (ev_now env) of
                           (False, w) \<Rightarrow>
                             (Err HOutputFull,
                              drop_event env event (remove_view env st (vl_generation l) (vl_id l) OUTPUT_FULL True),
                              l\<lparr>vl_window := w\<rparr>)
                         | (True, w) \<Rightarrow> (Ok event, st, l\<lparr>vl_window := w\<rparr>))
                      else (Ok event, st, l)
                  | ViewExit _ \<Rightarrow> (Ok event, st, l\<lparr>vl_exited := True\<rparr>)
                  | ViewRefreshResult _ \<Rightarrow> (Ok event, st, l))))"

definition view_send ::
  "hub_env \<Rightarrow> hub_state \<Rightarrow> view_lease \<Rightarrow> out_body \<Rightarrow> (hub_error, unit) result \<times> hub_state" where
  "view_send env st l b =
     (case ensure_view st (vl_generation l) (vl_id l) of
        Inl e \<Rightarrow> (Err e, st)
      | Inr _ \<Rightarrow> send env st (vl_generation l) b)"

definition view_acknowledge ::
  "hub_env \<Rightarrow> hub_state \<Rightarrow> view_lease \<Rightarrow> int \<Rightarrow> (hub_error, unit) result \<times> hub_state \<times> view_lease" where
  "view_acknowledge env st l n =
     (case ensure_view st (vl_generation l) (vl_id l) of
        Inl e \<Rightarrow> (Err e, st, l)
      | Inr _ \<Rightarrow>
          if \<not> vl_home_flow l then (Err HUnsupported, st, l)
          else
            (case window_acknowledge (vl_window l) n of
               (False, w) \<Rightarrow>
                 (Err HInvalid, remove_view env st (vl_generation l) (vl_id l) OUTPUT_FULL True, l\<lparr>vl_window := w\<rparr>)
             | (True, w) \<Rightarrow>
                 (case view_send env st l (OutputAck (vl_id l) n) of (res, st) \<Rightarrow> (res, st, l\<lparr>vl_window := w\<rparr>))))"

definition view_input :: "hub_env \<Rightarrow> hub_state \<Rightarrow> view_lease \<Rightarrow> bytes \<Rightarrow> (hub_error, unit) result \<times> hub_state" where
  "view_input env st l data = view_send env st l (TerminalInput (vl_id l) data)"

definition view_resize :: "hub_env \<Rightarrow> hub_state \<Rightarrow> view_lease \<Rightarrow> nat \<Rightarrow> nat \<Rightarrow> (hub_error, unit) result \<times> hub_state" where
  "view_resize env st l cols rows = view_send env st l (Resize (vl_id l) cols rows)"

definition view_refresh :: "hub_env \<Rightarrow> hub_state \<Rightarrow> view_lease \<Rightarrow> (hub_error, unit) result \<times> hub_state" where
  "view_refresh env st l = view_send env st l (Refresh (vl_id l))"

definition upload_receive ::
  "hub_env \<Rightarrow> hub_state \<Rightarrow> upload_lease \<Rightarrow> upload_event option \<Rightarrow> (hub_error, upload_event) result \<times> hub_state \<times> upload_lease" where
  "upload_receive env st l recv =
     (if ul_terminal l then (Err HStale, st, l)
      else case hub_peer st (ul_generation l) of
        Inl e \<Rightarrow> (Err e, st, l)
      | Inr _ \<Rightarrow>
          let st = ev_others env st in
          (case recv of
             None \<Rightarrow> (Err HStale, st, l)
           | Some event \<Rightarrow>
               (case hub_peer st (ul_generation l) of
                  Inl e \<Rightarrow> (Err e, st, l)
                | Inr _ \<Rightarrow>
                    (Ok event, st,
                     l\<lparr>ul_terminal := (case event of UpComplete _ \<Rightarrow> True | UpError _ \<Rightarrow> True | _ \<Rightarrow> ul_terminal l)\<rparr>))))"

definition upload_data :: "hub_env \<Rightarrow> hub_state \<Rightarrow> upload_lease \<Rightarrow> bytes \<Rightarrow> (hub_error, unit) result \<times> hub_state" where
  "upload_data env st l data =
     (case ensure_upload st (ul_generation l) (ul_id l) of
        Inl e \<Rightarrow> (Err e, st)
      | Inr _ \<Rightarrow> send env st (ul_generation l) (UploadData (ul_id l) data))"

definition upload_finish :: "hub_env \<Rightarrow> hub_state \<Rightarrow> upload_lease \<Rightarrow> (hub_error, unit) result \<times> hub_state" where
  "upload_finish env st l =
     (case ensure_upload st (ul_generation l) (ul_id l) of
        Inl e \<Rightarrow> (Err e, st)
      | Inr _ \<Rightarrow> send env st (ul_generation l) (UploadFinish (ul_id l)))"

section \<open>The connection's reader task\<close>

text \<open>
  One turn of the loop that \<open>attach\<close> spawns. A v1 response names no operation: only a pending
  request of this generation selects its decoder, and an unmatched late reply is skipped. The
  translation of a v1 frame (\<open>legacy.rs\<close>) is an argument. The turn ends the loop with a reason or
  goes on with \<open>None\<close>.
\<close>

definition json_context ::
  "hub_state \<Rightarrow> generation \<Rightarrow> message \<Rightarrow> response_context option option" where
  \<comment> \<open>outer \<open>None\<close>: skip the frame\<close>
  "json_context st g m =
     (if m_kind m = ''response''
      then case map_of (hs_pending st) (m_id m) of
             Some p \<Rightarrow> if pd_generation p = g then Some (Some (pd_context p)) else None
           | None \<Rightarrow> None
      else Some None)"

definition reader_turn ::
  "(message \<Rightarrow> response_context option \<Rightarrow> body option option) \<Rightarrow> hub_env \<Rightarrow> hub_state \<Rightarrow> generation \<Rightarrow> negotiated \<Rightarrow>
    (transport_error, body option incoming) result \<Rightarrow> hub_error option \<times> hub_state \<times> effect list" where
  "reader_turn from_json env st g protocol inc =
     (let dispatched = (\<lambda>b. case dispatch env st g b of
            (Inl e, st, effs) \<Rightarrow> (Some e, st, effs)
          | (Inr _, st, effs) \<Rightarrow> (None, st, effs)) in
      case inc of
        Inl e \<Rightarrow> (Some (map_transport e), st, [])
      | Inr (Json m) \<Rightarrow>
          if protocol \<noteq> JsonV1 then (Some HInvalid, st, [])
          else (case json_context st g m of
                  None \<Rightarrow> (None, st, [])
                | Some context \<Rightarrow>
                    (case from_json m context of
                       None \<Rightarrow> (Some HInvalid, st, [])
                     | Some b \<Rightarrow> dispatched b))
      | Inr (Protobuf b) \<Rightarrow> if protocol \<noteq> ProtobufV2 then (Some HInvalid, st, []) else dispatched b)"

fun home_reader ::
  "(message \<Rightarrow> response_context option \<Rightarrow> body option option) \<Rightarrow> hub_state \<Rightarrow> generation \<Rightarrow> negotiated \<Rightarrow>
    (hub_env \<times> (transport_error, body option incoming) result) list \<Rightarrow> (hub_state \<times> effect list \<times> hub_error option)" where
  \<comment> \<open>the turns taken so far; the last component is the reason once the loop has ended\<close>
  "home_reader from_json st g protocol [] = (st, [], None)"
| "home_reader from_json st g protocol ((env, inc) # turns) =
     (case reader_turn from_json env (ev_others env st) g protocol inc of
        (Some reason, st, effs) \<Rightarrow>
          (case detach_with_reason env st g reason of (st, rest) \<Rightarrow> (st, effs @ rest, Some reason))
      | (None, st, effs) \<Rightarrow>
          (case home_reader from_json st g protocol turns of
             (st, rest, reason) \<Rightarrow> (st, effs @ rest, reason)))"

end
