(* ===== verification/Hub_Invariant.thy ===== *)
theory Hub_Invariant
  imports Hub
begin

text \<open>
  The invariant of the hub and that every operation keeps it: one generation, every owner of it,
  the owner limits, fresh identifiers, the shared budget, and the sender's own bounds.
\<close>

section \<open>Identifiers are fresh\<close>

lemma format_id_inj:
  assumes "n \<le> U64_LIMIT" and "m \<le> U64_LIMIT" and "format_id g n = format_id g' m"
  shows "n = m"
proof -
  have "to_hex 16 n = to_hex 16 m" using assms(3) by (simp add: format_id_def)
  moreover have "n < 16 ^ 16" and "m < 16 ^ 16" using assms(1,2) by (auto simp: U64_LIMIT_def)
  ultimately show ?thesis using to_hex_inj by blast
qed

section \<open>The invariant\<close>

definition issued :: "generation \<Rightarrow> nat \<Rightarrow> string \<Rightarrow> bool" where
  "issued g n k \<longleftrightarrow> (\<exists>i \<le> n. k = format_id g i)"

definition entries_ok :: "generation \<Rightarrow> nat \<Rightarrow> nat \<Rightarrow> ('v \<Rightarrow> generation) \<Rightarrow> (string \<times> 'v) list \<Rightarrow> bool" where
  "entries_ok g n limit gen m \<longleftrightarrow>
     wf_map m \<and> length m \<le> limit \<and> (\<forall>e \<in> set m. gen (snd e) = g \<and> issued g n (fst e))"

definition owners_ok :: "hub_state \<Rightarrow> bool" where
  "owners_ok st \<longleftrightarrow>
     hs_next_id st \<le> U64_LIMIT \<and> hs_next_generation st \<le> U64_LIMIT \<and>
     (case hs_peer st of
        None \<Rightarrow>
          hs_pending st = [] \<and> hs_views st = [] \<and> hs_uploads st = [] \<and> hs_catalog st = None \<and>
          hs_claude st = None \<and> hs_codex st = None \<and> hs_updated st = None \<and>
          \<not> hs_output_cap st \<and> \<not> hs_upload_cap st
      | Some p \<Rightarrow>
          pe_generation p \<le> hs_next_generation st \<and> sender_ok (pe_sender p) \<and>
          entries_ok (pe_generation p) (hs_next_id st) MAX_PENDING pd_generation (hs_pending st) \<and>
          entries_ok (pe_generation p) (hs_next_id st) MAX_VIEWS vs_generation (hs_views st) \<and>
          entries_ok (pe_generation p) (hs_next_id st) MAX_UPLOADS us_generation (hs_uploads st))"

definition cells_ok :: "hub_state \<Rightarrow> bool" where
  "cells_ok st \<longleftrightarrow> wf_map (hs_cells st) \<and> (\<forall>e \<in> set (hs_cells st). vc_queued (snd e) \<le> FRAMES)"

definition hub_ok :: "hub_state \<Rightarrow> bool" where
  "hub_ok st \<longleftrightarrow> owners_ok st \<and> cells_ok st \<and> budget_ok (hs_payloads st) \<and> seen_ok (hs_seen st)"

lemma entries_ok_Nil [simp]: "entries_ok g n l gen []"
  by (simp add: entries_ok_def)

lemma entries_ok_remove [simp, intro]: "entries_ok g n l gen m \<Longrightarrow> entries_ok g n l gen (remove_key k m)"
  by (auto simp: entries_ok_def remove_key_def intro: order_trans [OF length_filter_le])

lemma issued_mono: "issued g n k \<Longrightarrow> n \<le> n' \<Longrightarrow> issued g n' k"
  using le_trans unfolding issued_def by blast

lemma entries_ok_mono: "entries_ok g n l gen m \<Longrightarrow> n \<le> n' \<Longrightarrow> entries_ok g n' l gen m"
  by (auto simp: entries_ok_def intro: issued_mono)

lemma insert_key_mem: "e \<in> set (insert_key k v m) \<longleftrightarrow> e = (k, v) \<or> (e \<in> set m \<and> fst e \<noteq> k)"
  by (auto simp: insert_key_def remove_key_def)

lemma entries_ok_insert:
  assumes "entries_ok g n l gen m" and "gen v = g" and "issued g n k"
    and "map_of m k \<noteq> None \<or> length m < l"
  shows "entries_ok g n l gen (insert_key k v m)"
  using assms by (auto simp: entries_ok_def insert_key_mem length_insert_key)

lemma issued_fresh:
  assumes "entries_ok g n l gen m" and "n < U64_LIMIT"
  shows "map_of m (format_id g (Suc n)) = None"
proof (rule ccontr)
  assume "map_of m (format_id g (Suc n)) \<noteq> None"
  then obtain v where "(format_id g (Suc n), v) \<in> set m" by (auto dest: map_of_SomeD)
  then obtain i where "i \<le> n" "format_id g (Suc n) = format_id g i"
    using assms(1) by (fastforce simp: entries_ok_def issued_def)
  then show False using format_id_inj [of "Suc n" i g g] assms(2) by simp
qed

lemma hub_new_ok [keeps]: "hub_ok hub_new"
  by (simp add: hub_ok_def hub_new_def owners_ok_def cells_ok_def seen_ok_def budget_default_ok)

lemma attachedE:
  assumes "attached st g"
  obtains p where "hs_peer st = Some p" and "pe_generation p = g"
  using assms by (auto simp: attached_def split: option.splits)

lemma hub_peer_Ok_iff: "hub_peer st g = Inr p \<longleftrightarrow> hs_peer st = Some p \<and> pe_generation p = g"
  by (auto simp: hub_peer_def split: option.splits)

section \<open>Cells\<close>

lemma cell_queued: "cells_ok st \<Longrightarrow> vc_queued (cell st k) \<le> FRAMES"
  by (fastforce simp: cells_ok_def cell_def dest: map_of_SomeD split: option.splits)

lemma set_closed_cells [keeps]: "cells_ok st \<Longrightarrow> cells_ok (set_closed c k st)"
  using cell_queued [of st k] by (auto simp: cells_ok_def set_closed_def insert_key_mem)

lemma set_queued_cells [keeps]: "cells_ok st \<Longrightarrow> n \<le> FRAMES \<Longrightarrow> cells_ok (set_queued n k st)"
  by (auto simp: cells_ok_def set_queued_def insert_key_mem)

text \<open>An update of the cells touches nothing else.\<close>

definition same_but_cells :: "hub_state \<Rightarrow> hub_state \<Rightarrow> bool" where
  "same_but_cells st st' \<longleftrightarrow> (\<exists>cs. st' = st\<lparr>hs_cells := cs\<rparr>)"

lemma cells_only:
  "same_but_cells st (set_closed c k st)" "same_but_cells st (set_queued n k st)"
  by (auto simp: same_but_cells_def set_closed_def set_queued_def)

lemma owners_ok_cells [simp]: "owners_ok (st\<lparr>hs_cells := cs\<rparr>) = owners_ok st"
  by (simp add: owners_ok_def split: option.split)

lemma set_closed_simps [simp]:
  "hs_peer (set_closed c k st) = hs_peer st" "hs_pending (set_closed c k st) = hs_pending st"
  "hs_views (set_closed c k st) = hs_views st" "hs_uploads (set_closed c k st) = hs_uploads st"
  "hs_payloads (set_closed c k st) = hs_payloads st" "hs_seen (set_closed c k st) = hs_seen st"
  "hs_next_id (set_closed c k st) = hs_next_id st" "owners_ok (set_closed c k st) = owners_ok st"
  by (simp_all add: set_closed_def)

lemma set_queued_simps [simp]:
  "hs_peer (set_queued c k st) = hs_peer st" "hs_pending (set_queued c k st) = hs_pending st"
  "hs_views (set_queued c k st) = hs_views st" "hs_uploads (set_queued c k st) = hs_uploads st"
  "hs_payloads (set_queued c k st) = hs_payloads st" "hs_seen (set_queued c k st) = hs_seen st"
  "hs_next_id (set_queued c k st) = hs_next_id st" "owners_ok (set_queued c k st) = owners_ok st"
  by (simp_all add: set_queued_def)

lemma hub_ok_set_closed [keeps]: "hub_ok st \<Longrightarrow> hub_ok (set_closed c k st)"
  by (simp add: hub_ok_def set_closed_cells)

lemma hub_ok_set_queued [keeps]: "hub_ok st \<Longrightarrow> n \<le> FRAMES \<Longrightarrow> hub_ok (set_queued n k st)"
  by (simp add: hub_ok_def set_queued_cells)

lemma hub_ok_fold_closed: "hub_ok st \<Longrightarrow> hub_ok (fold (set_closed c) ks st)"
  by (induction ks arbitrary: st) (simp_all add: hub_ok_set_closed)

lemma hub_ok_payloads [keeps]: "hub_ok st \<Longrightarrow> budget_ok b \<Longrightarrow> hub_ok (st\<lparr>hs_payloads := b\<rparr>)"
  by (auto simp: hub_ok_def owners_ok_def cells_ok_def split: option.splits)

lemma hub_ok_pending [keeps]: "hub_ok st \<Longrightarrow> hub_ok (st\<lparr>hs_pending := remove_key k (hs_pending st)\<rparr>)"
  by (auto simp: hub_ok_def owners_ok_def cells_ok_def split: option.splits)

lemma hub_ok_views [keeps]: "hub_ok st \<Longrightarrow> hub_ok (st\<lparr>hs_views := remove_key k (hs_views st)\<rparr>)"
  by (auto simp: hub_ok_def owners_ok_def cells_ok_def split: option.splits)

lemma hub_ok_uploads [keeps]: "hub_ok st \<Longrightarrow> hub_ok (st\<lparr>hs_uploads := remove_key k (hs_uploads st)\<rparr>)"
  by (auto simp: hub_ok_def owners_ok_def cells_ok_def split: option.splits)

lemma take_view_ok [keeps]: "hub_ok st \<Longrightarrow> hub_ok (take_view st k c)"
  using hub_ok_views [of "set_closed c k st" k] by (simp add: take_view_def hub_ok_set_closed)

lemma set_sender_ok [keeps]:
  assumes "hub_ok st" and "sender_ok s"
  shows "hub_ok (set_sender s st)"
  using assms by (auto simp: hub_ok_def owners_ok_def cells_ok_def set_sender_def split: option.splits)

section \<open>Every operation keeps the invariant\<close>

lemma attach_ok [keeps]:
  assumes "hub_ok st" and "sender_ok s"
  shows "hub_ok (snd (attach st s protocol))"
  using assms by (auto simp: hub_ok_def owners_ok_def cells_ok_def attach_def Let_def split: option.splits)

lemma fold_set_closed_simps [simp]:
  "hs_next_id (fold (set_closed c) ks st) = hs_next_id st"
  "hs_next_generation (fold (set_closed c) ks st) = hs_next_generation st"
  "hs_seen (fold (set_closed c) ks st) = hs_seen st"
  by (induction ks arbitrary: st) (simp_all add: set_closed_def)

lemma detach_ok [keeps]:
  assumes "hub_ok st"
  shows "hub_ok (fst (detach_with_reason env st g reason))"
proof -
  have "cells_ok (fold (set_closed HOME_OFFLINE) (keys (hs_views st)) st)"
    using hub_ok_fold_closed [OF assms] by (simp add: hub_ok_def)
  then have "attached st g \<Longrightarrow> ?thesis"
    using assms by (auto simp: detach_with_reason_def Let_def hub_ok_def owners_ok_def cells_ok_def drop_ref_ok)
  then show ?thesis using assms by (cases "attached st g") (auto simp: detach_with_reason_def)
qed

lemma cleanup_ok [keeps]:
  assumes "semaphore_law (ev_acquire env)" and "hub_ok st"
  shows "hub_ok (cleanup env st g b)"
proof (cases "hub_peer st g")
  case (Inr p)
  then have "sender_ok (pe_sender p)"
    using assms(2) by (auto simp: hub_peer_Ok_iff hub_ok_def owners_ok_def)
  note s = this
  have close: "sender_ok t \<Longrightarrow> sender_ok (sender_close t)" for t
    by (simp add: sender_close_def sender_ok_def sender_retained_bytes_def)
  show ?thesis
  proof (cases "ev_encode env (pe_protocol p) b")
    case None
    then show ?thesis using Inr s close assms(2) by (simp add: cleanup_def set_sender_ok)
  next
    case (Some raw)
    obtain res s' where r: "try_reserve (ev_acquire env) (pe_sender p) (length raw) (ev_now env) = (res, s')" by force
    have ok: "sender_ok s'" using try_reserve_ok [OF assms(1) s] r by (metis snd_conv)
    show ?thesis
    proof (cases res)
      case (Inl e)
      then show ?thesis using Inr Some r ok close assms(2) by (simp add: cleanup_def set_sender_ok)
    next
      case r2: (Inr v)
      have "sender_ok (snd (submit_inner (ev_utf8 env) (ev_queue env) s' v raw False False (ev_now env)))"
        using try_reserve_fresh [OF s r [unfolded r2]] by (auto simp: submit_inner_def intro: submit_data_ok [OF ok])
      then show ?thesis
        using Inr Some r r2 close assms(2)
        by (auto simp: cleanup_def set_sender_ok split: prod.splits sum.splits)
    qed
  qed
qed (use assms(2) in \<open>simp add: cleanup_def\<close>)

lemma remove_pending_ok [keeps]: "hub_ok st \<Longrightarrow> hub_ok (remove_pending st g k)"
  by (simp add: remove_pending_def hub_ok_pending split: option.split)

lemma remove_view_ok [keeps]:
  "semaphore_law (ev_acquire env) \<Longrightarrow> hub_ok st \<Longrightarrow> hub_ok (remove_view env st g k c clean)"
  by (simp add: remove_view_def Let_def take_view_ok cleanup_ok split: option.split)

lemma remove_upload_ok [keeps]:
  "semaphore_law (ev_acquire env) \<Longrightarrow> hub_ok st \<Longrightarrow> hub_ok (remove_upload env st g k clean)"
  by (simp add: remove_upload_def Let_def hub_ok_uploads cleanup_ok split: option.split)

lemma drop_pending_guard_ok [keeps]:
  "semaphore_law (ev_acquire env) \<Longrightarrow> hub_ok st \<Longrightarrow> hub_ok (drop_pending_guard env st g k sent c)"
  by (simp add: drop_pending_guard_def Let_def remove_pending_ok cleanup_ok)

lemma next_id_ok [keeps]: "hub_ok st \<Longrightarrow> hub_ok (snd (next_id st g))"
  by (auto simp: next_id_def hub_ok_def owners_ok_def cells_ok_def entries_ok_mono split: option.splits)

text \<open>A fresh identifier is new in every table, so an insertion never replaces an owner.\<close>

lemma next_id_fresh:
  assumes "hub_ok st" and "attached st g" and "next_id st g = (Inr k, st')"
  shows "map_of (hs_pending st) k = None \<and> map_of (hs_views st) k = None \<and> map_of (hs_uploads st) k = None \<and>
    issued g (hs_next_id st') k \<and> st' = st\<lparr>hs_next_id := hs_next_id st + 1\<rparr> \<and> k = format_id g (hs_next_id st + 1)"
proof -
  obtain p where p: "hs_peer st = Some p" "pe_generation p = g" using assms(2) by (rule attachedE)
  have lim: "hs_next_id st < U64_LIMIT" and k: "k = format_id g (Suc (hs_next_id st))"
    and st': "st' = st\<lparr>hs_next_id := hs_next_id st + 1\<rparr>"
    using assms(3) by (auto simp: next_id_def split: if_splits)
  have "entries_ok g (hs_next_id st) MAX_PENDING pd_generation (hs_pending st)"
    "entries_ok g (hs_next_id st) MAX_VIEWS vs_generation (hs_views st)"
    "entries_ok g (hs_next_id st) MAX_UPLOADS us_generation (hs_uploads st)"
    using assms(1) p by (auto simp: hub_ok_def owners_ok_def)
  note fresh = this [THEN issued_fresh [OF _ lim]]
  show ?thesis using fresh k st' by (auto simp: issued_def)
qed

lemma begin_request_ok [keeps]:
  assumes "hub_ok st"
  shows "hub_ok (snd (begin_request st g op))"
proof (cases "attached st g \<and> length (hs_pending st) < MAX_PENDING")
  case True
  obtain res st1 where n: "next_id st g = (res, st1)" by force
  have ok1: "hub_ok st1" using next_id_ok [OF assms, of g] n by simp
  show ?thesis
  proof (cases res)
    case (Inr k)
    obtain p where p: "hs_peer st = Some p" "pe_generation p = g" using True by (auto elim: attachedE)
    note f = next_id_fresh [OF assms _ n [unfolded Inr]]
    have "entries_ok g (hs_next_id st1) MAX_PENDING pd_generation
        (insert_key k \<lparr>pd_generation = g, pd_context = c\<rparr> (hs_pending st1))" for c
      using f ok1 p True by (intro entries_ok_insert) (auto simp: hub_ok_def owners_ok_def)
    then show ?thesis
      using True n Inr ok1 f p
      by (auto simp: begin_request_def hub_ok_def owners_ok_def cells_ok_def split: option.splits)
  qed (use True n ok1 in \<open>simp add: begin_request_def\<close>)
qed (use assms in \<open>auto simp: begin_request_def\<close>)

lemma begin_view_ok [keeps]:
  assumes "hub_ok st"
  shows "hub_ok (snd (begin_view st g))"
proof (cases "attached st g \<and> length (hs_views st) < MAX_VIEWS \<and> length (hs_pending st) < MAX_PENDING")
  case True
  obtain res st1 where n: "next_id st g = (res, st1)" by force
  have ok1: "hub_ok st1" using next_id_ok [OF assms, of g] n by simp
  show ?thesis
  proof (cases res)
    case (Inr k)
    obtain p where p: "hs_peer st = Some p" "pe_generation p = g" using True by (auto elim: attachedE)
    note f = next_id_fresh [OF assms _ n [unfolded Inr]]
    have "entries_ok g (hs_next_id st1) MAX_PENDING pd_generation
        (insert_key k \<lparr>pd_generation = g, pd_context = c\<rparr> (hs_pending st1))" for c
      using f ok1 p True by (intro entries_ok_insert) (auto simp: hub_ok_def owners_ok_def)
    moreover have "entries_ok g (hs_next_id st1) MAX_VIEWS vs_generation
        (insert_key k \<lparr>vs_generation = g\<rparr> (hs_views st1))"
      using f ok1 p True by (intro entries_ok_insert) (auto simp: hub_ok_def owners_ok_def)
    ultimately show ?thesis
      using True n Inr ok1 f p
      by (auto simp: begin_view_def hub_ok_def owners_ok_def cells_ok_def insert_key_mem)
  qed (use True n ok1 in \<open>simp add: begin_view_def\<close>)
qed (use assms in \<open>auto simp: begin_view_def\<close>)

lemma begin_upload_ok [keeps]:
  assumes "hub_ok st"
  shows "hub_ok (snd (begin_upload st g))"
proof (cases "attached st g \<and> hs_upload_cap st \<and> length (hs_uploads st) < MAX_UPLOADS")
  case True
  obtain res st1 where n: "next_id st g = (res, st1)" by force
  have ok1: "hub_ok st1" using next_id_ok [OF assms, of g] n by simp
  show ?thesis
  proof (cases res)
    case (Inr k)
    obtain p where p: "hs_peer st = Some p" "pe_generation p = g" using True by (auto elim: attachedE)
    note f = next_id_fresh [OF assms _ n [unfolded Inr]]
    have "entries_ok g (hs_next_id st1) MAX_UPLOADS us_generation
        (insert_key k \<lparr>us_generation = g, us_terminal = False\<rparr> (hs_uploads st1))"
      using f ok1 p True by (intro entries_ok_insert) (auto simp: hub_ok_def owners_ok_def)
    then show ?thesis
      using True n Inr ok1 f p by (auto simp: begin_upload_def hub_ok_def owners_ok_def cells_ok_def)
  qed (use True n ok1 in \<open>simp add: begin_upload_def\<close>)
qed (use assms in \<open>auto simp: begin_upload_def\<close>)

section \<open>Dispatch keeps the invariant\<close>

lemma hub_ok_Some:
  assumes "hs_peer st = Some p"
  shows "hub_ok st \<longleftrightarrow>
    hs_next_id st \<le> U64_LIMIT \<and> hs_next_generation st \<le> U64_LIMIT \<and>
    pe_generation p \<le> hs_next_generation st \<and> sender_ok (pe_sender p) \<and>
    entries_ok (pe_generation p) (hs_next_id st) MAX_PENDING pd_generation (hs_pending st) \<and>
    entries_ok (pe_generation p) (hs_next_id st) MAX_VIEWS vs_generation (hs_views st) \<and>
    entries_ok (pe_generation p) (hs_next_id st) MAX_UPLOADS us_generation (hs_uploads st) \<and>
    wf_map (hs_cells st) \<and> (\<forall>e \<in> set (hs_cells st). vc_queued (snd e) \<le> FRAMES) \<and>
    budget_ok (hs_payloads st) \<and> seen_ok (hs_seen st)"
  using assms by (simp add: hub_ok_def owners_ok_def cells_ok_def)

lemma hub_ok_attached:
  assumes "hub_ok st" and "attached st g"
  shows "hub_ok (st\<lparr>hs_output_cap := a, hs_upload_cap := b\<rparr>)" and "hub_ok (st\<lparr>hs_updated := t\<rparr>)"
    and "hub_ok (st\<lparr>hs_claude := v, hs_codex := w\<rparr>)" and "hub_ok (set_slot sl v st)"
    and "budget_ok c \<Longrightarrow> hub_ok (st\<lparr>hs_payloads := c, hs_updated := t\<rparr>)"
    and "budget_ok c \<Longrightarrow> hub_ok (st\<lparr>hs_claude := v, hs_codex := w, hs_payloads := c\<rparr>)"
proof -
  obtain p where "hs_peer st = Some p" using assms(2) by (rule attachedE)
  note ok = this assms(1) [unfolded hub_ok_Some [OF this]]
  show "hub_ok (st\<lparr>hs_output_cap := a, hs_upload_cap := b\<rparr>)" "hub_ok (st\<lparr>hs_updated := t\<rparr>)"
    "hub_ok (st\<lparr>hs_claude := v, hs_codex := w\<rparr>)"
    "budget_ok c \<Longrightarrow> hub_ok (st\<lparr>hs_payloads := c, hs_updated := t\<rparr>)"
    "budget_ok c \<Longrightarrow> hub_ok (st\<lparr>hs_claude := v, hs_codex := w, hs_payloads := c\<rparr>)"
    using ok by (simp_all add: hub_ok_Some)
  show "hub_ok (set_slot sl v st)" using ok by (cases sl) (simp_all add: hub_ok_Some)
qed

lemma hub_ok_seen [keeps]: "hub_ok st \<Longrightarrow> seen_ok sn \<Longrightarrow> hub_ok (st\<lparr>hs_seen := sn\<rparr>)"
  by (auto simp: hub_ok_def owners_ok_def cells_ok_def split: option.splits)

lemma budget_of: "hub_ok st \<Longrightarrow> budget_ok (hs_payloads st)"
  by (simp add: hub_ok_def)

lemma set_slot_attached [simp]: "attached (set_slot sl v st) g = attached st g"
  by (cases sl) (simp_all add: attached_def)

lemma cache_snapshot_ok [keeps]:
  assumes "hub_ok st"
  shows "hub_ok (snd (cache_snapshot env st g sl raw))"
proof (cases "attached st g")
  case True
  obtain res b where r: "retain (ev_alloc env) (drop_ref (ev_is_last env) (hs_payloads st) (get_slot sl st)) raw = (res, b)"
    by force
  have b: "budget_ok b"
    using retain_ok [of "drop_ref (ev_is_last env) (hs_payloads st) (get_slot sl st)" "ev_alloc env" raw]
      drop_ref_ok budget_of [OF assms] r by simp
  have at: "attached (st\<lparr>hs_payloads := b, hs_updated := t\<rparr>) g" "attached (st\<lparr>hs_payloads := b\<rparr>) g" for t
    using True by (simp_all add: attached_def)
  show ?thesis
    using True r hub_ok_attached(4) [OF hub_ok_attached(5) [OF assms True b] at(1)]
      hub_ok_attached(4) [OF hub_ok_payloads [OF assms b] at(2)]
    by (cases res) (auto simp: cache_snapshot_def Let_def)
qed (use assms in \<open>simp add: cache_snapshot_def\<close>)

lemma on_response_ok: "hub_ok st \<Longrightarrow> hub_ok (fst (snd (on_response env st g v)))"
proof -
  assume ok: "hub_ok st"
  let ?st = "st\<lparr>hs_pending := remove_key (rp_id v) (hs_pending st)\<rparr>"
  obtain res b where r: "retain_response (hs_payloads st) (ev_reply_size env v) = (res, b)" by force
  have b: "budget_ok b" using retain_response_ok [OF budget_of [OF ok]] r by (metis snd_conv)
  have "hub_ok ?st" by (rule hub_ok_pending [OF ok])
  then show ?thesis
    using r b hub_ok_payloads [of ?st] ok
    by (auto simp: on_response_def Let_def payload_drop_ok split: option.splits sum.splits)
qed

lemma on_terminal_output_ok: "hub_ok st \<Longrightarrow> hub_ok (fst (snd (on_terminal_output env st g vid data)))"
proof -
  assume ok: "hub_ok st"
  let ?q = "vc_queued (cell st vid)" and ?st = "set_queued (vc_queued (cell st vid) + 1) vid st"
  obtain res b where r: "retain (ev_alloc env) (hs_payloads st) data = (res, b)" by force
  have b: "budget_ok b" using retain_ok [OF budget_of [OF ok]] r by (metis snd_conv)
  have le: "?q \<le> FRAMES" using ok cell_queued by (simp add: hub_ok_def)
  have st1: "hub_ok ?st" if "?q < FRAMES" using that ok by (intro hub_ok_set_queued) auto
  have undone: "hub_ok (take_view (set_queued ?q vid (?st\<lparr>hs_payloads := c\<rparr>)) vid OUTPUT_FULL)"
    if "?q < FRAMES" "budget_ok c" for c
    using that le st1 ok by (intro take_view_ok hub_ok_set_queued hub_ok_payloads) auto
  show ?thesis
    using r b ok st1 undone hub_ok_payloads [of ?st b] take_view_ok [OF ok]
    by (auto simp: on_terminal_output_def Let_def payload_drop_ok split: option.splits sum.splits)
qed

lemma on_upload_result_ok:
  assumes ok: "hub_ok st" and at: "attached st g"
  shows "hub_ok (fst (snd (on_upload_result env st v event)))"
proof (cases "map_of (hs_uploads st) (rp_id v)")
  case (Some u)
  obtain p where p: "hs_peer st = Some p" using at by (rule attachedE)
  obtain res b where r: "retain_response (hs_payloads st) (ev_reply_size env v) = (res, b)" by force
  have b: "budget_ok b" using retain_response_ok [OF budget_of [OF ok]] r by (metis snd_conv)
  note parts = ok [unfolded hub_ok_Some [OF p]]
  have "(rp_id v, u) \<in> set (hs_uploads st)" using Some by (rule map_of_SomeD)
  then have "entries_ok (pe_generation p) (hs_next_id st) MAX_UPLOADS us_generation
      (insert_key (rp_id v) (u\<lparr>us_terminal := True\<rparr>) (hs_uploads st))"
    using parts Some by (intro entries_ok_insert) (auto simp: entries_ok_def)
  then show ?thesis
    using Some p r b parts
    by (auto simp: on_upload_result_def Let_def hub_ok_Some payload_drop_ok split: sum.splits)
qed (use ok in \<open>simp add: on_upload_result_def\<close>)

lemma handle_ok:
  assumes "hub_ok st" and "attached st g"
  shows "hub_ok (fst (snd (handle env st g b)))"
proof (cases b)
  case (TaskComplete event)
  obtain out sn where e: "completion_enqueue (ev_parse_time env) (ev_closed env) (ev_sent env) event (ev_wall env) (ev_now env) (hs_seen st) = (out, sn)"
    by force
  have "seen_ok sn" using completion_enqueue_ok [of "hs_seen st"] assms(1) e by (metis hub_ok_def snd_conv)
  then show ?thesis using TaskComplete e assms(1) by (simp add: handle_def on_task_complete_def hub_ok_seen)
next
  case UsageUnavailable
  then show ?thesis
    using assms by (simp add: handle_def on_usage_unavailable_def hub_ok_attached drop_ref_ok budget_of)
next
  case (UploadComplete v)
  then show ?thesis using on_upload_result_ok [OF assms] by (simp add: handle_def)
next
  case (UploadError v)
  then show ?thesis using on_upload_result_ok [OF assms] by (simp add: handle_def)
next
  case (UploadReady k)
  then show ?thesis using assms(1) by (simp add: handle_def on_upload_progress_def hub_ok_uploads split: option.split)
next
  case (UploadAck k n)
  then show ?thesis using assms(1) by (simp add: handle_def on_upload_progress_def hub_ok_uploads split: option.split)
next
  case (TerminalExit k e)
  then show ?thesis using assms(1) by (simp add: handle_def on_terminal_exit_def take_view_ok hub_ok_set_closed split: option.split)
next
  case (RefreshResult k e)
  then show ?thesis using assms(1) by (simp add: handle_def on_refresh_result_def take_view_ok split: option.split)
qed (use assms on_response_ok on_terminal_output_ok in \<open>simp_all add: handle_def on_hello_def hub_ok_attached\<close>)

lemma dispatch_ok [keeps]:
  assumes "semaphore_law (ev_acquire env)" and "hub_ok st"
  shows "hub_ok (fst (snd (dispatch env st g b)))"
proof -
  have handled: "hub_ok (fst (snd (case handle env st g c of
      (Inl e, st, effs, _) \<Rightarrow> (Err e, st, effs)
    | (Inr _, st, effs, control) \<Rightarrow> (Ok (), (case control of None \<Rightarrow> st | Some c \<Rightarrow> cleanup env st g c), effs))))"
    if "attached st g" for c
  proof -
    obtain res st' effs control where h: "handle env st g c = (res, st', effs, control)" by (metis prod_cases4)
    have "hub_ok st'" using handle_ok [OF assms(2) that, of env c] h by simp
    then show ?thesis using h cleanup_ok [OF assms(1)] by (cases res) (auto split: option.split)
  qed
  have cached: "hub_ok (fst (snd (case cache_snapshot env st g sl raw of (res, st) \<Rightarrow> (res, st, effs))))" for sl raw effs
    using cache_snapshot_ok [OF assms(2), of env g sl raw] by (cases "cache_snapshot env st g sl raw") simp
  show ?thesis
  proof (cases b)
    case (Some c)
    then show ?thesis
      using handled [of c] cached assms(2)
      by (cases c) (auto simp: dispatch_def split: option.split)
  qed (use assms(2) in \<open>simp add: dispatch_def\<close>)
qed

lemma drop_event_ok [keeps]: "hub_ok st \<Longrightarrow> hub_ok (drop_event env e st)"
  by (simp add: drop_event_def hub_ok_payloads drop_ref_ok budget_of split: view_event.split)

lemma view_receive_ok [keeps]:
  assumes "semaphore_law (ev_acquire env)" and "hub_ok st"
  shows "hub_ok (fst (snd (view_receive env st l recv)))"
proof -
  let ?st = "set_queued (vc_queued (cell st (vl_id l)) - 1) (vl_id l) st"
  have "vc_queued (cell st (vl_id l)) - 1 \<le> FRAMES"
    using cell_queued [of st "vl_id l"] assms(2) by (simp add: hub_ok_def)
  then have st1: "hub_ok ?st" using assms(2) by (rule hub_ok_set_queued [rotated])
  show ?thesis
    using assms(2) st1 remove_view_ok [OF assms(1) st1] drop_event_ok
    by (auto simp: view_receive_def Let_def split: option.split view_event.split sum.split prod.split bool.split)
qed

section \<open>The step relation\<close>

text \<open>
  One step is one locked section of some task, one transport operation on the peer's sender, or an
  owner outside the hub dropping its last reference to a payload. A connection is attached with a
  sender in a state the transport can reach.
\<close>

inductive hub_step :: "semaphore \<Rightarrow> hub_state \<Rightarrow> hub_state \<Rightarrow> bool" for acquire where
  hub_attach: "sender_ok s \<Longrightarrow> hub_step acquire st (snd (attach st s protocol))"
| hub_detach: "hub_step acquire st (fst (detach_with_reason env st g reason))"
| hub_dispatch: "ev_acquire env = acquire \<Longrightarrow> hub_step acquire st (fst (snd (dispatch env st g b)))"
| hub_request: "hub_step acquire st (snd (begin_request st g op))"
| hub_view: "hub_step acquire st (snd (begin_view st g))"
| hub_upload: "hub_step acquire st (snd (begin_upload st g))"
| hub_remove_pending: "hub_step acquire st (remove_pending st g k)"
| hub_remove_view: "ev_acquire env = acquire \<Longrightarrow> hub_step acquire st (remove_view env st g k c clean)"
| hub_remove_upload: "ev_acquire env = acquire \<Longrightarrow> hub_step acquire st (remove_upload env st g k clean)"
| hub_cleanup: "ev_acquire env = acquire \<Longrightarrow> hub_step acquire st (cleanup env st g b)"
| hub_receive: "ev_acquire env = acquire \<Longrightarrow> hub_step acquire st (fst (snd (view_receive env st l recv)))"
| hub_transport:
    "hs_peer st = Some p \<Longrightarrow> sender_step acquire (pe_sender p) s \<Longrightarrow> hub_step acquire st (set_sender s st)"
| hub_drop_payload: "hub_step acquire st (st\<lparr>hs_payloads := payload_drop (hs_payloads st) a\<rparr>)"

lemma hub_step_ok [keeps]:
  assumes "hub_step acquire st st'" and "semaphore_law acquire" and "hub_ok st"
  shows "hub_ok st'"
  using assms(1)
proof (cases rule: hub_step.cases)
  case (hub_transport p s)
  then have "sender_ok (pe_sender p)" using assms(3) by (simp add: hub_ok_Some)
  then show ?thesis using hub_transport sender_step_ok assms by (auto intro: set_sender_ok)
next
  case (hub_drop_payload a)
  then show ?thesis using assms(3) by (simp add: hub_ok_payloads payload_drop_ok budget_of)
qed (use assms(2,3) attach_ok detach_ok dispatch_ok begin_request_ok begin_view_ok begin_upload_ok
    remove_pending_ok remove_view_ok remove_upload_ok cleanup_ok view_receive_ok in auto)

interpretation hub: step_invariant "hub_step acquire" "\<lambda>st. semaphore_law acquire \<longrightarrow> hub_ok st"
  for acquire
  by unfold_locales (blast intro: hub_step_ok)

lemma hub_run_ok:
  "(hub_step acquire)\<^sup>*\<^sup>* st st' \<Longrightarrow> semaphore_law acquire \<Longrightarrow> hub_ok st \<Longrightarrow> hub_ok st'"
  using hub.run_keeps by blast

section \<open>The asynchronous operations are sequences of steps\<close>

definition owned :: "sender \<Rightarrow> nat \<Rightarrow> nat \<Rightarrow> bool" where
  "owned s k n \<longleftrightarrow> map_of (sd_held s) k = Some n \<and> k \<notin> jb_permit ` set (sd_queue s)"

text \<open>
  What an operation relies on: the semaphore's law, and that other tasks take steps of the same
  relation. A reservation belongs to the task that made it, so while a task is inside \<open>submit\<close>
  nobody else touches the permit it has just been given, the newest one.
\<close>

definition env_ok :: "semaphore \<Rightarrow> hub_env \<Rightarrow> bool" where
  "env_ok acquire env \<longleftrightarrow>
     ev_acquire env = acquire \<and> semaphore_law acquire \<and>
     (\<forall>st. (hub_step acquire)\<^sup>*\<^sup>* st (ev_others env st)) \<and>
     (\<forall>st. (hub_step acquire)\<^sup>*\<^sup>* st (ev_between env st) \<and>
       (\<forall>p q k n. hs_peer st = Some p \<and> hs_peer (ev_between env st) = Some q \<and>
          pe_generation q = pe_generation p \<and> sd_next (pe_sender p) = Suc k \<and> owned (pe_sender p) k n
          \<longrightarrow> owned (pe_sender q) k n))"

lemma set_sender_twice [simp]: "set_sender s (set_sender t st) = set_sender s st"
  by (simp add: set_sender_def option.map_comp comp_def)

lemma hub_peer_set_sender:
  "hub_peer st g = Inr p \<Longrightarrow> hub_peer (set_sender s st) g = Inr (p\<lparr>pe_sender := s\<rparr>)"
  by (auto simp: hub_peer_def set_sender_def split: option.splits if_splits)

lemma reserve_owned:
  assumes "sender_ok s" and "try_reserve acquire s n now = (Inr r, s')"
  shows "owned s' (rv_permit r) (rv_bytes r) \<and> sd_next s' = Suc (rv_permit r)"
proof -
  have "sd_next s' = Suc (rv_permit r)"
    using assms(2) by (auto simp: try_reserve_def hold_def split: if_splits)
  then show ?thesis using try_reserve_fresh [OF assms] by (simp add: owned_def)
qed

lemma submit_reserved_steps:
  assumes env: "env_ok acquire env" and peer: "hs_peer st = Some p" "pe_generation p = g"
    and own: "owned (pe_sender p) (rv_permit r) (rv_bytes r)" "sd_next (pe_sender p) = Suc (rv_permit r)"
  shows "(hub_step acquire)\<^sup>*\<^sup>* st (snd (submit_reserved env st g raw r))"
proof -
  let ?st = "ev_between env st"
  have run: "(hub_step acquire)\<^sup>*\<^sup>* st ?st" using env by (simp add: env_ok_def)
  show ?thesis
  proof (cases "hub_peer ?st g")
    case (Inl e)
    then show ?thesis using run by (simp add: submit_reserved_def)
  next
    case (Inr q)
    then have q: "hs_peer ?st = Some q" "pe_generation q = pe_generation p"
      using peer by (auto simp: hub_peer_Ok_iff)
    have "owned (pe_sender q) (rv_permit r) (rv_bytes r)"
      using env peer q own unfolding env_ok_def by blast
    then have "sender_step acquire (pe_sender q)
        (snd (submit_inner (ev_utf8 env) (ev_queue env) (pe_sender q) r raw False True (ev_now env)))"
      unfolding submit_inner_def owned_def by (intro step_submit) auto
    then have "hub_step acquire ?st (set_sender (snd (submit_inner (ev_utf8 env) (ev_queue env) (pe_sender q) r raw False True (ev_now env))) ?st)"
      using q(1) by (rule hub_transport [rotated])
    then show ?thesis
      using run Inr by (auto simp: submit_reserved_def Let_def split: prod.split sum.split elim: rtranclp.rtrancl_into_rtrancl)
  qed
qed

lemma submit_steps:
  assumes env: "env_ok acquire env" and ok: "hub_ok st"
  shows "(hub_step acquire)\<^sup>*\<^sup>* st (snd (submit env st g b))"
proof (cases "hub_peer st g")
  case (Inl e)
  then show ?thesis by (simp add: submit_def)
next
  case (Inr p)
  have acq: "ev_acquire env = acquire" and law: "semaphore_law acquire" using env by (auto simp: env_ok_def)
  have p: "hs_peer st = Some p" "pe_generation p = g" using Inr by (auto simp: hub_peer_Ok_iff)
  have s: "sender_ok (pe_sender p)" using ok p by (simp add: hub_ok_Some)
  let ?n = "estimate env (pe_protocol p) b"
  obtain res s1 where r: "try_reserve acquire (pe_sender p) ?n (ev_now env) = (res, s1)" by force
  have s1: "sender_ok s1" using try_reserve_ok [OF law s] r by (metis snd_conv)
  have step1: "sender_step acquire (pe_sender p) s1" using step_reserve [of acquire "pe_sender p" ?n] r by (metis snd_conv)
  have hop: "hub_step acquire (set_sender t st) (set_sender t' st)" if "sender_step acquire t t'" for t t'
    using hub_transport [of "set_sender t st" "p\<lparr>pe_sender := t\<rparr>" acquire t'] that p by (simp add: set_sender_def)
  have run1: "(hub_step acquire)\<^sup>*\<^sup>* st (set_sender s1 st)"
    using hub_transport [OF p(1) step1] by (rule r_into_rtranclp)
  show ?thesis
  proof (cases res)
    case (Inl e)
    then show ?thesis using Inr acq r run1 by (simp add: submit_def)
  next
    case r2: (Inr v)
    note own = reserve_owned [OF s r [unfolded r2]]
    have drop: "sender_step acquire s1 (release s1 (rv_permit v))"
      using own by (auto simp: owned_def intro: step_drop)
    have s2: "sender_ok (release s1 (rv_permit v))" using drop law s1 by (rule sender_step_ok)
    have run2: "(hub_step acquire)\<^sup>*\<^sup>* st (set_sender (release s1 (rv_permit v)) st)"
      using run1 hop [OF drop] by (rule rtranclp.rtrancl_into_rtrancl)
    have finish: "(hub_step acquire)\<^sup>*\<^sup>* (set_sender t st) (snd (submit_reserved env (set_sender t st) g raw w))"
      if "owned t (rv_permit w) (rv_bytes w)" "sd_next t = Suc (rv_permit w)" for t raw w
      using submit_reserved_steps [OF env, of "set_sender t st" "p\<lparr>pe_sender := t\<rparr>" g w raw] that p
      by (simp add: set_sender_def)
    show ?thesis
    proof (cases "ev_encode env (pe_protocol p) b")
      case None
      then show ?thesis using Inr acq r r2 run2 by (simp add: submit_def)
    next
      case (Some raw)
      show ?thesis
      proof (cases "?n < length raw")
        case False
        then show ?thesis
          using Inr acq r r2 Some run1 finish [of s1 v raw] own by (simp add: submit_def)
      next
        case True
        obtain res2 s3 where q: "try_reserve acquire (release s1 (rv_permit v)) (length raw) (ev_now env) = (res2, s3)" by force
        have "sender_step acquire (release s1 (rv_permit v)) s3"
          using step_reserve [of acquire "release s1 (rv_permit v)" "length raw"] q by (metis snd_conv)
        then have run3: "(hub_step acquire)\<^sup>*\<^sup>* st (set_sender s3 st)"
          using run2 hop by (meson rtranclp.rtrancl_into_rtrancl)
        show ?thesis
        proof (cases res2)
          case (Inl e)
          then show ?thesis using Inr acq r r2 Some True q run3 by (simp add: submit_def)
        next
          case r3: (Inr w)
          then show ?thesis
            using Inr acq r r2 Some True q run3 finish [of s3 w raw] reserve_owned [OF s2 q [unfolded r3]]
            by (simp add: submit_def)
        qed
      qed
    qed
  qed
qed

lemma env_ok_others: "env_ok acquire env \<Longrightarrow> (hub_step acquire)\<^sup>*\<^sup>* st st' \<Longrightarrow> (hub_step acquire)\<^sup>*\<^sup>* st (ev_others env st')"
  unfolding env_ok_def by (meson rtranclp_trans)

lemma guard_steps:
  assumes "env_ok acquire env" and "(hub_step acquire)\<^sup>*\<^sup>* st st'"
  shows "(hub_step acquire)\<^sup>*\<^sup>* st (drop_pending_guard env st' g k sent c)"
proof -
  have "ev_acquire env = acquire" using assms(1) by (simp add: env_ok_def)
  then show ?thesis
    using assms(2) hub_remove_pending [of acquire st' g k] hub_cleanup [of env acquire]
    by (auto simp: drop_pending_guard_def Let_def intro: rtranclp.rtrancl_into_rtrancl)
qed

lemma view_drop_steps:
  assumes "env_ok acquire env" and "(hub_step acquire)\<^sup>*\<^sup>* st st'"
  shows "(hub_step acquire)\<^sup>*\<^sup>* st (remove_view env st' g k c clean)"
    and "(hub_step acquire)\<^sup>*\<^sup>* st (remove_upload env st' g k clean)"
    and "(hub_step acquire)\<^sup>*\<^sup>* st (abandon_view env st' l)"
proof -
  have acq: "ev_acquire env = acquire" using assms(1) by (simp add: env_ok_def)
  have view: "(hub_step acquire)\<^sup>*\<^sup>* st (remove_view env t g k c clean)"
    if "(hub_step acquire)\<^sup>*\<^sup>* st t" for t g k c clean
    using that hub_remove_view [OF acq] by (meson rtranclp.rtrancl_into_rtrancl)
  show "(hub_step acquire)\<^sup>*\<^sup>* st (remove_view env st' g k c clean)"
    by (rule view [OF assms(2)])
  show "(hub_step acquire)\<^sup>*\<^sup>* st (remove_upload env st' g k clean)"
    using assms(2) hub_remove_upload [OF acq] by (meson rtranclp.rtrancl_into_rtrancl)
  show "(hub_step acquire)\<^sup>*\<^sup>* st (abandon_view env st' l)"
    unfolding abandon_view_def drop_view_lease_def by (intro view guard_steps [OF assms])
qed

lemma submit_run:
  assumes "env_ok acquire env" and "hub_ok st" and "(hub_step acquire)\<^sup>*\<^sup>* st st'" and "submit env st' g b = (res, st'')"
  shows "(hub_step acquire)\<^sup>*\<^sup>* st st''"
proof -
  have "hub_ok st'" using hub_run_ok [OF assms(3)] assms(1,2) by (auto simp: env_ok_def)
  then show ?thesis using submit_steps [OF assms(1), of st' g b] assms(3,4) by (metis rtranclp_trans snd_conv)
qed

lemma send_steps:
  assumes "env_ok acquire env" and "hub_ok st"
  shows "(hub_step acquire)\<^sup>*\<^sup>* st (snd (send env st g b))"
proof -
  obtain res st1 where s: "submit env st g b = (res, st1)" by force
  note run = submit_run [OF assms rtranclp.rtrancl_refl s]
  show ?thesis
    using s run env_ok_others [OF assms(1) run] by (auto simp: send_def Let_def split: sum.splits)
qed

lemma request_steps:
  assumes env: "env_ok acquire env" and ok: "hub_ok st"
  shows "(hub_step acquire)\<^sup>*\<^sup>* st (snd (request env st g op reply))"
proof -
  obtain res st1 where b: "begin_request st g op = (res, st1)" by force
  have run1: "(hub_step acquire)\<^sup>*\<^sup>* st st1" using hub_request [of acquire st g op] b by (metis r_into_rtranclp snd_conv)
  show ?thesis
  proof (cases res)
    case (Inl e)
    then show ?thesis using b run1 by (simp add: request_def)
  next
    case (Inr k)
    obtain res2 st2 where s: "submit env st1 g (Request k (the op)) = (res2, st2)" by force
    note run2 = submit_run [OF env ok run1 s]
    note paths = guard_steps [OF env run2] guard_steps [OF env env_ok_others [OF env run2]]
    show ?thesis
      using b Inr s paths by (auto simp: request_def Let_def split: sum.splits option.splits)
  qed
qed

lemma open_view_steps:
  assumes env: "env_ok acquire env" and ok: "hub_ok st"
  shows "(hub_step acquire)\<^sup>*\<^sup>* st (snd (open_view env st g reply))"
proof -
  obtain res st1 where b: "begin_view st g = (res, st1)" by force
  have run1: "(hub_step acquire)\<^sup>*\<^sup>* st st1" using hub_view [of acquire st g] b by (metis r_into_rtranclp snd_conv)
  show ?thesis
  proof (cases res)
    case (Inl e)
    then show ?thesis using b run1 by (simp add: open_view_def)
  next
    case (Inr kf)
    obtain k home_flow where kf: "kf = (k, home_flow)" by force
    obtain res2 st2 where s: "submit env st1 g (TerminalOpen k (if home_flow then [OUTPUT_CAP] else [])) = (res2, st2)" by force
    note run2 = submit_run [OF env ok run1 s]
    note run3 = env_ok_others [OF env run2]
    note paths = view_drop_steps(3) [OF env run2] view_drop_steps(3) [OF env run3] guard_steps [OF env run3]
    show ?thesis
      using b Inr kf s paths by (auto simp: open_view_def Let_def split: sum.splits option.splits)
  qed
qed

lemma open_upload_steps:
  assumes env: "env_ok acquire env" and ok: "hub_ok st"
  shows "(hub_step acquire)\<^sup>*\<^sup>* st (snd (open_upload env st g))"
proof -
  obtain res st1 where b: "begin_upload st g = (res, st1)" by force
  have run1: "(hub_step acquire)\<^sup>*\<^sup>* st st1" using hub_upload [of acquire st g] b by (metis r_into_rtranclp snd_conv)
  show ?thesis
  proof (cases res)
    case (Inl e)
    then show ?thesis using b run1 by (simp add: open_upload_def)
  next
    case (Inr k)
    obtain res2 st2 where s: "submit env st1 g (UploadStart k) = (res2, st2)" by force
    note run2 = submit_run [OF env ok run1 s]
    note run3 = env_ok_others [OF env run2]
    note paths = view_drop_steps(2) [OF env run2] view_drop_steps(2) [OF env run3] run3
    show ?thesis
      using b Inr s paths by (auto simp: open_upload_def drop_upload_lease_def Let_def split: sum.splits)
  qed
qed

lemma view_send_steps:
  assumes "env_ok acquire env" and "hub_ok st"
  shows "(hub_step acquire)\<^sup>*\<^sup>* st (snd (view_send env st l b))"
  using send_steps [OF assms] by (auto simp: view_send_def split: sum.split)

lemma view_acknowledge_steps:
  assumes "env_ok acquire env" and "hub_ok st"
  shows "(hub_step acquire)\<^sup>*\<^sup>* st (fst (snd (view_acknowledge env st l n)))"
  using view_send_steps [OF assms, of l "OutputAck (vl_id l) n"] view_drop_steps(1) [OF assms(1) rtranclp.rtrancl_refl]
  by (auto simp: view_acknowledge_def split: sum.split prod.split bool.split)

end
