(* ===== verification/Hub_Properties.thy ===== *)
theory Hub_Properties
  imports Hub_Invariant
begin

text \<open>
  What the hub promises its callers: the limits and the single generation in every reachable state,
  what a disconnect does, that nothing of an old generation has any effect, where a response goes,
  that no request, view or upload is left behind, and how terminal output is bounded.
\<close>

section \<open>Shared facts\<close>

lemma cleanup_only_sender: "cleanup env st g b = st \<or> (\<exists>s. cleanup env st g b = set_sender s st)"
  by (auto simp: cleanup_def split: sum.split option.split prod.split)

lemma set_sender_simps [simp]:
  "hs_pending (set_sender s st) = hs_pending st" "hs_views (set_sender s st) = hs_views st"
  "hs_uploads (set_sender s st) = hs_uploads st" "hs_cells (set_sender s st) = hs_cells st"
  "hs_payloads (set_sender s st) = hs_payloads st" "hs_catalog (set_sender s st) = hs_catalog st"
  "hs_seen (set_sender s st) = hs_seen st" "attached (set_sender s st) g = attached st g"
  by (simp_all add: set_sender_def attached_def split: option.split)

lemma cleanup_simps [simp]:
  "hs_pending (cleanup env st g b) = hs_pending st" "hs_views (cleanup env st g b) = hs_views st"
  "hs_uploads (cleanup env st g b) = hs_uploads st" "hs_cells (cleanup env st g b) = hs_cells st"
  "hs_payloads (cleanup env st g b) = hs_payloads st" "attached (cleanup env st g b) h = attached st h"
  using cleanup_only_sender [of env st g b] by auto

lemma cell_set_closed: "cell (set_closed c k st) j = (if j = k then (cell st k)\<lparr>vc_closed := c\<rparr> else cell st j)"
  by (simp add: cell_def set_closed_def)

lemma cell_set_queued: "cell (set_queued n k st) j = (if j = k then (cell st k)\<lparr>vc_queued := n\<rparr> else cell st j)"
  by (simp add: cell_def set_queued_def)

lemma cell_cells_only: "hs_cells st = hs_cells st' \<Longrightarrow> cell st k = cell st' k"
  by (simp add: cell_def)

lemma cell_fold_closed:
  "cell (fold (set_closed c) ks st) j = (if j \<in> set ks then (cell st j)\<lparr>vc_closed := c\<rparr> else cell st j)"
  by (induction ks arbitrary: st) (auto simp: cell_set_closed)

lemma entries_generation:
  assumes "hub_ok st"
  shows "map_of (hs_pending st) k = Some p \<Longrightarrow> attached st (pd_generation p) \<and> issued (pd_generation p) (hs_next_id st) k"
    and "map_of (hs_views st) k = Some v \<Longrightarrow> attached st (vs_generation v) \<and> issued (vs_generation v) (hs_next_id st) k"
    and "map_of (hs_uploads st) k = Some u \<Longrightarrow> attached st (us_generation u) \<and> issued (us_generation u) (hs_next_id st) k"
  using assms
  by (cases "hs_peer st";
      fastforce simp: hub_ok_def owners_ok_def entries_ok_def attached_def dest: map_of_SomeD)+

lemma attached_unique: "attached st g \<Longrightarrow> attached st h \<Longrightarrow> g = h"
  by (auto simp: attached_def split: option.splits)

lemma format_id_generation:
  assumes "g \<le> U64_LIMIT" and "h \<le> U64_LIMIT" and "format_id g n = format_id h m"
  shows "g = h"
proof -
  have "to_hex 16 g = to_hex 16 h" using assms(3) by (simp add: format_id_def)
  moreover have "g < 16 ^ 16" and "h < 16 ^ 16" using assms(1,2) by (auto simp: U64_LIMIT_def)
  ultimately show ?thesis using to_hex_inj by blast
qed

lemma attached_limit: "hub_ok st \<Longrightarrow> attached st g \<Longrightarrow> g \<le> U64_LIMIT"
  by (auto simp: hub_ok_def owners_ok_def attached_def split: option.splits)

text \<open>An identifier of a generation is only ever held by that generation's owners.\<close>

lemma held_by_generation:
  assumes "hub_ok st" and "g \<le> U64_LIMIT" and "k = format_id g n"
  shows "map_of (hs_pending st) k = Some p \<Longrightarrow> pd_generation p = g"
    and "map_of (hs_views st) k = Some v \<Longrightarrow> vs_generation v = g"
    and "map_of (hs_uploads st) k = Some u \<Longrightarrow> us_generation u = g"
proof -
  have eq: "h = g" if "attached st h" "issued h m k" for h m
    using that format_id_generation [OF attached_limit [OF assms(1) that(1)] assms(2)] assms(3)
    by (metis issued_def)
  show "map_of (hs_pending st) k = Some p \<Longrightarrow> pd_generation p = g"
    "map_of (hs_views st) k = Some v \<Longrightarrow> vs_generation v = g"
    "map_of (hs_uploads st) k = Some u \<Longrightarrow> us_generation u = g"
    using entries_generation [OF assms(1)] eq by blast+
qed

lemma guard_removes:
  assumes "hub_ok st" and "g \<le> U64_LIMIT" and "k = format_id g n"
  shows "map_of (hs_pending (drop_pending_guard env st g k sent c)) k = None"
  using held_by_generation(1) [OF assms]
  by (auto simp: drop_pending_guard_def Let_def remove_pending_def split: option.split)

lemma abandon_removes:
  assumes "hub_ok st" and "vl_generation l \<le> U64_LIMIT" and "vl_id l = format_id (vl_generation l) n"
    and "semaphore_law (ev_acquire env)"
  shows "map_of (hs_pending (abandon_view env st l)) (vl_id l) = None \<and>
    map_of (hs_views (abandon_view env st l)) (vl_id l) = None"
proof -
  let ?st = "drop_pending_guard env st (vl_generation l) (vl_id l) (vl_sent l) False"
  have ok: "hub_ok ?st" by (rule drop_pending_guard_ok [OF assms(4,1)])
  have "map_of (hs_pending ?st) (vl_id l) = None" by (rule guard_removes [OF assms(1-3)])
  then show ?thesis
    using held_by_generation(2) [OF ok assms(2,3)]
    by (auto simp: abandon_view_def drop_view_lease_def remove_view_def take_view_def Let_def split: option.split)
qed

lemma upload_removed:
  assumes "hub_ok st" and "ul_generation l \<le> U64_LIMIT" and "ul_id l = format_id (ul_generation l) n"
  shows "map_of (hs_uploads (drop_upload_lease env st l)) (ul_id l) = None"
  using held_by_generation(3) [OF assms]
  by (auto simp: drop_upload_lease_def remove_upload_def Let_def split: option.split)

lemma begin_ids:
  "begin_request st g op = (Inr k, st1) \<Longrightarrow> k = format_id g (hs_next_id st + 1)"
  "begin_view st g = (Inr (k, hf), st1) \<Longrightarrow> k = format_id g (hs_next_id st + 1)"
  "begin_upload st g = (Inr k, st1) \<Longrightarrow> k = format_id g (hs_next_id st + 1)"
  by (auto simp: begin_request_def begin_view_def begin_upload_def next_id_def split: if_splits option.splits)

lemma after_submit:
  assumes env: "env_ok acquire env" and "hub_ok st" and "submit env st g b = (res, st')"
  shows "hub_ok st'" and "hub_ok (ev_others env st')"
proof -
  have law: "semaphore_law acquire" using env by (simp add: env_ok_def)
  show ok: "hub_ok st'"
    by (rule hub_run_ok [OF submit_run [OF env assms(2) rtranclp.rtrancl_refl assms(3)] law assms(2)])
  show "hub_ok (ev_others env st')"
    by (rule hub_run_ok [OF env_ok_others [OF env rtranclp.rtrancl_refl] law ok])
qed

lemma request_no_entry:
  assumes "env_ok acquire env" and "hub_ok st" and "g \<le> U64_LIMIT" and "begin_request st g op = (Inr k, st1)"
  shows "map_of (hs_pending (snd (request env st g op reply))) k = None"
proof -
  obtain res st2 where s: "submit env st1 g (Request k (the op)) = (res, st2)" by force
  have "hub_ok st1" using begin_request_ok [OF assms(2), of g op] assms(4) by simp
  note oks = after_submit [OF assms(1) this s]
  note gone = guard_removes [OF _ assms(3) begin_ids(1) [OF assms(4)]]
  show ?thesis
    using assms(4) s oks gone by (auto simp: request_def Let_def split: sum.splits option.splits)
qed

lemma open_view_no_entry:
  assumes "env_ok acquire env" and "hub_ok st" and "g \<le> U64_LIMIT" and "begin_view st g = (Inr (k, hf), st1)"
  shows "map_of (hs_pending (snd (open_view env st g reply))) k = None"
    and "\<not> is_Ok (fst (open_view env st g reply)) \<Longrightarrow> map_of (hs_views (snd (open_view env st g reply))) k = None"
proof -
  obtain res st2 where s: "submit env st1 g (TerminalOpen k (if hf then [OUTPUT_CAP] else [])) = (res, st2)" by force
  have "hub_ok st1" using begin_view_ok [OF assms(2), of g] assms(4) by simp
  note oks = after_submit [OF assms(1) this s]
  have law: "semaphore_law (ev_acquire env)" using assms(1) by (simp add: env_ok_def)
  note k = begin_ids(2) [OF assms(4)]
  let ?l = "\<lambda>sent. \<lparr>vl_generation = g, vl_id = k, vl_window = window_default, vl_home_flow = hf, vl_sent = sent, vl_exited = False\<rparr>"
  have gone: "map_of (hs_pending (abandon_view env t (?l sent))) k = None \<and> map_of (hs_views (abandon_view env t (?l sent))) k = None"
    if "hub_ok t" for t sent
    using abandon_removes [of t "?l sent", OF that _ _ law] assms(3) k by simp
  show "map_of (hs_pending (snd (open_view env st g reply))) k = None"
    using assms(4) s oks gone guard_removes [OF _ assms(3) k]
    by (auto simp: open_view_def Let_def split: sum.splits option.splits)
  show "\<not> is_Ok (fst (open_view env st g reply)) \<Longrightarrow> map_of (hs_views (snd (open_view env st g reply))) k = None"
    using assms(4) s oks gone by (auto simp: open_view_def Let_def split: sum.splits option.splits if_splits)
qed

lemma open_upload_no_entry:
  assumes "env_ok acquire env" and "hub_ok st" and "g \<le> U64_LIMIT" and "begin_upload st g = (Inr k, st1)"
    and "\<not> is_Ok (fst (open_upload env st g))"
  shows "map_of (hs_uploads (snd (open_upload env st g))) k = None"
proof -
  obtain res st2 where s: "submit env st1 g (UploadStart k) = (res, st2)" by force
  have "hub_ok st1" using begin_upload_ok [OF assms(2), of g] assms(4) by simp
  note oks = after_submit [OF assms(1) this s]
  have gone: "map_of (hs_uploads (drop_upload_lease env t \<lparr>ul_generation = g, ul_id = k, ul_sent = sent, ul_terminal = False\<rparr>)) k = None"
    if "hub_ok t" for t sent
    using upload_removed [of t "\<lparr>ul_generation = g, ul_id = k, ul_sent = sent, ul_terminal = False\<rparr>"] that
      assms(3) begin_ids(3) [OF assms(4)] by simp
  show ?thesis
    using assms(4,5) s oks gone by (auto simp: open_upload_def Let_def split: sum.splits)
qed

section \<open>Properties\<close>

text \<open>
  C2: in every reachable state of the hub there is at most one Home generation and every pending
  request, view and upload belongs to it, at most 16, 8 and 2 of them; without a Home there are
  none and no cached snapshot or capability; the retained payloads stay within 8 MiB, no view has
  more than 32 data frames queued, and the connection's queue keeps its own bounds.
\<close>

theorem hub_limits_hold:
  assumes "semaphore_law acquire" and "(hub_step acquire)\<^sup>*\<^sup>* hub_new st"
  shows "length (hs_pending st) \<le> MAX_PENDING \<and> length (hs_views st) \<le> MAX_VIEWS \<and>
    length (hs_uploads st) \<le> MAX_UPLOADS \<and>
    retained_payload_bytes (hs_payloads st) \<le> RETAINED_PAYLOAD_BYTES \<and>
    vc_queued (cell st k) \<le> FRAMES \<and>
    (case hs_peer st of
       None \<Rightarrow> hs_pending st = [] \<and> hs_views st = [] \<and> hs_uploads st = [] \<and> hs_catalog st = None \<and>
         hs_claude st = None \<and> hs_codex st = None \<and> \<not> hs_output_cap st \<and> \<not> hs_upload_cap st
     | Some p \<Rightarrow>
         list_all (\<lambda>e. pd_generation (snd e) = pe_generation p) (hs_pending st) \<and>
         list_all (\<lambda>e. vs_generation (snd e) = pe_generation p) (hs_views st) \<and>
         list_all (\<lambda>e. us_generation (snd e) = pe_generation p) (hs_uploads st) \<and>
         sender_retained_frames (pe_sender p) \<le> QUEUED_FRAMES \<and>
         sender_retained_bytes (pe_sender p) \<le> sd_byte_limit (pe_sender p))"
proof -
  have ok: "hub_ok st" using hub_run_ok [OF assms(2,1) hub_new_ok] .
  then have "retained_payload_bytes (hs_payloads st) \<le> RETAINED_PAYLOAD_BYTES" and "vc_queued (cell st k) \<le> FRAMES"
    by (auto simp: hub_ok_def budget_ok_def retained_payload_bytes_def cell_queued)
  then show ?thesis
    using ok by (cases "hs_peer st")
      (auto simp: hub_ok_def owners_ok_def entries_ok_def list_all_iff sender_ok_def sender_retained_frames_def)
qed

definition sample_hub :: hub_state where
  "sample_hub = snd (begin_request (snd (attach hub_new sample_sender ProtobufV2)) 1 (Some OpProfiles))"

lemma sample_sender_ok: "sender_ok sample_sender"
  by (rule start_with_limit_ok [OF sample_sender_started])

lemma sample_semaphore_law: "semaphore_law sample_semaphore"
  by (simp add: semaphore_law_def sample_semaphore_def)

lemma sample_hub_reachable: "(hub_step sample_semaphore)\<^sup>*\<^sup>* hub_new sample_hub"
  unfolding sample_hub_def
  using hub_attach [OF sample_sender_ok, of sample_semaphore hub_new ProtobufV2]
    hub_request [of sample_semaphore "snd (attach hub_new sample_sender ProtobufV2)" 1 "Some OpProfiles"]
  by (meson r_into_rtranclp rtranclp.rtrancl_into_rtrancl)

lemma sample_hub_eval:
  "hs_pending sample_hub = [(format_id 1 1, \<lparr>pd_generation = 1, pd_context = Operation OpProfiles\<rparr>)]"
  "hs_peer sample_hub = Some \<lparr>pe_generation = 1, pe_sender = sample_sender, pe_protocol = ProtobufV2\<rparr>"
  "hs_views sample_hub = []" "hs_uploads sample_hub = []" "hs_next_id sample_hub = 1" "hs_payloads sample_hub = budget_default"
  by (simp_all add: sample_hub_def begin_request_def attach_def hub_new_def attached_def next_id_def U64_LIMIT_def
      limits insert_key_def)

theorem hub_limits_hold_witness:
  "length (hs_pending sample_hub) = 1 \<and> length (hs_pending sample_hub) \<le> MAX_PENDING"
  using hub_limits_hold [OF sample_semaphore_law sample_hub_reachable] sample_hub_eval by simp

text \<open>
  The asynchronous operations do nothing but steps of the relation, whatever other tasks do while
  they wait, so every state they leave behind is a reachable one: \<open>request\<close>, \<open>open_view\<close>,
  \<open>open_upload\<close>, a view's send and its acknowledgement.
\<close>

lemma hub_operations_are_steps:
  assumes "env_ok acquire env" and "(hub_step acquire)\<^sup>*\<^sup>* hub_new st"
  shows "(hub_step acquire)\<^sup>*\<^sup>* hub_new (snd (request env st g op reply)) \<and>
    (hub_step acquire)\<^sup>*\<^sup>* hub_new (snd (open_view env st g reply)) \<and>
    (hub_step acquire)\<^sup>*\<^sup>* hub_new (snd (open_upload env st g)) \<and>
    (hub_step acquire)\<^sup>*\<^sup>* hub_new (snd (view_send env st l b)) \<and>
    (hub_step acquire)\<^sup>*\<^sup>* hub_new (fst (snd (view_acknowledge env st l n)))"
proof -
  have ok: "hub_ok st" using hub_run_ok [OF assms(2) _ hub_new_ok] assms(1) by (simp add: env_ok_def)
  show ?thesis
    using request_steps [OF assms(1) ok] open_view_steps [OF assms(1) ok] open_upload_steps [OF assms(1) ok]
      view_send_steps [OF assms(1) ok] view_acknowledge_steps [OF assms(1) ok] assms(2)
    by (meson rtranclp_trans)
qed

definition sample_env :: hub_env where
  "sample_env =
     \<lparr>ev_alloc = Some, ev_is_last = (\<lambda>_. True), ev_reply_size = (\<lambda>_. 100), ev_catalog = Some, ev_usage = Some,
      ev_sent = True, ev_slots = 3, ev_parse_time = (\<lambda>_. Some 0), ev_closed = False, ev_wall = 0, ev_now = 5,
      ev_acquire = sample_semaphore, ev_utf8 = (\<lambda>_. True), ev_queue = Sent, ev_encode = (\<lambda>_ _. Some ''frame''),
      ev_encoded_len = (\<lambda>_. 5), ev_others = (\<lambda>st. st), ev_between = (\<lambda>st. st), ev_receipt = Ok ()\<rparr>"

lemma sample_env_ok: "env_ok sample_semaphore sample_env"
  by (auto simp: env_ok_def sample_env_def sample_semaphore_law)

text \<open>
  C27: a disconnect settles everything of its generation at once: each pending request is answered
  exactly once, with the reason, every view's owner will read \<open>HOME_OFFLINE\<close>, no owner, snapshot
  or capability remains, and the hub reports itself disconnected; a disconnect of any other
  generation changes nothing.
\<close>

theorem detach_settles_generation:
  assumes "semaphore_law acquire" and "(hub_step acquire)\<^sup>*\<^sup>* hub_new st"
  shows "case detach_with_reason env st g reason of (st', effs) \<Rightarrow>
    if attached st g
    then effs = PeerClosed g # map (\<lambda>k. Reply k (Err reason)) (keys (hs_pending st)) \<and>
      distinct (keys (hs_pending st)) \<and>
      hs_pending st' = [] \<and> hs_views st' = [] \<and> hs_uploads st' = [] \<and>
      (\<forall>k \<in> set (keys (hs_views st)). vc_closed (cell st' k) = HOME_OFFLINE) \<and>
      (\<forall>h. \<not> attached st' h) \<and>
      hub_snapshot st' now = \<lparr>sn_connected = False, sn_online = False, sn_generation = None, sn_catalog = None,
        sn_claude_usage = None, sn_codex_usage = None, sn_output_flow = False, sn_upload = False\<rparr>
    else st' = st \<and> effs = []"
proof -
  have ok: "hub_ok st" using hub_run_ok [OF assms(2,1) hub_new_ok] .
  have "distinct (keys (hs_pending st))"
    using ok by (cases "hs_peer st") (auto simp: hub_ok_def owners_ok_def entries_ok_def wf_map_def keys_def)
  then show ?thesis
    by (auto simp: detach_with_reason_def Let_def attached_def hub_snapshot_def
        cell_cells_only [of "_\<lparr>hs_peer := _, hs_pending := _, hs_views := _, hs_uploads := _, hs_catalog := _,
          hs_claude := _, hs_codex := _, hs_updated := _, hs_output_cap := _, hs_upload_cap := _, hs_payloads := _\<rparr>"]
        cell_fold_closed)
qed

theorem detach_settles_generation_witness:
  "snd (detach_with_reason sample_env sample_hub 1 HTransport) =
     [PeerClosed 1, Reply (format_id 1 1) (Err HTransport)]"
  using detach_settles_generation [OF sample_semaphore_law sample_hub_reachable, where env = sample_env and g = 1 and reason = HTransport and now = 0]
  by (auto simp: attached_def sample_hub_eval keys_def split: prod.splits)

text \<open>
  Nothing done in the name of a generation that is not the connected one has an effect: its
  messages are refused without touching the state or reaching anyone, its callers get \<open>Stale\<close> (or
  \<open>Offline\<close> when no Home is connected), and dropping its leases and guards removes nothing.
\<close>

lemma stale_generation_inert:
  assumes "semaphore_law acquire" and "(hub_step acquire)\<^sup>*\<^sup>* hub_new st" and "\<not> attached st g"
  shows "(\<exists>e. dispatch env st g b = (Err e, st, [])) \<and>
    begin_request st g op = (Err HStale, st) \<and> begin_view st g = (Err HStale, st) \<and>
    begin_upload st g = (Err HStale, st) \<and>
    submit env st g out = (Err (if hs_peer st = None then HOffline else HStale), st) \<and>
    remove_pending st g k = st \<and> remove_view env st g k c clean = st \<and> remove_upload env st g k clean = st \<and>
    ensure_view st g k = Err HStale \<and> check_upload st g k allow = Err HStale"
proof -
  have ok: "hub_ok st" using hub_run_ok [OF assms(2,1) hub_new_ok] .
  note own = entries_generation [OF ok, of k]
  have peer: "hub_peer st g = Err (if hs_peer st = None then HOffline else HStale)"
    using assms(3) by (auto simp: hub_peer_def attached_def split: option.splits)
  have "\<exists>e. dispatch env st g b = (Err e, st, [])"
  proof (cases b)
    case (Some c)
    then show ?thesis using assms(3) by (cases c) (auto simp: dispatch_def cache_snapshot_def split: option.split)
  qed (simp add: dispatch_def)
  then show ?thesis
    using assms(3) own peer
    by (auto simp: begin_request_def begin_view_def begin_upload_def submit_def remove_pending_def remove_view_def
        remove_upload_def ensure_view_def check_upload_def split: option.splits)
qed

text \<open>
  C36: a response reaches its request and nobody else. For a response of the connected generation
  whose identifier is pending, exactly that entry is removed and exactly its owner is answered,
  once: with the response if it fits the request's operation and the budget admits it, otherwise
  with an error, which the dispatch returns to the connection as well; for any other identifier nothing changes.
\<close>

theorem response_routed_once:
  assumes "semaphore_law acquire" and "(hub_step acquire)\<^sup>*\<^sup>* hub_new st" and "attached st g"
  shows "case dispatch env st g (Some (Response v)) of (res, st', effs) \<Rightarrow>
    (case map_of (hs_pending st) (rp_id v) of
       None \<Rightarrow> res = Ok () \<and> st' = st \<and> effs = []
     | Some p \<Rightarrow>
         hs_pending st' = remove_key (rp_id v) (hs_pending st) \<and>
         hs_views st' = hs_views st \<and> hs_uploads st' = hs_uploads st \<and> hs_peer st' = hs_peer st \<and>
         (if response_matches v (pd_context p) \<and>
             pb_used (hs_payloads st) + ev_reply_size env v \<le> RETAINED_PAYLOAD_BYTES
          then res = Ok () \<and> effs = [Reply (rp_id v) (Ok v)]
          else \<exists>e. e \<in> {HInvalid, HCapacity} \<and> res = Err e \<and> effs = [Reply (rp_id v) (Err e)]))"
proof -
  have ok: "hub_ok st" using hub_run_ok [OF assms(2,1) hub_new_ok] .
  have gen: "pd_generation p = g" if "map_of (hs_pending st) (rp_id v) = Some p" for p
    using entries_generation(1) [OF ok that] attached_unique [OF assms(3)] by auto
  show ?thesis
    using assms(3) gen
    by (auto simp: dispatch_def handle_def on_response_def retain_response_def Let_def split: option.split)
qed

definition sample_refusal :: response where
  "sample_refusal = \<lparr>rp_id = format_id 1 1, rp_error = ''no'', rp_result = None\<rparr>"

theorem response_routed_once_witness:
  "\<exists>st'. dispatch sample_env sample_hub 1 (Some (Response sample_refusal)) = (Ok (), st', [Reply (format_id 1 1) (Ok sample_refusal)]) \<and> hs_pending st' = []"
proof -
  obtain res st' effs where d: "dispatch sample_env sample_hub 1 (Some (Response sample_refusal)) = (res, st', effs)" by (metis prod_cases3)
  have "attached sample_hub 1" by (simp add: attached_def sample_hub_eval)
  from response_routed_once [OF sample_semaphore_law sample_hub_reachable this, where env = sample_env and v = sample_refusal] d
  show ?thesis
    by (simp add: sample_hub_eval sample_refusal_def response_matches_def budget_default_def sample_env_def RETAINED_PAYLOAD_BYTES_def remove_key_def)
qed

lemma dropped_guards_remove:
  assumes "semaphore_law acquire" and "semaphore_law (ev_acquire env)" and "hub_ok st1" and "(hub_step acquire)\<^sup>*\<^sup>* st1 t" and "g \<le> U64_LIMIT"
    and "k = format_id g n"
  shows "map_of (hs_pending (drop_pending_guard env t g k sent cancel)) k = None"
    and "vl_generation l = g \<Longrightarrow> vl_id l = k \<Longrightarrow> map_of (hs_views (drop_view_lease env t l)) k = None"
    and "vl_generation l = g \<Longrightarrow> vl_id l = k \<Longrightarrow> map_of (hs_pending (abandon_view env t l)) k = None \<and> map_of (hs_views (abandon_view env t l)) k = None"
    and "ul_generation ul = g \<Longrightarrow> ul_id ul = k \<Longrightarrow> map_of (hs_uploads (drop_upload_lease env t ul)) k = None"
proof -
  have ok: "hub_ok t" by (rule hub_run_ok [OF assms(4,1,3)])
  show "map_of (hs_pending (drop_pending_guard env t g k sent cancel)) k = None" by (rule guard_removes [OF ok assms(5,6)])
  show "map_of (hs_views (drop_view_lease env t l)) k = None" if "vl_generation l = g" "vl_id l = k"
    using held_by_generation(2) [OF ok assms(5,6)] that
    by (auto simp: drop_view_lease_def remove_view_def take_view_def Let_def split: option.split)
  show "map_of (hs_pending (abandon_view env t l)) k = None \<and> map_of (hs_views (abandon_view env t l)) k = None" if "vl_generation l = g" "vl_id l = k"
    using abandon_removes [OF ok _ _ assms(2), of l n] assms(5,6) that by simp
  show "map_of (hs_uploads (drop_upload_lease env t ul)) k = None" if "ul_generation ul = g" "ul_id ul = k"
    using upload_removed [OF ok, of ul n] assms(5,6) that by simp
qed

text \<open>
  C31: no operation leaves an owner behind. However a request returns, its entry is gone; a view that
  could not be opened has neither a pending entry nor a view entry, an opened one no pending
  entry; an upload that could not be opened has no entry. This holds whatever other tasks did
  while the operation waited, a reconnect of Home included. And it holds of what does not return: from the
  moment an entry is made, whatever steps the hub takes, a drop removes it. So does the drop of the guard of a request
  that is cancelled while it waits, the drops of the guard and the lease of a view that is cancelled while it is opened, the drop of the lease of an
  open view, and that of an upload, opened or not.
\<close>

theorem no_owner_left_behind:
  assumes "env_ok acquire env" and "(hub_step acquire)\<^sup>*\<^sup>* hub_new st" and "attached st g"
  shows "(case begin_request st g op of
       (Inr k, st1) \<Rightarrow>
         map_of (hs_pending (snd (request env st g op reply))) k = None \<and>
         (\<forall>t sent cancel. (hub_step acquire)\<^sup>*\<^sup>* st1 t \<longrightarrow> map_of (hs_pending (drop_pending_guard env t g k sent cancel)) k = None)
     | _ \<Rightarrow> True) \<and>
    (case begin_view st g of
       (Inr (k, _), st1) \<Rightarrow>
         map_of (hs_pending (snd (open_view env st g reply))) k = None \<and>
         (is_Ok (fst (open_view env st g reply)) \<or> map_of (hs_views (snd (open_view env st g reply))) k = None) \<and>
         (\<forall>t l. (hub_step acquire)\<^sup>*\<^sup>* st1 t \<and> vl_generation l = g \<and> vl_id l = k \<longrightarrow>
            map_of (hs_views (drop_view_lease env t l)) k = None \<and>
            map_of (hs_pending (abandon_view env t l)) k = None \<and> map_of (hs_views (abandon_view env t l)) k = None)
     | _ \<Rightarrow> True) \<and>
    (case begin_upload st g of
       (Inr k, st1) \<Rightarrow>
         (is_Ok (fst (open_upload env st g)) \<or> map_of (hs_uploads (snd (open_upload env st g))) k = None) \<and>
         (\<forall>t l. (hub_step acquire)\<^sup>*\<^sup>* st1 t \<and> ul_generation l = g \<and> ul_id l = k \<longrightarrow> map_of (hs_uploads (drop_upload_lease env t l)) k = None)
     | _ \<Rightarrow> True)"
proof -
  have law: "semaphore_law acquire" "semaphore_law (ev_acquire env)" using assms(1) by (auto simp: env_ok_def)
  have ok: "hub_ok st" by (rule hub_run_ok [OF assms(2) law(1) hub_new_ok])
  note g = attached_limit [OF ok assms(3)]
  have begun: "hub_ok (snd (begin_request st g op))" "hub_ok (snd (begin_view st g))" "hub_ok (snd (begin_upload st g))"
    by (rule begin_request_ok [OF ok] begin_view_ok [OF ok] begin_upload_ok [OF ok])+
  note gone = dropped_guards_remove [OF law _ _ g]
  show ?thesis
    using request_no_entry [OF assms(1) ok g] open_view_no_entry [OF assms(1) ok g] open_upload_no_entry [OF assms(1) ok g]
      begin_ids [of st g] begun gone
    by (fastforce split: prod.split sum.split)
qed

theorem no_owner_left_behind_witness:
  "map_of (hs_pending (snd (request sample_env sample_hub 1 (Some OpCreate) None))) (format_id 1 2) = None"
  using no_owner_left_behind [OF sample_env_ok sample_hub_reachable, of 1 "Some OpCreate" None]
  by (simp add: attached_def begin_request_def next_id_def sample_hub_eval U64_LIMIT_def limits numeral_2_eq_2)

text \<open>
  C35: terminal output for a live view is delivered or the view is closed, never both and never
  neither. A frame of 1 to 16384 bytes that finds fewer than 32 queued and room in the budget and
  in the view's queue is handed over unchanged and counted; otherwise the view is removed with
  \<open>OUTPUT_FULL\<close>, its count and the budget are as before. The connection survives either way, and
  no other view, request or upload is touched.
\<close>

theorem terminal_output_delivered_or_closed:
  assumes "semaphore_law acquire" and "(hub_step acquire)\<^sup>*\<^sup>* hub_new st" and "attached st g"
    and "map_of (hs_views st) vid = Some v"
  shows "case dispatch env st g (Some (TerminalOutput vid data)) of (res, st', effs) \<Rightarrow>
    res = Ok () \<and> hs_pending st' = hs_pending st \<and> hs_uploads st' = hs_uploads st \<and>
    (\<forall>k. k \<noteq> vid \<longrightarrow> map_of (hs_views st') k = map_of (hs_views st) k \<and> cell st' k = cell st k) \<and>
    (if data \<noteq> [] \<and> length data \<le> CHUNK \<and> vc_queued (cell st vid) < FRAMES \<and> ev_sent env \<and>
        is_Ok (fst (retain (ev_alloc env) (hs_payloads st) data))
     then (\<exists>y. effs = [ToView vid (ViewData y)] \<and> py_data y = data) \<and> hs_views st' = hs_views st \<and>
       vc_queued (cell st' vid) = vc_queued (cell st vid) + 1 \<and> vc_queued (cell st' vid) \<le> FRAMES
     else effs = [] \<and> map_of (hs_views st') vid = None \<and> vc_closed (cell st' vid) = OUTPUT_FULL \<and>
       vc_queued (cell st' vid) = vc_queued (cell st vid) \<and>
       retained_payload_bytes (hs_payloads st') = retained_payload_bytes (hs_payloads st))"
proof -
  have ok: "hub_ok st" using hub_run_ok [OF assms(2,1) hub_new_ok] .
  have gen: "vs_generation v = g"
    using entries_generation(2) [OF ok assms(4)] attached_unique [OF assms(3)] by auto
  obtain res b where r: "retain (ev_alloc env) (hs_payloads st) data = (res, b)" by force
  note c = retain_cases [OF budget_of [OF ok] r]
  have freed: "pb_used (payload_drop b a) = pb_used (hs_payloads st)"
    if "remove_key a (pb_live b) = pb_live (hs_payloads st)" for a
    using drop_restores [of b "hs_payloads st" a] that c budget_of [OF ok] by simp
  show ?thesis
    using assms(3,4) gen r c freed
    by (auto simp: dispatch_def handle_def on_terminal_output_def take_view_def Let_def retained_payload_bytes_def
        cell_set_closed cell_set_queued cell_def set_closed_def set_queued_def split: sum.splits option.splits)
qed

definition sample_view_hub :: hub_state where
  "sample_view_hub = snd (begin_view sample_hub 1)"

lemma sample_view_hub_reachable: "(hub_step sample_semaphore)\<^sup>*\<^sup>* hub_new sample_view_hub"
  unfolding sample_view_hub_def
  using sample_hub_reachable hub_view [of sample_semaphore sample_hub 1] by (rule rtranclp.rtrancl_into_rtrancl)

lemma sample_view_hub_eval:
  "map_of (hs_views sample_view_hub) (format_id 1 2) = Some \<lparr>vs_generation = 1\<rparr>"
  "attached sample_view_hub 1"
  by (simp_all add: sample_view_hub_def begin_view_def attached_def next_id_def sample_hub_eval U64_LIMIT_def limits
      wire_limits insert_key_def numeral_2_eq_2)

theorem terminal_output_delivered_or_closed_witness:
  "\<exists>res st' effs. dispatch sample_env sample_view_hub 1 (Some (TerminalOutput (format_id 1 2) [])) = (res, st', effs) \<and>
     effs = [] \<and> map_of (hs_views st') (format_id 1 2) = None \<and> vc_closed (cell st' (format_id 1 2)) = OUTPUT_FULL"
  using terminal_output_delivered_or_closed [OF sample_semaphore_law sample_view_hub_reachable sample_view_hub_eval(2,1), where env = sample_env and data = "[]"]
  by (auto split: prod.splits)

text \<open>
  When the reader task of a connection ends, its generation is disconnected: for every sequence
  of turns that ends with a reason, a protocol violation, a transport failure or a refused
  message, the generation is no longer attached and, if it was attached until then, the hub is
  left without a Home.
\<close>

lemma reader_end_detaches:
  assumes "home_reader from_json st g protocol turns = (st', effs, Some reason)"
  shows "\<not> attached st' g"
  using assms
proof (induction turns arbitrary: st effs)
  case (Cons turn turns)
  obtain env inc where turn: "turn = (env, inc)" by force
  obtain out st1 effs1 where t: "reader_turn from_json env (ev_others env st) g protocol inc = (out, st1, effs1)"
    by (metis prod_cases3)
  have gone: "\<not> attached (fst (detach_with_reason env st1 g r)) g" for r
    by (auto simp: detach_with_reason_def Let_def attached_def)
  show ?case
  proof (cases out)
    case None
    obtain st2 effs2 reason2 where h: "home_reader from_json st1 g protocol turns = (st2, effs2, reason2)"
      by (metis prod_cases3)
    then show ?thesis using Cons.IH [of st1 effs2] Cons.prems turn t None by simp
  next
    case (Some r)
    then show ?thesis using Cons.prems turn t gone [of r] by (auto split: prod.splits)
  qed
qed simp

end
