(* ===== verification/Tab_Completions.thy ===== *)
theory Tab_Completions
  imports Workspace_Store
begin

text \<open>
  The shared completion receipts of \<open>hmux-gateway/src/tab_completions.rs\<close>: one bounded ledger of the
  latest completion per session and one read receipt file per account, each written atomically and
  cached. The private directory is an explicit map from names to contents; the JSON codec, the
  time parser, the authorisation check and the outcome of an atomic write are arguments.
\<close>

section \<open>Rows\<close>

definition MAX_ENTRIES :: nat where "MAX_ENTRIES = 256"
definition TC_MAX_BYTES :: nat where "TC_MAX_BYTES = 131072"
definition CACHE_ACCOUNTS :: nat where "CACHE_ACCOUNTS = 16"
definition MAX_REVISION :: int where "MAX_REVISION = 9007199254740991"
definition EVENTS_FILE :: string where "EVENTS_FILE = ''events.json''"

lemmas tab_limits [limits] = MAX_ENTRIES_def TC_MAX_BYTES_def CACHE_ACCOUNTS_def MAX_REVISION_def

record tab_event =
  tv_session :: session_identity
  tv_event_id :: string
  tv_completed_at :: string

text \<open>\<open>Ledger\<close> and \<open>Reads\<close> have the same fields and the same wire form.\<close>

record rows =
  rw_revision :: int
  rw_events :: "tab_event list"

definition rows_default :: rows where
  "rows_default = \<lparr>rw_revision = 0, rw_events = []\<rparr>"

definition tab_event_valid :: "(string \<Rightarrow> int option) \<Rightarrow> tab_event \<Rightarrow> bool" where
  "tab_event_valid parse e \<longleftrightarrow>
     0 < si_created_at (tv_session e) \<and> validate_session_id (si_id (tv_session e)) \<and>
     length (tv_event_id e) = 64 \<and> list_all is_ascii_hexdigit (tv_event_id e) \<and>
     length (tv_completed_at e) \<le> 64 \<and> parse (tv_completed_at e) \<noteq> None"

definition valid_rows :: "(string \<Rightarrow> int option) \<Rightarrow> rows \<Rightarrow> bool" where
  "valid_rows parse r \<longleftrightarrow>
     0 \<le> rw_revision r \<and> rw_revision r < MAX_REVISION \<and> length (rw_events r) \<le> MAX_ENTRIES \<and>
     list_all (tab_event_valid parse) (rw_events r) \<and> distinct (map tv_session (rw_events r))"

datatype completion_error = CInvalid | CConflict | CBusy | CUnavailable | CUnauthorized

text \<open>
  What surrounds a transaction: the codec, the parser, whether a private file can be read, the
  outcome of the atomic write (a failure may come before or after the rename), and the answers of
  the authorisation and of the liveness check at their first and second call.
\<close>

record tab_env =
  tb_decode :: "bytes \<Rightarrow> rows option"
  tb_encode :: "rows \<Rightarrow> bytes option"
  tb_parse :: "string \<Rightarrow> int option"
  tb_readable :: "string \<Rightarrow> bool"
  tb_write :: write_result
  tb_authorized :: "bool \<times> bool"
  tb_current :: "bool \<times> bool"

definition load :: "tab_env \<Rightarrow> private_dir \<Rightarrow> string \<Rightarrow> (completion_error, rows) result" where
  "load env dir name =
     (case dir name of
        None \<Rightarrow> Ok rows_default
      | Some raw \<Rightarrow>
          if \<not> tb_readable env name \<or> TC_MAX_BYTES < length raw then Err CUnavailable
          else case tb_decode env raw of Some r \<Rightarrow> Ok r | None \<Rightarrow> Err CUnavailable)"

section \<open>The state and its operations\<close>

record tab_state =
  tc_dir :: private_dir
  tc_storage_failed :: bool
  tc_ledger :: rows
  tc_reads :: "(string \<times> rows) list"

definition account_key :: "string \<Rightarrow> string" where
  \<comment> \<open>the argument is the hexadecimal digest of the account\<close>
  "account_key digest = digest @ ''.json''"

definition read_account :: "tab_env \<Rightarrow> tab_state \<Rightarrow> string \<Rightarrow> (completion_error, rows) result" where
  "read_account env st key =
     and_then (load env (tc_dir st) key)
       (\<lambda>v. if valid_rows (tb_parse env) v then Ok v else Err CUnavailable)"

definition cache_reads :: "tab_state \<Rightarrow> string \<Rightarrow> rows \<Rightarrow> tab_state" where
  "cache_reads st key v =
     st\<lparr>tc_reads := drop_oldest CACHE_ACCOUNTS (remove_key key (tc_reads st)) @ [(key, v)]\<rparr>"

definition account :: "tab_env \<Rightarrow> tab_state \<Rightarrow> string \<Rightarrow> (completion_error, rows) result \<times> tab_state" where
  "account env st key =
     (case map_of (tc_reads st) key of
        Some v \<Rightarrow> (Ok v, st)
      | None \<Rightarrow>
          (case read_account env st key of
             Inl e \<Rightarrow> (Err e, st)
           | Inr v \<Rightarrow> (Ok v, cache_reads st key v)))"

record tab_entry =
  tn_event :: tab_event
  tn_unread :: bool

record tab_snapshot =
  tp_version :: int
  tp_sequence :: int
  tp_read_revision :: int
  tp_entries :: "tab_entry list"

definition is_read :: "rows \<Rightarrow> tab_event \<Rightarrow> bool" where
  "is_read reads e =
     list_ex (\<lambda>r. tv_session r = tv_session e \<and> tv_event_id r = tv_event_id e) (rw_events reads)"

definition tab_snapshot_of :: "tab_state \<Rightarrow> rows \<Rightarrow> session_identity set \<Rightarrow> tab_snapshot" where
  "tab_snapshot_of st reads alive =
     \<lparr>tp_version = 1, tp_sequence = rw_revision (tc_ledger st), tp_read_revision = rw_revision reads,
      tp_entries = map (\<lambda>e. \<lparr>tn_event = e, tn_unread = (\<not> is_read reads e)\<rparr>)
        (filter (\<lambda>e. tv_session e \<in> alive) (rw_events (tc_ledger st)))\<rparr>"

text \<open>\<open>Option\<close>'s order: \<open>None\<close> below every \<open>Some\<close>.\<close>

definition later :: "int option \<Rightarrow> int option \<Rightarrow> bool" where
  "later a b = (case a of None \<Rightarrow> False | Some x \<Rightarrow> (case b of None \<Rightarrow> True | Some y \<Rightarrow> y < x))"

definition superseded :: "tab_env \<Rightarrow> rows \<Rightarrow> tab_event \<Rightarrow> bool" where
  "superseded env ledger e =
     (case find (\<lambda>r. tv_session r = tv_session e) (rw_events ledger) of
        None \<Rightarrow> False
      | Some old \<Rightarrow>
          tv_event_id old = tv_event_id e \<or>
          later (tb_parse env (tv_completed_at old)) (tb_parse env (tv_completed_at e)))"

definition put_event :: "tab_event \<Rightarrow> tab_event list \<Rightarrow> tab_event list" where
  "put_event e es = drop_oldest MAX_ENTRIES es @ [e]"

definition tab_record :: "tab_env \<Rightarrow> tab_state \<Rightarrow> tab_event \<Rightarrow> (completion_error, unit) result \<times> tab_state" where
  "tab_record env st e =
     (if tc_storage_failed st then (Err CUnavailable, st)
      else if \<not> tab_event_valid (tb_parse env) e then (Err CInvalid, st)
      else if superseded env (tc_ledger st) e then (Ok (), st)
      else
        let next_ledger = \<lparr>rw_revision = rw_revision (tc_ledger st) + 1,
              rw_events = put_event e (filter (\<lambda>r. tv_session r \<noteq> tv_session e) (rw_events (tc_ledger st)))\<rparr> in
        if \<not> valid_rows (tb_parse env) next_ledger then (Err CUnavailable, st)
        else case tb_encode env next_ledger of
          None \<Rightarrow> (Err CUnavailable, st)
        | Some raw \<Rightarrow>
            (case write_atomic (tb_write env) (tc_dir st) EVENTS_FILE raw of
               (True, dir) \<Rightarrow> (Ok (), st\<lparr>tc_dir := dir, tc_ledger := next_ledger\<rparr>)
             | (False, dir) \<Rightarrow>
                 let st = st\<lparr>tc_dir := dir, tc_storage_failed := True\<rparr> in
                 (case load env dir EVENTS_FILE of
                    Inl err \<Rightarrow> (Err err, st)
                  | Inr loaded \<Rightarrow>
                      if \<not> valid_rows (tb_parse env) loaded then (Err CUnavailable, st)
                      else (Err CUnavailable, st\<lparr>tc_ledger := loaded, tc_storage_failed := False\<rparr>))))"

definition tab_acknowledge ::
  "tab_env \<Rightarrow> tab_state \<Rightarrow> string \<Rightarrow> session_identity \<Rightarrow> string \<Rightarrow> session_identity set \<Rightarrow>
    (completion_error, tab_snapshot) result \<times> tab_state" where
  "tab_acknowledge env st digest session event_id alive =
     (if tc_storage_failed st then (Err CUnavailable, st)
      else if \<not> fst (tb_authorized env) then (Err CUnauthorized, st)
      else if session \<notin> alive \<or> \<not> fst (tb_current env) then (Err CConflict, st)
      else case find (\<lambda>e. tv_session e = session \<and> tv_event_id e = event_id) (rw_events (tc_ledger st)) of
        None \<Rightarrow> (Err CConflict, st)
      | Some event \<Rightarrow>
          (case read_account env st (account_key digest) of
             Inl err \<Rightarrow> (Err err, st)
           | Inr reads \<Rightarrow>
               if event \<in> set (rw_events reads)
               then (let st = cache_reads st (account_key digest) reads in
                     (Ok (tab_snapshot_of st reads alive), st))
               else
                 let reads = \<lparr>rw_revision = rw_revision reads + 1,
                       rw_events = put_event event
                         (filter (\<lambda>e. tv_session e \<in> alive \<and> tv_session e \<noteq> tv_session event) (rw_events reads))\<rparr> in
                 if \<not> valid_rows (tb_parse env) reads then (Err CUnavailable, st)
                 else (case tb_encode env reads of
                         None \<Rightarrow> (Err CUnavailable, st)
                       | Some raw \<Rightarrow>
                           if \<not> snd (tb_authorized env) then (Err CUnauthorized, st)
                           else if \<not> snd (tb_current env) then (Err CConflict, st)
                           else (case write_atomic (tb_write env) (tc_dir st) (account_key digest) raw of
                                   (False, dir) \<Rightarrow>
                                     (Err CUnavailable,
                                      st\<lparr>tc_dir := dir, tc_reads := remove_key (account_key digest) (tc_reads st)\<rparr>)
                                 | (True, dir) \<Rightarrow>
                                     (let st = cache_reads (st\<lparr>tc_dir := dir\<rparr>) (account_key digest) reads in
                                      (Ok (tab_snapshot_of st reads alive), st))))))"

section \<open>The store\<close>

record tab_store =
  to_state :: tab_state
  to_closed :: bool

definition tab_open :: "tab_env \<Rightarrow> bool option \<Rightarrow> private_dir \<Rightarrow> (completion_error, tab_store) result" where
  \<comment> \<open>the lock attempt: an error, contended, or taken\<close>
  "tab_open env lock dir =
     (case lock of
        None \<Rightarrow> Err CUnavailable
      | Some False \<Rightarrow> Err CBusy
      | Some True \<Rightarrow>
          and_then (load env dir EVENTS_FILE)
            (\<lambda>ledger. if valid_rows (tb_parse env) ledger
               then Ok \<lparr>to_state = \<lparr>tc_dir = dir, tc_storage_failed = False, tc_ledger = ledger, tc_reads = []\<rparr>,
                        to_closed = False\<rparr>
               else Err CUnavailable))"

text \<open>\<open>admitted\<close>: the semaphore's answer; the record's consumer waits for it, the readers do not.\<close>

definition execute ::
  "(tab_state \<Rightarrow> (completion_error, 'a) result \<times> tab_state) \<Rightarrow> bool \<Rightarrow> tab_store \<Rightarrow> (completion_error, 'a) result \<times> tab_store" where
  "execute work admitted s =
     (if \<not> admitted then (Err CBusy, s)
      else if to_closed s then (Err CUnavailable, s)
      else case work (to_state s) of (res, st) \<Rightarrow> (res, s\<lparr>to_state := st\<rparr>))"

definition store_record ::
  "tab_env \<Rightarrow> bool \<Rightarrow> tab_store \<Rightarrow> session_identity \<Rightarrow> string \<Rightarrow> string \<Rightarrow> (completion_error, unit) result \<times> tab_store" where
  \<comment> \<open>the fields of the hub's \<open>CompletionEvent\<close>\<close>
  "store_record env admitted s session event_id completed_at =
     execute (\<lambda>st. tab_record env st
       \<lparr>tv_session = session, tv_event_id = event_id, tv_completed_at = completed_at\<rparr>) admitted s"

definition store_get ::
  "tab_env \<Rightarrow> bool \<Rightarrow> bool \<Rightarrow> tab_store \<Rightarrow> string \<Rightarrow> session_identity set \<Rightarrow> (completion_error, tab_snapshot) result \<times> tab_store" where
  \<comment> \<open>\<open>free\<close>: the state's lock can be taken without waiting\<close>
  "store_get env free admitted s digest alive =
     (if \<not> fst (tb_authorized env) then (Err CUnauthorized, s)
      else if to_closed s then (Err CUnavailable, s)
      else if free \<and> tc_storage_failed (to_state s) then (Err CUnavailable, s)
      else case (if free then map_of (tc_reads (to_state s)) (account_key digest) else None) of
        Some reads \<Rightarrow> (Ok (tab_snapshot_of (to_state s) reads alive), s)
      | None \<Rightarrow>
          execute (\<lambda>st.
            if \<not> snd (tb_authorized env) then (Err CUnauthorized, st)
            else if tc_storage_failed st then (Err CUnavailable, st)
            else case account env st (account_key digest) of
              (Inl e, st) \<Rightarrow> (Err e, st)
            | (Inr reads, st) \<Rightarrow> (Ok (tab_snapshot_of st reads alive), st)) admitted s)"

definition store_acknowledge ::
  "tab_env \<Rightarrow> bool \<Rightarrow> tab_store \<Rightarrow> string \<Rightarrow> session_identity \<Rightarrow> string \<Rightarrow> session_identity set \<Rightarrow>
    (completion_error, tab_snapshot) result \<times> tab_store" where
  "store_acknowledge env admitted s digest session event_id alive =
     (if si_created_at session < 1 \<or> \<not> validate_session_id (si_id session) \<or> length event_id \<noteq> 64 \<or>
         \<not> list_all is_ascii_hexdigit event_id
      then (Err CInvalid, s)
      else execute (\<lambda>st. tab_acknowledge env st digest session event_id alive) admitted s)"

definition store_shutdown :: "tab_store \<Rightarrow> tab_store" where
  "store_shutdown s = s\<lparr>to_closed := True\<rparr>"

section \<open>Coherence of the caches with the files\<close>

definition holds :: "(bytes \<Rightarrow> rows option) \<Rightarrow> private_dir \<Rightarrow> string \<Rightarrow> rows \<Rightarrow> bool" where
  "holds dec dir name v = (case dir name of None \<Rightarrow> v = rows_default | Some raw \<Rightarrow> dec raw = Some v)"

definition coherent :: "(bytes \<Rightarrow> rows option) \<Rightarrow> (string \<Rightarrow> int option) \<Rightarrow> tab_state \<Rightarrow> bool" where
  "coherent dec parse st \<longleftrightarrow>
     (\<not> tc_storage_failed st \<longrightarrow> holds dec (tc_dir st) EVENTS_FILE (tc_ledger st) \<and> valid_rows parse (tc_ledger st)) \<and>
     wf_map (tc_reads st) \<and> length (tc_reads st) \<le> CACHE_ACCOUNTS \<and>
     (\<forall>e \<in> set (tc_reads st). fst e \<noteq> EVENTS_FILE \<and> holds dec (tc_dir st) (fst e) (snd e))"

definition codec_law :: "(bytes \<Rightarrow> rows option) \<Rightarrow> tab_env \<Rightarrow> bool" where
  \<comment> \<open>one codec, which reads back what it wrote\<close>
  "codec_law dec env \<longleftrightarrow> tb_decode env = dec \<and> (\<forall>r raw. tb_encode env r = Some raw \<longrightarrow> dec raw = Some r)"

lemma load_holds: "load env dir name = Ok v \<Longrightarrow> holds (tb_decode env) dir name v"
  by (auto simp: load_def holds_def split: option.splits if_splits)

lemma read_account_holds:
  "read_account env st key = Ok v \<Longrightarrow> holds (tb_decode env) (tc_dir st) key v \<and> valid_rows (tb_parse env) v"
  by (auto simp: read_account_def and_then_Ok_iff load_holds split: if_splits)

lemma holds_upd_other: "n \<noteq> name \<Longrightarrow> holds dec (dir(name := w)) n v = holds dec dir n v"
  by (simp add: holds_def)

lemma write_atomic_other:
  "write_atomic w dir name raw = (ok, dir') \<Longrightarrow> n \<noteq> name \<Longrightarrow> holds dec dir' n v = holds dec dir n v"
  by (cases w) (auto simp: write_atomic_def holds_upd_other split: if_splits)

lemma account_key_not_events: "length digest = 64 \<Longrightarrow> account_key digest \<noteq> EVENTS_FILE"
proof
  assume "length digest = 64" and "account_key digest = EVENTS_FILE"
  then have "length (account_key digest) = length EVENTS_FILE" by simp
  with \<open>length digest = 64\<close> show False by (simp add: account_key_def EVENTS_FILE_def)
qed

lemma cache_reads_coherent:
  assumes "coherent dec parse st" and "key \<noteq> EVENTS_FILE" and "holds dec (tc_dir st) key v"
  shows "coherent dec parse (cache_reads st key v)"
proof -
  let ?r = "remove_key key (tc_reads st)"
  have len: "length ?r \<le> CACHE_ACCOUNTS" and wf: "wf_map ?r"
    using assms(1) length_remove_key_le [of key "tc_reads st"] by (auto simp: coherent_def simp del: length_remove_key_le)
  have sub: "set (drop_oldest CACHE_ACCOUNTS ?r) \<subseteq> set ?r" by (rule set_drop_oldest)
  have "wf_map (drop_oldest CACHE_ACCOUNTS ?r @ [(key, v)])"
    using wf sub distinct_map_drop_oldest [of fst ?r CACHE_ACCOUNTS] by (auto simp: wf_map_def keys_def remove_key_def)
  moreover have "length (drop_oldest CACHE_ACCOUNTS ?r) < CACHE_ACCOUNTS"
    using len by (intro length_drop_oldest) (auto simp: CACHE_ACCOUNTS_def)
  ultimately show ?thesis
    using assms sub by (auto simp: coherent_def cache_reads_def remove_key_def)
qed

lemma coherent_drop_read:
  "coherent dec parse st \<Longrightarrow> coherent dec parse (st\<lparr>tc_reads := remove_key key (tc_reads st)\<rparr>)"
  by (auto simp: coherent_def remove_key_def intro: order_trans [OF length_filter_le])

lemma account_coherent:
  assumes "coherent dec parse st" and "tb_decode env = dec" and "key \<noteq> EVENTS_FILE"
  shows "coherent dec parse (snd (account env st key))"
  using assms read_account_holds [of env st key]
  by (auto simp: account_def split: option.split sum.split intro!: cache_reads_coherent)

lemma tab_record_coherent:
  assumes co: "coherent dec parse st" and law: "codec_law dec env" and parse: "tb_parse env = parse"
  shows "coherent dec parse (snd (tab_record env st e))"
proof -
  have dec: "tb_decode env = dec" using law by (simp add: codec_law_def)
  have reads: "\<forall>r \<in> set (tc_reads st). fst r \<noteq> EVENTS_FILE \<and> holds dec dir' (fst r) (snd r)"
    if "write_atomic (tb_write env) (tc_dir st) EVENTS_FILE raw = (ok, dir')" for raw ok dir'
    using co write_atomic_other [OF that] by (auto simp: coherent_def)
  have wrote: "holds dec dir' EVENTS_FILE r"
    if "write_atomic (tb_write env) (tc_dir st) EVENTS_FILE raw = (True, dir')" "tb_encode env r = Some raw" for raw dir' r
    using write_atomic_ok [OF that(1)] that(2) law by (simp add: holds_def codec_law_def)
  have reloaded: "holds dec dir' EVENTS_FILE r" if "load env dir' EVENTS_FILE = Inr r" for dir' r
    using load_holds [OF that] dec by simp
  show ?thesis
    using co parse reads wrote reloaded
    by (auto simp: tab_record_def Let_def coherent_def split: option.split sum.split prod.split bool.split)
qed

lemma tab_acknowledge_coherent:
  assumes co: "coherent dec parse st" and law: "codec_law dec env" and key: "account_key digest \<noteq> EVENTS_FILE"
  shows "coherent dec parse (snd (tab_acknowledge env st digest session event_id alive))"
proof -
  let ?k = "account_key digest"
  have dec: "tb_decode env = dec" using law by (simp add: codec_law_def)
  have hit: "coherent dec parse (cache_reads st ?k r)" if "read_account env st ?k = Inr r" for r
    using cache_reads_coherent [OF co key] read_account_holds [OF that] dec by simp
  have dropped: "coherent dec parse (st\<lparr>tc_dir := dir', tc_reads := remove_key ?k (tc_reads st)\<rparr>)"
    if "write_atomic (tb_write env) (tc_dir st) ?k raw = (ok, dir')" for raw ok dir'
    using coherent_drop_read [OF co, of ?k] write_atomic_other [OF that] key
    by (auto simp: coherent_def remove_key_def)
  have wrote: "coherent dec parse (cache_reads (st\<lparr>tc_dir := dir'\<rparr>) ?k r)"
    if "write_atomic (tb_write env) (tc_dir st) ?k raw = (True, dir')" "tb_encode env r = Some raw" for raw dir' r
  proof -
    have "holds dec dir' ?k r" using write_atomic_ok [OF that(1)] that(2) law by (simp add: holds_def codec_law_def)
    then have "coherent dec parse (cache_reads (st\<lparr>tc_dir := dir', tc_reads := remove_key ?k (tc_reads st)\<rparr>) ?k r)"
      by (intro cache_reads_coherent [OF dropped [OF that(1)] key]) simp
    moreover have "cache_reads (st\<lparr>tc_dir := dir', tc_reads := remove_key ?k (tc_reads st)\<rparr>) ?k r =
        cache_reads (st\<lparr>tc_dir := dir'\<rparr>) ?k r"
      by (simp add: cache_reads_def remove_key_def)
    ultimately show ?thesis by simp
  qed
  show ?thesis
    using co hit dropped wrote
    by (auto simp: tab_acknowledge_def Let_def split: option.split sum.split prod.split bool.split)
qed

inductive tab_step :: "(bytes \<Rightarrow> rows option) \<Rightarrow> (string \<Rightarrow> int option) \<Rightarrow> tab_store \<Rightarrow> tab_store \<Rightarrow> bool"
  for dec parse where
  tab_step_record:
    "codec_law dec env \<Longrightarrow> tb_parse env = parse \<Longrightarrow>
     tab_step dec parse s (snd (store_record env admitted s session event_id completed_at))"
| tab_step_get:
    "codec_law dec env \<Longrightarrow> length digest = 64 \<Longrightarrow> tab_step dec parse s (snd (store_get env free admitted s digest alive))"
| tab_step_acknowledge:
    "codec_law dec env \<Longrightarrow> length digest = 64 \<Longrightarrow>
     tab_step dec parse s (snd (store_acknowledge env admitted s digest session event_id alive))"
| tab_step_shutdown: "tab_step dec parse s (store_shutdown s)"

lemma execute_keeps:
  assumes "P (to_state s)" and "\<And>st. P st \<Longrightarrow> P (snd (work st))"
  shows "P (to_state (snd (execute work admitted s)))"
  using assms(1) assms(2) [OF assms(1)] by (auto simp: execute_def split: prod.split)

lemma tab_step_coherent [keeps]:
  assumes "tab_step dec parse s s'" and co: "coherent dec parse (to_state s)"
  shows "coherent dec parse (to_state s')"
  using assms(1)
proof (cases rule: tab_step.cases)
  case (tab_step_record env admitted session event_id completed_at)
  then show ?thesis unfolding store_record_def
    by (simp add: execute_keeps [where P = "coherent dec parse", OF co] tab_record_coherent)
next
  case (tab_step_get env digest free admitted alive)
  note acc = account_coherent [OF _ _ account_key_not_events [OF tab_step_get(3)], of dec parse _ env]
  have "coherent dec parse (snd (if \<not> snd (tb_authorized env) then (Err CUnauthorized, st)
      else if tc_storage_failed st then (Err CUnavailable, st)
      else case account env st (account_key digest) of
        (Inl e, st) \<Rightarrow> (Err e, st)
      | (Inr reads, st) \<Rightarrow> (Ok (tab_snapshot_of st reads alive), st)))" if "coherent dec parse st" for st
    using acc [OF that] that tab_step_get(2) by (auto simp: codec_law_def split: prod.split sum.split)
  from execute_keeps [where P = "coherent dec parse", OF co this] show ?thesis
    using tab_step_get(1) co by (auto simp: store_get_def split: option.split)
next
  case (tab_step_acknowledge env digest admitted session event_id alive)
  then show ?thesis
    using co execute_keeps [where P = "coherent dec parse", OF co
        tab_acknowledge_coherent [OF _ tab_step_acknowledge(2) account_key_not_events [OF tab_step_acknowledge(3)]]]
    by (auto simp: store_acknowledge_def)
next
  case tab_step_shutdown
  then show ?thesis using co by (simp add: store_shutdown_def)
qed

interpretation receipts: step_invariant "tab_step dec parse" "\<lambda>s. coherent dec parse (to_state s)"
  for dec parse
  by unfold_locales (rule tab_step_coherent)

lemma tab_open_coherent:
  assumes "tab_open env lock dir = Ok s" and "tb_decode env = dec" and "tb_parse env = parse"
  shows "coherent dec parse (to_state s)"
  using assms load_holds [of env dir EVENTS_FILE]
  by (auto simp: tab_open_def coherent_def and_then_Ok_iff split: option.splits bool.splits if_splits)

lemma tab_run_coherent:
  assumes "(tab_step dec parse)\<^sup>*\<^sup>* s0 s" and "tab_open env lock dir = Ok s0" and "tb_decode env = dec"
    and "tb_parse env = parse"
  shows "coherent dec parse (to_state s)"
  using receipts.run_keeps [OF assms(1)] tab_open_coherent [OF assms(2-4)] by blast

lemma snapshot_cache [simp]:
  "tab_snapshot_of (cache_reads st k v) r a = tab_snapshot_of st r a"
  "tab_snapshot_of (st\<lparr>tc_dir := d\<rparr>) r a = tab_snapshot_of st r a"
  by (simp_all add: tab_snapshot_of_def cache_reads_def)

lemma acknowledge_Ok:
  assumes "tab_acknowledge env st digest session event_id alive = (Ok snap, st')"
    and "read_account env st (account_key digest) = Ok reads"
    and "find (\<lambda>e. tv_session e = session \<and> tv_event_id e = event_id) (rw_events (tc_ledger st)) = Some event"
    and "reads' = (if event \<in> set (rw_events reads) then reads else
      \<lparr>rw_revision = rw_revision reads + 1, rw_events = put_event event
        (filter (\<lambda>e. tv_session e \<in> alive \<and> tv_session e \<noteq> tv_session event) (rw_events reads))\<rparr>)"
  shows "snap = tab_snapshot_of st reads' alive"
proof (cases "event \<in> set (rw_events reads)")
  case True
  then show ?thesis using assms by (auto simp: tab_acknowledge_def Let_def split: if_splits)
next
  case False
  then have r: "reads' = \<lparr>rw_revision = rw_revision reads + 1, rw_events = put_event event
        (filter (\<lambda>e. tv_session e \<in> alive \<and> tv_session e \<noteq> tv_session event) (rw_events reads))\<rparr>"
    using assms(4) by simp
  show ?thesis
    using assms(1) unfolding tab_acknowledge_def assms(2,3) sum.case option.case Let_def r [symmetric]
    using False by (auto split: if_splits option.splits prod.splits bool.splits)
qed

section \<open>Properties\<close>

text \<open>
  C34: the receipts in memory are never ahead of or behind their files while the store is usable.
  After any run of records, reads, acknowledgements and shutdown, whatever the atomic writes
  reported, also a failure after the rename, either the store refuses every transaction or its
  ledger is the content of the event file and satisfies the row limits; and every cached account
  receipt, at most 16 of them, is the content of that account's file.
\<close>

theorem receipts_coherent:
  assumes "tab_open env lock dir = Ok s0" and "codec_law dec env" and "(tab_step dec (tb_parse env))\<^sup>*\<^sup>* s0 s"
  shows "(tc_storage_failed (to_state s) \<or>
      holds dec (tc_dir (to_state s)) EVENTS_FILE (tc_ledger (to_state s)) \<and> valid_rows (tb_parse env) (tc_ledger (to_state s))) \<and>
    length (tc_reads (to_state s)) \<le> CACHE_ACCOUNTS \<and>
    list_all (\<lambda>e. holds dec (tc_dir (to_state s)) (fst e) (snd e)) (tc_reads (to_state s))"
  using tab_run_coherent [OF assms(3,1) _ refl] assms(2)
  by (auto simp: coherent_def list_all_iff codec_law_def)

definition sample_tab_env :: "write_result \<Rightarrow> tab_env" where
  "sample_tab_env w = \<lparr>tb_decode = (\<lambda>_. Some rows_default), tb_encode = (\<lambda>r. if r = rows_default then Some ''{}'' else None),
     tb_parse = (\<lambda>_. Some 0), tb_readable = (\<lambda>_. True), tb_write = w, tb_authorized = (True, True), tb_current = (True, True)\<rparr>"

definition sample_tab_store :: tab_store where
  "sample_tab_store = \<lparr>to_state = \<lparr>tc_dir = Map.empty, tc_storage_failed = False, tc_ledger = rows_default, tc_reads = []\<rparr>,
     to_closed = False\<rparr>"

lemma sample_tab_opened: "tab_open (sample_tab_env w) (Some True) Map.empty = Ok sample_tab_store"
  by (simp add: tab_open_def load_def sample_tab_env_def sample_tab_store_def valid_rows_def rows_default_def limits)

theorem receipts_coherent_witness:
  "length (tc_reads (to_state (snd (store_get (sample_tab_env WriteOk) True True sample_tab_store (replicate 64 CHR ''a'') {})))) \<le> CACHE_ACCOUNTS"
proof -
  have law: "codec_law (\<lambda>_. Some rows_default) (sample_tab_env WriteOk)"
    by (auto simp: codec_law_def sample_tab_env_def split: if_splits)
  have step: "tab_step (\<lambda>_. Some rows_default) (tb_parse (sample_tab_env WriteOk)) sample_tab_store
      (snd (store_get (sample_tab_env WriteOk) True True sample_tab_store (replicate 64 CHR ''a'') {}))"
    using law by (intro tab_step_get) simp_all
  show ?thesis using receipts_coherent [OF sample_tab_opened law r_into_rtranclp [of "tab_step _ _", OF step]] by blast
qed

text \<open>
  Acknowledging an event marks that event read for the account and no other. In a reachable
  usable store, the returned snapshot lists exactly the live sessions' ledger events in order, each
  unread unless the account's file already had it or it is the acknowledged one, as long as the
  account's file is not full.
\<close>

lemma acknowledge_marks_one:
  assumes "tab_open env0 lock dir = Ok s0" and "(tab_step (tb_decode env0) (tb_parse env0))\<^sup>*\<^sup>* s0 s"
    and "tab_acknowledge env (to_state s) digest session event_id alive = (Ok snap, st')"
    and "read_account env (to_state s) (account_key digest) = Ok reads" and "length (rw_events reads) < MAX_ENTRIES"
  shows "tp_entries snap =
    map (\<lambda>e. \<lparr>tn_event = e, tn_unread = (\<not> (is_read reads e \<or> tv_session e = session \<and> tv_event_id e = event_id))\<rparr>)
      (filter (\<lambda>e. tv_session e \<in> alive) (rw_events (tc_ledger (to_state s))))"
proof -
  let ?L = "rw_events (tc_ledger (to_state s))"
  have usable: "\<not> tc_storage_failed (to_state s)" using assms(3) by (auto simp: tab_acknowledge_def)
  have dis: "distinct (map tv_session ?L)"
    using tab_run_coherent [OF assms(2,1) refl refl] usable by (simp add: coherent_def valid_rows_def)
  obtain event where ev: "find (\<lambda>e. tv_session e = session \<and> tv_event_id e = event_id) ?L = Some event"
    using assms(3) usable by (auto simp: tab_acknowledge_def split: if_splits option.splits)
  then have event: "event \<in> set ?L" "tv_session event = session" "tv_event_id event = event_id"
    by (auto simp: find_Some_iff)
  have same: "e = event" if "e \<in> set ?L" "tv_session e = session" for e
    using dis that event by (auto simp: distinct_map inj_on_def)
  define reads' where "reads' = (if event \<in> set (rw_events reads) then reads else
      \<lparr>rw_revision = rw_revision reads + 1, rw_events = put_event event
        (filter (\<lambda>e. tv_session e \<in> alive \<and> tv_session e \<noteq> tv_session event) (rw_events reads))\<rparr>)"
  have snap: "snap = tab_snapshot_of (to_state s) reads' alive"
    by (rule acknowledge_Ok [OF assms(3,4) ev reads'_def])
  have short: "length (filter P (rw_events reads)) \<noteq> MAX_ENTRIES" for P
    using assms(5) length_filter_le [of P "rw_events reads"] by linarith
  have kept: "r \<in> set (rw_events reads') \<longleftrightarrow> r \<in> set (rw_events reads)"
    if "tv_session r \<in> alive" "tv_session r \<noteq> session" for r
    using that event(2) short by (auto simp: reads'_def put_event_def drop_oldest_def)
  have put: "event \<in> set (rw_events reads')" by (simp add: reads'_def put_event_def)
  have "is_read reads' e \<longleftrightarrow> is_read reads e \<or> tv_session e = session \<and> tv_event_id e = event_id"
    if "e \<in> set ?L" "tv_session e \<in> alive" for e
  proof (cases "tv_session e = session")
    case True
    then have "e = event" by (rule same [OF that(1)])
    then show ?thesis using put event by (auto simp: is_read_def list_ex_iff)
  next
    case False
    then show ?thesis using kept that(2) by (fastforce simp: is_read_def list_ex_iff)
  qed
  then show ?thesis by (simp add: snap tab_snapshot_of_def)
qed

definition sample_tab_event :: tab_event where
  "sample_tab_event = \<lparr>tv_session = \<lparr>si_id = ''$1'', si_created_at = 42\<rparr>, tv_event_id = replicate 64 CHR ''a'',
     tv_completed_at = ''now''\<rparr>"

definition sample_rows :: rows where
  "sample_rows = \<lparr>rw_revision = 1, rw_events = [sample_tab_event]\<rparr>"

definition sample_ack_env :: tab_env where
  "sample_ack_env = (sample_tab_env WriteOk)\<lparr>tb_decode := (\<lambda>_. Some sample_rows), tb_encode := (\<lambda>_. Some ''{}'')\<rparr>"

definition sample_ack_store :: tab_store where
  "sample_ack_store = \<lparr>to_state = \<lparr>tc_dir = [EVENTS_FILE \<mapsto> ''{}''], tc_storage_failed = False, tc_ledger = sample_rows, tc_reads = []\<rparr>,
     to_closed = False\<rparr>"

lemma sample_rows_valid: "valid_rows (\<lambda>_. Some 0) sample_rows"
  by (simp add: valid_rows_def sample_rows_def sample_tab_event_def tab_event_valid_def validate_session_id_def
      ascii_defs list_all_iff limits)

lemma sample_ack_opened: "tab_open sample_ack_env (Some True) [EVENTS_FILE \<mapsto> ''{}''] = Ok sample_ack_store"
  using sample_rows_valid
  by (simp add: tab_open_def load_def sample_ack_env_def sample_tab_env_def sample_ack_store_def limits)

end
