(* ===== verification/Json.thy ===== *)
theory Json
  imports Prelude
begin

text \<open>
  Parsed JSON documents and the decoding conventions the gateway's types share: the visitors and
  derived decoders that refuse unknown and repeated fields and take \<open>null\<close> for a missing one. The
  parser from bytes is an argument where it is used.
\<close>

text \<open>
  The derived decoders reject unknown and duplicate fields and take a
  missing field for \<open>null\<close>; \<open>Object\<close> refuses everything but an object.
\<close>

datatype json = JNull | JBool bool | JInt int | JFloat | JStr string | JArr "json list" | JObj "(string \<times> json) list"

definition object_fields :: "string list \<Rightarrow> json \<Rightarrow> (string \<times> json) list option" where
  "object_fields known j =
     (case j of JObj fs \<Rightarrow> if distinct (keys fs) \<and> list_all (\<lambda>k. k \<in> set known) (keys fs) then Some fs else None | _ \<Rightarrow> None)"

definition field :: "(string \<times> json) list \<Rightarrow> string \<Rightarrow> json" where
  "field fs k = (case map_of fs k of None \<Rightarrow> JNull | Some j \<Rightarrow> j)"

definition nullable :: "(json \<Rightarrow> 'a option) \<Rightarrow> json \<Rightarrow> 'a option option" where
  "nullable f j = (if j = JNull then Some None else map_option Some (f j))"

definition json_string :: "json \<Rightarrow> string option" where
  "json_string j = (case j of JStr s \<Rightarrow> Some s | _ \<Rightarrow> None)"

definition json_i64 :: "json \<Rightarrow> int option" where
  "json_i64 j = (case j of JInt i \<Rightarrow> if is_i64 i then Some i else None | _ \<Rightarrow> None)"

lemma object_fields_JObj [simp]:
  "object_fields known (JObj fs) = (if distinct (keys fs) \<and> list_all (\<lambda>k. k \<in> set known) (keys fs) then Some fs else None)"
  by (simp add: object_fields_def)

lemma nullable_simps [simp]:
  "nullable f JNull = Some None" "nullable json_string (JStr s) = Some (Some s)"
  by (simp_all add: nullable_def json_string_def)

lemma nullable_JInt [simp]: "is_i64 i \<Longrightarrow> nullable json_i64 (JInt i) = Some (Some i)"
  by (simp add: nullable_def json_i64_def)

end
