(* ===== verification/Push_State.thy ===== *)
theory Push_State
  imports Workspace_Store Json "HOL-Library.List_Lexorder" "HOL-Library.Char_ord"
begin

text \<open>
  The private push-subscription store of \<open>hmux-gateway/src/push_state.rs\<close>: the endpoint allowlist,
  canonical identifiers, and the transactions that replace the one state file. The base64 and
  elliptic-curve codecs, the URI parser, SHA-256 and the JSON serialiser are arguments; the file is
  explicit, so that what a failed write left behind is part of the state.
\<close>

section \<open>Validation\<close>

definition DISK_BYTES :: nat where "DISK_BYTES = 2097152"
definition MAX_SUBSCRIPTIONS :: nat where "MAX_SUBSCRIPTIONS = 256"

lemmas push_limits [limits] = DISK_BYTES_def MAX_SUBSCRIPTIONS_def

datatype push_error = PInvalid | PUnauthorized | PBusy | PUnavailable

record subscription =
  sb_endpoint :: string
  sb_auth :: string
  sb_p256dh :: string

record uri =
  ur_scheme :: "string option"
  ur_authority :: "string option"
  ur_port :: bool

record codecs =
  cd_decode :: "string \<Rightarrow> bytes option" \<comment> \<open>URL-safe base64 without padding\<close>
  cd_encode :: "bytes \<Rightarrow> string"
  cd_is_point :: "bytes \<Rightarrow> bool" \<comment> \<open>an SEC1 point of P-256\<close>
  cd_public_of :: "bytes \<Rightarrow> bytes option" \<comment> \<open>the uncompressed public key of a scalar\<close>
  cd_uri :: "string \<Rightarrow> uri option"

definition decode_canonical :: "codecs \<Rightarrow> string \<Rightarrow> nat \<Rightarrow> (push_error, bytes) result" where
  "decode_canonical c v n =
     (if (n * 4 + 2) div 3 < length v then Err PInvalid
      else case cd_decode c v of
        None \<Rightarrow> Err PInvalid
      | Some d \<Rightarrow> if length d \<noteq> n \<or> cd_encode c d \<noteq> v then Err PInvalid else Ok d)"

definition valid_id :: "codecs \<Rightarrow> string \<Rightarrow> bool" where
  "valid_id c v = is_Ok (decode_canonical c v 32)"

fun percent_ok :: "string \<Rightarrow> bool" where
  \<comment> \<open>every percent sign is followed by two hexadecimal digits\<close>
  "percent_ok [] = True"
| "percent_ok (b # bs) =
     ((b = CHR ''%'' \<longrightarrow>
        (case bs of x # y # _ \<Rightarrow> is_ascii_hexdigit x \<and> is_ascii_hexdigit y | _ \<Rightarrow> False)) \<and> percent_ok bs)"

definition to_ascii_lowercase :: "char \<Rightarrow> char" where
  "to_ascii_lowercase c = (if is_ascii_uppercase c then char_of (code c + 32) else c)"

definition ends_with :: "string \<Rightarrow> string \<Rightarrow> bool" where
  "ends_with s suffix = (length suffix \<le> length s \<and> drop (length s - length suffix) s = suffix)"

definition starts_with :: "string \<Rightarrow> string \<Rightarrow> bool" where
  "starts_with s pre = (take (length pre) s = pre)"

definition allowed_host :: "string \<Rightarrow> bool" where
  "allowed_host host \<longleftrightarrow>
     host = ''fcm.googleapis.com'' \<or> host = ''web.push.apple.com'' \<or>
     host = ''updates.push.services.mozilla.com'' \<or>
     ends_with host ''.push.services.mozilla.com'' \<or> ends_with host ''.notify.windows.com''"

definition endpoint_byte :: "char \<Rightarrow> bool" where
  "endpoint_byte b \<longleftrightarrow>
     code b < 128 \<and> \<not> (code b \<le> 0x20 \<or> code b = 0x7F \<or> b = CHR 0x5C \<or> b = CHR ''#'')"

definition validate_endpoint :: "codecs \<Rightarrow> string \<Rightarrow> (push_error, uri) result" where
  "validate_endpoint c endpoint =
     (if 2048 < length endpoint \<or> \<not> starts_with endpoint ''https://'' \<or> \<not> list_all endpoint_byte endpoint
      then Err PInvalid
      else if \<not> percent_ok endpoint then Err PInvalid
      else
        let authority = takeWhile (\<lambda>b. b \<noteq> CHR ''/'' \<and> b \<noteq> CHR ''?'') (drop 8 endpoint) in
        if authority = [] \<or> list_ex (\<lambda>b. b \<in> {CHR ''@'', CHR '':'', CHR ''%''}) authority then Err PInvalid
        else case cd_uri c endpoint of
          None \<Rightarrow> Err PInvalid
        | Some u \<Rightarrow>
            if ur_scheme u \<noteq> Some ''https'' \<or> ur_authority u \<noteq> Some authority \<or> ur_port u then Err PInvalid
            else if \<not> allowed_host (map to_ascii_lowercase authority) then Err PInvalid
            else Ok u)"

definition validate_subscription :: "codecs \<Rightarrow> subscription \<Rightarrow> (push_error, unit) result" where
  "validate_subscription c s =
     and_then (validate_endpoint c (sb_endpoint s)) (\<lambda>_.
     and_then (decode_canonical c (sb_auth s) 16) (\<lambda>_.
     and_then (decode_canonical c (sb_p256dh s) 65) (\<lambda>point.
       if hd point \<noteq> CHR 0x04 \<or> \<not> cd_is_point c point then Err PInvalid else Ok ())))"

definition validate_keys :: "codecs \<Rightarrow> string \<Rightarrow> string \<Rightarrow> (push_error, unit) result" where
  "validate_keys c public private =
     and_then (decode_canonical c private 32) (\<lambda>scalar.
     case cd_public_of c scalar of
       None \<Rightarrow> Err PInvalid
     | Some expected \<Rightarrow>
         and_then (decode_canonical c public 65) (\<lambda>encoded.
           if hd encoded \<noteq> CHR 0x04 \<or> expected \<noteq> encoded then Err PInvalid else Ok ()))"

section \<open>Ordered maps\<close>

text \<open>A \<open>BTreeMap\<close> is the list of its entries in strictly increasing key order.\<close>

fun btree_insert :: "'k::linorder \<Rightarrow> 'v \<Rightarrow> ('k \<times> 'v) list \<Rightarrow> ('k \<times> 'v) list" where
  "btree_insert k v [] = [(k, v)]"
| "btree_insert k v ((k', v') # m) =
     (if k < k' then (k, v) # (k', v') # m
      else if k = k' then (k, v) # m
      else (k', v') # btree_insert k v m)"

definition btree :: "('k::linorder \<times> 'v) list \<Rightarrow> bool" where
  "btree m = sorted_wrt (<) (keys m)"

type_synonym subscriptions = "(string \<times> subscription) list"

text \<open>The visitor of the stored map: the cap and the key are checked before the value is kept.\<close>

definition keys_of_json :: "json \<Rightarrow> (string \<times> string) option" where
  "keys_of_json j =
     Option.bind (object_fields [''auth'', ''p256dh''] j) (\<lambda>fs.
     Option.bind (nullable json_string (field fs ''auth'')) (\<lambda>auth.
     Option.bind (nullable json_string (field fs ''p256dh'')) (\<lambda>p256dh.
       Some (case auth of None \<Rightarrow> [] | Some v \<Rightarrow> v, case p256dh of None \<Rightarrow> [] | Some v \<Rightarrow> v))))"

definition subscription_of_json :: "json \<Rightarrow> subscription option" where
  "subscription_of_json j =
     Option.bind (object_fields [''endpoint'', ''keys''] j) (\<lambda>fs.
     Option.bind (nullable json_string (field fs ''endpoint'')) (\<lambda>endpoint.
     Option.bind (map_of fs ''keys'') (\<lambda>kj.
     Option.bind (keys_of_json kj) (\<lambda>ks.
       Some \<lparr>sb_endpoint = (case endpoint of None \<Rightarrow> [] | Some v \<Rightarrow> v), sb_auth = fst ks, sb_p256dh = snd ks\<rparr>))))"

fun subs_visit :: "codecs \<Rightarrow> subscriptions \<Rightarrow> (string \<times> json) list \<Rightarrow> (unit, subscriptions) result" where
  "subs_visit c out [] = Ok out"
| "subs_visit c out ((k, j) # entries) =
     (if length out = MAX_SUBSCRIPTIONS \<or> \<not> valid_id c k \<or> map_of out k \<noteq> None then Err ()
      else case subscription_of_json j of
        None \<Rightarrow> Err ()
      | Some s \<Rightarrow>
          (case validate_subscription c s of
             Inl _ \<Rightarrow> Err ()
           | Inr _ \<Rightarrow> subs_visit c (btree_insert k s out) entries))"

definition subs_of_json :: "codecs \<Rightarrow> json \<Rightarrow> subscriptions option" where
  "subs_of_json c j =
     (case j of JObj es \<Rightarrow> (case subs_visit c [] es of Inl _ \<Rightarrow> None | Inr m \<Rightarrow> Some m) | _ \<Rightarrow> None)"

record disk_state =
  ds_version :: "int option"
  ds_public :: "string option"
  ds_private :: "string option"
  ds_subs :: subscriptions

definition disk_state_of_json :: "codecs \<Rightarrow> json \<Rightarrow> disk_state option" where
  "disk_state_of_json c j =
     Option.bind (object_fields [''version'', ''public_key'', ''private_key'', ''subscriptions''] j) (\<lambda>fs.
     Option.bind (nullable json_i64 (field fs ''version'')) (\<lambda>version.
     Option.bind (nullable json_string (field fs ''public_key'')) (\<lambda>public.
     Option.bind (nullable json_string (field fs ''private_key'')) (\<lambda>private.
     Option.bind (nullable (subs_of_json c) (field fs ''subscriptions'')) (\<lambda>subs.
       Some \<lparr>ds_version = version, ds_public = public, ds_private = private,
         ds_subs = (case subs of None \<Rightarrow> [] | Some m \<Rightarrow> m)\<rparr>)))))"

text \<open>What is serialised.\<close>

definition subscription_json :: "subscription \<Rightarrow> json" where
  "subscription_json s =
     JObj [(''endpoint'', JStr (sb_endpoint s)),
           (''keys'', JObj [(''auth'', JStr (sb_auth s)), (''p256dh'', JStr (sb_p256dh s))])]"

definition output_json :: "string \<Rightarrow> string \<Rightarrow> subscriptions \<Rightarrow> json" where
  "output_json public private subs =
     JObj [(''version'', JInt 1), (''public_key'', JStr public), (''private_key'', JStr private),
           (''subscriptions'', JObj (map (\<lambda>e. (fst e, subscription_json (snd e))) subs))]"

section \<open>The state and its transactions\<close>

record push_state =
  ps_file :: "bytes option"
  ps_expected :: "bytes option"
  ps_public :: string
  ps_private :: string
  ps_subs :: subscriptions
  ps_failed :: bool

text \<open>The size-limited writer under the serialiser, which hands it the output in pieces.\<close>

fun limited_write :: "bytes \<Rightarrow> bytes list \<Rightarrow> (unit, bytes) result" where
  "limited_write buf [] = Ok buf"
| "limited_write buf (b # bs) =
     (if DISK_BYTES - length buf < length b then Err () else limited_write (buf @ b) bs)"

record save_env =
  sv_json :: "json \<Rightarrow> bytes list option"
  sv_digest :: "bytes \<Rightarrow> bytes"
  sv_readable :: bool
  sv_write :: write_result

definition push_read :: "save_env \<Rightarrow> push_state \<Rightarrow> (unit, bytes option) result" where
  "push_read env st =
     (case ps_file st of
        None \<Rightarrow> Ok None
      | Some raw \<Rightarrow> if sv_readable env \<and> length raw \<le> DISK_BYTES then Ok (Some raw) else Err ())"

definition serialised :: "save_env \<Rightarrow> push_state \<Rightarrow> subscriptions \<Rightarrow> (unit, bytes) result" where
  "serialised env st subs =
     (case sv_json env (output_json (ps_public st) (ps_private st) subs) of
        None \<Rightarrow> Err ()
      | Some pieces \<Rightarrow> limited_write [] pieces)"

definition save ::
  "save_env \<Rightarrow> push_state \<Rightarrow> subscriptions \<Rightarrow> (push_error, unit) result \<Rightarrow> (push_error, unit) result \<times> push_state" where
  "save env st subs check =
     (if ps_failed st then (Err PUnavailable, st)
      else case serialised env st subs of
        Inl _ \<Rightarrow> (Err PUnavailable, st)
      | Inr raw \<Rightarrow>
          (case push_read env st of
             Inl _ \<Rightarrow> (Err PUnavailable, st\<lparr>ps_failed := True\<rparr>)
           | Inr current \<Rightarrow>
               if map_option (sv_digest env) current \<noteq> ps_expected st
               then (Err PUnavailable, st\<lparr>ps_failed := True\<rparr>)
               else (case check of
                       Inl e \<Rightarrow> (Err e, st)
                     | Inr _ \<Rightarrow>
                         (case sv_write env of
                            WriteFailed renamed \<Rightarrow>
                              (Err PUnavailable,
                               st\<lparr>ps_failed := True, ps_file := (if renamed then Some raw else ps_file st)\<rparr>)
                          | WriteOk \<Rightarrow>
                              (Ok (), st\<lparr>ps_file := Some raw, ps_expected := Some (sv_digest env raw), ps_subs := subs\<rparr>)))))"

definition push_open ::
  "codecs \<Rightarrow> save_env \<Rightarrow> (bytes \<Rightarrow> json option) \<Rightarrow> (push_error, string \<times> string) result \<Rightarrow> bytes option \<Rightarrow>
    (push_error, push_state) result \<times> bytes option" where
  \<comment> \<open>the second component is the file afterwards: a first start writes it\<close>
  "push_open c env parse generated disk =
     (let st = \<lparr>ps_file = disk, ps_expected = None, ps_public = [], ps_private = [], ps_subs = [], ps_failed = False\<rparr> in
      case push_read env st of
        Inl _ \<Rightarrow> (Err PUnavailable, disk)
      | Inr (Some raw) \<Rightarrow>
          (case Option.bind (parse raw) (disk_state_of_json c) of
             None \<Rightarrow> (Err PUnavailable, disk)
           | Some d \<Rightarrow>
               if ds_version d \<noteq> Some 1 then (Err PUnavailable, disk)
               else (case (ds_public d, ds_private d) of
                       (Some public, Some private) \<Rightarrow>
                         if is_Ok (validate_keys c public private)
                         then (Ok (st\<lparr>ps_expected := Some (sv_digest env raw), ps_public := public,
                                   ps_private := private, ps_subs := ds_subs d\<rparr>), disk)
                         else (Err PUnavailable, disk)
                     | _ \<Rightarrow> (Err PUnavailable, disk)))
      | Inr None \<Rightarrow>
          (case generated of
             Inl e \<Rightarrow> (Err e, disk)
           | Inr (public, private) \<Rightarrow>
               (case save env (st\<lparr>ps_public := public, ps_private := private\<rparr>) [] (Ok ()) of
                  (Inl e, st) \<Rightarrow> (Err e, ps_file st)
                | (Inr _, st) \<Rightarrow> (Ok st, ps_file st))))"

text \<open>
  What a transaction observes: closed and admitted before it starts, then the state of the caller
  at each check, counted in order: authorisation, the live lookup, cancellation.
\<close>

record transact_env =
  ta_open :: bool
  ta_permit :: bool
  ta_started :: bool
  ta_authorized :: "nat \<Rightarrow> bool"
  ta_live :: "nat \<Rightarrow> string \<Rightarrow> (push_error, bool) result"
  ta_stopped :: "nat \<Rightarrow> bool"

definition transact ::
  "transact_env \<Rightarrow> (push_state \<Rightarrow> (push_error, 'a) result \<times> push_state) \<Rightarrow> push_state \<Rightarrow>
    (push_error, 'a) result \<times> push_state" where
  "transact ta work st =
     (if \<not> ta_open ta then (Err PUnavailable, st)
      else if \<not> ta_permit ta then (Err PBusy, st)
      else if \<not> ta_started ta \<or> ps_failed st then (Err PUnavailable, st)
      else work st)"

definition push_authorized :: "codecs \<Rightarrow> transact_env \<Rightarrow> nat \<Rightarrow> string \<Rightarrow> (push_error, unit) result" where
  "push_authorized c ta n login = (if valid_id c login \<and> ta_authorized ta n then Ok () else Err PUnauthorized)"

definition check_live :: "transact_env \<Rightarrow> nat \<Rightarrow> string \<Rightarrow> (push_error, unit) result" where
  "check_live ta n login =
     and_then (ta_live ta n login) (\<lambda>l. if l then Ok () else Err PUnauthorized)"

fun keep_live ::
  "transact_env \<Rightarrow> string \<Rightarrow> string \<Rightarrow> subscriptions \<Rightarrow> (push_error, subscriptions) result" where
  "keep_live ta login endpoint [] = Ok []"
| "keep_live ta login endpoint ((k, old) # rest) =
     (if k \<noteq> login \<and> sb_endpoint old \<noteq> endpoint
      then and_then (ta_live ta 1 k) (\<lambda>l.
           and_then (keep_live ta login endpoint rest) (\<lambda>out. Ok (if l then (k, old) # out else out)))
      else keep_live ta login endpoint rest)"

definition subscribe_check :: "codecs \<Rightarrow> transact_env \<Rightarrow> string \<Rightarrow> (push_error, unit) result" where
  "subscribe_check c ta login =
     and_then (push_authorized c ta 3 login) (\<lambda>_.
     and_then (check_live ta 3 login) (\<lambda>_.
     and_then (push_authorized c ta 4 login) (\<lambda>_.
       if ta_stopped ta 1 then Err PUnavailable else Ok ())))"

definition subscribe_next ::
  "codecs \<Rightarrow> transact_env \<Rightarrow> string \<Rightarrow> subscription \<Rightarrow> subscriptions \<Rightarrow> (push_error, subscriptions) result" where
  "subscribe_next c ta login s subs =
     and_then (push_authorized c ta 1 login) (\<lambda>_.
     and_then (check_live ta 0 login) (\<lambda>_.
     and_then (keep_live ta login (sb_endpoint s) subs) (\<lambda>kept.
       let new_subs = btree_insert login s kept in
       if MAX_SUBSCRIPTIONS < length new_subs then Err PBusy
       else and_then (push_authorized c ta 2 login) (\<lambda>_.
            and_then (check_live ta 2 login) (\<lambda>_.
              if ta_stopped ta 0 then Err PUnavailable else Ok new_subs)))))"

definition subscribe ::
  "codecs \<Rightarrow> save_env \<Rightarrow> transact_env \<Rightarrow> string \<Rightarrow> subscription \<Rightarrow> push_state \<Rightarrow> (push_error, unit) result \<times> push_state" where
  "subscribe c env ta login s st =
     (case and_then (push_authorized c ta 0 login) (\<lambda>_. validate_subscription c s) of
        Inl e \<Rightarrow> (Err e, st)
      | Inr _ \<Rightarrow>
          transact ta (\<lambda>st.
            case subscribe_next c ta login s (ps_subs st) of
              Inl e \<Rightarrow> (Err e, st)
            | Inr new_subs \<Rightarrow> save env st new_subs (subscribe_check c ta login)) st)"

definition unsubscribe ::
  "codecs \<Rightarrow> save_env \<Rightarrow> transact_env \<Rightarrow> string \<Rightarrow> string option \<Rightarrow> push_state \<Rightarrow> (push_error, unit) result \<times> push_state" where
  \<comment> \<open>\<open>Store::remove\<close>\<close>
  "unsubscribe c env ta login guard st =
     (if \<not> valid_id c login \<or> (case guard of Some v \<Rightarrow> 2048 < length v | None \<Rightarrow> False) then (Err PInvalid, st)
      else transact ta (\<lambda>st.
        case map_of (ps_subs st) login of
          None \<Rightarrow> (Ok (), st)
        | Some old \<Rightarrow>
            if (case guard of Some v \<Rightarrow> v \<noteq> [] \<and> v \<noteq> sb_endpoint old | None \<Rightarrow> False) then (Ok (), st)
            else if ta_stopped ta 0 then (Err PUnavailable, st)
            else save env st (remove_key login (ps_subs st)) (if ta_stopped ta 1 then Err PUnavailable else Ok ())) st)"

definition current_subscription ::
  "codecs \<Rightarrow> (push_error, unit) result \<Rightarrow> bool \<Rightarrow> string \<Rightarrow> subscription \<Rightarrow> push_state \<Rightarrow> (push_error, bool) result" where
  \<comment> \<open>the outcome of the nonblocking lock, and whether the store is closed\<close>
  "current_subscription c lock closed login expected st =
     (if \<not> valid_id c login then Err PInvalid
      else and_then lock (\<lambda>_.
        if closed \<or> ps_failed st then Err PUnavailable else Ok (map_of (ps_subs st) login = Some expected)))"

record public_config =
  pc_public_key :: string
  pc_login_id :: string
  pc_enabled :: bool
  pc_endpoint :: string

definition public_config_of ::
  "codecs \<Rightarrow> transact_env \<Rightarrow> string \<Rightarrow> push_state \<Rightarrow> (push_error, public_config) result \<times> push_state" where
  "public_config_of c ta login st =
     (case push_authorized c ta 0 login of
        Inl e \<Rightarrow> (Err e, st)
      | Inr _ \<Rightarrow>
          transact ta (\<lambda>st.
            case push_authorized c ta 1 login of
              Inl e \<Rightarrow> (Err e, st)
            | Inr _ \<Rightarrow>
                (Ok \<lparr>pc_public_key = ps_public st, pc_login_id = login,
                     pc_enabled = (map_of (ps_subs st) login \<noteq> None),
                     pc_endpoint = (case map_of (ps_subs st) login of None \<Rightarrow> [] | Some s \<Rightarrow> sb_endpoint s)\<rparr>, st)) st)"

text \<open>\<open>RECORD_SIZE - HEADER_SIZE - TAG_SIZE - 1\<close> of \<open>push_crypto.rs\<close>.\<close>

definition MAX_PLAINTEXT :: nat where "MAX_PLAINTEXT = 4096 - (16 + 4 + 1 + 65) - 16 - 1"

definition delivery_check ::
  "codecs \<Rightarrow> transact_env \<Rightarrow> nat \<Rightarrow> string \<Rightarrow> subscription \<Rightarrow> push_state \<Rightarrow> (push_error, unit) result" where
  "delivery_check c ta n login expected st =
     and_then (push_authorized c ta (Suc n) login) (\<lambda>_.
       if map_of (ps_subs st) login \<noteq> Some expected then Err PUnauthorized
       else if ta_stopped ta n then Err PUnavailable else Ok ())"

definition prepare_for_delivery ::
  "codecs \<Rightarrow> transact_env \<Rightarrow> (string \<Rightarrow> string \<Rightarrow> subscription \<Rightarrow> string \<Rightarrow> string \<Rightarrow> bytes \<Rightarrow> (push_error, 'p) result) \<Rightarrow>
    string \<Rightarrow> subscription \<Rightarrow> string \<Rightarrow> bytes \<Rightarrow> push_state \<Rightarrow> (push_error, 'p) result \<times> push_state" where
  \<comment> \<open>\<open>prepare\<close> is the encryption and signing of \<open>push_crypto.rs\<close> under the stored identity\<close>
  "prepare_for_delivery c ta prepare login expected origin payload st =
     (case push_authorized c ta 0 login of
        Inl e \<Rightarrow> (Err e, st)
      | Inr _ \<Rightarrow>
          if MAX_PLAINTEXT < length payload \<or> 2048 < length origin then (Err PInvalid, st)
          else (case validate_subscription c expected of
             Inl e \<Rightarrow> (Err e, st)
           | Inr _ \<Rightarrow>
               transact ta (\<lambda>st.
                 (and_then (delivery_check c ta 0 login expected st) (\<lambda>_.
                  and_then (prepare (ps_public st) (ps_private st) expected origin login payload) (\<lambda>p.
                  and_then (delivery_check c ta 1 login expected st) (\<lambda>_. Ok p))), st)) st))"

lemma prepared_for_current:
  "prepare_for_delivery c ta prepare login expected origin payload st = (Ok p, st') \<Longrightarrow>
     st' = st \<and> map_of (ps_subs st) login = Some expected \<and> \<not> ps_failed st \<and> ta_authorized ta 2 \<and> \<not> ta_stopped ta 1"
  by (auto simp: prepare_for_delivery_def transact_def delivery_check_def push_authorized_def and_then_Ok_iff
      numeral_2_eq_2 split: sum.splits if_splits)

definition push_snapshot :: "transact_env \<Rightarrow> push_state \<Rightarrow> (push_error, subscriptions) result \<times> push_state" where
  "push_snapshot ta st = transact ta (\<lambda>st. (Ok (ps_subs st), st)) st"

definition subscription_of ::
  "codecs \<Rightarrow> transact_env \<Rightarrow> string \<Rightarrow> push_state \<Rightarrow> (push_error, subscription option) result \<times> push_state" where
  "subscription_of c ta login st =
     (if \<not> valid_id c login then (Err PInvalid, st)
      else transact ta (\<lambda>st. (Ok (map_of (ps_subs st) login), st)) st)"

section \<open>Ordered maps keep their order\<close>

lemma map_of_btree_insert [simp]: "map_of (btree_insert k v m) = (map_of m)(k \<mapsto> v)"
  by (induction k v m rule: btree_insert.induct) (auto simp: fun_eq_iff)

lemma keys_btree_insert: "set (keys (btree_insert k v m)) = insert k (set (keys m))"
  by (induction k v m rule: btree_insert.induct) (auto simp: keys_def)

lemma btree_insert_mem: "e \<in> set (btree_insert k v m) \<Longrightarrow> e = (k, v) \<or> e \<in> set m"
  by (induction k v m rule: btree_insert.induct) (auto split: if_splits)

lemma list_all_btree_insert: "P (k, v) \<Longrightarrow> list_all P m \<Longrightarrow> list_all P (btree_insert k v m)"
  by (induction k v m rule: btree_insert.induct) auto

lemma list_all_filter: "list_all P m \<Longrightarrow> list_all P (filter Q m)"
  by (induction m) auto

lemma btree_Cons: "btree ((k, v) # m) \<longleftrightarrow> (\<forall>k' \<in> set (keys m). k < k') \<and> btree m"
  by (simp add: btree_def keys_def)

lemma btree_insert_btree [simp]: "btree m \<Longrightarrow> btree (btree_insert k v m)"
  by (induction k v m rule: btree_insert.induct)
    (auto simp: btree_Cons keys_btree_insert, auto simp: btree_def keys_def)

lemma btree_filter [simp]: "btree m \<Longrightarrow> btree (filter P m)"
  by (induction m) (auto simp: btree_def keys_def)

lemma btree_wf: "btree m \<Longrightarrow> wf_map m"
  by (induction m) (auto simp: btree_def wf_map_def keys_def)

lemma btree_insert_last:
  "\<forall>k' \<in> set (keys m). k' < k \<Longrightarrow> btree_insert k v m = m @ [(k, v)]"
  by (induction k v m rule: btree_insert.induct) (auto simp: keys_def)

lemma length_btree_insert_le: "length (btree_insert k v m) \<le> Suc (length m)"
  by (induction k v m rule: btree_insert.induct) auto

section \<open>Recovery\<close>

definition entry_ok :: "codecs \<Rightarrow> string \<times> subscription \<Rightarrow> bool" where
  "entry_ok c e \<longleftrightarrow> valid_id c (fst e) \<and> validate_subscription c (snd e) = Ok ()"

definition subs_ok :: "codecs \<Rightarrow> subscriptions \<Rightarrow> bool" where
  "subs_ok c m \<longleftrightarrow> btree m \<and> length m \<le> MAX_SUBSCRIPTIONS \<and> list_all (entry_ok c) m"

lemma subs_visit_ok:
  "subs_ok c out \<Longrightarrow> subs_visit c out es = Ok m \<Longrightarrow> subs_ok c m"
proof (induction c out es rule: subs_visit.induct)
  case (2 c out k j es)
  have "subs_ok c (btree_insert k s out)" if "valid_id c k" "validate_subscription c s = Inr u" "length out < MAX_SUBSCRIPTIONS" for s u
    using "2.prems"(1) that length_btree_insert_le [of k s out]
    by (auto simp: subs_ok_def entry_ok_def intro!: list_all_btree_insert)
  then show ?case
    using 2 by (auto simp: subs_ok_def split: if_splits sum.splits option.splits)
qed simp

lemma subscription_json_read: "subscription_of_json (subscription_json s) = Some s"
  by (simp add: subscription_of_json_def subscription_json_def keys_of_json_def field_def keys_def)

lemma subs_visit_id:
  assumes "subs_ok c (out @ es)"
  shows "subs_visit c out (map (\<lambda>e. (fst e, subscription_json (snd e))) es) = Ok (out @ es)"
  using assms
proof (induction es arbitrary: out)
  case (Cons e es)
  obtain k s where e: "e = (k, s)" by force
  have ok: "entry_ok c (k, s)" and len: "length out < MAX_SUBSCRIPTIONS"
    using Cons.prems e by (auto simp: subs_ok_def)
  have less: "\<forall>k' \<in> set (keys out). k' < k"
    using Cons.prems e by (auto simp: subs_ok_def btree_def keys_def sorted_wrt_append)
  then have new: "map_of out k = None" by (auto simp: set_keys domIff)
  show ?case
    using Cons.IH [of "out @ [(k, s)]"] Cons.prems e ok len new btree_insert_last [OF less]
    by (auto simp: entry_ok_def subscription_json_read)
qed simp

lemma output_json_read:
  assumes "subs_ok c subs"
  shows "disk_state_of_json c (output_json public private subs) =
    Some \<lparr>ds_version = Some 1, ds_public = Some public, ds_private = Some private, ds_subs = subs\<rparr>"
proof -
  have "nullable (subs_of_json c) (JObj (map (\<lambda>e. (fst e, subscription_json (snd e))) subs)) = Some (Some subs)"
    using subs_visit_id [of c "[]" subs] assms by (simp add: nullable_def subs_of_json_def)
  then show ?thesis
    by (simp add: disk_state_of_json_def output_json_def field_def keys_def is_i64_def)
qed

lemma disk_state_ok: "disk_state_of_json c j = Some d \<Longrightarrow> subs_ok c (ds_subs d)"
  using subs_visit_ok [of c "[]"]
  by (auto simp: disk_state_of_json_def nullable_def subs_of_json_def subs_ok_def btree_def keys_def bind_eq_Some_conv
      split: if_splits json.splits sum.splits)

lemma limited_write_concat: "limited_write buf ps = Ok raw \<Longrightarrow> raw = buf @ concat ps \<and> (length buf \<le> DISK_BYTES \<longrightarrow> length raw \<le> DISK_BYTES)"
proof (induction ps arbitrary: buf)
  case (Cons p ps)
  then have "limited_write (buf @ p) ps = Ok raw" and "\<not> DISK_BYTES - length buf < length p"
    by (auto split: if_splits)
  then show ?case using Cons.IH [of "buf @ p"] by auto
qed simp

definition json_law :: "(bytes \<Rightarrow> json option) \<Rightarrow> (bytes \<Rightarrow> bytes) \<Rightarrow> save_env \<Rightarrow> bool" where
  \<comment> \<open>the parser reads back the document the serialiser wrote, and there is one digest\<close>
  "json_law parse dg env \<longleftrightarrow>
     sv_digest env = dg \<and> (\<forall>j pieces. sv_json env j = Some pieces \<longrightarrow> parse (concat pieces) = Some j)"

definition stored_as :: "codecs \<Rightarrow> (bytes \<Rightarrow> json option) \<Rightarrow> (bytes \<Rightarrow> bytes) \<Rightarrow> push_state \<Rightarrow> bool" where
  "stored_as c parse dg st \<longleftrightarrow>
     (\<exists>raw. ps_file st = Some raw \<and> length raw \<le> DISK_BYTES \<and> ps_expected st = Some (dg raw) \<and>
        Option.bind (parse raw) (disk_state_of_json c) =
          Some \<lparr>ds_version = Some 1, ds_public = Some (ps_public st), ds_private = Some (ps_private st), ds_subs = ps_subs st\<rparr>)"

definition push_ok :: "codecs \<Rightarrow> (bytes \<Rightarrow> json option) \<Rightarrow> (bytes \<Rightarrow> bytes) \<Rightarrow> push_state \<Rightarrow> bool" where
  "push_ok c parse dg st \<longleftrightarrow>
     subs_ok c (ps_subs st) \<and> is_Ok (validate_keys c (ps_public st) (ps_private st)) \<and>
     (ps_failed st \<or> stored_as c parse dg st)"

lemma save_ok [keeps]:
  assumes "subs_ok c subs" and law: "json_law parse dg env"
    and "subs_ok c (ps_subs st) \<and> is_Ok (validate_keys c (ps_public st) (ps_private st))"
    and "ps_failed st \<or> stored_as c parse dg st \<or> is_Ok (fst (save env st subs check))"
  shows "push_ok c parse dg (snd (save env st subs check))"
proof -
  have wrote: "stored_as c parse dg (st\<lparr>ps_file := Some raw, ps_expected := Some (sv_digest env raw), ps_subs := subs\<rparr>)"
    if "serialised env st subs = Ok raw" for raw
    using that law limited_write_concat [of "[]"] output_json_read [OF assms(1)]
    by (force simp: serialised_def stored_as_def json_law_def split: option.splits)
  show ?thesis
    using assms wrote
    by (auto simp: save_def push_ok_def split: sum.splits write_result.splits)
qed

lemma keep_live_filter:
  "keep_live ta login endpoint subs = Ok out \<Longrightarrow>
   out = filter (\<lambda>e. fst e \<noteq> login \<and> sb_endpoint (snd e) \<noteq> endpoint \<and> ta_live ta 1 (fst e) = Ok True) subs"
  by (induction ta login endpoint subs arbitrary: out rule: keep_live.induct)
    (auto simp: and_then_Ok_iff split: if_splits)

lemma subscribe_next_Ok:
  assumes "subscribe_next c ta login s subs = Ok new_subs"
  shows "new_subs = btree_insert login s
      (filter (\<lambda>e. fst e \<noteq> login \<and> sb_endpoint (snd e) \<noteq> sb_endpoint s \<and> ta_live ta 1 (fst e) = Ok True) subs) \<and>
    length new_subs \<le> MAX_SUBSCRIPTIONS \<and> valid_id c login"
  using assms keep_live_filter
  by (auto simp: subscribe_next_def Let_def and_then_Ok_iff push_authorized_def split: if_splits)

lemma subscribe_ok [keeps]:
  assumes "push_ok c parse dg st" and "json_law parse dg env"
  shows "push_ok c parse dg (snd (subscribe c env ta login s st))"
proof (cases "subscribe_next c ta login s (ps_subs st)")
  case (Inl e)
  then show ?thesis using assms(1) by (auto simp: subscribe_def transact_def split: sum.split)
next
  case (Inr new_subs)
  note n = subscribe_next_Ok [OF Inr]
  have "subs_ok c new_subs" if "validate_subscription c s = Ok ()"
  proof -
    have "entry_ok c (login, s)" and "list_all (entry_ok c) (ps_subs st)" and "btree (ps_subs st)"
      using assms(1) n that by (auto simp: push_ok_def subs_ok_def entry_ok_def)
    then have "list_all (entry_ok c) new_subs" and "btree new_subs"
      using conjunct1 [OF n] by (auto simp: list_all_filter intro: list_all_btree_insert)
    then show ?thesis using n by (auto simp: subs_ok_def)
  qed
  then have "push_ok c parse dg (snd (save env st new_subs (subscribe_check c ta login)))"
    if "validate_subscription c s = Ok ()"
    using that assms by (intro save_ok) (auto simp: push_ok_def)
  then show ?thesis
    using Inr assms(1) by (auto simp: subscribe_def transact_def and_then_def split: sum.splits)
qed

lemma unsubscribe_ok [keeps]:
  assumes "push_ok c parse dg st" and "json_law parse dg env"
  shows "push_ok c parse dg (snd (unsubscribe c env ta login guard st))"
proof -
  have "subs_ok c (remove_key login (ps_subs st))"
    using assms(1) by (auto simp: push_ok_def subs_ok_def remove_key_def list_all_iff intro: order_trans [OF length_filter_le])
  then have "push_ok c parse dg (snd (save env st (remove_key login (ps_subs st)) check))" for check
    using assms by (intro save_ok) (auto simp: push_ok_def)
  then show ?thesis
    using assms(1) by (auto simp: unsubscribe_def transact_def split: option.split)
qed

lemma push_open_ok:
  assumes "push_open c env parse generated disk = (Ok st, disk')" and "json_law parse dg env"
    and "\<And>public private. generated = Ok (public, private) \<Longrightarrow> is_Ok (validate_keys c public private)"
  shows "push_ok c parse dg st \<and> \<not> ps_failed st"
proof (cases disk)
  case (Some raw)
  then show ?thesis
    using assms disk_state_ok [of c]
    by (auto simp: push_open_def push_read_def Let_def push_ok_def stored_as_def json_law_def bind_eq_Some_conv
        split: if_splits option.splits sum.splits)
next
  case None
  then obtain pub priv where g: "generated = Ok (pub, priv)"
    using assms(1) by (auto simp: push_open_def push_read_def Let_def split: sum.splits)
  let ?st = "\<lparr>ps_file = disk, ps_expected = None, ps_public = pub, ps_private = priv, ps_subs = [], ps_failed = False\<rparr>"
  have sv: "save env ?st [] (Ok ()) = (Ok (), st)"
    using assms(1) None g by (auto simp: push_open_def push_read_def Let_def split: sum.splits prod.splits)
  have "push_ok c parse dg (snd (save env ?st [] (Ok ())))"
    using sv assms(2,3) g by (intro save_ok) (auto simp: subs_ok_def btree_def keys_def)
  moreover have "\<not> ps_failed st"
    using sv by (auto simp: save_def split: sum.splits if_splits write_result.splits)
  ultimately show ?thesis using sv by simp
qed

inductive push_step :: "codecs \<Rightarrow> (bytes \<Rightarrow> json option) \<Rightarrow> (bytes \<Rightarrow> bytes) \<Rightarrow> push_state \<Rightarrow> push_state \<Rightarrow> bool"
  for c parse dg where
  push_subscribe: "json_law parse dg env \<Longrightarrow> push_step c parse dg st (snd (subscribe c env ta login s st))"
| push_unsubscribe: "json_law parse dg env \<Longrightarrow> push_step c parse dg st (snd (unsubscribe c env ta login guard st))"

inductive_cases push_stepE: "push_step c parse dg st st'"

interpretation push: step_invariant "push_step c parse dg" "push_ok c parse dg" for c parse dg
  by unfold_locales (auto elim!: push_stepE intro: subscribe_ok unsubscribe_ok)

section \<open>Properties\<close>

lemma ends_with_append: "ends_with x suf \<Longrightarrow> \<exists>p. x = p @ suf"
  by (metis append_take_drop_id ends_with_def)

lemma allowed_host_cases:
  assumes "allowed_host h"
  shows "h \<in> {''fcm.googleapis.com'', ''web.push.apple.com'', ''updates.push.services.mozilla.com''} \<or>
    (\<exists>p. h \<in> {p @ ''.push.services.mozilla.com'', p @ ''.notify.windows.com''})"
proof -
  consider "h \<in> {''fcm.googleapis.com'', ''web.push.apple.com'', ''updates.push.services.mozilla.com''}"
    | "ends_with h ''.push.services.mozilla.com''" | "ends_with h ''.notify.windows.com''"
    using assms unfolding allowed_host_def by blast
  then show ?thesis
  proof cases
    case 1
    then show ?thesis by (rule disjI1)
  next
    case 2
    from ends_with_append [OF this] show ?thesis by blast
  next
    case 3
    from ends_with_append [OF this] show ?thesis by blast
  qed
qed

text \<open>
  An endpoint the gateway will post to is at one of the push vendors. Every accepted endpoint is
  \<open>https://\<close>, then a host that is, ignoring case, one of the allowed names or below one of the
  allowed domains and contains no userinfo, port or escape, then nothing or a path or query; the
  URI parser's own authority is that same host, so no disagreement about where the host ends can
  redirect a delivery.
\<close>

lemma endpoint_allowlisted:
  assumes "validate_endpoint c endpoint = Ok u"
  shows "\<exists>host rest. endpoint = ''https://'' @ host @ rest \<and> (rest = [] \<or> hd rest \<in> {CHR ''/'', CHR ''?''}) \<and>
    ur_authority u = Some host \<and> ur_scheme u = Some ''https'' \<and>
    set host \<inter> {CHR ''@'', CHR '':'', CHR ''%'', CHR ''/'', CHR ''?'', CHR ''#'', CHR 0x5C} = {} \<and>
    (map to_ascii_lowercase host \<in> {''fcm.googleapis.com'', ''web.push.apple.com'', ''updates.push.services.mozilla.com''} \<or>
     (\<exists>p. map to_ascii_lowercase host \<in> {p @ ''.push.services.mozilla.com'', p @ ''.notify.windows.com''}))"
proof -
  let ?P = "\<lambda>b. b \<noteq> CHR ''/'' \<and> b \<noteq> CHR ''?''"
  define host where "host = takeWhile ?P (drop 8 endpoint)"
  define rest where "rest = dropWhile ?P (drop 8 endpoint)"
  have ok: "starts_with endpoint ''https://''" "list_all endpoint_byte endpoint" "ur_authority u = Some host"
    "ur_scheme u = Some ''https''" "\<not> list_ex (\<lambda>b. b \<in> {CHR ''@'', CHR '':'', CHR ''%''}) host"
    "allowed_host (map to_ascii_lowercase host)"
    using assms by (auto simp: validate_endpoint_def Let_def host_def split: if_splits option.splits)
  have split: "drop 8 endpoint = host @ rest" by (simp add: host_def rest_def)
  have "take 8 endpoint = ''https://''" using ok(1) by (simp add: starts_with_def numeral_eq_Suc)
  then have "endpoint = ''https://'' @ host @ rest" by (metis append_take_drop_id split)
  moreover have "rest = [] \<or> hd rest \<in> {CHR ''/'', CHR ''?''}"
    using hd_dropWhile [of ?P "drop 8 endpoint"] by (auto simp: rest_def)
  moreover have "b \<notin> {CHR ''@'', CHR '':'', CHR ''%'', CHR ''/'', CHR ''?'', CHR ''#'', CHR 0x5C}" if "b \<in> set host" for b
  proof -
    have "?P b" using set_takeWhileD [OF that [unfolded host_def]] by simp
    moreover have "endpoint_byte b" using that ok(2) \<open>endpoint = ''https://'' @ host @ rest\<close> by (auto simp: list_all_iff)
    ultimately show ?thesis using ok(5) that by (auto simp: list_ex_iff endpoint_byte_def)
  qed
  then have "set host \<inter> {CHR ''@'', CHR '':'', CHR ''%'', CHR ''/'', CHR ''?'', CHR ''#'', CHR 0x5C} = {}" by blast
  moreover have "map to_ascii_lowercase host \<in> {''fcm.googleapis.com'', ''web.push.apple.com'', ''updates.push.services.mozilla.com''} \<or>
     (\<exists>p. map to_ascii_lowercase host \<in> {p @ ''.push.services.mozilla.com'', p @ ''.notify.windows.com''})"
    by (rule allowed_host_cases [OF ok(6)])
  ultimately show ?thesis
    using ok(3,4) by (intro exI [of _ host] exI [of _ rest] conjI)
qed

definition sample_codecs :: codecs where
  "sample_codecs = \<lparr>cd_decode = Some, cd_encode = (\<lambda>b. b), cd_is_point = (\<lambda>_. True), cd_public_of = (\<lambda>_. None),
     cd_uri = (\<lambda>_. Some \<lparr>ur_scheme = Some ''https'', ur_authority = Some ''web.push.apple.com'', ur_port = False\<rparr>)\<rparr>"

text \<open>The subscriptions after a login has subscribed: those of other logins that are live and have another endpoint, and its own.\<close>

definition exclusive_subs :: "transact_env \<Rightarrow> string \<Rightarrow> subscription \<Rightarrow> subscriptions \<Rightarrow> subscriptions" where
  "exclusive_subs ta login s subs =
     btree_insert login s (filter (\<lambda>e. fst e \<noteq> login \<and> sb_endpoint (snd e) \<noteq> sb_endpoint s \<and> ta_live ta 1 (fst e) = Ok True) subs)"

lemma exclusive_alone:
  "list_all (\<lambda>e. fst e = login \<or> sb_endpoint (snd e) \<noteq> sb_endpoint s) (exclusive_subs ta login s subs)"
  "map_of (exclusive_subs ta login s subs) login = Some s"
  unfolding exclusive_subs_def by (rule list_all_btree_insert) (auto simp: list_all_iff)

lemma save_outcome:
  "case save env st subs check of
     (Inr _, st') \<Rightarrow> \<not> ps_failed st \<and> ps_subs st' = subs \<and> \<not> ps_failed st' \<and> (\<exists>raw. ps_file st' = Some raw \<and> serialised env st subs = Ok raw)
   | (Inl _, st') \<Rightarrow>
       st' = st \<or> \<not> ps_failed st \<and>
         (st' = st\<lparr>ps_failed := True\<rparr> \<or> (\<exists>raw. serialised env st subs = Ok raw \<and> st' = st\<lparr>ps_failed := True, ps_file := Some raw\<rparr>))"
  by (auto simp: save_def split: sum.split write_result.split)

text \<open>
  C29: a browser's endpoint belongs to one login. A successful subscription leaves exactly the new
  subscription for its login, keeps of the others exactly those that are still live and have a
  different endpoint, unchanged, holds at most 256 in key order, and is already in the file when
  the call returns. A subscription that fails leaves the subscriptions in memory as they were. Either it
  has changed nothing at all, or the store has failed: it could not read its file, found one it did not
  write, or could not complete the write; then the file is the old one or, where the write failed after
  its rename, the one with the new subscription in it. A store that has failed accepts no subscription.
\<close>

theorem subscribe_exclusive:
  "case subscribe c env ta login s st of (res, st') \<Rightarrow>
     (case res of
        Inr _ \<Rightarrow>
          ps_subs st' = exclusive_subs ta login s (ps_subs st) \<and>
          map_of (ps_subs st') login = Some s \<and>
          list_all (\<lambda>e. fst e = login \<or> sb_endpoint (snd e) \<noteq> sb_endpoint s) (ps_subs st') \<and>
          length (ps_subs st') \<le> MAX_SUBSCRIPTIONS \<and>
          \<not> ps_failed st \<and> \<not> ps_failed st' \<and>
          (\<exists>raw. ps_file st' = Some raw \<and> serialised env st (ps_subs st') = Ok raw)
      | Inl _ \<Rightarrow>
          st' = st \<or> \<not> ps_failed st \<and>
            (st' = st\<lparr>ps_failed := True\<rparr> \<or>
             (\<exists>raw. serialised env st (exclusive_subs ta login s (ps_subs st)) = Ok raw \<and> st' = st\<lparr>ps_failed := True, ps_file := Some raw\<rparr>)))"
proof (cases "subscribe_next c ta login s (ps_subs st)")
  case (Inl e)
  then show ?thesis by (auto simp: subscribe_def transact_def split: sum.split)
next
  case (Inr new_subs)
  then have "new_subs = exclusive_subs ta login s (ps_subs st)" "length new_subs \<le> MAX_SUBSCRIPTIONS"
    using subscribe_next_Ok by (auto simp: exclusive_subs_def)
  then show ?thesis
    using Inr exclusive_alone [where ta = ta and login = login and s = s and subs = "ps_subs st"] save_outcome [where env = env and st = st and subs = new_subs and check = "subscribe_check c ta login"]
    by (auto simp: subscribe_def transact_def split: sum.splits prod.splits)
qed

definition sample_public :: string where "sample_public = CHR 0x04 # replicate 64 CHR ''a''"
definition sample_private :: string where "sample_private = replicate 32 CHR ''b''"

definition sample_disk :: json where
  "sample_disk = output_json sample_public sample_private []"

definition sample_save_env :: save_env where
  "sample_save_env = \<lparr>sv_json = (\<lambda>j. if j = sample_disk then Some [''{}''] else None),
     sv_digest = (\<lambda>b. b), sv_readable = True, sv_write = WriteOk\<rparr>"

definition sample_push_state :: push_state where
  "sample_push_state = \<lparr>ps_file = Some ''{}'', ps_expected = Some ''{}'', ps_public = sample_public, ps_private = sample_private,
     ps_subs = [], ps_failed = False\<rparr>"

definition key_codecs :: codecs where
  "key_codecs = sample_codecs\<lparr>cd_public_of := (\<lambda>_. Some sample_public)\<rparr>"

lemma sample_keys_valid: "validate_keys key_codecs sample_public sample_private = Ok ()"
proof -
  have "decode_canonical key_codecs sample_private 32 = Ok sample_private"
    by (simp add: decode_canonical_def key_codecs_def sample_codecs_def sample_private_def)
  moreover have "decode_canonical key_codecs sample_public 65 = Ok sample_public"
    by (simp add: decode_canonical_def key_codecs_def sample_codecs_def sample_public_def)
  moreover have "hd sample_public = CHR 0x04" by (simp add: sample_public_def)
  ultimately show ?thesis by (simp add: validate_keys_def key_codecs_def sample_codecs_def)
qed

lemma sample_push_opened:
  "push_open key_codecs sample_save_env (\<lambda>_. Some sample_disk) (Err PUnavailable) (Some ''{}'') = (Ok sample_push_state, Some ''{}'')"
  using output_json_read [of key_codecs "[]" sample_public sample_private]
  by (simp add: push_open_def push_read_def Let_def sample_disk_def sample_save_env_def sample_keys_valid
      sample_push_state_def limits subs_ok_def btree_def keys_def)

lemma sample_json_law: "json_law (\<lambda>_. Some sample_disk) (\<lambda>b. b) sample_save_env"
  by (auto simp: json_law_def sample_save_env_def split: if_splits)

definition sample_transact :: transact_env where
  "sample_transact = \<lparr>ta_open = True, ta_permit = True, ta_started = True, ta_authorized = (\<lambda>_. True),
     ta_live = (\<lambda>_ _. Ok True), ta_stopped = (\<lambda>_. False)\<rparr>"

definition sample_subscription :: subscription where
  "sample_subscription = \<lparr>sb_endpoint = ''https://web.push.apple.com/Qx'', sb_auth = replicate 16 CHR ''c'', sb_p256dh = sample_public\<rparr>"

definition any_save_env :: save_env where
  "any_save_env = sample_save_env\<lparr>sv_json := (\<lambda>_. Some [''{}''])\<rparr>"

lemma sample_endpoint_valid:
  "validate_endpoint key_codecs ''https://web.push.apple.com/Qx'' =
      Ok \<lparr>ur_scheme = Some ''https'', ur_authority = Some ''web.push.apple.com'', ur_port = False\<rparr>"
  by (simp add: validate_endpoint_def key_codecs_def sample_codecs_def starts_with_def endpoint_byte_def allowed_host_def
        to_ascii_lowercase_def ascii_defs)

lemma sample_subscription_valid: "validate_subscription key_codecs sample_subscription = Ok ()"
  using sample_endpoint_valid
  by (simp add: validate_subscription_def sample_subscription_def decode_canonical_def key_codecs_def sample_codecs_def
      sample_public_def)

lemma sample_subscribed: "is_Ok (fst (subscribe key_codecs any_save_env sample_transact sample_private sample_subscription sample_push_state))"
proof -
  have auth: "push_authorized key_codecs sample_transact n sample_private = Ok ()" for n
    by (simp add: push_authorized_def valid_id_def decode_canonical_def key_codecs_def sample_codecs_def sample_private_def
        sample_transact_def)
  have live: "check_live sample_transact n sample_private = Ok ()" for n
    by (simp add: check_live_def sample_transact_def)
  have fields: "ta_open sample_transact" "ta_permit sample_transact" "ta_started sample_transact" "\<not> ta_stopped sample_transact n" for n
    by (simp_all add: sample_transact_def)
  have next_ok: "subscribe_next key_codecs sample_transact sample_private sample_subscription [] = Ok [(sample_private, sample_subscription)]"
    by (simp add: subscribe_next_def auth live fields limits)
  have "subscribe_check key_codecs sample_transact sample_private = Ok ()"
    by (simp add: subscribe_check_def auth live fields)
  then show ?thesis
    by (simp add: subscribe_def auth sample_subscription_valid transact_def next_ok save_def serialised_def push_read_def
        any_save_env_def sample_save_env_def sample_push_state_def limits fields)
qed

theorem subscribe_exclusive_witness:
  "ps_subs (snd (subscribe key_codecs any_save_env sample_transact sample_private sample_subscription sample_push_state)) =
     [(sample_private, sample_subscription)]"
  using sample_subscribed
    subscribe_exclusive [where c = key_codecs and env = any_save_env and ta = sample_transact and login = sample_private
      and s = sample_subscription and st = sample_push_state]
  by (auto simp: sample_push_state_def exclusive_subs_def split: prod.splits sum.splits)

text \<open>
  A usable store is always recoverable. After any run of subscriptions and removals, whatever the
  writes reported, either the store has stopped and refuses every later transaction unchanged, or
  opening the file anew yields exactly the state in memory: keys, digest and subscriptions.
\<close>

lemma push_reopen_recovers:
  assumes "push_open c env parse generated disk = (Ok st0, disk')" and "json_law parse dg env"
    and "\<And>pub priv. generated = Ok (pub, priv) \<Longrightarrow> is_Ok (validate_keys c pub priv)"
    and "(push_step c parse dg)\<^sup>*\<^sup>* st0 st" and "sv_readable env"
  shows "if ps_failed st
    then subscribe c env' ta login s st = (fst (subscribe c env' ta login s st), st) \<and>
         unsubscribe c env' ta login guard st = (fst (unsubscribe c env' ta login guard st), st)
    else push_open c env parse generated' (ps_file st) = (Ok st, ps_file st)"
proof -
  have ok: "push_ok c parse dg st"
    using push.run_keeps [OF assms(4)] push_open_ok [OF assms(1,2,3)] by blast
  have stopped: "ps_failed st \<Longrightarrow> snd (subscribe c env' ta login s st) = st \<and> snd (unsubscribe c env' ta login guard st) = st"
    by (auto simp: subscribe_def unsubscribe_def transact_def split: sum.split)
  show ?thesis
  proof (cases "ps_failed st")
    case True
    then show ?thesis using stopped by (metis prod.collapse)
  next
    case False
    then obtain raw where "ps_file st = Some raw" "length raw \<le> DISK_BYTES" "ps_expected st = Some (dg raw)"
      "Option.bind (parse raw) (disk_state_of_json c) =
         Some \<lparr>ds_version = Some 1, ds_public = Some (ps_public st), ds_private = Some (ps_private st), ds_subs = ps_subs st\<rparr>"
      "is_Ok (validate_keys c (ps_public st) (ps_private st))"
      using ok by (auto simp: push_ok_def stored_as_def)
    then show ?thesis
      using False assms(2,5) by (cases st) (auto simp: push_open_def push_read_def Let_def json_law_def)
  qed
qed

end
