(* ===== verification/Upload_Contract.thy ===== *)
theory Upload_Contract
  imports Model Json
begin

text \<open>
  The upload contract of \<open>hmux-gateway/src/upload_contract.rs\<close>: the start and finish messages of a
  browser, the header both sides agree on, the per-file digests that a stream of chunks is cut
  into, and the check of the Home's completion against them. The JSON parser and SHA-256 are
  arguments. The hashing loop has no bound in the source; here not returning is the value \<open>None\<close>.
\<close>

section \<open>Limits and data\<close>

definition MAX_START :: nat where "MAX_START = 16384"
definition MAX_FILES :: nat where "MAX_FILES = 16"
definition MAX_FILE_BYTES :: int where "MAX_FILE_BYTES = 33554432"
definition MAX_TOTAL_BYTES :: int where "MAX_TOTAL_BYTES = 134217728"
definition MAX_CHUNK :: nat where "MAX_CHUNK = 262144"

lemmas upload_limits [limits] = MAX_START_def MAX_FILES_def MAX_FILE_BYTES_def MAX_TOTAL_BYTES_def MAX_CHUNK_def

datatype contract_error = USize | UInvalid | UIncomplete

record file_header =
  fh_index :: nat
  fh_size :: int
  fh_extension :: string

record upload_header =
  uh_protocol_version :: nat
  uh_request_id :: string
  uh_session :: "session_identity option"
  uh_file_count :: nat
  uh_total_bytes :: int
  uh_files :: "file_header list"

section \<open>Decoding the browser's messages\<close>

record raw_session =
  rs_id :: "string option"
  rs_created_at :: "int option"

record raw_file =
  rf_size :: "int option"
  rf_extension :: "string option"

record raw_start =
  st_kind :: "string option"
  st_csrf :: "string option"
  st_session :: "raw_session option"
  st_files :: "raw_file list option"

definition raw_session_of :: "json \<Rightarrow> raw_session option" where
  "raw_session_of j =
     Option.bind (object_fields [''id'', ''created_at''] j) (\<lambda>fs.
     Option.bind (nullable json_string (field fs ''id'')) (\<lambda>sid.
     Option.bind (nullable json_i64 (field fs ''created_at'')) (\<lambda>at. Some \<lparr>rs_id = sid, rs_created_at = at\<rparr>)))"

definition raw_file_of :: "json \<Rightarrow> raw_file option" where
  "raw_file_of j =
     Option.bind (object_fields [''size'', ''extension''] j) (\<lambda>fs.
     Option.bind (nullable json_i64 (field fs ''size'')) (\<lambda>n.
     Option.bind (nullable json_string (field fs ''extension'')) (\<lambda>e. Some \<lparr>rf_size = n, rf_extension = e\<rparr>)))"

fun files_visit :: "raw_file list \<Rightarrow> json list \<Rightarrow> raw_file list option" where
  \<comment> \<open>the seventeenth element is refused before it is decoded\<close>
  "files_visit files [] = Some files"
| "files_visit files (j # js) =
     (if MAX_FILES \<le> length files then None
      else Option.bind (raw_file_of j) (\<lambda>f. files_visit (files @ [f]) js))"

definition files_of :: "json \<Rightarrow> raw_file list option" where
  "files_of j = (case j of JArr js \<Rightarrow> files_visit [] js | _ \<Rightarrow> None)"

definition raw_start_of :: "json \<Rightarrow> raw_start option" where
  "raw_start_of j =
     Option.bind (object_fields [''type'', ''csrf'', ''session'', ''files''] j) (\<lambda>fs.
     Option.bind (nullable json_string (field fs ''type'')) (\<lambda>k.
     Option.bind (nullable json_string (field fs ''csrf'')) (\<lambda>c.
     Option.bind (nullable raw_session_of (field fs ''session'')) (\<lambda>s.
     Option.bind (nullable files_of (field fs ''files'')) (\<lambda>f.
       Some \<lparr>st_kind = k, st_csrf = c, st_session = s, st_files = f\<rparr>)))))"

definition raw_finish_of :: "json \<Rightarrow> string option option" where
  "raw_finish_of j =
     Option.bind (object_fields [''type''] j) (\<lambda>fs. nullable json_string (field fs ''type''))"

definition parse_bounded ::
  "(bytes \<Rightarrow> json option) \<Rightarrow> (json \<Rightarrow> 'a option) \<Rightarrow> bytes \<Rightarrow> nat \<Rightarrow> (contract_error, 'a) result" where
  "parse_bounded parse of_json raw limit =
     (if raw = [] \<or> limit < length raw then Err USize
      else case Option.bind (parse raw) of_json of None \<Rightarrow> Err UInvalid | Some v \<Rightarrow> Ok v)"

fun strip_dollar :: "string \<Rightarrow> string option" where
  "strip_dollar [] = None"
| "strip_dollar (b # bs) = (if b = CHR ''$'' then Some bs else None)"

definition dollar_digits :: "nat \<Rightarrow> string \<Rightarrow> bool" where
  "dollar_digits most v =
     (case strip_dollar v of
        None \<Rightarrow> False
      | Some ds \<Rightarrow> 1 \<le> length ds \<and> length ds \<le> most \<and> list_all is_ascii_digit ds)"

definition valid_session :: "session_identity \<Rightarrow> bool" where
  "valid_session s \<longleftrightarrow> 0 < si_created_at s \<and> dollar_digits 31 (si_id s)"

definition valid_hex_id :: "string \<Rightarrow> bool" where
  "valid_hex_id v \<longleftrightarrow> length v = 32 \<and> list_all is_lower_hex v"

fun checked_sum :: "int \<Rightarrow> int list \<Rightarrow> int option" where
  "checked_sum acc [] = Some acc"
| "checked_sum acc (x # xs) = (if is_i64 (acc + x) then checked_sum (acc + x) xs else None)"

definition valid_file :: "nat \<Rightarrow> file_header \<Rightarrow> bool" where
  "valid_file index f \<longleftrightarrow>
     fh_index f = index \<and> 1 \<le> fh_size f \<and> fh_size f \<le> MAX_FILE_BYTES \<and> length (fh_extension f) \<le> 16 \<and>
     list_all (\<lambda>b. is_ascii_lowercase b \<or> is_ascii_digit b) (fh_extension f)"

definition valid_header :: "upload_header \<Rightarrow> bool \<Rightarrow> bool" where
  "valid_header h require_request_id \<longleftrightarrow>
     uh_protocol_version h = 1 \<and>
     (if require_request_id then valid_hex_id (uh_request_id h) else uh_request_id h = [] \<or> valid_hex_id (uh_request_id h)) \<and>
     (case uh_session h of None \<Rightarrow> False | Some s \<Rightarrow> valid_session s) \<and>
     1 \<le> uh_file_count h \<and> uh_file_count h \<le> MAX_FILES \<and> uh_file_count h = length (uh_files h) \<and>
     1 \<le> uh_total_bytes h \<and> uh_total_bytes h \<le> MAX_TOTAL_BYTES \<and>
     list_all (\<lambda>(index, f). valid_file index f) (enumerate 0 (uh_files h)) \<and>
     checked_sum 0 (map fh_size (uh_files h)) = Some (uh_total_bytes h)"

definition or_default :: "'a \<Rightarrow> 'a option \<Rightarrow> 'a" where
  "or_default d v = (case v of None \<Rightarrow> d | Some x \<Rightarrow> x)"

definition decode_start :: "(bytes \<Rightarrow> json option) \<Rightarrow> bytes \<Rightarrow> string \<Rightarrow> (contract_error, upload_header) result" where
  "decode_start parse raw expected_csrf =
     and_then (parse_bounded parse raw_start_of raw MAX_START) (\<lambda>start.
       if expected_csrf = [] \<or> st_kind start \<noteq> Some ''start'' \<or> or_default [] (st_csrf start) \<noteq> expected_csrf
       then Err UInvalid
       else case st_session start of
         None \<Rightarrow> Err UInvalid
       | Some s \<Rightarrow>
           if \<not> (case rs_id s of None \<Rightarrow> False | Some v \<Rightarrow> dollar_digits 12 v) then Err UInvalid
           else (case st_files start of
             None \<Rightarrow> Err UInvalid
           | Some raw_files \<Rightarrow>
               let files = map (\<lambda>(index, f). \<lparr>fh_index = index, fh_size = or_default 0 (rf_size f),
                     fh_extension = or_default [] (rf_extension f)\<rparr>) (enumerate 0 raw_files) in
               (case checked_sum 0 (map fh_size files) of
                  None \<Rightarrow> Err UInvalid
                | Some total_bytes \<Rightarrow>
                    let header = \<lparr>uh_protocol_version = 1, uh_request_id = [],
                          uh_session = Some \<lparr>si_id = or_default [] (rs_id s), si_created_at = or_default 0 (rs_created_at s)\<rparr>,
                          uh_file_count = length files, uh_total_bytes = total_bytes, uh_files = files\<rparr> in
                    if \<not> valid_header header False then Err UInvalid else Ok header)))"

definition decode_finish :: "(bytes \<Rightarrow> json option) \<Rightarrow> bytes \<Rightarrow> (contract_error, unit) result" where
  "decode_finish parse raw =
     and_then (parse_bounded parse raw_finish_of raw MAX_START) (\<lambda>k.
       if k \<noteq> Some ''finish'' then Err UInvalid else Ok ())"

section \<open>Hashing the stream\<close>

record 'h sha =
  sh_new :: 'h
  sh_update :: "'h \<Rightarrow> bytes \<Rightarrow> 'h"
  sh_final :: "'h \<Rightarrow> string"

record 'h upload_hashes =
  hs_hashers :: "'h list"
  hs_sizes :: "int list"
  hs_file_index :: nat
  hs_remaining :: int
  hs_received :: int
  hs_total :: int

definition hashes_new :: "'h sha \<Rightarrow> upload_header \<Rightarrow> (contract_error, 'h upload_hashes) result" where
  "hashes_new sh header =
     (if \<not> valid_header header False then Err UInvalid
      else let sizes = map fh_size (uh_files header) in
        Ok \<lparr>hs_hashers = map (\<lambda>_. sh_new sh) sizes, hs_sizes = sizes, hs_file_index = 0, hs_remaining = sizes ! 0,
            hs_received = 0, hs_total = uh_total_bytes header\<rparr>)"

definition as_usize :: "int \<Rightarrow> nat" where
  "as_usize i = nat (i mod 2 ^ 64)"

definition hash_some :: "'h sha \<Rightarrow> nat \<Rightarrow> bytes \<Rightarrow> 'h upload_hashes \<Rightarrow> 'h upload_hashes" where
  \<comment> \<open>one turn of the loop, with \<open>n\<close> bytes taken\<close>
  "hash_some sh n data u =
     (let i = hs_file_index u;
          u = u\<lparr>hs_hashers := (hs_hashers u)[i := sh_update sh (hs_hashers u ! i) (take n data)],
                hs_remaining := hs_remaining u - int n\<rparr>
      in if hs_remaining u = 0 \<and> i + 1 < length (hs_sizes u)
         then u\<lparr>hs_file_index := i + 1, hs_remaining := hs_sizes u ! (i + 1)\<rparr> else u)"

partial_function (option) consume_loop :: "'h sha \<Rightarrow> bytes \<Rightarrow> 'h upload_hashes \<Rightarrow> 'h upload_hashes option" where
  "consume_loop sh data u =
     (if data = [] then Some u
      else if length (hs_hashers u) \<le> hs_file_index u then None
      else let n = min (length data) (as_usize (hs_remaining u)) in
        consume_loop sh (drop n data) (hash_some sh n data u))"

definition hashes_consume ::
  "'h sha \<Rightarrow> bytes \<Rightarrow> 'h upload_hashes \<Rightarrow> ((contract_error, int) result \<times> 'h upload_hashes) option" where
  "hashes_consume sh data u =
     (if data = [] \<or> MAX_CHUNK < length data \<or> hs_total u - hs_received u < int (length data) then Some (Err USize, u)
      else map_option (\<lambda>u. (Ok (hs_received u), u))
        (consume_loop sh data (u\<lparr>hs_received := hs_received u + int (length data)\<rparr>)))"

definition is_complete :: "'h upload_hashes \<Rightarrow> bool" where
  "is_complete u \<longleftrightarrow> hs_received u = hs_total u"

definition hashes_finish :: "'h sha \<Rightarrow> 'h upload_hashes \<Rightarrow> (contract_error, string list) result" where
  "hashes_finish sh u = (if \<not> is_complete u then Err UIncomplete else Ok (map (sh_final sh) (hs_hashers u)))"

section \<open>The Home's completion\<close>

record stage_file =
  sf_index :: nat
  sf_path :: string
  sf_size :: int
  sf_sha256 :: string

record stage_result =
  sr_protocol_version :: nat
  sr_request_id :: string
  sr_stage_id :: string
  sr_session :: "session_identity option"
  sr_expires_at_unix :: int
  sr_files :: "stage_file list"

record stage_response =
  sp_protocol_version :: int
  sp_request_id :: string
  sp_stage_id :: string
  sp_session :: session_identity
  sp_expires_at_unix :: int
  sp_files :: "stage_file list"

definition pad4 :: "string \<Rightarrow> string" where
  "pad4 ds = replicate (4 - length ds) CHR ''0'' @ ds"

definition staged_name :: "nat \<Rightarrow> string \<Rightarrow> string" where
  "staged_name index extension =
     ''file-'' @ pad4 (decimal (index + 1)) @ (if extension = [] then [] else CHR ''.'' # extension)"

definition valid_path :: "string \<Rightarrow> string \<Rightarrow> nat \<Rightarrow> string \<Rightarrow> bool" where
  "valid_path path stage_dir index extension =
     (if path = [] \<or> 4096 < length path \<or> hd path \<noteq> CHR ''/'' \<or>
         list_ex (\<lambda>b. b \<in> {CHR 0x00, CHR 0x0D, CHR 0x0A, CHR 0x09, CHR 0x1B}) path then False
      else if list_ex (\<lambda>part. part = [] \<or> part = ''.'' \<or> part = ''..'') (split_on CHR ''/'' (tl path)) then False
      else (case rev (split_on CHR ''/'' path) of
              f # d # r # _ \<Rightarrow> f = staged_name index extension \<and> d = stage_dir \<and> r = ''staged-files-v1''
            | _ \<Rightarrow> False))"

definition valid_staged :: "string \<Rightarrow> nat \<Rightarrow> file_header \<Rightarrow> string \<Rightarrow> stage_file \<Rightarrow> bool" where
  "valid_staged stage_dir index metadata hash f \<longleftrightarrow>
     sf_index f = index \<and> sf_size f = fh_size metadata \<and> sf_sha256 f = hash \<and> length (sf_sha256 f) = 64 \<and>
     list_all is_lower_hex (sf_sha256 f) \<and> valid_path (sf_path f) stage_dir index (fh_extension metadata)"

definition validate_completion ::
  "stage_result \<Rightarrow> upload_header \<Rightarrow> string list \<Rightarrow> (contract_error, stage_response) result" where
  "validate_completion response header hashes =
     (if \<not> valid_header header True \<or> length hashes \<noteq> length (uh_files header) then Err UInvalid
      else case (sr_session response, uh_session header) of
        (Some s, Some expected) \<Rightarrow>
          let expires = sr_expires_at_unix response in
          if sr_protocol_version response \<noteq> 1 \<or> sr_request_id response \<noteq> uh_request_id header \<or>
             si_id s \<noteq> si_id expected \<or> si_created_at s \<noteq> si_created_at expected \<or>
             \<not> valid_hex_id (sr_stage_id response) \<or> expires < 1 then Err UInvalid
          else if length (sr_files response) \<noteq> length (uh_files header) then Err UInvalid
          else
            let stage_dir = decimal (nat expires) @ ''-'' @ sr_stage_id response in
            if \<not> list_all (\<lambda>(index, f). valid_staged stage_dir index (uh_files header ! index) (hashes ! index) f)
                 (enumerate 0 (sr_files response)) then Err UInvalid
            else Ok \<lparr>sp_protocol_version = 1, sp_request_id = sr_request_id response, sp_stage_id = sr_stage_id response,
              sp_session = s, sp_expires_at_unix = expires,
              sp_files = map (\<lambda>(index, f). \<lparr>sf_index = index, sf_path = sf_path f, sf_size = fh_size (uh_files header ! index),
                sf_sha256 = sf_sha256 f\<rparr>) (enumerate 0 (sr_files response))\<rparr>
      | _ \<Rightarrow> Err UInvalid)"

section \<open>The reference: cutting the whole stream\<close>

fun split_sizes :: "int list \<Rightarrow> bytes \<Rightarrow> bytes list" where
  "split_sizes [] d = []"
| "split_sizes (n # ns) d = take (nat n) d # split_sizes ns (drop (nat n) d)"

lemma length_split_sizes [simp]: "length (split_sizes ns d) = length ns"
  by (induction ns d rule: split_sizes.induct) auto

lemma split_sizes_Nil [simp]: "split_sizes ns [] = map (\<lambda>_. []) ns"
  by (induction ns) auto

lemma split_sizes_append:
  assumes "i < length ns" and "\<And>n. n \<in> set ns \<Longrightarrow> 0 \<le> n" and "sum_list (take i ns) \<le> int (length d)"
    and "int (length d) + int (length x) \<le> sum_list (take (Suc i) ns)"
  shows "split_sizes ns (d @ x) = (split_sizes ns d)[i := split_sizes ns d ! i @ x]"
  using assms
proof (induction ns arbitrary: i d)
  case (Cons n ns)
  show ?case
  proof (cases i)
    case 0
    then have "length d + length x \<le> nat n" using Cons.prems(4) by simp
    then show ?thesis using 0 by simp
  next
    case (Suc j)
    have n: "0 \<le> n" using Cons.prems(2) by simp
    have rest: "0 \<le> sum_list (take j ns)"
      using Cons.prems(2) by (intro sum_list_nonneg) (auto dest: in_set_takeD)
    have le: "nat n \<le> length d" using Cons.prems(3) Suc n rest by simp
    have "split_sizes ns (drop (nat n) d @ x) = (split_sizes ns (drop (nat n) d))[j := split_sizes ns (drop (nat n) d) ! j @ x]"
      using Cons.prems Suc le n by (intro Cons.IH) auto
    then show ?thesis using Suc le by simp
  qed
qed simp

lemma concat_split_sizes:
  "(\<And>n. n \<in> set ns \<Longrightarrow> 0 \<le> n) \<Longrightarrow> int (length d) \<le> sum_list ns \<Longrightarrow> concat (split_sizes ns d) = d"
proof (induction ns d rule: split_sizes.induct)
  case (2 n ns d)
  have "0 \<le> sum_list ns" using "2.prems"(1) by (intro sum_list_nonneg) auto
  then have "int (length (drop (nat n) d)) \<le> sum_list ns"
    using "2.prems" by (cases "nat n \<le> length d") auto
  then show ?case using "2.IH" "2.prems"(1) by simp
qed simp

text \<open>What a streaming hash promises: feeding in pieces is feeding the concatenation.\<close>

definition sha_law :: "'h sha \<Rightarrow> bool" where
  "sha_law sh \<longleftrightarrow> (\<forall>h. sh_update sh h [] = h) \<and> (\<forall>h a b. sh_update sh (sh_update sh h a) b = sh_update sh h (a @ b))"

definition digest_of :: "'h sha \<Rightarrow> bytes \<Rightarrow> 'h" where
  "digest_of sh d = sh_update sh (sh_new sh) d"

definition hashed :: "'h sha \<Rightarrow> bytes \<Rightarrow> 'h upload_hashes \<Rightarrow> bool" where
  \<comment> \<open>the bytes \<open>d\<close> have been hashed\<close>
  "hashed sh d u \<longleftrightarrow>
     (\<forall>n\<in>set (hs_sizes u). 0 < n \<and> n < 2 ^ 63) \<and> hs_file_index u < length (hs_sizes u) \<and>
     hs_hashers u = map (digest_of sh) (split_sizes (hs_sizes u) d) \<and>
     sum_list (take (hs_file_index u) (hs_sizes u)) \<le> int (length d) \<and>
     hs_remaining u = sum_list (take (Suc (hs_file_index u)) (hs_sizes u)) - int (length d) \<and> 0 \<le> hs_remaining u \<and>
     (hs_remaining u = 0 \<longrightarrow> Suc (hs_file_index u) = length (hs_sizes u))"

lemma hashedD:
  assumes "hashed sh d u"
  shows "\<And>n. n \<in> set (hs_sizes u) \<Longrightarrow> 0 < n" "hs_file_index u < length (hs_sizes u)"
    "hs_hashers u = map (digest_of sh) (split_sizes (hs_sizes u) d)"
    "sum_list (take (hs_file_index u) (hs_sizes u)) \<le> int (length d)"
    "hs_remaining u = sum_list (take (Suc (hs_file_index u)) (hs_sizes u)) - int (length d)" "0 \<le> hs_remaining u"
    "hs_remaining u = 0 \<Longrightarrow> Suc (hs_file_index u) = length (hs_sizes u)"
  using assms unfolding hashed_def by blast+

lemma hashed_remaining:
  assumes "hashed sh d u"
  shows "as_usize (hs_remaining u) = nat (hs_remaining u)"
    and "int (length d) < sum_list (hs_sizes u) \<Longrightarrow> 0 < hs_remaining u"
proof -
  note h = hashedD [OF assms]
  have step: "sum_list (take (Suc (hs_file_index u)) (hs_sizes u)) =
      sum_list (take (hs_file_index u) (hs_sizes u)) + hs_sizes u ! hs_file_index u"
    using h(2) by (simp add: take_Suc_conv_app_nth)
  have "hs_sizes u ! hs_file_index u < 2 ^ 63" using assms h(2) by (simp add: hashed_def)
  then have "hs_remaining u < 2 ^ 64" using step h(4,5) by simp
  then show "as_usize (hs_remaining u) = nat (hs_remaining u)" using h(6) by (simp add: as_usize_def)
  show "0 < hs_remaining u" if "int (length d) < sum_list (hs_sizes u)"
  proof (rule ccontr)
    assume "\<not> 0 < hs_remaining u"
    then have z: "hs_remaining u = 0" using h(6) by linarith
    have "sum_list (take (Suc (hs_file_index u)) (hs_sizes u)) = int (length d)" using h(5) z by linarith
    then have "sum_list (hs_sizes u) = int (length d)" unfolding h(7) [OF z] by simp
    then show False using that by linarith
  qed
qed

lemma hash_some_hashed:
  assumes "hashed sh d u" and "sha_law sh" and "int n \<le> hs_remaining u" and "n \<le> length data"
  shows "hashed sh (d @ take n data) (hash_some sh n data u) \<and> hs_sizes (hash_some sh n data u) = hs_sizes u"
proof -
  note h = hashedD [OF assms(1)]
  let ?i = "hs_file_index u" and ?ns = "hs_sizes u" and ?x = "take n data"
  have pos: "0 \<le> m" if "m \<in> set ?ns" for m using h(1) [OF that] by simp
  have len: "length ?x = n" using assms(4) by simp
  have parts: "split_sizes ?ns (d @ ?x) = (split_sizes ?ns d)[?i := split_sizes ?ns d ! ?i @ ?x]"
    using h(2,4,5) assms(3) pos len by (intro split_sizes_append) auto
  have upd: "sh_update sh (digest_of sh a) b = digest_of sh (a @ b)" for a b
    using assms(2) by (simp add: sha_law_def digest_of_def)
  have hashers: "(hs_hashers u)[?i := sh_update sh (hs_hashers u ! ?i) ?x] = map (digest_of sh) (split_sizes ?ns (d @ ?x))"
    using h(2) by (simp add: h(3) parts upd map_update)
  have bound: "\<forall>m\<in>set ?ns. 0 < m \<and> m < 2 ^ 63" using assms(1) by (simp add: hashed_def)
  show ?thesis
  proof (cases "hs_remaining u = int n \<and> ?i + 1 < length ?ns")
    case True
    then have "sum_list (take (Suc (Suc ?i)) ?ns) = sum_list (take (Suc ?i) ?ns) + ?ns ! Suc ?i"
      by (simp add: take_Suc_conv_app_nth)
    moreover have "0 \<le> ?ns ! Suc ?i" and "?ns ! Suc ?i \<noteq> 0" using True h(1) [of "?ns ! Suc ?i"] by auto
    ultimately show ?thesis
      using True hashers bound h(5) len by (auto simp: hashed_def hash_some_def Let_def)
  next
    case False
    then show ?thesis
      using hashers bound h(2,4,5) len assms(3) by (auto simp: hashed_def hash_some_def Let_def)
  qed
qed

lemma hash_some_fields [simp]:
  "hs_received (hash_some sh n data u) = hs_received u" "hs_total (hash_some sh n data u) = hs_total u"
  by (simp_all add: hash_some_def Let_def)

lemma consume_loop_returns:
  assumes "hashed sh d u" and "sha_law sh" and "int (length d) + int (length data) \<le> sum_list (hs_sizes u)"
  shows "\<exists>u'. consume_loop sh data u = Some u' \<and> hashed sh (d @ data) u' \<and>
    hs_sizes u' = hs_sizes u \<and> hs_received u' = hs_received u \<and> hs_total u' = hs_total u"
  using assms
proof (induction "length data" arbitrary: d data u rule: less_induct)
  case less
  show ?case
  proof (cases "data = []")
    case True
    then show ?thesis using less.prems(1) by (simp add: consume_loop.simps)
  next
    case False
    define n where "n = min (length data) (as_usize (hs_remaining u))"
    have "0 < hs_remaining u" using hashed_remaining(2) [OF less.prems(1)] less.prems(3) False by (cases data) auto
    then have n: "0 < n" "int n \<le> hs_remaining u" "n \<le> length data"
      using False hashed_remaining(1) [OF less.prems(1)] by (auto simp: n_def)
    note hs = hash_some_hashed [OF less.prems(1,2) n(2,3)]
    have "int (length (d @ take n data)) + int (length (drop n data)) \<le> sum_list (hs_sizes (hash_some sh n data u))"
      using less.prems(3) hs n(3) by simp
    moreover have "length (drop n data) < length data" using n by simp
    ultimately obtain u' where "consume_loop sh (drop n data) (hash_some sh n data u) = Some u'"
      "hashed sh ((d @ take n data) @ drop n data) u'" "hs_sizes u' = hs_sizes u"
      "hs_received u' = hs_received u" "hs_total u' = hs_total u"
      using less.hyps [OF _ conjunct1 [OF hs] less.prems(2)] hs by fastforce
    moreover have "hs_file_index u < length (hs_hashers u)" using hashedD(2,3) [OF less.prems(1)] by simp
    moreover have "consume_loop sh data u = consume_loop sh (drop n data) (hash_some sh n data u)"
      using False \<open>hs_file_index u < length (hs_hashers u)\<close> by (subst consume_loop.simps) (simp add: n_def Let_def)
    ultimately show ?thesis by simp
  qed
qed

section \<open>Streams of chunks\<close>

lemma list_all_enumerate:
  "list_all (\<lambda>(i, x). P i x) (enumerate n xs) \<longleftrightarrow> (\<forall>i<length xs. P (n + i) (xs ! i))"
  by (auto simp: list_all_length nth_enumerate_eq)

lemma checked_sum_Some: "checked_sum acc xs = Some t \<Longrightarrow> t = acc + sum_list xs"
  by (induction acc xs rule: checked_sum.induct) (auto split: if_splits)

lemma valid_header_sizes:
  assumes "valid_header h req"
  shows "uh_files h \<noteq> []" "length (uh_files h) \<le> MAX_FILES" "uh_total_bytes h = sum_list (map fh_size (uh_files h))"
    "\<And>n. n \<in> set (map fh_size (uh_files h)) \<Longrightarrow> 0 < n \<and> n < 2 ^ 63"
proof -
  show "uh_files h \<noteq> []" "length (uh_files h) \<le> MAX_FILES" using assms by (auto simp: valid_header_def)
  show "uh_total_bytes h = sum_list (map fh_size (uh_files h))"
    using assms checked_sum_Some [of 0 "map fh_size (uh_files h)"] by (auto simp: valid_header_def)
  have files: "\<forall>i<length (uh_files h). valid_file i (uh_files h ! i)"
    using assms by (simp add: valid_header_def list_all_enumerate)
  show "0 < n \<and> n < 2 ^ 63" if "n \<in> set (map fh_size (uh_files h))" for n
  proof -
    from that obtain i where "i < length (uh_files h)" "n = fh_size (uh_files h ! i)" by (auto simp: in_set_conv_nth)
    then have "1 \<le> n" "n \<le> MAX_FILE_BYTES" using files by (auto simp: valid_file_def)
    then show ?thesis by (simp add: limits)
  qed
qed

definition tracks :: "'h sha \<Rightarrow> bytes \<Rightarrow> 'h upload_hashes \<Rightarrow> bool" where
  "tracks sh d u \<longleftrightarrow> hashed sh d u \<and> hs_received u = int (length d) \<and> hs_total u = sum_list (hs_sizes u)"

lemma hashes_new_tracks:
  assumes "valid_header h False" and "sha_law sh"
  shows "\<exists>u. hashes_new sh h = Ok u \<and> tracks sh [] u \<and> hs_sizes u = map fh_size (uh_files h)"
proof -
  note v = valid_header_sizes [OF assms(1)]
  let ?ns = "map fh_size (uh_files h)"
  have "?ns ! 0 \<in> set ?ns" using v(1) by (intro nth_mem) simp
  from v(4) [OF this] have first: "0 \<le> ?ns ! 0" "?ns ! 0 \<noteq> 0" by linarith+
  have "?ns \<noteq> []" using v(1) by simp
  then have "take (Suc 0) ?ns = [?ns ! 0]" by (cases ?ns) auto
  then have "hashed sh [] \<lparr>hs_hashers = map (\<lambda>_. sh_new sh) ?ns, hs_sizes = ?ns, hs_file_index = 0, hs_remaining = ?ns ! 0,
      hs_received = 0, hs_total = uh_total_bytes h\<rparr>"
    using assms(2) v(1,4) first by (auto simp: hashed_def digest_of_def sha_law_def)
  then show ?thesis using assms(1) v(3) by (simp add: hashes_new_def Let_def tracks_def)
qed

lemma hashed_received [simp]: "hashed sh d (u\<lparr>hs_received := x\<rparr>) = hashed sh d u"
  by (simp add: hashed_def)

lemma hashes_consume_tracks:
  assumes "tracks sh d u" and "sha_law sh" and "data \<noteq> []" and "length data \<le> MAX_CHUNK"
    and "int (length d) + int (length data) \<le> hs_total u"
  shows "\<exists>u'. hashes_consume sh data u = Some (Ok (int (length (d @ data))), u') \<and> tracks sh (d @ data) u' \<and>
    hs_sizes u' = hs_sizes u"
proof -
  let ?u = "u\<lparr>hs_received := hs_received u + int (length data)\<rparr>"
  have "hashed sh d ?u" using assms(1) by (simp add: tracks_def)
  moreover have "int (length d) + int (length data) \<le> sum_list (hs_sizes ?u)"
    using assms(1,5) by (simp add: tracks_def)
  ultimately obtain u' where "consume_loop sh data ?u = Some u'" "hashed sh (d @ data) u'" "hs_sizes u' = hs_sizes ?u"
    "hs_received u' = hs_received ?u" "hs_total u' = hs_total ?u"
    using consume_loop_returns assms(2) by blast
  then show ?thesis using assms by (simp add: hashes_consume_def tracks_def)
qed

text \<open>A sequence of chunks, each accepted.\<close>

fun feed :: "'h sha \<Rightarrow> bytes list \<Rightarrow> 'h upload_hashes \<Rightarrow> 'h upload_hashes option" where
  "feed sh [] u = Some u"
| "feed sh (c # cs) u = (case hashes_consume sh c u of Some (Inr _, u') \<Rightarrow> feed sh cs u' | _ \<Rightarrow> None)"

lemma feed_tracks:
  assumes "tracks sh d u" and "sha_law sh" and "list_all (\<lambda>c. c \<noteq> [] \<and> length c \<le> MAX_CHUNK) chunks"
    and "int (length d) + int (length (concat chunks)) \<le> hs_total u"
  shows "\<exists>u'. feed sh chunks u = Some u' \<and> tracks sh (d @ concat chunks) u' \<and> hs_sizes u' = hs_sizes u"
  using assms
proof (induction chunks arbitrary: d u)
  case (Cons c cs)
  obtain u' where u': "hashes_consume sh c u = Some (Ok (int (length (d @ c))), u')" "tracks sh (d @ c) u'" "hs_sizes u' = hs_sizes u"
    using hashes_consume_tracks [OF Cons.prems(1,2), of c] Cons.prems(3,4) by auto
  moreover have "hs_total u' = hs_total u" using u' Cons.prems(1) by (simp add: tracks_def)
  ultimately show ?case using Cons.IH [OF u'(2) Cons.prems(2)] Cons.prems(3,4) by simp
qed simp

section \<open>Paths\<close>

lemma staged_name_inj:
  assumes "i < MAX_FILES" and "j < MAX_FILES" and "staged_name i e = staged_name j f"
  shows "i = j"
proof -
  let ?ds = "\<lambda>i. pad4 (decimal (Suc i))"
  have vals: "map ?ds [0..<16] = [''0001'', ''0002'', ''0003'', ''0004'', ''0005'', ''0006'', ''0007'', ''0008'', ''0009'',
      ''0010'', ''0011'', ''0012'', ''0013'', ''0014'', ''0015'', ''0016'']"
    by code_simp
  have len: "list_all (\<lambda>s. length s = 4) (map ?ds [0..<16])" unfolding vals by simp
  have "length (?ds k) = 4" if "k < 16" for k
  proof -
    have "?ds k \<in> set (map ?ds [0..<16])" using that by auto
    then show ?thesis using len unfolding list_all_iff by blast
  qed
  moreover have "i < 16" "j < 16" using assms(1,2) by (simp_all add: limits)
  ultimately have "?ds i = ?ds j" using assms(3) by (simp add: staged_name_def)
  moreover have "distinct (map ?ds [0..<16])" unfolding vals by simp
  then have "inj_on ?ds (set [0..<16])" unfolding distinct_map by blast
  ultimately show ?thesis using \<open>i < 16\<close> \<open>j < 16\<close> by (simp add: inj_on_def)
qed

lemma valid_path_parts:
  assumes "valid_path path stage_dir index extension"
  shows "\<exists>dirs. path = concat (map ((#) CHR ''/'') (dirs @ [''staged-files-v1'', stage_dir, staged_name index extension])) \<and>
    list_all (\<lambda>d. d \<notin> {[], ''.'', ''..''} \<and> CHR ''/'' \<notin> set d) dirs \<and>
    last (split_on CHR ''/'' path) = staged_name index extension"
proof -
  obtain rest where path: "path = CHR ''/'' # rest"
    using assms by (cases path) (auto simp: valid_path_def split: if_splits)
  let ?parts = "split_on CHR ''/'' rest"
  have ok: "list_all (\<lambda>p. p \<notin> {[], ''.'', ''..''}) ?parts"
    using assms path by (auto simp: valid_path_def list_ex_iff list_all_iff split: if_splits)
  obtain front where front: "[] # ?parts = front @ [''staged-files-v1'', stage_dir, staged_name index extension]"
  proof -
    have "case rev ([] # ?parts) of f # d # r # _ \<Rightarrow> f = staged_name index extension \<and> d = stage_dir \<and> r = ''staged-files-v1'' | _ \<Rightarrow> False"
      using assms path by (auto simp: valid_path_def split: if_splits)
    then obtain above where "rev ([] # ?parts) = staged_name index extension # stage_dir # ''staged-files-v1'' # above"
      by (auto split: list.splits)
    then have "[] # ?parts = rev above @ [''staged-files-v1'', stage_dir, staged_name index extension]"
      by (metis append.assoc append_Cons append_Nil rev.simps(2) rev_rev_ident)
    then show ?thesis by (rule that)
  qed
  then obtain dirs where dirs: "?parts = dirs @ [''staged-files-v1'', stage_dir, staged_name index extension]"
    by (cases front) auto
  have "path = concat (map ((#) CHR ''/'') ?parts)" unfolding path by (rule concat_split_on [symmetric])
  moreover have "list_all (\<lambda>d. d \<notin> {[], ''.'', ''..''} \<and> CHR ''/'' \<notin> set d) dirs"
    using ok split_on_no_sep [of _ "CHR ''/''" rest] unfolding dirs by (auto simp: list_all_iff)
  moreover have "last (split_on CHR ''/'' path) = staged_name index extension"
    unfolding path by (simp add: dirs)
  ultimately show ?thesis unfolding dirs by blast
qed

section \<open>Properties\<close>

text \<open>
  C25: the digests an upload is checked against are those of its files, however the browser cut the
  stream. For every start message the gateway accepted, any sequence of nonempty chunks of at most
  256 KiB that does not exceed the announced total is consumed to the end (the loop always
  returns), the byte count is exact, and finishing yields, in order, the digest of each file's
  slice of the whole stream, or the error for an incomplete one; a chunk over the total is refused
  and changes nothing.
\<close>

theorem upload_hash_streaming:
  assumes "decode_start parse raw csrf = Ok h" and "sha_law sh"
    and "list_all (\<lambda>c. c \<noteq> [] \<and> length c \<le> MAX_CHUNK) chunks" and "int (length (concat chunks)) \<le> uh_total_bytes h"
  shows "\<exists>u0 u. hashes_new sh h = Ok u0 \<and> feed sh chunks u0 = Some u \<and> hs_received u = int (length (concat chunks)) \<and>
    hashes_finish sh u =
      (if int (length (concat chunks)) = uh_total_bytes h
       then Ok (map (\<lambda>part. sh_final sh (digest_of sh part)) (split_sizes (map fh_size (uh_files h)) (concat chunks)))
       else Err UIncomplete) \<and>
    (\<forall>extra. uh_total_bytes h - int (length (concat chunks)) < int (length extra) \<longrightarrow>
       hashes_consume sh extra u = Some (Err USize, u))"
proof -
  have valid: "valid_header h False"
    using assms(1) by (auto simp: decode_start_def Let_def and_then_Ok_iff split: if_splits option.splits)
  obtain u0 where u0: "hashes_new sh h = Ok u0" "tracks sh [] u0" "hs_sizes u0 = map fh_size (uh_files h)"
    using hashes_new_tracks [OF valid assms(2)] by blast
  have total_eq: "uh_total_bytes h = sum_list (hs_sizes u0)" using valid_header_sizes(3) [OF valid] u0(3) by simp
  then obtain u where u: "feed sh chunks u0 = Some u" "tracks sh (concat chunks) u" "hs_sizes u = hs_sizes u0"
    using feed_tracks [OF u0(2) assms(2,3)] assms(4) u0(2) by (auto simp: tracks_def)
  have "hashes_finish sh u =
      (if int (length (concat chunks)) = uh_total_bytes h
       then Ok (map (\<lambda>part. sh_final sh (digest_of sh part)) (split_sizes (map fh_size (uh_files h)) (concat chunks)))
       else Err UIncomplete)"
    using u(2,3) u0(3) total_eq hashedD(3) [of sh "concat chunks" u]
    by (simp add: hashes_finish_def is_complete_def tracks_def)
  moreover have "hashes_consume sh extra u = Some (Err USize, u)"
    if "uh_total_bytes h - int (length (concat chunks)) < int (length extra)" for extra
    using u(2,3) total_eq that by (simp add: hashes_consume_def tracks_def)
  ultimately show ?thesis using u0(1) u(1,2) by (auto simp: tracks_def)
qed

definition sample_sha :: "bytes sha" where
  "sample_sha = \<lparr>sh_new = [], sh_update = (@), sh_final = (\<lambda>h. h)\<rparr>"

definition sample_start :: json where
  "sample_start = JObj [(''type'', JStr ''start''), (''csrf'', JStr ''token''),
     (''session'', JObj [(''id'', JStr ''$12''), (''created_at'', JInt 123)]),
     (''files'', JArr [JObj [(''size'', JInt 2), (''extension'', JStr ''txt'')], JObj [(''size'', JInt 3)]])]"

definition sample_header :: upload_header where
  "sample_header = \<lparr>uh_protocol_version = 1, uh_request_id = [], uh_session = Some \<lparr>si_id = ''$12'', si_created_at = 123\<rparr>,
     uh_file_count = 2, uh_total_bytes = 5,
     uh_files = [\<lparr>fh_index = 0, fh_size = 2, fh_extension = ''txt''\<rparr>, \<lparr>fh_index = 1, fh_size = 3, fh_extension = []\<rparr>]\<rparr>"

lemma sample_start_decoded: "decode_start (\<lambda>_. Some sample_start) ''{}'' ''token'' = Ok sample_header"
  by code_simp

theorem upload_hash_streaming_witness:
  "\<exists>u0 u. hashes_new sample_sha sample_header = Ok u0 \<and> feed sample_sha [''a'', ''bcde''] u0 = Some u \<and>
     hashes_finish sample_sha u = Ok [''ab'', ''cde'']"
proof -
  have law: "sha_law sample_sha" by (simp add: sha_law_def sample_sha_def)
  have fits: "list_all (\<lambda>c. c \<noteq> [] \<and> length c \<le> MAX_CHUNK) [''a'', ''bcde'']" by (simp add: limits)
  have len: "int (length (concat [''a'', ''bcde''])) \<le> uh_total_bytes sample_header" by (simp add: sample_header_def)
  have parts: "map (\<lambda>part. sh_final sample_sha (digest_of sample_sha part))
      (split_sizes (map fh_size (uh_files sample_header)) (concat [''a'', ''bcde''])) = [''ab'', ''cde'']"
    by (simp add: sample_sha_def sample_header_def digest_of_def)
  have eq: "int (length (concat [''a'', ''bcde''])) = uh_total_bytes sample_header" by (simp add: sample_header_def)
  from upload_hash_streaming [OF sample_start_decoded law fits len] show ?thesis
    unfolding parts if_P [OF eq] by blast
qed

text \<open>
  C38: an accepted completion describes exactly what was uploaded. It echoes the request and the
  session of the header; its files have, in order, the announced sizes and the digests the gateway
  computed; and each path is a clean absolute path, with no empty, dot or dot-dot component, whose
  last three components are the staging root, the directory of this stage and the name of this
  file, so no two files of an upload share a path.
\<close>

theorem completion_matches_upload:
  assumes "validate_completion r h hashes = Ok out"
  shows "sp_request_id out = uh_request_id h \<and> uh_session h = Some (sp_session out) \<and>
    map sf_size (sp_files out) = map fh_size (uh_files h) \<and> map sf_sha256 (sp_files out) = hashes \<and>
    distinct (map sf_path (sp_files out)) \<and>
    (\<forall>i<length (sp_files out). \<exists>dirs.
       sf_path (sp_files out ! i) = concat (map ((#) CHR ''/'') (dirs @ [''staged-files-v1'',
         decimal (nat (sp_expires_at_unix out)) @ ''-'' @ sp_stage_id out, staged_name i (fh_extension (uh_files h ! i))])) \<and>
       list_all (\<lambda>d. d \<notin> {[], ''.'', ''..''} \<and> CHR ''/'' \<notin> set d) dirs)"
proof -
  let ?dir = "decimal (nat (sp_expires_at_unix out)) @ ''-'' @ sp_stage_id out"
  have hdr: "valid_header h True" and lens: "length hashes = length (uh_files h)" "length (sr_files r) = length (uh_files h)"
    and ids: "sp_request_id out = uh_request_id h" "uh_session h = Some (sp_session out)"
    and files: "sp_files out = map (\<lambda>(index, f). \<lparr>sf_index = index, sf_path = sf_path f, sf_size = fh_size (uh_files h ! index),
        sf_sha256 = sf_sha256 f\<rparr>) (enumerate 0 (sr_files r))"
    and staged: "list_all (\<lambda>(index, f). valid_staged ?dir index (uh_files h ! index) (hashes ! index) f) (enumerate 0 (sr_files r))"
    using assms by (auto simp: validate_completion_def Let_def split: if_splits option.splits)
  have at: "length (sp_files out) = length (uh_files h)"
    "\<And>i. i < length (uh_files h) \<Longrightarrow> sp_files out ! i = \<lparr>sf_index = i, sf_path = sf_path (sr_files r ! i),
        sf_size = fh_size (uh_files h ! i), sf_sha256 = sf_sha256 (sr_files r ! i)\<rparr>"
    using files lens by (simp_all add: nth_enumerate_eq)
  have ok: "valid_staged ?dir i (uh_files h ! i) (hashes ! i) (sr_files r ! i)" if "i < length (uh_files h)" for i
    using staged that lens by (simp add: list_all_enumerate)
  have paths: "\<exists>dirs. sf_path (sp_files out ! i) = concat (map ((#) CHR ''/'') (dirs @ [''staged-files-v1'', ?dir,
        staged_name i (fh_extension (uh_files h ! i))])) \<and>
      list_all (\<lambda>d. d \<notin> {[], ''.'', ''..''} \<and> CHR ''/'' \<notin> set d) dirs \<and>
      last (split_on CHR ''/'' (sf_path (sp_files out ! i))) = staged_name i (fh_extension (uh_files h ! i))"
    if "i < length (uh_files h)" for i
  proof (rule valid_path_parts)
    show "valid_path (sf_path (sp_files out ! i)) ?dir i (fh_extension (uh_files h ! i))"
      using ok [OF that] at(2) [OF that] by (simp add: valid_staged_def)
  qed
  have "map sf_size (sp_files out) = map fh_size (uh_files h)" "map sf_sha256 (sp_files out) = hashes"
    using at ok lens by (auto intro!: nth_equalityI simp: valid_staged_def)
  moreover have "distinct (map sf_path (sp_files out))"
  proof (unfold distinct_conv_nth, intro allI impI)
    fix i j
    assume ij: "i < length (map sf_path (sp_files out))" "j < length (map sf_path (sp_files out))" "i \<noteq> j"
    then have ij': "i < length (uh_files h)" "j < length (uh_files h)" using at(1) by simp_all
    then have "staged_name i (fh_extension (uh_files h ! i)) \<noteq> staged_name j (fh_extension (uh_files h ! j))"
      using staged_name_inj ij(3) valid_header_sizes(2) [OF hdr] by (metis order_less_le_trans)
    then have "sf_path (sp_files out ! i) \<noteq> sf_path (sp_files out ! j)"
      using paths [OF ij'(1)] paths [OF ij'(2)] by metis
    then show "map sf_path (sp_files out) ! i \<noteq> map sf_path (sp_files out) ! j" using ij(1,2) by simp
  qed
  moreover have "\<forall>i<length (sp_files out). \<exists>dirs.
       sf_path (sp_files out ! i) = concat (map ((#) CHR ''/'') (dirs @ [''staged-files-v1'', ?dir,
         staged_name i (fh_extension (uh_files h ! i))])) \<and>
       list_all (\<lambda>d. d \<notin> {[], ''.'', ''..''} \<and> CHR ''/'' \<notin> set d) dirs"
    (is "\<forall>i<_. ?clean i")
  proof (intro allI impI)
    fix i
    assume "i < length (sp_files out)"
    then have "i < length (uh_files h)" by (simp only: at(1))
    from paths [OF this] show "?clean i" by (elim exE conjE) (intro exI conjI)
  qed
  ultimately show ?thesis using ids by blast
qed

definition staged_header :: upload_header where
  "staged_header = sample_header\<lparr>uh_request_id := replicate 32 CHR ''a'', uh_file_count := 1, uh_total_bytes := 2,
     uh_files := [\<lparr>fh_index = 0, fh_size = 2, fh_extension = ''txt''\<rparr>]\<rparr>"

definition sample_result :: stage_result where
  "sample_result = \<lparr>sr_protocol_version = 1, sr_request_id = replicate 32 CHR ''a'', sr_stage_id = replicate 32 CHR ''b'',
     sr_session = Some \<lparr>si_id = ''$12'', si_created_at = 123\<rparr>, sr_expires_at_unix = 7,
     sr_files = [\<lparr>sf_index = 0, sf_path = ''/h/staged-files-v1/7-'' @ replicate 32 CHR ''b'' @ ''/file-0001.txt'', sf_size = 2,
       sf_sha256 = replicate 64 CHR ''c''\<rparr>]\<rparr>"

theorem completion_matches_upload_witness:
  "\<exists>out. validate_completion sample_result staged_header [replicate 64 CHR ''c''] = Ok out \<and>
     map sf_size (sp_files out) = [2] \<and> sp_request_id out = replicate 32 CHR ''a''"
proof -
  have hex: "list_all is_lower_hex (replicate n c)" if "c \<in> {CHR ''a'', CHR ''b'', CHR ''c''}" for n c
    using that by (auto simp: list_all_iff ascii_defs)
  have header: "valid_header staged_header True"
    by (simp add: valid_header_def staged_header_def sample_header_def valid_hex_id_def valid_session_def dollar_digits_def
        valid_file_def limits is_i64_def hex) (simp add: ascii_defs)
  have "decimal 7 = ''7''" "decimal 1 = ''1''" by code_simp+
  then have "valid_path (''/h/staged-files-v1/7-'' @ replicate 32 CHR ''b'' @ ''/file-0001.txt'') (decimal 7 @ ''-'' @ replicate 32 CHR ''b'')
      0 ''txt''"
    by (simp add: valid_path_def staged_name_def pad4_def numeral_eq_Suc)
  then have "is_Ok (validate_completion sample_result staged_header [replicate 64 CHR ''c''])"
    using header
    by (simp add: validate_completion_def sample_result_def staged_header_def sample_header_def valid_staged_def valid_hex_id_def
        Let_def hex)
  then obtain out where out: "validate_completion sample_result staged_header [replicate 64 CHR ''c''] = Ok out"
    by (cases "validate_completion sample_result staged_header [replicate 64 CHR ''c'']") auto
  from completion_matches_upload [OF this] have "map sf_size (sp_files out) = map fh_size (uh_files staged_header)"
    and "sp_request_id out = uh_request_id staged_header" by blast+
  then show ?thesis using out by (simp add: staged_header_def)
qed

end
