(* ===== verification/Session_Location.thy ===== *)
theory Session_Location
  imports Model "HOL-Library.Word"
begin

text \<open>
  The login labels of \<open>hmux-gateway/src/session_location.rs\<close>: which addresses may be looked up at
  all, the label a response yields, and the lookup cache shared by concurrent requests. The HTTP
  fetch, the JSON parser and the clock are arguments; concurrent lookups are steps on the shared
  state, one per locked section.
\<close>

section \<open>Addresses\<close>

datatype ip = V4 "32 word" | V6 "128 word"

text \<open>\<open>IpAddr::to_canonical\<close>: an IPv4-mapped IPv6 address is its IPv4 address.\<close>

definition to_canonical :: "ip \<Rightarrow> ip" where
  "to_canonical a =
     (case a of
        V4 v \<Rightarrow> V4 v
      | V6 v \<Rightarrow> if drop_bit 32 v = 0xFFFF then V4 (ucast v) else V6 v)"

definition same_prefix :: "nat \<Rightarrow> 'a::len word \<Rightarrow> 'a word \<times> nat \<Rightarrow> bool" where
  "same_prefix width v p = (case p of (base, bits) \<Rightarrow> drop_bit (width - bits) v = drop_bit (width - bits) base)"

definition V4_RESERVED :: "(32 word \<times> nat) list" where
  "V4_RESERVED =
    [(0x0, 8), (0xA000000, 8), (0x64400000, 10), (0x7F000000, 8), (0xA9FE0000, 16), (0xAC100000, 12),
     (0xC0000000, 24), (0xC0000200, 24), (0xC0586300, 24), (0xC0A80000, 16), (0xC6120000, 15), (0xC6336400, 24),
     (0xCB007100, 24), (0xE0000000, 4), (0xF0000000, 4)]"

definition V6_RESERVED :: "(128 word \<times> nat) list" where
  "V6_RESERVED =
    [(0x0, 96), (0x64FF9B000000000000000000000000, 96), (0x64FF9B000100000000000000000000, 48),
     (0x1000000000000000000000000000000, 64), (0x20010000000000000000000000000000, 23), (0x20010DB8000000000000000000000000, 32),
     (0x20020000000000000000000000000000, 16), (0x3FFF0000000000000000000000000000, 20), (0x5F000000000000000000000000000000, 16),
     (0xFC000000000000000000000000000000, 7), (0xFE800000000000000000000000000000, 10), (0xFF000000000000000000000000000000, 8)]"

definition public_ip :: "ip \<Rightarrow> bool" where
  "public_ip a =
     (case to_canonical a of
        V4 v \<Rightarrow> \<not> list_ex (same_prefix 32 v) V4_RESERVED
      | V6 v \<Rightarrow> \<not> list_ex (same_prefix 128 v) V6_RESERVED)"

section \<open>Labels\<close>

record location_response =
  lc_success :: "bool option"
  lc_city :: "utext option"
  lc_region :: "utext option"
  lc_country :: "utext option"

definition usable_part :: "utext option \<Rightarrow> utext option" where
  "usable_part p =
     (let part = trim (case p of None \<Rightarrow> [] | Some v \<Rightarrow> v) in
      if part = [] \<or> 160 < text_len part \<or> list_ex (\<lambda>c. c = 0x0D \<or> c = 0x0A \<or> c = 0) part then None else Some part)"

fun collect_parts :: "utext list \<Rightarrow> utext option list \<Rightarrow> utext list" where
  "collect_parts parts [] = parts"
| "collect_parts parts (p # ps) =
     (case usable_part p of
        None \<Rightarrow> collect_parts parts ps
      | Some part \<Rightarrow>
          collect_parts (if parts \<noteq> [] \<and> last parts = part then parts else parts @ [part]) ps)"

fun join_comma :: "utext list \<Rightarrow> utext" where
  "join_comma [] = []"
| "join_comma [p] = p"
| "join_comma (p # ps) = p @ [0x2C, 0x20] @ join_comma ps"

definition label :: "(bytes \<Rightarrow> location_response option) \<Rightarrow> bytes \<Rightarrow> utext" where
  "label parse raw =
     (if 8192 < length raw then []
      else case parse raw of
        None \<Rightarrow> []
      | Some r \<Rightarrow>
          if lc_success r \<noteq> Some True then []
          else join_comma (collect_parts [] [lc_city r, lc_region r, lc_country r]))"

section \<open>The lookup cache\<close>

datatype fetch_error =
  FInvalid | FBusy | FUnauthorized | FCancelled | FTimeout | FUnavailable | FRedirect

record cache_entry =
  ce_label :: utext
  ce_expires :: instant

record location_state =
  ls_cache :: "(ip \<times> cache_entry) list"
  ls_pending :: "ip list"

definition location_default :: location_state where
  "location_default = \<lparr>ls_cache = [], ls_pending = []\<rparr>"

text \<open>
  The guard's \<open>drop\<close>. \<open>oldest\<close> is \<open>min_by_key\<close> over the hash map, whose choice among equal keys is
  unspecified.
\<close>

definition evict :: "((ip \<times> cache_entry) list \<Rightarrow> ip option) \<Rightarrow> (ip \<times> cache_entry) list \<Rightarrow> (ip \<times> cache_entry) list" where
  "evict oldest m =
     (if 256 \<le> length m then (case oldest m of None \<Rightarrow> m | Some a \<Rightarrow> remove_key a m) else m)"

definition pending_drop ::
  "((ip \<times> cache_entry) list \<Rightarrow> ip option) \<Rightarrow> instant \<Rightarrow> ip \<Rightarrow> utext option \<Rightarrow> location_state \<Rightarrow> location_state" where
  "pending_drop oldest now address outcome st =
     (let st = (case outcome of
            None \<Rightarrow> st
          | Some l \<Rightarrow> st\<lparr>ls_cache := insert_key address
              \<lparr>ce_label = l, ce_expires = now + seconds ((if l = [] then 1 else 24) * 3600)\<rparr> (evict oldest (ls_cache st))\<rparr>)
      in st\<lparr>ls_pending := removeAll address (ls_pending st)\<rparr>)"

datatype lookup_turn = LookedUp utext | AwaitOther | FetchOwn

definition lookup_begin :: "location_state \<Rightarrow> ip \<Rightarrow> instant \<Rightarrow> lookup_turn \<times> location_state" where
  \<comment> \<open>the locked section at the head of the loop\<close>
  "lookup_begin st address now =
     (case map_of (ls_cache st) address of
        Some e \<Rightarrow>
          if now < ce_expires e then (LookedUp (ce_label e), st)
          else if address \<in> set (ls_pending st) then (AwaitOther, st)
          else if 2 \<le> length (ls_pending st) then (LookedUp [], st)
          else (FetchOwn, st\<lparr>ls_pending := address # ls_pending st\<rparr>)
      | None \<Rightarrow>
          if address \<in> set (ls_pending st) then (AwaitOther, st)
          else if 2 \<le> length (ls_pending st) then (LookedUp [], st)
          else (FetchOwn, st\<lparr>ls_pending := address # ls_pending st\<rparr>))"

definition fetched_label :: "(bytes \<Rightarrow> location_response option) \<Rightarrow> (fetch_error, bytes) result \<Rightarrow> utext" where
  "fetched_label parse r = (case r of Inl _ \<Rightarrow> [] | Inr raw \<Rightarrow> label parse raw)"

definition owner_result :: "(bytes \<Rightarrow> location_response option) \<Rightarrow> (fetch_error, bytes) result \<Rightarrow> utext option" where
  \<comment> \<open>cancelled work is not cached as a failure\<close>
  "owner_result parse r =
     (if r = Err FCancelled \<or> r = Err FTimeout \<or> r = Err FBusy then None else Some (fetched_label parse r))"

text \<open>
  One whole lookup: \<open>turns\<close> are the states and times its locked sections meet after each wait, and
  \<open>fetched\<close> the answer to its own request with the state and time at the end. \<open>None\<close>: it is still
  waiting.
\<close>

fun lookup_inner ::
  "(bytes \<Rightarrow> location_response option) \<Rightarrow> ((ip \<times> cache_entry) list \<Rightarrow> ip option) \<Rightarrow> (location_state \<times> instant) list \<Rightarrow>
    (fetch_error, bytes) result \<times> location_state \<times> instant \<Rightarrow> ip \<Rightarrow> (utext \<times> location_state) option" where
  "lookup_inner parse oldest [] fetched address = None"
| "lookup_inner parse oldest ((st, now) # turns) fetched address =
     (case lookup_begin st address now of
        (LookedUp l, st') \<Rightarrow> Some (l, st')
      | (AwaitOther, _) \<Rightarrow> lookup_inner parse oldest turns fetched address
      | (FetchOwn, _) \<Rightarrow>
          (case fetched of (r, st, now) \<Rightarrow>
             Some (fetched_label parse r, pending_drop oldest now address (owner_result parse r) st)))"

definition INTERNAL :: utext where
  "INTERNAL = [0xB0B4, 0xBD80, 0xB7, 0xC608, 0xC57D, 0x20, 0xB124, 0xD2B8, 0xC6CC, 0xD06C]"

definition lookup :: "(string \<Rightarrow> ip option) \<Rightarrow> bool \<Rightarrow> (ip \<Rightarrow> utext option) \<Rightarrow> string \<Rightarrow> utext" where
  \<comment> \<open>\<open>inner\<close> is the outcome of \<open>lookup_inner\<close> within its timeout\<close>
  "lookup parse_ip stopped inner v =
     (case parse_ip v of
        None \<Rightarrow> []
      | Some a \<Rightarrow>
          let address = to_canonical a in
          if \<not> public_ip address then INTERNAL
          else if stopped then []
          else (case inner address of None \<Rightarrow> [] | Some l \<Rightarrow> l))"

record login_row =
  lr_ip :: string
  lr_location :: utext

definition enrich_slice :: "(string \<Rightarrow> utext) \<Rightarrow> nat \<Rightarrow> login_row list \<Rightarrow> login_row list" where
  \<comment> \<open>\<open>n\<close> rows were finished before the deadline\<close>
  "enrich_slice look n rows = map (\<lambda>r. r\<lparr>lr_location := look (lr_ip r)\<rparr>) (take n rows) @ drop n rows"

definition enrich ::
  "(string \<Rightarrow> ip option) \<Rightarrow> (string \<Rightarrow> utext) \<Rightarrow> nat \<Rightarrow> nat \<Rightarrow> login_row list \<Rightarrow> login_row list" where
  "enrich parse_ip look n1 n2 rows =
     (let rows = map (\<lambda>r. if (case parse_ip (lr_ip r) of None \<Rightarrow> False | Some a \<Rightarrow> \<not> public_ip a)
            then r\<lparr>lr_location := INTERNAL\<rparr> else r) rows;
          half = (length rows + 1) div 2
      in enrich_slice look n1 (take half rows) @ enrich_slice look n2 (drop half rows))"

section \<open>The address policy as intervals\<close>

definition V4_RANGES :: "(int \<times> int) list" where
  "V4_RANGES =
    [(0x0, 0xFFFFFF), (0xA000000, 0xAFFFFFF), (0x64400000, 0x647FFFFF), (0x7F000000, 0x7FFFFFFF),
     (0xA9FE0000, 0xA9FEFFFF), (0xAC100000, 0xAC1FFFFF), (0xC0000000, 0xC00000FF), (0xC0000200, 0xC00002FF),
     (0xC0586300, 0xC05863FF), (0xC0A80000, 0xC0A8FFFF), (0xC6120000, 0xC613FFFF), (0xC6336400, 0xC63364FF),
     (0xCB007100, 0xCB0071FF), (0xE0000000, 0xEFFFFFFF), (0xF0000000, 0xFFFFFFFF)]"

definition V6_RANGES :: "(int \<times> int) list" where
  "V6_RANGES =
    [(0x0, 0xFFFFFFFF),
     (0x64FF9B000000000000000000000000, 0x64FF9B0000000000000000FFFFFFFF),
     (0x64FF9B000100000000000000000000, 0x64FF9B0001FFFFFFFFFFFFFFFFFFFF),
     (0x1000000000000000000000000000000, 0x100000000000000FFFFFFFFFFFFFFFF),
     (0x20010000000000000000000000000000, 0x200101FFFFFFFFFFFFFFFFFFFFFFFFFF),
     (0x20010DB8000000000000000000000000, 0x20010DB8FFFFFFFFFFFFFFFFFFFFFFFF),
     (0x20020000000000000000000000000000, 0x2002FFFFFFFFFFFFFFFFFFFFFFFFFFFF),
     (0x3FFF0000000000000000000000000000, 0x3FFF0FFFFFFFFFFFFFFFFFFFFFFFFFFF),
     (0x5F000000000000000000000000000000, 0x5F00FFFFFFFFFFFFFFFFFFFFFFFFFFFF),
     (0xFC000000000000000000000000000000, 0xFDFFFFFFFFFFFFFFFFFFFFFFFFFFFFFF),
     (0xFE800000000000000000000000000000, 0xFEBFFFFFFFFFFFFFFFFFFFFFFFFFFFFF),
     (0xFF000000000000000000000000000000, 0xFFFFFFFFFFFFFFFFFFFFFFFFFFFFFFFF)]"

definition between :: "int \<Rightarrow> int \<times> int \<Rightarrow> bool" where
  "between x r = (fst r \<le> x \<and> x \<le> snd r)"

lemma div_eq_iff:
  assumes pos: "0 < (m::int)"
  shows "x div m = q \<longleftrightarrow> q * m \<le> x \<and> x < (q + 1) * m"
proof
  assume "x div m = q"
  then have "x = q * m + x mod m" by (metis div_mult_mod_eq)
  then show "q * m \<le> x \<and> x < (q + 1) * m"
    using pos_mod_sign [OF pos, of x] pos_mod_bound [OF pos, of x] by (simp add: distrib_right)
next
  assume "q * m \<le> x \<and> x < (q + 1) * m"
  with pos show "x div m = q" by (intro int_div_pos_eq [of _ _ _ "x - q * m"]) (auto simp: algebra_simps)
qed

lemma uint_drop_bit: "uint (drop_bit n w) = uint w div 2 ^ n" for w :: "'a::len word"
proof -
  have "int (unat (drop_bit n w)) = int (unat w div 2 ^ n)"
    unfolding unat_drop_bit_eq by (simp only: drop_bit_eq_div)
  also have "\<dots> = int (unat w) div 2 ^ n" by (simp only: zdiv_int of_nat_power of_nat_numeral)
  finally show ?thesis by (simp only: flip: uint_nat)
qed

lemma same_prefix_interval:
  "same_prefix width v (base, bits) \<longleftrightarrow>
     uint base div 2 ^ (width - bits) * 2 ^ (width - bits) \<le> uint v \<and>
     uint v \<le> (uint base div 2 ^ (width - bits) + 1) * 2 ^ (width - bits) - 1"
proof -
  have "same_prefix width v (base, bits) \<longleftrightarrow> uint v div 2 ^ (width - bits) = uint base div 2 ^ (width - bits)"
    by (simp add: same_prefix_def word_uint_eq_iff uint_drop_bit)
  then show ?thesis using div_eq_iff [of "2 ^ (width - bits)" "uint v"] by auto
qed

lemma v4_reserved_ranges: "list_ex (same_prefix 32 v) V4_RESERVED \<longleftrightarrow> list_ex (between (uint v)) V4_RANGES"
  by (simp add: V4_RESERVED_def V4_RANGES_def same_prefix_interval between_def)

lemma v6_reserved_ranges: "list_ex (same_prefix 128 v) V6_RESERVED \<longleftrightarrow> list_ex (between (uint v)) V6_RANGES"
  by (simp add: V6_RESERVED_def V6_RANGES_def same_prefix_interval between_def)

lemma to_canonical_idem [simp]: "to_canonical (to_canonical a) = to_canonical a"
  by (cases a) (auto simp: to_canonical_def)

lemma public_ip_canonical [simp]: "public_ip (to_canonical a) = public_ip a"
  by (simp add: public_ip_def)

section \<open>Labels are clean\<close>

definition clean_label :: "utext \<Rightarrow> bool" where
  "clean_label l \<longleftrightarrow> text_len l \<le> 484 \<and> list_all (\<lambda>c. c \<noteq> 0x0D \<and> c \<noteq> 0x0A \<and> c \<noteq> 0) l"

definition clean_part :: "utext \<Rightarrow> bool" where
  "clean_part l \<longleftrightarrow> text_len l \<le> 160 \<and> list_all (\<lambda>c. c \<noteq> 0x0D \<and> c \<noteq> 0x0A \<and> c \<noteq> 0) l"

lemma collect_parts_clean:
  "list_all clean_part parts \<Longrightarrow>
     list_all clean_part (collect_parts parts ps) \<and> length (collect_parts parts ps) \<le> length parts + length ps"
proof (induction parts ps rule: collect_parts.induct)
  case (2 parts p ps)
  show ?case
  proof (cases "usable_part p")
    case None
    then show ?thesis using 2 by auto
  next
    case (Some part)
    then have "clean_part part"
      by (auto simp: usable_part_def Let_def clean_part_def list_all_iff list_ex_iff split: if_splits)
    then show ?thesis using 2 Some by (auto split: if_splits)
  qed
qed simp

lemma join_comma_clean:
  "list_all clean_part ps \<Longrightarrow>
     text_len (join_comma ps) \<le> length ps * 162 - (if ps = [] then 0 else 2) \<and>
     list_all (\<lambda>c. c \<noteq> 0x0D \<and> c \<noteq> 0x0A \<and> c \<noteq> 0) (join_comma ps)"
  by (induction ps rule: join_comma.induct) (auto simp: clean_part_def text_len_def len_utf8_def)

lemma clean_label_Nil [simp]: "clean_label []"
  by (simp add: clean_label_def text_len_def)

lemma label_clean: "clean_label (label parse raw)"
proof -
  have "clean_label (join_comma (collect_parts [] [a, b, c]))" for a b c
  proof -
    have "list_all clean_part (collect_parts [] [a, b, c])" and "length (collect_parts [] [a, b, c]) \<le> 3"
      using collect_parts_clean [of "[]" "[a, b, c]"] by auto
    then show ?thesis
      using join_comma_clean [of "collect_parts [] [a, b, c]"] by (auto simp: clean_label_def split: if_splits)
  qed
  then show ?thesis by (auto simp: label_def split: option.split)
qed

lemma fetched_label_clean: "clean_label (fetched_label parse r)"
  by (auto simp: fetched_label_def label_clean split: sum.split)

section \<open>The shared cache\<close>

definition min_law :: "((ip \<times> cache_entry) list \<Rightarrow> ip option) \<Rightarrow> bool" where
  \<comment> \<open>\<open>Iterator::min_by_key\<close>\<close>
  "min_law oldest \<longleftrightarrow>
     (\<forall>m. m \<noteq> [] \<longrightarrow> (\<exists>a e. oldest m = Some a \<and> (a, e) \<in> set m \<and> list_all (\<lambda>f. ce_expires e \<le> ce_expires (snd f)) m))"

definition lookable :: "ip \<Rightarrow> bool" where
  "lookable a \<longleftrightarrow> to_canonical a = a \<and> public_ip a"

definition location_ok :: "location_state \<Rightarrow> bool" where
  "location_ok st \<longleftrightarrow>
     wf_map (ls_cache st) \<and> length (ls_cache st) \<le> 256 \<and> distinct (ls_pending st) \<and> length (ls_pending st) \<le> 2 \<and>
     list_all lookable (keys (ls_cache st)) \<and> list_all lookable (ls_pending st) \<and>
     list_all (\<lambda>e. clean_label (ce_label (snd e))) (ls_cache st)"

text \<open>
  What concurrent lookups do to the shared state: the locked section at the head of the loop, the
  end of an own request, and its abandonment when the request is dropped.
\<close>

inductive location_step :: "((ip \<times> cache_entry) list \<Rightarrow> ip option) \<Rightarrow> location_state \<Rightarrow> location_state \<Rightarrow> bool" for oldest where
  begins: "public_ip a \<Longrightarrow> location_step oldest st (snd (lookup_begin st (to_canonical a) now))"
| fetched: "a \<in> set (ls_pending st) \<Longrightarrow> location_step oldest st (pending_drop oldest now a (owner_result parse r) st)"
| dropped: "a \<in> set (ls_pending st) \<Longrightarrow> location_step oldest st (pending_drop oldest now a None st)"

inductive_cases location_stepE: "location_step oldest st st'"

lemma lookup_begin_ok [keeps]:
  "location_ok st \<Longrightarrow> public_ip a \<Longrightarrow> location_ok (snd (lookup_begin st (to_canonical a) now))"
  by (auto simp: lookup_begin_def location_ok_def lookable_def split: option.split)

lemma evict_room:
  assumes "min_law oldest" and "wf_map m" and "length m \<le> 256"
  shows "length (evict oldest m) < 256"
proof (cases "256 \<le> length m")
  case True
  then have "m \<noteq> []" by auto
  then obtain a e where ae: "oldest m = Some a" "(a, e) \<in> set m" using assms(1) unfolding min_law_def by blast
  have "map_of m a \<noteq> None" using map_of_mem [OF assms(2) ae(2)] by simp
  then show ?thesis
    using True ae(1) assms(2,3) length_remove_key [OF assms(2), of a] by (simp add: evict_def)
qed (simp add: evict_def)

lemma set_evict: "set (evict oldest m) \<subseteq> set m"
  by (auto simp: evict_def remove_key_def split: option.split)

lemma wf_evict: "wf_map m \<Longrightarrow> wf_map (evict oldest m)"
  by (auto simp: evict_def split: option.split)

lemma length_removeAll_le: "length (removeAll x xs) \<le> length xs"
  by (simp add: removeAll_filter_not_eq)

lemma pending_drop_ok [keeps]:
  assumes "location_ok st" and "min_law oldest" and "lookable a" and "\<And>l. outcome = Some l \<Longrightarrow> clean_label l"
  shows "location_ok (pending_drop oldest now a outcome st)"
proof (cases outcome)
  case None
  then show ?thesis
    using assms(1) by (auto simp: pending_drop_def location_ok_def list_all_iff distinct_removeAll
        intro: order_trans [OF length_removeAll_le])
next
  case (Some l)
  let ?m = "evict oldest (ls_cache st)"
  define e where "e = \<lparr>ce_label = l, ce_expires = now + seconds ((if l = [] then 1 else 24) * 3600)\<rparr>"
  have c: "wf_map (ls_cache st)" "length (ls_cache st) \<le> 256" using assms(1) by (simp_all add: location_ok_def)
  note m = wf_evict [OF c(1), of oldest] evict_room [OF assms(2) c] set_evict [of oldest "ls_cache st"]
  have "length (insert_key a e ?m) \<le> 256" using m by (simp add: length_insert_key)
  moreover have "lookable (fst x)" if "x \<in> set ?m" for x
    using assms(1) subsetD [OF m(3) that] by (auto simp: location_ok_def list_all_iff keys_def)
  then have "list_all lookable (keys (insert_key a e ?m))"
    using assms(3) by (auto simp: list_all_iff keys_def insert_key_def remove_key_def)
  moreover have "clean_label (ce_label (snd x))" if "x \<in> set ?m" for x
    using assms(1) subsetD [OF m(3) that] by (auto simp: location_ok_def list_all_iff)
  then have "list_all (\<lambda>f. clean_label (ce_label (snd f))) (insert_key a e ?m)"
    using assms(4) [OF Some] by (auto simp: list_all_iff insert_key_def remove_key_def e_def)
  ultimately show ?thesis
    using Some assms(1) m(1)
    by (auto simp: pending_drop_def Let_def location_ok_def list_all_iff distinct_removeAll simp flip: e_def
        intro: order_trans [OF length_removeAll_le])
qed

lemma location_step_ok:
  assumes "min_law oldest" and "location_step oldest st st'" and "location_ok st"
  shows "location_ok st'"
proof -
  have pend: "lookable a" if "a \<in> set (ls_pending st)" for a
    using assms(3) that by (auto simp: location_ok_def list_all_iff)
  have own: "clean_label l" if "owner_result parse r = Some l" for parse r l
    using that fetched_label_clean by (auto simp: owner_result_def split: if_splits)
  show ?thesis
    using assms(2)
  proof cases
    case (begins a now)
    then show ?thesis using lookup_begin_ok assms(3) by simp
  next
    case (fetched a now parse r)
    show ?thesis
      unfolding fetched(1) by (rule pending_drop_ok [OF assms(3,1) pend [OF fetched(2)]]) (rule own)
  next
    case (dropped a now)
    show ?thesis
      unfolding dropped(1) by (rule pending_drop_ok [OF assms(3,1) pend [OF dropped(2)]]) simp
  qed
qed

interpretation locator: step_invariant "\<lambda>st st'. min_law oldest \<and> location_step oldest st st'" location_ok for oldest
  by unfold_locales (auto intro: location_step_ok)

lemma cached_label_served:
  assumes "t < now + seconds ((if l = [] then 1 else 24) * 3600)"
  shows "lookup_begin (pending_drop oldest now a (Some l) st) a t = (LookedUp l, pending_drop oldest now a (Some l) st)"
  using assms by (simp add: lookup_begin_def pending_drop_def Let_def)

lemma enrich_internal:
  assumes "i < length rows" and "parse_ip (lr_ip (rows ! i)) = Some a" and "\<not> public_ip a"
  shows "lr_location (enrich parse_ip (lookup parse_ip stopped inner) n1 n2 rows ! i) = INTERNAL"
proof -
  define first where "first = map (\<lambda>r. if (case parse_ip (lr_ip r) of None \<Rightarrow> False | Some a \<Rightarrow> \<not> public_ip a)
            then r\<lparr>lr_location := INTERNAL\<rparr> else r) rows"
  define half where "half = (length first + 1) div 2"
  let ?look = "lookup parse_ip stopped inner"
  have slice: "lr_location (enrich_slice ?look n xs ! j) = INTERNAL"
    if "j < length xs" "lr_location (xs ! j) = INTERNAL" "parse_ip (lr_ip (xs ! j)) = Some a" for n xs j
    using that assms(3) by (auto simp: enrich_slice_def nth_append lookup_def Let_def)
  have row: "first ! i = (rows ! i)\<lparr>lr_location := INTERNAL\<rparr>" and len: "length first = length rows"
    using assms by (simp_all add: first_def)
  have "enrich parse_ip ?look n1 n2 rows = enrich_slice ?look n1 (take half first) @ enrich_slice ?look n2 (drop half first)"
    by (simp add: enrich_def Let_def first_def half_def)
  moreover have "length (enrich_slice ?look n xs) = length xs" for n xs by (simp add: enrich_slice_def)
  moreover have "half \<le> length first" using assms(1) len by (simp add: half_def)
  ultimately show ?thesis
    using assms(1,2) row len slice [of i "take half first" n1] slice [of "i - half" "drop half first" n2]
    by (simp add: nth_append)
qed

section \<open>Properties\<close>

text \<open>
  The address policy is the published one. An address is looked up outside exactly when its
  canonical form lies in none of the listed reserved intervals, and how an address is written makes
  no difference: its canonical form is judged alike, and an IPv4-mapped IPv6 address is judged as
  the IPv4 address in its last four bytes, so a private address cannot be hidden by mapping it.
\<close>

lemma public_ip_ranges:
  "public_ip (V4 v) = (\<not> list_ex (between (uint v)) V4_RANGES) \<and>
   public_ip (V6 w) =
     (if uint w div 2 ^ 32 = 0xFFFF then public_ip (V4 (word_of_int (uint w mod 2 ^ 32)))
      else \<not> list_ex (between (uint w)) V6_RANGES) \<and>
   public_ip (to_canonical a) = public_ip a \<and> to_canonical (to_canonical a) = to_canonical a"
proof -
  have mapped: "drop_bit 32 w = 0xFFFF \<longleftrightarrow> uint w div 2 ^ 32 = 0xFFFF"
    by (simp add: word_uint_eq_iff uint_drop_bit)
  have low: "ucast w = (word_of_int (uint w mod 2 ^ 32) :: 32 word)"
    by (simp add: word_uint_eq_iff unsigned_ucast_eq take_bit_eq_mod uint_word_of_int)
  have v4: "public_ip (V4 v) = (\<not> list_ex (between (uint v)) V4_RANGES)" for v
    by (simp add: public_ip_def to_canonical_def v4_reserved_ranges)
  have "public_ip (V6 w) = (if drop_bit 32 w = 0xFFFF then public_ip (V4 (ucast w)) else \<not> list_ex (between (uint w)) V6_RANGES)"
    by (simp add: public_ip_def to_canonical_def v6_reserved_ranges)
  then show ?thesis unfolding mapped low using v4 by (intro conjI) (simp_all only: public_ip_canonical to_canonical_idem)
qed

text \<open>
  The lookups of all requests together stay bounded and never leave the allowed addresses. After
  any interleaving of lookups, answers and abandoned requests there are at most 256 cached labels and
  at most two requests in flight, no address twice; every address asked for or cached is canonical
  and public; and every label is at most 484 bytes without line breaks or NUL.
\<close>

lemma locator_bounded:
  assumes "min_law oldest" and "(location_step oldest)\<^sup>*\<^sup>* location_default st"
  shows "length (ls_cache st) \<le> 256 \<and> length (ls_pending st) \<le> 2 \<and> distinct (keys (ls_cache st)) \<and> distinct (ls_pending st) \<and>
    list_all (\<lambda>a. to_canonical a = a \<and> public_ip a) (keys (ls_cache st) @ ls_pending st) \<and>
    list_all (\<lambda>e. text_len (ce_label (snd e)) \<le> 484 \<and> list_all (\<lambda>c. c \<notin> {0x0D, 0x0A, 0}) (ce_label (snd e))) (ls_cache st)"
proof -
  have "(\<lambda>st st'. min_law oldest \<and> location_step oldest st st')\<^sup>*\<^sup>* location_default st"
    using assms(2) by (rule rtranclp_mono [THEN predicate2D, rotated]) (use assms(1) in blast)
  moreover have "location_ok location_default"
    by (simp add: location_ok_def location_default_def keys_def)
  ultimately have "location_ok st" by (rule locator.run_keeps)
  then show ?thesis
    by (simp add: location_ok_def wf_map_def lookable_def [abs_def] clean_label_def)
qed

definition sample_oldest :: "(ip \<times> cache_entry) list \<Rightarrow> ip option" where
  "sample_oldest m = (case sort_key (\<lambda>e. ce_expires (snd e)) m of [] \<Rightarrow> None | e # _ \<Rightarrow> Some (fst e))"

lemma sample_oldest_law: "min_law sample_oldest"
  unfolding min_law_def
proof (intro allI impI)
  fix m :: "(ip \<times> cache_entry) list"
  assume "m \<noteq> []"
  let ?s = "sort_key (\<lambda>e. ce_expires (snd e)) m"
  obtain e es where s: "?s = e # es" using \<open>m \<noteq> []\<close> by (cases ?s) (auto dest: arg_cong [where f = set])
  have "e \<in> set m" using s set_sort [of "\<lambda>e. ce_expires (snd e)" m] by (metis list.set_intros(1))
  moreover have "ce_expires (snd e) \<le> ce_expires (snd f)" if "f \<in> set m" for f
    using that sorted_sort_key [of "\<lambda>e. ce_expires (snd e)" m] set_sort [of "\<lambda>e. ce_expires (snd e)" m] s by auto
  ultimately show "\<exists>a e. sample_oldest m = Some a \<and> (a, e) \<in> set m \<and> list_all (\<lambda>f. ce_expires e \<le> ce_expires (snd f)) m"
    using s by (intro exI [of _ "fst e"] exI [of _ "snd e"]) (simp add: sample_oldest_def list_all_iff)
qed

definition sample_located :: location_state where
  "sample_located = snd (lookup_begin location_default (V4 0x08080808) 0)"

end
