(* ===== verification/Auth.thy ===== *)
theory Auth
  imports Json
begin

text \<open>
  The authentication codecs of \<open>hmux-gateway/src/auth.rs\<close>: one-time codes and their replay rule, the
  credential checks, and the validation of the persisted logins. The cryptographic functions, the
  base32 and base64 codecs, the JSON and time parsers are arguments, gathered in \<open>auth_env\<close>; a point
  in time is a number of nanoseconds since the Unix epoch.
\<close>

section \<open>Credentials\<close>

record credentials =
  cr_username :: string
  cr_salt :: bytes
  cr_hash :: bytes
  cr_totp_secret :: string
  cr_last_step :: int
  cr_totp_disabled :: bool

record auth_env =
  ae_base32 :: "string \<Rightarrow> bytes option"
  ae_hmac_sha1 :: "bytes \<Rightarrow> bytes \<Rightarrow> bytes" \<comment> \<open>the secret and the message\<close>
  ae_sha256 :: "bytes \<Rightarrow> bytes"
  ae_pbkdf2 :: "string \<Rightarrow> bytes \<Rightarrow> bytes" \<comment> \<open>\<open>derive_password\<close>\<close>
  ae_base64 :: "bytes \<Rightarrow> string" \<comment> \<open>the standard alphabet\<close>
  ae_unbase64 :: "string \<Rightarrow> bytes option"
  ae_base64url :: "bytes \<Rightarrow> string"
  ae_unbase64url :: "string \<Rightarrow> bytes option"
  ae_json_string :: "string \<Rightarrow> string" \<comment> \<open>\<open>serde_json::to_string\<close> of a string\<close>
  ae_json :: "bytes \<Rightarrow> json option" \<comment> \<open>the JSON parser\<close>
  ae_time :: "string \<Rightarrow> int option" \<comment> \<open>\<open>parse_go_time\<close>\<close>
  ae_go_time :: "int \<Rightarrow> string" \<comment> \<open>the same format, printed\<close>
  ae_is_ip :: "string \<Rightarrow> bool"

text \<open>Go's escapes on top of the JSON ones: \<open><\<close>, \<open>>\<close>, \<open>&\<close> and the two line separators, which are three bytes each.\<close>

definition unicode_escape :: "string \<Rightarrow> string" where
  "unicode_escape hex = CHR 0x5C # CHR ''u'' # hex"

function go_escape :: "string \<Rightarrow> string" where
  "go_escape v =
     (case v of
        [] \<Rightarrow> []
      | c # cs \<Rightarrow>
          if c = CHR ''<'' then unicode_escape ''003c'' @ go_escape cs
          else if c = CHR ''>'' then unicode_escape ''003e'' @ go_escape cs
          else if c = CHR ''&'' then unicode_escape ''0026'' @ go_escape cs
          else if take 3 v = [CHR 0xE2, CHR 0x80, CHR 0xA8] then unicode_escape ''2028'' @ go_escape (drop 3 v)
          else if take 3 v = [CHR 0xE2, CHR 0x80, CHR 0xA9] then unicode_escape ''2029'' @ go_escape (drop 3 v)
          else c # go_escape cs)"
  by pat_completeness auto
termination by (relation "measure length") auto

declare go_escape.simps [simp del]

definition go_string :: "auth_env \<Rightarrow> string \<Rightarrow> string" where
  "go_string env v = go_escape (ae_json_string env v)"

definition decode_totp_secret :: "auth_env \<Rightarrow> string \<Rightarrow> bytes option" where
  "decode_totp_secret env v =
     (case ae_base32 env v of None \<Rightarrow> None | Some b \<Rightarrow> if length b = 20 then Some b else None)"

definition credentials_valid :: "auth_env \<Rightarrow> credentials \<Rightarrow> bool" where
  "credentials_valid env c \<longleftrightarrow>
     \<not> (cr_username c = [] \<or> length (cr_salt c) \<noteq> 32 \<or> length (cr_hash c) \<noteq> 32 \<or> decode_totp_secret env (cr_totp_secret c) = None)"

definition fingerprint_input :: "auth_env \<Rightarrow> credentials \<Rightarrow> string" where
  "fingerprint_input env c =
     CHR 0x7B # [CHR 0x22] @ ''username'' @ [CHR 0x22, CHR '':''] @ go_string env (cr_username c) @
     [CHR '','', CHR 0x22] @ ''salt'' @ [CHR 0x22, CHR '':''] @ go_string env (ae_base64 env (cr_salt c)) @
     [CHR '','', CHR 0x22] @ ''hash'' @ [CHR 0x22, CHR '':''] @ go_string env (ae_base64 env (cr_hash c)) @
     [CHR '','', CHR 0x22] @ ''totp_secret'' @ [CHR 0x22, CHR '':''] @ go_string env (cr_totp_secret c) @
     (if cr_totp_disabled c then [CHR '','', CHR 0x22] @ ''totp_disabled'' @ [CHR 0x22, CHR '':''] @ ''true'' else []) @ [CHR 0x7D]"

definition fingerprint :: "auth_env \<Rightarrow> credentials \<Rightarrow> string" where
  "fingerprint env c = ae_base64url env (ae_sha256 env (fingerprint_input env c))"

definition matches_password :: "auth_env \<Rightarrow> credentials \<Rightarrow> string \<Rightarrow> bool" where
  "matches_password env c password \<longleftrightarrow> length (cr_hash c) = 32 \<and> ae_pbkdf2 env password (cr_salt c) = cr_hash c"

text \<open>The text of the file: fields in Go's order, the last one only when set.\<close>

definition json_key :: "string \<Rightarrow> string" where
  "json_key k = CHR 0x22 # k @ [CHR 0x22, CHR '':'']"

definition credentials_go_json :: "auth_env \<Rightarrow> credentials \<Rightarrow> string" where
  "credentials_go_json env c =
     CHR 0x7B # json_key ''username'' @ go_string env (cr_username c) @
     CHR '','' # json_key ''salt'' @ go_string env (ae_base64 env (cr_salt c)) @
     CHR '','' # json_key ''hash'' @ go_string env (ae_base64 env (cr_hash c)) @
     CHR '','' # json_key ''totp_secret'' @ go_string env (cr_totp_secret c) @
     CHR '','' # json_key ''last_step'' @ int_decimal (cr_last_step c) @
     (if cr_totp_disabled c then CHR '','' # json_key ''totp_disabled'' @ ''true'' else []) @ [CHR 0x7D]"

text \<open>
  Decoding: \<open>null\<close> is the default object, anything else must be an object without unknown or repeated
  fields; a missing field has its default, a \<open>null\<close> field is an error.
\<close>

definition object_wire :: "string list \<Rightarrow> json \<Rightarrow> (string \<times> json) list option" where
  "object_wire known j = (if j = JNull then Some [] else object_fields known j)"

definition wire_field :: "(string \<times> json) list \<Rightarrow> string \<Rightarrow> 'a \<Rightarrow> (json \<Rightarrow> 'a option) \<Rightarrow> 'a option" where
  "wire_field fs k dflt dec = (case map_of fs k of None \<Rightarrow> Some dflt | Some j \<Rightarrow> dec j)"

definition json_bool :: "json \<Rightarrow> bool option" where
  "json_bool j = (case j of JBool b \<Rightarrow> Some b | _ \<Rightarrow> None)"

definition go_bytes :: "auth_env \<Rightarrow> json \<Rightarrow> bytes option" where
  "go_bytes env j = Option.bind (json_string j) (ae_unbase64 env)"

definition credentials_of_json :: "auth_env \<Rightarrow> json \<Rightarrow> credentials option" where
  "credentials_of_json env j =
     Option.bind (object_wire [''username'', ''salt'', ''hash'', ''totp_secret'', ''last_step'', ''totp_disabled''] j) (\<lambda>fs.
     Option.bind (wire_field fs ''username'' [] json_string) (\<lambda>username.
     Option.bind (wire_field fs ''salt'' [] (go_bytes env)) (\<lambda>salt.
     Option.bind (wire_field fs ''hash'' [] (go_bytes env)) (\<lambda>hash.
     Option.bind (wire_field fs ''totp_secret'' [] json_string) (\<lambda>secret.
     Option.bind (wire_field fs ''last_step'' 0 json_i64) (\<lambda>last_step.
     Option.bind (wire_field fs ''totp_disabled'' False json_bool) (\<lambda>disabled.
       Some \<lparr>cr_username = username, cr_salt = salt, cr_hash = hash, cr_totp_secret = secret, cr_last_step = last_step,
         cr_totp_disabled = disabled\<rparr>)))))))"

text \<open>Derived names: the key of a session, its cross-site token, the profile of an account.\<close>

definition token_hash :: "auth_env \<Rightarrow> string \<Rightarrow> string" where
  "token_hash env token = ae_base64url env (ae_sha256 env token)"

definition csrf_token :: "auth_env \<Rightarrow> string \<Rightarrow> string" where
  "csrf_token env token = ae_base64url env (ae_sha256 env (''hmux csrf'' @ [CHR 0x00] @ token))"

definition valid_token :: "auth_env \<Rightarrow> string \<Rightarrow> bool" where
  "valid_token env v \<longleftrightarrow>
     length v = 43 \<and> (case ae_unbase64url env v of None \<Rightarrow> False | Some b \<Rightarrow> length b = 32)"

definition account_profile :: "auth_env \<Rightarrow> string \<Rightarrow> string" where
  "account_profile env username = hex_bytes (ae_sha256 env username)"

section \<open>One-time codes\<close>

text \<open>Integer division of Rust and Go: towards zero.\<close>

definition trunc_div :: "int \<Rightarrow> int \<Rightarrow> int" where
  "trunc_div a b = sgn a * (\<bar>a\<bar> div b)"

fun to_be_bytes :: "nat \<Rightarrow> nat \<Rightarrow> bytes" where
  "to_be_bytes 0 n = []"
| "to_be_bytes (Suc k) n = to_be_bytes k (n div 256) @ [char_of (n mod 256)]"

definition be_number :: "bytes \<Rightarrow> nat" where
  "be_number bs = foldl (\<lambda>acc b. acc * 256 + code b) 0 bs"

definition pad6 :: "string \<Rightarrow> string" where
  "pad6 ds = replicate (6 - length ds) CHR ''0'' @ ds"

definition totp_code :: "auth_env \<Rightarrow> bytes \<Rightarrow> int \<Rightarrow> string" where
  "totp_code env secret step =
     (let digest = ae_hmac_sha1 env secret (to_be_bytes 8 (nat (step mod 2 ^ 64)));
          offset = code (digest ! 19) mod 16;
          number = be_number (take 4 (drop offset digest)) mod 2 ^ 31 mod 1000000
      in pad6 (decimal number))"

fun try_steps :: "auth_env \<Rightarrow> bytes \<Rightarrow> string \<Rightarrow> int \<Rightarrow> int list \<Rightarrow> int option" where
  "try_steps env secret given base [] = None"
| "try_steps env secret given base (delta # deltas) =
     (if \<not> is_i64 (base + delta) then None
      else if totp_code env secret (base + delta) = given then Some (base + delta)
      else try_steps env secret given base deltas)"

definition match_code :: "auth_env \<Rightarrow> credentials \<Rightarrow> string \<Rightarrow> int \<Rightarrow> int option" where
  "match_code env c given unix_seconds =
     (case decode_totp_secret env (cr_totp_secret c) of
        None \<Rightarrow> None
      | Some secret \<Rightarrow>
          if length given \<noteq> 6 \<or> \<not> list_all is_ascii_digit given then None
          else try_steps env secret given (trunc_div unix_seconds 30) [-1, 0, 1])"

definition matches_unused_code :: "auth_env \<Rightarrow> credentials \<Rightarrow> string \<Rightarrow> int \<Rightarrow> int option" where
  "matches_unused_code env c given unix_seconds =
     (case match_code env c given unix_seconds of
        None \<Rightarrow> None
      | Some step \<Rightarrow> if cr_last_step c < step then Some step else None)"

section \<open>Persisted logins\<close>

definition SESSION_FILE_VERSION :: int where "SESSION_FILE_VERSION = 1"
definition SESSION_FILE_LIMIT :: nat where "SESSION_FILE_LIMIT = 131072"
definition MAX_SESSIONS_PER_ACCOUNT :: nat where "MAX_SESSIONS_PER_ACCOUNT = 8"
definition LOGIN_LIFETIME_SECONDS :: int where "LOGIN_LIFETIME_SECONDS = 7 * 24 * 60 * 60"

lemmas auth_limits [limits] = SESSION_FILE_VERSION_def SESSION_FILE_LIMIT_def MAX_SESSIONS_PER_ACCOUNT_def LOGIN_LIFETIME_SECONDS_def

record persisted_session =
  se_token_hash :: string
  se_id :: string
  se_username :: string
  se_profile :: string
  se_fingerprint :: string
  se_browser :: string
  se_ip :: string
  se_created_at :: string
  se_last_seen_at :: string
  se_expires_at :: string

record session_file =
  sx_version :: int
  sx_sessions :: "persisted_session list option"

definition row_go_json :: "auth_env \<Rightarrow> persisted_session \<Rightarrow> string" where
  "row_go_json env r =
     CHR 0x7B # json_key ''token_hash'' @ go_string env (se_token_hash r) @
     CHR '','' # json_key ''id'' @ go_string env (se_id r) @
     CHR '','' # json_key ''username'' @ go_string env (se_username r) @
     CHR '','' # json_key ''profile'' @ go_string env (se_profile r) @
     CHR '','' # json_key ''credential_fingerprint'' @ go_string env (se_fingerprint r) @
     CHR '','' # json_key ''browser'' @ go_string env (se_browser r) @
     CHR '','' # json_key ''ip'' @ go_string env (se_ip r) @
     CHR '','' # json_key ''created_at'' @ go_string env (se_created_at r) @
     CHR '','' # json_key ''last_seen_at'' @ go_string env (se_last_seen_at r) @
     CHR '','' # json_key ''expires_at'' @ go_string env (se_expires_at r) @ [CHR 0x7D]"

fun rows_go_json :: "auth_env \<Rightarrow> persisted_session list \<Rightarrow> string" where
  "rows_go_json env [] = []"
| "rows_go_json env [r] = row_go_json env r"
| "rows_go_json env (r # rs) = row_go_json env r @ CHR '','' # rows_go_json env rs"

definition session_file_go_json :: "auth_env \<Rightarrow> session_file \<Rightarrow> string" where
  "session_file_go_json env f =
     CHR 0x7B # json_key ''version'' @ int_decimal (sx_version f) @ CHR '','' # json_key ''sessions'' @
     (case sx_sessions f of
        None \<Rightarrow> ''null'' @ [CHR 0x7D]
      | Some rows \<Rightarrow> CHR ''['' # rows_go_json env rows @ [CHR '']'', CHR 0x7D])"

definition row_of_json :: "json \<Rightarrow> persisted_session option" where
  "row_of_json j =
     Option.bind (object_wire [''token_hash'', ''id'', ''username'', ''profile'', ''credential_fingerprint'', ''browser'', ''ip'',
       ''created_at'', ''last_seen_at'', ''expires_at''] j) (\<lambda>fs.
     Option.bind (wire_field fs ''token_hash'' [] json_string) (\<lambda>token_hash.
     Option.bind (wire_field fs ''id'' [] json_string) (\<lambda>ident.
     Option.bind (wire_field fs ''username'' [] json_string) (\<lambda>username.
     Option.bind (wire_field fs ''profile'' [] json_string) (\<lambda>profile.
     Option.bind (wire_field fs ''credential_fingerprint'' [] json_string) (\<lambda>fp.
     Option.bind (wire_field fs ''browser'' [] json_string) (\<lambda>browser.
     Option.bind (wire_field fs ''ip'' [] json_string) (\<lambda>ip.
     Option.bind (wire_field fs ''created_at'' [] json_string) (\<lambda>created.
     Option.bind (wire_field fs ''last_seen_at'' [] json_string) (\<lambda>seen.
     Option.bind (wire_field fs ''expires_at'' [] json_string) (\<lambda>expires.
       Some \<lparr>se_token_hash = token_hash, se_id = ident, se_username = username, se_profile = profile, se_fingerprint = fp,
         se_browser = browser, se_ip = ip, se_created_at = created, se_last_seen_at = seen, se_expires_at = expires\<rparr>)))))))))))"

fun rows_of_json :: "json list \<Rightarrow> persisted_session list option" where
  "rows_of_json [] = Some []"
| "rows_of_json (j # js) =
     Option.bind (row_of_json j) (\<lambda>r. Option.bind (rows_of_json js) (\<lambda>rs. Some (r # rs)))"

definition json_i32 :: "json \<Rightarrow> int option" where
  "json_i32 j = (case j of JInt i \<Rightarrow> if - (2 ^ 31) \<le> i \<and> i < 2 ^ 31 then Some i else None | _ \<Rightarrow> None)"

definition json_rows :: "json \<Rightarrow> persisted_session list option option" where
  "json_rows j = (case j of JNull \<Rightarrow> Some None | JArr js \<Rightarrow> map_option Some (rows_of_json js) | _ \<Rightarrow> None)"

definition session_file_of_json :: "json \<Rightarrow> session_file option" where
  "session_file_of_json j =
     Option.bind (object_wire [''version'', ''sessions''] j) (\<lambda>fs.
     Option.bind (wire_field fs ''version'' 0 json_i32) (\<lambda>version.
     Option.bind (wire_field fs ''sessions'' None json_rows) (\<lambda>rows.
       Some \<lparr>sx_version = version, sx_sessions = rows\<rparr>)))"

datatype auth_error =
    InvalidSessionFile | InvalidTokenHash | InvalidLoginId | InvalidSessionTime | SessionFileTooLarge | ObjectRequired
  | InvalidSessionJson | CredentialsTooLarge | InvalidCredentialsJson | InvalidCredentials

record validated_sessions =
  vd_retained :: "persisted_session list"
  vd_dirty :: bool

definition valid_session_text :: "string \<Rightarrow> nat \<Rightarrow> bool" where
  "valid_session_text v max_bytes \<longleftrightarrow>
     v \<noteq> [] \<and> length v \<le> max_bytes \<and> \<not> list_ex (\<lambda>b. code b \<le> 0x1F \<or> code b = 0x7F) v"

definition nanos :: "int \<Rightarrow> int" where "nanos s = s * 1000000000"

text \<open>Go's zero time, the first instant of the year 1.\<close>

definition ZERO_TIME :: int where "ZERO_TIME = nanos (-62135596800)"

text \<open>The sets and counters of the validation loop.\<close>

record scan =
  sc_ids :: "string list"
  sc_tokens :: "bytes list"
  sc_counts :: "((string \<times> string) \<times> nat) list"
  sc_retained :: "persisted_session list"
  sc_dirty :: bool

definition scan_new :: scan where
  "scan_new = \<lparr>sc_ids = [], sc_tokens = [], sc_counts = [], sc_retained = [], sc_dirty = False\<rparr>"

definition scan_row ::
  "auth_env \<Rightarrow> int \<Rightarrow> (string \<times> (string \<times> credentials)) list \<Rightarrow> scan \<Rightarrow> persisted_session \<Rightarrow>
    (auth_error, scan) result" where
  "scan_row env now accounts s row =
     (case ae_unbase64url env (se_token_hash row) of
        None \<Rightarrow> Err InvalidTokenHash
      | Some hash \<Rightarrow>
     (case ae_unbase64url env (se_id row) of
        None \<Rightarrow> Err InvalidLoginId
      | Some login \<Rightarrow>
     (case ae_time env (se_created_at row) of
        None \<Rightarrow> Err InvalidSessionTime
      | Some created \<Rightarrow>
     (case ae_time env (se_last_seen_at row) of
        None \<Rightarrow> Err InvalidSessionTime
      | Some seen \<Rightarrow>
     (case ae_time env (se_expires_at row) of
        None \<Rightarrow> Err InvalidSessionTime
      | Some expires \<Rightarrow>
          if length hash \<noteq> 32 \<or> length login \<noteq> 32 \<or> se_id row \<in> set (sc_ids s) \<or>
             \<not> valid_session_text (se_browser row) 80 \<or> (se_ip row \<noteq> ''unknown'' \<and> \<not> ae_is_ip env (se_ip row)) \<or>
             created = ZERO_TIME \<or> created + nanos LOGIN_LIFETIME_SECONDS \<noteq> expires \<or>
             seen < created \<or> expires < seen \<or> now + nanos (5 * 60) < created
          then Err InvalidSessionFile
          else
            let s = s\<lparr>sc_ids := se_id row # sc_ids s\<rparr> in
            (case map_of accounts (se_username row) of
               None \<Rightarrow> Ok (s\<lparr>sc_dirty := True\<rparr>)
             | Some (profile, c) \<Rightarrow>
                 if se_profile row \<noteq> profile \<or> se_fingerprint row \<noteq> fingerprint env c \<or> expires \<le> now
                 then Ok (s\<lparr>sc_dirty := True\<rparr>)
                 else
                   let key = (se_username row, se_profile row);
                       count = (case map_of (sc_counts s) key of None \<Rightarrow> 0 | Some n \<Rightarrow> n) + 1 in
                   if MAX_SESSIONS_PER_ACCOUNT < count \<or> hash \<in> set (sc_tokens s) then Err InvalidSessionFile
                   else Ok (s\<lparr>sc_counts := insert_key key count (sc_counts s), sc_tokens := hash # sc_tokens s,
                          sc_retained := sc_retained s @ [row]\<rparr>)))))))"

fun scan_rows ::
  "auth_env \<Rightarrow> int \<Rightarrow> (string \<times> (string \<times> credentials)) list \<Rightarrow> scan \<Rightarrow> persisted_session list \<Rightarrow>
    (auth_error, scan) result" where
  "scan_rows env now accounts s [] = Ok s"
| "scan_rows env now accounts s (row # rows) =
     and_then (scan_row env now accounts s row) (\<lambda>s. scan_rows env now accounts s rows)"

definition validate_session_file ::
  "auth_env \<Rightarrow> session_file \<Rightarrow> int \<Rightarrow> (string \<times> (string \<times> credentials)) list \<Rightarrow>
    (auth_error, validated_sessions) result" where
  "validate_session_file env f now accounts =
     (if sx_version f \<noteq> SESSION_FILE_VERSION then Err InvalidSessionFile
      else and_then (scan_rows env now accounts scan_new (case sx_sessions f of None \<Rightarrow> [] | Some rows \<Rightarrow> rows))
        (\<lambda>s. Ok \<lparr>vd_retained = sc_retained s, vd_dirty = sc_dirty s\<rparr>))"

definition require_json_object :: "bytes \<Rightarrow> bool" where
  "require_json_object raw \<longleftrightarrow>
     find (\<lambda>b. b \<notin> {CHR 0x20, CHR 0x0A, CHR 0x0D, CHR 0x09}) raw = Some (CHR 0x7B)"

definition parse_session_file ::
  "auth_env \<Rightarrow> bytes \<Rightarrow> (auth_error, session_file) result" where
  "parse_session_file env raw =
     (if SESSION_FILE_LIMIT < length raw then Err SessionFileTooLarge
      else if \<not> require_json_object raw then Err ObjectRequired
      else case Option.bind (ae_json env raw) session_file_of_json of None \<Rightarrow> Err InvalidSessionJson | Some f \<Rightarrow> Ok f)"

definition parse_credentials :: "auth_env \<Rightarrow> bytes \<Rightarrow> (auth_error, credentials) result" where
  "parse_credentials env raw =
     (if 4096 < length raw then Err CredentialsTooLarge
      else if \<not> require_json_object raw then Err ObjectRequired
      else case Option.bind (ae_json env raw) (credentials_of_json env) of
        None \<Rightarrow> Err InvalidCredentialsJson
      | Some c \<Rightarrow> if credentials_valid env c then Ok c else Err InvalidCredentials)"

section \<open>Facts on codes\<close>

lemma pad6_digits: "n < 1000000 \<Longrightarrow> length (pad6 (decimal n)) = 6 \<and> list_all is_ascii_digit (pad6 (decimal n))"
  using decimal_length [of n 5] decimal_digits [of n] by (auto simp: pad6_def list_all_iff ascii_defs)

lemma totp_code_digits: "length (totp_code env secret step) = 6 \<and> list_all is_ascii_digit (totp_code env secret step)"
  unfolding totp_code_def Let_def by (rule pad6_digits) simp

lemma try_steps_Some:
  "try_steps env secret given base deltas = Some step \<Longrightarrow> step - base \<in> set deltas \<and> totp_code env secret step = given"
  by (induction env secret given base deltas rule: try_steps.induct) (auto split: if_splits)

lemma try_steps_finds:
  "\<forall>d\<in>set deltas. is_i64 (base + d) \<Longrightarrow> \<delta> \<in> set deltas \<Longrightarrow>
     try_steps env secret (totp_code env secret (base + \<delta>)) base deltas \<noteq> None"
  by (induction deltas) auto

lemma trunc_div_small: "is_i64 t \<Longrightarrow> \<bar>trunc_div t 30\<bar> < 2 ^ 62"
proof -
  assume "is_i64 t"
  then have "\<bar>t\<bar> \<le> 2 ^ 63" by (simp add: is_i64_def abs_le_iff)
  then have "\<bar>t\<bar> div 30 < 2 ^ 62" by simp
  moreover have "0 \<le> \<bar>t\<bar> div 30" by simp
  ultimately show ?thesis by (cases "0::int" t rule: linorder_cases) (simp_all add: trunc_div_def)
qed

lemma match_code_finds:
  assumes "decode_totp_secret env (cr_totp_secret c) = Some secret" and "is_i64 t" and "\<delta> \<in> {-1, 0, 1}"
  shows "match_code env c (totp_code env secret (trunc_div t 30 + \<delta>)) t \<noteq> None"
proof -
  have "\<forall>d\<in>set [-1, 0, 1]. is_i64 (trunc_div t 30 + d)" using trunc_div_small [OF assms(2)] by (auto simp: is_i64_def)
  then show ?thesis
    using assms(1,3) totp_code_digits try_steps_finds [of "[-1, 0, 1]" "trunc_div t 30" \<delta> env secret]
    by (simp add: match_code_def)
qed

text \<open>
  A run of attempts, each accepted step becoming the last one, as enrolment, login and the security
  settings record it.
\<close>

fun accepted :: "auth_env \<Rightarrow> credentials \<Rightarrow> (string \<times> int) list \<Rightarrow> (int \<times> string \<times> int) list" where
  "accepted env c [] = []"
| "accepted env c ((given, t) # rest) =
     (case matches_unused_code env c given t of
        None \<Rightarrow> accepted env c rest
      | Some step \<Rightarrow> (step, given, t) # accepted env (c\<lparr>cr_last_step := step\<rparr>) rest)"

lemma matches_unused_code_Some:
  assumes "matches_unused_code env c given t = Some step"
  shows "cr_last_step c < step \<and> \<bar>step - trunc_div t 30\<bar> \<le> 1 \<and>
    (\<exists>secret. decode_totp_secret env (cr_totp_secret c) = Some secret \<and> totp_code env secret step = given)"
  using assms by (auto simp: matches_unused_code_def match_code_def dest!: try_steps_Some split: option.splits if_splits)

lemma accepted_increasing:
  "sorted_wrt (<) (cr_last_step c # map fst (accepted env c attempts))"
proof (induction env c attempts rule: accepted.induct)
  case (2 env c given t rest)
  show ?case
  proof (cases "matches_unused_code env c given t")
    case None
    then show ?thesis using 2 by simp
  next
    case (Some step)
    then show ?thesis using "2.IH"(2) [OF Some] matches_unused_code_Some [OF Some] by (auto intro: less_trans)
  qed
qed simp

lemma accepted_genuine:
  "list_all (\<lambda>(step, given, t). \<bar>step - trunc_div t 30\<bar> \<le> 1 \<and>
     (\<exists>secret. decode_totp_secret env (cr_totp_secret c) = Some secret \<and> totp_code env secret step = given)) (accepted env c attempts)"
proof (induction env c attempts rule: accepted.induct)
  case (2 env c given t rest)
  then show ?case
    using matches_unused_code_Some [of env c given t] by (cases "matches_unused_code env c given t") auto
qed simp

section \<open>Facts on the validation\<close>

definition current_row :: "auth_env \<Rightarrow> int \<Rightarrow> (string \<times> (string \<times> credentials)) list \<Rightarrow> persisted_session \<Rightarrow> bool" where
  "current_row env now accounts row =
     (case map_of accounts (se_username row) of
        None \<Rightarrow> False
      | Some (profile, c) \<Rightarrow>
          se_profile row = profile \<and> se_fingerprint row = fingerprint env c \<and>
          (case ae_time env (se_expires_at row) of None \<Rightarrow> False | Some expires \<Rightarrow> now < expires))"

definition row_shape :: "auth_env \<Rightarrow> int \<Rightarrow> persisted_session \<Rightarrow> bool" where
  "row_shape env now row \<longleftrightarrow>
     (\<exists>hash login created seen. ae_unbase64url env (se_token_hash row) = Some hash \<and> length hash = 32 \<and>
        ae_unbase64url env (se_id row) = Some login \<and> length login = 32 \<and>
        ae_time env (se_created_at row) = Some created \<and> ae_time env (se_last_seen_at row) = Some seen \<and>
        ae_time env (se_expires_at row) = Some (created + nanos LOGIN_LIFETIME_SECONDS) \<and>
        created \<le> seen \<and> seen \<le> created + nanos LOGIN_LIFETIME_SECONDS \<and> created \<le> now + nanos 300)"

definition account_rows :: "string \<times> string \<Rightarrow> persisted_session list \<Rightarrow> nat" where
  "account_rows k rows = length (filter (\<lambda>r. (se_username r, se_profile r) = k) rows)"

definition count_of :: "((string \<times> string) \<times> nat) list \<Rightarrow> string \<times> string \<Rightarrow> nat" where
  "count_of m k = (case map_of m k of None \<Rightarrow> 0 | Some n \<Rightarrow> n)"

definition scanned ::
  "auth_env \<Rightarrow> int \<Rightarrow> (string \<times> (string \<times> credentials)) list \<Rightarrow> persisted_session list \<Rightarrow> scan \<Rightarrow> bool" where
  "scanned env now accounts rows s \<longleftrightarrow>
     sc_retained s = filter (current_row env now accounts) rows \<and>
     sc_dirty s = list_ex (\<lambda>r. \<not> current_row env now accounts r) rows \<and>
     set (sc_ids s) = set (map se_id rows) \<and> distinct (map se_id rows) \<and> list_all (row_shape env now) rows \<and>
     Some ` set (sc_tokens s) = set (map (\<lambda>r. ae_unbase64url env (se_token_hash r)) (sc_retained s)) \<and>
     distinct (map (\<lambda>r. ae_unbase64url env (se_token_hash r)) (sc_retained s)) \<and>
     (\<forall>k. count_of (sc_counts s) k = account_rows k (sc_retained s)) \<and>
     (\<forall>k. account_rows k (sc_retained s) \<le> MAX_SESSIONS_PER_ACCOUNT)"

lemma scan_row_Ok:
  assumes "scan_row env now accounts s row = Ok s'"
  shows "row_shape env now row \<and> se_id row \<notin> set (sc_ids s)"
    and "\<not> current_row env now accounts row \<Longrightarrow> s' = s\<lparr>sc_ids := se_id row # sc_ids s, sc_dirty := True\<rparr>"
    and "current_row env now accounts row \<Longrightarrow>
      \<exists>hash. ae_unbase64url env (se_token_hash row) = Some hash \<and> hash \<notin> set (sc_tokens s) \<and>
        count_of (sc_counts s) (se_username row, se_profile row) < MAX_SESSIONS_PER_ACCOUNT \<and>
        s' = s\<lparr>sc_ids := se_id row # sc_ids s,
          sc_counts := insert_key (se_username row, se_profile row)
            (count_of (sc_counts s) (se_username row, se_profile row) + 1) (sc_counts s),
          sc_tokens := hash # sc_tokens s, sc_retained := sc_retained s @ [row]\<rparr>"
  using assms
  by (auto simp: scan_row_def row_shape_def current_row_def count_of_def Let_def nanos_def split: option.splits if_splits)

lemma account_rows_append: "account_rows k (rows @ [r]) = account_rows k rows + (if (se_username r, se_profile r) = k then 1 else 0)"
  by (simp add: account_rows_def)

lemma count_of_insert: "count_of (insert_key k n m) k' = (if k' = k then n else count_of m k')"
  by (simp add: count_of_def)

lemma scan_row_scanned:
  assumes "scanned env now accounts rows s" and "scan_row env now accounts s row = Ok s'"
  shows "scanned env now accounts (rows @ [row]) s'"
proof (cases "current_row env now accounts row")
  case False
  then show ?thesis
    using assms(1) scan_row_Ok(1,2) [OF assms(2)] by (auto simp: scanned_def)
next
  case True
  obtain hash where h: "ae_unbase64url env (se_token_hash row) = Some hash" "hash \<notin> set (sc_tokens s)"
    "count_of (sc_counts s) (se_username row, se_profile row) < MAX_SESSIONS_PER_ACCOUNT"
    and s': "s' = s\<lparr>sc_ids := se_id row # sc_ids s,
          sc_counts := insert_key (se_username row, se_profile row)
            (count_of (sc_counts s) (se_username row, se_profile row) + 1) (sc_counts s),
          sc_tokens := hash # sc_tokens s, sc_retained := sc_retained s @ [row]\<rparr>"
    using scan_row_Ok(3) [OF assms(2) True] by blast
  have new: "Some hash \<notin> set (map (\<lambda>r. ae_unbase64url env (se_token_hash r)) (sc_retained s))"
    using assms(1) h(2) unfolding scanned_def by (metis image_iff option.inject)
  have counts: "\<forall>k. count_of (sc_counts s) k = account_rows k (sc_retained s)"
    "\<forall>k. account_rows k (sc_retained s) \<le> MAX_SESSIONS_PER_ACCOUNT"
    using assms(1) unfolding scanned_def by blast+
  have "\<forall>k. count_of (sc_counts s') k = account_rows k (sc_retained s')"
    using counts(1) by (auto simp: s' account_rows_append count_of_insert)
  moreover have "\<forall>k. account_rows k (sc_retained s') \<le> MAX_SESSIONS_PER_ACCOUNT"
    using counts h(3) by (auto simp: s' account_rows_append)
  moreover have "distinct (map (\<lambda>r. ae_unbase64url env (se_token_hash r)) (sc_retained s'))"
    using assms(1) new h(1) by (auto simp: s' scanned_def)
  moreover have "Some ` set (sc_tokens s') = set (map (\<lambda>r. ae_unbase64url env (se_token_hash r)) (sc_retained s'))"
    using assms(1) h(1) by (auto simp: s' scanned_def)
  moreover have "sc_retained s' = filter (current_row env now accounts) (rows @ [row])"
    "sc_dirty s' = list_ex (\<lambda>r. \<not> current_row env now accounts r) (rows @ [row])"
    "set (sc_ids s') = set (map se_id (rows @ [row]))" "distinct (map se_id (rows @ [row]))"
    "list_all (row_shape env now) (rows @ [row])"
    using assms(1) True scan_row_Ok(1) [OF assms(2)] by (auto simp: s' scanned_def)
  ultimately show ?thesis unfolding scanned_def by blast
qed

lemma scan_rows_scanned:
  "scanned env now accounts seen s \<Longrightarrow> scan_rows env now accounts s rows = Ok s' \<Longrightarrow> scanned env now accounts (seen @ rows) s'"
proof (induction rows arbitrary: seen s)
  case (Cons row rows)
  then obtain s1 where "scan_row env now accounts s row = Ok s1" "scan_rows env now accounts s1 rows = Ok s'"
    by (auto simp: and_then_Ok_iff)
  then show ?case using Cons.IH [OF scan_row_scanned [OF Cons.prems(1)]] by simp
qed simp

lemma scan_new_scanned: "scanned env now accounts [] scan_new"
  by (simp add: scanned_def scan_new_def count_of_def account_rows_def)

definition file_rows :: "session_file \<Rightarrow> persisted_session list" where
  "file_rows f = (case sx_sessions f of None \<Rightarrow> [] | Some rows \<Rightarrow> rows)"

lemma validated_scanned:
  assumes "validate_session_file env f now accounts = Ok v"
  obtains s where "scanned env now accounts (file_rows f) s" and "v = \<lparr>vd_retained = sc_retained s, vd_dirty = sc_dirty s\<rparr>"
  using assms scan_rows_scanned [OF scan_new_scanned, of env now accounts]
  by (fastforce simp: validate_session_file_def file_rows_def and_then_Ok_iff split: if_splits)

section \<open>Properties\<close>

text \<open>
  A one-time code lets in at most once. Over any run of attempts, whatever codes at whatever
  times, the accepted steps strictly increase from the recorded one, and each accepted code is the
  genuine code of its step, at most one step away from the time of the attempt; and the genuine
  code of the current step or a neighbour always matches.
\<close>

lemma totp_accepts_once:
  assumes "decode_totp_secret env (cr_totp_secret c) = Some secret" and "is_i64 t" and "\<delta> \<in> {-1, 0, 1}"
  shows "sorted_wrt (<) (cr_last_step c # map fst (accepted env c attempts)) \<and>
    list_all (\<lambda>(step, given, at). totp_code env secret step = given \<and> \<bar>step - trunc_div at 30\<bar> \<le> 1) (accepted env c attempts) \<and>
    match_code env c (totp_code env secret (trunc_div t 30 + \<delta>)) t \<noteq> None"
proof (intro conjI)
  show "sorted_wrt (<) (cr_last_step c # map fst (accepted env c attempts))" by (rule accepted_increasing)
  show "list_all (\<lambda>(step, given, at). totp_code env secret step = given \<and> \<bar>step - trunc_div at 30\<bar> \<le> 1) (accepted env c attempts)"
    using accepted_genuine [of env c attempts] assms(1) by (auto simp: list_all_iff)
  show "match_code env c (totp_code env secret (trunc_div t 30 + \<delta>)) t \<noteq> None" by (rule match_code_finds [OF assms])
qed

definition sample_auth_env :: auth_env where
  "sample_auth_env = \<lparr>ae_base32 = (\<lambda>_. Some (replicate 20 CHR ''s'')), ae_hmac_sha1 = (\<lambda>_ m. replicate 12 CHR 0x00 @ m),
     ae_sha256 = (\<lambda>b. b), ae_pbkdf2 = (\<lambda>p _. p), ae_base64 = (\<lambda>b. b), ae_unbase64 = Some, ae_base64url = (\<lambda>b. b), ae_unbase64url = Some,
     ae_json_string = (\<lambda>v. v), ae_json = (\<lambda>_. None), ae_time = (\<lambda>v. if v = ''created'' then Some 0 else if v = ''seen'' then Some 5
       else if v = ''expires'' then Some (nanos LOGIN_LIFETIME_SECONDS) else None), ae_go_time = (\<lambda>_. []), ae_is_ip = (\<lambda>_. True)\<rparr>"

definition sample_credentials :: credentials where
  "sample_credentials = \<lparr>cr_username = ''owner'', cr_salt = replicate 32 CHR ''s'', cr_hash = replicate 32 CHR ''h'',
     cr_totp_secret = ''SECRET'', cr_last_step = 0, cr_totp_disabled = False\<rparr>"

lemma sample_secret: "decode_totp_secret sample_auth_env (cr_totp_secret sample_credentials) = Some (replicate 20 CHR ''s'')"
  by (simp add: decode_totp_secret_def sample_auth_env_def)

text \<open>
  Reading back the persisted logins lets no stale or doubled one live on. Of an accepted file
  exactly the rows are retained, in order, whose account still exists with the same profile and
  credential fingerprint and which have not expired, and the file is marked for rewriting exactly
  when a row was dropped; all login identifiers are distinct, as are the retained token hashes; every
  row expires seven days after its creation and was last seen in between, and no account has more
  than eight.
\<close>

lemma sessions_validated:
  assumes "validate_session_file env f now accounts = Ok v"
  shows "let rows = (case sx_sessions f of None \<Rightarrow> [] | Some rows \<Rightarrow> rows) in
    vd_retained v = filter (current_row env now accounts) rows \<and> vd_dirty v = (vd_retained v \<noteq> rows) \<and>
    distinct (map se_id rows) \<and> distinct (map (\<lambda>r. ae_unbase64url env (se_token_hash r)) (vd_retained v)) \<and>
    list_all (row_shape env now) rows \<and>
    (\<forall>user profile. length (filter (\<lambda>r. (se_username r, se_profile r) = (user, profile)) (vd_retained v)) \<le> MAX_SESSIONS_PER_ACCOUNT)"
proof -
  define rows where "rows = file_rows f"
  obtain s where s: "scanned env now accounts rows s" and v: "v = \<lparr>vd_retained = sc_retained s, vd_dirty = sc_dirty s\<rparr>"
    unfolding rows_def by (rule validated_scanned [OF assms])
  have "list_ex (\<lambda>r. \<not> current_row env now accounts r) rows \<longleftrightarrow> filter (current_row env now accounts) rows \<noteq> rows"
    by (auto simp: list_ex_iff filter_id_conv)
  moreover have "sc_retained s = filter (current_row env now accounts) rows"
    "sc_dirty s = list_ex (\<lambda>r. \<not> current_row env now accounts r) rows" "distinct (map se_id rows)" "list_all (row_shape env now) rows"
    "distinct (map (\<lambda>r. ae_unbase64url env (se_token_hash r)) (sc_retained s))"
    "\<forall>k. account_rows k (sc_retained s) \<le> MAX_SESSIONS_PER_ACCOUNT"
    using s unfolding scanned_def by blast+
  ultimately show ?thesis
    unfolding Let_def file_rows_def [symmetric] rows_def [symmetric] v by (simp add: account_rows_def)
qed

definition sample_row :: persisted_session where
  "sample_row = \<lparr>se_token_hash = replicate 32 CHR ''t'', se_id = replicate 32 CHR ''i'', se_username = ''owner'', se_profile = ''main'',
     se_fingerprint = fingerprint sample_auth_env sample_credentials, se_browser = ''Firefox'', se_ip = ''unknown'',
     se_created_at = ''created'', se_last_seen_at = ''seen'', se_expires_at = ''expires''\<rparr>"

definition sample_file :: session_file where
  "sample_file = \<lparr>sx_version = 1, sx_sessions = Some [sample_row, sample_row\<lparr>se_id := replicate 32 CHR ''j'', se_username := ''gone''\<rparr>]\<rparr>"

end
