(* ===== verification/Auth_Store.thy ===== *)
theory Auth_Store
  imports Auth Admission Private_File "HOL-Library.List_Lexorder" "HOL-Library.Char_ord" "HOL-Library.Product_Lexorder"
begin

text \<open>
  The account store of \<open>hmux-gateway/src/auth_store.rs\<close>: credentials and logins in memory and on disk,
  and the transactions on them. A transaction is a function of the locked state; the private
  directory, the order in which a hash map is iterated, the outcome of every file operation, the
  random draws and the admission of the transaction are explicit. A cancellation channel is a number,
  and the state holds the set of the cancelled ones. A point in time is a number of nanoseconds.
\<close>

section \<open>The state\<close>

definition CREDENTIAL_LIMIT :: nat where "CREDENTIAL_LIMIT = 4096"
definition MAX_ACCOUNTS :: nat where "MAX_ACCOUNTS = 9"
definition MAX_BACKUPS_PER_ACCOUNT :: nat where "MAX_BACKUPS_PER_ACCOUNT = 16"
definition MAX_BACKUPS :: nat where "MAX_BACKUPS = MAX_ACCOUNTS * MAX_BACKUPS_PER_ACCOUNT"
definition SEEN_PERSIST_INTERVAL :: int where "SEEN_PERSIST_INTERVAL = 5 * 60"

lemmas auth_store_limits [limits] = CREDENTIAL_LIMIT_def MAX_ACCOUNTS_def MAX_BACKUPS_PER_ACCOUNT_def MAX_BACKUPS_def
  SEEN_PERSIST_INTERVAL_def

datatype login_status = LInvalid | LSucceeded | LTotpRequired | LRateLimited | LStorageUnavailable
datatype security_status = SOk | SForbidden | SRateLimited | SStorageUnavailable | SStaleSession
datatype auth_store_error = ABusy | AStorageUnavailable | ASessionNotFound

record login_result =
  lr_status :: login_status
  lr_token :: "string option"

record login_request =
  rq_username :: string
  rq_password :: string
  rq_code :: string
  rq_source :: string
  rq_ip :: string
  rq_browser :: string
  rq_now :: int

record security_request =
  sq_token :: string
  sq_password :: string
  sq_code :: string
  sq_enabled :: bool
  sq_now :: int

record session_access =
  sa_id :: string
  sa_expires_at :: int
  sa_csrf :: string
  sa_username :: string
  sa_profile :: string
  sa_cancelled :: nat

record session_info =
  in_location :: string
  in_id :: string
  in_browser :: string
  in_ip :: string
  in_created_at :: int
  in_last_seen_at :: int
  in_expires_at :: int
  in_current :: bool

record auth_account =
  ac_credentials :: credentials
  ac_path :: string
  ac_profile :: string

record login_session =
  ls_id :: string
  ls_username :: string
  ls_profile :: string
  ls_fingerprint :: string
  ls_browser :: string
  ls_ip :: string
  ls_created :: int
  ls_seen :: int
  ls_persisted_seen :: int
  ls_expires :: int
  ls_cancel :: nat

type_synonym sessions = "(string \<times> login_session) list"

record auth_state =
  as_path :: string
  as_sessions_path :: string
  as_accounts :: "(string \<times> auth_account) list"
  as_sessions :: sessions
  as_attempts :: "(string \<times> int list) list"
  as_security_attempts :: "(string \<times> int list) list"
  as_storage_failed :: bool
  as_dir :: private_dir \<comment> \<open>the credential and session files, by path\<close>
  as_backups :: "(string \<times> bytes) list option" \<comment> \<open>the backup directory, once it exists\<close>
  as_cancelled :: "nat set"
  as_next_cell :: nat

text \<open>
  What surrounds one transaction. \<open>ai_rank\<close> orders the iteration over a hash map by key; \<open>ai_save n\<close> is
  the outcome of writing the session file for the first (\<open>0\<close>, expired logins) or second time in the
  transaction. The random generator answers with \<open>ai_random\<close>, then fails: executions in which it
  answers for ever with values already taken never return and are not represented.
\<close>

record auth_io =
  ai_rank :: "string \<Rightarrow> nat"
  ai_cred_read :: bool
  ai_cred_write :: write_result
  ai_save :: "nat \<Rightarrow> bool \<times> write_result"
  ai_random :: "bytes option list"
  ai_backup_create :: bool
  ai_backup_open :: bool
  ai_backup_entry :: "string \<Rightarrow> bool" \<comment> \<open>a readable private regular file\<close>
  ai_backup_remove :: "string \<Rightarrow> bool"
  ai_backup_write :: write_result
  ai_stamp :: "string \<Rightarrow> int option" \<comment> \<open>the time parser of backup names\<close>
  ai_format :: "int \<Rightarrow> string"

definition iterate :: "auth_io \<Rightarrow> (string \<times> 'v) list \<Rightarrow> (string \<times> 'v) list" where
  "iterate io m = sort_key (\<lambda>e. ai_rank io (fst e)) m"

definition suffix_path :: "string \<Rightarrow> string \<Rightarrow> string" where
  "suffix_path path v = path @ v"

section \<open>Cancellation\<close>

definition cells :: "sessions \<Rightarrow> nat list" where
  "cells m = map (\<lambda>e. ls_cancel (snd e)) m"

definition cancel_cells :: "nat list \<Rightarrow> auth_state \<Rightarrow> auth_state" where
  "cancel_cells cs s = s\<lparr>as_cancelled := as_cancelled s \<union> set cs\<rparr>"

definition fail_storage :: "auth_state \<Rightarrow> auth_state" where
  "fail_storage s = (cancel_cells (cells (as_sessions s)) s)\<lparr>as_storage_failed := True\<rparr>"

text \<open>Replace the logins, cancelling those the new map does not have.\<close>

definition install_sessions :: "sessions \<Rightarrow> auth_state \<Rightarrow> auth_state" where
  "install_sessions new s =
     (cancel_cells (cells (filter (\<lambda>e. map_of new (fst e) = None) (as_sessions s))) s)\<lparr>as_sessions := new\<rparr>"

section \<open>Files\<close>

definition session_persisted :: "auth_env \<Rightarrow> string \<Rightarrow> login_session \<Rightarrow> persisted_session" where
  "session_persisted env hash x =
     \<lparr>se_token_hash = hash, se_id = ls_id x, se_username = ls_username x, se_profile = ls_profile x,
      se_fingerprint = ls_fingerprint x, se_browser = ls_browser x, se_ip = ls_ip x,
      se_created_at = ae_go_time env (ls_created x), se_last_seen_at = ae_go_time env (ls_seen x),
      se_expires_at = ae_go_time env (ls_expires x)\<rparr>"

definition session_rows :: "auth_env \<Rightarrow> sessions \<Rightarrow> persisted_session list" where
  "session_rows env m = sort_key se_id (map (\<lambda>e. session_persisted env (fst e) (snd e)) m)"

definition sessions_json :: "auth_env \<Rightarrow> sessions \<Rightarrow> bytes" where
  "sessions_json env m =
     session_file_go_json env \<lparr>sx_version = SESSION_FILE_VERSION, sx_sessions = Some (session_rows env m)\<rparr>"

definition write_sessions ::
  "auth_env \<Rightarrow> bool \<times> write_result \<Rightarrow> private_dir \<Rightarrow> string \<Rightarrow> sessions \<Rightarrow> bool \<times> private_dir" where
  "write_sessions env w dir path m =
     (case read_private (fst w) dir path SESSION_FILE_LIMIT of
        Inl ReadFailed \<Rightarrow> (False, dir)
      | _ \<Rightarrow>
          let raw = sessions_json env m in
          if SESSION_FILE_LIMIT < length raw then (False, dir) else write_atomic (snd w) dir path raw)"

definition save_sessions :: "auth_env \<Rightarrow> auth_io \<Rightarrow> nat \<Rightarrow> sessions \<Rightarrow> auth_state \<Rightarrow> bool \<times> auth_state" where
  "save_sessions env io n m s =
     (case write_sessions env (ai_save io n) (as_dir s) (as_sessions_path s) m of
        (True, dir) \<Rightarrow> (True, s\<lparr>as_dir := dir\<rparr>)
      | (False, dir) \<Rightarrow> (False, fail_storage (s\<lparr>as_dir := dir\<rparr>)))"

definition prune :: "auth_env \<Rightarrow> auth_io \<Rightarrow> int \<Rightarrow> auth_state \<Rightarrow> (auth_store_error, unit) result \<times> auth_state" where
  "prune env io now s =
     (if as_storage_failed s then (Err AStorageUnavailable, s)
      else if \<not> list_ex (\<lambda>e. ls_expires (snd e) \<le> now) (as_sessions s) then (Ok (), s)
      else
        let new = filter (\<lambda>e. now < ls_expires (snd e)) (as_sessions s) in
        case save_sessions env io 0 new s of
          (False, s) \<Rightarrow> (Err AStorageUnavailable, s)
        | (True, s) \<Rightarrow> (Ok (), install_sessions new s))"

definition read_credential :: "auth_env \<Rightarrow> bool \<Rightarrow> private_dir \<Rightarrow> string \<Rightarrow> credentials option" where
  "read_credential env readable dir path =
     (case read_private readable dir path CREDENTIAL_LIMIT of
        Inl e \<Rightarrow> None
      | Inr raw \<Rightarrow> (case parse_credentials env raw of Inl e \<Rightarrow> None | Inr c \<Rightarrow> Some c))"

definition changed_outside :: "auth_env \<Rightarrow> credentials \<Rightarrow> credentials \<Rightarrow> bool" where
  "changed_outside env disk expected \<longleftrightarrow>
     fingerprint env disk \<noteq> fingerprint env expected \<or> cr_last_step disk \<noteq> cr_last_step expected"

definition write_credential ::
  "auth_env \<Rightarrow> auth_io \<Rightarrow> private_dir \<Rightarrow> string \<Rightarrow> credentials \<Rightarrow> credentials \<Rightarrow> bool \<times> private_dir" where
  "write_credential env io dir path expected c =
     (case read_credential env (ai_cred_read io) dir path of
        None \<Rightarrow> (False, dir)
      | Some disk \<Rightarrow>
          if changed_outside env disk expected then (False, dir)
          else write_atomic (ai_cred_write io) dir path (credentials_go_json env c))"

section \<open>Backups of credentials\<close>

definition backup_time :: "(string \<Rightarrow> int option) \<Rightarrow> string \<Rightarrow> int option" where
  "backup_time stamp name =
     (if length name < 64 \<or> \<not> (64 < length name \<and> name ! 64 = CHR ''-'') \<or>
         \<not> (5 \<le> length name \<and> drop (length name - 5) name = ''.json'') \<or> \<not> list_all is_lower_hex (take 64 name)
      then None
      else if length name - 5 < 65 then None
      else stamp (take (length name - 70) (drop 65 name)))"

fun read_backups ::
  "auth_io \<Rightarrow> string \<Rightarrow> (string \<times> bytes) list \<Rightarrow> (int \<times> string) list \<Rightarrow> (int \<times> string) list \<Rightarrow>
    ((int \<times> string) list \<times> (int \<times> string) list) option" where
  "read_backups io pre [] all own = Some (all, own)"
| "read_backups io pre ((name, raw) # entries) all own =
     (if MAX_BACKUPS \<le> length all then None
      else if \<not> ai_backup_entry io name then None
      else case backup_time (ai_stamp io) name of
        None \<Rightarrow> None
      | Some at \<Rightarrow>
          if CREDENTIAL_LIMIT < length raw then None
          else read_backups io pre entries (all @ [(at, name)])
            (if take (length pre) name = pre then own @ [(at, name)] else own))"

text \<open>The oldest backup of the account goes first, then, when there still are too many, the oldest of all.\<close>

definition backup_room ::
  "auth_io \<Rightarrow> (int \<times> string) list \<Rightarrow> (int \<times> string) list \<Rightarrow> (string \<times> bytes) list \<Rightarrow> bool \<times> (string \<times> bytes) list" where
  "backup_room io all own entries =
     (let all = sort_key fst all; own = sort_key fst own;
          evict = MAX_BACKUPS_PER_ACCOUNT \<le> length own;
          oldest = snd (hd own) in
      if evict \<and> \<not> ai_backup_remove io oldest then (False, entries)
      else
        let entries = (if evict then remove_key oldest entries else entries);
            all = (if evict then filter (\<lambda>v. snd v \<noteq> oldest) all else all) in
        if MAX_BACKUPS \<le> length all then
          (if ai_backup_remove io (snd (hd all)) then (True, remove_key (snd (hd all)) entries) else (False, entries))
        else (True, entries))"

definition backup_name :: "auth_env \<Rightarrow> auth_io \<Rightarrow> string \<Rightarrow> int \<Rightarrow> string" where
  "backup_name env io username now = account_profile env username @ ''-'' @ ai_format io now @ ''.json''"

definition backup_credentials ::
  "auth_env \<Rightarrow> auth_io \<Rightarrow> string \<Rightarrow> string \<Rightarrow> credentials \<Rightarrow> int \<Rightarrow> auth_state \<Rightarrow> bool \<times> auth_state" where
  "backup_credentials env io path username expected now s =
     (case read_credential env (ai_cred_read io) (as_dir s) path of
        None \<Rightarrow> (False, s)
      | Some disk \<Rightarrow>
     if changed_outside env disk expected then (False, s)
     else case read_private (ai_cred_read io) (as_dir s) path CREDENTIAL_LIMIT of
        Inl e \<Rightarrow> (False, s)
      | Inr raw \<Rightarrow>
     if as_backups s = None \<and> \<not> ai_backup_create io then (False, s)
     else
       let entries = (case as_backups s of None \<Rightarrow> [] | Some entries \<Rightarrow> entries);
           s = s\<lparr>as_backups := Some entries\<rparr> in
       if \<not> ai_backup_open io then (False, s)
       else case read_backups io (account_profile env username @ ''-'') (iterate io entries) [] [] of
         None \<Rightarrow> (False, s)
       | Some (all, own) \<Rightarrow>
           (case backup_room io all own entries of
              (False, entries) \<Rightarrow> (False, s\<lparr>as_backups := Some entries\<rparr>)
            | (True, entries) \<Rightarrow>
                let name = backup_name env io username now; s = s\<lparr>as_backups := Some entries\<rparr> in
                if map_of entries name \<noteq> None then (False, s)
                else
                  (case ai_backup_write io of
                     WriteOk \<Rightarrow> (True, s\<lparr>as_backups := Some (insert_key name raw entries)\<rparr>)
                   | WriteFailed renamed \<Rightarrow>
                       (False, if renamed then s\<lparr>as_backups := Some (insert_key name raw entries)\<rparr> else s))))"

section \<open>Admission\<close>

definition within_minute :: "int \<Rightarrow> int \<Rightarrow> bool" where
  "within_minute now t \<longleftrightarrow> now - t < nanos 60"

definition allow_attempt :: "(string \<times> int list) list \<Rightarrow> string \<Rightarrow> int \<Rightarrow> nat \<Rightarrow> bool \<times> (string \<times> int list) list" where
  "allow_attempt m key now cap =
     (let m = filter (\<lambda>e. snd e \<noteq> [] \<and> within_minute now (last (snd e))) m in
      case map_of m key of
        Some ts \<Rightarrow>
          let ts = filter (within_minute now) ts in
          if 5 \<le> length ts then (False, insert_key key ts m) else (True, insert_key key (ts @ [now]) m)
      | None \<Rightarrow> if cap \<le> length m then (False, m) else (True, insert_key key [now] m))"

definition login_valid_text :: "string \<Rightarrow> nat \<Rightarrow> bool" where
  "login_valid_text v limit \<longleftrightarrow>
     v \<noteq> [] \<and> length v \<le> limit \<and> \<not> list_ex (\<lambda>b. code b \<le> 0x1F \<or> code b = 0x7F) v"

text \<open>Draw until the value is not taken: the value and the draws left.\<close>

fun draw_fresh :: "auth_env \<Rightarrow> (string \<Rightarrow> bool) \<Rightarrow> bytes option list \<Rightarrow> (string \<times> bytes option list) option" where
  "draw_fresh env taken [] = None"
| "draw_fresh env taken (None # draws) = None"
| "draw_fresh env taken (Some raw # draws) =
     (if taken (ae_base64url env raw) then draw_fresh env taken draws else Some (ae_base64url env raw, draws))"

section \<open>Transactions\<close>

text \<open>
  The store, and how a transaction is admitted: the worker pool may be full, the store may close in
  between, the lock may be poisoned. A transaction that panics (\<open>None\<close>) fails the storage for good.
\<close>

record auth_store =
  au_state :: auth_state
  au_closed :: bool
  au_registry_closed :: bool
  au_registered :: "nat list"

datatype gate = GateOpen | GateBusy | GateClosing | GatePoisoned

definition registry_sync :: "auth_store \<Rightarrow> auth_store" where
  "registry_sync st =
     (let cs = cells (as_sessions (au_state st)) in
      st\<lparr>au_registered := cs, au_state := (if au_registry_closed st then cancel_cells cs (au_state st) else au_state st)\<rparr>)"

definition cancel_all :: "auth_store \<Rightarrow> auth_store" where
  \<comment> \<open>only a login that is still held can be upgraded from its weak reference\<close>
  "cancel_all st =
     (let held = filter (\<lambda>c. c \<in> set (cells (as_sessions (au_state st)))) (au_registered st) in
      st\<lparr>au_registry_closed := True, au_registered := held, au_state := cancel_cells held (au_state st)\<rparr>)"

definition auth_transact ::
  "gate \<Rightarrow> (auth_state \<Rightarrow> 'a option \<times> auth_state) \<Rightarrow> auth_store \<Rightarrow> (auth_store_error, 'a) result \<times> auth_store" where
  "auth_transact g work st =
     (if au_closed st then (Err AStorageUnavailable, st)
      else case g of
        GateBusy \<Rightarrow> (Err ABusy, st)
      | GateClosing \<Rightarrow> (Err AStorageUnavailable, st)
      | GatePoisoned \<Rightarrow> (Err AStorageUnavailable, cancel_all (st\<lparr>au_state := fail_storage (au_state st)\<rparr>))
      | GateOpen \<Rightarrow>
          (case work (au_state st) of
             (Some v, s) \<Rightarrow> (Ok v, registry_sync (st\<lparr>au_state := s\<rparr>))
           | (None, s) \<Rightarrow> (Err AStorageUnavailable, cancel_all (st\<lparr>au_state := fail_storage s\<rparr>))))"

section \<open>Login\<close>

type_synonym login_snapshot = "credentials \<times> string \<times> string"

definition login_origin :: "login_request \<Rightarrow> string" where
  "login_origin rq = (if 80 < length (rq_source rq) then ''unknown'' else rq_source rq)"

definition login_ip :: "auth_env \<Rightarrow> login_request \<Rightarrow> string" where
  "login_ip env rq = (if rq_ip rq = ''unknown'' \<or> ae_is_ip env (rq_ip rq) then rq_ip rq else ''unknown'')"

definition login_browser :: "login_request \<Rightarrow> string" where
  "login_browser rq = (if login_valid_text (rq_browser rq) 80 then rq_browser rq else ''Unknown browser'')"

definition login_begin ::
  "auth_env \<Rightarrow> auth_io \<Rightarrow> login_request \<Rightarrow> auth_state \<Rightarrow> (login_status, login_snapshot) result option \<times> auth_state" where
  "login_begin env io rq s =
     (if as_storage_failed s then (Some (Err LStorageUnavailable), s)
      else
        (case allow_attempt (as_attempts s) (login_origin rq) (rq_now rq) 1024 of (ok, attempts) \<Rightarrow>
        let s = s\<lparr>as_attempts := attempts\<rparr> in
        if \<not> ok then (Some (Err LRateLimited), s)
        else
          case (case map_of (as_accounts s) (rq_username rq) of
                  Some a \<Rightarrow> Some a
                | None \<Rightarrow> find (\<lambda>a. ac_profile a = []) (map snd (iterate io (as_accounts s)))) of
            None \<Rightarrow> (None, s)
          | Some a \<Rightarrow> (Some (Ok (ac_credentials a, ac_profile a, fingerprint env (ac_credentials a))), s)))"

datatype kdf_outcome = KdfBusy | KdfFailed | KdfDone

definition unix_seconds :: "int \<Rightarrow> int" where
  "unix_seconds t = t div 1000000000"

definition refused :: "login_status \<Rightarrow> login_result" where
  "refused status = \<lparr>lr_status = status, lr_token = None\<rparr>"

definition login_verify :: "auth_env \<Rightarrow> kdf_outcome \<Rightarrow> login_request \<Rightarrow> credentials \<Rightarrow> (login_result, int) result" where
  "login_verify env kdf rq c =
     (case kdf of
        KdfBusy \<Rightarrow> Err (refused LRateLimited)
      | KdfFailed \<Rightarrow> Err (refused LInvalid)
      | KdfDone \<Rightarrow>
          if ae_pbkdf2 env (rq_password rq) (cr_salt c) \<noteq> cr_hash c \<or> rq_username rq \<noteq> cr_username c
          then Err (refused LInvalid)
          else Ok (if \<not> cr_totp_disabled c \<and> rq_code rq \<noteq> []
            then (case match_code env c (rq_code rq) (unix_seconds (rq_now rq)) of None \<Rightarrow> -1 | Some step \<Rightarrow> step)
            else -1))"

definition user_count :: "string \<Rightarrow> sessions \<Rightarrow> nat" where
  "user_count username m = length (filter (\<lambda>e. ls_username (snd e) = username) m)"

definition oldest_of :: "auth_io \<Rightarrow> string \<Rightarrow> sessions \<Rightarrow> string option" where
  "oldest_of io username m =
     (case sort_key (\<lambda>e. ls_seen (snd e)) (filter (\<lambda>e. ls_username (snd e) = username) (iterate io m)) of
        [] \<Rightarrow> None
      | e # _ \<Rightarrow> Some (fst e))"

definition make_room :: "auth_io \<Rightarrow> string \<Rightarrow> sessions \<Rightarrow> sessions" where
  "make_room io username m =
     (if MAX_SESSIONS_PER_ACCOUNT \<le> user_count username m
      then (case oldest_of io username m of None \<Rightarrow> m | Some k \<Rightarrow> remove_key k m) else m)"

definition new_session :: "auth_env \<Rightarrow> login_request \<Rightarrow> string \<Rightarrow> string \<Rightarrow> string \<Rightarrow> nat \<Rightarrow> login_session" where
  "new_session env rq profile fp ident cell =
     \<lparr>ls_id = ident, ls_username = rq_username rq, ls_profile = profile, ls_fingerprint = fp,
      ls_browser = login_browser rq, ls_ip = login_ip env rq, ls_created = rq_now rq, ls_seen = rq_now rq,
      ls_persisted_seen = rq_now rq, ls_expires = rq_now rq + nanos LOGIN_LIFETIME_SECONDS, ls_cancel = cell\<rparr>"

text \<open>The end of the second transaction: the new login is drawn, stored and installed.\<close>

definition login_issue ::
  "auth_env \<Rightarrow> auth_io \<Rightarrow> login_request \<Rightarrow> string \<Rightarrow> auth_state \<Rightarrow> login_result option \<times> auth_state" where
  "login_issue env io rq profile s =
     (case prune env io (rq_now rq) s of
        (Inl e, s) \<Rightarrow> (Some (refused LStorageUnavailable), s)
      | (Inr u, s) \<Rightarrow>
     let new = make_room io (rq_username rq) (as_sessions s) in
     (case draw_fresh env (\<lambda>t. map_of new (token_hash env t) \<noteq> None) (ai_random io) of
        None \<Rightarrow> (Some (refused LStorageUnavailable), fail_storage s)
      | Some (token, draws) \<Rightarrow>
     (case draw_fresh env (\<lambda>i. list_ex (\<lambda>e. ls_id (snd e) = i) new) draws of
        None \<Rightarrow> (Some (refused LStorageUnavailable), fail_storage s)
      | Some (ident, draws) \<Rightarrow>
     (case map_of (as_accounts s) (rq_username rq) of
        None \<Rightarrow> (None, s)
      | Some a \<Rightarrow>
     let fp = fingerprint env (ac_credentials a);
         new = insert_key (token_hash env token) (new_session env rq profile fp ident (as_next_cell s)) new in
     (case save_sessions env io 1 new s of
        (False, s) \<Rightarrow> (Some (refused LStorageUnavailable), s)
      | (True, s) \<Rightarrow>
          (Some \<lparr>lr_status = LSucceeded, lr_token = Some token\<rparr>,
           install_sessions new (s\<lparr>as_next_cell := as_next_cell s + 1\<rparr>)))))))"

definition login_commit ::
  "auth_env \<Rightarrow> auth_io \<Rightarrow> login_request \<Rightarrow> string \<Rightarrow> string \<Rightarrow> int \<Rightarrow> auth_state \<Rightarrow> login_result option \<times> auth_state" where
  "login_commit env io rq profile fp step s =
     (if as_storage_failed s then (Some (refused LStorageUnavailable), s)
      else case map_of (as_accounts s) (rq_username rq) of
        None \<Rightarrow> (Some (refused LInvalid), s)
      | Some a \<Rightarrow>
          let c = ac_credentials a in
          if ac_profile a \<noteq> profile \<or> fingerprint env c \<noteq> fp then (Some (refused LInvalid), s)
          else if cr_totp_disabled c then login_issue env io rq profile s
          else if rq_code rq = [] then (Some (refused LTotpRequired), s)
          else if step < 0 \<or> step \<le> cr_last_step c then (Some (refused LInvalid), s)
          else
            let c' = c\<lparr>cr_last_step := step\<rparr> in
            (case write_credential env io (as_dir s) (ac_path a) c c' of
               (False, dir) \<Rightarrow> (Some (refused LStorageUnavailable), fail_storage (s\<lparr>as_dir := dir\<rparr>))
             | (True, dir) \<Rightarrow>
                 login_issue env io rq profile
                   (s\<lparr>as_dir := dir, as_accounts := insert_key (rq_username rq) (a\<lparr>ac_credentials := c'\<rparr>) (as_accounts s)\<rparr>)))"

text \<open>Both transactions with the password derivation between them; \<open>between\<close> is what others do meanwhile.\<close>

definition login ::
  "auth_env \<Rightarrow> auth_io \<times> auth_io \<Rightarrow> gate \<times> gate \<Rightarrow> kdf_outcome \<Rightarrow> (auth_store \<Rightarrow> auth_store) \<Rightarrow> login_request \<Rightarrow>
    auth_store \<Rightarrow> login_result \<times> auth_store" where
  "login env io g kdf between rq st =
     (if 80 < length (rq_username rq) \<or> 128 < length (rq_password rq) then (refused LInvalid, st)
      else case auth_transact (fst g) (login_begin env (fst io) rq) st of
        (Inl e, st) \<Rightarrow> (refused LRateLimited, st)
      | (Inr (Inl status), st) \<Rightarrow> (refused status, st)
      | (Inr (Inr (c, profile, fp)), st) \<Rightarrow>
          let st = between st in
          (case login_verify env kdf rq c of
             Inl r \<Rightarrow> (r, st)
           | Inr step \<Rightarrow>
               (case auth_transact (snd g) (login_commit env (snd io) rq profile fp step) st of
                  (Inl e, st) \<Rightarrow> (refused LStorageUnavailable, st)
                | (Inr r, st) \<Rightarrow> (r, st))))"

section \<open>Sessions\<close>

text \<open>After the expired logins are gone; a failure to save that is the answer.\<close>

definition with_pruned ::
  "auth_env \<Rightarrow> auth_io \<Rightarrow> int \<Rightarrow> (auth_state \<Rightarrow> (auth_store_error, 'a) result option \<times> auth_state) \<Rightarrow> auth_state \<Rightarrow>
    (auth_store_error, 'a) result option \<times> auth_state" where
  "with_pruned env io now f s = (case prune env io now s of (Inl e, s) \<Rightarrow> (Some (Err e), s) | (Inr u, s) \<Rightarrow> f s)"

definition access_of :: "string \<Rightarrow> login_session \<Rightarrow> session_access" where
  "access_of csrf x =
     \<lparr>sa_id = ls_id x, sa_expires_at = ls_expires x, sa_csrf = csrf, sa_username = ls_username x,
      sa_profile = ls_profile x, sa_cancelled = ls_cancel x\<rparr>"

definition set_session :: "string \<Rightarrow> login_session \<Rightarrow> sessions \<Rightarrow> sessions" where
  "set_session key x m = map (\<lambda>e. if fst e = key then (key, x) else e) m"

definition access_answer ::
  "auth_env \<Rightarrow> string \<Rightarrow> auth_state \<Rightarrow> (auth_store_error, session_access option) result option \<times> auth_state" where
  "access_answer env token s =
     (case map_of (as_sessions s) (token_hash env token) of
        None \<Rightarrow> (None, s)
      | Some x \<Rightarrow> (Some (Ok (Some (access_of (csrf_token env token) x))), s))"

definition access_work ::
  "auth_env \<Rightarrow> auth_io \<Rightarrow> string \<Rightarrow> bool \<Rightarrow> int \<Rightarrow> auth_state \<Rightarrow>
    (auth_store_error, session_access option) result option \<times> auth_state" where
  "access_work env io token touch now =
     with_pruned env io now (\<lambda>s.
       let key = token_hash env token in
       case map_of (as_sessions s) key of
         None \<Rightarrow> (Some (Ok None), s)
       | Some x \<Rightarrow>
           if touch \<and> SEEN_PERSIST_INTERVAL \<le> trunc_div (now - ls_persisted_seen x) 1000000000 then
             let new = set_session key (x\<lparr>ls_seen := now, ls_persisted_seen := now\<rparr>) (as_sessions s) in
             (case save_sessions env io 1 new s of
                (False, s) \<Rightarrow> (Some (Err AStorageUnavailable), s)
              | (True, s) \<Rightarrow> access_answer env token (s\<lparr>as_sessions := new\<rparr>))
           else if touch then
             access_answer env token (s\<lparr>as_sessions := set_session key (x\<lparr>ls_seen := now\<rparr>) (as_sessions s)\<rparr>)
           else access_answer env token s)"

text \<open>A transaction whose own answer is already a result.\<close>

definition flattened :: "(auth_store_error, (auth_store_error, 'a) result) result \<times> auth_store \<Rightarrow> (auth_store_error, 'a) result \<times> auth_store" where
  "flattened r = (and_then (fst r) (\<lambda>v. v), snd r)"

definition access ::
  "auth_env \<Rightarrow> auth_io \<Rightarrow> gate \<Rightarrow> string \<Rightarrow> bool \<Rightarrow> int \<Rightarrow> auth_store \<Rightarrow>
    (auth_store_error, session_access option) result \<times> auth_store" where
  "access env io g token touch now st = flattened (auth_transact g (access_work env io token touch now) st)"

definition checked :: "(auth_store_error, 'a option) result \<Rightarrow> 'a option" where
  "checked r = (case r of Inl e \<Rightarrow> None | Inr v \<Rightarrow> v)"

definition get_access ::
  "auth_env \<Rightarrow> auth_io \<Rightarrow> gate \<Rightarrow> string \<Rightarrow> bool \<Rightarrow> int \<Rightarrow> auth_store \<Rightarrow> session_access option \<times> auth_store" where
  "get_access env io g token touch now st = (case access env io g token touch now st of (r, st) \<Rightarrow> (checked r, st))"

datatype try_lock = Locked | WouldBlock | Poisoned

definition push_login_by_id ::
  "auth_env \<Rightarrow> auth_io \<Rightarrow> try_lock \<Rightarrow> string \<Rightarrow> int \<Rightarrow> auth_store \<Rightarrow> (auth_store_error, session_access option) result" where
  "push_login_by_id env io lock ident now st =
     (if au_closed st then Err AStorageUnavailable
      else case lock of
        WouldBlock \<Rightarrow> Err ABusy
      | Poisoned \<Rightarrow> Err AStorageUnavailable
      | Locked \<Rightarrow>
          let s = au_state st in
          if as_storage_failed s then Err AStorageUnavailable
          else case find (\<lambda>x. ls_id x = ident) (map snd (iterate io (as_sessions s))) of
            None \<Rightarrow> Ok None
          | Some x \<Rightarrow>
              (case map_of (as_accounts s) (ls_username x) of
                 None \<Rightarrow> Ok None
               | Some a \<Rightarrow>
                   if ls_expires x \<le> now \<or> ls_profile x \<noteq> ac_profile a \<or>
                      ls_fingerprint x \<noteq> fingerprint env (ac_credentials a) \<or> ls_cancel x \<in> as_cancelled s
                   then Ok None else Ok (Some (access_of [] x))))"

definition identity_work ::
  "auth_env \<Rightarrow> auth_io \<Rightarrow> string \<Rightarrow> int \<Rightarrow> auth_state \<Rightarrow>
    (auth_store_error, (string \<times> string) option) result option \<times> auth_state" where
  "identity_work env io token now =
     with_pruned env io now (\<lambda>s.
       (Some (Ok (map_option (\<lambda>x. (ls_username x, ls_profile x)) (map_of (as_sessions s) (token_hash env token)))), s))"

definition info_of :: "string \<Rightarrow> string \<times> login_session \<Rightarrow> session_info" where
  "info_of key e =
     \<lparr>in_location = [], in_id = ls_id (snd e), in_browser = ls_browser (snd e), in_ip = ls_ip (snd e), in_created_at = ls_created (snd e),
      in_last_seen_at = ls_seen (snd e), in_expires_at = ls_expires (snd e), in_current = (fst e = key)\<rparr>"

definition list_work ::
  "auth_env \<Rightarrow> auth_io \<Rightarrow> string \<Rightarrow> int \<Rightarrow> auth_state \<Rightarrow>
    (auth_store_error, session_info list option) result option \<times> auth_state" where
  "list_work env io token now =
     with_pruned env io now (\<lambda>s.
       let key = token_hash env token in
       case map_of (as_sessions s) key of
         None \<Rightarrow> (Some (Ok None), s)
       | Some x \<Rightarrow>
           let same = filter (\<lambda>e. ls_username (snd e) = ls_username x \<and> ls_profile (snd e) = ls_profile x)
                        (iterate io (as_sessions s)) in
           (Some (Ok (Some (sort_key (\<lambda>i. (\<not> in_current i, - in_last_seen_at i, in_id i)) (map (info_of key) same)))), s))"

definition drop_session ::
  "auth_env \<Rightarrow> auth_io \<Rightarrow> string \<Rightarrow> 'a \<Rightarrow> auth_state \<Rightarrow> (auth_store_error, 'a) result option \<times> auth_state" where
  "drop_session env io key v s =
     (let new = remove_key key (as_sessions s) in
      case save_sessions env io 1 new s of
        (False, s) \<Rightarrow> (Some (Err AStorageUnavailable), s)
      | (True, s) \<Rightarrow> (Some (Ok v), install_sessions new s))"

definition revoke_work ::
  "auth_env \<Rightarrow> auth_io \<Rightarrow> string \<Rightarrow> string \<Rightarrow> int \<Rightarrow> auth_state \<Rightarrow> (auth_store_error, bool) result option \<times> auth_state" where
  "revoke_work env io token ident now =
     with_pruned env io now (\<lambda>s.
       let key = token_hash env token in
       if \<not> valid_token env ident then (Some (Err ASessionNotFound), s)
       else case map_of (as_sessions s) key of
         None \<Rightarrow> (Some (Err ASessionNotFound), s)
       | Some x \<Rightarrow>
           (case find (\<lambda>e. ls_id (snd e) = ident \<and> ls_username (snd e) = ls_username x \<and> ls_profile (snd e) = ls_profile x)
                   (iterate io (as_sessions s)) of
              None \<Rightarrow> (Some (Err ASessionNotFound), s)
            | Some (target, _) \<Rightarrow> drop_session env io target (target = key) s))"

definition logout_work ::
  "auth_env \<Rightarrow> auth_io \<Rightarrow> string \<Rightarrow> auth_state \<Rightarrow> (auth_store_error, unit) result option \<times> auth_state" where
  "logout_work env io token s =
     (let key = token_hash env token in
      if as_storage_failed s then (Some (Err AStorageUnavailable), s)
      else if map_of (as_sessions s) key = None then (Some (Ok ()), s)
      else drop_session env io key () s)"

definition totp_enabled_work ::
  "auth_env \<Rightarrow> auth_io \<Rightarrow> string \<Rightarrow> int \<Rightarrow> auth_state \<Rightarrow> (auth_store_error, bool option) result option \<times> auth_state" where
  "totp_enabled_work env io token now =
     with_pruned env io now (\<lambda>s.
       case map_of (as_sessions s) (token_hash env token) of
         None \<Rightarrow> (Some (Ok None), s)
       | Some x \<Rightarrow>
           (case map_of (as_accounts s) (ls_username x) of
              None \<Rightarrow> (Some (Ok None), s)
            | Some a \<Rightarrow>
                (Some (Ok (if ls_profile x = ac_profile a \<and> ls_fingerprint x = fingerprint env (ac_credentials a)
                   then Some (\<not> cr_totp_disabled (ac_credentials a)) else None)), s)))"

definition identity_checked :: "auth_env \<Rightarrow> auth_io \<Rightarrow> gate \<Rightarrow> string \<Rightarrow> int \<Rightarrow> auth_store \<Rightarrow> (auth_store_error, (string \<times> string) option) result \<times> auth_store" where
  "identity_checked env io g token now st = flattened (auth_transact g (identity_work env io token now) st)"

definition list_sessions_checked :: "auth_env \<Rightarrow> auth_io \<Rightarrow> gate \<Rightarrow> string \<Rightarrow> int \<Rightarrow> auth_store \<Rightarrow> (auth_store_error, session_info list option) result \<times> auth_store" where
  "list_sessions_checked env io g token now st = flattened (auth_transact g (list_work env io token now) st)"

definition revoke :: "auth_env \<Rightarrow> auth_io \<Rightarrow> gate \<Rightarrow> string \<Rightarrow> string \<Rightarrow> int \<Rightarrow> auth_store \<Rightarrow> (auth_store_error, bool) result \<times> auth_store" where
  "revoke env io g token ident now st = flattened (auth_transact g (revoke_work env io token ident now) st)"

definition logout :: "auth_env \<Rightarrow> auth_io \<Rightarrow> gate \<Rightarrow> string \<Rightarrow> auth_store \<Rightarrow> (auth_store_error, unit) result \<times> auth_store" where
  "logout env io g token st = flattened (auth_transact g (logout_work env io token) st)"

definition totp_enabled_checked :: "auth_env \<Rightarrow> auth_io \<Rightarrow> gate \<Rightarrow> string \<Rightarrow> int \<Rightarrow> auth_store \<Rightarrow> (auth_store_error, bool option) result \<times> auth_store" where
  "totp_enabled_checked env io g token now st = flattened (auth_transact g (totp_enabled_work env io token now) st)"

section \<open>Security settings\<close>

type_synonym security_snapshot = "string \<times> string \<times> credentials \<times> string"

definition security_begin ::
  "auth_env \<Rightarrow> auth_io \<Rightarrow> security_request \<Rightarrow> auth_state \<Rightarrow> (security_status, security_snapshot) result option \<times> auth_state" where
  "security_begin env io rq s =
     (case prune env io (sq_now rq) s of
        (Inl e, s) \<Rightarrow> (Some (Err SStorageUnavailable), s)
      | (Inr u, s) \<Rightarrow>
     (case map_of (as_sessions s) (token_hash env (sq_token rq)) of
        None \<Rightarrow> (Some (Err SStaleSession), s)
      | Some x \<Rightarrow>
     (case map_of (as_accounts s) (ls_username x) of
        None \<Rightarrow> (Some (Err SStaleSession), s)
      | Some a \<Rightarrow>
          let fp = fingerprint env (ac_credentials a) in
          if ls_profile x \<noteq> ac_profile a \<or> ls_fingerprint x \<noteq> fp then (Some (Err SStaleSession), s)
          else
            (case allow_attempt (as_security_attempts s) (ls_username x @ [CHR 0x00] @ ac_profile a) (sq_now rq) 32 of
               (ok, attempts) \<Rightarrow>
                 (Some (if ok then Ok (ls_username x, ac_profile a, ac_credentials a, fp) else Err SRateLimited),
                  s\<lparr>as_security_attempts := attempts\<rparr>)))))"

definition security_verify :: "auth_env \<Rightarrow> kdf_outcome \<Rightarrow> security_request \<Rightarrow> credentials \<Rightarrow> (security_status, int) result" where
  "security_verify env kdf rq c =
     (case kdf of
        KdfBusy \<Rightarrow> Err SRateLimited
      | KdfFailed \<Rightarrow> Err SForbidden
      | KdfDone \<Rightarrow>
          let step = (case match_code env c (sq_code rq) (unix_seconds (sq_now rq)) of None \<Rightarrow> -1 | Some step \<Rightarrow> step) in
          if ae_pbkdf2 env (sq_password rq) (cr_salt c) \<noteq> cr_hash c \<or> step < 0 then Err SForbidden else Ok step)"

text \<open>The change itself, once everything has been checked again.\<close>

definition security_apply ::
  "auth_env \<Rightarrow> auth_io \<Rightarrow> security_request \<Rightarrow> string \<Rightarrow> string \<Rightarrow> int \<Rightarrow> login_session \<Rightarrow> auth_account \<Rightarrow> auth_state \<Rightarrow>
    security_status option \<times> auth_state" where
  "security_apply env io rq username profile step x a s =
     (let c = ac_credentials a; key = token_hash env (sq_token rq) in
      case backup_credentials env io (ac_path a) username c (sq_now rq) s of
        (False, s) \<Rightarrow> (Some SStorageUnavailable, fail_storage s)
      | (True, s) \<Rightarrow>
          let c' = c\<lparr>cr_totp_disabled := \<not> sq_enabled rq, cr_last_step := step\<rparr> in
          (case write_credential env io (as_dir s) (ac_path a) c c' of
             (False, dir) \<Rightarrow> (Some SStorageUnavailable, fail_storage (s\<lparr>as_dir := dir\<rparr>))
           | (True, dir) \<Rightarrow>
               let s = s\<lparr>as_dir := dir, as_accounts := insert_key username (a\<lparr>ac_credentials := c'\<rparr>) (as_accounts s)\<rparr>;
                   kept = filter (\<lambda>e. fst e = key \<or> ls_username (snd e) \<noteq> username \<or> ls_profile (snd e) \<noteq> profile) (as_sessions s);
                   new = set_session key (x\<lparr>ls_fingerprint := fingerprint env c'\<rparr>) kept in
               (case save_sessions env io 1 new s of
                  (False, s) \<Rightarrow> (Some SStorageUnavailable, s)
                | (True, s) \<Rightarrow> (Some SOk, install_sessions new s))))"

definition security_commit ::
  "auth_env \<Rightarrow> auth_io \<Rightarrow> int \<Rightarrow> security_request \<Rightarrow> string \<Rightarrow> string \<Rightarrow> string \<Rightarrow> int \<Rightarrow> auth_state \<Rightarrow>
    security_status option \<times> auth_state" where
  "security_commit env io clock rq username profile fp step s =
     (case prune env io (max (sq_now rq) clock) s of
        (Inl e, s) \<Rightarrow> (Some SStorageUnavailable, s)
      | (Inr u, s) \<Rightarrow>
     (case map_of (as_sessions s) (token_hash env (sq_token rq)) of
        None \<Rightarrow> (Some SStaleSession, s)
      | Some x \<Rightarrow>
     if ls_username x \<noteq> username \<or> ls_profile x \<noteq> profile \<or> ls_fingerprint x \<noteq> fp then (Some SStaleSession, s)
     else case map_of (as_accounts s) username of
        None \<Rightarrow> (Some SStaleSession, s)
      | Some a \<Rightarrow>
          let c = ac_credentials a in
          if ac_profile a \<noteq> profile \<or> fingerprint env c \<noteq> fp then (Some SStaleSession, s)
          else if step \<le> cr_last_step c then (Some SForbidden, s)
          else if sq_enabled rq \<noteq> cr_totp_disabled c then (Some SOk, s)
          else security_apply env io rq username profile step x a s))"

definition set_totp_enabled ::
  "auth_env \<Rightarrow> auth_io \<times> auth_io \<Rightarrow> gate \<times> gate \<Rightarrow> kdf_outcome \<Rightarrow> int \<Rightarrow> (auth_store \<Rightarrow> auth_store) \<Rightarrow> security_request \<Rightarrow>
    auth_store \<Rightarrow> security_status \<times> auth_store" where
  "set_totp_enabled env io g kdf clock between rq st =
     (if 128 < length (sq_password rq) \<or> 16 < length (sq_code rq) then (SForbidden, st)
      else case auth_transact (fst g) (security_begin env (fst io) rq) st of
        (Inl e, st) \<Rightarrow> (SStorageUnavailable, st)
      | (Inr (Inl status), st) \<Rightarrow> (status, st)
      | (Inr (Inr (username, profile, c, fp)), st) \<Rightarrow>
          let st = between st in
          (case security_verify env kdf rq c of
             Inl status \<Rightarrow> (status, st)
           | Inr step \<Rightarrow>
               (case auth_transact (snd g) (security_commit env (snd io) clock rq username profile fp step) st of
                  (Inl e, st) \<Rightarrow> (SStorageUnavailable, st)
                | (Inr status, st) \<Rightarrow> (status, st))))"

section \<open>Closing and opening\<close>

definition close_connections :: "auth_store \<Rightarrow> auth_store" where
  "close_connections st = cancel_all st"

definition auth_shutdown :: "auth_store \<Rightarrow> auth_store" where
  \<comment> \<open>the drains of the two pools that follow only wait\<close>
  "auth_shutdown st = close_connections (st\<lparr>au_closed := True\<rparr>)"

datatype load_error = LoadIo | LoadInvalid

record load_io =
  lo_readable :: "string \<Rightarrow> bool"
  lo_users :: "(string \<times> bool) list option" \<comment> \<open>the account directory: names, and whether a regular file\<close>
  lo_users_private :: bool
  lo_save :: "bool \<times> write_result"

definition json_file_name :: "string \<Rightarrow> bool" where
  \<comment> \<open>\<open>Path::extension\<close> is \<open>json\<close>: a nonempty stem before the last dot\<close>
  "json_file_name name \<longleftrightarrow> 5 < length name \<and> drop (length name - 5) name = ''.json''"

fun load_users ::
  "auth_env \<Rightarrow> load_io \<Rightarrow> private_dir \<Rightarrow> string \<Rightarrow> nat \<Rightarrow> (string \<times> bool) list \<Rightarrow> (string \<times> auth_account) list \<Rightarrow>
    (load_error, (string \<times> auth_account) list) result" where
  "load_users env lo dir path n [] accounts = Ok accounts"
| "load_users env lo dir path n ((name, is_file) # entries) accounts =
     (if MAX_ACCOUNTS - 1 < n + 1 then Err LoadInvalid
      else if \<not> is_file \<or> \<not> json_file_name name then Err LoadInvalid
      else
        let file = path @ ''/'' @ name in
        case read_credential env (lo_readable lo file) dir file of
          None \<Rightarrow> Err LoadIo
        | Some c \<Rightarrow>
            if map_of accounts (cr_username c) \<noteq> None then Err LoadInvalid
            else load_users env lo dir path (n + 1) entries
              (insert_key (cr_username c)
                \<lparr>ac_credentials = c, ac_path = file, ac_profile = account_profile env (cr_username c)\<rparr> accounts))"

definition from_row :: "auth_env \<Rightarrow> nat \<Rightarrow> persisted_session \<Rightarrow> login_session option" where
  "from_row env cell row =
     Option.bind (ae_time env (se_created_at row)) (\<lambda>created.
     Option.bind (ae_time env (se_last_seen_at row)) (\<lambda>seen.
     Option.bind (ae_time env (se_expires_at row)) (\<lambda>expires.
       Some \<lparr>ls_id = se_id row, ls_username = se_username row, ls_profile = se_profile row,
         ls_fingerprint = se_fingerprint row, ls_browser = se_browser row, ls_ip = se_ip row, ls_created = created,
         ls_seen = seen, ls_persisted_seen = seen, ls_expires = expires, ls_cancel = cell\<rparr>)))"

fun load_rows :: "auth_env \<Rightarrow> nat \<Rightarrow> persisted_session list \<Rightarrow> sessions \<Rightarrow> sessions option" where
  "load_rows env cell [] m = Some m"
| "load_rows env cell (row # rows) m =
     Option.bind (from_row env cell row) (\<lambda>x. load_rows env (cell + 1) rows (insert_key (se_token_hash row) x m))"

definition load_accounts ::
  "auth_env \<Rightarrow> load_io \<Rightarrow> private_dir \<Rightarrow> string \<Rightarrow> (load_error, (string \<times> auth_account) list) result" where
  "load_accounts env lo dir path =
     (case read_credential env (lo_readable lo path) dir path of
        None \<Rightarrow> Err LoadIo
      | Some c \<Rightarrow>
          let accounts = [(cr_username c, \<lparr>ac_credentials = c, ac_path = path, ac_profile = []\<rparr>)] in
          (case lo_users lo of
             None \<Rightarrow> Ok accounts
           | Some entries \<Rightarrow>
               if \<not> lo_users_private lo then Err LoadIo
               else load_users env lo dir (suffix_path path ''.users'') 0 entries accounts))"

definition fresh_state ::
  "string \<Rightarrow> (string \<times> auth_account) list \<Rightarrow> sessions \<Rightarrow> nat \<Rightarrow> private_dir \<Rightarrow> (string \<times> bytes) list option \<Rightarrow> auth_state" where
  "fresh_state path accounts m n dir backups =
     \<lparr>as_path = path, as_sessions_path = suffix_path path ''.sessions'', as_accounts = accounts, as_sessions = m,
      as_attempts = [], as_security_attempts = [], as_storage_failed = False, as_dir = dir, as_backups = backups,
      as_cancelled = {}, as_next_cell = n\<rparr>"

definition load_state ::
  "auth_env \<Rightarrow> load_io \<Rightarrow> string \<Rightarrow> int \<Rightarrow> private_dir \<Rightarrow> (string \<times> bytes) list option \<Rightarrow>
    (load_error, auth_state) result" where
  "load_state env lo path now dir backups =
     and_then (load_accounts env lo dir path) (\<lambda>accounts.
       let sessions_path = suffix_path path ''.sessions'' in
       case read_private (lo_readable lo sessions_path) dir sessions_path SESSION_FILE_LIMIT of
         Inl NotFound \<Rightarrow> Ok (fresh_state path accounts [] 0 dir backups)
       | Inl ReadFailed \<Rightarrow> Err LoadIo
       | Inr raw \<Rightarrow>
           (case parse_session_file env raw of
              Inl e \<Rightarrow> Err LoadInvalid
            | Inr f \<Rightarrow>
           (case validate_session_file env f now (map (\<lambda>(u, a). (u, ac_profile a, ac_credentials a)) accounts) of
              Inl e \<Rightarrow> Err LoadInvalid
            | Inr v \<Rightarrow>
           (case load_rows env 0 (vd_retained v) [] of
              None \<Rightarrow> Err LoadInvalid
            | Some m \<Rightarrow>
                let n = length (vd_retained v) in
                if \<not> vd_dirty v then Ok (fresh_state path accounts m n dir backups)
                else case write_sessions env (lo_save lo) dir sessions_path m of
                  (False, dir) \<Rightarrow> Err LoadIo
                | (True, dir) \<Rightarrow> Ok (fresh_state path accounts m n dir backups)))))"

definition auth_open :: "auth_state \<Rightarrow> auth_store" where
  "auth_open s = registry_sync \<lparr>au_state = s, au_closed = False, au_registry_closed = False, au_registered = []\<rparr>"

end
