(* ===== verification/Auth_Store_Invariant.thy ===== *)
theory Auth_Store_Invariant
  imports Auth_Store
begin

text \<open>
  The invariant of the account store, kept by every transaction whatever the files, the clock and the
  random generator do: logins belong to their accounts, identifiers and tokens are unique, at most
  eight logins per account, a login that is gone or whose storage failed has been cancelled, and no
  transaction panics.
\<close>

section \<open>The limiters\<close>

text \<open>The attempts of logins (at most 1024 origins) and of settings changes (at most 32 accounts) are sliding windows.\<close>

interpretation attempts: sliding_window within_minute 5 cap "\<lambda>k. k" "\<lambda>m k now. allow_attempt m k now cap" for cap
  by unfold_locales (auto simp: within_minute_def nanos_def allow_attempt_def slide_def slide_expire_def)

section \<open>The invariant\<close>

definition accounts_ok :: "(string \<times> auth_account) list \<Rightarrow> bool" where
  "accounts_ok m \<longleftrightarrow>
     wf_map m \<and> (\<forall>(u, a) \<in> set m. cr_username (ac_credentials a) = u) \<and> (\<exists>e \<in> set m. ac_profile (snd e) = [])"

definition session_current :: "auth_env \<Rightarrow> (string \<times> auth_account) list \<Rightarrow> login_session \<Rightarrow> bool" where
  "session_current env accounts x \<longleftrightarrow>
     (\<exists>a. map_of accounts (ls_username x) = Some a \<and> ls_profile x = ac_profile a \<and>
        ls_fingerprint x = fingerprint env (ac_credentials a))"

definition sessions_ok :: "nat \<Rightarrow> sessions \<Rightarrow> bool" where
  "sessions_ok n m \<longleftrightarrow>
     wf_map m \<and> distinct (map (\<lambda>e. ls_id (snd e)) m) \<and> distinct (cells m) \<and> (\<forall>c \<in> set (cells m). c < n) \<and>
     (\<forall>u. user_count u m \<le> MAX_SESSIONS_PER_ACCOUNT) \<and>
     (\<forall>e \<in> set m. ls_expires (snd e) = ls_created (snd e) + nanos LOGIN_LIFETIME_SECONDS)"

definition cells_ok :: "auth_state \<Rightarrow> bool" where
  "cells_ok s \<longleftrightarrow>
     as_cancelled s \<subseteq> {..<as_next_cell s} \<and>
     {..<as_next_cell s} \<subseteq> as_cancelled s \<union> set (cells (as_sessions s)) \<and>
     (as_storage_failed s \<longrightarrow> set (cells (as_sessions s)) \<subseteq> as_cancelled s)"

definition state_ok :: "auth_env \<Rightarrow> auth_state \<Rightarrow> bool" where
  "state_ok env s \<longleftrightarrow>
     accounts_ok (as_accounts s) \<and> sessions_ok (as_next_cell s) (as_sessions s) \<and> cells_ok s \<and>
     (as_storage_failed s \<or> (\<forall>e \<in> set (as_sessions s). session_current env (as_accounts s) (snd e)))"

definition live_ok :: "auth_state \<Rightarrow> bool" where
  "live_ok s \<longleftrightarrow> as_storage_failed s \<or> set (cells (as_sessions s)) \<inter> as_cancelled s = {}"

text \<open>What no transaction changes of an account, and that its last step never goes back.\<close>

definition advances :: "(string \<times> auth_account) list \<Rightarrow> (string \<times> auth_account) list \<Rightarrow> bool" where
  "advances m m' \<longleftrightarrow>
     (\<forall>u a. map_of m u = Some a \<longrightarrow>
        (\<exists>a'. map_of m' u = Some a' \<and> ac_path a' = ac_path a \<and> ac_profile a' = ac_profile a \<and>
           cr_last_step (ac_credentials a) \<le> cr_last_step (ac_credentials a')))"

text \<open>A login is still there under its key with its channel, or the channel has been cancelled.\<close>

definition retires :: "sessions \<Rightarrow> auth_state \<Rightarrow> bool" where
  "retires m s' \<longleftrightarrow>
     (\<forall>e \<in> set m. ls_cancel (snd e) \<in> as_cancelled s' \<or>
        (\<exists>x. map_of (as_sessions s') (fst e) = Some x \<and> ls_cancel x = ls_cancel (snd e)))"

text \<open>One state follows another under the invariant.\<close>

definition follows :: "auth_env \<Rightarrow> auth_state \<Rightarrow> auth_state \<Rightarrow> bool" where
  "follows env s s' \<longleftrightarrow>
     (state_ok env s \<longrightarrow>
        state_ok env s' \<and> (live_ok s \<longrightarrow> live_ok s') \<and> advances (as_accounts s) (as_accounts s') \<and>
        as_next_cell s \<le> as_next_cell s' \<and> as_cancelled s \<subseteq> as_cancelled s' \<and> (as_storage_failed s \<longrightarrow> as_storage_failed s') \<and>
        retires (as_sessions s) s')"

lemma advances_refl [simp]: "advances m m"
  by (simp add: advances_def)

lemma advances_trans:
  assumes "advances m m'" and "advances m' m''"
  shows "advances m m''"
  unfolding advances_def
proof (intro allI impI)
  fix u a
  assume "map_of m u = Some a"
  then obtain a' where a': "map_of m' u = Some a'" "ac_path a' = ac_path a" "ac_profile a' = ac_profile a"
    "cr_last_step (ac_credentials a) \<le> cr_last_step (ac_credentials a')"
    using assms(1) unfolding advances_def by blast
  then obtain a'' where "map_of m'' u = Some a''" "ac_path a'' = ac_path a'" "ac_profile a'' = ac_profile a'"
    "cr_last_step (ac_credentials a') \<le> cr_last_step (ac_credentials a'')"
    using assms(2) unfolding advances_def by blast
  then show "\<exists>a''. map_of m'' u = Some a'' \<and> ac_path a'' = ac_path a \<and> ac_profile a'' = ac_profile a \<and>
      cr_last_step (ac_credentials a) \<le> cr_last_step (ac_credentials a'')"
    using a' by (intro exI [of _ a'']) auto
qed

lemma retires_same:
  assumes "wf_map m" and "\<And>k x. map_of m k = Some x \<Longrightarrow> \<exists>y. map_of (as_sessions s') k = Some y \<and> ls_cancel y = ls_cancel x"
  shows "retires m s'"
  using assms map_of_mem [OF assms(1)] by (fastforce simp: retires_def)

lemma state_ok_wf: "state_ok env s \<Longrightarrow> wf_map (as_sessions s)"
  by (simp add: state_ok_def sessions_ok_def)

lemma retires_trans:
  assumes "retires m s" and "retires (as_sessions s) s'" and "as_cancelled s \<subseteq> as_cancelled s'"
  shows "retires m s'"
  unfolding retires_def
proof
  fix e
  assume "e \<in> set m"
  then consider "ls_cancel (snd e) \<in> as_cancelled s" | x where "map_of (as_sessions s) (fst e) = Some x" "ls_cancel x = ls_cancel (snd e)"
    using assms(1) unfolding retires_def by blast
  then show "ls_cancel (snd e) \<in> as_cancelled s' \<or> (\<exists>x. map_of (as_sessions s') (fst e) = Some x \<and> ls_cancel x = ls_cancel (snd e))"
  proof cases
    case 1
    then show ?thesis using assms(3) by blast
  next
    case (2 x)
    then show ?thesis using assms(2) map_of_SomeD [OF 2(1)] unfolding retires_def by fastforce
  qed
qed

lemma follows_refl [simp]: "follows env s s"
  by (auto simp: follows_def intro: retires_same state_ok_wf)

lemma follows_trans:
  assumes "follows env a b" and "follows env b c"
  shows "follows env a c"
  unfolding follows_def
proof
  assume "state_ok env a"
  then have ab: "state_ok env b" "live_ok a \<longrightarrow> live_ok b" "advances (as_accounts a) (as_accounts b)"
    "as_next_cell a \<le> as_next_cell b" "as_cancelled a \<subseteq> as_cancelled b" "as_storage_failed a \<longrightarrow> as_storage_failed b"
    "retires (as_sessions a) b"
    using assms(1) unfolding follows_def by blast+
  then have bc: "state_ok env c" "live_ok b \<longrightarrow> live_ok c" "advances (as_accounts b) (as_accounts c)"
    "as_next_cell b \<le> as_next_cell c" "as_cancelled b \<subseteq> as_cancelled c" "as_storage_failed b \<longrightarrow> as_storage_failed c"
    "retires (as_sessions b) c"
    using assms(2) unfolding follows_def by blast+
  show "state_ok env c \<and> (live_ok a \<longrightarrow> live_ok c) \<and> advances (as_accounts a) (as_accounts c) \<and>
      as_next_cell a \<le> as_next_cell c \<and> as_cancelled a \<subseteq> as_cancelled c \<and> (as_storage_failed a \<longrightarrow> as_storage_failed c) \<and>
      retires (as_sessions a) c"
    using ab(2,4-6) bc(1,2,4-6) advances_trans [OF ab(3) bc(3)] retires_trans [OF ab(7) bc(7) bc(5)] by auto
qed

section \<open>Session maps\<close>

lemma set_cells: "set (cells m) = (\<lambda>e. ls_cancel (snd e)) ` set m"
  by (simp add: cells_def)

lemma user_count_filter: "user_count u (filter P m) \<le> user_count u m"
  by (induction m) (auto simp: user_count_def)

lemma sessions_ok_filter: "sessions_ok n m \<Longrightarrow> sessions_ok n (filter P m)"
  using user_count_filter [of _ P m]
  by (auto simp: sessions_ok_def cells_def distinct_map_filter intro: order_trans)

lemma sessions_ok_remove: "sessions_ok n m \<Longrightarrow> sessions_ok n (remove_key k m)"
  by (simp add: remove_key_def sessions_ok_filter)

lemma user_count_insert:
  "map_of m k = None \<Longrightarrow> user_count u (insert_key k x m) = user_count u m + (if ls_username x = u then 1 else 0)"
  by (simp add: user_count_def insert_key_def map_of_None_remove_key)

lemma sessions_ok_insert:
  assumes "sessions_ok n m" and new: "map_of m k = None" and "\<not> list_ex (\<lambda>e. ls_id (snd e) = ls_id x) m"
    and "user_count (ls_username x) m < MAX_SESSIONS_PER_ACCOUNT" and "ls_cancel x = n"
    and "ls_expires x = ls_created x + nanos LOGIN_LIFETIME_SECONDS"
  shows "sessions_ok (Suc n) (insert_key k x m)"
proof -
  have eq: "insert_key k x m = m @ [(k, x)]" by (simp add: insert_key_def map_of_None_remove_key [OF new])
  have "wf_map (insert_key k x m)" using assms(1) by (auto simp: sessions_ok_def)
  moreover have "user_count u (insert_key k x m) \<le> MAX_SESSIONS_PER_ACCOUNT" for u
    using assms(1,4) user_count_insert [OF new, of u x] by (auto simp: sessions_ok_def)
  moreover have "n \<notin> set (cells m)" using assms(1) by (auto simp: sessions_ok_def)
  ultimately show ?thesis
    using assms by (auto simp: sessions_ok_def eq cells_def list_ex_iff)
qed

text \<open>A login keeps its place, its owner, its identifier and its channel.\<close>

definition same_login :: "login_session \<Rightarrow> login_session \<Rightarrow> bool" where
  "same_login x y \<longleftrightarrow>
     ls_id x = ls_id y \<and> ls_username x = ls_username y \<and> ls_profile x = ls_profile y \<and> ls_cancel x = ls_cancel y \<and>
     ls_created x = ls_created y \<and> ls_expires x = ls_expires y"

lemma set_session_absent: "key \<notin> fst ` set m \<Longrightarrow> set_session key x m = m"
  unfolding set_session_def by (rule map_idI) force

lemma map_of_set_session:
  assumes "map_of m key = Some y"
  shows "map_of (set_session key x m) = (map_of m)(key \<mapsto> x)"
proof -
  have "map_of (set_session key x m) k = (if k = key then map_option (\<lambda>_. x) (map_of m key) else map_of m k)" for k
    by (induction m) (auto simp: set_session_def)
  then show ?thesis using assms by (auto simp: fun_eq_iff)
qed

lemma set_session_projection:
  assumes "wf_map m" and "map_of m key = Some y" and "\<And>k. f (k, x) = f (k, y)"
  shows "map f (set_session key x m) = map f m"
proof -
  have "f (if fst e = key then (key, x) else e) = f e" if "e \<in> set m" for e
    using map_of_mem [OF assms(1), of "fst e" "snd e"] that assms(2,3) by (cases e) auto
  then show ?thesis by (simp add: set_session_def)
qed

lemma sessions_ok_set:
  assumes ok: "sessions_ok n m" and look: "map_of m key = Some y" and same: "same_login x y"
  shows "sessions_ok n (set_session key x m)"
proof -
  have wf: "wf_map m" using ok by (simp add: sessions_ok_def)
  note proj = set_session_projection [OF wf look]
  have ids: "map (\<lambda>e. ls_id (snd e)) (set_session key x m) = map (\<lambda>e. ls_id (snd e)) m"
    and cs: "cells (set_session key x m) = cells m"
    and users: "map (\<lambda>e. ls_username (snd e)) (set_session key x m) = map (\<lambda>e. ls_username (snd e)) m"
    and ks: "keys (set_session key x m) = keys m"
    and exp: "map (\<lambda>e. ls_expires (snd e) = ls_created (snd e) + nanos LOGIN_LIFETIME_SECONDS) (set_session key x m) =
      map (\<lambda>e. ls_expires (snd e) = ls_created (snd e) + nanos LOGIN_LIFETIME_SECONDS) m"
    using same unfolding cells_def keys_def by (auto intro!: proj simp: same_login_def)
  have count: "user_count u m' = length (filter (\<lambda>v. v = u) (map (\<lambda>e. ls_username (snd e)) m'))" for u m'
    by (simp add: user_count_def filter_map comp_def)
  have "False \<notin> set (map (\<lambda>e. ls_expires (snd e) = ls_created (snd e) + nanos LOGIN_LIFETIME_SECONDS) m)"
    using ok by (auto simp: sessions_ok_def)
  then have "\<forall>e \<in> set (set_session key x m). ls_expires (snd e) = ls_created (snd e) + nanos LOGIN_LIFETIME_SECONDS"
    unfolding exp [symmetric] by force
  then show ?thesis
    using ok by (simp add: sessions_ok_def wf_map_def ids cs ks count users)
qed

section \<open>Installing a map\<close>

definition derived_from :: "sessions \<Rightarrow> nat \<Rightarrow> sessions \<Rightarrow> bool" where
  "derived_from old n new \<longleftrightarrow>
     (\<forall>e \<in> set new. case map_of old (fst e) of Some y \<Rightarrow> ls_cancel (snd e) = ls_cancel y | None \<Rightarrow> n \<le> ls_cancel (snd e))"

lemma derived_filter: "wf_map m \<Longrightarrow> derived_from m n (filter P m)"
  using map_of_mem [of m] by (fastforce simp: derived_from_def)

lemma derived_cell:
  assumes "derived_from old n new" and "c \<in> set (cells new)"
  shows "c \<in> set (cells old) \<or> n \<le> c"
proof -
  obtain e where e: "e \<in> set new" "ls_cancel (snd e) = c" using assms(2) by (auto simp: set_cells)
  show ?thesis
  proof (cases "map_of old (fst e)")
    case None
    then show ?thesis using assms(1) e by (force simp: derived_from_def)
  next
    case (Some y)
    then have "ls_cancel y = c" using assms(1) e by (force simp: derived_from_def)
    then show ?thesis using map_of_SomeD [OF Some] by (force simp: set_cells)
  qed
qed

lemma derived_removed:
  assumes "sessions_ok n old" and "derived_from old n new" and "wf_map new"
    and c: "c \<in> set (cells (filter (\<lambda>e. map_of new (fst e) = None) old))"
  shows "c \<notin> set (cells new)"
proof
  assume "c \<in> set (cells new)"
  then obtain k x where kx: "(k, x) \<in> set new" "ls_cancel x = c" by (auto simp: set_cells)
  obtain k' y where ky: "(k', y) \<in> set old" "map_of new k' = None" "ls_cancel y = c" using c by (auto simp: set_cells)
  have "c < n" using assms(1) ky by (auto simp: sessions_ok_def set_cells)
  then obtain z where z: "map_of old k = Some z" "ls_cancel z = c"
    using assms(2) kx unfolding derived_from_def by (fastforce split: option.splits)
  have cells_inj: "distinct old \<and> inj_on (\<lambda>e. ls_cancel (snd e)) (set old)"
    using assms(1) by (simp add: sessions_ok_def cells_def distinct_map)
  have "(k, z) = (k', y)"
    using inj_onD [OF conjunct2 [OF cells_inj], of "(k, z)" "(k', y)"] map_of_SomeD [OF z(1)] ky z(2) by simp
  then show False using ky(2) map_of_mem [OF assms(3) kx(1)] by simp
qed

lemma derived_covers:
  assumes "wf_map old" and "derived_from old n new" and "c \<in> set (cells old)"
  shows "c \<in> set (cells new) \<or> c \<in> set (cells (filter (\<lambda>e. map_of new (fst e) = None) old))"
proof -
  obtain k y where ky: "(k, y) \<in> set old" "ls_cancel y = c" using assms(3) by (auto simp: set_cells)
  show ?thesis
  proof (cases "map_of new k")
    case None
    then show ?thesis using ky by (force simp: set_cells)
  next
    case (Some x)
    then have "(k, x) \<in> set new" by (rule map_of_SomeD)
    then have "ls_cancel x = c"
      using assms(2) map_of_mem [OF assms(1) ky(1)] ky(2) by (fastforce simp: derived_from_def)
    then show ?thesis using \<open>(k, x) \<in> set new\<close> by (force simp: set_cells)
  qed
qed

text \<open>The rest of the state may have changed before, as long as the accounts only advanced.\<close>

lemma install_follows:
  assumes ok: "state_ok env s" and fine: "\<not> as_storage_failed s"
    and same: "as_sessions t = as_sessions s" "as_cancelled t = as_cancelled s" "as_storage_failed t = as_storage_failed s"
    and t: "accounts_ok (as_accounts t)" "advances (as_accounts s) (as_accounts t)" "as_next_cell s \<le> as_next_cell t"
    and new: "sessions_ok (as_next_cell t) new" "\<forall>e \<in> set new. session_current env (as_accounts t) (snd e)"
    and derived: "derived_from (as_sessions s) (as_next_cell s) new"
    and fresh: "{as_next_cell s..<as_next_cell t} \<subseteq> set (cells new)"
  shows "follows env s (install_sessions new t)"
proof -
  define n where "n = as_next_cell t"
  define removed where "removed = cells (filter (\<lambda>e. map_of new (fst e) = None) (as_sessions s))"
  define s' where "s' = install_sessions new t"
  note n = t(3) [folded n_def]
  note fresh = fresh [folded n_def]
  have s': "as_sessions s' = new" "as_cancelled s' = as_cancelled s \<union> set removed" "as_next_cell s' = n"
    "as_accounts s' = as_accounts t" "as_storage_failed s' = as_storage_failed s"
    by (simp_all add: s'_def install_sessions_def cancel_cells_def removed_def same n_def)
  have old: "sessions_ok (as_next_cell s) (as_sessions s)" and cov: "cells_ok s" and acc: "accounts_ok (as_accounts s)"
    using ok by (simp_all add: state_ok_def)
  have wf: "wf_map (as_sessions s)" "wf_map new" using old new(1) by (auto simp: sessions_ok_def)
  have out: "c \<notin> set (cells new)" if "c \<in> set removed" for c
    using derived_removed [OF old derived wf(2)] that by (simp add: removed_def)
  have below: "set removed \<subseteq> {..<as_next_cell s}" using old by (auto simp: sessions_ok_def removed_def set_cells)
  have cells': "cells_ok s'"
  proof -
    have "c \<in> as_cancelled s' \<union> set (cells new)" if "c < n" for c
    proof (cases "c < as_next_cell s")
      case True
      then have "c \<in> as_cancelled s \<or> c \<in> set (cells (as_sessions s))" using cov unfolding cells_ok_def by blast
      then show ?thesis using derived_covers [OF wf(1) derived, of c] by (auto simp: s' removed_def)
    next
      case False
      then have "c \<in> {as_next_cell s..<n}" using that by simp
      then show ?thesis using fresh by blast
    qed
    moreover have "as_cancelled s' \<subseteq> {..<n}" using cov below n by (auto simp: cells_ok_def s')
    ultimately show ?thesis using fine by (auto simp: cells_ok_def s')
  qed
  have live: "live_ok s \<Longrightarrow> live_ok s'"
  proof -
    assume "live_ok s"
    then have apart: "set (cells (as_sessions s)) \<inter> as_cancelled s = {}" using fine by (simp add: live_ok_def)
    have "c \<notin> as_cancelled s'" if c: "c \<in> set (cells new)" for c
    proof -
      have "c \<in> set (cells (as_sessions s)) \<or> as_next_cell s \<le> c" by (rule derived_cell [OF derived c])
      then show ?thesis using apart cov out c by (auto simp: s' cells_ok_def)
    qed
    then show "live_ok s'" by (auto simp: live_ok_def s')
  qed
  have ret: "retires (as_sessions s) s'"
    unfolding retires_def s'
  proof
    fix e
    assume e: "e \<in> set (as_sessions s)"
    show "ls_cancel (snd e) \<in> as_cancelled s \<union> set removed \<or> (\<exists>x. map_of new (fst e) = Some x \<and> ls_cancel x = ls_cancel (snd e))"
    proof (cases "map_of new (fst e)")
      case None
      then show ?thesis using e by (auto simp: removed_def set_cells)
    next
      case (Some x)
      then show ?thesis
        using bspec [OF derived [unfolded derived_from_def] map_of_SomeD [OF Some]] map_of_mem [OF wf(1), of "fst e" "snd e"] e by simp
    qed
  qed
  show ?thesis
    using t new cells' live n ret unfolding follows_def s'_def [symmetric] by (auto simp: state_ok_def s' n_def)
qed

section \<open>Small changes\<close>

lemma state_ok_irrelevant [simp]:
  "state_ok env (s\<lparr>as_dir := d\<rparr>) = state_ok env s" "state_ok env (s\<lparr>as_attempts := m\<rparr>) = state_ok env s"
  "state_ok env (s\<lparr>as_security_attempts := m\<rparr>) = state_ok env s" "state_ok env (s\<lparr>as_backups := b\<rparr>) = state_ok env s"
  by (simp_all add: state_ok_def cells_ok_def)

lemma live_ok_irrelevant [simp]:
  "live_ok (s\<lparr>as_dir := d\<rparr>) = live_ok s" "live_ok (s\<lparr>as_attempts := m\<rparr>) = live_ok s"
  "live_ok (s\<lparr>as_security_attempts := m\<rparr>) = live_ok s" "live_ok (s\<lparr>as_backups := b\<rparr>) = live_ok s"
  "live_ok (s\<lparr>as_accounts := a\<rparr>) = live_ok s"
  by (simp_all add: live_ok_def)

lemma follows_irrelevant [simp]:
  "follows env s (s\<lparr>as_dir := d\<rparr>)" "follows env s (s\<lparr>as_attempts := m\<rparr>)"
  "follows env s (s\<lparr>as_security_attempts := m\<rparr>)" "follows env s (s\<lparr>as_backups := b\<rparr>)"
  by (auto simp: follows_def intro: retires_same state_ok_wf)

lemma fail_storage_simps [simp]:
  "as_storage_failed (fail_storage s)" "as_accounts (fail_storage s) = as_accounts s"
  "as_sessions (fail_storage s) = as_sessions s" "as_next_cell (fail_storage s) = as_next_cell s"
  "as_cancelled (fail_storage s) = as_cancelled s \<union> set (cells (as_sessions s))"
  "as_dir (fail_storage s) = as_dir s" "as_sessions_path (fail_storage s) = as_sessions_path s" "as_path (fail_storage s) = as_path s"
  by (simp_all add: fail_storage_def cancel_cells_def)

lemma fail_follows_from:
  assumes "as_sessions t = as_sessions s" "as_cancelled t = as_cancelled s" "as_next_cell t = as_next_cell s"
    and "state_ok env s \<Longrightarrow> accounts_ok (as_accounts t) \<and> advances (as_accounts s) (as_accounts t)"
  shows "follows env s (fail_storage t)"
proof -
  have "retires (as_sessions s) (fail_storage t)" using assms(1) by (auto simp: retires_def set_cells)
  then show ?thesis using assms by (auto simp: follows_def state_ok_def cells_ok_def live_ok_def sessions_ok_def)
qed

lemma fail_follows [simp]: "follows env s (fail_storage s)"
  by (rule fail_follows_from) (simp_all add: state_ok_def)

lemma install_simps [simp]:
  "as_storage_failed (install_sessions m s) = as_storage_failed s" "as_accounts (install_sessions m s) = as_accounts s"
  "as_sessions (install_sessions m s) = m" "as_next_cell (install_sessions m s) = as_next_cell s"
  "as_dir (install_sessions m s) = as_dir s" "as_sessions_path (install_sessions m s) = as_sessions_path s"
  "as_path (install_sessions m s) = as_path s"
  by (simp_all add: install_sessions_def cancel_cells_def)

section \<open>Files\<close>

lemma save_sessions_cases:
  assumes "save_sessions env io n m s = (ok, s')"
  obtains dir where "write_sessions env (ai_save io n) (as_dir s) (as_sessions_path s) m = (ok, dir)"
    and "s' = (if ok then s\<lparr>as_dir := dir\<rparr> else fail_storage (s\<lparr>as_dir := dir\<rparr>))"
  using assms by (cases "write_sessions env (ai_save io n) (as_dir s) (as_sessions_path s) m")
    (auto simp: save_sessions_def split: bool.splits)

lemma save_fails_follows: "save_sessions env io n m s = (False, s') \<Longrightarrow> follows env s s' \<and> as_storage_failed s'"
  by (erule save_sessions_cases) (auto intro!: fail_follows_from simp: state_ok_def)

text \<open>A map is written and then installed.\<close>

lemma saved_install_follows:
  assumes "save_sessions env io n new s = (True, s')" and "state_ok env s" and "\<not> as_storage_failed s"
    and "sessions_ok (as_next_cell s) new" "\<forall>e \<in> set new. session_current env (as_accounts s) (snd e)"
    and "derived_from (as_sessions s) (as_next_cell s) new"
  shows "follows env s (install_sessions new s')"
  using assms(1) by (elim save_sessions_cases) (use assms(2-) in \<open>auto intro!: install_follows simp: state_ok_def\<close>)

lemma prune_Ok:
  assumes "prune env io now s = (Inr u, s')"
  shows "\<not> as_storage_failed s \<and> \<not> as_storage_failed s' \<and>
    as_sessions s' = filter (\<lambda>e. now < ls_expires (snd e)) (as_sessions s) \<and> as_accounts s' = as_accounts s \<and>
    as_sessions_path s' = as_sessions_path s \<and> as_next_cell s' = as_next_cell s \<and> as_path s' = as_path s"
proof -
  have "filter (\<lambda>e. now < ls_expires (snd e)) (as_sessions s) = as_sessions s"
    if "\<not> list_ex (\<lambda>e. ls_expires (snd e) \<le> now) (as_sessions s)"
    using that by (auto simp: list_ex_iff filter_id_conv)
  then show ?thesis
    using assms by (auto simp: prune_def Let_def elim!: save_sessions_cases split: if_splits prod.splits bool.splits)
qed

lemma prune_cases:
  assumes "prune env io now s = (r, s')" and ok: "state_ok env s"
  shows "follows env s s'" and "r = Inl e \<Longrightarrow> as_storage_failed s'"
proof -
  let ?new = "filter (\<lambda>e. now < ls_expires (snd e)) (as_sessions s)"
  have wf: "wf_map (as_sessions s)" using ok by (simp add: state_ok_def sessions_ok_def)
  have new: "sessions_ok (as_next_cell s) ?new"
    "\<not> as_storage_failed s \<Longrightarrow> \<forall>e \<in> set ?new. session_current env (as_accounts s) (snd e)"
    "derived_from (as_sessions s) (as_next_cell s) ?new"
    using ok by (auto simp: state_ok_def sessions_ok_filter derived_filter [OF wf])
  show "follows env s s'"
    using assms new save_fails_follows [of env io 0 ?new s] saved_install_follows [of env io 0 ?new s]
    by (auto simp: prune_def Let_def split: if_splits prod.splits bool.splits)
  show "r = Inl e \<Longrightarrow> as_storage_failed s'"
    using assms save_fails_follows [of env io 0 ?new s]
    by (auto simp: prune_def Let_def split: if_splits prod.splits bool.splits)
qed

section \<open>Accounts\<close>

lemma accounts_ok_update:
  assumes "accounts_ok m" and "map_of m u = Some a" and "ac_profile a' = ac_profile a" and "ac_path a' = ac_path a"
    and "cr_username (ac_credentials a') = cr_username (ac_credentials a)"
    and "cr_last_step (ac_credentials a) \<le> cr_last_step (ac_credentials a')"
  shows "accounts_ok (insert_key u a' m) \<and> advances m (insert_key u a' m)"
proof -
  have wf: "wf_map m" and names: "\<forall>(u, a) \<in> set m. cr_username (ac_credentials a) = u"
    using assms(1) by (auto simp: accounts_ok_def)
  obtain e where e: "e \<in> set m" "ac_profile (snd e) = []" using assms(1) by (auto simp: accounts_ok_def)
  have "\<exists>e \<in> set (insert_key u a' m). ac_profile (snd e) = []"
  proof (cases "fst e = u")
    case True
    then have "snd e = a" using map_of_mem [OF wf, of "fst e" "snd e"] e(1) assms(2) by (cases e) auto
    then show ?thesis using e(2) assms(3) by (simp add: insert_key_def)
  next
    case False
    then have "e \<in> set (insert_key u a' m)" using e(1) by (simp add: insert_key_def remove_key_def)
    then show ?thesis using e(2) by blast
  qed
  moreover have "\<forall>(u, a) \<in> set (insert_key u a' m). cr_username (ac_credentials a) = u"
    using names map_of_SomeD [OF assms(2)] assms(5) by (auto simp: insert_key_def remove_key_def)
  ultimately show ?thesis
    using wf assms by (auto simp: accounts_ok_def advances_def)
qed

lemma fingerprint_last_step [simp]: "fingerprint env (c\<lparr>cr_last_step := n\<rparr>) = fingerprint env c"
  by (simp add: fingerprint_def fingerprint_input_def)

lemma session_current_step:
  assumes "map_of m u = Some a" and "fingerprint env c' = fingerprint env (ac_credentials a)"
  shows "session_current env (insert_key u (a\<lparr>ac_credentials := c'\<rparr>) m) x = session_current env m x"
  using assms by (auto simp: session_current_def)

section \<open>Iteration, room for a login, fresh names\<close>

lemma set_iterate [simp]: "set (iterate io m) = set m"
  by (simp add: iterate_def)

lemma oldest_of_Some:
  assumes "oldest_of io u m = Some k" and "wf_map m"
  obtains x where "map_of m k = Some x" and "ls_username x = u"
    and "\<forall>e \<in> set m. ls_username (snd e) = u \<longrightarrow> ls_seen x \<le> ls_seen (snd e)"
proof -
  define l where "l = sort_key (\<lambda>e. ls_seen (snd e)) (filter (\<lambda>e. ls_username (snd e) = u) (iterate io m))"
  obtain e es where l: "l = e # es" and k: "k = fst e"
    using assms(1) by (auto simp: oldest_of_def l_def [symmetric] split: list.splits)
  have set_l: "set l = {e \<in> set m. ls_username (snd e) = u}" by (auto simp: l_def)
  then have e: "e \<in> set m" "ls_username (snd e) = u" using l by auto
  have "sorted (map (\<lambda>e. ls_seen (snd e)) l)" by (simp add: l_def)
  then have "\<forall>e' \<in> set l. ls_seen (snd e) \<le> ls_seen (snd e')" using l by auto
  then have "\<forall>e' \<in> set m. ls_username (snd e') = u \<longrightarrow> ls_seen (snd e) \<le> ls_seen (snd e')" using set_l by blast
  then show thesis using that [of "snd e"] e k map_of_mem [OF assms(2), of "fst e" "snd e"] by (cases e) simp
qed

lemma oldest_of_None:
  assumes "oldest_of io u m = None"
  shows "user_count u m = 0"
proof -
  have "sort_key (\<lambda>e. ls_seen (snd e)) (filter (\<lambda>e. ls_username (snd e) = u) (iterate io m)) = []"
    using assms by (auto simp: oldest_of_def split: list.splits)
  then have "set (filter (\<lambda>e. ls_username (snd e) = u) (iterate io m)) = {}" by (metis set_sort set_empty)
  then have "\<forall>e \<in> set m. ls_username (snd e) \<noteq> u" unfolding set_filter set_iterate by blast
  then have "filter (\<lambda>e. ls_username (snd e) = u) m = []" by (rule filter_empty_conv [THEN iffD2])
  then show ?thesis by (simp add: user_count_def)
qed

lemma user_count_remove:
  assumes "wf_map m" and "map_of m k = Some x" and "ls_username x = u"
  shows "user_count u (remove_key k m) < user_count u m"
  using assms
proof (induction m)
  case (Cons e m)
  have wf: "wf_map m" and new: "fst e \<notin> fst ` set m" using Cons.prems(1) by (auto simp: wf_map_def keys_def)
  show ?case
  proof (cases "fst e = k")
    case True
    then have "filter (\<lambda>e. fst e \<noteq> k) m = m" using new True by (intro filter_True ballI notI) (metis imageI)
    then show ?thesis using True Cons.prems by (cases e) (simp add: user_count_def remove_key_def)
  next
    case False
    then have "map_of m k = Some x" using Cons.prems(2) by (cases e) simp
    then show ?thesis using Cons.IH [OF wf] False Cons.prems(3) by (auto simp: user_count_def remove_key_def)
  qed
qed simp

lemma make_room_cases:
  assumes "sessions_ok n m"
  obtains P where "make_room io u m = filter P m" and "user_count u (make_room io u m) < MAX_SESSIONS_PER_ACCOUNT"
proof (cases "MAX_SESSIONS_PER_ACCOUNT \<le> user_count u m")
  case False
  then show ?thesis using that [of "\<lambda>_. True"] by (simp add: make_room_def)
next
  case True
  have wf: "wf_map m" and most: "user_count u m \<le> MAX_SESSIONS_PER_ACCOUNT" using assms by (auto simp: sessions_ok_def)
  have "oldest_of io u m \<noteq> None" using oldest_of_None [of io u m] True by (auto simp: limits)
  then obtain k where k: "oldest_of io u m = Some k" by blast
  obtain x where "map_of m k = Some x" "ls_username x = u" by (rule oldest_of_Some [OF k wf])
  then have "user_count u (remove_key k m) < user_count u m" by (rule user_count_remove [OF wf])
  then show ?thesis using that [of "\<lambda>e. fst e \<noteq> k"] True k most by (simp add: make_room_def remove_key_def)
qed

lemma draw_fresh_Some: "draw_fresh env taken draws = Some (v, rest) \<Longrightarrow> \<not> taken v \<and> (\<exists>raw. Some raw \<in> set draws \<and> v = ae_base64url env raw)"
  by (induction env taken draws rule: draw_fresh.induct) (auto split: if_splits)

text \<open>Enough distinct draws always leave the loop.\<close>

lemma draw_fresh_returns:
  assumes "distinct draws" and "inj (ae_base64url env)" and "finite {v. taken v}" and "card {v. taken v} < length draws"
  shows "draw_fresh env taken (map Some draws) \<noteq> None"
proof
  assume none: "draw_fresh env taken (map Some draws) = None"
  have "draw_fresh env taken (map Some ds) = None \<Longrightarrow> \<forall>raw \<in> set ds. taken (ae_base64url env raw)" for ds
    by (induction ds) (auto split: if_splits)
  with none have "ae_base64url env ` set draws \<subseteq> {v. taken v}" by blast
  then have "card (ae_base64url env ` set draws) \<le> card {v. taken v}" using assms(3) by (rule card_mono [rotated])
  moreover have "card (ae_base64url env ` set draws) = length draws"
    using assms(1,2) by (simp add: card_image inj_on_subset distinct_card)
  ultimately show False using assms(4) by simp
qed

section \<open>The contract of a transaction\<close>

text \<open>
  A transaction returns (it does not panic) and leads from one state under the invariant to another.
  Every operation of the store is an instance.
\<close>

definition store_ok :: "auth_env \<Rightarrow> auth_store \<Rightarrow> bool" where
  "store_ok env st \<longleftrightarrow>
     state_ok env (au_state st) \<and> set (au_registered st) = set (cells (as_sessions (au_state st))) \<and>
     (if au_registry_closed st then set (cells (as_sessions (au_state st))) \<subseteq> as_cancelled (au_state st) else live_ok (au_state st)) \<and>
     (au_closed st \<longrightarrow> au_registry_closed st)"

text \<open>What only ever grows.\<close>

definition progress :: "auth_store \<Rightarrow> auth_store \<Rightarrow> bool" where
  "progress st st' \<longleftrightarrow>
     advances (as_accounts (au_state st)) (as_accounts (au_state st')) \<and>
     as_cancelled (au_state st) \<subseteq> as_cancelled (au_state st') \<and> as_next_cell (au_state st) \<le> as_next_cell (au_state st') \<and>
     (as_storage_failed (au_state st) \<longrightarrow> as_storage_failed (au_state st')) \<and> (au_closed st \<longrightarrow> au_closed st') \<and>
     retires (as_sessions (au_state st)) (au_state st')"

lemma progress_trans:
  assumes "progress a b" and "progress b c"
  shows "progress a c"
proof -
  have "advances (as_accounts (au_state a)) (as_accounts (au_state c))" "retires (as_sessions (au_state a)) (au_state c)"
    using assms advances_trans retires_trans unfolding progress_def by blast+
  then show ?thesis using assms by (auto simp: progress_def)
qed

text \<open>The parts of a transaction outside the operation leave the logins alone.\<close>

lemma progress_same:
  assumes "wf_map (as_sessions (au_state st))" and "as_sessions (au_state st') = as_sessions (au_state st)"
    and "as_accounts (au_state st') = as_accounts (au_state st)" and "as_cancelled (au_state st) \<subseteq> as_cancelled (au_state st')"
    and "as_next_cell (au_state st') = as_next_cell (au_state st)"
    and "as_storage_failed (au_state st) \<Longrightarrow> as_storage_failed (au_state st')" and "au_closed st \<Longrightarrow> au_closed st'"
  shows "progress st st'"
  using assms by (auto simp: progress_def intro: retires_same)

lemma cells_below: "state_ok env s \<Longrightarrow> set (cells (as_sessions s)) \<subseteq> {..<as_next_cell s}"
  by (auto simp: state_ok_def sessions_ok_def)

lemma cancel_cells_simps [simp]:
  "as_cancelled (cancel_cells cs s) = as_cancelled s \<union> set cs" "as_sessions (cancel_cells cs s) = as_sessions s"
  "as_accounts (cancel_cells cs s) = as_accounts s" "as_next_cell (cancel_cells cs s) = as_next_cell s"
  "as_storage_failed (cancel_cells cs s) = as_storage_failed s" "as_dir (cancel_cells cs s) = as_dir s"
  "as_sessions_path (cancel_cells cs s) = as_sessions_path s"
  by (simp_all add: cancel_cells_def)

lemma cancel_held_ok:
  assumes "state_ok env s" and "set cs \<subseteq> set (cells (as_sessions s))"
  shows "state_ok env (cancel_cells cs s)"
  using assms cells_below [OF assms(1)] by (auto simp: state_ok_def cells_ok_def)

lemma cancel_all_ok:
  assumes "state_ok env (au_state st)" and "set (cells (as_sessions (au_state st))) \<subseteq> set (au_registered st)"
  shows "store_ok env (cancel_all st)"
proof -
  have "set (filter (\<lambda>c. c \<in> set (cells (as_sessions (au_state st)))) (au_registered st)) = set (cells (as_sessions (au_state st)))"
    using assms(2) by auto
  then show ?thesis using cancel_held_ok [OF assms(1)] by (simp add: store_ok_def cancel_all_def Let_def)
qed

lemma cancel_all_progress: "wf_map (as_sessions (au_state st)) \<Longrightarrow> progress st (cancel_all st)"
  by (rule progress_same) (auto simp: cancel_all_def Let_def)

lemma fail_progress: "wf_map (as_sessions (au_state st)) \<Longrightarrow> progress st (st\<lparr>au_state := fail_storage (au_state st)\<rparr>)"
  by (rule progress_same) auto

lemma registry_sync_progress: "wf_map (as_sessions (au_state st)) \<Longrightarrow> progress st (registry_sync st)"
  by (rule progress_same) (auto simp: registry_sync_def Let_def)

locale auth_work =
  fixes env :: auth_env and given :: "auth_state \<Rightarrow> bool" and work :: "auth_state \<Rightarrow> 'a option \<times> auth_state"
  assumes work_returns: "state_ok env s \<Longrightarrow> given s \<Longrightarrow> fst (work s) \<noteq> None"
    and work_follows: "state_ok env s \<Longrightarrow> given s \<Longrightarrow> follows env s (snd (work s))"
begin

lemma transact_returns:
  assumes "store_ok env st" and "given (au_state st)" and "\<not> au_closed st"
  shows "\<exists>v s'. work (au_state st) = (Some v, s') \<and> fst (auth_transact GateOpen work st) = Ok v"
  using assms work_returns [of "au_state st"] by (cases "work (au_state st)") (auto simp: auth_transact_def store_ok_def)

lemma transact_is_Ok: "store_ok env st \<Longrightarrow> given (au_state st) \<Longrightarrow> \<not> au_closed st \<Longrightarrow> is_Ok (fst (auth_transact GateOpen work st))"
  using transact_returns by fastforce

lemma synced_ok:
  assumes "store_ok env st" and "given (au_state st)" and "work (au_state st) = (Some v, s')"
  shows "store_ok env (registry_sync (st\<lparr>au_state := s'\<rparr>))"
proof -
  have "follows env (au_state st) s'" using work_follows [of "au_state st"] assms by (simp add: store_ok_def)
  then have "state_ok env s'" and "live_ok (au_state st) \<longrightarrow> live_ok s'" using assms(1) by (auto simp: follows_def store_ok_def)
  then show ?thesis
    using assms(1) cancel_held_ok [of env s' "cells (as_sessions s')"] by (auto simp: store_ok_def registry_sync_def Let_def)
qed

lemma transact_ok:
  assumes ok: "store_ok env st" and given: "given (au_state st)"
  shows "store_ok env (snd (auth_transact g work st))"
proof (cases "au_closed st \<or> g \<in> {GateBusy, GateClosing}")
  case True
  then show ?thesis using ok by (auto simp: auth_transact_def)
next
  case opened: False
  show ?thesis
  proof (cases "g = GatePoisoned")
    case True
    have "state_ok env (fail_storage (au_state st))"
      using ok fail_follows [of env "au_state st"] unfolding follows_def store_ok_def by blast
    then have "store_ok env (cancel_all (st\<lparr>au_state := fail_storage (au_state st)\<rparr>))"
      using ok by (intro cancel_all_ok) (simp_all add: store_ok_def)
    then show ?thesis using True opened by (simp add: auth_transact_def)
  next
    case False
    then have "g = GateOpen" using opened by (cases g) auto
    moreover obtain v s' where "work (au_state st) = (Some v, s')" using transact_returns [OF ok given] opened by blast
    ultimately show ?thesis using synced_ok [OF ok given] opened by (simp add: auth_transact_def)
  qed
qed

lemma transact_progress:
  assumes ok: "store_ok env st" and "given (au_state st)"
  shows "progress st (snd (auth_transact g work st))"
proof -
  obtain r s' where w: "work (au_state st) = (r, s')" by force
  have f: "follows env (au_state st) s'" using work_follows [of "au_state st"] assms w by (simp add: store_ok_def)
  then have "progress st (st\<lparr>au_state := s'\<rparr>)" using ok by (auto simp: store_ok_def follows_def progress_def)
  moreover have wf: "wf_map (as_sessions s')" "wf_map (as_sessions (au_state st))"
    using f ok state_ok_wf by (auto simp: follows_def store_ok_def)
  ultimately have done_ok: "progress st (registry_sync (st\<lparr>au_state := s'\<rparr>))"
    and failed: "progress st (cancel_all (st\<lparr>au_state := fail_storage s'\<rparr>))"
    using progress_trans [OF _ registry_sync_progress] progress_trans [OF progress_trans [OF _ fail_progress] cancel_all_progress] by fastforce+
  have "progress st (cancel_all (st\<lparr>au_state := fail_storage (au_state st)\<rparr>))" and same: "progress st st"
    using wf(2) progress_trans [OF fail_progress cancel_all_progress] by (auto intro: progress_same)
  then show ?thesis
    using w done_ok failed by (simp add: auth_transact_def split: gate.splits option.splits)
qed

end

end
