(* ===== verification/Auth_Store_Steps.thy ===== *)
theory Auth_Store_Steps
  imports Auth_Store_Invariant
begin

text \<open>
  Every operation of the account store as an instance of the contract of a transaction, and the step
  relation of the store, in which another process may also rewrite the files at any time.
\<close>

section \<open>Operations\<close>

lemma find_primary:
  assumes "accounts_ok m"
  shows "find (\<lambda>a. ac_profile a = []) (map snd (iterate io m)) \<noteq> None"
proof -
  obtain e where "e \<in> set m" "ac_profile (snd e) = []" using assms by (auto simp: accounts_ok_def)
  then have "\<exists>a. a \<in> set (map snd (iterate io m)) \<and> ac_profile a = []" by force
  then show ?thesis unfolding find_None_iff by blast
qed

lemma follows_ok: "follows env s s' \<Longrightarrow> state_ok env s \<Longrightarrow> state_ok env s'"
  by (simp add: follows_def)

interpretation begin_work: auth_work env "\<lambda>_. True" "login_begin env io rq" for env io rq
proof
  fix s
  assume ok: "state_ok env s"
  show "fst (login_begin env io rq s) \<noteq> None"
    using ok find_primary [of "as_accounts s" io]
    by (auto simp: login_begin_def state_ok_def Let_def split: prod.splits option.splits)
  show "follows env s (snd (login_begin env io rq s))"
    by (auto simp: login_begin_def Let_def split: prod.splits option.splits)
qed

lemma login_issue_cases:
  assumes "login_issue env io rq profile s = (r, s')"
  obtains (unpruned) e where "prune env io (rq_now rq) s = (Inl e, s')" "r = Some (refused LStorageUnavailable)"
  | (undrawn) u s1 where "prune env io (rq_now rq) s = (Inr u, s1)" "r = Some (refused LStorageUnavailable)" "s' = fail_storage s1"
  | (gone) u where "prune env io (rq_now rq) s = (Inr u, s')" "map_of (as_accounts s') (rq_username rq) = None" "r = None"
  | (stored) u s1 room token draws ident a new ok s2 where
      "prune env io (rq_now rq) s = (Inr u, s1)" "room = make_room io (rq_username rq) (as_sessions s1)"
      "map_of room (token_hash env token) = None" "draw_fresh env (\<lambda>t. map_of room (token_hash env t) \<noteq> None) (ai_random io) = Some (token, draws)"
      "\<not> list_ex (\<lambda>e. ls_id (snd e) = ident) room" "\<exists>raw. ident = ae_base64url env raw \<and> Some raw \<in> set draws"
      "map_of (as_accounts s1) (rq_username rq) = Some a"
      "new = insert_key (token_hash env token)
         (new_session env rq profile (fingerprint env (ac_credentials a)) ident (as_next_cell s1)) room"
      "save_sessions env io 1 new s1 = (ok, s2)"
      "r = Some (if ok then \<lparr>lr_status = LSucceeded, lr_token = Some token\<rparr> else refused LStorageUnavailable)"
      "s' = (if ok then install_sessions new (s2\<lparr>as_next_cell := as_next_cell s2 + 1\<rparr>) else s2)"
proof -
  obtain p s1 where p: "prune env io (rq_now rq) s = (p, s1)" by force
  define room where "room = make_room io (rq_username rq) (as_sessions s1)"
  note d = login_issue_def Let_def p room_def [symmetric]
  show thesis
  proof (cases p)
    case (Inl e)
    then show ?thesis using unpruned [of e] assms p by (auto simp: d)
  next
    case (Inr u)
    note pr = p [unfolded Inr]
    show ?thesis
    proof (cases "draw_fresh env (\<lambda>t. map_of room (token_hash env t) \<noteq> None) (ai_random io)")
      case None
      then show ?thesis using undrawn [OF pr] assms Inr by (auto simp: d)
    next
      case (Some td)
      obtain token draws where td: "td = (token, draws)" by force
      note tok = Some [unfolded td]
      have tnew: "map_of room (token_hash env token) = None" using draw_fresh_Some [OF tok] by simp
      show ?thesis
      proof (cases "draw_fresh env (\<lambda>i. list_ex (\<lambda>e. ls_id (snd e) = i) room) draws")
        case None
        then show ?thesis using undrawn [OF pr] assms Inr tok by (auto simp: d)
      next
        case (Some idr)
        obtain ident rest where idr: "idr = (ident, rest)" by force
        note idn = draw_fresh_Some [OF Some [unfolded idr]]
        show ?thesis
        proof (cases "map_of (as_accounts s1) (rq_username rq)")
          case None
          then show ?thesis using gone [of u] pr assms Inr tok Some idr by (auto simp: d)
        next
          case acc: (Some a)
          define new where "new = insert_key (token_hash env token)
            (new_session env rq profile (fingerprint env (ac_credentials a)) ident (as_next_cell s1)) room"
          obtain ok s2 where sv: "save_sessions env io 1 new s1 = (ok, s2)" by force
          have res: "(r, s') = (if ok then (Some \<lparr>lr_status = LSucceeded, lr_token = Some token\<rparr>,
              install_sessions new (s2\<lparr>as_next_cell := as_next_cell s2 + 1\<rparr>)) else (Some (refused LStorageUnavailable), s2))"
            using assms Inr tok Some idr acc sv unfolding new_def by (cases ok) (simp_all add: d)
          then show ?thesis
            using stored [OF pr room_def tnew tok _ _ acc new_def sv] idn by (cases ok) auto
        qed
      qed
    qed
  qed
qed

text \<open>A new login finds its place: the map with it satisfies the invariant.\<close>

lemma issued_follows:
  assumes ok: "state_ok env s" and fine: "\<not> as_storage_failed s" and acc: "map_of (as_accounts s) (rq_username rq) = Some a"
    and room: "room = make_room io (rq_username rq) (as_sessions s)" and key: "map_of room key = None"
    and ident: "\<not> list_ex (\<lambda>e. ls_id (snd e) = ident) room"
    and new: "new = insert_key key (new_session env rq (ac_profile a) (fingerprint env (ac_credentials a)) ident (as_next_cell s)) room"
    and unused: "map_of (as_sessions s) key = None" and t: "t = s\<lparr>as_dir := d, as_next_cell := as_next_cell s + 1\<rparr>"
  shows "follows env s (install_sessions new t)"
proof (rule install_follows [OF ok fine])
  define x where "x = new_session env rq (ac_profile a) (fingerprint env (ac_credentials a)) ident (as_next_cell s)"
  have sok: "sessions_ok (as_next_cell s) (as_sessions s)" and wf: "wf_map (as_sessions s)"
    and cur: "\<forall>e \<in> set (as_sessions s). session_current env (as_accounts s) (snd e)"
    using ok fine by (auto simp: state_ok_def sessions_ok_def)
  obtain P where P: "room = filter P (as_sessions s)" and less: "user_count (rq_username rq) room < MAX_SESSIONS_PER_ACCOUNT"
    unfolding room by (rule make_room_cases [OF sok])
  have rok: "sessions_ok (as_next_cell s) room" by (simp add: P sessions_ok_filter [OF sok])
  have eq: "set new = insert (key, x) (set room)"
    using map_of_None_remove_key [OF key] by (simp add: new insert_key_def x_def)
  show "sessions_ok (as_next_cell t) new"
    using sessions_ok_insert [OF rok key, of x] less ident by (simp add: new t x_def new_session_def)
  show "\<forall>e \<in> set new. session_current env (as_accounts t) (snd e)"
    using cur acc by (auto simp: eq P t x_def new_session_def session_current_def)
  have "\<forall>e \<in> set room. case map_of (as_sessions s) (fst e) of Some y \<Rightarrow> ls_cancel (snd e) = ls_cancel y | None \<Rightarrow> as_next_cell s \<le> ls_cancel (snd e)"
    using derived_filter [OF wf, of "as_next_cell s" P] by (simp add: derived_from_def P)
  then show "derived_from (as_sessions s) (as_next_cell s) new"
    using unused by (simp add: derived_from_def eq x_def new_session_def)
  show "{as_next_cell s..<as_next_cell t} \<subseteq> set (cells new)"
    by (simp add: eq set_cells t x_def new_session_def)
qed (use ok t in \<open>simp_all add: state_ok_def\<close>)

text \<open>
  The generator does not repeat the token of a login that still exists. Without it, a login evicted
  to make room could be replaced under its own key, and its channel would stay open.
\<close>

definition unrepeated :: "auth_env \<Rightarrow> auth_io \<Rightarrow> auth_state \<Rightarrow> bool" where
  "unrepeated env io s =
     list_all (\<lambda>d. case d of None \<Rightarrow> True | Some raw \<Rightarrow> map_of (as_sessions s) (token_hash env (ae_base64url env raw)) = None)
       (ai_random io)"

lemma unrepeated_drawn:
  assumes "unrepeated env io s" and "draw_fresh env taken (ai_random io) = Some (token, draws)"
  shows "map_of (as_sessions s) (token_hash env token) = None"
  using assms draw_fresh_Some [OF assms(2)] by (fastforce simp: unrepeated_def list_all_iff)

lemma login_issue_sound:
  assumes ok: "state_ok env s" and fine: "\<not> as_storage_failed s" and unrep: "unrepeated env io s"
    and acc: "map_of (as_accounts s) (rq_username rq) = Some a" "ac_profile a = profile"
    and res: "login_issue env io rq profile s = (r, s')"
  shows "r \<noteq> None \<and> follows env s s'"
  using res
proof (cases rule: login_issue_cases)
  case (unpruned e)
  then show ?thesis using prune_cases(1) [OF unpruned(1) ok] by simp
next
  case (undrawn u s1)
  then show ?thesis using follows_trans [OF prune_cases(1) [OF undrawn(1) ok] fail_follows] by simp
next
  case (gone u)
  then show ?thesis using prune_Ok [OF gone(1)] acc by simp
next
  case (stored u s1 room token draws ident b new saved s2)
  note f1 = prune_cases(1) [OF stored(1) ok] and s1 = prune_Ok [OF stored(1)]
  have b: "b = a" using stored(7) s1 acc by simp
  have wf: "wf_map (as_sessions s)" using ok by (simp add: state_ok_def sessions_ok_def)
  have unused: "map_of (as_sessions s1) (token_hash env token) = None"
    using unrepeated_drawn [OF unrep stored(4)] s1 by (simp add: map_of_filter_key [OF wf])
  show ?thesis
  proof (cases saved)
    case False
    then show ?thesis using follows_trans [OF f1] save_fails_follows stored(9-11) by auto
  next
    case True
    obtain d where s2: "s2 = s1\<lparr>as_dir := d\<rparr>" using stored(9) True by (auto elim!: save_sessions_cases)
    have "follows env s1 (install_sessions new (s2\<lparr>as_next_cell := as_next_cell s2 + 1\<rparr>))"
      by (rule issued_follows [OF follows_ok [OF f1 ok] _ stored(7) stored(2,3,5) _ unused])
        (use s1 stored(8) acc b s2 in auto)
    then show ?thesis using follows_trans [OF f1] stored(10,11) True by simp
  qed
qed

lemma unrepeated_cong [simp]:
  "unrepeated env io (s\<lparr>as_dir := d\<rparr>) = unrepeated env io s" "unrepeated env io (s\<lparr>as_accounts := m\<rparr>) = unrepeated env io s"
  by (simp_all add: unrepeated_def list_all_iff split: option.splits)

lemma account_step_follows:
  assumes "state_ok env s" and "map_of (as_accounts s) u = Some a" and "cr_last_step (ac_credentials a) \<le> n"
  shows "follows env s (s\<lparr>as_dir := d, as_accounts :=
    insert_key u (a\<lparr>ac_credentials := (ac_credentials a)\<lparr>cr_last_step := n\<rparr>\<rparr>) (as_accounts s)\<rparr>)"
proof -
  let ?a = "a\<lparr>ac_credentials := (ac_credentials a)\<lparr>cr_last_step := n\<rparr>\<rparr>"
  have "accounts_ok (as_accounts s)" using assms(1) by (simp add: state_ok_def)
  then have "accounts_ok (insert_key u ?a (as_accounts s)) \<and> advances (as_accounts s) (insert_key u ?a (as_accounts s))"
    by (rule accounts_ok_update [OF _ assms(2)]) (use assms(3) in simp_all)
  then show ?thesis
    using assms(1) session_current_step [OF assms(2), of env "(ac_credentials a)\<lparr>cr_last_step := n\<rparr>"]
    by (auto simp: follows_def state_ok_def cells_ok_def sessions_ok_def intro!: retires_same)
qed

interpretation commit_work: auth_work env "unrepeated env io" "login_commit env io rq profile fp step" for env io rq profile fp step
proof -
  have "fst (login_commit env io rq profile fp step s) \<noteq> None \<and> follows env s (snd (login_commit env io rq profile fp step s))"
    if ok: "state_ok env s" and unrep: "unrepeated env io s" for s
  proof (cases "as_storage_failed s \<or> map_of (as_accounts s) (rq_username rq) = None")
    case True
    then show ?thesis by (auto simp: login_commit_def)
  next
    case False
    then obtain a where fine: "\<not> as_storage_failed s" and acc: "map_of (as_accounts s) (rq_username rq) = Some a" by auto
    let ?c = "ac_credentials a"
    obtain w d where w: "write_credential env io (as_dir s) (ac_path a) ?c (?c\<lparr>cr_last_step := step\<rparr>) = (w, d)" by force
    define t where "t = s\<lparr>as_dir := d, as_accounts := insert_key (rq_username rq) (a\<lparr>ac_credentials := ?c\<lparr>cr_last_step := step\<rparr>\<rparr>) (as_accounts s)\<rparr>"
    have f: "follows env s (fail_storage (s\<lparr>as_dir := d\<rparr>))" by (rule follows_trans [of _ _ "s\<lparr>as_dir := d\<rparr>"]) simp_all
    have direct: "fst (login_issue env io rq profile s) \<noteq> None \<and> follows env s (snd (login_issue env io rq profile s))"
      if "ac_profile a = profile"
      by (rule login_issue_sound [OF ok fine unrep acc that surjective_pairing])
    have stepped: "fst (login_issue env io rq profile t) \<noteq> None \<and> follows env s (snd (login_issue env io rq profile t))"
      if prof: "ac_profile a = profile" and less: "cr_last_step ?c < step"
    proof -
      have ft: "follows env s t" unfolding t_def by (rule account_step_follows [OF ok acc]) (use less in simp)
      have "fst (login_issue env io rq profile t) \<noteq> None \<and> follows env t (snd (login_issue env io rq profile t))"
        by (rule login_issue_sound [OF follows_ok [OF ft ok] _ _ _ _ surjective_pairing, of _ _ "a\<lparr>ac_credentials := ?c\<lparr>cr_last_step := step\<rparr>\<rparr>"])
          (use fine unrep prof in \<open>simp_all add: t_def\<close>)
      then show ?thesis using follows_trans [OF ft] by blast
    qed
    show ?thesis
      using fine acc w f direct stepped
      by (auto simp: login_commit_def Let_def t_def [symmetric] split: bool.splits)
  qed
  then show "auth_work env (unrepeated env io) (login_commit env io rq profile fp step)" by unfold_locales auto
qed

text \<open>Operations that first drop what has expired.\<close>

lemma with_pruned_sound:
  assumes "\<And>s. state_ok env s \<Longrightarrow> \<not> as_storage_failed s \<Longrightarrow> fst (f s) \<noteq> None \<and> follows env s (snd (f s))"
  shows "auth_work env (\<lambda>_. True) (with_pruned env io now f)"
proof -
  have "fst (with_pruned env io now f s) \<noteq> None \<and> follows env s (snd (with_pruned env io now f s))" if ok: "state_ok env s" for s
  proof -
    obtain p s1 where p: "prune env io now s = (p, s1)" by force
    note f1 = prune_cases(1) [OF p ok]
    show ?thesis
    proof (cases p)
      case (Inl e)
      then show ?thesis using p f1 by (simp add: with_pruned_def)
    next
      case (Inr u)
      have "\<not> as_storage_failed s1" using prune_Ok [OF p [unfolded Inr]] by simp
      then show ?thesis using assms [OF follows_ok [OF f1 ok]] follows_trans [OF f1] p Inr by (simp add: with_pruned_def)
    qed
  qed
  then show ?thesis by unfold_locales auto
qed

lemma touch_follows:
  assumes ok: "state_ok env s" and fine: "\<not> as_storage_failed s" and look: "map_of (as_sessions s) key = Some y"
    and same: "same_login x y" "ls_fingerprint x = ls_fingerprint y"
  shows "follows env s (s\<lparr>as_dir := d, as_sessions := set_session key x (as_sessions s)\<rparr>)"
proof -
  have wf: "wf_map (as_sessions s)" using ok by (simp add: state_ok_def sessions_ok_def)
  have cs: "cells (set_session key x (as_sessions s)) = cells (as_sessions s)"
    unfolding cells_def by (rule set_session_projection [OF wf look]) (use same in \<open>simp add: same_login_def\<close>)
  have cur: "map (\<lambda>e. session_current env (as_accounts s) (snd e)) (set_session key x (as_sessions s)) =
      map (\<lambda>e. session_current env (as_accounts s) (snd e)) (as_sessions s)"
    by (rule set_session_projection [OF wf look]) (use same in \<open>simp add: same_login_def session_current_def\<close>)
  have "\<forall>e \<in> set (as_sessions s). session_current env (as_accounts s) (snd e)" using ok fine by (simp add: state_ok_def)
  then have "False \<notin> set (map (\<lambda>e. session_current env (as_accounts s) (snd e)) (as_sessions s))" by auto
  then have "\<forall>e \<in> set (set_session key x (as_sessions s)). session_current env (as_accounts s) (snd e)"
    unfolding cur [symmetric] by force
  moreover have "retires (as_sessions s) (s\<lparr>as_dir := d, as_sessions := set_session key x (as_sessions s)\<rparr>)"
    by (rule retires_same [OF wf]) (use look same in \<open>auto simp: map_of_set_session same_login_def\<close>)
  ultimately show ?thesis
    using ok sessions_ok_set [OF _ look same(1)] cs by (auto simp: follows_def state_ok_def cells_ok_def live_ok_def)
qed

lemma access_answer_sound: "map_of (as_sessions s) (token_hash env token) \<noteq> None \<Longrightarrow> fst (access_answer env token s) \<noteq> None"
  by (auto simp: access_answer_def)

lemma access_answer_state [simp]: "snd (access_answer env token s) = s"
  by (simp add: access_answer_def split: option.splits)

interpretation access_work: auth_work env "\<lambda>_. True" "access_work env io token touch now" for env io token touch now
  unfolding access_work_def
proof (rule with_pruned_sound, goal_cases)
  case (1 s)
  let ?key = "token_hash env token"
  show ?case
  proof (cases "map_of (as_sessions s) ?key")
    case (Some x)
    let ?x = "x\<lparr>ls_seen := now, ls_persisted_seen := now\<rparr>"
    obtain ok s2 where sv: "save_sessions env io 1 (set_session ?key ?x (as_sessions s)) s = (ok, s2)" by force
    have saved: "ok \<Longrightarrow> follows env s (s2\<lparr>as_sessions := set_session ?key ?x (as_sessions s)\<rparr>)"
      using sv touch_follows [OF 1 Some, of ?x] by (auto elim!: save_sessions_cases simp: same_login_def)
    have unsaved: "\<not> ok \<Longrightarrow> follows env s s2"
      using sv save_fails_follows [of env io 1 "set_session ?key ?x (as_sessions s)" s s2] by simp
    have touched: "follows env s (s\<lparr>as_sessions := set_session ?key (x\<lparr>ls_seen := now\<rparr>) (as_sessions s)\<rparr>)"
      using touch_follows [OF 1 Some, of "x\<lparr>ls_seen := now\<rparr>" "as_dir s"] by (simp add: same_login_def)
    note there = access_answer_sound map_of_set_session [OF Some]
    show ?thesis
      using Some sv saved unsaved touched there
      by (cases ok) (auto simp: Let_def)
  qed simp
qed

interpretation identity_work: auth_work env "\<lambda>_. True" "identity_work env io token now" for env io token now
  unfolding identity_work_def by (rule with_pruned_sound) simp

interpretation list_work: auth_work env "\<lambda>_. True" "list_work env io token now" for env io token now
  unfolding list_work_def by (rule with_pruned_sound) (simp add: Let_def split: option.splits)

interpretation totp_enabled_work: auth_work env "\<lambda>_. True" "totp_enabled_work env io token now" for env io token now
  unfolding totp_enabled_work_def by (rule with_pruned_sound) (simp split: option.splits)

lemma drop_session_returns [simp]: "\<exists>y. fst (drop_session env io key v s) = Some y"
  by (simp add: drop_session_def Let_def split: prod.splits bool.splits)

lemma drop_session_follows:
  assumes ok: "state_ok env s" and fine: "\<not> as_storage_failed s"
  shows "follows env s (snd (drop_session env io key v s))"
proof -
  let ?new = "remove_key key (as_sessions s)"
  obtain saved s2 where sv: "save_sessions env io 1 ?new s = (saved, s2)" by force
  have wf: "wf_map (as_sessions s)" and sok: "sessions_ok (as_next_cell s) ?new"
    and cur: "\<forall>e \<in> set ?new. session_current env (as_accounts s) (snd e)"
    using ok fine by (auto simp: state_ok_def sessions_ok_def [of _ "as_sessions s"] sessions_ok_remove) (auto simp: remove_key_def)
  have "derived_from (as_sessions s) (as_next_cell s) ?new" unfolding remove_key_def by (rule derived_filter [OF wf])
  then show ?thesis
    using sv save_fails_follows [of env io 1 ?new s s2] saved_install_follows [OF _ ok fine sok cur, of io 1 s2]
    by (cases saved) (auto simp: drop_session_def)
qed

interpretation revoke_work: auth_work env "\<lambda>_. True" "revoke_work env io token ident now" for env io token ident now
  unfolding revoke_work_def
  by (rule with_pruned_sound) (simp add: Let_def drop_session_follows split: option.splits prod.splits)

interpretation logout_work: auth_work env "\<lambda>_. True" "logout_work env io token" for env io token
  by unfold_locales (auto simp: logout_work_def Let_def drop_session_follows)

interpretation security_begin_work: auth_work env "\<lambda>_. True" "security_begin env io rq" for env io rq
proof -
  have "fst (security_begin env io rq s) \<noteq> None \<and> follows env s (snd (security_begin env io rq s))" if ok: "state_ok env s" for s
  proof -
    obtain p s1 where p: "prune env io (sq_now rq) s = (p, s1)" by force
    note f1 = prune_cases(1) [OF p ok]
    have "follows env s (s1\<lparr>as_security_attempts := m\<rparr>)" for m by (rule follows_trans [OF f1]) simp
    then show ?thesis using f1 p by (auto simp: security_begin_def Let_def split: sum.splits option.splits prod.splits)
  qed
  then show "auth_work env (\<lambda>_. True) (security_begin env io rq)" by unfold_locales auto
qed

text \<open>A backup only touches the backup directory.\<close>

lemma backup_credentials_state:
  "backup_credentials env io path username c now s = (ok, s') \<Longrightarrow> \<exists>b. s' = s\<lparr>as_backups := b\<rparr>"
proof -
  assume "backup_credentials env io path username c now s = (ok, s')"
  then have "s' = s \<or> (\<exists>b. s' = s\<lparr>as_backups := b\<rparr>)"
    by (auto simp: backup_credentials_def Let_def split: option.splits sum.splits if_splits prod.splits bool.splits write_result.splits)
  then show ?thesis by (auto intro: exI [of _ "as_backups s"])
qed

text \<open>The map a change of the security settings leaves: the changing login under its new fingerprint.\<close>

lemma security_sessions:
  assumes ok: "state_ok env s" and fine: "\<not> as_storage_failed s"
    and look: "map_of (as_sessions s) key = Some x" and acc: "map_of (as_accounts s) u = Some a"
    and x: "ls_username x = u" "ls_profile x = ac_profile a"
    and accounts: "accounts = insert_key u (a\<lparr>ac_credentials := c'\<rparr>) (as_accounts s)"
    and kept: "kept = filter (\<lambda>e. fst e = key \<or> ls_username (snd e) \<noteq> u \<or> ls_profile (snd e) \<noteq> ac_profile a) (as_sessions s)"
    and new: "new = set_session key (x\<lparr>ls_fingerprint := fingerprint env c'\<rparr>) kept"
  shows "sessions_ok (as_next_cell s) new" and "\<forall>e \<in> set new. session_current env accounts (snd e)"
    and "derived_from (as_sessions s) (as_next_cell s) new"
proof -
  have sok: "sessions_ok (as_next_cell s) (as_sessions s)" and wf: "wf_map (as_sessions s)"
    and cur: "\<forall>e \<in> set (as_sessions s). session_current env (as_accounts s) (snd e)"
    using ok fine by (auto simp: state_ok_def sessions_ok_def)
  have kl: "map_of kept key = Some x" using look by (simp add: kept map_of_filter_key [OF wf])
  show "sessions_ok (as_next_cell s) new"
    unfolding new by (rule sessions_ok_set [OF _ kl]) (use sessions_ok_filter [OF sok] kept in \<open>simp_all add: same_login_def\<close>)
  have elem: "e \<in> set new \<Longrightarrow> e = (key, x\<lparr>ls_fingerprint := fingerprint env c'\<rparr>) \<or> (e \<in> set kept \<and> fst e \<noteq> key)" for e
    by (auto simp: new set_session_def split: if_splits)
  show "\<forall>e \<in> set new. session_current env accounts (snd e)"
  proof
    fix e
    assume e: "e \<in> set new"
    show "session_current env accounts (snd e)"
    proof (cases "fst e = key")
      case True
      then show ?thesis using elem [OF e] x by (auto simp: session_current_def accounts)
    next
      case False
      then have "e \<in> set (as_sessions s)" and other: "ls_username (snd e) \<noteq> u \<or> ls_profile (snd e) \<noteq> ac_profile a"
        using elem [OF e] by (auto simp: kept)
      then have "session_current env (as_accounts s) (snd e)" using cur by blast
      then show ?thesis using other acc by (auto simp: session_current_def accounts)
    qed
  qed
  have "wf_map kept" using wf by (simp add: kept)
  then show "derived_from (as_sessions s) (as_next_cell s) new"
    using elem look map_of_mem [OF wf] by (fastforce simp: derived_from_def kept split: option.splits)
qed

lemma security_apply_eq:
  assumes "c' = (ac_credentials a)\<lparr>cr_totp_disabled := \<not> sq_enabled rq, cr_last_step := step\<rparr>"
    and "kept = filter (\<lambda>e. fst e = token_hash env (sq_token rq) \<or> ls_username (snd e) \<noteq> u \<or> ls_profile (snd e) \<noteq> profile) (as_sessions s)"
    and "new = set_session (token_hash env (sq_token rq)) (x\<lparr>ls_fingerprint := fingerprint env c'\<rparr>) kept"
    and "backup_credentials env io (ac_path a) u (ac_credentials a) (sq_now rq) s = (bo, sb)" and "sb = s\<lparr>as_backups := bk\<rparr>"
    and "write_credential env io (as_dir sb) (ac_path a) (ac_credentials a) c' = (w, d)"
    and "t = sb\<lparr>as_dir := d, as_accounts := insert_key u (a\<lparr>ac_credentials := c'\<rparr>) (as_accounts s)\<rparr>"
    and "save_sessions env io 1 new t = (so, s2)"
  shows "security_apply env io rq u profile step x a s =
      (if \<not> bo then (Some SStorageUnavailable, fail_storage sb)
       else if \<not> w then (Some SStorageUnavailable, fail_storage (sb\<lparr>as_dir := d\<rparr>))
       else if \<not> so then (Some SStorageUnavailable, s2) else (Some SOk, install_sessions new s2))"
  using assms by (simp add: security_apply_def Let_def split: bool.splits)

lemma security_apply_sound:
  assumes ok: "state_ok env s" and fine: "\<not> as_storage_failed s"
    and look: "map_of (as_sessions s) (token_hash env (sq_token rq)) = Some x" and acc: "map_of (as_accounts s) u = Some a"
    and x: "ls_username x = u" "ls_profile x = profile" "ac_profile a = profile"
    and less: "cr_last_step (ac_credentials a) < step"
    and res: "security_apply env io rq u profile step x a s = (r, s')"
  shows "r \<noteq> None \<and> follows env s s'"
proof -
  define c' where "c' = (ac_credentials a)\<lparr>cr_totp_disabled := \<not> sq_enabled rq, cr_last_step := step\<rparr>"
  define accounts where "accounts = insert_key u (a\<lparr>ac_credentials := c'\<rparr>) (as_accounts s)"
  define kept where "kept = filter (\<lambda>e. fst e = token_hash env (sq_token rq) \<or> ls_username (snd e) \<noteq> u \<or> ls_profile (snd e) \<noteq> ac_profile a) (as_sessions s)"
  define new where "new = set_session (token_hash env (sq_token rq)) (x\<lparr>ls_fingerprint := fingerprint env c'\<rparr>) kept"
  obtain bo sb where b: "backup_credentials env io (ac_path a) u (ac_credentials a) (sq_now rq) s = (bo, sb)" by force
  obtain bk where sb: "sb = s\<lparr>as_backups := bk\<rparr>" using backup_credentials_state [OF b] by blast
  obtain w d where w: "write_credential env io (as_dir sb) (ac_path a) (ac_credentials a) c' = (w, d)" by force
  define t where "t = sb\<lparr>as_dir := d, as_accounts := accounts\<rparr>"
  obtain so s2 where sv: "save_sessions env io 1 new t = (so, s2)" by force
  have aok: "accounts_ok accounts \<and> advances (as_accounts s) accounts"
    unfolding accounts_def by (rule accounts_ok_update [OF _ acc]) (use ok less in \<open>simp_all add: state_ok_def c'_def\<close>)
  note eq = security_apply_eq [OF c'_def kept_def [unfolded x(3)] new_def b sb w t_def [unfolded accounts_def] sv]
  have f1: "follows env s (fail_storage sb)" and f2: "follows env s (fail_storage (sb\<lparr>as_dir := d\<rparr>))"
    by (rule fail_follows_from; use ok in \<open>simp add: sb state_ok_def\<close>)+
  obtain d' where s2: "s2 = (if so then t\<lparr>as_dir := d'\<rparr> else fail_storage (t\<lparr>as_dir := d'\<rparr>))"
    using sv by (auto elim!: save_sessions_cases)
  have f3: "\<not> so \<Longrightarrow> follows env s s2"
    using aok by (auto simp: s2 t_def sb intro!: fail_follows_from)
  have f4: "so \<Longrightarrow> follows env s (install_sessions new s2)"
    by (rule install_follows [OF ok fine])
      (use aok security_sessions [OF ok fine look acc _ _ accounts_def kept_def new_def] x in \<open>auto simp: s2 t_def sb\<close>)
  show ?thesis using res f1 f2 f3 f4 unfolding eq by (auto split: if_splits)
qed

interpretation security_work: auth_work env "\<lambda>_. True" "security_commit env io clock rq username profile fp step"
  for env io clock rq username profile fp step
proof -
  have "fst (security_commit env io clock rq username profile fp step s) \<noteq> None \<and>
      follows env s (snd (security_commit env io clock rq username profile fp step s))" if ok: "state_ok env s" for s
  proof -
    obtain p s1 where p: "prune env io (max (sq_now rq) clock) s = (p, s1)" by force
    note f1 = prune_cases(1) [OF p ok]
    note ok1 = follows_ok [OF f1 ok]
    show ?thesis
    proof (cases "\<exists>u x a. p = Inr u \<and> map_of (as_sessions s1) (token_hash env (sq_token rq)) = Some x \<and>
        map_of (as_accounts s1) username = Some a \<and> ls_username x = username \<and> ls_profile x = profile \<and>
        ac_profile a = profile \<and> cr_last_step (ac_credentials a) < step")
      case True
      then obtain u x a where p': "p = Inr u" and look: "map_of (as_sessions s1) (token_hash env (sq_token rq)) = Some x"
        and acc: "map_of (as_accounts s1) username = Some a" and x: "ls_username x = username" "ls_profile x = profile" "ac_profile a = profile"
        and less: "cr_last_step (ac_credentials a) < step" by blast
      have fine: "\<not> as_storage_failed s1" using prune_Ok [OF p [unfolded p']] by simp
      have "fst (security_apply env io rq username profile step x a s1) \<noteq> None \<and>
          follows env s (snd (security_apply env io rq username profile step x a s1))"
        using security_apply_sound [OF ok1 fine look acc x less surjective_pairing] follows_trans [OF f1] by blast
      then show ?thesis using p p' look acc x less f1 by (simp add: security_commit_def Let_def)
    next
      case False
      then have "snd (security_commit env io clock rq username profile fp step s) = s1 \<and>
          fst (security_commit env io clock rq username profile fp step s) \<noteq> None"
        using p by (auto simp: security_commit_def Let_def split: sum.splits option.splits)
      then show ?thesis using f1 by simp
    qed
  qed
  then show "auth_work env (\<lambda>_. True) (security_commit env io clock rq username profile fp step)" by unfold_locales auto
qed

end
