(* ===== verification/Auth_Store_Properties.thy ===== *)
theory Auth_Store_Properties
  imports Auth_Store_Steps
begin

text \<open>
  What the account store promises: the step relation, that a store read from disk satisfies the
  invariant and every run keeps it, and the properties of login, revocation, the security settings
  and the restart.
\<close>

section \<open>Steps\<close>

inductive auth_step :: "auth_env \<Rightarrow> auth_store \<Rightarrow> auth_store \<Rightarrow> bool" for env where
  begin_login: "auth_step env st (snd (auth_transact g (login_begin env io rq) st))"
| commit_login: "unrepeated env io (au_state st) \<Longrightarrow>
    auth_step env st (snd (auth_transact g (login_commit env io rq profile fp step) st))"
| access: "auth_step env st (snd (auth_transact g (access_work env io token touch now) st))"
| identity: "auth_step env st (snd (auth_transact g (identity_work env io token now) st))"
| listing: "auth_step env st (snd (auth_transact g (list_work env io token now) st))"
| revoking: "auth_step env st (snd (auth_transact g (revoke_work env io token ident now) st))"
| logging_out: "auth_step env st (snd (auth_transact g (logout_work env io token) st))"
| settings: "auth_step env st (snd (auth_transact g (totp_enabled_work env io token now) st))"
| begin_security: "auth_step env st (snd (auth_transact g (security_begin env io srq) st))"
| commit_security: "auth_step env st (snd (auth_transact g (security_commit env io clock srq username profile fp step) st))"
| closing: "auth_step env st (close_connections st)"
| stopping: "auth_step env st (auth_shutdown st)"
| outside: "auth_step env st (st\<lparr>au_state := (au_state st)\<lparr>as_dir := dir, as_backups := backups\<rparr>\<rparr>)"

lemma close_ok: "store_ok env st \<Longrightarrow> store_ok env (close_connections st)"
  unfolding close_connections_def by (rule cancel_all_ok) (auto simp: store_ok_def)

lemma shutdown_ok: "store_ok env st \<Longrightarrow> store_ok env (auth_shutdown st)"
  unfolding auth_shutdown_def close_connections_def using cancel_all_ok [of env "st\<lparr>au_closed := True\<rparr>"]
  by (auto simp: store_ok_def cancel_all_def Let_def)

lemma outside_ok: "store_ok env st \<Longrightarrow> store_ok env (st\<lparr>au_state := (au_state st)\<lparr>as_dir := dir, as_backups := backups\<rparr>\<rparr>)"
  by (simp add: store_ok_def)

lemmas work_keeps = begin_work.transact_ok commit_work.transact_ok access_work.transact_ok identity_work.transact_ok
  list_work.transact_ok revoke_work.transact_ok logout_work.transact_ok totp_enabled_work.transact_ok
  security_begin_work.transact_ok security_work.transact_ok

lemmas work_progress = begin_work.transact_progress commit_work.transact_progress access_work.transact_progress
  identity_work.transact_progress list_work.transact_progress revoke_work.transact_progress logout_work.transact_progress
  totp_enabled_work.transact_progress security_begin_work.transact_progress security_work.transact_progress

lemma auth_step_ok: "auth_step env st st' \<Longrightarrow> store_ok env st \<Longrightarrow> store_ok env st'"
  by (induction rule: auth_step.induct) (auto intro: work_keeps close_ok shutdown_ok outside_ok)

lemma store_ok_wf: "store_ok env st \<Longrightarrow> wf_map (as_sessions (au_state st))"
  by (auto simp: store_ok_def intro: state_ok_wf)

lemma progress_refl: "store_ok env st \<Longrightarrow> progress st st"
  by (rule progress_same) (auto intro: store_ok_wf)

lemma auth_step_progress: "auth_step env st st' \<Longrightarrow> store_ok env st \<Longrightarrow> progress st st'"
proof (induction rule: auth_step.induct)
  case (closing st)
  then show ?case unfolding close_connections_def by (intro cancel_all_progress store_ok_wf)
next
  case (stopping st)
  then show ?case
    by (intro progress_same) (auto simp: auth_shutdown_def close_connections_def cancel_all_def Let_def intro: store_ok_wf)
next
  case (outside st dir backups)
  then show ?case by (intro progress_same) (auto intro: store_ok_wf)
qed (auto intro: work_progress)

interpretation accounts: step_invariant "auth_step env" "store_ok env" for env
  by unfold_locales (rule auth_step_ok)

lemma run_progress:
  assumes "(auth_step env)\<^sup>*\<^sup>* st st'" and "store_ok env st"
  shows "progress st st'"
  using accounts.run_keeps_rel [where P = "progress st", OF assms progress_refl [OF assms(2)]] auth_step_progress progress_trans by blast

section \<open>A store read from disk\<close>

lemma load_users_ok:
  assumes "load_users env lo dir path n entries m = Ok m'" and "accounts_ok m"
  shows "accounts_ok m'"
  using assms
proof (induction env lo dir path n entries m rule: load_users.induct)
  case (2 env lo dir path n name is_file entries accounts)
  have ins: "accounts_ok (insert_key (cr_username c) a m)"
    if "accounts_ok m" "map_of m (cr_username c) = None" "ac_credentials a = c" for c a and m :: "(string \<times> auth_account) list"
  proof -
    have "insert_key (cr_username c) a m = m @ [(cr_username c, a)]" by (simp add: insert_key_def map_of_None_remove_key [OF that(2)])
    moreover have "wf_map (insert_key (cr_username c) a m)" using that(1) by (auto simp: accounts_ok_def)
    ultimately show ?thesis using that by (auto simp: accounts_ok_def)
  qed
  from 2 show ?case by (auto simp: Let_def ins split: if_splits option.splits)
qed simp

lemma load_accounts_ok:
  assumes "load_accounts env lo dir path = Ok m"
  shows "accounts_ok m"
proof -
  obtain c where c: "read_credential env (lo_readable lo path) dir path = Some c"
    using assms by (auto simp: load_accounts_def split: option.splits)
  have "accounts_ok [(cr_username c, \<lparr>ac_credentials = c, ac_path = path, ac_profile = []\<rparr>)]"
    by (simp add: accounts_ok_def wf_map_def keys_def)
  then show ?thesis using assms c load_users_ok by (auto simp: load_accounts_def Let_def split: option.splits if_splits)
qed

definition loaded_as :: "auth_env \<Rightarrow> persisted_session \<Rightarrow> string \<times> login_session \<Rightarrow> bool" where
  "loaded_as env row e \<longleftrightarrow> fst e = se_token_hash row \<and> (\<exists>cell. from_row env cell row = Some (snd e))"

lemma load_rows_Some:
  assumes "load_rows env n rows m = Some m'" and "distinct (map se_token_hash rows)"
    and "set (map se_token_hash rows) \<inter> set (keys m) = {}"
  shows "\<exists>new. m' = m @ new \<and> list_all2 (loaded_as env) rows new \<and> cells new = [n..<n + length rows]"
  using assms
proof (induction rows arbitrary: n m)
  case (Cons row rows)
  obtain x where x: "from_row env n row = Some x" and
    rest: "load_rows env (n + 1) rows (insert_key (se_token_hash row) x m) = Some m'"
    using Cons.prems(1) by (auto simp: bind_eq_Some_conv)
  have "map_of m (se_token_hash row) = None" using Cons.prems(3) by (auto simp: set_keys domIff)
  then have eq: "insert_key (se_token_hash row) x m = m @ [(se_token_hash row, x)]"
    by (simp add: insert_key_def map_of_None_remove_key)
  obtain new where "m' = (m @ [(se_token_hash row, x)]) @ new" "list_all2 (loaded_as env) rows new"
    "cells new = [n + 1..<n + 1 + length rows]"
    using Cons.IH [OF rest] Cons.prems(2,3) by (auto simp: eq keys_def)
  moreover have "cells [(se_token_hash row, x)] = [n]" using x by (auto simp: from_row_def bind_eq_Some_conv cells_def)
  moreover have "loaded_as env row (se_token_hash row, x)" using x by (auto simp: loaded_as_def)
  moreover have "[n] @ [n + 1..<n + 1 + length rows] = [n..<n + length (row # rows)]" by (simp add: upt_conv_Cons del: upt_Suc)
  ultimately show ?case
    by (intro exI [of _ "(se_token_hash row, x) # new"]) (simp add: cells_def del: upt_Suc)
qed (simp add: cells_def)

lemma loaded_projection:
  assumes "list_all2 (loaded_as env) rows new" and "\<And>row e. loaded_as env row e \<Longrightarrow> f row = g e"
  shows "map f rows = map g new"
  using assms(1) by (induction rule: list_all2_induct) (auto simp: assms(2))

lemma loaded_fields:
  assumes "loaded_as env row e"
  shows "se_token_hash row = fst e" "se_id row = ls_id (snd e)" "se_username row = ls_username (snd e)"
    "se_profile row = ls_profile (snd e)" "se_fingerprint row = ls_fingerprint (snd e)"
    "ae_time env (se_created_at row) = Some (ls_created (snd e))" "ae_time env (se_expires_at row) = Some (ls_expires (snd e))"
  using assms by (cases e; auto simp: loaded_as_def from_row_def bind_eq_Some_conv)+

definition account_view :: "(string \<times> auth_account) list \<Rightarrow> (string \<times> (string \<times> credentials)) list" where
  "account_view m = map (\<lambda>(u, a). (u, ac_profile a, ac_credentials a)) m"

lemma map_of_account_view: "map_of (account_view m) u = map_option (\<lambda>a. (ac_profile a, ac_credentials a)) (map_of m u)"
  by (induction m) (auto simp: account_view_def)

lemma validated_sessions_ok:
  assumes v: "validate_session_file env f now (account_view accounts) = Ok v" and rows: "load_rows env 0 (vd_retained v) [] = Some m"
  shows "sessions_ok (length (vd_retained v)) m" and "\<forall>e \<in> set m. session_current env accounts (snd e)"
    and "cells m = [0..<length (vd_retained v)]" and "list_all2 (loaded_as env) (vd_retained v) m"
proof -
  define kept where "kept = vd_retained v"
  obtain s where s: "scanned env now (account_view accounts) (file_rows f) s" and vs: "v = \<lparr>vd_retained = sc_retained s, vd_dirty = sc_dirty s\<rparr>"
    by (rule validated_scanned [OF v])
  have kept: "kept = filter (current_row env now (account_view accounts)) (file_rows f)" "kept = sc_retained s"
    using s unfolding scanned_def kept_def vs by auto
  have "distinct (map (\<lambda>r. ae_unbase64url env (se_token_hash r)) kept)" using s unfolding scanned_def kept(2) by blast
  then have toks: "distinct (map se_token_hash kept)" by (auto simp: distinct_map inj_on_def)
  obtain new where "m = [] @ new" and l2': "list_all2 (loaded_as env) kept new" and cs': "cells new = [0..<0 + length kept]"
    using load_rows_Some [OF rows [folded kept_def] toks] by (auto simp: keys_def)
  then have l2: "list_all2 (loaded_as env) kept m" and cs: "cells m = [0..<length kept]" by auto
  note proj = loaded_projection [OF l2]
  have names: "map se_token_hash kept = keys m" "map se_id kept = map (\<lambda>e. ls_id (snd e)) m"
    "map se_username kept = map (\<lambda>e. ls_username (snd e)) m" "map se_profile kept = map (\<lambda>e. ls_profile (snd e)) m"
    unfolding keys_def by (auto intro!: proj simp: loaded_fields)
  have origin: "\<exists>row \<in> set kept. loaded_as env row e" if "e \<in> set m" for e
    using that l2 by (metis in_set_conv_nth list_all2_conv_all_nth)
  have ids: "distinct (map (\<lambda>e. ls_id (snd e)) m)"
    using s by (simp add: scanned_def names(2) [symmetric] kept(1) distinct_map_filter)
  have cur: "session_current env accounts (snd e) \<and> ls_expires (snd e) = ls_created (snd e) + nanos LOGIN_LIFETIME_SECONDS"
    if e: "e \<in> set m" for e
  proof -
    obtain row where row: "row \<in> set kept" "loaded_as env row e" using origin [OF e] by blast
    have "current_row env now (account_view accounts) row" "row_shape env now row"
      using row(1) s by (auto simp: kept(1) scanned_def list_all_iff)
    then show ?thesis
      using loaded_fields [OF row(2)]
      by (auto simp: current_row_def row_shape_def session_current_def map_of_account_view split: option.splits)
  qed
  have count: "user_count u m \<le> MAX_SESSIONS_PER_ACCOUNT" for u
  proof (cases "map_of accounts u")
    case None
    then have "\<forall>e \<in> set m. ls_username (snd e) \<noteq> u" using cur unfolding session_current_def by fastforce
    then have "filter (\<lambda>e. ls_username (snd e) = u) m = []" by (rule filter_empty_conv [THEN iffD2])
    then show ?thesis by (simp add: user_count_def)
  next
    case (Some a)
    have "filter (\<lambda>e. ls_username (snd e) = u) m = filter (\<lambda>e. (ls_username (snd e), ls_profile (snd e)) = (u, ac_profile a)) m"
      by (rule filter_cong [OF refl]) (use cur Some in \<open>fastforce simp: session_current_def\<close>)
    then have "user_count u m = length (filter (\<lambda>k. k = (u, ac_profile a)) (map (\<lambda>e. (ls_username (snd e), ls_profile (snd e))) m))"
      by (simp add: user_count_def filter_map comp_def)
    also have "map (\<lambda>e. (ls_username (snd e), ls_profile (snd e))) m = map (\<lambda>r. (se_username r, se_profile r)) kept"
      by (rule sym, rule proj) (simp add: loaded_fields)
    also have "length (filter (\<lambda>k. k = (u, ac_profile a)) \<dots>) = account_rows (u, ac_profile a) kept"
      by (simp add: account_rows_def filter_map comp_def)
    finally have "user_count u m = account_rows (u, ac_profile a) kept" .
    moreover have "account_rows (u, ac_profile a) kept \<le> MAX_SESSIONS_PER_ACCOUNT" using s unfolding scanned_def kept(2) by blast
    ultimately show ?thesis by simp
  qed
  show "sessions_ok (length (vd_retained v)) m"
    using toks ids cur count cs by (simp add: sessions_ok_def wf_map_def names(1) [symmetric] kept_def [symmetric])
  show "\<forall>e \<in> set m. session_current env accounts (snd e)" using cur by blast
  show "cells m = [0..<length (vd_retained v)]" "list_all2 (loaded_as env) (vd_retained v) m"
    using cs l2 by (simp_all add: kept_def)
qed

lemma fresh_state_ok:
  assumes "accounts_ok accounts" and "sessions_ok n m" and "\<forall>e \<in> set m. session_current env accounts (snd e)" and "cells m = [0..<n]"
  shows "state_ok env (fresh_state path accounts m n dir backups) \<and> live_ok (fresh_state path accounts m n dir backups)"
  using assms by (auto simp: state_ok_def cells_ok_def live_ok_def fresh_state_def)

lemma load_state_cases:
  assumes "load_state env lo path now dir backups = Ok s"
  obtains (absent) accounts where "load_accounts env lo dir path = Ok accounts" "dir (suffix_path path ''.sessions'') = None"
      "s = fresh_state path accounts [] 0 dir backups"
  | (read) accounts raw f v m d where "load_accounts env lo dir path = Ok accounts" "dir (suffix_path path ''.sessions'') = Some raw"
      "parse_session_file env raw = Ok f" "validate_session_file env f now (account_view accounts) = Ok v"
      "load_rows env 0 (vd_retained v) [] = Some m" "s = fresh_state path accounts m (length (vd_retained v)) d backups"
proof -
  let ?path = "suffix_path path ''.sessions''"
  obtain accounts where acc: "load_accounts env lo dir path = Ok accounts"
    using assms by (auto simp: load_state_def and_then_Ok_iff)
  note d = load_state_def acc Let_def read_private_def account_view_def [symmetric]
  show thesis
  proof (cases "dir ?path")
    case None
    then show ?thesis using absent [OF acc] assms by (auto simp: d split: if_splits)
  next
    case (Some raw)
    then obtain f where f: "parse_session_file env raw = Ok f"
      using assms by (auto simp: d split: if_splits sum.splits)
    then obtain v where v: "validate_session_file env f now (account_view accounts) = Ok v"
      using assms Some by (auto simp: d split: if_splits sum.splits)
    then obtain m where m: "load_rows env 0 (vd_retained v) [] = Some m"
      using assms Some f by (auto simp: d split: if_splits option.splits)
    then have "\<exists>d. s = fresh_state path accounts m (length (vd_retained v)) d backups"
      using assms Some f v by (auto simp: d split: if_splits prod.splits bool.splits)
    then show ?thesis using read [OF acc Some f v m] by blast
  qed
qed

lemma load_state_ok:
  assumes "load_state env lo path now dir backups = Ok s"
  shows "state_ok env s \<and> live_ok s"
  using assms
proof (cases rule: load_state_cases)
  case (absent accounts)
  then show ?thesis
    using fresh_state_ok [OF load_accounts_ok [OF absent(1)], of 0 "[]" env] by (simp add: sessions_ok_def cells_def user_count_def)
next
  case (read accounts raw f v m d)
  note vs = validated_sessions_ok [OF read(4,5)]
  show ?thesis unfolding read(6) by (rule fresh_state_ok [OF load_accounts_ok [OF read(1)] vs(1-3)])
qed

lemma auth_open_ok: "state_ok env s \<Longrightarrow> live_ok s \<Longrightarrow> store_ok env (auth_open s)"
  by (simp add: store_ok_def auth_open_def registry_sync_def Let_def)

lemma run_ok:
  assumes "load_state env lo path now dir backups = Ok s" and "(auth_step env)\<^sup>*\<^sup>* (auth_open s) st"
  shows "store_ok env st"
  using accounts.run_keeps [OF assms(2)] auth_open_ok load_state_ok [OF assms(1)] by blast

section \<open>Properties\<close>

text \<open>
  C5: whatever operations run on a store read from disk, in any order, with any outcome of the files,
  the clock and the password workers, and also when another process rewrites the files: login
  identifiers are unique, no account has more than eight logins, and a login expires seven days after
  its creation. As long as the storage has not failed, every login belongs to an existing account with
  the profile and credential fingerprint it was created for. A login that was removed has had its
  channel cancelled; if the storage failed or the connections were closed, so have all others, and
  otherwise none of the remaining ones has.
\<close>

theorem auth_store_invariant:
  assumes "load_state env lo path now dir backups = Ok s" and "(auth_step env)\<^sup>*\<^sup>* (auth_open s) st"
  shows "let s = au_state st; m = as_sessions s in
    distinct (map (\<lambda>e. ls_id (snd e)) m) \<and> (\<forall>u. user_count u m \<le> MAX_SESSIONS_PER_ACCOUNT) \<and>
    list_all (\<lambda>e. ls_expires (snd e) = ls_created (snd e) + nanos LOGIN_LIFETIME_SECONDS) m \<and>
    (as_storage_failed s \<or> list_all (\<lambda>e. session_current env (as_accounts s) (snd e)) m) \<and>
    {..<as_next_cell s} - set (cells m) \<subseteq> as_cancelled s \<and>
    (if as_storage_failed s \<or> au_registry_closed st then set (cells m) \<subseteq> as_cancelled s else set (cells m) \<inter> as_cancelled s = {})"
proof -
  have "store_ok env st" by (rule run_ok [OF assms])
  then have s: "state_ok env (au_state st)" and
    reg: "if au_registry_closed st then set (cells (as_sessions (au_state st))) \<subseteq> as_cancelled (au_state st) else live_ok (au_state st)"
    by (auto simp: store_ok_def)
  have "cells_ok (au_state st)" "sessions_ok (as_next_cell (au_state st)) (as_sessions (au_state st))"
    "as_storage_failed (au_state st) \<or> (\<forall>e \<in> set (as_sessions (au_state st)). session_current env (as_accounts (au_state st)) (snd e))"
    using s by (simp_all add: state_ok_def)
  then show ?thesis
    using reg by (auto simp: Let_def sessions_ok_def cells_ok_def live_ok_def list_all_iff)
qed

text \<open>
  In every reachable state an admitted transaction of any operation returns a value: the primary account
  is always found, and the account of a login and a login just looked up are still there. These are the
  panics of the source that the model has; indexing and other checked conversions are total functions in it.
\<close>

lemma transactions_return:
  assumes "load_state env lo path now dir backups = Ok s" and "(auth_step env)\<^sup>*\<^sup>* (auth_open s) st" and "\<not> au_closed st"
  shows "is_Ok (fst (auth_transact GateOpen (login_begin env io rq) st)) \<and>
    (unrepeated env io (au_state st) \<longrightarrow> is_Ok (fst (auth_transact GateOpen (login_commit env io rq profile fp step) st))) \<and>
    is_Ok (fst (auth_transact GateOpen (access_work env io token touch at) st)) \<and>
    is_Ok (fst (auth_transact GateOpen (list_work env io token at) st)) \<and>
    is_Ok (fst (auth_transact GateOpen (revoke_work env io token ident at) st)) \<and>
    is_Ok (fst (auth_transact GateOpen (logout_work env io token) st)) \<and>
    is_Ok (fst (auth_transact GateOpen (security_begin env io srq) st)) \<and>
    is_Ok (fst (auth_transact GateOpen (security_commit env io clock srq username profile fp step) st))"
  using run_ok [OF assms(1,2)] assms(3)
  by (intro conjI impI begin_work.transact_is_Ok commit_work.transact_is_Ok access_work.transact_is_Ok list_work.transact_is_Ok
      revoke_work.transact_is_Ok logout_work.transact_is_Ok security_begin_work.transact_is_Ok security_work.transact_is_Ok) simp_all

text \<open>
  A login has been stored: the expired ones are gone, the least recently seen one too if the account
  had eight, the new one is in memory under the hash of its token and the file holds the same.
\<close>

definition login_stored :: "auth_env \<Rightarrow> auth_io \<Rightarrow> login_request \<Rightarrow> string \<Rightarrow> string \<Rightarrow> string \<Rightarrow> sessions \<Rightarrow> auth_state \<Rightarrow> bool" where
  "login_stored env io rq profile fp token old s' \<longleftrightarrow>
     (let room = make_room io (rq_username rq) (filter (\<lambda>e. rq_now rq < ls_expires (snd e)) old) in
      map_of room (token_hash env token) = None \<and>
      (\<exists>ident cell. as_sessions s' = insert_key (token_hash env token) (new_session env rq profile fp ident cell) room) \<and>
      as_dir s' (as_sessions_path s') = Some (sessions_json env (as_sessions s')))"

lemma login_issue_success:
  assumes "login_issue env io rq profile s = (Some r, s')" and "lr_status r = LSucceeded"
  shows "\<exists>token a. lr_token r = Some token \<and> map_of (as_accounts s) (rq_username rq) = Some a \<and> as_accounts s' = as_accounts s \<and>
    login_stored env io rq profile (fingerprint env (ac_credentials a)) token (as_sessions s) s'"
  using assms(1)
proof (cases rule: login_issue_cases)
  case (stored u s1 room token draws ident a new ok s2)
  have ok: ok using stored(10) assms(2) by (cases ok) (auto simp: refused_def)
  note s1 = prune_Ok [OF stored(1)]
  obtain d where w: "write_sessions env (ai_save io 1) (as_dir s1) (as_sessions_path s1) new = (True, d)" and s2: "s2 = s1\<lparr>as_dir := d\<rparr>"
    using stored(9) ok by (auto elim!: save_sessions_cases)
  have "d (as_sessions_path s1) = Some (sessions_json env new)"
    using w by (auto simp: write_sessions_def Let_def split: sum.splits read_error.splits if_splits dest!: write_atomic_ok)
  then have disk: "as_dir s' (as_sessions_path s') = Some (sessions_json env (as_sessions s'))" and new: "as_sessions s' = new"
    using stored(11) ok s2 by simp_all
  have "room = make_room io (rq_username rq) (filter (\<lambda>e. rq_now rq < ls_expires (snd e)) (as_sessions s))"
    using stored(2) s1 by simp
  then have "login_stored env io rq profile (fingerprint env (ac_credentials a)) token (as_sessions s) s'"
    unfolding login_stored_def Let_def using disk new stored(3,8) by metis
  then show ?thesis using stored(7,10,11) ok s1 s2 by simp
qed (use assms(2) in \<open>auto simp: refused_def\<close>)

lemma login_commit_success:
  assumes res: "login_commit env io rq profile fp step s = (Some r, s')" and win: "lr_status r = LSucceeded"
  shows "\<exists>token a a'. lr_token r = Some token \<and>
    map_of (as_accounts s) (rq_username rq) = Some a \<and> ac_profile a = profile \<and> fingerprint env (ac_credentials a) = fp \<and>
    map_of (as_accounts s') (rq_username rq) = Some a' \<and>
    (if cr_totp_disabled (ac_credentials a) then a' = a
     else rq_code rq \<noteq> [] \<and> 0 \<le> step \<and> cr_last_step (ac_credentials a) < step \<and>
       a' = a\<lparr>ac_credentials := (ac_credentials a)\<lparr>cr_last_step := step\<rparr>\<rparr>) \<and>
    login_stored env io rq profile fp token (as_sessions s) s'"
proof -
  obtain a where acc: "map_of (as_accounts s) (rq_username rq) = Some a" and same: "ac_profile a = profile" "fingerprint env (ac_credentials a) = fp"
    using res win by (auto simp: login_commit_def refused_def Let_def split: if_splits option.splits)
  show ?thesis
  proof (cases "cr_totp_disabled (ac_credentials a)")
    case True
    then have "login_issue env io rq profile s = (Some r, s')"
      using res win acc same by (auto simp: login_commit_def refused_def split: if_splits)
    from login_issue_success [OF this win] show ?thesis using acc same True by auto
  next
    case False
    let ?c = "(ac_credentials a)\<lparr>cr_last_step := step\<rparr>"
    obtain d where new: "rq_code rq \<noteq> []" "0 \<le> step" "cr_last_step (ac_credentials a) < step" and
      iss: "login_issue env io rq profile
        (s\<lparr>as_dir := d, as_accounts := insert_key (rq_username rq) (a\<lparr>ac_credentials := ?c\<rparr>) (as_accounts s)\<rparr>) = (Some r, s')"
      using res win acc same False
      by (auto simp: login_commit_def refused_def Let_def split: if_splits prod.splits bool.splits)
    from login_issue_success [OF iss win] show ?thesis using acc same False new by auto
  qed
qed

lemma login_begin_snapshot:
  assumes "login_begin env io rq s = (Some (Inr (c, profile, fp)), s')" and "accounts_ok (as_accounts s)" and "cr_username c = rq_username rq"
  shows "\<exists>a. map_of (as_accounts s) (rq_username rq) = Some a \<and> c = ac_credentials a \<and> profile = ac_profile a \<and> fp = fingerprint env c"
proof (cases "map_of (as_accounts s) (rq_username rq)")
  case None
  then obtain a where a: "find (\<lambda>a. ac_profile a = []) (map snd (iterate io (as_accounts s))) = Some a" and c: "c = ac_credentials a"
    using assms(1) by (auto simp: login_begin_def Let_def split: if_splits prod.splits option.splits)
  then have "a \<in> snd ` set (as_accounts s)" using find_SomeD [OF a] by simp
  then have "map_of (as_accounts s) (cr_username c) \<noteq> None"
    using assms(2) c by (auto simp: accounts_ok_def map_of_mem)
  then show ?thesis using None assms(3) by simp
next
  case (Some a)
  then show ?thesis using assms(1) by (auto simp: login_begin_def Let_def split: if_splits prod.splits)
qed

lemma transact_Ok:
  assumes "auth_transact g work st = (Inr v, st')"
  obtains s' where "work (au_state st) = (Some v, s')" "\<not> au_closed st" "st' = registry_sync (st\<lparr>au_state := s'\<rparr>)"
  using assms by (auto simp: auth_transact_def split: if_splits gate.splits prod.splits option.splits)

lemma registry_sync_simps [simp]:
  "as_accounts (au_state (registry_sync st)) = as_accounts (au_state st)" "as_sessions (au_state (registry_sync st)) = as_sessions (au_state st)"
  "as_dir (au_state (registry_sync st)) = as_dir (au_state st)" "as_sessions_path (au_state (registry_sync st)) = as_sessions_path (au_state st)"
  "as_storage_failed (au_state (registry_sync st)) = as_storage_failed (au_state st)"
  "as_next_cell (au_state (registry_sync st)) = as_next_cell (au_state st)"
  by (simp_all add: registry_sync_def Let_def)

lemma login_stored_sync [simp]:
  "login_stored env io rq profile fp token old (au_state (registry_sync st)) = login_stored env io rq profile fp token old (au_state st)"
  by (simp add: login_stored_def)

lemma login_begin_refuses: "login_begin env io rq s = (Some (Inl status), s') \<Longrightarrow> status \<noteq> LSucceeded"
  by (auto simp: login_begin_def Let_def split: if_splits prod.splits option.splits)

text \<open>The whole of a successful login: its two transactions, and what happened between them.\<close>

lemma login_success:
  assumes "login env io g kdf between rq st = (r, st')" and "lr_status r = LSucceeded"
  obtains c profile fp st1 step s2 where
    "auth_transact (fst g) (login_begin env (fst io) rq) st = (Inr (Inr (c, profile, fp)), st1)" "kdf = KdfDone"
    "ae_pbkdf2 env (rq_password rq) (cr_salt c) = cr_hash c" "cr_username c = rq_username rq"
    "step = (if \<not> cr_totp_disabled c \<and> rq_code rq \<noteq> []
       then (case match_code env c (rq_code rq) (unix_seconds (rq_now rq)) of None \<Rightarrow> -1 | Some step \<Rightarrow> step) else -1)"
    "login_commit env (snd io) rq profile fp step (au_state (between st1)) = (Some r, s2)"
    "st' = registry_sync ((between st1)\<lparr>au_state := s2\<rparr>)"
proof -
  obtain b st1 where b: "auth_transact (fst g) (login_begin env (fst io) rq) st = (b, st1)" by force
  obtain c profile fp where snap: "b = Inr (Inr (c, profile, fp))"
    using assms b login_begin_refuses [of env "fst io" rq "au_state st"]
    by (auto simp: login_def refused_def elim!: transact_Ok split: if_splits sum.splits prod.splits)
  obtain step where v: "login_verify env kdf rq c = Inr step"
    using assms b snap by (auto simp: login_def login_verify_def refused_def split: if_splits sum.splits kdf_outcome.splits)
  obtain st2 where t: "auth_transact (snd g) (login_commit env (snd io) rq profile fp step) (between st1) = (Inr r, st2)" "st' = st2"
    using assms b snap v by (auto simp: login_def Let_def refused_def split: if_splits sum.splits prod.splits)
  obtain s2 where s2: "login_commit env (snd io) rq profile fp step (au_state (between st1)) = (Some r, s2)"
    "st2 = registry_sync ((between st1)\<lparr>au_state := s2\<rparr>)"
    by (rule transact_Ok [OF t(1)])
  show thesis
    by (rule that [OF b [unfolded snap] _ _ _ _ s2(1)])
      (use v s2(2) t(2) in \<open>auto simp: login_verify_def split: kdf_outcome.splits if_splits\<close>)
qed

lemma login_factors:
  assumes "store_ok env st" and "login env io g kdf between rq st = (r, st')" and "lr_status r = LSucceeded"
  shows "let mid = au_state (between (snd (auth_transact (fst g) (login_begin env (fst io) rq) st))) in
    \<exists>a0 a token.
      map_of (as_accounts (au_state st)) (rq_username rq) = Some a0 \<and>
      ae_pbkdf2 env (rq_password rq) (cr_salt (ac_credentials a0)) = cr_hash (ac_credentials a0) \<and>
      map_of (as_accounts mid) (rq_username rq) = Some a \<and> ac_profile a = ac_profile a0 \<and>
      fingerprint env (ac_credentials a) = fingerprint env (ac_credentials a0) \<and>
      (cr_totp_disabled (ac_credentials a) \<or>
        (\<exists>step a'. match_code env (ac_credentials a0) (rq_code rq) (unix_seconds (rq_now rq)) = Some step \<and>
           cr_last_step (ac_credentials a) < step \<and> map_of (as_accounts (au_state st')) (rq_username rq) = Some a' \<and>
           cr_last_step (ac_credentials a') = step)) \<and>
      lr_token r = Some token \<and>
      login_stored env (snd io) rq (ac_profile a) (fingerprint env (ac_credentials a)) token (as_sessions mid) (au_state st')"
proof -
  have ok: "accounts_ok (as_accounts (au_state st))"
    using assms(1) by (simp add: store_ok_def state_ok_def)
  obtain c profile fp st1 step s2 where b: "auth_transact (fst g) (login_begin env (fst io) rq) st = (Inr (Inr (c, profile, fp)), st1)"
    and pw: "ae_pbkdf2 env (rq_password rq) (cr_salt c) = cr_hash c" "cr_username c = rq_username rq"
    and step: "step = (if \<not> cr_totp_disabled c \<and> rq_code rq \<noteq> []
       then (case match_code env c (rq_code rq) (unix_seconds (rq_now rq)) of None \<Rightarrow> -1 | Some step \<Rightarrow> step) else -1)"
    and com: "login_commit env (snd io) rq profile fp step (au_state (between st1)) = (Some r, s2)"
    and st': "st' = registry_sync ((between st1)\<lparr>au_state := s2\<rparr>)"
    by (rule login_success [OF assms(2,3)])
  obtain s1 where "login_begin env (fst io) rq (au_state st) = (Some (Inr (c, profile, fp)), s1)" by (rule transact_Ok [OF b])
  then obtain a0 where a0: "map_of (as_accounts (au_state st)) (rq_username rq) = Some a0" "c = ac_credentials a0"
    "profile = ac_profile a0" "fp = fingerprint env c"
    using login_begin_snapshot [OF _ ok pw(2)] by blast
  obtain token a a' where a: "lr_token r = Some token"
    "map_of (as_accounts (au_state (between st1))) (rq_username rq) = Some a" "ac_profile a = profile" "fingerprint env (ac_credentials a) = fp"
    "map_of (as_accounts s2) (rq_username rq) = Some a'"
    "if cr_totp_disabled (ac_credentials a) then a' = a
     else rq_code rq \<noteq> [] \<and> 0 \<le> step \<and> cr_last_step (ac_credentials a) < step \<and>
       a' = a\<lparr>ac_credentials := (ac_credentials a)\<lparr>cr_last_step := step\<rparr>\<rparr>"
    "login_stored env (snd io) rq profile fp token (as_sessions (au_state (between st1))) s2"
    using login_commit_success [OF com assms(3)] by blast
  have code: "cr_totp_disabled (ac_credentials a) \<or>
      (\<exists>step a'. match_code env (ac_credentials a0) (rq_code rq) (unix_seconds (rq_now rq)) = Some step \<and>
         cr_last_step (ac_credentials a) < step \<and> map_of (as_accounts (au_state st')) (rq_username rq) = Some a' \<and>
         cr_last_step (ac_credentials a') = step)"
  proof (cases "cr_totp_disabled (ac_credentials a)")
    case False
    then have "0 \<le> step" using a(6) by simp
    then have "match_code env (ac_credentials a0) (rq_code rq) (unix_seconds (rq_now rq)) = Some step"
      using step a0(2) by (auto split: if_splits option.splits)
    then show ?thesis using a(5,6) False st' by simp
  qed simp
  show ?thesis
    unfolding Let_def b snd_conv using a0 a(1-4,7) pw(1) code st' by (intro exI [of _ a0] exI [of _ a] exI [of _ token]) simp
qed

text \<open>
  C1: a login succeeds only with everything it takes. Whatever others do between its two transactions,
  the password derives to the hash of the named account as it was at the start; at the end the account
  still exists with the same profile and credential fingerprint; and unless the account has one-time
  codes switched off, the code is the one of a step after the last one used, which is recorded as used.
  The login is then in memory and in the session file, under the hash of the token returned.
\<close>

theorem login_requires_factors:
  assumes "load_state env lo path now dir backups = Ok s" and "(auth_step env)\<^sup>*\<^sup>* (auth_open s) st"
    and "login env io g kdf between rq st = (r, st')" and "lr_status r = LSucceeded"
  shows "let mid = au_state (between (snd (auth_transact (fst g) (login_begin env (fst io) rq) st))) in
    \<exists>a0 a token.
      map_of (as_accounts (au_state st)) (rq_username rq) = Some a0 \<and>
      ae_pbkdf2 env (rq_password rq) (cr_salt (ac_credentials a0)) = cr_hash (ac_credentials a0) \<and>
      map_of (as_accounts mid) (rq_username rq) = Some a \<and> ac_profile a = ac_profile a0 \<and>
      fingerprint env (ac_credentials a) = fingerprint env (ac_credentials a0) \<and>
      (cr_totp_disabled (ac_credentials a) \<or>
        (\<exists>step a'. match_code env (ac_credentials a0) (rq_code rq) (unix_seconds (rq_now rq)) = Some step \<and>
           cr_last_step (ac_credentials a) < step \<and> map_of (as_accounts (au_state st')) (rq_username rq) = Some a' \<and>
           cr_last_step (ac_credentials a') = step)) \<and>
      lr_token r = Some token \<and>
      login_stored env (snd io) rq (ac_profile a) (fingerprint env (ac_credentials a)) token (as_sessions mid) (au_state st')"
  by (rule login_factors [OF run_ok [OF assms(1,2)] assms(3,4)])

text \<open>
  C6: a one-time code logs in at most once, also across other logins, changes of the settings and any
  other use of the store in between: when two logins to an account both used a code, the step of the
  later one is greater.
\<close>

theorem login_code_used_once:
  assumes "load_state env lo path now dir backups = Ok s" and "(auth_step env)\<^sup>*\<^sup>* (auth_open s) st1"
    and "login env io1 g1 kdf1 between1 rq1 st1 = (r1, st2)" and "lr_status r1 = LSucceeded"
    and "(auth_step env)\<^sup>*\<^sup>* (auth_open s) st2" and "(auth_step env)\<^sup>*\<^sup>* st2 st3"
    and "\<And>x. (auth_step env)\<^sup>*\<^sup>* x (between2 x)"
    and "login env io2 g2 kdf2 between2 rq2 st3 = (r2, st4)" and "lr_status r2 = LSucceeded"
    and "rq_username rq2 = rq_username rq1"
    and "map_of (as_accounts (au_state (between1 (snd (auth_transact (fst g1) (login_begin env (fst io1) rq1) st1))))) (rq_username rq1) = Some a1"
    and "\<not> cr_totp_disabled (ac_credentials a1)"
    and "map_of (as_accounts (au_state (between2 (snd (auth_transact (fst g2) (login_begin env (fst io2) rq2) st3))))) (rq_username rq1) = Some a2"
    and "\<not> cr_totp_disabled (ac_credentials a2)"
  shows "\<exists>b1 b2 step1 step2.
    map_of (as_accounts (au_state st1)) (rq_username rq1) = Some b1 \<and> map_of (as_accounts (au_state st3)) (rq_username rq1) = Some b2 \<and>
    match_code env (ac_credentials b1) (rq_code rq1) (unix_seconds (rq_now rq1)) = Some step1 \<and>
    match_code env (ac_credentials b2) (rq_code rq2) (unix_seconds (rq_now rq2)) = Some step2 \<and> step1 < step2"
proof -
  let ?mid = "between2 (snd (auth_transact (fst g2) (login_begin env (fst io2) rq2) st3))"
  have "(auth_step env)\<^sup>*\<^sup>* st2 ?mid"
    using assms(6,7) begin_login [of env st3 "fst g2" "fst io2" rq2] by (meson rtranclp.rtrancl_into_rtrancl rtranclp_trans)
  then have adv: "advances (as_accounts (au_state st2)) (as_accounts (au_state ?mid))"
    using run_progress [OF _ run_ok [OF assms(1,5)]] by (simp add: progress_def)
  obtain b1 step1 a' where one: "map_of (as_accounts (au_state st1)) (rq_username rq1) = Some b1"
    "match_code env (ac_credentials b1) (rq_code rq1) (unix_seconds (rq_now rq1)) = Some step1"
    "map_of (as_accounts (au_state st2)) (rq_username rq1) = Some a'" "cr_last_step (ac_credentials a') = step1"
    using login_factors [OF run_ok [OF assms(1,2)] assms(3,4)] assms(11,12) by (auto simp: Let_def)
  have "store_ok env st3" by (rule run_ok [OF assms(1) rtranclp_trans [OF assms(5,6)]])
  then obtain b2 step2 where two: "map_of (as_accounts (au_state st3)) (rq_username rq1) = Some b2"
    "match_code env (ac_credentials b2) (rq_code rq2) (unix_seconds (rq_now rq2)) = Some step2"
    "cr_last_step (ac_credentials a2) < step2"
    using login_factors [OF _ assms(8,9)] assms(10,13,14) by (auto simp: Let_def)
  have "step1 \<le> cr_last_step (ac_credentials a2)"
    using adv one(3,4) assms(13) unfolding advances_def by (metis option.inject)
  then show ?thesis using one(1,2) two by fastforce
qed

lemma retired:
  assumes "progress st st'" and "(k, y) \<in> set (as_sessions (au_state st))" and "map_of (as_sessions (au_state st')) k = None"
  shows "ls_cancel y \<in> as_cancelled (au_state st')"
  using assms by (auto simp: progress_def retires_def)

lemma save_sessions_file:
  assumes "save_sessions env io n m s = (True, s')"
  shows "as_dir s' (as_sessions_path s) = Some (sessions_json env m) \<and> as_sessions_path s' = as_sessions_path s \<and>
    as_accounts s' = as_accounts s \<and> as_sessions s' = as_sessions s \<and> as_storage_failed s' = as_storage_failed s"
  using assms
  by (auto elim!: save_sessions_cases simp: write_sessions_def Let_def dest!: write_atomic_ok split: sum.splits read_error.splits if_splits)

text \<open>The logins a transaction at time \<open>now\<close> works on.\<close>

definition unexpired :: "int \<Rightarrow> auth_store \<Rightarrow> sessions" where
  "unexpired now st = filter (\<lambda>e. now < ls_expires (snd e)) (as_sessions (au_state st))"

definition revocable :: "auth_env \<Rightarrow> string \<Rightarrow> string \<Rightarrow> sessions \<Rightarrow> string \<times> login_session \<Rightarrow> bool" where
  "revocable env token ident m e \<longleftrightarrow>
     (case map_of m (token_hash env token) of
        None \<Rightarrow> False
      | Some x \<Rightarrow> ls_id (snd e) = ident \<and> ls_username (snd e) = ls_username x \<and> ls_profile (snd e) = ls_profile x)"

lemma drop_session_result:
  assumes "drop_session env io k v s = (Some r, s')"
  shows "r = Inl AStorageUnavailable \<or> (r = Inr v \<and> as_sessions s' = remove_key k (as_sessions s) \<and>
    as_dir s' (as_sessions_path s') = Some (sessions_json env (as_sessions s')))"
  using assms by (auto simp: drop_session_def Let_def dest!: save_sessions_file split: prod.splits bool.splits)

lemma revoke_work_result:
  assumes "revoke_work env io token ident now s = (Some r, s')" and m: "m = filter (\<lambda>e. now < ls_expires (snd e)) (as_sessions s)"
  shows "case r of
      Inr own \<Rightarrow> \<exists>k y. (k, y) \<in> set m \<and> revocable env token ident m (k, y) \<and> own = (k = token_hash env token) \<and>
        as_sessions s' = remove_key k m \<and> as_dir s' (as_sessions_path s') = Some (sessions_json env (as_sessions s'))
    | Inl ASessionNotFound \<Rightarrow> as_sessions s' = m \<and> (valid_token env ident \<longrightarrow> (\<forall>e \<in> set m. \<not> revocable env token ident m e))
    | Inl _ \<Rightarrow> True"
proof -
  obtain p s1 where p: "prune env io now s = (p, s1)" by force
  show ?thesis
  proof (cases p)
    case (Inl e)
    then have "r = Inl e" using assms(1) p by (simp add: revoke_work_def with_pruned_def)
    moreover have "e \<noteq> ASessionNotFound" using p Inl by (auto simp: prune_def Let_def split: if_splits prod.splits bool.splits)
    ultimately show ?thesis by (cases e) auto
  next
    case (Inr u)
    have s1: "as_sessions s1 = m" using prune_Ok [OF p [unfolded Inr]] m by simp
    note d = revoke_work_def with_pruned_def p Inr s1 Let_def
    show ?thesis
    proof (cases "valid_token env ident")
      case False
      then show ?thesis using assms(1) s1 by (auto simp: d)
    next
      case valid: True
      show ?thesis
      proof (cases "map_of m (token_hash env token)")
        case None
        then show ?thesis using assms(1) valid s1 by (auto simp: d revocable_def)
      next
        case (Some x)
        let ?P = "\<lambda>e. ls_id (snd e) = ident \<and> ls_username (snd e) = ls_username x \<and> ls_profile (snd e) = ls_profile x"
        have P: "revocable env token ident m e = ?P e" for e by (simp add: revocable_def Some)
        show ?thesis
        proof (cases "find ?P (iterate io m)")
          case None
          then have "\<forall>e \<in> set m. \<not> ?P e" unfolding find_None_iff set_iterate by blast
          moreover have "r = Inl ASessionNotFound" "s' = s1" using assms(1) valid Some None by (simp_all add: d)
          ultimately show ?thesis using s1 by (simp add: P)
        next
          case found: (Some ky)
          obtain k y where ky: "ky = (k, y)" by force
          have "(k, y) \<in> set m \<and> ?P (k, y)" using find_SomeD [OF found] ky by simp
          moreover have "drop_session env io k (k = token_hash env token) s1 = (Some r, s')"
            using assms(1) valid s1 Some found ky by (simp add: d)
          ultimately show ?thesis
            using drop_session_result [of env io k "k = token_hash env token" s1 r s'] s1 P [of "(k, y)"] by auto blast
        qed
      qed
    qed
  qed
qed

text \<open>
  C26: revoking a login removes exactly the one named, and only from the caller's own account: on success
  there was one login of that identifier, with the username and profile of the caller's login; it is
  gone, its channel is cancelled, every other unexpired login is unchanged, the file holds the same, and
  the answer says whether the caller revoked itself. The answer \<open>SessionNotFound\<close> is given only when
  there is no such login, and then nothing but expired logins has gone.
\<close>

theorem revoke_exact:
  assumes "load_state env lo path start dir backups = Ok s" and "(auth_step env)\<^sup>*\<^sup>* (auth_open s) st"
  shows "case revoke env io g token ident now st of
      (Inr own, st') \<Rightarrow>
        \<exists>k y. (k, y) \<in> set (unexpired now st) \<and> filter (revocable env token ident (unexpired now st)) (unexpired now st) = [(k, y)] \<and>
          own = (k = token_hash env token) \<and> as_sessions (au_state st') = remove_key k (unexpired now st) \<and>
          ls_cancel y \<in> as_cancelled (au_state st') \<and>
          as_dir (au_state st') (as_sessions_path (au_state st')) = Some (sessions_json env (as_sessions (au_state st')))
    | (Inl ASessionNotFound, st') \<Rightarrow>
        as_sessions (au_state st') = unexpired now st \<and>
        (valid_token env ident \<longrightarrow> filter (revocable env token ident (unexpired now st)) (unexpired now st) = [])
    | (Inl _, st') \<Rightarrow> True"
proof -
  have ok: "store_ok env st" by (rule run_ok [OF assms])
  let ?m = "unexpired now st"
  obtain t st' where t: "auth_transact g (revoke_work env io token ident now) st = (t, st')" by force
  then have res: "revoke env io g token ident now st = (and_then t (\<lambda>v. v), st')" by (simp add: revoke_def flattened_def)
  have prog: "progress st st'"
    using revoke_work.transact_progress [OF ok TrueI, of g io token ident now] t by simp
  have ids: "distinct (map (\<lambda>e. ls_id (snd e)) ?m)" and wf: "wf_map ?m"
    using ok by (auto simp: store_ok_def state_ok_def sessions_ok_def unexpired_def distinct_map_filter)
  have one: "filter (revocable env token ident ?m) ?m = [e]" if "e \<in> set ?m" "revocable env token ident ?m e" for e
    by (rule filter_unique) (use that ids in \<open>auto simp: revocable_def distinct_map inj_on_def split: option.splits\<close>)
  show ?thesis
  proof (cases t)
    case (Inl e)
    have "e \<noteq> ASessionNotFound" using t Inl by (auto simp: auth_transact_def split: if_splits gate.splits prod.splits option.splits)
    then show ?thesis using res Inl by (cases e) auto
  next
    case (Inr v)
    obtain s' where s': "revoke_work env io token ident now (au_state st) = (Some v, s')" "st' = registry_sync (st\<lparr>au_state := s'\<rparr>)"
      by (rule transact_Ok [OF t [unfolded Inr]])
    note w = revoke_work_result [OF s'(1) unexpired_def [of now st]]
    show ?thesis
    proof (cases v)
      case own: (Inr own)
      obtain k y where ky: "(k, y) \<in> set ?m" "revocable env token ident ?m (k, y)" "own = (k = token_hash env token)"
        "as_sessions s' = remove_key k ?m" "as_dir s' (as_sessions_path s') = Some (sessions_json env (as_sessions s'))"
        using w own by auto
      have "ls_cancel y \<in> as_cancelled (au_state st')"
        by (rule retired [OF prog, of k]) (use ky(1,4) s'(2) in \<open>simp_all add: unexpired_def\<close>)
      then show ?thesis using res Inr own ky one [OF ky(1,2)] s'(2) by auto
    next
      case (Inl e)
      then show ?thesis using res Inr w s'(2) by (cases e) (auto simp: filter_empty_conv)
    qed
  qed
qed

section \<open>Security settings\<close>

text \<open>What a backup leaves: the file as it was, under a new name.\<close>

lemma backup_stored:
  assumes "backup_credentials env io path username c now s = (True, s')"
  shows "\<exists>raw entries name. as_dir s path = Some raw \<and> as_backups s' = Some entries \<and> map_of entries name = Some raw"
  using assms
  by (fastforce simp: backup_credentials_def read_private_def Let_def
      split: option.splits sum.splits if_splits prod.splits bool.splits write_result.splits)

text \<open>
  The settings of an account have been changed by the login under \<open>key\<close>: it is the only one of the
  account that is left, under the fingerprint of the new credentials; the logins of other accounts
  are as before; the file of the account was backed up first, and the session file holds the same logins.
\<close>

definition settings_changed :: "auth_env \<Rightarrow> string \<Rightarrow> bool \<Rightarrow> sessions \<Rightarrow> auth_account \<Rightarrow> bytes option \<Rightarrow> auth_state \<Rightarrow> bool" where
  "settings_changed env key enabled old a raw s' \<longleftrightarrow>
     (let u = cr_username (ac_credentials a) in
      \<exists>a' x entries name.
        map_of (as_accounts s') u = Some a' \<and> cr_totp_disabled (ac_credentials a') = (\<not> enabled) \<and>
        cr_last_step (ac_credentials a) < cr_last_step (ac_credentials a') \<and>
        filter (\<lambda>e. ls_username (snd e) = u) (as_sessions s') = [(key, x)] \<and> ls_fingerprint x = fingerprint env (ac_credentials a') \<and>
        filter (\<lambda>e. ls_username (snd e) \<noteq> u) (as_sessions s') = filter (\<lambda>e. ls_username (snd e) \<noteq> u) old \<and>
        as_backups s' = Some entries \<and> map_of entries name = raw \<and> raw \<noteq> None \<and>
        as_dir s' (as_sessions_path s') = Some (sessions_json env (as_sessions s')))"

lemma security_apply_result:
  assumes ok: "state_ok env s" and fine: "\<not> as_storage_failed s" and key: "key = token_hash env (sq_token rq)"
    and look: "map_of (as_sessions s) key = Some x" and acc: "map_of (as_accounts s) u = Some a"
    and x: "ls_username x = u" "ls_profile x = profile" "ac_profile a = profile"
    and less: "cr_last_step (ac_credentials a) < step"
    and res: "security_apply env io rq u profile step x a s = (Some SOk, s')"
  shows "settings_changed env key (sq_enabled rq) (as_sessions s) a (as_dir s (ac_path a)) s'"
proof -
  define c' where "c' = (ac_credentials a)\<lparr>cr_totp_disabled := \<not> sq_enabled rq, cr_last_step := step\<rparr>"
  let ?x = "x\<lparr>ls_fingerprint := fingerprint env c'\<rparr>"
  define kept where "kept = filter (\<lambda>e. fst e = key \<or> ls_username (snd e) \<noteq> u \<or> ls_profile (snd e) \<noteq> profile) (as_sessions s)"
  define new where "new = set_session key ?x kept"
  obtain bo sb where b: "backup_credentials env io (ac_path a) u (ac_credentials a) (sq_now rq) s = (bo, sb)" by force
  obtain bk where sb: "sb = s\<lparr>as_backups := bk\<rparr>" using backup_credentials_state [OF b] by blast
  obtain w d where w: "write_credential env io (as_dir sb) (ac_path a) (ac_credentials a) c' = (w, d)" by force
  define t where "t = sb\<lparr>as_dir := d, as_accounts := insert_key u (a\<lparr>ac_credentials := c'\<rparr>) (as_accounts s)\<rparr>"
  obtain so s2 where sv: "save_sessions env io 1 new t = (so, s2)" by force
  have run: "bo" "so" "s' = install_sessions new s2"
    using res security_apply_eq [OF c'_def kept_def [unfolded key] new_def [unfolded key] b sb w t_def sv] by (auto split: if_splits)
  note saved = save_sessions_file [OF sv [unfolded eqTrueI [OF run(2)]]]
  obtain raw entries name where bk: "as_dir s (ac_path a) = Some raw" "as_backups sb = Some entries" "map_of entries name = Some raw"
    using backup_stored [OF b [unfolded eqTrueI [OF run(1)]]] by blast
  have same_backups: "as_backups s2 = as_backups sb" using sv run(2) by (auto elim!: save_sessions_cases simp: t_def)
  have wf: "wf_map (as_sessions s)" and cur: "\<forall>e \<in> set (as_sessions s). session_current env (as_accounts s) (snd e)"
    and name: "cr_username (ac_credentials a) = u"
    using ok fine map_of_SomeD [OF acc] by (auto simp: state_ok_def sessions_ok_def accounts_ok_def)
  have mine: "fst e = key" if "e \<in> set kept" "ls_username (snd e) = u" for e
  proof -
    have "session_current env (as_accounts s) (snd e)" using cur that(1) by (simp add: kept_def)
    then show ?thesis using that acc x(3) by (auto simp: kept_def session_current_def)
  qed
  have kl: "map_of kept key = Some x" using look by (simp add: kept_def map_of_filter_key [OF wf])
  have wfk: "wf_map kept" using wf by (simp add: kept_def)
  have "filter (\<lambda>e. ls_username (snd e) = u) new = [(key, ?x)]"
  proof (rule filter_unique)
    have "map_of new key = Some ?x" by (simp add: new_def map_of_set_session [OF kl])
    then show "(key, ?x) \<in> set new" by (rule map_of_SomeD)
    have "sessions_ok (as_next_cell s) kept" using ok sessions_ok_filter by (auto simp: kept_def state_ok_def)
    then have "sessions_ok (as_next_cell s) new" unfolding new_def by (rule sessions_ok_set [OF _ kl]) (simp add: same_login_def)
    then show "distinct new" by (simp add: sessions_ok_def cells_def distinct_map)
    show "e = (key, ?x)" if "e \<in> set new" "ls_username (snd e) = u" for e
      using that mine [of e] by (auto simp: new_def set_session_def split: if_splits)
  qed (simp add: x(1))
  moreover have "filter (\<lambda>e. ls_username (snd e) \<noteq> u) new = filter (\<lambda>e. ls_username (snd e) \<noteq> u) (as_sessions s)"
  proof -
    have "filter (\<lambda>e. ls_username (snd e) \<noteq> u) (set_session key ?x m) = filter (\<lambda>e. ls_username (snd e) \<noteq> u) m"
      if "\<And>e. e \<in> set m \<Longrightarrow> fst e = key \<Longrightarrow> ls_username (snd e) = u" for m
      using that x(1) by (induction m) (auto simp: set_session_def)
    moreover have "ls_username (snd e) = u" if "e \<in> set kept" "fst e = key" for e
      using map_of_mem [OF wfk, of "fst e" "snd e"] that kl x(1) by (cases e) simp
    ultimately have "filter (\<lambda>e. ls_username (snd e) \<noteq> u) new = filter (\<lambda>e. ls_username (snd e) \<noteq> u) kept" unfolding new_def by blast
    also have "\<dots> = filter (\<lambda>e. ls_username (snd e) \<noteq> u) (as_sessions s)" by (auto simp: kept_def intro!: filter_cong)
    finally show ?thesis .
  qed
  ultimately show ?thesis
    using saved run(3) bk same_backups less
    by (auto simp: settings_changed_def name t_def c'_def sb install_sessions_def cancel_cells_def intro!: exI [of _ ?x] exI [of _ name])
qed

lemma security_success:
  assumes "set_totp_enabled env io g kdf clock between rq st = (SOk, st')"
  obtains u profile c fp st1 step s2 where
    "auth_transact (fst g) (security_begin env (fst io) rq) st = (Inr (Inr (u, profile, c, fp)), st1)"
    "ae_pbkdf2 env (sq_password rq) (cr_salt c) = cr_hash c" "match_code env c (sq_code rq) (unix_seconds (sq_now rq)) = Some step"
    "security_commit env (snd io) clock rq u profile fp step (au_state (between st1)) = (Some SOk, s2)"
    "st' = registry_sync ((between st1)\<lparr>au_state := s2\<rparr>)"
proof -
  obtain b st1 where b: "auth_transact (fst g) (security_begin env (fst io) rq) st = (b, st1)" by force
  have refuses: "status \<noteq> SOk" if "security_begin env (fst io) rq s = (Some (Inl status), s1)" for status s s1
    using that by (auto simp: security_begin_def Let_def split: sum.splits option.splits prod.splits if_splits)
  obtain u profile c fp where snap: "b = Inr (Inr (u, profile, c, fp))"
    using assms b refuses
    by (auto simp: set_totp_enabled_def elim!: transact_Ok split: if_splits sum.splits prod.splits)
  obtain step where v: "security_verify env kdf rq c = Inr step"
    using assms b snap
    by (auto simp: set_totp_enabled_def security_verify_def Let_def split: if_splits sum.splits kdf_outcome.splits)
  obtain st2 where t: "auth_transact (snd g) (security_commit env (snd io) clock rq u profile fp step) (between st1) = (Inr SOk, st2)" "st' = st2"
    using assms b snap v by (auto simp: set_totp_enabled_def Let_def split: if_splits sum.splits prod.splits)
  obtain s2 where s2: "security_commit env (snd io) clock rq u profile fp step (au_state (between st1)) = (Some SOk, s2)"
    "st2 = registry_sync ((between st1)\<lparr>au_state := s2\<rparr>)"
    by (rule transact_Ok [OF t(1)])
  show thesis
    by (rule that [OF b [unfolded snap] _ _ s2(1)])
      (use v s2(2) t(2) in \<open>auto simp: security_verify_def Let_def split: kdf_outcome.splits if_splits option.splits\<close>)
qed

lemma settings_changed_sync [simp]:
  "settings_changed env key enabled old a raw (au_state (registry_sync st)) = settings_changed env key enabled old a raw (au_state st)"
proof -
  have "as_backups (au_state (registry_sync st)) = as_backups (au_state st)"
    by (simp add: registry_sync_def Let_def cancel_cells_def)
  then show ?thesis by (simp add: settings_changed_def)
qed

lemma settings_changed_removes:
  assumes "settings_changed env key enabled old a raw s'" and "wf_map old" and "e \<in> set old"
    and "ls_username (snd e) = cr_username (ac_credentials a)" and "fst e \<noteq> key"
  shows "map_of (as_sessions s') (fst e) = None"
proof (rule ccontr)
  assume "map_of (as_sessions s') (fst e) \<noteq> None"
  then obtain y where "map_of (as_sessions s') (fst e) = Some y" by blast
  then have y: "(fst e, y) \<in> set (as_sessions s')" by (rule map_of_SomeD)
  let ?u = "cr_username (ac_credentials a)"
  obtain x where mine: "filter (\<lambda>e. ls_username (snd e) = ?u) (as_sessions s') = [(key, x)]"
    and rest: "filter (\<lambda>e. ls_username (snd e) \<noteq> ?u) (as_sessions s') = filter (\<lambda>e. ls_username (snd e) \<noteq> ?u) old"
    using assms(1) unfolding settings_changed_def Let_def by blast
  show False
  proof (cases "ls_username y = ?u")
    case True
    then have "(fst e, y) \<in> set (filter (\<lambda>e. ls_username (snd e) = ?u) (as_sessions s'))" using y by simp
    then show False using mine assms(5) by simp
  next
    case False
    then have "(fst e, y) \<in> set (filter (\<lambda>e. ls_username (snd e) \<noteq> ?u) (as_sessions s'))" using y by simp
    then have "(fst e, y) \<in> set old" using rest by simp
    then have "y = snd e" using map_of_mem [OF assms(2)] assms(3) by (metis option.inject prod.collapse)
    then show False using False assms(4) by simp
  qed
qed

text \<open>The second transaction of a change: what it was decided on, and its effect.\<close>

lemma security_commit_Ok:
  assumes com: "security_commit env io clock rq u profile fp step (au_state st) = (Some SOk, s2)" and ok: "store_ok env st"
    and old: "old = unexpired (max (sq_now rq) clock) st" and key: "key = token_hash env (sq_token rq)"
    and files: "files = as_dir (snd (prune env io (max (sq_now rq) clock) (au_state st)))"
  shows "\<exists>x a. map_of old key = Some x \<and> ls_username x = u \<and> map_of (as_accounts (au_state st)) u = Some a \<and>
    cr_username (ac_credentials a) = u \<and> fingerprint env (ac_credentials a) = fp \<and> cr_last_step (ac_credentials a) < step \<and>
    (if cr_totp_disabled (ac_credentials a) = sq_enabled rq then settings_changed env key (sq_enabled rq) old a (files (ac_path a)) s2
     else as_sessions s2 = old \<and> as_accounts s2 = as_accounts (au_state st))"
proof -
  have sok: "state_ok env (au_state st)" using ok by (simp add: store_ok_def)
  obtain p s1 where p: "prune env io (max (sq_now rq) clock) (au_state st) = (p, s1)" by force
  have pOk: "p = Inr ()" using com p by (cases p) (auto simp: security_commit_def)
  have s1: "as_sessions s1 = old" "as_accounts s1 = as_accounts (au_state st)" "\<not> as_storage_failed s1"
    using prune_Ok [OF p [unfolded pOk]] by (simp_all add: old unexpired_def)
  note d = security_commit_def p pOk s1(1,2) key [symmetric] Let_def
  obtain x a where look: "map_of old key = Some x" and acc: "map_of (as_accounts (au_state st)) u = Some a"
    and x: "ls_username x = u" "ls_profile x = profile" "ls_fingerprint x = fp"
    and a: "ac_profile a = profile" "fingerprint env (ac_credentials a) = fp" and less: "cr_last_step (ac_credentials a) < step"
    using com by (auto simp: d split: option.splits if_splits)
  have name: "cr_username (ac_credentials a) = u"
    using sok map_of_SomeD [OF acc] by (auto simp: state_ok_def accounts_ok_def)
  have "s2 = s1" if "cr_totp_disabled (ac_credentials a) \<noteq> sq_enabled rq"
    using com that look acc x a less by (auto simp: d)
  moreover have "settings_changed env key (sq_enabled rq) old a (files (ac_path a)) s2"
    if "cr_totp_disabled (ac_credentials a) = sq_enabled rq"
  proof -
    have "security_apply env io rq u profile step x a s1 = (Some SOk, s2)" using com that look acc x a less by (auto simp: d)
    then have "settings_changed env key (sq_enabled rq) (as_sessions s1) a (as_dir s1 (ac_path a)) s2"
      by (intro security_apply_result [OF follows_ok [OF prune_cases(1) [OF p sok] sok] s1(3) key _ _ x(1,2) a(1) less])
        (use s1 look acc in simp_all)
    then show ?thesis using files p s1(1) by simp
  qed
  ultimately show ?thesis using look acc x a less name s1 by (intro exI [of _ x] exI [of _ a]) auto
qed

lemma change_cancels_others:
  assumes "settings_changed env key enabled old a raw (au_state st')" and "progress st st'" and "store_ok env st"
    and "old = unexpired now st" and "u = cr_username (ac_credentials a)"
  shows "list_all (\<lambda>e. ls_username (snd e) = u \<and> fst e \<noteq> key \<longrightarrow> ls_cancel (snd e) \<in> as_cancelled (au_state st')) old"
  unfolding list_all_iff
proof (intro ballI impI)
  fix e
  assume e: "e \<in> set old" and ux: "ls_username (snd e) = u \<and> fst e \<noteq> key"
  have wf: "wf_map old" using store_ok_wf [OF assms(3)] by (simp add: assms(4) unexpired_def)
  have "map_of (as_sessions (au_state st')) (fst e) = None"
    by (rule settings_changed_removes [OF assms(1) wf e]) (use ux assms(5) in auto)
  moreover have "(fst e, snd e) \<in> set (as_sessions (au_state st))" using e by (simp add: assms(4) unexpired_def)
  ultimately show "ls_cancel (snd e) \<in> as_cancelled (au_state st')" using retired [OF assms(2)] by blast
qed

lemma security_begin_fingerprint:
  "security_begin env io rq s = (Some (Inr (u, profile, c, fp)), s') \<Longrightarrow> fp = fingerprint env c"
  by (auto simp: security_begin_def Let_def split: sum.splits option.splits prod.splits if_splits)

text \<open>
  C9: changing the security settings takes the password and an unused one-time code, and afterwards no
  other login of the account lives on. When the settings really change, the changing login is the only
  one of its account that is left, all others have been cancelled, the logins of other accounts are
  untouched, the credential file had been backed up as it was, the step of the code is recorded as
  used, and the session file holds the same. Otherwise nothing but expired logins has gone.
\<close>

theorem settings_change_isolates:
  assumes "load_state env lo path start dir backups = Ok s" and "(auth_step env)\<^sup>*\<^sup>* (auth_open s) st"
    and "\<And>x. (auth_step env)\<^sup>*\<^sup>* x (between x)" and "set_totp_enabled env io g kdf clock between rq st = (SOk, st')"
  shows "let key = token_hash env (sq_token rq);
      mid = between (snd (auth_transact (fst g) (security_begin env (fst io) rq) st));
      old = unexpired (max (sq_now rq) clock) mid;
      files = as_dir (snd (prune env (snd io) (max (sq_now rq) clock) (au_state mid))) in
    \<exists>c step x a. ae_pbkdf2 env (sq_password rq) (cr_salt c) = cr_hash c \<and>
      match_code env c (sq_code rq) (unix_seconds (sq_now rq)) = Some step \<and>
      map_of old key = Some x \<and> map_of (as_accounts (au_state mid)) (ls_username x) = Some a \<and>
      fingerprint env (ac_credentials a) = fingerprint env c \<and> cr_last_step (ac_credentials a) < step \<and>
      (if cr_totp_disabled (ac_credentials a) = sq_enabled rq
       then settings_changed env key (sq_enabled rq) old a (files (ac_path a)) (au_state st') \<and>
         list_all (\<lambda>e. ls_username (snd e) = ls_username x \<and> fst e \<noteq> key \<longrightarrow> ls_cancel (snd e) \<in> as_cancelled (au_state st')) old
       else as_sessions (au_state st') = old \<and> as_accounts (au_state st') = as_accounts (au_state mid))"
proof -
  let ?key = "token_hash env (sq_token rq)" and ?now = "max (sq_now rq) clock"
  obtain u profile c fp st1 step s2 where b: "auth_transact (fst g) (security_begin env (fst io) rq) st = (Inr (Inr (u, profile, c, fp)), st1)"
    and pw: "ae_pbkdf2 env (sq_password rq) (cr_salt c) = cr_hash c" "match_code env c (sq_code rq) (unix_seconds (sq_now rq)) = Some step"
    and com: "security_commit env (snd io) clock rq u profile fp step (au_state (between st1)) = (Some SOk, s2)"
    and st': "st' = registry_sync ((between st1)\<lparr>au_state := s2\<rparr>)"
    by (rule security_success [OF assms(4)])
  define mid where "mid = between st1"
  have "(auth_step env)\<^sup>*\<^sup>* (auth_open s) mid"
    unfolding mid_def using assms(2,3) begin_security [of env st "fst g" "fst io" rq] b
    by (metis rtranclp.rtrancl_into_rtrancl rtranclp_trans snd_conv)
  then have mid: "store_ok env mid" by (rule run_ok [OF assms(1)])
  then have smid: "state_ok env (au_state mid)" by (simp add: store_ok_def)
  have snap: "fp = fingerprint env c"
  proof -
    obtain s' where "security_begin env (fst io) rq (au_state st) = (Some (Inr (u, profile, c, fp)), s')" by (rule transact_Ok [OF b])
    then show ?thesis by (rule security_begin_fingerprint)
  qed
  have "follows env (au_state mid) s2"
    using security_work.work_follows [OF smid TrueI, of "snd io" clock rq u profile fp step] com by (simp add: mid_def)
  then have "progress mid (mid\<lparr>au_state := s2\<rparr>)" and "wf_map (as_sessions s2)"
    using smid state_ok_wf by (auto simp: progress_def follows_def)
  then have prog: "progress mid st'" unfolding st' mid_def [symmetric] using progress_trans [OF _ registry_sync_progress] by fastforce
  note commit = security_commit_Ok [OF com [folded mid_def] mid refl refl refl]
  obtain x a where xa: "map_of (unexpired ?now mid) ?key = Some x" "ls_username x = u" "map_of (as_accounts (au_state mid)) u = Some a"
    "cr_username (ac_credentials a) = u" "fingerprint env (ac_credentials a) = fp" "cr_last_step (ac_credentials a) < step"
    "if cr_totp_disabled (ac_credentials a) = sq_enabled rq
     then settings_changed env ?key (sq_enabled rq) (unexpired ?now mid) a (as_dir (snd (prune env (snd io) ?now (au_state mid))) (ac_path a)) s2
     else as_sessions s2 = unexpired ?now mid \<and> as_accounts s2 = as_accounts (au_state mid)"
    using commit by blast
  note others = change_cancels_others [OF _ prog mid refl xa(4) [symmetric], where now = ?now and key = ?key]
  show ?thesis
    unfolding Let_def b snd_conv mid_def [symmetric]
    using pw xa snap others st' by (intro exI [of _ c] exI [of _ step] exI [of _ x] exI [of _ a]) (simp add: mid_def split: if_splits)
qed

end
