(* ===== verification/Auth_Store_Restart.thy ===== *)
theory Auth_Store_Restart
  imports Auth_Store_Properties "HOL-Library.Multiset"
begin

text \<open>
  The restart of the gateway: what the session file holds is what the next start reads. That the
  JSON parser reads the printed text of the file at hand as the object it spells, and that the times in
  it are printed readably (they are in the years 0 to 9999), are hypotheses, collected in \<open>reads_back\<close>;
  the decoders of the store's own types are proved to invert the object.
\<close>

section \<open>Reading back what was printed\<close>

definition row_json :: "persisted_session \<Rightarrow> json" where
  "row_json r = JObj [(''token_hash'', JStr (se_token_hash r)), (''id'', JStr (se_id r)), (''username'', JStr (se_username r)),
     (''profile'', JStr (se_profile r)), (''credential_fingerprint'', JStr (se_fingerprint r)), (''browser'', JStr (se_browser r)),
     (''ip'', JStr (se_ip r)), (''created_at'', JStr (se_created_at r)), (''last_seen_at'', JStr (se_last_seen_at r)),
     (''expires_at'', JStr (se_expires_at r))]"

definition session_file_json :: "persisted_session list \<Rightarrow> json" where
  "session_file_json rows = JObj [(''version'', JInt SESSION_FILE_VERSION), (''sessions'', JArr (map row_json rows))]"

lemma row_of_row_json: "row_of_json (row_json r) = Some r"
  by (simp add: row_of_json_def row_json_def object_wire_def wire_field_def json_string_def keys_def)

lemma rows_of_rows_json: "rows_of_json (map row_json rows) = Some rows"
  by (induction rows) (simp_all add: row_of_row_json)

lemma session_file_of_session_file_json:
  "session_file_of_json (session_file_json rows) = Some \<lparr>sx_version = SESSION_FILE_VERSION, sx_sessions = Some rows\<rparr>"
  by (simp add: session_file_of_json_def session_file_json_def object_wire_def wire_field_def json_i32_def json_rows_def
      rows_of_rows_json keys_def SESSION_FILE_VERSION_def)

definition times_kept :: "auth_env \<Rightarrow> login_session \<Rightarrow> bool" where
  "times_kept env x \<longleftrightarrow> list_all (\<lambda>t. ae_time env (ae_go_time env t) = Some t) [ls_created x, ls_seen x, ls_expires x]"

text \<open>The JSON parser reads the printed file as the object it spells, and the times in it are read back.\<close>

definition reads_back :: "auth_env \<Rightarrow> sessions \<Rightarrow> bool" where
  "reads_back env m \<longleftrightarrow> ae_json env (sessions_json env m) = Some (session_file_json (session_rows env m)) \<and> list_all (times_kept env) (map snd m)"

lemma parse_printed:
  assumes "reads_back env m" and "length (sessions_json env m) \<le> SESSION_FILE_LIMIT"
  shows "parse_session_file env (sessions_json env m) = Ok \<lparr>sx_version = SESSION_FILE_VERSION, sx_sessions = Some (session_rows env m)\<rparr>"
proof -
  have "require_json_object (sessions_json env m)"
    by (simp add: require_json_object_def sessions_json_def session_file_go_json_def)
  then show ?thesis
    using assms by (simp add: parse_session_file_def reads_back_def session_file_of_session_file_json)
qed

lemma reads_back_times: "reads_back env m \<Longrightarrow> (k, x) \<in> set m \<Longrightarrow> times_kept env x"
  by (force simp: reads_back_def list_all_iff)

section \<open>The validation accepts\<close>

text \<open>A row the validation takes, whatever the accounts.\<close>

definition good_row :: "auth_env \<Rightarrow> int \<Rightarrow> persisted_session \<Rightarrow> bool" where
  "good_row env now row \<longleftrightarrow>
     row_shape env now row \<and> valid_session_text (se_browser row) 80 \<and> (se_ip row = ''unknown'' \<or> ae_is_ip env (se_ip row)) \<and>
     ae_time env (se_created_at row) \<noteq> Some ZERO_TIME"

lemma scan_row_accepts:
  assumes s: "scanned env now accounts seen s" and row: "good_row env now row" and new: "se_id row \<notin> set (map se_id seen)"
    and tok: "current_row env now accounts row \<Longrightarrow>
      ae_unbase64url env (se_token_hash row) \<notin> (\<lambda>r. ae_unbase64url env (se_token_hash r)) ` set (filter (current_row env now accounts) seen)"
    and count: "current_row env now accounts row \<Longrightarrow>
      account_rows (se_username row, se_profile row) (filter (current_row env now accounts) seen) < MAX_SESSIONS_PER_ACCOUNT"
  shows "\<exists>s'. scan_row env now accounts s row = Ok s'"
proof -
  have ids: "se_id row \<notin> set (sc_ids s)" and kept: "sc_retained s = filter (current_row env now accounts) seen"
    and toks: "Some ` set (sc_tokens s) = set (map (\<lambda>r. ae_unbase64url env (se_token_hash r)) (sc_retained s))"
    and cnt: "\<forall>k. count_of (sc_counts s) k = account_rows k (sc_retained s)"
    using s new unfolding scanned_def by auto
  obtain hash login created last where sh: "ae_unbase64url env (se_token_hash row) = Some hash" "length hash = 32"
    "ae_unbase64url env (se_id row) = Some login" "length login = 32"
    "ae_time env (se_created_at row) = Some created" "ae_time env (se_last_seen_at row) = Some last"
    "ae_time env (se_expires_at row) = Some (created + nanos LOGIN_LIFETIME_SECONDS)"
    "created \<le> last" "last \<le> created + nanos LOGIN_LIFETIME_SECONDS" "created \<le> now + nanos 300"
    using row unfolding good_row_def row_shape_def by blast
  have new_tok: "hash \<notin> set (sc_tokens s)" if "current_row env now accounts row"
  proof
    assume "hash \<in> set (sc_tokens s)"
    then have "Some hash \<in> (\<lambda>r. ae_unbase64url env (se_token_hash r)) ` set (filter (current_row env now accounts) seen)"
      using toks kept by (metis image_eqI set_map)
    then show False using tok [OF that] sh(1) by simp
  qed
  have room: "count_of (sc_counts s) (se_username row, se_profile row) < MAX_SESSIONS_PER_ACCOUNT" if "current_row env now accounts row"
    using count [OF that] cnt kept by simp
  have words: "valid_session_text (se_browser row) 80" "se_ip row = ''unknown'' \<or> ae_is_ip env (se_ip row)" "created \<noteq> ZERO_TIME"
    using row sh(5) by (auto simp: good_row_def)
  show ?thesis
  proof (cases "current_row env now accounts row")
    case True
    then obtain profile c where "map_of accounts (se_username row) = Some (profile, c)" "se_profile row = profile"
      "se_fingerprint row = fingerprint env c" "now < created + nanos LOGIN_LIFETIME_SECONDS"
      using sh(7) by (auto simp: current_row_def split: option.splits)
    then show ?thesis
      using sh ids words new_tok [OF True] room [OF True] by (simp add: scan_row_def count_of_def Let_def)
  next
    case False
    then show ?thesis
      using sh ids words by (auto simp: scan_row_def current_row_def Let_def split: option.splits)
  qed
qed

lemma scan_rows_accepts:
  assumes "scanned env now accounts seen s" and "list_all (good_row env now) rows" and "distinct (map se_id (seen @ rows))"
    and "distinct (map (\<lambda>r. ae_unbase64url env (se_token_hash r)) (filter (current_row env now accounts) (seen @ rows)))"
    and "\<forall>k. account_rows k (filter (current_row env now accounts) (seen @ rows)) \<le> MAX_SESSIONS_PER_ACCOUNT"
  shows "\<exists>s'. scan_rows env now accounts s rows = Ok s'"
  using assms
proof (induction rows arbitrary: seen s)
  case (Cons row rows)
  have "\<exists>s1. scan_row env now accounts s row = Ok s1"
  proof (rule scan_row_accepts [OF Cons.prems(1)])
    show "good_row env now row" "se_id row \<notin> set (map se_id seen)" using Cons.prems(2,3) by auto
    assume cur: "current_row env now accounts row"
    show "ae_unbase64url env (se_token_hash row) \<notin>
        (\<lambda>r. ae_unbase64url env (se_token_hash r)) ` set (filter (current_row env now accounts) seen)"
      using Cons.prems(4) cur by auto
    have "account_rows (se_username row, se_profile row) (filter (current_row env now accounts) (seen @ row # rows)) \<le> MAX_SESSIONS_PER_ACCOUNT"
      using Cons.prems(5) by blast
    then show "account_rows (se_username row, se_profile row) (filter (current_row env now accounts) seen) < MAX_SESSIONS_PER_ACCOUNT"
      using cur by (simp add: account_rows_def)
  qed
  then obtain s1 where s1: "scan_row env now accounts s row = Ok s1" by blast
  have "\<exists>s'. scan_rows env now accounts s1 rows = Ok s'"
    by (rule Cons.IH [OF scan_row_scanned [OF Cons.prems(1) s1]]) (use Cons.prems in simp_all)
  then show ?case using s1 by simp
qed simp

section \<open>The restart\<close>

definition storable :: "auth_env \<Rightarrow> int \<Rightarrow> string \<times> login_session \<Rightarrow> bool" where
  \<comment> \<open>and its key is the canonical text of what it decodes to\<close>
  "storable env now e \<longleftrightarrow>
     good_row env now (session_persisted env (fst e) (snd e)) \<and>
     (case ae_unbase64url env (fst e) of None \<Rightarrow> False | Some hash \<Rightarrow> ae_base64url env hash = fst e)"

text \<open>What a restart is to bring back of a login: everything but its channel and when it was last stored.\<close>

definition restored :: "login_session \<Rightarrow> string \<times> string \<times> string \<times> string \<times> string \<times> string \<times> int \<times> int \<times> int" where
  "restored x = (ls_id x, ls_username x, ls_profile x, ls_fingerprint x, ls_browser x, ls_ip x, ls_created x, ls_seen x, ls_expires x)"

definition same_accounts :: "auth_env \<Rightarrow> (string \<times> auth_account) list \<Rightarrow> (string \<times> auth_account) list \<Rightarrow> bool" where
  "same_accounts env m m' \<longleftrightarrow>
     (\<forall>u. map_option (\<lambda>a. (ac_profile a, fingerprint env (ac_credentials a))) (map_of m u) =
          map_option (\<lambda>a. (ac_profile a, fingerprint env (ac_credentials a))) (map_of m' u))"

lemma mset_session_rows: "mset (session_rows env m) = image_mset (\<lambda>e. session_persisted env (fst e) (snd e)) (mset m)"
  by (simp add: session_rows_def)

lemma rows_go_json_length: "length (rows_go_json env rows) = sum_list (map (\<lambda>r. length (row_go_json env r)) rows) + (length rows - 1)"
  by (induction env rows rule: rows_go_json.induct) auto

lemma rows_go_json_filter_length: "length (rows_go_json env (filter P rows)) \<le> length (rows_go_json env rows)"
  unfolding rows_go_json_length
  by (intro add_mono sum_list_filter_le diff_le_mono length_filter_le)

text \<open>A login of the invariant is current for the accounts read back exactly until it expires.\<close>

lemma current_row_persisted:
  assumes "times_kept env x" and "session_current env accounts x" and "same_accounts env accounts accounts'"
  shows "current_row env now (account_view accounts') (session_persisted env k x) = (now < ls_expires x)"
proof -
  obtain a where a: "map_of accounts (ls_username x) = Some a" "ls_profile x = ac_profile a" "ls_fingerprint x = fingerprint env (ac_credentials a)"
    using assms(2) by (auto simp: session_current_def)
  have "map_option (\<lambda>a. (ac_profile a, fingerprint env (ac_credentials a))) (map_of accounts' (ls_username x)) =
      Some (ac_profile a, fingerprint env (ac_credentials a))"
    using assms(3) a(1) unfolding same_accounts_def by (metis option.simps(9))
  then obtain a' where "map_of accounts' (ls_username x) = Some a'" "ac_profile a' = ac_profile a"
    "fingerprint env (ac_credentials a') = fingerprint env (ac_credentials a)" by auto
  then show ?thesis
    using a assms(1) by (simp add: current_row_def session_persisted_def map_of_account_view times_kept_def)
qed

lemma loaded_restored:
  assumes "times_kept env x" and "loaded_as env (session_persisted env k x) e"
  shows "fst e = k" "restored (snd e) = restored x" "session_persisted env (fst e) (snd e) = session_persisted env k x"
  using assms by (cases e; auto simp: loaded_as_def from_row_def session_persisted_def restored_def times_kept_def)+

lemma load_rows_total:
  assumes "\<forall>r \<in> set rows. row_shape env now r"
  shows "\<exists>m'. load_rows env n rows m = Some m'"
  using assms
proof (induction rows arbitrary: n m)
  case (Cons r rows)
  obtain x where "from_row env n r = Some x" using Cons.prems by (fastforce simp: row_shape_def from_row_def)
  then show ?case using Cons.IH Cons.prems by simp
qed simp

lemma printed_rows_valid:
  assumes ok: "state_ok env s" and fine: "\<not> as_storage_failed s"
    and good: "list_all (storable env now) (as_sessions s)" and same: "same_accounts env (as_accounts s) accounts"
  shows "\<exists>v. validate_session_file env \<lparr>sx_version = SESSION_FILE_VERSION, sx_sessions = Some (session_rows env (as_sessions s))\<rparr> now
      (account_view accounts) = Ok v \<and>
    vd_retained v = filter (current_row env now (account_view accounts)) (session_rows env (as_sessions s))"
proof -
  define m where "m = as_sessions s"
  define rows where "rows = session_rows env m"
  have sok: "sessions_ok (as_next_cell s) m" using ok by (simp add: state_ok_def m_def)
  have mrows: "mset rows = image_mset (\<lambda>e. session_persisted env (fst e) (snd e)) (mset m)" by (simp add: rows_def mset_session_rows)
  have "mset (map se_id rows) = mset (map (\<lambda>e. ls_id (snd e)) m)"
    unfolding mset_map mrows by (simp add: multiset.map_comp comp_def session_persisted_def)
  from mset_eq_imp_distinct_iff [OF this] have ids: "distinct (map se_id rows)" using sok by (simp add: sessions_ok_def)
  have "mset (map se_token_hash rows) = mset (map fst m)"
    unfolding mset_map mrows by (simp add: multiset.map_comp comp_def session_persisted_def)
  from mset_eq_imp_distinct_iff [OF this] have keys: "distinct (map se_token_hash rows)"
    using sok by (simp add: sessions_ok_def wf_map_def keys_def)
  have row: "good_row env now r \<and> (case ae_unbase64url env (se_token_hash r) of None \<Rightarrow> False | Some hash \<Rightarrow> ae_base64url env hash = se_token_hash r)"
    if r: "r \<in> set rows" for r
  proof -
    obtain e where "e \<in> set m" "r = session_persisted env (fst e) (snd e)" using r by (auto simp: rows_def session_rows_def)
    moreover from this have tok: "se_token_hash r = fst e" by (simp add: session_persisted_def)
    ultimately show ?thesis using good unfolding tok by (auto simp: list_all_iff storable_def m_def)
  qed
  have inj: "inj_on (\<lambda>r. ae_unbase64url env (se_token_hash r)) (set rows)"
  proof (rule inj_onI)
    fix r r'
    assume r: "r \<in> set rows" "r' \<in> set rows" "ae_unbase64url env (se_token_hash r) = ae_unbase64url env (se_token_hash r')"
    then have "se_token_hash r = se_token_hash r'" using row [OF r(1)] row [OF r(2)] by (auto split: option.splits)
    then show "r = r'" using keys r(1,2) by (simp add: distinct_map inj_on_def)
  qed
  have toks: "distinct (map (\<lambda>r. ae_unbase64url env (se_token_hash r)) (filter P rows))" for P
    using ids inj by (auto simp: distinct_map intro: inj_on_subset)
  have count: "account_rows (u, p) (filter P rows) \<le> MAX_SESSIONS_PER_ACCOUNT" for u p P
  proof -
    have "account_rows (u, p) (filter P rows) \<le> length (filter (\<lambda>r. se_username r = u) rows)"
      unfolding account_rows_def filter_filter by (induction rows) auto
    also have "length (filter (\<lambda>r. se_username r = u) rows) = size (filter_mset (\<lambda>r. se_username r = u) (mset rows))"
      by (metis mset_filter size_mset)
    also have "\<dots> = user_count u m"
      unfolding mrows by (simp add: filter_mset_image_mset session_persisted_def user_count_def flip: mset_filter)
    finally show ?thesis using sok by (auto simp: sessions_ok_def intro: order_trans)
  qed
  have "\<exists>s'. scan_rows env now (account_view accounts) scan_new rows = Ok s'"
    by (rule scan_rows_accepts [OF scan_new_scanned]) (use row ids toks count in \<open>auto simp: list_all_iff\<close>)
  then obtain s' where s': "scan_rows env now (account_view accounts) scan_new rows = Ok s'" by blast
  then have "sc_retained s' = filter (current_row env now (account_view accounts)) rows"
    using scan_rows_scanned [OF scan_new_scanned s'] unfolding scanned_def by simp
  then show ?thesis using s' by (simp add: validate_session_file_def rows_def m_def)
qed

lemma loaded_map:
  assumes law: "reads_back env (as_sessions s)" and ok: "state_ok env s" and fine: "\<not> as_storage_failed s"
    and same: "same_accounts env (as_accounts s) accounts" and wf: "wf_map m'"
    and l2: "list_all2 (loaded_as env) (filter (current_row env now (account_view accounts)) (session_rows env (as_sessions s))) m'"
  shows "map_option restored (map_of m' k) =
    (case map_of (as_sessions s) k of None \<Rightarrow> None | Some x \<Rightarrow> if now < ls_expires x then Some (restored x) else None)"
proof -
  let ?cur = "current_row env now (account_view accounts)"
  have wfs: "wf_map (as_sessions s)" by (rule state_ok_wf [OF ok])
  have cur: "?cur (session_persisted env k x) = (now < ls_expires x)" if "map_of (as_sessions s) k = Some x" for k x
    using current_row_persisted [OF reads_back_times [OF law map_of_SomeD [OF that]] _ same] ok fine map_of_SomeD [OF that]
    by (fastforce simp: state_ok_def)
  have into: "session_persisted env k x \<in> set (filter ?cur (session_rows env (as_sessions s)))"
    if look: "map_of (as_sessions s) k = Some x" and "now < ls_expires x" for k x
    using cur [OF look] that(2) map_of_SomeD [OF look] by (force simp: session_rows_def)
  have back_to: "\<exists>e \<in> set m'. fst e = k \<and> restored (snd e) = restored x"
    if x: "map_of (as_sessions s) k = Some x" "now < ls_expires x" for k x
  proof -
    obtain e where "e \<in> set m'" "loaded_as env (session_persisted env k x) e"
      using l2 into [OF x] by (metis in_set_conv_nth list_all2_conv_all_nth)
    then show ?thesis using loaded_restored [OF reads_back_times [OF law map_of_SomeD [OF x(1)]]] by blast
  qed
  have origin: "\<exists>x. map_of (as_sessions s) (fst e) = Some x \<and> now < ls_expires x \<and> restored (snd e) = restored x" if e: "e \<in> set m'" for e
  proof -
    obtain r where r: "r \<in> set (filter ?cur (session_rows env (as_sessions s)))" "loaded_as env r e"
      using e l2 by (metis in_set_conv_nth list_all2_conv_all_nth)
    then obtain k x where kx: "(k, x) \<in> set (as_sessions s)" "r = session_persisted env k x" by (auto simp: session_rows_def)
    have look: "map_of (as_sessions s) k = Some x" by (rule map_of_mem [OF wfs kx(1)])
    have "now < ls_expires x" using cur [OF look] r(1) kx(2) by simp
    then show ?thesis using look loaded_restored(1,2) [OF reads_back_times [OF law kx(1)] r(2) [unfolded kx(2)]] by simp
  qed
  show ?thesis
  proof (cases "map_of m' k")
    case None
    then have "\<not> (\<exists>x. map_of (as_sessions s) k = Some x \<and> now < ls_expires x)"
      using back_to map_of_mem [OF wf] by (metis option.distinct(1) prod.collapse)
    then show ?thesis using None by (auto split: option.splits)
  next
    case (Some y)
    then show ?thesis using origin [OF map_of_SomeD [OF Some]] by auto
  qed
qed

text \<open>The rewritten file of a start that dropped rows is no longer than the one it read.\<close>

lemma retained_rows_again:
  assumes law: "reads_back env m" and rows: "kept = filter P (session_rows env m)" and l2: "list_all2 (loaded_as env) kept m'"
  shows "session_rows env m' = kept" and "length (sessions_json env m') \<le> length (sessions_json env m)"
proof -
  have "session_persisted env (fst e) (snd e) = r" if e: "loaded_as env r e" and r: "r \<in> set kept" for r e
  proof -
    obtain k x where "r = session_persisted env k x" "(k, x) \<in> set m" using r rows by (auto simp: session_rows_def)
    then show ?thesis using loaded_restored(3) [OF reads_back_times [OF law]] e by blast
  qed
  then have "map (\<lambda>e. session_persisted env (fst e) (snd e)) m' = kept"
    using l2 by (auto simp: list_all2_conv_all_nth intro!: nth_equalityI)
  moreover have "sorted (map se_id kept)" using rows by (simp add: session_rows_def sorted_filter)
  ultimately show eq: "session_rows env m' = kept" by (simp add: session_rows_def sort_key_id_if_sorted)
  show "length (sessions_json env m') \<le> length (sessions_json env m)"
    using rows_go_json_filter_length [of env P "session_rows env m"]
    by (simp add: sessions_json_def session_file_go_json_def eq rows)
qed

text \<open>
  Logins survive a restart. When the session file is the one the store last wrote, a start at a later
  time that reads the same accounts brings back exactly the logins that have not expired, under the same
  tokens and with every field the file holds, and starts with no other.
\<close>

lemma logins_survive_restart:
  assumes law: "reads_back env (as_sessions (au_state st))" and run: "load_state env lo0 path start dir0 backups0 = Ok s0" "(auth_step env)\<^sup>*\<^sup>* (auth_open s0) st"
    and fine: "\<not> as_storage_failed (au_state st)"
    and disk: "dir (suffix_path path ''.sessions'') = Some (sessions_json env (as_sessions (au_state st)))"
    and short: "length (sessions_json env (as_sessions (au_state st))) \<le> SESSION_FILE_LIMIT"
    and good: "list_all (storable env now) (as_sessions (au_state st))"
    and acc: "load_accounts env lo dir path = Ok accounts" "same_accounts env (as_accounts (au_state st)) accounts"
    and io: "lo_readable lo (suffix_path path ''.sessions'')" "lo_save lo = (True, WriteOk)"
  shows "\<exists>s'. load_state env lo path now dir backups = Ok s' \<and>
    (\<forall>k. map_option restored (map_of (as_sessions s') k) =
      (case map_of (as_sessions (au_state st)) k of None \<Rightarrow> None | Some x \<Rightarrow> if now < ls_expires x then Some (restored x) else None))"
proof -
  let ?s = "au_state st" and ?path = "suffix_path path ''.sessions''"
  have ok: "state_ok env ?s" using run_ok [OF run] by (simp add: store_ok_def)
  let ?f = "\<lparr>sx_version = SESSION_FILE_VERSION, sx_sessions = Some (session_rows env (as_sessions ?s))\<rparr>"
  let ?kept = "filter (current_row env now (account_view accounts)) (session_rows env (as_sessions ?s))"
  obtain v where v: "validate_session_file env ?f now (account_view accounts) = Ok v" "vd_retained v = ?kept"
    using printed_rows_valid [OF ok fine good acc(2)] by blast
  have shape: "\<forall>r \<in> set ?kept. row_shape env now r"
    using good by (auto simp: session_rows_def list_all_iff storable_def good_row_def)
  obtain m' where m': "load_rows env 0 ?kept [] = Some m'" using load_rows_total [OF shape] by blast
  note vs = validated_sessions_ok [OF v(1), unfolded v(2), OF m']
  have wf: "wf_map m'" using vs(1) by (simp add: sessions_ok_def)
  have "length (sessions_json env m') \<le> SESSION_FILE_LIMIT"
    using retained_rows_again(2) [OF law refl vs(4)] short by linarith
  then have "write_sessions env (lo_save lo) dir ?path m' = (True, dir(?path \<mapsto> sessions_json env m'))"
    using disk short by (simp add: write_sessions_def io(2) read_private_def write_atomic_def Let_def)
  then have "\<exists>d. load_state env lo path now dir backups = Ok (fresh_state path accounts m' (length ?kept) d backups)"
    using acc(1) disk short io(1) parse_printed [OF law short] v m'
    by (auto simp: load_state_def read_private_def account_view_def [symmetric] Let_def)
  then show ?thesis using loaded_map [OF law ok fine acc(2) wf vs(4)] by (auto simp: fresh_state_def)
qed

section \<open>A clock that steps back\<close>

text \<open>
  The one condition on logins that the store itself does not maintain is that a login was not last seen
  before it was created: a touch stores the time of the request as it is.
\<close>

lemma access_sets_seen:
  assumes "access_work env io token True now s = (Some (Inr (Some acc)), s')" and "wf_map (as_sessions s)"
    and "map_of (as_sessions s) (token_hash env token) = Some x" and "now < ls_expires x"
  shows "\<exists>y. map_of (as_sessions s') (token_hash env token) = Some y \<and> ls_seen y = now \<and> ls_created y = ls_created x"
proof -
  let ?key = "token_hash env token"
  obtain p s1 where p: "prune env io now s = (p, s1)" by force
  have pOk: "p = Inr ()" using assms(1) p by (cases p) (auto simp: access_work_def with_pruned_def)
  have look: "map_of (as_sessions s1) ?key = Some x"
    using prune_Ok [OF p [unfolded pOk]] assms(3,4) by (simp add: map_of_filter_key [OF assms(2)])
  have answer: "t' = t" if "access_answer env token t = (r, t')" for r t t'
    using that by (auto simp: access_answer_def split: option.splits)
  show ?thesis
    using assms(1) p pOk look
    by (auto simp: access_work_def with_pruned_def Let_def map_of_set_session [OF look] dest!: answer split: if_splits prod.splits bool.splits)
qed

lemma seen_before_created_refused:
  assumes law: "reads_back env m" and e: "e \<in> set m" "ls_seen (snd e) < ls_created (snd e)"
  shows "\<not> is_Ok (load_state env lo path now (dir(suffix_path path ''.sessions'' \<mapsto> sessions_json env m)) backups)"
proof
  let ?dir = "dir(suffix_path path ''.sessions'' \<mapsto> sessions_json env m)" and ?r = "session_persisted env (fst e) (snd e)"
  assume "is_Ok (load_state env lo path now ?dir backups)"
  then obtain s where "load_state env lo path now ?dir backups = Ok s" by (cases "load_state env lo path now ?dir backups") auto
  then show False
  proof (cases rule: load_state_cases)
    case (read accounts raw f v m' d)
    have "length raw \<le> SESSION_FILE_LIMIT" using read(3) by (auto simp: parse_session_file_def split: if_splits)
    then have f: "f = \<lparr>sx_version = SESSION_FILE_VERSION, sx_sessions = Some (session_rows env m)\<rparr>"
      using parse_printed [OF law] read(2,3) by simp
    obtain sc where "scanned env now (account_view accounts) (file_rows f) sc" by (rule validated_scanned [OF read(4)])
    then have "\<forall>r \<in> set (session_rows env m). row_shape env now r" by (simp add: scanned_def list_all_iff file_rows_def f)
    then have "row_shape env now ?r" using e(1) by (auto simp: session_rows_def)
    then show ?thesis using reads_back_times [OF law, of "fst e" "snd e"] e by (auto simp: row_shape_def session_persisted_def times_kept_def)
  qed simp
qed

text \<open>
  So after a request that arrives while the wall clock is behind the creation of its login, the next
  write of the session file, here by the logout of another login, leaves a file that a fresh start
  refuses as a whole.
\<close>

theorem clock_step_back_blocks_restart:
  assumes "reads_back env (as_sessions (au_state st2))" and "store_ok env st"
    and "access env io1 g1 token True now st = (Ok (Some acc), st1)"
    and "map_of (as_sessions (au_state st)) (token_hash env token) = Some x" and "now < ls_created x"
    and "logout env io2 g2 other st1 = (Ok (), st2)" and "token_hash env other \<noteq> token_hash env token"
    and "map_of (as_sessions (au_state st1)) (token_hash env other) \<noteq> None"
    and "as_sessions_path (au_state st2) = suffix_path path ''.sessions''"
  shows "\<not> is_Ok (load_state env lo path later (as_dir (au_state st2)) backups)"
proof -
  let ?key = "token_hash env token"
  obtain s1 where s1: "access_work env io1 token True now (au_state st) = (Some (Inr (Some acc)), s1)" "st1 = registry_sync (st\<lparr>au_state := s1\<rparr>)"
    using assms(3) by (auto simp: access_def flattened_def prod_eq_iff and_then_Ok_iff intro: transact_Ok [OF prod_eqI])
  have x: "now < ls_expires x"
    using assms(2,5) map_of_SomeD [OF assms(4)] by (force simp: store_ok_def state_ok_def sessions_ok_def nanos_def limits)
  obtain y where y: "map_of (as_sessions s1) ?key = Some y" "ls_seen y = now" "ls_created y = ls_created x"
    using access_sets_seen [OF s1(1) store_ok_wf [OF assms(2)] assms(4) x] by blast
  obtain s2 where s2: "logout_work env io2 other (au_state st1) = (Some (Inr ()), s2)" "st2 = registry_sync (st1\<lparr>au_state := s2\<rparr>)"
    using assms(6) by (auto simp: logout_def flattened_def prod_eq_iff and_then_Ok_iff intro: transact_Ok [OF prod_eqI])
  have "drop_session env io2 (token_hash env other) () (au_state st1) = (Some (Inr ()), s2)"
    using s2(1) assms(8) by (auto simp: logout_work_def Let_def split: if_splits)
  from drop_session_result [OF this]
  have "as_sessions s2 = remove_key (token_hash env other) (as_sessions (au_state st1))"
    and disk: "as_dir s2 (as_sessions_path s2) = Some (sessions_json env (as_sessions s2))" by auto
  then have "map_of (as_sessions s2) ?key = Some y" using y(1) s1(2) assms(7) by simp
  then have e: "(?key, y) \<in> set (as_sessions s2)" "ls_seen (snd (?key, y)) < ls_created (snd (?key, y))"
    using y assms(5) by (auto dest: map_of_SomeD)
  have "(as_dir (au_state st2))(suffix_path path ''.sessions'' \<mapsto> sessions_json env (as_sessions s2)) = as_dir (au_state st2)"
    using disk s2(2) assms(9) by (auto simp: fun_eq_iff)
  then show ?thesis using seen_before_created_refused [OF assms(1) [unfolded s2(2), simplified] e, of lo path later "as_dir (au_state st2)" backups] by simp
qed

end
