(* ===== verification/Auth_Store_Witnesses.thy ===== *)
theory Auth_Store_Witnesses
  imports Auth_Store_Restart
begin

text \<open>
  The properties of the account store at concrete inputs: two stores with one account each, read from a
  directory that holds a credential file, with codecs that are simple but satisfy the laws.
\<close>

section \<open>An account with one-time codes\<close>

text \<open>A quoting that needs no escape: every character as two letters.\<close>

definition nibble :: "nat \<Rightarrow> char" where
  "nibble n = char_of (65 + n)"

lemma code_nibble [simp]: "n < 16 \<Longrightarrow> code (nibble n) = 65 + n"
  by (simp add: nibble_def code_def)

definition quoted :: "string \<Rightarrow> string" where
  "quoted v = CHR 0x22 # concat (map (\<lambda>c. [nibble (code c div 16), nibble (code c mod 16)]) v) @ [CHR 0x22]"

definition plain :: "char \<Rightarrow> bool" where
  "plain c \<longleftrightarrow> code c \<notin> {0x3C, 0x3E, 0x26, 0xE2}"

lemma go_escape_plain: "list_all plain v \<Longrightarrow> go_escape v = v"
proof (induction v)
  case (Cons c v)
  then have "c \<notin> {CHR ''<'', CHR ''>'', CHR ''&'', CHR 0xE2}" by (auto simp: plain_def code_def)
  then show ?case using Cons by (subst go_escape.simps) auto
qed (simp add: go_escape.simps)

lemma code_less: "code c div 16 < 16"
proof -
  have "code c < 256" by (simp add: code_def)
  then show ?thesis by simp
qed

lemma quoted_plain: "list_all plain (quoted v)"
proof -
  have "plain (nibble n)" if "n < 16" for n using that by (auto simp: plain_def)
  then have "list_all plain (concat (map (\<lambda>c. [nibble (code c div 16), nibble (code c mod 16)]) v))"
    using code_less by (induction v) simp_all
  then show ?thesis by (simp add: quoted_def) (simp add: plain_def code_def)
qed

definition untime :: "string \<Rightarrow> int option" where
  "untime v = (case v of [] \<Rightarrow> None | d # ds \<Rightarrow> if d = CHR ''-'' then Some (- int (undecimal 0 ds)) else Some (int (undecimal 0 v)))"

text \<open>The inverse of the printed session file.\<close>

fun unquote :: "string \<Rightarrow> string \<times> string" where
  "unquote [] = ([], [])"
| "unquote [c] = ([], [])"
| "unquote (x # y # v) =
     (if x = CHR 0x22 then ([], y # v) else (case unquote v of (s, r) \<Rightarrow> (char_of ((code x - 65) * 16 + (code y - 65)) # s, r)))"

lemma unquote_quoted: "unquote (tl (quoted s) @ r) = (s, r)"
proof (induction s)
  case Nil
  then show ?case by (cases r) (simp_all add: quoted_def)
next
  case (Cons c s)
  have "code (nibble (code c div 16)) \<noteq> code CHR 0x22" using code_less [of c] by simp (simp add: code_def)
  then have "nibble (code c div 16) \<noteq> CHR 0x22" by metis
  moreover have "char_of ((code (nibble (code c div 16)) - 65) * 16 + (code (nibble (code c mod 16)) - 65)) = c"
    using code_less [of c] by simp (simp add: code_def)
  ultimately show ?case using Cons by (simp add: quoted_def)
qed

fun unfields :: "string list \<Rightarrow> string \<Rightarrow> string list \<times> string" where
  "unfields [] v = ([], v)"
| "unfields (k # ks) v = (case unquote (drop (length k + 5) v) of (s, r) \<Rightarrow> case unfields ks r of (ss, t) \<Rightarrow> (s # ss, t))"

lemma unfields_step: "unfields (k # ks) (c # json_key k @ quoted s @ r) = (case unfields ks r of (ss, t) \<Rightarrow> (s # ss, t))"
proof -
  have "quoted s = CHR 0x22 # tl (quoted s)" by (simp add: quoted_def)
  then obtain q where q: "quoted s = CHR 0x22 # q" by blast
  have "drop (length k + 5) (c # json_key k @ (CHR 0x22 # q) @ r) = q @ r" by (simp add: json_key_def numeral_eq_Suc)
  then have "drop (length k + 5) (c # json_key k @ quoted s @ r) = tl (quoted s) @ r" by (simp only: q list.sel)
  then show ?thesis by (simp only: unfields.simps unquote_quoted prod.case)
qed

definition unrow :: "string \<Rightarrow> persisted_session \<times> string" where
  "unrow v =
     (case unfields [''token_hash'', ''id'', ''username'', ''profile'', ''credential_fingerprint'', ''browser'', ''ip'', ''created_at'',
        ''last_seen_at'', ''expires_at''] v of
        ([a, b, c, d, e, f, g, h, i, j], t) \<Rightarrow>
          (\<lparr>se_token_hash = a, se_id = b, se_username = c, se_profile = d, se_fingerprint = e, se_browser = f, se_ip = g, se_created_at = h,
            se_last_seen_at = i, se_expires_at = j\<rparr>, tl t)
      | _ \<Rightarrow> undefined)"

lemma unrow_row: "go_string env = quoted \<Longrightarrow> unrow (row_go_json env r @ t) = (r, t)"
  unfolding unrow_def row_go_json_def
  by (simp only: append_assoc append_Cons unfields_step) simp

fun unrows :: "nat \<Rightarrow> string \<Rightarrow> persisted_session list" where
  "unrows 0 v = []"
| "unrows (Suc n) v =
     (if hd v = CHR 0x7B then (case unrow v of (r, t) \<Rightarrow> r # unrows n (if hd t = CHR '','' then tl t else t)) else [])"

lemma hd_row: "hd (row_go_json env r @ t) = CHR 0x7B"
  by (simp add: row_go_json_def)

lemma unrows_rows:
  "go_string env = quoted \<Longrightarrow> length rows \<le> n \<Longrightarrow> unrows n (rows_go_json env rows @ CHR '']'' # t) = rows"
proof (induction env rows arbitrary: n rule: rows_go_json.induct)
  case (1 env)
  then show ?case by (cases n) simp_all
next
  case (2 env r)
  then show ?case by (cases n; cases "n - 1") (simp_all add: unrow_row hd_row)
next
  case (3 env r r' rs)
  then obtain m where "n = Suc m" "length (r' # rs) \<le> m" by (cases n) auto
  then show ?case using 3 by (simp add: unrow_row hd_row)
qed

lemma small_decimals: "decimal 0 = ''0''" "decimal (Suc 0) = ''1''"
  by code_simp+

definition unfile :: "string \<Rightarrow> json" where
  "unfile raw = (let v = drop 25 raw in session_file_json (unrows (length v) v))"

lemma rows_short: "length rows \<le> length (rows_go_json env rows)"
proof -
  have "length rows \<le> sum_list (map (\<lambda>r. length (row_go_json env r)) rows)" by (induction rows) (simp_all add: row_go_json_def)
  then show ?thesis by (simp add: rows_go_json_length)
qed

lemma unfile_file:
  assumes "go_string env = quoted"
  shows "unfile (session_file_go_json env \<lparr>sx_version = SESSION_FILE_VERSION, sx_sessions = Some rows\<rparr>) = session_file_json rows"
proof -
  let ?v = "rows_go_json env rows @ CHR '']'' # [CHR 0x7D]"
  have "drop 25 (session_file_go_json env \<lparr>sx_version = SESSION_FILE_VERSION, sx_sessions = Some rows\<rparr>) = ?v"
    by (simp add: session_file_go_json_def json_key_def int_decimal_def small_decimals limits)
  moreover have "unrows (length ?v) ?v = rows" by (rule unrows_rows [OF assms]) (use rows_short [of rows env] in simp)
  ultimately show ?thesis by (simp only: unfile_def Let_def)
qed

lemma untime_int: "untime (int_decimal t) = Some t"
proof -
  have "decimal (nat t) \<noteq> []" by (simp add: decimal.simps [of "nat t"])
  then obtain d ds where d: "decimal (nat t) = d # ds" "is_ascii_digit d"
    using decimal_digits [of "nat t"] by (cases "decimal (nat t)") auto
  then have "d \<noteq> CHR ''-''" by (auto simp: is_ascii_digit_def code_def)
  then show ?thesis
    using d(1) undecimal_decimal [of "nat t"] undecimal_decimal [of "nat (- t)"] by (auto simp: untime_def int_decimal_def)
qed

definition credential_json :: "int \<Rightarrow> bool \<Rightarrow> json" where
  "credential_json step disabled = JObj [(''username'', JStr ''owner''), (''salt'', JStr (replicate 32 CHR ''s'')),
     (''hash'', JStr (take 32 (''secret'' @ replicate 32 CHR ''p''))), (''totp_secret'', JStr ''SECRET''), (''last_step'', JInt step),
     (''totp_disabled'', JBool disabled)]"

definition owner_parser :: "bytes \<Rightarrow> json option" where
  "owner_parser raw =
     Some (if take 3 raw = [CHR 0x7B, CHR 0x22, CHR ''v''] then unfile raw
       else credential_json (if raw = [CHR 0x7B] then -5 else if CHR ''1'' \<in> set raw then 1 else 0) False)"

definition login_env :: auth_env where
  "login_env = \<lparr>ae_base32 = (\<lambda>_. Some (replicate 20 CHR ''s'')), ae_hmac_sha1 = (\<lambda>_ _. replicate 20 CHR 0x00),
     ae_sha256 = (\<lambda>b. replicate 32 (hd b)), ae_pbkdf2 = (\<lambda>p _. take 32 (p @ replicate 32 CHR ''p'')),
     ae_base64 = (\<lambda>b. b), ae_unbase64 = Some, ae_base64url = (\<lambda>b. b), ae_unbase64url = (\<lambda>v. Some (take 32 v)), ae_json_string = quoted,
     ae_json = owner_parser,
     ae_time = untime, ae_go_time = int_decimal, ae_is_ip = (\<lambda>_. False)\<rparr>"

lemma login_env_fields [simp]:
  "ae_base32 login_env = (\<lambda>_. Some (replicate 20 CHR ''s''))" "ae_hmac_sha1 login_env = (\<lambda>_ _. replicate 20 CHR 0x00)"
  "ae_sha256 login_env = (\<lambda>b. replicate 32 (hd b))" "ae_pbkdf2 login_env = (\<lambda>p _. take 32 (p @ replicate 32 CHR ''p''))"
  "ae_base64 login_env = (\<lambda>b. b)" "ae_unbase64 login_env = Some" "ae_base64url login_env = (\<lambda>b. b)" "ae_unbase64url login_env = (\<lambda>v. Some (take 32 v))"
  "ae_json_string login_env = quoted" "ae_time login_env = untime" "ae_go_time login_env = int_decimal" "ae_is_ip login_env = (\<lambda>_. False)"
  "ae_json login_env = owner_parser"
  by (simp_all add: login_env_def)

lemma login_go_string [simp]: "go_string login_env = quoted"
  by (rule ext) (simp add: go_string_def go_escape_plain quoted_plain)

definition owner_dir :: private_dir where
  "owner_dir = [''/auth'' \<mapsto> [CHR 0x7B]]"

definition plain_load :: load_io where
  "plain_load = \<lparr>lo_readable = (\<lambda>_. True), lo_users = None, lo_users_private = True, lo_save = (True, WriteOk)\<rparr>"

definition plain_io :: "char \<Rightarrow> auth_io" where
  "plain_io c = \<lparr>ai_rank = (\<lambda>_. 0), ai_cred_read = True, ai_cred_write = WriteOk, ai_save = (\<lambda>_. (True, WriteOk)),
     ai_random = [Some (replicate 43 c), Some (CHR ''i'' # replicate 42 c)], ai_backup_create = True, ai_backup_open = True,
     ai_backup_entry = (\<lambda>_. True), ai_backup_remove = (\<lambda>_. True), ai_backup_write = WriteOk, ai_stamp = (\<lambda>_. Some 0),
     ai_format = int_decimal\<rparr>"

definition owner :: "int \<Rightarrow> credentials" where
  "owner step = \<lparr>cr_username = ''owner'', cr_salt = replicate 32 CHR ''s'', cr_hash = take 32 (''secret'' @ replicate 32 CHR ''p''),
     cr_totp_secret = ''SECRET'', cr_last_step = step, cr_totp_disabled = False\<rparr>"

definition owner_account :: "int \<Rightarrow> auth_account" where
  "owner_account step = \<lparr>ac_credentials = owner step, ac_path = ''/auth'', ac_profile = []\<rparr>"

definition login_start :: auth_state where
  "login_start = fresh_state ''/auth'' [(''owner'', owner_account (-5))] [] 0 owner_dir None"

lemma credential_of_json: "is_i64 step \<Longrightarrow> credentials_of_json login_env (credential_json step False) = Some (owner step)"
  by (simp add: credentials_of_json_def credential_json_def object_wire_def wire_field_def json_string_def json_bool_def json_i64_def
      go_bytes_def keys_def owner_def)

lemma owner_valid: "credentials_valid login_env (owner step)"
  by (simp add: credentials_valid_def owner_def decode_totp_secret_def)

lemma parse_owner:
  assumes "raw = CHR 0x7B # rest" and "length raw \<le> 4096" and "take 2 rest \<noteq> [CHR 0x22, CHR ''v'']"
  shows "parse_credentials login_env raw = Ok (owner (if rest = [] then -5 else if CHR ''1'' \<in> set rest then 1 else 0))"
proof -
  have "take 3 raw \<noteq> [CHR 0x7B, CHR 0x22, CHR ''v'']" using assms(1,3) by simp
  then show ?thesis
    using assms(1,2) owner_valid credential_of_json
    by (simp add: parse_credentials_def require_json_object_def is_i64_def owner_parser_def)
qed

lemma login_start_loaded: "load_state login_env plain_load ''/auth'' 0 owner_dir None = Ok login_start"
  using parse_owner [of "[CHR 0x7B]" "[]"]
  by (simp add: load_state_def load_accounts_def read_credential_def read_private_def plain_load_def owner_dir_def suffix_path_def
      login_start_def owner_account_def Let_def limits) (simp add: owner_def)

lemma quoted_length [simp]: "length (quoted v) = 2 * length v + 2"
  by (induction v) (simp_all add: quoted_def)

definition owner_fp :: string where
  "owner_fp = replicate 32 CHR 0x7B"

lemma owner_fingerprint [simp]: "fingerprint login_env (owner step) = owner_fp"
  by (simp add: fingerprint_def fingerprint_input_def owner_fp_def)

lemma be_number_zeros: "be_number (replicate n CHR 0x00) = 0"
  by (induction n) (simp_all add: be_number_def code_def)

lemma six_zeros: "pad6 (decimal 0) = ''000000''"
  by (simp add: pad6_def small_decimals) (simp add: numeral_eq_Suc)

lemma constant_code: "totp_code login_env key step = ''000000''"
  using be_number_zeros [of 4] six_zeros by (simp add: totp_code_def code_def Let_def)

lemma code_accepted: "is_i64 (trunc_div t 30 - 1) \<Longrightarrow> match_code login_env (owner step) ''000000'' t = Some (trunc_div t 30 - 1)"
  by (simp add: match_code_def decode_totp_secret_def constant_code is_ascii_digit_def code_def)

definition owner_login :: "int \<Rightarrow> login_request" where
  "owner_login now = \<lparr>rq_username = ''owner'', rq_password = ''secret'', rq_code = ''000000'', rq_source = ''home'', rq_ip = ''unknown'',
     rq_browser = ''Firefox'', rq_now = now\<rparr>"

lemma owner_verified:
  assumes "is_i64 (trunc_div (unix_seconds now) 30 - 1)"
  shows "login_verify login_env KdfDone (owner_login now) (owner step) = Ok (trunc_div (unix_seconds now) 30 - 1)"
  using code_accepted [OF assms] by (simp add: login_verify_def owner_login_def) (simp add: owner_def)

definition owner_logs_in :: "char \<Rightarrow> int \<Rightarrow> auth_store \<Rightarrow> login_result \<times> auth_store" where
  "owner_logs_in c now = login login_env (plain_io c, plain_io c) (GateOpen, GateOpen) KdfDone (\<lambda>st. st) (owner_login now)"

definition owner_session :: "char \<Rightarrow> int \<Rightarrow> nat \<Rightarrow> login_session" where
  "owner_session c now cell = new_session login_env (owner_login now) [] owner_fp (CHR ''i'' # replicate 42 c) cell"

text \<open>A store with the one account, whose only login, if any, is \<open>old\<close>, and without recent attempts.\<close>

definition owner_store :: "int \<Rightarrow> bytes \<Rightarrow> bytes option \<Rightarrow> (string \<times> int list) list \<Rightarrow> sessions \<Rightarrow> auth_store" where
  "owner_store step file saved attempts m =
     \<lparr>au_state = \<lparr>as_path = ''/auth'', as_sessions_path = ''/auth.sessions'', as_accounts = [(''owner'', owner_account step)], as_sessions = m,
        as_attempts = attempts, as_security_attempts = [], as_storage_failed = False,
        as_dir = (\<lambda>p. if p = ''/auth'' then Some file else if p = ''/auth.sessions'' then saved else None), as_backups = None,
        as_cancelled = {}, as_next_cell = length m\<rparr>,
      au_closed = False, au_registry_closed = False, au_registered = cells m\<rparr>"

lemma owner_store_fields [simp]:
  "as_sessions (au_state (owner_store step file saved attempts m)) = m"
  "as_accounts (au_state (owner_store step file saved attempts m)) = [(''owner'', owner_account step)]"
  "as_next_cell (au_state (owner_store step file saved attempts m)) = length m"
  "as_cancelled (au_state (owner_store step file saved attempts m)) = {}"
  "\<not> as_storage_failed (au_state (owner_store step file saved attempts m))"
  "as_dir (au_state (owner_store step file saved attempts m)) ''/auth'' = Some file"
  "as_dir (au_state (owner_store step file saved attempts m)) ''/auth.sessions'' = saved"
  by (simp_all add: owner_store_def)

lemma owner_login_fields [simp]: "rq_username (owner_login now) = ''owner''" "rq_now (owner_login now) = now" "rq_code (owner_login now) = ''000000''"
  by (simp_all add: owner_login_def)

lemma opened_store: "auth_open login_start = owner_store (-5) [CHR 0x7B] None [] []"
  by (simp add: auth_open_def login_start_def fresh_state_def registry_sync_def owner_store_def owner_dir_def suffix_path_def
      cells_def fun_eq_iff Let_def)

lemma begin_result:
  assumes "filter (\<lambda>e. snd e \<noteq> [] \<and> within_minute now (last (snd e))) attempts = []"
  shows "auth_transact GateOpen (login_begin login_env (plain_io c) (owner_login now)) (owner_store step file saved attempts m) =
    (Ok (Ok (owner step, [], owner_fp)), owner_store step file saved [(''home'', [now])] m)"
  using assms
  by (simp add: auth_transact_def login_begin_def allow_attempt_def login_origin_def owner_login_def insert_key_def
      owner_account_def registry_sync_def owner_store_def Let_def)

lemma owner_written:
  "length (credentials_go_json login_env (owner 1)) \<le> 4096" "CHR ''1'' \<in> set (credentials_go_json login_env (owner 1))"
  by (simp_all add: credentials_go_json_def owner_def json_key_def int_decimal_def small_decimals)

lemma quoted_time_short: "length (int_decimal (nanos n)) \<le> 40" if "0 \<le> n" "n < 10 ^ 9"
proof -
  have "nat (nanos n) < 10 ^ Suc 39" using that by (simp add: nanos_def nat_less_iff)
  then show ?thesis using decimal_length [of "nat (nanos n)" 39] that by (simp add: int_decimal_def nanos_def)
qed

lemma issue_result:
  assumes "list_all (\<lambda>e. now < ls_expires (snd e)) m" and "length m < 8" and "map_of m (replicate 32 c) = None"
    and "list_all (\<lambda>e. ls_id (snd e) \<noteq> CHR ''i'' # replicate 42 c) m"
    and new: "new = m @ [(replicate 32 c, owner_session c now (length m))]"
    and "length (sessions_json login_env new) \<le> SESSION_FILE_LIMIT"
    and "case saved of None \<Rightarrow> True | Some raw \<Rightarrow> length raw \<le> SESSION_FILE_LIMIT"
  shows "login_issue login_env (plain_io c) (owner_login now) [] (au_state (owner_store step file saved attempts m)) =
    (Some \<lparr>lr_status = LSucceeded, lr_token = Some (replicate 43 c)\<rparr>,
     au_state (owner_store step file (Some (sessions_json login_env new)) attempts new))"
proof -
  let ?s = "au_state (owner_store step file saved attempts m)"
  have pruned: "prune login_env (plain_io c) now ?s = (Ok (), ?s)"
    using assms(1) by (auto simp: prune_def owner_store_def list_ex_iff list_all_iff)
  have "user_count ''owner'' m \<le> length m" by (simp add: user_count_def)
  then have room: "make_room (plain_io c) ''owner'' m = m" using assms(2) by (simp add: make_room_def limits)
  have ids: "\<not> list_ex (\<lambda>e. ls_id (snd e) = CHR ''i'' # replicate 42 c) m" using assms(4) by (auto simp: list_ex_iff list_all_iff)
  have hash: "token_hash login_env (replicate 43 c) = replicate 32 c" by (simp add: token_hash_def)
  have ins: "insert_key (replicate 32 c) x m = m @ [(replicate 32 c, x)]" for x
    by (simp add: insert_key_def map_of_None_remove_key [OF assms(3)])
  have gone: "filter (\<lambda>e. map_of new (fst e) = None) m = []"
    unfolding new filter_empty_conv by (auto simp: map_add_def split: option.splits dest: weak_map_of_SomeI)
  have save: "save_sessions login_env (plain_io c) 1 new ?s = (True, au_state (owner_store step file (Some (sessions_json login_env new)) attempts m))"
    using assms(6,7)
    by (auto simp: save_sessions_def write_sessions_def owner_store_def plain_io_def read_private_def write_atomic_def fun_eq_iff Let_def
        split: option.splits)
  have draw: "draw_fresh login_env (\<lambda>t. map_of m (token_hash login_env t) \<noteq> None) (ai_random (plain_io c)) =
      Some (replicate 43 c, [Some (CHR ''i'' # replicate 42 c)])"
    "draw_fresh login_env (\<lambda>i. list_ex (\<lambda>e. ls_id (snd e) = i) m) [Some (CHR ''i'' # replicate 42 c)] = Some (CHR ''i'' # replicate 42 c, [])"
    using ids assms(3) by (simp_all add: plain_io_def hash)
  let ?s' = "au_state (owner_store step file (Some (sessions_json login_env new)) attempts m)"
  have installed: "install_sessions new (?s'\<lparr>as_next_cell := Suc (length m)\<rparr>) = au_state (owner_store step file (Some (sessions_json login_env new)) attempts new)"
    using gone by (simp add: install_sessions_def owner_store_def cancel_cells_def cells_def new)
  have "ac_credentials (owner_account step) = owner step" by (simp add: owner_account_def)
  then show ?thesis
    using pruned room hash ins save installed draw new
    by (simp add: login_issue_def Let_def owner_session_def)
qed

text \<open>The first login, a minute after the epoch, and the second, a minute later.\<close>

definition first_login :: "string \<times> login_session" where
  "first_login = (replicate 32 CHR ''a'', owner_session CHR ''a'' (nanos 60) 0)"

definition second_login :: "string \<times> login_session" where
  "second_login = (replicate 32 CHR ''b'', owner_session CHR ''b'' (nanos 120) 1)"

definition store_1 :: auth_store where
  "store_1 = owner_store 1 (credentials_go_json login_env (owner 1)) (Some (sessions_json login_env [first_login])) [(''home'', [nanos 60])] [first_login]"

lemma persisted_short:
  assumes "snd e = owner_session c (nanos n) cell" and "length (fst e) = 32" and "0 \<le> n" "n < 1000"
  shows "length (row_go_json login_env (session_persisted login_env (fst e) (snd e))) \<le> 1000"
proof -
  have "length (int_decimal (nanos n)) \<le> 40" "length (int_decimal (nanos n + nanos LOGIN_LIFETIME_SECONDS)) \<le> 40"
    using quoted_time_short [of n] quoted_time_short [of "n + LOGIN_LIFETIME_SECONDS"] assms(3,4) by (simp_all add: nanos_def limits distrib_right)
  then show ?thesis
    using assms(1,2)
    by (simp add: row_go_json_def session_persisted_def owner_session_def new_session_def json_key_def owner_fp_def login_browser_def
        login_ip_def owner_login_def login_valid_text_def)
qed

lemma logins_short:
  "length (sessions_json login_env [first_login]) \<le> SESSION_FILE_LIMIT" "length (sessions_json login_env [first_login, second_login]) \<le> SESSION_FILE_LIMIT"
proof -
  have "length (row_go_json login_env (session_persisted login_env (fst e) (snd e))) \<le> 1000" if "e \<in> {first_login, second_login}" for e
    using that persisted_short [of first_login "CHR ''a''" 60 0] persisted_short [of second_login "CHR ''b''" 120 1]
    by (auto simp: first_login_def second_login_def)
  then have "length (row_go_json login_env (session_persisted login_env (fst first_login) (snd first_login))) \<le> 1000"
    "length (row_go_json login_env (session_persisted login_env (fst second_login) (snd second_login))) \<le> 1000" by blast+
  then show "length (sessions_json login_env [first_login]) \<le> SESSION_FILE_LIMIT"
    "length (sessions_json login_env [first_login, second_login]) \<le> SESSION_FILE_LIMIT"
    by (simp_all add: sessions_json_def session_rows_def session_file_go_json_def json_key_def int_decimal_def small_decimals limits)
qed

lemma commit_result:
  assumes "read_credential login_env True (as_dir (au_state (owner_store step file saved attempts m))) ''/auth'' = Some (owner step)"
    and "step < target" "0 \<le> target"
    and "login_issue login_env (plain_io c) (owner_login now) [] (au_state (owner_store target (credentials_go_json login_env (owner target)) saved attempts m)) =
      (Some r, au_state (owner_store target (credentials_go_json login_env (owner target)) saved' attempts new))"
  shows "auth_transact GateOpen (login_commit login_env (plain_io c) (owner_login now) [] owner_fp target) (owner_store step file saved attempts m) =
    (Ok r, owner_store target (credentials_go_json login_env (owner target)) saved' attempts new)"
proof -
  let ?s = "au_state (owner_store step file saved attempts m)" and ?file = "credentials_go_json login_env (owner target)"
  have up: "owner step\<lparr>cr_last_step := target\<rparr> = owner target" by (simp add: owner_def)
  have on: "\<not> cr_totp_disabled (owner step)" "cr_last_step (owner step) = step" by (simp_all add: owner_def)
  have acc: "owner_account step\<lparr>ac_credentials := owner target\<rparr> = owner_account target" "ac_path (owner_account step) = ''/auth''"
    "ac_profile (owner_account step) = []" "ac_credentials (owner_account step) = owner step" by (simp_all add: owner_account_def)
  have wr: "write_credential login_env (plain_io c) (as_dir ?s) ''/auth'' (owner step) (owner target) = (True, (as_dir ?s)(''/auth'' \<mapsto> ?file))"
    using assms(1) by (simp add: write_credential_def plain_io_def changed_outside_def write_atomic_def)
  have "?s\<lparr>as_dir := (as_dir ?s)(''/auth'' \<mapsto> ?file), as_accounts := insert_key ''owner'' (owner_account target) (as_accounts ?s)\<rparr> =
      au_state (owner_store target ?file saved attempts m)"
    by (simp add: owner_store_def insert_key_def remove_key_def fun_eq_iff)
  then have "login_commit login_env (plain_io c) (owner_login now) [] owner_fp target ?s = (Some r, au_state (owner_store target ?file saved' attempts new))"
    using wr assms(2-4) up on acc by (simp add: login_commit_def Let_def)
  then show ?thesis by (simp add: auth_transact_def registry_sync_def owner_store_def Let_def)
qed

definition store_0 :: auth_store where
  "store_0 = owner_store (-5) [CHR 0x7B] None [(''home'', [nanos 60])] []"

definition store_2 :: auth_store where
  "store_2 = owner_store 3 (credentials_go_json login_env (owner 3)) (Some (sessions_json login_env [first_login, second_login]))
     [(''home'', [nanos 120])] [first_login, second_login]"

definition store_1b :: auth_store where
  "store_1b = owner_store 1 (credentials_go_json login_env (owner 1)) (Some (sessions_json login_env [first_login])) [(''home'', [nanos 120])] [first_login]"

lemma first_begin: "auth_transact GateOpen (login_begin login_env (plain_io CHR ''a'') (owner_login (nanos 60))) (auth_open login_start) =
    (Ok (Ok (owner (-5), [], owner_fp)), store_0)"
  unfolding opened_store store_0_def by (rule begin_result) simp

lemma second_begin: "auth_transact GateOpen (login_begin login_env (plain_io CHR ''b'') (owner_login (nanos 120))) store_1 =
    (Ok (Ok (owner 1, [], owner_fp)), store_1b)"
  unfolding store_1_def store_1b_def by (rule begin_result) (simp add: within_minute_def nanos_def)

lemma first_commit: "auth_transact GateOpen (login_commit login_env (plain_io CHR ''a'') (owner_login (nanos 60)) [] owner_fp 1) store_0 =
    (Ok \<lparr>lr_status = LSucceeded, lr_token = Some (replicate 43 CHR ''a'')\<rparr>, store_1)"
  unfolding store_0_def store_1_def
proof (rule commit_result)
  show "read_credential login_env True (as_dir (au_state (owner_store (-5) [CHR 0x7B] None [(''home'', [nanos 60])] []))) ''/auth'' = Some (owner (-5))"
    using parse_owner [of "[CHR 0x7B]" "[]"] by (simp add: read_credential_def read_private_def limits)
  show "login_issue login_env (plain_io CHR ''a'') (owner_login (nanos 60)) []
      (au_state (owner_store 1 (credentials_go_json login_env (owner 1)) None [(''home'', [nanos 60])] [])) =
    (Some \<lparr>lr_status = LSucceeded, lr_token = Some (replicate 43 CHR ''a'')\<rparr>,
     au_state (owner_store 1 (credentials_go_json login_env (owner 1)) (Some (sessions_json login_env [first_login])) [(''home'', [nanos 60])] [first_login]))"
    by (rule issue_result) (use logins_short(1) in \<open>simp_all add: first_login_def\<close>)
qed simp_all

lemma read_written: "read_credential login_env True (as_dir (au_state (owner_store 1 (credentials_go_json login_env (owner 1)) saved attempts m))) ''/auth'' =
    Some (owner 1)"
proof -
  obtain rest where raw: "credentials_go_json login_env (owner 1) = CHR 0x7B # rest" and two: "take 2 rest \<noteq> [CHR 0x22, CHR ''v'']"
    by (simp add: credentials_go_json_def json_key_def)
  then have "rest \<noteq> []" "CHR ''1'' \<in> set rest" using owner_written(2) by auto
  then show ?thesis using parse_owner [OF raw owner_written(1) two] owner_written(1) by (simp add: read_credential_def read_private_def limits)
qed

lemma second_commit: "auth_transact GateOpen (login_commit login_env (plain_io CHR ''b'') (owner_login (nanos 120)) [] owner_fp 3) store_1b =
    (Ok \<lparr>lr_status = LSucceeded, lr_token = Some (replicate 43 CHR ''b'')\<rparr>, store_2)"
  unfolding store_1b_def store_2_def
proof (rule commit_result [OF read_written])
  show "login_issue login_env (plain_io CHR ''b'') (owner_login (nanos 120)) []
      (au_state (owner_store 3 (credentials_go_json login_env (owner 3)) (Some (sessions_json login_env [first_login])) [(''home'', [nanos 120])] [first_login])) =
    (Some \<lparr>lr_status = LSucceeded, lr_token = Some (replicate 43 CHR ''b'')\<rparr>,
     au_state (owner_store 3 (credentials_go_json login_env (owner 3)) (Some (sessions_json login_env [first_login, second_login]))
       [(''home'', [nanos 120])] [first_login, second_login]))"
    by (rule issue_result)
      (use logins_short in \<open>simp_all add: first_login_def second_login_def owner_session_def new_session_def nanos_def limits\<close>)
qed simp_all

lemmas steps_at = trunc_div_def unix_seconds_def nanos_def is_i64_def

lemma first_logs_in: "owner_logs_in CHR ''a'' (nanos 60) (auth_open login_start) =
    (\<lparr>lr_status = LSucceeded, lr_token = Some (replicate 43 CHR ''a'')\<rparr>, store_1)"
proof -
  have "login_verify login_env KdfDone (owner_login (nanos 60)) (owner (-5)) = Ok 1"
    using owner_verified [of "nanos 60"] by (simp add: steps_at)
  then show ?thesis using first_begin first_commit by (simp add: owner_logs_in_def login_def Let_def) (simp add: owner_login_def)
qed

lemma second_logs_in: "owner_logs_in CHR ''b'' (nanos 120) store_1 =
    (\<lparr>lr_status = LSucceeded, lr_token = Some (replicate 43 CHR ''b'')\<rparr>, store_2)"
proof -
  have "login_verify login_env KdfDone (owner_login (nanos 120)) (owner 1) = Ok 3"
    using owner_verified [of "nanos 120"] by (simp add: steps_at)
  then show ?thesis using second_begin second_commit by (simp add: owner_logs_in_def login_def Let_def) (simp add: owner_login_def)
qed

lemma store_1_reached: "(auth_step login_env)\<^sup>*\<^sup>* (auth_open login_start) store_1"
proof -
  have "auth_step login_env (auth_open login_start) store_0"
    using begin_login [of login_env "auth_open login_start" GateOpen "plain_io CHR ''a''" "owner_login (nanos 60)"] first_begin by simp
  moreover have "auth_step login_env store_0 store_1"
    using commit_login [of login_env "plain_io CHR ''a''" store_0 GateOpen "owner_login (nanos 60)" "[]" owner_fp 1] first_commit
    by (simp add: unrepeated_def store_0_def plain_io_def)
  ultimately show ?thesis by (meson converse_rtranclp_into_rtranclp r_into_rtranclp)
qed

section \<open>The properties at these inputs\<close>

theorem auth_store_invariant_witness:
  "let s = au_state store_1; m = as_sessions s in
    distinct (map (\<lambda>e. ls_id (snd e)) m) \<and> (\<forall>u. user_count u m \<le> MAX_SESSIONS_PER_ACCOUNT) \<and> list_all (\<lambda>e. session_current login_env (as_accounts s) (snd e)) m"
  using auth_store_invariant [OF login_start_loaded store_1_reached] unfolding Let_def by (simp add: store_1_def)

theorem login_requires_factors_witness:
  "\<exists>token. lr_token (fst (owner_logs_in CHR ''a'' (nanos 60) (auth_open login_start))) = Some token \<and>
     login_stored login_env (plain_io CHR ''a'') (owner_login (nanos 60)) [] owner_fp token [] (au_state store_1)"
  using login_requires_factors [OF login_start_loaded rtranclp.rtrancl_refl first_logs_in [unfolded owner_logs_in_def]]
  by (auto simp: first_logs_in first_begin Let_def store_0_def owner_account_def)

theorem login_code_used_once_witness:
  "\<exists>step1 step2. match_code login_env (owner (-5)) ''000000'' 60 = Some step1 \<and> match_code login_env (owner 1) ''000000'' 120 = Some step2 \<and>
     step1 < step2"
proof -
  have on: "\<not> cr_totp_disabled (ac_credentials (owner_account n))" for n by (simp add: owner_account_def owner_def)
  have seconds: "unix_seconds (nanos n) = n" for n by (simp add: unix_seconds_def nanos_def)
  have mid: "map_of (as_accounts (au_state store_0)) ''owner'' = Some (owner_account (-5))" "map_of (as_accounts (au_state store_1b)) ''owner'' = Some (owner_account 1)"
    by (simp_all add: store_0_def store_1b_def)
  show ?thesis
    using login_code_used_once [OF login_start_loaded rtranclp.rtrancl_refl first_logs_in [unfolded owner_logs_in_def] _ store_1_reached
        rtranclp.rtrancl_refl _ second_logs_in [unfolded owner_logs_in_def], where ?a1.0 = "owner_account (-5)" and ?a2.0 = "owner_account 1"]
    by (simp add: first_begin second_begin mid on seconds) (simp add: opened_store store_1_def owner_account_def)
qed

theorem revoke_exact_witness:
  "case revoke login_env (plain_io CHR ''b'') GateOpen (replicate 43 CHR ''a'') (replicate 43 CHR ''x'') (nanos 61) store_1 of
      (Inl ASessionNotFound, st') \<Rightarrow> as_sessions (au_state st') = unexpired (nanos 61) store_1
    | (Inr own, st') \<Rightarrow> as_dir (au_state st') (as_sessions_path (au_state st')) = Some (sessions_json login_env (as_sessions (au_state st')))
    | (_, st') \<Rightarrow> True"
  using revoke_exact [OF login_start_loaded store_1_reached, where io = "plain_io CHR ''b''" and g = GateOpen and token = "replicate 43 CHR ''a''"
      and ident = "replicate 43 CHR ''x''" and now = "nanos 61"]
  by (auto split: prod.splits sum.splits auth_store_error.splits)

definition owner_disables :: security_request where
  "owner_disables = \<lparr>sq_token = replicate 43 CHR ''a'', sq_password = ''secret'', sq_code = ''000000'', sq_enabled = False, sq_now = nanos 120\<rparr>"

definition owner_io :: auth_io where
  "owner_io = plain_io CHR ''b''"

lemma owner_disables_fields [simp]: "token_hash login_env (sq_token owner_disables) = replicate 32 CHR ''a''" "sq_now owner_disables = nanos 120"
  "\<not> sq_enabled owner_disables" "sq_code owner_disables = ''000000''" "sq_password owner_disables = ''secret''"
  by (simp_all add: owner_disables_def token_hash_def)

lemma first_login_fields [simp]: "fst first_login = replicate 32 CHR ''a''" "ls_username (snd first_login) = ''owner''" "ls_profile (snd first_login) = []"
  "ls_fingerprint (snd first_login) = owner_fp" "ls_expires (snd first_login) = nanos 60 + nanos LOGIN_LIFETIME_SECONDS" "ls_cancel (snd first_login) = 0"
  by (simp_all add: first_login_def owner_session_def new_session_def)

lemma first_login_found [simp]: "map_of [first_login] (replicate 32 CHR ''a'') = Some (snd first_login)"
  by (cases first_login) (use first_login_fields(1) in simp)

lemma owner_account_fields [simp]: "ac_credentials (owner_account n) = owner n" "ac_path (owner_account n) = ''/auth''" "ac_profile (owner_account n) = []"
  by (simp_all add: owner_account_def)

lemma owner_fields [simp]: "cr_last_step (owner n) = n" "\<not> cr_totp_disabled (owner n)"
  by (simp_all add: owner_def)

lemma nothing_expired: "as_sessions s = [first_login] \<Longrightarrow> \<not> as_storage_failed s \<Longrightarrow> prune login_env io (nanos 120) s = (Ok (), s)"
  by (simp add: prune_def nanos_def limits)

text \<open>The store of the change: the first login, an account at step 1, no backups yet.\<close>

definition state_1 :: auth_state where
  "state_1 = (au_state store_1)\<lparr>as_security_attempts := [(''owner'' @ [CHR 0x00], [nanos 120])]\<rparr>"

lemma state_1_fields [simp]: "as_sessions state_1 = [first_login]" "\<not> as_storage_failed state_1" "as_backups state_1 = None"
  "as_accounts state_1 = [(''owner'', owner_account 1)]" "as_sessions_path state_1 = ''/auth.sessions''"
  "as_dir state_1 ''/auth.sessions'' = Some (sessions_json login_env [first_login])" "as_dir state_1 ''/auth'' = Some (credentials_go_json login_env (owner 1))"
  "read_credential login_env True (as_dir state_1) ''/auth'' = Some (owner 1)"
  using read_written by (simp_all add: state_1_def store_1_def owner_store_def)

lemma disable_begins: "security_begin login_env owner_io owner_disables (au_state store_1) = (Some (Ok (''owner'', [], owner 1, owner_fp)), state_1)"
proof -
  have "as_sessions (au_state store_1) = [first_login]" "\<not> as_storage_failed (au_state store_1)" "as_accounts (au_state store_1) = [(''owner'', owner_account 1)]"
    "as_security_attempts (au_state store_1) = []" by (simp_all add: store_1_def) (simp add: owner_store_def)
  then show ?thesis
    using nothing_expired [of "au_state store_1" owner_io] by (simp add: security_begin_def allow_attempt_def insert_key_def state_1_def Let_def)
qed

lemma disable_applies: "fst (security_apply login_env owner_io owner_disables ''owner'' [] 3 (snd first_login) (owner_account 1) state_1) = Some SOk"
proof -
  let ?c = "owner 1\<lparr>cr_totp_disabled := True, cr_last_step := 3\<rparr>"
  have fp: "fingerprint login_env ?c = owner_fp" by (simp add: fingerprint_def fingerprint_input_def owner_fp_def)
  obtain b where b: "backup_credentials login_env owner_io ''/auth'' ''owner'' (owner 1) (nanos 120) state_1 = (True, state_1\<lparr>as_backups := b\<rparr>)"
    using owner_written(1)
    by (simp add: backup_credentials_def owner_io_def plain_io_def changed_outside_def read_private_def backup_room_def iterate_def limits Let_def)
  have same: "[(replicate 32 CHR ''a'', (snd first_login)\<lparr>ls_fingerprint := owner_fp\<rparr>)] = [first_login]"
    by (simp add: first_login_def owner_session_def new_session_def)
  have wr: "write_credential login_env owner_io (as_dir state_1) ''/auth'' (owner 1) ?c = (True, (as_dir state_1)(''/auth'' \<mapsto> credentials_go_json login_env ?c))"
    by (simp add: write_credential_def owner_io_def plain_io_def changed_outside_def write_atomic_def)
  have saved: "save_sessions login_env owner_io (Suc 0) [first_login] s =
      (True, s\<lparr>as_dir := (as_dir s)(''/auth.sessions'' \<mapsto> sessions_json login_env [first_login])\<rparr>)"
    if "as_sessions_path s = ''/auth.sessions''" "as_dir s ''/auth.sessions'' = Some (sessions_json login_env [first_login])" for s
    using that logins_short(1)
    by (simp add: save_sessions_def write_sessions_def owner_io_def plain_io_def read_private_def write_atomic_def Let_def)
  show ?thesis
    using b wr fp same by (simp add: security_apply_def set_session_def saved Let_def)
qed

lemma disable_succeeds:
  "fst (set_totp_enabled login_env (owner_io, owner_io) (GateOpen, GateOpen) KdfDone 0 (\<lambda>st. st) owner_disables store_1) = SOk"
proof -
  have closed: "\<not> au_closed store_1" "\<not> au_registry_closed store_1" by (simp_all add: store_1_def owner_store_def)
  have verified: "security_verify login_env KdfDone owner_disables (owner 1) = Ok 3"
    using code_accepted [of 120 1] by (simp add: security_verify_def steps_at owner_def)
  let ?commit = "security_commit login_env owner_io 0 owner_disables ''owner'' [] owner_fp 3 state_1"
  have "fst ?commit = Some SOk"
    using disable_applies nothing_expired [of state_1 owner_io]
    by (simp add: security_commit_def nanos_def Let_def)
  then obtain s where "?commit = (Some SOk, s)" by (metis prod.collapse)
  then show ?thesis
    using closed verified disable_begins
    by (simp add: set_totp_enabled_def auth_transact_def registry_sync_def Let_def)
qed

theorem settings_change_isolates_witness:
  "\<exists>st'. set_totp_enabled login_env (owner_io, owner_io) (GateOpen, GateOpen) KdfDone 0 (\<lambda>st. st) owner_disables store_1 = (SOk, st') \<and>
     (\<exists>raw. settings_changed login_env (replicate 32 CHR ''a'') False (unexpired (nanos 120)
       (snd (auth_transact GateOpen (security_begin login_env owner_io owner_disables) store_1))) (owner_account 1) raw (au_state st'))"
proof -
  obtain st' where st': "set_totp_enabled login_env (owner_io, owner_io) (GateOpen, GateOpen) KdfDone 0 (\<lambda>st. st) owner_disables store_1 = (SOk, st')"
    using disable_succeeds by (metis prod.collapse)
  let ?mid = "snd (auth_transact GateOpen (security_begin login_env owner_io owner_disables) store_1)"
  have mid: "as_sessions (au_state ?mid) = [first_login]" "as_accounts (au_state ?mid) = [(''owner'', owner_account 1)]"
    using disable_begins by (simp_all add: auth_transact_def registry_sync_def Let_def store_1_def owner_store_def)
  then have look: "map_of (unexpired (nanos 120) ?mid) (replicate 32 CHR ''a'') = Some (snd first_login)"
    by (simp add: unexpired_def nanos_def limits)
  have now: "max (sq_now owner_disables) 0 = nanos 120" by (simp add: nanos_def)
  show ?thesis
    using settings_change_isolates [OF login_start_loaded store_1_reached rtranclp.rtrancl_refl st'] st'
    unfolding Let_def now fst_conv snd_conv owner_disables_fields(1) look by (auto simp: mid)
qed

section \<open>The restart\<close>

lemma first_login_read_back: "reads_back login_env [first_login]"
proof -
  have "take 3 (session_file_go_json login_env f) = [CHR 0x7B, CHR 0x22, CHR ''v'']" for f
    by (simp add: session_file_go_json_def json_key_def)
  then show ?thesis by (simp add: reads_back_def times_kept_def sessions_json_def owner_parser_def unfile_file untime_int)
qed

lemma first_login_storable: "storable login_env (nanos 100) first_login"
proof -
  have "valid_session_text ''Firefox'' 80" by (simp add: valid_session_text_def code_def)
  then show ?thesis
    by (simp add: storable_def good_row_def row_shape_def session_persisted_def first_login_def owner_session_def new_session_def untime_int
        login_browser_def login_valid_text_def valid_session_text_def login_ip_def owner_login_def nanos_def limits ZERO_TIME_def)
qed

lemma first_login_survives:
  "\<exists>s'. load_state login_env plain_load ''/auth'' (nanos 100) (as_dir (au_state store_1)) None = Ok s' \<and>
     map_option restored (map_of (as_sessions s') (replicate 32 CHR ''a'')) = Some (restored (snd first_login))"
proof -
  let ?s = "au_state store_1"
  have s: "as_sessions ?s = [first_login]" "\<not> as_storage_failed ?s" "as_accounts ?s = [(''owner'', owner_account 1)]"
    "as_dir ?s ''/auth.sessions'' = Some (sessions_json login_env [first_login])" by (simp_all add: store_1_def)
  have acc: "load_accounts login_env plain_load (as_dir ?s) ''/auth'' = Ok [(''owner'', owner_account 1)]"
    using read_written by (simp add: load_accounts_def plain_load_def store_1_def owner_account_def) (simp add: owner_def)
  have same: "same_accounts login_env (as_accounts ?s) [(''owner'', owner_account 1)]" by (simp add: same_accounts_def s(3))
  have live: "nanos 100 < ls_expires (snd first_login)" by (simp add: nanos_def limits)
  have "\<exists>s'. load_state login_env plain_load ''/auth'' (nanos 100) (as_dir ?s) None = Ok s' \<and>
    (\<forall>k. map_option restored (map_of (as_sessions s') k) =
      (case map_of (as_sessions ?s) k of None \<Rightarrow> None | Some x \<Rightarrow> if nanos 100 < ls_expires x then Some (restored x) else None))"
    by (rule logins_survive_restart [OF _ login_start_loaded store_1_reached _ _ _ _ acc same])
      (use s logins_short(1) first_login_read_back first_login_storable in \<open>simp_all add: suffix_path_def plain_load_def\<close>)
  then obtain s' where s': "load_state login_env plain_load ''/auth'' (nanos 100) (as_dir ?s) None = Ok s'"
    and all: "\<forall>k. map_option restored (map_of (as_sessions s') k) =
      (case map_of (as_sessions ?s) k of None \<Rightarrow> None | Some x \<Rightarrow> if nanos 100 < ls_expires x then Some (restored x) else None)" by blast
  show ?thesis using s' live s(1) first_login_found spec [OF all, of "replicate 32 CHR ''a''"] by simp
qed

end
