(* ===== verification/File_Stage.thy ===== *)
theory File_Stage
  imports Upload_Contract "HOL-Library.Word"
begin

text \<open>
  The staging of uploads at the Home, \<open>hmux-home/src/filestage.rs\<close>: a private spool directory with one
  directory per upload, swept and filled under one lock. The spool is part of the state, a list of
  entries in the order the system lists them; the outcome of every system call, of every check of the
  deadline and of every attempt at the lock is an argument. The lock is held from \<open>begin\<close> until the
  stage is dropped, so nothing else changes the spool in between.
\<close>

unbundle bit_operations_syntax

section \<open>Limits and errors\<close>

definition FILE_MAX :: int where "FILE_MAX = 33554432"
definition REQUEST_MAX :: int where "REQUEST_MAX = 134217728"
definition SPOOL_MAX :: int where "SPOOL_MAX = 536870912"
definition MANIFEST_RESERVATION :: int where "MANIFEST_RESERVATION = 65537"
definition MAX_STAGES :: nat where "MAX_STAGES = 100"
definition MAX_SCAN :: nat where "MAX_SCAN = 1024"
definition CHUNK_MAX :: nat where "CHUNK_MAX = 262144"
definition WEB_TTL :: int where "WEB_TTL = 10800"
definition INCOMING_TTL :: int where "INCOMING_TTL = 600"

lemmas stage_limits [limits] = FILE_MAX_def REQUEST_MAX_def SPOOL_MAX_def MANIFEST_RESERVATION_def MAX_STAGES_def MAX_SCAN_def
  CHUNK_MAX_def WEB_TTL_def INCOMING_TTL_def

datatype stage_error = FRoot | FHeader | FLock | FQuota | FUnsafe | FSize | FState | FIo | FTime | FCancelled

datatype work = Going | WorkCancelled | WorkLate

definition check_work :: "work \<Rightarrow> (stage_error, unit) result" where
  "check_work w = (case w of Going \<Rightarrow> Ok () | WorkCancelled \<Rightarrow> Err FCancelled | WorkLate \<Rightarrow> Err FTime)"

section \<open>The spool\<close>

record spool_file =
  sg_data :: bytes
  sg_private :: bool \<comment> \<open>a regular file of this user with one link, closed to others\<close>

record spool_dir =
  sd_files :: "(string \<times> spool_file) list"
  sd_modified :: "int option" \<comment> \<open>in seconds, if not before the epoch\<close>

datatype spool_entry = Staged spool_dir | Other \<comment> \<open>anything that is not a private directory of this user\<close>

type_synonym spool = "(string \<times> spool_entry) list"

record spool_io =
  sv_utf8 :: "string \<Rightarrow> bool" \<comment> \<open>whether a name is UTF-8\<close>
  sv_scan :: "string \<Rightarrow> work" \<comment> \<open>the check before an entry is read\<close>
  sv_delete :: "string \<Rightarrow> work" \<comment> \<open>the check before an expired entry is removed\<close>
  sv_unlink :: "string \<Rightarrow> string \<Rightarrow> bool"
  sv_rmdir :: "string \<Rightarrow> bool"

definition valid_hex :: "string \<Rightarrow> nat \<Rightarrow> bool" where
  "valid_hex v n \<longleftrightarrow> length v = n \<and> list_all is_lower_hex v"

definition stage_extension :: "string \<Rightarrow> bool" where
  "stage_extension e \<longleftrightarrow> length e \<le> 16 \<and> list_all (\<lambda>b. is_ascii_lowercase b \<or> is_ascii_digit b) e"

definition validate_file :: "nat \<Rightarrow> file_header \<Rightarrow> bool" where
  "validate_file index f \<longleftrightarrow> fh_index f = index \<and> 1 \<le> fh_size f \<and> fh_size f \<le> FILE_MAX \<and> stage_extension (fh_extension f)"

definition validate_header :: "upload_header \<Rightarrow> (stage_error, unit) result" where
  "validate_header h =
     (if uh_protocol_version h \<noteq> 1 \<or> \<not> valid_hex (uh_request_id h) 32 \<or> uh_file_count h = 0 \<or> 16 < uh_file_count h \<or>
         uh_file_count h \<noteq> length (uh_files h) \<or> uh_total_bytes h < 1 \<or> REQUEST_MAX < uh_total_bytes h then Err FHeader
      else case uh_session h of
        None \<Rightarrow> Err FHeader
      | Some s \<Rightarrow>
          if \<not> dollar_digits 31 (si_id s) \<or> si_created_at s < 1 then Err FHeader
          else if \<not> list_all (\<lambda>(index, f). validate_file index f) (enumerate 0 (uh_files h)) then Err FHeader
          else if checked_sum 0 (map fh_size (uh_files h)) \<noteq> Some (uh_total_bytes h) then Err FHeader
          else Ok ())"

section \<open>Names\<close>

definition strip_prefix :: "string \<Rightarrow> string \<Rightarrow> string option" where
  "strip_prefix p v = (if take (length p) v = p then Some (drop (length p) v) else None)"

fun split_once :: "char \<Rightarrow> string \<Rightarrow> (string \<times> string) option" where
  "split_once c [] = None"
| "split_once c (x # xs) =
     (if x = c then Some ([], xs) else map_option (\<lambda>(a, b). (x # a, b)) (split_once c xs))"

definition digits_value :: "string \<Rightarrow> int" where
  "digits_value ds = foldl (\<lambda>n d. n * 10 + (int (code d) - 48)) 0 ds"

definition incoming_name :: "string \<Rightarrow> bool" where
  "incoming_name v = (case strip_prefix ''.incoming-'' v of None \<Rightarrow> False | Some i \<Rightarrow> valid_hex i 32)"

definition committed_name :: "string \<Rightarrow> int option" where
  "committed_name v =
     (case split_once CHR ''-'' v of
        None \<Rightarrow> None
      | Some (expiry, i) \<Rightarrow>
          if length expiry \<noteq> 10 \<or> \<not> list_all is_ascii_digit expiry \<or> \<not> valid_hex i 32 then None
          else Some (digits_value expiry))"

definition staged_file_name :: "string \<Rightarrow> bool" where
  "staged_file_name v =
     (case (case split_once CHR ''.'' v of
              Some (stem, extension) \<Rightarrow> if extension = [] then None else Some (stem, extension)
            | None \<Rightarrow> Some (v, [])) of
        None \<Rightarrow> False
      | Some (stem, extension) \<Rightarrow>
          (case strip_prefix ''file-'' stem of
             None \<Rightarrow> False
           | Some digits \<Rightarrow> length digits = 4 \<and> list_all is_ascii_digit digits \<and> stage_extension extension))"

definition file_name :: "upload_header \<Rightarrow> nat \<Rightarrow> string" where
  "file_name h index =
     (let ext = fh_extension (uh_files h ! index) in
      if ext = [] then ''file-'' @ pad4 (decimal (index + 1)) else ''file-'' @ pad4 (decimal (index + 1)) @ ''.'' @ ext)"

section \<open>Reading the spool\<close>

fun list_names :: "spool_io \<Rightarrow> nat \<Rightarrow> string list \<Rightarrow> string list \<Rightarrow> (stage_error, string list) result" where
  "list_names io limit [] names = Ok names"
| "list_names io limit (name # rest) names =
     (if name = ''.'' \<or> name = ''..'' then list_names io limit rest names
      else if \<not> sv_utf8 io name then Err FUnsafe
      else if name = [] \<or> CHR ''/'' \<in> set name \<or> CHR 0x00 \<in> set name then Err FUnsafe
      else if limit < length (names @ [name]) then Err FQuota
      else list_names io limit rest (names @ [name]))"

definition entries :: "spool_io \<Rightarrow> nat \<Rightarrow> string list \<Rightarrow> (stage_error, string list) result" where
  "entries io limit listed = list_names io limit listed []"

definition open_dir :: "spool \<Rightarrow> string \<Rightarrow> (stage_error, spool_dir) result" where
  "open_dir s name = (case map_of s name of Some (Staged d) \<Rightarrow> Ok d | _ \<Rightarrow> Err FUnsafe)"

definition private_file :: "spool_file \<Rightarrow> (stage_error, nat) result" where
  "private_file f = (if sg_private f then Ok (length (sg_data f)) else Err FUnsafe)"

fun sum_files :: "spool_dir \<Rightarrow> string list \<Rightarrow> int \<Rightarrow> (stage_error, int) result" where
  "sum_files d [] bytes_used = Ok bytes_used"
| "sum_files d (name # names) bytes_used =
     (if name \<noteq> ''manifest.json'' \<and> \<not> staged_file_name name then Err FUnsafe
      else case map_of (sd_files d) name of
        None \<Rightarrow> Err FUnsafe
      | Some f \<Rightarrow>
          and_then (private_file f) (\<lambda>len.
            if \<not> is_i64 (int len) \<or> \<not> is_i64 (bytes_used + int len) then Err FQuota
            else if SPOOL_MAX < bytes_used + int len then Err FQuota
            else sum_files d names (bytes_used + int len)))"

definition safe_stage_files :: "spool_io \<Rightarrow> spool_dir \<Rightarrow> (stage_error, string list \<times> int) result" where
  "safe_stage_files io d =
     and_then (entries io 17 (keys (sd_files d))) (\<lambda>names. and_then (sum_files d names 0) (\<lambda>held. Ok (names, held)))"

definition modified_unix :: "spool_dir \<Rightarrow> (stage_error, int) result" where
  "modified_unix d =
     (case sd_modified d of None \<Rightarrow> Err FUnsafe | Some t \<Rightarrow> if is_i64 t then Ok t else Err FUnsafe)"

section \<open>Removing\<close>

fun unlink_files :: "spool_io \<Rightarrow> string \<Rightarrow> string list \<Rightarrow> spool_dir \<Rightarrow> (stage_error, unit) result \<times> spool_dir" where
  "unlink_files io name [] d = (Ok (), d)"
| "unlink_files io name (f # fs) d =
     (if sv_unlink io name f then unlink_files io name fs (d\<lparr>sd_files := remove_key f (sd_files d)\<rparr>) else (Err FIo, d))"

definition remove_stage :: "spool_io \<Rightarrow> string \<Rightarrow> spool \<Rightarrow> (stage_error, unit) result \<times> spool" where
  "remove_stage io name s =
     (if \<not> incoming_name name \<and> committed_name name = None then (Err FUnsafe, s)
      else case open_dir s name of
        Inl e \<Rightarrow> (if map_of s name = None then Ok () else Err e, s)
      | Inr d \<Rightarrow>
          (case safe_stage_files io d of
             Inl e \<Rightarrow> (Err e, s)
           | Inr (names, _) \<Rightarrow>
               (case unlink_files io name names d of
                  (Inl e, d) \<Rightarrow> (Err e, insert_key name (Staged d) s)
                | (Inr u, d) \<Rightarrow>
                    if sd_files d = [] \<and> sv_rmdir io name then (Ok (), remove_key name s)
                    else (Err FIo, insert_key name (Staged d) s))))"

section \<open>Sweeping\<close>

definition saturating_sub :: "int \<Rightarrow> int \<Rightarrow> int" where
  "saturating_sub a b = max (- (2 ^ 63)) (min (2 ^ 63 - 1) (a - b))"

definition stage_expired :: "int \<Rightarrow> string \<Rightarrow> spool_dir \<Rightarrow> (stage_error, bool) result" where
  "stage_expired now name d =
     (if incoming_name name then and_then (modified_unix d) (\<lambda>t. Ok (INCOMING_TTL \<le> saturating_sub now t))
      else case committed_name name of Some expires \<Rightarrow> Ok (expires \<le> now) | None \<Rightarrow> Err FUnsafe)"

text \<open>The whole spool is read before anything is deleted: the bytes and stages in use, and what has expired.\<close>

fun scan_spool ::
  "spool_io \<Rightarrow> int \<Rightarrow> spool \<Rightarrow> string list \<Rightarrow> int \<Rightarrow> nat \<Rightarrow> string list \<Rightarrow> (stage_error, int \<times> nat \<times> string list) result" where
  "scan_spool io now s [] used stages expired = Ok (used, stages, expired)"
| "scan_spool io now s (name # names) used stages expired =
     and_then (check_work (sv_scan io name)) (\<lambda>_.
       if name = ''.lock'' then scan_spool io now s names used stages expired
       else
         and_then (open_dir s name) (\<lambda>d.
         and_then (stage_expired now name d) (\<lambda>gone.
         and_then (safe_stage_files io d) (\<lambda>(_, held).
           if gone then scan_spool io now s names used stages (expired @ [name])
           else if \<not> is_i64 (used + held) then Err FQuota
           else if SPOOL_MAX < used + held then Err FQuota
           else scan_spool io now s names (used + held) (stages + 1) expired))))"

fun remove_expired :: "spool_io \<Rightarrow> string list \<Rightarrow> spool \<Rightarrow> (stage_error, unit) result \<times> spool" where
  "remove_expired io [] s = (Ok (), s)"
| "remove_expired io (name # names) s =
     (case check_work (sv_delete io name) of
        Inl e \<Rightarrow> (Err e, s)
      | Inr u \<Rightarrow>
          (case remove_stage io name s of
             (Inl e, s) \<Rightarrow> (Err e, s)
           | (Inr u, s) \<Rightarrow> remove_expired io names s))"

definition sweep_locked :: "spool_io \<Rightarrow> int \<Rightarrow> int \<Rightarrow> spool \<Rightarrow> (stage_error, unit) result \<times> spool" where
  "sweep_locked io now reserve s =
     (if now < 1 \<or> reserve < 0 \<or> SPOOL_MAX < reserve then (Err FTime, s)
      else case entries io MAX_SCAN (keys s) of
        Inl e \<Rightarrow> (Err e, s)
      | Inr names \<Rightarrow>
          (case scan_spool io now s names 0 0 [] of
             Inl e \<Rightarrow> (Err e, s)
           | Inr (used, stages, expired) \<Rightarrow>
               (case remove_expired io expired s of
                  (Inl e, s) \<Rightarrow> (Err e, s)
                | (Inr u, s) \<Rightarrow>
                    (if SPOOL_MAX - used < reserve \<or> (0 < reserve \<and> MAX_STAGES \<le> stages) then Err FQuota else Ok (), s))))"

section \<open>The root and its lock\<close>

record dir_meta =
  dm_dir :: bool
  dm_uid :: nat
  dm_mode :: "32 word"

text \<open>Every component is opened, or created and then opened, without following links: \<open>opened\<close> is what it turns out to be.\<close>

definition root_part_ok :: "nat \<Rightarrow> bool \<Rightarrow> dir_meta \<Rightarrow> bool" where
  "root_part_ok owner private m \<longleftrightarrow>
     \<not> (\<not> dm_dir m \<or> (private \<and> (dm_uid m \<noteq> owner \<or> dm_mode m AND 0x3F \<noteq> 0)) \<or>
        (\<not> private \<and> dm_uid m \<noteq> owner \<and> dm_uid m \<noteq> 0) \<or>
        (\<not> private \<and> dm_mode m AND 0x12 \<noteq> 0 \<and> \<not> (dm_uid m = 0 \<and> dm_mode m AND 0x200 \<noteq> 0)))"

fun walk_root :: "nat \<Rightarrow> (string list \<Rightarrow> dir_meta option) \<Rightarrow> nat \<Rightarrow> string list \<Rightarrow> string list \<Rightarrow> (stage_error, unit) result" where
  "walk_root owner opened most prefix [] = Ok ()"
| "walk_root owner opened most prefix (name # names) =
     (let here = prefix @ [name] in
      case opened here of
        None \<Rightarrow> Err FRoot
      | Some m \<Rightarrow>
          if root_part_ok owner (most \<le> length here + 1) m then walk_root owner opened most here names else Err FRoot)"

definition stage_control :: "char \<Rightarrow> bool" where
  "stage_control b \<longleftrightarrow> b \<in> {CHR 0x00, CHR 0x0D, CHR 0x0A, CHR 0x09, CHR 0x1B}"

definition checked_root :: "(string \<Rightarrow> bool) \<Rightarrow> nat \<Rightarrow> (string list \<Rightarrow> dir_meta option) \<Rightarrow> string \<Rightarrow> (stage_error, unit) result" where
  "checked_root utf8 owner opened path =
     (if \<not> utf8 path then Err FRoot
      else case path of
        [] \<Rightarrow> Err FRoot
      | c # rest \<Rightarrow>
          let parts = split_on CHR ''/'' rest in
          if c \<noteq> CHR ''/'' \<or> list_ex (\<lambda>p. p = [] \<or> p = ''.'' \<or> p = ''..'') parts then Err FRoot
          else (case rev parts of
              a # b # _ \<Rightarrow>
                if a \<noteq> ''staged-files-v1'' \<or> b \<noteq> ''hmux'' \<or> list_ex stage_control path then Err FRoot
                else walk_root owner opened (length parts) [] parts
            | _ \<Rightarrow> Err FRoot))"

datatype flock = FlockGranted | FlockInterrupted | FlockWouldBlock | FlockFailed

fun lock_attempts :: "(work \<times> flock) list \<Rightarrow> (stage_error, unit) result" where
  \<comment> \<open>the attempts until the deadline, which ends the wait\<close>
  "lock_attempts [] = Err FTime"
| "lock_attempts ((w, f) # rest) =
     and_then (check_work w) (\<lambda>_.
       case f of
         FlockGranted \<Rightarrow> Ok ()
       | FlockInterrupted \<Rightarrow> lock_attempts rest
       | FlockWouldBlock \<Rightarrow> lock_attempts rest
       | FlockFailed \<Rightarrow> Err FLock)"

definition root_lock :: "bool \<Rightarrow> (work \<times> flock) list \<Rightarrow> (stage_error, unit) result" where
  \<comment> \<open>the first argument: the lock file opens and is private\<close>
  "root_lock usable attempts = (if \<not> usable then Err FLock else lock_attempts attempts)"

section \<open>A stage\<close>

record 'h current_file =
  cu_hash :: 'h
  cu_written :: int

record 'h stage =
  tg_name :: string
  tg_final :: "string option"
  tg_header :: upload_header
  tg_id :: string
  tg_started :: int
  tg_current :: "'h current_file option"
  tg_hashes :: "string list"
  tg_total :: int
  tg_accepted :: bool
  tg_failed :: bool

record begin_io =
  bg_work :: "nat \<Rightarrow> work"
  bg_lockable :: bool
  bg_lock :: "(work \<times> flock) list"
  bg_spool :: spool_io
  bg_random :: "(nat \<Rightarrow> char) option" \<comment> \<open>the bytes the generator fills in\<close>
  bg_mkdir :: bool
  bg_opens :: bool
  bg_clock :: int \<comment> \<open>the time a new directory is stamped with\<close>

definition new_stage :: "upload_header \<Rightarrow> string \<Rightarrow> int \<Rightarrow> 'h stage" where
  "new_stage header stage_id started =
     \<lparr>tg_name = ''.incoming-'' @ stage_id, tg_final = None, tg_header = header, tg_id = stage_id, tg_started = started,
      tg_current = None, tg_hashes = [], tg_total = 0, tg_accepted = False, tg_failed = False\<rparr>"

definition begin_locked ::
  "begin_io \<Rightarrow> upload_header \<Rightarrow> int \<Rightarrow> spool \<Rightarrow> (stage_error, 'h stage) result \<times> spool" where
  "begin_locked io header started s =
     (case sweep_locked (bg_spool io) started (uh_total_bytes header + MANIFEST_RESERVATION) s of
        (Inl e, s) \<Rightarrow> (Err e, s)
      | (Inr u, s) \<Rightarrow>
     (case check_work (bg_work io 1) of
        Inl e \<Rightarrow> (Err e, s)
      | Inr u \<Rightarrow>
     (case bg_random io of
        None \<Rightarrow> (Err FIo, s)
      | Some entropy \<Rightarrow>
          let stage_id = hex_bytes (map entropy [0..<16]); name = ''.incoming-'' @ stage_id in
          if map_of s name \<noteq> None \<or> \<not> bg_mkdir io then (Err FIo, s)
          else
            let s = insert_key name (Staged \<lparr>sd_files = [], sd_modified = Some (bg_clock io)\<rparr>) s in
            if \<not> bg_opens io then (Err FUnsafe, snd (remove_stage (bg_spool io) name s))
            else (Ok (new_stage header stage_id started), s))))"

definition stage_begin ::
  "begin_io \<Rightarrow> upload_header \<Rightarrow> int \<Rightarrow> spool \<Rightarrow> (stage_error, 'h stage) result \<times> spool" where
  "stage_begin io header started s =
     (case validate_header header of
        Inl e \<Rightarrow> (Err e, s)
      | Inr u \<Rightarrow>
          if started < 1 then (Err FTime, s)
          else (case and_then (check_work (bg_work io 0)) (\<lambda>_. root_lock (bg_lockable io) (bg_lock io)) of
              Inl e \<Rightarrow> (Err e, s)
            | Inr u \<Rightarrow> begin_locked io header started s))"

definition stage_sweep :: "begin_io \<Rightarrow> int \<Rightarrow> spool \<Rightarrow> (stage_error, unit) result \<times> spool" where
  "stage_sweep io now s =
     (case root_lock (bg_lockable io) (bg_lock io) of
        Inl e \<Rightarrow> (Err e, s)
      | Inr u \<Rightarrow> sweep_locked (bg_spool io) now 0 s)"

section \<open>Writing\<close>

text \<open>What happens to the part of a write that goes to one file.\<close>

record turn_io =
  tu_work :: work
  tu_create :: bool
  tu_short :: "nat option" \<comment> \<open>the write fails after this many bytes\<close>
  tu_sync :: bool

definition stage_check :: "work \<Rightarrow> 'h stage \<Rightarrow> (stage_error, unit) result" where
  "stage_check w t = (if tg_failed t \<or> tg_final t \<noteq> None then Err FState else check_work w)"

text \<open>The directory a stage holds open is followed by its current name.\<close>

definition stage_place :: "'h stage \<Rightarrow> string" where
  "stage_place t = (case tg_final t of None \<Rightarrow> tg_name t | Some n \<Rightarrow> n)"

definition put_file :: "string \<Rightarrow> string \<Rightarrow> bytes \<Rightarrow> spool \<Rightarrow> spool" where
  "put_file place name data s =
     (case map_of s place of
        Some (Staged d) \<Rightarrow>
          insert_key place (Staged (d\<lparr>sd_files := insert_key name \<lparr>sg_data = data, sg_private = True\<rparr> (sd_files d)\<rparr>)) s
      | _ \<Rightarrow> s)"

definition file_at :: "spool \<Rightarrow> string \<Rightarrow> string \<Rightarrow> spool_file option" where
  "file_at s place name = (case map_of s place of Some (Staged d) \<Rightarrow> map_of (sd_files d) name | _ \<Rightarrow> None)"

definition data_at :: "spool \<Rightarrow> string \<Rightarrow> string \<Rightarrow> bytes" where
  "data_at s place name = (case file_at s place name of None \<Rightarrow> [] | Some f \<Rightarrow> sg_data f)"

text \<open>The file of the turn, created if the last one was finished.\<close>

definition open_current ::
  "'h sha \<Rightarrow> turn_io \<Rightarrow> 'h stage \<Rightarrow> spool \<Rightarrow> (stage_error, 'h current_file) result \<times> spool" where
  "open_current sh io t s =
     (case tg_current t of
        Some cu \<Rightarrow> (Ok cu, s)
      | None \<Rightarrow>
          let name = file_name (tg_header t) (length (tg_hashes t)) in
          if file_at s (stage_place t) name \<noteq> None \<or> \<not> tu_create io then (Err FIo, s)
          else (Ok \<lparr>cu_hash = sh_new sh, cu_written = 0\<rparr>, put_file (stage_place t) name [] s))"

definition write_turn ::
  "'h sha \<Rightarrow> turn_io \<Rightarrow> bytes \<Rightarrow> 'h stage \<Rightarrow> spool \<Rightarrow> (stage_error, bytes) result \<times> 'h stage \<times> spool" where
  "write_turn sh io data t s =
     (case stage_check (tu_work io) t of
        Inl e \<Rightarrow> (Err e, t, s)
      | Inr u \<Rightarrow>
     if length (uh_files (tg_header t)) \<le> length (tg_hashes t) then (Err FSize, t, s)
     else
       let index = length (tg_hashes t); name = file_name (tg_header t) index; expected = fh_size (uh_files (tg_header t) ! index) in
       (case open_current sh io t s of
          (Inl e, s) \<Rightarrow> (Err e, t, s)
        | (Inr cu, s) \<Rightarrow>
            let t = t\<lparr>tg_current := Some cu\<rparr> in
            if expected - cu_written cu < 0 then (Err FSize, t, s)
            else
              let amount = min (nat (expected - cu_written cu)) (length data); old = data_at s (stage_place t) name in
              (case tu_short io of
                 Some n \<Rightarrow> (Err FIo, t, put_file (stage_place t) name (old @ take (min n amount) data) s)
               | None \<Rightarrow>
                   let s = put_file (stage_place t) name (old @ take amount data) s;
                       cu = cu\<lparr>cu_hash := sh_update sh (cu_hash cu) (take amount data), cu_written := cu_written cu + int amount\<rparr>;
                       t = t\<lparr>tg_current := Some cu, tg_total := tg_total t + int amount\<rparr> in
                   if cu_written cu \<noteq> expected then (Ok (drop amount data), t, s)
                   else
                     let t = t\<lparr>tg_current := None\<rparr> in
                     if \<not> tu_sync io then (Err FIo, t, s)
                     else (Ok (drop amount data), t\<lparr>tg_hashes := tg_hashes t @ [sh_final sh (cu_hash cu)]\<rparr>, s))))"

lemma write_turn_progress:
  assumes "write_turn sh io data t s = (Ok rest, t', s')" and "data \<noteq> []"
  shows "length rest + (length (uh_files (tg_header t')) - length (tg_hashes t')) < length data + (length (uh_files (tg_header t)) - length (tg_hashes t))"
proof -
  obtain k where "length data = Suc k" using assms(2) by (cases data) simp_all
  then show ?thesis
    using assms(1)
    by (auto simp: write_turn_def open_current_def Let_def min_def split: sum.splits prod.splits if_splits option.splits)
qed

function write_inner ::
  "'h sha \<Rightarrow> (nat \<Rightarrow> turn_io) \<Rightarrow> bytes \<Rightarrow> 'h stage \<Rightarrow> spool \<Rightarrow> (stage_error, int) result \<times> 'h stage \<times> spool" where
  "write_inner sh io data t s =
     (if data = [] then (Ok (tg_total t), t, s)
      else case write_turn sh (io (length (tg_hashes t))) data t s of
        (Inl e, t, s) \<Rightarrow> (Err e, t, s)
      | (Inr rest, t, s) \<Rightarrow> write_inner sh io rest t s)"
  by pat_completeness auto
termination
  by (relation "measure (\<lambda>(sh, io, data, t, s). length data + (length (uh_files (tg_header t)) - length (tg_hashes t)))")
    (auto dest!: write_turn_progress [OF sym])

declare write_inner.simps [simp del]

definition stage_write ::
  "'h sha \<Rightarrow> work \<Rightarrow> (nat \<Rightarrow> turn_io) \<Rightarrow> bytes \<Rightarrow> 'h stage \<Rightarrow> spool \<Rightarrow> (stage_error, int) result \<times> 'h stage \<times> spool" where
  "stage_write sh w io data t s =
     (case stage_check w t of
        Inl e \<Rightarrow> (Err e, t, s)
      | Inr u \<Rightarrow>
          if CHUNK_MAX < length data \<or> \<not> is_i64 (tg_total t + int (length data)) \<or>
             uh_total_bytes (tg_header t) < tg_total t + int (length data) then (Err FSize, t\<lparr>tg_failed := True\<rparr>, s)
          else (case write_inner sh io data t s of
              (Inl e, t, s) \<Rightarrow> (Err e, t\<lparr>tg_failed := True\<rparr>, s)
            | (Inr n, t, s) \<Rightarrow> (Ok n, t, s)))"

section \<open>Committing\<close>

record commit_io =
  ci_check :: work
  ci_utf8 :: "string \<Rightarrow> bool"
  ci_compact :: "stage_result \<Rightarrow> nat" \<comment> \<open>the length of its JSON\<close>
  ci_pretty :: "stage_result \<Rightarrow> bytes" \<comment> \<open>its indented JSON\<close>
  ci_create :: bool
  ci_short :: "nat option"
  ci_synced :: bool \<comment> \<open>the manifest and its directory\<close>
  ci_last :: work
  ci_rename :: bool
  ci_root_synced :: bool

definition stage_path :: "string \<Rightarrow> string \<Rightarrow> upload_header \<Rightarrow> nat \<Rightarrow> string" where
  "stage_path root final_name header index = root @ ''/'' @ final_name @ ''/'' @ file_name header index"

text \<open>The files of the answer; the first path that is not usable ends the loop.\<close>

fun staged_files :: "(string \<Rightarrow> bool) \<Rightarrow> string \<Rightarrow> string \<Rightarrow> upload_header \<Rightarrow> string list \<Rightarrow> nat list \<Rightarrow> bool \<times> stage_file list option" where
  \<comment> \<open>the flag: whether the failure is one the stage remembers\<close>
  "staged_files utf8 root final_name header hashes [] = (False, Some [])"
| "staged_files utf8 root final_name header hashes (index # rest) =
     (let path = stage_path root final_name header index in
      if \<not> utf8 path then (False, None)
      else if 4096 < length path \<or> list_ex stage_control path then (True, None)
      else case staged_files utf8 root final_name header hashes rest of
        (failed, files) \<Rightarrow>
          (failed, map_option (\<lambda>files. \<lparr>sf_index = index, sf_path = path, sf_size = fh_size (uh_files header ! index),
             sf_sha256 = hashes ! index\<rparr> # files) files))"

text \<open>The manifest is written, and the directory gets its final name.\<close>

definition may_rename_to :: "spool \<Rightarrow> string \<Rightarrow> bool" where
  \<comment> \<open>onto nothing or an empty directory\<close>
  "may_rename_to s name = (case map_of s name of None \<Rightarrow> True | Some (Staged d) \<Rightarrow> sd_files d = [] | Some Other \<Rightarrow> False)"

definition rename_stage :: "string \<Rightarrow> string \<Rightarrow> spool \<Rightarrow> spool" where
  "rename_stage name final_name s =
     (case map_of s name of None \<Rightarrow> s | Some e \<Rightarrow> insert_key final_name e (remove_key name s))"

definition publish ::
  "commit_io \<Rightarrow> string \<Rightarrow> stage_result \<Rightarrow> 'h stage \<Rightarrow> spool \<Rightarrow> (stage_error, stage_result) result \<times> 'h stage \<times> spool" where
  "publish io final_name r t s =
     (let manifest = ci_pretty io r @ [CHR 0x0A]; place = tg_name t in
      if 65536 < ci_compact io r + 1 then (Err FSize, t, s)
      else if 65536 < length manifest then (Err FSize, t\<lparr>tg_failed := True\<rparr>, s)
      else if file_at s place ''manifest.json'' \<noteq> None \<or> \<not> ci_create io then (Err FIo, t, s)
      else case ci_short io of
        Some n \<Rightarrow> (Err FIo, t, put_file place ''manifest.json'' (take n manifest) s)
      | None \<Rightarrow>
          let s = put_file place ''manifest.json'' manifest s in
          if \<not> ci_synced io then (Err FIo, t, s)
          else (case check_work (ci_last io) of
              Inl e \<Rightarrow> (Err e, t, s)
            | Inr u \<Rightarrow>
                if \<not> ci_rename io \<or> \<not> may_rename_to s final_name then (Err FIo, t, s)
                else
                  let s = rename_stage place final_name s; t = t\<lparr>tg_final := Some final_name\<rparr> in
                  if ci_root_synced io then (Ok r, t, s) else (Err FIo, t, s)))"

definition commit_typed ::
  "string \<Rightarrow> commit_io \<Rightarrow> int \<Rightarrow> 'h stage \<Rightarrow> spool \<Rightarrow> (stage_error, stage_result) result \<times> 'h stage \<times> spool" where
  "commit_typed root io completed t s =
     (let header = tg_header t; expiry = completed + WEB_TTL in
      case stage_check (ci_check io) t of
        Inl e \<Rightarrow> (Err e, t, s)
      | Inr u \<Rightarrow>
          if tg_total t \<noteq> uh_total_bytes header \<or> tg_current t \<noteq> None \<or> length (tg_hashes t) \<noteq> length (uh_files header)
          then (Err FSize, t\<lparr>tg_failed := True\<rparr>, s)
          else if completed < tg_started t then (Err FTime, t\<lparr>tg_failed := True\<rparr>, s)
          else if \<not> is_i64 expiry then (Err FTime, t, s)
          else if expiry < 1000000000 \<or> 9999999999 < expiry then (Err FTime, t\<lparr>tg_failed := True\<rparr>, s)
          else
            let final_name = decimal (nat expiry) @ ''-'' @ tg_id t in
            (case uh_session header of
               None \<Rightarrow> (Err FHeader, t, s)
             | Some session \<Rightarrow>
                 (case staged_files (ci_utf8 io) root final_name header (tg_hashes t) [0..<length (tg_hashes t)] of
                    (failed, None) \<Rightarrow> (Err FRoot, if failed then t\<lparr>tg_failed := True\<rparr> else t, s)
                  | (_, Some files) \<Rightarrow>
                      publish io final_name
                        \<lparr>sr_protocol_version = 1, sr_request_id = uh_request_id header, sr_stage_id = tg_id t,
                         sr_session = Some session, sr_expires_at_unix = expiry, sr_files = files\<rparr> t s)))"

definition stage_commit ::
  "(stage_result \<Rightarrow> bytes option) \<Rightarrow> string \<Rightarrow> commit_io \<Rightarrow> int \<Rightarrow> 'h stage \<Rightarrow> spool \<Rightarrow> (stage_error, bytes) result \<times> 'h stage \<times> spool" where
  \<comment> \<open>the first argument: the protocol's payload of the answer\<close>
  "stage_commit payload root io completed t s =
     (case commit_typed root io completed t s of
        (Inl e, t, s) \<Rightarrow> (Err e, t, s)
      | (Inr r, t, s) \<Rightarrow> (case payload r of None \<Rightarrow> (Err FIo, t, s) | Some raw \<Rightarrow> (Ok (raw @ [CHR 0x0A]), t, s)))"

definition stage_accept :: "'h stage \<Rightarrow> 'h stage" where
  "stage_accept t = (if tg_final t \<noteq> None then t\<lparr>tg_accepted := True\<rparr> else t)"

definition stage_drop :: "spool_io \<Rightarrow> 'h stage \<Rightarrow> spool \<Rightarrow> spool" where
  "stage_drop io t s = (if tg_accepted t then s else snd (remove_stage io (stage_place t) s))"

end
