(* ===== verification/File_Stage_Properties.thy ===== *)
theory File_Stage_Properties
  imports File_Stage
begin

text \<open>
  What the staging promises: the files on disk are the stream cut at the announced sizes, and the
  answer of a commit is one the gateway accepts.
\<close>

section \<open>The stream on disk\<close>

lemma file_name_staged: "file_name h i = staged_name i (fh_extension (uh_files h ! i))"
  by (simp add: file_name_def staged_name_def Let_def)

abbreviation sizes_of :: "upload_header \<Rightarrow> int list" where
  "sizes_of h \<equiv> map fh_size (uh_files h)"

text \<open>The first \<open>k\<close> files of the stream \<open>d\<close>.\<close>

definition files_of_stream :: "upload_header \<Rightarrow> bytes \<Rightarrow> nat \<Rightarrow> (string \<times> spool_file) list" where
  "files_of_stream h d k = map (\<lambda>i. (file_name h i, \<lparr>sg_data = split_sizes (sizes_of h) d ! i, sg_private = True\<rparr>)) [0..<k]"

text \<open>The bytes \<open>d\<close> have been staged: \<open>n\<close> files are finished, and perhaps one is open.\<close>

definition staging :: "'h sha \<Rightarrow> bytes \<Rightarrow> 'h stage \<Rightarrow> spool \<Rightarrow> bool" where
  "staging sh d t s \<longleftrightarrow>
     (let h = tg_header t; n = length (tg_hashes t); cut = split_sizes (sizes_of h) d; done = sum_list (take n (sizes_of h)) in
      tg_final t = None \<and> tg_total t = int (length d) \<and> n \<le> length (sizes_of h) \<and>
      tg_hashes t = map (\<lambda>part. sh_final sh (digest_of sh part)) (take n cut) \<and>
      (\<exists>m. map_of s (tg_name t) = Some (Staged \<lparr>sd_files = files_of_stream h d (n + (if tg_current t = None then 0 else 1)), sd_modified = m\<rparr>)) \<and>
      (case tg_current t of
         None \<Rightarrow> int (length d) = done
       | Some cu \<Rightarrow> n < length (sizes_of h) \<and> done \<le> int (length d) \<and> cu_written cu = int (length d) - done \<and>
           cu_written cu < sizes_of h ! n \<and> cu_hash cu = digest_of sh (cut ! n)))"

lemma valid_header_of_stage: "validate_header h = Ok () \<longleftrightarrow> valid_header h True"
  by (auto simp: validate_header_def valid_header_def valid_hex_def valid_hex_id_def valid_session_def validate_file_def valid_file_def
      stage_extension_def stage_limits upload_limits list_all_iff Suc_le_eq split: option.splits)

lemma file_name_inj:
  assumes "valid_header h True" and "i < length (uh_files h)" and "j < length (uh_files h)" and "file_name h i = file_name h j"
  shows "i = j"
  using assms valid_header_sizes(2) [OF assms(1)] staged_name_inj [of i j] unfolding file_name_staged by force

lemma files_of_stream_lookup:
  assumes "valid_header h True" and "k \<le> length (uh_files h)" and "i < length (uh_files h)"
  shows "map_of (files_of_stream h d k) (file_name h i) =
    (if i < k then Some \<lparr>sg_data = split_sizes (sizes_of h) d ! i, sg_private = True\<rparr> else None)"
  using assms(2)
proof (induction k)
  case (Suc k)
  have "file_name h k = file_name h i \<longleftrightarrow> k = i" using file_name_inj [OF assms(1), of k i] Suc.prems assms(3) by auto
  then show ?case using Suc by (auto simp: files_of_stream_def map_add_Some_iff split: option.splits)
qed (simp add: files_of_stream_def)

lemma files_of_stream_put:
  assumes "valid_header h True" and "k < length (uh_files h)"
  shows "insert_key (file_name h k) f (files_of_stream h d k) = files_of_stream h d k @ [(file_name h k, f)]"
    and "insert_key (file_name h k) f (files_of_stream h d k @ [(file_name h k, g)]) = files_of_stream h d k @ [(file_name h k, f)]"
proof -
  have none: "map_of (files_of_stream h d k) (file_name h k) = None"
    using files_of_stream_lookup [OF assms(1), of k k d] assms(2) by simp
  then show "insert_key (file_name h k) f (files_of_stream h d k) = files_of_stream h d k @ [(file_name h k, f)]"
    by (simp add: insert_key_def map_of_None_remove_key)
  have "remove_key (file_name h k) (files_of_stream h d k @ [(file_name h k, g)]) = remove_key (file_name h k) (files_of_stream h d k)"
    by (simp add: remove_key_def)
  then show "insert_key (file_name h k) f (files_of_stream h d k @ [(file_name h k, g)]) = files_of_stream h d k @ [(file_name h k, f)]"
    by (simp add: insert_key_def map_of_None_remove_key [OF none])
qed

lemma split_sizes_rest: "(\<And>n. n \<in> set ns \<Longrightarrow> 0 \<le> n) \<Longrightarrow> i < length ns \<Longrightarrow> int (length d) \<le> sum_list (take i ns) \<Longrightarrow> split_sizes ns d ! i = []"
proof (induction ns arbitrary: i d)
  case (Cons n ns)
  show ?case
  proof (cases i)
    case 0
    then show ?thesis using Cons.prems(3) by simp
  next
    case (Suc j)
    have "0 \<le> sum_list (take j ns)" using Cons.prems(1) by (intro sum_list_nonneg) (auto dest: in_set_takeD)
    then have "int (length (drop (nat n) d)) \<le> sum_list (take j ns)" using Cons.prems(1,3) Suc by (cases "nat n \<le> length d") auto
    then show ?thesis using Cons.IH [of j "drop (nat n) d"] Cons.prems(1,2) Suc by simp
  qed
qed simp

lemma files_of_stream_Suc:
  "files_of_stream h d (Suc n) = files_of_stream h d n @ [(file_name h n, \<lparr>sg_data = split_sizes (sizes_of h) d ! n, sg_private = True\<rparr>)]"
  by (simp add: files_of_stream_def)

text \<open>More of the stream, \<open>x\<close>, fits into the open file \<open>n\<close>: it goes there, and nowhere else.\<close>

definition fits_file :: "upload_header \<Rightarrow> bytes \<Rightarrow> nat \<Rightarrow> bytes \<Rightarrow> bool" where
  "fits_file h d n x \<longleftrightarrow>
     valid_header h True \<and> n < length (uh_files h) \<and> sum_list (take n (sizes_of h)) \<le> int (length d) \<and>
     int (length d) + int (length x) \<le> sum_list (take n (sizes_of h)) + fh_size (uh_files h ! n)"

lemma cut_more:
  assumes "fits_file h d n x"
  shows "split_sizes (sizes_of h) (d @ x) = (split_sizes (sizes_of h) d)[n := split_sizes (sizes_of h) d ! n @ x]"
proof -
  have "0 \<le> m" if "m \<in> set (sizes_of h)" for m using assms valid_header_sizes(4) [of h True m] that by (auto simp: fits_file_def)
  then show ?thesis using assms by (intro split_sizes_append) (auto simp: fits_file_def take_Suc_conv_app_nth)
qed

lemma files_more: "fits_file h d n x \<Longrightarrow> files_of_stream h (d @ x) n = files_of_stream h d n"
  unfolding files_of_stream_def by (rule map_cong [OF refl]) (simp add: cut_more)

lemma files_grow:
  assumes "fits_file h d n x"
  shows "insert_key (file_name h n) \<lparr>sg_data = split_sizes (sizes_of h) d ! n @ x, sg_private = True\<rparr> (files_of_stream h d (Suc n)) =
    files_of_stream h (d @ x) (Suc n)"
  using files_of_stream_put(2) [of h n "\<lparr>sg_data = split_sizes (sizes_of h) d ! n @ x, sg_private = True\<rparr>" d] assms
  by (simp add: files_of_stream_Suc files_more [OF assms] cut_more [OF assms]) (simp add: fits_file_def)

lemma hash_more:
  assumes "fits_file h d n x" and "sha_law sh"
  shows "sh_update sh (digest_of sh (split_sizes (sizes_of h) d ! n)) x = digest_of sh (split_sizes (sizes_of h) (d @ x) ! n)"
proof -
  have "n < length (uh_files h)" using assms(1) by (simp add: fits_file_def)
  then show ?thesis using assms(2) by (simp add: cut_more [OF assms(1)] sha_law_def digest_of_def)
qed

lemma finish_more:
  assumes "fits_file h d n x"
  shows "take n (split_sizes (sizes_of h) (d @ x)) = take n (split_sizes (sizes_of h) d)"
    and "take (Suc n) (split_sizes (sizes_of h) (d @ x)) = take n (split_sizes (sizes_of h) d) @ [split_sizes (sizes_of h) (d @ x) ! n]"
proof -
  have "n < length (uh_files h)" using assms by (simp add: fits_file_def)
  then show "take n (split_sizes (sizes_of h) (d @ x)) = take n (split_sizes (sizes_of h) d)"
    "take (Suc n) (split_sizes (sizes_of h) (d @ x)) = take n (split_sizes (sizes_of h) d) @ [split_sizes (sizes_of h) (d @ x) ! n]"
    by (simp_all add: cut_more [OF assms] take_Suc_conv_app_nth)
qed

lemma stage_place_None [simp]: "tg_final t = None \<Longrightarrow> stage_place t = tg_name t"
  by (simp add: stage_place_def)

lemma put_file_at:
  "map_of s place = Some (Staged d) \<Longrightarrow>
   map_of (put_file place name v s) = (map_of s)(place := Some (Staged (d\<lparr>sd_files := insert_key name \<lparr>sg_data = v, sg_private = True\<rparr> (sd_files d)\<rparr>)))"
  by (simp add: put_file_def)

lemma file_at_dir: "map_of s place = Some (Staged d) \<Longrightarrow> file_at s place name = map_of (sd_files d) name"
  by (simp add: file_at_def)

text \<open>After \<open>open_current\<close> there is an open file, with what the stream so far has of it.\<close>

lemma open_current_result:
  assumes law: "sha_law sh" and hdr: "valid_header (tg_header t) True" and st: "staging sh d t s"
    and n: "length (tg_hashes t) < length (uh_files (tg_header t))" and res: "open_current sh io t s = (Ok cu, s1)"
  shows "cu_hash cu = digest_of sh (split_sizes (sizes_of (tg_header t)) d ! length (tg_hashes t))"
    and "cu_written cu = int (length d) - sum_list (take (length (tg_hashes t)) (sizes_of (tg_header t)))"
    and "0 \<le> cu_written cu" "cu_written cu < fh_size (uh_files (tg_header t) ! length (tg_hashes t))"
    and "\<exists>m. map_of s1 (tg_name t) = Some (Staged \<lparr>sd_files = files_of_stream (tg_header t) d (Suc (length (tg_hashes t))), sd_modified = m\<rparr>)"
proof -
  let ?h = "tg_header t" and ?n = "length (tg_hashes t)"
  have pos: "0 < m" if "m \<in> set (sizes_of ?h)" for m using valid_header_sizes(4) [OF hdr that] by simp
  have "(cu_hash cu = digest_of sh (split_sizes (sizes_of ?h) d ! ?n) \<and>
     cu_written cu = int (length d) - sum_list (take ?n (sizes_of ?h)) \<and> 0 \<le> cu_written cu \<and> cu_written cu < fh_size (uh_files ?h ! ?n)) \<and>
    (\<exists>m. map_of s1 (tg_name t) = Some (Staged \<lparr>sd_files = files_of_stream ?h d (Suc ?n), sd_modified = m\<rparr>))"
  proof (cases "tg_current t")
    case (Some c)
    then show ?thesis using st res n by (auto simp: staging_def open_current_def Let_def)
  next
    case None
    obtain m where m: "map_of s (tg_name t) = Some (Staged \<lparr>sd_files = files_of_stream ?h d ?n, sd_modified = m\<rparr>)"
      and len: "int (length d) = sum_list (take ?n (sizes_of ?h))" and fin: "tg_final t = None"
      using st None by (auto simp: staging_def Let_def)
    have empty: "split_sizes (sizes_of ?h) d ! ?n = []" by (rule split_sizes_rest) (use pos n len in \<open>fastforce+\<close>)
    have cu: "cu = \<lparr>cu_hash = sh_new sh, cu_written = 0\<rparr>" and s1: "s1 = put_file (tg_name t) (file_name ?h ?n) [] s"
      using res None fin by (auto simp: open_current_def Let_def split: if_splits)
    have "0 < fh_size (uh_files ?h ! ?n)" using pos [of "fh_size (uh_files ?h ! ?n)"] n by simp
    moreover have "map_of s1 (tg_name t) = Some (Staged \<lparr>sd_files = files_of_stream ?h d (Suc ?n), sd_modified = m\<rparr>)"
      unfolding s1 put_file_at [OF m] using files_of_stream_put(1) [OF hdr n] by (simp add: files_of_stream_Suc empty)
    ultimately show ?thesis using law by (simp add: cu empty len digest_of_def sha_law_def)
  qed
  then show "cu_hash cu = digest_of sh (split_sizes (sizes_of ?h) d ! ?n)"
    "cu_written cu = int (length d) - sum_list (take ?n (sizes_of ?h))" "0 \<le> cu_written cu" "cu_written cu < fh_size (uh_files ?h ! ?n)"
    "\<exists>m. map_of s1 (tg_name t) = Some (Staged \<lparr>sd_files = files_of_stream ?h d (Suc ?n), sd_modified = m\<rparr>)" by blast+
qed

lemma write_turn_staging:
  assumes law: "sha_law sh" and hdr: "valid_header (tg_header t) True" and st: "staging sh d t s" and data: "data \<noteq> []"
    and res: "write_turn sh io data t s = (Ok rest, t', s')"
  shows "\<exists>k \<le> length data. rest = drop k data \<and> staging sh (d @ take k data) t' s' \<and>
    tg_header t' = tg_header t \<and> tg_name t' = tg_name t \<and> tg_id t' = tg_id t \<and> tg_started t' = tg_started t \<and> tg_failed t' = tg_failed t"
proof -
  let ?h = "tg_header t" and ?n = "length (tg_hashes t)"
  have fin: "tg_final t = None" using st by (simp add: staging_def Let_def)
  have n: "?n < length (uh_files ?h)" using res by (auto simp: write_turn_def split: sum.splits if_splits)
  obtain cu s1 where op: "open_current sh io t s = (Ok cu, s1)"
    using res n by (cases "open_current sh io t s"; cases "fst (open_current sh io t s)") (auto simp: write_turn_def Let_def split: sum.splits)
  note cu = open_current_result [OF law hdr st n op]
  obtain m where m: "map_of s1 (tg_name t) = Some (Staged \<lparr>sd_files = files_of_stream ?h d (Suc ?n), sd_modified = m\<rparr>)" using cu(5) by blast
  define k where "k = min (nat (fh_size (uh_files ?h ! ?n) - cu_written cu)) (length data)"
  define x where "x = take k data"
  have len: "length x = k" by (simp add: x_def k_def)
  have fits: "fits_file ?h d ?n x" using hdr n cu(2,3,4) len by (auto simp: fits_file_def k_def)
  have old: "data_at s1 (tg_name t) (file_name ?h ?n) = split_sizes (sizes_of ?h) d ! ?n"
    using files_of_stream_lookup [OF hdr, of "Suc ?n" ?n d] n by (simp add: data_at_def file_at_dir [OF m])
  define s2 where "s2 = put_file (tg_name t) (file_name ?h ?n) (split_sizes (sizes_of ?h) d ! ?n @ x) s1"
  have m2: "map_of s2 (tg_name t) = Some (Staged \<lparr>sd_files = files_of_stream ?h (d @ x) (Suc ?n), sd_modified = m\<rparr>)"
    unfolding s2_def put_file_at [OF m] by (simp add: files_grow [OF fits])
  let ?cu = "cu\<lparr>cu_hash := digest_of sh (split_sizes (sizes_of ?h) (d @ x) ! ?n), cu_written := cu_written cu + int k\<rparr>"
  let ?open = "t\<lparr>tg_current := Some ?cu, tg_total := tg_total t + int k\<rparr>"
  let ?closed = "t\<lparr>tg_current := None, tg_total := tg_total t + int k,
      tg_hashes := tg_hashes t @ [sh_final sh (digest_of sh (split_sizes (sizes_of ?h) (d @ x) ! ?n))]\<rparr>"
  have out: "rest = drop k data \<and> s' = s2 \<and>
      t' = (if cu_written cu + int k = fh_size (uh_files ?h ! ?n) then ?closed else ?open)"
    using res n op fin old hash_more [OF fits law] cu(1,4)
    by (auto simp: write_turn_def Let_def k_def [symmetric] x_def [symmetric] s2_def split: sum.splits option.splits if_splits)
  have total: "tg_total t = int (length d)" "tg_hashes t = map (\<lambda>part. sh_final sh (digest_of sh part)) (take ?n (split_sizes (sizes_of ?h) d))"
    using st by (simp_all add: staging_def Let_def)
  have "staging sh (d @ x) t' s2"
  proof (cases "cu_written cu + int k = fh_size (uh_files ?h ! ?n)")
    case True
    then have "int (length (d @ x)) = sum_list (take (Suc ?n) (sizes_of ?h))" using cu(2) n len by (simp add: take_Suc_conv_app_nth)
    then show ?thesis
      using True out m2 total n fin len finish_more [OF fits] by (simp add: staging_def Let_def)
  next
    case False
    then have "cu_written cu + int k < fh_size (uh_files ?h ! ?n)" using cu(3,4) by (auto simp: k_def)
    then show ?thesis
      using False out m2 total n fin len finish_more(1) [OF fits] cu(2,3) by (simp add: staging_def Let_def)
  qed
  then show ?thesis using out by (intro exI [of _ k]) (auto simp: x_def k_def)
qed

text \<open>What a write keeps of the stage.\<close>

definition same_stage :: "'h stage \<Rightarrow> 'h stage \<Rightarrow> bool" where
  "same_stage t t' \<longleftrightarrow>
     tg_header t' = tg_header t \<and> tg_name t' = tg_name t \<and> tg_id t' = tg_id t \<and> tg_started t' = tg_started t \<and> tg_failed t' = tg_failed t"

lemma write_inner_staging:
  assumes "sha_law sh" and "valid_header (tg_header t) True" and "staging sh d t s" and "write_inner sh io data t s = (Ok n, t', s')"
  shows "staging sh (d @ data) t' s' \<and> n = int (length (d @ data)) \<and> same_stage t t'"
  using assms
proof (induction sh io data t s arbitrary: d rule: write_inner.induct)
  case (1 sh io data t s)
  show ?case
  proof (cases "data = []")
    case True
    then have "n = tg_total t" "t' = t" "s' = s" using "1.prems"(4) by (auto simp: write_inner.simps [of sh io "[]" t s])
    moreover have "tg_total t = int (length d)" using "1.prems"(3) by (simp add: staging_def Let_def)
    ultimately show ?thesis using True "1.prems"(3) by (simp add: same_stage_def)
  next
    case False
    obtain rest t1 s1 where w: "write_turn sh (io (length (tg_hashes t))) data t s = (Ok rest, t1, s1)"
      and rec: "write_inner sh io rest t1 s1 = (Ok n, t', s')"
      using "1.prems"(4) False
      by (cases "write_turn sh (io (length (tg_hashes t))) data t s"; cases "fst (write_turn sh (io (length (tg_hashes t))) data t s)")
        (auto simp: write_inner.simps [of sh io data t s])
    obtain k where k: "rest = drop k data" "staging sh (d @ take k data) t1 s1" "same_stage t t1"
      using write_turn_staging [OF "1.prems"(1-3) False w] by (auto simp: same_stage_def)
    have "valid_header (tg_header t1) True" using k(3) "1.prems"(2) by (simp add: same_stage_def)
    from "1.IH" [OF False w [symmetric] refl refl "1.prems"(1) this k(2) rec] show ?thesis using k by (simp add: same_stage_def)
  qed
qed

lemma stage_write_staging:
  assumes "sha_law sh" and "valid_header (tg_header t) True" and "staging sh d t s" and "stage_write sh w io data t s = (Ok n, t', s')"
  shows "staging sh (d @ data) t' s' \<and> n = int (length (d @ data)) \<and> same_stage t t'"
  using assms(4) write_inner_staging [OF assms(1-3), of io data n t' s']
  by (auto simp: stage_write_def split: sum.splits if_splits prod.splits)

text \<open>A sequence of chunks, each written.\<close>

fun stage_feed :: "'h sha \<Rightarrow> (nat \<Rightarrow> work \<times> (nat \<Rightarrow> turn_io)) \<Rightarrow> bytes list \<Rightarrow> 'h stage \<Rightarrow> spool \<Rightarrow> ('h stage \<times> spool) option" where
  "stage_feed sh io [] t s = Some (t, s)"
| "stage_feed sh io (c # cs) t s =
     (case stage_write sh (fst (io (length cs))) (snd (io (length cs))) c t s of
        (Inr n, t, s) \<Rightarrow> stage_feed sh io cs t s
      | (Inl e, t, s) \<Rightarrow> None)"

lemma stage_feed_staging:
  assumes "sha_law sh" and "valid_header (tg_header t) True" and "staging sh d t s" and "stage_feed sh io chunks t s = Some (t', s')"
  shows "staging sh (d @ concat chunks) t' s' \<and> same_stage t t'"
  using assms
proof (induction chunks arbitrary: d t s)
  case (Cons c cs)
  obtain n t1 s1 where w: "stage_write sh (fst (io (length cs))) (snd (io (length cs))) c t s = (Ok n, t1, s1)"
    and rec: "stage_feed sh io cs t1 s1 = Some (t', s')"
    using Cons.prems(4) by (auto split: prod.splits sum.splits)
  have k: "staging sh (d @ c) t1 s1" "same_stage t t1" using stage_write_staging [OF Cons.prems(1-3) w] by simp_all
  have "valid_header (tg_header t1) True" using k(2) Cons.prems(2) by (simp add: same_stage_def)
  from Cons.IH [OF Cons.prems(1) this k(1) rec] show ?case using k(2) by (simp add: same_stage_def)
qed (simp add: same_stage_def)

section \<open>The commit\<close>

lemma staged_files_Some:
  assumes "staged_files utf8 root fin h hashes is = (failed, Some files)"
  shows "files = map (\<lambda>i. \<lparr>sf_index = i, sf_path = stage_path root fin h i, sf_size = fh_size (uh_files h ! i), sf_sha256 = hashes ! i\<rparr>) is \<and>
    (\<forall>i \<in> set is. length (stage_path root fin h i) \<le> 4096 \<and> \<not> list_ex stage_control (stage_path root fin h i))"
  using assms
proof (induction "is" arbitrary: failed files)
  case (Cons i "is")
  obtain f fs where "staged_files utf8 root fin h hashes is = (f, fs)" by force
  then show ?case using Cons by (auto simp: Let_def split: if_splits)
qed simp

lemma staging_complete:
  assumes "valid_header (tg_header t) True" and "staging sh d t s" and "tg_total t = uh_total_bytes (tg_header t)" and "tg_current t = None"
    and "length (tg_hashes t) = length (uh_files (tg_header t))"
  shows "tg_hashes t = map (\<lambda>part. sh_final sh (digest_of sh part)) (split_sizes (sizes_of (tg_header t)) d)"
    and "\<exists>m. map_of s (tg_name t) = Some (Staged \<lparr>sd_files = files_of_stream (tg_header t) d (length (uh_files (tg_header t))), sd_modified = m\<rparr>)"
  using assms by (auto simp: staging_def Let_def)

text \<open>A committed stage: the answer names every file with its digest, and the renamed directory holds the files and the manifest.\<close>

lemma commit_typed_result:
  assumes hdr: "valid_header (tg_header t) True" and st: "staging sh d t s" and res: "commit_typed root io completed t s = (Ok r, t', s')"
  shows "int (length d) = uh_total_bytes (tg_header t)"
    and "sr_protocol_version r = 1 \<and> sr_request_id r = uh_request_id (tg_header t) \<and> sr_stage_id r = tg_id t \<and>
      sr_session r = uh_session (tg_header t) \<and> sr_expires_at_unix r = completed + WEB_TTL"
    and "1000000000 \<le> completed + WEB_TTL" "completed + WEB_TTL \<le> 9999999999"
    and "sr_files r = map (\<lambda>i. \<lparr>sf_index = i, sf_path = stage_path root (decimal (nat (completed + WEB_TTL)) @ ''-'' @ tg_id t) (tg_header t) i,
        sf_size = fh_size (uh_files (tg_header t) ! i), sf_sha256 = sh_final sh (digest_of sh (split_sizes (sizes_of (tg_header t)) d ! i))\<rparr>)
      [0..<length (uh_files (tg_header t))]"
    and "\<forall>i<length (uh_files (tg_header t)). length (sf_path (sr_files r ! i)) \<le> 4096 \<and> \<not> list_ex stage_control (sf_path (sr_files r ! i))"
    and "tg_final t' = Some (decimal (nat (completed + WEB_TTL)) @ ''-'' @ tg_id t)"
    and "\<exists>m. map_of s' (decimal (nat (completed + WEB_TTL)) @ ''-'' @ tg_id t) = Some (Staged \<lparr>sd_files =
        files_of_stream (tg_header t) d (length (uh_files (tg_header t))) @ [(''manifest.json'', \<lparr>sg_data = ci_pretty io r @ [CHR 0x0A], sg_private = True\<rparr>)],
        sd_modified = m\<rparr>)"
proof -
  let ?h = "tg_header t" and ?fin = "decimal (nat (completed + WEB_TTL)) @ ''-'' @ tg_id t"
  have ready: "tg_total t = uh_total_bytes ?h" "tg_current t = None" "length (tg_hashes t) = length (uh_files ?h)"
    and range: "1000000000 \<le> completed + WEB_TTL" "completed + WEB_TTL \<le> 9999999999"
    using res by (auto simp: commit_typed_def Let_def split: sum.splits if_splits)
  obtain session failed files where session: "uh_session ?h = Some session"
    and files: "staged_files (ci_utf8 io) root ?fin ?h (tg_hashes t) [0..<length (tg_hashes t)] = (failed, Some files)"
    and pub: "publish io ?fin \<lparr>sr_protocol_version = 1, sr_request_id = uh_request_id ?h, sr_stage_id = tg_id t,
      sr_session = Some session, sr_expires_at_unix = completed + WEB_TTL, sr_files = files\<rparr> t s = (Ok r, t', s')"
    using res by (auto simp: commit_typed_def Let_def split: sum.splits if_splits option.splits prod.splits)
  have r: "r = \<lparr>sr_protocol_version = 1, sr_request_id = uh_request_id ?h, sr_stage_id = tg_id t,
      sr_session = Some session, sr_expires_at_unix = completed + WEB_TTL, sr_files = files\<rparr>"
    and t': "t' = t\<lparr>tg_final := Some ?fin\<rparr>" and free: "file_at s (tg_name t) ''manifest.json'' = None"
    and s': "s' = rename_stage (tg_name t) ?fin (put_file (tg_name t) ''manifest.json'' (ci_pretty io r @ [CHR 0x0A]) s)"
    using pub by (auto simp: publish_def Let_def split: sum.splits if_splits option.splits)
  note whole = staging_complete [OF hdr st ready]
  note fs = staged_files_Some [OF files]
  show "int (length d) = uh_total_bytes ?h" using st ready(1) by (simp add: staging_def Let_def)
  show "1000000000 \<le> completed + WEB_TTL" "completed + WEB_TTL \<le> 9999999999" by (fact range)+
  show "sr_protocol_version r = 1 \<and> sr_request_id r = uh_request_id ?h \<and> sr_stage_id r = tg_id t \<and>
      sr_session r = uh_session ?h \<and> sr_expires_at_unix r = completed + WEB_TTL" by (simp add: r session)
  show eq: "sr_files r = map (\<lambda>i. \<lparr>sf_index = i, sf_path = stage_path root ?fin ?h i, sf_size = fh_size (uh_files ?h ! i),
      sf_sha256 = sh_final sh (digest_of sh (split_sizes (sizes_of ?h) d ! i))\<rparr>) [0..<length (uh_files ?h)]"
    using fs whole(1) ready(3) by (auto simp: r)
  show "\<forall>i<length (uh_files ?h). length (sf_path (sr_files r ! i)) \<le> 4096 \<and> \<not> list_ex stage_control (sf_path (sr_files r ! i))"
    unfolding eq using fs ready(3) by auto
  show "tg_final t' = Some ?fin" by (simp add: t')
  obtain m where m: "map_of s (tg_name t) = Some (Staged \<lparr>sd_files = files_of_stream ?h d (length (uh_files ?h)), sd_modified = m\<rparr>)"
    using whole(2) by blast
  have "insert_key ''manifest.json'' f (files_of_stream ?h d (length (uh_files ?h))) = files_of_stream ?h d (length (uh_files ?h)) @ [(''manifest.json'', f)]" for f
    using free by (simp add: file_at_dir [OF m] insert_key_def map_of_None_remove_key)
  then show "\<exists>m. map_of s' ?fin = Some (Staged \<lparr>sd_files = files_of_stream ?h d (length (uh_files ?h)) @
      [(''manifest.json'', \<lparr>sg_data = ci_pretty io r @ [CHR 0x0A], sg_private = True\<rparr>)], sd_modified = m\<rparr>)"
    unfolding s' rename_stage_def put_file_at [OF m] by simp
qed

section \<open>The answer and the gateway\<close>

lemma name_chars: "list_all (\<lambda>b. is_ascii_lowercase b \<or> is_ascii_digit b) v \<Longrightarrow> CHR ''/'' \<notin> set v"
  by (auto simp: list_all_iff ascii_defs)

lemma hex_chars: "list_all is_lower_hex v \<Longrightarrow> CHR ''/'' \<notin> set v"
  by (auto simp: list_all_iff ascii_defs)

lemma digit_chars: "list_all is_ascii_digit v \<Longrightarrow> CHR ''/'' \<notin> set v"
  by (auto simp: list_all_iff ascii_defs)

lemma stage_dir_name:
  assumes "list_all is_lower_hex i"
  shows "CHR ''/'' \<notin> set (decimal n @ ''-'' @ i)" "decimal n @ ''-'' @ i \<noteq> []" "decimal n @ ''-'' @ i \<noteq> ''.''" "decimal n @ ''-'' @ i \<noteq> ''..''"
proof -
  show "CHR ''/'' \<notin> set (decimal n @ ''-'' @ i)" using digit_chars [OF decimal_digits] hex_chars [OF assms] by simp
  have "CHR ''-'' \<in> set (decimal n @ ''-'' @ i)" by simp
  then show "decimal n @ ''-'' @ i \<noteq> []" "decimal n @ ''-'' @ i \<noteq> ''.''" "decimal n @ ''-'' @ i \<noteq> ''..''" by (auto simp del: append_Cons set_append)
qed

lemma valid_pathI:
  assumes "path = CHR ''/'' # v" and "length path \<le> 4096" and "\<not> list_ex stage_control path"
    and "split_on CHR ''/'' v = dirs @ [''staged-files-v1'', d, staged_name k e]"
    and "\<not> list_ex (\<lambda>part. part = [] \<or> part = ''.'' \<or> part = ''..'') (dirs @ [''staged-files-v1'', d, staged_name k e])"
  shows "valid_path path d k e"
  using assms(1-3) assms(5) unfolding valid_path_def stage_control_def [abs_def] by (auto simp: assms(4))

lemma staged_path_valid:
  assumes root: "checked_root utf8 owner opened root = Ok ()" and i: "list_all is_lower_hex i"
    and ext: "list_all (\<lambda>b. is_ascii_lowercase b \<or> is_ascii_digit b) (fh_extension (uh_files h ! k))"
    and len: "length (stage_path root (decimal n @ ''-'' @ i) h k) \<le> 4096"
    and ctl: "\<not> list_ex stage_control (stage_path root (decimal n @ ''-'' @ i) h k)"
  shows "valid_path (stage_path root (decimal n @ ''-'' @ i) h k) (decimal n @ ''-'' @ i) k (fh_extension (uh_files h ! k))"
proof -
  let ?fin = "decimal n @ ''-'' @ i" and ?name = "staged_name k (fh_extension (uh_files h ! k))"
  obtain rest where path: "root = CHR ''/'' # rest" and parts: "\<not> list_ex (\<lambda>p. p = [] \<or> p = ''.'' \<or> p = ''..'') (split_on CHR ''/'' rest)"
    and ends: "\<exists>b ps. rev (split_on CHR ''/'' rest) = ''staged-files-v1'' # b # ps"
    using root by (auto simp: checked_root_def Let_def split: list.splits if_splits)
  have name: "CHR ''/'' \<notin> set ?name" "?name \<notin> {[], ''.'', ''..''}"
    using name_chars [OF ext] digit_chars [OF decimal_digits] by (auto simp: staged_name_def pad4_def)
  note fin = stage_dir_name [OF i, of n]
  have whole: "stage_path root ?fin h k = CHR ''/'' # (rest @ CHR ''/'' # (?fin @ CHR ''/'' # ?name))"
    by (simp add: stage_path_def path file_name_staged)
  have cut: "split_on CHR ''/'' (rest @ CHR ''/'' # (?fin @ CHR ''/'' # ?name)) = split_on CHR ''/'' rest @ [?fin, ?name]"
    unfolding split_on_append split_on_last [OF fin(1)] split_on_last [OF name(1)] by simp
  obtain b ps where rv: "rev (split_on CHR ''/'' rest) = ''staged-files-v1'' # b # ps" using ends by blast
  then have "split_on CHR ''/'' rest = rev (''staged-files-v1'' # b # ps)" by (metis rev_rev_ident)
  then have above: "split_on CHR ''/'' rest = (rev ps @ [b]) @ [''staged-files-v1'']" by simp
  have "\<not> list_ex (\<lambda>part. part = [] \<or> part = ''.'' \<or> part = ''..'') ((rev ps @ [b]) @ [''staged-files-v1'', ?fin, ?name])"
    using parts fin(2-4) name(2) unfolding above by (auto simp: list_ex_iff)
  then show ?thesis
    using cut by (intro valid_pathI [OF whole len ctl, where dirs = "rev ps @ [b]"]) (simp_all only: above append_assoc append_Cons append_Nil not_False_eq_True)
qed

definition sha_hex :: "'h sha \<Rightarrow> bool" where
  \<comment> \<open>a digest is printed as 64 hexadecimal digits\<close>
  "sha_hex sh \<longleftrightarrow> (\<forall>x. length (sh_final sh x) = 64 \<and> list_all is_lower_hex (sh_final sh x))"

lemma stage_begin_Ok:
  assumes "stage_begin io header started s0 = (Ok t, s1)"
  shows "valid_header header True" "tg_header t = header" "staging sh [] t s1"
    "list_all is_lower_hex (tg_id t)" "length (tg_id t) = 32" "tg_failed t = False" "tg_accepted t = False"
proof -
  have v: "validate_header header = Ok ()" using assms by (cases "validate_header header") (auto simp: stage_begin_def)
  obtain s2 entropy where t: "t = new_stage header (hex_bytes (map entropy [0..<16])) started"
    and s1: "s1 = insert_key (tg_name t) (Staged \<lparr>sd_files = [], sd_modified = Some (bg_clock io)\<rparr>) s2"
    using assms by (auto simp: stage_begin_def begin_locked_def new_stage_def Let_def split: sum.splits prod.splits option.splits if_splits)
  show "valid_header header True" using v valid_header_of_stage by blast
  show "tg_header t = header" "tg_failed t = False" "tg_accepted t = False" by (simp_all add: t new_stage_def)
  show "list_all is_lower_hex (tg_id t)" "length (tg_id t) = 32" by (simp_all add: t new_stage_def hex_bytes_shape)
  show "staging sh [] t s1" by (simp add: staging_def s1 files_of_stream_def) (simp add: t new_stage_def)
qed

text \<open>
  C10: an upload that the Home stages and commits is accepted by the gateway. Take any stage begun for a
  header, any division of the bytes into the chunks the Home wrote, and a commit that succeeded. If the
  gateway hashed the same bytes, in whatever chunks, its own check of the Home's answer succeeds; and
  the directory of the stage holds, under the announced names, exactly the bytes of each file.
\<close>

theorem staged_upload_accepted:
  assumes law: "sha_law sh" and hex: "sha_hex sh" and root: "checked_root utf8 owner opened root = Ok ()"
    and begun: "stage_begin io header started s0 = (Ok t0, s1)" and fed: "stage_feed sh wio chunks t0 s1 = Some (t, s2)"
    and res: "commit_typed root cio completed t s2 = (Ok r, t', s')"
    and same: "concat forwarded = concat chunks" and small: "list_all (\<lambda>c. c \<noteq> [] \<and> length c \<le> MAX_CHUNK) forwarded"
  shows "\<exists>u0 u hashes out. hashes_new sh header = Ok u0 \<and> feed sh forwarded u0 = Some u \<and> hashes_finish sh u = Ok hashes \<and>
    validate_completion r header hashes = Ok out \<and>
    (\<forall>i<length (uh_files header). file_at s' (stage_place t') (file_name header i) =
       Some \<lparr>sg_data = split_sizes (map fh_size (uh_files header)) (concat chunks) ! i, sg_private = True\<rparr>)"
proof -
  let ?d = "concat chunks"
  note b = stage_begin_Ok [OF begun]
  have st: "staging sh ?d t s2" and keep: "same_stage t0 t"
    using stage_feed_staging [OF law _ b(3) fed] b(1,2) by simp_all
  have h: "tg_header t = header" "valid_header (tg_header t) True" "tg_id t = tg_id t0" using keep b(1,2) by (simp_all add: same_stage_def)
  note c = commit_typed_result [OF h(2) st res, unfolded h(1)]
  have weak: "valid_header header False" using b(1) by (simp add: valid_header_def)
  obtain u0 where u0: "hashes_new sh header = Ok u0" "tracks sh [] u0" "hs_sizes u0 = sizes_of header"
    using hashes_new_tracks [OF weak law] by blast
  have total: "hs_total u0 = int (length ?d)" using u0(2,3) c(1) valid_header_sizes(3) [OF weak] by (simp add: tracks_def)
  obtain u where u: "feed sh forwarded u0 = Some u" "tracks sh ?d u" "hs_sizes u = sizes_of header"
    using feed_tracks [OF u0(2) law small] total same u0(3) by auto
  define hashes where "hashes = map (\<lambda>part. sh_final sh (digest_of sh part)) (split_sizes (sizes_of header) ?d)"
  have "is_complete u" using u(2,3) c(1) valid_header_sizes(3) [OF weak] by (simp add: tracks_def is_complete_def)
  then have fin: "hashes_finish sh u = Ok hashes"
    using hashedD(3) [of sh ?d u] u(2,3) by (simp add: hashes_finish_def hashes_def tracks_def)
  let ?dir = "decimal (nat (completed + WEB_TTL)) @ ''-'' @ tg_id t"
  have id: "list_all is_lower_hex (tg_id t)" "length (tg_id t) = 32" using b(4,5) h(3) by simp_all
  have each: "valid_staged ?dir i (uh_files header ! i) (hashes ! i) (sr_files r ! i)" if i: "i < length (uh_files header)" for i
  proof -
    have "fh_extension (uh_files header ! i) = e \<Longrightarrow> list_all (\<lambda>b. is_ascii_lowercase b \<or> is_ascii_digit b) e" for e
      using b(1) i by (auto simp: valid_header_def list_all_enumerate valid_file_def)
    then have "valid_path (stage_path root ?dir header i) ?dir i (fh_extension (uh_files header ! i))"
      using c(5,6) i by (intro staged_path_valid [OF root id(1)]) auto
    then show ?thesis using hex i c(5) by (simp add: valid_staged_def hashes_def sha_hex_def)
  qed
  have lens: "length hashes = length (uh_files header)" "length (sr_files r) = length (uh_files header)" by (simp_all add: hashes_def c(5))
  obtain session where "uh_session header = Some session" using b(1) by (auto simp: valid_header_def split: option.splits)
  then have "\<exists>out. validate_completion r header hashes = Ok out"
    using b(1) c(2,3) id each lens by (simp add: validate_completion_def valid_hex_id_def list_all_enumerate Let_def)
  moreover obtain m where "map_of s' ?dir = Some (Staged \<lparr>sd_files = files_of_stream header ?d (length (uh_files header)) @
      [(''manifest.json'', \<lparr>sg_data = ci_pretty cio r @ [CHR 0x0A], sg_private = True\<rparr>)], sd_modified = m\<rparr>)"
    using c(8) by blast
  then have "\<forall>i<length (uh_files header). file_at s' (stage_place t') (file_name header i) =
      Some \<lparr>sg_data = split_sizes (sizes_of header) ?d ! i, sg_private = True\<rparr>"
    using c(7) files_of_stream_lookup [OF b(1) order_refl]
    by (simp add: stage_place_def file_at_def map_add_def file_name_staged staged_name_def)
  ultimately show ?thesis using u0(1) u(1) fin by blast
qed

text \<open>A small upload, run from the beginning to the commit.\<close>

definition sample_digest :: "bytes sha" where
  "sample_digest = \<lparr>sh_new = [], sh_update = (@), sh_final = (\<lambda>_. replicate 64 CHR ''c'')\<rparr>"

definition smooth_spool :: spool_io where
  "smooth_spool = \<lparr>sv_utf8 = (\<lambda>_. True), sv_scan = (\<lambda>_. Going), sv_delete = (\<lambda>_. Going), sv_unlink = (\<lambda>_ _. True), sv_rmdir = (\<lambda>_. True)\<rparr>"

definition smooth_begin :: begin_io where
  "smooth_begin = \<lparr>bg_work = (\<lambda>_. Going), bg_lockable = True, bg_lock = [(Going, FlockGranted)], bg_spool = smooth_spool,
     bg_random = Some (\<lambda>_. CHR ''a''), bg_mkdir = True, bg_opens = True, bg_clock = 1700000000\<rparr>"

definition smooth_turn :: turn_io where
  "smooth_turn = \<lparr>tu_work = Going, tu_create = True, tu_short = None, tu_sync = True\<rparr>"

definition smooth_commit :: commit_io where
  "smooth_commit = \<lparr>ci_check = Going, ci_utf8 = (\<lambda>_. True), ci_compact = (\<lambda>_. 2), ci_pretty = (\<lambda>_. ''{}''), ci_create = True,
     ci_short = None, ci_synced = True, ci_last = Going, ci_rename = True, ci_root_synced = True\<rparr>"

definition sample_root :: string where
  "sample_root = ''/h/hmux/staged-files-v1''"

lemmas smooth_defs = smooth_spool_def smooth_begin_def smooth_turn_def smooth_commit_def sample_digest_def

lemma sample_root_checked:
  "checked_root (\<lambda>_. True) 7 (\<lambda>_. Some \<lparr>dm_dir = True, dm_uid = 7, dm_mode = 448\<rparr>) sample_root = Ok ()"
  by code_simp

definition sample_id :: string where
  "sample_id = hex_bytes (replicate 16 CHR ''a'')"

lemma staged_header_fields [simp]:
  "uh_protocol_version staged_header = 1" "uh_request_id staged_header = replicate 32 CHR ''a''"
  "uh_session staged_header = Some \<lparr>si_id = ''$12'', si_created_at = 123\<rparr>" "uh_file_count staged_header = 1"
  "uh_total_bytes staged_header = 2" "uh_files staged_header = [\<lparr>fh_index = 0, fh_size = 2, fh_extension = ''txt''\<rparr>]"
  by (simp_all add: staged_header_def sample_header_def)

lemma staged_header_name: "file_name staged_header 0 = ''file-0001.txt''"
  by code_simp

lemma sample_begun:
  "stage_begin smooth_begin staged_header 1700000000 [] =
     (Ok (new_stage staged_header sample_id 1700000000), [(''.incoming-'' @ sample_id, Staged \<lparr>sd_files = [], sd_modified = Some 1700000000\<rparr>)])"
proof -
  have "validate_header staged_header = Ok ()" by code_simp
  moreover have "map (\<lambda>_. CHR ''a'') [0..<16] = replicate 16 CHR ''a''" by (simp add: map_replicate_const)
  ultimately show ?thesis
    by (simp add: stage_begin_def begin_locked_def smooth_begin_def smooth_spool_def check_work_def root_lock_def sweep_locked_def
        entries_def limits Let_def sample_id_def insert_key_def remove_key_def keys_def)
qed

definition sample_written :: "bytes stage" where
  "sample_written = (new_stage staged_header sample_id 1700000000)\<lparr>tg_hashes := [replicate 64 CHR ''c''], tg_total := 2\<rparr>"

definition sample_spool :: spool where
  "sample_spool = [(''.incoming-'' @ sample_id, Staged \<lparr>sd_files = [(''file-0001.txt'', \<lparr>sg_data = ''ab'', sg_private = True\<rparr>)], sd_modified = Some 1700000000\<rparr>)]"

lemma sample_fed:
  "stage_feed sample_digest (\<lambda>_. (Going, \<lambda>_. smooth_turn)) [''a'', ''b''] (new_stage staged_header sample_id 1700000000)
     [(''.incoming-'' @ sample_id, Staged \<lparr>sd_files = [], sd_modified = Some 1700000000\<rparr>)] = Some (sample_written, sample_spool)"
  by (simp add: stage_write_def stage_check_def check_work_def write_inner.simps write_turn_def open_current_def stage_place_def
     file_at_def data_at_def put_file_def insert_key_def new_stage_def smooth_turn_def sample_digest_def is_i64_def limits staged_header_name Let_def remove_key_def
     sample_written_def sample_spool_def)

lemma sample_committed:
  "\<exists>r t' s'. commit_typed sample_root smooth_commit 1700000001 sample_written sample_spool = (Ok r, t', s')"
proof -
  have "decimal 1700010801 = ''1700010801''" by (simp add: decimal.simps) code_simp
  moreover have "length sample_id = 32" "list_all is_lower_hex sample_id" by (simp_all add: sample_id_def hex_bytes_shape)
  moreover from this(2) have "\<not> list_ex stage_control sample_id" by (auto simp: list_all_iff list_ex_iff stage_control_def ascii_defs)
  ultimately show ?thesis
    by (simp add: commit_typed_def stage_check_def check_work_def sample_written_def new_stage_def smooth_commit_def is_i64_def limits
      sample_root_def stage_path_def staged_header_name publish_def Let_def file_at_def sample_spool_def put_file_def may_rename_to_def
      stage_control_def insert_key_def)
qed

theorem staged_upload_accepted_witness:
  "\<exists>t0 s1 t s2 r t' s' u hashes out. stage_begin smooth_begin staged_header 1700000000 [] = (Ok t0, s1) \<and>
     stage_feed sample_digest (\<lambda>_. (Going, \<lambda>_. smooth_turn)) [''a'', ''b''] t0 s1 = Some (t, s2) \<and>
     commit_typed sample_root smooth_commit 1700000001 t s2 = (Ok r, t', s') \<and>
     hashes_finish sample_digest u = Ok hashes \<and> validate_completion r staged_header hashes = Ok out \<and>
     file_at s' (stage_place t') ''file-0001.txt'' = Some \<lparr>sg_data = ''ab'', sg_private = True\<rparr>"
proof -
  have laws: "sha_law sample_digest" "sha_hex sample_digest"
    by (simp_all add: sha_law_def sha_hex_def sample_digest_def list_all_iff ascii_defs)
  obtain r t' s' where committed: "commit_typed sample_root smooth_commit 1700000001 sample_written sample_spool = (Ok r, t', s')"
    using sample_committed by blast
  have "file_at s' (stage_place t') (file_name staged_header 0) =
      Some \<lparr>sg_data = split_sizes (map fh_size (uh_files staged_header)) (concat [''a'', ''b'']) ! 0, sg_private = True\<rparr>"
    and "\<exists>u hashes out. hashes_finish sample_digest u = Ok hashes \<and> validate_completion r staged_header hashes = Ok out"
    using staged_upload_accepted [OF laws sample_root_checked sample_begun sample_fed committed, of "[''ab'']"]
    by (auto simp: limits)
  then show ?thesis using sample_begun sample_fed committed by (simp add: staged_header_name) blast
qed

end
