(* ===== verification/File_Stage_Quota.thy ===== *)
theory File_Stage_Quota
  imports File_Stage_Properties
begin

text \<open>
  The quota and the sweep of the upload spool. A sweep reads the whole spool before it deletes, deletes
  nothing that has not expired, and leaves room for what it was asked to reserve; with that, every
  sequence of begun, written, committed, abandoned and crashed stages keeps the spool within its limits.
\<close>

section \<open>What the spool holds\<close>

definition file_bytes :: "string \<times> spool_file \<Rightarrow> nat" where
  "file_bytes f = length (sg_data (snd f))"

definition dir_bytes :: "spool_dir \<Rightarrow> nat" where
  "dir_bytes d = sum_list (map file_bytes (sd_files d))"

definition entry_bytes :: "string \<times> spool_entry \<Rightarrow> nat" where
  "entry_bytes e = (case e of (name, Staged d) \<Rightarrow> if name = ''.lock'' then 0 else dir_bytes d | (name, Other) \<Rightarrow> 0)"

definition entry_count :: "string \<times> spool_entry \<Rightarrow> nat" where
  "entry_count e = (if fst e = ''.lock'' then 0 else 1)"

definition held_bytes :: "spool \<Rightarrow> nat" where
  "held_bytes s = sum_list (map entry_bytes s)"

definition held_stages :: "spool \<Rightarrow> nat" where
  "held_stages s = sum_list (map entry_count s)"

text \<open>A directory lists every name once, and the two that every directory has are not among its entries.\<close>

definition listing :: "(string \<times> 'a) list \<Rightarrow> bool" where
  "listing m \<longleftrightarrow> wf_map m \<and> ''.'' \<notin> set (keys m) \<and> ''..'' \<notin> set (keys m)"

definition wf_spool :: "spool \<Rightarrow> bool" where
  "wf_spool s \<longleftrightarrow> listing s \<and> (\<forall>name d. map_of s name = Some (Staged d) \<longrightarrow> listing (sd_files d))"

lemma listing_simps [simp]:
  "listing m \<Longrightarrow> listing (filter P m)"
  "listing m \<Longrightarrow> listing (remove_key k m)"
  "listing m \<Longrightarrow> k \<noteq> ''.'' \<Longrightarrow> k \<noteq> ''..'' \<Longrightarrow> listing (insert_key k v m)"
proof -
  show f: "listing m \<Longrightarrow> listing (filter P m)" for P by (auto simp: listing_def keys_def)
  show "listing m \<Longrightarrow> listing (remove_key k m)" by (simp add: remove_key_def f)
  show "listing m \<Longrightarrow> k \<noteq> ''.'' \<Longrightarrow> k \<noteq> ''..'' \<Longrightarrow> listing (insert_key k v m)"
    by (simp add: listing_def set_keys dom_def)
qed

lemma listing_wf: "listing m \<Longrightarrow> wf_map m"
  by (simp add: listing_def)

lemma wf_spool_Nil [simp]: "wf_spool []"
  by (simp add: wf_spool_def listing_def keys_def)

lemma held_remove_key_le: "held_bytes (remove_key k s) \<le> held_bytes s" "held_stages (remove_key k s) \<le> held_stages s"
  by (simp_all add: held_bytes_def held_stages_def remove_key_def sum_list_filter_le)

section \<open>The scan\<close>

lemma list_names_Ok:
  assumes "list_names io limit l names = Ok out" and "''.'' \<notin> set l" and "''..'' \<notin> set l"
  shows "out = names @ l" and "l \<noteq> [] \<Longrightarrow> length out \<le> limit"
  using assms by (induction l arbitrary: names) (fastforce split: if_splits)+

lemma entries_Ok: "entries io limit (keys m) = Ok names \<Longrightarrow> listing m \<Longrightarrow> names = keys m"
  using list_names_Ok(1) [of io limit "keys m" "[]"] by (simp add: entries_def listing_def)

lemma sum_files_Ok:
  "sum_files d names b = Ok held \<Longrightarrow> held = b + int (sum_list (map (\<lambda>n. file_bytes (n, the (map_of (sd_files d) n))) names))"
  by (induction names arbitrary: b)
    (fastforce simp: and_then_Ok_iff private_file_def file_bytes_def split: if_splits option.splits)+

lemma safe_stage_files_Ok:
  assumes "safe_stage_files io d = Ok (names, held)" and "listing (sd_files d)"
  shows "names = keys (sd_files d)" and "held = int (dir_bytes d)"
proof -
  from assms show n: "names = keys (sd_files d)" by (auto simp: safe_stage_files_def and_then_Ok_iff dest!: entries_Ok)
  from assms(1) have "sum_files d names 0 = Ok held" by (auto simp: safe_stage_files_def and_then_Ok_iff)
  from sum_files_Ok [OF this] show "held = int (dir_bytes d)"
    using sum_over_keys [of "sd_files d" file_bytes "\<lambda>_. True"] listing_wf [OF assms(2)] by (simp add: n dir_bytes_def)
qed

text \<open>What a sweep at \<open>now\<close> deletes, and what it insists on before it deletes anything.\<close>

definition lapsed :: "int \<Rightarrow> spool \<Rightarrow> string \<Rightarrow> bool" where
  "lapsed now s name \<longleftrightarrow> name \<noteq> ''.lock'' \<and>
     (case map_of s name of Some (Staged d) \<Rightarrow> stage_expired now name d = Ok True | _ \<Rightarrow> False)"

definition orderly :: "spool_io \<Rightarrow> int \<Rightarrow> spool \<Rightarrow> string \<Rightarrow> bool" where
  "orderly io now s name \<longleftrightarrow> name = ''.lock'' \<or>
     (case map_of s name of
        Some (Staged d) \<Rightarrow> is_Ok (stage_expired now name d) \<and> is_Ok (safe_stage_files io d)
      | _ \<Rightarrow> False)"

lemma scan_spool_Ok:
  assumes "scan_spool io now s names used stages expired = Ok (used', stages', expired')" and "wf_spool s"
  shows "expired' = expired @ filter (lapsed now s) names \<and> list_all (orderly io now s) names \<and>
    used' = used + int (sum_list (map (\<lambda>n. entry_bytes (n, the (map_of s n))) (filter (\<lambda>n. \<not> lapsed now s n) names))) \<and>
    stages' = stages + sum_list (map (\<lambda>n. entry_count (n, the (map_of s n))) (filter (\<lambda>n. \<not> lapsed now s n) names))"
  using assms(1)
proof (induction names arbitrary: used stages expired)
  case (Cons name names)
  show ?case
  proof (cases "name = ''.lock''")
    case True
    then show ?thesis
      using Cons by (auto simp: and_then_Ok_iff lapsed_def orderly_def entry_bytes_def entry_count_def split: spool_entry.splits)
  next
    case False
    with Cons.prems obtain d gone fs held where d: "map_of s name = Some (Staged d)" and g: "stage_expired now name d = Ok gone"
      and f: "safe_stage_files io d = Ok (fs, held)"
      by (auto simp: and_then_Ok_iff open_dir_def split: option.splits spool_entry.splits)
    have held: "held = int (dir_bytes d)" using safe_stage_files_Ok(2) [OF f] assms(2) d by (simp add: wf_spool_def)
    have l: "lapsed now s name \<longleftrightarrow> gone" "orderly io now s name" using False d g f by (simp_all add: lapsed_def orderly_def)
    obtain u where "check_work (sv_scan io name) = Ok u" using Cons.prems by (auto simp: and_then_Ok_iff)
    then show ?thesis
      using Cons.prems False
      by (auto simp: d g f open_dir_def l held entry_bytes_def entry_count_def split: if_splits dest!: Cons.IH)
  qed
qed simp

section \<open>Deleting\<close>

lemma unlink_files_filters: "unlink_files io name fs d = (r, d') \<Longrightarrow> \<exists>P. d' = d\<lparr>sd_files := filter P (sd_files d)\<rparr>"
proof (induction fs arbitrary: d)
  case Nil
  then have "d' = d\<lparr>sd_files := filter (\<lambda>_. True) (sd_files d)\<rparr>" by simp
  then show ?case by blast
next
  case (Cons f fs)
  show ?case
  proof (cases "sv_unlink io name f")
    case True
    then obtain P where "d' = d\<lparr>sd_files := filter P (remove_key f (sd_files d))\<rparr>" using Cons by fastforce
    then have "d' = d\<lparr>sd_files := filter (\<lambda>e. fst e \<noteq> f \<and> P e) (sd_files d)\<rparr>" by (simp add: remove_key_def)
    then show ?thesis by blast
  next
    case False
    then have "d' = d\<lparr>sd_files := filter (\<lambda>_. True) (sd_files d)\<rparr>" using Cons.prems by simp
    then show ?thesis by blast
  qed
qed

text \<open>A stage may lose files, or go.\<close>

definition shrinks :: "string \<Rightarrow> spool \<Rightarrow> spool \<Rightarrow> bool" where
  "shrinks name s s' \<longleftrightarrow> s' = s \<or> s' = remove_key name s \<or>
     (\<exists>d P. map_of s name = Some (Staged d) \<and> s' = insert_key name (Staged (d\<lparr>sd_files := filter P (sd_files d)\<rparr>)) s)"

lemma remove_stage_shrinks:
  assumes "remove_stage io name s = (r, s')"
  shows "shrinks name s s'" and "r = Ok () \<Longrightarrow> s' = remove_key name s"
  using assms map_of_None_remove_key [of s name] unlink_files_filters [of io name]
  by (fastforce simp: remove_stage_def shrinks_def open_dir_def split: if_splits sum.splits option.splits spool_entry.splits prod.splits)+

lemma shrinks_less:
  assumes "shrinks name s s'" and "wf_spool s"
  shows "wf_spool s'" and "held_bytes s' \<le> held_bytes s" and "held_stages s' \<le> held_stages s"
    and "other \<noteq> name \<Longrightarrow> map_of s' other = map_of s other"
proof -
  have name: "name \<noteq> ''.'' \<and> name \<noteq> ''..''" if "map_of s name = Some e" for e
    using assms(2) that by (auto simp: wf_spool_def listing_def set_keys)
  show "wf_spool s'" using assms name by (auto simp: shrinks_def wf_spool_def split: if_splits)
  show "other \<noteq> name \<Longrightarrow> map_of s' other = map_of s other" using assms(1) by (auto simp: shrinks_def)
  show "held_bytes s' \<le> held_bytes s"
    using assms(1) held_remove_key_le(1) sum_remove_key [OF listing_wf, of s name _ entry_bytes] assms(2)
      sum_list_filter_le [of file_bytes]
    by (auto simp: shrinks_def wf_spool_def held_bytes_def sum_insert_key entry_bytes_def dir_bytes_def)
  show "held_stages s' \<le> held_stages s"
    using assms(1) held_remove_key_le(2) sum_remove_key [OF listing_wf, of s name _ entry_count] assms(2)
    by (auto simp: shrinks_def wf_spool_def held_stages_def sum_insert_key entry_count_def)
qed

lemma remove_expired_less:
  assumes "remove_expired io names s = (r, s')" and "wf_spool s"
  shows "wf_spool s' \<and> held_bytes s' \<le> held_bytes s \<and> held_stages s' \<le> held_stages s \<and>
    (\<forall>other. other \<notin> set names \<longrightarrow> map_of s' other = map_of s other) \<and>
    (r = Ok () \<longrightarrow> s' = filter (\<lambda>e. fst e \<notin> set names) s)"
  using assms
proof (induction names arbitrary: s)
  case (Cons name names)
  show ?case
  proof (cases "check_work (sv_delete io name)")
    case (Inl e)
    then show ?thesis using Cons.prems by auto
  next
    case (Inr u)
    obtain r1 s1 where one: "remove_stage io name s = (r1, s1)" by fastforce
    note sh = shrinks_less [OF remove_stage_shrinks(1) [OF one] Cons.prems(2)]
    show ?thesis
    proof (cases r1)
      case (Inl e)
      then show ?thesis using Cons.prems(1) \<open>check_work _ = _\<close> one sh by auto
    next
      case (Inr v)
      have s1: "s1 = remove_key name s" using remove_stage_shrinks(2) [OF one] Inr by simp
      have "remove_expired io names s1 = (r, s')" using Cons.prems(1) \<open>check_work _ = _\<close> one Inr by simp
      note rest = Cons.IH [OF this sh(1)]
      have "filter (\<lambda>e. fst e \<notin> set names) s1 = filter (\<lambda>e. fst e \<notin> set (name # names)) s" by (simp add: s1 remove_key_def conj_commute)
      then show ?thesis using rest sh by auto
    qed
  qed
qed simp

section \<open>The sweep\<close>

lemma sweep_locked_cases:
  assumes "sweep_locked io now reserve s = (r, s')" and "listing s"
  obtains (refused) "s' = s" "r \<noteq> Ok ()"
  | (scanned) used stages expired where "scan_spool io now s (keys s) 0 0 [] = Ok (used, stages, expired)"
      "r = Ok () \<longleftrightarrow> fst (remove_expired io expired s) = Ok () \<and> \<not> (SPOOL_MAX - used < reserve \<or> (0 < reserve \<and> MAX_STAGES \<le> stages))"
      "s' = snd (remove_expired io expired s)"
proof (cases "now < 1 \<or> reserve < 0 \<or> SPOOL_MAX < reserve")
  case True
  then show ?thesis using assms(1) refused by (auto simp: sweep_locked_def)
next
  case ok: False
  show ?thesis
  proof (cases "entries io MAX_SCAN (keys s)")
    case (Inl e)
    then show ?thesis using assms(1) ok refused by (auto simp: sweep_locked_def)
  next
    case (Inr names)
    then have names: "entries io MAX_SCAN (keys s) = Ok (keys s)" using entries_Ok assms(2) by simp
    show ?thesis
    proof (cases "scan_spool io now s (keys s) 0 0 []")
      case (Inl e)
      then show ?thesis using assms(1) ok refused names by (auto simp: sweep_locked_def)
    next
      case (Inr scan)
      obtain used stages expired where "scan = (used, stages, expired)" by (cases scan)
      with Inr show ?thesis
        using scanned [of used stages expired] assms(1) ok names
        by (cases "fst (remove_expired io expired s)") (auto simp: sweep_locked_def split: prod.splits if_splits)
    qed
  qed
qed

lemma sweep_locked_result:
  assumes "sweep_locked io now reserve s = (r, s')" and "wf_spool s"
  shows "wf_spool s'" and "held_bytes s' \<le> held_bytes s" and "held_stages s' \<le> held_stages s"
    and "\<not> lapsed now s name \<Longrightarrow> map_of s' name = map_of s name"
    and "s' \<noteq> s \<Longrightarrow> list_all (orderly io now s) (keys s)"
    and "r = Ok () \<Longrightarrow> s' = filter (\<lambda>e. \<not> lapsed now s (fst e)) s"
    and "r = Ok () \<Longrightarrow> reserve \<le> SPOOL_MAX - int (held_bytes s')"
    and "r = Ok () \<Longrightarrow> 0 < reserve \<Longrightarrow> held_stages s' < MAX_STAGES"
proof -
  have listing: "listing s" using assms(2) by (simp add: wf_spool_def)
  have "wf_spool s' \<and> held_bytes s' \<le> held_bytes s \<and> held_stages s' \<le> held_stages s \<and>
     (\<forall>name. \<not> lapsed now s name \<longrightarrow> map_of s' name = map_of s name) \<and>
     (s' \<noteq> s \<longrightarrow> list_all (orderly io now s) (keys s)) \<and>
     (r = Ok () \<longrightarrow> s' = filter (\<lambda>e. \<not> lapsed now s (fst e)) s \<and> reserve \<le> SPOOL_MAX - int (held_bytes s') \<and>
        (0 < reserve \<longrightarrow> held_stages s' < MAX_STAGES))"
    using assms(1) listing
  proof (cases rule: sweep_locked_cases)
    case (scanned used stages expired)
    note scan = scan_spool_Ok [OF scanned(1) assms(2)]
    have rem: "remove_expired io expired s = (fst (remove_expired io expired s), s')" by (simp add: scanned(3))
    note less = remove_expired_less [OF rem assms(2)]
    have ex: "expired = filter (lapsed now s) (keys s)" using scan by simp
    have kept: "filter (\<lambda>e. fst e \<notin> set expired) s = filter (\<lambda>e. \<not> lapsed now s (fst e)) s"
      by (rule filter_cong) (auto simp: ex keys_def)
    have sums: "used = int (held_bytes (filter (\<lambda>e. \<not> lapsed now s (fst e)) s))"
      "stages = held_stages (filter (\<lambda>e. \<not> lapsed now s (fst e)) s)"
      using scan sum_over_keys [OF listing_wf, of s entry_bytes "\<lambda>n. \<not> lapsed now s n"]
        sum_over_keys [OF listing_wf, of s entry_count "\<lambda>n. \<not> lapsed now s n"] assms(2)
      by (simp_all add: wf_spool_def held_bytes_def held_stages_def)
    have same: "\<not> lapsed now s name \<Longrightarrow> map_of s' name = map_of s name" for name using less by (simp add: ex)
    show ?thesis
    proof (cases "r = Ok ()")
      case True
      then have "s' = filter (\<lambda>e. \<not> lapsed now s (fst e)) s" using scanned(2) less kept by simp
      moreover have "reserve \<le> SPOOL_MAX - used" "0 < reserve \<longrightarrow> stages < MAX_STAGES" using True scanned(2) by auto
      ultimately show ?thesis using less scan same sums by simp
    qed (use less scan same in simp)
  qed (use assms(2) in simp)
  then show "wf_spool s'" "held_bytes s' \<le> held_bytes s" "held_stages s' \<le> held_stages s"
    "\<not> lapsed now s name \<Longrightarrow> map_of s' name = map_of s name" "s' \<noteq> s \<Longrightarrow> list_all (orderly io now s) (keys s)"
    "r = Ok () \<Longrightarrow> s' = filter (\<lambda>e. \<not> lapsed now s (fst e)) s" "r = Ok () \<Longrightarrow> reserve \<le> SPOOL_MAX - int (held_bytes s')"
    "r = Ok () \<Longrightarrow> 0 < reserve \<Longrightarrow> held_stages s' < MAX_STAGES"
    by blast+
qed

section \<open>The bytes of the active stage\<close>

definition data_bytes :: "spool_dir \<Rightarrow> nat" where
  "data_bytes d = sum_list (map file_bytes (remove_key ''manifest.json'' (sd_files d)))"

definition manifest_bytes :: "spool_dir \<Rightarrow> nat" where
  "manifest_bytes d = (case map_of (sd_files d) ''manifest.json'' of None \<Rightarrow> 0 | Some f \<Rightarrow> length (sg_data f))"

text \<open>The two parts of the directory of a stage; a place that holds no directory holds nothing.\<close>

definition data_in :: "spool \<Rightarrow> string \<Rightarrow> nat" where
  "data_in s p = (case map_of s p of Some (Staged d) \<Rightarrow> data_bytes d | _ \<Rightarrow> 0)"

definition manifest_in :: "spool \<Rightarrow> string \<Rightarrow> nat" where
  "manifest_in s p = (case map_of s p of Some (Staged d) \<Rightarrow> manifest_bytes d | _ \<Rightarrow> 0)"

lemma dir_bytes_parts: "wf_map (sd_files d) \<Longrightarrow> dir_bytes d = data_bytes d + manifest_bytes d"
  using sum_remove_key [of "sd_files d" "''manifest.json''" _ file_bytes] map_of_None_remove_key [of "sd_files d" "''manifest.json''"]
  by (auto simp: dir_bytes_def data_bytes_def manifest_bytes_def file_bytes_def split: option.splits)

lemma held_bytes_parts:
  assumes "wf_spool s"
  shows "held_bytes s \<le> held_bytes (remove_key p s) + data_in s p + manifest_in s p" and "held_stages s \<le> held_stages (remove_key p s) + 1"
proof -
  have wf: "wf_map s" using assms by (simp add: wf_spool_def listing_wf)
  show "held_stages s \<le> held_stages (remove_key p s) + 1"
    using sum_remove_key [OF wf, of p _ entry_count] map_of_None_remove_key [of s p]
    by (cases "map_of s p") (simp_all add: held_stages_def entry_count_def)
  show "held_bytes s \<le> held_bytes (remove_key p s) + data_in s p + manifest_in s p"
  proof (cases "map_of s p")
    case None
    then show ?thesis by (simp add: map_of_None_remove_key)
  next
    case (Some e)
    then show ?thesis
      using sum_remove_key [OF wf Some, of entry_bytes] assms
      by (auto simp: held_bytes_def data_in_def manifest_in_def entry_bytes_def wf_spool_def dir_bytes_parts listing_wf split: spool_entry.splits)
  qed
qed

lemma put_file_frame:
  "remove_key p (put_file p name data s) = remove_key p s"
  by (simp add: put_file_def split: option.splits spool_entry.splits)

lemma put_file_wf:
  assumes "wf_spool s" and "name \<noteq> ''.''" and "name \<noteq> ''..''"
  shows "wf_spool (put_file p name data s)"
proof (cases "\<exists>d. map_of s p = Some (Staged d)")
  case True
  then obtain d where d: "map_of s p = Some (Staged d)" by blast
  have "p \<noteq> ''.'' \<and> p \<noteq> ''..''" using assms(1) d by (auto simp: wf_spool_def listing_def set_keys)
  then show ?thesis using assms d by (auto simp: put_file_def wf_spool_def split: if_splits)
next
  case False
  then show ?thesis using assms(1) by (auto simp: put_file_def split: option.splits spool_entry.splits)
qed

lemma put_file_bytes:
  assumes "wf_spool s"
  shows "name \<noteq> ''manifest.json'' \<Longrightarrow> data_in (put_file p name (data_at s p name @ extra) s) p \<le> data_in s p + length extra"
    and "name \<noteq> ''manifest.json'' \<Longrightarrow> manifest_in (put_file p name data s) p = manifest_in s p"
    and "data_in (put_file p ''manifest.json'' data s) p = data_in s p"
    and "manifest_in (put_file p ''manifest.json'' data s) p \<le> length data"
proof -
  have swap: "remove_key ''manifest.json'' (insert_key name f fs) = insert_key name f (remove_key ''manifest.json'' fs)"
    if "name \<noteq> ''manifest.json''" for name fs and f :: spool_file
    using that by (simp add: remove_key_def insert_key_def conj_commute)
  have old: "sum_list (map file_bytes (remove_key name fs)) + length (case map_of fs name of None \<Rightarrow> [] | Some f \<Rightarrow> sg_data f) = sum_list (map file_bytes fs)"
    if "wf_map fs" for name fs
    using sum_remove_key [OF that, of name _ file_bytes] map_of_None_remove_key [of fs name] by (auto simp: file_bytes_def split: option.splits)
  have wf: "wf_map (sd_files d)" if "map_of s p = Some (Staged d)" for d using assms that by (simp add: wf_spool_def listing_wf)
  show "data_in (put_file p name (data_at s p name @ extra) s) p \<le> data_in s p + length extra" if n: "name \<noteq> ''manifest.json''"
  proof (cases "\<exists>d. map_of s p = Some (Staged d)")
    case True
    then obtain d where d: "map_of s p = Some (Staged d)" by blast
    show ?thesis
      using old [of "remove_key ''manifest.json'' (sd_files d)" name] wf [OF d] n
      by (simp add: data_in_def d put_file_def data_bytes_def swap sum_insert_key data_at_def file_at_def file_bytes_def)
  next
    case False
    then show ?thesis by (auto simp: data_in_def put_file_def split: option.splits spool_entry.splits)
  qed
  show "manifest_in (put_file p name data s) p = manifest_in s p" if "name \<noteq> ''manifest.json''"
    using that by (auto simp: manifest_in_def put_file_def manifest_bytes_def split: option.splits spool_entry.splits)
  show "data_in (put_file p ''manifest.json'' data s) p = data_in s p"
    by (auto simp: data_in_def put_file_def data_bytes_def split: option.splits spool_entry.splits)
  show "manifest_in (put_file p ''manifest.json'' data s) p \<le> length data"
    by (auto simp: manifest_in_def put_file_def manifest_bytes_def split: option.splits spool_entry.splits)
qed

lemma file_name_other: "file_name h i \<noteq> ''manifest.json''" "file_name h i \<noteq> ''.''" "file_name h i \<noteq> ''..''"
  by (simp_all add: file_name_def Let_def)

text \<open>What a piece of work on the stage \<open>t\<close> adds to the files at its place, at most.\<close>

definition adds :: "nat \<Rightarrow> 'h stage \<Rightarrow> spool \<Rightarrow> 'h stage \<Rightarrow> spool \<Rightarrow> bool" where
  "adds n t s t' s' \<longleftrightarrow> wf_spool s' \<and> tg_header t' = tg_header t \<and> tg_name t' = tg_name t \<and> tg_final t' = tg_final t \<and>
     remove_key (stage_place t) s' = remove_key (stage_place t) s \<and> manifest_in s' (stage_place t) = manifest_in s (stage_place t) \<and>
     data_in s' (stage_place t) \<le> data_in s (stage_place t) + n"

lemma adds_same_place: "adds n t s t' s' \<Longrightarrow> stage_place t' = stage_place t"
  by (auto simp: adds_def stage_place_def split: option.split)

lemma adds_mono: "adds n t s t' s' \<Longrightarrow> n \<le> k \<Longrightarrow> adds k t s t' s'"
  by (simp add: adds_def)

lemma adds_trans: "adds n t s t1 s1 \<Longrightarrow> adds k t1 s1 t2 s2 \<Longrightarrow> adds (n + k) t s t2 s2"
  using adds_same_place [of n t s t1 s1] by (auto simp: adds_def)

lemma adds_refl [simp]: "wf_spool s \<Longrightarrow> adds 0 t s t s"
  by (simp add: adds_def)

lemma adds_put:
  assumes "wf_spool s" and "name = file_name (tg_header t) i" and "tg_header t' = tg_header t" "tg_name t' = tg_name t" "tg_final t' = tg_final t"
  shows "adds (length extra) t s t' (put_file (stage_place t) name (data_at s (stage_place t) name @ extra) s)"
  using put_file_bytes [OF assms(1)] put_file_wf [OF assms(1)] assms(2-) by (simp add: adds_def put_file_frame file_name_other)

lemma open_current_adds:
  assumes "open_current sh io t s = (r, s')" and "wf_spool s"
  shows "adds 0 t s t s'"
proof (cases "s' = s")
  case False
  let ?n = "file_name (tg_header t) (length (tg_hashes t))"
  from assms(1) False have "s' = put_file (stage_place t) ?n (data_at s (stage_place t) ?n @ []) s"
    by (auto simp: open_current_def Let_def data_at_def split: option.splits if_splits)
  then show ?thesis using adds_put [OF assms(2), of ?n t _ t "[]"] by simp
qed (use assms(2) in simp)

lemma stage_place_update [simp]:
  "stage_place (t\<lparr>tg_current := c\<rparr>) = stage_place t" "stage_place (t\<lparr>tg_total := n\<rparr>) = stage_place t"
  "stage_place (t\<lparr>tg_hashes := h\<rparr>) = stage_place t" "stage_place (t\<lparr>tg_failed := b\<rparr>) = stage_place t"
  "stage_place (t\<lparr>tg_final := Some f\<rparr>) = f"
  by (simp_all add: stage_place_def split: option.split)

lemma write_turn_adds:
  assumes "write_turn sh io data t s = (r, t', s')" and wf: "wf_spool s"
  shows "adds (length data) t s t' s' \<and>
    (\<forall>rest. r = Ok rest \<longrightarrow> length rest \<le> length data \<and> adds (length data - length rest) t s t' s' \<and>
       tg_total t' = tg_total t + int (length data - length rest))"
proof -
  obtain oc s1 where oc: "open_current sh io t s = (oc, s1)" by fastforce
  note opened = open_current_adds [OF oc wf]
  have wf1: "wf_spool s1" using opened by (simp add: adds_def)
  let ?n = "file_name (tg_header t) (length (tg_hashes t))"
  have put: "adds (min (length data) k) t s tt (put_file (stage_place t) ?n (data_at s1 (stage_place t) ?n @ take k data) s1)"
    if "tg_header tt = tg_header t" "tg_name tt = tg_name t" "tg_final tt = tg_final t" for k tt
    using adds_trans [OF opened adds_put [where extra = "take k data", OF wf1 refl that]] by simp
  have part: "adds (length data) t s tt (put_file (stage_place t) ?n (data_at s1 (stage_place t) ?n @ take k data) s1)"
    if "tg_header tt = tg_header t" "tg_name tt = tg_name t" "tg_final tt = tg_final t" for k tt
    by (rule adds_mono [OF put [OF that]]) simp
  have still: "adds (length data) t s tt s1"
    if "tg_header tt = tg_header t" "tg_name tt = tg_name t" "tg_final tt = tg_final t" for tt
    using opened that by (auto simp: adds_def)
  have none: "adds (length data) t s t s" using wf by (rule adds_mono [OF adds_refl]) simp
  show ?thesis
  proof (cases "is_Ok (stage_check (tu_work io) t) \<and> \<not> length (uh_files (tg_header t)) \<le> length (tg_hashes t)")
    case False
    then show ?thesis using assms(1) none by (auto simp: write_turn_def split: sum.splits if_splits)
  next
    case True
    then obtain u where u: "stage_check (tu_work io) t = Ok u" by (cases "stage_check (tu_work io) t") auto
    show ?thesis
    proof (cases oc)
      case (Inl e)
      then show ?thesis using assms(1) True u oc still by (auto simp: write_turn_def Let_def)
    next
      case (Inr cu)
      let ?room = "fh_size (uh_files (tg_header t) ! length (tg_hashes t)) - cu_written cu"
      let ?k = "min (nat ?room) (length data)"
      show ?thesis
      proof (cases "?room < 0 \<or> tu_short io \<noteq> None")
        case short: True
        then show ?thesis
          using assms(1) True u oc Inr still by (auto simp: write_turn_def Let_def split: if_splits intro!: part)
      next
        case False
        then have "s' = put_file (stage_place t) ?n (data_at s1 (stage_place t) ?n @ take ?k data) s1"
          and t': "tg_header t' = tg_header t" "tg_name t' = tg_name t" "tg_final t' = tg_final t"
          and r: "r = Ok rest \<Longrightarrow> rest = drop ?k data \<and> tg_total t' = tg_total t + int ?k" for rest
          using assms(1) True u oc Inr by (auto simp: write_turn_def Let_def split: if_splits)
        with put [OF t', of ?k] have one: "adds ?k t s t' s'" by simp
        moreover have "adds (length data) t s t' s'" by (rule adds_mono [OF one]) simp
        moreover have "length data - length rest = ?k" if "rest = drop ?k data" for rest using that by simp
        ultimately show ?thesis using r by fastforce
      qed
    qed
  qed
qed

lemma write_inner_adds:
  assumes "write_inner sh io data t s = (r, t', s')" and "wf_spool s"
  shows "adds (length data) t s t' s' \<and> (is_Ok r \<longrightarrow> tg_total t' = tg_total t + int (length data))"
  using assms
proof (induction sh io data t s rule: write_inner.induct)
  case (1 sh io data t s)
  show ?case
  proof (cases "data = []")
    case True
    then show ?thesis using "1.prems" by (auto simp: write_inner.simps)
  next
    case False
    obtain r1 t1 s1 where one: "write_turn sh (io (length (tg_hashes t))) data t s = (r1, t1, s1)" by (metis prod_cases3)
    note turn = write_turn_adds [OF one "1.prems"(2)]
    show ?thesis
    proof (cases r1)
      case (Inl e)
      then show ?thesis using "1.prems"(1) False one turn by (subst (asm) write_inner.simps) auto
    next
      case (Inr rest)
      have rest: "length rest \<le> length data" "adds (length data - length rest) t s t1 s1"
        "tg_total t1 = tg_total t + int (length data - length rest)" using turn Inr by blast+
      have "write_inner sh io rest t1 s1 = (r, t', s')" using "1.prems"(1) False one Inr by (subst (asm) write_inner.simps) simp
      with "1.IH" [OF False one [symmetric] Inr] rest(2)
      have next_turn: "adds (length rest) t1 s1 t' s' \<and> (is_Ok r \<longrightarrow> tg_total t' = tg_total t1 + int (length rest))" by (simp add: adds_def)
      show ?thesis using adds_trans [OF rest(2) conjunct1 [OF next_turn]] next_turn rest by simp
    qed
  qed
qed

section \<open>The runs of the staging\<close>

text \<open>
  The spool and the stage that holds its lock. A crash abandons the stage with its directory as it is;
  the system stamps a directory with the time of its last change, whichever that is.
\<close>

inductive stage_step :: "'h sha \<Rightarrow> string \<Rightarrow> 'h stage option \<times> spool \<Rightarrow> 'h stage option \<times> spool \<Rightarrow> bool" for sh root where
  begun: "stage_begin io header started s = (Ok t, s') \<Longrightarrow> stage_step sh root (None, s) (Some t, s')"
| not_begun: "stage_begin io header started s = ((Err e :: (stage_error, 'h stage) result), s') \<Longrightarrow> stage_step sh root (None, s) (None, s')"
| swept: "stage_sweep io now s = (r, s') \<Longrightarrow> stage_step sh root (None, s) (None, s')"
| written: "stage_write sh w tio data t s = (r, t', s') \<Longrightarrow> stage_step sh root (Some t, s) (Some t', s')"
| committed: "commit_typed root cio completed t s = (r, t', s') \<Longrightarrow> stage_step sh root (Some t, s) (Some t', s')"
| accepted: "stage_step sh root (Some t, s) (None, stage_drop sio (stage_accept t) s)"
| abandoned: "stage_step sh root (Some t, s) (None, stage_drop sio t s)"
| crashed: "stage_step sh root (Some t, s) (None, s)"
| stamped: "map_of s name = Some (Staged d) \<Longrightarrow> stage_step sh root (a, s) (a, insert_key name (Staged (d\<lparr>sd_modified := m\<rparr>)) s)"

text \<open>What an active stage may still write has been reserved.\<close>

definition reserved :: "'h stage \<Rightarrow> spool \<Rightarrow> bool" where
  "reserved t s \<longleftrightarrow>
     (let p = stage_place t; room = uh_total_bytes (tg_header t) in
      int (held_bytes (remove_key p s)) + room + MANIFEST_RESERVATION \<le> SPOOL_MAX \<and> held_stages (remove_key p s) < MAX_STAGES \<and>
      manifest_in s p \<le> 65536 \<and> int (data_in s p) \<le> room \<and>
      (\<not> tg_failed t \<and> tg_final t = None \<longrightarrow> int (data_in s p) \<le> tg_total t))"

definition within_quota :: "spool \<Rightarrow> bool" where
  "within_quota s \<longleftrightarrow> int (held_bytes s) \<le> SPOOL_MAX \<and> held_stages s \<le> MAX_STAGES"

definition spool_ok :: "'h stage option \<times> spool \<Rightarrow> bool" where
  "spool_ok st \<longleftrightarrow> wf_spool (snd st) \<and> (case fst st of None \<Rightarrow> within_quota (snd st) | Some t \<Rightarrow> reserved t (snd st))"

lemma reserved_within_quota:
  assumes "wf_spool s" and "reserved t s"
  shows "within_quota s"
  using held_bytes_parts [OF assms(1), of "stage_place t"] assms(2)
  by (simp add: reserved_def within_quota_def MANIFEST_RESERVATION_def Let_def)

lemma within_quota_mono:
  "within_quota s \<Longrightarrow> held_bytes s' \<le> held_bytes s \<Longrightarrow> held_stages s' \<le> held_stages s \<Longrightarrow> within_quota s'"
  by (simp add: within_quota_def)

lemma stage_write_keeps:
  assumes "stage_write sh w io data t s = (r, t', s')" and "wf_spool s" and "reserved t s"
  shows "wf_spool s' \<and> reserved t' s'"
proof -
  obtain r1 t1 s1 where inner: "write_inner sh io data t s = (r1, t1, s1)" by (metis prod_cases3)
  show ?thesis
  proof (cases "stage_check w t")
    case (Inl e)
    then show ?thesis using assms by (simp add: stage_write_def)
  next
    case (Inr u)
    then have fresh: "\<not> tg_failed t" "tg_final t = None" by (auto simp: stage_check_def split: if_splits)
    show ?thesis
    proof (cases "CHUNK_MAX < length data \<or> \<not> is_i64 (tg_total t + int (length data)) \<or> uh_total_bytes (tg_header t) < tg_total t + int (length data)")
      case True
      then show ?thesis using assms Inr by (auto simp: stage_write_def reserved_def Let_def)
    next
      case False
      then have out: "s' = s1" "t' = (if is_Ok r1 then t1 else t1\<lparr>tg_failed := True\<rparr>)"
        using assms(1) Inr inner by (auto simp: stage_write_def split: sum.splits)
      note ad = write_inner_adds [OF inner assms(2)]
      then have more: "adds (length data) t s t' s'" using out by (simp add: adds_def)
      show ?thesis
        using more [unfolded adds_def] adds_same_place [OF more] assms(3) fresh False out ad
        by (auto simp: reserved_def Let_def split: if_splits)
    qed
  qed
qed

lemma wf_spool_insert:
  "wf_spool s \<Longrightarrow> name \<noteq> ''.'' \<Longrightarrow> name \<noteq> ''..'' \<Longrightarrow> listing (sd_files d) \<Longrightarrow> wf_spool (insert_key name (Staged d) s)"
  by (auto simp: wf_spool_def split: if_splits)

lemma reserved_manifest:
  assumes "wf_spool s" and "reserved t s" and "length data \<le> 65536" and "tg_final t = None"
  shows "wf_spool (put_file (tg_name t) ''manifest.json'' data s) \<and> reserved t (put_file (tg_name t) ''manifest.json'' data s)"
  using assms(2-) put_file_bytes(3,4) [OF assms(1), of "tg_name t" data] put_file_wf [OF assms(1), of "''manifest.json''" "tg_name t" data]
  by (auto simp: reserved_def Let_def put_file_frame stage_place_def)

lemma reserved_renamed:
  assumes "wf_spool s" and "reserved t s" and "tg_final t = None" and "may_rename_to s name" and "name \<noteq> ''.''" and "name \<noteq> ''..''"
  shows "wf_spool (rename_stage (tg_name t) name s) \<and> reserved (t\<lparr>tg_final := Some name\<rparr>) (rename_stage (tg_name t) name s)"
proof (cases "map_of s (tg_name t)")
  case None
  then have "remove_key (tg_name t) s = s" by (rule map_of_None_remove_key)
  moreover have "data_in s name = 0" "manifest_in s name = 0"
    using assms(4) by (auto simp: may_rename_to_def data_in_def manifest_in_def data_bytes_def manifest_bytes_def split: option.splits spool_entry.splits)
  ultimately show ?thesis
    using None assms(1-3) held_remove_key_le [of name s] by (auto simp: reserved_def rename_stage_def Let_def stage_place_def)
next
  case (Some e)
  have wf: "wf_spool (insert_key name e (remove_key (tg_name t) s))"
    using assms(1,5,6) Some by (auto simp: wf_spool_def split: if_splits)
  have "remove_key name (insert_key name e (remove_key (tg_name t) s)) = remove_key name (remove_key (tg_name t) s)" by simp
  then show ?thesis
    using Some wf assms(2,3) held_remove_key_le [of name "remove_key (tg_name t) s"]
    by (auto simp: reserved_def rename_stage_def Let_def stage_place_def data_in_def manifest_in_def)
qed

lemma publish_keeps:
  assumes "publish io name res t s = (r, t', s')" and "wf_spool s" and "reserved t s" and "tg_final t = None" and "name \<noteq> ''.''" and "name \<noteq> ''..''"
  shows "wf_spool s' \<and> reserved t' s'"
proof -
  let ?m = "ci_pretty io res @ [CHR 0x0A]"
  show ?thesis
  proof (cases "65536 < ci_compact io res + 1 \<or> 65536 < length ?m \<or> file_at s (tg_name t) ''manifest.json'' \<noteq> None \<or> \<not> ci_create io")
    case True
    then have "s' = s" "t' = t \<or> t' = t\<lparr>tg_failed := True\<rparr>" using assms(1) by (auto simp: publish_def Let_def split: if_splits)
    then show ?thesis using assms(2,3) by (auto simp: reserved_def Let_def)
  next
    case False
    then have small: "length ?m \<le> 65536" by simp
    show ?thesis
    proof (cases "ci_short io")
      case (Some n)
      then have "s' = put_file (tg_name t) ''manifest.json'' (take n ?m) s" "t' = t" using False assms(1) by (auto simp: publish_def Let_def)
      moreover have "length (take n ?m) \<le> 65536" using small by simp
      ultimately show ?thesis using reserved_manifest [OF assms(2,3) _ assms(4)] by blast
    next
      case None
      let ?s = "put_file (tg_name t) ''manifest.json'' ?m s"
      note put = reserved_manifest [OF assms(2,3) small assms(4)]
      have "s' = ?s \<and> t' = t \<or> may_rename_to ?s name \<and> s' = rename_stage (tg_name t) name ?s \<and> t' = t\<lparr>tg_final := Some name\<rparr>"
        using False None assms(1) by (auto simp: publish_def Let_def split: if_splits sum.splits)
      then show ?thesis using put reserved_renamed [of ?s t name] assms(4-6) by blast
    qed
  qed
qed

lemma decimal_Cons_neq: "decimal n @ x \<noteq> ''.''" "decimal n @ x \<noteq> ''..''"
proof -
  have "decimal n \<noteq> []" by (subst decimal.simps) simp
  then obtain c cs where "decimal n = c # cs" by (cases "decimal n") auto
  moreover have "is_ascii_digit c" using decimal_digits [of n] calculation by simp
  moreover have "\<not> is_ascii_digit CHR ''.''" by code_simp
  ultimately show "decimal n @ x \<noteq> ''.''" "decimal n @ x \<noteq> ''..''" by auto
qed

lemma commit_typed_keeps:
  assumes "commit_typed root io completed t s = (r, t', s')" and "wf_spool s" and "reserved t s"
  shows "wf_spool s' \<and> reserved t' s'"
proof (cases "stage_check (ci_check io) t")
  case (Inl e)
  then show ?thesis using assms by (simp add: commit_typed_def)
next
  case (Inr u)
  then have fin: "tg_final t = None" by (auto simp: stage_check_def split: if_splits)
  let ?name = "decimal (nat (completed + WEB_TTL)) @ ''-'' @ tg_id t"
  have "s' = s \<and> (t' = t \<or> t' = t\<lparr>tg_failed := True\<rparr>) \<or> (\<exists>res. publish io ?name res t s = (r, t', s'))"
    using assms(1) Inr by (auto simp: commit_typed_def Let_def split: if_splits option.splits prod.splits)
  then show ?thesis
    using publish_keeps [OF _ assms(2,3) fin decimal_Cons_neq] assms(2,3) by (auto simp: reserved_def Let_def)
qed

lemma incoming_neq: "''.incoming-'' @ x \<noteq> ''.''" "''.incoming-'' @ x \<noteq> ''..''"
  by simp_all

lemma held_new_stage:
  assumes "wf_spool s" and "name \<noteq> ''.''" and "name \<noteq> ''..''"
  shows "wf_spool (insert_key name (Staged \<lparr>sd_files = [], sd_modified = m\<rparr>) s)"
    and "held_bytes (insert_key name (Staged \<lparr>sd_files = [], sd_modified = m\<rparr>) s) \<le> held_bytes s"
    and "held_stages (insert_key name (Staged \<lparr>sd_files = [], sd_modified = m\<rparr>) s) \<le> held_stages s + 1"
proof -
  show "wf_spool (insert_key name (Staged \<lparr>sd_files = [], sd_modified = m\<rparr>) s)"
    using assms by (simp add: wf_spool_insert listing_def keys_def)
  show "held_bytes (insert_key name (Staged \<lparr>sd_files = [], sd_modified = m\<rparr>) s) \<le> held_bytes s"
    using held_remove_key_le(1) [of name s] by (auto simp: held_bytes_def sum_insert_key entry_bytes_def dir_bytes_def)
  show "held_stages (insert_key name (Staged \<lparr>sd_files = [], sd_modified = m\<rparr>) s) \<le> held_stages s + 1"
    using held_remove_key_le(2) [of name s] by (auto simp: held_stages_def sum_insert_key entry_count_def)
qed

lemma begin_locked_keeps:
  assumes res: "begin_locked io header started s = (r, s')" and wf: "wf_spool s" and quota: "within_quota s" and pos: "0 < uh_total_bytes header"
  shows "wf_spool s' \<and> (case r of Inl e \<Rightarrow> within_quota s' | Inr t \<Rightarrow> reserved t s')"
proof -
  obtain r1 s1 where sw: "sweep_locked (bg_spool io) started (uh_total_bytes header + MANIFEST_RESERVATION) s = (r1, s1)" by fastforce
  note swept = sweep_locked_result [OF sw wf]
  have q1: "within_quota s1" using quota swept(2,3) by (rule within_quota_mono)
  show ?thesis
  proof (cases r1)
    case (Inl e)
    then show ?thesis using res sw q1 swept(1) by (auto simp: begin_locked_def)
  next
    case (Inr u)
    have free: "int (held_bytes s1) + uh_total_bytes header + MANIFEST_RESERVATION \<le> SPOOL_MAX" "held_stages s1 < MAX_STAGES"
      using swept(7,8) Inr pos by (auto simp: MANIFEST_RESERVATION_def)
    show ?thesis
    proof (cases "check_work (bg_work io 1) = Ok () \<and> bg_random io \<noteq> None \<and>
        map_of s1 (''.incoming-'' @ hex_bytes (map (the (bg_random io)) [0..<16])) = None \<and> bg_mkdir io")
      case False
      then have "s' = s1 \<and> isl r" using res sw Inr by (auto simp: begin_locked_def Let_def split: sum.splits option.splits if_splits)
      then show ?thesis using q1 swept(1) by (cases r) auto
    next
      case True
      then obtain entropy where en: "bg_random io = Some entropy" by blast
      let ?id = "hex_bytes (map entropy [0..<16])"
      let ?name = "''.incoming-'' @ ?id"
      let ?s = "insert_key ?name (Staged \<lparr>sd_files = [], sd_modified = Some (bg_clock io)\<rparr>) s1"
      note held = held_new_stage [OF swept(1) incoming_neq, of ?id "Some (bg_clock io)"]
      show ?thesis
      proof (cases "bg_opens io")
        case opens: True
        then have "r = Ok (new_stage header ?id started)" "s' = ?s" using res sw Inr True en by (auto simp: begin_locked_def Let_def)
        then show ?thesis
          using held(1) free held_remove_key_le [of ?name s1] pos
          by (simp add: reserved_def Let_def new_stage_def stage_place_def data_in_def manifest_in_def data_bytes_def manifest_bytes_def)
      next
        case False
        obtain r2 s2 where rm: "remove_stage (bg_spool io) ?name ?s = (r2, s2)" by fastforce
        then have "s' = s2" "isl r" using res sw Inr True en False by (auto simp: begin_locked_def Let_def)
        moreover have "within_quota ?s" using held free pos by (simp add: within_quota_def MANIFEST_RESERVATION_def)
        ultimately show ?thesis
          using shrinks_less [OF remove_stage_shrinks(1) [OF rm] held(1)] within_quota_mono by (cases r) auto
      qed
    qed
  qed
qed

lemma stage_begin_keeps:
  assumes "stage_begin io header started s = (r, s')" and "wf_spool s" and "within_quota s"
  shows "wf_spool s' \<and> (case r of Inl e \<Rightarrow> within_quota s' | Inr t \<Rightarrow> reserved t s')"
proof -
  have "s' = s \<and> isl r \<or> 0 < uh_total_bytes header \<and> begin_locked io header started s = (r, s')"
    using assms(1) by (auto simp: stage_begin_def validate_header_def split: sum.splits if_splits option.splits)
  then show ?thesis
  proof
    assume "s' = s \<and> isl r"
    then show ?thesis using assms(2,3) by (cases r) auto
  qed (use begin_locked_keeps assms(2,3) in blast)
qed

lemma stage_sweep_keeps: "stage_sweep io now s = (r, s') \<Longrightarrow> wf_spool s \<Longrightarrow> within_quota s \<Longrightarrow> wf_spool s' \<and> within_quota s'"
  using sweep_locked_result(1-3) [of "bg_spool io" now 0 s r s'] within_quota_mono [of s s']
  by (auto simp: stage_sweep_def split: sum.splits)

lemma stage_drop_keeps:
  assumes "wf_spool s" and "within_quota s"
  shows "wf_spool (stage_drop io t s) \<and> within_quota (stage_drop io t s)"
proof -
  obtain r s' where rm: "remove_stage io (stage_place t) s = (r, s')" by fastforce
  from shrinks_less [OF remove_stage_shrinks(1) [OF rm] assms(1)] show ?thesis
    using rm assms within_quota_mono [of s s'] by (simp add: stage_drop_def)
qed

lemma stamped_keeps:
  assumes "map_of s name = Some (Staged d)" and "wf_spool s"
    and s'_def: "s' = insert_key name (Staged (d\<lparr>sd_modified := m\<rparr>)) s"
  shows "wf_spool s'" and "within_quota s' \<longleftrightarrow> within_quota s" and "reserved t s' \<longleftrightarrow> reserved t s"
proof -
  have name: "name \<noteq> ''.''" "name \<noteq> ''..''" "listing (sd_files d)" using assms(1,2) by (auto simp: wf_spool_def listing_def set_keys)
  have eq: "sum_list (map f s') = sum_list (map f s)" "sum_list (map f (remove_key p s')) = sum_list (map f (remove_key p s))"
    if f: "f (name, Staged (d\<lparr>sd_modified := m\<rparr>)) = f (name, Staged d)" for f :: "string \<times> spool_entry \<Rightarrow> nat" and p
  proof -
    have wf: "wf_map s" using assms(2) by (simp add: wf_spool_def listing_wf)
    show "sum_list (map f s') = sum_list (map f s)" using sum_remove_key [OF wf assms(1), of f] f by (simp add: s'_def sum_insert_key)
    show "sum_list (map f (remove_key p s')) = sum_list (map f (remove_key p s))"
    proof (cases "p = name")
      case False
      then have "remove_key p s' = insert_key name (Staged (d\<lparr>sd_modified := m\<rparr>)) (remove_key p s)"
        by (simp add: s'_def remove_key_def insert_key_def conj_commute)
      then show ?thesis using sum_remove_key [OF wf_map_remove_key [OF wf], of p name "Staged d" f] assms(1) False f by (simp add: sum_insert_key)
    qed (simp add: s'_def)
  qed
  have held: "held_bytes s' = held_bytes s" "held_stages s' = held_stages s" "held_bytes (remove_key p s') = held_bytes (remove_key p s)"
    "held_stages (remove_key p s') = held_stages (remove_key p s)" for p
    unfolding held_bytes_def held_stages_def by (rule eq; simp add: entry_bytes_def entry_count_def dir_bytes_def)+
  have parts: "data_in s' p = data_in s p" "manifest_in s' p = manifest_in s p" for p
    using assms(1) by (auto simp: s'_def data_in_def manifest_in_def data_bytes_def manifest_bytes_def)
  show "wf_spool s'" using name assms(2) by (simp add: s'_def wf_spool_insert)
  show "within_quota s' \<longleftrightarrow> within_quota s" by (simp add: within_quota_def held)
  show "reserved t s' \<longleftrightarrow> reserved t s" by (simp add: reserved_def held parts)
qed

lemma stage_step_keeps:
  assumes "stage_step sh root st st'" and "spool_ok st"
  shows "spool_ok st'"
  using assms
proof cases
  case begun
  then show ?thesis using assms(2) stage_begin_keeps by (fastforce simp: spool_ok_def)
next
  case not_begun
  then show ?thesis using assms(2) stage_begin_keeps by (fastforce simp: spool_ok_def)
next
  case swept
  then show ?thesis using assms(2) stage_sweep_keeps by (fastforce simp: spool_ok_def)
next
  case written
  then show ?thesis using assms(2) stage_write_keeps by (fastforce simp: spool_ok_def)
next
  case committed
  then show ?thesis using assms(2) commit_typed_keeps by (fastforce simp: spool_ok_def)
next
  case accepted
  then show ?thesis using assms(2) stage_drop_keeps reserved_within_quota by (fastforce simp: spool_ok_def)
next
  case abandoned
  then show ?thesis using assms(2) stage_drop_keeps reserved_within_quota by (fastforce simp: spool_ok_def)
next
  case crashed
  then show ?thesis using assms(2) reserved_within_quota by (fastforce simp: spool_ok_def)
next
  case (stamped s name d a m)
  then show ?thesis using assms(2) by (auto simp: spool_ok_def stamped_keeps(1) [OF _ _ refl] stamped_keeps(2) [OF _ _ refl]
      stamped_keeps(3) [OF _ _ refl] split: option.splits)
qed

interpretation staging_run: step_invariant "stage_step sh root" spool_ok for sh root
  by unfold_locales (rule stage_step_keeps)

section \<open>Properties\<close>

text \<open>
  C11: the spool stays within its quota. Whatever sequence of uploads is begun, written to in chunks,
  committed, accepted, dropped, refused or cut short by a crash, with whatever system calls failing on
  the way, the spool holds at most 512 MiB in at most 100 stages.
\<close>

theorem spool_quota:
  assumes "(stage_step sh root)\<^sup>*\<^sup>* (None, s0) (a, s)" and "wf_spool s0" and "within_quota s0"
  shows "int (held_bytes s) \<le> SPOOL_MAX \<and> held_stages s \<le> MAX_STAGES"
proof -
  have "spool_ok (a, s)" using staging_run.run_keeps [OF assms(1)] assms(2,3) by (simp add: spool_ok_def)
  then have "within_quota s" using reserved_within_quota by (auto simp: spool_ok_def split: option.splits)
  then show ?thesis by (simp add: within_quota_def)
qed

lemma feed_run: "stage_feed sh io chunks t s = Some (t', s') \<Longrightarrow> (stage_step sh root)\<^sup>*\<^sup>* (Some t, s) (Some t', s')"
proof (induction chunks arbitrary: t s)
  case (Cons c cs)
  obtain r t1 s1 where one: "stage_write sh (fst (io (length cs))) (snd (io (length cs))) c t s = (r, t1, s1)" by (metis prod_cases3)
  then have "stage_feed sh io cs t1 s1 = Some (t', s')" using Cons.prems by (cases r) auto
  from Cons.IH [OF this] show ?case using stage_step.written [OF one] by (rule converse_rtranclp_into_rtranclp [rotated])
qed simp

theorem spool_quota_witness:
  "\<exists>s. (stage_step sample_digest sample_root)\<^sup>*\<^sup>* (None, []) (None, s) \<and> held_stages s = 1 \<and> int (held_bytes s) \<le> SPOOL_MAX"
proof -
  have "(stage_step sample_digest sample_root)\<^sup>*\<^sup>* (None, []) (None, sample_spool)"
    using stage_step.begun [OF sample_begun] feed_run [OF sample_fed] stage_step.crashed
    by (meson converse_rtranclp_into_rtranclp rtranclp.rtrancl_into_rtrancl)
  moreover have "within_quota []" by (simp add: within_quota_def held_bytes_def held_stages_def limits)
  moreover have "held_stages sample_spool = 1" by (simp add: held_stages_def sample_spool_def entry_count_def)
  ultimately show ?thesis using spool_quota [of sample_digest sample_root "[]"] by fastforce
qed

text \<open>
  A sweep removes exactly what has expired, or it reports an error. Whatever fails, an entry that
  has not expired is untouched; if a single entry of the spool is not a private stage with private files
  of the known names, nothing is deleted at all; and a sweep that succeeds leaves precisely the entries
  that have not expired, with the reservation it was asked for still free.
\<close>

lemma sweep_exact:
  assumes "sweep_locked io now reserve s = (r, s')" and "wf_spool s"
  shows "(\<forall>name. \<not> lapsed now s name \<longrightarrow> map_of s' name = map_of s name) \<and>
    (s' \<noteq> s \<longrightarrow> (\<forall>name \<in> set (keys s). orderly io now s name)) \<and>
    (r = Ok () \<longrightarrow> s' = filter (\<lambda>e. \<not> lapsed now s (fst e)) s \<and> int (held_bytes s') + reserve \<le> SPOOL_MAX)"
  using sweep_locked_result(4-7) [OF assms] by (auto simp: list_all_iff)

definition sample_kept :: string where
  "sample_kept = ''1700010801-'' @ replicate 32 CHR ''b''"

definition swept_spool :: spool where
  "swept_spool = [(''1600000000-'' @ replicate 32 CHR ''a'', Staged \<lparr>sd_files = [(''file-0001.txt'', \<lparr>sg_data = ''ab'', sg_private = True\<rparr>)], sd_modified = Some 5\<rparr>),
     (sample_kept, Staged \<lparr>sd_files = [], sd_modified = Some 7\<rparr>)]"

lemma sample_swept: "sweep_locked smooth_spool 1700000000 0 swept_spool = (Ok (), [(sample_kept, Staged \<lparr>sd_files = [], sd_modified = Some 7\<rparr>)])"
  by code_simp

end
