(* ===== verification/Completion_Tracker.thy ===== *)
theory Completion_Tracker
  imports Model Json
begin

text \<open>
  The Home's watch over the transcripts of running tasks, \<open>hmux-home/src/completion_tracker.rs\<close>, with the
  opening of a record from \<open>records.rs\<close>: a cursor per session into an append-only log, resumed where it
  stands when the file is still the same, and the task completions found behind it. What the file
  system shows is an argument, as is every look at the deadline; a read sees a file that may have
  grown since its length was taken.
\<close>

section \<open>Limits\<close>

definition TAIL_MAX :: nat where "TAIL_MAX = 8388608"
definition LINE_MAX :: nat where "LINE_MAX = 2097152"
definition TRACK_CHUNK :: nat where "TRACK_CHUNK = 32768"
definition CURSORS_MAX :: nat where "CURSORS_MAX = 4096"
definition RETAINED_MAX :: nat where "RETAINED_MAX = 4194304"
definition EMITTED_MAX :: nat where "EMITTED_MAX = 64"
definition ANCHOR_MAX :: nat where "ANCHOR_MAX = 256"

lemmas tracker_limits [limits] = TAIL_MAX_def LINE_MAX_def TRACK_CHUNK_def CURSORS_MAX_def RETAINED_MAX_def EMITTED_MAX_def ANCHOR_MAX_def

datatype track_error = TCancelled | TLimit | TUnavailable

section \<open>Opening a record\<close>

record held_file =
  hf_file :: bool
  hf_uid :: nat
  hf_dev :: nat
  hf_ino :: nat
  hf_len :: nat \<comment> \<open>the length in the metadata\<close>
  hf_data :: bytes \<comment> \<open>what reads see\<close>

record file_stat =
  st_uid :: nat
  st_dev :: nat
  st_ino :: nat

record record_fs =
  fs_user :: nat
  fs_dir :: "string list \<Rightarrow> bool" \<comment> \<open>opens as a directory, without following a link\<close>
  fs_stat :: "bool \<Rightarrow> string list \<Rightarrow> file_stat option" \<comment> \<open>before the file is opened, and after\<close>
  fs_open :: "string list \<Rightarrow> held_file option"

text \<open>The components of a path that is absolute and written in the one normal way.\<close>

definition clean_parts :: "string \<Rightarrow> string list option" where
  "clean_parts path =
     (case path of
        [] \<Rightarrow> None
      | c # rest \<Rightarrow>
          if c \<noteq> CHR ''/'' then None
          else if rest = [] then Some []
          else let parts = split_on CHR ''/'' rest in
            if list_ex (\<lambda>p. p = [] \<or> p = ''.'' \<or> p = ''..'') parts then None else Some parts)"

definition owned :: "record_fs \<Rightarrow> nat \<Rightarrow> bool" where
  "owned fs uid \<longleftrightarrow> uid = fs_user fs"

definition open_record :: "record_fs \<Rightarrow> string \<Rightarrow> string \<Rightarrow> (track_error, held_file) result" where
  "open_record fs root path =
     (case (clean_parts root, clean_parts path) of
        (Some r, Some p) \<Rightarrow>
          if take (length r) p \<noteq> r \<or> length p = length r then Err TUnavailable
          else if \<not> list_all (\<lambda>n. fs_dir fs (take n p)) [0..<length p] then Err TUnavailable
          else (case (fs_stat fs False p, fs_open fs p, fs_stat fs True p) of
              (Some before, Some held, Some after) \<Rightarrow>
                if \<not> hf_file held \<or> \<not> owned fs (hf_uid held) \<or> \<not> owned fs (st_uid before) \<or> \<not> owned fs (st_uid after) \<or>
                   st_dev before \<noteq> hf_dev held \<or> st_ino before \<noteq> hf_ino held \<or>
                   st_dev after \<noteq> hf_dev held \<or> st_ino after \<noteq> hf_ino held then Err TUnavailable
                else Ok held
            | _ \<Rightarrow> Err TUnavailable)
      | _ \<Rightarrow> Err TUnavailable)"

definition read_exact :: "held_file \<Rightarrow> nat \<Rightarrow> nat \<Rightarrow> (track_error, bytes) result" where
  "read_exact file at n =
     (if n = 0 \<or> at + n \<le> length (hf_data file) then Ok (take n (drop at (hf_data file))) else Err TUnavailable)"

section \<open>State\<close>

datatype provider = Codex | Claude

datatype binding_status = BindUnavailable | BindReady | BindAmbiguous

record binding = \<comment> \<open>the fields the tracker reads\<close>
  bd_provider :: provider
  bd_path :: string
  bd_root :: string
  bd_record_id :: string
  bd_status :: binding_status

record observation =
  ob_identity :: session_identity
  ob_binding :: "binding option"
  ob_ownership :: string

record tracked =
  td_identity :: session_identity
  td_id :: string
  td_completed_at :: string

record cursor =
  tc_ownership :: string
  tc_root :: string
  tc_path :: string
  tc_record_id :: string
  tc_dev :: nat
  tc_ino :: nat
  tc_offset :: nat
  tc_anchor :: bytes
  tc_anchor_len :: nat
  tc_armed :: bool

type_synonym tracker = "(session_identity \<times> cursor) list"

text \<open>The looks at the cancellation token and the deadline, by the place in the code and the observation.\<close>

datatype moment = AtStart | AtItem nat | AtAnchor nat bool bool | AtChunk nat nat | AtScanned nat | AtEnd

record track_io =
  ti_fs :: "nat \<Rightarrow> record_fs"
  ti_going :: "moment \<Rightarrow> bool"
  ti_sha :: "bytes \<Rightarrow> bytes"
  ti_json :: "bytes \<Rightarrow> json option"
  ti_rfc3339 :: "string \<Rightarrow> (int \<times> nat) option" \<comment> \<open>seconds and nanoseconds in UTC\<close>
  ti_clock :: "int \<Rightarrow> string" \<comment> \<open>\<open>%Y-%m-%dT%H:%M:%S\<close>\<close>

definition track_check :: "track_io \<Rightarrow> moment \<Rightarrow> (track_error, unit) result" where
  "track_check io m = (if ti_going io m then Ok () else Err TCancelled)"

section \<open>Scanning a log\<close>

text \<open>The digest of the bytes before an offset: whether the file is still the one the cursor stood in.\<close>

definition anchor :: "track_io \<Rightarrow> nat \<Rightarrow> bool \<Rightarrow> held_file \<Rightarrow> nat \<Rightarrow> (track_error, bytes \<times> nat) result" where
  "anchor io i final file offset =
     (let len = min offset ANCHOR_MAX in
      and_then (track_check io (AtAnchor i final False)) (\<lambda>_.
      and_then (read_exact file (offset - len) len) (\<lambda>raw.
      and_then (track_check io (AtAnchor i final True)) (\<lambda>_.
        Ok (ti_sha io raw, len)))))"

record 'a reader =
  rd_line :: bytes
  rd_oversized :: bool
  rd_skip :: bool
  rd_at :: nat
  rd_last :: nat
  rd_seen :: 'a

definition scan_byte :: "(bytes \<Rightarrow> nat \<Rightarrow> 'a \<Rightarrow> 'a) \<Rightarrow> 'a reader \<Rightarrow> char \<Rightarrow> 'a reader" where
  "scan_byte visit r b =
     (let r =
        (if b = CHR 0x0A then
           r\<lparr>rd_seen := (if \<not> rd_skip r \<and> \<not> rd_oversized r \<and> rd_line r \<noteq> [] then visit (rd_line r) (rd_at r - length (rd_line r)) (rd_seen r) else rd_seen r),
             rd_line := [], rd_oversized := False, rd_skip := False, rd_last := rd_at r + 1\<rparr>
         else if \<not> rd_skip r \<and> \<not> rd_oversized r then
           (if length (rd_line r) = LINE_MAX then r\<lparr>rd_line := [], rd_oversized := True\<rparr> else r\<lparr>rd_line := rd_line r @ [b]\<rparr>)
         else r) in
      r\<lparr>rd_at := rd_at r + 1\<rparr>)"

lemma scan_byte_at: "rd_at (scan_byte visit r b) = rd_at r + 1"
  by (simp add: scan_byte_def Let_def)

lemma scan_bytes_at: "rd_at (foldl (scan_byte visit) r bs) = rd_at r + length bs"
  by (induction bs arbitrary: r) (simp_all add: scan_byte_at)

function scan_loop ::
  "track_io \<Rightarrow> nat \<Rightarrow> held_file \<Rightarrow> nat \<Rightarrow> (bytes \<Rightarrow> nat \<Rightarrow> 'a \<Rightarrow> 'a) \<Rightarrow> 'a reader \<Rightarrow> (track_error, 'a reader) result" where
  "scan_loop io i file ends visit r =
     (if ends \<le> rd_at r then Ok r
      else case track_check io (AtChunk i (rd_at r)) of
        Inl e \<Rightarrow> Err e
      | Inr u \<Rightarrow>
          (case read_exact file (rd_at r) (min (ends - rd_at r) TRACK_CHUNK) of
             Inl e \<Rightarrow> Err e
           | Inr chunk \<Rightarrow> scan_loop io i file ends visit (foldl (scan_byte visit) r chunk)))"
  by pat_completeness auto
termination
proof (relation "measure (\<lambda>(io, i, file, ends, visit, r). ends - rd_at r)", goal_cases)
  case (2 io i f ends visit r u chunk)
  then have "length chunk = min (ends - rd_at r) TRACK_CHUNK" by (auto simp: read_exact_def split: if_splits)
  then show ?case using 2(1) by (simp add: scan_bytes_at TRACK_CHUNK_def)
qed simp

declare scan_loop.simps [simp del]

definition scan_log ::
  "track_io \<Rightarrow> nat \<Rightarrow> held_file \<Rightarrow> nat \<Rightarrow> nat \<Rightarrow> bool \<Rightarrow> (bytes \<Rightarrow> nat \<Rightarrow> 'a \<Rightarrow> 'a) \<Rightarrow> 'a \<Rightarrow> (track_error, nat \<times> 'a) result" where
  "scan_log io i file start ends tail visit seen =
     (if ends < start \<or> TAIL_MAX < ends - start then Err TLimit
      else
        and_then (if tail \<and> 0 < start then and_then (read_exact file (start - 1) 1) (\<lambda>previous. Ok (hd previous \<noteq> CHR 0x0A)) else Ok False) (\<lambda>skip.
        and_then (scan_loop io i file ends visit
            \<lparr>rd_line = [], rd_oversized = False, rd_skip = skip, rd_at = start, rd_last = start, rd_seen = seen\<rparr>) (\<lambda>r.
        and_then (track_check io (AtScanned i)) (\<lambda>_.
          Ok (if tail \<and> 0 < start \<and> rd_last r = start \<and> rd_skip r then ends else rd_last r, rd_seen r)))))"

section \<open>Events\<close>

text \<open>
  A derived decoder that ignores unknown fields: of an object, in which a known field may not repeat, or
  of an array with a value for every field.
\<close>

definition known_fields :: "string list \<Rightarrow> json \<Rightarrow> json list option" where
  "known_fields ks j =
     (case j of
        JObj fs \<Rightarrow> if distinct (filter (\<lambda>k. k \<in> set ks) (keys fs)) then Some (map (field fs) ks) else None
      | JArr vs \<Rightarrow> if length vs = length ks then Some vs else None
      | _ \<Rightarrow> None)"

definition payload_of :: "json \<Rightarrow> string option option" where
  "payload_of j = (case known_fields [''type''] j of Some [kind] \<Rightarrow> nullable json_string kind | _ \<Rightarrow> None)"

definition event_of :: "json \<Rightarrow> (string option \<times> string option \<times> string option option) option" where
  "event_of j =
     (case known_fields [''type'', ''timestamp'', ''payload''] j of
        Some [kind, timestamp, payload] \<Rightarrow>
          (case (nullable json_string kind, nullable json_string timestamp, nullable payload_of payload) of
             (Some k, Some t, Some p) \<Rightarrow> Some (k, t, p)
           | _ \<Rightarrow> None)
      | _ \<Rightarrow> None)"

definition trim_zeros :: "string \<Rightarrow> string" where
  "trim_zeros ds = rev (dropWhile (\<lambda>c. c = CHR ''0'') (rev ds))"

definition canonical_time :: "track_io \<Rightarrow> string \<Rightarrow> string option" where
  "canonical_time io raw =
     (case ti_rfc3339 io raw of
        None \<Rightarrow> None
      | Some (secs, nanos) \<Rightarrow>
          if secs = - 62135596800 \<and> nanos = 0 then None
          else Some (ti_clock io secs @
            (if nanos \<noteq> 0 then CHR ''.'' # trim_zeros (replicate (9 - length (decimal nanos)) CHR ''0'' @ decimal nanos) else []) @ ''Z''))"

datatype task_event = TaskStarted | TaskComplete

definition task_kind :: "string option \<Rightarrow> task_event option" where
  "task_kind k = (if k = Some ''task_started'' then Some TaskStarted else if k = Some ''task_complete'' then Some TaskComplete else None)"

definition event :: "track_io \<Rightarrow> bytes \<Rightarrow> (task_event \<times> string option) option" where
  "event io line =
     (case Option.bind (ti_json io line) event_of of
        None \<Rightarrow> None
      | Some (kind, timestamp, payload) \<Rightarrow>
          (case task_kind (if task_kind kind \<noteq> None then kind else Option.bind payload (\<lambda>k. k)) of
             None \<Rightarrow> None
           | Some k \<Rightarrow> Some (k, Option.bind timestamp (canonical_time io))))"

definition signed_decimal :: "int \<Rightarrow> string" where
  "signed_decimal n = (if n < 0 then CHR ''-'' # decimal (nat (- n)) else decimal (nat n))"

definition event_id :: "track_io \<Rightarrow> session_identity \<Rightarrow> string \<Rightarrow> nat \<Rightarrow> string" where
  "event_id io identity record_id offset =
     hex_bytes (ti_sha io (''hmux-codex-task-complete-v1'' @ [CHR 0x00] @ si_id identity @ [CHR 0x00] @
       signed_decimal (si_created_at identity) @ [CHR 0x00] @ record_id @ [CHR 0x00] @ decimal offset))"

section \<open>Observing\<close>

definition cursor_bytes :: "cursor \<Rightarrow> session_identity \<Rightarrow> nat" where
  "cursor_bytes c identity =
     length (tc_root c) + length (tc_path c) + length (tc_record_id c) + length (si_id identity) + length (tc_ownership c)"

definition tracker_forget :: "tracker \<Rightarrow> session_identity \<Rightarrow> tracker" where
  "tracker_forget t identity = remove_key identity t"

definition tracker_clear :: "tracker \<Rightarrow> tracker" where
  "tracker_clear t = []"

text \<open>What a line does: a start arms the watch, and the completion that follows is found.\<close>

definition on_line ::
  "track_io \<Rightarrow> session_identity \<Rightarrow> string \<Rightarrow> bool \<Rightarrow> nat \<Rightarrow> bytes \<Rightarrow> nat \<Rightarrow> bool \<times> tracked list \<Rightarrow> bool \<times> tracked list" where
  "on_line io identity record_id same remaining line position w =
     (case (w, event io line) of
        ((armed, found), None) \<Rightarrow> (armed, found)
      | ((armed, found), Some (TaskStarted, _)) \<Rightarrow> (True, found)
      | ((armed, found), Some (TaskComplete, timestamp)) \<Rightarrow>
          (False,
           if same \<and> armed \<and> length found < remaining then
             (case timestamp of
                None \<Rightarrow> found
              | Some t \<Rightarrow> found @ [\<lparr>td_identity = identity, td_id = event_id io identity record_id position, td_completed_at = t\<rparr>])
           else found))"

definition may_resume :: "cursor \<Rightarrow> observation \<Rightarrow> binding \<Rightarrow> held_file \<Rightarrow> bool" where
  "may_resume c item b file \<longleftrightarrow>
     tc_ownership c = ob_ownership item \<and> tc_root c = bd_root b \<and> tc_path c = bd_path b \<and> tc_record_id c = bd_record_id b \<and>
     tc_dev c = hf_dev file \<and> tc_ino c = hf_ino file \<and> tc_offset c \<le> hf_len file \<and> hf_len file - tc_offset c \<le> TAIL_MAX"

text \<open>The cursor to resume from, if the file is still the one it stood in.\<close>

definition resumes :: "track_io \<Rightarrow> nat \<Rightarrow> tracker \<Rightarrow> observation \<Rightarrow> binding \<Rightarrow> held_file \<Rightarrow> (track_error, cursor option) result" where
  "resumes io i t item b file =
     (case map_of t (ob_identity item) of
        None \<Rightarrow> Ok None
      | Some c \<Rightarrow>
          if may_resume c item b file then
            and_then (anchor io i False file (tc_offset c)) (\<lambda>(hash, len).
              Ok (if tc_anchor_len c = len \<and> tc_anchor c = hash then Some c else None))
          else Ok None)"

definition observe_one ::
  "track_io \<Rightarrow> nat \<Rightarrow> tracker \<Rightarrow> observation \<Rightarrow> binding \<Rightarrow> nat \<Rightarrow> (track_error, cursor \<times> tracked list) result" where
  "observe_one io i t item b emitted =
     (if 256 < length (ob_ownership item) then Err TLimit
      else
        and_then (open_record (ti_fs io i) (bd_root b) (bd_path b)) (\<lambda>file.
        and_then (resumes io i t item b file) (\<lambda>current.
          let start = (case current of Some c \<Rightarrow> tc_offset c | None \<Rightarrow> hf_len file - TAIL_MAX);
              armed = (case current of Some c \<Rightarrow> tc_armed c | None \<Rightarrow> False);
              same = current \<noteq> None in
          and_then (scan_log io i file start (hf_len file) (\<not> same)
              (on_line io (ob_identity item) (bd_record_id b) same (EMITTED_MAX - emitted)) (armed, [])) (\<lambda>(offset, armed, found).
          and_then (anchor io i True file offset) (\<lambda>(hash, len).
            Ok (\<lparr>tc_ownership = ob_ownership item, tc_root = bd_root b, tc_path = bd_path b, tc_record_id = bd_record_id b,
                 tc_dev = hf_dev file, tc_ino = hf_ino file, tc_offset = offset, tc_anchor = hash, tc_anchor_len = len, tc_armed = armed\<rparr>,
                found))))))"

definition usable :: "binding \<Rightarrow> bool" where
  "usable b \<longleftrightarrow> bd_provider b = Codex \<and> bd_status b = BindReady \<and> bd_path b \<noteq> [] \<and> bd_root b \<noteq> [] \<and> bd_record_id b \<noteq> []"

definition forgotten :: "tracker \<Rightarrow> nat \<Rightarrow> session_identity \<Rightarrow> tracker \<times> nat" where
  "forgotten t retained identity =
     (case map_of t identity of
        None \<Rightarrow> (t, retained)
      | Some old \<Rightarrow> (remove_key identity t, retained - cursor_bytes old identity))"

definition remembered :: "tracker \<Rightarrow> nat \<Rightarrow> session_identity \<Rightarrow> cursor \<Rightarrow> tracker \<times> nat" where
  "remembered t retained identity c =
     (insert_key identity c t,
      retained + cursor_bytes c identity - (case map_of t identity of None \<Rightarrow> 0 | Some old \<Rightarrow> cursor_bytes old identity))"

text \<open>One turn of the loop over the observations: the cursors, the bytes they retain, and what was found.\<close>

definition observe_turn ::
  "track_io \<Rightarrow> nat \<Rightarrow> observation \<Rightarrow> tracker \<Rightarrow> nat \<Rightarrow> tracked list \<Rightarrow> (track_error, nat \<times> tracked list) result \<times> tracker" where
  "observe_turn io i item t retained output =
     (case track_check io (AtItem i) of
        Inl e \<Rightarrow> (Err e, t)
      | Inr u \<Rightarrow>
          if \<not> validate_session_id (si_id (ob_identity item)) \<or> si_created_at (ob_identity item) < 1 then
            (case forgotten t retained (ob_identity item) of (t, retained) \<Rightarrow> (Ok (retained, output), t))
          else
            (case Option.bind (ob_binding item) (\<lambda>b. if usable b then Some b else None) of
               None \<Rightarrow> (case forgotten t retained (ob_identity item) of (t, retained) \<Rightarrow> (Ok (retained, output), t))
             | Some b \<Rightarrow>
                 (case observe_one io i t item b (length output) of
                    Inr (c, found) \<Rightarrow>
                      (case remembered t retained (ob_identity item) c of
                         (t, retained) \<Rightarrow> (if RETAINED_MAX < retained then Err TLimit else Ok (retained, output @ found), t))
                  | Inl e \<Rightarrow>
                      if e = TUnavailable then
                        (case forgotten t retained (ob_identity item) of (t, retained) \<Rightarrow> (Ok (retained, output), t))
                      else (Err e, t))))"

fun observe_items ::
  "track_io \<Rightarrow> nat \<Rightarrow> observation list \<Rightarrow> tracker \<Rightarrow> nat \<Rightarrow> tracked list \<Rightarrow> (track_error, nat \<times> tracked list) result \<times> tracker" where
  "observe_items io i [] t retained output = (Ok (retained, output), t)"
| "observe_items io i (item # items) t retained output =
     (case observe_turn io i item t retained output of
        (Inl e, t) \<Rightarrow> (Err e, t)
      | (Inr (retained, output), t) \<Rightarrow> observe_items io (i + 1) items t retained output)"

definition retained_bytes_of :: "tracker \<Rightarrow> nat" where
  "retained_bytes_of t = sum_list (map (\<lambda>(identity, c). cursor_bytes c identity) t)"

definition observe_inner :: "track_io \<Rightarrow> observation list \<Rightarrow> tracker \<Rightarrow> (track_error, tracked list) result \<times> tracker" where
  "observe_inner io observations t =
     (case track_check io AtStart of
        Inl e \<Rightarrow> (Err e, t)
      | Inr u \<Rightarrow>
          let identities = set (map ob_identity observations) in
          if CURSORS_MAX < card identities then (Err TLimit, t)
          else
            let t = filter (\<lambda>e. fst e \<in> identities) t; retained = retained_bytes_of t in
            if RETAINED_MAX < retained then (Err TLimit, t)
            else (case observe_items io 0 observations t retained [] of
                (Inl e, t) \<Rightarrow> (Err e, t)
              | (Inr (retained, output), t) \<Rightarrow>
                  (case track_check io AtEnd of
                     Inl e \<Rightarrow> (Err e, t)
                   | Inr u \<Rightarrow>
                       (if RETAINED_MAX < retained + sum_list (map (\<lambda>e. length (si_id (td_identity e))) output) then Err TLimit else Ok output, t))))"

definition observe :: "track_io \<Rightarrow> observation list \<Rightarrow> tracker \<Rightarrow> (track_error, tracked list) result \<times> tracker" where
  "observe io observations t =
     (case observe_inner io observations t of
        (r, t) \<Rightarrow> (r, if r = Err TCancelled \<or> r = Err TLimit then tracker_clear t else t))"

end
