(* ===== verification/Completion_Tracker_Properties.thy ===== *)
theory Completion_Tracker_Properties
  imports Completion_Tracker "HOL-Library.Sublist"
begin

text \<open>
  The scanner of a log finds exactly its complete lines of permitted length, however they fall into
  chunks; polling a growing log finds each completion once, whenever it is polled; and the tracker
  stays within its limits.
\<close>

section \<open>Complete lines\<close>

abbreviation newline :: char where
  "newline \<equiv> CHR 0x0A"

text \<open>The part of a text behind its last line break, the lines before it, and where those end.\<close>

definition partial_line :: "bytes \<Rightarrow> bytes" where
  "partial_line bs = last (split_on newline bs)"

fun lines_at :: "nat \<Rightarrow> bytes list \<Rightarrow> (bytes \<times> nat) list" where
  "lines_at p [] = []"
| "lines_at p (l # ls) = (l, p) # lines_at (p + length l + 1) ls"

definition whole_lines :: "nat \<Rightarrow> bytes \<Rightarrow> (bytes \<times> nat) list" where
  "whole_lines p bs = lines_at p (butlast (split_on newline bs))"

definition complete_part :: "bytes \<Rightarrow> bytes" where
  "complete_part bs = take (length bs - length (partial_line bs)) bs"

lemma lines_at_append: "lines_at p (ls @ ms) = lines_at p ls @ lines_at (p + sum_list (map (\<lambda>l. length l + 1) ls)) ms"
  by (induction ls arbitrary: p) (simp_all add: add.assoc)

lemma line_cases:
  obtains (none) "newline \<notin> set bs" "split_on newline bs = [bs]"
  | (some) xs ys where "bs = xs @ newline # ys" "newline \<notin> set ys" "split_on newline bs = split_on newline xs @ [ys]"
proof (cases "newline \<in> set bs")
  case True
  then obtain xs ys where "bs = xs @ newline # ys" "newline \<notin> set ys" by (meson split_list_last)
  then show thesis using some [of xs ys] by (simp add: split_on_append split_on_last)
qed (simp add: none split_on_last)

lemma partial_line_simps:
  "newline \<notin> set bs \<Longrightarrow> partial_line bs = bs" "newline \<notin> set ys \<Longrightarrow> partial_line (xs @ newline # ys) = ys"
  by (simp_all add: partial_line_def split_on_append split_on_last)

lemma whole_lines_simps:
  "newline \<notin> set bs \<Longrightarrow> whole_lines p bs = []"
  "newline \<notin> set ys \<Longrightarrow> whole_lines p (xs @ newline # ys) = lines_at p (split_on newline xs)"
  by (simp_all add: whole_lines_def split_on_append split_on_last)

lemma length_split_on: "sum_list (map (\<lambda>l. Suc (length l)) (split_on c xs)) = Suc (length xs)"
  using arg_cong [OF concat_split_on, of length c xs] by (simp add: length_concat comp_def)

lemma partial_line_suffix: "bs = complete_part bs @ partial_line bs" "partial_line (complete_part bs) = []"
    and complete_part_length: "length (complete_part bs) + length (partial_line bs) = length bs"
  by (cases bs rule: line_cases; simp add: complete_part_def partial_line_simps)+

lemma whole_lines_append:
  assumes "partial_line xs = []"
  shows "whole_lines p (xs @ ys) = whole_lines p xs @ whole_lines (p + length xs) ys"
proof (cases xs rule: line_cases)
  case none
  then show ?thesis using assms by (simp add: partial_line_def whole_lines_def)
next
  case (some us vs)
  then have "vs = []" using assms by (simp add: partial_line_simps)
  then show ?thesis
    using some by (simp add: whole_lines_def split_on_append butlast_append lines_at_append length_split_on)
qed

lemma whole_lines_complete: "whole_lines p (complete_part bs) = whole_lines p bs"
proof -
  have "newline \<notin> set (partial_line bs)" by (cases bs rule: line_cases) (simp_all add: partial_line_simps)
  then show ?thesis
    using whole_lines_append [OF partial_line_suffix(2), of p bs "partial_line bs"] partial_line_suffix(1) [of bs]
    by (simp add: whole_lines_simps)
qed

lemma whole_lines_snoc:
  "whole_lines p (bs @ [b]) =
     (if b = newline then whole_lines p bs @ [(partial_line bs, p + length (complete_part bs))] else whole_lines p bs)"
  "partial_line (bs @ [b]) = (if b = newline then [] else partial_line bs @ [b])"
proof -
  have p: "partial_line (bs @ [b]) = (if b = newline then [] else partial_line bs @ [b])"
  proof (cases "b = newline")
    case True
    then show ?thesis using partial_line_simps(2) [of "[]" bs] by simp
  next
    case False
    then show ?thesis
    proof (cases bs rule: line_cases)
      case (some xs ys)
      then show ?thesis using False partial_line_simps(2) [of "ys @ [b]" xs] by (simp add: partial_line_simps)
    qed (simp add: partial_line_simps)
  qed
  then show "partial_line (bs @ [b]) = (if b = newline then [] else partial_line bs @ [b])" .
  show "whole_lines p (bs @ [b]) =
     (if b = newline then whole_lines p bs @ [(partial_line bs, p + length (complete_part bs))] else whole_lines p bs)"
  proof (cases "b = newline")
    case True
    have "newline \<notin> set (partial_line bs)" by (cases bs rule: line_cases) (simp_all add: partial_line_simps)
    then have "whole_lines q (partial_line bs @ [newline]) = [(partial_line bs, q)]" for q
      using whole_lines_simps(2) [of "[]" q "partial_line bs"] by (simp add: split_on_last)
    moreover have "whole_lines p (bs @ [b]) = whole_lines p (complete_part bs @ partial_line bs @ [newline])"
      using arg_cong [OF partial_line_suffix(1), of "\<lambda>x. whole_lines p (x @ [newline])" bs] True by simp
    ultimately show ?thesis using True whole_lines_append [OF partial_line_suffix(2), of p bs] whole_lines_complete by simp
  next
    case False
    have "complete_part (bs @ [b]) = complete_part bs" using p False by (simp add: complete_part_def)
    then show ?thesis using whole_lines_complete [of p "bs @ [b]"] whole_lines_complete [of p bs] False by simp
  qed
qed

lemma whole_lines_empty_iff: "whole_lines p bs = [] \<longleftrightarrow> newline \<notin> set bs"
proof (cases bs rule: line_cases)
  case (some xs ys)
  moreover have "lines_at p ls \<noteq> []" if "ls \<noteq> []" for ls using that by (cases ls) simp_all
  ultimately show ?thesis by (simp add: whole_lines_simps)
qed (simp add: whole_lines_simps)

section \<open>The scanner\<close>

text \<open>What a scan shows its visitor: the complete lines, without the fragment a cut begins with.\<close>

definition fits :: "bytes \<times> nat \<Rightarrow> bool" where
  "fits lp \<longleftrightarrow> fst lp \<noteq> [] \<and> length (fst lp) \<le> LINE_MAX"

definition visible :: "bool \<Rightarrow> nat \<Rightarrow> bytes \<Rightarrow> (bytes \<times> nat) list" where
  "visible skip p bs = filter fits (if skip then tl (whole_lines p bs) else whole_lines p bs)"

definition shown :: "(bytes \<Rightarrow> nat \<Rightarrow> 'a \<Rightarrow> 'a) \<Rightarrow> 'a \<Rightarrow> (bytes \<times> nat) list \<Rightarrow> 'a" where
  "shown visit seen ls = foldl (\<lambda>a lp. visit (fst lp) (snd lp) a) seen ls"

definition reading :: "(bytes \<Rightarrow> nat \<Rightarrow> 'a \<Rightarrow> 'a) \<Rightarrow> 'a \<Rightarrow> bool \<Rightarrow> nat \<Rightarrow> bytes \<Rightarrow> 'a reader \<Rightarrow> bool" where
  "reading visit seen skip start bs r \<longleftrightarrow>
     rd_at r = start + length bs \<and> rd_last r = start + length (complete_part bs) \<and>
     rd_skip r = (skip \<and> newline \<notin> set bs) \<and>
     rd_oversized r = (\<not> rd_skip r \<and> LINE_MAX < length (partial_line bs)) \<and>
     rd_line r = (if rd_skip r \<or> rd_oversized r then [] else partial_line bs) \<and>
     rd_seen r = shown visit seen (visible skip start bs)"

lemma reading_step:
  assumes r: "reading visit seen skip start bs r"
  shows "reading visit seen skip start (bs @ [b]) (scan_byte visit r b)"
proof (cases "b = newline")
  case True
  have pos: "rd_at r - length (partial_line bs) = start + length (complete_part bs)"
    using r complete_part_length [of bs] by (simp add: reading_def)
  have len: "length (complete_part (bs @ [b])) = length bs + 1" using True by (simp add: complete_part_def whole_lines_snoc(2))
  let ?new = "(partial_line bs, start + length (complete_part bs))"
  have vis: "visible skip start (bs @ [b]) = visible skip start bs @ (if rd_skip r \<or> \<not> fits ?new then [] else [?new])"
  proof (cases "rd_skip r")
    case True
    then have "whole_lines start bs = []" "skip" using r whole_lines_empty_iff by (auto simp: reading_def)
    then show ?thesis using \<open>b = newline\<close> True by (simp add: visible_def whole_lines_snoc)
  next
    case False
    then have "skip \<Longrightarrow> whole_lines start bs \<noteq> []" using r whole_lines_empty_iff by (auto simp: reading_def)
    then show ?thesis using \<open>b = newline\<close> False by (cases "whole_lines start bs") (auto simp: visible_def whole_lines_snoc)
  qed
  show ?thesis
    using r True len pos unfolding reading_def
    by (auto simp: scan_byte_def Let_def whole_lines_snoc(2) vis [unfolded True] fits_def shown_def)
next
  case False
  have part: "partial_line (bs @ [b]) = partial_line bs @ [b]" using False by (simp add: whole_lines_snoc(2))
  then have "complete_part (bs @ [b]) = complete_part bs" by (simp add: complete_part_def)
  moreover have "visible skip start (bs @ [b]) = visible skip start bs" using False by (simp add: visible_def whole_lines_snoc(1))
  ultimately show ?thesis
    using r False unfolding reading_def by (auto simp: scan_byte_def Let_def part LINE_MAX_def)
qed

lemma reading_more: "reading visit seen skip start bs r \<Longrightarrow> reading visit seen skip start (bs @ cs) (foldl (scan_byte visit) r cs)"
proof (induction cs arbitrary: bs r)
  case (Cons c cs)
  from Cons.IH [OF reading_step [OF Cons.prems]] show ?case by simp
qed simp

lemma reading_new:
  "reading visit seen skip start [] \<lparr>rd_line = [], rd_oversized = False, rd_skip = skip, rd_at = start, rd_last = start, rd_seen = seen\<rparr>"
  by (simp add: reading_def partial_line_def complete_part_def visible_def whole_lines_def shown_def)

text \<open>The bytes of a log between two positions.\<close>

definition cut_log :: "bytes \<Rightarrow> nat \<Rightarrow> nat \<Rightarrow> bytes" where
  "cut_log log a b = take (b - a) (drop a log)"

lemma cut_log_append:
  assumes "a \<le> m" and "m \<le> b"
  shows "cut_log log a m @ cut_log log m b = cut_log log a b"
proof -
  have "b - a = (m - a) + (b - m)" using assms by simp
  then have "cut_log log a b = take (m - a) (drop a log) @ take (b - m) (drop (m - a) (drop a log))" unfolding cut_log_def by (simp only: take_add)
  then show ?thesis using assms by (simp add: cut_log_def)
qed

lemma scan_loop_Ok:
  assumes "scan_loop io i f ends visit r = Ok r'"
  shows "r' = foldl (scan_byte visit) r (cut_log (hf_data f) (rd_at r) ends) \<and> (rd_at r < ends \<longrightarrow> ends \<le> length (hf_data f))"
  using assms
proof (induction io i f ends visit r rule: scan_loop.induct)
  case (1 io i f ends visit r)
  show ?case
  proof (cases "ends \<le> rd_at r")
    case True
    then show ?thesis using "1.prems" by (simp add: scan_loop.simps [of io i f ends visit r] cut_log_def)
  next
    case False
    let ?n = "min (ends - rd_at r) TRACK_CHUNK"
    from "1.prems" False obtain u chunk where c: "track_check io (AtChunk i (rd_at r)) = Ok u" "read_exact f (rd_at r) ?n = Ok chunk"
      and rec: "scan_loop io i f ends visit (foldl (scan_byte visit) r chunk) = Ok r'"
      by (simp add: scan_loop.simps [of io i f ends visit r] split: sum.splits)
    have n: "0 < ?n" "rd_at r + ?n \<le> ends" using False by (auto simp: TRACK_CHUNK_def)
    then have chunk: "chunk = cut_log (hf_data f) (rd_at r) (rd_at r + ?n)" "rd_at r + ?n \<le> length (hf_data f)"
      using c(2) by (auto simp: read_exact_def cut_log_def split: if_splits)
    then have at: "rd_at (foldl (scan_byte visit) r chunk) = rd_at r + ?n" by (simp add: scan_bytes_at cut_log_def)
    from "1.IH" [OF False c rec]
    have "r' = foldl (scan_byte visit) (foldl (scan_byte visit) r chunk) (cut_log (hf_data f) (rd_at r + ?n) ends)"
      and "rd_at r + ?n < ends \<longrightarrow> ends \<le> length (hf_data f)" unfolding at by blast+
    then show ?thesis
      using cut_log_append [of "rd_at r" "rd_at r + ?n" ends "hf_data f"] n chunk by (auto simp flip: foldl_append)
  qed
qed

lemma scan_loop_ends:
  assumes "\<forall>m. ti_going io m" and "ends \<le> length (hf_data f)"
  shows "\<exists>r'. scan_loop io i f ends visit r = Ok r'"
  using assms
proof (induction io i f ends visit r rule: scan_loop.induct)
  case (1 io i f ends visit r)
  show ?case
  proof (cases "ends \<le> rd_at r")
    case True
    then show ?thesis by (simp add: scan_loop.simps)
  next
    case False
    let ?n = "min (ends - rd_at r) TRACK_CHUNK"
    have c: "track_check io (AtChunk i (rd_at r)) = Ok ()" using "1.prems" by (simp add: track_check_def)
    have "rd_at r + ?n \<le> length (hf_data f)" using "1.prems"(2) False by (auto simp: min_def)
    then obtain chunk where chunk: "read_exact f (rd_at r) ?n = Ok chunk" by (simp add: read_exact_def)
    from "1.IH" [OF False c chunk "1.prems"] show ?thesis using False c chunk by (simp add: scan_loop.simps [of io i f ends visit r])
  qed
qed

section \<open>A scan is its reference\<close>

text \<open>Whether a scan from \<open>start\<close> begins inside a line, and where it says the next one should begin.\<close>

definition begins_inside :: "bytes \<Rightarrow> nat \<Rightarrow> bool \<Rightarrow> bool" where
  "begins_inside log start tail \<longleftrightarrow> tail \<and> 0 < start \<and> log ! (start - 1) \<noteq> newline"

definition resume_at :: "bytes \<Rightarrow> nat \<Rightarrow> nat \<Rightarrow> bool \<Rightarrow> nat" where
  "resume_at log start ends tail =
     (if begins_inside log start tail \<and> newline \<notin> set (cut_log log start ends) then ends
      else start + length (complete_part (cut_log log start ends)))"

definition log_lines :: "bytes \<Rightarrow> nat \<Rightarrow> nat \<Rightarrow> bool \<Rightarrow> (bytes \<times> nat) list" where
  "log_lines log start ends tail = visible (begins_inside log start tail) start (cut_log log start ends)"

lemma first_read:
  assumes "start \<le> length (hf_data f)"
  shows "(if tail \<and> 0 < start then and_then (read_exact f (start - 1) 1) (\<lambda>previous. Ok (hd previous \<noteq> newline)) else Ok False) =
    Ok (begins_inside (hf_data f) start tail)"
  using assms by (auto simp: read_exact_def begins_inside_def hd_drop_conv_nth Suc_le_eq take_Suc hd_conv_nth [symmetric])

lemma scan_log_Ok:
  assumes "scan_log io i f start ends tail visit seen = Ok (offset, out)" and "start \<le> length (hf_data f)"
  shows "offset = resume_at (hf_data f) start ends tail \<and> out = shown visit seen (log_lines (hf_data f) start ends tail) \<and> start \<le> ends \<and>
    (start < ends \<longrightarrow> ends \<le> length (hf_data f))"
proof -
  let ?skip = "begins_inside (hf_data f) start tail"
  let ?bs = "cut_log (hf_data f) start ends"
  let ?r = "\<lparr>rd_line = [], rd_oversized = False, rd_skip = ?skip, rd_at = start, rd_last = start, rd_seen = seen\<rparr>"
  from assms obtain r where loop: "scan_loop io i f ends visit ?r = Ok r" and le: "start \<le> ends"
    and res: "offset = (if tail \<and> 0 < start \<and> rd_last r = start \<and> rd_skip r then ends else rd_last r)" "out = rd_seen r"
    by (auto simp: scan_log_def first_read and_then_Ok_iff split: if_splits)
  note run = scan_loop_Ok [OF loop]
  have "reading visit seen ?skip start ([] @ ?bs) r" using run reading_more [OF reading_new, of visit seen ?skip start ?bs] by simp
  moreover have "newline \<notin> set ?bs \<Longrightarrow> length (complete_part ?bs) = 0" by (simp add: complete_part_def partial_line_simps)
  ultimately show ?thesis
    using res run le by (auto simp: reading_def resume_at_def log_lines_def begins_inside_def)
qed

lemma scan_log_ends:
  assumes "\<forall>m. ti_going io m" and "start \<le> ends" and "ends - start \<le> TAIL_MAX" and "ends \<le> length (hf_data f)"
  shows "\<exists>out. scan_log io i f start ends tail visit seen = Ok out"
proof -
  have start: "start \<le> length (hf_data f)" using assms(2,4) by simp
  obtain r where "scan_loop io i f ends visit
      \<lparr>rd_line = [], rd_oversized = False, rd_skip = begins_inside (hf_data f) start tail, rd_at = start, rd_last = start, rd_seen = seen\<rparr> = Ok r"
    using scan_loop_ends [OF assms(1,4)] by blast
  then show ?thesis using assms by (simp add: scan_log_def first_read [OF start] track_check_def)
qed

lemma resume_at_bounds: "start \<le> ends \<Longrightarrow> start \<le> resume_at log start ends tail \<and> resume_at log start ends tail \<le> ends"
  using complete_part_length [of "cut_log log start ends"] by (auto simp: resume_at_def cut_log_def)

text \<open>The scan up to \<open>n\<close> and the scan from where it left off see together what one scan sees.\<close>

lemma log_lines_resume:
  assumes "start \<le> n" and "resume_at log start n False \<le> m"
  shows "log_lines log start m False = log_lines log start n False @ log_lines log (resume_at log start n False) m False"
    and "start \<le> m \<Longrightarrow> resume_at log (resume_at log start n False) m False = resume_at log start m False"
proof -
  let ?bs = "cut_log log start n"
  let ?e = "start + length (complete_part ?bs)"
  have e: "resume_at log start n False = ?e" by (simp add: resume_at_def begins_inside_def)
  have le: "?e \<le> n" using resume_at_bounds [OF assms(1), of log False] e by simp
  define k where "k = length (complete_part ?bs)"
  have "complete_part ?bs = take k ?bs" unfolding k_def by (metis append_eq_conv_conj partial_line_suffix(1))
  moreover have "k \<le> n - start" using le by (simp add: k_def)
  then have "take k ?bs = cut_log log start (start + k)" by (simp add: cut_log_def min_absorb1)
  ultimately have "cut_log log start ?e = complete_part ?bs" by (simp add: k_def)
  then have split: "cut_log log start m = complete_part ?bs @ cut_log log ?e m"
    using cut_log_append [of start ?e m log] assms(2) e by simp
  then show "log_lines log start m False = log_lines log start n False @ log_lines log (resume_at log start n False) m False"
    by (simp add: log_lines_def begins_inside_def e visible_def whole_lines_append partial_line_suffix(2) whole_lines_complete)
  have "length (complete_part (complete_part ?bs @ ys)) = length (complete_part ?bs) + length (complete_part ys)" for ys
  proof (cases ys rule: line_cases)
    case none
    have "partial_line (complete_part ?bs @ ys) = ys"
    proof (cases "complete_part ?bs" rule: line_cases)
      case none
      then show ?thesis using partial_line_suffix(2) [of ?bs] \<open>newline \<notin> set ys\<close> by (simp add: partial_line_simps)
    next
      case (some us vs)
      then have "vs = []" using partial_line_suffix(2) [of ?bs] by (simp add: partial_line_simps)
      then show ?thesis using some none partial_line_simps(2) [of ys us] by simp
    qed
    then show ?thesis using none by (simp add: complete_part_def partial_line_simps)
  next
    case (some us vs)
    have "partial_line ((complete_part ?bs @ us) @ newline # vs) = vs" by (rule partial_line_simps(2)) (rule some(2))
    then show ?thesis using some by (simp add: complete_part_def partial_line_simps)
  qed
  then show "resume_at log (resume_at log start n False) m False = resume_at log start m False"
    unfolding e by (simp add: resume_at_def begins_inside_def split)
qed

section \<open>Completions\<close>

text \<open>The completions among the lines of a log: each \<open>task_complete\<close> that a start has armed, if it has a time.\<close>

definition completion_at :: "track_io \<Rightarrow> session_identity \<Rightarrow> string \<Rightarrow> nat \<Rightarrow> string option \<Rightarrow> tracked list" where
  "completion_at io identity record_id p timestamp =
     (case timestamp of None \<Rightarrow> [] | Some t \<Rightarrow> [\<lparr>td_identity = identity, td_id = event_id io identity record_id p, td_completed_at = t\<rparr>])"

fun completions :: "track_io \<Rightarrow> session_identity \<Rightarrow> string \<Rightarrow> bool \<Rightarrow> (bytes \<times> nat) list \<Rightarrow> bool \<times> tracked list" where
  "completions io identity record_id armed [] = (armed, [])"
| "completions io identity record_id armed ((line, p) # ls) =
     (case event io line of
        None \<Rightarrow> completions io identity record_id armed ls
      | Some (TaskStarted, _) \<Rightarrow> completions io identity record_id True ls
      | Some (TaskComplete, timestamp) \<Rightarrow>
          (case completions io identity record_id False ls of
             (armed', rest) \<Rightarrow> (armed', (if armed then completion_at io identity record_id p timestamp else []) @ rest)))"

lemma completions_append:
  "completions io identity record_id armed (xs @ ys) =
     (case completions io identity record_id armed xs of
        (a, out) \<Rightarrow> (case completions io identity record_id a ys of (b, later) \<Rightarrow> (b, out @ later)))"
  by (induction xs arbitrary: armed) (auto split: option.splits task_event.splits prod.splits)

lemma on_line_event:
  "event io line = None \<Longrightarrow> on_line io identity record_id same n line p (armed, found) = (armed, found)"
  "event io line = Some (TaskStarted, ts) \<Longrightarrow> on_line io identity record_id same n line p (armed, found) = (True, found)"
  "event io line = Some (TaskComplete, ts) \<Longrightarrow> on_line io identity record_id same n line p (armed, found) =
     (False, if same \<and> armed \<and> length found < n then found @ completion_at io identity record_id p ts else found)"
  by (simp_all add: on_line_def completion_at_def split: option.split)

lemma shown_on_line:
  assumes "length found \<le> remaining"
  shows "shown (on_line io identity record_id True remaining) (armed, found) ls =
    (fst (completions io identity record_id armed ls), found @ take (remaining - length found) (snd (completions io identity record_id armed ls)))"
  using assms
proof (induction ls arbitrary: armed found)
  case (Cons lp ls)
  obtain line p where lp: "lp = (line, p)" by fastforce
  have step: "shown f x (lp # ls) = shown f (f line p x) ls" for f :: "bytes \<Rightarrow> nat \<Rightarrow> bool \<times> tracked list \<Rightarrow> bool \<times> tracked list" and x
    by (simp add: shown_def lp)
  show ?case
  proof (cases "event io line")
    case None
    then show ?thesis using Cons unfolding step by (simp add: on_line_event lp)
  next
    case (Some ev)
    obtain k ts where ev: "ev = (k, ts)" by fastforce
    show ?thesis
    proof (cases k)
      case TaskStarted
      then show ?thesis using Some ev Cons unfolding step by (simp add: on_line_event lp)
    next
      case TaskComplete
      show ?thesis
      proof (cases "armed \<and> length found < remaining \<and> ts \<noteq> None")
        case True
        then obtain t where t: "ts = Some t" by auto
        have "length (found @ completion_at io identity record_id p ts) \<le> remaining" using True t by (simp add: completion_at_def)
        moreover have "length found < remaining" using True by simp
        then have room: "remaining - length found = Suc (remaining - Suc (length found))" by arith
        ultimately show ?thesis
          using Cons.IH [of "found @ completion_at io identity record_id p ts" False] True t TaskComplete Some ev unfolding step
          by (simp add: on_line_event lp completion_at_def room split: prod.splits)
      next
        case False
        then show ?thesis
          using Cons.IH [OF Cons.prems, of False] TaskComplete Some ev Cons.prems unfolding step
          by (auto simp: on_line_event lp completion_at_def split: prod.splits option.splits)
      qed
    qed
  qed
qed (simp add: shown_def)

text \<open>Without a cursor nothing is found; the lines only set the watch.\<close>

lemma shown_on_line_new: "snd (shown (on_line io identity record_id False remaining) (armed, found) ls) = found"
proof (induction ls arbitrary: armed)
  case (Cons lp ls)
  have "\<exists>a. on_line io identity record_id False remaining (fst lp) (snd lp) (armed, found) = (a, found)"
    by (auto simp: on_line_def split: option.splits task_event.splits prod.splits)
  then obtain a where "on_line io identity record_id False remaining (fst lp) (snd lp) (armed, found) = (a, found)" by blast
  then show ?case using Cons.IH [of a] by (simp add: shown_def)
qed (simp add: shown_def)

section \<open>Polling growing logs\<close>

text \<open>
  A session under watch is its observation, the bytes its log will have had, and the cursor the tracker
  has for it when the polls begin.
\<close>

type_synonym watched = "observation \<times> bytes \<times> cursor"

fun watched_id :: "watched \<Rightarrow> session_identity" where
  "watched_id (item, log, c) = ob_identity item"

fun watched_from :: "watched \<Rightarrow> nat" where
  "watched_from (item, log, c) = tc_offset c"

text \<open>
  What the complete lines in the first \<open>n\<close> bytes of the log, from the cursor on, amount to: whether a task
  runs at their end, and the completions among them.
\<close>

fun history :: "track_io \<Rightarrow> watched \<Rightarrow> nat \<Rightarrow> bool \<times> tracked list" where
  "history base (item, log, c) n =
     completions base (ob_identity item) (tc_record_id c) (tc_armed c) (log_lines log (tc_offset c) n False)"

text \<open>The completions whose lines became complete as the log grew from \<open>m\<close> to \<open>n\<close> bytes.\<close>

definition due :: "track_io \<Rightarrow> watched \<Rightarrow> nat \<Rightarrow> nat \<Rightarrow> tracked list" where
  "due base w m n = drop (length (snd (history base w m))) (snd (history base w n))"

text \<open>
  A poll in which nothing fails. It opens the log of the \<open>i\<close>-th session when that has \<open>n\<close> bytes, and
  perhaps more by the time it reads; the poll before saw \<open>m\<close> bytes, and at most 8 MiB lie between the end
  of the last complete line then and \<open>n\<close>. The codecs are the same in every poll.
\<close>

fun sees :: "track_io \<Rightarrow> nat \<Rightarrow> watched \<Rightarrow> nat \<Rightarrow> nat \<Rightarrow> bool" where
  "sees io i (item, log, c) m n \<longleftrightarrow>
     (case open_record (ti_fs io i) (tc_root c) (tc_path c) of
        Inl e \<Rightarrow> False
      | Inr f \<Rightarrow> hf_dev f = tc_dev c \<and> hf_ino f = tc_ino c \<and> hf_len f = n \<and> n \<le> length (hf_data f) \<and> prefix (hf_data f) log) \<and>
     m \<le> n \<and> n - resume_at log (tc_offset c) m False \<le> TAIL_MAX"

fun all_seen :: "track_io \<Rightarrow> nat \<Rightarrow> watched list \<Rightarrow> nat list \<Rightarrow> nat list \<Rightarrow> bool" where
  "all_seen io i [] [] [] = True"
| "all_seen io i (w # ws) (m # ms) (n # ns) = (sees io i w m n \<and> all_seen io (i + 1) ws ms ns)"
| "all_seen io i _ _ _ = False"

definition undisturbed :: "track_io \<Rightarrow> track_io \<Rightarrow> bool" where
  "undisturbed base io \<longleftrightarrow> (\<forall>m. ti_going io m) \<and> ti_sha io = ti_sha base \<and> ti_json io = ti_json base \<and>
     ti_rfc3339 io = ti_rfc3339 base \<and> ti_clock io = ti_clock base"

fun polled :: "track_io \<Rightarrow> watched list \<Rightarrow> nat list \<Rightarrow> (track_io \<times> nat list) list \<Rightarrow> bool" where
  "polled base ws ms [] = True"
| "polled base ws ms ((io, ns) # polls) = (undisturbed base io \<and> all_seen io 0 ws ms ns \<and> polled base ws ns polls)"

text \<open>The cursor stands in the log, for this observation.\<close>

fun stands :: "track_io \<Rightarrow> watched \<Rightarrow> bool" where
  "stands base (item, log, c) \<longleftrightarrow>
     (case ob_binding item of
        None \<Rightarrow> False
      | Some b \<Rightarrow> usable b \<and> tc_root c = bd_root b \<and> tc_path c = bd_path b \<and> tc_record_id c = bd_record_id b) \<and>
     tc_ownership c = ob_ownership item \<and> length (ob_ownership item) \<le> 256 \<and>
     validate_session_id (si_id (ob_identity item)) \<and> 1 \<le> si_created_at (ob_identity item) \<and>
     tc_offset c \<le> length log \<and> tc_anchor_len c = min (tc_offset c) ANCHOR_MAX \<and>
     tc_anchor c = ti_sha base (cut_log log (tc_offset c - tc_anchor_len c) (tc_offset c))"

text \<open>The tracker has the cursors of the sessions under watch, and room for what one poll reports.\<close>

definition watching :: "track_io \<Rightarrow> watched list \<Rightarrow> tracker \<Rightarrow> bool" where
  "watching base ws t \<longleftrightarrow> distinct (map watched_id ws) \<and> length ws \<le> CURSORS_MAX \<and>
     wf_map t \<and> retained_bytes_of t + EMITTED_MAX * 13 \<le> RETAINED_MAX \<and>
     list_all (\<lambda>(item, log, c). stands base (item, log, c) \<and> map_of t (ob_identity item) = Some c) ws"

text \<open>The polls of all sessions, one call of \<open>observe\<close> each, and what each of them returned.\<close>

fun poll :: "track_io list \<Rightarrow> observation list \<Rightarrow> tracker \<Rightarrow> (tracked list list \<times> tracker) option" where
  "poll [] items t = Some ([], t)"
| "poll (io # ios) items t =
     (case observe io items t of
        (Inl e, t) \<Rightarrow> None
      | (Inr out, t) \<Rightarrow> map_option (\<lambda>(outs, t). (out # outs, t)) (poll ios items t))"

text \<open>What each poll has to report: the completions due, session by session.\<close>

fun all_due :: "track_io \<Rightarrow> watched list \<Rightarrow> nat list \<Rightarrow> nat list \<Rightarrow> tracked list" where
  "all_due base (w # ws) (m # ms) (n # ns) = due base w m n @ all_due base ws ms ns"
| "all_due base _ _ _ = []"

fun reports :: "track_io \<Rightarrow> watched list \<Rightarrow> nat list \<Rightarrow> nat list list \<Rightarrow> tracked list list" where
  "reports base ws ms [] = []"
| "reports base ws ms (ns # rest) = all_due base ws ms ns # reports base ws ns rest"

lemma event_codecs:
  assumes "ti_json io = ti_json base" and "ti_rfc3339 io = ti_rfc3339 base" and "ti_clock io = ti_clock base"
  shows "event io = event base"
proof -
  have "canonical_time io = canonical_time base" by (intro ext) (simp add: canonical_time_def assms split: option.split prod.split)
  then show ?thesis by (intro ext) (simp add: event_def assms(1) split: option.split prod.split)
qed

lemma completions_codecs:
  assumes "ti_json io = ti_json base" and "ti_rfc3339 io = ti_rfc3339 base" and "ti_clock io = ti_clock base" and "ti_sha io = ti_sha base"
  shows "completions io identity record_id armed ls = completions base identity record_id armed ls"
proof (induction ls arbitrary: armed)
  case (Cons lp ls)
  have "completion_at io = completion_at base" by (intro ext) (simp add: completion_at_def event_id_def assms(4) split: option.split)
  then show ?case using Cons.IH event_codecs [OF assms(1-3)] by (cases lp) (simp split: option.split prod.split task_event.split)
qed simp

lemma prefix_cut: "prefix d log \<Longrightarrow> b \<le> length d \<Longrightarrow> cut_log d a b = cut_log log a b"
  by (auto simp: prefix_def cut_log_def)

lemma anchor_Ok:
  assumes "\<forall>m. ti_going io m" and "offset \<le> length (hf_data f)"
  shows "anchor io i final f offset =
    Ok (ti_sha io (cut_log (hf_data f) (offset - min offset ANCHOR_MAX) offset), min offset ANCHOR_MAX)"
  using assms by (auto simp: anchor_def track_check_def read_exact_def cut_log_def Let_def min_def)

lemma log_lines_prefix: "prefix d log \<Longrightarrow> n \<le> length d \<Longrightarrow> log_lines d o1 n False = log_lines log o1 n False"
  "prefix d log \<Longrightarrow> n \<le> length d \<Longrightarrow> resume_at d o1 n False = resume_at log o1 n False"
  by (simp_all add: log_lines_def resume_at_def begins_inside_def prefix_cut)

text \<open>Where the cursor of a session under watch is after a poll that saw \<open>m\<close> bytes.\<close>

fun reached :: "track_io \<Rightarrow> watched \<Rightarrow> nat \<Rightarrow> cursor \<Rightarrow> bool" where
  "reached base (item, log, c0) m c \<longleftrightarrow> stands base (item, log, c) \<and> tc_offset c0 \<le> m \<and>
     tc_offset c = resume_at log (tc_offset c0) m False \<and> tc_armed c = fst (history base (item, log, c0) m) \<and>
     tc_dev c = tc_dev c0 \<and> tc_ino c = tc_ino c0 \<and> tc_root c = tc_root c0 \<and> tc_path c = tc_path c0 \<and> tc_record_id c = tc_record_id c0 \<and>
     cursor_bytes c (ob_identity item) = cursor_bytes c0 (ob_identity item)"

lemma log_lines_none: "log_lines log a a tail = []"
  by (simp add: log_lines_def visible_def cut_log_def whole_lines_def)

lemma history_nothing: "snd (history base w (watched_from w)) = []"
  by (cases w) (simp add: log_lines_none)

lemma history_extends:
  fixes base :: track_io and item :: observation and log :: bytes
  assumes "tc_offset c0 \<le> m" and "m \<le> n"
  defines "later \<equiv> completions base (ob_identity item) (tc_record_id c0) (fst (history base (item, log, c0) m))
      (log_lines log (resume_at log (tc_offset c0) m False) n False)"
  shows "fst (history base (item, log, c0) n) = fst later" and "due base (item, log, c0) m n = snd later"
    and "snd (history base (item, log, c0) n) = snd (history base (item, log, c0) m) @ due base (item, log, c0) m n"
proof -
  have "resume_at log (tc_offset c0) m False \<le> n" using resume_at_bounds [OF assms(1)] assms(2) order_trans by blast
  from log_lines_resume(1) [OF assms(1) this]
  have all: "history base (item, log, c0) n = (fst later, snd (history base (item, log, c0) m) @ snd later)"
    by (simp add: completions_append later_def case_prod_beta)
  then show "fst (history base (item, log, c0) n) = fst later" and due: "due base (item, log, c0) m n = snd later" by (simp_all add: due_def)
  show "snd (history base (item, log, c0) n) = snd (history base (item, log, c0) m) @ due base (item, log, c0) m n" using all due by simp
qed

lemma observe_one_resumed:
  assumes io: "undisturbed base io" and sees: "sees io i (item, log, c0) m n" and at: "map_of t (ob_identity item) = Some c"
    and point: "reached base (item, log, c0) m c" and b: "ob_binding item = Some b"
  shows "\<exists>c'. observe_one io i t item b emitted = Ok (c', take (EMITTED_MAX - emitted) (due base (item, log, c0) m n)) \<and>
    reached base (item, log, c0) n c'"
proof -
  have same: "tc_root c = bd_root b" "tc_path c = bd_path b" "tc_record_id c = bd_record_id b" "tc_ownership c = ob_ownership item"
    "length (ob_ownership item) \<le> 256" using point b by auto
  obtain f where f: "open_record (ti_fs io i) (bd_root b) (bd_path b) = Ok f" "hf_dev f = tc_dev c" "hf_ino f = tc_ino c" "hf_len f = n"
    "n \<le> length (hf_data f)" "prefix (hf_data f) log"
    using sees point same(1,2) by (auto split: sum.splits)
  have codecs: "\<forall>m. ti_going io m" "ti_sha io = ti_sha base" "ti_json io = ti_json base" "ti_rfc3339 io = ti_rfc3339 base" "ti_clock io = ti_clock base"
    using io by (simp_all add: undisturbed_def)
  have from0: "tc_offset c0 \<le> m" "m \<le> n" "tc_offset c = resume_at log (tc_offset c0) m False" using sees point by simp_all
  have pace: "tc_offset c \<le> n" "n - tc_offset c \<le> TAIL_MAX"
    using sees from0(2,3) resume_at_bounds [OF from0(1), of log False] by simp_all
  have "anchor io i False f (tc_offset c) = Ok (tc_anchor c, tc_anchor_len c)"
    using anchor_Ok [OF codecs(1), of "tc_offset c" f] pace(1) f(4-6) point prefix_cut [OF f(6), of "tc_offset c"] by (simp add: codecs(2))
  moreover have "may_resume c item b f" using same f pace by (simp add: may_resume_def)
  ultimately have res: "resumes io i t item b f = Ok (Some c)" by (simp add: resumes_def at)
  let ?visit = "on_line io (ob_identity item) (bd_record_id b) True (EMITTED_MAX - emitted)"
  obtain offset armed found where scan: "scan_log io i f (tc_offset c) n False ?visit (tc_armed c, []) = Ok (offset, armed, found)"
    using scan_log_ends [OF codecs(1) pace f(5), of i False ?visit "(tc_armed c, [])"] by (metis prod_cases3)
  have "offset = resume_at log (tc_offset c) n False" and "(armed, found) = shown ?visit (tc_armed c, []) (log_lines log (tc_offset c) n False)"
    using scan_log_Ok [OF scan] pace(1) f(5,6) by (auto simp: log_lines_prefix)
  then have new: "offset = resume_at log (tc_offset c0) n False" "armed = fst (history base (item, log, c0) n)"
    "found = take (EMITTED_MAX - emitted) (due base (item, log, c0) m n)"
    using history_extends(1,2) [OF from0(1,2), of base item log] log_lines_resume(2) [OF from0(1) pace(1) [unfolded from0(3)]] from0 point same(3)
    by (simp_all add: shown_on_line completions_codecs [OF codecs(3-5,2)] del: history.simps)
  have le: "tc_offset c0 \<le> n" "offset \<le> n" using resume_at_bounds [of "tc_offset c0" n log False] new(1) from0(1,2) by simp_all
  let ?c = "\<lparr>tc_ownership = ob_ownership item, tc_root = bd_root b, tc_path = bd_path b, tc_record_id = bd_record_id b,
      tc_dev = hf_dev f, tc_ino = hf_ino f, tc_offset = offset, tc_anchor = ti_sha base (cut_log log (offset - min offset ANCHOR_MAX) offset),
      tc_anchor_len = min offset ANCHOR_MAX, tc_armed = armed\<rparr>"
  have "anchor io i True f offset = Ok (tc_anchor ?c, tc_anchor_len ?c)"
    using anchor_Ok [OF codecs(1), of offset f] le f(5) prefix_cut [OF f(6), of offset] by (simp add: codecs(2))
  then have "observe_one io i t item b emitted = Ok (?c, found)"
    using res scan f(4) same(5) by (simp add: observe_one_def f(1) Let_def)
  moreover have "offset \<le> length log" using le f(5) prefix_length_le [OF f(6)] by simp
  moreover have "cursor_bytes ?c (ob_identity item) = cursor_bytes c (ob_identity item)" using same by (simp add: cursor_bytes_def)
  ultimately show ?thesis
    using point b same f(2,3) new le by (intro exI [of _ ?c]) (simp del: history.simps)
qed

lemma completions_identity: "e \<in> set (snd (completions io identity record_id armed ls)) \<Longrightarrow> td_identity e = identity"
proof (induction ls arbitrary: armed)
  case (Cons lp ls)
  obtain line p where lp: "lp = (line, p)" by fastforce
  have here: "e \<in> set (completion_at io identity record_id p ts) \<Longrightarrow> td_identity e = identity" for ts
    by (auto simp: completion_at_def split: option.splits)
  show ?case
    using Cons.prems Cons.IH [of armed] Cons.IH [of True] Cons.IH [of False] here
    by (cases "event io line") (auto simp: lp split: task_event.splits prod.splits if_splits)
qed simp

lemma due_identity: "e \<in> set (due base w m n) \<Longrightarrow> td_identity e = watched_id w"
  by (cases w) (auto simp: due_def dest: in_set_dropD completions_identity)

lemma all_due_identity: "e \<in> set (all_due base ws ms ns) \<Longrightarrow> td_identity e \<in> set (map watched_id ws)"
  by (induction base ws ms ns rule: all_due.induct) (auto dest: due_identity)

text \<open>The tracker has the cursors after a poll that saw \<open>ms\<close> bytes of the logs.\<close>

definition cursors_at :: "track_io \<Rightarrow> watched list \<Rightarrow> nat list \<Rightarrow> tracker \<Rightarrow> bool" where
  "cursors_at base ws ms t \<longleftrightarrow> list_all2 (\<lambda>w m. \<exists>c. map_of t (watched_id w) = Some c \<and> reached base w m c) ws ms"

lemma retained_remove:
  "wf_map t \<Longrightarrow> map_of t k = Some c \<Longrightarrow> retained_bytes_of t = retained_bytes_of (remove_key k t) + cursor_bytes c k"
  using sum_remove_key [of t k c "\<lambda>(identity, c). cursor_bytes c identity"] by (simp add: retained_bytes_of_def)

lemma retained_insert: "retained_bytes_of (insert_key k c t) = retained_bytes_of (remove_key k t) + cursor_bytes c k"
  by (simp add: retained_bytes_of_def sum_insert_key)

lemma observe_turn_resumed:
  assumes io: "undisturbed base io" and sees: "sees io i w m n" and at: "map_of t (watched_id w) = Some c" and wf: "wf_map t"
    and point: "reached base w m c" and room: "retained \<le> RETAINED_MAX" "length found \<le> EMITTED_MAX"
  shows "\<exists>c'. observe_turn io i (fst w) t retained found = (Ok (retained, take EMITTED_MAX (found @ due base w m n)), insert_key (watched_id w) c' t) \<and>
    reached base w n c' \<and> retained_bytes_of (insert_key (watched_id w) c' t) = retained_bytes_of t"
proof -
  obtain item log c0 where w: "w = (item, log, c0)" by (cases w)
  obtain b where b: "ob_binding item = Some b" "usable b" and valid: "validate_session_id (si_id (ob_identity item))" "\<not> si_created_at (ob_identity item) < 1"
    using point by (auto simp: w split: option.splits)
  obtain c' where one: "observe_one io i t item b (length found) = Ok (c', take (EMITTED_MAX - length found) (due base w m n))" and c': "reached base w n c'"
    using observe_one_resumed [OF io sees [unfolded w] _ point [unfolded w] b(1)] at unfolding w by auto
  have bytes: "cursor_bytes c' (ob_identity item) = cursor_bytes c (ob_identity item)" using c' point by (simp add: w)
  then have "remembered t retained (ob_identity item) c' = (insert_key (ob_identity item) c' t, retained)"
    using at by (simp add: remembered_def w)
  moreover have "track_check io (AtItem i) = Ok ()" using io by (simp add: undisturbed_def track_check_def)
  ultimately have "observe_turn io i item t retained found = (Ok (retained, take EMITTED_MAX (found @ due base w m n)), insert_key (ob_identity item) c' t)"
    using one b valid room by (simp add: observe_turn_def)
  moreover have "retained_bytes_of (insert_key (watched_id w) c' t) = retained_bytes_of t"
    using retained_remove [OF wf at] retained_insert [of "watched_id w" c' t] bytes by (simp add: w)
  ultimately show ?thesis using c' by (intro exI [of _ c']) (simp add: w)
qed

lemma cursors_at_other:
  assumes "\<forall>w \<in> set ws. map_of t' (watched_id w) = map_of t (watched_id w)"
  shows "cursors_at base ws ms t' = cursors_at base ws ms t"
  using assms by (auto simp: cursors_at_def list_all2_conv_all_nth)

lemma observe_items_resumed:
  assumes "undisturbed base io" and "all_seen io i ws ms ns" and "cursors_at base ws ms t" and "wf_map t"
    and "distinct (map watched_id ws)" and "retained \<le> RETAINED_MAX" and "length found \<le> EMITTED_MAX"
  shows "\<exists>t'. observe_items io i (map fst ws) t retained found = (Ok (retained, take EMITTED_MAX (found @ all_due base ws ms ns)), t') \<and>
    cursors_at base ws ns t' \<and> wf_map t' \<and> retained_bytes_of t' = retained_bytes_of t \<and>
    (\<forall>k. k \<notin> set (map watched_id ws) \<longrightarrow> map_of t' k = map_of t k)"
  using assms(2-5,7)
proof (induction ws arbitrary: i ms ns t found)
  case Nil
  then show ?case by (cases ms; cases ns) (simp_all add: cursors_at_def)
next
  case (Cons w ws)
  from Cons.prems(1) obtain m ms' n ns' where ms: "ms = m # ms'" "ns = n # ns'" by (cases ms; cases ns) simp_all
  note seen = Cons.prems(1) [unfolded ms, simplified]
  from Cons.prems(2) obtain c where c: "map_of t (watched_id w) = Some c" "reached base w m c" and rest: "cursors_at base ws ms' t"
    by (auto simp: cursors_at_def ms)
  define here where "here = take EMITTED_MAX (found @ due base w m n)"
  have few: "length here \<le> EMITTED_MAX" by (simp add: here_def)
  from observe_turn_resumed [OF assms(1) seen [THEN conjunct1] c(1) Cons.prems(3) c(2) assms(6) Cons.prems(5)]
  obtain c' where turn: "observe_turn io i (fst w) t retained found = (Ok (retained, here), insert_key (watched_id w) c' t)"
    and c': "reached base w n c'" "retained_bytes_of (insert_key (watched_id w) c' t) = retained_bytes_of t" unfolding here_def by blast
  have fresh: "watched_id w \<notin> set (map watched_id ws)" "distinct (map watched_id ws)" using Cons.prems(4) by simp_all
  then have "cursors_at base ws ms' (insert_key (watched_id w) c' t)" using rest
    by (subst cursors_at_other [of ws _ t]) (auto simp: image_iff)
  from Cons.IH [OF seen [THEN conjunct2] this wf_map_insert_key [OF Cons.prems(3)] fresh(2) few]
  obtain t' where t': "observe_items io (i + 1) (map fst ws) (insert_key (watched_id w) c' t) retained here =
      (Ok (retained, take EMITTED_MAX (here @ all_due base ws ms' ns')), t')"
    "cursors_at base ws ns' t'" "wf_map t'" "retained_bytes_of t' = retained_bytes_of t"
    "\<forall>k. k \<notin> set (map watched_id ws) \<longrightarrow> map_of t' k = map_of (insert_key (watched_id w) c' t) k"
    unfolding c'(2) Suc_eq_plus1 by blast
  have "take EMITTED_MAX (here @ all_due base ws ms' ns') = take EMITTED_MAX (found @ due base w m n @ all_due base ws ms' ns')"
    by (simp add: here_def min_def)
  then show ?case using turn t' c'(1) fresh(1) by (intro exI [of _ t']) (simp add: ms cursors_at_def)
qed

lemma observe_resumed:
  assumes io: "undisturbed base io" and seen: "all_seen io 0 ws ms ns" and cursors: "cursors_at base ws ms t" and wf: "wf_map t"
    and ids: "distinct (map watched_id ws)" "length ws \<le> CURSORS_MAX" and room: "retained_bytes_of t + EMITTED_MAX * 13 \<le> RETAINED_MAX"
  shows "\<exists>t'. observe io (map fst ws) t = (Ok (take EMITTED_MAX (all_due base ws ms ns)), t') \<and> cursors_at base ws ns t' \<and> wf_map t' \<and>
    retained_bytes_of t' + EMITTED_MAX * 13 \<le> RETAINED_MAX"
proof -
  let ?ids = "set (map watched_id ws)"
  let ?t = "filter (\<lambda>e. fst e \<in> ?ids) t"
  let ?out = "take EMITTED_MAX (all_due base ws ms ns)"
  have observed: "map ob_identity (map fst ws) = map watched_id ws" by (auto simp: comp_def intro!: map_cong)
  have kept: "retained_bytes_of ?t \<le> retained_bytes_of t" by (simp add: retained_bytes_of_def sum_list_filter_le)
  have "cursors_at base ws ms ?t"
    using cursors cursors_at_other [of ws ?t t base ms] map_of_filter_key [OF wf, of "\<lambda>e. fst e \<in> ?ids"]
    by (simp split: option.split)
  from observe_items_resumed [OF io seen this _ ids(1), of "retained_bytes_of ?t" "[]"] wf kept room
  obtain t' where t': "observe_items io 0 (map fst ws) ?t (retained_bytes_of ?t) [] = (Ok (retained_bytes_of ?t, ?out), t')"
    "cursors_at base ws ns t'" "wf_map t'" "retained_bytes_of t' = retained_bytes_of ?t"
    by auto
  have short: "length (si_id (td_identity e)) \<le> 13" if "e \<in> set ?out" for e
  proof -
    have "td_identity e \<in> ?ids" using all_due_identity that by (meson in_set_takeD)
    then obtain w where "w \<in> set ws" "td_identity e = watched_id w" by auto
    moreover from this(1) cursors obtain m c where "reached base w m c" by (auto simp: cursors_at_def list_all2_conv_all_nth in_set_conv_nth)
    ultimately show ?thesis by (cases w rule: watched_id.cases) (simp add: validate_session_id_def)
  qed
  have "sum_list (map (\<lambda>e. length (si_id (td_identity e))) ?out) \<le> length ?out * 13"
    using sum_list_le_length_times [of "map (\<lambda>e. length (si_id (td_identity e))) ?out" 13] short by auto
  also have "\<dots> \<le> EMITTED_MAX * 13" by simp
  finally have bytes: "\<not> RETAINED_MAX < retained_bytes_of ?t + sum_list (map (\<lambda>e. length (si_id (td_identity e))) ?out)" using kept room by simp
  have going: "track_check io m = Ok ()" for m using io by (simp add: undisturbed_def track_check_def)
  have "card ?ids \<le> CURSORS_MAX" using ids by (simp add: distinct_card del: set_map)
  then have "observe_inner io (map fst ws) t = (Ok ?out, t')"
    using t'(1) bytes kept room unfolding observe_inner_def Let_def observed by (simp add: going del: set_map)
  then have "observe io (map fst ws) t = (Ok ?out, t')" by (simp add: observe_def)
  then show ?thesis using t' kept room by (intro exI [of _ t']) simp
qed

lemma watching_cursors: "watching base ws t \<Longrightarrow> cursors_at base ws (map watched_from ws) t"
proof -
  assume "watching base ws t"
  then have "\<forall>w \<in> set ws. case w of (item, log, c) \<Rightarrow> stands base (item, log, c) \<and> map_of t (ob_identity item) = Some c"
    by (simp add: watching_def list_all_iff)
  moreover have "reached base (item, log, c) (tc_offset c) c" if "stands base (item, log, c)" for item log c
    using that resume_at_bounds [of "tc_offset c" "tc_offset c" log False] by (simp add: log_lines_none)
  ultimately have "\<forall>w \<in> set ws. \<exists>c. map_of t (watched_id w) = Some c \<and> reached base w (watched_from w) c" by force
  then show ?thesis by (simp add: cursors_at_def list_all2_conv_all_nth)
qed

lemma poll_reports:
  assumes "polled base ws ms polls" and "cursors_at base ws ms t" and "wf_map t" and "distinct (map watched_id ws)" and "length ws \<le> CURSORS_MAX"
    and "retained_bytes_of t + EMITTED_MAX * 13 \<le> RETAINED_MAX"
  shows "\<exists>t'. poll (map fst polls) (map fst ws) t = Some (map (take EMITTED_MAX) (reports base ws ms (map snd polls)), t')"
  using assms(1-3,6)
proof (induction polls arbitrary: ms t)
  case (Cons p polls)
  obtain io ns where p: "p = (io, ns)" by fastforce
  from observe_resumed [OF _ _ Cons.prems(2,3) assms(4,5) Cons.prems(4), of io ns] Cons.prems(1)
  obtain t' where t': "observe io (map fst ws) t = (Ok (take EMITTED_MAX (all_due base ws ms ns)), t')" "cursors_at base ws ns t'" "wf_map t'"
    "retained_bytes_of t' + EMITTED_MAX * 13 \<le> RETAINED_MAX" by (auto simp: p)
  from Cons.IH [OF _ t'(2-4)] Cons.prems(1) t'(1) show ?case by (auto simp: p)
qed simp

lemma due_chain:
  assumes "watched_from w \<le> m" and "m \<le> n"
  shows "snd (history base w n) = snd (history base w m) @ due base w m n"
proof -
  obtain item log c where w: "w = (item, log, c)" by (cases w)
  show ?thesis using history_extends(3) [of c m n base item log] assms unfolding w by (simp del: history.simps)
qed

lemma filter_all_due:
  assumes "length ms = length ws" and "length ns = length ws" and "distinct (map watched_id ws)" and "k < length ws"
  shows "filter (\<lambda>e. td_identity e = watched_id (ws ! k)) (all_due base ws ms ns) = due base (ws ! k) (ms ! k) (ns ! k)"
  using assms
proof (induction ws arbitrary: ms ns k)
  case (Cons w ws)
  from Cons.prems(1,2) obtain m ms' n ns' where ms: "ms = m # ms'" "ns = n # ns'" by (cases ms; cases ns) simp_all
  show ?case
  proof (cases k)
    case 0
    have "filter (\<lambda>e. td_identity e = watched_id w) (all_due base ws ms' ns') = []"
      unfolding filter_empty_conv using all_due_identity [of _ base ws ms' ns'] Cons.prems(3) by (metis distinct.simps(2) list.simps(9))
    then show ?thesis using due_identity by (simp add: 0 ms)
  next
    case (Suc j)
    then have "watched_id (ws ! j) \<noteq> watched_id w" using Cons.prems(3,4) by (metis (no_types, lifting) distinct.simps(2) length_Cons list.simps(9) not_less_eq nth_map nth_mem length_map)
    then have "filter (\<lambda>e. td_identity e = watched_id (ws ! j)) (due base w m n) = []" by (auto simp: filter_empty_conv dest: due_identity)
    then show ?thesis using Cons.IH [of ms' ns' j] Cons.prems by (simp add: Suc ms)
  qed
qed simp

lemma all_seen_nth:
  "all_seen io i ws ms ns \<Longrightarrow> length ms = length ws \<and> length ns = length ws \<and> (\<forall>k < length ws. sees io (i + k) (ws ! k) (ms ! k) (ns ! k))"
proof (induction ws arbitrary: i ms ns)
  case (Cons w ws)
  from Cons.prems obtain m ms' n ns' where ms: "ms = m # ms'" "ns = n # ns'" by (cases ms; cases ns) simp_all
  then show ?case using Cons.IH [of "i + 1" ms' ns'] Cons.prems by (auto simp: less_Suc_eq_0_disj)
next
  case Nil
  then show ?case by (cases ms; cases ns) simp_all
qed

lemma reports_complete:
  assumes "polled base ws ms polls" and "length ms = length ws" and "distinct (map watched_id ws)" and "k < length ws" and "watched_from (ws ! k) \<le> ms ! k"
  shows "snd (history base (ws ! k) (ms ! k)) @ filter (\<lambda>e. td_identity e = watched_id (ws ! k)) (concat (reports base ws ms (map snd polls))) =
    snd (history base (ws ! k) (last (ms # map snd polls) ! k))"
  using assms(1,2,5)
proof (induction polls arbitrary: ms)
  case (Cons p polls)
  obtain io ns where p: "p = (io, ns)" by fastforce
  have seen: "length ns = length ws" "ms ! k \<le> ns ! k"
    using all_seen_nth [of io 0 ws ms ns] Cons.prems(1) assms(4) by (auto simp: p) (metis sees.simps prod_cases3)
  have "snd (history base (ws ! k) (ns ! k)) = snd (history base (ws ! k) (ms ! k)) @ due base (ws ! k) (ms ! k) (ns ! k)"
    using due_chain Cons.prems(3) seen(2) by blast
  then show ?case
    using Cons.IH [of ns] Cons.prems seen filter_all_due [OF Cons.prems(2) seen(1) assms(3,4), of base] by (simp add: p)
qed simp

section \<open>The limits\<close>

lemma scan_log_shown: "scan_log io i f start ends tail visit seen = Ok (offset, out) \<Longrightarrow> \<exists>ls. out = shown visit seen ls"
proof -
  assume "scan_log io i f start ends tail visit seen = Ok (offset, out)"
  then obtain skip r where loop: "scan_loop io i f ends visit
      \<lparr>rd_line = [], rd_oversized = False, rd_skip = skip, rd_at = start, rd_last = start, rd_seen = seen\<rparr> = Ok r" and out: "out = rd_seen r"
    by (auto simp: scan_log_def and_then_Ok_iff split: if_splits)
  from scan_loop_Ok [OF loop] reading_more [OF reading_new, of visit seen skip start]
  have "reading visit seen skip start ([] @ cut_log (hf_data f) start ends) r" by simp
  then show ?thesis using out by (auto simp: reading_def)
qed

lemma observe_one_found:
  assumes "observe_one io i t item b emitted = Ok (c, found)"
  shows "length found \<le> EMITTED_MAX - emitted \<and> (\<forall>e \<in> set found. td_identity e = ob_identity item)"
proof -
  from assms obtain f current where parts: "open_record (ti_fs io i) (bd_root b) (bd_path b) = Ok f" "resumes io i t item b f = Ok current"
    by (auto simp: observe_one_def and_then_Ok_iff split: if_splits)
  with assms obtain offset armed' start armed where
    "scan_log io i f start (hf_len f) (current = None) (on_line io (ob_identity item) (bd_record_id b) (current \<noteq> None) (EMITTED_MAX - emitted)) (armed, [])
       = Ok (offset, armed', found)"
    by (auto simp: observe_one_def and_then_Ok_iff Let_def split: if_splits)
  from scan_log_shown [OF this] obtain ls where
    ls: "(armed', found) = shown (on_line io (ob_identity item) (bd_record_id b) (current \<noteq> None) (EMITTED_MAX - emitted)) (armed, []) ls" by blast
  show ?thesis
  proof (cases current)
    case None
    then have "found = []" using ls shown_on_line_new [of io "ob_identity item" "bd_record_id b" "EMITTED_MAX - emitted" armed "[]" ls] by (simp add: prod_eq_iff)
    then show ?thesis by simp
  next
    case (Some c)
    then have "found = take (EMITTED_MAX - emitted) (snd (completions io (ob_identity item) (bd_record_id b) armed ls))"
      using ls by (simp add: shown_on_line)
    then show ?thesis using completions_identity by (fastforce dest: in_set_takeD)
  qed
qed

text \<open>What holds between the turns of the loop: the count of bytes is exact, so no subtraction underflows.\<close>

definition tracking :: "session_identity set \<Rightarrow> tracker \<Rightarrow> nat \<Rightarrow> tracked list \<Rightarrow> bool" where
  "tracking ids t retained output \<longleftrightarrow> wf_map t \<and> set (keys t) \<subseteq> ids \<and> retained = retained_bytes_of t \<and> retained \<le> RETAINED_MAX \<and>
     length output \<le> EMITTED_MAX \<and> (\<forall>e \<in> set output. td_identity e \<in> ids \<and> validate_session_id (si_id (td_identity e)))"

lemma forgotten_tracking:
  assumes "tracking ids t retained output" and "forgotten t retained identity = (t', retained')"
  shows "tracking ids t' retained' output"
proof (cases "map_of t identity")
  case None
  then show ?thesis using assms by (simp add: forgotten_def)
next
  case (Some c)
  have "wf_map t" using assms(1) by (simp add: tracking_def)
  from retained_remove [OF this Some] show ?thesis using assms Some by (auto simp: forgotten_def tracking_def)
qed

lemma remembered_tracking:
  assumes "tracking ids t retained output" and "remembered t retained identity c = (t', retained')" and "identity \<in> ids"
    and "retained' \<le> RETAINED_MAX"
  shows "tracking ids t' retained' output"
proof -
  have wf: "wf_map t" using assms(1) by (simp add: tracking_def)
  have "retained_bytes_of (insert_key identity c t) = retained_bytes_of (remove_key identity t) + cursor_bytes c identity"
    by (simp add: retained_bytes_of_def sum_insert_key)
  moreover have "retained_bytes_of (remove_key identity t) + (case map_of t identity of None \<Rightarrow> 0 | Some old \<Rightarrow> cursor_bytes old identity) = retained"
    using assms(1) retained_remove [OF wf] map_of_None_remove_key [of t identity] by (auto simp: tracking_def split: option.split)
  ultimately have "retained' = retained_bytes_of t'" using assms(2) by (auto simp: remembered_def split: option.splits)
  moreover have "set (keys (insert_key identity c t)) \<subseteq> insert identity (set (keys t))" by (auto simp: insert_key_def keys_def remove_key_def)
  then have "set (keys t') \<subseteq> ids" using assms(1-3) unfolding remembered_def tracking_def by blast
  ultimately show ?thesis using assms by (auto simp: remembered_def tracking_def)
qed

lemma observe_turn_tracking:
  assumes "observe_turn io i item t retained output = (Ok (retained', output'), t')" and "tracking ids t retained output" and "ob_identity item \<in> ids"
  shows "tracking ids t' retained' output'"
proof -
  have drop: "tracking ids t' retained' output'" if "forgotten t retained (ob_identity item) = (t', retained')" "output' = output"
    using forgotten_tracking [OF assms(2) that(1)] that(2) by simp
  show ?thesis
  proof (cases "validate_session_id (si_id (ob_identity item)) \<and> \<not> si_created_at (ob_identity item) < 1 \<and> (\<exists>b. ob_binding item = Some b \<and> usable b)")
    case False
    then show ?thesis using assms(1) drop
      by (auto simp: observe_turn_def split: sum.splits if_splits prod.splits option.splits bind_splits)
  next
    case True
    then obtain b where b: "ob_binding item = Some b" "usable b" and valid: "validate_session_id (si_id (ob_identity item))" "\<not> si_created_at (ob_identity item) < 1"
      by blast
    show ?thesis
    proof (cases "observe_one io i t item b (length output)")
      case (Inl e)
      then show ?thesis using assms(1) drop b valid by (auto simp: observe_turn_def split: sum.splits if_splits prod.splits)
    next
      case (Inr cf)
      then obtain c found where one: "observe_one io i t item b (length output) = Ok (c, found)" by (cases cf) simp
      obtain t1 r1 where rem: "remembered t retained (ob_identity item) c = (t1, r1)" by fastforce
      then have out: "t' = t1" "retained' = r1" "output' = output @ found" "r1 \<le> RETAINED_MAX"
        using assms(1) b valid one by (auto simp: observe_turn_def split: sum.splits if_splits)
      from remembered_tracking [OF assms(2) rem assms(3) out(4)] show ?thesis
        using observe_one_found [OF one] assms(2,3) valid(1) out(4) by (auto simp: out tracking_def)
    qed
  qed
qed

lemma observe_items_tracking:
  assumes "observe_items io i items t retained out = (Ok (retained', out'), t')" and "tracking ids t retained out"
    and "set (map ob_identity items) \<subseteq> ids"
  shows "tracking ids t' retained' out'"
  using assms
proof (induction items arbitrary: i t retained out)
  case (Cons item items)
  obtain r1 t1 where turn: "observe_turn io i item t retained out = (r1, t1)" by fastforce
  then obtain retained1 output1 where r1: "r1 = Ok (retained1, output1)" using Cons.prems(1) by (cases r1) auto
  have "tracking ids t1 retained1 output1" using observe_turn_tracking turn r1 Cons.prems(2,3) by simp
  then show ?case using Cons.IH [of "i + 1" t1 retained1 output1] Cons.prems(1,3) turn r1 by simp
qed simp

definition tracker_ok :: "tracker \<Rightarrow> bool" where
  "tracker_ok t \<longleftrightarrow> wf_map t \<and> length t \<le> CURSORS_MAX \<and> retained_bytes_of t \<le> RETAINED_MAX"

lemma observe_inner_tracking:
  assumes "observe_inner io observations t = (Ok out, t')" and "wf_map t"
  shows "card (set (map ob_identity observations)) \<le> CURSORS_MAX \<and>
    (\<exists>retained. tracking (set (map ob_identity observations)) t' retained out)"
proof -
  let ?ids = "set (map ob_identity observations)"
  let ?t = "filter (\<lambda>e. fst e \<in> ?ids) t"
  have ok: "\<not> CURSORS_MAX < card ?ids" "\<not> RETAINED_MAX < retained_bytes_of ?t"
    using assms(1) by (auto simp: observe_inner_def Let_def split: sum.splits if_splits)
  obtain r t1 where items: "observe_items io 0 observations ?t (retained_bytes_of ?t) [] = (r, t1)" by fastforce
  then obtain retained where r: "r = Ok (retained, out)" "t1 = t'"
    using assms(1) ok by (auto simp: observe_inner_def Let_def split: sum.splits if_splits)
  have "tracking ?ids ?t (retained_bytes_of ?t) []" using assms(2) ok(2) by (auto simp: tracking_def keys_def)
  from observe_items_tracking [OF _ this] items r show ?thesis using ok(1) by fastforce
qed

lemma observe_turn_error: "observe_turn io i item t retained found = (Err e, t') \<Longrightarrow> e \<noteq> TUnavailable"
  by (auto simp: observe_turn_def track_check_def split: if_splits sum.splits prod.splits option.splits)

lemma observe_items_error: "observe_items io i items t retained found = (Err e, t') \<Longrightarrow> e \<noteq> TUnavailable"
proof (induction items arbitrary: i t retained found)
  case (Cons item items)
  obtain r1 t1 where "observe_turn io i item t retained found = (r1, t1)" by fastforce
  then show ?case using Cons observe_turn_error by (cases r1) auto
qed simp

lemma observe_inner_error: "observe_inner io observations t = (Err e, t') \<Longrightarrow> e \<noteq> TUnavailable"
  using observe_items_error by (auto simp: observe_inner_def track_check_def Let_def split: if_splits sum.splits prod.splits)

lemma observe_ok:
  assumes "observe io observations t = (r, t')" and "tracker_ok t"
  shows "tracker_ok t'"
proof -
  obtain r1 t1 where inner: "observe_inner io observations t = (r1, t1)" by fastforce
  have out: "r = r1" "t' = (if r1 = Err TCancelled \<or> r1 = Err TLimit then [] else t1)"
    using assms(1) inner by (auto simp: observe_def tracker_clear_def)
  show ?thesis
  proof (cases r1)
    case (Inl e)
    have "e \<noteq> TUnavailable" using observe_inner_error inner Inl by blast
    then show ?thesis using out Inl by (cases e) (simp_all add: tracker_ok_def retained_bytes_of_def)
  next
    case (Inr out1)
    then obtain retained where "card (set (map ob_identity observations)) \<le> CURSORS_MAX" "tracking (set (map ob_identity observations)) t1 retained out1"
      using observe_inner_tracking inner assms(2) by (fastforce simp: tracker_ok_def)
    moreover from this(2) have "length t1 \<le> card (set (map ob_identity observations))"
      by (metis List.finite_set card_mono distinct_card keys_def length_map tracking_def wf_map_def)
    ultimately show ?thesis using out Inr by (auto simp: tracker_ok_def tracking_def)
  qed
qed

inductive tracker_step :: "tracker \<Rightarrow> tracker \<Rightarrow> bool" where
  observed: "observe io observations t = (r, t') \<Longrightarrow> tracker_step t t'"
| forgot: "tracker_step t (tracker_forget t identity)"
| cleared: "tracker_step t (tracker_clear t)"

lemma tracker_step_ok: "tracker_step t t' \<Longrightarrow> tracker_ok t \<Longrightarrow> tracker_ok t'"
proof (induction rule: tracker_step.induct)
  case (forgot t identity)
  have "retained_bytes_of (remove_key identity t) \<le> retained_bytes_of t"
    by (simp add: retained_bytes_of_def remove_key_def sum_list_filter_le)
  moreover have "length (remove_key identity t) \<le> CURSORS_MAX"
    using forgot by (intro order_trans [OF length_remove_key_le]) (simp add: tracker_ok_def)
  ultimately show ?case using forgot by (auto simp: tracker_ok_def tracker_forget_def)
qed (auto simp: tracker_ok_def tracker_clear_def retained_bytes_of_def dest: observe_ok [unfolded tracker_ok_def])

interpretation tracker_run: step_invariant tracker_step tracker_ok
  by unfold_locales (rule tracker_step_ok)

section \<open>Properties\<close>

text \<open>
  C12: polling growing logs finds each completion once, for all sessions under watch together. Take sessions
  whose cursors stand in their logs (the tracker keeps at most 4096 of them and has room for 64
  completions), and any polls of them all, in which nothing is cancelled and no log fails to open, is
  replaced, shrinks or runs more than 8 MiB ahead of its cursor. Whatever moments the polls come at, in the
  middle of a line or after several, each poll returns, session by session in the order observed, the
  completions whose lines became complete since the poll before, cut after 64 in all. Together these due
  completions are, for every session, exactly those among the complete lines of its log behind the
  cursor, in order and none twice; so one is lost only if a poll has more than 64 to report.
\<close>

theorem polling_exact:
  assumes "watching base ws t" and "polled base ws (map watched_from ws) polls"
  shows "(\<exists>t'. poll (map fst polls) (map fst ws) t = Some (map (take 64) (reports base ws (map watched_from ws) (map snd polls)), t')) \<and>
    (\<forall>k < length ws. filter (\<lambda>e. td_identity e = watched_id (ws ! k)) (concat (reports base ws (map watched_from ws) (map snd polls))) =
       snd (history base (ws ! k) (last (map watched_from ws # map snd polls) ! k)))"
proof -
  have ids: "distinct (map watched_id ws)" "length ws \<le> CURSORS_MAX" and t: "wf_map t" "retained_bytes_of t + EMITTED_MAX * 13 \<le> RETAINED_MAX"
    using assms(1) by (simp_all add: watching_def)
  have "cursors_at base ws (map watched_from ws) t" using assms(1) by (rule watching_cursors)
  from poll_reports [OF assms(2) this t(1) ids t(2)] show ?thesis
    using reports_complete [OF assms(2) _ ids(1)] by (simp add: EMITTED_MAX_def history_nothing)
qed

text \<open>Two sessions with a start and a completion in their logs, polled in the middle of the first line and at the end.\<close>

definition task_log :: bytes where
  "task_log = [CHR ''s'', newline, CHR ''c'', newline]"

definition task_json :: "bytes \<Rightarrow> json option" where
  "task_json line =
     (if line = ''s'' then Some (JObj [(''type'', JStr ''task_started'')])
      else if line = ''c'' then Some (JObj [(''timestamp'', JStr ''now''), (''payload'', JObj [(''type'', JStr ''task_complete'')])])
      else None)"

definition task_io :: "nat \<Rightarrow> track_io" where
  "task_io n = \<lparr>ti_fs = (\<lambda>_. \<lparr>fs_user = 7, fs_dir = (\<lambda>_. True), fs_stat = (\<lambda>_ _. Some \<lparr>st_uid = 7, st_dev = 1, st_ino = 2\<rparr>),
       fs_open = (\<lambda>_. Some \<lparr>hf_file = True, hf_uid = 7, hf_dev = 1, hf_ino = 2, hf_len = n, hf_data = task_log\<rparr>)\<rparr>),
     ti_going = (\<lambda>_. True), ti_sha = (\<lambda>_. ''h''), ti_json = task_json, ti_rfc3339 = (\<lambda>_. Some (1700000000, 500000000)), ti_clock = (\<lambda>_. ''then'')\<rparr>"

definition task_identity :: session_identity where
  "task_identity = \<lparr>si_id = ''$1'', si_created_at = 5\<rparr>"

definition task_item :: "session_identity \<Rightarrow> observation" where
  "task_item identity = \<lparr>ob_identity = identity,
     ob_binding = Some \<lparr>bd_provider = Codex, bd_path = ''/r/f'', bd_root = ''/r'', bd_record_id = ''x'', bd_status = BindReady\<rparr>, ob_ownership = ''o''\<rparr>"

definition task_cursor :: cursor where
  "task_cursor = \<lparr>tc_ownership = ''o'', tc_root = ''/r'', tc_path = ''/r/f'', tc_record_id = ''x'', tc_dev = 1, tc_ino = 2, tc_offset = 0,
     tc_anchor = ''h'', tc_anchor_len = 0, tc_armed = False\<rparr>"

definition other_identity :: session_identity where
  "other_identity = \<lparr>si_id = ''$2'', si_created_at = 6\<rparr>"

definition task_watched :: "session_identity \<Rightarrow> watched" where
  "task_watched identity = (task_item identity, task_log, task_cursor)"

lemma task_opened:
  "open_record (ti_fs (task_io n) i) ''/r'' ''/r/f'' = Ok \<lparr>hf_file = True, hf_uid = 7, hf_dev = 1, hf_ino = 2, hf_len = n, hf_data = task_log\<rparr>"
  by (simp add: open_record_def clean_parts_def task_io_def owned_def numeral_2_eq_2)

lemma task_stands: "identity \<in> {task_identity, other_identity} \<Longrightarrow> stands (task_io 0) (task_watched identity)"
  by (auto simp: task_watched_def task_item_def task_cursor_def task_identity_def other_identity_def usable_def validate_session_id_def)
    (auto simp: task_io_def ascii_defs)

lemma task_lines: "log_lines task_log 0 (Suc 0) False = []" "resume_at task_log 0 (Suc 0) False = 0"
    "log_lines task_log 0 4 False = [(''s'', 0), (''c'', 2)]" "log_lines task_log 0 0 False = []" "resume_at task_log 0 0 False = 0"
  by (simp_all add: log_lines_def resume_at_def begins_inside_def visible_def whole_lines_def complete_part_def partial_line_def
      cut_log_def task_log_def fits_def LINE_MAX_def)

lemma task_seen: "sees (task_io 1) i (task_watched identity) 0 1" "sees (task_io 4) i (task_watched identity) 1 4"
  by (simp_all add: task_watched_def task_cursor_def task_opened task_lines TAIL_MAX_def) (simp_all add: task_log_def)

lemma task_events: "event (task_io n) ''s'' = Some (TaskStarted, None)" "event (task_io n) ''c'' = Some (TaskComplete, Some ''then.5Z'')"
proof -
  have "decimal 500000000 = ''500000000''" by (simp add: decimal.simps) code_simp
  then show "event (task_io n) ''s'' = Some (TaskStarted, None)" "event (task_io n) ''c'' = Some (TaskComplete, Some ''then.5Z'')"
    by (simp_all add: event_def task_io_def task_json_def event_of_def known_fields_def keys_def field_def payload_of_def task_kind_def
        canonical_time_def trim_zeros_def nullable_def json_string_def)
qed

theorem polling_exact_witness:
  "\<exists>t'. poll [task_io 1, task_io 4] [task_item task_identity, task_item other_identity]
       [(task_identity, task_cursor), (other_identity, task_cursor)] =
     Some ([[], [\<lparr>td_identity = task_identity, td_id = event_id (task_io 0) task_identity ''x'' 2, td_completed_at = ''then.5Z''\<rparr>,
       \<lparr>td_identity = other_identity, td_id = event_id (task_io 0) other_identity ''x'' 2, td_completed_at = ''then.5Z''\<rparr>]], t')"
proof -
  let ?ws = "[task_watched task_identity, task_watched other_identity]"
  let ?t = "[(task_identity, task_cursor), (other_identity, task_cursor)]"
  let ?polls = "[(task_io 1, [1, 1]), (task_io 4, [4, 4])]"
  have ids: "map watched_id ?ws = [task_identity, other_identity]" "task_identity \<noteq> other_identity"
    by (simp_all add: task_watched_def task_item_def task_identity_def other_identity_def)
  have from0: "map watched_from ?ws = [0, 0]" by (simp add: task_watched_def task_cursor_def)
  have "retained_bytes_of ?t = 20"
    by (simp add: retained_bytes_of_def cursor_bytes_def task_cursor_def task_identity_def other_identity_def)
  moreover have "list_all (\<lambda>(item, log, c). stands (task_io 0) (item, log, c) \<and> map_of ?t (ob_identity item) = Some c) ?ws"
    using task_stands ids(2) by (auto simp: task_watched_def task_item_def)
  ultimately have watch: "watching (task_io 0) ?ws ?t"
    using ids unfolding watching_def by (simp add: wf_map_def keys_def limits)
  have "undisturbed (task_io 0) (task_io n)" for n by (simp add: undisturbed_def task_io_def)
  then have "polled (task_io 0) ?ws (map watched_from ?ws) ?polls" unfolding from0 by (simp add: task_seen [simplified])
  from conjunct1 [OF polling_exact [OF watch this]] show ?thesis
    unfolding from0 by (simp add: due_def task_watched_def task_item_def task_cursor_def task_lines task_events completion_at_def)
qed

text \<open>
  The tracker stays within its limits. After any observations, whatever the files hold and whatever
  fails, and any forgetting in between, it has at most 4096 cursors that retain at most 4 MiB; and an
  observation that returns reports at most 64 completions, all of sessions that were observed.
\<close>

lemma tracker_bounded:
  assumes "tracker_step\<^sup>*\<^sup>* [] t"
  shows "length t \<le> CURSORS_MAX \<and> retained_bytes_of t \<le> RETAINED_MAX \<and>
    (\<forall>io observations out t'. observe io observations t = (Ok out, t') \<longrightarrow>
       length out \<le> EMITTED_MAX \<and> (\<forall>e \<in> set out. td_identity e \<in> set (map ob_identity observations)))"
proof -
  have ok: "tracker_ok t" using tracker_run.run_keeps [OF assms] by (simp add: tracker_ok_def retained_bytes_of_def)
  have "length out \<le> EMITTED_MAX \<and> (\<forall>e \<in> set out. td_identity e \<in> set (map ob_identity observations))"
    if "observe io observations t = (Ok out, t')" for io observations out t'
  proof -
    have "\<exists>t1. observe_inner io observations t = (Ok out, t1)"
      using that by (cases "observe_inner io observations t") (auto simp: observe_def)
    then show ?thesis using observe_inner_tracking ok by (fastforce simp: tracker_ok_def tracking_def)
  qed
  then show ?thesis using ok by (simp add: tracker_ok_def)
qed

lemma task_baseline: "\<exists>c. observe (task_io 4) [task_item task_identity] [] = (Ok [], [(task_identity, c)])"
proof -
  let ?b = "\<lparr>bd_provider = Codex, bd_path = ''/r/f'', bd_root = ''/r'', bd_record_id = ''x'', bd_status = BindReady\<rparr>"
  let ?f = "\<lparr>hf_file = True, hf_uid = 7, hf_dev = 1, hf_ino = 2, hf_len = 4, hf_data = task_log\<rparr>"
  let ?visit = "on_line (task_io 4) task_identity ''x'' False EMITTED_MAX"
  have going: "\<forall>m. ti_going (task_io 4) m" by (simp add: task_io_def)
  have "4 \<le> length (hf_data ?f)" by (simp add: task_log_def)
  from scan_log_ends [OF going _ _ this, of 0 0 True ?visit "(False, [])"]
  obtain offset armed found where scan: "scan_log (task_io 4) 0 ?f 0 4 True ?visit (False, []) = Ok (offset, armed, found)"
    by (auto simp: limits)
  note found = scan_log_Ok [OF scan]
  have "found = []" using found shown_on_line_new [of "task_io 4" task_identity "''x''" EMITTED_MAX False "[]"] by (metis le0 snd_conv)
  moreover have "offset \<le> length (hf_data ?f)" using found resume_at_bounds [of 0 4 task_log True] by (simp add: task_log_def)
  moreover have "observe_one (task_io 4) 0 [] (task_item task_identity) ?b 0 = and_then (anchor (task_io 4) 0 True ?f offset) (\<lambda>(hash, len).
      Ok (\<lparr>tc_ownership = ''o'', tc_root = ''/r'', tc_path = ''/r/f'', tc_record_id = ''x'', tc_dev = 1, tc_ino = 2, tc_offset = offset,
           tc_anchor = hash, tc_anchor_len = len, tc_armed = armed\<rparr>, found))"
    using scan by (simp add: observe_one_def task_opened resumes_def task_item_def TAIL_MAX_def)
  ultimately obtain c where c: "observe_one (task_io 4) 0 [] (task_item task_identity) ?b 0 = Ok (c, [])" and "cursor_bytes c task_identity = 10"
    using anchor_Ok [OF going, of offset ?f 0 True] by (auto simp: cursor_bytes_def task_identity_def)
  then have "observe_inner (task_io 4) [task_item task_identity] [] = (Ok [], [(task_identity, c)])"
    using going by (simp add: observe_inner_def track_check_def observe_turn_def remembered_def retained_bytes_of_def insert_key_def Let_def limits task_item_def)
      (simp add: task_identity_def validate_session_id_def usable_def ascii_defs)
  then show ?thesis by (simp add: observe_def)
qed

end
