(* ===== verification/Usage.thy ===== *)
theory Usage
  imports Model Complex_Main
begin

text \<open>
  The public usage snapshot, \<open>hmux-usage/src/model.rs\<close>, and the check every snapshot passes before it
  leaves the Home and after it reaches the gateway, \<open>validate\<close> of \<open>hmux-usage/src/transport.rs\<close>, with the
  bounded writer of \<open>encode\<close>. Times are nanoseconds; how a time is written and read is an argument. A
  floating-point number is the rational it stands for, or not finite.
\<close>

section \<open>The snapshot\<close>

definition MAX_SNAPSHOT_BYTES :: nat where "MAX_SNAPSHOT_BYTES = 1048576"
definition USAGE_MAX_ACCOUNTS :: nat where "USAGE_MAX_ACCOUNTS = 128"

lemmas usage_limits [limits] = MAX_SNAPSHOT_BYTES_def USAGE_MAX_ACCOUNTS_def

datatype usage_provider = UsageClaude | UsageCodex

datatype f64 = Finite rat | NotFinite

record usage_window =
  uw_used_pct :: f64
  uw_remaining_seconds :: int
  uw_resets_at :: "string option"

record account_window =
  aw_used_pct :: f64
  aw_resets_at :: "string option"

record usage_account =
  ua_number :: int
  ua_email :: utext
  ua_display_name :: utext
  ua_active :: bool
  ua_status :: string
  ua_five_hour :: "account_window option"
  ua_seven_day :: "account_window option"
  ua_tokens_per_hour :: "f64 option"
  ua_total_tokens :: "int option"
  ua_last_refresh_at :: "string option"
  ua_quota_observed_at :: "string option"
  ua_plan_type :: utext

record usage_status =
  ut_quota_weighting :: string
  ut_state :: string
  ut_data_source :: string
  ut_quota_source :: string
  ut_stale :: bool
  ut_quota_observed_at :: "string option"
  ut_retry_at :: "string option"

record usage_body = \<comment> \<open>all of a snapshot but the sources it was put together from\<close>
  ub_schema :: int
  ub_seq :: int
  ub_generated_at_utc :: string
  ub_provider :: usage_provider
  ub_plan_type :: utext
  ub_burn_rate_per_min :: f64
  ub_burn_state :: string
  ub_today_total_tokens :: int
  ub_today_sessions :: int
  ub_rolling_5h :: usage_window
  ub_weekly :: usage_window
  ub_rolling_5h_observed :: bool
  ub_weekly_observed :: bool
  ub_status :: usage_status
  ub_accounts :: "usage_account list"
  ub_accounts_updated_at :: "string option"

datatype usage_snapshot = Usage (us_body: usage_body) (us_sources: "(string \<times> usage_snapshot) list")

record usage_clock =
  uk_format :: "int \<Rightarrow> string" \<comment> \<open>RFC 3339 with milliseconds, in UTC\<close>
  uk_parse :: "string \<Rightarrow> int option"

definition usage_window_default :: usage_window where
  "usage_window_default = \<lparr>uw_used_pct = Finite 0, uw_remaining_seconds = 0, uw_resets_at = None\<rparr>"

definition degraded :: "usage_clock \<Rightarrow> usage_provider \<Rightarrow> int \<Rightarrow> int \<Rightarrow> string \<Rightarrow> usage_snapshot" where
  "degraded ck provider seq now state =
     Usage \<lparr>ub_schema = 1, ub_seq = seq, ub_generated_at_utc = uk_format ck now, ub_provider = provider, ub_plan_type = [],
       ub_burn_rate_per_min = Finite 0, ub_burn_state = ''idle'', ub_today_total_tokens = 0, ub_today_sessions = 0,
       ub_rolling_5h = usage_window_default, ub_weekly = usage_window_default, ub_rolling_5h_observed = False, ub_weekly_observed = False,
       ub_status = \<lparr>ut_quota_weighting = [], ut_state = state, ut_data_source = ''api_only'', ut_quota_source = ''none'', ut_stale = True,
         ut_quota_observed_at = None, ut_retry_at = None\<rparr>,
       ub_accounts = [], ub_accounts_updated_at = None\<rparr> []"

definition remaining :: "int option \<Rightarrow> int \<Rightarrow> int" where
  \<comment> \<open>whole seconds: \<open>num_seconds\<close> rounds towards zero, and what is negative becomes zero\<close>
  "remaining reset now = (case reset of None \<Rightarrow> 0 | Some t \<Rightarrow> max 0 (sgn (t - now) * (\<bar>t - now\<bar> div 1000000000)))"

section \<open>Labels\<close>

definition codes :: "string \<Rightarrow> utext" where
  "codes s = map code s"

definition lowercase_text :: "utext \<Rightarrow> utext" where
  "lowercase_text cs = map (\<lambda>c. if 65 \<le> c \<and> c \<le> 90 then c + 32 else c) cs"

text \<open>\<open>str::replace\<close> by nothing: matches do not overlap, and are taken from the left.\<close>

function delete_all :: "utext \<Rightarrow> utext \<Rightarrow> utext" where
  "delete_all p [] = []"
| "delete_all p (c # cs) = (if p \<noteq> [] \<and> take (length p) (c # cs) = p then delete_all p (drop (length p) (c # cs)) else c # delete_all p cs)"
  by pat_completeness auto
termination
  by (relation "measure (length \<circ> snd)") (auto simp: neq_Nil_conv)

definition plan_names :: "utext list" where
  "plan_names = map codes [''free'', ''go'', ''plus'', ''pro'', ''prolite'', ''team'', ''business'', ''enterprise'', ''edu'']"

definition normalize_plan :: "utext \<Rightarrow> utext" where
  "normalize_plan raw =
     (let v = delete_all (codes ''chatgpt-'') (delete_all (codes ''chatgpt_'') (lowercase_text (trim raw))) in
      if v \<in> set plan_names then v else [])"

definition safe_label :: "utext \<Rightarrow> utext" where
  "safe_label raw =
     (let v = trim raw in
      if 256 < text_len v \<or>
         list_ex (\<lambda>c. is_control c \<or> (0x202A \<le> c \<and> c \<le> 0x202E) \<or> (0x2066 \<le> c \<and> c \<le> 0x2069)) v
      then [] else v)"

definition valid_quota_weighting :: "string \<Rightarrow> bool" where
  "valid_quota_weighting raw \<longleftrightarrow> raw \<in> {[], ''reported_capacity'', ''plan_estimate'', ''upstream''}"

section \<open>The check at the boundary\<close>

datatype usage_error = UsageInvalid | UsageLimit

definition timestamp_len :: "string option \<Rightarrow> bool" where
  "timestamp_len s \<longleftrightarrow> (case s of None \<Rightarrow> True | Some s \<Rightarrow> length s \<le> 128)"

definition ratio :: "f64 \<Rightarrow> bool" where
  "ratio x \<longleftrightarrow> (case x of Finite r \<Rightarrow> 0 \<le> r \<and> r \<le> 1 | NotFinite \<Rightarrow> False)"

definition nonnegative :: "f64 \<Rightarrow> bool" where
  "nonnegative x \<longleftrightarrow> (case x of Finite r \<Rightarrow> 0 \<le> r | NotFinite \<Rightarrow> False)"

definition usage_window_ok :: "usage_window \<Rightarrow> bool" where
  "usage_window_ok w \<longleftrightarrow> ratio (uw_used_pct w) \<and> 0 \<le> uw_remaining_seconds w \<and> timestamp_len (uw_resets_at w)"

definition account_window_ok :: "account_window option \<Rightarrow> bool" where
  "account_window_ok w \<longleftrightarrow> (case w of None \<Rightarrow> True | Some w \<Rightarrow> ratio (aw_used_pct w) \<and> timestamp_len (aw_resets_at w))"

definition retry_ok :: "usage_clock \<Rightarrow> usage_body \<Rightarrow> bool" where
  "retry_ok ck b \<longleftrightarrow>
     (case ut_retry_at (ub_status b) of
        None \<Rightarrow> True
      | Some raw \<Rightarrow>
          length raw \<le> 128 \<and> (ut_state (ub_status b) = ''rateLimited'' \<or> (ut_state (ub_status b) = ''ok'' \<and> ut_stale (ub_status b))) \<and>
          (case (uk_parse ck raw, uk_parse ck (ub_generated_at_utc b)) of
             (Some reset, Some generated) \<Rightarrow> 0 < reset - generated \<and> reset - generated \<le> 86400000000000
           | _ \<Rightarrow> False))"

definition body_ok :: "usage_clock \<Rightarrow> usage_body \<Rightarrow> bool" where
  "body_ok ck b \<longleftrightarrow>
     ub_schema b = 1 \<and> 0 \<le> ub_seq b \<and> ub_generated_at_utc b \<noteq> [] \<and> length (ub_generated_at_utc b) \<le> 128 \<and>
     length (ub_burn_state b) \<le> 32 \<and> nonnegative (ub_burn_rate_per_min b) \<and> 0 \<le> ub_today_total_tokens b \<and> 0 \<le> ub_today_sessions b \<and>
     ub_plan_type b = normalize_plan (ub_plan_type b) \<and> usage_window_ok (ub_rolling_5h b) \<and> usage_window_ok (ub_weekly b) \<and>
     ut_state (ub_status b) \<noteq> [] \<and> length (ut_state (ub_status b)) \<le> 64 \<and> valid_quota_weighting (ut_quota_weighting (ub_status b)) \<and>
     length (ut_data_source (ub_status b)) \<le> 128 \<and> length (ut_quota_source (ub_status b)) \<le> 128 \<and>
     timestamp_len (ut_quota_observed_at (ub_status b)) \<and> retry_ok ck b \<and> timestamp_len (ub_accounts_updated_at b) \<and>
     length (ub_accounts b) \<le> USAGE_MAX_ACCOUNTS"

definition source_allowed :: "usage_provider \<Rightarrow> string \<Rightarrow> string \<Rightarrow> bool" where
  "source_allowed provider name quota_source \<longleftrightarrow>
     (name = ''cli'' \<and> (quota_source = ''oauth_api'' \<or> quota_source = ''none'')) \<or>
     (provider = UsageClaude \<and> name = ''cswap'' \<and> quota_source = ''claude_swap'') \<or>
     (provider = UsageCodex \<and> name = ''codex-lb'' \<and> quota_source = ''codex_lb'')"

definition account_ok :: "usage_provider \<Rightarrow> usage_account \<Rightarrow> bool" where
  "account_ok provider a \<longleftrightarrow>
     0 < ua_number a \<and> \<not> (provider = UsageCodex \<and> ua_email a \<noteq> []) \<and> ua_email a = safe_label (ua_email a) \<and>
     ua_display_name a = safe_label (ua_display_name a) \<and> length (ua_status a) \<le> 64 \<and>
     account_window_ok (ua_five_hour a) \<and> account_window_ok (ua_seven_day a) \<and>
     (case ua_tokens_per_hour a of None \<Rightarrow> True | Some n \<Rightarrow> nonnegative n) \<and>
     (case ua_total_tokens a of None \<Rightarrow> True | Some n \<Rightarrow> 0 \<le> n) \<and>
     timestamp_len (ua_last_refresh_at a) \<and> timestamp_len (ua_quota_observed_at a) \<and> ua_plan_type a = normalize_plan (ua_plan_type a)"

text \<open>Every failure is the same error, so the order of the tests does not show.\<close>

fun validate :: "usage_clock \<Rightarrow> usage_snapshot \<Rightarrow> bool" where
  "validate ck (Usage b sources) \<longleftrightarrow>
     body_ok ck b \<and> length sources \<le> 2 \<and>
     list_all (\<lambda>(name, child).
       source_allowed (ub_provider b) name (ut_quota_source (ub_status (us_body child))) \<and> ub_provider (us_body child) = ub_provider b \<and>
       us_sources child = [] \<and> validate ck child) sources \<and>
     list_all (account_ok (ub_provider b)) (ub_accounts b) \<and> distinct (map ua_number (ub_accounts b))"

fun bounded_write :: "bytes \<Rightarrow> bytes list \<Rightarrow> (usage_error, bytes) result" where
  "bounded_write out [] = Ok out"
| "bounded_write out (bs # rest) =
     (if MAX_SNAPSHOT_BYTES - length out < length bs then Err UsageLimit else bounded_write (out @ bs) rest)"

definition encode_snapshot :: "(usage_snapshot \<Rightarrow> bytes list) \<Rightarrow> usage_clock \<Rightarrow> usage_snapshot \<Rightarrow> (usage_error, bytes) result" where
  \<comment> \<open>the first argument: the pieces the JSON writer hands over\<close>
  "encode_snapshot print ck s = (if \<not> validate ck s then Err UsageInvalid else bounded_write [] (print s))"

section \<open>Reading a snapshot\<close>

text \<open>
  The derived decoder of the wire form is an argument; it hands the rows and the sources it meets to the
  two visitors below, and a source is text until it is decoded in its turn.
\<close>

record wire_snapshot =
  ws_provider :: "usage_provider option"
  ws_body :: usage_body \<comment> \<open>all other fields\<close>
  ws_sources :: "(string \<times> bytes) list"

definition visit_accounts :: "usage_account list \<Rightarrow> usage_account list option" where
  "visit_accounts rows = (if length rows \<le> USAGE_MAX_ACCOUNTS then Some rows else None)"

fun visit_sources :: "(string \<times> bytes) list \<Rightarrow> (string \<times> bytes) list \<Rightarrow> (string \<times> bytes) list option" where
  "visit_sources out [] = Some out"
| "visit_sources out ((key, raw) # rest) =
     (if length out = 2 \<or> 16 < length key \<or> key \<in> set (keys out) then None else visit_sources (insert_key key raw out) rest)"

definition from_json :: "(bytes \<Rightarrow> wire_snapshot option) \<Rightarrow> bytes \<Rightarrow> wire_snapshot option" where
  "from_json parse raw =
     (case parse raw of
        None \<Rightarrow> None
      | Some w \<Rightarrow>
          (case (visit_accounts (ub_accounts (ws_body w)), visit_sources [] (ws_sources w)) of
             (Some _, Some sources) \<Rightarrow> Some (w\<lparr>ws_sources := sources\<rparr>)
           | _ \<Rightarrow> None))"

text \<open>A child has no sources of its own, so the nesting ends there.\<close>

definition materialize_child :: "wire_snapshot \<Rightarrow> usage_snapshot option" where
  "materialize_child w =
     (if ws_sources w \<noteq> [] then None
      else map_option (\<lambda>p. Usage ((ws_body w)\<lparr>ub_provider := p\<rparr>) []) (ws_provider w))"

fun materialize_sources :: "(bytes \<Rightarrow> wire_snapshot option) \<Rightarrow> (string \<times> bytes) list \<Rightarrow> (string \<times> usage_snapshot) list option" where
  "materialize_sources parse [] = Some []"
| "materialize_sources parse ((name, raw) # rest) =
     (case Option.bind (from_json parse raw) materialize_child of
        None \<Rightarrow> None
      | Some c \<Rightarrow> map_option ((#) (name, c)) (materialize_sources parse rest))"

definition materialize :: "(bytes \<Rightarrow> wire_snapshot option) \<Rightarrow> wire_snapshot \<Rightarrow> usage_snapshot option" where
  "materialize parse w =
     (case materialize_sources parse (ws_sources w) of
        None \<Rightarrow> None
      | Some children \<Rightarrow> map_option (\<lambda>p. Usage ((ws_body w)\<lparr>ub_provider := p\<rparr>) children) (ws_provider w))"

definition decode_snapshot :: "(bytes \<Rightarrow> wire_snapshot option) \<Rightarrow> usage_clock \<Rightarrow> bytes \<Rightarrow> (usage_error, usage_snapshot) result" where
  "decode_snapshot parse ck raw =
     (if MAX_SNAPSHOT_BYTES < length raw then Err UsageLimit
      else case Option.bind (from_json parse raw) (materialize parse) of
        None \<Rightarrow> Err UsageInvalid
      | Some s \<Rightarrow> if validate ck s then Ok s else Err UsageInvalid)"

end
