(* ===== verification/Quota_State.thy ===== *)
theory Quota_State
  imports Usage "HOL-Library.List_Lexorder" "HOL-Library.Char_ord" "HOL-Library.Word"
begin

text \<open>
  The quota cache of one provider, \<open>hmux-usage/src/quota_state.rs\<close>: when the Home fetches, what it
  publishes meanwhile, how long it stays away after a rate limit, and that nothing of one account is
  shown for another.
\<close>

definition CACHE_TTL :: int where "CACHE_TTL = 60000000000"
definition STICKY_TTL :: int where "STICKY_TTL = 600000000000"
definition FALLBACK_BACKOFF :: int where "FALLBACK_BACKOFF = 300000000000"
definition MAX_BACKOFF :: int where "MAX_BACKOFF = 86400000000000"

lemmas quota_limits [limits] = CACHE_TTL_def STICKY_TTL_def FALLBACK_BACKOFF_def MAX_BACKOFF_def

type_synonym quota_account = bytes

record fetch_ticket =
  ft_id :: "64 word"
  ft_account :: "quota_account option"
  ft_started_at :: int
  ft_seq :: int

datatype begin_outcome = Fetch fetch_ticket | Cached usage_snapshot | InFlight

datatype quota_failure =
    CredentialMissing | CredentialMalformed | CredentialIo | Unauthorized | RateLimited "int option" | Network | Server | Contract

datatype finish_outcome = Applied usage_snapshot | RejectedSnapshot usage_snapshot | Discarded

record quota_state =
  qs_provider :: usage_provider
  qs_account :: "quota_account option"
  qs_seq :: int
  qs_ticket_id :: "64 word"
  qs_flight :: "fetch_ticket option"
  qs_latest :: "usage_snapshot option"
  qs_last_fetch_at :: "int option"
  qs_last_good :: "(usage_snapshot \<times> int) option"
  qs_suspended_until :: "int option"
  qs_last_attempt :: "int option"
  qs_last_success :: "int option"
  qs_last_error :: "int option"
  qs_last_error_kind :: "string option"
  qs_last_state :: "string option"

definition quota_new :: "usage_provider \<Rightarrow> quota_state" where
  "quota_new provider =
     \<lparr>qs_provider = provider, qs_account = None, qs_seq = 0, qs_ticket_id = 0, qs_flight = None, qs_latest = None, qs_last_fetch_at = None,
      qs_last_good = None, qs_suspended_until = None, qs_last_attempt = None, qs_last_success = None, qs_last_error = None,
      qs_last_error_kind = None, qs_last_state = None\<rparr>"

definition signed_out_state :: "usage_provider \<Rightarrow> string" where
  "signed_out_state provider = (case provider of UsageClaude \<Rightarrow> ''authExpired'' | UsageCodex \<Rightarrow> ''codexLoggedOut'')"

definition retry_at :: "usage_clock \<Rightarrow> int \<Rightarrow> int \<Rightarrow> string option" where
  "retry_at ck deadline generated_at =
     (if deadline \<le> generated_at then None
      else let text = uk_format ck deadline in if uk_format ck generated_at < text then Some text else None)"

definition saturating_succ :: "int \<Rightarrow> int" where
  "saturating_succ n = min (n + 1) (2 ^ 63 - 1)"

text \<open>Snapshots are changed in their status and their stamp only.\<close>

definition map_body :: "(usage_body \<Rightarrow> usage_body) \<Rightarrow> usage_snapshot \<Rightarrow> usage_snapshot" where
  "map_body f s = Usage (f (us_body s)) (us_sources s)"

definition stamped_at :: "usage_clock \<Rightarrow> int \<Rightarrow> int \<Rightarrow> usage_snapshot \<Rightarrow> usage_snapshot" where
  "stamped_at ck seq now s = map_body (\<lambda>b. b\<lparr>ub_seq := seq, ub_generated_at_utc := uk_format ck now\<rparr>) s"

definition gone_stale :: "string option \<Rightarrow> usage_snapshot \<Rightarrow> usage_snapshot" where
  "gone_stale retry s = map_body (\<lambda>b. b\<lparr>ub_status := (ub_status b)\<lparr>ut_stale := True, ut_retry_at := retry\<rparr>\<rparr>) s"

definition with_retry :: "string option \<Rightarrow> usage_snapshot \<Rightarrow> usage_snapshot" where
  "with_retry retry s = map_body (\<lambda>b. b\<lparr>ub_status := (ub_status b)\<lparr>ut_retry_at := retry\<rparr>\<rparr>) s"

definition emit :: "usage_clock \<Rightarrow> usage_snapshot \<Rightarrow> int \<Rightarrow> quota_state \<Rightarrow> usage_snapshot \<times> quota_state" where
  "emit ck snap now st =
     (let st = st\<lparr>qs_seq := saturating_succ (qs_seq st)\<rparr>; snap = stamped_at ck (qs_seq st) now snap in
      (snap, st\<lparr>qs_latest := Some snap\<rparr>))"

definition quota_degraded :: "usage_clock \<Rightarrow> string \<Rightarrow> int \<Rightarrow> string option \<Rightarrow> quota_state \<Rightarrow> usage_snapshot \<times> quota_state" where
  "quota_degraded ck state now retry st =
     (with_retry retry (degraded ck (qs_provider st) (qs_seq st) now state), st\<lparr>qs_last_state := Some state\<rparr>)"

text \<open>The last good snapshot while it sticks.\<close>

definition sticky :: "int \<Rightarrow> quota_state \<Rightarrow> usage_snapshot option" where
  "sticky now st = (case qs_last_good st of None \<Rightarrow> None | Some (good, since) \<Rightarrow> if now - since < STICKY_TTL then Some good else None)"

definition switch_account :: "quota_account option \<Rightarrow> quota_state \<Rightarrow> quota_state" where
  "switch_account key st =
     (if qs_account st \<noteq> key then
        st\<lparr>qs_account := key, qs_flight := None, qs_latest := None, qs_last_fetch_at := None, qs_last_good := None,
           qs_suspended_until := None, qs_last_state := None\<rparr>
      else st)"

definition cached :: "usage_clock \<Rightarrow> usage_snapshot \<Rightarrow> int \<Rightarrow> quota_state \<Rightarrow> begin_outcome \<times> quota_state" where
  "cached ck snap now st = (case emit ck snap now st of (snap, st) \<Rightarrow> (Cached snap, st))"

definition show_suspended :: "usage_clock \<Rightarrow> int \<Rightarrow> quota_state \<Rightarrow> usage_snapshot \<times> quota_state" where
  "show_suspended ck now st =
     (let retry = Option.bind (qs_suspended_until st) (\<lambda>u. retry_at ck u now) in
      case sticky now st of
        Some good \<Rightarrow> (gone_stale retry good, st)
      | None \<Rightarrow> quota_degraded ck ''rateLimited'' now retry st)"

definition start_fetch :: "quota_account option \<Rightarrow> int \<Rightarrow> quota_state \<Rightarrow> begin_outcome \<times> quota_state" where
  "start_fetch key now st =
     (let seq = saturating_succ (qs_seq st); n = qs_ticket_id st + 1;
          ticket = \<lparr>ft_id = n, ft_account = key, ft_started_at = now, ft_seq = seq\<rparr> in
      (Fetch ticket, st\<lparr>qs_seq := seq, qs_ticket_id := n, qs_flight := Some ticket, qs_last_fetch_at := Some now, qs_last_attempt := Some now\<rparr>))"

definition is_suspended :: "quota_account option \<Rightarrow> int \<Rightarrow> quota_state \<Rightarrow> bool" where
  "is_suspended key now st \<longleftrightarrow> key \<noteq> None \<and> (case qs_suspended_until st of None \<Rightarrow> False | Some u \<Rightarrow> now < u)"

definition is_fresh :: "int \<Rightarrow> quota_state \<Rightarrow> bool" where
  "is_fresh now st \<longleftrightarrow> (case qs_last_fetch_at st of None \<Rightarrow> False | Some since \<Rightarrow> now - since < CACHE_TTL)"

definition begin_idle :: "usage_clock \<Rightarrow> quota_account option \<Rightarrow> int \<Rightarrow> quota_state \<Rightarrow> begin_outcome \<times> quota_state" where
  "begin_idle ck key now st =
     (let suspended = is_suspended key now st;
          expired = (qs_suspended_until st \<noteq> None \<and> \<not> suspended);
          st = (if expired then st\<lparr>qs_suspended_until := None\<rparr> else st) in
      case (if key \<noteq> None \<and> \<not> expired \<and> is_fresh now st then qs_latest st else None) of
        Some snap \<Rightarrow> cached ck snap now st
      | None \<Rightarrow>
          if suspended then (case show_suspended ck now st of (snap, st) \<Rightarrow> cached ck snap now st)
          else start_fetch key now st)"

definition quota_begin :: "usage_clock \<Rightarrow> quota_account option \<Rightarrow> int \<Rightarrow> quota_state \<Rightarrow> begin_outcome \<times> quota_state" where
  "quota_begin ck key now st =
     (let st = switch_account key st in
      if qs_flight st \<noteq> None then (InFlight, st) else begin_idle ck key now st)"

definition valid_success :: "usage_clock \<Rightarrow> quota_state \<Rightarrow> usage_snapshot \<Rightarrow> bool" where
  "valid_success ck st raw \<longleftrightarrow>
     (let b = us_body raw; t = ub_status b in
      ub_provider b = qs_provider st \<and> ut_state t = ''ok'' \<and> \<not> ut_stale t \<and> ut_quota_source t = ''oauth_api'' \<and> ut_data_source t = ''api_only'' \<and>
      ut_retry_at t = None \<and> ub_accounts b = [] \<and> ub_accounts_updated_at b = None \<and> us_sources raw = [] \<and>
      ub_burn_rate_per_min b = Finite 0 \<and> ub_burn_state b = ''idle'' \<and> ub_today_total_tokens b = 0 \<and> ub_today_sessions b = 0 \<and>
      validate ck raw)"

definition failure_kind :: "usage_provider \<Rightarrow> quota_failure \<Rightarrow> string \<times> string \<times> bool" where
  "failure_kind provider failure =
     (case failure of
        CredentialMissing \<Rightarrow> (signed_out_state provider, ''credential_missing'', False)
      | CredentialMalformed \<Rightarrow> (''quotaEndpointChanged'', ''credential_contract'', False)
      | CredentialIo \<Rightarrow> (''networkError'', ''credential_io'', True)
      | Unauthorized \<Rightarrow> (signed_out_state provider, ''auth_rejected'', False)
      | RateLimited _ \<Rightarrow> (''rateLimited'', ''rate_limited'', True)
      | Network \<Rightarrow> (''networkError'', ''network'', True)
      | Server \<Rightarrow> (''networkError'', ''upstream_server'', True)
      | Contract \<Rightarrow> (''quotaEndpointChanged'', ''upstream_contract'', False))"

definition backoff :: "int option \<Rightarrow> int" where
  "backoff retry_after = (case retry_after of Some d \<Rightarrow> if 0 < d then min d MAX_BACKOFF else FALLBACK_BACKOFF | None \<Rightarrow> FALLBACK_BACKOFF)"

definition quota_fail :: "usage_clock \<Rightarrow> quota_failure \<Rightarrow> int \<Rightarrow> quota_state \<Rightarrow> usage_snapshot \<times> quota_state" where
  "quota_fail ck failure now st =
     (case failure_kind (qs_provider st) failure of
        (state, kind, transient) \<Rightarrow>
          let st = st\<lparr>qs_last_error := Some now, qs_last_error_kind := Some kind\<rparr>;
              (retry, st) =
                (case failure of
                   RateLimited after \<Rightarrow>
                     let until = now + backoff after in
                     (retry_at ck until now, st\<lparr>qs_suspended_until := (if qs_account st \<noteq> None then Some until else None)\<rparr>)
                 | _ \<Rightarrow> (None, st));
              (snap, st) =
                (case (if transient \<and> qs_account st \<noteq> None then sticky now st else None) of
                   Some good \<Rightarrow> (gone_stale retry good, st\<lparr>qs_last_state := Some ''ok''\<rparr>)
                 | None \<Rightarrow> quota_degraded ck state now retry st);
              snap = stamped_at ck (qs_seq st) now snap in
          (snap, st\<lparr>qs_latest := Some snap\<rparr>))"

definition accepted_snapshot :: "usage_clock \<Rightarrow> fetch_ticket \<Rightarrow> int \<Rightarrow> usage_snapshot \<Rightarrow> usage_snapshot" where
  "accepted_snapshot ck ticket now raw =
     map_body (\<lambda>b. b\<lparr>ub_status := (ub_status b)\<lparr>ut_quota_observed_at :=
           (case ut_quota_observed_at (ub_status b) of None \<Rightarrow> Some (ub_generated_at_utc b) | o1 \<Rightarrow> o1), ut_retry_at := None\<rparr>,
         ub_seq := ft_seq ticket, ub_generated_at_utc := uk_format ck now\<rparr>) raw"

definition quota_finish ::
  "usage_clock \<Rightarrow> fetch_ticket \<Rightarrow> (quota_failure, usage_snapshot) result \<Rightarrow> int \<Rightarrow> quota_state \<Rightarrow> finish_outcome \<times> quota_state" where
  "quota_finish ck ticket result now st =
     (if qs_flight st \<noteq> Some ticket \<or> qs_account st \<noteq> ft_account ticket then (Discarded, st)
      else
        let st = st\<lparr>qs_flight := None\<rparr> in
        (case result of
           Inl failure \<Rightarrow> (case quota_fail ck failure now st of (snap, st) \<Rightarrow> (Applied snap, st))
         | Inr raw \<Rightarrow>
             if \<not> valid_success ck st raw then (case quota_fail ck Contract now st of (snap, st) \<Rightarrow> (RejectedSnapshot snap, st))
             else
               let snap = accepted_snapshot ck ticket now raw in
               (Applied snap,
                st\<lparr>qs_latest := Some snap, qs_last_good := Some (snap, now), qs_suspended_until := None, qs_last_success := Some now,
                   qs_last_state := Some ''ok''\<rparr>)))"

record quota_diagnostics =
  qd_observed :: bool
  qd_state :: "string option"
  qd_last_attempt_at :: "string option"
  qd_last_success_at :: "string option"
  qd_last_error_at :: "string option"
  qd_last_error_kind :: "string option"

definition diagnostics :: "usage_clock \<Rightarrow> quota_state \<Rightarrow> quota_diagnostics" where
  "diagnostics ck st =
     \<lparr>qd_observed = (qs_latest st \<noteq> None), qd_state = qs_last_state st, qd_last_attempt_at = map_option (uk_format ck) (qs_last_attempt st),
      qd_last_success_at = map_option (uk_format ck) (qs_last_success st), qd_last_error_at = map_option (uk_format ck) (qs_last_error st),
      qd_last_error_kind = qs_last_error_kind st\<rparr>"

section \<open>A refresh\<close>

text \<open>
  \<open>refresh_with\<close> of \<open>hmux-home/src/usage_oauth.rs\<close>: one fetch under a lease on the state, a second one if a
  reload of the credentials changed the request. What the loads and the fetches return, and at which of
  its waits the refresh is dropped, if at all, are arguments.
\<close>

record credential =
  cd_key :: quota_account
  cd_token :: bytes
  cd_account_id :: "string option"

record refresh_io =
  rf_load :: "bool \<Rightarrow> (quota_failure, credential) result"
  rf_fetch :: "bool \<Rightarrow> credential \<Rightarrow> int \<Rightarrow> (quota_failure, usage_snapshot) result" \<comment> \<open>first, or after the reload\<close>
  rf_dropped :: "nat option" \<comment> \<open>the wait at which the refresh ends without a result\<close>

definition lease_finish ::
  "usage_clock \<Rightarrow> usage_provider \<Rightarrow> fetch_ticket \<Rightarrow> (quota_failure, usage_snapshot) result \<Rightarrow> int \<Rightarrow> quota_state \<Rightarrow> usage_snapshot \<times> quota_state" where
  "lease_finish ck provider ticket result now st =
     (case quota_finish ck ticket result now st of
        (Applied s, st) \<Rightarrow> (s, st)
      | (RejectedSnapshot s, st) \<Rightarrow> (s, st)
      | (Discarded, st) \<Rightarrow> (degraded ck provider (ft_seq ticket) now ''networkError'', st))"

definition lease_drop :: "usage_clock \<Rightarrow> fetch_ticket \<Rightarrow> int \<Rightarrow> quota_state \<Rightarrow> quota_state" where
  "lease_drop ck ticket now st = snd (quota_finish ck ticket (Err Network) now st)"

definition lease_switch :: "usage_clock \<Rightarrow> quota_account \<Rightarrow> int \<Rightarrow> fetch_ticket \<Rightarrow> quota_state \<Rightarrow> fetch_ticket \<times> quota_state" where
  "lease_switch ck key now ticket st =
     (case quota_begin ck (Some key) now st of (Fetch t, st) \<Rightarrow> (t, st) | (_, st) \<Rightarrow> (ticket, st))"

definition recover ::
  "usage_clock \<Rightarrow> usage_provider \<Rightarrow> refresh_io \<Rightarrow> int \<Rightarrow> credential \<Rightarrow> fetch_ticket \<Rightarrow> quota_state \<Rightarrow> usage_snapshot option \<times> quota_state" where
  \<comment> \<open>after the provider has rejected the first fetch\<close>
  "recover ck provider io now cred ticket st =
     (if rf_dropped io = Some 1 then (None, lease_drop ck ticket now st)
      else case rf_load io True of
        Inl e \<Rightarrow> map_prod Some id (lease_finish ck provider ticket (Err Unauthorized) now st)
      | Inr latest \<Rightarrow>
          (case (if cd_key latest \<noteq> cd_key cred then lease_switch ck (cd_key latest) now ticket st else (ticket, st)) of
             (ticket, st) \<Rightarrow>
               if cd_token latest \<noteq> cd_token cred \<or> cd_account_id latest \<noteq> cd_account_id cred then
                 (if rf_dropped io = Some 2 then (None, lease_drop ck ticket now st)
                  else map_prod Some id (lease_finish ck provider ticket (rf_fetch io True latest (ft_seq ticket)) now st))
               else map_prod Some id (lease_finish ck provider ticket (Err Unauthorized) now st)))"

definition refresh :: "usage_clock \<Rightarrow> usage_provider \<Rightarrow> refresh_io \<Rightarrow> int \<Rightarrow> quota_state \<Rightarrow> usage_snapshot option \<times> quota_state" where
  "refresh ck provider io now st =
     (let loaded = rf_load io False in
      case quota_begin ck (case loaded of Inl e \<Rightarrow> None | Inr c \<Rightarrow> Some (cd_key c)) now st of
        (Cached s, st) \<Rightarrow> (Some s, st)
      | (InFlight, st) \<Rightarrow> (Some (degraded ck provider 0 now ''networkError''), st)
      | (Fetch ticket, st) \<Rightarrow>
          (case loaded of
             Inl e \<Rightarrow> map_prod Some id (lease_finish ck provider ticket (Err e) now st)
           | Inr cred \<Rightarrow>
               if rf_dropped io = Some 0 then (None, lease_drop ck ticket now st)
               else
                 let result = rf_fetch io False cred (ft_seq ticket) in
                 if result \<noteq> Err Unauthorized then map_prod Some id (lease_finish ck provider ticket result now st)
                 else recover ck provider io now cred ticket st))"

section \<open>Publication\<close>

text \<open>What the Home does with a snapshot before it sends it, \<open>stamp\<close> of \<open>hmux-home/src/usage.rs\<close>.\<close>

definition stamp :: "usage_clock \<Rightarrow> int \<Rightarrow> int \<Rightarrow> usage_snapshot \<Rightarrow> usage_snapshot" where
  "stamp ck seq now s =
     (let s = stamped_at ck seq now s in
      case Option.bind (ut_retry_at (ub_status (us_body s))) (uk_parse ck) of
        None \<Rightarrow> s
      | Some deadline \<Rightarrow> with_retry (retry_at ck deadline now) s)"

end
