(* ===== verification/Quota_State_Properties.thy ===== *)
theory Quota_State_Properties
  imports Quota_State
begin

text \<open>
  What the quota cache promises: everything it shows can be published, it stays away from a provider
  that asked it to, a refresh leaves nothing in flight however it ends, and a change of account leaves
  nothing of the old one behind.
\<close>

section \<open>Times\<close>

definition YEAR_10000 :: int where "YEAR_10000 = 253402300800000000000"

definition millis :: "int \<Rightarrow> int" where
  "millis t = t div 1000000 * 1000000"

text \<open>
  Within the years of four digits a time is written to the millisecond below it, can be read back, and
  the written times are ordered as the times are.
\<close>

definition clock_law :: "usage_clock \<Rightarrow> bool" where
  "clock_law ck \<longleftrightarrow>
     (\<forall>t. 0 \<le> t \<and> t < YEAR_10000 \<longrightarrow> uk_format ck t \<noteq> [] \<and> length (uk_format ck t) \<le> 128 \<and> uk_parse ck (uk_format ck t) = Some (millis t)) \<and>
     (\<forall>a b. 0 \<le> a \<and> a < YEAR_10000 \<and> 0 \<le> b \<and> b < YEAR_10000 \<longrightarrow> (uk_format ck a < uk_format ck b \<longleftrightarrow> millis a < millis b))"

definition timely :: "int \<Rightarrow> bool" where
  "timely now \<longleftrightarrow> 0 \<le> now \<and> now + MAX_BACKOFF < YEAR_10000"

lemma millis_rest: "millis t = t - t mod 1000000"
  by (simp add: millis_def minus_mod_eq_div_mult)

lemma millis_bounds: "millis t \<le> t" "millis (millis t) = millis t"
  by (simp_all add: millis_rest)

lemma millis_nonneg: "0 \<le> t \<Longrightarrow> 0 \<le> millis t"
  by (simp add: millis_def)

lemma millis_mono: "a \<le> b \<Longrightarrow> millis a \<le> millis b"
  by (simp add: millis_def zdiv_mono1)

lemma millis_add: "millis (t + k * 1000000) = millis t + k * 1000000"
  by (simp add: millis_rest)

lemma clock_lawD:
  assumes "clock_law ck" and "timely t"
  shows "uk_format ck t \<noteq> []" "length (uk_format ck t) \<le> 128" "uk_parse ck (uk_format ck t) = Some (millis t)"
  using assms by (auto simp: clock_law_def timely_def MAX_BACKOFF_def)

section \<open>Snapshots that can be shown\<close>

lemma map_body_simps [simp]:
  "us_body (map_body f s) = f (us_body s)" "us_sources (map_body f s) = us_sources s"
  by (simp_all add: map_body_def)

lemma validate_flat: "us_sources s = [] \<Longrightarrow> ub_accounts (us_body s) = [] \<Longrightarrow> validate ck s \<longleftrightarrow> body_ok ck (us_body s)"
  by (cases s) simp

text \<open>Everything but the stamp and the retry time is in order, and the retry time was announced by \<open>T\<close>.\<close>

definition showable :: "usage_clock \<Rightarrow> int \<Rightarrow> usage_snapshot \<Rightarrow> bool" where
  "showable ck T s \<longleftrightarrow>
     us_sources s = [] \<and> ub_accounts (us_body s) = [] \<and> body_ok ck (us_body (with_retry None s)) \<and>
     (case ut_retry_at (ub_status (us_body s)) of
        None \<Rightarrow> True
      | Some raw \<Rightarrow> (\<exists>u. raw = uk_format ck u \<and> 0 \<le> u \<and> u < YEAR_10000 \<and> u \<le> T + MAX_BACKOFF) \<and>
          (ut_state (ub_status (us_body s)) = ''rateLimited'' \<or> (ut_state (ub_status (us_body s)) = ''ok'' \<and> ut_stale (ub_status (us_body s)))))"

lemma showable_mono: "showable ck T s \<Longrightarrow> T \<le> T' \<Longrightarrow> showable ck T' s"
  by (force simp: showable_def split: option.splits)

lemma showable_stamped:
  assumes "showable ck T s" and "0 \<le> seq" and "clock_law ck" and "timely now"
  shows "showable ck T (stamped_at ck seq now s)"
  using assms clock_lawD [OF assms(3,4)] by (simp add: showable_def stamped_at_def with_retry_def body_ok_def retry_ok_def split: option.splits)

text \<open>A retry time that lies in the future when it is written is one the check accepts.\<close>

lemma retry_at_announced:
  assumes "clock_law ck" and "timely now" and "retry_at ck u now = Some raw" and "0 \<le> u" and "u < YEAR_10000" and "u \<le> now + MAX_BACKOFF"
  shows "raw = uk_format ck u \<and> millis now < millis u \<and> millis u \<le> millis now + MAX_BACKOFF"
proof -
  have r: "now < u" "raw = uk_format ck u" "uk_format ck now < uk_format ck u"
    using assms(3) by (auto simp: retry_at_def Let_def split: if_splits)
  then have "millis now < millis u" using assms by (auto simp: clock_law_def timely_def MAX_BACKOFF_def)
  moreover have "millis u \<le> millis (now + MAX_BACKOFF)" using assms(6) by (rule millis_mono)
  moreover have "millis (now + MAX_BACKOFF) = millis now + MAX_BACKOFF" using millis_add [of now 86400000] by (simp add: MAX_BACKOFF_def)
  ultimately show ?thesis using r by simp
qed

text \<open>What can be shown can be published, at any later time.\<close>

lemma stamp_valid:
  assumes sh: "showable ck T s" and law: "clock_law ck" and seq: "0 \<le> seq" and later: "T \<le> now" "timely now"
  shows "validate ck (stamp ck seq now s)"
proof -
  have s: "showable ck T (stamped_at ck seq now s)" using showable_stamped [OF sh seq law later(2)] .
  let ?s = "stamped_at ck seq now s"
  have flat: "us_sources ?s = []" "ub_accounts (us_body ?s) = []" using s by (simp_all add: showable_def)
  have plain: "body_ok ck (us_body (with_retry None ?s))" using s by (simp add: showable_def)
  show ?thesis
  proof (cases "ut_retry_at (ub_status (us_body s))")
    case None
    then have "with_retry None ?s = ?s" by (cases s) (simp add: with_retry_def stamped_at_def map_body_def)
    then show ?thesis using None flat plain by (simp add: stamp_def stamped_at_def validate_flat)
  next
    case (Some raw)
    then obtain u where u: "raw = uk_format ck u" "0 \<le> u" "u < YEAR_10000" "u \<le> T + MAX_BACKOFF"
      and state: "ut_state (ub_status (us_body s)) = ''rateLimited'' \<or> (ut_state (ub_status (us_body s)) = ''ok'' \<and> ut_stale (ub_status (us_body s)))"
      using sh by (auto simp: showable_def)
    have parsed: "uk_parse ck raw = Some (millis u)" using u(1-3) law by (simp add: clock_law_def)
    have stamp: "stamp ck seq now s = with_retry (retry_at ck (millis u) now) ?s" using Some parsed by (simp add: stamp_def stamped_at_def)
    show ?thesis
    proof (cases "retry_at ck (millis u) now")
      case None
      then show ?thesis using stamp plain flat by (simp add: validate_flat with_retry_def)
    next
      case (Some raw2)
      have in_range: "0 \<le> millis u" "millis u < YEAR_10000" "millis u \<le> now + MAX_BACKOFF" using u later millis_bounds [of u] millis_nonneg [of u] by auto
      from retry_at_announced [OF law later(2) Some this]
      have t: "raw2 = uk_format ck (millis u)" "millis now < millis u" "millis u \<le> millis now + MAX_BACKOFF" by (simp_all add: millis_bounds(2))
      have "uk_parse ck raw2 = Some (millis u)" "length raw2 \<le> 128" using t(1) in_range law by (simp_all add: clock_law_def millis_bounds(2))
      moreover have "uk_parse ck (uk_format ck now) = Some (millis now)" using clock_lawD [OF law later(2)] by simp
      ultimately have "body_ok ck (us_body (with_retry (Some raw2) ?s))"
        using plain state t(2,3)
        by (simp add: body_ok_def retry_ok_def with_retry_def stamped_at_def MAX_BACKOFF_def)
      then show ?thesis using stamp Some flat by (simp add: validate_flat with_retry_def)
    qed
  qed
qed

section \<open>The invariant\<close>

definition quota_ok :: "usage_clock \<Rightarrow> int \<Rightarrow> quota_state \<Rightarrow> bool" where
  "quota_ok ck T st \<longleftrightarrow>
     0 \<le> qs_seq st \<and>
     (\<forall>s. qs_latest st = Some s \<longrightarrow> showable ck T s) \<and>
     (\<forall>s since. qs_last_good st = Some (s, since) \<longrightarrow> showable ck T s \<and> ut_state (ub_status (us_body s)) = ''ok'') \<and>
     (\<forall>u. qs_suspended_until st = Some u \<longrightarrow> 0 \<le> u \<and> u < YEAR_10000 \<and> u \<le> T + MAX_BACKOFF) \<and>
     (\<forall>t. qs_flight st = Some t \<longrightarrow> ft_account t = qs_account st \<and> ft_seq t = qs_seq st \<and> ft_id t = qs_ticket_id st \<and> qs_suspended_until st = None)"

lemma quota_new_ok: "quota_ok ck T (quota_new provider)"
  by (simp add: quota_ok_def quota_new_def)

lemma quota_ok_mono:
  assumes "quota_ok ck T st" and "T \<le> T'"
  shows "quota_ok ck T' st"
proof -
  have "\<And>s. showable ck T s \<Longrightarrow> showable ck T' s" using showable_mono assms(2) by blast
  then show ?thesis using assms by (fastforce simp: quota_ok_def split: option.splits prod.splits)
qed

lemma showable_degraded:
  assumes "clock_law ck" and "timely now" and "0 \<le> seq" and "state \<noteq> []" and "length state \<le> 64"
  shows "showable ck T (degraded ck provider seq now state)"
proof -
  have "trim [] = []" by (simp add: trim_def)
  then have "normalize_plan [] = []" by (simp add: normalize_plan_def lowercase_text_def plan_names_def codes_def)
  then show ?thesis
    using assms clock_lawD [OF assms(1,2)]
    by (simp add: showable_def degraded_def with_retry_def map_body_def body_ok_def retry_ok_def usage_window_ok_def usage_window_default_def
        ratio_def nonnegative_def timestamp_len_def valid_quota_weighting_def USAGE_MAX_ACCOUNTS_def)
qed

lemma showable_retry:
  assumes "showable ck T s" and "retry = None \<or> (\<exists>u. retry = Some (uk_format ck u) \<and> 0 \<le> u \<and> u < YEAR_10000 \<and> u \<le> T + MAX_BACKOFF)"
  shows "ut_state (ub_status (us_body s)) = ''rateLimited'' \<Longrightarrow> showable ck T (with_retry retry s)"
    and "ut_state (ub_status (us_body s)) = ''ok'' \<Longrightarrow> showable ck T (gone_stale retry s)"
  using assms by (auto simp: showable_def with_retry_def gone_stale_def body_ok_def retry_ok_def)

lemma retry_at_time:
  "retry_at ck u now = None \<or> retry_at ck u now = Some (uk_format ck u)"
  by (simp add: retry_at_def Let_def)

lemma saturating_succ_nonneg: "0 \<le> n \<Longrightarrow> 0 \<le> saturating_succ n"
  by (simp add: saturating_succ_def)

lemma emit_ok:
  assumes "emit ck snap now st = (s, st')" and "quota_ok ck T st" and "showable ck T snap" and "clock_law ck" and "timely now" and "qs_flight st = None"
  shows "quota_ok ck T st' \<and> showable ck T s \<and> qs_flight st' = None"
  using assms showable_stamped [OF assms(3) saturating_succ_nonneg assms(4,5), of "qs_seq st"] saturating_succ_nonneg [of "qs_seq st"]
  by (auto simp: emit_def Let_def quota_ok_def split: option.splits)

lemma switch_account_ok: "quota_ok ck T st \<Longrightarrow> quota_ok ck T (switch_account key st) \<and> qs_account (switch_account key st) = key"
  by (simp add: switch_account_def quota_ok_def)

lemma sticky_ok: "sticky now st = Some good \<Longrightarrow> quota_ok ck T st \<Longrightarrow> showable ck T good \<and> ut_state (ub_status (us_body good)) = ''ok''"
  by (auto simp: sticky_def quota_ok_def split: option.splits if_splits prod.splits)

lemma quota_degraded_ok:
  assumes "quota_degraded ck state now retry st = (s, st')" and "quota_ok ck T st" and "clock_law ck" and "timely now" and "state \<noteq> []" and "length state \<le> 64"
    and "retry = None \<or> state = ''rateLimited'' \<and> (\<exists>u. retry = Some (uk_format ck u) \<and> 0 \<le> u \<and> u < YEAR_10000 \<and> u \<le> T + MAX_BACKOFF)"
  shows "quota_ok ck T st' \<and> showable ck T s \<and> qs_flight st' = qs_flight st \<and> qs_suspended_until st' = qs_suspended_until st \<and>
    qs_account st' = qs_account st \<and> qs_seq st' = qs_seq st \<and> qs_ticket_id st' = qs_ticket_id st"
proof -
  have "0 \<le> qs_seq st" using assms(2) by (simp add: quota_ok_def)
  note plain = showable_degraded [OF assms(3,4) this assms(5,6), of T "qs_provider st"]
  have "showable ck T s"
  proof (cases retry)
    case None
    then show ?thesis using plain assms(1) by (auto simp: quota_degraded_def showable_def with_retry_def degraded_def)
  next
    case (Some raw)
    then have "state = ''rateLimited''" using assms(7) by auto
    then show ?thesis
      using showable_retry(1) [OF plain, of retry] assms(1,7) by (auto simp: quota_degraded_def degraded_def)
  qed
  then show ?thesis using assms(1,2) by (auto simp: quota_degraded_def quota_ok_def)
qed

text \<open>The three ways a begin can go.\<close>

lemma begin_idle_cases:
  assumes "begin_idle ck key now st = (out, st')"
  obtains (fresh) snap where "key \<noteq> None" "qs_latest st = Some snap" "(out, st') = cached ck snap now st"
      "qs_suspended_until st \<noteq> None \<Longrightarrow> is_suspended key now st"
  | (suspended) snap st1 where "is_suspended key now st" "(snap, st1) = show_suspended ck now st" "(out, st') = cached ck snap now st1"
  | (fetching) "\<not> is_suspended key now st" "(out, st') = start_fetch key now (st\<lparr>qs_suspended_until := None\<rparr>)"
proof (cases "is_suspended key now st")
  case s: True
  show thesis
  proof (cases "if key \<noteq> None \<and> is_fresh now st then qs_latest st else None")
    case None
    obtain snap st1 where "(snap, st1) = show_suspended ck now st" by (metis surj_pair)
    with None show thesis using assms s suspended by (auto simp: begin_idle_def split: prod.splits if_splits)
  next
    case (Some snap)
    then show thesis using assms s fresh by (auto simp: begin_idle_def split: if_splits)
  qed
next
  case s: False
  show thesis
  proof (cases "qs_suspended_until st")
    case None
    have same: "st\<lparr>qs_suspended_until := None\<rparr> = st" using None by simp
    show thesis
    proof (cases "if key \<noteq> None \<and> is_fresh now st then qs_latest st else None")
      case none: None
      then have "begin_idle ck key now st = start_fetch key now st" using s None by (simp add: begin_idle_def)
      then show thesis using assms fetching s same by simp
    next
      case (Some snap)
      then show thesis using assms s None fresh by (auto simp: begin_idle_def split: if_splits)
    qed
  next
    case (Some u)
    then have "begin_idle ck key now st = start_fetch key now (st\<lparr>qs_suspended_until := None\<rparr>)" using s by (simp add: begin_idle_def)
    then show thesis using assms fetching s by simp
  qed
qed

text \<open>What an operation hands out: the snapshot, if any.\<close>

definition begun :: "begin_outcome \<Rightarrow> usage_snapshot option" where
  "begun out = (case out of Cached s \<Rightarrow> Some s | _ \<Rightarrow> None)"

definition finished :: "finish_outcome \<Rightarrow> usage_snapshot option" where
  "finished out = (case out of Applied s \<Rightarrow> Some s | RejectedSnapshot s \<Rightarrow> Some s | Discarded \<Rightarrow> None)"

lemma cached_ok:
  assumes "(out, st') = cached ck snap now st" and "quota_ok ck T st" and "showable ck T snap" and "clock_law ck" and "timely now" and "qs_flight st = None"
  shows "quota_ok ck T st' \<and> (\<forall>s. begun out = Some s \<longrightarrow> showable ck T s) \<and> qs_flight st' = None \<and> qs_account st' = qs_account st \<and> (\<forall>t. out \<noteq> Fetch t)"
proof -
  obtain s st2 where e: "emit ck snap now st = (s, st2)" by fastforce
  then have "out = Cached s" "st' = st2" using assms(1) by (simp_all add: cached_def)
  moreover have "qs_account st2 = qs_account st" using e by (auto simp: emit_def Let_def)
  ultimately show ?thesis using emit_ok [OF e assms(2-)] by (simp add: begun_def)
qed

lemma show_suspended_ok:
  assumes "(snap, st') = show_suspended ck now st" and "quota_ok ck T st" and "clock_law ck" and "timely now"
  shows "quota_ok ck T st' \<and> showable ck T snap \<and> qs_flight st' = qs_flight st \<and> qs_account st' = qs_account st"
proof -
  define retry where "retry = Option.bind (qs_suspended_until st) (\<lambda>u. retry_at ck u now)"
  have r: "retry = None \<or> (\<exists>u. retry = Some (uk_format ck u) \<and> 0 \<le> u \<and> u < YEAR_10000 \<and> u \<le> T + MAX_BACKOFF)"
  proof (cases "qs_suspended_until st")
    case (Some u)
    then show ?thesis using assms(2) retry_at_time [of ck u now] by (auto simp: retry_def quota_ok_def)
  qed (simp add: retry_def)
  show ?thesis
  proof (cases "sticky now st")
    case None
    then have d: "quota_degraded ck ''rateLimited'' now retry st = (snap, st')" using assms(1) by (simp add: show_suspended_def retry_def)
    show ?thesis using quota_degraded_ok [OF d assms(2-4)] r by simp
  next
    case (Some good)
    then have "snap = gone_stale retry good" "st' = st" using assms(1) by (simp_all add: show_suspended_def retry_def)
    moreover have "showable ck T good" "ut_state (ub_status (us_body good)) = ''ok''" using sticky_ok [OF Some assms(2)] by simp_all
    ultimately show ?thesis using showable_retry(2) r assms(2) by simp
  qed
qed

lemma quota_begin_ok:
  assumes "quota_begin ck key now st = (out, st')" and "quota_ok ck T st" and "clock_law ck" and "timely now"
  shows "quota_ok ck T st' \<and> (\<forall>s. begun out = Some s \<longrightarrow> showable ck T s) \<and> qs_account st' = key \<and>
    (\<forall>t. out = Fetch t \<longrightarrow> qs_flight st' = Some t) \<and> (out \<noteq> InFlight \<longrightarrow> (\<forall>t. out \<noteq> Fetch t) \<longrightarrow> qs_flight st' = None)"
proof -
  let ?st = "switch_account key st"
  have sw: "quota_ok ck T ?st" "qs_account ?st = key" using switch_account_ok [OF assms(2)] by simp_all
  show ?thesis
  proof (cases "qs_flight ?st")
    case (Some t)
    then show ?thesis using assms(1) sw by (auto simp: quota_begin_def begun_def)
  next
    case None
    then have "begin_idle ck key now ?st = (out, st')" using assms(1) by (simp add: quota_begin_def)
    then show ?thesis
    proof (cases rule: begin_idle_cases)
      case (fresh snap)
      have "showable ck T snap" using fresh(2) sw(1) by (simp add: quota_ok_def)
      from cached_ok [OF fresh(3) sw(1) this assms(3,4) None] show ?thesis using sw(2) by simp
    next
      case (suspended snap st1)
      note s1 = show_suspended_ok [OF suspended(2) sw(1) assms(3,4)]
      show ?thesis using cached_ok [OF suspended(3) _ _ assms(3,4), of T] s1 None sw(2) by simp
    next
      case fetching
      then show ?thesis using sw saturating_succ_nonneg [of "qs_seq ?st"] by (auto simp: start_fetch_def Let_def quota_ok_def begun_def)
    qed
  qed
qed

lemma backoff_bounds: "0 < backoff after \<and> backoff after \<le> MAX_BACKOFF"
  by (auto simp: backoff_def limits split: option.split)

text \<open>What a failure leaves: the retry time it announces, and the suspension that goes with it.\<close>

definition fail_retry :: "usage_clock \<Rightarrow> quota_failure \<Rightarrow> int \<Rightarrow> string option" where
  "fail_retry ck failure now = (case failure of RateLimited after \<Rightarrow> retry_at ck (now + backoff after) now | _ \<Rightarrow> None)"

definition fail_suspended :: "quota_failure \<Rightarrow> int \<Rightarrow> quota_state \<Rightarrow> int option" where
  "fail_suspended failure now st =
     (case failure of RateLimited after \<Rightarrow> if qs_account st \<noteq> None then Some (now + backoff after) else None | _ \<Rightarrow> qs_suspended_until st)"

lemma quota_fail_result:
  fixes failure now and st :: quota_state
  defines "st1 \<equiv> st\<lparr>qs_last_error := Some now, qs_last_error_kind := Some (fst (snd (failure_kind (qs_provider st) failure))),
      qs_suspended_until := fail_suspended failure now st\<rparr>"
  shows "quota_fail ck failure now st =
    (case (case (if snd (snd (failure_kind (qs_provider st) failure)) \<and> qs_account st \<noteq> None then sticky now st1 else None) of
             Some good \<Rightarrow> (gone_stale (fail_retry ck failure now) good, st1\<lparr>qs_last_state := Some ''ok''\<rparr>)
           | None \<Rightarrow> quota_degraded ck (fst (failure_kind (qs_provider st) failure)) now (fail_retry ck failure now) st1) of
       (snap, st2) \<Rightarrow> (stamped_at ck (qs_seq st2) now snap, st2\<lparr>qs_latest := Some (stamped_at ck (qs_seq st2) now snap)\<rparr>))"
  unfolding st1_def
  by (cases failure) (simp_all add: quota_fail_def failure_kind_def fail_retry_def fail_suspended_def Let_def split: option.split)

lemma failure_state: "fst (failure_kind provider failure) \<noteq> [] \<and> length (fst (failure_kind provider failure)) \<le> 64"
  by (cases failure; cases provider) (simp_all add: failure_kind_def signed_out_state_def)

lemma failure_rate_limited: "fail_retry ck failure now \<noteq> None \<Longrightarrow> fst (failure_kind provider failure) = ''rateLimited''"
  by (cases failure) (simp_all add: fail_retry_def failure_kind_def)

lemma quota_fail_ok:
  assumes "quota_fail ck failure now st = (s, st')" and "quota_ok ck T st" and "clock_law ck" and "timely now" and "T \<le> now" and "qs_flight st = None"
  shows "quota_ok ck now st' \<and> showable ck now s \<and> qs_flight st' = None \<and> qs_account st' = qs_account st \<and>
    qs_suspended_until st' = fail_suspended failure now st"
proof -
  define st1 where "st1 = st\<lparr>qs_last_error := Some now, qs_last_error_kind := Some (fst (snd (failure_kind (qs_provider st) failure))),
      qs_suspended_until := fail_suspended failure now st\<rparr>"
  have ok: "quota_ok ck now st" using quota_ok_mono [OF assms(2,5)] .
  have until: "0 \<le> now + backoff after \<and> now + backoff after < YEAR_10000 \<and> now + backoff after \<le> now + MAX_BACKOFF" for after
    using assms(4) backoff_bounds [of after] by (auto simp: timely_def)
  have ok1: "quota_ok ck now st1" using ok assms(6) until unfolding st1_def quota_ok_def fail_suspended_def by (auto split: quota_failure.splits if_splits)
  have same1: "qs_flight st1 = None" "qs_account st1 = qs_account st" "qs_suspended_until st1 = fail_suspended failure now st"
    using assms(6) by (simp_all add: st1_def)
  have retry: "fail_retry ck failure now = None \<or> (\<exists>u. fail_retry ck failure now = Some (uk_format ck u) \<and> 0 \<le> u \<and> u < YEAR_10000 \<and> u \<le> now + MAX_BACKOFF)"
  proof (cases failure)
    case (RateLimited after)
    then show ?thesis using retry_at_time [of ck "now + backoff after" now] until [of after] by (auto simp: fail_retry_def)
  qed (simp_all add: fail_retry_def)
  obtain snap st2 where two: "(case (if snd (snd (failure_kind (qs_provider st) failure)) \<and> qs_account st \<noteq> None then sticky now st1 else None) of
             Some good \<Rightarrow> (gone_stale (fail_retry ck failure now) good, st1\<lparr>qs_last_state := Some ''ok''\<rparr>)
           | None \<Rightarrow> quota_degraded ck (fst (failure_kind (qs_provider st) failure)) now (fail_retry ck failure now) st1) = (snap, st2)" by fastforce
  have out: "s = stamped_at ck (qs_seq st2) now snap" "st' = st2\<lparr>qs_latest := Some s\<rparr>"
    using assms(1) two unfolding quota_fail_result st1_def [symmetric] by auto
  have three: "quota_ok ck now st2 \<and> showable ck now snap \<and> qs_flight st2 = None \<and> qs_account st2 = qs_account st \<and> qs_suspended_until st2 = fail_suspended failure now st"
  proof (cases "if snd (snd (failure_kind (qs_provider st) failure)) \<and> qs_account st \<noteq> None then sticky now st1 else None")
    case None
    then have "quota_degraded ck (fst (failure_kind (qs_provider st) failure)) now (fail_retry ck failure now) st1 = (snap, st2)" using two by simp
    from quota_degraded_ok [OF this ok1 assms(3,4)] show ?thesis
      using failure_state retry failure_rate_limited [of ck failure now "qs_provider st"] same1 by auto
  next
    case (Some good)
    then have "sticky now st1 = Some good" by (auto split: if_splits)
    from sticky_ok [OF this ok1] show ?thesis
      using Some two showable_retry(2) [OF _ retry] ok1 same1 by (auto simp: quota_ok_def)
  qed
  have "0 \<le> qs_seq st2" using three by (simp add: quota_ok_def)
  then have "showable ck now s" using showable_stamped [OF _ _ assms(3,4)] three out(1) by simp
  then show ?thesis using three out(2) by (auto simp: quota_ok_def)
qed

lemma accepted_ok:
  assumes "valid_success ck st raw" and "clock_law ck" and "timely now" and "0 \<le> ft_seq ticket"
  shows "showable ck T (accepted_snapshot ck ticket now raw) \<and> ut_state (ub_status (us_body (accepted_snapshot ck ticket now raw))) = ''ok''"
proof -
  have v: "us_sources raw = []" "ub_accounts (us_body raw) = []" "ut_state (ub_status (us_body raw)) = ''ok''" "validate ck raw" "ut_retry_at (ub_status (us_body raw)) = None"
    using assms(1) by (simp_all add: valid_success_def Let_def)
  then have "body_ok ck (us_body raw)" by (simp add: validate_flat)
  then show ?thesis
    using v clock_lawD [OF assms(2,3)] assms(4)
    by (auto simp: showable_def accepted_snapshot_def with_retry_def body_ok_def retry_ok_def timestamp_len_def split: option.splits)
qed

lemma quota_finish_ok:
  assumes "quota_finish ck ticket result now st = (out, st')" and "quota_ok ck T st" and "clock_law ck" and "timely now" and "T \<le> now"
  shows "quota_ok ck now st' \<and> (\<forall>s. finished out = Some s \<longrightarrow> showable ck now s) \<and> (qs_flight st = Some ticket \<longrightarrow> qs_flight st' = None \<and> out \<noteq> Discarded)"
proof (cases "qs_flight st \<noteq> Some ticket \<or> qs_account st \<noteq> ft_account ticket")
  case True
  then have "out = Discarded" "st' = st" using assms(1) by (auto simp: quota_finish_def)
  moreover have "qs_flight st \<noteq> Some ticket" using True assms(2) by (auto simp: quota_ok_def)
  ultimately show ?thesis using quota_ok_mono [OF assms(2,5)] by (simp add: finished_def)
next
  case False
  define st1 where "st1 = st\<lparr>qs_flight := None\<rparr>"
  have ok1: "quota_ok ck T st1" "qs_flight st1 = None" "quota_ok ck now st1" "0 \<le> ft_seq ticket"
    using assms(2) False quota_ok_mono [OF assms(2,5)] by (auto simp: st1_def quota_ok_def)
  note fail = quota_fail_ok [OF _ ok1(1) assms(3-5) ok1(2)]
  show ?thesis
  proof (cases result)
    case (Inl failure)
    obtain s st2 where f: "quota_fail ck failure now st1 = (s, st2)" by fastforce
    then have "out = Applied s" "st' = st2" using assms(1) False Inl by (auto simp: quota_finish_def st1_def Let_def)
    then show ?thesis using fail [OF f] by (simp add: finished_def)
  next
    case (Inr raw)
    show ?thesis
    proof (cases "valid_success ck st1 raw")
      case valid: True
      then show ?thesis
        using assms(1) False Inr accepted_ok [OF valid assms(3,4) ok1(4)] ok1
        by (auto simp: quota_finish_def st1_def [symmetric] Let_def finished_def quota_ok_def)
    next
      case invalid: False
      obtain s st2 where f: "quota_fail ck Contract now st1 = (s, st2)" by fastforce
      then have "out = RejectedSnapshot s" "st' = st2" using assms(1) False Inr invalid by (auto simp: quota_finish_def st1_def Let_def)
      then show ?thesis using fail [OF f] by (simp add: finished_def)
    qed
  qed
qed

section \<open>Refreshes\<close>

lemma lease_finish_ok:
  assumes "lease_finish ck provider ticket result now st = (s, st')" and "quota_ok ck T st" and "clock_law ck" and "timely now" and "T \<le> now"
    and "qs_flight st = Some ticket"
  shows "quota_ok ck now st' \<and> showable ck now s \<and> qs_flight st' = None"
proof -
  obtain out st1 where f: "quota_finish ck ticket result now st = (out, st1)" by fastforce
  from quota_finish_ok [OF this assms(2-5)] assms(1,6) f show ?thesis
    by (cases out) (auto simp: lease_finish_def finished_def)
qed

lemma lease_drop_ok:
  assumes "quota_ok ck T st" and "clock_law ck" and "timely now" and "T \<le> now" and "qs_flight st = Some ticket"
  shows "quota_ok ck now (lease_drop ck ticket now st) \<and> qs_flight (lease_drop ck ticket now st) = None"
proof -
  obtain out st1 where "quota_finish ck ticket (Err Network) now st = (out, st1)" by fastforce
  with quota_finish_ok [OF this assms(1-4)] assms(5) show ?thesis by (simp add: lease_drop_def)
qed

lemma begin_switches:
  assumes "qs_account st \<noteq> key"
  shows "\<exists>t st'. quota_begin ck key now st = (Fetch t, st')"
proof -
  have "qs_flight (switch_account key st) = None" "qs_latest (switch_account key st) = None" "qs_suspended_until (switch_account key st) = None"
    using assms by (simp_all add: switch_account_def)
  then show ?thesis by (simp add: quota_begin_def begin_idle_def is_suspended_def start_fetch_def Let_def)
qed

lemma lease_switch_ok:
  assumes "lease_switch ck key now ticket st = (ticket', st')" and "quota_ok ck T st" and "clock_law ck" and "timely now" and "qs_flight st = Some ticket"
    and "qs_account st \<noteq> Some key"
  shows "quota_ok ck T st' \<and> qs_flight st' = Some ticket'"
proof -
  obtain t st1 where b: "quota_begin ck (Some key) now st = (Fetch t, st1)" using begin_switches [OF assms(6)] by blast
  from quota_begin_ok [OF this assms(2-4)] show ?thesis using assms(1) b by (simp add: lease_switch_def)
qed

lemma recover_ok:
  assumes "recover ck provider io now cred ticket st = (out, st')" and "quota_ok ck now st" and "clock_law ck" and "timely now"
    and "qs_flight st = Some ticket" and "qs_account st = Some (cd_key cred)"
  shows "quota_ok ck now st' \<and> qs_flight st' = None \<and> (\<forall>s. out = Some s \<longrightarrow> showable ck now s)"
proof -
  have fin: "quota_ok ck now st2 \<and> qs_flight st2 = None \<and> (\<forall>s. o2 = Some s \<longrightarrow> showable ck now s)"
    if "(o2, st2) = map_prod Some id (lease_finish ck provider t result now st1)" "quota_ok ck now st1" "qs_flight st1 = Some t" for o2 st2 t result st1
  proof -
    obtain s st3 where "lease_finish ck provider t result now st1 = (s, st3)" by fastforce
    with lease_finish_ok [OF this that(2) assms(3,4) order_refl that(3)] that(1) show ?thesis by simp
  qed
  have drop: "quota_ok ck now (lease_drop ck t now st1) \<and> qs_flight (lease_drop ck t now st1) = None" if "quota_ok ck now st1" "qs_flight st1 = Some t" for t st1
    using lease_drop_ok [OF that(1) assms(3,4) order_refl that(2)] .
  show ?thesis
  proof (cases "rf_dropped io = Some 1")
    case True
    then show ?thesis using assms(1,2,5) drop by (auto simp: recover_def)
  next
    case going: False
    show ?thesis
    proof (cases "rf_load io True")
      case (Inl e)
      then show ?thesis using assms(1,2,5) going fin [of out st' ticket "Err Unauthorized" st] by (simp add: recover_def)
    next
      case (Inr latest)
      obtain t1 st1 where one: "(if cd_key latest \<noteq> cd_key cred then lease_switch ck (cd_key latest) now ticket st else (ticket, st)) = (t1, st1)" by fastforce
      have ok1: "quota_ok ck now st1" "qs_flight st1 = Some t1"
        using one assms(2,5,6) lease_switch_ok [OF _ assms(2-5), of "cd_key latest" t1 st1] by (auto split: if_splits)
      have rec: "recover ck provider io now cred ticket st =
          (if cd_token latest \<noteq> cd_token cred \<or> cd_account_id latest \<noteq> cd_account_id cred then
             (if rf_dropped io = Some 2 then (None, lease_drop ck t1 now st1)
              else map_prod Some id (lease_finish ck provider t1 (rf_fetch io True latest (ft_seq t1)) now st1))
           else map_prod Some id (lease_finish ck provider t1 (Err Unauthorized) now st1))"
        using going Inr one unfolding recover_def by simp
      show ?thesis
        using assms(1) fin [OF _ ok1, of out st'] drop [OF ok1] unfolding rec by (simp split: if_splits) metis+
    qed
  qed
qed

lemma refresh_ok:
  assumes "refresh ck provider io now st = (out, st')" and "quota_ok ck T st" and "clock_law ck" and "timely now" and "T \<le> now" and "qs_flight st = None"
  shows "quota_ok ck now st' \<and> qs_flight st' = None \<and> (\<forall>s. out = Some s \<longrightarrow> showable ck now s)"
proof -
  define key where "key = (case rf_load io False of Inl e \<Rightarrow> None | Inr c \<Rightarrow> Some (cd_key c))"
  have ok: "quota_ok ck now st" using quota_ok_mono [OF assms(2,5)] .
  obtain b st1 where beg: "quota_begin ck key now st = (b, st1)" by fastforce
  note b = quota_begin_ok [OF beg ok assms(3,4)]
  have idle: "qs_flight (switch_account key st) = None" using assms(6) by (simp add: switch_account_def)
  show ?thesis
  proof (cases b)
    case InFlight
    then show ?thesis using beg idle by (auto simp: quota_begin_def begin_idle_def cached_def start_fetch_def Let_def split: option.splits if_splits prod.splits)
  next
    case (Cached s)
    then have "out = Some s" "st' = st1" using assms(1) beg by (simp_all add: refresh_def key_def Let_def)
    then show ?thesis using b Cached by (simp add: begun_def)
  next
    case (Fetch ticket)
    have st1: "quota_ok ck now st1" "qs_flight st1 = Some ticket" "qs_account st1 = key" using b Fetch by simp_all
    have fin: ?thesis if "(out, st') = map_prod Some id (lease_finish ck provider ticket result now st1)" for result
    proof -
      obtain s st3 where "lease_finish ck provider ticket result now st1 = (s, st3)" by fastforce
      with lease_finish_ok [OF this st1(1) assms(3,4) order_refl st1(2)] that show ?thesis by simp
    qed
    show ?thesis
    proof (cases "rf_load io False")
      case (Inl e)
      then show ?thesis using assms(1) beg Fetch fin [of "Err e"] by (simp add: refresh_def key_def)
    next
      case (Inr cred)
      then have key: "key = Some (cd_key cred)" by (simp add: key_def)
      have "refresh ck provider io now st =
          (if rf_dropped io = Some 0 then (None, lease_drop ck ticket now st1)
           else if rf_fetch io False cred (ft_seq ticket) \<noteq> Err Unauthorized
             then map_prod Some id (lease_finish ck provider ticket (rf_fetch io False cred (ft_seq ticket)) now st1)
           else recover ck provider io now cred ticket st1)"
        using beg Fetch Inr by (simp add: refresh_def key_def)
      then consider "out = None" "st' = lease_drop ck ticket now st1"
        | "(out, st') = map_prod Some id (lease_finish ck provider ticket (rf_fetch io False cred (ft_seq ticket)) now st1)"
        | "recover ck provider io now cred ticket st1 = (out, st')"
        using assms(1) by (auto split: if_splits)
      then show ?thesis
      proof cases
        case 1
        then show ?thesis using lease_drop_ok [OF st1(1) assms(3,4) order_refl st1(2)] by simp
      next
        case 2
        then show ?thesis by (rule fin)
      next
        case 3
        then show ?thesis using recover_ok [OF 3 st1(1) assms(3,4) st1(2)] st1(3) key by simp
      qed
    qed
  qed
qed

text \<open>Refreshes of one provider, one after the other: the time of the last one, and what it left.\<close>

inductive refresh_step :: "usage_clock \<Rightarrow> usage_provider \<Rightarrow> int \<times> quota_state \<Rightarrow> int \<times> quota_state \<Rightarrow> bool" for ck provider where
  refreshed: "refresh_step ck provider (T, st) (now, snd (refresh ck provider io now st))" if "T \<le> now" and "timely now"

interpretation quota_run: step_invariant "refresh_step ck provider" "\<lambda>(T, st). clock_law ck \<longrightarrow> quota_ok ck T st \<and> qs_flight st = None" for ck provider
proof
  fix s s'
  assume "refresh_step ck provider s s'" and inv: "case s of (T, st) \<Rightarrow> clock_law ck \<longrightarrow> quota_ok ck T st \<and> qs_flight st = None"
  then show "case s' of (T, st) \<Rightarrow> clock_law ck \<longrightarrow> quota_ok ck T st \<and> qs_flight st = None"
  proof cases
    case (refreshed T now st io)
    then show ?thesis using inv refresh_ok [of ck provider io now st _ _ T, OF prod.collapse [symmetric]] by auto
  qed
qed

lemma idle_begin:
  assumes "qs_flight st = None"
  shows "fst (quota_begin ck key now st) \<noteq> InFlight"
proof -
  have "qs_flight (switch_account key st) = None" using assms by (simp add: switch_account_def)
  then have "quota_begin ck key now st = begin_idle ck key now (switch_account key st)" by (simp add: quota_begin_def)
  moreover obtain out st' where "begin_idle ck key now (switch_account key st) = (out, st')" by fastforce
  moreover from this have "out \<noteq> InFlight"
    by (cases rule: begin_idle_cases) (auto simp: cached_def start_fetch_def Let_def split: prod.splits)
  ultimately show ?thesis by simp
qed

text \<open>
  C13: whatever a run of refreshes did, with whatever the credential store and the provider answered and
  wherever a refresh was cut short, the next one ends with nothing in flight, so that no later refresh is
  turned away; and the snapshot it returns, once stamped for publication at its time or later, passes the
  check at the boundary.
\<close>

theorem usage_publishable:
  assumes "clock_law ck" and "(refresh_step ck provider)\<^sup>*\<^sup>* (T0, quota_new provider) (T, st)"
    and "T \<le> now" and "timely now" and "refresh ck provider io now st = (out, st')"
  shows "qs_flight st' = None \<and> (\<forall>key later. fst (quota_begin ck key later st') \<noteq> InFlight) \<and>
    (\<forall>s seq later. out = Some s \<longrightarrow> now \<le> later \<longrightarrow> timely later \<longrightarrow> 0 \<le> seq \<longrightarrow> validate ck (stamp ck seq later s))"
proof -
  have "quota_ok ck T st" "qs_flight st = None"
    using quota_run.run_keeps [OF assms(2)] assms(1) quota_new_ok by (simp_all add: quota_new_def quota_ok_def)
  from refresh_ok [OF assms(5) this(1) assms(1,4,3) this(2)]
  show ?thesis using idle_begin stamp_valid [OF _ assms(1)] by blast
qed

section \<open>Rate limits\<close>

lemma cached_kept: "cached ck snap now st = (out, st') \<Longrightarrow>
  \<exists>s. out = Cached s \<and> qs_flight st' = qs_flight st \<and> qs_account st' = qs_account st \<and> qs_suspended_until st' = qs_suspended_until st"
  by (auto simp: cached_def emit_def Let_def)

lemma begin_suspended:
  assumes "quota_begin ck (Some key) now st = (out, st')" and "qs_flight st = None" and "qs_account st = Some key"
    and "qs_suspended_until st = Some u" and "now < u"
  shows "\<exists>s. out = Cached s \<and> qs_flight st' = None \<and> qs_account st' = Some key \<and> qs_suspended_until st' = Some u"
proof -
  have "begin_idle ck (Some key) now st = (out, st')" using assms(1-3) by (simp add: quota_begin_def switch_account_def)
  then show ?thesis
  proof (cases rule: begin_idle_cases)
    case (fresh snap)
    then show ?thesis using cached_kept [OF fresh(3) [symmetric]] assms(2-4) by simp
  next
    case (suspended snap st1)
    then have "qs_flight st1 = None \<and> qs_account st1 = Some key \<and> qs_suspended_until st1 = Some u"
      using assms(2-4) by (auto simp: show_suspended_def quota_degraded_def Let_def split: option.splits)
    then show ?thesis using cached_kept [OF suspended(3) [symmetric]] by simp
  next
    case fetching
    then show ?thesis using assms(4,5) by (simp add: is_suspended_def)
  qed
qed

lemma begin_expired:
  assumes "qs_flight st = None" and "qs_account st = Some key" and "qs_suspended_until st = Some u" and "u \<le> now"
  shows "\<exists>t. fst (quota_begin ck (Some key) now st) = Fetch t \<and> ft_account t = Some key"
  using assms by (simp add: quota_begin_def switch_account_def begin_idle_def is_suspended_def start_fetch_def Let_def)

text \<open>Begins for one account at the times given.\<close>

fun begins :: "usage_clock \<Rightarrow> quota_account \<Rightarrow> int list \<Rightarrow> quota_state \<Rightarrow> begin_outcome list \<times> quota_state" where
  "begins ck key [] st = ([], st)"
| "begins ck key (now # rest) st =
     (case quota_begin ck (Some key) now st of (out, st) \<Rightarrow> (case begins ck key rest st of (outs, st) \<Rightarrow> (out # outs, st)))"

lemma begins_suspended:
  assumes "begins ck key moments st = (outs, st')" and "qs_flight st = None" and "qs_account st = Some key"
    and "qs_suspended_until st = Some u" and "\<forall>now \<in> set moments. now < u"
  shows "(\<forall>out \<in> set outs. \<exists>s. out = Cached s) \<and> qs_flight st' = None \<and> qs_account st' = Some key \<and> qs_suspended_until st' = Some u"
  using assms
proof (induction moments arbitrary: st outs)
  case (Cons now rest)
  obtain out st1 where b: "quota_begin ck (Some key) now st = (out, st1)" by fastforce
  obtain outs1 st2 where r: "begins ck key rest st1 = (outs1, st2)" by fastforce
  have eq: "outs = out # outs1" "st' = st2" using Cons.prems(1) b r by auto
  from begin_suspended [OF b Cons.prems(2-4)] Cons.prems(5)
  have one: "\<exists>s. out = Cached s" "qs_flight st1 = None" "qs_account st1 = Some key" "qs_suspended_until st1 = Some u" by auto
  have "(\<forall>out \<in> set outs1. \<exists>s. out = Cached s) \<and> qs_flight st2 = None \<and> qs_account st2 = Some key \<and> qs_suspended_until st2 = Some u"
    using Cons.IH [OF _ one(2-4)] r eq Cons.prems(5) by auto
  then show ?case using one(1) eq by simp
qed simp

lemma begins_length: "begins ck key moments st = (outs, st') \<Longrightarrow> length outs = length moments"
  by (induction ck key moments st arbitrary: outs st' rule: begins.induct) (auto split: prod.splits)

lemma limited_suspends:
  assumes "quota_finish ck ticket (Err (RateLimited after)) t0 st = (Applied s, st')" and "ft_account ticket = Some key"
  shows "qs_flight st' = None \<and> qs_account st' = Some key \<and> qs_suspended_until st' = Some (t0 + backoff after)"
proof -
  let ?st = "st\<lparr>qs_flight := None\<rparr>"
  have acc: "qs_account st = Some key" and f: "quota_fail ck (RateLimited after) t0 ?st = (s, st')"
    using assms by (auto simp: quota_finish_def Let_def split: if_splits prod.splits)
  show ?thesis using f acc
    by (auto simp: quota_fail_def failure_kind_def quota_degraded_def Let_def split: option.splits prod.splits)
qed

text \<open>
  C14: after a provider has answered that an account asks too often, nothing is fetched for that account, while it stays the
  account of the Home, before the time the provider gave, cut to 24 hours, or before five minutes have passed if it gave none or
  one that is not in the future: every begin until then is answered from what is there, however many there are. The first begin
  from that time on fetches.
\<close>

theorem quota_backs_off:
  assumes "quota_finish ck ticket (Err (RateLimited after)) t0 st = (Applied s, st1)" and "ft_account ticket = Some key"
    and "until = t0 + (case after of None \<Rightarrow> 300000000000 | Some d \<Rightarrow> if d \<le> 0 then 300000000000 else if d \<le> 86400000000000 then d else 86400000000000)"
    and "\<forall>now \<in> set moments. now < until" and "begins ck key moments st1 = (outs, st2)"
  shows "(\<forall>out \<in> set outs. \<exists>s. out = Cached s) \<and> length outs = length moments \<and>
    (\<forall>now \<ge> until. \<exists>t. fst (quota_begin ck (Some key) now st2) = Fetch t \<and> ft_account t = Some key)"
proof -
  have until: "until = t0 + backoff after"
    using assms(3) by (auto simp: backoff_def quota_limits split: option.split)
  note l = limited_suspends [OF assms(1,2)]
  have "(\<forall>out \<in> set outs. \<exists>s. out = Cached s) \<and> qs_flight st2 = None \<and> qs_account st2 = Some key \<and> qs_suspended_until st2 = Some until"
    using begins_suspended [OF assms(5) _ _ _ assms(4)] l until by simp
  then show ?thesis using begin_expired begins_length [OF assms(5)] by blast
qed

section \<open>Examples\<close>

text \<open>A clock that writes milliseconds in fifteen decimal digits.\<close>

fun fixed_decimal :: "nat \<Rightarrow> int \<Rightarrow> string" where
  "fixed_decimal 0 m = []"
| "fixed_decimal (Suc n) m = fixed_decimal n (m div 10) @ [char_of (48 + m mod 10)]"

definition read_decimal :: "string \<Rightarrow> int" where
  "read_decimal cs = foldl (\<lambda>m c. 10 * m + (of_char c - 48)) 0 cs"

definition sample_clock :: usage_clock where
  "sample_clock = \<lparr>uk_format = \<lambda>t. fixed_decimal 15 (t div 1000000), uk_parse = \<lambda>cs. Some (read_decimal cs * 1000000)\<rparr>"

lemma fixed_decimal_length: "length (fixed_decimal n m) = n"
  by (induction n arbitrary: m) simp_all

lemma digit_char: "of_char (char_of (48 + m mod 10)) = (48 + m mod 10 :: int)" for m :: int
proof -
  have "0 \<le> m mod 10" "m mod 10 < 10" by simp_all
  then show ?thesis by (simp add: of_char_of)
qed

lemma fixed_decimal_read: "0 \<le> m \<Longrightarrow> m < 10 ^ n \<Longrightarrow> read_decimal (fixed_decimal n m) = m"
proof (induction n arbitrary: m)
  case (Suc n)
  then have "read_decimal (fixed_decimal n (m div 10)) = m div 10" by (intro Suc.IH) auto
  then show ?case by (simp add: read_decimal_def digit_char)
qed (simp add: read_decimal_def)

lemma append_less_append:
  "length xs = length ys \<Longrightarrow> (xs @ us < ys @ vs) \<longleftrightarrow> (xs < ys \<or> (xs = ys \<and> us < (vs :: string)))"
  by (induction xs ys rule: list_induct2) auto

lemma digit_less: "char_of (48 + a mod 10) < (char_of (48 + b mod 10) :: char) \<longleftrightarrow> a mod 10 < b mod 10" for a b :: int
proof -
  have "(of_char (char_of (48 + a mod 10)) :: nat) = nat (48 + a mod 10)" for a :: int
    using digit_char [of a] by (metis nat_int of_nat_of_char)
  moreover have "0 \<le> 48 + a mod 10" by simp
  ultimately show ?thesis by (simp only: less_char_def nat_less_eq_zless add_less_cancel_left)
qed

lemma fixed_decimal_less:
  "0 \<le> a \<Longrightarrow> a < 10 ^ n \<Longrightarrow> 0 \<le> b \<Longrightarrow> b < 10 ^ n \<Longrightarrow> fixed_decimal n a < fixed_decimal n b \<longleftrightarrow> a < b"
proof (induction n arbitrary: a b)
  case (Suc n)
  have small: "0 \<le> a div 10" "a div 10 < 10 ^ n" "0 \<le> b div 10" "b div 10 < 10 ^ n" using Suc.prems by auto
  have "fixed_decimal n (a div 10) = fixed_decimal n (b div 10) \<longleftrightarrow> a div 10 = b div 10"
    using fixed_decimal_read [OF small(1,2)] fixed_decimal_read [OF small(3,4)] by metis
  then have "fixed_decimal (Suc n) a < fixed_decimal (Suc n) b \<longleftrightarrow> a div 10 < b div 10 \<or> (a div 10 = b div 10 \<and> a mod 10 < b mod 10)"
    using Suc.IH [OF small] by (simp add: append_less_append fixed_decimal_length digit_less)
  also have "\<dots> \<longleftrightarrow> 10 * (a div 10) + a mod 10 < 10 * (b div 10) + b mod 10"
    using pos_mod_bound [of 10 a] pos_mod_bound [of 10 b] pos_mod_sign [of 10 a] pos_mod_sign [of 10 b] by linarith
  also have "\<dots> \<longleftrightarrow> a < b" by simp
  finally show ?case .
qed simp

lemma sample_clock_law: "clock_law sample_clock"
proof -
  have range: "0 \<le> t div 1000000" "t div 1000000 < 10 ^ 15" if "0 \<le> t" "t < YEAR_10000" for t
    using that by (auto simp: YEAR_10000_def)
  have "fixed_decimal 15 (t div 1000000) \<noteq> []" for t using fixed_decimal_length [of 15 "t div 1000000"] by auto
  moreover have "(a div 1000000 < b div 1000000) = (millis a < millis b)" for a b by (simp add: millis_def)
  ultimately show ?thesis
    using range by (simp add: clock_law_def sample_clock_def fixed_decimal_length fixed_decimal_read fixed_decimal_less millis_def)
qed

definition sample_io :: refresh_io where
  "sample_io = \<lparr>rf_load = (\<lambda>_. Ok \<lparr>cd_key = ''k'', cd_token = ''t'', cd_account_id = None\<rparr>),
     rf_fetch = (\<lambda>_ _ _. Err (RateLimited None)), rf_dropped = None\<rparr>"

theorem usage_publishable_witness:
  "\<exists>s st'. refresh sample_clock UsageClaude sample_io 1000000000 (quota_new UsageClaude) = (Some s, st') \<and>
     validate sample_clock (stamp sample_clock 1 2000000000 s)"
proof -
  obtain out st' where r0: "refresh sample_clock UsageClaude sample_io 1000000000 (quota_new UsageClaude) = (out, st')" by fastforce
  then obtain s where r: "refresh sample_clock UsageClaude sample_io 1000000000 (quota_new UsageClaude) = (Some s, st')"
    by (auto simp: refresh_def sample_io_def quota_new_def quota_begin_def switch_account_def begin_idle_def is_suspended_def is_fresh_def
        start_fetch_def map_prod_def Let_def split: prod.splits)
  have t: "timely 1000000000" "timely 2000000000" by (simp_all add: timely_def YEAR_10000_def MAX_BACKOFF_def)
  from usage_publishable [OF sample_clock_law rtranclp.rtrancl_refl [of _ "(0, quota_new UsageClaude)"] _ t(1) r] t(2)
  show ?thesis using r by auto
qed

definition sample_ticket :: fetch_ticket where
  "sample_ticket = \<lparr>ft_id = 1, ft_account = Some ''k'', ft_started_at = 5, ft_seq = 1\<rparr>"

theorem quota_backs_off_witness:
  "\<exists>s st1 outs st2.
     quota_finish sample_clock sample_ticket (Err (RateLimited (Some 90))) 10
       ((quota_new UsageClaude)\<lparr>qs_flight := Some sample_ticket, qs_account := Some ''k''\<rparr>) = (Applied s, st1) \<and>
     begins sample_clock ''k'' [20, 99] st1 = (outs, st2) \<and> (\<forall>out \<in> set outs. \<exists>s. out = Cached s) \<and>
     (\<exists>t. fst (quota_begin sample_clock (Some ''k'') 100 st2) = Fetch t)"
proof -
  let ?st = "(quota_new UsageClaude)\<lparr>qs_flight := Some sample_ticket, qs_account := Some ''k''\<rparr>"
  have key: "ft_account sample_ticket = Some ''k''" by (simp add: sample_ticket_def)
  obtain s st1 where q: "quota_fail sample_clock (RateLimited (Some 90)) 10 (?st\<lparr>qs_flight := None\<rparr>) = (s, st1)" by fastforce
  then have f: "quota_finish sample_clock sample_ticket (Err (RateLimited (Some 90))) 10 ?st = (Applied s, st1)"
    using key by (simp add: quota_finish_def)
  obtain outs st2 where b: "begins sample_clock ''k'' [20, 99] st1 = (outs, st2)" by fastforce
  from quota_backs_off [OF f key _ _ b, of 100] show ?thesis using f b by auto
qed

end
