(* ===== verification/Usage_Preferences.thy ===== *)
theory Usage_Preferences
  imports Auth_Store
begin

text \<open>
  The usage settings of an account, \<open>hmux-gateway/src/usage_preferences.rs\<close>: their JSON form, the private file
  per account, the small cache in front of the files, and the compare-and-set on the revision.
\<close>

definition PREF_CACHE_ACCOUNTS :: nat where "PREF_CACHE_ACCOUNTS = 9"
definition PREF_MAX_BYTES :: nat where "PREF_MAX_BYTES = 4096"
definition PREF_MAX_REVISION :: int where "PREF_MAX_REVISION = 2 ^ 53"

lemmas preference_limits [limits] = PREF_CACHE_ACCOUNTS_def PREF_MAX_BYTES_def PREF_MAX_REVISION_def

section \<open>Preferences\<close>

record provider_preference =
  pp_enabled :: bool
  pp_source :: string

record preferences =
  pr_version :: int
  pr_revision :: int
  pr_claude :: provider_preference
  pr_codex :: provider_preference

definition provider_default :: provider_preference where
  "provider_default = \<lparr>pp_enabled = False, pp_source = []\<rparr>"

definition preferences_default :: preferences where
  "preferences_default =
     \<lparr>pr_version = 1, pr_revision = 0, pr_claude = \<lparr>pp_enabled = True, pp_source = ''cswap''\<rparr>,
      pr_codex = \<lparr>pp_enabled = True, pp_source = ''codex-lb''\<rparr>\<rparr>"

datatype preference_error = PInvalid | PConflict | PBusy | PUnavailable | PUnauthorized

definition preferences_valid :: "preferences \<Rightarrow> bool" where
  "preferences_valid p \<longleftrightarrow>
     pr_version p = 1 \<and> 0 \<le> pr_revision p \<and> pr_revision p < PREF_MAX_REVISION \<and>
     pp_source (pr_claude p) \<in> {''cli'', ''cswap''} \<and> pp_source (pr_codex p) \<in> {''cli'', ''codex-lb''}"

text \<open>A field that is missing or \<open>null\<close> has its default.\<close>

definition null_default :: "'a \<Rightarrow> (json \<Rightarrow> 'a option) \<Rightarrow> json \<Rightarrow> 'a option" where
  "null_default dflt dec j = (if j = JNull then Some dflt else dec j)"

definition provider_of_json :: "json \<Rightarrow> provider_preference option" where
  "provider_of_json j =
     (if j = JNull then Some provider_default
      else case object_fields [''enabled'', ''source''] j of
        None \<Rightarrow> None
      | Some fs \<Rightarrow>
          (case (null_default False json_bool (field fs ''enabled''), null_default [] json_string (field fs ''source'')) of
             (Some e, Some s) \<Rightarrow> Some \<lparr>pp_enabled = e, pp_source = s\<rparr>
           | _ \<Rightarrow> None))"

definition preferences_of_json :: "json \<Rightarrow> preferences option" where
  "preferences_of_json j =
     (case object_fields [''version'', ''revision'', ''claude'', ''codex''] j of
        None \<Rightarrow> None
      | Some fs \<Rightarrow>
          (case (null_default 0 json_i64 (field fs ''version''), null_default 0 json_i64 (field fs ''revision''),
                 provider_of_json (field fs ''claude''), provider_of_json (field fs ''codex'')) of
             (Some v, Some r, Some a, Some b) \<Rightarrow> Some \<lparr>pr_version = v, pr_revision = r, pr_claude = a, pr_codex = b\<rparr>
           | _ \<Rightarrow> None))"

definition is_ascii_whitespace :: "char \<Rightarrow> bool" where
  "is_ascii_whitespace c \<longleftrightarrow> c \<in> {CHR 0x20, CHR 0x09, CHR 0x0A, CHR 0x0C, CHR 0x0D}"

definition decode_preferences :: "(bytes \<Rightarrow> json option) \<Rightarrow> bytes \<Rightarrow> (preference_error, preferences) result" where
  "decode_preferences parse raw =
     (if PREF_MAX_BYTES < length raw \<or> find (\<lambda>b. \<not> is_ascii_whitespace b) raw \<noteq> Some (CHR 0x7B) then Err PInvalid
      else case Option.bind (parse raw) preferences_of_json of
        None \<Rightarrow> Err PInvalid
      | Some v \<Rightarrow> if preferences_valid v then Ok v else Err PInvalid)"

text \<open>The text of \<open>serde_json::to_vec\<close>, for sources that need no escape, and the document it is the text of.\<close>

definition provider_text :: "provider_preference \<Rightarrow> string" where
  "provider_text p =
     CHR 0x7B # json_key ''enabled'' @ (if pp_enabled p then ''true'' else ''false'') @
     CHR '','' # json_key ''source'' @ CHR 0x22 # pp_source p @ [CHR 0x22, CHR 0x7D]"

definition preferences_text :: "preferences \<Rightarrow> bytes" where
  "preferences_text p =
     CHR 0x7B # json_key ''version'' @ int_decimal (pr_version p) @
     CHR '','' # json_key ''revision'' @ int_decimal (pr_revision p) @
     CHR '','' # json_key ''claude'' @ provider_text (pr_claude p) @
     CHR '','' # json_key ''codex'' @ provider_text (pr_codex p) @ [CHR 0x7D]"

definition provider_json :: "provider_preference \<Rightarrow> json" where
  "provider_json p = JObj [(''enabled'', JBool (pp_enabled p)), (''source'', JStr (pp_source p))]"

definition preferences_json :: "preferences \<Rightarrow> json" where
  "preferences_json p =
     JObj [(''version'', JInt (pr_version p)), (''revision'', JInt (pr_revision p)),
       (''claude'', provider_json (pr_claude p)), (''codex'', provider_json (pr_codex p))]"

section \<open>The files of the accounts\<close>

definition usage_preference_digest :: "auth_env \<Rightarrow> string \<Rightarrow> string \<Rightarrow> bytes" where
  "usage_preference_digest env username profile = ae_sha256 env (username @ CHR 0x00 # profile)"

definition usage_preference_key :: "auth_env \<Rightarrow> string \<Rightarrow> string \<Rightarrow> string" where
  "usage_preference_key env username profile = hex_bytes (usage_preference_digest env username profile)"

definition pref_key :: "auth_env \<Rightarrow> session_access \<Rightarrow> bytes" where
  "pref_key env who = usage_preference_digest env (sa_username who) (sa_profile who)"

record access_check = \<comment> \<open>the channel of the login and the clock when it is looked at\<close>
  ac_cancelled :: bool
  ac_gone :: bool
  ac_now :: int

definition authorized :: "access_check \<Rightarrow> session_access \<Rightarrow> (preference_error, unit) result" where
  "authorized c who =
     (if ac_cancelled c \<or> ac_gone c \<or> sa_expires_at who \<le> ac_now c then Err PUnauthorized else Ok ())"

definition pref_filename :: "bytes \<Rightarrow> string" where
  "pref_filename key = hex_bytes key @ ''.json''"

record pref_state =
  pf_dir :: private_dir
  pf_cache :: "(bytes \<times> preferences) list"

definition pref_read :: "auth_env \<Rightarrow> bool \<Rightarrow> bytes \<Rightarrow> pref_state \<Rightarrow> (preference_error, preferences) result" where
  "pref_read env readable key st =
     (case read_private readable (pf_dir st) (pref_filename key) PREF_MAX_BYTES of
        Inr raw \<Rightarrow> (case decode_preferences (ae_json env) raw of Inr p \<Rightarrow> Ok p | Inl e \<Rightarrow> Err PUnavailable)
      | Inl NotFound \<Rightarrow> Ok preferences_default
      | Inl ReadFailed \<Rightarrow> Err PUnavailable)"

definition pref_cache :: "bytes \<Rightarrow> preferences \<Rightarrow> pref_state \<Rightarrow> pref_state" where
  "pref_cache key v st = st\<lparr>pf_cache := drop_oldest PREF_CACHE_ACCOUNTS (remove_key key (pf_cache st)) @ [(key, v)]\<rparr>"

definition pref_get :: "auth_env \<Rightarrow> bool \<Rightarrow> bytes \<Rightarrow> pref_state \<Rightarrow> (preference_error, preferences) result \<times> pref_state" where
  "pref_get env readable key st =
     (case map_of (pf_cache st) key of
        Some v \<Rightarrow> (Ok v, st)
      | None \<Rightarrow> (case pref_read env readable key st of Inl e \<Rightarrow> (Err e, st) | Inr v \<Rightarrow> (Ok v, pref_cache key v st)))"

record pref_io =
  pi_readable :: bool \<comment> \<open>by \<open>get\<close>\<close>
  pi_reread :: bool \<comment> \<open>before the replacement\<close>
  pi_first :: access_check
  pi_second :: access_check
  pi_write :: write_result

definition pref_replace ::
  "pref_io \<Rightarrow> bytes \<Rightarrow> preferences \<Rightarrow> session_access \<Rightarrow> pref_state \<Rightarrow> (preference_error, preferences) result \<times> pref_state" where
  \<comment> \<open>the write, once the revision has been compared\<close>
  "pref_replace io key v who st =
     (if \<not> preferences_valid v then (Err PUnavailable, st)
      else case authorized (pi_second io) who of
        Inl e \<Rightarrow> (Err e, st)
      | Inr _ \<Rightarrow>
          (case write_atomic (pi_write io) (pf_dir st) (pref_filename key) (preferences_text v) of
             (False, dir) \<Rightarrow> (Err PUnavailable, st\<lparr>pf_dir := dir, pf_cache := remove_key key (pf_cache st)\<rparr>)
           | (True, dir) \<Rightarrow> (Ok v, pref_cache key v (st\<lparr>pf_dir := dir\<rparr>))))"

definition pref_set ::
  "auth_env \<Rightarrow> pref_io \<Rightarrow> bytes \<Rightarrow> preferences \<Rightarrow> session_access \<Rightarrow> pref_state \<Rightarrow> (preference_error, preferences) result \<times> pref_state" where
  "pref_set env io key v who st =
     (case authorized (pi_first io) who of
        Inl e \<Rightarrow> (Err e, st)
      | Inr _ \<Rightarrow>
          if \<not> preferences_valid v then (Err PInvalid, st)
          else case pref_get env (pi_readable io) key st of
            (Inl e, st) \<Rightarrow> (Err e, st)
          | (Inr old, st) \<Rightarrow>
              (case pref_read env (pi_reread io) key st of
                 Inl e \<Rightarrow> (Err e, st)
               | Inr current \<Rightarrow>
                   if old \<noteq> current \<or> pr_revision current \<noteq> pr_revision v then (Err PConflict, pref_cache key current st)
                   else pref_replace io key (v\<lparr>pr_revision := pr_revision v + 1\<rparr>) who st))"

section \<open>The store\<close>

record pref_store =
  ps_state :: pref_state
  ps_closed :: bool

definition pref_new :: "private_dir \<Rightarrow> pref_store" where
  "pref_new dir = \<lparr>ps_state = \<lparr>pf_dir = dir, pf_cache = []\<rparr>, ps_closed = False\<rparr>"

text \<open>The arguments of a transaction: whether a worker is free, and whether the store was closed when it looked.\<close>

definition pref_transact ::
  "(pref_state \<Rightarrow> (preference_error, preferences) result \<times> pref_state) \<Rightarrow> bool \<Rightarrow> pref_store \<Rightarrow>
    (preference_error, preferences) result \<times> pref_store" where
  "pref_transact work admitted s =
     (if \<not> admitted then (Err PBusy, s)
      else if ps_closed s then (Err PUnavailable, s)
      else case work (ps_state s) of (res, st) \<Rightarrow> (res, s\<lparr>ps_state := st\<rparr>))"

definition pref_store_get ::
  "auth_env \<Rightarrow> bool \<Rightarrow> bool \<Rightarrow> bool \<Rightarrow> session_access \<Rightarrow> pref_store \<Rightarrow> (preference_error, preferences) result \<times> pref_store" where
  \<comment> \<open>\<open>free\<close>: the state's lock can be taken without waiting\<close>
  "pref_store_get env readable free admitted who s =
     (if ps_closed s then (Err PUnavailable, s)
      else case (if free then map_of (pf_cache (ps_state s)) (pref_key env who) else None) of
        Some v \<Rightarrow> (Ok v, s)
      | None \<Rightarrow> pref_transact (pref_get env readable (pref_key env who)) admitted s)"

definition pref_store_set ::
  "auth_env \<Rightarrow> pref_io \<Rightarrow> bool \<Rightarrow> session_access \<Rightarrow> preferences \<Rightarrow> pref_store \<Rightarrow> (preference_error, preferences) result \<times> pref_store" where
  "pref_store_set env io admitted who v s =
     (if \<not> preferences_valid v then (Err PInvalid, s)
      else pref_transact (pref_set env io (pref_key env who) v who) admitted s)"

definition pref_shutdown :: "pref_store \<Rightarrow> pref_store" where
  "pref_shutdown s = s\<lparr>ps_closed := True\<rparr>"

end
