(* ===== verification/Usage_Preferences_Properties.thy ===== *)
theory Usage_Preferences_Properties
  imports Usage_Preferences
begin

text \<open>
  The usage settings are a compare-and-set register per account: what is read is what was last written, a
  change is applied to the revision it was made from or not at all, and no account's change touches
  another's file.
\<close>

section \<open>Text and file\<close>

definition pref_law :: "auth_env \<Rightarrow> bool" where
  \<comment> \<open>the parser reads the text the writer writes\<close>
  "pref_law env \<longleftrightarrow> (\<forall>p. preferences_valid p \<longrightarrow> ae_json env (preferences_text p) = Some (preferences_json p))"

lemma preferences_json_back:
  assumes "preferences_valid p"
  shows "preferences_of_json (preferences_json p) = Some p"
proof -
  have "provider_of_json (provider_json q) = Some q" for q
    by (cases q) (simp add: provider_of_json_def provider_json_def field_def null_default_def json_bool_def json_string_def keys_def)
  moreover have "is_i64 (pr_version p)" "is_i64 (pr_revision p)" using assms by (simp_all add: preferences_valid_def is_i64_def PREF_MAX_REVISION_def)
  ultimately show ?thesis
    by (cases p) (simp add: preferences_of_json_def preferences_json_def field_def null_default_def json_i64_def keys_def)
qed

lemma preferences_text_short: "preferences_valid p \<Longrightarrow> length (preferences_text p) \<le> PREF_MAX_BYTES"
proof -
  assume v: "preferences_valid p"
  have prov: "length (provider_text q) \<le> 44" if "length (pp_source q) \<le> 8" for q
    using that by (simp add: provider_text_def json_key_def)
  have "length (provider_text (pr_claude p)) \<le> 44" "length (provider_text (pr_codex p)) \<le> 44"
    using v by (auto simp: preferences_valid_def intro!: prov)
  moreover have "length (decimal (nat (pr_revision p))) \<le> Suc 15"
    using v by (intro decimal_length) (auto simp: preferences_valid_def PREF_MAX_REVISION_def)
  moreover have "length (decimal (Suc 0)) \<le> Suc 0" by (intro decimal_length) simp
  ultimately show ?thesis using v by (simp add: preferences_text_def json_key_def int_decimal_def preferences_valid_def PREF_MAX_BYTES_def)
qed

lemma decode_written:
  assumes "pref_law env" and "preferences_valid p"
  shows "decode_preferences (ae_json env) (preferences_text p) = Ok p"
proof -
  have "find (\<lambda>b. \<not> is_ascii_whitespace b) (preferences_text p) = Some (CHR 0x7B)" by (simp add: preferences_text_def is_ascii_whitespace_def)
  then show ?thesis
    using assms preferences_text_short [OF assms(2)] preferences_json_back [OF assms(2)] by (simp add: decode_preferences_def pref_law_def)
qed

lemma hex_bytes_inj: "hex_bytes a = hex_bytes b \<Longrightarrow> a = b"
proof (induction a arbitrary: b)
  case Nil
  then show ?case using hex_bytes_shape(1) [of b] hex_bytes_shape(1) [of "[]"] by (cases b) simp_all
next
  case (Cons x a)
  then obtain y b' where b: "b = y # b'" using hex_bytes_shape(1) [of "x # a"] hex_bytes_shape(1) [of "[]"] by (cases b) auto
  have "to_hex 2 (of_char x) = to_hex 2 (of_char y) \<and> hex_bytes a = hex_bytes b'"
    using Cons.prems unfolding b by (simp add: hex_bytes_def code_def)
  moreover from this have "(of_char x :: nat) = of_char y" by (intro to_hex_inj [of _ 2]) simp_all
  ultimately show ?case using Cons.IH b by simp
qed

lemma pref_filename_inj: "pref_filename a = pref_filename b \<longleftrightarrow> a = b"
  by (auto simp: pref_filename_def dest: hex_bytes_inj)

text \<open>What the file of an account holds, when it can be read.\<close>

definition stored :: "auth_env \<Rightarrow> private_dir \<Rightarrow> bytes \<Rightarrow> preferences option" where
  "stored env dir key =
     (case pref_read env True key \<lparr>pf_dir = dir, pf_cache = []\<rparr> of Inl e \<Rightarrow> None | Inr p \<Rightarrow> Some p)"

lemma pref_read_stored: "pref_read env readable key st = Ok p \<Longrightarrow> stored env (pf_dir st) key = Some p"
  by (cases readable) (auto simp: stored_def pref_read_def read_private_def split: read_error.splits sum.splits option.splits)

lemma stored_default_valid: "preferences_valid preferences_default"
  by (simp add: preferences_valid_def preferences_default_def PREF_MAX_REVISION_def)

lemma stored_valid: "stored env dir key = Some p \<Longrightarrow> preferences_valid p"
  using stored_default_valid
  by (auto simp: stored_def pref_read_def decode_preferences_def split: read_error.splits sum.splits option.splits if_splits)

lemma stored_written:
  assumes "pref_law env" and "preferences_valid p"
  shows "stored env (dir(pref_filename key \<mapsto> preferences_text p)) key = Some p"
  using decode_written [OF assms] preferences_text_short [OF assms(2)] by (simp add: stored_def pref_read_def read_private_def)

lemma stored_other: "dir' (pref_filename key) = dir (pref_filename key) \<Longrightarrow> stored env dir' key = stored env dir key"
  by (simp add: stored_def pref_read_def read_private_def)

section \<open>The cache\<close>

definition pref_ok :: "auth_env \<Rightarrow> pref_state \<Rightarrow> bool" where
  "pref_ok env st \<longleftrightarrow>
     wf_map (pf_cache st) \<and> length (pf_cache st) \<le> PREF_CACHE_ACCOUNTS \<and>
     (\<forall>(key, v) \<in> set (pf_cache st). stored env (pf_dir st) key = Some v)"

lemma pref_cache_dir [simp]: "pf_dir (pref_cache key v st) = pf_dir st"
  by (simp add: pref_cache_def)

lemma pref_cache_ok:
  assumes "wf_map (pf_cache st)" and "length (pf_cache st) \<le> PREF_CACHE_ACCOUNTS" and "stored env (pf_dir st) key = Some v"
    and "\<forall>(k, w) \<in> set (pf_cache st). k \<noteq> key \<longrightarrow> stored env (pf_dir st) k = Some w"
  shows "pref_ok env (pref_cache key v st)"
proof -
  let ?r = "remove_key key (pf_cache st)"
  have sub: "set (drop_oldest PREF_CACHE_ACCOUNTS ?r) \<subseteq> set ?r" by (rule set_drop_oldest)
  have "wf_map (drop_oldest PREF_CACHE_ACCOUNTS ?r @ [(key, v)])"
    using assms(1) sub distinct_map_drop_oldest [of fst ?r PREF_CACHE_ACCOUNTS] wf_map_remove_key [of "pf_cache st" key]
    by (auto simp: wf_map_def keys_def remove_key_def)
  moreover have "length (drop_oldest PREF_CACHE_ACCOUNTS ?r) < PREF_CACHE_ACCOUNTS"
    using assms(2) length_remove_key_le [of key "pf_cache st"] by (intro length_drop_oldest) (auto simp: PREF_CACHE_ACCOUNTS_def simp del: length_remove_key_le)
  moreover have "\<forall>(k, w) \<in> set (drop_oldest PREF_CACHE_ACCOUNTS ?r). stored env (pf_dir st) k = Some w"
    using assms(4) sub by (fastforce simp: remove_key_def)
  ultimately show ?thesis using assms(3) by (auto simp: pref_ok_def pref_cache_def)
qed

lemma pref_get_ok:
  assumes "pref_get env readable key st = (res, st')" and "pref_ok env st"
  shows "pref_ok env st' \<and> pf_dir st' = pf_dir st \<and> (\<forall>p. res = Ok p \<longrightarrow> stored env (pf_dir st) key = Some p)"
proof (cases "map_of (pf_cache st) key")
  case None
  show ?thesis
  proof (cases "pref_read env readable key st")
    case (Inr p)
    then have eq: "res = Ok p" "st' = pref_cache key p st" using assms(1) None by (simp_all add: pref_get_def)
    have "pref_ok env (pref_cache key p st)"
      using assms(2) pref_read_stored [OF Inr] by (intro pref_cache_ok) (auto simp: pref_ok_def)
    then show ?thesis using eq pref_read_stored [OF Inr] by simp
  next
    case (Inl e)
    then have "res = Err e" "st' = st" using assms(1) None by (simp_all add: pref_get_def)
    then show ?thesis using assms(2) by simp
  qed
next
  case (Some v)
  then show ?thesis using assms map_of_SomeD [OF Some] by (auto simp: pref_get_def pref_ok_def)
qed

text \<open>The outcomes of a change: refused with the files as they were, written, or not known.\<close>

definition pref_effect :: "auth_env \<Rightarrow> bytes \<Rightarrow> preferences \<Rightarrow> (preference_error, preferences) result \<Rightarrow> private_dir \<Rightarrow> private_dir \<Rightarrow> bool" where
  "pref_effect env key v res dir dir' \<longleftrightarrow>
     (let w = v\<lparr>pr_revision := pr_revision v + 1\<rparr>; written = dir(pref_filename key \<mapsto> preferences_text w);
          based = (preferences_valid w \<and> (\<exists>p. stored env dir key = Some p \<and> pr_revision p = pr_revision v)) in
      case res of
        Inr r \<Rightarrow> r = w \<and> dir' = written \<and> based
      | Inl e \<Rightarrow> dir' = dir \<or> (e = PUnavailable \<and> dir' = written \<and> based))"

lemma pref_ok_moved:
  assumes "pref_ok env st" and "\<And>k. k \<noteq> key \<Longrightarrow> stored env dir' k = stored env (pf_dir st) k"
  shows "\<forall>(k, w) \<in> set (pf_cache st). k \<noteq> key \<longrightarrow> stored env dir' k = Some w"
  using assms by (auto simp: pref_ok_def)

lemma pref_replace_ok:
  assumes "pref_replace io key w who st = (res, st')" and "pref_ok env st" and "pref_law env"
  shows "pref_ok env st' \<and>
    (case res of
       Inr r \<Rightarrow> r = w \<and> preferences_valid w \<and> pf_dir st' = (pf_dir st)(pref_filename key \<mapsto> preferences_text w)
     | Inl e \<Rightarrow> pf_dir st' = pf_dir st \<or>
         (e = PUnavailable \<and> preferences_valid w \<and> pf_dir st' = (pf_dir st)(pref_filename key \<mapsto> preferences_text w)))"
proof (cases "preferences_valid w \<and> authorized (pi_second io) who = Ok ()")
  case False
  then have "\<exists>e. res = Err e" "st' = st" using assms(1) by (auto simp: pref_replace_def split: sum.splits if_splits)
  then show ?thesis using assms(2) by auto
next
  case True
  obtain ok dir where wr: "write_atomic (pi_write io) (pf_dir st) (pref_filename key) (preferences_text w) = (ok, dir)" by fastforce
  have other: "stored env dir k = stored env (pf_dir st) k" if "k \<noteq> key" for k
    using write_atomic_elsewhere [OF wr] that by (intro stored_other) (simp add: pref_filename_inj)
  show ?thesis
  proof (cases ok)
    case False
    then have eq: "res = Err PUnavailable" "st' = st\<lparr>pf_dir := dir, pf_cache := remove_key key (pf_cache st)\<rparr>"
      using assms(1) True wr by (simp_all add: pref_replace_def)
    have "dir = pf_dir st \<or> dir = (pf_dir st)(pref_filename key \<mapsto> preferences_text w)"
      using wr by (cases "pi_write io") (auto simp: write_atomic_def split: if_splits)
    moreover have "pref_ok env st'"
      using assms(2) pref_ok_moved [OF assms(2) other] unfolding eq(2)
      by (auto simp: pref_ok_def remove_key_def intro: order_trans [OF length_filter_le])
    ultimately show ?thesis using eq True by auto
  next
    case written: True
    then have eq: "res = Ok w" "st' = pref_cache key w (st\<lparr>pf_dir := dir\<rparr>)" "dir = (pf_dir st)(pref_filename key \<mapsto> preferences_text w)"
      using assms(1) True wr write_atomic_ok [of "pi_write io" "pf_dir st"] by (simp_all add: pref_replace_def)
    have "pref_ok env st'" unfolding eq(2)
      using assms(2) pref_ok_moved [OF assms(2) other] stored_written [OF assms(3)] True eq(3) by (intro pref_cache_ok) (auto simp: pref_ok_def)
    then show ?thesis using eq True by simp
  qed
qed

lemma pref_set_ok:
  assumes "pref_set env io key v who st = (res, st')" and "pref_ok env st" and "pref_law env"
  shows "pref_ok env st' \<and> pref_effect env key v res (pf_dir st) (pf_dir st')"
proof (cases "authorized (pi_first io) who = Ok () \<and> preferences_valid v")
  case False
  then have "\<exists>e. res = Err e" "st' = st" using assms(1) by (auto simp: pref_set_def split: sum.splits if_splits)
  then show ?thesis using assms(2) by (auto simp: pref_effect_def Let_def)
next
  case True
  obtain got st1 where g: "pref_get env (pi_readable io) key st = (got, st1)" by fastforce
  note get = pref_get_ok [OF g assms(2)]
  show ?thesis
  proof (cases got)
    case (Inl e)
    then have "res = Err e" "st' = st1" using assms(1) True g by (simp_all add: pref_set_def)
    then show ?thesis using get by (simp add: pref_effect_def Let_def)
  next
    case (Inr old)
    show ?thesis
    proof (cases "pref_read env (pi_reread io) key st1")
      case (Inl e)
      then have "res = Err e" "st' = st1" using assms(1) True g Inr by (simp_all add: pref_set_def)
      then show ?thesis using get by (simp add: pref_effect_def Let_def)
    next
      case cur: (Inr current)
      note now = pref_read_stored [OF cur]
      show ?thesis
      proof (cases "old \<noteq> current \<or> pr_revision current \<noteq> pr_revision v")
        case conflict: True
        then have "res = Err PConflict" "st' = pref_cache key current st1" using assms(1) True g Inr cur by (simp_all add: pref_set_def)
        moreover have "pref_ok env (pref_cache key current st1)" using get now by (intro pref_cache_ok) (auto simp: pref_ok_def)
        ultimately show ?thesis using get by (simp add: pref_effect_def Let_def)
      next
        case False
        then have "pref_replace io key (v\<lparr>pr_revision := pr_revision v + 1\<rparr>) who st1 = (res, st')"
          using assms(1) True g Inr cur by (simp add: pref_set_def)
        from pref_replace_ok [OF this _ assms(3)] get now False
        show ?thesis by (auto simp: pref_effect_def Let_def split: sum.splits)
      qed
    qed
  qed
qed

section \<open>Histories\<close>

inductive pref_step :: "auth_env \<Rightarrow> pref_store \<Rightarrow> pref_store \<Rightarrow> bool" for env where
  got: "pref_step env s (snd (pref_store_get env readable free admitted who s))"
| changed: "pref_step env s (snd (pref_store_set env io admitted who v s))"
| shut: "pref_step env s (pref_shutdown s)"

lemma pref_transact_cases:
  assumes "pref_transact work admitted s = (res, s')"
  obtains (refused) e where "res = Err e" "s' = s" | (worked) st' where "work (ps_state s) = (res, st')" "s' = s\<lparr>ps_state := st'\<rparr>"
proof (cases "admitted \<and> \<not> ps_closed s")
  case True
  obtain r st' where "work (ps_state s) = (r, st')" by fastforce
  then show thesis using assms True worked by (simp add: pref_transact_def)
next
  case False
  then have "\<exists>e. res = Err e \<and> s' = s" using assms by (auto simp: pref_transact_def split: if_splits)
  then show thesis using refused by blast
qed

lemma pref_store_get_ok:
  assumes "pref_store_get env readable free admitted who s = (res, s')" and "pref_ok env (ps_state s)"
  shows "pref_ok env (ps_state s') \<and> pf_dir (ps_state s') = pf_dir (ps_state s) \<and>
    (\<forall>p. res = Ok p \<longrightarrow> stored env (pf_dir (ps_state s)) (pref_key env who) = Some p)"
proof (cases "ps_closed s")
  case True
  then show ?thesis using assms by (auto simp: pref_store_get_def)
next
  case False
  let ?key = "pref_key env who"
  show ?thesis
  proof (cases "if free then map_of (pf_cache (ps_state s)) ?key else None")
    case None
    then have "pref_transact (pref_get env readable ?key) admitted s = (res, s')" using assms(1) False by (simp add: pref_store_get_def)
    then show ?thesis
    proof (cases rule: pref_transact_cases)
      case refused
      then show ?thesis using assms(2) by simp
    next
      case (worked st')
      then show ?thesis using pref_get_ok [OF worked(1) assms(2)] by simp
    qed
  next
    case (Some v)
    then have "map_of (pf_cache (ps_state s)) ?key = Some v" "res = Ok v" "s' = s"
      using assms(1) False by (auto simp: pref_store_get_def split: if_splits)
    then show ?thesis using assms(2) by (auto simp: pref_ok_def dest!: map_of_SomeD)
  qed
qed

lemma pref_store_set_ok:
  assumes "pref_store_set env io admitted who v s = (res, s')" and "pref_ok env (ps_state s)" and "pref_law env"
  shows "pref_ok env (ps_state s') \<and> pref_effect env (pref_key env who) v res (pf_dir (ps_state s)) (pf_dir (ps_state s'))"
proof (cases "preferences_valid v")
  case False
  then show ?thesis using assms(1,2) by (auto simp: pref_store_set_def pref_effect_def Let_def)
next
  case True
  then have "pref_transact (pref_set env io (pref_key env who) v who) admitted s = (res, s')" using assms(1) by (simp add: pref_store_set_def)
  then show ?thesis
  proof (cases rule: pref_transact_cases)
    case refused
    then show ?thesis using assms(2) by (simp add: pref_effect_def Let_def)
  next
    case (worked st')
    then show ?thesis using pref_set_ok [OF worked(1) assms(2,3)] by simp
  qed
qed

interpretation settings: step_invariant "pref_step env" "\<lambda>s. pref_law env \<longrightarrow> pref_ok env (ps_state s)" for env
proof
  fix s s'
  assume "pref_step env s s'" and inv: "pref_law env \<longrightarrow> pref_ok env (ps_state s)"
  then show "pref_law env \<longrightarrow> pref_ok env (ps_state s')"
  proof cases
    case (got readable free admitted who)
    then show ?thesis using inv pref_store_get_ok [OF prod.collapse [symmetric]] by blast
  next
    case (changed io admitted who v)
    then show ?thesis using inv pref_store_set_ok [OF prod.collapse [symmetric]] by blast
  qed (simp add: pref_shutdown_def)
qed

text \<open>The revision of an account never goes back.\<close>

definition at_revision :: "auth_env \<Rightarrow> bytes \<Rightarrow> int \<Rightarrow> pref_store \<Rightarrow> bool" where
  "at_revision env key n s \<longleftrightarrow> (\<exists>p. stored env (pf_dir (ps_state s)) key = Some p \<and> n \<le> pr_revision p)"

lemma effect_revision:
  assumes "pref_effect env key v res dir dir'" and "pref_law env" and "stored env dir k = Some p"
  shows "\<exists>q. stored env dir' k = Some q \<and> pr_revision p \<le> pr_revision q"
proof (cases "dir' = dir")
  case False
  let ?w = "v\<lparr>pr_revision := pr_revision v + 1\<rparr>"
  have d: "dir' = dir(pref_filename key \<mapsto> preferences_text ?w)" "preferences_valid ?w"
      "\<exists>p. stored env dir key = Some p \<and> pr_revision p = pr_revision v"
    using assms(1) False by (auto simp: pref_effect_def Let_def split: sum.splits)
  show ?thesis
  proof (cases "k = key")
    case True
    then show ?thesis using stored_written [OF assms(2) d(2)] d assms(3) by auto
  next
    case other: False
    then have "stored env dir' k = stored env dir k" using d(1) by (intro stored_other) (simp add: pref_filename_inj)
    then show ?thesis using assms(3) by auto
  qed
qed (use assms(3) in auto)

lemma pref_step_revision:
  assumes "pref_step env s s'" and "pref_law env \<longrightarrow> pref_ok env (ps_state s)" and "pref_law env" and "at_revision env key n s"
  shows "at_revision env key n s'"
  using assms(1)
proof cases
  case (got readable free admitted who)
  then show ?thesis using pref_store_get_ok [OF prod.collapse [symmetric]] assms(2-4) by (metis at_revision_def)
next
  case (changed io admitted who v)
  then have "pref_effect env (pref_key env who) v (fst (pref_store_set env io admitted who v s)) (pf_dir (ps_state s)) (pf_dir (ps_state s'))"
    using pref_store_set_ok [OF prod.collapse [symmetric]] assms(2,3) by blast
  then show ?thesis using effect_revision [OF _ assms(3)] assms(4) order_trans unfolding at_revision_def by blast
qed (use assms(4) in \<open>simp add: pref_shutdown_def at_revision_def\<close>)

text \<open>
  C15: the settings of an account are a register with compare-and-set, over any history of reads, changes,
  failed writes and the shutdown. A change that is reported as made was made to the revision it names,
  and is what the file then holds; no later change can be made to that revision, so that of two devices
  that start from the same settings at most one succeeds and the other learns of it; every later read
  returns settings at least as new; and the files of other accounts stay as they are.
\<close>

theorem preferences_compare_and_set:
  assumes "pref_law env" and "(pref_step env)\<^sup>*\<^sup>* (pref_new dir) s0"
    and "pref_store_set env io admitted who v s0 = (Ok r, s1)" and "(pref_step env)\<^sup>*\<^sup>* s1 s2"
    and "pref_key env other = pref_key env who"
  shows "r = v\<lparr>pr_revision := pr_revision v + 1\<rparr> \<and> stored env (pf_dir (ps_state s1)) (pref_key env who) = Some r \<and>
    (\<exists>p. stored env (pf_dir (ps_state s0)) (pref_key env who) = Some p \<and> pr_revision p = pr_revision v) \<and>
    (\<forall>key. key \<noteq> pref_key env who \<longrightarrow> pf_dir (ps_state s1) (pref_filename key) = pf_dir (ps_state s0) (pref_filename key)) \<and>
    (\<forall>io2 admitted2 v2 r2 s3. pref_store_set env io2 admitted2 other v2 s2 = (Ok r2, s3) \<longrightarrow> pr_revision r \<le> pr_revision v2) \<and>
    (\<forall>readable free admitted2 q s3. pref_store_get env readable free admitted2 other s2 = (Ok q, s3) \<longrightarrow> pr_revision r \<le> pr_revision q)"
proof -
  let ?key = "pref_key env who"
  have ok0: "pref_law env \<longrightarrow> pref_ok env (ps_state s0)"
    using settings.run_keeps [OF assms(2)] by (simp add: pref_new_def pref_ok_def)
  from pref_store_set_ok [OF assms(3)] ok0 assms(1)
  have ok1: "pref_law env \<longrightarrow> pref_ok env (ps_state s1)" and eff: "pref_effect env ?key v (Ok r) (pf_dir (ps_state s0)) (pf_dir (ps_state s1))" by auto
  have r: "r = v\<lparr>pr_revision := pr_revision v + 1\<rparr>" "pf_dir (ps_state s1) = (pf_dir (ps_state s0))(pref_filename ?key \<mapsto> preferences_text r)"
      "\<exists>p. stored env (pf_dir (ps_state s0)) ?key = Some p \<and> pr_revision p = pr_revision v" "preferences_valid r"
    using eff by (auto simp: pref_effect_def Let_def)
  have now: "stored env (pf_dir (ps_state s1)) ?key = Some r" using stored_written [OF assms(1) r(4)] r(2) by simp
  then have "at_revision env ?key (pr_revision r) s1" by (simp add: at_revision_def)
  then have at2: "at_revision env ?key (pr_revision r) s2"
    using settings.run_keeps_rel [OF assms(4) ok1, of "at_revision env ?key (pr_revision r)"] pref_step_revision assms(1) by blast
  have ok2: "pref_ok env (ps_state s2)" using settings.run_keeps [OF assms(4) ok1] assms(1) by blast
  have "pr_revision r \<le> pr_revision v2" if "pref_store_set env io2 admitted2 other v2 s2 = (Ok r2, s3)" for io2 admitted2 v2 r2 s3
    using pref_store_set_ok [OF that ok2 assms(1)] at2 assms(5) by (auto simp: pref_effect_def Let_def at_revision_def)
  moreover have "pr_revision r \<le> pr_revision q" if "pref_store_get env readable free admitted2 other s2 = (Ok q, s3)" for readable free admitted2 q s3
    using pref_store_get_ok [OF that ok2] at2 assms(5) by (auto simp: at_revision_def)
  ultimately show ?thesis using r now by (auto simp: pref_filename_inj)
qed

section \<open>An example\<close>

text \<open>A parser for the texts of settings, by the quotation marks.\<close>

definition sample_pref_parse :: "bytes \<Rightarrow> json option" where
  "sample_pref_parse raw =
     (let w = split_on (CHR 0x22) raw; number = (\<lambda>t. int (undecimal 0 (butlast (tl t))));
          prov = (\<lambda>i. provider_json \<lparr>pp_enabled = (w ! i = '':true,''), pp_source = w ! (i + 3)\<rparr>) in
      if length w = 21
      then Some (JObj [(''version'', JInt (number (w ! 2))), (''revision'', JInt (number (w ! 4))), (''claude'', prov 8), (''codex'', prov 16)])
      else None)"

lemma split_on_prefix: "c \<notin> set a \<Longrightarrow> split_on c (a @ b) = (case split_on c b of p # ps \<Rightarrow> (a @ p) # ps)"
proof (induction a)
  case Nil
  then show ?case by (cases "split_on c b") simp_all
next
  case (Cons x a)
  then show ?case by (cases "split_on c b") auto
qed

lemma split_text:
  assumes "preferences_valid p"
  shows "split_on (CHR 0x22) (preferences_text p) =
    [[CHR 0x7B], ''version'', '':1,'', ''revision'', CHR '':'' # decimal (nat (pr_revision p)) @ '','', ''claude'', CHR '':'' # [CHR 0x7B], ''enabled'',
     (if pp_enabled (pr_claude p) then '':true,'' else '':false,''), ''source'', '':'', pp_source (pr_claude p), CHR 0x7D # '','', ''codex'', CHR '':'' # [CHR 0x7B], ''enabled'',
     (if pp_enabled (pr_codex p) then '':true,'' else '':false,''), ''source'', '':'', pp_source (pr_codex p), [CHR 0x7D, CHR 0x7D]]"
proof -
  have digits: "split_on (CHR 0x22) (decimal n @ b) = (case split_on (CHR 0x22) b of p # ps \<Rightarrow> (decimal n @ p) # ps)" for n b
    using decimal_digits [of n] by (intro split_on_prefix) (auto simp: list_all_iff ascii_defs)
  have one: "decimal (Suc 0) = ''1''" by (simp add: decimal.simps) code_simp
  from assms have "pp_source (pr_claude p) = ''cli'' \<or> pp_source (pr_claude p) = ''cswap''" "pp_source (pr_codex p) = ''cli'' \<or> pp_source (pr_codex p) = ''codex-lb''"
    "pr_version p = 1" "0 \<le> pr_revision p" by (auto simp: preferences_valid_def)
  then show ?thesis
    by (elim disjE) (simp_all add: preferences_text_def provider_text_def json_key_def int_decimal_def digits one)
qed

definition sample_pref_env :: auth_env where
  "sample_pref_env = sample_auth_env\<lparr>ae_json := sample_pref_parse\<rparr>"

lemma sample_pref_law: "pref_law sample_pref_env"
proof -
  have "sample_pref_parse (preferences_text p) = Some (preferences_json p)" if "preferences_valid p" for p
  proof -
    have number: "undecimal 0 (butlast (tl (CHR '':'' # decimal n @ '',''))) = n" for n by (simp add: undecimal_decimal butlast_append)
    have one: "undecimal 0 (butlast (tl '':1,'')) = 1" by (simp add: code_def)
    have p: "pr_version p = 1" "0 \<le> pr_revision p" using that by (simp_all add: preferences_valid_def)
    show ?thesis
      using number [of "nat (pr_revision p)"] one p by (simp add: sample_pref_parse_def split_text [OF that] preferences_json_def provider_json_def)
  qed
  then show ?thesis by (simp add: pref_law_def sample_pref_env_def)
qed

definition sample_who :: session_access where
  "sample_who = \<lparr>sa_id = ''1'', sa_expires_at = 100, sa_csrf = [], sa_username = ''ann'', sa_profile = ''main'', sa_cancelled = 0\<rparr>"

definition sample_pref_io :: pref_io where
  "sample_pref_io = (let c = \<lparr>ac_cancelled = False, ac_gone = False, ac_now = 7\<rparr> in
     \<lparr>pi_readable = True, pi_reread = True, pi_first = c, pi_second = c, pi_write = WriteOk\<rparr>)"

theorem preferences_compare_and_set_witness:
  "\<exists>r s1. pref_store_set sample_pref_env sample_pref_io True sample_who preferences_default (pref_new Map.empty) = (Ok r, s1) \<and>
     pr_revision r = 1 \<and>
     (\<forall>io2 admitted2 v2 r2 s3. pref_store_set sample_pref_env io2 admitted2 sample_who v2 s1 = (Ok r2, s3) \<longrightarrow> 1 \<le> pr_revision v2)"
proof -
  let ?w = "preferences_default\<lparr>pr_revision := 1\<rparr>"
  have valid: "preferences_valid preferences_default" "preferences_valid ?w"
    by (simp_all add: preferences_valid_def preferences_default_def PREF_MAX_REVISION_def)
  have rev: "pr_revision preferences_default = 0" by (simp add: preferences_default_def)
  have "fst (pref_store_set sample_pref_env sample_pref_io True sample_who preferences_default (pref_new Map.empty)) = Ok ?w"
    using valid rev
    by (simp add: pref_store_set_def pref_transact_def pref_new_def pref_set_def authorized_def sample_pref_io_def sample_who_def Let_def pref_get_def pref_read_def
        read_private_def pref_cache_def pref_replace_def write_atomic_def)
  then obtain s1 where set: "pref_store_set sample_pref_env sample_pref_io True sample_who preferences_default (pref_new Map.empty) = (Ok ?w, s1)"
    by (metis prod.collapse)
  from preferences_compare_and_set [OF sample_pref_law rtranclp.rtrancl_refl set rtranclp.rtrancl_refl refl] set
  show ?thesis by (auto simp: rev)
qed

end
