(* ===== verification/Session_State.thy ===== *)
theory Session_State
  imports Workspace_Store
begin

text \<open>
  The display metadata and the visibility of sessions, \<open>hmux-home/src/sessionstate.rs\<close>: two private files
  keyed by the tmux identifier, each entry bound to one lifetime of it by name and creation time. Every
  update holds a lock through its read, its check and the replacement. Of an \<open>io::Error\<close> the model keeps
  the stage and not the kind.
\<close>

definition METADATA_LIMIT :: nat where "METADATA_LIMIT = 8388608"
definition VISIBILITY_LIMIT :: nat where "VISIBILITY_LIMIT = 2097152"
definition ENTRY_LIMIT :: nat where "ENTRY_LIMIT = 10000"
definition STATE_LOCK_WAIT :: duration where "STATE_LOCK_WAIT = 2000000000"
definition STATE_POLL :: duration where "STATE_POLL = 25000000"
definition MAX_ALIAS_BYTES :: nat where "MAX_ALIAS_BYTES = 320"

lemmas session_state_limits [limits] = METADATA_LIMIT_def VISIBILITY_LIMIT_def ENTRY_LIMIT_def MAX_ALIAS_BYTES_def

datatype storage_stage = AtDirectory | AtRead | AtLock | AtWrite | AtCommit

datatype state_error = StInvalid | StUnavailable | StCancelled | StChanged | StBusy | StStorage storage_stage

section \<open>Sessions\<close>

text \<open>A session of the catalog, \<open>hmux-model/src/lib.rs\<close>, but for its workflows.\<close>

record session =
  sn_id :: string
  sn_name :: utext
  sn_alias :: utext
  sn_hidden :: bool
  sn_created_at :: int
  sn_restored_from :: "session_identity option"
  sn_activity_at :: int
  sn_attached :: int
  sn_window_count :: int
  sn_window_names :: "utext list option"
  sn_active_window :: utext
  sn_current_path :: utext
  sn_current_command :: utext
  sn_profile :: string
  sn_label :: utext
  sn_tags :: "utext list option"
  sn_kind :: string
  sn_runtime :: string
  sn_model :: utext
  sn_state :: string
  sn_process :: string
  sn_working_since :: int
  sn_width :: int
  sn_height :: int
  sn_pane_pid :: int

record metadata_entry =
  me_id :: string
  me_name :: utext
  me_created_at :: int
  me_alias :: utext
  me_profile :: string
  me_label :: utext
  me_tags :: "utext list"

definition metadata_entry_default :: metadata_entry where
  "metadata_entry_default =
     \<lparr>me_id = [], me_name = [], me_created_at = 0, me_alias = [], me_profile = [], me_label = [], me_tags = []\<rparr>"

record metadata_state =
  ms_version :: nat
  ms_sessions :: "(string \<times> metadata_entry) list"
  ms_updated_at :: string

record visibility_entry =
  ve_id :: string
  ve_name :: utext
  ve_created_at :: int

record visibility_state =
  vs_version :: nat
  vs_hidden :: "(string \<times> visibility_entry) list"
  vs_updated_at :: string

section \<open>Validation\<close>

definition valid_text :: "utext \<Rightarrow> nat \<Rightarrow> bool" where
  "valid_text v limit \<longleftrightarrow> safe_text v limit = v"

definition validate_identity :: "string \<Rightarrow> utext \<Rightarrow> int \<Rightarrow> (state_error, unit) result" where
  "validate_identity sid name created_at =
     (if \<not> validate_session_id sid \<or> created_at < 1 \<or> \<not> valid_text name 512 then Err StInvalid else Ok ())"

definition validate_alias :: "utext \<Rightarrow> (state_error, unit) result" where
  "validate_alias alias = (if \<not> valid_text alias MAX_ALIAS_BYTES then Err StInvalid else Ok ())"

definition validate_metadata :: "metadata_entry \<Rightarrow> (state_error, unit) result" where
  "validate_metadata e =
     and_then (validate_identity (me_id e) (me_name e) (me_created_at e)) (\<lambda>_.
     and_then (validate_alias (me_alias e)) (\<lambda>_.
       if (me_profile e \<noteq> [] \<and> \<not> validate_stable_id (me_profile e)) \<or> \<not> valid_text (me_label e) 256 \<or> 64 < length (me_tags e) \<or>
          list_ex (\<lambda>tag. \<not> valid_text tag 128) (me_tags e)
       then Err StInvalid else Ok ()))"

definition validate_visibility :: "visibility_entry \<Rightarrow> (state_error, unit) result" where
  "validate_visibility e = validate_identity (ve_id e) (ve_name e) (ve_created_at e)"

text \<open>The test on all entries, after a read and before a write.\<close>

definition metadata_entries_ok :: "metadata_state \<Rightarrow> bool" where
  "metadata_entries_ok s \<longleftrightarrow>
     length (ms_sessions s) \<le> ENTRY_LIMIT \<and> \<not> list_ex (\<lambda>(key, e). key \<noteq> me_id e \<or> \<not> is_Ok (validate_metadata e)) (ms_sessions s)"

definition visibility_entries_ok :: "visibility_state \<Rightarrow> bool" where
  "visibility_entries_ok s \<longleftrightarrow>
     length (vs_hidden s) \<le> ENTRY_LIMIT \<and> \<not> list_ex (\<lambda>(key, e). key \<noteq> ve_id e \<or> \<not> is_Ok (validate_visibility e)) (vs_hidden s)"

section \<open>Reading\<close>

text \<open>
  What the derived decoders see of a document. A missing string and a \<open>null\<close> are alike; the bounded
  visitors below take the maps and the tags one entry at a time.
\<close>

record entry_doc =
  ed_id :: "string option"
  ed_name :: "utext option"
  ed_created_at :: int
  ed_alias :: "utext option"
  ed_profile :: "string option"
  ed_label :: "utext option"
  ed_tags :: "utext option list option"

record metadata_doc =
  md_version :: nat
  md_sessions :: "(string \<times> entry_doc) list"
  md_updated_at :: "string option"

record visibility_entry_doc =
  vd_id :: "string option"
  vd_name :: "utext option"
  vd_created_at :: int

record visibility_doc =
  vc_version :: nat
  vc_hidden :: "(string \<times> visibility_entry_doc) list"
  vc_updated_at :: "string option"

definition null_string :: "'a list option \<Rightarrow> 'a list" where
  "null_string v = (case v of None \<Rightarrow> [] | Some s \<Rightarrow> s)"

fun bounded_map :: "('d \<Rightarrow> 'v option) \<Rightarrow> (string \<times> 'v) list \<Rightarrow> (string \<times> 'd) list \<Rightarrow> (string \<times> 'v) list option" where
  "bounded_map dec values [] = Some values"
| "bounded_map dec values ((key, d) # rest) =
     (if ENTRY_LIMIT \<le> length values \<or> key \<in> set (keys values) \<or> \<not> validate_session_id key then None
      else case dec d of None \<Rightarrow> None | Some v \<Rightarrow> bounded_map dec (insert_key key v values) rest)"

fun visit_tags :: "utext list \<Rightarrow> utext option list \<Rightarrow> utext list option" where
  "visit_tags tags [] = Some tags"
| "visit_tags tags (t # rest) = (if 64 \<le> length tags then None else visit_tags (tags @ [null_string t]) rest)"

definition bounded_tags :: "utext option list option \<Rightarrow> utext list option" where
  "bounded_tags v = (case v of None \<Rightarrow> Some [] | Some ts \<Rightarrow> visit_tags [] ts)"

definition entry_of_doc :: "entry_doc \<Rightarrow> metadata_entry option" where
  "entry_of_doc d =
     map_option (\<lambda>tags. \<lparr>me_id = null_string (ed_id d), me_name = null_string (ed_name d), me_created_at = ed_created_at d,
       me_alias = null_string (ed_alias d), me_profile = null_string (ed_profile d), me_label = null_string (ed_label d), me_tags = tags\<rparr>)
     (bounded_tags (ed_tags d))"

definition visibility_of_doc :: "visibility_entry_doc \<Rightarrow> visibility_entry option" where
  "visibility_of_doc d = Some \<lparr>ve_id = null_string (vd_id d), ve_name = null_string (vd_name d), ve_created_at = vd_created_at d\<rparr>"

definition parse_metadata :: "(bytes \<Rightarrow> metadata_doc option) \<Rightarrow> bytes \<Rightarrow> (state_error, metadata_state) result" where
  "parse_metadata parse data =
     (case Option.bind (parse data) (\<lambda>d. map_option (\<lambda>m. \<lparr>ms_version = md_version d, ms_sessions = m, ms_updated_at = null_string (md_updated_at d)\<rparr>)
             (bounded_map entry_of_doc [] (md_sessions d))) of
        None \<Rightarrow> Err StInvalid
      | Some s \<Rightarrow> if ms_version s \<noteq> 1 \<or> \<not> metadata_entries_ok s then Err StInvalid else Ok s)"

definition parse_visibility :: "(bytes \<Rightarrow> visibility_doc option) \<Rightarrow> bytes \<Rightarrow> (state_error, visibility_state) result" where
  "parse_visibility parse data =
     (case Option.bind (parse data) (\<lambda>d. map_option (\<lambda>m. \<lparr>vs_version = vc_version d, vs_hidden = m, vs_updated_at = null_string (vc_updated_at d)\<rparr>)
             (bounded_map visibility_of_doc [] (vc_hidden d))) of
        None \<Rightarrow> Err StInvalid
      | Some s \<Rightarrow> if vs_version s \<noteq> 1 \<or> \<not> visibility_entries_ok s then Err StInvalid else Ok s)"

section \<open>The lock\<close>

record state_lock_env = lock_env +
  sl_check :: "nat \<Rightarrow> bool" \<comment> \<open>once the lock is held\<close>

fun state_lock :: "nat \<Rightarrow> state_lock_env \<Rightarrow> nat \<Rightarrow> (state_error, unit) result option" where
  "state_lock 0 env n = None"
| "state_lock (Suc fuel) env n =
     (if \<not> le_check env n then Some (Err StCancelled)
      else case le_try env n of
             LockFailed \<Rightarrow> Some (Err (StStorage AtLock))
           | LockAcquired \<Rightarrow> Some (if sl_check env n then Ok () else Err StCancelled)
           | LockContended \<Rightarrow>
               if STATE_LOCK_WAIT - le_elapsed env n = 0 then Some (Err StBusy)
               else state_lock fuel env (Suc n))"

text \<open>The sleep ends with the wait or with the deadline of the caller, after which the check fails.\<close>

definition state_sleeps :: "state_lock_env \<Rightarrow> bool" where
  "state_sleeps env \<longleftrightarrow>
     (\<forall>n. le_elapsed env n + min (STATE_LOCK_WAIT - le_elapsed env n) STATE_POLL \<le> le_elapsed env (Suc n) \<or> \<not> le_check env (Suc n))"

definition STATE_LOCK_FUEL :: nat where "STATE_LOCK_FUEL = 81"

section \<open>Files\<close>

text \<open>What the two files have in common: their name, limit, codec and test, a fresh state and the stamp.\<close>

record 's state_file =
  sf_name :: string
  sf_limit :: nat
  sf_parse :: "bytes \<Rightarrow> (state_error, 's) result"
  sf_print :: "'s \<Rightarrow> bytes option"
  sf_entries_ok :: "'s \<Rightarrow> bool"
  sf_fresh :: 's
  sf_stamp :: "string \<Rightarrow> 's \<Rightarrow> 's" \<comment> \<open>the version and the time of the update\<close>

definition metadata_file :: "(bytes \<Rightarrow> metadata_doc option) \<Rightarrow> (metadata_state \<Rightarrow> bytes option) \<Rightarrow> metadata_state state_file" where
  "metadata_file parse print =
     \<lparr>sf_name = ''sessions.json'', sf_limit = METADATA_LIMIT, sf_parse = parse_metadata parse, sf_print = print, sf_entries_ok = metadata_entries_ok,
      sf_fresh = \<lparr>ms_version = 1, ms_sessions = [], ms_updated_at = []\<rparr>, sf_stamp = (\<lambda>t s. s\<lparr>ms_version := 1, ms_updated_at := t\<rparr>)\<rparr>"

definition visibility_file :: "(bytes \<Rightarrow> visibility_doc option) \<Rightarrow> (visibility_state \<Rightarrow> bytes option) \<Rightarrow> visibility_state state_file" where
  "visibility_file parse print =
     \<lparr>sf_name = ''session-visibility.json'', sf_limit = VISIBILITY_LIMIT, sf_parse = parse_visibility parse, sf_print = print, sf_entries_ok = visibility_entries_ok,
      sf_fresh = \<lparr>vs_version = 1, vs_hidden = [], vs_updated_at = []\<rparr>, sf_stamp = (\<lambda>t s. s\<lparr>vs_version := 1, vs_updated_at := t\<rparr>)\<rparr>"

text \<open>\<open>read_metadata\<close> and \<open>read_visibility\<close>.\<close>

definition read_state :: "'s state_file \<Rightarrow> bool \<Rightarrow> private_dir \<Rightarrow> (state_error, 's option) result" where
  "read_state f readable dir =
     (case read_private readable dir (sf_name f) (sf_limit f) of
        Inr data \<Rightarrow> and_then (sf_parse f data) (\<lambda>s. Ok (Some s))
      | Inl NotFound \<Rightarrow> Ok None
      | Inl ReadFailed \<Rightarrow> Err (StStorage AtRead))"

datatype opened_dir = DirOpened | DirMissing | DirFailed

definition load_file_state :: "'s state_file \<Rightarrow> opened_dir \<Rightarrow> bool \<Rightarrow> private_dir \<Rightarrow> (state_error, 's option) result" where
  \<comment> \<open>\<open>read_dir\<close> and the read\<close>
  "load_file_state f opened readable dir =
     (case opened of
        DirMissing \<Rightarrow> Ok None
      | DirFailed \<Rightarrow> Err (StStorage AtRead)
      | DirOpened \<Rightarrow> read_state f readable dir)"

definition same_lifetime :: "session \<Rightarrow> utext \<Rightarrow> int \<Rightarrow> bool" where
  "same_lifetime s name created_at \<longleftrightarrow> name = sn_name s \<and> created_at = sn_created_at s"

definition apply_metadata :: "metadata_state \<Rightarrow> session \<Rightarrow> session" where
  "apply_metadata st s =
     (case map_of (ms_sessions st) (sn_id s) of
        None \<Rightarrow> s
      | Some e \<Rightarrow>
          if same_lifetime s (me_name e) (me_created_at e)
          then s\<lparr>sn_alias := me_alias e, sn_profile := me_profile e, sn_label := me_label e,
                 sn_tags := (if me_tags e \<noteq> [] then Some (me_tags e) else None)\<rparr>
          else s)"

definition apply_state ::
  "(bytes \<Rightarrow> metadata_doc option) \<Rightarrow> (metadata_state \<Rightarrow> bytes option) \<Rightarrow> opened_dir \<Rightarrow> bool \<Rightarrow> private_dir \<Rightarrow> session list \<Rightarrow> (state_error, session list) result" where
  "apply_state parse print opened readable dir sessions =
     and_then (load_file_state (metadata_file parse print) opened readable dir) (\<lambda>loaded.
       case loaded of None \<Rightarrow> Ok sessions | Some st \<Rightarrow> Ok (map (apply_metadata st) sessions))"

definition apply_hidden :: "visibility_state \<Rightarrow> session \<Rightarrow> session" where
  "apply_hidden st s =
     s\<lparr>sn_hidden := (case map_of (vs_hidden st) (sn_id s) of None \<Rightarrow> False | Some e \<Rightarrow> same_lifetime s (ve_name e) (ve_created_at e))\<rparr>"

definition apply_visibility ::
  "(bytes \<Rightarrow> visibility_doc option) \<Rightarrow> (visibility_state \<Rightarrow> bytes option) \<Rightarrow> opened_dir \<Rightarrow> bool \<Rightarrow> private_dir \<Rightarrow> session list \<Rightarrow> (state_error, session list) result" where
  "apply_visibility parse print opened readable dir sessions =
     and_then (load_file_state (visibility_file parse print) opened readable dir) (\<lambda>loaded.
       case loaded of None \<Rightarrow> Ok sessions | Some st \<Rightarrow> Ok (map (apply_hidden st) sessions))"

section \<open>Updates\<close>

record update_io =
  ui_check_start :: bool
  ui_directory :: bool
  ui_check_directory :: bool
  ui_lock :: state_lock_env
  ui_readable :: bool
  ui_check_read :: bool
  ui_check_action :: bool
  ui_now :: string
  ui_check_write :: bool
  ui_write :: write_result

definition write_state :: "'s state_file \<Rightarrow> update_io \<Rightarrow> 's \<Rightarrow> private_dir \<Rightarrow> (state_error, unit) result \<times> private_dir" where
  \<comment> \<open>from the test of the entries to the replacement\<close>
  "write_state f io st dir =
     (if \<not> sf_entries_ok f st then (Err StInvalid, dir)
      else case sf_print f (sf_stamp f (ui_now io) st) of
        None \<Rightarrow> (Err StUnavailable, dir)
      | Some raw \<Rightarrow>
          let data = raw @ [CHR 0x0A] in
          if sf_limit f < length data then (Err StInvalid, dir)
          else if \<not> ui_check_write io then (Err StCancelled, dir)
          else case write_atomic (ui_write io) dir (sf_name f) data of
            (True, dir) \<Rightarrow> (Ok (), dir)
          | (False, dir') \<Rightarrow> (Err (StStorage (case ui_write io of WriteFailed True \<Rightarrow> AtCommit | _ \<Rightarrow> AtWrite)), dir'))"

definition update_locked ::
  "'s state_file \<Rightarrow> update_io \<Rightarrow> ('s \<Rightarrow> (state_error, 's) result) \<Rightarrow> private_dir \<Rightarrow> (state_error, unit) result \<times> private_dir" where
  "update_locked f io action dir =
     (case read_state f (ui_readable io) dir of
        Inl e \<Rightarrow> (Err e, dir)
      | Inr loaded \<Rightarrow>
          if \<not> ui_check_read io then (Err StCancelled, dir)
          else case action (case loaded of None \<Rightarrow> sf_fresh f | Some s \<Rightarrow> s) of
            Inl e \<Rightarrow> (Err e, dir)
          | Inr st \<Rightarrow> if \<not> ui_check_action io then (Err StCancelled, dir) else write_state f io st dir)"

text \<open>\<open>update_metadata\<close> and \<open>update_visibility\<close>.\<close>

definition update_state ::
  "'s state_file \<Rightarrow> update_io \<Rightarrow> ('s \<Rightarrow> (state_error, 's) result) \<Rightarrow> private_dir \<Rightarrow> (state_error, unit) result \<times> private_dir" where
  "update_state f io action dir =
     (if \<not> ui_check_start io then (Err StCancelled, dir)
      else if \<not> ui_directory io then (Err (StStorage AtDirectory), dir)
      else if \<not> ui_check_directory io then (Err StCancelled, dir)
      else case state_lock STATE_LOCK_FUEL (ui_lock io) 0 of
        None \<Rightarrow> (Err StBusy, dir)
      | Some (Inl e) \<Rightarrow> (Err e, dir)
      | Some (Inr _) \<Rightarrow> update_locked f io action dir)"

section \<open>Operations\<close>

text \<open>The entry of this lifetime, taken out of the map, or a new one.\<close>

definition entry_for :: "metadata_entry \<Rightarrow> session \<Rightarrow> metadata_state \<Rightarrow> metadata_entry" where
  "entry_for fresh s st =
     (case map_of (ms_sessions st) (sn_id s) of
        None \<Rightarrow> fresh
      | Some e \<Rightarrow> if same_lifetime s (me_name e) (me_created_at e) then e else fresh)
     \<lparr>me_id := sn_id s, me_name := sn_name s, me_created_at := sn_created_at s\<rparr>"

definition put_entry :: "metadata_entry \<Rightarrow> metadata_state \<Rightarrow> metadata_state" where
  "put_entry e st = st\<lparr>ms_sessions := insert_key (me_id e) e (ms_sessions st)\<rparr>"

definition profile_action :: "session \<Rightarrow> profile \<Rightarrow> metadata_state \<Rightarrow> (state_error, metadata_state) result" where
  "profile_action s p st =
     Ok (put_entry ((entry_for (metadata_entry_default\<lparr>me_alias := sn_alias s\<rparr>) s st)
       \<lparr>me_profile := pr_id p, me_label := pr_label p, me_tags := unwrap_or_default (pr_tags p)\<rparr>) st)"

definition set_profile ::
  "metadata_state state_file \<Rightarrow> update_io \<Rightarrow> session \<Rightarrow> profile \<Rightarrow> private_dir \<Rightarrow> (state_error, unit) result \<times> private_dir" where
  "set_profile f io s p dir =
     (case validate_identity (sn_id s) (sn_name s) (sn_created_at s) of
        Inl e \<Rightarrow> (Err e, dir)
      | Inr _ \<Rightarrow>
          (case validate_alias (sn_alias s) of
             Inl e \<Rightarrow> (Err e, dir)
           | Inr _ \<Rightarrow>
               if \<not> validate_stable_id (pr_id p) \<or> \<not> valid_text (pr_label p) 256 \<or>
                  (case pr_tags p of None \<Rightarrow> False | Some tags \<Rightarrow> 64 < length tags \<or> list_ex (\<lambda>tag. \<not> valid_text tag 128) tags)
               then (Err StInvalid, dir)
               else update_state f io (profile_action s p) dir))"

record resolve_io =
  ri_check_before :: bool
  ri_resolve :: "(state_error, session) result" \<comment> \<open>the session as tmux has it now\<close>
  ri_check_after :: bool

definition resolved :: "resolve_io \<Rightarrow> session_identity \<Rightarrow> (state_error, session) result" where
  "resolved ri expected =
     (if \<not> ri_check_before ri then Err StCancelled
      else and_then (ri_resolve ri) (\<lambda>s.
        if \<not> ri_check_after ri then Err StCancelled
        else if sn_id s \<noteq> si_id expected \<or> sn_created_at s \<noteq> si_created_at expected then Err StChanged
        else and_then (validate_identity (sn_id s) (sn_name s) (sn_created_at s)) (\<lambda>_. Ok s)))"

definition alias_action :: "resolve_io \<Rightarrow> session_identity \<Rightarrow> utext \<Rightarrow> metadata_state \<Rightarrow> (state_error, metadata_state) result" where
  "alias_action ri expected alias st =
     and_then (resolved ri expected) (\<lambda>s. Ok (put_entry ((entry_for metadata_entry_default s st)\<lparr>me_alias := alias\<rparr>) st))"

definition set_alias_expected ::
  "metadata_state state_file \<Rightarrow> update_io \<Rightarrow> resolve_io \<Rightarrow> session_identity \<Rightarrow> utext \<Rightarrow> private_dir \<Rightarrow> (state_error, unit) result \<times> private_dir" where
  "set_alias_expected f io ri expected alias dir =
     (if \<not> validate_session_id (si_id expected) \<or> si_created_at expected < 1 then (Err StInvalid, dir)
      else case validate_alias (trim alias) of
        Inl e \<Rightarrow> (Err e, dir)
      | Inr _ \<Rightarrow> update_state f io (alias_action ri expected (trim alias)) dir)"

definition hidden_action :: "resolve_io \<Rightarrow> session_identity \<Rightarrow> bool \<Rightarrow> visibility_state \<Rightarrow> (state_error, visibility_state) result" where
  "hidden_action ri expected hidden st =
     and_then (resolved ri expected) (\<lambda>s.
       Ok (st\<lparr>vs_hidden :=
         (if hidden
          then insert_key (sn_id s) \<lparr>ve_id = sn_id s, ve_name = sn_name s, ve_created_at = sn_created_at s\<rparr> (vs_hidden st)
          else remove_key (sn_id s) (vs_hidden st))\<rparr>))"

definition set_hidden_expected ::
  "visibility_state state_file \<Rightarrow> update_io \<Rightarrow> resolve_io \<Rightarrow> session_identity \<Rightarrow> bool \<Rightarrow> private_dir \<Rightarrow> (state_error, unit) result \<times> private_dir" where
  "set_hidden_expected f io ri expected hidden dir =
     (if \<not> validate_session_id (si_id expected) \<or> si_created_at expected < 1 then (Err StInvalid, dir)
      else update_state f io (hidden_action ri expected hidden) dir)"

definition import_entry :: "session \<Rightarrow> metadata_entry \<Rightarrow> (state_error, metadata_entry) result" where
  \<comment> \<open>the fields the legacy catalog has\<close>
  "import_entry s e =
     and_then (if sn_alias s \<noteq> [] then and_then (validate_alias (sn_alias s)) (\<lambda>_. Ok (e\<lparr>me_alias := sn_alias s\<rparr>)) else Ok e) (\<lambda>e.
     and_then (if sn_profile s \<noteq> [] then (if \<not> validate_stable_id (sn_profile s) then Err StInvalid else Ok (e\<lparr>me_profile := sn_profile s\<rparr>)) else Ok e) (\<lambda>e.
     and_then (if sn_label s \<noteq> [] then (if \<not> valid_text (sn_label s) 256 then Err StInvalid else Ok (e\<lparr>me_label := sn_label s\<rparr>)) else Ok e) (\<lambda>e.
       Ok (case sn_tags s of Some tags \<Rightarrow> if tags \<noteq> [] then e\<lparr>me_tags := tags\<rparr> else e | None \<Rightarrow> e))))"

fun import_action :: "session list \<Rightarrow> metadata_state \<Rightarrow> (state_error, metadata_state) result" where
  "import_action [] st = Ok st"
| "import_action (s # rest) st =
     and_then (validate_identity (sn_id s) (sn_name s) (sn_created_at s)) (\<lambda>_.
     and_then (import_entry s (entry_for metadata_entry_default s st)) (\<lambda>e. import_action rest (put_entry e st)))"

definition import_legacy ::
  "metadata_state state_file \<Rightarrow> update_io \<Rightarrow> session list \<Rightarrow> private_dir \<Rightarrow> (state_error, unit) result \<times> private_dir" where
  "import_legacy f io sessions dir =
     (if ENTRY_LIMIT < length sessions then (Err StInvalid, dir) else update_state f io (import_action sessions) dir)"

end
