(* ===== verification/Session_State_Properties.thy ===== *)
theory Session_State_Properties
  imports Session_State
begin

text \<open>
  What an edit of a session does: it shows on exactly the lifetime it was made for, whatever tmux does
  with the identifier later, and a failure leaves the file as it was.
\<close>

section \<open>The lock wait\<close>

lemma state_elapsed:
  assumes "state_sleeps env" and "\<forall>k \<le> n. le_check env k"
  shows "min STATE_LOCK_WAIT (n * STATE_POLL) \<le> le_elapsed env n"
  using assms(2)
proof (induction n)
  case (Suc n)
  then have "min STATE_LOCK_WAIT (n * STATE_POLL) \<le> le_elapsed env n" by simp
  moreover have "le_elapsed env n + min (STATE_LOCK_WAIT - le_elapsed env n) STATE_POLL \<le> le_elapsed env (Suc n)"
    using Suc.prems assms(1) by (auto simp: state_sleeps_def)
  ultimately show ?case by (auto simp: min_def split: if_splits)
qed simp

text \<open>The fuel is enough: a wait that sleeps as it is asked to ends within it.\<close>

lemma state_lock_enough:
  assumes "state_sleeps env" and "n + fuel = STATE_LOCK_FUEL" and "0 < fuel" and "\<forall>k < n. le_check env k"
  shows "state_lock fuel env n \<noteq> None"
  using assms(2-4)
proof (induction fuel arbitrary: n)
  case (Suc fuel)
  show ?case
  proof (cases "le_check env n")
    case True
    then have checks: "\<forall>k \<le> n. le_check env k" using Suc.prems(3) by (auto simp: le_less)
    show ?thesis
    proof (cases "fuel = 0")
      case True
      then have "STATE_LOCK_WAIT \<le> le_elapsed env n"
        using state_elapsed [OF assms(1) checks] Suc.prems by (simp add: STATE_LOCK_FUEL_def STATE_LOCK_WAIT_def STATE_POLL_def)
      then show ?thesis by (auto split: lock_try.splits)
    next
      case False
      then show ?thesis using Suc.IH [of "Suc n"] Suc.prems(1) checks by (auto simp: less_Suc_eq_le split: lock_try.splits)
    qed
  qed simp
qed simp

section \<open>Files\<close>

definition entry_doc_of :: "metadata_entry \<Rightarrow> entry_doc" where
  \<comment> \<open>an empty text is not written\<close>
  "entry_doc_of e =
     (let opt = (\<lambda>v. if v = [] then None else Some v) in
      \<lparr>ed_id = Some (me_id e), ed_name = Some (me_name e), ed_created_at = me_created_at e, ed_alias = opt (me_alias e),
       ed_profile = (if me_profile e = [] then None else Some (me_profile e)), ed_label = opt (me_label e),
       ed_tags = (if me_tags e = [] then None else Some (map Some (me_tags e)))\<rparr>)"

definition metadata_doc_of :: "metadata_state \<Rightarrow> metadata_doc" where
  "metadata_doc_of st =
     \<lparr>md_version = ms_version st, md_sessions = map (\<lambda>(key, e). (key, entry_doc_of e)) (ms_sessions st), md_updated_at = Some (ms_updated_at st)\<rparr>"

definition visibility_doc_of :: "visibility_state \<Rightarrow> visibility_doc" where
  "visibility_doc_of st =
     \<lparr>vc_version = vs_version st,
      vc_hidden = map (\<lambda>(key, e). (key, \<lparr>vd_id = Some (ve_id e), vd_name = Some (ve_name e), vd_created_at = ve_created_at e\<rparr>)) (vs_hidden st),
      vc_updated_at = Some (vs_updated_at st)\<rparr>"

text \<open>The parser reads what the printer wrote, with the line break behind it.\<close>

definition metadata_law :: "(bytes \<Rightarrow> metadata_doc option) \<Rightarrow> (metadata_state \<Rightarrow> bytes option) \<Rightarrow> bool" where
  "metadata_law parse print \<longleftrightarrow> (\<forall>st raw. print st = Some raw \<longrightarrow> parse (raw @ [CHR 0x0A]) = Some (metadata_doc_of st))"

definition visibility_law :: "(bytes \<Rightarrow> visibility_doc option) \<Rightarrow> (visibility_state \<Rightarrow> bytes option) \<Rightarrow> bool" where
  "visibility_law parse print \<longleftrightarrow> (\<forall>st raw. print st = Some raw \<longrightarrow> parse (raw @ [CHR 0x0A]) = Some (visibility_doc_of st))"

lemma bounded_map_back:
  assumes "distinct (keys acc @ keys m)" and "length acc + length m \<le> ENTRY_LIMIT"
    and "\<forall>(key, v) \<in> set m. validate_session_id key \<and> dec (doc v) = Some v"
  shows "bounded_map dec acc (map (\<lambda>(key, v). (key, doc v)) m) = Some (acc @ m)"
  using assms
proof (induction m arbitrary: acc)
  case (Cons x m)
  obtain key v where x: "x = (key, v)" by fastforce
  have new: "key \<notin> set (keys acc)" using Cons.prems(1) by (simp add: x keys_def)
  then have "map_of acc key = None" by (simp add: keys_def map_of_eq_None_iff)
  then have "insert_key key v acc = acc @ [(key, v)]" by (simp add: insert_key_def map_of_None_remove_key)
  moreover have "bounded_map dec (acc @ [(key, v)]) (map (\<lambda>(key, v). (key, doc v)) m) = Some ((acc @ [(key, v)]) @ m)"
    using Cons.prems by (intro Cons.IH) (auto simp: x keys_def)
  ultimately show ?case using Cons.prems new by (simp add: x)
qed simp

lemma visit_tags_back: "length acc + length tags \<le> 64 \<Longrightarrow> visit_tags acc (map Some tags) = Some (acc @ tags)"
  by (induction tags arbitrary: acc) (simp_all add: null_string_def)

lemma entry_back: "length (me_tags e) \<le> 64 \<Longrightarrow> entry_of_doc (entry_doc_of e) = Some e"
  by (cases e) (simp add: entry_of_doc_def entry_doc_of_def null_string_def bounded_tags_def visit_tags_back)

lemma is_Ok_unit: "is_Ok r \<Longrightarrow> r = Ok ()"
  by (cases r) simp_all

lemma metadata_valid:
  assumes "validate_metadata e = Ok ()"
  shows "validate_session_id (me_id e)" "length (me_tags e) \<le> 64"
  using assms by (auto simp: validate_metadata_def and_then_Ok_iff validate_identity_def split: if_splits)

lemma parse_metadata_back:
  assumes "metadata_law parse print" and "print st = Some raw" and "ms_version st = 1" and "metadata_entries_ok st" and "wf_map (ms_sessions st)"
  shows "parse_metadata parse (raw @ [CHR 0x0A]) = Ok st"
proof -
  have entries: "\<forall>(key, e) \<in> set (ms_sessions st). key = me_id e \<and> validate_metadata e = Ok ()"
    using assms(4) is_Ok_unit by (fastforce simp: metadata_entries_ok_def list_ex_iff)
  have "bounded_map entry_of_doc [] (map (\<lambda>(key, v). (key, entry_doc_of v)) (ms_sessions st)) = Some ([] @ ms_sessions st)"
    using assms(4,5) entries metadata_valid
    by (intro bounded_map_back) (auto simp: metadata_entries_ok_def wf_map_def keys_def entry_back)
  moreover have "parse (raw @ [CHR 0x0A]) = Some (metadata_doc_of st)" using assms(1,2) by (simp add: metadata_law_def)
  ultimately show ?thesis using assms(3,4) by (cases st) (simp add: parse_metadata_def metadata_doc_of_def null_string_def)
qed

lemma parse_visibility_back:
  assumes "visibility_law parse print" and "print st = Some raw" and "vs_version st = 1" and "visibility_entries_ok st" and "wf_map (vs_hidden st)"
  shows "parse_visibility parse (raw @ [CHR 0x0A]) = Ok st"
proof -
  let ?doc = "\<lambda>e. \<lparr>vd_id = Some (ve_id e), vd_name = Some (ve_name e), vd_created_at = ve_created_at e\<rparr>"
  have "\<forall>(key, e) \<in> set (vs_hidden st). validate_session_id key"
    using assms(4) by (force simp: visibility_entries_ok_def list_ex_iff validate_visibility_def validate_identity_def split: sum.splits if_splits)
  then have "bounded_map visibility_of_doc [] (map (\<lambda>(key, v). (key, ?doc v)) (vs_hidden st)) = Some ([] @ vs_hidden st)"
    using assms(4,5) by (intro bounded_map_back) (auto simp: visibility_entries_ok_def wf_map_def keys_def visibility_of_doc_def null_string_def)
  moreover have "parse (raw @ [CHR 0x0A]) = Some (visibility_doc_of st)" using assms(1,2) by (simp add: visibility_law_def)
  ultimately show ?thesis using assms(3,4) by (cases st) (simp add: parse_visibility_def visibility_doc_of_def null_string_def)
qed

lemma bounded_map_wf: "bounded_map dec acc docs = Some m \<Longrightarrow> wf_map acc \<Longrightarrow> wf_map m"
  by (induction dec acc docs rule: bounded_map.induct) (auto split: if_splits option.splits)

lemma parse_metadata_wf: "parse_metadata parse raw = Ok st \<Longrightarrow> wf_map (ms_sessions st)"
  by (auto simp: parse_metadata_def bind_eq_Some_conv intro: bounded_map_wf split: option.splits if_splits)

lemma parse_visibility_wf: "parse_visibility parse raw = Ok st \<Longrightarrow> wf_map (vs_hidden st)"
  by (auto simp: parse_visibility_def bind_eq_Some_conv intro: bounded_map_wf split: option.splits if_splits)

section \<open>Updates\<close>

text \<open>What was there, the fresh state if there was nothing.\<close>

definition present :: "'s state_file \<Rightarrow> private_dir \<Rightarrow> (state_error, 's) result" where
  "present f dir = and_then (read_state f True dir) (\<lambda>loaded. Ok (case loaded of None \<Rightarrow> sf_fresh f | Some s \<Rightarrow> s))"

definition replaced :: "'s state_file \<Rightarrow> update_io \<Rightarrow> ('s \<Rightarrow> (state_error, 's) result) \<Rightarrow> private_dir \<Rightarrow> private_dir \<Rightarrow> bool" where
  "replaced f io action dir dir' \<longleftrightarrow>
     (\<exists>old st raw. present f dir = Ok old \<and> action old = Ok st \<and> sf_entries_ok f st \<and> sf_print f (sf_stamp f (ui_now io) st) = Some raw \<and>
        length raw < sf_limit f \<and> dir' = dir(sf_name f \<mapsto> raw @ [CHR 0x0A]))"

lemma write_state_cases:
  assumes "write_state f io st dir = (res, dir')"
  obtains (kept) e where "res = Err e" "e \<noteq> StStorage AtCommit" "dir' = dir"
  | (written) raw where "sf_entries_ok f st" "sf_print f (sf_stamp f (ui_now io) st) = Some raw" "length raw < sf_limit f"
      "dir' = dir(sf_name f \<mapsto> raw @ [CHR 0x0A])" "res = Ok () \<or> res = Err (StStorage AtCommit)"
proof (cases "sf_entries_ok f st")
  case False
  then show thesis using assms kept by (auto simp: write_state_def)
next
  case ok: True
  show thesis
  proof (cases "sf_print f (sf_stamp f (ui_now io) st)")
    case None
    then show thesis using assms ok kept by (auto simp: write_state_def)
  next
    case (Some raw)
    show thesis
    proof (cases "length raw < sf_limit f \<and> ui_check_write io")
      case False
      then show thesis using assms ok Some kept by (auto simp: write_state_def split: if_splits)
    next
      case True
      then have w: "(case write_atomic (ui_write io) dir (sf_name f) (raw @ [CHR 0x0A]) of
            (True, dir) \<Rightarrow> (Ok (), dir)
          | (False, dir') \<Rightarrow> (Err (StStorage (case ui_write io of WriteFailed True \<Rightarrow> AtCommit | _ \<Rightarrow> AtWrite)), dir')) = (res, dir')"
        using assms ok Some by (simp add: write_state_def)
      show thesis
      proof (cases "ui_write io")
        case WriteOk
        then show thesis using w ok Some True written [of raw] by (simp add: write_atomic_def)
      next
        case (WriteFailed renamed)
        then show thesis using w ok Some True written [of raw] kept by (cases renamed) (auto simp: write_atomic_def)
      qed
    qed
  qed
qed

lemma read_state_present: "read_state f readable dir = Ok loaded \<Longrightarrow> present f dir = Ok (case loaded of None \<Rightarrow> sf_fresh f | Some s \<Rightarrow> s)"
  by (cases readable) (simp_all add: present_def read_state_def read_private_def)

lemma update_state_effect:
  assumes "update_state f io action dir = (res, dir')" and "\<And>s. action s \<noteq> Err (StStorage AtCommit)" and "\<And>raw. sf_parse f raw \<noteq> Err (StStorage AtCommit)"
  shows "if res = Ok () \<or> res = Err (StStorage AtCommit) then replaced f io action dir dir' else dir' = dir"
proof -
  have lock: "state_lock fuel env n \<noteq> Some (Err (StStorage AtCommit))" for fuel env n
    by (induction fuel env n rule: state_lock.induct) (auto split: lock_try.split)
  show ?thesis
  proof (cases "ui_check_start io \<and> ui_directory io \<and> ui_check_directory io \<and> state_lock STATE_LOCK_FUEL (ui_lock io) 0 = Some (Ok ())")
    case False
    then show ?thesis using assms(1) lock [of STATE_LOCK_FUEL "ui_lock io" 0] by (auto simp: update_state_def split: if_splits option.splits sum.splits)
  next
    case True
    then have u: "update_locked f io action dir = (res, dir')" using assms(1) by (simp add: update_state_def)
    show ?thesis
    proof (cases "read_state f (ui_readable io) dir")
      case (Inl e)
      moreover have "e \<noteq> StStorage AtCommit"
        using Inl assms(3) by (auto simp: read_state_def and_then_Err_iff split: sum.splits read_error.splits)
      ultimately show ?thesis using u by (auto simp: update_locked_def)
    next
      case (Inr loaded)
      note old = read_state_present [OF Inr]
      show ?thesis
      proof (cases "ui_check_read io \<and> ui_check_action io \<and> is_Ok (action (case loaded of None \<Rightarrow> sf_fresh f | Some s \<Rightarrow> s))")
        case False
        then show ?thesis using u Inr assms(2) by (auto simp: update_locked_def split: if_splits sum.splits)
      next
        case go: True
        then obtain st where act: "action (case loaded of None \<Rightarrow> sf_fresh f | Some s \<Rightarrow> s) = Ok st"
          by (cases "action (case loaded of None \<Rightarrow> sf_fresh f | Some s \<Rightarrow> s)") auto
        then have "write_state f io st dir = (res, dir')" using u Inr go by (simp add: update_locked_def)
        then show ?thesis
        proof (cases rule: write_state_cases)
          case (kept e)
          then show ?thesis by auto
        next
          case (written raw)
          then show ?thesis using old act by (auto simp: replaced_def)
        qed
      qed
    qed
  qed
qed

section \<open>Metadata\<close>

lemma present_cases:
  assumes "present f dir = Ok st"
  obtains (fresh) "st = sf_fresh f" | (loaded) raw where "sf_parse f raw = Ok st"
proof -
  obtain l where l: "read_state f True dir = Ok l" "st = (case l of None \<Rightarrow> sf_fresh f | Some s \<Rightarrow> s)"
    using assms by (auto simp: present_def and_then_Ok_iff)
  show thesis
  proof (cases l)
    case None
    then show thesis using l(2) fresh by simp
  next
    case (Some s)
    then have "\<exists>raw. sf_parse f raw = Ok s"
      using l(1) by (auto simp: read_state_def and_then_Ok_iff split: sum.splits read_error.splits)
    then show thesis using l(2) Some loaded by auto
  qed
qed

lemma present_metadata_wf:
  assumes "present (metadata_file parse print) dir = Ok st"
  shows "wf_map (ms_sessions st)"
  using assms by (cases rule: present_cases) (auto simp: metadata_file_def dest: parse_metadata_wf)

lemma present_visibility_wf:
  assumes "present (visibility_file parse print) dir = Ok st"
  shows "wf_map (vs_hidden st)"
  using assms by (cases rule: present_cases) (auto simp: visibility_file_def dest: parse_visibility_wf)

lemma put_entry_wf: "wf_map (ms_sessions st) \<Longrightarrow> wf_map (ms_sessions (put_entry e st))"
  by (simp add: put_entry_def)

text \<open>How the catalog looks after an entry has been put.\<close>

definition dressed :: "metadata_entry \<Rightarrow> session \<Rightarrow> session" where
  "dressed e s = s\<lparr>sn_alias := me_alias e, sn_profile := me_profile e, sn_label := me_label e,
     sn_tags := (if me_tags e \<noteq> [] then Some (me_tags e) else None)\<rparr>"

definition edited :: "metadata_entry \<Rightarrow> metadata_state \<Rightarrow> session \<Rightarrow> session" where
  "edited e old t =
     (if sn_id t \<noteq> me_id e then apply_metadata old t
      else if same_lifetime t (me_name e) (me_created_at e) then dressed e t
      else t)"

lemma apply_put_entry: "apply_metadata (put_entry e st) = edited e st"
  by (rule ext) (simp add: apply_metadata_def put_entry_def edited_def dressed_def)

lemma replaced_metadata:
  assumes "replaced (metadata_file parse print) io action dir dir'" and "metadata_law parse print"
    and "\<And>old st. wf_map (ms_sessions old) \<Longrightarrow> action old = Ok st \<Longrightarrow> wf_map (ms_sessions st)"
  shows "\<exists>old st. present (metadata_file parse print) dir = Ok old \<and> action old = Ok st \<and>
    (\<forall>sessions. apply_state parse print DirOpened True dir' sessions = Ok (map (apply_metadata st) sessions))"
proof -
  let ?f = "metadata_file parse print"
  let ?stamped = "\<lambda>st. st\<lparr>ms_version := 1, ms_updated_at := ui_now io\<rparr>"
  obtain old st raw where r: "present ?f dir = Ok old" "action old = Ok st" "metadata_entries_ok st" "print (?stamped st) = Some raw"
      "length raw < METADATA_LIMIT" "dir' = dir(''sessions.json'' \<mapsto> raw @ [CHR 0x0A])"
    using assms(1) by (auto simp: replaced_def metadata_file_def)
  have wf: "wf_map (ms_sessions st)" using assms(3) r(2) present_metadata_wf [OF r(1)] by blast
  have "parse_metadata parse (raw @ [CHR 0x0A]) = Ok (?stamped st)"
    using parse_metadata_back [OF assms(2) r(4)] r(3) wf by (simp add: metadata_entries_ok_def)
  then have "apply_state parse print DirOpened True dir' sessions = Ok (map (apply_metadata (?stamped st)) sessions)" for sessions
    using r(5,6) by (simp add: apply_state_def load_file_state_def read_state_def read_private_def metadata_file_def)
  moreover have "apply_metadata (?stamped st) = apply_metadata st" by (rule ext) (simp add: apply_metadata_def)
  ultimately show ?thesis using r(1,2) by auto
qed

lemma entry_for_identity [simp]:
  "me_id (entry_for fresh s st) = sn_id s" "me_name (entry_for fresh s st) = sn_name s" "me_created_at (entry_for fresh s st) = sn_created_at s"
  by (simp_all add: entry_for_def)

lemma parse_not_commit:
  "parse_metadata mp raw \<noteq> Err (StStorage AtCommit)" "parse_visibility vp raw \<noteq> Err (StStorage AtCommit)"
  by (auto simp: parse_metadata_def parse_visibility_def split: option.splits)

lemma resolved_Ok:
  assumes "resolved ri expected = Ok s"
  shows "ri_resolve ri = Ok s \<and> sn_id s = si_id expected \<and> sn_created_at s = si_created_at expected"
  using assms by (auto simp: resolved_def and_then_Ok_iff split: if_splits)

text \<open>What asks tmux fails with an error of its own.\<close>

definition resolves_plainly :: "resolve_io \<Rightarrow> bool" where
  "resolves_plainly ri \<longleftrightarrow> ri_resolve ri \<noteq> Err (StStorage AtCommit)"

lemma resolved_not_commit: "resolves_plainly ri \<Longrightarrow> resolved ri expected \<noteq> Err (StStorage AtCommit)"
  by (auto simp: resolves_plainly_def resolved_def and_then_Err_iff validate_identity_def split: if_splits)

lemma alias_exact:
  assumes "metadata_law parse print" and "resolves_plainly ri"
    and "set_alias_expected (metadata_file parse print) io ri expected alias dir = (res, dir')"
  shows "(res \<noteq> Ok () \<and> res \<noteq> Err (StStorage AtCommit) \<longrightarrow> dir' = dir) \<and>
    (res = Ok () \<or> res = Err (StStorage AtCommit) \<longrightarrow>
      (\<exists>s old. ri_resolve ri = Ok s \<and> sn_id s = si_id expected \<and> sn_created_at s = si_created_at expected \<and>
         present (metadata_file parse print) dir = Ok old \<and>
         (\<forall>sessions. apply_state parse print DirOpened True dir' sessions =
            Ok (map (\<lambda>t. if sn_id t \<noteq> si_id expected then apply_metadata old t
                       else if same_lifetime t (sn_name s) (si_created_at expected)
                       then (dressed (entry_for metadata_entry_default s old) t)\<lparr>sn_alias := trim alias\<rparr>
                       else t) sessions))))"
proof (cases "validate_session_id (si_id expected) \<and> 1 \<le> si_created_at expected \<and> validate_alias (trim alias) = Ok ()")
  case False
  then have "res = Err StInvalid \<and> dir' = dir"
    using assms(3) by (auto simp: set_alias_expected_def validate_alias_def split: if_splits)
  then show ?thesis by simp
next
  case True
  let ?f = "metadata_file parse print" and ?act = "alias_action ri expected (trim alias)"
  have u: "update_state ?f io ?act dir = (res, dir')" using assms(3) True by (simp add: set_alias_expected_def)
  have "?act st \<noteq> Err (StStorage AtCommit)" for st using resolved_not_commit [OF assms(2)] by (auto simp: alias_action_def and_then_Err_iff)
  then have eff: "if res = Ok () \<or> res = Err (StStorage AtCommit) then replaced ?f io ?act dir dir' else dir' = dir"
    using update_state_effect [OF u] parse_not_commit by (simp add: metadata_file_def)
  show ?thesis
  proof (cases "res = Ok () \<or> res = Err (StStorage AtCommit)")
    case committed: True
    have wf: "wf_map (ms_sessions st)" if "wf_map (ms_sessions old)" "?act old = Ok st" for old st
      using that put_entry_wf by (auto simp: alias_action_def and_then_Ok_iff)
    obtain old st where r: "present ?f dir = Ok old" "?act old = Ok st"
        "\<And>sessions. apply_state parse print DirOpened True dir' sessions = Ok (map (apply_metadata st) sessions)"
      using replaced_metadata [OF _ assms(1), of io ?act dir dir'] wf eff committed by (auto split: if_splits)
    obtain s where s: "resolved ri expected = Ok s" "st = put_entry ((entry_for metadata_entry_default s old)\<lparr>me_alias := trim alias\<rparr>) old"
      using r(2) by (auto simp: alias_action_def and_then_Ok_iff)
    note who = resolved_Ok [OF s(1)]
    have "apply_metadata st = (\<lambda>t. if sn_id t \<noteq> si_id expected then apply_metadata old t
                       else if same_lifetime t (sn_name s) (si_created_at expected)
                       then (dressed (entry_for metadata_entry_default s old) t)\<lparr>sn_alias := trim alias\<rparr>
                       else t)"
      unfolding s(2) apply_put_entry using who by (intro ext) (simp add: edited_def dressed_def)
    then show ?thesis using r who committed by auto
  qed (use eff in auto)
qed

section \<open>Visibility\<close>

lemma replaced_visibility:
  assumes "replaced (visibility_file parse print) io action dir dir'" and "visibility_law parse print"
    and "\<And>old st. wf_map (vs_hidden old) \<Longrightarrow> action old = Ok st \<Longrightarrow> wf_map (vs_hidden st)"
  shows "\<exists>old st. present (visibility_file parse print) dir = Ok old \<and> action old = Ok st \<and>
    (\<forall>sessions. apply_visibility parse print DirOpened True dir' sessions = Ok (map (apply_hidden st) sessions))"
proof -
  let ?f = "visibility_file parse print"
  let ?stamped = "\<lambda>st. st\<lparr>vs_version := 1, vs_updated_at := ui_now io\<rparr>"
  obtain old st raw where r: "present ?f dir = Ok old" "action old = Ok st" "visibility_entries_ok st" "print (?stamped st) = Some raw"
      "length raw < VISIBILITY_LIMIT" "dir' = dir(''session-visibility.json'' \<mapsto> raw @ [CHR 0x0A])"
    using assms(1) by (auto simp: replaced_def visibility_file_def)
  have wf: "wf_map (vs_hidden st)" using assms(3) r(2) present_visibility_wf [OF r(1)] by blast
  have "parse_visibility parse (raw @ [CHR 0x0A]) = Ok (?stamped st)"
    using parse_visibility_back [OF assms(2) r(4)] r(3) wf by (simp add: visibility_entries_ok_def)
  then have "apply_visibility parse print DirOpened True dir' sessions = Ok (map (apply_hidden (?stamped st)) sessions)" for sessions
    using r(5,6) by (simp add: apply_visibility_def load_file_state_def read_state_def read_private_def visibility_file_def)
  moreover have "apply_hidden (?stamped st) = apply_hidden st" by (rule ext) (simp add: apply_hidden_def)
  ultimately show ?thesis using r(1,2) by auto
qed

lemma hidden_exact:
  assumes "visibility_law parse print" and "resolves_plainly ri"
    and "set_hidden_expected (visibility_file parse print) io ri expected hidden dir = (res, dir')"
  shows "(res \<noteq> Ok () \<and> res \<noteq> Err (StStorage AtCommit) \<longrightarrow> dir' = dir) \<and>
    (res = Ok () \<or> res = Err (StStorage AtCommit) \<longrightarrow>
      (\<exists>s old. ri_resolve ri = Ok s \<and> sn_id s = si_id expected \<and> sn_created_at s = si_created_at expected \<and>
         present (visibility_file parse print) dir = Ok old \<and>
         (\<forall>sessions. apply_visibility parse print DirOpened True dir' sessions =
            Ok (map (\<lambda>t. if sn_id t \<noteq> si_id expected then apply_hidden old t
                       else t\<lparr>sn_hidden := (hidden \<and> same_lifetime t (sn_name s) (si_created_at expected))\<rparr>) sessions))))"
proof (cases "validate_session_id (si_id expected) \<and> 1 \<le> si_created_at expected")
  case False
  then have "res = Err StInvalid \<and> dir' = dir" using assms(3) by (auto simp: set_hidden_expected_def split: if_splits)
  then show ?thesis by simp
next
  case True
  let ?f = "visibility_file parse print" and ?act = "hidden_action ri expected hidden"
  have u: "update_state ?f io ?act dir = (res, dir')" using assms(3) True by (simp add: set_hidden_expected_def)
  have "?act st \<noteq> Err (StStorage AtCommit)" for st using resolved_not_commit [OF assms(2)] by (auto simp: hidden_action_def and_then_Err_iff)
  then have eff: "if res = Ok () \<or> res = Err (StStorage AtCommit) then replaced ?f io ?act dir dir' else dir' = dir"
    using update_state_effect [OF u] parse_not_commit by (simp add: visibility_file_def)
  show ?thesis
  proof (cases "res = Ok () \<or> res = Err (StStorage AtCommit)")
    case committed: True
    have wf: "wf_map (vs_hidden st)" if "wf_map (vs_hidden old)" "?act old = Ok st" for old st
      using that by (auto simp: hidden_action_def and_then_Ok_iff)
    obtain old st where r: "present ?f dir = Ok old" "?act old = Ok st"
        "\<And>sessions. apply_visibility parse print DirOpened True dir' sessions = Ok (map (apply_hidden st) sessions)"
      using replaced_visibility [OF _ assms(1), of io ?act dir dir'] wf eff committed by (auto split: if_splits)
    obtain s where s: "resolved ri expected = Ok s" "st = old\<lparr>vs_hidden := (if hidden
          then insert_key (sn_id s) \<lparr>ve_id = sn_id s, ve_name = sn_name s, ve_created_at = sn_created_at s\<rparr> (vs_hidden old)
          else remove_key (sn_id s) (vs_hidden old))\<rparr>"
      using r(2) by (auto simp: hidden_action_def and_then_Ok_iff)
    note who = resolved_Ok [OF s(1)]
    have "apply_hidden st = (\<lambda>t. if sn_id t \<noteq> si_id expected then apply_hidden old t
                       else t\<lparr>sn_hidden := (hidden \<and> same_lifetime t (sn_name s) (si_created_at expected))\<rparr>)"
      using who by (intro ext) (simp add: s(2) apply_hidden_def same_lifetime_def)
    then show ?thesis using r who committed by auto
  qed (use eff in auto)
qed

section \<open>Edits\<close>

text \<open>
  C16: an edit of a session shows on exactly the lifetime it was made for. After a session has been renamed or
  hidden, the catalog shows the new alias or visibility on the session with the identifier, name and
  creation time the edit was resolved to, with the rest of what was recorded for it; a session to which
  tmux has given the same identifier again shows nothing of it, nor of what was recorded before; every
  other session is shown as it was. An edit that fails has changed nothing, unless it reports that the
  file had been replaced, and then it shows as if it had succeeded.
\<close>

theorem session_edits_exact:
  assumes "metadata_law mparse mprint" and "visibility_law vparse vprint" and "resolves_plainly ri"
    and "set_alias_expected (metadata_file mparse mprint) io ri expected alias dir = (res1, dir1)"
    and "set_hidden_expected (visibility_file vparse vprint) io ri expected hidden dir = (res2, dir2)"
  shows "(if res1 = Ok () \<or> res1 = Err (StStorage AtCommit) then
      (\<exists>s old. ri_resolve ri = Ok s \<and> sn_id s = si_id expected \<and> sn_created_at s = si_created_at expected \<and>
         present (metadata_file mparse mprint) dir = Ok old \<and>
         (\<forall>sessions. apply_state mparse mprint DirOpened True dir1 sessions =
            Ok (map (\<lambda>t. if sn_id t \<noteq> si_id expected then apply_metadata old t
                       else if same_lifetime t (sn_name s) (si_created_at expected)
                       then (dressed (entry_for metadata_entry_default s old) t)\<lparr>sn_alias := trim alias\<rparr>
                       else t) sessions)))
     else dir1 = dir) \<and>
    (if res2 = Ok () \<or> res2 = Err (StStorage AtCommit) then
      (\<exists>s old. ri_resolve ri = Ok s \<and> sn_id s = si_id expected \<and> sn_created_at s = si_created_at expected \<and>
         present (visibility_file vparse vprint) dir = Ok old \<and>
         (\<forall>sessions. apply_visibility vparse vprint DirOpened True dir2 sessions =
            Ok (map (\<lambda>t. if sn_id t \<noteq> si_id expected then apply_hidden old t
                       else t\<lparr>sn_hidden := (hidden \<and> same_lifetime t (sn_name s) (si_created_at expected))\<rparr>) sessions)))
     else dir2 = dir)"
  using alias_exact [OF assms(1,3,4)] hidden_exact [OF assms(2,3,5)] by (intro conjI) (simp_all del: ex_simps)

section \<open>An example\<close>

definition sample_session :: session where
  "sample_session =
     \<lparr>sn_id = ''$1'', sn_name = [97], sn_alias = [], sn_hidden = False, sn_created_at = 5, sn_restored_from = None, sn_activity_at = 5, sn_attached = 0,
      sn_window_count = 1, sn_window_names = None, sn_active_window = [], sn_current_path = [], sn_current_command = [], sn_profile = [], sn_label = [],
      sn_tags = None, sn_kind = [], sn_runtime = [], sn_model = [], sn_state = [], sn_process = [], sn_working_since = 0, sn_width = 0, sn_height = 0,
      sn_pane_pid = 0\<rparr>"

definition sample_metadata :: metadata_state where
  "sample_metadata = \<lparr>ms_version = 1, ms_sessions = [(''$1'', \<lparr>me_id = ''$1'', me_name = [97], me_created_at = 5, me_alias = [98],
     me_profile = [], me_label = [], me_tags = []\<rparr>)], ms_updated_at = ''now''\<rparr>"

definition sample_hidden :: visibility_state where
  "sample_hidden = \<lparr>vs_version = 1, vs_hidden = [(''$1'', \<lparr>ve_id = ''$1'', ve_name = [97], ve_created_at = 5\<rparr>)], vs_updated_at = ''now''\<rparr>"

definition sample_update_io :: update_io where
  "sample_update_io = \<lparr>ui_check_start = True, ui_directory = True, ui_check_directory = True,
     ui_lock = \<lparr>le_check = \<lambda>_. True, le_try = \<lambda>_. LockAcquired, le_elapsed = \<lambda>n. n, sl_check = \<lambda>_. True\<rparr>, ui_readable = True, ui_check_read = True,
     ui_check_action = True, ui_now = ''now'', ui_check_write = True, ui_write = WriteOk\<rparr>"

text \<open>Codecs that know one document each.\<close>

definition sample_mprint :: "metadata_state \<Rightarrow> bytes option" where
  "sample_mprint st = (if st = sample_metadata then Some ''m'' else None)"

definition sample_mparse :: "bytes \<Rightarrow> metadata_doc option" where
  "sample_mparse raw = (if raw = ''m'' @ [CHR 0x0A] then Some (metadata_doc_of sample_metadata) else None)"

definition sample_vprint :: "visibility_state \<Rightarrow> bytes option" where
  "sample_vprint st = (if st = sample_hidden then Some ''v'' else None)"

definition sample_vparse :: "bytes \<Rightarrow> visibility_doc option" where
  "sample_vparse raw = (if raw = ''v'' @ [CHR 0x0A] then Some (visibility_doc_of sample_hidden) else None)"

definition sample_resolve :: resolve_io where
  "sample_resolve = \<lparr>ri_check_before = True, ri_resolve = Ok sample_session, ri_check_after = True\<rparr>"

lemma sample_session_laws:
  "metadata_law sample_mparse sample_mprint" "visibility_law sample_vparse sample_vprint" "resolves_plainly sample_resolve"
  by (simp_all add: metadata_law_def visibility_law_def sample_mparse_def sample_mprint_def sample_vparse_def sample_vprint_def resolves_plainly_def sample_resolve_def)

lemma sample_texts: "valid_text [97] 512" "valid_text [98] 320" "valid_text [] n" "trim [98] = [98]" "validate_session_id ''$1''"
proof -
  show "valid_text [97] 512" "valid_text [98] 320" "valid_text [] n" "trim [98] = [98]"
    by (simp_all add: valid_text_def safe_text_def trim_def is_whitespace_def is_control_def is_bidi_control_def len_utf8_def Let_def)
  show "validate_session_id ''$1''" by code_simp
qed

lemma sample_lock: "state_lock STATE_LOCK_FUEL (ui_lock sample_update_io) 0 = Some (Ok ())"
proof -
  have "state_lock (Suc 80) (ui_lock sample_update_io) 0 = Some (Ok ())" unfolding state_lock.simps by (simp add: sample_update_io_def)
  then show ?thesis by (simp add: STATE_LOCK_FUEL_def)
qed

lemma sample_identity: "validate_identity ''$1'' [97] 5 = Ok ()"
  by (simp add: validate_identity_def sample_texts)

lemma sample_alias_set:
  "set_alias_expected (metadata_file sample_mparse sample_mprint) sample_update_io sample_resolve \<lparr>si_id = ''$1'', si_created_at = 5\<rparr> [98] Map.empty =
     (Ok (), [''sessions.json'' \<mapsto> ''m'' @ [CHR 0x0A]])"
proof -
  let ?f = "metadata_file sample_mparse sample_mprint" and ?e = "\<lparr>si_id = ''$1'', si_created_at = 5\<rparr>"
  let ?st = "sample_metadata\<lparr>ms_updated_at := []\<rparr>"
  have "resolved sample_resolve ?e = Ok sample_session"
    using sample_identity by (simp add: resolved_def sample_resolve_def sample_session_def)
  then have act: "alias_action sample_resolve ?e [98] (sf_fresh ?f) = Ok ?st"
    by (simp add: alias_action_def metadata_file_def put_entry_def entry_for_def metadata_entry_default_def sample_session_def sample_metadata_def insert_key_def)
  have "metadata_entries_ok ?st"
    using sample_texts sample_identity by (simp add: metadata_entries_ok_def sample_metadata_def ENTRY_LIMIT_def validate_metadata_def validate_alias_def MAX_ALIAS_BYTES_def)
  moreover have "sample_mprint (?st\<lparr>ms_version := 1, ms_updated_at := ''now''\<rparr>) = Some ''m''" by (simp add: sample_mprint_def sample_metadata_def)
  ultimately have "write_state ?f sample_update_io ?st Map.empty = (Ok (), [''sessions.json'' \<mapsto> ''m'' @ [CHR 0x0A]])"
    by (simp add: write_state_def metadata_file_def sample_update_io_def METADATA_LIMIT_def write_atomic_def)
  then have "update_locked ?f sample_update_io (alias_action sample_resolve ?e [98]) Map.empty = (Ok (), [''sessions.json'' \<mapsto> ''m'' @ [CHR 0x0A]])"
    using act by (simp add: update_locked_def read_state_def read_private_def sample_update_io_def)
  then have "update_state ?f sample_update_io (alias_action sample_resolve ?e [98]) Map.empty = (Ok (), [''sessions.json'' \<mapsto> ''m'' @ [CHR 0x0A]])"
    using sample_lock by (simp add: update_state_def) (simp add: sample_update_io_def)
  then show ?thesis using sample_texts by (simp add: set_alias_expected_def validate_alias_def MAX_ALIAS_BYTES_def)
qed

theorem session_edits_exact_witness:
  "\<exists>dir1. set_alias_expected (metadata_file sample_mparse sample_mprint) sample_update_io sample_resolve \<lparr>si_id = ''$1'', si_created_at = 5\<rparr> [98] Map.empty =
       (Ok (), dir1) \<and>
     apply_state sample_mparse sample_mprint DirOpened True dir1 [sample_session, sample_session\<lparr>sn_created_at := 9\<rparr>] =
       Ok [sample_session\<lparr>sn_alias := [98]\<rparr>, sample_session\<lparr>sn_created_at := 9\<rparr>]"
proof -
  let ?e = "\<lparr>si_id = ''$1'', si_created_at = 5\<rparr>"
  obtain res2 dir2 where h: "set_hidden_expected (visibility_file sample_vparse sample_vprint) sample_update_io sample_resolve ?e True Map.empty = (res2, dir2)"
    by fastforce
  have "present (metadata_file sample_mparse sample_mprint) Map.empty = Ok \<lparr>ms_version = 1, ms_sessions = [], ms_updated_at = []\<rparr>"
    by (simp add: present_def read_state_def read_private_def metadata_file_def)
  with session_edits_exact [OF sample_session_laws sample_alias_set h] sample_texts
  show ?thesis
    using sample_alias_set
    by (auto simp: sample_resolve_def same_lifetime_def dressed_def entry_for_def metadata_entry_default_def) (simp_all add: sample_session_def)
qed

end
