(* ===== verification/Http_Boundary.thy ===== *)
theory Http_Boundary
  imports Session_Location Auth_Store Usage_Preferences
begin

text \<open>
  The HTTP boundary of the gateway, \<open>hmux-gateway/src/http_boundary.rs\<close>: which requests reach a route at all,
  the session cookie, the address a login is counted under, bounded bodies, and the shared budget of
  encoded replies. Header names are in lower case, as the \<open>http\<close> crate keeps them.
\<close>

definition MAX_CONNECTIONS :: nat where "MAX_CONNECTIONS = 64"
definition MAX_JSON_BYTES :: nat where "MAX_JSON_BYTES = 16384"
definition MAX_REPLY_BYTES :: nat where "MAX_REPLY_BYTES = 6430720"
definition MAX_RETAINED_JSON_BYTES :: nat where "MAX_RETAINED_JSON_BYTES = 8388608"
definition COOKIE_NAME :: string where "COOKIE_NAME = ''__Host-hmux''"

definition CSP :: string where
  "CSP = ''default-src 'none'; manifest-src 'self'; worker-src 'self'; script-src 'self'; style-src 'self' 'unsafe-inline'; font-src 'self'; img-src 'self' data:; connect-src 'self'; frame-ancestors 'none'; base-uri 'none'; form-action '' @ [CHR 0x27] @ ''self'' @ [CHR 0x27]"

lemmas boundary_limits [limits] = MAX_CONNECTIONS_def MAX_JSON_BYTES_def MAX_REPLY_BYTES_def MAX_RETAINED_JSON_BYTES_def

section \<open>Requests\<close>

type_synonym headers = "(string \<times> bytes) list"
type_synonym status = nat

datatype body_frame = DataFrame bytes | OtherFrame | BrokenFrame

record http_request =
  hq_method :: string
  hq_path :: string
  hq_authority :: "string option"
  hq_headers :: headers
  hq_size_hint :: nat
  hq_frames :: "body_frame list"
  hq_stalls :: "nat option" \<comment> \<open>the frame before which the deadline of the body passes\<close>

definition get_all :: "headers \<Rightarrow> string \<Rightarrow> bytes list" where
  "get_all h name = map snd (filter (\<lambda>e. fst e = name) h)"

definition single :: "headers \<Rightarrow> string \<Rightarrow> bytes option" where
  "single h name = (case get_all h name of [v] \<Rightarrow> Some v | _ \<Rightarrow> None)"

definition absent_or_empty :: "headers \<Rightarrow> string \<Rightarrow> bool" where
  "absent_or_empty h name \<longleftrightarrow> get_all h name = [] \<or> single h name = Some []"

definition has_prefix :: "string \<Rightarrow> string \<Rightarrow> bool" where
  "has_prefix s p \<longleftrightarrow> take (length p) s = p"

section \<open>The policy\<close>

record policy =
  po_origin :: string
  po_host :: string
  po_authorization :: bytes

text \<open>\<open>str::parse::<u16>\<close>: digits, with a plus sign in front or not.\<close>

definition parse_u16 :: "string \<Rightarrow> nat option" where
  "parse_u16 s =
     (let ds = (case s of c # cs \<Rightarrow> if c = CHR ''+'' then cs else s | [] \<Rightarrow> []) in
      if ds \<noteq> [] \<and> list_all is_ascii_digit ds \<and> undecimal 0 ds < 65536 then Some (undecimal 0 ds) else None)"

definition policy_new :: "(string \<Rightarrow> string option) \<Rightarrow> auth_env \<Rightarrow> string \<Rightarrow> string \<Rightarrow> (string, policy) result" where
  \<comment> \<open>the first argument: the host of an authority, if the text is one\<close>
  "policy_new authority env origin connector_token =
     (if \<not> has_prefix origin ''https://'' then Err ''origin must be an exact HTTPS origin''
      else
        let host = drop 8 origin in
        if host = [] \<or> list_ex (\<lambda>c. c \<in> set ''/?#@'') host \<or> \<not> list_all (\<lambda>c. code c < 128) host \<or> list_ex is_ascii_whitespace host
        then Err ''origin must be an exact HTTPS origin''
        else case authority host of
          None \<Rightarrow> Err ''invalid origin authority''
        | Some name \<Rightarrow>
            let suffix = drop (length name) host in
            if name = [] \<or> (suffix \<noteq> [] \<and> (case suffix of c # port \<Rightarrow> c \<noteq> CHR '':'' \<or> parse_u16 port = None | [] \<Rightarrow> True))
            then Err ''invalid origin authority''
            else if \<not> valid_token env connector_token then Err ''invalid connector token''
            else Ok \<lparr>po_origin = origin, po_host = host, po_authorization = ''Bearer '' @ connector_token\<rparr>)"

definition preflight :: "policy \<Rightarrow> http_request \<Rightarrow> (status, unit) result" where
  "preflight p rq =
     (let h = hq_headers rq; path = hq_path rq; m = hq_method rq in
      if single h ''host'' \<noteq> Some (po_host p) \<or> (case hq_authority rq of None \<Rightarrow> False | Some a \<Rightarrow> a \<noteq> po_host p) then Err 421
      else if path = ''/connect'' then
        (if m \<noteq> ''GET'' \<or> \<not> absent_or_empty h ''origin'' \<or>
            (case single h ''authorization'' of None \<Rightarrow> True | Some v \<Rightarrow> v \<noteq> po_authorization p)
         then Err 403 else Ok ())
      else if has_prefix path ''/api/'' then
        (if (m \<noteq> ''GET'' \<or> path \<in> {''/api/terminal'', ''/api/upload''}) \<and> single h ''origin'' \<noteq> Some (po_origin p)
         then Err 403 else Ok ())
      else if m \<noteq> ''GET'' \<and> m \<noteq> ''HEAD'' then Err 405
      else Ok ())"

section \<open>The session cookie\<close>

text \<open>\<open>str::trim\<close> on visible ASCII, which is all \<open>to_str\<close> lets through.\<close>

definition is_space :: "char \<Rightarrow> bool" where
  "is_space c \<longleftrightarrow> c = CHR 0x20 \<or> (CHR 0x09 \<le> c \<and> c \<le> CHR 0x0D)"

definition trim_str :: "string \<Rightarrow> string" where
  "trim_str s = rev (dropWhile is_space (rev (dropWhile is_space s)))"

definition split_once_at :: "char \<Rightarrow> string \<Rightarrow> (string \<times> string) option" where
  "split_once_at c s = (if c \<in> set s then Some (takeWhile (\<lambda>x. x \<noteq> c) s, tl (dropWhile (\<lambda>x. x \<noteq> c) s)) else None)"

fun cookie_parts :: "auth_env \<Rightarrow> string option \<Rightarrow> string list \<Rightarrow> string option option" where
  \<comment> \<open>\<open>None\<close>: the whole function returns nothing\<close>
  "cookie_parts env found [] = Some found"
| "cookie_parts env found (part # rest) =
     (case split_once_at (CHR ''='') (trim_str part) of
        None \<Rightarrow> cookie_parts env found rest
      | Some (name, v) \<Rightarrow>
          if trim_str name \<noteq> COOKIE_NAME then cookie_parts env found rest
          else if found \<noteq> None \<or> \<not> valid_token env v then None
          else cookie_parts env (Some v) rest)"

fun cookie_lines :: "(bytes \<Rightarrow> string option) \<Rightarrow> auth_env \<Rightarrow> string option \<Rightarrow> bytes list \<Rightarrow> string option option" where
  "cookie_lines to_str env found [] = Some found"
| "cookie_lines to_str env found (line # rest) =
     (case to_str line of
        None \<Rightarrow> None
      | Some s \<Rightarrow>
          (case cookie_parts env found (split_on (CHR '';'') s) of
             None \<Rightarrow> None
           | Some found \<Rightarrow> cookie_lines to_str env found rest))"

definition session_token :: "(bytes \<Rightarrow> string option) \<Rightarrow> auth_env \<Rightarrow> headers \<Rightarrow> string option" where
  "session_token to_str env h = Option.bind (cookie_lines to_str env None (get_all h ''cookie'')) id"

definition valid_csrf :: "headers \<Rightarrow> string \<Rightarrow> bool" where
  "valid_csrf h expected \<longleftrightarrow> expected \<noteq> [] \<and> single h ''x-csrf-token'' = Some expected"

section \<open>Replies\<close>

record reply =
  rp_status :: status
  rp_headers :: headers
  rp_body :: bytes
  rp_charged :: nat \<comment> \<open>what the body holds of the reply budget until it is dropped\<close>

definition insert_header :: "string \<Rightarrow> bytes \<Rightarrow> headers \<Rightarrow> headers" where
  "insert_header name v h = filter (\<lambda>e. fst e \<noteq> name) h @ [(name, v)]"

definition cookie_text :: "string \<Rightarrow> int \<Rightarrow> string" where
  "cookie_text v max_age =
     COOKIE_NAME @ ''='' @ v @ ''; Path=/; Max-Age='' @ int_decimal max_age @ ''; HttpOnly; Secure; SameSite=Strict''"

definition set_cookie :: "auth_env \<Rightarrow> string option \<Rightarrow> reply \<Rightarrow> (string, reply) result" where
  "set_cookie env token r =
     (case (case token of
              Some t \<Rightarrow> if valid_token env t then Some (t, LOGIN_LIFETIME_SECONDS) else None
            | None \<Rightarrow> Some ([], 0)) of
        None \<Rightarrow> Err ''invalid session token''
      | Some (v, max_age) \<Rightarrow> Ok (r\<lparr>rp_headers := insert_header ''set-cookie'' (cookie_text v max_age) (rp_headers r)\<rparr>))"

definition SECURE_HEADERS :: headers where
  "SECURE_HEADERS =
     [(''cache-control'', ''no-store''), (''x-content-type-options'', ''nosniff''), (''referrer-policy'', ''no-referrer''),
      (''permissions-policy'', ''camera=(), microphone=(), geolocation=()''), (''content-security-policy'', CSP)]"

definition secure_headers :: "reply \<Rightarrow> reply" where
  "secure_headers r = r\<lparr>rp_headers := foldl (\<lambda>h (name, v). insert_header name v h) (rp_headers r) SECURE_HEADERS\<rparr>"

definition error_reply :: "(status \<Rightarrow> string option) \<Rightarrow> status \<Rightarrow> reply" where
  \<comment> \<open>the first argument: \<open>canonical_reason\<close>\<close>
  "error_reply reason status =
     secure_headers \<lparr>rp_status = status, rp_headers = [(''content-type'', ''text/plain; charset=utf-8'')],
       rp_body = (case reason status of None \<Rightarrow> ''Request failed'' | Some t \<Rightarrow> t) @ [CHR 0x0A], rp_charged = 0\<rparr>"

definition retryable_error :: "(status \<Rightarrow> string option) \<Rightarrow> status \<Rightarrow> reply" where
  "retryable_error reason status =
     (let r = error_reply reason status in r\<lparr>rp_headers := insert_header ''retry-after'' ''1'' (rp_headers r)\<rparr>)"

definition closing_error :: "(status \<Rightarrow> string option) \<Rightarrow> status \<Rightarrow> reply" where
  "closing_error reason status =
     (let r = error_reply reason status in r\<lparr>rp_headers := insert_header ''connection'' ''close'' (rp_headers r)\<rparr>)"

section \<open>Encoded replies\<close>

record reply_budget =
  rb_used :: nat
  rb_limit :: nat

record json_buffer =
  jb_data :: bytes
  jb_capacity :: nat
  jb_charged :: nat
  jb_busy :: bool

definition buffer_new :: json_buffer where
  "buffer_new = \<lparr>jb_data = [], jb_capacity = 0, jb_charged = 0, jb_busy = False\<rparr>"

text \<open>An addition that overflows \<open>usize\<close> exceeds the limit as well, so the two failures are one test.\<close>

definition buffer_charge :: "nat \<Rightarrow> json_buffer \<Rightarrow> reply_budget \<Rightarrow> bool \<times> json_buffer \<times> reply_budget" where
  "buffer_charge capacity b rb =
     (if capacity \<le> jb_charged b then (True, b, rb)
      else
        let extra = capacity - jb_charged b in
        if rb_limit rb < rb_used rb + extra then (False, b\<lparr>jb_busy := True\<rparr>, rb)
        else (True, b\<lparr>jb_charged := capacity\<rparr>, rb\<lparr>rb_used := rb_used rb + extra\<rparr>))"

function power_of_two_from :: "nat \<Rightarrow> nat \<Rightarrow> nat" where
  "power_of_two_from p n = (if n \<le> p \<or> p = 0 then p else power_of_two_from (2 * p) n)"
  by auto
termination by (relation "measure (\<lambda>(p, n). n - p)") auto

declare power_of_two_from.simps [simp del]

definition next_power_of_two :: "nat \<Rightarrow> nat" where
  "next_power_of_two n = power_of_two_from 1 n"

definition buffer_append :: "bytes \<Rightarrow> json_buffer \<Rightarrow> json_buffer" where
  "buffer_append data b = b\<lparr>jb_data := jb_data b @ data\<rparr>"

definition buffer_write :: "(nat \<Rightarrow> nat option) \<Rightarrow> bytes \<Rightarrow> json_buffer \<Rightarrow> reply_budget \<Rightarrow> bool \<times> json_buffer \<times> reply_budget" where
  \<comment> \<open>the first argument: the capacity \<open>try_reserve_exact\<close> gives, if it succeeds\<close>
  "buffer_write reserve data b rb =
     (if MAX_REPLY_BYTES - length (jb_data b) < length data then (False, b, rb)
      else
        let needed = length (jb_data b) + length data in
        if needed \<le> jb_capacity b then (True, buffer_append data b, rb)
        else
          let target = min (next_power_of_two needed) MAX_REPLY_BYTES in
          case buffer_charge target b rb of
            (False, b, rb) \<Rightarrow> (False, b, rb)
          | (True, b, rb) \<Rightarrow>
              (case reserve target of
                 None \<Rightarrow> (False, b, rb)
               | Some capacity \<Rightarrow>
                   let b = b\<lparr>jb_capacity := capacity\<rparr> in
                   if capacity \<le> jb_charged b then (True, buffer_append data b, rb)
                   else (case buffer_charge capacity b rb of
                           (False, b, rb) \<Rightarrow> (False, b, rb)
                         | (True, b, rb) \<Rightarrow> (True, buffer_append data b, rb))))"

definition buffer_drop :: "json_buffer \<Rightarrow> reply_budget \<Rightarrow> reply_budget" where
  "buffer_drop b rb = rb\<lparr>rb_used := rb_used rb - jb_charged b\<rparr>"

text \<open>\<open>serde_json::to_writer\<close>: the pieces it hands over, until one is refused.\<close>

fun buffer_writes :: "(nat \<Rightarrow> nat option) \<Rightarrow> bytes list \<Rightarrow> json_buffer \<Rightarrow> reply_budget \<Rightarrow> bool \<times> json_buffer \<times> reply_budget" where
  "buffer_writes reserve [] b rb = (True, b, rb)"
| "buffer_writes reserve (piece # rest) b rb =
     (case buffer_write reserve piece b rb of
        (False, b, rb) \<Rightarrow> (False, b, rb)
      | (True, b, rb) \<Rightarrow> buffer_writes reserve rest b rb)"

definition json_with_budget :: "(status \<Rightarrow> string option) \<Rightarrow> (nat \<Rightarrow> nat option) \<Rightarrow> bytes list \<Rightarrow> reply_budget \<Rightarrow> reply \<times> reply_budget" where
  "json_with_budget reason reserve pieces rb =
     (case buffer_writes reserve pieces buffer_new rb of
        (True, b, rb) \<Rightarrow>
          (secure_headers \<lparr>rp_status = 200, rp_headers = [(''content-type'', ''application/json'')], rp_body = jb_data b, rp_charged = jb_charged b\<rparr>, rb)
      | (False, b, rb) \<Rightarrow> (error_reply reason (if jb_busy b then 503 else 500), buffer_drop b rb))"

section \<open>Bodies\<close>

datatype decode_error = MediaType | BodySize | BodyTimeout | BrokenBody | NotJson

fun collect_body :: "nat option \<Rightarrow> bytes \<Rightarrow> body_frame list \<Rightarrow> (decode_error, bytes) result" where
  "collect_body (Some 0) data frames = Err BodyTimeout"
| "collect_body stalls data [] = Ok data"
| "collect_body stalls data (f # rest) =
     (case f of
        BrokenFrame \<Rightarrow> Err BrokenBody
      | OtherFrame \<Rightarrow> Err BrokenBody
      | DataFrame chunk \<Rightarrow>
          if MAX_JSON_BYTES - length data < length chunk then Err BodySize
          else collect_body (map_option (\<lambda>n. n - 1) stalls) (data @ chunk) rest)"

definition decode_json :: "(bytes \<Rightarrow> 'a option) \<Rightarrow> http_request \<Rightarrow> (decode_error, 'a) result" where
  "decode_json parse rq =
     (if (case single (hq_headers rq) ''content-type'' of None \<Rightarrow> True | Some v \<Rightarrow> \<not> has_prefix v ''application/json'') then Err MediaType
      else if MAX_JSON_BYTES < hq_size_hint rq then Err BodySize
      else and_then (collect_body (hq_stalls rq) [] (hq_frames rq)) (\<lambda>data.
        if find (\<lambda>b. \<not> is_ascii_whitespace b) data \<noteq> Some (CHR 0x7B) then Err NotJson
        else case parse data of None \<Rightarrow> Err NotJson | Some v \<Rightarrow> Ok v))"

section \<open>Addresses\<close>

definition is_loopback :: "ip \<Rightarrow> bool" where
  "is_loopback a = (case a of V4 v \<Rightarrow> drop_bit 24 v = 127 | V6 v \<Rightarrow> v = 1)"

definition request_ip :: "(bytes \<Rightarrow> ip option) \<Rightarrow> ip \<Rightarrow> headers \<Rightarrow> ip" where
  \<comment> \<open>the first argument: the address a text is, if it is one\<close>
  "request_ip parse peer h =
     to_canonical
       (if is_loopback peer then (case Option.bind (single h ''x-real-ip'') parse of None \<Rightarrow> peer | Some a \<Rightarrow> a) else peer)"

definition login_source :: "(ip \<Rightarrow> string) \<Rightarrow> ip \<Rightarrow> string" where
  "login_source print a =
     (case to_canonical a of
        V4 v \<Rightarrow> print (V4 v)
      | V6 v \<Rightarrow> print (V6 (push_bit 64 (drop_bit 64 v))))"

fun contains :: "string \<Rightarrow> string \<Rightarrow> bool" where
  "contains [] p \<longleftrightarrow> p = []"
| "contains (c # cs) p \<longleftrightarrow> has_prefix (c # cs) p \<or> contains cs p"

definition is_char_boundary :: "string \<Rightarrow> nat \<Rightarrow> bool" where
  "is_char_boundary s n \<longleftrightarrow> n = 0 \<or> n = length s \<or> (n < length s \<and> \<not> (128 \<le> code (s ! n) \<and> code (s ! n) < 192))"

fun floor_boundary :: "string \<Rightarrow> nat \<Rightarrow> nat" where
  "floor_boundary s 0 = 0"
| "floor_boundary s (Suc n) = (if is_char_boundary s (Suc n) then Suc n else floor_boundary s n)"

definition browser_label :: "string \<Rightarrow> string" where
  "browser_label ua =
     (let ua = take (floor_boundary ua (min 512 (length ua))) ua;
          os = (if contains ua ''Android'' then ''Android''
                else if list_ex (contains ua) [''iPhone'', ''iPad'', ''iPod''] then ''iOS''
                else if contains ua ''Windows'' then ''Windows''
                else if contains ua ''Macintosh'' \<or> contains ua ''Mac OS X'' then ''macOS''
                else if contains ua ''CrOS'' then ''ChromeOS''
                else if contains ua ''Linux'' then ''Linux'' else []);
          browser = (if contains ua ''Edg/'' then ''Edge''
                     else if contains ua ''CriOS'' \<or> contains ua ''Chrome/'' then ''Chrome''
                     else if contains ua ''FxiOS'' \<or> contains ua ''Firefox/'' then ''Firefox''
                     else if contains ua ''Safari/'' then ''Safari'' else ''Unknown browser'') in
      if os = [] then browser else browser @ '' on '' @ os)"

definition loopback_address :: "(string \<Rightarrow> (ip \<times> nat) option) \<Rightarrow> string \<Rightarrow> (ip \<times> nat) option" where
  "loopback_address parse v =
     (case parse v of None \<Rightarrow> None | Some (a, port) \<Rightarrow> if is_loopback (to_canonical a) then Some (a, port) else None)"

section \<open>Serving a request\<close>

definition serve_request ::
  "(status \<Rightarrow> string option) \<Rightarrow> policy \<Rightarrow> (http_request \<Rightarrow> 's \<Rightarrow> reply option \<times> 's) \<Rightarrow> http_request \<Rightarrow> 's \<Rightarrow> reply \<times> 's" where
  \<comment> \<open>the route may run out of time\<close>
  "serve_request reason p handler rq s =
     (case (case preflight p rq of
              Inl status \<Rightarrow> (closing_error reason status, s)
            | Inr _ \<Rightarrow> (case handler rq s of (Some r, s) \<Rightarrow> (r, s) | (None, s) \<Rightarrow> (closing_error reason 408, s))) of
        (r, s) \<Rightarrow> (secure_headers r, s))"

end
