(* ===== verification/Http_Auth.thy ===== *)
theory Http_Auth
  imports Http_Boundary
begin

text \<open>
  The routes of \<open>hmux-gateway/src/http_auth.rs\<close>: what a request must carry before a route runs, and the routes of
  the accounts themselves over the account store and the usage settings. The other routes (the Home's
  connection, assets, terminal and upload sockets, state, completions, actions, diagnostics, push) are
  one argument, a function on the rest of the gateway that is told the route, the token and the login.
\<close>

section \<open>The gateway\<close>

record 'w gateway =
  gw_auth :: auth_store
  gw_preferences :: "pref_store option"
  gw_budget :: reply_budget
  gw_rest :: 'w

datatype reply_value =
    VSetupRequired bool | VSetupFailed | VOk | VTotpRequired | VSession string string string string | VSessions "session_info list"
  | VTotpEnabled bool | VPreferences preferences

record login_body =
  lb_username :: string
  lb_password :: string
  lb_code :: string

record security_body =
  sb_totp_enabled :: "bool option"
  sb_password :: string
  sb_code :: string

datatype route =
    RConnect | RAssets | RTerminal | RUpload | RState | RCompletionRead | RAction | RDiagnostics | RPush

text \<open>The clock, the admission and the files at the \<open>n\<close>-th transaction of a request, and everything outside.\<close>

record 'w gateway_env =
  ge_env :: auth_env
  ge_to_str :: "bytes \<Rightarrow> string option"
  ge_reason :: "status \<Rightarrow> string option"
  ge_reserve :: "nat \<Rightarrow> nat option"
  ge_print :: "reply_value \<Rightarrow> bytes list"
  ge_peer :: ip
  ge_ip_parse :: "bytes \<Rightarrow> ip option"
  ge_ip_text :: "ip \<Rightarrow> string"
  ge_now :: "nat \<Rightarrow> int"
  ge_io :: "nat \<Rightarrow> auth_io"
  ge_gate :: "nat \<Rightarrow> gate"
  ge_kdf :: kdf_outcome
  ge_between :: "auth_store \<Rightarrow> auth_store" \<comment> \<open>what other requests do while a password is derived\<close>
  ge_login_body :: "bytes \<Rightarrow> login_body option"
  ge_revoke_body :: "bytes \<Rightarrow> string option"
  ge_security_body :: "bytes \<Rightarrow> security_body option"
  ge_pref_io :: pref_io
  ge_pref_admitted :: bool
  ge_pref_free :: bool
  ge_other :: "route \<Rightarrow> http_request \<Rightarrow> (string \<times> session_access) option \<Rightarrow> 'w \<Rightarrow> reply \<times> 'w"

definition error_of :: "'w gateway_env \<Rightarrow> status \<Rightarrow> reply" where
  "error_of ge status = error_reply (ge_reason ge) status"

definition json_of :: "'w gateway_env \<Rightarrow> reply_value \<Rightarrow> 'w gateway \<Rightarrow> reply \<times> 'w gateway" where
  "json_of ge v g = (case json_with_budget (ge_reason ge) (ge_reserve ge) (ge_print ge v) (gw_budget g) of (r, rb) \<Rightarrow> (r, g\<lparr>gw_budget := rb\<rparr>))"

definition setup_error :: "'w gateway_env \<Rightarrow> status \<Rightarrow> 'w gateway \<Rightarrow> reply \<times> 'w gateway" where
  "setup_error ge status g = (case json_of ge VSetupFailed g of (r, g) \<Rightarrow> (r\<lparr>rp_status := status\<rparr>, g))"

definition cookie_or :: "'w gateway_env \<Rightarrow> string option \<Rightarrow> reply \<Rightarrow> reply" where
  \<comment> \<open>a failure to set the cookie is ignored\<close>
  "cookie_or ge token r = (case set_cookie (ge_env ge) token r of Inl e \<Rightarrow> r | Inr r \<Rightarrow> r)"

definition other_route :: "'w gateway_env \<Rightarrow> route \<Rightarrow> http_request \<Rightarrow> (string \<times> session_access) option \<Rightarrow> 'w gateway \<Rightarrow> reply \<times> 'w gateway" where
  "other_route ge rt hq who g = (case ge_other ge rt hq who (gw_rest g) of (r, w) \<Rightarrow> (r, g\<lparr>gw_rest := w\<rparr>))"

definition revalidate :: "'w gateway_env \<Rightarrow> nat \<Rightarrow> string \<Rightarrow> 'w gateway \<Rightarrow> (status, unit) result \<times> 'w gateway" where
  "revalidate ge n token g =
     (case access (ge_env ge) (ge_io ge n) (ge_gate ge n) token False (ge_now ge n) (gw_auth g) of
        (Inr (Some a), st) \<Rightarrow> (Ok (), g\<lparr>gw_auth := st\<rparr>)
      | (Inr None, st) \<Rightarrow> (Err 401, g\<lparr>gw_auth := st\<rparr>)
      | (Inl e, st) \<Rightarrow> (Err 503, g\<lparr>gw_auth := st\<rparr>))"

section \<open>Login\<close>

definition user_agent :: "'w gateway_env \<Rightarrow> http_request \<Rightarrow> string" where
  \<comment> \<open>\<open>HeaderMap::get\<close>: the first value\<close>
  "user_agent ge hq =
     (case get_all (hq_headers hq) ''user-agent'' of [] \<Rightarrow> [] | v # vs \<Rightarrow> (case ge_to_str ge v of None \<Rightarrow> [] | Some s \<Rightarrow> s))"

definition login_route :: "'w gateway_env \<Rightarrow> http_request \<Rightarrow> 'w gateway \<Rightarrow> reply \<times> 'w gateway" where
  "login_route ge hq g =
     (if hq_method hq \<noteq> ''POST'' then (error_of ge 405, g)
      else
        let a = request_ip (ge_ip_parse ge) (ge_peer ge) (hq_headers hq); browser = browser_label (user_agent ge hq) in
        case decode_json (ge_login_body ge) hq of
          Inl e \<Rightarrow> (error_of ge 400, g)
        | Inr body \<Rightarrow>
            (case login (ge_env ge) (ge_io ge 0, ge_io ge 1) (ge_gate ge 0, ge_gate ge 1) (ge_kdf ge) (ge_between ge)
                    \<lparr>rq_username = lb_username body, rq_password = lb_password body, rq_code = lb_code body, rq_source = login_source (ge_ip_text ge) a,
                     rq_ip = ge_ip_text ge a, rq_browser = browser, rq_now = ge_now ge 0\<rparr> (gw_auth g) of
               (res, st) \<Rightarrow>
                 let g = g\<lparr>gw_auth := st\<rparr> in
                 (case lr_status res of
                    LTotpRequired \<Rightarrow> json_of ge VTotpRequired g
                  | LSucceeded \<Rightarrow>
                      (case json_of ge VOk g of
                         (r, g) \<Rightarrow>
                           (case Option.bind (lr_token res) (\<lambda>t. case set_cookie (ge_env ge) (Some t) r of Inl e \<Rightarrow> None | Inr r \<Rightarrow> Some r) of
                              Some r \<Rightarrow> (r, g)
                            | None \<Rightarrow> (error_of ge 503, g)))
                  | _ \<Rightarrow> (error_of ge 401, g))))"

section \<open>The routes of a login\<close>

definition logout_route :: "'w gateway_env \<Rightarrow> string \<Rightarrow> 'w gateway \<Rightarrow> reply \<times> 'w gateway" where
  "logout_route ge token g =
     (case logout (ge_env ge) (ge_io ge 1) (ge_gate ge 1) token (gw_auth g) of
        (Inl e, st) \<Rightarrow> (error_of ge 503, g\<lparr>gw_auth := st\<rparr>)
      | (Inr _, st) \<Rightarrow> (case json_of ge VOk (g\<lparr>gw_auth := st\<rparr>) of (r, g) \<Rightarrow> (cookie_or ge None r, g)))"

definition sessions_route :: "'w gateway_env \<Rightarrow> http_request \<Rightarrow> string \<Rightarrow> session_access \<Rightarrow> bool \<Rightarrow> (session_info list \<Rightarrow> session_info list) \<Rightarrow> 'w gateway \<Rightarrow> reply \<times> 'w gateway" where
  \<comment> \<open>the last arguments: whether the login was cancelled while labels were looked up, and the labels\<close>
  "sessions_route ge hq token who cancelled labels g =
     (case list_sessions_checked (ge_env ge) (ge_io ge 1) (ge_gate ge 1) token (ge_now ge 1) (gw_auth g) of
        (Inl e, st) \<Rightarrow> (error_of ge 503, g\<lparr>gw_auth := st\<rparr>)
      | (Inr None, st) \<Rightarrow> (error_of ge 401, g\<lparr>gw_auth := st\<rparr>)
      | (Inr (Some sessions), st) \<Rightarrow>
          if cancelled then (error_of ge 401, g\<lparr>gw_auth := st\<rparr>)
          else (case revalidate ge 2 token (g\<lparr>gw_auth := st\<rparr>) of
                  (Inl status, g) \<Rightarrow> (error_of ge status, g)
                | (Inr _, g) \<Rightarrow> json_of ge (VSessions (labels sessions)) g))"

definition revoke_route :: "'w gateway_env \<Rightarrow> http_request \<Rightarrow> string \<Rightarrow> 'w gateway \<Rightarrow> reply \<times> 'w gateway" where
  "revoke_route ge hq token g =
     (case decode_json (ge_revoke_body ge) hq of
        Inl e \<Rightarrow> (error_of ge 400, g)
      | Inr ident \<Rightarrow>
          (case revoke (ge_env ge) (ge_io ge 1) (ge_gate ge 1) token ident (ge_now ge 1) (gw_auth g) of
             (Inr current, st) \<Rightarrow>
               (case json_of ge VOk (g\<lparr>gw_auth := st\<rparr>) of (r, g) \<Rightarrow> (if current then cookie_or ge None r else r, g))
           | (Inl e, st) \<Rightarrow> (error_of ge (if e = ASessionNotFound then 404 else 503), g\<lparr>gw_auth := st\<rparr>)))"

definition security_route :: "'w gateway_env \<Rightarrow> http_request \<Rightarrow> string \<Rightarrow> 'w gateway \<Rightarrow> reply \<times> 'w gateway" where
  "security_route ge hq token g =
     (if hq_method hq = ''GET'' then
        (case totp_enabled_checked (ge_env ge) (ge_io ge 1) (ge_gate ge 1) token (ge_now ge 1) (gw_auth g) of
           (Inl e, st) \<Rightarrow> (error_of ge 503, g\<lparr>gw_auth := st\<rparr>)
         | (Inr None, st) \<Rightarrow> (error_of ge 401, g\<lparr>gw_auth := st\<rparr>)
         | (Inr (Some enabled), st) \<Rightarrow> json_of ge (VTotpEnabled enabled) (g\<lparr>gw_auth := st\<rparr>))
      else if hq_method hq = ''POST'' then
        (case decode_json (ge_security_body ge) hq of
           Inl e \<Rightarrow> (error_of ge 400, g)
         | Inr body \<Rightarrow>
             (case sb_totp_enabled body of
                None \<Rightarrow> (error_of ge 400, g)
              | Some enabled \<Rightarrow>
                  (case set_totp_enabled (ge_env ge) (ge_io ge 1, ge_io ge 2) (ge_gate ge 1, ge_gate ge 2) (ge_kdf ge) (ge_now ge 2) (ge_between ge)
                          \<lparr>sq_token = token, sq_password = sb_password body, sq_code = sb_code body, sq_enabled = enabled, sq_now = ge_now ge 1\<rparr> (gw_auth g) of
                     (status, st) \<Rightarrow>
                       let g = g\<lparr>gw_auth := st\<rparr> in
                       (case status of
                          SOk \<Rightarrow> json_of ge (VTotpEnabled enabled) g
                        | SForbidden \<Rightarrow> (error_of ge 403, g)
                        | SRateLimited \<Rightarrow> (error_of ge 429, g)
                        | SStorageUnavailable \<Rightarrow> (error_of ge 503, g)
                        | SStaleSession \<Rightarrow> (error_of ge 401, g)))))
      else (error_of ge 405, g))"

definition preferences_reply :: "'w gateway_env \<Rightarrow> string \<Rightarrow> (preference_error, preferences) result \<Rightarrow> 'w gateway \<Rightarrow> reply \<times> 'w gateway" where
  "preferences_reply ge token res g =
     (case res of
        Inl PInvalid \<Rightarrow> (error_of ge 400, g)
      | Inl PConflict \<Rightarrow> (error_of ge 409, g)
      | Inl PUnauthorized \<Rightarrow> (error_of ge 401, g)
      | Inl _ \<Rightarrow> (error_of ge 503, g)
      | Inr v \<Rightarrow>
          (case revalidate ge 2 token g of
             (Inl status, g) \<Rightarrow> (error_of ge status, g)
           | (Inr _, g) \<Rightarrow> json_of ge (VPreferences v) g))"

definition preferences_route :: "'w gateway_env \<Rightarrow> http_request \<Rightarrow> string \<Rightarrow> session_access \<Rightarrow> 'w gateway \<Rightarrow> reply \<times> 'w gateway" where
  "preferences_route ge hq token who g =
     (case gw_preferences g of
        None \<Rightarrow> (error_of ge 503, g)
      | Some store \<Rightarrow>
          if hq_method hq = ''GET'' then
            (case pref_store_get (ge_env ge) (pi_readable (ge_pref_io ge)) (ge_pref_free ge) (ge_pref_admitted ge) who store of
               (res, store) \<Rightarrow> preferences_reply ge token res (g\<lparr>gw_preferences := Some store\<rparr>))
          else if hq_method hq = ''POST'' then
            (case decode_json (\<lambda>raw. Option.bind (ae_json (ge_env ge) raw) preferences_of_json) hq of
               Inl e \<Rightarrow> (error_of ge 400, g)
             | Inr v \<Rightarrow>
                 if \<not> preferences_valid v then (error_of ge 400, g)
                 else (case revalidate ge 1 token g of
                         (Inl status, g) \<Rightarrow> (error_of ge status, g)
                       | (Inr _, g) \<Rightarrow>
                           (case pref_store_set (ge_env ge) (ge_pref_io ge) (ge_pref_admitted ge) who v store of
                              (res, store) \<Rightarrow> preferences_reply ge token res (g\<lparr>gw_preferences := Some store\<rparr>))))
          else (error_of ge 405, g))"

definition session_routes :: "'w gateway_env \<Rightarrow> bool \<Rightarrow> (session_info list \<Rightarrow> session_info list) \<Rightarrow> http_request \<Rightarrow> string \<Rightarrow> session_access \<Rightarrow> 'w gateway \<Rightarrow> reply \<times> 'w gateway" where
  \<comment> \<open>the match on the path, once the login is known and the request is the browser's own\<close>
  "session_routes ge cancelled labels hq token who g =
     (let path = hq_path hq; m = hq_method hq; other = (\<lambda>rt. other_route ge rt hq (Some (token, who)) g) in
      if path = ''/api/terminal'' \<and> m = ''GET'' then other RTerminal
      else if path = ''/api/upload'' \<and> m = ''GET'' then other RUpload
      else if path = ''/api/session'' \<and> m = ''GET'' then json_of ge (VSession (sa_username who) (sa_profile who) (sa_csrf who) (sa_id who)) g
      else if path = ''/api/logout'' \<and> m = ''POST'' then logout_route ge token g
      else if path = ''/api/sessions'' \<and> m = ''GET'' then sessions_route ge hq token who cancelled labels g
      else if path = ''/api/sessions/revoke'' \<and> m = ''POST'' then revoke_route ge hq token g
      else if path = ''/api/account/security'' then security_route ge hq token g
      else if path = ''/api/account/usage'' then preferences_route ge hq token who g
      else if path = ''/api/state'' \<and> m = ''GET'' then other RState
      else if path = ''/api/state'' then (error_of ge 405, g)
      else if path = ''/api/completions/read'' then other RCompletionRead
      else if path = ''/api/action'' then other RAction
      else if path = ''/api/diagnostics'' then other RDiagnostics
      else if path \<in> {''/api/session'', ''/api/logout'', ''/api/sessions'', ''/api/sessions/revoke''} then (error_of ge 405, g)
      else if path \<in> {''/api/push'', ''/api/push/subscribe'', ''/api/push/unsubscribe'', ''/api/push/presence'', ''/api/push/test''} then other RPush
      else if path \<in> {''/api/terminal'', ''/api/upload''} then (error_of ge 503, g)
      else (error_of ge 404, g))"

definition gateway_handle :: "'w gateway_env \<Rightarrow> bool \<Rightarrow> (session_info list \<Rightarrow> session_info list) \<Rightarrow> http_request \<Rightarrow> 'w gateway \<Rightarrow> reply \<times> 'w gateway" where
  "gateway_handle ge cancelled labels hq g =
     (let path = hq_path hq; m = hq_method hq in
      if path = ''/api/setup/status'' then (if m = ''GET'' then json_of ge (VSetupRequired False) g else setup_error ge 405 g)
      else if path \<in> {''/api/setup/begin'', ''/api/setup/complete''} then setup_error ge 409 g
      else if path = ''/connect'' then other_route ge RConnect hq None g
      else if path = ''/api/login'' then login_route ge hq g
      else if \<not> has_prefix path ''/api/'' then other_route ge RAssets hq None g
      else case session_token (ge_to_str ge) (ge_env ge) (hq_headers hq) of
        None \<Rightarrow> (error_of ge 401, g)
      | Some token \<Rightarrow>
          (case access (ge_env ge) (ge_io ge 0) (ge_gate ge 0) token False (ge_now ge 0) (gw_auth g) of
             (Inr (Some who), st) \<Rightarrow>
               let g = g\<lparr>gw_auth := st\<rparr> in
               if m \<noteq> ''GET'' \<and> \<not> valid_csrf (hq_headers hq) (sa_csrf who) then (error_of ge 403, g)
               else session_routes ge cancelled labels hq token who g
           | (Inr None, st) \<Rightarrow> (error_of ge 401, g\<lparr>gw_auth := st\<rparr>)
           | (Inl e, st) \<Rightarrow> (error_of ge 503, g\<lparr>gw_auth := st\<rparr>)))"

end
