(* ===== verification/Http_Auth_Properties.thy ===== *)
theory Http_Auth_Properties
  imports Http_Auth
begin

text \<open>
  What the boundary and the routes promise together: a request another site makes a browser send does
  nothing, a login is counted under an address its sender does not choose, and the encoded replies share
  a fixed budget.
\<close>

section \<open>Serving\<close>

definition gateway_serve ::
  "'w gateway_env \<Rightarrow> policy \<Rightarrow> bool \<Rightarrow> bool \<Rightarrow> (session_info list \<Rightarrow> session_info list) \<Rightarrow> http_request \<Rightarrow> 'w gateway \<Rightarrow> reply \<times> 'w gateway" where
  \<comment> \<open>\<open>late\<close>: the reply comes after the deadline of the request\<close>
  "gateway_serve ge p late cancelled labels hq g =
     serve_request (ge_reason ge) p (\<lambda>hq g. case gateway_handle ge cancelled labels hq g of (r, g) \<Rightarrow> (if late then None else Some r, g)) hq g"

lemma served_state:
  "snd (gateway_serve ge p late cancelled labels hq g) = (if is_Ok (preflight p hq) then snd (gateway_handle ge cancelled labels hq g) else g)"
  by (auto simp: gateway_serve_def serve_request_def split: sum.split prod.split option.split)

lemma access_live:
  assumes "access env io gate token False now st = (Ok (Some who), st')"
  shows "sa_csrf who = csrf_token env token \<and> (\<exists>x. (token_hash env token, x) \<in> set (as_sessions (au_state st)) \<and> now < ls_expires x)"
proof -
  obtain s where w: "access_work env io token False now (au_state st) = (Some (Ok (Some who)), s)"
    using assms by (auto simp: access_def flattened_def auth_transact_def and_then_Ok_iff split: if_splits gate.splits option.splits prod.splits)
  obtain s1 where pr: "prune env io now (au_state st) = (Ok (), s1)" and a: "access_answer env token s1 = (Some (Ok (Some who)), s)"
    using w by (auto simp: access_work_def with_pruned_def Let_def split: prod.splits sum.splits option.splits)
  have sub: "e \<in> set (as_sessions (au_state st)) \<and> now < ls_expires (snd e)" if "e \<in> set (as_sessions s1)" for e
    using pr that
    by (auto simp: prune_def install_sessions_def list_ex_iff Let_def split: if_splits prod.splits bool.splits)
  from a show ?thesis
    using sub by (fastforce simp: access_answer_def access_of_def split: option.splits dest!: map_of_SomeD)
qed

text \<open>
  What a look at a login may change of the store: the logins that have expired are removed, from memory and from the file, and their
  channels cancelled. If the file cannot be written, or the lock was poisoned by a panic, the store fails; that too leaves the accounts and the unexpired
  logins as they are.
\<close>

definition unexpired_at :: "int \<Rightarrow> auth_state \<Rightarrow> sessions" where
  "unexpired_at now s = filter (\<lambda>e. now < ls_expires (snd e)) (as_sessions s)"

definition only_expired :: "auth_env \<Rightarrow> gate \<Rightarrow> int \<Rightarrow> auth_store \<Rightarrow> auth_store \<Rightarrow> bool" where
  "only_expired env gate now st st' \<longleftrightarrow> (let s = au_state st; s' = au_state st' in
     as_accounts s' = as_accounts s \<and> as_attempts s' = as_attempts s \<and> as_security_attempts s' = as_security_attempts s \<and>
     as_backups s' = as_backups s \<and> au_closed st' = au_closed st \<and>
     (as_sessions s' = as_sessions s \<or> as_sessions s' = unexpired_at now s) \<and>
     (as_dir s' = as_dir s \<or> as_dir s' = (as_dir s)(as_sessions_path s \<mapsto> sessions_json env (unexpired_at now s))) \<and>
     (if as_storage_failed s' \<and> \<not> as_storage_failed s then gate = GatePoisoned \<or> unexpired_at now s \<noteq> as_sessions s
      else au_registry_closed st \<or> gate = GatePoisoned \<or>
        as_cancelled s' \<subseteq> as_cancelled s \<union> ls_cancel ` snd ` (set (as_sessions s) - set (unexpired_at now s))))"

lemma only_expired_refl [simp]: "only_expired env gate now st st"
  by (simp add: only_expired_def Let_def)

lemma prune_effect:
  assumes "prune env io now s = (res, s')"
  shows "as_accounts s' = as_accounts s \<and> as_attempts s' = as_attempts s \<and> as_security_attempts s' = as_security_attempts s \<and> as_backups s' = as_backups s \<and>
    (as_sessions s' = as_sessions s \<or> as_sessions s' = unexpired_at now s) \<and>
    (as_dir s' = as_dir s \<or> as_dir s' = (as_dir s)(as_sessions_path s \<mapsto> sessions_json env (unexpired_at now s))) \<and>
    (if as_storage_failed s' \<and> \<not> as_storage_failed s then unexpired_at now s \<noteq> as_sessions s
     else as_cancelled s' \<subseteq> as_cancelled s \<union> ls_cancel ` snd ` (set (as_sessions s) - set (unexpired_at now s)))"
proof (cases "as_storage_failed s \<or> \<not> list_ex (\<lambda>e. ls_expires (snd e) \<le> now) (as_sessions s)")
  case True
  then have "s' = s" using assms by (auto simp: prune_def split: if_splits)
  then show ?thesis by simp
next
  case False
  obtain ok s1 where sv: "save_sessions env io 0 (unexpired_at now s) s = (ok, s1)" by fastforce
  have differ: "unexpired_at now s \<noteq> as_sessions s"
    using False by (force simp: unexpired_at_def filter_id_conv list_ex_iff)
  obtain wrote dir where w: "write_sessions env (ai_save io 0) (as_dir s) (as_sessions_path s) (unexpired_at now s) = (wrote, dir)" by fastforce
  have dir: "dir = as_dir s \<or> dir = (as_dir s)(as_sessions_path s \<mapsto> sessions_json env (unexpired_at now s))"
    using w by (auto simp: write_sessions_def write_atomic_def Let_def split: sum.splits read_error.splits if_splits write_result.splits)
  have pr: "prune env io now s = (if ok then (Ok (), install_sessions (unexpired_at now s) s1) else (Err AStorageUnavailable, s1))"
    using False sv by (simp add: prune_def unexpired_at_def Let_def)
  show ?thesis
  proof (cases ok)
    case True
    then have s1: "s1 = s\<lparr>as_dir := dir\<rparr>" using sv w by (cases wrote) (simp_all add: save_sessions_def)
    have "set (cells (filter (\<lambda>e. map_of (unexpired_at now s) (fst e) = None) (as_sessions s))) \<subseteq>
        ls_cancel ` snd ` (set (as_sessions s) - set (unexpired_at now s))"
      by (auto simp: cells_def map_of_eq_None_iff image_iff)
    moreover have "s' = install_sessions (unexpired_at now s) s1" using pr assms True by simp
    ultimately show ?thesis using False differ dir by (auto simp: s1 install_sessions_def cancel_cells_def)
  next
    case failed: False
    then have "s1 = fail_storage (s\<lparr>as_dir := dir\<rparr>)" using sv w by (cases wrote) (simp_all add: save_sessions_def)
    moreover have "s' = s1" using pr assms failed by simp
    ultimately show ?thesis using False differ dir by (simp add: fail_storage_def cancel_cells_def)
  qed
qed

lemma access_only_expired: "only_expired env gate now st (snd (access env io gate token False now st))"
proof (cases "au_closed st \<or> gate \<noteq> GateOpen")
  case True
  then show ?thesis
    by (cases gate) (auto simp: access_def flattened_def auth_transact_def only_expired_def cancel_all_def fail_storage_def cancel_cells_def Let_def)
next
  case False
  obtain res s1 where pr: "prune env io now (au_state st) = (res, s1)" by fastforce
  have "\<exists>v. access_work env io token False now (au_state st) = (Some v, s1)"
    using pr by (cases res; cases "map_of (as_sessions s1) (token_hash env token)") (simp_all add: access_work_def with_pruned_def access_answer_def Let_def)
  then obtain v where "access_work env io token False now (au_state st) = (Some v, s1)" ..
  then have "snd (access env io gate token False now st) = registry_sync (st\<lparr>au_state := s1\<rparr>)"
    using False by (cases gate) (simp_all add: access_def flattened_def auth_transact_def)
  then show ?thesis
    using prune_effect [OF pr] by (auto simp: only_expired_def registry_sync_def cancel_cells_def Let_def split: if_splits)
qed

lemma setup_error_state [simp]: "gw_auth (snd (setup_error ge status g)) = gw_auth g" "gw_preferences (snd (setup_error ge status g)) = gw_preferences g"
    "gw_rest (snd (setup_error ge status g)) = gw_rest g"
  by (simp_all add: setup_error_def json_of_def split: prod.split)

lemma json_of_state [simp]: "gw_auth (snd (json_of ge v g)) = gw_auth g" "gw_preferences (snd (json_of ge v g)) = gw_preferences g"
    "gw_rest (snd (json_of ge v g)) = gw_rest g"
  by (simp_all add: json_of_def split: prod.split)

definition setup_paths :: "string set" where
  "setup_paths = {''/api/setup/status'', ''/api/setup/begin'', ''/api/setup/complete''}"

text \<open>
  C3: a request that another site makes the browser send does nothing. Take any request for the programming
  interface that could change something: one with a method other than GET, or one that
  opens a terminal or an upload. If it does not name the gateway's own origin, once, the gateway is as it was. A login apart, it also
  carries one session cookie of a login that is there and has not expired and, unless it is a GET that opens a socket, the token against
  forgery that belongs to this cookie; or else no route has run: the rest of the gateway and the settings are as they were, so is the
  budget of replies but for the fixed answer of the paths of the enrolment, and of the accounts and logins at most expired logins are gone.
\<close>

theorem forged_requests_inert:
  assumes "gateway_serve ge p late cancelled labels hq g = (r, g')" and "has_prefix (hq_path hq) ''/api/''"
    and "hq_method hq \<noteq> ''GET'' \<or> hq_path hq \<in> {''/api/terminal'', ''/api/upload''}"
  shows "(single (hq_headers hq) ''origin'' = Some (po_origin p) \<or> g' = g) \<and>
    (hq_path hq = ''/api/login'' \<or>
     (\<exists>token x. session_token (ge_to_str ge) (ge_env ge) (hq_headers hq) = Some token \<and>
        (token_hash (ge_env ge) token, x) \<in> set (as_sessions (au_state (gw_auth g))) \<and> ge_now ge 0 < ls_expires x \<and>
        (hq_method hq = ''GET'' \<or> valid_csrf (hq_headers hq) (csrf_token (ge_env ge) token))) \<or>
     gw_rest g' = gw_rest g \<and> gw_preferences g' = gw_preferences g \<and> (hq_path hq \<in> setup_paths \<or> gw_budget g' = gw_budget g) \<and>
       only_expired (ge_env ge) (ge_gate ge 0) (ge_now ge 0) (gw_auth g) (gw_auth g'))"
proof (cases "is_Ok (preflight p hq)")
  case False
  then show ?thesis using served_state [of ge p late cancelled labels hq g] assms(1) by simp
next
  case True
  have conn: "hq_path hq \<noteq> ''/connect''" using assms(2) by (auto simp: has_prefix_def)
  have origin: "single (hq_headers hq) ''origin'' = Some (po_origin p)"
    using True assms(2,3) conn by (auto simp: preflight_def Let_def split: if_splits)
  have g': "g' = snd (gateway_handle ge cancelled labels hq g)" using served_state [of ge p late cancelled labels hq g] assms(1) True by simp
  show ?thesis
  proof (cases "hq_path hq \<in> setup_paths \<or> hq_path hq = ''/api/login''")
    case True
    then show ?thesis using origin unfolding g' by (auto simp: gateway_handle_def setup_paths_def Let_def)
  next
    case routed: False
    show ?thesis
    proof (cases "session_token (ge_to_str ge) (ge_env ge) (hq_headers hq)")
      case None
      then show ?thesis using routed conn assms(2) origin unfolding g' by (simp add: gateway_handle_def setup_paths_def)
    next
      case (Some token)
      obtain res st where a: "access (ge_env ge) (ge_io ge 0) (ge_gate ge 0) token False (ge_now ge 0) (gw_auth g) = (res, st)" by fastforce
      show ?thesis
      proof (cases "\<exists>who. res = Ok (Some who) \<and> (hq_method hq = ''GET'' \<or> valid_csrf (hq_headers hq) (sa_csrf who))")
        case True
        then obtain who where who: "res = Ok (Some who)" "hq_method hq = ''GET'' \<or> valid_csrf (hq_headers hq) (sa_csrf who)" by blast
        from access_live [OF a [unfolded who(1)]] who(2) origin Some show ?thesis by auto
      next
        case False
        have "g' = g\<lparr>gw_auth := st\<rparr>"
        proof (cases res)
          case (Inl e)
          then show ?thesis using routed conn assms(2) Some a unfolding g' by (simp add: gateway_handle_def setup_paths_def)
        next
          case (Inr found)
          then show ?thesis using routed conn assms(2) Some a False unfolding g' by (cases found) (simp_all add: gateway_handle_def setup_paths_def)
        qed
        then show ?thesis
          using origin access_only_expired [of "ge_env ge" "ge_gate ge 0" "ge_now ge 0" "gw_auth g" "ge_io ge 0" token] a by simp
      qed
    qed
  qed
qed

section \<open>The address of a login\<close>

text \<open>
  What a sender writes into a header changes the address its logins are counted under only if it is the
  proxy on the machine itself, and the addresses of one IPv6 network of 64 bits are counted as one.
\<close>

lemma request_ip_pinned: "\<not> is_loopback peer \<Longrightarrow> request_ip parse peer h = to_canonical peer"
  by (simp add: request_ip_def)

lemma login_source_network:
  assumes "drop_bit 64 v = drop_bit 64 w" and "drop_bit 32 v \<noteq> 0xFFFF" and "drop_bit 32 w \<noteq> 0xFFFF"
  shows "login_source print (V6 v) = login_source print (V6 w)"
  using assms by (simp add: login_source_def to_canonical_def)

section \<open>The reply budget\<close>

lemma power_of_two_from_le: "0 < p \<Longrightarrow> n \<le> power_of_two_from p n"
proof (induction p n rule: power_of_two_from.induct)
  case (1 p n)
  then show ?case by (cases "n \<le> p") (simp_all add: power_of_two_from.simps [of p n])
qed

definition reserve_law :: "(nat \<Rightarrow> nat option) \<Rightarrow> bool" where
  \<comment> \<open>an allocation has at least the size asked for\<close>
  "reserve_law reserve \<longleftrightarrow> (\<forall>n c. reserve n = Some c \<longrightarrow> n \<le> c)"

definition buffer_ok :: "json_buffer \<Rightarrow> bool" where
  "buffer_ok b \<longleftrightarrow>
     length (jb_data b) \<le> MAX_REPLY_BYTES \<and> length (jb_data b) \<le> jb_charged b \<and>
     (jb_busy b \<or> length (jb_data b) \<le> jb_capacity b \<and> jb_capacity b \<le> jb_charged b)"

lemma buffer_new_ok: "buffer_ok buffer_new"
  by (simp add: buffer_ok_def buffer_new_def)

lemma buffer_charge_paid:
  assumes "buffer_charge capacity b rb = (ok, b', rb')" and "rb_used rb \<le> rb_limit rb"
  shows "rb_used rb' + jb_charged b = rb_used rb + jb_charged b' \<and> rb_used rb' \<le> rb_limit rb' \<and> rb_limit rb' = rb_limit rb \<and>
    jb_data b' = jb_data b \<and> jb_capacity b' = jb_capacity b \<and> jb_charged b \<le> jb_charged b' \<and>
    (if ok then jb_busy b' = jb_busy b \<and> capacity \<le> jb_charged b' else jb_busy b')"
  using assms by (auto simp: buffer_charge_def Let_def split: if_splits)

lemma buffer_write_paid:
  assumes "buffer_write reserve data b rb = (ok, b', rb')" and "rb_used rb \<le> rb_limit rb" and "buffer_ok b" and "\<not> jb_busy b" and "reserve_law reserve"
  shows "rb_used rb' + jb_charged b = rb_used rb + jb_charged b' \<and> rb_used rb' \<le> rb_limit rb' \<and> rb_limit rb' = rb_limit rb \<and> buffer_ok b' \<and>
    (if ok then \<not> jb_busy b' \<and> jb_data b' = jb_data b @ data else jb_data b' = jb_data b)"
proof -
  let ?needed = "length (jb_data b) + length data"
  let ?target = "min (next_power_of_two ?needed) MAX_REPLY_BYTES"
  have old: "length (jb_data b) \<le> MAX_REPLY_BYTES" "length (jb_data b) \<le> jb_capacity b" "jb_capacity b \<le> jb_charged b"
    using assms(3,4) by (auto simp: buffer_ok_def)
  show ?thesis
  proof (cases "MAX_REPLY_BYTES - length (jb_data b) < length data")
    case True
    then show ?thesis using assms(1-4) by (simp add: buffer_write_def)
  next
    case fits: False
    show ?thesis
    proof (cases "?needed \<le> jb_capacity b")
      case True
      then show ?thesis using assms(1,2,4) fits old by (auto simp: buffer_write_def buffer_append_def buffer_ok_def)
    next
      case grow: False
      obtain ok1 b1 rb1 where c1: "buffer_charge ?target b rb = (ok1, b1, rb1)" by (metis prod_cases3)
      note p1 = buffer_charge_paid [OF c1 assms(2)]
      show ?thesis
      proof (cases "ok1 \<and> reserve ?target \<noteq> None")
        case False
        then have "ok = False \<and> b' = b1 \<and> rb' = rb1"
          using assms(1) fits grow c1 by (auto simp: buffer_write_def split: bool.splits)
        then show ?thesis using p1 old assms(4) by (auto simp: buffer_ok_def split: if_splits)
      next
        case True
        then obtain cap where cap: "reserve ?target = Some cap" by blast
        have target: "?needed \<le> ?target" "?target \<le> cap"
          using fits old(1) power_of_two_from_le [of 1 ?needed] assms(5) cap by (auto simp: next_power_of_two_def reserve_law_def)
        let ?b2 = "b1\<lparr>jb_capacity := cap\<rparr>"
        have w: "buffer_write reserve data b rb =
            (if cap \<le> jb_charged ?b2 then (True, buffer_append data ?b2, rb1)
             else case buffer_charge cap ?b2 rb1 of (False, b, rb) \<Rightarrow> (False, b, rb) | (True, b, rb) \<Rightarrow> (True, buffer_append data b, rb))"
          using fits grow c1 True cap by (simp add: buffer_write_def)
        show ?thesis
        proof (cases "cap \<le> jb_charged ?b2")
          case paid: True
          then have "ok = True \<and> b' = buffer_append data ?b2 \<and> rb' = rb1" using assms(1) w by simp
          then show ?thesis using p1 True paid target fits assms(4) by (auto simp: buffer_append_def buffer_ok_def)
        next
          case more: False
          obtain ok2 b3 rb3 where c2: "buffer_charge cap ?b2 rb1 = (ok2, b3, rb3)" by (metis prod_cases3)
          have "rb_used rb1 \<le> rb_limit rb1" using p1 by simp
          note p2 = buffer_charge_paid [OF c2 this]
          have eq: "ok = ok2 \<and> b' = (if ok2 then buffer_append data b3 else b3) \<and> rb' = rb3"
            using assms(1) w more c2 by (cases ok2) auto
          show ?thesis using eq p1 p2 True target fits old assms(4) by (cases ok2) (auto simp: buffer_append_def buffer_ok_def)
        qed
      qed
    qed
  qed
qed

lemma buffer_writes_paid:
  assumes "buffer_writes reserve pieces b rb = (ok, b', rb')" and "rb_used rb \<le> rb_limit rb" and "buffer_ok b" and "\<not> jb_busy b" and "reserve_law reserve"
  shows "rb_used rb' + jb_charged b = rb_used rb + jb_charged b' \<and> rb_used rb' \<le> rb_limit rb' \<and> rb_limit rb' = rb_limit rb \<and> buffer_ok b' \<and>
    (ok \<longrightarrow> jb_data b' = jb_data b @ concat pieces)"
  using assms(1-4)
proof (induction pieces arbitrary: b rb)
  case (Cons piece rest)
  obtain ok1 b1 rb1 where w: "buffer_write reserve piece b rb = (ok1, b1, rb1)" by (metis prod_cases3)
  note one = buffer_write_paid [OF w Cons.prems(2-4) assms(5)]
  show ?case
  proof (cases ok1)
    case True
    then have "buffer_writes reserve rest b1 rb1 = (ok, b', rb')" using Cons.prems(1) w by simp
    from Cons.IH [OF this] one True show ?thesis by auto
  next
    case False
    then show ?thesis using Cons.prems(1) w one by auto
  qed
qed simp

text \<open>Encoders and replies in flight, over the one shared counter, interleaved piece by piece.\<close>

inductive reply_step :: "(nat \<Rightarrow> nat option) \<Rightarrow> reply_budget \<times> json_buffer list \<Rightarrow> reply_budget \<times> json_buffer list \<Rightarrow> bool" for reserve where
  started: "reply_step reserve (rb, live) (rb, live @ [buffer_new])"
| written: "reply_step reserve (rb, live) (rb', live[i := b])"
    if "i < length live" and "\<not> jb_busy (live ! i)" and "buffer_write reserve piece (live ! i) rb = (ok, b, rb')"
| dropped: "reply_step reserve (rb, live) (buffer_drop (live ! i) rb, take i live @ drop (Suc i) live)" if "i < length live"

definition replies_ok :: "reply_budget \<times> json_buffer list \<Rightarrow> bool" where
  "replies_ok s \<longleftrightarrow> (case s of (rb, live) \<Rightarrow>
     rb_limit rb = MAX_RETAINED_JSON_BYTES \<and> rb_used rb = sum_list (map jb_charged live) \<and> rb_used rb \<le> MAX_RETAINED_JSON_BYTES \<and>
     (\<forall>b \<in> set live. buffer_ok b))"

lemma sum_list_at: "i < length xs \<Longrightarrow> sum_list (map f xs) = sum_list (map f (take i xs @ drop (Suc i) xs)) + (f (xs ! i) :: nat)"
  by (subst id_take_nth_drop [of i xs]) simp_all

lemma reply_step_ok:
  assumes "reply_step reserve s s'" and "reserve_law reserve" and "replies_ok s"
  shows "replies_ok s'"
  using assms(1)
proof cases
  case (started rb live)
  then show ?thesis using assms(3) buffer_new_ok by (auto simp: replies_ok_def buffer_new_def)
next
  case (written i live piece rb ok b rb')
  have s: "rb_limit rb = MAX_RETAINED_JSON_BYTES" "rb_used rb = sum_list (map jb_charged live)" "rb_used rb \<le> rb_limit rb" "\<forall>b \<in> set live. buffer_ok b"
    using assms(3) written(1) by (auto simp: replies_ok_def)
  have "buffer_ok (live ! i)" using s(4) written(3) by simp
  note w = buffer_write_paid [OF written(5) s(3) this written(4) assms(2)]
  have "sum_list (map jb_charged (live[i := b])) + jb_charged (live ! i) = sum_list (map jb_charged live) + jb_charged b"
    using sum_list_at [OF written(3), of jb_charged] sum_list_at [of i "live[i := b]" jb_charged] written(3) by simp
  moreover have "\<forall>b' \<in> set (live[i := b]). buffer_ok b'" using s(4) w set_update_subset_insert [of live i b] by auto
  ultimately show ?thesis using written(2) w s by (auto simp: replies_ok_def)
next
  case (dropped i live rb)
  then show ?thesis
    using assms(3) sum_list_at [OF dropped(3), of jb_charged]
    by (auto simp: replies_ok_def buffer_drop_def dest: in_set_takeD in_set_dropD)
qed

interpretation replies: step_invariant "reply_step reserve" "\<lambda>s. reserve_law reserve \<longrightarrow> replies_ok s" for reserve
  by unfold_locales (blast intro: reply_step_ok)

text \<open>
  C39: the encoded replies share 8 MiB. However the encoders of concurrent requests and the replies still
  being sent interleave, what the counter holds is exactly what they have been charged, it never exceeds
  the limit, and every byte held has been paid for. An encoder that succeeds has written all of the
  document and keeps its charge with the reply; one that fails answers with an error and leaves the
  counter as it found it.
\<close>

theorem reply_budget_exact:
  assumes "reserve_law reserve" and "(reply_step reserve)\<^sup>*\<^sup>* (\<lparr>rb_used = 0, rb_limit = MAX_RETAINED_JSON_BYTES\<rparr>, []) (rb, live)"
    and "json_with_budget reason reserve pieces rb = (r, rb')"
  shows "rb_used rb = sum_list (map jb_charged live) \<and> rb_used rb \<le> MAX_RETAINED_JSON_BYTES \<and>
    (\<forall>b \<in> set live. length (jb_data b) \<le> jb_charged b \<and> length (jb_data b) \<le> MAX_REPLY_BYTES) \<and>
    (if rp_status r = 200
     then rp_body r = concat pieces \<and> rb_used rb' = rb_used rb + rp_charged r \<and> rb_used rb' \<le> MAX_RETAINED_JSON_BYTES \<and>
       length (rp_body r) \<le> rp_charged r \<and> length (rp_body r) \<le> MAX_REPLY_BYTES
     else rp_status r \<in> {500, 503} \<and> rp_charged r = 0 \<and> rb' = rb)"
proof -
  have inv: "replies_ok (rb, live)" using replies.run_keeps [OF assms(2)] assms(1) by (simp add: replies_ok_def)
  then have lim: "rb_used rb \<le> rb_limit rb" "rb_limit rb = MAX_RETAINED_JSON_BYTES" by (simp_all add: replies_ok_def)
  obtain ok b rb1 where w: "buffer_writes reserve pieces buffer_new rb = (ok, b, rb1)" by (metis prod_cases3)
  have "\<not> jb_busy buffer_new" "jb_charged buffer_new = 0" "jb_data buffer_new = []" by (simp_all add: buffer_new_def)
  with buffer_writes_paid [OF w lim(1) buffer_new_ok _ assms(1)]
  have paid: "rb_used rb1 = rb_used rb + jb_charged b" "rb_used rb1 \<le> rb_limit rb1" "rb_limit rb1 = rb_limit rb" "buffer_ok b" "ok \<longrightarrow> jb_data b = concat pieces"
    by auto
  have "if rp_status r = 200
     then rp_body r = concat pieces \<and> rb_used rb' = rb_used rb + rp_charged r \<and> rb_used rb' \<le> MAX_RETAINED_JSON_BYTES \<and>
       length (rp_body r) \<le> rp_charged r \<and> length (rp_body r) \<le> MAX_REPLY_BYTES
     else rp_status r \<in> {500, 503} \<and> rp_charged r = 0 \<and> rb' = rb"
    using assms(3) w paid lim by (cases ok) (auto simp: json_with_budget_def secure_headers_def error_reply_def buffer_drop_def buffer_ok_def split: if_splits)
  then show ?thesis using inv by (auto simp: replies_ok_def buffer_ok_def)
qed

section \<open>Examples\<close>

definition sample_policy :: policy where
  "sample_policy = \<lparr>po_origin = ''https://hmux.example'', po_host = ''hmux.example'', po_authorization = ''Bearer x''\<rparr>"

definition forged_logout :: http_request where
  "forged_logout = \<lparr>hq_method = ''POST'', hq_path = ''/api/logout'', hq_authority = None,
     hq_headers = [(''host'', ''hmux.example''), (''origin'', ''https://evil.example''), (''cookie'', ''__Host-hmux=t'')],
     hq_size_hint = 0, hq_frames = [], hq_stalls = None\<rparr>"

definition empty_auth_state :: auth_state where
  "empty_auth_state = \<lparr>as_path = [], as_sessions_path = [], as_accounts = [], as_sessions = [], as_attempts = [], as_security_attempts = [],
     as_storage_failed = False, as_dir = Map.empty, as_backups = None, as_cancelled = {}, as_next_cell = 0\<rparr>"

definition sample_gateway :: "nat gateway" where
  "sample_gateway = \<lparr>gw_auth = \<lparr>au_state = empty_auth_state, au_closed = False, au_registry_closed = False, au_registered = []\<rparr>,
     gw_preferences = None, gw_budget = \<lparr>rb_used = 0, rb_limit = MAX_RETAINED_JSON_BYTES\<rparr>, gw_rest = 7\<rparr>"

theorem forged_requests_inert_witness:
  "\<forall>ge late cancelled labels. \<exists>r. gateway_serve ge sample_policy late cancelled labels forged_logout sample_gateway = (r, sample_gateway)"
proof (intro allI)
  fix ge :: "nat gateway_env" and late cancelled labels
  obtain r g' where s: "gateway_serve ge sample_policy late cancelled labels forged_logout sample_gateway = (r, g')" by fastforce
  have "has_prefix (hq_path forged_logout) ''/api/''" "hq_method forged_logout \<noteq> ''GET''"
    by (simp_all add: forged_logout_def has_prefix_def)
  moreover have "single (hq_headers forged_logout) ''origin'' \<noteq> Some (po_origin sample_policy)"
    by (simp add: forged_logout_def sample_policy_def single_def get_all_def)
  ultimately have "g' = sample_gateway" using forged_requests_inert [OF s] by auto
  then show "\<exists>r. gateway_serve ge sample_policy late cancelled labels forged_logout sample_gateway = (r, sample_gateway)"
    using s by blast
qed

theorem reply_budget_exact_witness:
  "\<exists>r rb'. json_with_budget (\<lambda>_. None) Some [''tr'', ''ue''] \<lparr>rb_used = 0, rb_limit = MAX_RETAINED_JSON_BYTES\<rparr> = (r, rb') \<and>
     rp_status r = 200 \<and> rp_body r = ''true'' \<and> rb_used rb' = rp_charged r \<and> 4 \<le> rp_charged r"
proof -
  let ?rb = "\<lparr>rb_used = 0, rb_limit = MAX_RETAINED_JSON_BYTES\<rparr>"
  obtain r rb' where j: "json_with_budget (\<lambda>_. None) Some [''tr'', ''ue''] ?rb = (r, rb')" by fastforce
  have two: "next_power_of_two 2 = 2" "next_power_of_two 4 = 4" by (simp_all add: next_power_of_two_def power_of_two_from.simps)
  have "fst (buffer_writes Some [''tr'', ''ue''] buffer_new ?rb)"
    using two by (simp add: buffer_write_def buffer_new_def buffer_charge_def buffer_append_def limits Let_def)
  then have "rp_status r = 200"
    using j by (auto simp: json_with_budget_def secure_headers_def split: prod.splits bool.splits)
  moreover have "reserve_law Some" by (simp add: reserve_law_def)
  ultimately show ?thesis
    using reply_budget_exact [OF _ rtranclp.rtrancl_refl j] j by auto
qed

end
