(* ===== verification/Diagnostics.thy ===== *)
theory Diagnostics
  imports Http_Boundary Usage_Preferences
begin

text \<open>
  The diagnostics browsers send, \<open>hmux-gateway/src/diagnostics.rs\<close> and \<open>diagnostic_model.rs\<close>: the
  closed vocabulary of an event, the decoding of batches and of the file, the ring of records with
  its limits per account and in all, the rate per login, and the task that saves the ring.
\<close>

definition DIAG_LIMIT :: nat where "DIAG_LIMIT = 2048"
definition ACCOUNT_LIMIT :: nat where "ACCOUNT_LIMIT = 256"
definition DIAG_DISK_BYTES :: nat where "DIAG_DISK_BYTES = 2097152"
definition TTL_MS :: int where "TTL_MS = 604800000"
definition RATE_LIMIT :: nat where "RATE_LIMIT = 1024"
definition BATCHES :: nat where "BATCHES = 6"
definition BATCH_EVENTS :: nat where "BATCH_EVENTS = 20"

lemmas diagnostic_limits [limits] = DIAG_LIMIT_def ACCOUNT_LIMIT_def DIAG_DISK_BYTES_def TTL_MS_def RATE_LIMIT_def BATCHES_def BATCH_EVENTS_def

text \<open>A point in time (\<open>DateTime<Utc>\<close>) is the number of nanoseconds since 1970.\<close>

definition timestamp_millis :: "int \<Rightarrow> int" where
  "timestamp_millis t = t div 1000000"

definition ms :: "int \<Rightarrow> int" where
  "ms n = n * 1000000"

definition saturate :: "int \<Rightarrow> int" where
  "saturate i = max (- (2 ^ 63)) (min i (2 ^ 63 - 1))"

datatype diag_error = DInvalid | DRateLimited | DBusy | DUnavailable | DUnauthorized

section \<open>Labels\<close>

datatype diag_kind = EmptyKind | TerminalFailed | TerminalRecovered | ApiFailed | Offline | Resume | RuntimeError | UnhandledRejection

datatype diag_reason = EmptyReason | RNetwork | RTimeout | RLimit | RUnavailable | OutputOverflow | RProtocol | RHttp | TypeError
  | RangeError | ReferenceError | SyntaxError | RError | RUnknown

datatype diag_route = EmptyRoute | RouteSession | RouteState | RouteAction | RouteSessions | RouteAccount | RoutePush | RouteUpload | RouteOther

fun kind_label :: "diag_kind \<Rightarrow> string" where
  "kind_label EmptyKind = ''''"
| "kind_label TerminalFailed = ''terminal-failed''"
| "kind_label TerminalRecovered = ''terminal-recovered''"
| "kind_label ApiFailed = ''api-failed''"
| "kind_label Offline = ''offline''"
| "kind_label Resume = ''resume''"
| "kind_label RuntimeError = ''runtime-error''"
| "kind_label UnhandledRejection = ''unhandled-rejection''"

fun reason_label :: "diag_reason \<Rightarrow> string" where
  "reason_label EmptyReason = ''''"
| "reason_label RNetwork = ''network''"
| "reason_label RTimeout = ''timeout''"
| "reason_label RLimit = ''limit''"
| "reason_label RUnavailable = ''unavailable''"
| "reason_label OutputOverflow = ''output-overflow''"
| "reason_label RProtocol = ''protocol''"
| "reason_label RHttp = ''http''"
| "reason_label TypeError = ''TypeError''"
| "reason_label RangeError = ''RangeError''"
| "reason_label ReferenceError = ''ReferenceError''"
| "reason_label SyntaxError = ''SyntaxError''"
| "reason_label RError = ''Error''"
| "reason_label RUnknown = ''unknown''"

fun route_label :: "diag_route \<Rightarrow> string" where
  "route_label EmptyRoute = ''''"
| "route_label RouteSession = ''session''"
| "route_label RouteState = ''state''"
| "route_label RouteAction = ''action''"
| "route_label RouteSessions = ''sessions''"
| "route_label RouteAccount = ''account''"
| "route_label RoutePush = ''push''"
| "route_label RouteUpload = ''upload''"
| "route_label RouteOther = ''other''"

definition diag_kinds :: "diag_kind list" where
  "diag_kinds = [EmptyKind, TerminalFailed, TerminalRecovered, ApiFailed, Offline, Resume, RuntimeError, UnhandledRejection]"

definition diag_reasons :: "diag_reason list" where
  "diag_reasons = [EmptyReason, RNetwork, RTimeout, RLimit, RUnavailable, OutputOverflow, RProtocol, RHttp, TypeError,
     RangeError, ReferenceError, SyntaxError, RError, RUnknown]"

definition diag_routes :: "diag_route list" where
  "diag_routes = [EmptyRoute, RouteSession, RouteState, RouteAction, RouteSessions, RouteAccount, RoutePush, RouteUpload, RouteOther]"

text \<open>A label is read from \<open>null\<close> (the empty one) or from a string that is one of the labels.\<close>

definition json_label :: "('a \<Rightarrow> string) \<Rightarrow> 'a list \<Rightarrow> json \<Rightarrow> 'a option" where
  "json_label lab all j =
     (case j of JNull \<Rightarrow> Some (hd all) | JStr s \<Rightarrow> find (\<lambda>x. lab x = s) all | _ \<Rightarrow> None)"

definition json_short :: "nat \<Rightarrow> json \<Rightarrow> string option" where
  "json_short n j = (case j of JNull \<Rightarrow> Some [] | JStr s \<Rightarrow> if n < length s then None else Some s | _ \<Rightarrow> None)"

fun json_all :: "(json \<Rightarrow> 'a option) \<Rightarrow> json list \<Rightarrow> 'a list option" where
  "json_all f [] = Some []"
| "json_all f (j # js) = (case f j of None \<Rightarrow> None | Some x \<Rightarrow> map_option ((#) x) (json_all f js))"

definition rows_upto :: "nat \<Rightarrow> (json \<Rightarrow> 'a option) \<Rightarrow> json \<Rightarrow> 'a list option" where
  "rows_upto n f j = (case j of JNull \<Rightarrow> Some [] | JArr js \<Rightarrow> if n < length js then None else json_all f js | _ \<Rightarrow> None)"

section \<open>Events\<close>

record diag_event =
  ev_sequence :: int
  ev_at :: int
  ev_kind :: diag_kind
  ev_reason :: diag_reason
  ev_route :: diag_route
  ev_code :: int
  ev_attempt :: int
  ev_retry_ms :: int
  ev_duration_ms :: int
  ev_line :: int
  ev_column :: int
  ev_online :: bool
  ev_visible :: bool
  ev_standalone :: bool

definition EVENT_FIELDS :: "string list" where
  "EVENT_FIELDS = [''sequence'', ''at'', ''kind'', ''reason'', ''route'', ''code'', ''attempt'', ''retry_ms'', ''duration_ms'',
     ''line'', ''column'', ''online'', ''visible'', ''standalone'']"

definition int_field :: "(string \<times> json) list \<Rightarrow> string \<Rightarrow> int option" where
  "int_field fs k = null_default 0 json_i64 (field fs k)"

definition bool_field :: "(string \<times> json) list \<Rightarrow> string \<Rightarrow> bool option" where
  "bool_field fs k = null_default False json_bool (field fs k)"

definition event_of_fields :: "(string \<times> json) list \<Rightarrow> diag_event option" where
  "event_of_fields fs =
     Option.bind (int_field fs ''sequence'') (\<lambda>sequence.
     Option.bind (int_field fs ''at'') (\<lambda>at.
     Option.bind (json_label kind_label diag_kinds (field fs ''kind'')) (\<lambda>kind.
     Option.bind (json_label reason_label diag_reasons (field fs ''reason'')) (\<lambda>reason.
     Option.bind (json_label route_label diag_routes (field fs ''route'')) (\<lambda>route.
     Option.bind (int_field fs ''code'') (\<lambda>code.
     Option.bind (int_field fs ''attempt'') (\<lambda>attempt.
     Option.bind (int_field fs ''retry_ms'') (\<lambda>retry_ms.
     Option.bind (int_field fs ''duration_ms'') (\<lambda>duration_ms.
     Option.bind (int_field fs ''line'') (\<lambda>line.
     Option.bind (int_field fs ''column'') (\<lambda>column.
     Option.bind (bool_field fs ''online'') (\<lambda>online.
     Option.bind (bool_field fs ''visible'') (\<lambda>visible.
     Option.bind (bool_field fs ''standalone'') (\<lambda>standalone.
     Some \<lparr>ev_sequence = sequence, ev_at = at, ev_kind = kind, ev_reason = reason, ev_route = route, ev_code = code,
       ev_attempt = attempt, ev_retry_ms = retry_ms, ev_duration_ms = duration_ms, ev_line = line, ev_column = column,
       ev_online = online, ev_visible = visible, ev_standalone = standalone\<rparr>))))))))))))))"

definition event_of_json :: "json \<Rightarrow> diag_event option" where
  "event_of_json j = Option.bind (object_fields EVENT_FIELDS j) event_of_fields"

definition event_valid :: "int \<Rightarrow> diag_event \<Rightarrow> bool" where
  "event_valid now e \<longleftrightarrow>
     (let now = timestamp_millis now in
      1 \<le> ev_sequence e \<and> ev_sequence e \<le> 2147483647 \<and> saturate (now - TTL_MS) \<le> ev_at e \<and> ev_at e \<le> saturate (now + 300000) \<and>
      ev_kind e \<noteq> EmptyKind \<and> 0 \<le> ev_code e \<and> ev_code e \<le> 4999 \<and> 0 \<le> ev_attempt e \<and> ev_attempt e \<le> 1000000 \<and>
      0 \<le> ev_retry_ms e \<and> ev_retry_ms e \<le> 60000 \<and> 0 \<le> ev_duration_ms e \<and> ev_duration_ms e \<le> 86400000 \<and>
      0 \<le> ev_line e \<and> ev_line e \<le> 10000000 \<and> 0 \<le> ev_column e \<and> ev_column e \<le> 10000000)"

definition failure_key :: "diag_event \<Rightarrow> string option" where
  "failure_key e =
     (if ev_kind e \<in> {TerminalFailed, ApiFailed, RuntimeError, UnhandledRejection}
      then Some (kind_label (ev_kind e) @ '':'' @ reason_label (ev_reason e)) else None)"

text \<open>What \<open>Event\<close> serializes to: a reason, a route or a number is left out when it is empty.\<close>

definition unless_zero :: "string \<Rightarrow> int \<Rightarrow> (string \<times> json) list" where
  "unless_zero k i = (if i = 0 then [] else [(k, JInt i)])"

definition event_fields :: "diag_event \<Rightarrow> (string \<times> json) list" where
  "event_fields e =
     [(''sequence'', JInt (ev_sequence e)), (''at'', JInt (ev_at e)), (''kind'', JStr (kind_label (ev_kind e)))] @
     (if ev_reason e = EmptyReason then [] else [(''reason'', JStr (reason_label (ev_reason e)))]) @
     (if ev_route e = EmptyRoute then [] else [(''route'', JStr (route_label (ev_route e)))]) @
     unless_zero ''code'' (ev_code e) @ unless_zero ''attempt'' (ev_attempt e) @ unless_zero ''retry_ms'' (ev_retry_ms e) @
     unless_zero ''duration_ms'' (ev_duration_ms e) @ unless_zero ''line'' (ev_line e) @ unless_zero ''column'' (ev_column e) @
     [(''online'', JBool (ev_online e)), (''visible'', JBool (ev_visible e)), (''standalone'', JBool (ev_standalone e))]"

section \<open>Sources and records\<close>

text \<open>The encodings of the characters \<open>str::trim\<close> takes off either end.\<close>

definition utf8_spaces :: "string list" where
  "utf8_spaces =
     map (\<lambda>n. [char_of n]) [9, 10, 11, 12, 13, 32 :: nat] @ [[CHR 0xC2, CHR 0x85], [CHR 0xC2, CHR 0xA0], [CHR 0xE1, CHR 0x9A, CHR 0x80]] @
     map (\<lambda>n. [CHR 0xE2, CHR 0x80, char_of n]) [0x80, 0x81, 0x82, 0x83, 0x84, 0x85, 0x86, 0x87, 0x88, 0x89, 0x8A, 0xA8, 0xA9, 0xAF :: nat] @
     [[CHR 0xE2, CHR 0x81, CHR 0x9F], [CHR 0xE3, CHR 0x80, CHR 0x80]]"

definition is_trimmed :: "string \<Rightarrow> bool" where
  "is_trimmed s \<longleftrightarrow> list_all (\<lambda>w. take (length w) s \<noteq> w \<and> (length s < length w \<or> drop (length s - length w) s \<noteq> w)) utf8_spaces"

definition valid_owner :: "string \<Rightarrow> string \<Rightarrow> bool" where
  "valid_owner account profile \<longleftrightarrow>
     account \<noteq> [] \<and> length account \<le> 80 \<and> is_trimmed account \<and>
     (profile = [] \<or> (length profile = 64 \<and> list_all is_lower_hex profile))"

definition valid_client :: "string \<Rightarrow> bool" where
  "valid_client v \<longleftrightarrow>
     length v = 36 \<and> list_all (\<lambda>i. v ! i = CHR ''-'') [8, 13, 18, 23] \<and> v ! 14 = CHR ''4'' \<and> v ! 19 \<in> set ''89ab'' \<and>
     list_all (\<lambda>i. i \<in> {8, 13, 18, 23} \<or> is_lower_hex (v ! i)) [0..<length v]"

definition valid_build :: "string \<Rightarrow> bool" where
  "valid_build v \<longleftrightarrow>
     v \<in> {''development'', ''unknown''} \<or>
     (take 4 v = ''app-'' \<and>
      (let r = drop 4 v; n = length r - 3 in
       3 \<le> length r \<and> drop n r = ''.js'' \<and> 0 < n \<and> n \<le> 64 \<and>
       list_all (\<lambda>b. is_ascii_alphanumeric b \<or> b = CHR ''_'' \<or> b = CHR ''-'') (take n r)))"

fun split_once_str :: "string \<Rightarrow> string \<Rightarrow> (string \<times> string) option" where
  "split_once_str pat [] = (if pat = [] then Some ([], []) else None)"
| "split_once_str pat (c # s) =
     (if take (length pat) (c # s) = pat then Some ([], drop (length pat) (c # s))
      else map_option (\<lambda>(a, b). (c # a, b)) (split_once_str pat s))"

definition BROWSERS :: "string list" where
  "BROWSERS = [''Unknown browser'', ''Edge'', ''Chrome'', ''Firefox'', ''Safari'']"

definition SYSTEMS :: "string list" where
  "SYSTEMS = [''Android'', ''iOS'', ''Windows'', ''macOS'', ''ChromeOS'', ''Linux'']"

definition valid_browser :: "string \<Rightarrow> bool" where
  "valid_browser v \<longleftrightarrow>
     (case split_once_str '' on '' v of
        None \<Rightarrow> v \<in> set BROWSERS
      | Some (b, os) \<Rightarrow> b \<in> set BROWSERS \<and> os \<in> set SYSTEMS)"

record diag_source =
  so_account :: string
  so_profile :: string
  so_client :: string
  so_build :: string
  so_browser :: string

record diag_record =
  dr_source :: diag_source
  dr_received :: int
  dr_event :: diag_event

definition same_owner :: "string \<Rightarrow> string \<Rightarrow> diag_record \<Rightarrow> bool" where
  "same_owner account profile r \<longleftrightarrow> so_account (dr_source r) = account \<and> so_profile (dr_source r) = profile"

definition DIAG_ZERO_TIME :: int where \<comment> \<open>the first of January of the year 1\<close>
  "DIAG_ZERO_TIME = -62135596800 * 1000000000"

definition record_valid :: "int \<Rightarrow> diag_record \<Rightarrow> bool" where
  "record_valid now r \<longleftrightarrow>
     valid_owner (so_account (dr_source r)) (so_profile (dr_source r)) \<and> valid_client (so_client (dr_source r)) \<and>
     valid_build (so_build (dr_source r)) \<and> valid_browser (so_browser (dr_source r)) \<and>
     dr_received r \<noteq> DIAG_ZERO_TIME \<and> dr_received r - now \<le> ms 300000 \<and> event_valid (dr_received r) (dr_event r)"

section \<open>Batches\<close>

record batch =
  ba_version :: int
  ba_client :: string
  ba_build :: string
  ba_events :: "diag_event list"

definition batch_of_json :: "json \<Rightarrow> batch option" where
  "batch_of_json j =
     Option.bind (object_fields [''version'', ''client'', ''build'', ''events''] j) (\<lambda>fs.
     Option.bind (int_field fs ''version'') (\<lambda>version.
     Option.bind (json_short 36 (field fs ''client'')) (\<lambda>client.
     Option.bind (json_short 71 (field fs ''build'')) (\<lambda>build.
     Option.bind (rows_upto BATCH_EVENTS event_of_json (field fs ''events'')) (\<lambda>events.
     Some \<lparr>ba_version = version, ba_client = client, ba_build = build, ba_events = events\<rparr>)))))"

definition starts_object :: "bytes \<Rightarrow> bool" where
  "starts_object raw \<longleftrightarrow> find (\<lambda>b. \<not> is_ascii_whitespace b) raw = Some (CHR 0x7B)"

definition batch_decode :: "(bytes \<Rightarrow> json option) \<Rightarrow> bytes \<Rightarrow> (diag_error, batch) result" where
  "batch_decode parse raw =
     (if MAX_JSON_BYTES < length raw \<or> \<not> starts_object raw then Err DInvalid
      else case Option.bind (parse raw) batch_of_json of None \<Rightarrow> Err DInvalid | Some b \<Rightarrow> Ok b)"

definition batch_valid :: "int \<Rightarrow> batch \<Rightarrow> bool" where
  "batch_valid now b \<longleftrightarrow>
     ba_version b = 1 \<and> valid_client (ba_client b) \<and> valid_build (ba_build b) \<and> ba_events b \<noteq> [] \<and>
     length (ba_events b) \<le> BATCH_EVENTS \<and> list_all (event_valid now) (ba_events b)"

definition batch_records :: "diag_source \<Rightarrow> int \<Rightarrow> batch \<Rightarrow> diag_record list" where
  "batch_records source now b =
     map (\<lambda>e. \<lparr>dr_source = source\<lparr>so_client := ba_client b, so_build := ba_build b\<rparr>, dr_received = now, dr_event = e\<rparr>) (ba_events b)"

section \<open>The file\<close>

text \<open>
  What is not the gateway's: the JSON library, the time formats of \<open>chrono\<close> and SHA-256. The
  encoder hands its output to the writer in pieces.
\<close>

record diag_env =
  de_parse :: "bytes \<Rightarrow> json option"
  de_encode :: "json \<Rightarrow> bytes list option"
  de_parse_time :: "string \<Rightarrow> int option"
  de_rfc3339_nanos :: "int \<Rightarrow> string"
  de_sha256 :: "bytes \<Rightarrow> bytes"

definition record_of_json :: "diag_env \<Rightarrow> json \<Rightarrow> diag_record option" where
  "record_of_json env j =
     Option.bind (object_fields ([''account'', ''profile'', ''client'', ''build'', ''browser'', ''received_at''] @ EVENT_FIELDS) j) (\<lambda>fs.
     Option.bind (json_short 80 (field fs ''account'')) (\<lambda>account.
     Option.bind (json_short 64 (field fs ''profile'')) (\<lambda>profile.
     Option.bind (json_short 36 (field fs ''client'')) (\<lambda>client.
     Option.bind (json_short 71 (field fs ''build'')) (\<lambda>build.
     Option.bind (json_short 32 (field fs ''browser'')) (\<lambda>browser.
     Option.bind (json_short 40 (field fs ''received_at'')) (\<lambda>received_at.
     Option.bind (event_of_fields fs) (\<lambda>event.
     Option.bind (de_parse_time env received_at) (\<lambda>received.
     Some \<lparr>dr_source = \<lparr>so_account = account, so_profile = profile, so_client = client, so_build = build, so_browser = browser\<rparr>,
           dr_received = received, dr_event = event\<rparr>)))))))))"

text \<open>\<open>go_time\<close>: the nine digits of the fraction without the zeros at their end.\<close>

fun rsplit_dot :: "string \<Rightarrow> (string \<times> string) option" where
  "rsplit_dot [] = None"
| "rsplit_dot (c # s) =
     (case rsplit_dot s of
        Some (a, b) \<Rightarrow> Some (c # a, b)
      | None \<Rightarrow> if c = CHR ''.'' then Some ([], s) else None)"

definition trim_end_matches :: "char \<Rightarrow> string \<Rightarrow> string" where
  "trim_end_matches c s = rev (dropWhile (\<lambda>x. x = c) (rev s))"

definition go_time :: "diag_env \<Rightarrow> int \<Rightarrow> string" where
  "go_time env t =
     (case rsplit_dot (trim_end_matches (CHR ''Z'') (de_rfc3339_nanos env t)) of
        None \<Rightarrow> [] \<comment> \<open>the format always has a fraction\<close>
      | Some (prefix, fraction) \<Rightarrow>
          (let fraction = trim_end_matches (CHR ''0'') fraction in
           if fraction = [] then prefix @ ''Z'' else prefix @ ''.'' @ fraction @ ''Z''))"

definition record_view :: "diag_env \<Rightarrow> bool \<Rightarrow> diag_record \<Rightarrow> json" where
  "record_view env private r =
     JObj ((if private then [(''account'', JStr (so_account (dr_source r)))] else []) @
       (if private \<and> so_profile (dr_source r) \<noteq> [] then [(''profile'', JStr (so_profile (dr_source r)))] else []) @
       [(''client'', JStr (so_client (dr_source r))), (''build'', JStr (so_build (dr_source r))),
        (''browser'', JStr (so_browser (dr_source r))), (''received_at'', JStr (go_time env (dr_received r)))] @
       event_fields (dr_event r))"

definition snapshot_json :: "diag_env \<Rightarrow> diag_record list \<Rightarrow> json" where
  "snapshot_json env rs = JObj [(''version'', JInt 1), (''records'', JArr (map (record_view env True) rs))]"

definition disk_of_json :: "diag_env \<Rightarrow> json \<Rightarrow> (int \<times> diag_record list) option" where
  "disk_of_json env j =
     Option.bind (object_fields [''version'', ''records''] j) (\<lambda>fs.
     Option.bind (int_field fs ''version'') (\<lambda>version.
     Option.bind (rows_upto DIAG_LIMIT (record_of_json env) (field fs ''records'')) (\<lambda>rs. Some (version, rs))))"

definition owned_by :: "diag_record \<Rightarrow> diag_record list \<Rightarrow> diag_record list" where
  "owned_by r rs = filter (same_owner (so_account (dr_source r)) (so_profile (dr_source r))) rs"

fun admit_records :: "int \<Rightarrow> diag_record list \<Rightarrow> diag_record list \<Rightarrow> (diag_error, diag_record list) result" where
  "admit_records now acc [] = Ok acc"
| "admit_records now acc (r # rs) =
     (if \<not> record_valid now r \<or> ACCOUNT_LIMIT \<le> length (owned_by r acc) then Err DInvalid
      else admit_records now (acc @ [r]) rs)"

definition decode_disk :: "diag_env \<Rightarrow> int \<Rightarrow> bytes \<Rightarrow> (diag_error, diag_record list) result" where
  "decode_disk env now raw =
     (if DIAG_DISK_BYTES < length raw \<or> \<not> starts_object raw then Err DInvalid
      else case Option.bind (de_parse env raw) (disk_of_json env) of
        None \<Rightarrow> Err DInvalid
      | Some (version, rs) \<Rightarrow> if version \<noteq> 1 then Err DInvalid else admit_records now [] rs)"

section \<open>The ring\<close>

record rate =
  ra_start :: int
  ra_batches :: nat

record diag_state =
  ds_records :: "diag_record list"
  ds_rates :: "(bytes \<times> rate) list"
  ds_revision :: nat
  ds_saved :: nat
  ds_disabled :: bool
  ds_storage_error :: bool

definition diag_new :: "diag_record list \<Rightarrow> bool \<Rightarrow> diag_state" where
  "diag_new rs disabled =
     \<lparr>ds_records = rs, ds_rates = [], ds_revision = 0, ds_saved = 0, ds_disabled = disabled, ds_storage_error = disabled\<rparr>"

definition ring_bump :: "diag_state \<Rightarrow> (diag_error, unit) result \<times> diag_state" where
  "ring_bump s =
     (if ds_revision s + 1 < 2 ^ 64 then (Ok (), s\<lparr>ds_revision := ds_revision s + 1\<rparr>)
      else (Err DUnavailable, s\<lparr>ds_disabled := True, ds_storage_error := True\<rparr>))"

definition prune_rates :: "int \<Rightarrow> diag_state \<Rightarrow> diag_state" where
  "prune_rates now s = s\<lparr>ds_rates := filter (\<lambda>e. now - ra_start (snd e) < ms 60000) (ds_rates s)\<rparr>"

definition ring_prune :: "int \<Rightarrow> diag_state \<Rightarrow> (diag_error, unit) result \<times> diag_state" where
  "ring_prune now s =
     (let cutoff = now - ms TTL_MS in
      if list_ex (\<lambda>r. dr_received r \<le> cutoff) (ds_records s)
      then (case ring_bump s of
              (Inl e, s) \<Rightarrow> (Err e, s)
            | (Inr _, s) \<Rightarrow> (Ok (), prune_rates now (s\<lparr>ds_records := filter (\<lambda>r. cutoff < dr_received r) (ds_records s)\<rparr>)))
      else (Ok (), prune_rates now s))"

definition same_event :: "diag_record \<Rightarrow> diag_record \<Rightarrow> bool" where
  "same_event r q \<longleftrightarrow>
     same_owner (so_account (dr_source r)) (so_profile (dr_source r)) q \<and> so_client (dr_source q) = so_client (dr_source r) \<and>
     ev_sequence (dr_event q) = ev_sequence (dr_event r)"

fun dedupe :: "diag_record list \<Rightarrow> diag_record list \<Rightarrow> diag_record list \<Rightarrow> diag_record list" where
  "dedupe ring acc [] = acc"
| "dedupe ring acc (r # rs) =
     (if list_ex (same_event r) (ring @ acc) then dedupe ring acc rs else dedupe ring (acc @ [r]) rs)"

fun remove_first :: "('a \<Rightarrow> bool) \<Rightarrow> 'a list \<Rightarrow> 'a list" where
  "remove_first P [] = []"
| "remove_first P (x # xs) = (if P x then xs else x # remove_first P xs)"

definition push_record :: "string \<Rightarrow> string \<Rightarrow> diag_record list \<Rightarrow> diag_record \<Rightarrow> diag_record list" where
  "push_record account profile ring r =
     (let ring = (if ACCOUNT_LIMIT \<le> length (filter (same_owner account profile) ring) then remove_first (same_owner account profile) ring else ring);
          ring = (if length ring = DIAG_LIMIT then tl ring else ring) in
      ring @ [r])"

definition count_batch :: "bytes \<Rightarrow> int \<Rightarrow> diag_state \<Rightarrow> diag_state" where
  "count_batch key now s =
     (let rate = (case map_of (ds_rates s) key of Some r \<Rightarrow> r | None \<Rightarrow> \<lparr>ra_start = now, ra_batches = 0\<rparr>) in
      s\<lparr>ds_rates := insert_key key (rate\<lparr>ra_batches := ra_batches rate + 1\<rparr>) (ds_rates s)\<rparr>)"

definition rate_limited :: "bytes \<Rightarrow> diag_state \<Rightarrow> bool" where
  "rate_limited key s \<longleftrightarrow>
     (case map_of (ds_rates s) key of Some r \<Rightarrow> BATCHES \<le> ra_batches r | None \<Rightarrow> RATE_LIMIT \<le> length (ds_rates s))"

definition diag_append ::
  "diag_env \<Rightarrow> session_access \<Rightarrow> string \<Rightarrow> batch \<Rightarrow> int \<Rightarrow> diag_state \<Rightarrow> (diag_error, unit) result \<times> diag_state" where
  "diag_append env who browser b now s =
     (if ds_disabled s then (Err DUnavailable, s)
      else case ring_prune now s of
        (Inl e, s) \<Rightarrow> (Err e, s)
      | (Inr _, s) \<Rightarrow>
          (let key = de_sha256 env (sa_id who) in
           if rate_limited key s then (Err DRateLimited, s)
           else case ring_bump s of
             (Inl e, s) \<Rightarrow> (Err e, s)
           | (Inr _, s) \<Rightarrow>
               (let s = count_batch key now s;
                    source = \<lparr>so_account = sa_username who, so_profile = sa_profile who, so_client = [], so_build = [], so_browser = browser\<rparr>;
                    news = dedupe (ds_records s) [] (batch_records source now b) in
                (Ok (), s\<lparr>ds_records := foldl (push_record (sa_username who) (sa_profile who)) (ds_records s) news\<rparr>))))"

record diag_report =
  re_generated_at :: int
  re_events :: "diag_record list"
  re_counts :: "(string \<times> nat) list"
  re_storage_ok :: bool
  re_pending_save :: bool

fun count_failures :: "(string \<times> nat) list \<Rightarrow> diag_record list \<Rightarrow> (string \<times> nat) list" where
  "count_failures counts [] = counts"
| "count_failures counts (r # rs) =
     (case failure_key (dr_event r) of
        None \<Rightarrow> count_failures counts rs
      | Some key \<Rightarrow> count_failures (insert_key key ((case map_of counts key of Some n \<Rightarrow> n | None \<Rightarrow> 0) + 1) counts) rs)"

definition state_report :: "string \<Rightarrow> string \<Rightarrow> int \<Rightarrow> diag_state \<Rightarrow> (diag_error, diag_report) result \<times> diag_state" where
  "state_report account profile now s =
     (case ring_prune now s of
        (Inl e, s) \<Rightarrow> (Err e, s)
      | (Inr _, s) \<Rightarrow>
          (let rows = filter (same_owner account profile) (ds_records s) in
           (Ok \<lparr>re_generated_at = now, re_events = rows, re_counts = count_failures [] rows,
                re_storage_ok = (\<not> ds_storage_error s), re_pending_save = (ds_saved s \<noteq> ds_revision s)\<rparr>, s)))"

text \<open>The body of the answer: the rows without their owner.\<close>

definition report_json :: "diag_env \<Rightarrow> diag_report \<Rightarrow> json" where
  "report_json env r =
     JObj [(''version'', JInt 1), (''generated_at'', JStr (go_time env (re_generated_at r))), (''retention_days'', JInt 7),
       (''events'', JArr (map (record_view env False) (re_events r))),
       (''counts'', JObj (map (\<lambda>(k, n). (k, JInt (int n))) (re_counts r))),
       (''storage_ok'', JBool (re_storage_ok r)), (''pending_save'', JBool (re_pending_save r))]"

section \<open>Saving\<close>

record diag_disk =
  dd_dir :: private_dir
  dd_name :: string
  dd_expected :: "bytes option"

definition disk_read :: "bool \<Rightarrow> diag_disk \<Rightarrow> (unit, bytes option) result" where
  "disk_read readable d =
     (case read_private readable (dd_dir d) (dd_name d) DIAG_DISK_BYTES of
        Inr raw \<Rightarrow> Ok (Some raw)
      | Inl NotFound \<Rightarrow> Ok None
      | Inl ReadFailed \<Rightarrow> Err ())"

record limited =
  li_data :: bytes
  li_capacity :: nat

definition diag_write :: "(nat \<Rightarrow> nat option) \<Rightarrow> bytes \<Rightarrow> limited \<Rightarrow> limited option" where
  \<comment> \<open>the first argument: the capacity an allocation gives, if it succeeds\<close>
  "diag_write reserve data w =
     (if DIAG_DISK_BYTES - length (li_data w) < length data then None
      else
        let need = length (li_data w) + length data in
        if li_capacity w < need
        then (case reserve (min (next_power_of_two need) DIAG_DISK_BYTES) of
                None \<Rightarrow> None
              | Some capacity \<Rightarrow> Some (w\<lparr>li_data := li_data w @ data, li_capacity := capacity\<rparr>))
        else Some (w\<lparr>li_data := li_data w @ data\<rparr>))"

fun diag_writes :: "(nat \<Rightarrow> nat option) \<Rightarrow> bytes list \<Rightarrow> limited \<Rightarrow> limited option" where
  "diag_writes reserve [] w = Some w"
| "diag_writes reserve (p # ps) w = Option.bind (diag_write reserve p w) (diag_writes reserve ps)"

definition snapshot_bytes :: "diag_env \<Rightarrow> (nat \<Rightarrow> nat option) \<Rightarrow> diag_record list \<Rightarrow> bytes option" where
  "snapshot_bytes env reserve rs =
     Option.bind (de_encode env (snapshot_json env rs)) (\<lambda>pieces.
     map_option li_data (diag_writes reserve pieces \<lparr>li_data = [], li_capacity = 0\<rparr>))"

record persist_io =
  pe_reserve :: "nat \<Rightarrow> nat option"
  pe_readable :: bool
  pe_write :: write_result

definition persist :: "diag_env \<Rightarrow> persist_io \<Rightarrow> diag_record list \<Rightarrow> diag_disk \<Rightarrow> (diag_error, unit) result \<times> diag_disk" where
  "persist env io rs d =
     (case snapshot_bytes env (pe_reserve io) rs of
        None \<Rightarrow> (Err DUnavailable, d)
      | Some raw \<Rightarrow>
          (case disk_read (pe_readable io) d of
             Inl _ \<Rightarrow> (Err DUnavailable, d)
           | Inr current \<Rightarrow>
               if map_option (de_sha256 env) current \<noteq> dd_expected d then (Err DUnavailable, d)
               else
                 let d' = d\<lparr>dd_dir := snd (write_atomic (pe_write io) (dd_dir d) (dd_name d) raw)\<rparr>;
                     next = Some (de_sha256 env raw) in
                 case pe_write io of
                   WriteOk \<Rightarrow> (Ok (), d'\<lparr>dd_expected := next\<rparr>)
                 | WriteFailed True \<Rightarrow> (Err DUnavailable, d'\<lparr>dd_expected := next\<rparr>)
                 | WriteFailed False \<Rightarrow> (Err DUnavailable, d')))"

section \<open>The store\<close>

text \<open>
  The save task locks the state for the snapshot and again for the result, and works on the disk in
  between, while requests go on: the snapshot under way and the result of its save are part of the state.
\<close>

datatype saving = Idle | Saving nat "diag_record list" | Persisted nat "diag_record list" "(diag_error, unit) result option"
  \<comment> \<open>\<open>None\<close>: the worker did not come back\<close>

record diag_store =
  st_state :: diag_state
  st_disk :: diag_disk
  st_closed :: bool
  st_done :: bool
  st_saving :: saving

definition diag_load :: "diag_env \<Rightarrow> bool \<Rightarrow> int \<Rightarrow> diag_disk \<Rightarrow> diag_state \<times> diag_disk" where
  "diag_load env readable now d =
     (case disk_read readable d of
        Inr None \<Rightarrow> (diag_new [] False, d)
      | Inr (Some raw) \<Rightarrow>
          (case decode_disk env now raw of
             Inr rs \<Rightarrow> (diag_new rs False, d\<lparr>dd_expected := Some (de_sha256 env raw)\<rparr>)
           | Inl _ \<Rightarrow> (diag_new [] True, d))
      | Inl _ \<Rightarrow> (diag_new [] True, d))"

definition diag_open ::
  "diag_env \<Rightarrow> bool \<Rightarrow> bool \<Rightarrow> bool \<Rightarrow> int \<Rightarrow> int \<Rightarrow> private_dir \<Rightarrow> string \<Rightarrow> (diag_error, diag_store) result" where
  \<comment> \<open>whether the name is a file name, a start is admitted and the file can be read; the clock when the file is decoded and afterwards\<close>
  "diag_open env file_name admitted readable now1 now2 dir name =
     (if name = [] \<or> \<not> file_name then Err DInvalid
      else if \<not> admitted then Err DBusy
      else case diag_load env readable now1 \<lparr>dd_dir = dir, dd_name = name, dd_expected = None\<rparr> of
        (s, d) \<Rightarrow>
          (case ring_prune now2 s of
             (Inl e, s) \<Rightarrow> Err e
           | (Inr _, s) \<Rightarrow> Ok \<lparr>st_state = s, st_disk = d, st_closed = False, st_done = False, st_saving = Idle\<rparr>))"

definition diag_authorized :: "access_check \<Rightarrow> session_access \<Rightarrow> bool" where
  "diag_authorized c who \<longleftrightarrow> \<not> (ac_cancelled c \<or> ac_gone c \<or> sa_expires_at who \<le> ac_now c)"

definition store_append ::
  "diag_env \<Rightarrow> access_check \<Rightarrow> session_access \<Rightarrow> string \<Rightarrow> batch \<Rightarrow> int \<Rightarrow> diag_store \<Rightarrow> (diag_error, unit) result \<times> diag_store" where
  "store_append env c who browser b now st =
     (if \<not> valid_owner (sa_username who) (sa_profile who) \<or> sa_id who = [] \<or> 128 < length (sa_id who) \<or>
         \<not> valid_browser browser \<or> \<not> batch_valid now b then (Err DInvalid, st)
      else if \<not> diag_authorized c who then (Err DUnauthorized, st)
      else if st_closed st then (Err DUnavailable, st)
      else case diag_append env who browser b now (st_state st) of (res, s) \<Rightarrow> (res, st\<lparr>st_state := s\<rparr>))"

definition store_report :: "access_check \<Rightarrow> session_access \<Rightarrow> int \<Rightarrow> diag_store \<Rightarrow> (diag_error, diag_report) result \<times> diag_store" where
  "store_report c who now st =
     (if \<not> diag_authorized c who then (Err DUnauthorized, st)
      else case state_report (sa_username who) (sa_profile who) now (st_state st) of (res, s) \<Rightarrow> (res, st\<lparr>st_state := s\<rparr>))"

definition diag_shutdown :: "diag_store \<Rightarrow> diag_store" where
  "diag_shutdown st = st\<lparr>st_closed := True\<rparr>"

definition flush_snapshot :: "int \<Rightarrow> diag_store \<Rightarrow> diag_store" where
  "flush_snapshot now st =
     (case ring_prune now (st_state st) of
        (Inl e, s) \<Rightarrow> st\<lparr>st_state := s\<rparr>
      | (Inr _, s) \<Rightarrow>
          if ds_disabled s \<or> ds_saved s = ds_revision s then st\<lparr>st_state := s\<rparr>
          else st\<lparr>st_state := s, st_saving := Saving (ds_revision s) (ds_records s)\<rparr>)"

definition flush_persist :: "diag_env \<Rightarrow> persist_io \<Rightarrow> diag_store \<Rightarrow> diag_store" where
  "flush_persist env io st =
     (case st_saving st of
        Saving revision rs \<Rightarrow>
          (case persist env io rs (st_disk st) of (res, d) \<Rightarrow> st\<lparr>st_disk := d, st_saving := Persisted revision rs (Some res)\<rparr>)
      | _ \<Rightarrow> st)"

definition flush_lost :: "diag_store \<Rightarrow> diag_store" where
  "flush_lost st = (case st_saving st of Saving revision rs \<Rightarrow> st\<lparr>st_saving := Persisted revision rs None\<rparr> | _ \<Rightarrow> st)"

definition flush_result :: "diag_store \<Rightarrow> diag_store" where
  "flush_result st =
     (case st_saving st of
        Persisted revision rs res \<Rightarrow>
          st\<lparr>st_saving := Idle,
             st_state := (case res of
               Some (Inr _) \<Rightarrow> (st_state st)\<lparr>ds_saved := revision, ds_storage_error := False\<rparr>
             | Some (Inl _) \<Rightarrow> (st_state st)\<lparr>ds_storage_error := True\<rparr>
             | None \<Rightarrow> (st_state st)\<lparr>ds_storage_error := True, ds_disabled := True\<rparr>)\<rparr>
      | _ \<Rightarrow> st)"

definition run_finished :: "diag_store \<Rightarrow> diag_store" where
  "run_finished st = st\<lparr>st_closed := True, st_done := True\<rparr>"

end
