(* ===== verification/Diagnostics_Properties.thy ===== *)
theory Diagnostics_Properties
  imports Diagnostics "HOL-Library.Sublist"
begin

text \<open>
  What the diagnostics store promises: a batch is added to the ring exactly once, in order and for its
  own account, the ring keeps its limits whatever is sent, and a report that says nothing is waiting
  to be saved is a promise that a restart loses nothing.
\<close>

section \<open>The labels of the login list are diagnostic labels\<close>

lemma browsers_valid:
  "list_all (\<lambda>b. valid_browser b \<and> list_all (\<lambda>os. valid_browser (b @ '' on '' @ os)) SYSTEMS) BROWSERS"
  by code_simp

lemma browser_label_valid: "valid_browser (browser_label ua)"
proof -
  define u where "u = take (floor_boundary ua (min 512 (length ua))) ua"
  define os where "os = (if contains u ''Android'' then ''Android''
                else if list_ex (contains u) [''iPhone'', ''iPad'', ''iPod''] then ''iOS''
                else if contains u ''Windows'' then ''Windows''
                else if contains u ''Macintosh'' \<or> contains u ''Mac OS X'' then ''macOS''
                else if contains u ''CrOS'' then ''ChromeOS''
                else if contains u ''Linux'' then ''Linux'' else [])"
  define b where "b = (if contains u ''Edg/'' then ''Edge''
                     else if contains u ''CriOS'' \<or> contains u ''Chrome/'' then ''Chrome''
                     else if contains u ''FxiOS'' \<or> contains u ''Firefox/'' then ''Firefox''
                     else if contains u ''Safari/'' then ''Safari'' else ''Unknown browser'')"
  have "browser_label ua = (if os = [] then b else b @ '' on '' @ os)" unfolding browser_label_def Let_def os_def b_def u_def by (rule refl)
  moreover have "b \<in> set BROWSERS" unfolding b_def BROWSERS_def by simp
  moreover have "os = [] \<or> os \<in> set SYSTEMS" unfolding os_def SYSTEMS_def by simp
  ultimately show ?thesis using browsers_valid by (auto simp: list_all_iff)
qed

section \<open>Records and their text\<close>

lemma json_all_map: "(\<And>x. x \<in> set xs \<Longrightarrow> f (g x) = Some x) \<Longrightarrow> json_all f (map g xs) = Some xs"
  by (induction xs) auto

lemma labels_back:
  "json_label kind_label diag_kinds (JStr (kind_label k)) = Some k"
  "json_label reason_label diag_reasons (JStr (reason_label r)) = Some r"
  "json_label route_label diag_routes (JStr (route_label t)) = Some t"
proof -
  show "json_label kind_label diag_kinds (JStr (kind_label k)) = Some k" by (cases k) (simp_all add: json_label_def diag_kinds_def)
  show "json_label reason_label diag_reasons (JStr (reason_label r)) = Some r" by (cases r) (simp_all add: json_label_def diag_reasons_def)
  show "json_label route_label diag_routes (JStr (route_label t)) = Some t" by (cases t) (simp_all add: json_label_def diag_routes_def)
qed

lemma labels_empty:
  "json_label kind_label diag_kinds JNull = Some EmptyKind"
  "json_label reason_label diag_reasons JNull = Some EmptyReason"
  "json_label route_label diag_routes JNull = Some EmptyRoute"
  by (simp_all add: json_label_def diag_kinds_def diag_reasons_def diag_routes_def)

lemma field_append: "field (xs @ ys) k = (case map_of xs k of Some j \<Rightarrow> j | None \<Rightarrow> field ys k)"
  by (simp add: field_def map_add_def split: option.split)

lemma field_Cons: "field ((k, v) # fs) k' = (if k = k' then v else field fs k')"
  by (simp add: field_def)

lemma map_of_unless_zero: "map_of (unless_zero k i) k' = (if i \<noteq> 0 \<and> k = k' then Some (JInt i) else None)"
  by (simp add: unless_zero_def)

lemma event_fields_subseq: "subseq (keys (event_fields e)) EVENT_FIELDS"
proof -
  have z: "subseq (keys (unless_zero k i)) [k]" for k i by (simp add: unless_zero_def keys_def)
  have all: "EVENT_FIELDS = [''sequence'', ''at'', ''kind''] @ [''reason''] @ [''route''] @ [''code''] @ [''attempt''] @ [''retry_ms''] @
     [''duration_ms''] @ [''line''] @ [''column''] @ [''online'', ''visible'', ''standalone'']" by (simp add: EVENT_FIELDS_def)
  have app: "keys (xs @ ys) = keys xs @ keys ys" for xs ys :: "(string \<times> json) list" by (simp add: keys_def)
  show ?thesis unfolding event_fields_def all app by (intro list_emb_append_mono z) (simp_all add: keys_def)
qed

lemma int_fields:
  "is_i64 i \<Longrightarrow> null_default 0 json_i64 (JInt i) = Some i" "null_default 0 json_i64 JNull = Some 0"
  "null_default False json_bool (JBool b) = Some b"
  by (simp_all add: null_default_def json_i64_def json_bool_def)

definition event_ints :: "diag_event \<Rightarrow> bool" where
  "event_ints e \<longleftrightarrow> list_all is_i64 [ev_sequence e, ev_at e, ev_code e, ev_attempt e, ev_retry_ms e, ev_duration_ms e, ev_line e, ev_column e]"

lemma event_valid_ints: "event_valid now e \<Longrightarrow> event_ints e"
  by (auto simp: event_valid_def event_ints_def is_i64_def saturate_def Let_def)

lemma event_field_lookup:
  "field (event_fields e) ''sequence'' = JInt (ev_sequence e)" "field (event_fields e) ''at'' = JInt (ev_at e)"
  "field (event_fields e) ''kind'' = JStr (kind_label (ev_kind e))"
  "field (event_fields e) ''reason'' = (if ev_reason e = EmptyReason then JNull else JStr (reason_label (ev_reason e)))"
  "field (event_fields e) ''route'' = (if ev_route e = EmptyRoute then JNull else JStr (route_label (ev_route e)))"
  "field (event_fields e) ''code'' = (if ev_code e = 0 then JNull else JInt (ev_code e))"
  "field (event_fields e) ''attempt'' = (if ev_attempt e = 0 then JNull else JInt (ev_attempt e))"
  "field (event_fields e) ''retry_ms'' = (if ev_retry_ms e = 0 then JNull else JInt (ev_retry_ms e))"
  "field (event_fields e) ''duration_ms'' = (if ev_duration_ms e = 0 then JNull else JInt (ev_duration_ms e))"
  "field (event_fields e) ''line'' = (if ev_line e = 0 then JNull else JInt (ev_line e))"
  "field (event_fields e) ''column'' = (if ev_column e = 0 then JNull else JInt (ev_column e))"
  "field (event_fields e) ''online'' = JBool (ev_online e)" "field (event_fields e) ''visible'' = JBool (ev_visible e)"
  "field (event_fields e) ''standalone'' = JBool (ev_standalone e)"
  by (simp_all add: event_fields_def field_append field_Cons field_def [of "[]"] map_of_unless_zero if_distrib [of map_of])

lemma event_of_fields_back:
  assumes "event_ints e" and "\<And>k. k \<in> set EVENT_FIELDS \<Longrightarrow> map_of pre k = None"
  shows "event_of_fields (pre @ event_fields e) = Some e"
proof -
  let ?f = "field (pre @ event_fields e)"
  have pre: "?f k = field (event_fields e) k" if "k \<in> set EVENT_FIELDS" for k using assms(2) [OF that] by (simp add: field_append)
  have num: "int_field (pre @ event_fields e) k = null_default 0 json_i64 (field (event_fields e) k)"
    "bool_field (pre @ event_fields e) k = null_default False json_bool (field (event_fields e) k)" if "k \<in> set EVENT_FIELDS" for k
    using pre [OF that] by (simp_all add: int_field_def bool_field_def)
  have ints: "null_default 0 json_i64 (if i = 0 then JNull else JInt i) = Some i" if "is_i64 i" for i using that by (simp add: int_fields)
  have lab: "?f ''kind'' = JStr (kind_label (ev_kind e))"
    "?f ''reason'' = (if ev_reason e = EmptyReason then JNull else JStr (reason_label (ev_reason e)))"
    "?f ''route'' = (if ev_route e = EmptyRoute then JNull else JStr (route_label (ev_route e)))"
    by (simp_all add: pre EVENT_FIELDS_def event_field_lookup)
  have "json_label reason_label diag_reasons (?f ''reason'') = Some (ev_reason e)" "json_label route_label diag_routes (?f ''route'') = Some (ev_route e)"
    using lab(2,3) labels_back labels_empty by auto
  then show ?thesis using assms(1)
    by (simp add: event_of_fields_def num EVENT_FIELDS_def event_field_lookup ints int_fields event_ints_def lab(1) labels_back)
qed

text \<open>
  Times that are written and read back. The law is that of RFC 3339 in the library, for the years 1970 to 9999: the long format has
  nineteen characters and nine digits of the fraction, and a text with fewer digits is read as the same time if those left out
  are zeros. That the shortened text of \<open>go_time\<close> is read back is then a fact.
\<close>

definition time_range :: "int \<Rightarrow> bool" where
  "time_range t \<longleftrightarrow> 0 \<le> t \<and> t < 253402300800000000000"

definition time_law :: "diag_env \<Rightarrow> bool" where
  "time_law env \<longleftrightarrow> (\<forall>t. time_range t \<longrightarrow>
     (\<exists>date fraction. de_rfc3339_nanos env t = date @ ''.'' @ fraction @ ''Z'' \<and> length date = 19 \<and> length fraction = 9 \<and>
        list_all is_ascii_digit fraction \<and>
        (\<forall>n \<le> 9. drop n fraction = replicate (9 - n) (CHR ''0'') \<longrightarrow>
           de_parse_time env (date @ (if n = 0 then [] else ''.'' @ take n fraction) @ ''Z'') = Some t)))"

definition time_ok :: "diag_env \<Rightarrow> int \<Rightarrow> bool" where
  "time_ok env t \<longleftrightarrow> length (go_time env t) \<le> 40 \<and> de_parse_time env (go_time env t) = Some t"

text \<open>A clock for which what a record may be received at, a week before to five minutes after, is in those years.\<close>

definition clock_range :: "int \<Rightarrow> bool" where
  "clock_range t \<longleftrightarrow> time_range (t - ms TTL_MS) \<and> time_range (t + ms 300000)"

lemma trim_end_matches_snoc [simp]:
  "trim_end_matches c (xs @ [x]) = (if x = c then trim_end_matches c xs else xs @ [x])" "trim_end_matches c [] = []"
  by (simp_all add: trim_end_matches_def)

lemma trim_end_matches_split: "\<exists>n \<le> length xs. trim_end_matches c xs = take n xs \<and> drop n xs = replicate (length xs - n) c"
proof (induction xs rule: rev_induct)
  case (snoc x xs)
  then obtain n where n: "n \<le> length xs" "trim_end_matches c xs = take n xs" "drop n xs = replicate (length xs - n) c" by blast
  show ?case
  proof (cases "x = c")
    case True
    then show ?thesis using n by (intro exI [of _ n]) (simp add: Suc_diff_le replicate_append_same)
  qed (intro exI [of _ "Suc (length xs)"], simp)
qed simp

lemma rsplit_dot_last: "CHR ''.'' \<notin> set ys \<Longrightarrow> rsplit_dot (xs @ CHR ''.'' # ys) = Some (xs, ys)"
proof (induction xs)
  case Nil
  have "rsplit_dot ys = None" using Nil by (induction ys) auto
  then show ?case by simp
qed simp

lemma go_time_ok:
  assumes "time_law env" and "time_range t"
  shows "time_ok env t"
proof -
  obtain date fraction where t: "de_rfc3339_nanos env t = date @ ''.'' @ fraction @ ''Z''" "length date = 19" "length fraction = 9"
      "list_all is_ascii_digit fraction"
    and read: "\<And>n. n \<le> 9 \<Longrightarrow> drop n fraction = replicate (9 - n) (CHR ''0'') \<Longrightarrow>
      de_parse_time env (date @ (if n = 0 then [] else ''.'' @ take n fraction) @ ''Z'') = Some t"
    using assms unfolding time_law_def by blast
  obtain ds d where ds: "fraction = ds @ [d]" using t(3) by (cases fraction rule: rev_cases) auto
  have marks: "d \<noteq> CHR ''Z''" "CHR ''.'' \<notin> set fraction"
    using t(4) by (auto simp: ds list_all_iff is_ascii_digit_def code_def)
  have "trim_end_matches (CHR ''Z'') (de_rfc3339_nanos env t) = date @ CHR ''.'' # fraction"
    using trim_end_matches_snoc(1) [of "CHR ''Z''" "date @ CHR ''.'' # fraction" "CHR ''Z''"]
      trim_end_matches_snoc(1) [of "CHR ''Z''" "date @ CHR ''.'' # ds" d] marks(1) by (simp add: t(1) ds)
  then have split: "rsplit_dot (trim_end_matches (CHR ''Z'') (de_rfc3339_nanos env t)) = Some (date, fraction)"
    using rsplit_dot_last [OF marks(2)] by simp
  obtain n where n: "n \<le> 9" "trim_end_matches (CHR ''0'') fraction = take n fraction" "drop n fraction = replicate (9 - n) (CHR ''0'')"
    using trim_end_matches_split [of fraction "CHR ''0''"] t(3) by auto
  have "go_time env t = date @ (if n = 0 then [] else ''.'' @ take n fraction) @ ''Z''"
    using t(3) n(1) by (auto simp: go_time_def split n(2) Let_def)
  then show ?thesis using read [OF n(1,3)] t(2,3) n(1) by (simp add: time_ok_def)
qed

definition encode_law :: "diag_env \<Rightarrow> bool" where
  \<comment> \<open>what the encoder writes for an object starts with its brace and is read back\<close>
  "encode_law env \<longleftrightarrow>
     (\<forall>fs pieces. de_encode env (JObj fs) = Some pieces \<longrightarrow> starts_object (concat pieces) \<and> de_parse env (concat pieces) = Some (JObj fs))"

definition source_ok :: "diag_record \<Rightarrow> bool" where
  "source_ok r \<longleftrightarrow> record_valid (dr_received r) r"

lemma record_valid_source: "record_valid now r \<longleftrightarrow> source_ok r \<and> dr_received r - now \<le> ms 300000"
  by (auto simp: record_valid_def source_ok_def ms_def)

lemma valid_browser_short: "valid_browser v \<Longrightarrow> length v \<le> 32"
proof -
  have split: "split_once_str pat s = Some (a, b) \<Longrightarrow> s = a @ pat @ b" for pat s a b
    by (induction pat s arbitrary: a b rule: split_once_str.induct)
       (auto split: if_splits, metis append_take_drop_id take_Suc_Cons)
  assume "valid_browser v"
  then show ?thesis
    by (cases "split_once_str '' on '' v") (auto simp: valid_browser_def BROWSERS_def SYSTEMS_def dest!: split)
qed

lemma valid_build_short: "valid_build v \<Longrightarrow> length v \<le> 71"
  by (auto simp: valid_build_def Let_def)

lemma subseq_set: "subseq xs ys \<Longrightarrow> set xs \<subseteq> set ys"
  by (metis subseq_conv_nths set_nths_subset)

lemma subseq_distinct_keys: "subseq xs ys \<Longrightarrow> distinct ys \<Longrightarrow> distinct xs"
  by (metis subseq_conv_nths distinct_nthsI)

lemma record_back:
  assumes "source_ok r" and "time_ok env (dr_received r)"
  shows "record_of_json env (record_view env True r) = Some r"
proof -
  let ?pre = "[(''account'', JStr (so_account (dr_source r)))] @
       (if so_profile (dr_source r) \<noteq> [] then [(''profile'', JStr (so_profile (dr_source r)))] else []) @
       [(''client'', JStr (so_client (dr_source r))), (''build'', JStr (so_build (dr_source r))),
        (''browser'', JStr (so_browser (dr_source r))), (''received_at'', JStr (go_time env (dr_received r)))]"
  let ?own = "[''account'', ''profile'', ''client'', ''build'', ''browser'', ''received_at'']"
  let ?fs = "?pre @ event_fields (dr_event r)"
  have view: "record_view env True r = JObj ?fs" by (simp add: record_view_def)
  have "subseq (keys ?pre @ keys (event_fields (dr_event r))) (?own @ EVENT_FIELDS)"
    by (intro list_emb_append_mono event_fields_subseq) (simp add: keys_def)
  then have sub: "subseq (keys ?fs) (?own @ EVENT_FIELDS)" by (simp add: keys_def)
  have dist: "distinct (?own @ EVENT_FIELDS)" by (simp add: EVENT_FIELDS_def)
  have "distinct (keys ?fs)" by (rule subseq_distinct_keys [OF sub dist])
  moreover have "list_all (\<lambda>k. k \<in> set (?own @ EVENT_FIELDS)) (keys ?fs)"
    using subseq_set [OF sub] unfolding list_all_iff by blast
  ultimately have obj: "object_fields (?own @ EVENT_FIELDS) (JObj ?fs) = Some ?fs" unfolding object_fields_JObj by (intro if_P conjI)
  have ev: "event_of_fields ?fs = Some (dr_event r)"
    using assms(1) by (intro event_of_fields_back event_valid_ints [of "dr_received r"]) (auto simp: source_ok_def record_valid_def EVENT_FIELDS_def)
  have fld: "field ?fs ''account'' = JStr (so_account (dr_source r))" "field ?fs ''client'' = JStr (so_client (dr_source r))"
    "field ?fs ''build'' = JStr (so_build (dr_source r))" "field ?fs ''browser'' = JStr (so_browser (dr_source r))"
    "field ?fs ''received_at'' = JStr (go_time env (dr_received r))"
    by (simp_all add: field_append field_Cons)
  have prof: "json_short 64 (field ?fs ''profile'') = Some (so_profile (dr_source r))"
  proof (cases "so_profile (dr_source r) = []")
    case True
    have "map_of (event_fields (dr_event r)) ''profile'' = None"
      using subseq_set [OF event_fields_subseq, of "dr_event r"] by (auto simp: EVENT_FIELDS_def set_keys)
    then show ?thesis using True by (simp add: field_append field_Cons field_def [of "event_fields (dr_event r)"] json_short_def)
  next
    case False
    then show ?thesis using assms(1) by (simp add: field_append field_Cons json_short_def source_ok_def record_valid_def valid_owner_def)
  qed
  have short: "length (so_account (dr_source r)) \<le> 80" "length (so_client (dr_source r)) \<le> 36" "length (so_build (dr_source r)) \<le> 71"
    "length (so_browser (dr_source r)) \<le> 32"
    using assms(1) by (simp_all add: source_ok_def record_valid_def valid_owner_def valid_client_def valid_build_short valid_browser_short)
  define fs where "fs = ?fs"
  note facts = view obj ev fld prof
  show ?thesis
    using assms(2) short facts [folded fs_def] by (simp add: record_of_json_def json_short_def [of _ "JStr _"] time_ok_def)
qed

lemma admit_records_app:
  assumes "list_all (record_valid now) rs" and "\<And>a p. length (filter (same_owner a p) (acc @ rs)) \<le> ACCOUNT_LIMIT"
  shows "admit_records now acc rs = Ok (acc @ rs)"
  using assms
proof (induction rs arbitrary: acc)
  case (Cons r rs)
  have "length (owned_by r acc) < ACCOUNT_LIMIT"
    using Cons.prems(2) [of "so_account (dr_source r)" "so_profile (dr_source r)"] by (simp add: owned_by_def same_owner_def [of _ _ r])
  then show ?case using Cons.prems Cons.IH [of "acc @ [r]"] by simp
qed simp

lemma admit_records_okD:
  assumes "admit_records now acc rs = Ok out" and "\<And>a p. length (filter (same_owner a p) acc) \<le> ACCOUNT_LIMIT"
  shows "out = acc @ rs \<and> list_all (record_valid now) rs \<and> (\<forall>a p. length (filter (same_owner a p) out) \<le> ACCOUNT_LIMIT)"
  using assms
proof (induction rs arbitrary: acc)
  case (Cons r rs)
  have step: "record_valid now r" "length (owned_by r acc) < ACCOUNT_LIMIT" "admit_records now (acc @ [r]) rs = Ok out"
    using Cons.prems(1) by (auto split: if_splits)
  have "length (filter (same_owner a p) (acc @ [r])) \<le> ACCOUNT_LIMIT" for a p
    using Cons.prems(2) [of a p] step(2) by (auto simp: owned_by_def same_owner_def [of _ _ r])
  from Cons.IH [OF step(3) this] have "out = (acc @ [r]) @ rs" "list_all (record_valid now) rs"
    "\<forall>a p. length (filter (same_owner a p) out) \<le> ACCOUNT_LIMIT" by blast+
  then show ?case using step(1) by (metis append.assoc append_Cons append_Nil list_all_iff set_ConsD)
qed simp

section \<open>The ring\<close>

definition ring_shape :: "diag_record list \<Rightarrow> bool" where
  "ring_shape rs \<longleftrightarrow>
     length rs \<le> DIAG_LIMIT \<and> (\<forall>a p. length (filter (same_owner a p) rs) \<le> ACCOUNT_LIMIT) \<and> (\<forall>r \<in> set rs. source_ok r)"

definition ring_ok :: "diag_env \<Rightarrow> diag_record list \<Rightarrow> bool" where
  "ring_ok env rs \<longleftrightarrow>
     length rs \<le> DIAG_LIMIT \<and> (\<forall>a p. length (filter (same_owner a p) rs) \<le> ACCOUNT_LIMIT) \<and>
     (\<forall>r \<in> set rs. source_ok r \<and> time_ok env (dr_received r))"

lemma decode_snapshot:
  assumes "encode_law env" and "ring_ok env rs" and "de_encode env (snapshot_json env rs) = Some pieces"
    and "length (concat pieces) \<le> DIAG_DISK_BYTES" and "\<And>r. r \<in> set rs \<Longrightarrow> dr_received r - now \<le> ms 300000"
  shows "decode_disk env now (concat pieces) = Ok rs"
proof -
  have enc: "starts_object (concat pieces)" "de_parse env (concat pieces) = Some (snapshot_json env rs)"
    using assms(1,3) by (auto simp: encode_law_def snapshot_json_def)
  have "json_all (record_of_json env) (map (record_view env True) rs) = Some rs"
    using assms(2) by (intro json_all_map record_back) (auto simp: ring_ok_def)
  then have "disk_of_json env (snapshot_json env rs) = Some (1, rs)"
    using assms(2) by (simp add: disk_of_json_def snapshot_json_def keys_def int_field_def field_Cons int_fields is_i64_def rows_upto_def ring_ok_def)
  moreover have "admit_records now [] rs = Ok rs"
    using admit_records_app [of now rs "[]"] assms(2,5) by (simp add: ring_ok_def list_all_iff record_valid_source)
  ultimately show ?thesis using enc assms(4) by (simp add: decode_disk_def)
qed

lemma json_all_set: "json_all f js = Some xs \<Longrightarrow> length xs = length js \<and> (\<forall>x \<in> set xs. \<exists>j. f j = Some x)"
  by (induction js arbitrary: xs) (auto split: option.splits)

lemma decode_diskD:
  assumes "decode_disk env now raw = Ok rs"
  shows "ring_shape rs" and "\<And>r. r \<in> set rs \<Longrightarrow> dr_received r - now \<le> ms 300000"
    and "(\<And>r. r \<in> set rs \<Longrightarrow> dr_received r - now' \<le> ms 300000) \<Longrightarrow> decode_disk env now' raw = Ok rs"
proof -
  obtain v rs' where d: "Option.bind (de_parse env raw) (disk_of_json env) = Some (v, rs')" "v = 1" "admit_records now [] rs' = Ok rs"
      "length raw \<le> DIAG_DISK_BYTES" "starts_object raw"
    using assms by (auto simp: decode_disk_def split: if_splits option.splits)
  have a: "rs = rs'" "list_all (record_valid now) rs" "\<And>a p. length (filter (same_owner a p) rs) \<le> ACCOUNT_LIMIT"
    using admit_records_okD [OF d(3)] by auto
  obtain j where "rows_upto DIAG_LIMIT (record_of_json env) j = Some rs"
    using d(1) a(1) by (auto simp: disk_of_json_def bind_eq_Some_conv)
  then have "length rs \<le> DIAG_LIMIT"
    by (auto simp: rows_upto_def split: json.splits if_splits dest!: json_all_set)
  then show "ring_shape rs" using a by (auto simp: ring_shape_def list_all_iff record_valid_source)
  show "dr_received r - now \<le> ms 300000" if "r \<in> set rs" for r
    using a(2) that by (auto simp: list_all_iff record_valid_source)
  assume "\<And>r. r \<in> set rs \<Longrightarrow> dr_received r - now' \<le> ms 300000"
  then have "admit_records now' [] rs = Ok rs"
    using admit_records_app [of now' rs "[]"] a(2,3) by (simp add: list_all_iff record_valid_source)
  then show "decode_disk env now' raw = Ok rs" using d a(1) by (simp add: decode_disk_def)
qed

text \<open>Adding to the ring: the oldest record of the account goes first, then the oldest of all.\<close>

lemma remove_first_append: "\<exists>x \<in> set xs. P x \<Longrightarrow> remove_first P (xs @ ys) = remove_first P xs @ ys"
  by (induction xs) auto

lemma remove_first_subseq: "subseq (remove_first P xs) xs"
  by (induction xs) auto

lemma filter_remove_first: "filter P (remove_first P xs) = tl (filter P xs)"
  by (induction xs) auto

lemma filter_remove_other: "(\<And>x. P x \<Longrightarrow> \<not> Q x) \<Longrightarrow> filter Q (remove_first P xs) = filter Q xs"
  by (induction xs) auto

lemma suffix_tl: "suffix xs ys \<Longrightarrow> suffix (tl xs) ys"
  by (cases xs) (auto dest: suffix_ConsD)

lemma suffix_filter_tl: "suffix (filter P (tl xs)) (filter P xs)"
  by (cases xs) (auto intro: suffix_ConsI)

lemma same_owner_cases: "same_owner a p = same_owner a' p' \<or> (\<forall>r. same_owner a p r \<longrightarrow> \<not> same_owner a' p' r)"
  by (cases "a = a' \<and> p = p'") (auto simp: same_owner_def)

definition makes_room :: "string \<Rightarrow> string \<Rightarrow> nat \<Rightarrow> diag_record list \<Rightarrow> diag_record list \<Rightarrow> bool" where
  \<comment> \<open>what may be left of a ring to which \<open>n\<close> records of an account are added\<close>
  "makes_room a p n ring kept \<longleftrightarrow>
     subseq kept ring \<and> (\<forall>a' p'. suffix (filter (same_owner a' p') kept) (filter (same_owner a' p') ring)) \<and>
     length kept + n \<le> DIAG_LIMIT \<and> length (filter (same_owner a p) kept) + n \<le> ACCOUNT_LIMIT \<and>
     (length ring + n \<le> DIAG_LIMIT \<and> length (filter (same_owner a p) ring) + n \<le> ACCOUNT_LIMIT \<longrightarrow> kept = ring)"

lemma push_record_step:
  assumes "makes_room a p (length news) ring kept" and "length news < BATCH_EVENTS" and "list_all (same_owner a p) (news @ [r])"
  shows "\<exists>kept'. push_record a p (kept @ news) r = kept' @ news @ [r] \<and> makes_room a p (length (news @ [r])) ring kept'"
proof -
  let ?P = "same_owner a p"
  have own: "filter ?P news = news" using assms(3) by (simp add: list_all_iff)
  define k1 where "k1 = (if ACCOUNT_LIMIT \<le> length (filter ?P kept) + length news then remove_first ?P kept else kept)"
  define k2 where "k2 = (if length (k1 @ news) = DIAG_LIMIT then tl k1 else k1)"
  have m: "subseq kept ring" "\<And>a' p'. suffix (filter (same_owner a' p') kept) (filter (same_owner a' p') ring)"
    "length kept + length news \<le> DIAG_LIMIT" "length (filter ?P kept) + length news \<le> ACCOUNT_LIMIT"
    "length ring + length news \<le> DIAG_LIMIT \<Longrightarrow> length (filter ?P ring) + length news \<le> ACCOUNT_LIMIT \<Longrightarrow> kept = ring"
    using assms(1) by (auto simp: makes_room_def)
  have len: "length news < ACCOUNT_LIMIT" "length news < DIAG_LIMIT" using assms(2) by (simp_all add: limits)
  have first: "(if ACCOUNT_LIMIT \<le> length (filter ?P (kept @ news)) then remove_first ?P (kept @ news) else kept @ news) = k1 @ news"
  proof (cases "ACCOUNT_LIMIT \<le> length (filter ?P kept) + length news")
    case True
    then have "filter ?P kept \<noteq> []" using len(1) by auto
    then have "\<exists>x \<in> set kept. ?P x" by (auto simp: filter_empty_conv)
    then show ?thesis using True own by (simp add: k1_def remove_first_append)
  next
    case False
    then show ?thesis using own by (simp add: k1_def)
  qed
  have "k1 \<noteq> []" if "length (k1 @ news) = DIAG_LIMIT" using that len(2) by auto
  then have push: "push_record a p (kept @ news) r = k2 @ news @ [r]"
    unfolding push_record_def Let_def first k2_def by auto
  have sub1: "subseq k1 kept" by (simp add: k1_def remove_first_subseq)
  have "subseq k2 k1" by (cases k1) (auto simp: k2_def)
  then have sub: "subseq k2 ring" using sub1 m(1) by (meson subseq_order.trans)
  have suf1: "suffix (filter (same_owner a' p') k1) (filter (same_owner a' p') kept)" for a' p'
    using same_owner_cases [of a p a' p'] suffix_tl [of "filter (same_owner a' p') kept"]
    by (auto simp: k1_def filter_remove_first filter_remove_other)
  have suf: "suffix (filter (same_owner a' p') k2) (filter (same_owner a' p') ring)" for a' p'
  proof -
    have "suffix (filter (same_owner a' p') k2) (filter (same_owner a' p') k1)" by (simp add: k2_def suffix_filter_tl)
    then show ?thesis using suf1 [of a' p'] m(2) [of a' p'] by (meson suffix_order.trans)
  qed
  have l1: "length k1 \<le> length kept" using sub1 by (rule list_emb_length)
  have c1: "length (filter ?P k1) + length news < ACCOUNT_LIMIT" using m(4) len(1) by (auto simp: k1_def filter_remove_first)
  have c2: "length (filter ?P k2) \<le> length (filter ?P k1)" by (simp add: k2_def) (metis suffix_filter_tl suffix_length_le)
  have "length k2 + Suc (length news) \<le> DIAG_LIMIT" using l1 m(3) len(2) by (auto simp: k2_def)
  moreover have "k2 = ring" if "length ring + Suc (length news) \<le> DIAG_LIMIT" "length (filter ?P ring) + Suc (length news) \<le> ACCOUNT_LIMIT"
    using m(5) that by (simp add: k1_def k2_def)
  ultimately have "makes_room a p (length (news @ [r])) ring k2" using sub suf c1 c2 by (simp add: makes_room_def)
  then show ?thesis using push by blast
qed

lemma push_all:
  assumes "makes_room a p 0 ring ring" and "length news \<le> BATCH_EVENTS" and "list_all (same_owner a p) news"
  shows "\<exists>kept. foldl (push_record a p) ring news = kept @ news \<and> makes_room a p (length news) ring kept"
  using assms(2,3)
proof (induction news rule: rev_induct)
  case Nil
  show ?case using assms(1) by simp
next
  case (snoc r news)
  then obtain kept where k: "foldl (push_record a p) ring news = kept @ news" "makes_room a p (length news) ring kept" by auto
  show ?case using push_record_step [OF k(2) _ snoc.prems(2)] snoc.prems(1) k(1) by auto
qed

definition event_key :: "diag_record \<Rightarrow> string \<times> string \<times> string \<times> int" where
  "event_key r = (so_account (dr_source r), so_profile (dr_source r), so_client (dr_source r), ev_sequence (dr_event r))"

lemma same_event_key: "same_event r q \<longleftrightarrow> event_key q = event_key r"
  by (auto simp: same_event_def same_owner_def event_key_def)

lemma dedupe_exact:
  assumes "distinct (map event_key acc)" and "event_key ` set acc \<inter> event_key ` set ring = {}"
  shows "\<exists>news. dedupe ring acc rs = acc @ news \<and> subseq news rs \<and> distinct (map event_key (acc @ news)) \<and>
    event_key ` set (acc @ news) \<inter> event_key ` set ring = {} \<and> event_key ` set rs \<subseteq> event_key ` set (ring @ acc @ news)"
  using assms
proof (induction ring acc rs rule: dedupe.induct)
  case (2 ring acc r rs)
  show ?case
  proof (cases "list_ex (same_event r) (ring @ acc)")
    case True
    then have "event_key r \<in> event_key ` set (ring @ acc)" unfolding list_ex_iff by (metis same_event_key image_eqI)
    then show ?thesis using "2.IH"(1) [OF True "2.prems"] True by (auto intro: subseq_Cons')
  next
    case False
    then have new: "event_key r \<notin> event_key ` set (ring @ acc)" by (auto simp: list_ex_iff same_event_key)
    then have "distinct (map event_key (acc @ [r]))" "event_key ` set (acc @ [r]) \<inter> event_key ` set ring = {}" using "2.prems" by auto
    from "2.IH"(2) [OF False this] obtain news where n: "dedupe ring (acc @ [r]) rs = (acc @ [r]) @ news" "subseq news rs"
      "distinct (map event_key ((acc @ [r]) @ news))" "event_key ` set ((acc @ [r]) @ news) \<inter> event_key ` set ring = {}"
      "event_key ` set rs \<subseteq> event_key ` set (ring @ (acc @ [r]) @ news)" by blast
    show ?thesis by (rule exI [of _ "r # news"]) (use n False in auto)
  qed
qed auto

section \<open>The state\<close>

definition diag_ok :: "diag_env \<Rightarrow> diag_state \<Rightarrow> bool" where
  "diag_ok env s \<longleftrightarrow>
     ring_ok env (ds_records s) \<and> wf_map (ds_rates s) \<and> length (ds_rates s) \<le> RATE_LIMIT \<and>
     (\<forall>e \<in> set (ds_rates s). ra_batches (snd e) \<le> BATCHES) \<and> ds_saved s \<le> ds_revision s \<and> ds_revision s < 2 ^ 64"

definition ring_advances :: "diag_state \<Rightarrow> diag_state \<Rightarrow> bool" where
  \<comment> \<open>the ring is only changed under a new revision\<close>
  "ring_advances s s' \<longleftrightarrow>
     ds_revision s \<le> ds_revision s' \<and> (ds_revision s = ds_revision s' \<longrightarrow> ds_records s' = ds_records s) \<and> ds_saved s' = ds_saved s \<and>
     (ds_storage_error s \<longrightarrow> ds_storage_error s')"

lemma ring_advances_refl [simp]: "ring_advances s s"
  by (simp add: ring_advances_def)

lemma ring_advances_trans: "ring_advances a b \<Longrightarrow> ring_advances b c \<Longrightarrow> ring_advances a c"
  unfolding ring_advances_def by (metis le_antisym le_trans)

definition ring_unexpired :: "int \<Rightarrow> diag_record list \<Rightarrow> diag_record list" where
  "ring_unexpired now rs = filter (\<lambda>r. now - ms TTL_MS < dr_received r) rs"

lemma bump_cases:
  obtains "ring_bump s = (Ok (), s\<lparr>ds_revision := ds_revision s + 1\<rparr>)" "ds_revision s + 1 < 2 ^ 64"
  | "ring_bump s = (Err DUnavailable, s\<lparr>ds_disabled := True, ds_storage_error := True\<rparr>)"
  by (cases "ds_revision s + 1 < 2 ^ 64") (auto simp: ring_bump_def)

lemma ring_unexpired_all: "\<not> list_ex (\<lambda>r. dr_received r \<le> now - ms TTL_MS) rs \<Longrightarrow> ring_unexpired now rs = rs"
  unfolding ring_unexpired_def by (rule filter_id_conv2) (auto simp: list_ex_iff not_le)

lemma ring_prune_cases:
  obtains (pruned) s' where "ring_prune now s = (Ok (), s')" "ds_records s' = ring_unexpired now (ds_records s)" "ring_advances s s'"
      "ds_rates s' = filter (\<lambda>e. now - ra_start (snd e) < ms 60000) (ds_rates s)" "ds_disabled s' = ds_disabled s"
      "ds_storage_error s' = ds_storage_error s" "ds_revision s < 2 ^ 64 \<Longrightarrow> ds_revision s' < 2 ^ 64"
  | (full) "ring_prune now s = (Err DUnavailable, s\<lparr>ds_disabled := True, ds_storage_error := True\<rparr>)"
proof (cases "list_ex (\<lambda>r. dr_received r \<le> now - ms TTL_MS) (ds_records s)")
  case True
  show thesis
    by (cases s rule: bump_cases)
       (use True pruned full in \<open>auto simp: ring_prune_def prune_rates_def ring_unexpired_def ring_advances_def Let_def\<close>)
next
  case False
  then show thesis using pruned ring_unexpired_all [OF False] by (simp add: ring_prune_def prune_rates_def ring_advances_def Let_def)
qed

lemma ring_ok_subseq: "ring_ok env rs \<Longrightarrow> subseq rs' rs \<Longrightarrow> ring_ok env rs'"
  unfolding ring_ok_def using subseq_set [of rs' rs] list_emb_length [of _ rs' rs] subseq_filter [of rs' rs]
  by (meson list_emb_length le_trans subsetD)

lemma prune_ok [keeps]:
  assumes "ring_prune now s = (res, s')" and "diag_ok env s"
  shows "diag_ok env s' \<and> ring_advances s s'"
proof (cases now s rule: ring_prune_cases)
  case (pruned s'')
  have "subseq (ring_unexpired now (ds_records s)) (ds_records s)" by (simp add: ring_unexpired_def)
  then show ?thesis
    using assms pruned ring_ok_subseq [of env "ds_records s"] le_trans [OF length_filter_le]
    by (auto simp: diag_ok_def ring_advances_def)
next
  case full
  then show ?thesis using assms by (auto simp: diag_ok_def ring_advances_def)
qed

lemma batch_records_ok:
  assumes "valid_owner a p" and "valid_browser br" and "batch_valid now b" and "clock_range now" and "time_law env"
    and "r \<in> set (batch_records \<lparr>so_account = a, so_profile = p, so_client = [], so_build = [], so_browser = br\<rparr> now b)"
  shows "source_ok r \<and> time_ok env (dr_received r) \<and> same_owner a p r \<and> dr_received r = now"
proof -
  have "time_range now" using assms(4) by (simp add: clock_range_def time_range_def ms_def TTL_MS_def)
  then have "time_ok env now" "now \<noteq> DIAG_ZERO_TIME" using go_time_ok [OF assms(5)] by (auto simp: time_range_def DIAG_ZERO_TIME_def)
  then show ?thesis using assms
    by (auto simp: batch_records_def source_ok_def record_valid_def same_owner_def batch_valid_def list_all_iff ms_def)
qed

lemma ring_ok_room:
  assumes "ring_ok env ring" and "makes_room a p (length news) ring kept" and "list_all (same_owner a p) news"
    and "\<And>r. r \<in> set news \<Longrightarrow> source_ok r \<and> time_ok env (dr_received r)"
  shows "ring_ok env (kept @ news)"
proof -
  have k: "ring_ok env kept" using assms(1,2) by (auto simp: makes_room_def intro: ring_ok_subseq)
  have "length (filter (same_owner a' p') (kept @ news)) \<le> ACCOUNT_LIMIT" for a' p'
  proof (cases "same_owner a' p' = same_owner a p")
    case True
    then show ?thesis using assms(2,3) by (simp add: makes_room_def list_all_iff)
  next
    case False
    then have "filter (same_owner a' p') news = []"
      using assms(3) same_owner_cases [of a' p' a p] by (auto simp: filter_empty_conv list_all_iff)
    then show ?thesis using k by (simp add: ring_ok_def)
  qed
  then show ?thesis using k assms(2,4) by (auto simp: ring_ok_def makes_room_def)
qed

lemma count_batch_ok:
  assumes "diag_ok env s" and "\<not> rate_limited key s"
  shows "diag_ok env (count_batch key now s)"
proof -
  let ?r = "(case map_of (ds_rates s) key of Some r \<Rightarrow> r | None \<Rightarrow> \<lparr>ra_start = now, ra_batches = 0\<rparr>)"
  have "ra_batches ?r < BATCHES" using assms(2) by (auto simp: rate_limited_def BATCHES_def split: option.splits)
  moreover have "length (insert_key key v (ds_rates s)) \<le> RATE_LIMIT" for v
    using assms by (auto simp: length_insert_key diag_ok_def rate_limited_def split: option.splits)
  ultimately show ?thesis using assms(1)
    by (auto simp: diag_ok_def count_batch_def Let_def insert_key_def remove_key_def wf_map_insert_key [unfolded insert_key_def remove_key_def])
qed

text \<open>The effect of an accepted batch on the ring.\<close>

definition appended :: "diag_record list \<Rightarrow> diag_record list \<Rightarrow> string \<Rightarrow> string \<Rightarrow> diag_record list \<Rightarrow> bool" where
  "appended old sent a p ring' \<longleftrightarrow>
     (\<exists>kept news. ring' = kept @ news \<and> makes_room a p (length news) old kept \<and> subseq news sent \<and> distinct (map event_key news) \<and>
        event_key ` set news \<inter> event_key ` set old = {} \<and> event_key ` set sent \<subseteq> event_key ` set (old @ news))"

abbreviation owner_source :: "session_access \<Rightarrow> string \<Rightarrow> diag_source" where
  "owner_source who browser \<equiv>
     \<lparr>so_account = sa_username who, so_profile = sa_profile who, so_client = [], so_build = [], so_browser = browser\<rparr>"

lemma append_admitted:
  assumes "diag_ok env s" and "ds_revision s + 1 < 2 ^ 64" and "\<not> rate_limited key s" and "time_law env" and "clock_range now"
    and "valid_owner (sa_username who) (sa_profile who)" and "valid_browser browser" and "batch_valid now b"
    and "s' = (count_batch key now (s\<lparr>ds_revision := ds_revision s + 1\<rparr>))\<lparr>ds_records :=
      foldl (push_record (sa_username who) (sa_profile who)) (ds_records s) (dedupe (ds_records s) [] (batch_records (owner_source who browser) now b))\<rparr>"
  shows "diag_ok env s' \<and> appended (ds_records s) (batch_records (owner_source who browser) now b) (sa_username who) (sa_profile who) (ds_records s')"
proof -
  let ?sent = "batch_records (owner_source who browser) now b"
  define news where "news = dedupe (ds_records s) [] ?sent"
  have ok: "diag_ok env (count_batch key now (s\<lparr>ds_revision := ds_revision s + 1\<rparr>))"
    using assms(1-3) by (intro count_batch_ok) (auto simp: diag_ok_def rate_limited_def split: option.splits)
  have n: "subseq news ?sent" "distinct (map event_key news)" "event_key ` set news \<inter> event_key ` set (ds_records s) = {}"
    "event_key ` set ?sent \<subseteq> event_key ` set (ds_records s @ news)"
    using dedupe_exact [of "[]" "ds_records s" ?sent] by (auto simp: news_def)
  have mem: "source_ok r \<and> time_ok env (dr_received r) \<and> same_owner (sa_username who) (sa_profile who) r" if "r \<in> set news" for r
    using batch_records_ok [OF assms(6-8,5,4)] subseq_set [OF n(1)] that by blast
  have len: "length news \<le> BATCH_EVENTS"
    using list_emb_length [OF n(1)] assms(8) by (simp add: batch_records_def batch_valid_def)
  have own: "list_all (same_owner (sa_username who) (sa_profile who)) news" using mem by (simp add: list_all_iff)
  have "makes_room (sa_username who) (sa_profile who) 0 (ds_records s) (ds_records s)"
    using assms(1) by (simp add: makes_room_def diag_ok_def ring_ok_def)
  from push_all [OF this len own] obtain kept where
    k: "foldl (push_record (sa_username who) (sa_profile who)) (ds_records s) news = kept @ news"
       "makes_room (sa_username who) (sa_profile who) (length news) (ds_records s) kept" by blast
  have "ring_ok env (kept @ news)" using ring_ok_room [OF _ k(2) own] mem assms(1) by (simp add: diag_ok_def)
  then have "diag_ok env s'" using ok assms(9) k(1) by (simp add: diag_ok_def news_def)
  moreover have "appended (ds_records s) ?sent (sa_username who) (sa_profile who) (ds_records s')"
    unfolding appended_def using n k assms(9) by (intro exI [of _ kept] exI [of _ news]) (simp add: news_def)
  ultimately show ?thesis by simp
qed

lemma append_cases:
  assumes "diag_append env who browser b now s = (res, s')" and "diag_ok env s" and "time_law env" and "clock_range now"
    and "valid_owner (sa_username who) (sa_profile who)" and "valid_browser browser" and "batch_valid now b"
  shows "diag_ok env s' \<and> ring_advances s s' \<and>
    (res = Ok () \<longrightarrow> appended (ring_unexpired now (ds_records s)) (batch_records (owner_source who browser) now b)
       (sa_username who) (sa_profile who) (ds_records s'))"
proof (cases "ds_disabled s")
  case True
  then show ?thesis using assms(1,2) by (auto simp: diag_append_def)
next
  case enabled: False
  show ?thesis
  proof (cases now s rule: ring_prune_cases)
    case full
    then show ?thesis using assms(1) enabled prune_ok [OF full assms(2)] by (auto simp: diag_append_def)
  next
    case (pruned s1)
    have ok1: "diag_ok env s1" "ring_advances s s1" using prune_ok [OF pruned(1) assms(2)] by auto
    let ?key = "de_sha256 env (sa_id who)"
    consider "rate_limited ?key s1" | "\<not> rate_limited ?key s1" by blast
    then show ?thesis
    proof cases
      case 1
      then show ?thesis using assms(1) enabled pruned ok1 by (auto simp: diag_append_def)
    next
      case admitted: 2
      show ?thesis
      proof (cases s1 rule: bump_cases)
        case 2
        then show ?thesis using assms(1) enabled pruned admitted ok1 by (auto simp: diag_append_def diag_ok_def ring_advances_def)
      next
        case 1
        have recs: "ds_records (count_batch ?key now (s1\<lparr>ds_revision := ds_revision s1 + 1\<rparr>)) = ds_records s1" by (simp add: count_batch_def Let_def)
        have out: "res = Ok ()" "s' = (count_batch ?key now (s1\<lparr>ds_revision := ds_revision s1 + 1\<rparr>))\<lparr>ds_records :=
            foldl (push_record (sa_username who) (sa_profile who)) (ds_records s1) (dedupe (ds_records s1) [] (batch_records (owner_source who browser) now b))\<rparr>"
          using assms(1) enabled pruned(1) admitted 1(1) recs by (auto simp: diag_append_def Let_def)
        have "ring_advances s s'" using ok1(2) out(2) by (simp add: ring_advances_def count_batch_def Let_def)
        then show ?thesis using append_admitted [OF ok1(1) 1(2) admitted assms(3-7) out(2)] pruned(2) by simp
      qed
    qed
  qed
qed

lemma report_ok [keeps]:
  assumes "state_report a p now s = (res, s')" and "diag_ok env s"
  shows "diag_ok env s' \<and> ring_advances s s'"
  using assms prune_ok [of now s _ _ env] by (auto simp: state_report_def Let_def split: prod.splits sum.splits)

section \<open>Saving\<close>

lemma diag_write_data: "diag_write reserve p w = Some v \<Longrightarrow> li_data v = li_data w @ p"
  by (auto simp: diag_write_def Let_def split: if_splits option.splits)

lemma diag_writes_data: "diag_writes reserve ps w = Some w' \<Longrightarrow> li_data w' = li_data w @ concat ps"
proof (induction ps arbitrary: w)
  case (Cons p ps)
  then obtain v where "diag_write reserve p w = Some v" "diag_writes reserve ps v = Some w'" by (auto simp: bind_eq_Some_conv)
  then show ?case using Cons.IH [of v] diag_write_data by fastforce
qed simp

lemma diag_writes_bounded:
  "diag_writes reserve ps w = Some w' \<Longrightarrow> length (li_data w) \<le> DIAG_DISK_BYTES \<Longrightarrow> length (li_data w') \<le> DIAG_DISK_BYTES"
proof (induction ps arbitrary: w)
  case (Cons p ps)
  then obtain v where v: "diag_write reserve p w = Some v" "diag_writes reserve ps v = Some w'" by (auto simp: bind_eq_Some_conv)
  have "length p \<le> DIAG_DISK_BYTES - length (li_data w)" using v(1) by (auto simp: diag_write_def split: if_splits)
  then have "length (li_data v) \<le> DIAG_DISK_BYTES" using diag_write_data [OF v(1)] Cons.prems(2) by simp
  then show ?case using Cons.IH [OF v(2)] by blast
qed simp

text \<open>What a file has to hold for the ring to be read back from it.\<close>

definition on_disk :: "diag_env \<Rightarrow> diag_disk \<Rightarrow> diag_record list \<Rightarrow> bool" where
  "on_disk env d rs \<longleftrightarrow>
     (case dd_dir d (dd_name d) of
        None \<Rightarrow> rs = []
      | Some raw \<Rightarrow> length raw \<le> DIAG_DISK_BYTES \<and>
          (\<forall>now. (\<forall>r \<in> set rs. dr_received r - now \<le> ms 300000) \<longrightarrow> decode_disk env now raw = Ok rs))"

lemma persist_cases:
  assumes "persist env io rs d = (res, d')" and "encode_law env" and "ring_ok env rs"
  shows "dd_name d' = dd_name d \<and> (res = Ok () \<longrightarrow> on_disk env d' rs)"
proof (cases "snapshot_bytes env (pe_reserve io) rs")
  case None
  then show ?thesis using assms(1) by (auto simp: persist_def)
next
  case (Some raw)
  then obtain pieces w where p: "de_encode env (snapshot_json env rs) = Some pieces"
      "diag_writes (pe_reserve io) pieces \<lparr>li_data = [], li_capacity = 0\<rparr> = Some w" "raw = li_data w"
    by (auto simp: snapshot_bytes_def bind_eq_Some_conv)
  have raw: "raw = concat pieces" "length raw \<le> DIAG_DISK_BYTES"
    using diag_writes_data [OF p(2)] diag_writes_bounded [OF p(2)] p(3) by simp_all
  have "decode_disk env now raw = Ok rs" if "\<forall>r \<in> set rs. dr_received r - now \<le> ms 300000" for now
    using decode_snapshot [OF assms(2,3) p(1)] raw that by blast
  then have disk: "on_disk env (d\<lparr>dd_dir := (dd_dir d)(dd_name d \<mapsto> raw), dd_expected := x\<rparr>) rs" for x
    using raw(2) by (simp add: on_disk_def)
  then show ?thesis using assms(1) Some
    by (auto simp: persist_def write_atomic_def Let_def split: sum.splits if_splits write_result.splits bool.splits)
qed

lemma persist_foreign:
  \<comment> \<open>a file somebody else has changed is not overwritten\<close>
  assumes "map_option (de_sha256 env) (dd_dir d (dd_name d)) \<noteq> dd_expected d"
  shows "persist env io rs d = (Err DUnavailable, d)"
  using assms by (auto simp: persist_def disk_read_def read_private_def split: option.splits sum.splits if_splits read_error.splits)

inductive diag_step :: "diag_env \<Rightarrow> diag_store \<Rightarrow> diag_store \<Rightarrow> bool" for env where
  append: "clock_range now \<Longrightarrow> store_append env c who browser b now st = (res, st') \<Longrightarrow> diag_step env st st'"
| report: "store_report c who now st = (res, st') \<Longrightarrow> diag_step env st st'"
| snapshot: "st_saving st = Idle \<Longrightarrow> \<not> st_done st \<Longrightarrow> diag_step env st (flush_snapshot now st)"
| persist: "diag_step env st (flush_persist env io st)"
| lost: "diag_step env st (flush_lost st)"
| result: "diag_step env st (flush_result st)"
| shutdown: "diag_step env st (diag_shutdown st)"
| finished: "st_closed st \<Longrightarrow> st_saving st = Idle \<Longrightarrow> diag_step env st (run_finished st)"

definition saving_ok :: "diag_env \<Rightarrow> diag_store \<Rightarrow> bool" where
  "saving_ok env st \<longleftrightarrow>
     (let s = st_state st; pending = (\<lambda>revision rs. ds_saved s < revision \<and> revision \<le> ds_revision s \<and> ring_ok env rs \<and>
            (revision = ds_revision s \<longrightarrow> rs = ds_records s)) in
      case st_saving st of
        Idle \<Rightarrow> True
      | Saving revision rs \<Rightarrow> pending revision rs
      | Persisted revision rs res \<Rightarrow> pending revision rs \<and> (res = Some (Ok ()) \<longrightarrow> on_disk env (st_disk st) rs))"

definition diag_store_ok :: "diag_env \<Rightarrow> diag_store \<Rightarrow> bool" where
  "diag_store_ok env st \<longleftrightarrow>
     diag_ok env (st_state st) \<and> saving_ok env st \<and>
     (ds_saved (st_state st) = ds_revision (st_state st) \<and> \<not> ds_storage_error (st_state st) \<longrightarrow> on_disk env (st_disk st) (ds_records (st_state st)))"

lemma advances_diag_store_ok:
  assumes "diag_store_ok env st" and "diag_ok env s" and "ring_advances (st_state st) s"
  shows "diag_store_ok env (st\<lparr>st_state := s\<rparr>)"
proof -
  have "ds_saved (st_state st) \<le> ds_revision (st_state st)" using assms(1) by (simp add: diag_store_ok_def diag_ok_def)
  then show ?thesis using assms by (auto simp: diag_store_ok_def saving_ok_def ring_advances_def Let_def split: saving.splits)
qed

lemma snapshot_keeps [keeps]: "diag_store_ok env st \<Longrightarrow> st_saving st = Idle \<Longrightarrow> diag_store_ok env (flush_snapshot now st)"
proof -
  assume ok: "diag_store_ok env st" and idle: "st_saving st = Idle"
  obtain res s where p: "ring_prune now (st_state st) = (res, s)" by fastforce
  have s: "diag_ok env s" "ring_advances (st_state st) s" using prune_ok [OF p] ok by (auto simp: diag_store_ok_def)
  then have ok': "diag_store_ok env (st\<lparr>st_state := s\<rparr>)" using ok by (intro advances_diag_store_ok)
  show ?thesis
  proof (cases "isl res \<or> ds_disabled s \<or> ds_saved s = ds_revision s")
    case True
    then have "flush_snapshot now st = st\<lparr>st_state := s\<rparr>" using p by (auto simp: flush_snapshot_def split: sum.splits)
    then show ?thesis using ok' by simp
  next
    case False
    then have eq: "flush_snapshot now st = st\<lparr>st_state := s, st_saving := Saving (ds_revision s) (ds_records s)\<rparr>"
      using p by (auto simp: flush_snapshot_def split: sum.splits)
    have "ds_saved s < ds_revision s" "ring_ok env (ds_records s)" using False s(1) by (auto simp: diag_ok_def)
    then show ?thesis unfolding eq using ok' by (simp add: diag_store_ok_def saving_ok_def Let_def)
  qed
qed

lemma persist_keeps [keeps]: "diag_store_ok env st \<Longrightarrow> encode_law env \<Longrightarrow> diag_store_ok env (flush_persist env io st)"
proof (cases "st_saving st")
  case (Saving revision rs)
  assume ok: "diag_store_ok env st" and law: "encode_law env"
  have pend: "ds_saved (st_state st) < revision" "revision \<le> ds_revision (st_state st)" "ring_ok env rs"
    "revision = ds_revision (st_state st) \<Longrightarrow> rs = ds_records (st_state st)"
    using ok Saving by (auto simp: diag_store_ok_def saving_ok_def Let_def)
  obtain res d where p: "persist env io rs (st_disk st) = (res, d)" by fastforce
  have "flush_persist env io st = st\<lparr>st_disk := d, st_saving := Persisted revision rs (Some res)\<rparr>" using Saving p by (simp add: flush_persist_def)
  then show ?thesis using ok pend persist_cases [OF p law pend(3)] by (auto simp: diag_store_ok_def saving_ok_def Let_def)
qed (simp_all add: flush_persist_def)

lemma result_keeps [keeps]: "diag_store_ok env st \<Longrightarrow> diag_store_ok env (flush_result st)"
  by (auto simp: flush_result_def diag_store_ok_def saving_ok_def Let_def diag_ok_def split: saving.splits option.splits sum.splits)

lemma lost_keeps [keeps]: "diag_store_ok env st \<Longrightarrow> diag_store_ok env (flush_lost st)"
  by (auto simp: flush_lost_def diag_store_ok_def saving_ok_def Let_def split: saving.splits)

lemma append_keeps [keeps]:
  assumes "store_append env c who browser b now st = (res, st')" and "diag_store_ok env st" and "time_law env" and "clock_range now"
  shows "diag_store_ok env st' \<and> st_disk st' = st_disk st"
proof (cases "st' = st")
  case False
  then obtain s where s: "diag_append env who browser b now (st_state st) = (res, s)" "st' = st\<lparr>st_state := s\<rparr>"
      "valid_owner (sa_username who) (sa_profile who)" "valid_browser browser" "batch_valid now b"
    using assms(1) by (auto simp: store_append_def split: if_splits prod.splits)
  have "diag_ok env (st_state st)" using assms(2) by (simp add: diag_store_ok_def)
  then show ?thesis using append_cases [OF s(1) _ assms(3,4) s(3-5)] advances_diag_store_ok [OF assms(2)] s(2) by simp
qed (use assms in simp)

lemma report_keeps [keeps]:
  assumes "store_report c who now st = (res, st')" and "diag_store_ok env st"
  shows "diag_store_ok env st' \<and> st_disk st' = st_disk st"
proof (cases "st' = st")
  case False
  then obtain r s where s: "state_report (sa_username who) (sa_profile who) now (st_state st) = (r, s)" "st' = st\<lparr>st_state := s\<rparr>"
    using assms(1) by (auto simp: store_report_def split: if_splits prod.splits)
  have "diag_ok env (st_state st)" using assms(2) by (simp add: diag_store_ok_def)
  then show ?thesis using report_ok [OF s(1)] advances_diag_store_ok [OF assms(2)] s(2) by simp
qed (use assms in simp)

lemma disk_name [simp]: "dd_name (st_disk (flush_snapshot now st)) = dd_name (st_disk st)"
  "dd_name (st_disk (flush_persist env io st)) = dd_name (st_disk st)" "dd_name (st_disk (flush_lost st)) = dd_name (st_disk st)"
  "dd_name (st_disk (flush_result st)) = dd_name (st_disk st)"
  by (simp_all add: flush_snapshot_def flush_persist_def flush_lost_def flush_result_def persist_def Let_def
      split: prod.splits sum.splits saving.splits option.splits write_result.splits bool.splits)

interpretation diagnostics: step_invariant "diag_step env"
  "\<lambda>st. time_law env \<and> encode_law env \<and> diag_store_ok env st \<and> dd_name (st_disk st) = name"
proof
  fix s s' assume "diag_step env s s'" and inv: "time_law env \<and> encode_law env \<and> diag_store_ok env s \<and> dd_name (st_disk s) = name"
  then show "time_law env \<and> encode_law env \<and> diag_store_ok env s' \<and> dd_name (st_disk s') = name"
  proof cases
    case append
    then show ?thesis using append_keeps inv by metis
  next
    case report
    then show ?thesis using report_keeps inv by metis
  next
    case finished
    then show ?thesis using inv by (simp add: run_finished_def diag_store_ok_def saving_ok_def)
  next
    case shutdown
    then show ?thesis using inv by (simp add: diag_shutdown_def diag_store_ok_def saving_ok_def Let_def cong: saving.case_cong)
  qed (use inv in \<open>auto intro: keeps\<close>)
qed

lemma ring_ok_Nil [simp]: "ring_ok env []"
  by (simp add: ring_ok_def)

lemma filter_twice: "length (filter P (filter Q xs)) \<le> length (filter P xs)"
  by (induction xs) auto

lemma load_shape:
  assumes "diag_load env readable now \<lparr>dd_dir = dir, dd_name = name, dd_expected = None\<rparr> = (s, d)"
  obtains rs disabled where "s = diag_new rs disabled" "dd_name d = name" "ring_shape rs" "\<And>r. r \<in> set rs \<Longrightarrow> dr_received r - now \<le> ms 300000"
    "disabled \<or> on_disk env d rs"
proof (cases "disk_read readable \<lparr>dd_dir = dir, dd_name = name, dd_expected = None\<rparr>")
  case (Inr r)
  then have held: "dir name = r" "r = Some raw \<Longrightarrow> length raw \<le> DIAG_DISK_BYTES" for raw
    by (auto simp: disk_read_def read_private_def split: sum.splits read_error.splits if_splits option.splits)
  show ?thesis
  proof (cases r)
    case None
    then show ?thesis using assms Inr held(1) that [of "[]" False] by (auto simp: diag_load_def on_disk_def ring_shape_def)
  next
    case (Some raw)
    show ?thesis
    proof (cases "decode_disk env now raw")
      case dec: (Inr rs)
      have d: "s = diag_new rs False" "d = \<lparr>dd_dir = dir, dd_name = name, dd_expected = Some (de_sha256 env raw)\<rparr>"
        using assms Inr Some dec by (auto simp: diag_load_def)
      have "on_disk env d rs" using held Some decode_diskD(3) [OF dec] by (auto simp: d(2) on_disk_def)
      then show ?thesis using that [OF d(1)] d(2) decode_diskD(1,2) [OF dec] by simp
    next
      case (Inl e)
      then show ?thesis using assms Inr Some that [of "[]" True] by (auto simp: diag_load_def ring_shape_def)
    qed
  qed
next
  case (Inl e)
  then show ?thesis using assms that [of "[]" True] by (auto simp: diag_load_def ring_shape_def)
qed

lemma open_ok:
  assumes "diag_open env file_name admitted readable now1 now2 dir name = Ok st" and "time_law env" and "clock_range now1" and "clock_range now2"
  shows "diag_store_ok env st \<and> dd_name (st_disk st) = name \<and> name \<noteq> []"
proof -
  obtain s d s' where l: "diag_load env readable now1 \<lparr>dd_dir = dir, dd_name = name, dd_expected = None\<rparr> = (s, d)"
      "ring_prune now2 s = (Ok (), s')" "st = \<lparr>st_state = s', st_disk = d, st_closed = False, st_done = False, st_saving = Idle\<rparr>" "name \<noteq> []"
    using assms(1) by (auto simp: diag_open_def split: if_splits prod.splits sum.splits)
  obtain rs disabled where load: "s = diag_new rs disabled" "dd_name d = name" "ring_shape rs" "\<And>r. r \<in> set rs \<Longrightarrow> dr_received r - now1 \<le> ms 300000"
    "disabled \<or> on_disk env d rs"
    using load_shape [OF l(1)] by metis
  have kept: "ds_records s' = ring_unexpired now2 rs" "ring_advances s s'" "ds_rates s' = []" "ds_storage_error s' = disabled" "ds_revision s' < 2 ^ 64"
    using l(2) by (cases now2 s rule: ring_prune_cases; simp add: load(1) diag_new_def)+
  have "time_ok env (dr_received r)" if "r \<in> set (ring_unexpired now2 rs)" for r
  proof (rule go_time_ok [OF assms(2)])
    have "r \<in> set rs" "now2 - ms TTL_MS < dr_received r" using that by (auto simp: ring_unexpired_def)
    then show "time_range (dr_received r)" using load(4) assms(3,4) by (force simp: clock_range_def time_range_def)
  qed
  moreover have "subseq (ring_unexpired now2 rs) rs" by (simp add: ring_unexpired_def)
  then have "ring_shape (ring_unexpired now2 rs)" using load(3) unfolding ring_shape_def ring_unexpired_def
    by (auto intro: order_trans [OF length_filter_le] order_trans [OF filter_twice] simp del: filter_filter)
  ultimately have "ring_ok env (ds_records s')" by (simp add: kept(1) ring_ok_def ring_shape_def)
  then have "diag_ok env s'" using kept by (simp add: diag_ok_def wf_map_def keys_def ring_advances_def load(1) diag_new_def)
  moreover have "on_disk env d (ds_records s')" if "ds_saved s' = ds_revision s'" "\<not> ds_storage_error s'"
    using that kept(2,4) load(5) by (simp add: ring_advances_def load(1) diag_new_def)
  ultimately show ?thesis using l(3,4) load(2) by (simp add: diag_store_ok_def saving_ok_def)
qed

lemmas diagnostics_run = diagnostics.run_keeps

lemma diagnostics_run_ok:
  assumes "time_law env" and "encode_law env" and "clock_range now1" and "clock_range now2"
    and "diag_open env file_name admitted readable now1 now2 dir name = Ok st0" and "(diag_step env)\<^sup>*\<^sup>* st0 st"
  shows "diag_store_ok env st \<and> dd_name (st_disk st) = name \<and> name \<noteq> []"
  using diagnostics_run [OF assms(6), of name] open_ok [OF assms(5,1,3,4)] assms(1,2) by simp

text \<open>
  C20: Whatever has been sent before, an accepted batch has exactly this effect on the ring: what is
  older than seven days goes, the events of the batch that are not in the ring yet are added once
  and in their order, for the account of the login, every account keeps the newest of its records, nothing
  is dropped while there is room, and the ring holds at most 2048 records and 256 of an account. The clock of the gateway is
  to be in the years 1970 to 9999.
\<close>

theorem diagnostics_append_exact:
  assumes "time_law env" and "encode_law env" and "clock_range now1" and "clock_range now2"
    and "diag_open env file_name admitted readable now1 now2 dir name = Ok st0" and "(diag_step env)\<^sup>*\<^sup>* st0 st"
    and "clock_range now" and "store_append env c who browser b now st = (Ok (), st')"
  shows "\<exists>kept news. let old = filter (\<lambda>r. now - ms TTL_MS < dr_received r) (ds_records (st_state st));
       sent = batch_records (owner_source who browser) now b; mine = same_owner (sa_username who) (sa_profile who) in
     ds_records (st_state st') = kept @ news \<and> subseq news sent \<and> subseq kept old \<and>
     distinct (map event_key news) \<and> event_key ` set news \<inter> event_key ` set old = {} \<and> event_key ` set sent \<subseteq> event_key ` set (old @ news) \<and>
     (\<forall>a p. suffix (filter (same_owner a p) kept) (filter (same_owner a p) old)) \<and>
     (length old + length news \<le> 2048 \<and> length (filter mine old) + length news \<le> 256 \<longrightarrow> kept = old) \<and>
     length (kept @ news) \<le> 2048 \<and> (\<forall>a p. length (filter (same_owner a p) (kept @ news)) \<le> 256)"
proof -
  have ok: "diag_store_ok env st" using diagnostics_run_ok [OF assms(1-6)] by simp
  obtain s where s: "diag_append env who browser b now (st_state st) = (Ok (), s)" "st' = st\<lparr>st_state := s\<rparr>"
      "valid_owner (sa_username who) (sa_profile who)" "valid_browser browser" "batch_valid now b"
    using assms(8) by (auto simp: store_append_def split: if_splits prod.splits)
  have "diag_ok env (st_state st)" using ok by (simp add: diag_store_ok_def)
  note a = append_cases [OF s(1) this assms(1,7) s(3-5)]
  then obtain kept news where k: "ds_records s = kept @ news" "makes_room (sa_username who) (sa_profile who) (length news) (ring_unexpired now (ds_records (st_state st))) kept"
      "subseq news (batch_records (owner_source who browser) now b)" "distinct (map event_key news)"
      "event_key ` set news \<inter> event_key ` set (ring_unexpired now (ds_records (st_state st))) = {}"
      "event_key ` set (batch_records (owner_source who browser) now b) \<subseteq> event_key ` set (ring_unexpired now (ds_records (st_state st)) @ news)"
    unfolding appended_def by blast
  have "ring_ok env (kept @ news)" using a k(1) by (simp add: diag_ok_def)
  then show ?thesis
    using k s(2) by (intro exI [of _ kept] exI [of _ news]) (simp add: Let_def ring_unexpired_def makes_room_def ring_ok_def DIAG_LIMIT_def ACCOUNT_LIMIT_def)
qed

text \<open>
  C19: A report that says that storage works and nothing waits to be saved is true: a gateway that is started again from
  the file of that moment, by a clock that is not more than five minutes behind a record, has every record of the ring that has not expired,
  whatever requests, saves and failures came before. The clock of the gateway is to be in the years 1970 to 9999.
\<close>

theorem diagnostics_survive_restart:
  assumes "time_law env" and "encode_law env" and "clock_range now1" and "clock_range now2"
    and "diag_open env file_name admitted readable now1 now2 dir name = Ok st0" and "(diag_step env)\<^sup>*\<^sup>* st0 st"
    and "store_report c who now st = (Ok rep, st')" and "\<not> re_pending_save rep" and "re_storage_ok rep"
    and "\<And>r. r \<in> set (ds_records (st_state st')) \<Longrightarrow> dr_received r - now3 \<le> ms 300000"
  shows "\<exists>st1. diag_open env True True True now3 now4 (dd_dir (st_disk st')) name = Ok st1 \<and>
    ds_records (st_state st1) = filter (\<lambda>r. now4 - ms TTL_MS < dr_received r) (ds_records (st_state st')) \<and>
    re_events rep = filter (same_owner (sa_username who) (sa_profile who)) (ds_records (st_state st'))"
proof -
  have ok: "diag_store_ok env st" "dd_name (st_disk st) = name" "name \<noteq> []" using diagnostics_run_ok [OF assms(1-6)] by auto
  have ok': "diag_store_ok env st'" "st_disk st' = st_disk st" using report_keeps [OF assms(7) ok(1)] by auto
  have rep: "re_pending_save rep = (ds_saved (st_state st') \<noteq> ds_revision (st_state st'))" "re_storage_ok rep = (\<not> ds_storage_error (st_state st'))"
      "re_events rep = filter (same_owner (sa_username who) (sa_profile who)) (ds_records (st_state st'))"
    using assms(7) by (auto simp: store_report_def state_report_def Let_def split: if_splits prod.splits sum.splits)
  have disk: "on_disk env (st_disk st') (ds_records (st_state st'))" using ok'(1) rep assms(8,9) by (simp add: diag_store_ok_def)
  let ?d = "\<lparr>dd_dir = dd_dir (st_disk st'), dd_name = name, dd_expected = None\<rparr>"
  obtain d where load: "diag_load env True now3 ?d = (diag_new (ds_records (st_state st')) False, d)"
    using disk assms(10) ok(2) ok'(2)
    by (auto simp: on_disk_def diag_load_def disk_read_def read_private_def split: option.splits)
  have "fst (ring_prune now4 (diag_new rs False)) = Ok ()" "ds_records (snd (ring_prune now4 (diag_new rs False))) = ring_unexpired now4 rs" for rs
    using ring_unexpired_all [of now4 rs]
    by (auto simp: ring_prune_def Let_def ring_bump_def diag_new_def prune_rates_def ring_unexpired_def)
  then obtain s where "ring_prune now4 (diag_new (ds_records (st_state st')) False) = (Ok (), s)" "ds_records s = ring_unexpired now4 (ds_records (st_state st'))"
    by (metis prod.collapse)
  then show ?thesis using load ok(3) rep(3) by (simp add: diag_open_def ring_unexpired_def)
qed

section \<open>A run\<close>

definition sample_event :: diag_event where
  "sample_event = \<lparr>ev_sequence = 1, ev_at = 1000000000000, ev_kind = ApiFailed, ev_reason = RTimeout, ev_route = EmptyRoute, ev_code = 504, ev_attempt = 0,
     ev_retry_ms = 0, ev_duration_ms = 0, ev_line = 0, ev_column = 0, ev_online = True, ev_visible = True, ev_standalone = False\<rparr>"

definition sample_batch :: batch where
  "sample_batch = \<lparr>ba_version = 1, ba_client = ''01234567-89ab-4cde-8fab-0123456789ab'', ba_build = ''development'', ba_events = [sample_event, sample_event]\<rparr>"

definition sample_access :: session_access where
  "sample_access = \<lparr>sa_id = ''id'', sa_expires_at = 10, sa_csrf = [], sa_username = ''owner'', sa_profile = [], sa_cancelled = 0\<rparr>"

definition sample_check :: access_check where
  "sample_check = \<lparr>ac_cancelled = False, ac_gone = False, ac_now = 0\<rparr>"

text \<open>A clock that counts seconds in nineteen digits where the library has a date and a time of day.\<close>

definition sample_now :: int where "sample_now = 1000000000000000000"

definition padded :: "nat \<Rightarrow> nat \<Rightarrow> string" where
  "padded k n = replicate (k - length (decimal n)) (CHR ''0'') @ decimal n"

definition sample_clock_text :: "int \<Rightarrow> string" where
  "sample_clock_text t = padded 19 (nat (t div 1000000000)) @ ''.'' @ padded 9 (nat (t mod 1000000000)) @ ''Z''"

definition sample_clock_read :: "string \<Rightarrow> int option" where
  "sample_clock_read s =
     (let fraction = takeWhile is_ascii_digit (drop 20 s) in
      Some (int (undecimal 0 (take 19 s)) * 1000000000 + int (undecimal 0 (fraction @ replicate (9 - length fraction) (CHR ''0'')))))"

lemma undecimal_padded: "undecimal 0 (padded k n) = n"
proof -
  have "undecimal 0 (replicate m (CHR ''0'') @ xs) = undecimal 0 xs" for m xs by (induction m) (simp_all add: code_def)
  then show ?thesis by (simp add: padded_def undecimal_decimal)
qed

lemma padded_digits: "list_all is_ascii_digit (padded k n)"
  using decimal_digits [of n] by (auto simp: padded_def list_all_iff is_ascii_digit_def code_def)

lemma padded_length: "n < 10 ^ Suc k \<Longrightarrow> length (padded (Suc k) n) = Suc k"
  using decimal_length [of n k] by (simp add: padded_def)

lemma clock_text_read:
  assumes "length date = 19" "length fraction = 9" "list_all is_ascii_digit fraction" "n \<le> 9" "drop n fraction = replicate (9 - n) (CHR ''0'')"
  shows "sample_clock_read (date @ (if n = 0 then [] else ''.'' @ take n fraction) @ ''Z'') =
    Some (int (undecimal 0 date) * 1000000000 + int (undecimal 0 fraction))"
proof -
  have "list_all is_ascii_digit (take n fraction)" using assms(3) by (auto simp: list_all_iff dest: in_set_takeD)
  then have "takeWhile is_ascii_digit (take n fraction @ ''Z'') = take n fraction"
    by (simp add: takeWhile_append list_all_iff is_ascii_digit_def code_def)
  moreover have "take n fraction @ replicate (9 - n) (CHR ''0'') = fraction"
    using assms(5) by (metis append_take_drop_id)
  ultimately show ?thesis using assms(1,2,4) by (auto simp: sample_clock_read_def Let_def min_def)
qed

definition sample_record :: diag_record where
  "sample_record = \<lparr>dr_source = \<lparr>so_account = ''owner'', so_profile = [], so_client = ''01234567-89ab-4cde-8fab-0123456789ab'', so_build = ''development'',
     so_browser = ''Firefox on Linux''\<rparr>, dr_received = sample_now, dr_event = sample_event\<rparr>"

definition sample_bare :: diag_env where
  "sample_bare = \<lparr>de_parse = (\<lambda>_. None), de_encode = (\<lambda>_. None), de_parse_time = sample_clock_read, de_rfc3339_nanos = sample_clock_text, de_sha256 = (\<lambda>b. b)\<rparr>"

definition sample_diag :: diag_env where
  "sample_diag = sample_bare\<lparr>de_parse := (\<lambda>b. if b = CHR 0x7B # ''}'' then Some (snapshot_json sample_bare [sample_record]) else None),
     de_encode := (\<lambda>j. if j = snapshot_json sample_bare [sample_record] then Some [[CHR 0x7B], ''}''] else None)\<rparr>"

lemma sample_time_law: "time_law sample_diag"
  unfolding time_law_def
proof (intro allI impI)
  fix t :: int assume "time_range t"
  then have t: "0 \<le> t" "t < 253402300800000000000" by (simp_all add: time_range_def)
  let ?date = "padded 19 (nat (t div 1000000000))" and ?fraction = "padded 9 (nat (t mod 1000000000))"
  have "nat (t div 1000000000) < 10 ^ Suc 18" "nat (t mod 1000000000) < 10 ^ Suc 8" using t by simp_all
  from padded_length [OF this(1)] padded_length [OF this(2)] have l: "length ?date = 19" "length ?fraction = 9" by simp_all
  have env: "de_rfc3339_nanos sample_diag = sample_clock_text" "de_parse_time sample_diag = sample_clock_read" by (simp_all add: sample_diag_def sample_bare_def)
  have "int (undecimal 0 ?date) * 1000000000 + int (undecimal 0 ?fraction) = t" using t div_mult_mod_eq [of t 1000000000] by (simp add: undecimal_padded pos_imp_zdiv_nonneg_iff)
  then show "\<exists>date fraction. de_rfc3339_nanos sample_diag t = date @ ''.'' @ fraction @ ''Z'' \<and> length date = 19 \<and> length fraction = 9 \<and>
      list_all is_ascii_digit fraction \<and>
      (\<forall>n \<le> 9. drop n fraction = replicate (9 - n) (CHR ''0'') \<longrightarrow>
         de_parse_time sample_diag (date @ (if n = 0 then [] else ''.'' @ take n fraction) @ ''Z'') = Some t)"
    using l padded_digits clock_text_read [OF l padded_digits] unfolding env
    by (intro exI [of _ ?date] exI [of _ ?fraction]) (auto simp: sample_clock_text_def)
qed

lemma sample_encode_law: "encode_law sample_diag"
  by (auto simp: encode_law_def sample_diag_def starts_object_def is_ascii_whitespace_def snapshot_json_def split: if_splits)

lemma sample_clock: "clock_range sample_now"
  by (simp add: clock_range_def time_range_def sample_now_def ms_def TTL_MS_def)

definition sample_store0 :: diag_store where
  "sample_store0 = \<lparr>st_state = diag_new [] False, st_disk = \<lparr>dd_dir = Map.empty, dd_name = ''d'', dd_expected = None\<rparr>, st_closed = False,
     st_done = False, st_saving = Idle\<rparr>"

lemma sample_opened: "diag_open sample_diag True True True sample_now sample_now Map.empty ''d'' = Ok sample_store0"
  by (simp add: diag_open_def diag_load_def disk_read_def read_private_def sample_store0_def ring_prune_def diag_new_def prune_rates_def Let_def)

definition sample_store1 :: diag_store where
  "sample_store1 = sample_store0\<lparr>st_state := \<lparr>ds_records = [sample_record], ds_rates = [(''id'', \<lparr>ra_start = sample_now, ra_batches = 1\<rparr>)],
     ds_revision = 1, ds_saved = 0, ds_disabled = False, ds_storage_error = False\<rparr>\<rparr>"

lemma sample_valid: "valid_owner ''owner'' []" "valid_browser ''Firefox on Linux''" "batch_valid sample_now sample_batch"
  by code_simp+

lemma sample_appended:
  "store_append sample_diag sample_check sample_access ''Firefox on Linux'' sample_batch sample_now sample_store0 = (Ok (), sample_store1)"
proof -
  have "batch_records (owner_source sample_access ''Firefox on Linux'') sample_now sample_batch = [sample_record, sample_record]"
    by (simp add: batch_records_def sample_batch_def sample_record_def sample_access_def)
  then show ?thesis using sample_valid
    by (simp add: store_append_def diag_authorized_def sample_check_def sample_access_def sample_store0_def sample_store1_def diag_append_def
        ring_prune_def prune_rates_def diag_new_def rate_limited_def RATE_LIMIT_def ring_bump_def count_batch_def insert_key_def push_record_def
        same_event_key ACCOUNT_LIMIT_def DIAG_LIMIT_def sample_diag_def sample_bare_def Let_def)
qed

text \<open>The batch holds the same event twice: it is added once.\<close>

theorem diagnostics_append_exact_witness:
  "\<exists>kept news. [sample_record] = kept @ news \<and> subseq news [sample_record, sample_record] \<and> subseq kept [] \<and> distinct (map event_key news) \<and>
    length (kept @ news) \<le> 2048"
proof -
  have sent: "batch_records (owner_source sample_access ''Firefox on Linux'') sample_now sample_batch = [sample_record, sample_record]"
    by (simp add: batch_records_def sample_batch_def sample_record_def sample_access_def)
  have rows: "ds_records (st_state sample_store1) = [sample_record]" "ds_records (st_state sample_store0) = []"
    by (simp_all add: sample_store1_def sample_store0_def diag_new_def)
  from diagnostics_append_exact [OF sample_time_law sample_encode_law sample_clock sample_clock sample_opened rtranclp.rtrancl_refl sample_clock sample_appended]
  show ?thesis unfolding sent rows Let_def by auto
qed

definition sample_save_io :: persist_io where
  "sample_save_io = \<lparr>pe_reserve = Some, pe_readable = True, pe_write = WriteOk\<rparr>"

definition sample_saved :: diag_store where
  "sample_saved = sample_store1\<lparr>st_state := (st_state sample_store1)\<lparr>ds_saved := 1\<rparr>,
     st_disk := \<lparr>dd_dir = [''d'' \<mapsto> CHR 0x7B # ''}''], dd_name = ''d'', dd_expected = Some (CHR 0x7B # ''}'')\<rparr>\<rparr>"

lemma sample_snapshot_bytes: "snapshot_bytes sample_diag Some [sample_record] = Some (CHR 0x7B # ''}'')"
proof -
  have "go_time sample_diag = go_time sample_bare" by (simp add: go_time_def fun_eq_iff sample_diag_def)
  then have "snapshot_json sample_diag [sample_record] = snapshot_json sample_bare [sample_record]" by (simp add: snapshot_json_def record_view_def)
  then have "de_encode sample_diag (snapshot_json sample_diag [sample_record]) = Some [[CHR 0x7B], ''}'']" by (simp add: sample_diag_def)
  then show ?thesis by (simp add: snapshot_bytes_def diag_write_def DIAG_DISK_BYTES_def Let_def)
qed

lemma sample_flushed: "flush_result (flush_persist sample_diag sample_save_io (flush_snapshot sample_now sample_store1)) = sample_saved"
proof -
  let ?mid = "sample_store1\<lparr>st_saving := Saving 1 [sample_record]\<rparr>"
  have "flush_snapshot sample_now sample_store1 = ?mid"
    by (simp add: flush_snapshot_def sample_store1_def ring_prune_def prune_rates_def sample_record_def ms_def TTL_MS_def Let_def)
  moreover have "persist sample_diag sample_save_io [sample_record] (st_disk sample_store1) = (Ok (), st_disk sample_saved)"
    using sample_snapshot_bytes
    by (simp add: persist_def sample_save_io_def sample_store1_def sample_store0_def sample_saved_def disk_read_def read_private_def write_atomic_def
        sample_diag_def [THEN arg_cong [of _ _ de_sha256]] sample_bare_def Let_def)
  ultimately show ?thesis by (simp add: flush_persist_def flush_result_def sample_saved_def sample_store1_def sample_store0_def)
qed

lemma sample_run: "(diag_step sample_diag)\<^sup>*\<^sup>* sample_store0 sample_saved"
proof -
  have "diag_step sample_diag sample_store0 sample_store1" by (rule diag_step.append [OF sample_clock sample_appended])
  moreover have "diag_step sample_diag sample_store1 (flush_snapshot sample_now sample_store1)"
    by (rule diag_step.snapshot) (simp_all add: sample_store1_def sample_store0_def)
  moreover note diag_step.persist [of sample_diag "flush_snapshot sample_now sample_store1" sample_save_io]
  moreover note diag_step.result [of sample_diag "flush_persist sample_diag sample_save_io (flush_snapshot sample_now sample_store1)", unfolded sample_flushed]
  ultimately show ?thesis by (meson converse_rtranclp_into_rtranclp r_into_rtranclp)
qed

theorem diagnostics_survive_restart_witness:
  "\<exists>st1. diag_open sample_diag True True True (sample_now + 1000000000) (sample_now + 1000000000) [''d'' \<mapsto> CHR 0x7B # ''}''] ''d'' = Ok st1 \<and> ds_records (st_state st1) = [sample_record]"
proof -
  obtain rep where rep: "store_report sample_check sample_access sample_now sample_saved = (Ok rep, sample_saved)" "\<not> re_pending_save rep" "re_storage_ok rep"
    by (simp add: store_report_def diag_authorized_def sample_check_def sample_access_def state_report_def ring_prune_def prune_rates_def
        sample_saved_def sample_store1_def sample_record_def ms_def TTL_MS_def Let_def)
  have rows: "ds_records (st_state sample_saved) = [sample_record]" "dd_dir (st_disk sample_saved) = [''d'' \<mapsto> CHR 0x7B # ''}'']"
    by (simp_all add: sample_saved_def sample_store1_def)
  have recent: "dr_received r - (sample_now + 1000000000) \<le> ms 300000" if "r \<in> set (ds_records (st_state sample_saved))" for r
    using that rows by (simp add: sample_record_def ms_def)
  from diagnostics_survive_restart [OF sample_time_law sample_encode_law sample_clock sample_clock sample_opened sample_run rep recent, of "sample_now + 1000000000"]
  show ?thesis using rows by (auto simp: sample_record_def ms_def TTL_MS_def)
qed

end
