(* ===== verification/Utf8.thy ===== *)
theory Utf8
  imports Model
begin

text \<open>
  UTF-8 as \<open>std::str::from_utf8\<close> checks it, number parsing as \<open>str::parse\<close> does it, and splitting at a
  separator, as the Home's parsers of tmux output use them.
\<close>

section \<open>Encoding\<close>

definition utf8_char :: "nat \<Rightarrow> nat list" where
  "utf8_char c =
     (if c < 0x80 then [c]
      else if c < 0x800 then [0xC0 + c div 64, 0x80 + c mod 64]
      else if c < 0x10000 then [0xE0 + c div 4096, 0x80 + c div 64 mod 64, 0x80 + c mod 64]
      else [0xF0 + c div 262144, 0x80 + c div 4096 mod 64, 0x80 + c div 64 mod 64, 0x80 + c mod 64])"

definition to_utf8 :: "utext \<Rightarrow> bytes" where
  "to_utf8 cs = map char_of (concat (map utf8_char cs))"

definition is_scalar :: "nat \<Rightarrow> bool" where
  "is_scalar c \<longleftrightarrow> c < 0xD800 \<or> (0xE000 \<le> c \<and> c < 0x110000)"

definition cont :: "nat \<Rightarrow> bool" where
  "cont b \<longleftrightarrow> 0x80 \<le> b \<and> b < 0xC0"

text \<open>The well-formed sequences of the standard's table: no overlong form, no surrogate, nothing beyond U+10FFFF.\<close>

fun utf8_decode :: "nat list \<Rightarrow> utext option" where
  "utf8_decode [] = Some []"
| "utf8_decode (a # bs) =
     (if a < 0x80 then map_option ((#) a) (utf8_decode bs)
      else case bs of
        [] \<Rightarrow> None
      | b # cs \<Rightarrow>
          if 0xC2 \<le> a \<and> a < 0xE0 then (if cont b then map_option ((#) ((a - 0xC0) * 64 + (b - 0x80))) (utf8_decode cs) else None)
          else case cs of
            [] \<Rightarrow> None
          | c # ds \<Rightarrow>
              if 0xE0 \<le> a \<and> a < 0xF0
              then (if cont b \<and> cont c \<and> (a = 0xE0 \<longrightarrow> 0xA0 \<le> b) \<and> (a = 0xED \<longrightarrow> b < 0xA0)
                    then map_option ((#) ((a - 0xE0) * 4096 + (b - 0x80) * 64 + (c - 0x80))) (utf8_decode ds) else None)
              else case ds of
                [] \<Rightarrow> None
              | d # es \<Rightarrow>
                  if 0xF0 \<le> a \<and> a < 0xF5 \<and> cont b \<and> cont c \<and> cont d \<and> (a = 0xF0 \<longrightarrow> 0x90 \<le> b) \<and> (a = 0xF4 \<longrightarrow> b < 0x90)
                  then map_option ((#) ((a - 0xF0) * 262144 + (b - 0x80) * 4096 + (c - 0x80) * 64 + (d - 0x80))) (utf8_decode es)
                  else None)"

definition from_utf8 :: "bytes \<Rightarrow> utext option" where
  "from_utf8 raw = utf8_decode (map of_char raw)"

lemma utf8_decode_char:
  assumes "is_scalar c"
  shows "utf8_decode (utf8_char c @ rest) = map_option ((#) c) (utf8_decode rest)"
proof -
  have m: "x mod 64 < 64" for x :: nat by simp
  consider "c < 0x80" | "0x80 \<le> c" "c < 0x800" | "0x800 \<le> c" "c < 0x10000" | "0x10000 \<le> c" by linarith
  then show ?thesis
  proof cases
    case 1
    then show ?thesis by (simp add: utf8_char_def)
  next
    case 2
    have "c div 64 < 32" "2 \<le> c div 64" using 2 by auto
    then show ?thesis using 2 m [of c] by (simp add: utf8_char_def cont_def)
  next
    case 3
    have q: "c div 4096 < 16" using 3 by auto
    have e: "c = c div 4096 * 4096 + c div 64 mod 64 * 64 + c mod 64"
    proof -
      have "c div 64 = c div 4096 * 64 + c div 64 mod 64" using div_mult2_eq [of c 64 64] by (simp add: mult.commute)
      then show ?thesis using div_mult_mod_eq [of c 64] by linarith
    qed
    have low: "32 \<le> c div 64 mod 64" if "c div 4096 = 0" using 3(1) e that m [of c] by simp
    have sur: "c div 64 mod 64 < 32" if "c div 4096 = 13"
      using assms e that m [of c] m [of "c div 64"] by (auto simp: is_scalar_def)
    have "utf8_char c = [0xE0 + c div 4096, 0x80 + c div 64 mod 64, 0x80 + c mod 64]" using 3 by (simp add: utf8_char_def)
    moreover have "c div 4096 * 4096 + c div 64 mod 64 * 64 + c mod 64 = c" using e by simp
    ultimately show ?thesis using q low sur m [of c] m [of "c div 64"] by (simp add: cont_def)
  next
    case 4
    have q: "c div 262144 < 5" using assms by (auto simp: is_scalar_def)
    have e: "c = c div 262144 * 262144 + c div 4096 mod 64 * 4096 + c div 64 mod 64 * 64 + c mod 64"
    proof -
      have "c div 64 = c div 4096 * 64 + c div 64 mod 64" using div_mult2_eq [of c 64 64] by (simp add: mult.commute)
      moreover have "c div 4096 = c div 262144 * 64 + c div 4096 mod 64" using div_mult2_eq [of c 4096 64] by (simp add: mult.commute)
      ultimately show ?thesis using div_mult_mod_eq [of c 64] by linarith
    qed
    have low: "16 \<le> c div 4096 mod 64" if "c div 262144 = 0" using 4 e that m [of c] m [of "c div 64"] by simp
    have high: "c div 4096 mod 64 < 16" if "c div 262144 = 4" using assms 4 e that by (auto simp: is_scalar_def)
    have "utf8_char c = [0xF0 + c div 262144, 0x80 + c div 4096 mod 64, 0x80 + c div 64 mod 64, 0x80 + c mod 64]" using 4 by (simp add: utf8_char_def)
    moreover have "c div 262144 * 262144 + c div 4096 mod 64 * 4096 + c div 64 mod 64 * 64 + c mod 64 = c" using e by simp
    ultimately show ?thesis using q low high m [of c] m [of "c div 64"] m [of "c div 4096"] by (simp add: cont_def)
  qed
qed

lemma utf8_char_byte: "is_scalar c \<Longrightarrow> b \<in> set (utf8_char c) \<Longrightarrow> b < 256"
proof -
  have m: "x mod 64 < 64" for x :: nat by simp
  assume "is_scalar c" and "b \<in> set (utf8_char c)"
  then show ?thesis
    using m [of c] m [of "c div 64"] m [of "c div 4096"] by (auto simp: utf8_char_def is_scalar_def less_mult_imp_div_less split: if_splits)
qed

lemma utf8_roundtrip: "list_all is_scalar cs \<Longrightarrow> from_utf8 (to_utf8 cs) = Some cs"
proof (induction cs)
  case (Cons c cs)
  have "map of_char (map char_of (utf8_char c)) = utf8_char c"
    unfolding map_map using Cons.prems utf8_char_byte [of c] by (intro map_idI) auto
  then show ?case using Cons utf8_decode_char [of c] by (simp add: from_utf8_def to_utf8_def)
qed (simp add: from_utf8_def to_utf8_def)

section \<open>Numbers\<close>

definition parse_digits :: "string \<Rightarrow> nat option" where
  "parse_digits ds = (if ds \<noteq> [] \<and> list_all is_ascii_digit ds then Some (undecimal 0 ds) else None)"

definition parse_unsigned :: "nat \<Rightarrow> string \<Rightarrow> nat option" where
  \<comment> \<open>\<open>str::parse\<close> of an unsigned type of \<open>w\<close> bits: an optional plus sign\<close>
  "parse_unsigned w s =
     Option.bind (parse_digits (case s of c # cs \<Rightarrow> if c = CHR ''+'' then cs else s | [] \<Rightarrow> []))
       (\<lambda>n. if n < 2 ^ w then Some n else None)"

definition parse_signed :: "nat \<Rightarrow> string \<Rightarrow> int option" where
  "parse_signed w s =
     (case s of
        [] \<Rightarrow> None
      | c # cs \<Rightarrow>
          if c = CHR ''-'' then Option.bind (parse_digits cs) (\<lambda>n. if n \<le> 2 ^ (w - 1) then Some (- int n) else None)
          else Option.bind (parse_digits (if c = CHR ''+'' then cs else s)) (\<lambda>n. if n < 2 ^ (w - 1) then Some (int n) else None))"

lemma parse_digits_decimal [simp]: "parse_digits (decimal n) = Some n"
  using decimal_digits [of n] by (simp add: parse_digits_def undecimal_decimal) (metis decimal.simps append_is_Nil_conv list.discI)

lemma decimal_first: "\<exists>c cs. decimal n = c # cs \<and> is_ascii_digit c"
  using decimal_digits [of n] parse_digits_decimal [of n] by (cases "decimal n") (auto simp: parse_digits_def)

lemma parse_unsigned_decimal: "n < 2 ^ w \<Longrightarrow> parse_unsigned w (decimal n) = Some n"
  using decimal_first [of n] parse_digits_decimal [of n] by (auto simp: parse_unsigned_def ascii_defs simp del: parse_digits_decimal)

lemma parse_signed_decimal: "n < 2 ^ (w - 1) \<Longrightarrow> parse_signed w (decimal n) = Some (int n)"
  using decimal_first [of n] parse_digits_decimal [of n] by (auto simp: parse_signed_def ascii_defs simp del: parse_digits_decimal)

section \<open>Fields\<close>

function split_str :: "'a list \<Rightarrow> 'a list \<Rightarrow> 'a list list" where
  \<comment> \<open>\<open>str::split\<close> at a separator that is not empty\<close>
  "split_str sep s =
     (case s of
        [] \<Rightarrow> [[]]
      | c # cs \<Rightarrow>
          if sep \<noteq> [] \<and> take (length sep) s = sep then [] # split_str sep (drop (length sep) s)
          else (case split_str sep cs of p # ps \<Rightarrow> (c # p) # ps | [] \<Rightarrow> [[c]]))"
  by auto
termination by (relation "measure (\<lambda>(sep, s). length s)") (auto simp: length_greater_0_conv)

declare split_str.simps [simp del]

lemma split_str_nonempty [simp]: "split_str sep s \<noteq> []"
  by (subst split_str.simps) (auto split: list.split)

text \<open>The text with the separators back in place.\<close>

fun join :: "'a list \<Rightarrow> 'a list list \<Rightarrow> 'a list" where
  "join sep [] = []"
| "join sep [p] = p"
| "join sep (p # q # ps) = p @ sep @ join sep (q # ps)"

lemma join_Cons: "ps \<noteq> [] \<Longrightarrow> join sep (p # ps) = p @ sep @ join sep ps"
  by (cases ps) auto

lemma join_split_str: "join sep (split_str sep s) = s"
proof (induction sep s rule: split_str.induct)
  case (1 sep s)
  show ?case
  proof (cases s)
    case Nil
    then show ?thesis by (simp add: split_str.simps)
  next
    case (Cons c cs)
    show ?thesis
    proof (cases "sep \<noteq> [] \<and> take (length sep) s = sep")
      case True
      then have "split_str sep s = [] # split_str sep (drop (length sep) s)" using Cons by (subst split_str.simps) simp
      then show ?thesis using "1.IH"(1) [OF Cons True] True by (simp add: join_Cons) (metis append_take_drop_id)
    next
      case False
      obtain p ps where p: "split_str sep cs = p # ps" by (cases "split_str sep cs") auto
      have "split_str sep s = (c # p) # ps" using Cons False p by (subst split_str.simps) auto
      then show ?thesis using "1.IH"(2) [OF Cons False] p Cons by (cases ps) auto
    qed
  qed
qed

end
