(* ===== verification/Catalog.thy ===== *)
theory Catalog
  imports Utf8 Session_State "HOL-Library.List_Lexorder" "HOL-Library.Char_ord" "HOL-Library.Product_Lexorder"
begin

text \<open>
  The catalog of tmux sessions, \<open>hmux-home/src/catalog.rs\<close>: what the two listings of tmux are read as.
  \<open>Catalog_Properties\<close> below the parser states what a listing becomes.
\<close>

definition SEPARATOR :: utext where
  "SEPARATOR = map of_char ''|:hmux-sep-v1:|''"

definition SESSION_LIMIT :: nat where "SESSION_LIMIT = 16777216"
definition WINDOW_LIMIT :: nat where "WINDOW_LIMIT = 33554432"
definition MAX_SESSIONS :: nat where "MAX_SESSIONS = 10000"
definition MAX_WINDOWS :: nat where "MAX_WINDOWS = 100000"

lemmas catalog_limits [limits] = SESSION_LIMIT_def WINDOW_LIMIT_def MAX_SESSIONS_def MAX_WINDOWS_def

datatype run_kind = RunExit | RunOther
datatype run_error = RunError run_kind "bytes option" \<comment> \<open>with what the command wrote to its error stream\<close>

datatype catalog_error = CInvalidOption | CCommand run_error | CParse string

datatype tmux_socket = SocketName string | SocketPath string

record catalog_reader =
  rd_executable :: string
  rd_socket :: "tmux_socket option"
  rd_timeout :: duration

definition path_is_absolute :: "string \<Rightarrow> bool" where
  "path_is_absolute p \<longleftrightarrow> (case p of c # _ \<Rightarrow> c = CHR ''/'' | [] \<Rightarrow> False)"

definition reader_new :: "string \<Rightarrow> tmux_socket option \<Rightarrow> duration \<Rightarrow> (catalog_error, catalog_reader) result" where
  "reader_new executable socket timeout =
     (if \<not> path_is_absolute executable \<or> 1024 < length executable \<or> CHR 0x00 \<in> set executable \<or> timeout = 0 \<or> seconds 30 < timeout
      then Err CInvalidOption
      else if (case socket of
                 Some (SocketName name) \<Rightarrow> name = [] \<or> 100 < length name \<or>
                   \<not> list_all (\<lambda>b. is_ascii_alphanumeric b \<or> b = CHR ''-'' \<or> b = CHR ''_'') name
               | Some (SocketPath path) \<Rightarrow> \<not> path_is_absolute path \<or> path = []
               | None \<Rightarrow> False)
      then Err CInvalidOption
      else Ok \<lparr>rd_executable = executable, rd_socket = socket, rd_timeout = timeout\<rparr>)"

definition reader_args :: "catalog_reader \<Rightarrow> string list \<Rightarrow> string list" where
  "reader_args r args =
     (case rd_socket r of
        Some (SocketName name) \<Rightarrow> [''-L'', name]
      | Some (SocketPath path) \<Rightarrow> [''-S'', path]
      | None \<Rightarrow> []) @ args"

section \<open>Rows and fields\<close>

definition session_default :: session where
  "session_default =
     \<lparr>sn_id = [], sn_name = [], sn_alias = [], sn_hidden = False, sn_created_at = 0, sn_restored_from = None, sn_activity_at = 0,
      sn_attached = 0, sn_window_count = 0, sn_window_names = None, sn_active_window = [], sn_current_path = [], sn_current_command = [],
      sn_profile = [], sn_label = [], sn_tags = None, sn_kind = [], sn_runtime = [], sn_model = [], sn_state = [], sn_process = [],
      sn_working_since = 0, sn_width = 0, sn_height = 0, sn_pane_pid = 0\<rparr>"

definition catalog_rows :: "bytes \<Rightarrow> nat \<Rightarrow> (catalog_error, utext list) result" where
  "catalog_rows raw most =
     (case from_utf8 raw of
        None \<Rightarrow> Err (CParse ''non-UTF-8 output'')
      | Some t \<Rightarrow>
          (let t = (if t \<noteq> [] \<and> last t = 0x0A then butlast t else t) in
           if t \<noteq> [] \<and> most \<le> length (filter (\<lambda>c. c = 0x0A) t) then Err (CParse ''row count limit exceeded'')
           else Ok (if t = [] then [] else split_on 0x0A t)))"

definition catalog_fields :: "utext \<Rightarrow> string \<Rightarrow> (catalog_error, utext list) result" where
  "catalog_fields row what =
     (let fs = split_str SEPARATOR row in if length fs = 8 then Ok fs else Err (CParse what))"

definition catalog_number :: "utext \<Rightarrow> string \<Rightarrow> (catalog_error, int) result" where
  "catalog_number t what =
     (case parse_signed 64 (to_utf8 t) of None \<Rightarrow> Err (CParse what) | Some v \<Rightarrow> if v < 0 then Err (CParse what) else Ok v)"

definition catalog_count :: "utext \<Rightarrow> string \<Rightarrow> (catalog_error, int) result" where
  "catalog_count t what = and_then (catalog_number t what) (\<lambda>v. if 10000 < v then Err (CParse what) else Ok v)"

definition dimension :: "utext \<Rightarrow> string \<Rightarrow> (catalog_error, int) result" where
  "dimension t what =
     (if t = [] then Ok 0 else and_then (catalog_number t what) (\<lambda>v. if 100000 < v then Err (CParse what) else Ok v))"

definition pane_pid :: "utext \<Rightarrow> (catalog_error, int) result" where
  "pane_pid t =
     (if t = [] then Ok 0
      else and_then (catalog_number t ''pane_pid'') (\<lambda>v. if 1 \<le> v \<and> v \<le> 1073741824 then Ok v else Err (CParse ''pane_pid'')))"

definition group_attached :: "utext \<Rightarrow> int \<Rightarrow> (catalog_error, int) result" where
  "group_attached t direct = (if t = [] then Ok direct else catalog_count t ''session_group_attached'')"

section \<open>The parser\<close>

text \<open>One row of \<open>list-sessions\<close>: nothing for a browser's own view.\<close>

definition session_row :: "session list \<Rightarrow> utext \<Rightarrow> (catalog_error, session option) result" where
  "session_row entries row =
     and_then (catalog_fields row ''session row'') (\<lambda>fs.
       if \<not> validate_session_id (to_utf8 (fs ! 0)) then Err (CParse ''session id'')
       else if fs ! 6 = map of_char ''1'' then Ok None
       else if to_utf8 (fs ! 0) \<in> sn_id ` set entries then Err (CParse ''duplicate session id'')
       else
         and_then (catalog_number (fs ! 2) ''session_created'') (\<lambda>created_at.
         and_then (catalog_number (fs ! 3) ''session_activity'') (\<lambda>activity_at.
         and_then (catalog_count (fs ! 4) ''session_attached'') (\<lambda>direct.
         and_then (group_attached (fs ! 7) direct) (\<lambda>attached.
         and_then (catalog_count (fs ! 5) ''session_windows'') (\<lambda>window_count.
           Ok (Some (session_default\<lparr>sn_id := to_utf8 (fs ! 0), sn_name := safe_text (fs ! 1) 512, sn_created_at := created_at,
             sn_activity_at := activity_at, sn_attached := attached, sn_window_count := window_count, sn_kind := ''shell'',
             sn_runtime := ''process'', sn_state := ''running''\<rparr>))))))))"

fun catalog_session_rows :: "session list \<Rightarrow> utext list \<Rightarrow> (catalog_error, session list) result" where
  "catalog_session_rows entries [] = Ok entries"
| "catalog_session_rows entries (row # rows) =
     and_then (session_row entries row) (\<lambda>found.
       catalog_session_rows (case found of None \<Rightarrow> entries | Some s \<Rightarrow> entries @ [s]) rows)"

text \<open>One row of \<open>list-windows\<close>, added to the session it belongs to.\<close>

definition window_row :: "utext list \<Rightarrow> session \<Rightarrow> (catalog_error, session) result" where
  "window_row fs s =
     (let name = safe_text (fs ! 1) 256;
          s = s\<lparr>sn_window_names := Some ((case sn_window_names s of None \<Rightarrow> [] | Some ns \<Rightarrow> ns) @ [name])\<rparr> in
      if fs ! 2 = map of_char ''1''
      then
        and_then (dimension (fs ! 5) ''window_width'') (\<lambda>width.
        and_then (dimension (fs ! 6) ''window_height'') (\<lambda>height.
        and_then (pane_pid (fs ! 7)) (\<lambda>pid.
          Ok (s\<lparr>sn_active_window := name, sn_current_path := safe_text (fs ! 3) 2048, sn_current_command := safe_text (fs ! 4) 256,
                sn_width := width, sn_height := height, sn_pane_pid := pid\<rparr>))))
      else Ok s)"

fun update_session :: "string \<Rightarrow> (session \<Rightarrow> ('e, session) result) \<Rightarrow> session list \<Rightarrow> ('e, session list) result" where
  "update_session sid f [] = Ok []"
| "update_session sid f (s # ss) =
     (if sn_id s = sid then and_then (f s) (\<lambda>s. Ok (s # ss)) else and_then (update_session sid f ss) (\<lambda>ss. Ok (s # ss)))"

fun window_rows :: "session list \<Rightarrow> utext list \<Rightarrow> (catalog_error, session list) result" where
  "window_rows entries [] = Ok entries"
| "window_rows entries (row # rows) =
     and_then (catalog_fields row ''window row'') (\<lambda>fs.
     and_then (update_session (to_utf8 (fs ! 0)) (window_row fs) entries) (\<lambda>entries. window_rows entries rows))"

definition set_process :: "session \<Rightarrow> session" where
  "set_process s =
     (let p = to_utf8 (safe_text (sn_current_command s) 128) in s\<lparr>sn_process := (if p = [] then ''shell'' else p)\<rparr>)"

definition catalog_order :: "session \<Rightarrow> int \<times> string" where
  "catalog_order s = (- sn_activity_at s, sn_id s)"

definition parse_basic_catalog :: "bytes \<Rightarrow> bytes \<Rightarrow> (catalog_error, session list) result" where
  "parse_basic_catalog sessions windows =
     (if SESSION_LIMIT < length sessions \<or> WINDOW_LIMIT < length windows then Err (CParse ''output limit exceeded'')
      else
        and_then (catalog_rows sessions MAX_SESSIONS) (\<lambda>srows.
        and_then (catalog_session_rows [] srows) (\<lambda>entries.
        and_then (catalog_rows windows MAX_WINDOWS) (\<lambda>wrows.
        and_then (window_rows entries wrows) (\<lambda>entries. Ok (sort_key catalog_order (map set_process entries)))))))"

section \<open>Reading\<close>

definition contains_text :: "utext \<Rightarrow> string \<Rightarrow> bool" where
  "contains_text t s \<longleftrightarrow> (\<exists>i \<in> set [0..<Suc (length t)]. take (length s) (drop i t) = map of_char s)"

definition no_tmux_server :: "(bytes \<Rightarrow> utext) \<Rightarrow> run_error \<Rightarrow> bool" where
  \<comment> \<open>the first argument: the lowercase characters of a lossily decoded text\<close>
  "no_tmux_server lower e \<longleftrightarrow>
     (case e of
        RunError RunExit (Some stderr) \<Rightarrow>
          (let message = safe_text (lower stderr) 4096 in
           contains_text message ''no server running on '' \<or>
           (contains_text message ''error connecting to '' \<and> contains_text message ''no such file or directory''))
      | _ \<Rightarrow> False)"

definition SESSION_FORMAT :: string where
  "SESSION_FORMAT = ''#{session_id}|:hmux-sep-v1:|#{session_name}|:hmux-sep-v1:|#{session_created}|:hmux-sep-v1:|#{session_activity}|:hmux-sep-v1:|#{session_attached}|:hmux-sep-v1:|#{session_windows}|:hmux-sep-v1:|#{@hmux_app_view}|:hmux-sep-v1:|#{session_group_attached}''"

definition WINDOW_FORMAT :: string where
  "WINDOW_FORMAT = ''#{session_id}|:hmux-sep-v1:|#{window_name}|:hmux-sep-v1:|#{window_active}|:hmux-sep-v1:|#{pane_current_path}|:hmux-sep-v1:|#{pane_current_command}|:hmux-sep-v1:|#{window_width}|:hmux-sep-v1:|#{window_height}|:hmux-sep-v1:|#{pane_pid}''"

definition read_basic ::
  "(bytes \<Rightarrow> utext) \<Rightarrow> (string list \<Rightarrow> 'w \<Rightarrow> (catalog_error, bytes) result \<times> 'w) \<Rightarrow> catalog_reader \<Rightarrow> 'w \<Rightarrow> (catalog_error, session list) result \<times> 'w" where
  \<comment> \<open>the second argument runs tmux; when the caller has stopped or run out of time, it answers \<open>CInvalidOption\<close>\<close>
  "read_basic lower run r w =
     (case run (reader_args r [''list-sessions'', ''-F'', SESSION_FORMAT]) w of
        (Inl (CCommand e), w) \<Rightarrow> (if no_tmux_server lower e then Ok [] else Err (CCommand e), w)
      | (Inl e, w) \<Rightarrow> (Err e, w)
      | (Inr sessions, w) \<Rightarrow>
          (case run (reader_args r [''list-windows'', ''-a'', ''-F'', WINDOW_FORMAT]) w of
             (Inl e, w) \<Rightarrow> (Err e, w)
           | (Inr windows, w) \<Rightarrow> (parse_basic_catalog sessions windows, w)))"

end
