(* ===== verification/Catalog_Properties.thy ===== *)
theory Catalog_Properties
  imports Catalog
begin

text \<open>
  What the two listings of tmux mean, session by session: the parser, which goes through both row by row
  and updates in place, gives the same catalog.
\<close>

section \<open>One session\<close>

definition ok_or :: "'a \<Rightarrow> ('e, 'a) result \<Rightarrow> 'a" where
  "ok_or d r = (case r of Inl _ \<Rightarrow> d | Inr a \<Rightarrow> a)"

definition listed_fields :: "utext list \<Rightarrow> utext list list" where
  "listed_fields rows = map (split_str SEPARATOR) rows"

definition is_app_view :: "utext list \<Rightarrow> bool" where
  "is_app_view fs \<longleftrightarrow> fs ! 6 = map of_char ''1''"

definition listed_session :: "utext list \<Rightarrow> session" where
  "listed_session fs =
     session_default\<lparr>sn_id := to_utf8 (fs ! 0), sn_name := safe_text (fs ! 1) 512,
       sn_created_at := ok_or 0 (catalog_number (fs ! 2) []), sn_activity_at := ok_or 0 (catalog_number (fs ! 3) []),
       sn_attached := ok_or 0 (catalog_count (if fs ! 7 = [] then fs ! 4 else fs ! 7) []),
       sn_window_count := ok_or 0 (catalog_count (fs ! 5) []), sn_kind := ''shell'', sn_runtime := ''process'', sn_state := ''running''\<rparr>"

definition with_window :: "utext list \<Rightarrow> session \<Rightarrow> session" where
  "with_window fs s =
     (let name = safe_text (fs ! 1) 256;
          s = s\<lparr>sn_window_names := Some ((case sn_window_names s of None \<Rightarrow> [] | Some ns \<Rightarrow> ns) @ [name])\<rparr> in
      if fs ! 2 = map of_char ''1''
      then s\<lparr>sn_active_window := name, sn_current_path := safe_text (fs ! 3) 2048, sn_current_command := safe_text (fs ! 4) 256,
             sn_width := ok_or 0 (dimension (fs ! 5) []), sn_height := ok_or 0 (dimension (fs ! 6) []), sn_pane_pid := ok_or 0 (pane_pid (fs ! 7))\<rparr>
      else s)"

definition windows_of :: "string \<Rightarrow> utext list list \<Rightarrow> utext list list" where
  "windows_of sid ws = filter (\<lambda>fs. to_utf8 (fs ! 0) = sid) ws"

definition dressed_session :: "utext list list \<Rightarrow> session \<Rightarrow> session" where
  "dressed_session ws s = fold with_window (windows_of (sn_id s) ws) s"

text \<open>The sessions of two listings: those that are not a browser's view, each with its windows in order.\<close>

definition catalog_of :: "utext list \<Rightarrow> utext list \<Rightarrow> session list" where
  "catalog_of srows wrows =
     sort_key catalog_order
       (map (\<lambda>fs. set_process (dressed_session (listed_fields wrows) (listed_session fs))) (filter (\<lambda>fs. \<not> is_app_view fs) (listed_fields srows)))"

section \<open>The loops\<close>

lemma catalog_number_text: "catalog_number t what = Ok v \<Longrightarrow> catalog_number t what' = Ok v \<and> 0 \<le> v"
  by (auto simp: catalog_number_def split: option.splits if_splits)

lemma catalog_count_text: "catalog_count t what = Ok v \<Longrightarrow> catalog_count t what' = Ok v \<and> 0 \<le> v \<and> v \<le> 10000"
  using catalog_number_text [of t what _ what'] by (auto simp: catalog_count_def and_then_Ok_iff split: if_splits)

lemma dimension_text: "dimension t what = Ok v \<Longrightarrow> dimension t what' = Ok v"
  using catalog_number_text [of t what _ what'] by (auto simp: dimension_def and_then_Ok_iff split: if_splits)

definition session_range :: "session \<Rightarrow> bool" where
  "session_range s \<longleftrightarrow>
     validate_session_id (sn_id s) \<and> sn_name s = safe_text (sn_name s) 512 \<and> 0 \<le> sn_created_at s \<and> 0 \<le> sn_activity_at s \<and>
     0 \<le> sn_attached s \<and> sn_attached s \<le> 10000 \<and> 0 \<le> sn_window_count s \<and> sn_window_count s \<le> 10000"

lemma session_row_ok:
  assumes "session_row entries row = Ok r"
  shows "case r of None \<Rightarrow> is_app_view (split_str SEPARATOR row)
    | Some s \<Rightarrow> \<not> is_app_view (split_str SEPARATOR row) \<and> s = listed_session (split_str SEPARATOR row) \<and> sn_id s \<notin> sn_id ` set entries \<and> session_range s"
proof -
  let ?fs = "split_str SEPARATOR row"
  have fs: "catalog_fields row ''session row'' = Ok ?fs" "validate_session_id (to_utf8 (?fs ! 0))"
    using assms by (auto simp: session_row_def catalog_fields_def Let_def and_then_Ok_iff split: if_splits)
  show ?thesis
  proof (cases "is_app_view ?fs")
    case True
    then show ?thesis using assms fs by (auto simp: session_row_def is_app_view_def)
  next
    case False
    obtain c a d t w where v: "catalog_number (?fs ! 2) ''session_created'' = Ok c" "catalog_number (?fs ! 3) ''session_activity'' = Ok a"
        "catalog_count (?fs ! 4) ''session_attached'' = Ok d" "group_attached (?fs ! 7) d = Ok t"
        "catalog_count (?fs ! 5) ''session_windows'' = Ok w" "to_utf8 (?fs ! 0) \<notin> sn_id ` set entries"
        "r = Some (session_default\<lparr>sn_id := to_utf8 (?fs ! 0), sn_name := safe_text (?fs ! 1) 512, sn_created_at := c,
             sn_activity_at := a, sn_attached := t, sn_window_count := w, sn_kind := ''shell'', sn_runtime := ''process'', sn_state := ''running''\<rparr>)"
      using assms False fs by (simp add: session_row_def is_app_view_def and_then_Ok_iff split: if_splits) blast
    have "catalog_count (if ?fs ! 7 = [] then ?fs ! 4 else ?fs ! 7) [] = Ok t \<and> 0 \<le> t \<and> t \<le> 10000"
      using v(4) catalog_count_text [OF v(3), of "[]"] catalog_count_text [of "?fs ! 7" "''session_group_attached''" t "[]"]
      by (simp add: group_attached_def split: if_splits)
    moreover have "safe_text (safe_text (?fs ! 1) 512) 512 = safe_text (?fs ! 1) 512" using safe_text_contract by blast
    moreover note catalog_number_text [OF v(1), of "[]"] catalog_number_text [OF v(2), of "[]"] catalog_count_text [OF v(5), of "[]"] fs(2)
    ultimately have "session_range (the r)" "the r = listed_session ?fs"
      unfolding v(7) by (simp_all add: session_range_def listed_session_def ok_or_def)
    moreover have "sn_id (listed_session ?fs) = to_utf8 (?fs ! 0)" by (simp add: listed_session_def)
    ultimately show ?thesis using False v(6,7) by auto
  qed
qed

lemma catalog_session_rows_ok:
  assumes "catalog_session_rows entries rows = Ok out" and "distinct (map sn_id entries)" and "list_all session_range entries"
  shows "out = entries @ map listed_session (filter (\<lambda>fs. \<not> is_app_view fs) (listed_fields rows)) \<and> distinct (map sn_id out) \<and> list_all session_range out"
  using assms
proof (induction entries rows rule: catalog_session_rows.induct)
  case (2 entries row rows)
  then obtain r where r: "session_row entries row = Ok r" "catalog_session_rows (case r of None \<Rightarrow> entries | Some s \<Rightarrow> entries @ [s]) rows = Ok out"
    by (auto simp: and_then_Ok_iff)
  let ?next = "case r of None \<Rightarrow> entries | Some s \<Rightarrow> entries @ [s]"
  have "distinct (map sn_id ?next)" "list_all session_range ?next"
    using "2.prems"(2,3) session_row_ok [OF r(1)] by (auto split: option.splits)
  note IH = "2.IH" [OF r(2) this]
  have "?next @ map listed_session (filter (\<lambda>fs. \<not> is_app_view fs) (listed_fields rows)) =
      entries @ map listed_session (filter (\<lambda>fs. \<not> is_app_view fs) (listed_fields (row # rows)))"
    using session_row_ok [OF r(1)] by (auto simp: listed_fields_def split: option.splits)
  then show ?case using IH by metis
qed (simp add: listed_fields_def)

lemma window_row_ok: "window_row fs s = Ok s' \<Longrightarrow> s' = with_window fs s"
proof (cases "fs ! 2 = map of_char ''1''")
  case True
  assume "window_row fs s = Ok s'"
  then obtain w h p where v: "dimension (fs ! 5) ''window_width'' = Ok w" "dimension (fs ! 6) ''window_height'' = Ok h" "pane_pid (fs ! 7) = Ok p"
      and s': "s' = s\<lparr>sn_window_names := Some ((case sn_window_names s of None \<Rightarrow> [] | Some ns \<Rightarrow> ns) @ [safe_text (fs ! 1) 256]),
        sn_active_window := safe_text (fs ! 1) 256, sn_current_path := safe_text (fs ! 3) 2048, sn_current_command := safe_text (fs ! 4) 256,
        sn_width := w, sn_height := h, sn_pane_pid := p\<rparr>"
    using True by (auto simp: window_row_def Let_def and_then_Ok_iff)
  show ?thesis unfolding s' using True v(3) dimension_text [OF v(1), of "[]"] dimension_text [OF v(2), of "[]"]
    by (simp add: with_window_def Let_def ok_or_def)
next
  case False
  assume "window_row fs s = Ok s'"
  then show ?thesis using False by (simp add: window_row_def with_window_def Let_def)
qed

lemma with_window_id [simp]: "sn_id (with_window fs s) = sn_id s" "sn_activity_at (with_window fs s) = sn_activity_at s"
  "session_range (with_window fs s) = session_range s"
  by (simp_all add: with_window_def session_range_def Let_def)

lemma update_session_ok:
  assumes "update_session sid f ss = Ok out" and "distinct (map sn_id ss)" and "\<And>s s'. f s = Ok s' \<Longrightarrow> s' = g s"
  shows "out = map (\<lambda>s. if sn_id s = sid then g s else s) ss"
  using assms
proof (induction ss arbitrary: out)
  case (Cons s ss)
  show ?case
  proof (cases "sn_id s = sid")
    case True
    then have "sn_id x \<noteq> sid" if "x \<in> set ss" for x using Cons.prems(2) that by (metis distinct.simps(2) image_eqI list.set_map list.simps(9))
    then have "map (\<lambda>s. if sn_id s = sid then g s else s) ss = ss" by (intro map_idI) auto
    then show ?thesis using Cons.prems(1,3) True by (auto simp: and_then_Ok_iff)
  next
    case False
    then show ?thesis using Cons by (auto simp: and_then_Ok_iff)
  qed
qed simp

lemma window_rows_ok:
  assumes "window_rows entries rows = Ok out" and "distinct (map sn_id entries)"
  shows "out = map (dressed_session (listed_fields rows)) entries"
  using assms
proof (induction entries rows rule: window_rows.induct)
  case (2 entries row rows)
  let ?fs = "split_str SEPARATOR row"
  obtain mid where m: "catalog_fields row ''window row'' = Ok ?fs" "update_session (to_utf8 (?fs ! 0)) (window_row ?fs) entries = Ok mid" "window_rows mid rows = Ok out"
    using "2.prems"(1) by (auto simp: and_then_Ok_iff catalog_fields_def Let_def split: if_splits)
  have mid: "mid = map (\<lambda>s. if sn_id s = to_utf8 (?fs ! 0) then with_window ?fs s else s) entries"
    using update_session_ok [where g = "with_window ?fs", OF m(2) "2.prems"(2)] window_row_ok by blast
  have "map sn_id mid = map sn_id entries" by (simp add: mid)
  then have "out = map (dressed_session (listed_fields rows)) mid" using "2.IH" [OF m(3)] "2.prems"(2) by simp
  then show ?case by (simp add: mid dressed_session_def windows_of_def listed_fields_def eq_commute)
qed (simp add: listed_fields_def dressed_session_def windows_of_def map_idI)

lemma dressed_id [simp]: "sn_id (dressed_session ws s) = sn_id s" "session_range (dressed_session ws s) = session_range s"
proof -
  have "sn_id (fold with_window fss s) = sn_id s \<and> session_range (fold with_window fss s) = session_range s" for fss
    by (induction fss arbitrary: s) simp_all
  then show "sn_id (dressed_session ws s) = sn_id s" "session_range (dressed_session ws s) = session_range s" by (simp_all add: dressed_session_def)
qed

lemma set_process_id [simp]: "sn_id (set_process s) = sn_id s" "session_range (set_process s) = session_range s"
  by (simp_all add: set_process_def session_range_def Let_def)

text \<open>
  C23: Whatever tmux lists, a catalog that is accepted is the sessions of the listing other than the browsers' own views, each with
  exactly its windows in their order, sorted by activity and identifier, with distinct valid identifiers, cleaned names and numbers in range.
\<close>

theorem catalog_exact:
  assumes "parse_basic_catalog sessions windows = Ok entries"
  shows "\<exists>srows wrows. catalog_rows sessions 10000 = Ok srows \<and> catalog_rows windows 100000 = Ok wrows \<and> entries = catalog_of srows wrows \<and>
    sorted (map catalog_order entries) \<and> distinct (map sn_id entries) \<and> list_all session_range entries"
proof -
  obtain srows mid wrows out where p: "catalog_rows sessions MAX_SESSIONS = Ok srows" "catalog_session_rows [] srows = Ok mid"
      "catalog_rows windows MAX_WINDOWS = Ok wrows" "window_rows mid wrows = Ok out" "entries = sort_key catalog_order (map set_process out)"
    using assms by (auto simp: parse_basic_catalog_def and_then_Ok_iff split: if_splits)
  have mid: "mid = map listed_session (filter (\<lambda>fs. \<not> is_app_view fs) (listed_fields srows))" "distinct (map sn_id mid)" "list_all session_range mid"
    using catalog_session_rows_ok [OF p(2)] by auto
  have out: "out = map (dressed_session (listed_fields wrows)) mid" using window_rows_ok [OF p(4) mid(2)] .
  have "entries = catalog_of srows wrows" unfolding catalog_of_def p(5) out mid(1) by (simp add: comp_def)
  moreover have "distinct (map sn_id (map set_process out))" using mid(2) by (simp add: out comp_def)
  then have "distinct (map sn_id entries)" unfolding p(5) by (metis distinct_map distinct_sort set_sort)
  moreover have "list_all session_range entries" using mid(3) by (simp add: p(5) out list_all_iff)
  moreover have "sorted (map catalog_order entries)" unfolding p(5) by (rule sorted_sort_key)
  ultimately show ?thesis using p(1,3) by (auto simp: MAX_SESSIONS_def MAX_WINDOWS_def)
qed

definition sample_listing :: bytes where
  "sample_listing = ''$1|:hmux-sep-v1:|w|:hmux-sep-v1:|7|:hmux-sep-v1:|9|:hmux-sep-v1:|0|:hmux-sep-v1:|1|:hmux-sep-v1:||:hmux-sep-v1:|2''"

lemma utf8_decode_ascii: "list_all (\<lambda>b. b < 128) bs \<Longrightarrow> utf8_decode bs = Some bs"
  by (induction bs) auto

lemma to_utf8_ascii: "list_all (\<lambda>b. b < 128) cs \<Longrightarrow> to_utf8 cs = map char_of cs"
  by (induction cs) (simp_all add: to_utf8_def utf8_char_def)

lemma sample_id: "to_utf8 [36, 49] = ''$1''"
proof -
  have "(char_of (36 :: nat) :: char) = CHR ''$''" "(char_of (49 :: nat) :: char) = CHR ''1''" by code_simp+
  then show ?thesis by (simp add: to_utf8_ascii)
qed

lemma sample_fields:
  "split_str SEPARATOR (map of_char sample_listing) = [[36, 49], [119], [55], [57], [48], [49], [], [50]]"
  by (simp add: sample_listing_def SEPARATOR_def split_str.simps)

lemma sample_rows: "catalog_rows sample_listing 10000 = Ok [map of_char sample_listing]"
proof -
  have "from_utf8 sample_listing = Some (map of_char sample_listing)"
    unfolding from_utf8_def by (rule utf8_decode_ascii) (simp add: sample_listing_def)
  then show ?thesis by (simp add: catalog_rows_def Let_def split_on_last) (simp add: sample_listing_def)
qed

lemma sample_parsed: "parse_basic_catalog sample_listing [] = Ok [set_process (listed_session [[36, 49], [119], [55], [57], [48], [49], [], [50]])]"
proof -
  have "catalog_fields (map of_char sample_listing) ''session row'' = Ok [[36, 49], [119], [55], [57], [48], [49], [], [50]]"
    by (simp add: catalog_fields_def sample_fields)
  moreover have "validate_session_id ''$1''" by (simp add: validate_session_id_def ascii_defs)
  moreover have "catalog_count [d] what = Ok (int d - 48)" "catalog_number [d] what = Ok (int d - 48)" if "48 \<le> d" "d \<le> 57" for d what
  proof -
    have c: "of_char (char_of d :: char) = d" using that by simp
    have "char_of d \<noteq> CHR ''+''" "char_of d \<noteq> CHR ''-''" using arg_cong [where f = "of_char :: char \<Rightarrow> nat", of "char_of d"] c that by fastforce+
    then show "catalog_count [d] what = Ok (int d - 48)" "catalog_number [d] what = Ok (int d - 48)"
      using that by (auto simp: catalog_count_def catalog_number_def parse_signed_def parse_digits_def to_utf8_ascii ascii_defs)
  qed
  ultimately have "catalog_session_rows [] [map of_char sample_listing] = Ok [listed_session [[36, 49], [119], [55], [57], [48], [49], [], [50]]]"
    by (simp add: session_row_def group_attached_def listed_session_def ok_or_def sample_id)
  moreover have "catalog_rows [] 100000 = Ok []" by (simp add: catalog_rows_def from_utf8_def)
  ultimately show ?thesis using sample_rows
    by (simp add: parse_basic_catalog_def MAX_SESSIONS_def MAX_WINDOWS_def SESSION_LIMIT_def) (simp add: sample_listing_def)
qed

theorem catalog_exact_witness:
  "\<exists>entries. parse_basic_catalog sample_listing [] = Ok entries \<and> map sn_id entries = [''$1''] \<and> list_all session_range entries"
  using catalog_exact [OF sample_parsed] sample_parsed by (auto simp: listed_session_def sample_id)

end
