(* ===== verification/Recovery.thy ===== *)
theory Recovery
  imports Catalog Push_State
begin

text \<open>
  The recovery journal of the Home, \<open>hmux-home/src/recovery.rs\<close> and \<open>recovery/restore.rs\<close>: what is saved of the tmux sessions, the
  tests a saved state passes, the capture of the running sessions, and the transactions that
  save, synchronise and restore. Every text is its UTF-8 bytes here. tmux and the file system are
  reached through the operations of an environment; what the transactions do to the outside is
  recorded in the order in which it happens.
\<close>

definition MAX_STATE :: nat where "MAX_STATE = 16777216"
definition SEP :: string where "SEP = ''|:hmux-recovery-v1:|''"
definition MAX_SAVED :: nat where "MAX_SAVED = 512"
definition MAX_ROWS :: nat where "MAX_ROWS = 8192"

lemmas recovery_limits [limits] = MAX_STATE_def MAX_SAVED_def MAX_ROWS_def

datatype recovery_error = RInvalid | RUnavailable | RBusy | RChanged | RCancelled | RCommand

section \<open>Paths\<close>

definition path_components :: "string \<Rightarrow> string list" where
  \<comment> \<open>of an absolute path, after the root: empty and \<open>.\<close> components are not there\<close>
  "path_components p = filter (\<lambda>c. c \<noteq> [] \<and> c \<noteq> ''.'') (split_on (CHR ''/'') p)"

definition path_collect :: "string list \<Rightarrow> string" where
  "path_collect cs = CHR ''/'' # join ''/'' cs"

definition path_file_name :: "string list \<Rightarrow> string option" where
  "path_file_name cs = (if cs = [] \<or> last cs = ''..'' then None else Some (last cs))"

definition path_parent :: "string list \<Rightarrow> string list option" where
  "path_parent cs = (if cs = [] then None else Some (butlast cs))"

definition chars :: "string \<Rightarrow> utext" where
  "chars s = (case from_utf8 s of None \<Rightarrow> [] | Some t \<Rightarrow> t)"

definition text_ok :: "string \<Rightarrow> nat \<Rightarrow> bool \<Rightarrow> bool" where
  "text_ok s most nonempty \<longleftrightarrow> (nonempty \<longrightarrow> s \<noteq> []) \<and> length s \<le> most \<and> \<not> list_ex is_control (chars s)"

definition has_suffix :: "string \<Rightarrow> string \<Rightarrow> bool" where
  "has_suffix s t \<longleftrightarrow> length t \<le> length s \<and> drop (length s - length t) s = t"

definition has_part :: "string \<Rightarrow> string \<Rightarrow> bool" where
  "has_part s t \<longleftrightarrow> list_ex (\<lambda>i. take (length t) (drop i s) = t) [0..<Suc (length s)]"

definition clean_absolute :: "string \<Rightarrow> bool" where
  "clean_absolute s \<longleftrightarrow>
     length s \<le> 4096 \<and> text_ok s 4096 True \<and> path_is_absolute s \<and>
     path_components (path_collect (path_components s)) = path_components s \<and>
     \<not> has_part s ''/../'' \<and> \<not> has_suffix s ''/..'' \<and> \<not> has_part s ''/./''"

section \<open>The saved state\<close>

record resume_reference =
  rr_provider :: string
  rr_session_id :: string
  rr_config_dir :: string

definition resume_valid :: "resume_reference \<Rightarrow> bool" where
  "resume_valid r \<longleftrightarrow>
     rr_provider r \<in> {''codex'', ''claude''} \<and> 1 \<le> length (rr_session_id r) \<and> length (rr_session_id r) \<le> 128 \<and>
     list_all (\<lambda>i. is_ascii_alphanumeric (rr_session_id r ! i) \<or> (0 < i \<and> rr_session_id r ! i = CHR ''-'')) [0..<length (rr_session_id r)] \<and>
     clean_absolute (rr_config_dir r)"

record saved_pane =
  sp_index :: nat
  sp_cwd :: string
  sp_active :: bool
  sp_resume :: "resume_reference option"

record saved_window =
  sw_index :: nat
  sw_name :: string
  sw_layout :: string
  sw_active :: bool
  sw_panes :: "saved_pane list"

record saved_session =
  ss_identity :: session_identity
  ss_name :: string
  ss_alias :: string
  ss_hidden :: bool
  ss_profile :: string
  ss_label :: string
  ss_tags :: "string list"
  ss_windows :: "saved_window list"

type_synonym saved_snapshot = "saved_session list"

record mapping =
  mp_from :: session_identity
  mp_to :: session_identity
  mp_name :: string
  mp_panes :: "(string \<times> string) list"
  mp_gate :: string

record journal =
  jo_boot_id :: string
  jo_snapshot :: saved_snapshot
  jo_completed :: "(string \<times> mapping) list"
  jo_intents :: "(string \<times> string) list"

record recovery_state =
  dk_version :: int
  dk_boot_id :: string
  dk_checkpoint :: saved_snapshot
  dk_pending :: "journal option"
  dk_mappings :: "mapping list"
  dk_updated_at :: string

definition identity_key :: "session_identity \<Rightarrow> string" where
  "identity_key x = si_id x @ ''/'' @ int_decimal (si_created_at x)"

definition identity_valid :: "session_identity \<Rightarrow> bool" where
  "identity_valid x \<longleftrightarrow> validate_session_id (si_id x) \<and> 0 < si_created_at x"

definition valid_name :: "string \<Rightarrow> bool" where
  "valid_name s \<longleftrightarrow> text_ok s 512 True \<and> CHR '':'' \<notin> set s \<and> CHR ''.'' \<notin> set s"

definition valid_tmux :: "string \<Rightarrow> char \<Rightarrow> bool" where
  "valid_tmux s prefix \<longleftrightarrow>
     2 \<le> length s \<and> length s \<le> 14 \<and> hd s = prefix \<and> list_all is_ascii_digit (tl s)"

section \<open>Layouts\<close>

text \<open>The recursive descent over a tmux layout, on the rest of the text. \<open>MAX_DEPTH\<close> levels of nesting are read.\<close>

definition MAX_DEPTH :: nat where "MAX_DEPTH = 128"

definition layout_number :: "string \<Rightarrow> string option" where
  "layout_number s =
     (let n = length (takeWhile is_ascii_digit s) in if 0 < n \<and> n \<le> 10 then Some (drop n s) else None)"

definition layout_expect :: "char \<Rightarrow> string \<Rightarrow> string option" where
  "layout_expect c s = (case s of x # xs \<Rightarrow> if x = c then Some xs else None | [] \<Rightarrow> None)"

definition layout_size :: "string \<Rightarrow> string option" where
  \<comment> \<open>width, height and the two offsets\<close>
  "layout_size s =
     Option.bind (layout_number s) (\<lambda>s. Option.bind (layout_expect (CHR ''x'') s) (\<lambda>s.
     Option.bind (layout_number s) (\<lambda>s. Option.bind (layout_expect (CHR '','') s) (\<lambda>s.
     Option.bind (layout_number s) (\<lambda>s. Option.bind (layout_expect (CHR '','') s) layout_number)))))"

text \<open>The fuel is the number of levels left; a cell at depth 129 is refused. The list of cells is read while a comma follows.\<close>

fun layout_cell :: "nat \<Rightarrow> nat \<Rightarrow> string \<Rightarrow> string option"
  and layout_more :: "nat \<Rightarrow> nat \<Rightarrow> string \<Rightarrow> (nat \<times> string) option" where
  "layout_cell fuel 0 s = None"
| "layout_cell fuel (Suc levels) s =
     (case layout_size s of
        None \<Rightarrow> None
      | Some s \<Rightarrow>
          (case s of
             [] \<Rightarrow> None
           | c # rest \<Rightarrow>
               if c = CHR '','' then layout_number rest
               else if c = CHR ''['' \<or> c = CHR 0x7B then
                 (case layout_cell fuel levels rest of
                    None \<Rightarrow> None
                  | Some s \<Rightarrow>
                      (case layout_more fuel levels s of
                         None \<Rightarrow> None
                       | Some (extra, s) \<Rightarrow>
                           if extra = 0 then None else layout_expect (if c = CHR ''['' then CHR '']'' else CHR 0x7D) s))
               else None))"
| "layout_more 0 levels s = None"
| "layout_more (Suc fuel) levels s =
     (case s of
        c # rest \<Rightarrow>
          if c = CHR '','' then
            (case layout_cell fuel levels rest of
               None \<Rightarrow> None
             | Some s \<Rightarrow> (case layout_more fuel levels s of None \<Rightarrow> None | Some (n, s) \<Rightarrow> Some (Suc n, s)))
          else Some (0, s)
      | [] \<Rightarrow> Some (0, s))"

definition valid_layout :: "string \<Rightarrow> bool" where
  "valid_layout s \<longleftrightarrow>
     6 \<le> length s \<and> length s \<le> 65536 \<and> s ! 4 = CHR '','' \<and> list_all is_lower_hex (take 4 s) \<and>
     layout_cell (Suc (length s)) (Suc MAX_DEPTH) (drop 5 s) = Some []"

section \<open>Validation\<close>

definition pane_saved_ok :: "saved_pane \<Rightarrow> bool" where
  "pane_saved_ok p \<longleftrightarrow>
     sp_index p \<le> 1000000 \<and> clean_absolute (sp_cwd p) \<and> (case sp_resume p of None \<Rightarrow> True | Some r \<Rightarrow> resume_valid r)"

definition window_saved_ok :: "saved_window \<Rightarrow> bool" where
  "window_saved_ok w \<longleftrightarrow>
     sw_index w \<le> 1000000 \<and> text_ok (sw_name w) 256 True \<and> valid_layout (sw_layout w) \<and> sw_panes w \<noteq> [] \<and> length (sw_panes w) \<le> 512 \<and>
     list_all pane_saved_ok (sw_panes w) \<and> distinct (map sp_index (sw_panes w)) \<and> length (filter sp_active (sw_panes w)) = 1"

definition session_saved_ok :: "saved_session \<Rightarrow> bool" where
  "session_saved_ok x \<longleftrightarrow>
     identity_valid (ss_identity x) \<and> valid_name (ss_name x) \<and> ss_windows x \<noteq> [] \<and> length (ss_windows x) \<le> 512 \<and>
     safe_text (chars (ss_alias x)) MAX_ALIAS_BYTES = chars (ss_alias x) \<and> safe_text (chars (ss_profile x)) 128 = chars (ss_profile x) \<and>
     safe_text (chars (ss_label x)) 256 = chars (ss_label x) \<and> length (ss_tags x) \<le> 128 \<and>
     list_all (\<lambda>t. safe_text (chars t) 128 = chars t) (ss_tags x) \<and>
     list_all window_saved_ok (ss_windows x) \<and> distinct (map sw_index (ss_windows x)) \<and> length (filter sw_active (ss_windows x)) = 1"

definition validate_snapshot :: "saved_snapshot \<Rightarrow> bool" where
  "validate_snapshot s \<longleftrightarrow>
     length s \<le> MAX_SAVED \<and> list_all session_saved_ok s \<and> distinct (map ss_name s) \<and> distinct (map (si_id \<circ> ss_identity) s) \<and>
     sum_list (map (length \<circ> ss_windows) s) \<le> 4096 \<and>
     sum_list (map (\<lambda>x. sum_list (map (length \<circ> sw_panes) (ss_windows x))) s) \<le> 8192"

definition ready_gate :: "string \<Rightarrow> bool" where
  "ready_gate path \<longleftrightarrow> clean_absolute path \<and> path_file_name (path_components path) = Some ''ready''"

definition launch_parent :: "string \<Rightarrow> bool" where
  "launch_parent path \<longleftrightarrow>
     (case Option.bind (path_parent (path_components path)) path_file_name of None \<Rightarrow> False | Some n \<Rightarrow> starts_with n ''launch-'')"

definition validate_mapping :: "mapping \<Rightarrow> bool" where
  "validate_mapping m \<longleftrightarrow>
     identity_valid (mp_from m) \<and> identity_valid (mp_to m) \<and> valid_name (mp_name m) \<and> length (mp_panes m) \<le> 8192 \<and>
     list_all (\<lambda>(k, v). let parts = split_on (CHR ''/'') k in
       length parts = 2 \<and> list_all (\<lambda>p. parse_unsigned 32 p \<noteq> None) parts \<and> valid_tmux v (CHR ''%'')) (mp_panes m) \<and>
     (mp_gate m = [] \<or> (ready_gate (mp_gate m) \<and> launch_parent (mp_gate m)))"

definition validate_journal :: "journal \<Rightarrow> bool" where
  "validate_journal p \<longleftrightarrow>
     text_ok (jo_boot_id p) 256 True \<and> length (jo_completed p) \<le> MAX_SAVED \<and> length (jo_intents p) \<le> MAX_SAVED \<and>
     validate_snapshot (jo_snapshot p) \<and>
     list_all (\<lambda>(k, m). validate_mapping m \<and> k = identity_key (mp_from m)) (jo_completed p) \<and>
     list_all (\<lambda>(k, path). list_ex (\<lambda>s. identity_key (ss_identity s) = k) (jo_snapshot p) \<and> ready_gate path) (jo_intents p)"

definition validate_state :: "(string \<Rightarrow> bool) \<Rightarrow> recovery_state \<Rightarrow> bool" where
  \<comment> \<open>the first argument: whether a text is an RFC 3339 time\<close>
  "validate_state rfc3339 s \<longleftrightarrow>
     dk_version s = 1 \<and> text_ok (dk_boot_id s) 256 True \<and> rfc3339 (dk_updated_at s) \<and> validate_snapshot (dk_checkpoint s) \<and>
     (case dk_pending s of None \<Rightarrow> True | Some p \<Rightarrow> validate_journal p) \<and>
     length (dk_mappings s) \<le> MAX_SAVED \<and> list_all validate_mapping (dk_mappings s) \<and>
     distinct (map (identity_key \<circ> mp_from) (dk_mappings s)) \<and> distinct (map (identity_key \<circ> mp_to) (dk_mappings s))"

section \<open>The outside\<close>

text \<open>
  A transaction asks the outside in some order: whether it has been cancelled, what tmux answers, whether a
  write succeeded. The answers come from an environment with a state of its own. What the
  transaction changes is kept: the journal file, the gates that hold back providers, the shared workspace and the
  session metadata, and the list of what it did, newest first.
\<close>

datatype action =
  Tmux "string list" \<comment> \<open>a command given to tmux\<close>
| Journal recovery_state \<comment> \<open>a journal renamed into place\<close>
| Ready string \<comment> \<open>a gate opened\<close>

record 'w world =
  wo_file :: "bytes option"
  wo_gates :: "string list"
  wo_workspace :: private_dir
  wo_metadata :: private_dir
  wo_actions :: "action list"
  wo_env :: 'w

datatype made_dir = MadeDir | DirExists | MkdirFailed
datatype resolve_purpose = ForCheckpoint | ForRestored

record 'w recovery_env =
  rv_state_dir :: string
  rv_reader :: catalog_reader
  rv_lower :: "bytes \<Rightarrow> utext"
  rv_rfc3339 :: "string \<Rightarrow> bool"
  rv_parse :: "bytes \<Rightarrow> recovery_state option"
  rv_print :: "recovery_state \<Rightarrow> bytes option"
  rv_metadata_files :: "metadata_state state_file"
  rv_visibility_files :: "visibility_state state_file"
  rv_workspace_parse :: "bytes \<Rightarrow> snapshot option"
  rv_workspace_print :: "snapshot \<Rightarrow> bytes"
  rv_shell_var :: string
  rv_runs :: "string \<Rightarrow> bool" \<comment> \<open>whether a path is an executable file\<close>
  rv_path_var :: string
  rv_home_var :: "string option"
  rv_validate :: "string \<Rightarrow> (string \<times> string) option" \<comment> \<open>an executable's absolute and resolved path\<close>
  rv_versions :: "string \<Rightarrow> (string \<times> bool) option list option" \<comment> \<open>the entries of a directory and whether they are directories\<close>
  rv_cancelled :: "'w \<Rightarrow> bool \<times> 'w"
  rv_stopped :: "'w \<Rightarrow> bool \<times> 'w"
  rv_tmux :: "string list \<Rightarrow> 'w \<Rightarrow> (recovery_error, bytes) result \<times> 'w"
  rv_list :: "string list \<Rightarrow> 'w \<Rightarrow> (catalog_error, bytes) result \<times> 'w"
  rv_readable :: "'w \<Rightarrow> bool \<times> 'w"
  rv_write :: "'w \<Rightarrow> write_result \<times> 'w"
  rv_now :: "'w \<Rightarrow> string \<times> 'w"
  rv_random :: "'w \<Rightarrow> bytes option \<times> 'w"
  rv_mkdir :: "string \<Rightarrow> 'w \<Rightarrow> made_dir \<times> 'w"
  rv_secured :: "'w \<Rightarrow> bool \<times> 'w" \<comment> \<open>a new directory is private and its parent synchronised\<close>
  rv_gate_opens :: "string \<Rightarrow> 'w \<Rightarrow> bool \<times> 'w"
  rv_resolver :: "int list \<Rightarrow> resolve_purpose \<Rightarrow> 'w \<Rightarrow> (recovery_error, (int \<times> resume_reference) list) result \<times> 'w"
  rv_opened :: "'w \<Rightarrow> opened_dir \<times> 'w"
  rv_update :: "'w \<Rightarrow> update_io \<times> 'w"
  rv_resolve_checks :: "'w \<Rightarrow> (bool \<times> bool) \<times> 'w"
  rv_locked :: "'w \<Rightarrow> bool \<times> 'w"
  rv_boot :: "'w \<Rightarrow> (recovery_error, string) result \<times> 'w"

type_synonym ('w, 'a) op = "'w world \<Rightarrow> (recovery_error, 'a) result \<times> 'w world"

definition give :: "'a \<Rightarrow> ('w, 'a) op" where
  "give a w = (Ok a, w)"

definition refuse :: "recovery_error \<Rightarrow> ('w, 'a) op" where
  "refuse e w = (Err e, w)"

definition and_do :: "('w, 'a) op \<Rightarrow> ('a \<Rightarrow> ('w, 'b) op) \<Rightarrow> ('w, 'b) op" where
  "and_do m f w = (case m w of (Inl e, w) \<Rightarrow> (Err e, w) | (Inr a, w) \<Rightarrow> f a w)"

definition ask :: "('w \<Rightarrow> 'a \<times> 'w) \<Rightarrow> ('w, 'a) op" where
  "ask q w = (case q (wo_env w) of (a, e) \<Rightarrow> (Ok a, w\<lparr>wo_env := e\<rparr>))"

definition settle :: "(recovery_error, 'a) result \<Rightarrow> ('w, 'a) op" where
  "settle r w = (r, w)"

definition require :: "bool \<Rightarrow> recovery_error \<Rightarrow> ('w, unit) op" where
  "require b e = (if b then give () else refuse e)"

definition log_action :: "action \<Rightarrow> ('w, unit) op" where
  "log_action a w = (Ok (), w\<lparr>wo_actions := a # wo_actions w\<rparr>)"

fun each :: "('a \<Rightarrow> 's \<Rightarrow> ('w, 's) op) \<Rightarrow> 'a list \<Rightarrow> 's \<Rightarrow> ('w, 's) op" where
  "each f [] s = give s"
| "each f (x # xs) s = and_do (f x s) (each f xs)"

definition check_cancel :: "'w recovery_env \<Rightarrow> ('w, unit) op" where
  "check_cancel env = and_do (ask (rv_cancelled env)) (\<lambda>c. require (\<not> c) RCancelled)"

definition command :: "'w recovery_env \<Rightarrow> string list \<Rightarrow> ('w, bytes) op" where
  "command env args =
     and_do (check_cancel env) (\<lambda>_.
     and_do (log_action (Tmux args)) (\<lambda>_.
     and_do (ask (rv_tmux env args)) settle))"

definition basic :: "'w recovery_env \<Rightarrow> ('w, session list) op" where
  "basic env =
     and_do (check_cancel env) (\<lambda>_.
     and_do (ask (read_basic (rv_lower env) (rv_list env) (rv_reader env))) (\<lambda>r.
       case r of
         Inr sessions \<Rightarrow> give sessions
       | Inl _ \<Rightarrow> and_do (ask (rv_stopped env)) (\<lambda>stopped. refuse (if stopped then RCancelled else RCommand))))"

section \<open>The journal file\<close>

definition read_journal :: "'w recovery_env \<Rightarrow> ('w, recovery_state option) op" where
  "read_journal env =
     and_do (ask (rv_readable env)) (\<lambda>readable. \<lambda>w.
       case read_private readable (\<lambda>_. wo_file w) ''state.json'' MAX_STATE of
         Inl NotFound \<Rightarrow> (Ok None, w)
       | Inl ReadFailed \<Rightarrow> (Err RUnavailable, w)
       | Inr raw \<Rightarrow>
           (case rv_parse env raw of
              None \<Rightarrow> (Err RInvalid, w)
            | Some s \<Rightarrow> if validate_state (rv_rfc3339 env) s then (Ok (Some s), w) else (Err RInvalid, w)))"

definition replace_file :: "write_result \<Rightarrow> recovery_state \<Rightarrow> bytes \<Rightarrow> 'w world \<Rightarrow> (recovery_error, recovery_state) result \<times> 'w world" where
  "replace_file wr s raw w =
     (case wr of
        WriteOk \<Rightarrow> (Ok s, w\<lparr>wo_file := Some raw, wo_actions := Journal s # wo_actions w\<rparr>)
      | WriteFailed True \<Rightarrow> (Err RUnavailable, w\<lparr>wo_file := Some raw, wo_actions := Journal s # wo_actions w\<rparr>)
      | WriteFailed False \<Rightarrow> (Err RUnavailable, w))"

definition write_journal :: "'w recovery_env \<Rightarrow> recovery_state \<Rightarrow> ('w, recovery_state) op" where
  \<comment> \<open>gives the state as it was stamped\<close>
  "write_journal env s =
     and_do (ask (rv_now env)) (\<lambda>now.
       let s = s\<lparr>dk_version := 1, dk_updated_at := now\<rparr> in
       if \<not> validate_state (rv_rfc3339 env) s then refuse RInvalid
       else case rv_print env s of
         None \<Rightarrow> refuse RInvalid
       | Some text \<Rightarrow>
           let raw = text @ [CHR 0x0A] in
           if MAX_STATE < length raw then refuse RInvalid
           else and_do (ask (rv_write env)) (\<lambda>wr. replace_file wr s raw))"

section \<open>Capture\<close>

fun bt_insert :: "'k::linorder \<Rightarrow> 'v \<Rightarrow> ('k \<times> 'v) list \<Rightarrow> ('k \<times> 'v) list" where
  \<comment> \<open>a \<open>BTreeMap\<close> as the list of its entries in order\<close>
  "bt_insert k v [] = [(k, v)]"
| "bt_insert k v ((k', v') # m) =
     (if k < k' then (k, v) # (k', v') # m else if k = k' then (k, v) # m else (k', v') # bt_insert k v m)"

definition PANE_FORMAT :: string where
  "PANE_FORMAT = ''#{session_id}|:hmux-recovery-v1:|#{window_id}|:hmux-recovery-v1:|#{window_index}|:hmux-recovery-v1:|#{window_name}|:hmux-recovery-v1:|#{window_layout}|:hmux-recovery-v1:|#{window_active}|:hmux-recovery-v1:|#{pane_id}|:hmux-recovery-v1:|#{pane_index}|:hmux-recovery-v1:|#{pane_active}|:hmux-recovery-v1:|#{pane_current_path}|:hmux-recovery-v1:|#{pane_pid}''"

definition trim_end :: "char \<Rightarrow> string \<Rightarrow> string" where
  "trim_end c s = rev (dropWhile (\<lambda>x. x = c) (rev s))"

definition str_lines :: "string \<Rightarrow> string list" where
  \<comment> \<open>\<open>str::lines\<close>: no empty line at the end, and no carriage return before the line feed\<close>
  "str_lines s =
     (let ls = split_on (CHR 0x0A) s; ls = (if last ls = [] then butlast ls else ls) in
      map (\<lambda>l. if l \<noteq> [] \<and> last l = CHR 0x0D then butlast l else l) ls)"

definition row_flag :: "string \<Rightarrow> (recovery_error, bool) result" where
  "row_flag s = (if s = ''0'' then Ok False else if s = ''1'' then Ok True else Err RInvalid)"

definition saved_of :: "session \<Rightarrow> saved_session" where
  "saved_of s =
     \<lparr>ss_identity = \<lparr>si_id = sn_id s, si_created_at = sn_created_at s\<rparr>, ss_name = to_utf8 (sn_name s), ss_alias = to_utf8 (sn_alias s),
      ss_hidden = sn_hidden s, ss_profile = sn_profile s, ss_label = to_utf8 (sn_label s),
      ss_tags = (case sn_tags s of None \<Rightarrow> [] | Some ts \<Rightarrow> map to_utf8 ts), ss_windows = []\<rparr>"

record capture_state =
  ca_sessions :: "(string \<times> saved_session) list"
  ca_pids :: "int list"
  ca_positions :: "(int \<times> (string \<times> nat \<times> nat)) list"
  ca_pane_ids :: "string list"
  ca_window_ids :: "((string \<times> string) \<times> (nat \<times> string \<times> string \<times> bool)) list"

definition add_pane :: "nat \<Rightarrow> string \<Rightarrow> string \<Rightarrow> bool \<Rightarrow> saved_pane \<Rightarrow> saved_session \<Rightarrow> (recovery_error, saved_session) result" where
  "add_pane wi name layout active pane s =
     (case find (\<lambda>w. sw_index w = wi) (ss_windows s) of
        None \<Rightarrow> Ok (s\<lparr>ss_windows := ss_windows s @ [\<lparr>sw_index = wi, sw_name = name, sw_layout = layout, sw_active = active, sw_panes = [pane]\<rparr>]\<rparr>)
      | Some w \<Rightarrow>
          if sw_name w \<noteq> name \<or> sw_layout w \<noteq> layout \<or> sw_active w \<noteq> active \<or> list_ex (\<lambda>p. sp_index p = sp_index pane) (sw_panes w)
          then Err RInvalid
          else Ok (s\<lparr>ss_windows := map (\<lambda>x. if sw_index x = wi then x\<lparr>sw_panes := sw_panes x @ [pane]\<rparr> else x) (ss_windows s)\<rparr>))"

definition capture_row :: "string \<Rightarrow> capture_state \<Rightarrow> (recovery_error, capture_state) result" where
  "capture_row row c =
     (let f = split_str SEP (trim_end (CHR 0x0D) row) in
      if length f \<noteq> 11 then Err RInvalid
      else case map_of (ca_sessions c) (f ! 0) of
        None \<Rightarrow> Ok c
      | Some session \<Rightarrow>
          if \<not> valid_tmux (f ! 1) (CHR ''@'') \<or> \<not> valid_tmux (f ! 6) (CHR ''%'') \<or> f ! 6 \<in> set (ca_pane_ids c) then Err RInvalid
          else case (parse_unsigned 32 (f ! 2), parse_unsigned 32 (f ! 7), row_flag (f ! 5), row_flag (f ! 8), parse_signed 32 (f ! 10)) of
            (Some wi, Some pi, Inr wa, Inr pa, Some pid) \<Rightarrow>
              if pid < 1 \<or> 1073741824 < pid \<or> pid \<in> fst ` set (ca_positions c) then Err RInvalid
              else if (case map_of (ca_window_ids c) (f ! 0, f ! 1) of None \<Rightarrow> False | Some old \<Rightarrow> old \<noteq> (wi, f ! 3, f ! 4, wa)) then Err RInvalid
              else and_then (add_pane wi (f ! 3) (f ! 4) wa \<lparr>sp_index = pi, sp_cwd = f ! 9, sp_active = pa, sp_resume = None\<rparr> session) (\<lambda>session.
                Ok (c\<lparr>ca_sessions := bt_insert (f ! 0) session (ca_sessions c), ca_pids := ca_pids c @ [pid],
                      ca_positions := (pid, (f ! 0, wi, pi)) # ca_positions c, ca_pane_ids := f ! 6 # ca_pane_ids c,
                      ca_window_ids := ((f ! 0, f ! 1), (wi, f ! 3, f ! 4, wa)) # ca_window_ids c\<rparr>))
          | _ \<Rightarrow> Err RInvalid)"

fun capture_rows :: "string list \<Rightarrow> capture_state \<Rightarrow> (recovery_error, capture_state) result" where
  "capture_rows [] c = Ok c"
| "capture_rows (row # rows) c = and_then (capture_row row c) (capture_rows rows)"

definition bind_pane :: "nat \<Rightarrow> nat \<Rightarrow> resume_reference \<Rightarrow> saved_session \<Rightarrow> saved_session option" where
  "bind_pane wi pi r s =
     (if list_ex (\<lambda>w. sw_index w = wi \<and> list_ex (\<lambda>p. sp_index p = pi) (sw_panes w)) (ss_windows s)
      then Some (s\<lparr>ss_windows := map (\<lambda>w. if sw_index w = wi
             then w\<lparr>sw_panes := map (\<lambda>p. if sp_index p = pi then p\<lparr>sp_resume := Some r\<rparr> else p) (sw_panes w)\<rparr> else w) (ss_windows s)\<rparr>)
      else None)"

fun bind_resumes :: "(int \<times> (string \<times> nat \<times> nat)) list \<Rightarrow> (int \<times> resume_reference) list \<Rightarrow> (string \<times> saved_session) list \<Rightarrow>
    (recovery_error, (string \<times> saved_session) list) result" where
  "bind_resumes positions [] ss = Ok ss"
| "bind_resumes positions ((pid, r) # rest) ss =
     (if \<not> resume_valid r then Err RInvalid
      else case map_of positions pid of
        None \<Rightarrow> Err RInvalid
      | Some (sid, wi, pi) \<Rightarrow>
          (case Option.bind (map_of ss sid) (bind_pane wi pi r) of
             None \<Rightarrow> Err RInvalid
           | Some s \<Rightarrow> bind_resumes positions rest (bt_insert sid s ss)))"

fun included_rows :: "string list \<Rightarrow> string list \<Rightarrow> (recovery_error, string list) result" where
  "included_rows ids [] = Ok []"
| "included_rows ids (row # rows) =
     (let row = trim_end (CHR 0x0D) row; f = split_str SEP row in
      if length f \<noteq> 11 then Err RInvalid
      else and_then (included_rows ids rows) (\<lambda>rest. Ok (if f ! 0 \<in> set ids then row # rest else rest)))"

definition included_panes :: "string list \<Rightarrow> bytes \<Rightarrow> (recovery_error, string list) result" where
  "included_panes ids raw =
     (if from_utf8 raw = None then Err RInvalid
      else if MAX_ROWS < length (str_lines raw) then Err RInvalid
      else and_then (included_rows ids (str_lines raw)) (\<lambda>rows. Ok (sort rows)))"

definition sorted_snapshot :: "(string \<times> saved_session) list \<Rightarrow> saved_snapshot" where
  "sorted_snapshot ss =
     map (\<lambda>(_, s). s\<lparr>ss_windows := sort_key sw_index (map (\<lambda>w. w\<lparr>sw_panes := sort_key sp_index (sw_panes w)\<rparr>) (ss_windows s))\<rparr>) ss"

definition same_sessions :: "session list \<Rightarrow> session list \<Rightarrow> bool" where
  "same_sessions again sessions \<longleftrightarrow>
     length again = length sessions \<and>
     list_all (\<lambda>s. list_ex (\<lambda>old. sn_id old = sn_id s \<and> sn_created_at old = sn_created_at s \<and> sn_name old = sn_name s) sessions) again"

definition described :: "'w recovery_env \<Rightarrow> session list \<Rightarrow> ('w, session list) op" where
  \<comment> \<open>the sessions with their metadata and visibility\<close>
  "described env sessions =
     and_do (ask (rv_opened env)) (\<lambda>opened. and_do (ask (rv_readable env)) (\<lambda>readable. \<lambda>w.
       case and_then (load_file_state (rv_metadata_files env) opened readable (wo_metadata w))
              (\<lambda>st. Ok (case st of None \<Rightarrow> sessions | Some st \<Rightarrow> map (apply_metadata st) sessions)) of
         Inl _ \<Rightarrow> (Err RUnavailable, w)
       | Inr sessions \<Rightarrow>
           and_do (ask (rv_opened env)) (\<lambda>opened. and_do (ask (rv_readable env)) (\<lambda>readable. \<lambda>w.
             case and_then (load_file_state (rv_visibility_files env) opened readable (wo_metadata w))
                    (\<lambda>st. Ok (case st of None \<Rightarrow> sessions | Some st \<Rightarrow> map (apply_hidden st) sessions)) of
               Inl _ \<Rightarrow> (Err RUnavailable, w)
             | Inr sessions \<Rightarrow> (Ok sessions, w))) w))"

definition capture_observed :: "'w recovery_env \<Rightarrow> resolve_purpose \<Rightarrow> ('w, saved_snapshot) op" where
  "capture_observed env purpose =
     and_do (basic env) (\<lambda>listed.
     and_do (described env listed) (\<lambda>sessions.
       if MAX_SAVED < length sessions then refuse RInvalid
       else if sessions = [] then give []
       else
         and_do (command env [''list-panes'', ''-a'', ''-F'', PANE_FORMAT]) (\<lambda>raw.
         and_do (require (from_utf8 raw \<noteq> None) RInvalid) (\<lambda>_.
           let rows = str_lines (trim_end (CHR 0x0A) raw) in
           if MAX_ROWS < length rows then refuse RInvalid
           else
             and_do (settle (capture_rows rows \<lparr>ca_sessions = fold (\<lambda>s. bt_insert (sn_id s) (saved_of s)) sessions [], ca_pids = [], ca_positions = [],
               ca_pane_ids = [], ca_window_ids = []\<rparr>)) (\<lambda>c.
             and_do (check_cancel env) (\<lambda>_.
             and_do (ask (rv_resolver env (ca_pids c) purpose)) (\<lambda>found.
             and_do (settle found) (\<lambda>bindings.
             and_do (check_cancel env) (\<lambda>_.
             and_do (settle (bind_resumes (ca_positions c) bindings (ca_sessions c))) (\<lambda>by_id.
             and_do (basic env) (\<lambda>again.
             and_do (require (same_sessions again sessions) RChanged) (\<lambda>_.
             and_do (command env [''list-panes'', ''-a'', ''-F'', PANE_FORMAT]) (\<lambda>raw_again.
             and_do (settle (included_panes (keys by_id) raw)) (\<lambda>first.
             and_do (settle (included_panes (keys by_id) raw_again)) (\<lambda>second.
             and_do (require (first = second) RChanged) (\<lambda>_.
               let shot = sorted_snapshot by_id in
               and_do (require (validate_snapshot shot) RInvalid) (\<lambda>_. give shot)))))))))))))))))"

end
