(* ===== verification/Restore.thy ===== *)
theory Restore
  imports Recovery
begin

text \<open>
  The restore of \<open>hmux-home/src/recovery/restore.rs\<close> and the transactions of \<open>recovery.rs\<close> around it: a journal
  says which sessions are to be built again, under which gate, and which are done.
\<close>

definition attempt :: "('w, 'a) op \<Rightarrow> ('w, (recovery_error, 'a) result) op" where
  "attempt m w = (case m w of (r, w) \<Rightarrow> (Ok r, w))"

section \<open>Names and gates\<close>

fun strip_all :: "nat \<Rightarrow> string \<Rightarrow> string \<Rightarrow> string" where
  \<comment> \<open>\<open>trim_start_matches\<close>: a prefix is taken off as often as it is there\<close>
  "strip_all 0 p s = s"
| "strip_all (Suc n) p s = (if p \<noteq> [] \<and> starts_with s p then strip_all n p (drop (length p) s) else s)"

definition temporary_name :: "string \<Rightarrow> string" where
  "temporary_name gate =
     (let n = (case Option.bind (path_parent (path_components gate)) path_file_name of None \<Rightarrow> [] | Some n \<Rightarrow> n) in
      ''hmux-recovery-'' @ strip_all (length n) ''launch-'' n)"

definition path_add :: "string \<Rightarrow> string \<Rightarrow> string" where
  "path_add a b = (if a \<noteq> [] \<and> last a = CHR ''/'' then a @ b else a @ ''/'' @ b)"

definition reserve_gate_name :: "'w recovery_env \<Rightarrow> string \<Rightarrow> ('w, string option) op" where
  "reserve_gate_name env name =
     (if \<not> starts_with name ''launch-'' \<or> length name \<noteq> 31 \<or> \<not> list_all is_ascii_hexdigit (drop 7 name) then refuse RInvalid
      else
        and_do (\<lambda>w. if name \<in> set (wo_gates w) then (Ok DirExists, w) else ask (rv_mkdir env name) w) (\<lambda>made.
          case made of
            DirExists \<Rightarrow> give None
          | MkdirFailed \<Rightarrow> refuse RUnavailable
          | MadeDir \<Rightarrow>
              and_do (\<lambda>w. (Ok (), w\<lparr>wo_gates := name # wo_gates w\<rparr>)) (\<lambda>_.
              and_do (ask (rv_secured env)) (\<lambda>secured.
              and_do (require secured RUnavailable) (\<lambda>_.
                give (Some (path_add (path_add (path_add (rv_state_dir env) ''recovery'') name) ''ready'')))))))"

fun new_gate :: "nat \<Rightarrow> 'w recovery_env \<Rightarrow> ('w, string) op" where
  \<comment> \<open>the first argument: how many more names are tried\<close>
  "new_gate 0 env = refuse RUnavailable"
| "new_gate (Suc n) env =
     and_do (ask (rv_random env)) (\<lambda>r.
       case r of
         None \<Rightarrow> refuse RUnavailable
       | Some b \<Rightarrow>
           and_do (reserve_gate_name env (''launch-'' @ hex_bytes b)) (\<lambda>gate. case gate of Some g \<Rightarrow> give g | None \<Rightarrow> new_gate n env))"

definition validate_gate :: "'w recovery_env \<Rightarrow> string \<Rightarrow> ('w, unit) op" where
  "validate_gate env gate =
     (let cs = path_components gate in
      if \<not> path_is_absolute gate \<or>
         Option.bind (path_parent cs) path_parent \<noteq> Some (path_components (path_add (rv_state_dir env) ''recovery'')) \<or>
         path_file_name cs \<noteq> Some ''ready'' \<or> \<not> launch_parent gate
      then refuse RInvalid
      else and_do (ask (rv_gate_opens env gate)) (\<lambda>ok. require ok RUnavailable))"

definition row_fields :: "bytes \<Rightarrow> nat \<Rightarrow> (recovery_error, string list) result" where
  "row_fields raw n =
     (case from_utf8 raw of
        None \<Rightarrow> Err RInvalid
      | Some t \<Rightarrow> let f = split_str SEP (to_utf8 (trim t)) in if length f \<noteq> n then Err RInvalid else Ok f)"

section \<open>Launching\<close>

definition recovery_shell :: "'w recovery_env \<Rightarrow> string" where
  "recovery_shell env =
     (case find (\<lambda>p. path_is_absolute p \<and> rv_runs env p) [rv_shell_var env, ''/bin/zsh'', ''/bin/bash'', ''/bin/sh''] of
        Some p \<Rightarrow> p
      | None \<Rightarrow> ''/bin/sh'')"

fun version_candidates :: "string \<Rightarrow> string \<Rightarrow> nat \<Rightarrow> (string \<times> bool) option list \<Rightarrow> (recovery_error, string list) result" where
  "version_candidates base provider n [] = Ok []"
| "version_candidates base provider n (e # es) =
     (case e of
        None \<Rightarrow> Err RUnavailable
      | Some (name, dir) \<Rightarrow>
          if 128 < n + 1 then Err RInvalid
          else and_then (version_candidates base provider (n + 1) es) (\<lambda>cs.
            Ok (if dir then path_add (path_add (path_add base name) ''bin'') provider # cs else cs)))"

definition find_executable_in :: "'w recovery_env \<Rightarrow> string \<Rightarrow> (recovery_error, string) result" where
  "find_executable_in env provider =
     (if provider \<notin> {''codex'', ''claude''} then Err RInvalid
      else case List.map_filter (\<lambda>d. rv_validate env (path_add d provider)) (filter path_is_absolute (split_on (CHR '':'') (rv_path_var env))) of
        (original, _) # _ \<Rightarrow> Ok original
      | [] \<Rightarrow>
          and_then (case rv_home_var env of
                      Some home \<Rightarrow>
                        if path_is_absolute home
                        then and_then (case rv_versions env (path_add home ''.nvm/versions/node'') of
                                         None \<Rightarrow> Ok []
                                       | Some es \<Rightarrow> version_candidates (path_add home ''.nvm/versions/node'') provider 0 es)
                               (\<lambda>cs. Ok (path_add (path_add home ''.local/bin'') provider # cs))
                        else Ok []
                    | None \<Rightarrow> Ok [])
            (\<lambda>candidates.
              let candidates = candidates @ [path_add ''/opt/homebrew/bin'' provider, path_add ''/usr/local/bin'' provider];
                  found = fold (\<lambda>(original, resolved). bt_insert resolved original) (List.map_filter (rv_validate env) candidates) [] in
              case found of [(_, original)] \<Rightarrow> Ok original | _ \<Rightarrow> Err RUnavailable))"

fun provider_executables :: "'w recovery_env \<Rightarrow> saved_pane list \<Rightarrow> (string \<times> string) list \<Rightarrow> (recovery_error, (string \<times> string) list) result" where
  "provider_executables env [] m = Ok m"
| "provider_executables env (p # ps) m =
     (case sp_resume p of
        None \<Rightarrow> provider_executables env ps m
      | Some r \<Rightarrow>
          if map_of m (rr_provider r) \<noteq> None then provider_executables env ps m
          else and_then (find_executable_in env (rr_provider r)) (\<lambda>path. provider_executables env ps (bt_insert (rr_provider r) path m)))"

definition GATE_SCRIPT :: string where
  "GATE_SCRIPT = ''while [ ! -f '' @ CHR 0x22 # ''$1'' @ CHR 0x22 # '' ]; do /bin/sleep 1; done; shift; exec '' @ CHR 0x22 # ''$@'' @ [CHR 0x22]"

definition PROVIDER_SCRIPT :: string where
  "PROVIDER_SCRIPT = ''shell=$1; shift'' @ CHR 0x0A # ''trap '' @ CHR 0x27 # '':'' @ CHR 0x27 # '' INT QUIT'' @ CHR 0x0A #
     ''(trap - INT QUIT; exec '' @ CHR 0x22 # ''$@'' @ CHR 0x22 # '')'' @ CHR 0x0A # ''exec '' @ CHR 0x22 # ''$shell'' @ CHR 0x22 # '' -i''"

definition gated :: "'w recovery_env \<Rightarrow> (string \<times> string) list \<Rightarrow> string \<Rightarrow> saved_pane \<Rightarrow> string list" where
  \<comment> \<open>what is added to the arguments of a command that makes a pane\<close>
  "gated env executables gate p =
     (case sp_resume p of
        Some r \<Rightarrow>
          (let executable = the (map_of executables (rr_provider r));
               dir = (case path_parent (path_components executable) of None \<Rightarrow> ''/usr/bin'' | Some cs \<Rightarrow> path_collect cs) in
           (if rv_runs env (path_add dir ''node'')
            then [''-e'', ''PATH='' @ dir @ '':/usr/bin:/bin:/usr/sbin:/sbin:/opt/homebrew/bin:/usr/local/bin''] else []) @
           [''-e'', (if rr_provider r = ''codex'' then ''CODEX_HOME'' else ''CLAUDE_CONFIG_DIR'') @ ''='' @ rr_config_dir r] @
           [''/bin/sh'', ''-c'', GATE_SCRIPT, ''hmux-recovery'', gate] @
           [''/bin/sh'', ''-c'', PROVIDER_SCRIPT, ''hmux-provider'', recovery_shell env, executable,
            if rr_provider r = ''codex'' then ''resume'' else ''--resume'', rr_session_id r])
      | None \<Rightarrow> [''/bin/sh'', ''-c'', GATE_SCRIPT, ''hmux-recovery'', gate] @ [recovery_shell env, ''-il''])"

definition verify_panes :: "'w recovery_env \<Rightarrow> mapping \<Rightarrow> ('w, unit) op" where
  "verify_panes env m =
     and_do (command env [''display-message'', ''-p'', ''-t'', si_id (mp_to m), ''#{session_id}|:hmux-recovery-v1:|#{session_created}'']) (\<lambda>raw.
     and_do (settle (row_fields raw 2)) (\<lambda>f.
       if f ! 0 \<noteq> si_id (mp_to m) \<or> f ! 1 \<noteq> int_decimal (si_created_at (mp_to m)) then refuse RChanged
       else
         and_do (command env [''list-panes'', ''-s'', ''-t'', si_id (mp_to m), ''-F'',
           ''#{pane_id}|:hmux-recovery-v1:|#{window_index}|:hmux-recovery-v1:|#{pane_index}'']) (\<lambda>raw.
           let rows = map (split_str SEP) (str_lines raw); place = (\<lambda>f. f ! 1 @ ''/'' @ f ! 2) in
           require (from_utf8 raw \<noteq> None \<and> list_all (\<lambda>f. length f = 3 \<and> map_of (mp_panes m) (place f) = Some (f ! 0)) rows \<and>
             distinct (map place rows) \<and> length rows = length (mp_panes m)) RChanged)))"

definition write_ready :: "'w recovery_env \<Rightarrow> string \<Rightarrow> ('w, unit) op" where
  "write_ready env gate =
     and_do (ask (rv_write env)) (\<lambda>wr. \<lambda>w.
       case wr of
         WriteOk \<Rightarrow> (Ok (), w\<lparr>wo_actions := Ready gate # wo_actions w\<rparr>)
       | WriteFailed True \<Rightarrow> (Err RUnavailable, w\<lparr>wo_actions := Ready gate # wo_actions w\<rparr>)
       | WriteFailed False \<Rightarrow> (Err RUnavailable, w))"

definition launch_providers :: "'w recovery_env \<Rightarrow> mapping \<Rightarrow> ('w, unit) op" where
  "launch_providers env m =
     (if mp_gate m = [] then give ()
      else
        and_do (validate_gate env (mp_gate m)) (\<lambda>_.
        and_do (verify_panes env m) (\<lambda>_.
        and_do (command env [''display-message'', ''-p'', ''-t'', si_id (mp_to m), ''#{session_name}'']) (\<lambda>raw.
          case from_utf8 raw of
            None \<Rightarrow> refuse RInvalid
          | Some t \<Rightarrow>
              let name = to_utf8 (trim t) in
              and_do (if name = temporary_name (mp_gate m)
                      then and_do (command env [''rename-session'', ''-t'', si_id (mp_to m), mp_name m]) (\<lambda>_. give ())
                      else require (name = mp_name m) RChanged) (\<lambda>_.
              and_do (check_cancel env) (\<lambda>_. write_ready env (mp_gate m)))))))"

definition terminate_expected :: "'w recovery_env \<Rightarrow> session_identity \<Rightarrow> ('w, unit) op" where
  "terminate_expected env x =
     (if \<not> identity_valid x then refuse RInvalid
      else
        and_do (command env [''if-shell'', ''-F'', ''-t'', si_id x, ''#{==:#{session_created},'' @ int_decimal (si_created_at x) @ [CHR 0x7D],
          ''kill-session -t '' @ si_id x, ''display-message -p hmux-session-changed'']) (\<lambda>raw. require (raw = []) RChanged))"

section \<open>Building a session\<close>

definition CREATED_SESSION :: string where
  "CREATED_SESSION = ''#{session_id}|:hmux-recovery-v1:|#{window_id}|:hmux-recovery-v1:|#{pane_id}|:hmux-recovery-v1:|#{session_created}|:hmux-recovery-v1:|#{window_index}''"

definition CREATED_WINDOW :: string where
  "CREATED_WINDOW = ''#{window_id}|:hmux-recovery-v1:|#{pane_id}|:hmux-recovery-v1:|#{window_index}''"

definition build_window ::
  "'w recovery_env \<Rightarrow> (string \<times> string) list \<Rightarrow> string \<Rightarrow> session_identity \<Rightarrow> saved_window \<Rightarrow> (string \<times> string list) list \<Rightarrow> ('w, (string \<times> string list) list) op" where
  "build_window env executables gate x window built =
     and_do (command env ([''new-window'', ''-d'', ''-P'', ''-F'', CREATED_WINDOW, ''-t'', si_id x @ '':'' @ decimal (sw_index window), ''-n'',
       sw_name window, ''-c'', sp_cwd (hd (sw_panes window))] @ gated env executables gate (hd (sw_panes window)))) (\<lambda>raw.
     and_do (settle (row_fields raw 3)) (\<lambda>f.
       if \<not> valid_tmux (f ! 0) (CHR ''@'') \<or> \<not> valid_tmux (f ! 1) (CHR ''%'') \<or> f ! 2 \<noteq> decimal (sw_index window) then refuse RInvalid
       else give (built @ [(f ! 0, [f ! 1])])))"

definition split_pane ::
  "'w recovery_env \<Rightarrow> (string \<times> string) list \<Rightarrow> string \<Rightarrow> string \<Rightarrow> saved_pane \<Rightarrow> string list \<Rightarrow> ('w, string list) op" where
  "split_pane env executables gate window_id pane pane_ids =
     and_do (command env ([''split-window'', ''-d'', ''-P'', ''-F'', ''#{pane_id}'', ''-t'', last pane_ids, ''-c'', sp_cwd pane] @
       gated env executables gate pane)) (\<lambda>raw.
       case from_utf8 raw of
         None \<Rightarrow> refuse RInvalid
       | Some t \<Rightarrow>
           let pane_id = to_utf8 (trim t) in
           if \<not> valid_tmux pane_id (CHR ''%'') then refuse RInvalid
           else and_do (command env [''select-layout'', ''-t'', window_id, ''tiled'']) (\<lambda>_. give (pane_ids @ [pane_id])))"

definition fill_window ::
  "'w recovery_env \<Rightarrow> (string \<times> string) list \<Rightarrow> string \<Rightarrow> saved_window \<times> string \<times> string list \<Rightarrow> (string \<times> string list) list \<Rightarrow>
    ('w, (string \<times> string list) list) op" where
  "fill_window env executables gate = (\<lambda>(window, window_id, pane_ids) filled.
     and_do (each (split_pane env executables gate window_id) (tl (sw_panes window)) pane_ids) (\<lambda>pane_ids.
     and_do (command env [''select-layout'', ''-t'', window_id, sw_layout window]) (\<lambda>_.
     and_do (case find (\<lambda>i. sp_active (sw_panes window ! i)) [0..<length (sw_panes window)] of
               None \<Rightarrow> give ()
             | Some i \<Rightarrow> and_do (command env [''select-pane'', ''-t'', pane_ids ! i]) (\<lambda>_. give ())) (\<lambda>_.
       give (filled @ [(window_id, pane_ids)])))))"

definition restored_session :: "saved_session \<Rightarrow> session_identity \<Rightarrow> session" where
  "restored_session saved x =
     session_default\<lparr>sn_id := si_id x, sn_created_at := si_created_at x, sn_name := chars (ss_name saved), sn_alias := chars (ss_alias saved),
       sn_profile := ss_profile saved, sn_label := chars (ss_label saved), sn_tags := Some (map chars (ss_tags saved))\<rparr>"

definition import_metadata :: "'w recovery_env \<Rightarrow> session \<Rightarrow> ('w, unit) op" where
  "import_metadata env s =
     and_do (ask (rv_update env)) (\<lambda>io. \<lambda>w.
       case import_legacy (rv_metadata_files env) io [s] (wo_metadata w) of
         (Inl _, dir) \<Rightarrow> (Err RUnavailable, w\<lparr>wo_metadata := dir\<rparr>)
       | (Inr _, dir) \<Rightarrow> (Ok (), w\<lparr>wo_metadata := dir\<rparr>))"

definition hide_session :: "'w recovery_env \<Rightarrow> session_identity \<Rightarrow> session \<Rightarrow> ('w, unit) op" where
  "hide_session env x s =
     and_do (ask (rv_update env)) (\<lambda>io. and_do (ask (rv_resolve_checks env)) (\<lambda>(before, after). \<lambda>w.
       case set_hidden_expected (rv_visibility_files env) io \<lparr>ri_check_before = before, ri_resolve = Ok s, ri_check_after = after\<rparr> x True (wo_metadata w) of
         (Inl _, dir) \<Rightarrow> (Err RUnavailable, w\<lparr>wo_metadata := dir\<rparr>)
       | (Inr _, dir) \<Rightarrow> (Ok (), w\<lparr>wo_metadata := dir\<rparr>)))"

definition pane_map :: "saved_window list \<Rightarrow> (string \<times> string list) list \<Rightarrow> (string \<times> string) list" where
  "pane_map windows built =
     fold (\<lambda>(w, _, pane_ids). fold (\<lambda>(p, pane). bt_insert (decimal (sw_index w) @ ''/'' @ decimal (sp_index p)) pane) (zip (sw_panes w) pane_ids))
       (zip windows built) []"

definition build_session ::
  "'w recovery_env \<Rightarrow> saved_session \<Rightarrow> string \<Rightarrow> (string \<times> string) list \<Rightarrow> string \<Rightarrow> string \<Rightarrow> nat \<Rightarrow> session_identity \<Rightarrow> ('w, mapping) op" where
  "build_session env saved gate executables first_window first_pane initial x =
     and_do (if initial = sw_index (hd (ss_windows saved)) then give ()
             else and_do (command env [''move-window'', ''-s'', first_window, ''-t'', si_id x @ '':'' @ decimal (sw_index (hd (ss_windows saved)))]) (\<lambda>_. give ())) (\<lambda>_.
     and_do (each (build_window env executables gate x) (tl (ss_windows saved)) [(first_window, [first_pane])]) (\<lambda>windows.
     and_do (each (fill_window env executables gate) (zip (ss_windows saved) windows) []) (\<lambda>windows.
     and_do (case find (\<lambda>i. sw_active (ss_windows saved ! i)) [0..<length (ss_windows saved)] of
               None \<Rightarrow> give ()
             | Some i \<Rightarrow> and_do (command env [''select-window'', ''-t'', fst (windows ! i)]) (\<lambda>_. give ())) (\<lambda>_.
     and_do (command env [''display-message'', ''-p'', ''-t'', si_id x, ''#{session_id}|:hmux-recovery-v1:|#{session_name}|:hmux-recovery-v1:|#{session_created}'']) (\<lambda>raw.
     and_do (settle (row_fields raw 3)) (\<lambda>f.
     and_do (require (f ! 0 = si_id x \<and> f ! 1 = temporary_name gate \<and> f ! 2 = int_decimal (si_created_at x)) RChanged) (\<lambda>_.
     and_do (import_metadata env (restored_session saved x)) (\<lambda>_.
     and_do (if ss_hidden saved then hide_session env x (restored_session saved x) else give ()) (\<lambda>_.
       give \<lparr>mp_from = ss_identity saved, mp_to = x, mp_name = ss_name saved, mp_panes = pane_map (ss_windows saved) windows, mp_gate = gate\<rparr>)))))))))"

definition create_session :: "'w recovery_env \<Rightarrow> saved_session \<Rightarrow> string \<Rightarrow> ('w, mapping) op" where
  "create_session env saved gate =
     and_do (settle (provider_executables env (concat (map sw_panes (ss_windows saved))) [])) (\<lambda>executables.
       let first = hd (ss_windows saved); pane = hd (sw_panes first) in
       and_do (command env ([''new-session'', ''-d'', ''-P'', ''-F'', CREATED_SESSION, ''-s'', temporary_name gate, ''-n'', sw_name first, ''-c'', sp_cwd pane] @
         gated env executables gate pane)) (\<lambda>raw.
       and_do (settle (row_fields raw 5)) (\<lambda>f.
         if \<not> valid_tmux (f ! 0) (CHR ''$'') \<or> \<not> valid_tmux (f ! 1) (CHR ''@'') \<or> \<not> valid_tmux (f ! 2) (CHR ''%'') then refuse RInvalid
         else case (parse_signed 64 (f ! 3), parse_unsigned 32 (f ! 4)) of
           (Some created, Some initial) \<Rightarrow>
             if created < 1 then refuse RInvalid
             else
               let x = \<lparr>si_id = f ! 0, si_created_at = created\<rparr> in
               and_do (attempt (build_session env saved gate executables (f ! 1) (f ! 2) initial x)) (\<lambda>r.
                 case r of
                   Inr m \<Rightarrow> give m
                 | Inl e \<Rightarrow> and_do (attempt (terminate_expected env x)) (\<lambda>_. refuse e))
         | _ \<Rightarrow> refuse RInvalid)))"

section \<open>Restoring the journal\<close>

record restoring =
  rs_state :: recovery_state
  rs_by_id :: "(string \<times> string) list" \<comment> \<open>the names of the running sessions by identity\<close>
  rs_by_name :: "string list"

definition put_intent :: "string \<Rightarrow> string \<Rightarrow> recovery_state \<Rightarrow> recovery_state" where
  "put_intent origin gate s = s\<lparr>dk_pending := map_option (\<lambda>p. p\<lparr>jo_intents := bt_insert origin gate (jo_intents p)\<rparr>) (dk_pending s)\<rparr>"

definition put_completed :: "string \<Rightarrow> mapping \<Rightarrow> recovery_state \<Rightarrow> recovery_state" where
  "put_completed origin m s = s\<lparr>dk_pending := map_option (\<lambda>p. p\<lparr>jo_completed := bt_insert origin m (jo_completed p)\<rparr>) (dk_pending s)\<rparr>"

definition intended_gate :: "'w recovery_env \<Rightarrow> string \<Rightarrow> recovery_state \<Rightarrow> ('w, string \<times> recovery_state) op" where
  \<comment> \<open>the gate the journal has for a session, or a new one that is written to the journal first\<close>
  "intended_gate env origin s =
     (case Option.bind (dk_pending s) (\<lambda>p. map_of (jo_intents p) origin) of
        Some gate \<Rightarrow> give (gate, s)
      | None \<Rightarrow>
          and_do (new_gate 16 env) (\<lambda>gate.
          and_do (require (dk_pending s \<noteq> None) RInvalid) (\<lambda>_.
          and_do (check_cancel env) (\<lambda>_.
          and_do (write_journal env (put_intent origin gate s)) (\<lambda>s. give (gate, s))))))"

definition remove_orphan :: "'w recovery_env \<Rightarrow> session list \<Rightarrow> string \<Rightarrow> ('w, unit) op" where
  \<comment> \<open>a session under the temporary name is left of an earlier try, if it waits for the same gate\<close>
  "remove_orphan env running gate =
     (case find (\<lambda>s. to_utf8 (sn_name s) = temporary_name gate) running of
        None \<Rightarrow> give ()
      | Some orphan \<Rightarrow>
          and_do (command env [''display-message'', ''-p'', ''-t'', sn_id orphan, ''#{pane_start_command}'']) (\<lambda>start.
            if \<not> has_part start gate then refuse RChanged
            else terminate_expected env \<lparr>si_id = sn_id orphan, si_created_at = sn_created_at orphan\<rparr>))"

definition commit_built :: "'w recovery_env \<Rightarrow> saved_session \<Rightarrow> mapping \<Rightarrow> recovery_state \<Rightarrow> restoring \<Rightarrow> ('w, restoring) op" where
  \<comment> \<open>the journal has the new session before its providers are let go; a session the journal does not have is ended\<close>
  "commit_built env saved m s r =
     and_do (attempt (write_journal env (put_completed (identity_key (ss_identity saved)) m s))) (\<lambda>written.
       case written of
         Inl e \<Rightarrow> and_do (attempt (terminate_expected env (mp_to m))) (\<lambda>_. refuse e)
       | Inr s \<Rightarrow>
           and_do (launch_providers env m) (\<lambda>_.
             give (r\<lparr>rs_state := s, rs_by_name := ss_name saved # rs_by_name r,
                     rs_by_id := bt_insert (identity_key (mp_to m)) (mp_name m) (rs_by_id r)\<rparr>)))"

definition build_missing :: "'w recovery_env \<Rightarrow> session list \<Rightarrow> saved_session \<Rightarrow> restoring \<Rightarrow> ('w, restoring) op" where
  "build_missing env running saved r =
     and_do (intended_gate env (identity_key (ss_identity saved)) (rs_state r)) (\<lambda>(gate, s).
     and_do (validate_gate env gate) (\<lambda>_.
     and_do (remove_orphan env running gate) (\<lambda>_.
     and_do (create_session env saved gate) (\<lambda>m.
     and_do (require (dk_pending s \<noteq> None) RInvalid) (\<lambda>_. commit_built env saved m s r)))))"

definition restore_one :: "'w recovery_env \<Rightarrow> session list \<Rightarrow> saved_session \<Rightarrow> restoring \<Rightarrow> ('w, restoring) op" where
  "restore_one env running saved r =
     and_do (check_cancel env) (\<lambda>_.
       let origin = identity_key (ss_identity saved) in
       if map_of (rs_by_id r) origin \<noteq> None then give r
       else case Option.bind (dk_pending (rs_state r)) (\<lambda>p. map_of (jo_completed p) origin) of
         Some done_before \<Rightarrow>
           (case map_of (rs_by_id r) (identity_key (mp_to done_before)) of
              None \<Rightarrow> refuse RChanged
            | Some name \<Rightarrow>
                if name \<noteq> mp_name done_before \<and> name \<noteq> temporary_name (mp_gate done_before) then refuse RChanged
                else and_do (launch_providers env done_before) (\<lambda>_. give r))
       | None \<Rightarrow> if ss_name saved \<in> set (rs_by_name r) then give r else build_missing env running saved r)"

definition restore_snapshot :: "'w recovery_env \<Rightarrow> recovery_state \<Rightarrow> ('w, recovery_state) op" where
  "restore_snapshot env s =
     and_do (basic env) (\<lambda>running.
       case dk_pending s of
         None \<Rightarrow> refuse RInvalid
       | Some p \<Rightarrow>
           and_do (each (restore_one env running) (jo_snapshot p)
             \<lparr>rs_state = s, rs_by_id = fold (\<lambda>x. bt_insert (identity_key \<lparr>si_id = sn_id x, si_created_at = sn_created_at x\<rparr>) (to_utf8 (sn_name x))) running [],
              rs_by_name = map (to_utf8 \<circ> sn_name) running\<rparr>) (\<lambda>r. give (rs_state r)))"

definition start_empty_server :: "'w recovery_env \<Rightarrow> ('w, unit) op" where
  "start_empty_server env =
     and_do (basic env) (\<lambda>running.
       if running \<noteq> [] then give ()
       else
         and_do (attempt (command env [''new-session'', ''-d'', ''-s'', ''hmux'', ''-c'', (case rv_home_var env of None \<Rightarrow> ''/tmp'' | Some h \<Rightarrow> h),
           recovery_shell env, ''-l''])) (\<lambda>r.
           if isl r then and_do (basic env) (\<lambda>running. require (running \<noteq> []) RCommand) else give ()))"

definition rebased_snapshot :: "journal \<Rightarrow> saved_snapshot" where
  "rebased_snapshot p =
     List.map_filter (\<lambda>s. map_option (\<lambda>m. s\<lparr>ss_identity := mp_to m\<rparr>) (map_of (jo_completed p) (identity_key (ss_identity s)))) (jo_snapshot p)"

definition resume_of :: "saved_snapshot \<Rightarrow> string \<Rightarrow> nat \<Rightarrow> nat \<Rightarrow> resume_reference option" where
  \<comment> \<open>what is known of a pane; of two entries for it the later one\<close>
  "resume_of previous key wi pi =
     (case rev (List.map_filter (\<lambda>(k, i, j, r). if k = key \<and> i = wi \<and> j = pi then r else None)
        (filter (\<lambda>(k, i, j, r). r \<noteq> None)
          (concat (map (\<lambda>s. concat (map (\<lambda>w. map (\<lambda>p. (identity_key (ss_identity s), sw_index w, sp_index p, sp_resume p)) (sw_panes w)) (ss_windows s))) previous)))) of
        [] \<Rightarrow> None
      | r # _ \<Rightarrow> Some r)"

definition merge_resume :: "saved_snapshot \<Rightarrow> saved_snapshot \<Rightarrow> saved_snapshot" where
  "merge_resume current previous =
     map (\<lambda>s. s\<lparr>ss_windows := map (\<lambda>w. w\<lparr>sw_panes := map (\<lambda>p.
       if sp_resume p = None then p\<lparr>sp_resume := resume_of previous (identity_key (ss_identity s)) (sw_index w) (sp_index p)\<rparr> else p) (sw_panes w)\<rparr>)
       (ss_windows s)\<rparr>) current"

section \<open>Lineages\<close>

definition is_running :: "saved_snapshot \<Rightarrow> session_identity \<Rightarrow> string \<Rightarrow> bool" where
  "is_running running x name \<longleftrightarrow> list_ex (\<lambda>s. ss_identity s = x \<and> ss_name s = name) running"

fun follow_links :: "nat \<Rightarrow> mapping list \<Rightarrow> saved_snapshot \<Rightarrow> string list \<Rightarrow> session_identity \<Rightarrow> string \<Rightarrow> session_identity option" where
  \<comment> \<open>from a restored session along later restorations of it to one that runs now\<close>
  "follow_links 0 links running seen target name = None"
| "follow_links (Suc n) links running seen target name =
     (if identity_key target \<in> set seen then None
      else if is_running running target name then Some target
      else case filter (\<lambda>l. mp_from l = target) links of
        [l] \<Rightarrow> follow_links n links running (identity_key target # seen) (mp_to l) (mp_name l)
      | _ \<Rightarrow> None)"

definition workspace_lineages :: "mapping list \<Rightarrow> mapping list \<Rightarrow> saved_snapshot \<Rightarrow> session_lineage list" where
  "workspace_lineages previous added running =
     (let links = added @ previous in
      map (\<lambda>s. \<lparr>sl_id = si_id (ss_identity s), sl_created_at = si_created_at (ss_identity s), sl_restored_from = None\<rparr>) running @
      List.map_filter (\<lambda>m. map_option (\<lambda>x. \<lparr>sl_id = si_id x, sl_created_at = si_created_at x, sl_restored_from = Some (mp_from m)\<rparr>)
        (follow_links (Suc (length links)) links running [identity_key (mp_from m)] (mp_to m) (mp_name m))) links)"

definition rebase_workspace :: "'w recovery_env \<Rightarrow> mapping list \<Rightarrow> mapping list \<Rightarrow> saved_snapshot \<Rightarrow> ('w, unit) op" where
  "rebase_workspace env previous added running =
     and_do (ask (rv_opened env)) (\<lambda>opened.
       case opened of
         DirMissing \<Rightarrow> give ()
       | DirFailed \<Rightarrow> refuse RUnavailable
       | DirOpened \<Rightarrow>
           and_do (ask (rv_locked env)) (\<lambda>locked.
           and_do (require locked RBusy) (\<lambda>_.
           and_do (ask (rv_readable env)) (\<lambda>readable. \<lambda>w.
             case read_private readable (wo_workspace w) ''workspace.json'' MAX_BYTES of
               Inl NotFound \<Rightarrow> (Ok (), w)
             | Inl ReadFailed \<Rightarrow> (Err RUnavailable, w)
             | Inr raw \<Rightarrow>
                 (case and_then (snapshot_decode (rv_workspace_parse env) raw) (\<lambda>current. reconcile current None (workspace_lineages previous added running)) of
                    Inl _ \<Rightarrow> (Err RInvalid, w)
                  | Inr update \<Rightarrow>
                      if \<not> tr_changed update then (Ok (), w)
                      else
                        let bytes = rv_workspace_print env (tr_state update) in
                        if MAX_BYTES < length bytes then (Err RInvalid, w)
                        else
                          and_do (ask (rv_readable env)) (\<lambda>readable. \<lambda>w.
                            case read_private readable (wo_workspace w) ''workspace.json'' MAX_BYTES of
                              Inl _ \<Rightarrow> (Err RUnavailable, w)
                            | Inr verify \<Rightarrow>
                                and_do (require (verify = raw) RChanged) (\<lambda>_.
                                and_do (ask (rv_write env)) (\<lambda>wr. \<lambda>w.
                                  case write_atomic wr (wo_workspace w) ''workspace.json'' bytes of
                                    (True, dir) \<Rightarrow> (Ok (), w\<lparr>wo_workspace := dir\<rparr>)
                                  | (False, dir) \<Rightarrow> (Err RUnavailable, w\<lparr>wo_workspace := dir\<rparr>))) w) w)))))"

section \<open>Transactions\<close>

fun keep_mappings :: "saved_snapshot \<Rightarrow> string list \<Rightarrow> string list \<Rightarrow> mapping list \<Rightarrow> mapping list" where
  "keep_mappings running froms to [] = []"
| "keep_mappings running froms to (m # ms) =
     (if \<not> is_running running (mp_to m) (mp_name m) then keep_mappings running froms to ms
      else if identity_key (mp_from m) \<in> set froms then keep_mappings running froms to ms
      else if identity_key (mp_to m) \<in> set to then keep_mappings running (identity_key (mp_from m) # froms) to ms
      else m # keep_mappings running (identity_key (mp_from m) # froms) (identity_key (mp_to m) # to) ms)"

definition start_journal :: "string \<Rightarrow> recovery_state \<Rightarrow> recovery_state" where
  "start_journal boot s =
     s\<lparr>dk_pending := Some \<lparr>jo_boot_id = boot, jo_snapshot = dk_checkpoint s, jo_completed = [], jo_intents = []\<rparr>\<rparr>"

definition finish_restore :: "'w recovery_env \<Rightarrow> string \<Rightarrow> recovery_state \<Rightarrow> journal \<Rightarrow> saved_snapshot \<Rightarrow> ('w, recovery_state) op" where
  "finish_restore env boot s p running =
     and_do (require (jo_snapshot p = [] \<or> running \<noteq> []) RChanged) (\<lambda>_.
     and_do (each (\<lambda>m _. verify_panes env m) (map snd (jo_completed p)) ()) (\<lambda>_.
       let running = merge_resume running (rebased_snapshot p); added = map snd (jo_completed p) in
       and_do (rebase_workspace env (dk_mappings s) added running) (\<lambda>_.
       and_do (check_cancel env) (\<lambda>_.
         write_journal env (s\<lparr>dk_mappings := keep_mappings running [] [] (added @ dk_mappings s), dk_checkpoint := running, dk_boot_id := boot, dk_pending := None\<rparr>)))))"

definition restore_locked :: "'w recovery_env \<Rightarrow> string \<Rightarrow> recovery_state \<Rightarrow> ('w, recovery_state) op" where
  "restore_locked env boot s =
     and_do (check_cancel env) (\<lambda>_.
     and_do (if (case dk_pending s of None \<Rightarrow> True | Some p \<Rightarrow> jo_boot_id p \<noteq> boot)
             then and_do (check_cancel env) (\<lambda>_. write_journal env (start_journal boot s))
             else give s) (\<lambda>s.
     and_do (if dk_boot_id s \<noteq> boot \<and> (case dk_pending s of None \<Rightarrow> False | Some p \<Rightarrow> jo_snapshot p = [])
             then start_empty_server env else give ()) (\<lambda>_.
     and_do (restore_snapshot env s) (\<lambda>s.
     and_do (capture_observed env ForRestored) (\<lambda>running.
       case dk_pending s of None \<Rightarrow> refuse RInvalid | Some p \<Rightarrow> finish_restore env boot s p running)))))"

datatype recovery_operation = OpSync | OpSave | OpRestore

definition legacy_darwin_boot :: "string \<Rightarrow> bool" where
  "legacy_darwin_boot raw \<longleftrightarrow>
     starts_with raw ''darwin-'' \<and>
     (let v = drop 7 raw; seconds = takeWhile (\<lambda>c. c \<noteq> CHR ''-'') v; micros = drop (Suc (length seconds)) v in
      CHR ''-'' \<in> set v \<and> 1 \<le> length seconds \<and> length seconds \<le> 20 \<and> list_all is_ascii_digit seconds \<and>
      1 \<le> length micros \<and> length micros \<le> 6 \<and> list_all is_ascii_digit micros)"

definition survives :: "session list \<Rightarrow> mapping \<Rightarrow> bool" where
  "survives running m \<longleftrightarrow>
     list_ex (\<lambda>s. sn_id s = si_id (mp_to m) \<and> sn_created_at s = si_created_at (mp_to m) \<and>
       (to_utf8 (sn_name s) = mp_name m \<or> to_utf8 (sn_name s) = temporary_name (mp_gate m))) running"

definition migrate_pending :: "'w recovery_env \<Rightarrow> string \<Rightarrow> recovery_state \<Rightarrow> ('w, recovery_state) op" where
  "migrate_pending env boot s =
     (case dk_pending s of
        Some p \<Rightarrow>
          if starts_with boot ''darwin-uuid-'' \<and> legacy_darwin_boot (jo_boot_id p)
          then
            and_do (basic env) (\<lambda>running.
            and_do (each (\<lambda>m continuous. if survives running m then and_do (verify_panes env m) (\<lambda>_. give True) else give continuous)
              (map snd (jo_completed p)) False) (\<lambda>continuous.
            and_do (require continuous RChanged) (\<lambda>_. give (s\<lparr>dk_pending := Some (p\<lparr>jo_boot_id := boot\<rparr>)\<rparr>))))
          else give s
      | None \<Rightarrow> give s)"

definition migrate_legacy_boot :: "'w recovery_env \<Rightarrow> string \<Rightarrow> recovery_state \<Rightarrow> ('w, recovery_state) op" where
  "migrate_legacy_boot env boot s =
     and_do (migrate_pending env boot s) (\<lambda>s.
       if \<not> legacy_darwin_boot (dk_boot_id s) \<or> \<not> starts_with boot ''darwin-uuid-'' then give s
       else
         and_do (basic env) (\<lambda>running.
           if list_ex (\<lambda>saved. list_ex (\<lambda>c. sn_id c = si_id (ss_identity saved) \<and> sn_created_at c = si_created_at (ss_identity saved) \<and>
                to_utf8 (sn_name c) = ss_name saved) running) (dk_checkpoint s)
           then give (s\<lparr>dk_boot_id := boot,
                  dk_pending := map_option (\<lambda>p. if jo_boot_id p = dk_boot_id s then p\<lparr>jo_boot_id := boot\<rparr> else p) (dk_pending s)\<rparr>)
           else give s))"

definition linux_boot :: "bytes option \<Rightarrow> (recovery_error, string) result" where
  \<comment> \<open>the first 129 bytes of the kernel's file, if it was read as text\<close>
  "linux_boot r =
     (case Option.bind r from_utf8 of
        None \<Rightarrow> Err RUnavailable
      | Some t \<Rightarrow> if 128 < length (to_utf8 t) then Err RInvalid else Ok (''linux-'' @ to_utf8 (trim t)))"

definition darwin_boot_uuid :: "bytes \<Rightarrow> (recovery_error, string) result" where
  "darwin_boot_uuid raw =
     (case from_utf8 raw of
        None \<Rightarrow> Err RInvalid
      | Some t \<Rightarrow>
          let uuid = to_utf8 (trim t) in
          if length uuid \<noteq> 36 \<or>
             \<not> list_all (\<lambda>i. if i \<in> {8, 13, 18, 23} then uuid ! i = CHR ''-'' else is_ascii_hexdigit (uuid ! i)) [0..<length uuid]
          then Err RInvalid
          else Ok (''darwin-uuid-'' @ map to_ascii_lowercase uuid))"

definition boot_id :: "'w recovery_env \<Rightarrow> ('w, string) op" where
  "boot_id env =
     and_do (ask (rv_boot env)) (\<lambda>r. and_do (settle r) (\<lambda>v. if text_ok v 256 True then give v else refuse RInvalid))"

definition transaction_locked :: "'w recovery_env \<Rightarrow> recovery_operation \<Rightarrow> ('w, recovery_state) op" where
  \<comment> \<open>what is done under the lock\<close>
  "transaction_locked env op =
     and_do (boot_id env) (\<lambda>boot.
     and_do (read_journal env) (\<lambda>state.
     and_do (check_cancel env) (\<lambda>_.
       case state of
         None \<Rightarrow>
           if op = OpRestore then refuse RUnavailable
           else
             and_do (capture_observed env ForCheckpoint) (\<lambda>shot.
             and_do (check_cancel env) (\<lambda>_.
               write_journal env \<lparr>dk_version = 1, dk_boot_id = boot, dk_checkpoint = shot, dk_pending = None, dk_mappings = [], dk_updated_at = []\<rparr>))
       | Some s \<Rightarrow>
           and_do (migrate_legacy_boot env boot s) (\<lambda>s.
             if op = OpSave \<and> (dk_boot_id s \<noteq> boot \<or> dk_pending s \<noteq> None) then refuse RChanged
             else if op = OpRestore \<or> dk_boot_id s \<noteq> boot \<or> dk_pending s \<noteq> None then restore_locked env boot s
             else
               and_do (capture_observed env ForCheckpoint) (\<lambda>shot.
               and_do (check_cancel env) (\<lambda>_. write_journal env (s\<lparr>dk_checkpoint := shot, dk_pending := None\<rparr>)))))))"

definition transaction :: "'w recovery_env \<Rightarrow> recovery_operation \<Rightarrow> ('w, unit) op" where
  "transaction env op =
     and_do (ask (rv_locked env)) (\<lambda>permit.
     and_do (require permit RBusy) (\<lambda>_.
     and_do (check_cancel env) (\<lambda>_.
     and_do (ask (rv_secured env)) (\<lambda>dir.
     and_do (require dir RUnavailable) (\<lambda>_.
     and_do (ask (rv_locked env)) (\<lambda>locked.
     and_do (require locked RBusy) (\<lambda>_.
     and_do (check_cancel env) (\<lambda>_.
     and_do (transaction_locked env op) (\<lambda>_. give ())))))))))"

definition can_defer_refresh :: "'w recovery_env \<Rightarrow> ('w, bool) op" where
  "can_defer_refresh env =
     and_do (ask (rv_secured env)) (\<lambda>dir.
     and_do (require dir RUnavailable) (\<lambda>_.
     and_do (ask (rv_locked env)) (\<lambda>locked.
     and_do (require locked RBusy) (\<lambda>_.
     and_do (boot_id env) (\<lambda>boot.
     and_do (read_journal env) (\<lambda>s. give (case s of None \<Rightarrow> True | Some s \<Rightarrow> dk_boot_id s = boot \<and> dk_pending s = None)))))))"

text \<open>
  The loop that checkpoints: a save that fails is tried again after five seconds, one that succeeds after thirty. A change of
  the outcome is reported at once, an unchanged one every five minutes.
\<close>

datatype checkpoint_reason = CpPublished | CpParse | CpUnavailable | CpBusy | CpSessionChanged | CpCancelled | CpQueryFailure

definition report_checkpoint :: "recovery_error option \<Rightarrow> checkpoint_reason" where
  "report_checkpoint failure =
     (case failure of
        None \<Rightarrow> CpPublished
      | Some RInvalid \<Rightarrow> CpParse
      | Some RUnavailable \<Rightarrow> CpUnavailable
      | Some RBusy \<Rightarrow> CpBusy
      | Some RChanged \<Rightarrow> CpSessionChanged
      | Some RCancelled \<Rightarrow> CpCancelled
      | Some RCommand \<Rightarrow> CpQueryFailure)"

record checkpoint_loop =
  cl_wait :: nat
  cl_last_failure :: "recovery_error option"
  cl_last_report :: nat

definition prepare_checkpoint :: "'w recovery_env \<Rightarrow> nat \<Rightarrow> ('w, checkpoint_loop \<times> checkpoint_reason option) op" where
  \<comment> \<open>the loop as it starts, and what was reported of the synchronisation before it; one that fails is reported by its error\<close>
  "prepare_checkpoint env now =
     and_do (can_defer_refresh env) (\<lambda>deferred.
     and_do (if deferred then give None else and_do (transaction env OpSync) (\<lambda>_. give (Some (report_checkpoint None)))) (\<lambda>reported.
     and_do (ask (rv_stopped env)) (\<lambda>stopped.
     and_do (require (\<not> stopped) RCancelled) (\<lambda>_.
       give (\<lparr>cl_wait = (if deferred then 5 else 30), cl_last_failure = None, cl_last_report = now\<rparr>, reported)))))"

definition checkpoint_round :: "'w recovery_env \<Rightarrow> nat \<Rightarrow> checkpoint_loop \<Rightarrow> ('w, checkpoint_loop \<times> checkpoint_reason option) op" where
  \<comment> \<open>one save after the wait, at a time in seconds\<close>
  "checkpoint_round env now c =
     and_do (attempt (transaction env OpSave)) (\<lambda>r.
       let failure = (case r of Inl e \<Rightarrow> Some e | Inr _ \<Rightarrow> None);
           report = (failure \<noteq> cl_last_failure c \<or> 300 \<le> now - cl_last_report c) in
       give (\<lparr>cl_wait = (if failure = None then 30 else 5), cl_last_failure = failure, cl_last_report = (if report then now else cl_last_report c)\<rparr>,
             if report then Some (report_checkpoint failure) else None))"

text \<open>The catalog is told where restored sessions came from.\<close>

definition apply_lineage :: "mapping list \<Rightarrow> session \<Rightarrow> session" where
  "apply_lineage mappings s =
     (case map_of (fold (\<lambda>m. bt_insert (identity_key (mp_to m)) m) mappings []) (identity_key \<lparr>si_id = sn_id s, si_created_at = sn_created_at s\<rparr>) of
        Some m \<Rightarrow> if mp_name m = to_utf8 (sn_name s) then s\<lparr>sn_restored_from := Some (mp_from m)\<rparr> else s
      | None \<Rightarrow> s)"

definition apply_recovery :: "'w recovery_env \<Rightarrow> session list \<Rightarrow> ('w, session list) op" where
  "apply_recovery env sessions =
     and_do (ask (rv_opened env)) (\<lambda>opened.
       case opened of
         DirMissing \<Rightarrow> give sessions
       | DirFailed \<Rightarrow> refuse RUnavailable
       | DirOpened \<Rightarrow>
           and_do (attempt (read_journal env)) (\<lambda>first.
           and_do (case first of Inr s \<Rightarrow> give s | Inl _ \<Rightarrow> read_journal env) (\<lambda>s.
             give (case s of None \<Rightarrow> sessions | Some s \<Rightarrow> map (apply_lineage (dk_mappings s)) sessions))))"

end
