(* ===== verification/Recovery_Properties.thy ===== *)
theory Recovery_Properties
  imports Restore
begin

text \<open>
  What the transactions of the recovery store keep. Their steps are composed with \<open>and_do\<close>; the rules for that
  composition are proved once, for every relation between an earlier and a later world that calm steps respect. Two relations are of interest: what is done
  outside is backed by a journal written before, and the journal file can always be read again.
\<close>

section \<open>Calm steps\<close>

text \<open>A calm step writes no journal, opens no gate and makes no session.\<close>

definition session_made :: "string list \<Rightarrow> string option" where
  \<comment> \<open>the name of the session that a tmux command makes\<close>
  "session_made args =
     (case args of
        c # rest \<Rightarrow> if c = ''new-session'' then (case dropWhile (\<lambda>a. a \<noteq> ''-s'') rest of _ # name # _ \<Rightarrow> Some name | _ \<Rightarrow> None) else None
      | [] \<Rightarrow> None)"

definition calm_step :: "'w world \<Rightarrow> 'w world \<Rightarrow> bool" where
  "calm_step w w' \<longleftrightarrow>
     wo_file w' = wo_file w \<and>
     (\<exists>new. wo_actions w' = new @ wo_actions w \<and> (\<forall>a \<in> set new. \<exists>args. a = Tmux args \<and> session_made args = None))"

definition calm :: "('w, 'a) op \<Rightarrow> bool" where
  "calm m \<longleftrightarrow> (\<forall>w. calm_step w (snd (m w)))"

named_theorems calm_rules

lemma calm_step_refl [simp]: "calm_step w w"
  by (simp add: calm_step_def)

lemma calm_step_trans: "calm_step a b \<Longrightarrow> calm_step b c \<Longrightarrow> calm_step a c"
  by (fastforce simp: calm_step_def)

lemma calm_step_same: "wo_file w' = wo_file w \<Longrightarrow> wo_actions w' = wo_actions w \<Longrightarrow> calm_step w w'"
  by (simp add: calm_step_def)

lemma and_do_cases:
  obtains (fails) e w' where "m w = (Inl e, w')" "and_do m f w = (Inl e, w')"
  | (goes) a w' where "m w = (Inr a, w')" "and_do m f w = f a w'"
  by (cases "m w"; cases "fst (m w)") (auto simp: and_do_def)

lemma calm_and_do [calm_rules]:
  assumes "calm m" and "\<And>a. calm (f a)"
  shows "calm (and_do m f)"
  unfolding calm_def
proof
  fix w
  have m: "calm_step w (snd (m w))" and f: "\<And>a w. calm_step w (snd (f a w))"
    using assms by (auto simp: calm_def)
  show "calm_step w (snd (and_do m f w))"
    by (cases rule: and_do_cases [of m w f]) (use m f calm_step_trans in fastforce)+
qed

lemma calm_give [calm_rules]: "calm (give a)"
  and calm_refuse [calm_rules]: "calm (refuse e)"
  and calm_settle [calm_rules]: "calm (settle r)"
  by (simp_all add: calm_def give_def refuse_def settle_def)

lemma calm_ask [calm_rules]: "calm (ask q)"
  by (auto simp: calm_def ask_def split: prod.split intro: calm_step_same)

lemma calm_require [calm_rules]: "calm (require b e)"
  by (simp add: require_def calm_rules)

lemma calm_attempt [calm_rules]: "calm m \<Longrightarrow> calm (attempt m)"
  by (auto simp: calm_def attempt_def split: prod.split) (metis snd_conv)

lemma calm_each [calm_rules]: "(\<And>x s. calm (f x s)) \<Longrightarrow> calm (each f xs s)"
  by (induction xs arbitrary: s) (auto intro: calm_rules)

lemma calm_log: "session_made args = None \<Longrightarrow> calm (log_action (Tmux args))"
  by (auto simp: calm_def log_action_def calm_step_def)

lemma calm_if [calm_rules]: "(b \<Longrightarrow> calm m) \<Longrightarrow> (\<not> b \<Longrightarrow> calm m') \<Longrightarrow> calm (if b then m else m')"
  by simp

lemma calm_option [calm_rules]: "calm m \<Longrightarrow> (\<And>a. calm (f a)) \<Longrightarrow> calm (case x of None \<Rightarrow> m | Some a \<Rightarrow> f a)"
  by (simp split: option.split)

lemma calm_sum [calm_rules]: "(\<And>a. calm (f a)) \<Longrightarrow> (\<And>b. calm (g b)) \<Longrightarrow> calm (case x of Inl a \<Rightarrow> f a | Inr b \<Rightarrow> g b)"
  by (simp split: sum.split)

lemma calm_pair [calm_rules]: "(\<And>a b. calm (f a b)) \<Longrightarrow> calm (case x of (a, b) \<Rightarrow> f a b)"
  by (simp split: prod.split)

lemma calm_let [calm_rules]: "(\<And>y. calm (f y)) \<Longrightarrow> calm (let y = x in f y)"
  by (simp add: Let_def)

lemma calm_fun: "(\<And>w. calm (f w)) \<Longrightarrow> calm (\<lambda>w. f w w)"
  by (simp add: calm_def)

lemma calm_check_cancel [calm_rules]: "calm (check_cancel env)"
  by (auto simp: check_cancel_def intro: calm_rules)

lemma calm_command: "session_made args = None \<Longrightarrow> calm (command env args)"
  by (auto simp: command_def intro: calm_rules calm_log)

lemma calm_basic [calm_rules]: "calm (basic env)"
  unfolding basic_def by (intro calm_rules)

lemma calm_world: "(\<And>w. calm_step w (snd (f w))) \<Longrightarrow> calm f"
  by (simp add: calm_def)

lemma calmD: "calm m \<Longrightarrow> calm_step w (snd (m w))"
  by (simp add: calm_def)

lemma calm_pure: "calm (\<lambda>w. (r, w))"
  by (simp add: calm_def)

lemma calm_world_sum: "(\<And>a. calm (f a)) \<Longrightarrow> (\<And>b. calm (g b)) \<Longrightarrow> calm (\<lambda>w. case X w of Inl a \<Rightarrow> f a w | Inr b \<Rightarrow> g b w)"
  by (simp add: calm_def split: sum.split)

lemma calm_world_option: "calm m \<Longrightarrow> (\<And>a. calm (f a)) \<Longrightarrow> calm (\<lambda>w. case X w of None \<Rightarrow> m w | Some a \<Rightarrow> f a w)"
  by (simp add: calm_def split: option.split)

lemma calm_world_if: "calm m \<Longrightarrow> calm m' \<Longrightarrow> calm (\<lambda>w. if b w then m w else m' w)"
  by (simp add: calm_def)

lemma calm_world_let: "(\<And>y. calm (f y)) \<Longrightarrow> calm (\<lambda>w. let y = x w in f y w)"
  by (simp add: calm_def Let_def)

lemma calm_world_read: "calm m \<Longrightarrow> calm m' \<Longrightarrow> calm (\<lambda>w. case e of NotFound \<Rightarrow> m w | ReadFailed \<Rightarrow> m' w)"
  by (simp add: calm_def split: read_error.split)

lemmas calm_world_rules = calm_pure calm_world_sum calm_world_option calm_world_if calm_world_let calm_world_read

lemma calm_read_journal [calm_rules]: "calm (read_journal env)"
  unfolding read_journal_def by (intro calm_rules calm_world_rules)

lemma calm_described [calm_rules]: "calm (described env sessions)"
  unfolding described_def by (intro calm_rules calm_world_rules)

lemma calm_import_metadata [calm_rules]: "calm (import_metadata env s)"
  unfolding import_metadata_def
  by (intro calm_and_do calm_ask calm_world) (auto split: sum.split prod.split intro: calm_step_same)

lemma calm_hide_session [calm_rules]: "calm (hide_session env x s)"
  unfolding hide_session_def
  by (intro calm_and_do calm_ask calm_pair calm_world) (auto split: sum.split prod.split intro: calm_step_same)

lemma calm_reserve_gate_name [calm_rules]: "calm (reserve_gate_name env name)"
proof -
  have "calm (\<lambda>w. if name \<in> set (wo_gates w) then (Inr DirExists, w) else ask (rv_mkdir env name) w)"
    by (rule calm_world) (use calm_ask [of "rv_mkdir env name"] in \<open>auto simp: calm_def\<close>)
  moreover have "calm (\<lambda>w. (Inr (), w\<lparr>wo_gates := name # wo_gates w\<rparr>))"
    by (rule calm_world) (simp add: calm_step_same)
  ultimately show ?thesis
    unfolding reserve_gate_name_def by (auto split: made_dir.split intro!: calm_rules)
qed

lemma calm_new_gate [calm_rules]: "calm (new_gate n env)"
  by (induction n) (auto intro!: calm_rules)

lemma calm_validate_gate [calm_rules]: "calm (validate_gate env gate)"
  unfolding validate_gate_def by (intro calm_rules)

lemma calm_verify_panes [calm_rules]: "calm (verify_panes env m)"
  unfolding verify_panes_def by (intro calm_rules calm_command) (simp_all add: session_made_def)

lemma calm_terminate_expected [calm_rules]: "calm (terminate_expected env x)"
  unfolding terminate_expected_def by (intro calm_rules calm_command) (simp_all add: session_made_def)

lemma calm_capture_observed [calm_rules]: "calm (capture_observed env purpose)"
  unfolding capture_observed_def by (intro calm_rules calm_command) (simp_all add: session_made_def)

lemma calm_boot_id [calm_rules]: "calm (boot_id env)"
  unfolding boot_id_def by (intro calm_rules)

lemma calm_build_window [calm_rules]: "calm (build_window env executables gate x window built)"
  unfolding build_window_def by (intro calm_rules calm_command) (simp_all add: session_made_def)

lemma calm_split_pane [calm_rules]: "calm (split_pane env executables gate window_id pane pane_ids)"
  unfolding split_pane_def by (intro calm_rules calm_command) (simp_all add: session_made_def)

lemma calm_fill_window [calm_rules]: "calm (fill_window env executables gate x filled)"
  unfolding fill_window_def case_prod_beta by (intro calm_rules calm_command) (simp_all add: session_made_def)

lemma calm_build_session [calm_rules]: "calm (build_session env saved gate executables first_window first_pane initial x)"
  unfolding build_session_def by (intro calm_rules calm_command) (simp_all add: session_made_def)

lemma calm_remove_orphan [calm_rules]: "calm (remove_orphan env running gate)"
  unfolding remove_orphan_def by (intro calm_rules calm_command) (simp_all add: session_made_def)

lemma calm_migrate [calm_rules]: "calm (migrate_legacy_boot env boot s)"
  unfolding migrate_legacy_boot_def migrate_pending_def by (intro calm_rules)

lemma calm_write_workspace: "calm (\<lambda>w. case write_atomic wr (wo_workspace w) name raw of
    (True, dir) \<Rightarrow> (Inr (), w\<lparr>wo_workspace := dir\<rparr>) | (False, dir) \<Rightarrow> (Inl RUnavailable, w\<lparr>wo_workspace := dir\<rparr>))"
  by (rule calm_world) (auto split: prod.split bool.split intro: calm_step_same)

lemma calm_opened [calm_rules]: "calm m \<Longrightarrow> calm m' \<Longrightarrow> calm m'' \<Longrightarrow> calm (case d of DirMissing \<Rightarrow> m | DirFailed \<Rightarrow> m' | DirOpened \<Rightarrow> m'')"
  by (simp split: opened_dir.split)

lemma calm_rebase_workspace [calm_rules]: "calm (rebase_workspace env previous added running)"
  unfolding rebase_workspace_def by (intro calm_rules calm_world_rules calm_write_workspace)

section \<open>Rules for the composition\<close>

definition triple :: "('w world \<Rightarrow> 'w world \<Rightarrow> bool) \<Rightarrow> ('w world \<Rightarrow> bool) \<Rightarrow> ('w, 'a) op \<Rightarrow> ('a \<Rightarrow> 'w world \<Rightarrow> bool) \<Rightarrow> bool" where
  \<comment> \<open>from a world with the second argument the step is one of the relation, failed or not, and after success the last argument holds\<close>
  "triple R P m Q \<longleftrightarrow> (\<forall>w. P w \<longrightarrow> R w (snd (m w)) \<and> (\<forall>a. fst (m w) = Inr a \<longrightarrow> Q a (snd (m w))))"

definition stable :: "('w world \<Rightarrow> 'w world \<Rightarrow> bool) \<Rightarrow> ('w world \<Rightarrow> bool) \<Rightarrow> bool" where
  "stable R P \<longleftrightarrow> (\<forall>w w'. R w w' \<longrightarrow> P w \<longrightarrow> P w')"

definition yields :: "('a \<Rightarrow> bool) \<Rightarrow> ('w, 'a) op \<Rightarrow> bool" where
  "yields T m \<longleftrightarrow> (\<forall>w a. fst (m w) = Inr a \<longrightarrow> T a)"

lemma stable_conj: "stable R P \<Longrightarrow> stable R Q \<Longrightarrow> stable R (\<lambda>w. P w \<and> Q w)"
  by (auto simp: stable_def)

lemma yields_and_do: "(\<And>a. yields T (f a)) \<Longrightarrow> yields T (and_do m f)"
  unfolding yields_def
  by (intro allI impI) (metis (no_types, lifting) and_do_cases Inl_Inr_False fst_conv)

lemma yields_then: "yields U m \<Longrightarrow> (\<And>a. U a \<Longrightarrow> yields T (f a)) \<Longrightarrow> yields T (and_do m f)"
  unfolding yields_def
  by (intro allI impI) (metis (no_types, lifting) and_do_cases Inl_Inr_False fst_conv)

lemma yields_give: "T a \<Longrightarrow> yields T (give a)"
  by (simp add: yields_def give_def)

lemma yields_refuse: "yields T (refuse e)"
  by (simp add: yields_def refuse_def)

locale progress =
  fixes R :: "'w world \<Rightarrow> 'w world \<Rightarrow> bool"
  assumes same: "R w w"
    and then_on: "R u v \<Longrightarrow> R v w \<Longrightarrow> R u w"
    and of_calm: "calm_step v w \<Longrightarrow> R v w"
begin

lemma bind:
  assumes m: "triple R P m Q" and f: "\<And>a. triple R (Q a) (f a) T"
  shows "triple R P (and_do m f) T"
  unfolding triple_def
proof (intro allI impI)
  fix w
  assume P: "P w"
  show "R w (snd (and_do m f w)) \<and> (\<forall>b. fst (and_do m f w) = Inr b \<longrightarrow> T b (snd (and_do m f w)))"
  proof (cases rule: and_do_cases [of m w f])
    case (fails e w')
    then show ?thesis using m P by (auto simp: triple_def)
  next
    case (goes a w')
    then have "R w w'" "Q a w'" using m P by (auto simp: triple_def)
    then show ?thesis using goes f [of a] then_on [of w w' "snd (f a w')"] by (simp add: triple_def)
  qed
qed

lemma after_calm:
  assumes "calm m" and "stable calm_step P"
  shows "triple R P m (\<lambda>_. P)"
  using assms of_calm unfolding triple_def stable_def calm_def by blast

lemma bind_calm: "calm m \<Longrightarrow> stable calm_step P \<Longrightarrow> (\<And>a. triple R P (f a) T) \<Longrightarrow> triple R P (and_do m f) T"
  by (rule bind [OF after_calm])

lemma result_calm:
  assumes "calm m" and "stable calm_step P" and "yields T m"
  shows "triple R P m (\<lambda>a w. P w \<and> T a)"
  using after_calm [OF assms(1,2)] assms(3) by (simp add: triple_def yields_def)

lemma quiet_end: "calm m \<Longrightarrow> (\<And>a w. Q a w) \<Longrightarrow> triple R P m Q"
  using of_calm unfolding triple_def calm_def by blast

lemma frame: "triple R P m Q \<Longrightarrow> stable R F \<Longrightarrow> triple R (\<lambda>w. P w \<and> F w) m (\<lambda>a w. Q a w \<and> F w)"
  unfolding triple_def stable_def by blast

lemma ends: "(\<And>w. P w \<Longrightarrow> Q a w) \<Longrightarrow> triple R P (give a) Q"
  by (simp add: triple_def give_def same)

lemma fails: "triple R P (refuse e) Q"
  by (simp add: triple_def refuse_def same)

lemma guard: "(b \<Longrightarrow> triple R P (f ()) Q) \<Longrightarrow> triple R P (and_do (require b e) f) Q"
  by (cases b) (simp_all add: triple_def require_def and_do_def give_def refuse_def same)

lemma gives_up: "calm m \<Longrightarrow> triple R P (and_do m (\<lambda>_. refuse e)) Q"
  by (rule bind [where Q = "\<lambda>_ _. True"]) (simp_all add: quiet_end fails)

lemma tried: "triple R P m Q \<Longrightarrow> triple R P (attempt m) (\<lambda>r w. case r of Inl _ \<Rightarrow> True | Inr a \<Rightarrow> Q a w)"
  by (auto simp: triple_def attempt_def split: prod.split sum.split)

lemma loop: "(\<And>x s. triple R (I s) (f x s) I) \<Longrightarrow> triple R (I s) (each f xs s) I"
  by (induction xs arbitrary: s) (auto intro: bind ends)

lemma weaken: "triple R P' m Q' \<Longrightarrow> (\<And>w. P w \<Longrightarrow> P' w) \<Longrightarrow> (\<And>a w. Q' a w \<Longrightarrow> Q a w) \<Longrightarrow> triple R P m Q"
  by (auto simp: triple_def)

lemma if_branch: "(b \<Longrightarrow> triple R P m Q) \<Longrightarrow> (\<not> b \<Longrightarrow> triple R P m' Q) \<Longrightarrow> triple R P (if b then m else m') Q"
  by simp

lemma option_branch:
  "(x = None \<Longrightarrow> triple R P m Q) \<Longrightarrow> (\<And>a. x = Some a \<Longrightarrow> triple R P (f a) Q) \<Longrightarrow> triple R P (case x of None \<Rightarrow> m | Some a \<Rightarrow> f a) Q"
  by (simp split: option.split)

lemma impossible: "(\<And>w. \<not> P w) \<Longrightarrow> triple R P m Q"
  by (simp add: triple_def)

lemma calm_stable: "stable R P \<Longrightarrow> stable calm_step P"
  using of_calm by (auto simp: stable_def)

lemmas branches = if_branch option_branch ends fails

end

section \<open>What is done outside is backed by the journal\<close>

definition journals :: "action list \<Rightarrow> recovery_state set" where
  "journals acts = {s. Journal s \<in> set acts}"

definition records_done :: "recovery_state set \<Rightarrow> string \<Rightarrow> bool" where
  "records_done D gate \<longleftrightarrow> (\<exists>s \<in> D. \<exists>p m. dk_pending s = Some p \<and> m \<in> snd ` set (jo_completed p) \<and> mp_gate m = gate)"

definition records_intent :: "recovery_state set \<Rightarrow> string \<Rightarrow> bool" where
  "records_intent D gate \<longleftrightarrow> (\<exists>s \<in> D. \<exists>p. dk_pending s = Some p \<and> gate \<in> snd ` set (jo_intents p))"

definition backed_action :: "recovery_state set \<Rightarrow> action \<Rightarrow> bool" where
  "backed_action D a \<longleftrightarrow>
     (case a of
        Ready gate \<Rightarrow> records_done D gate
      | Tmux args \<Rightarrow>
          (case session_made args of None \<Rightarrow> True | Some name \<Rightarrow> name = ''hmux'' \<or> (\<exists>gate. records_intent D gate \<and> name = temporary_name gate))
      | Journal _ \<Rightarrow> True)"

fun lawful :: "recovery_state set \<Rightarrow> action list \<Rightarrow> bool" where
  "lawful S [] \<longleftrightarrow> True"
| "lawful S (a # acts) \<longleftrightarrow> backed_action (S \<union> journals acts) a \<and> lawful S acts"

definition durable :: "recovery_state set \<Rightarrow> 'w world \<Rightarrow> recovery_state set" where
  "durable S w = S \<union> journals (wo_actions w)"

definition file_holds :: "'w recovery_env \<Rightarrow> recovery_state \<Rightarrow> bytes option \<Rightarrow> bool" where
  "file_holds env s f \<longleftrightarrow>
     (\<exists>printed. rv_print env s = Some printed \<and> f = Some (printed @ [CHR 0x0A]) \<and> length (printed @ [CHR 0x0A]) \<le> MAX_STATE \<and>
        validate_state (rv_rfc3339 env) s)"

definition law_step :: "'w recovery_env \<Rightarrow> recovery_state set \<Rightarrow> 'w world \<Rightarrow> 'w world \<Rightarrow> bool" where
  \<comment> \<open>no journal is forgotten, what is done is backed by one, and the file is as it was or holds a valid state\<close>
  "law_step env S w w' \<longleftrightarrow>
     durable S w \<subseteq> durable S w' \<and> (lawful S (wo_actions w) \<longrightarrow> lawful S (wo_actions w')) \<and>
     (wo_file w' = wo_file w \<or> (\<exists>s. file_holds env s (wo_file w')))"

definition backed :: "recovery_state set \<Rightarrow> recovery_state \<Rightarrow> 'w world \<Rightarrow> bool" where
  \<comment> \<open>what a state in memory says of gates is on the disk\<close>
  "backed S s w \<longleftrightarrow>
     (\<forall>p. dk_pending s = Some p \<longrightarrow>
        (\<forall>m \<in> snd ` set (jo_completed p). records_done (durable S w) (mp_gate m)) \<and>
        (\<forall>gate \<in> snd ` set (jo_intents p). records_intent (durable S w) gate))"

lemma lawful_append: "lawful S (new @ acts) \<Longrightarrow> lawful S acts"
  by (induction new) auto

lemma journals_calm: "calm_step w w' \<Longrightarrow> journals (wo_actions w') = journals (wo_actions w)"
  by (auto simp: calm_step_def journals_def)

lemma lawful_calm:
  assumes "lawful S acts" and "\<forall>a \<in> set new. \<exists>args. a = Tmux args \<and> session_made args = None"
  shows "lawful S (new @ acts)"
  using assms by (induction new) (auto simp: backed_action_def)

interpretation law: progress "law_step env S" for env S
proof
  fix v w :: "'a world"
  assume "calm_step v w"
  then show "law_step env S v w"
    using lawful_calm [of S "wo_actions v"] journals_calm [of v w]
    by (auto simp: law_step_def durable_def calm_step_def)
qed (auto simp: law_step_def)

lemma records_mono: "D \<subseteq> D' \<Longrightarrow> records_done D gate \<Longrightarrow> records_done D' gate" "D \<subseteq> D' \<Longrightarrow> records_intent D gate \<Longrightarrow> records_intent D' gate"
  by (auto simp: records_done_def records_intent_def)

lemma stable_done: "stable (law_step env S) (\<lambda>w. records_done (durable S w) gate)"
  and stable_intent: "stable (law_step env S) (\<lambda>w. records_intent (durable S w) gate)"
  and stable_backed: "stable (law_step env S) (backed S s)"
proof -
  show "stable (law_step env S) (\<lambda>w. records_done (durable S w) gate)"
    "stable (law_step env S) (\<lambda>w. records_intent (durable S w) gate)"
    by (auto simp: stable_def law_step_def intro: records_mono)
  show "stable (law_step env S) (backed S s)"
    unfolding stable_def backed_def law_step_def using records_mono by meson
qed

lemma backed_durable: "s \<in> durable S w \<Longrightarrow> backed S s w"
  by (auto simp: backed_def records_done_def records_intent_def)

lemma backed_done: "backed S s w \<Longrightarrow> Option.bind (dk_pending s) (\<lambda>p. map_of (jo_completed p) k) = Some m \<Longrightarrow> records_done (durable S w) (mp_gate m)"
  and backed_intent: "backed S s w \<Longrightarrow> Option.bind (dk_pending s) (\<lambda>p. map_of (jo_intents p) k) = Some gate \<Longrightarrow> records_intent (durable S w) gate"
  by (force simp: backed_def bind_eq_Some_conv dest: map_of_SomeD)+

lemma law_command: "triple (law_step env S) (\<lambda>w. backed_action (durable S w) (Tmux args)) (command env args) (\<lambda>_ _. True)"
proof -
  have stay: "stable calm_step (\<lambda>w. backed_action (durable S w) (Tmux args))"
    by (simp add: stable_def durable_def journals_calm)
  have log: "triple (law_step env S) (\<lambda>w. backed_action (durable S w) (Tmux args)) (log_action (Tmux args)) (\<lambda>_ _. True)"
    by (auto simp: triple_def log_action_def law_step_def durable_def journals_def)
  show ?thesis
    unfolding command_def
    by (rule law.bind_calm [OF calm_check_cancel stay], rule law.bind [OF log]) (intro law.quiet_end calm_rules TrueI)
qed

lemma law_write_journal:
  "triple (law_step env S) (\<lambda>_. True) (write_journal env s)
    (\<lambda>s' w. s' \<in> durable S w \<and> dk_pending s' = dk_pending s \<and> dk_boot_id s' = dk_boot_id s \<and> file_holds env s' (wo_file w))"
proof -
  have step: "triple (law_step env S) (\<lambda>_. True) (replace_file wr s' (printed @ [CHR 0x0A]))
      (\<lambda>s'' w. s'' \<in> durable S w \<and> s'' = s' \<and> file_holds env s' (wo_file w))"
    if "rv_print env s' = Some printed" "length (printed @ [CHR 0x0A]) \<le> MAX_STATE" "validate_state (rv_rfc3339 env) s'" for wr s' printed
    using that
    by (auto simp: triple_def replace_file_def law_step_def durable_def journals_def backed_action_def file_holds_def split: write_result.split bool.split)
  have free: "stable calm_step (\<lambda>_. True)"
    by (simp add: stable_def)
  have stamped: "triple (law_step env S) (\<lambda>_. True) (replace_file wr (s\<lparr>dk_version := 1, dk_updated_at := now\<rparr>) (printed @ [CHR 0x0A]))
      (\<lambda>s' w. s' \<in> durable S w \<and> dk_pending s' = dk_pending s \<and> dk_boot_id s' = dk_boot_id s \<and> file_holds env s' (wo_file w))"
    if "rv_print env (s\<lparr>dk_version := 1, dk_updated_at := now\<rparr>) = Some printed" "\<not> MAX_STATE < length (printed @ [CHR 0x0A])"
      "\<not> \<not> validate_state (rv_rfc3339 env) (s\<lparr>dk_version := 1, dk_updated_at := now\<rparr>)" for wr now printed
    by (rule law.weaken [OF step]) (use that in auto)
  show ?thesis
    unfolding write_journal_def Let_def
    by (intro law.bind_calm [OF calm_ask free] law.branches stamped)
qed

lemma law_write_ready: "triple (law_step env S) (\<lambda>w. records_done (durable S w) gate) (write_ready env gate) (\<lambda>_ _. True)"
  unfolding write_ready_def
proof (rule law.bind_calm [OF calm_ask law.calm_stable [OF stable_done]])
  show "triple (law_step env S) (\<lambda>w. records_done (durable S w) gate)
     (\<lambda>w. case wr of WriteOk \<Rightarrow> (Inr (), w\<lparr>wo_actions := Ready gate # wo_actions w\<rparr>)
       | WriteFailed True \<Rightarrow> (Inl RUnavailable, w\<lparr>wo_actions := Ready gate # wo_actions w\<rparr>)
       | WriteFailed False \<Rightarrow> (Inl RUnavailable, w)) (\<lambda>_ _. True)" for wr
    by (auto simp: triple_def law_step_def durable_def journals_def backed_action_def split: write_result.split bool.split)
qed

lemmas calm_done = law.calm_stable [OF stable_done]
  and calm_intent = law.calm_stable [OF stable_intent]
  and calm_backed = law.calm_stable [OF stable_backed]

lemma law_launch_providers: "triple (law_step env S) (\<lambda>w. records_done (durable S w) (mp_gate m)) (launch_providers env m) (\<lambda>_ _. True)"
proof -
  note stay = calm_done
  have query: "calm (command env [''display-message'', ''-p'', ''-t'', i, x])" for i x
    by (rule calm_command) (simp add: session_made_def)
  have named: "calm (if b then and_do (command env [''rename-session'', ''-t'', i, n]) (\<lambda>_. give ()) else require c RChanged)" for b c i n
    by (intro calm_rules calm_command) (simp add: session_made_def)
  show ?thesis
    unfolding launch_providers_def Let_def
    by (intro law.branches law.bind_calm [OF calm_validate_gate stay]
      law.bind_calm [OF calm_verify_panes stay] law.bind_calm [OF query stay] law.bind_calm [OF named stay]
      law.bind_calm [OF calm_check_cancel stay] law_write_ready TrueI)
qed

lemma law_create_session: "triple (law_step env S) (\<lambda>w. records_intent (durable S w) gate) (create_session env saved gate) (\<lambda>_ _. True)"
proof -
  have made: "triple (law_step env S) (\<lambda>w. records_intent (durable S w) gate)
      (command env ([''new-session'', ''-d'', ''-P'', ''-F'', CREATED_SESSION, ''-s'', temporary_name gate, ''-n'', n, ''-c'', d] @ more_args)) (\<lambda>_ _. True)" for n d more_args
    by (rule law.weaken [OF law_command]) (auto simp: backed_action_def session_made_def CREATED_SESSION_def)
  show ?thesis
    unfolding create_session_def Let_def
  proof (rule law.bind_calm [OF calm_settle calm_intent], rule law.bind [OF made], rule law.quiet_end)
    fix raw executables
    show "calm (and_do (settle (row_fields raw 5)) (\<lambda>f.
         if \<not> valid_tmux (f ! 0) (CHR ''$'') \<or> \<not> valid_tmux (f ! 1) (CHR ''@'') \<or> \<not> valid_tmux (f ! 2) (CHR ''%'') then refuse RInvalid
         else case (parse_signed 64 (f ! 3), parse_unsigned 32 (f ! 4)) of
           (Some created, Some initial) \<Rightarrow>
             if created < 1 then refuse RInvalid
             else and_do (attempt (build_session env saved gate executables (f ! 1) (f ! 2) initial \<lparr>si_id = f ! 0, si_created_at = created\<rparr>)) (\<lambda>r.
                 case r of
                   Inr m \<Rightarrow> give m
                 | Inl e \<Rightarrow> and_do (attempt (terminate_expected env \<lparr>si_id = f ! 0, si_created_at = created\<rparr>)) (\<lambda>_. refuse e))
         | _ \<Rightarrow> refuse RInvalid))"
      by (intro calm_rules)
  qed simp
qed

lemma bt_insert_has: "v \<in> snd ` set (bt_insert k v m)"
  by (induction k v m rule: bt_insert.induct) (auto simp: image_iff)

lemma law_intended_gate:
  "triple (law_step env S) (backed S s) (intended_gate env origin s) (\<lambda>(gate, s') w. records_intent (durable S w) gate \<and> backed S s' w)"
proof (cases "Option.bind (dk_pending s) (\<lambda>p. map_of (jo_intents p) origin)")
  case None
  have "triple (law_step env S) (backed S s) (and_do (write_journal env (put_intent origin gate s)) (\<lambda>s. give (gate, s)))
      (\<lambda>(gate, s') w. records_intent (durable S w) gate \<and> backed S s' w)" if pending: "dk_pending s \<noteq> None" for gate
  proof (rule law.bind [OF law.weaken [OF law_write_journal]])
    fix s' :: recovery_state and w :: "'a world"
    obtain p where "dk_pending s = Some p" using pending by auto
    moreover assume "s' \<in> durable S w \<and> dk_pending s' = dk_pending (put_intent origin gate s) \<and> dk_boot_id s' = dk_boot_id (put_intent origin gate s) \<and> file_holds env s' (wo_file w)"
    ultimately show "s' \<in> durable S w \<and> records_intent (durable S w) gate"
      using bt_insert_has [of gate origin "jo_intents p"] unfolding records_intent_def put_intent_def
      by (intro conjI bexI [of _ s'] exI [of _ "p\<lparr>jo_intents := bt_insert origin gate (jo_intents p)\<rparr>"]) auto
  qed (auto intro!: law.ends backed_durable)
  then show ?thesis
    unfolding intended_gate_def None option.case
    by (intro law.bind_calm [OF calm_new_gate calm_backed] law.guard law.bind_calm [OF calm_check_cancel calm_backed])
next
  case (Some gate)
  then show ?thesis
    by (auto simp: intended_gate_def intro!: law.ends backed_intent)
qed

lemma law_completed:
  assumes "dk_pending s \<noteq> None"
  shows "triple (law_step env S) (\<lambda>_. True) (write_journal env (put_completed origin m s))
    (\<lambda>s' w. records_done (durable S w) (mp_gate m) \<and> backed S s' w)"
proof (rule law.weaken [OF law_write_journal])
  fix s' :: recovery_state and w :: "'a world"
  obtain p where "dk_pending s = Some p" using assms by auto
  moreover assume s': "s' \<in> durable S w \<and> dk_pending s' = dk_pending (put_completed origin m s) \<and> dk_boot_id s' = dk_boot_id (put_completed origin m s) \<and> file_holds env s' (wo_file w)"
  ultimately have "records_done (durable S w) (mp_gate m)"
    using bt_insert_has [of m origin "jo_completed p"] unfolding records_done_def put_completed_def
    by (intro bexI [of _ s'] exI [of _ "p\<lparr>jo_completed := bt_insert origin m (jo_completed p)\<rparr>"]) auto
  then show "records_done (durable S w) (mp_gate m) \<and> backed S s' w"
    using s' backed_durable by blast
qed simp

lemma law_commit_built:
  assumes "dk_pending s \<noteq> None"
  shows "triple (law_step env S) P (commit_built env saved m s r) (\<lambda>r'. backed S (rs_state r'))"
  unfolding commit_built_def
proof (rule law.weaken [OF law.bind [OF law.tried [OF law_completed [OF assms]]]])
  show "triple (law_step env S) (\<lambda>w. case written of Inl _ \<Rightarrow> True | Inr s' \<Rightarrow> records_done (durable S w) (mp_gate m) \<and> backed S s' w)
    (case written of
      Inl e \<Rightarrow> and_do (attempt (terminate_expected env (mp_to m))) (\<lambda>_. refuse e)
    | Inr s \<Rightarrow> and_do (launch_providers env m) (\<lambda>_. give (r\<lparr>rs_state := s, rs_by_name := ss_name saved # rs_by_name r,
        rs_by_id := bt_insert (identity_key (mp_to m)) (mp_name m) (rs_by_id r)\<rparr>))) (\<lambda>r'. backed S (rs_state r'))" for written
  proof (cases written)
    case (Inl e)
    show ?thesis unfolding Inl sum.case
      by (intro law.gives_up calm_rules)
  next
    case (Inr s')
    show ?thesis unfolding Inr sum.case
      by (rule law.bind [OF law.frame [OF law_launch_providers stable_backed]]) (simp add: law.ends)
  qed
qed simp_all

lemma law_build_missing:
  "triple (law_step env S) (backed S (rs_state r)) (build_missing env running saved r) (\<lambda>r'. backed S (rs_state r'))"
proof -
  have stay: "stable calm_step (\<lambda>w. records_intent (durable S w) gate \<and> backed S s w)" for gate s
    by (intro stable_conj calm_intent calm_backed)
  show ?thesis
    unfolding build_missing_def
    by (rule law.bind [OF law_intended_gate], clarsimp)
      (intro law.bind_calm [OF calm_validate_gate stay] law.bind_calm [OF calm_remove_orphan stay]
        law.bind [OF law.frame [OF law_create_session stable_backed]] law.guard law_commit_built; simp)
qed

lemma law_restore_one: "triple (law_step env S) (backed S (rs_state r)) (restore_one env running saved r) (\<lambda>r'. backed S (rs_state r'))"
proof -
  have again: "triple (law_step env S) (backed S (rs_state r)) (and_do (launch_providers env m) (\<lambda>_. give r)) (\<lambda>r'. backed S (rs_state r'))"
    if "Option.bind (dk_pending (rs_state r)) (\<lambda>p. map_of (jo_completed p) origin) = Some m" for m origin
  proof (rule law.bind [OF law.weaken [OF law.frame [OF law_launch_providers stable_backed], where Q = "\<lambda>_. backed S (rs_state r)"]])
    fix w :: "'a world"
    assume "backed S (rs_state r) w"
    then show "records_done (durable S w) (mp_gate m) \<and> backed S (rs_state r) w"
      using that by (simp add: backed_done)
  qed (auto intro: law.ends)
  show ?thesis
    unfolding restore_one_def Let_def
    by (intro law.bind_calm [OF calm_check_cancel calm_backed] law.branches law_build_missing again)
qed

lemma law_restore_snapshot: "triple (law_step env S) (backed S s) (restore_snapshot env s) (backed S)"
  unfolding restore_snapshot_def
proof (intro law.bind_calm [OF calm_basic calm_backed] law.option_branch law.fails, rule law.bind)
  show "triple (law_step env S) (backed S s) (each (restore_one env running) (jo_snapshot p) \<lparr>rs_state = s, rs_by_id = i, rs_by_name = n\<rparr>)
      (\<lambda>r. backed S (rs_state r))" for running p i n
    by (rule law.weaken [OF law.loop [where I = "\<lambda>r. backed S (rs_state r)", OF law_restore_one]]) simp_all
qed (simp add: law.ends)

lemma law_start_empty_server: "triple (law_step env S) P (start_empty_server env) (\<lambda>_ _. True)"
proof -
  have made: "triple (law_step env S) P (command env [''new-session'', ''-d'', ''-s'', ''hmux'', ''-c'', h, sh, ''-l'']) (\<lambda>_ _. True)" for P h sh
    by (rule law.weaken [OF law_command]) (simp_all add: backed_action_def session_made_def)
  show ?thesis
    unfolding start_empty_server_def
    by (rule law.bind [OF law.quiet_end [OF calm_basic TrueI]], intro law.branches TrueI law.bind [OF law.tried [OF made]] law.quiet_end calm_rules)
qed

lemma law_started:
  "triple (law_step env S) (backed S s)
     (if b then and_do (check_cancel env) (\<lambda>_. write_journal env s') else give s) (backed S)"
proof (rule law.if_branch)
  show "triple (law_step env S) (backed S s) (and_do (check_cancel env) (\<lambda>_. write_journal env s')) (backed S)"
    by (rule law.bind_calm [OF calm_check_cancel calm_backed], rule law.weaken [OF law_write_journal]) (auto intro: backed_durable)
qed (simp add: law.ends)

lemma law_finish_restore:
  "triple (law_step env S) P (finish_restore env boot s p running) (\<lambda>s' w. dk_pending s' = None \<and> dk_boot_id s' = boot \<and> file_holds env s' (wo_file w))"
proof -
  have free: "stable calm_step (\<lambda>_. True)"
    by (simp add: stable_def)
  have verify: "calm (each (\<lambda>m _. verify_panes env m) ms ())" for ms
    by (intro calm_rules)
  have "triple (law_step env S) (\<lambda>_. True) (finish_restore env boot s p running)
      (\<lambda>s' w. dk_pending s' = None \<and> dk_boot_id s' = boot \<and> file_holds env s' (wo_file w))"
    unfolding finish_restore_def Let_def
    by (intro law.guard law.bind_calm [OF verify free] law.bind_calm [OF calm_rebase_workspace free] law.bind_calm [OF calm_check_cancel free],
        rule law.weaken [OF law_write_journal]) simp_all
  then show ?thesis
    by (rule law.weaken) simp_all
qed

lemma law_restore_locked:
  "triple (law_step env S) (backed S s) (restore_locked env boot s) (\<lambda>s' w. dk_pending s' = None \<and> dk_boot_id s' = boot \<and> file_holds env s' (wo_file w))"
proof -
  have server: "triple (law_step env S) (backed S s) (if b then start_empty_server env else give ()) (\<lambda>_. backed S s)" for b s
    by (intro law.if_branch law.ends, rule law.weaken [OF law.frame [OF law_start_empty_server stable_backed, where P = "\<lambda>_. True"]]) simp_all
  show ?thesis
    unfolding restore_locked_def
    by (intro law.bind_calm [OF calm_check_cancel calm_backed] law.bind [OF law_started] law.bind [OF server] law.bind [OF law_restore_snapshot]
      law.bind_calm [OF calm_capture_observed calm_backed] law.option_branch law.fails law_finish_restore)
qed

section \<open>Whole transactions\<close>

definition start_states :: "'w recovery_env \<Rightarrow> bytes option \<Rightarrow> recovery_state set" where
  "start_states env f = {s. Option.bind f (rv_parse env) = Some s}"

definition same_gates :: "recovery_state \<Rightarrow> recovery_state \<Rightarrow> bool" where
  "same_gates s s' \<longleftrightarrow>
     map_option (\<lambda>p. (jo_completed p, jo_intents p)) (dk_pending s') = map_option (\<lambda>p. (jo_completed p, jo_intents p)) (dk_pending s)"

definition answered :: "'w recovery_env \<Rightarrow> string \<Rightarrow> bool" where
  "answered env boot \<longleftrightarrow> (\<exists>e. fst (rv_boot env e) = Inr boot)"

definition journal_committed :: "'w recovery_env \<Rightarrow> bytes option \<Rightarrow> bool" where
  \<comment> \<open>the file holds a valid state of the present boot with nothing left to restore\<close>
  "journal_committed env f \<longleftrightarrow> (\<exists>s. file_holds env s f \<and> dk_pending s = None \<and> answered env (dk_boot_id s))"

lemma backed_same: "same_gates s s' \<Longrightarrow> backed S s w \<Longrightarrow> backed S s' w"
  by (cases "dk_pending s"; cases "dk_pending s'") (simp_all add: same_gates_def backed_def)

lemma yields_boot_id: "yields (answered env) (boot_id env)"
  by (auto simp: yields_def boot_id_def answered_def and_do_def ask_def settle_def give_def refuse_def split: prod.splits sum.splits if_splits)
    (metis fst_conv)+

lemma same_gates_boot:
  "same_gates s a \<Longrightarrow>
    same_gates s (a\<lparr>dk_boot_id := boot, dk_pending := map_option (\<lambda>p. if jo_boot_id p = old then p\<lparr>jo_boot_id := boot\<rparr> else p) (dk_pending a)\<rparr>)"
  by (cases "dk_pending a") (auto simp: same_gates_def)

lemma yields_migrate: "yields (same_gates s) (migrate_legacy_boot env boot s)"
proof -
  have "yields (same_gates s) (migrate_pending env boot s)"
    unfolding migrate_pending_def
    by (auto simp: same_gates_def split: option.split intro!: yields_and_do yields_give)
  then show ?thesis
    unfolding migrate_legacy_boot_def
    by (rule yields_then) (auto intro!: yields_and_do yields_give same_gates_boot)
qed

lemma read_journal_start:
  "triple (law_step env S) (\<lambda>w. wo_file w = f) (read_journal env) (\<lambda>r _. \<forall>s. r = Some s \<longrightarrow> s \<in> start_states env f)"
proof -
  have stay: "stable calm_step (\<lambda>w. wo_file w = f)"
    by (simp add: stable_def calm_step_def)
  show ?thesis
    unfolding read_journal_def
    by (rule law.bind_calm [OF calm_ask stay])
      (auto simp: triple_def read_private_def start_states_def law.same split: sum.split option.splits if_splits read_error.split)
qed

lemma law_transaction_locked:
  assumes S: "S = start_states env f"
  shows "triple (law_step env S) (\<lambda>w. wo_file w = f) (transaction_locked env op) (\<lambda>_ w. journal_committed env (wo_file w))"
proof -
  have stay: "stable calm_step (\<lambda>w. wo_file w = f)"
    by (simp add: stable_def calm_step_def)
  have known: "stable calm_step (\<lambda>w. wo_file w = f \<and> T)" and free: "stable calm_step (\<lambda>_. T)" for T
    by (auto simp: stable_def calm_step_def)
  have writes: "triple (law_step env S) (\<lambda>_. answered env boot) (and_do (capture_observed env ForCheckpoint) (\<lambda>shot.
      and_do (check_cancel env) (\<lambda>_. write_journal env (g shot)))) (\<lambda>_ w. journal_committed env (wo_file w))"
    if g: "\<And>shot. dk_pending (g shot) = None \<and> dk_boot_id (g shot) = boot" for g boot
  proof (intro law.bind_calm [OF calm_capture_observed free] law.bind_calm [OF calm_check_cancel free])
    fix shot
    show "triple (law_step env S) (\<lambda>_. answered env boot) (write_journal env (g shot)) (\<lambda>_ w. journal_committed env (wo_file w))"
      by (rule law.weaken [OF law.frame [OF law_write_journal, where F = "\<lambda>_. answered env boot"]])
        (auto simp: stable_def journal_committed_def g)
  qed
  have restore: "triple (law_step env S) (\<lambda>w. answered env boot \<and> backed S s w) (restore_locked env boot s) (\<lambda>_ w. journal_committed env (wo_file w))" for boot s
    by (rule law.weaken [OF law.frame [OF law_restore_locked, where F = "\<lambda>_. answered env boot"]])
      (auto simp: stable_def journal_committed_def)
  have existing: "triple (law_step env S) (\<lambda>_. answered env boot \<and> (\<forall>s. state = Some s \<longrightarrow> s \<in> S))
      (and_do (migrate_legacy_boot env boot s) (\<lambda>s.
        if op = OpSave \<and> (dk_boot_id s \<noteq> boot \<or> dk_pending s \<noteq> None) then refuse RChanged
        else if op = OpRestore \<or> dk_boot_id s \<noteq> boot \<or> dk_pending s \<noteq> None then restore_locked env boot s
        else and_do (capture_observed env ForCheckpoint) (\<lambda>shot.
          and_do (check_cancel env) (\<lambda>_. write_journal env (s\<lparr>dk_checkpoint := shot, dk_pending := None\<rparr>))))) (\<lambda>_ w. journal_committed env (wo_file w))"
    if "state = Some s" for boot state s
  proof (rule law.bind [OF law.result_calm [OF calm_migrate free yields_migrate]], intro law.if_branch law.fails)
    fix s' :: recovery_state
    show "triple (law_step env S) (\<lambda>w. (answered env boot \<and> (\<forall>s. state = Some s \<longrightarrow> s \<in> S)) \<and> same_gates s s')
        (restore_locked env boot s') (\<lambda>_ w. journal_committed env (wo_file w))"
      by (rule law.weaken [OF restore]) (use that in \<open>auto intro: backed_same [OF _ backed_durable] simp: durable_def\<close>)
  next
    fix s' :: recovery_state
    assume "\<not> (op = OpRestore \<or> dk_boot_id s' \<noteq> boot \<or> dk_pending s' \<noteq> None)"
    then show "triple (law_step env S) (\<lambda>w. (answered env boot \<and> (\<forall>s. state = Some s \<longrightarrow> s \<in> S)) \<and> same_gates s s')
        (and_do (capture_observed env ForCheckpoint) (\<lambda>shot.
          and_do (check_cancel env) (\<lambda>_. write_journal env (s'\<lparr>dk_checkpoint := shot, dk_pending := None\<rparr>)))) (\<lambda>_ w. journal_committed env (wo_file w))"
      by (intro law.weaken [OF writes [of _ boot]]) auto
  qed
  have read: "triple (law_step env S) (\<lambda>w. wo_file w = f \<and> answered env boot) (read_journal env)
      (\<lambda>r _. answered env boot \<and> (\<forall>s. r = Some s \<longrightarrow> s \<in> S))" for boot
    by (rule law.weaken [OF law.frame [OF read_journal_start, where F = "\<lambda>_. answered env boot"]]) (auto simp: stable_def S)
  show ?thesis
    unfolding transaction_locked_def
    by (rule law.bind [OF law.result_calm [OF calm_boot_id stay yields_boot_id]],
        intro law.bind [OF read] law.bind_calm [OF calm_check_cancel free] law.option_branch law.if_branch law.fails existing)
      (assumption | intro law.weaken [OF writes] | simp)+
qed

lemma law_transaction:
  "triple (law_step env (start_states env f)) (\<lambda>w. wo_file w = f) (transaction env op) (\<lambda>_ w. journal_committed env (wo_file w))"
proof -
  have stay: "stable calm_step (\<lambda>w. wo_file w = f)"
    by (simp add: stable_def calm_step_def)
  show ?thesis
    unfolding transaction_def
    by (intro law.bind_calm [OF calm_ask stay] law.guard law.bind_calm [OF calm_check_cancel stay] law.bind [OF law_transaction_locked [OF refl]] law.ends)
qed

text \<open>
  C17: A gate is opened, and so a restored provider let go, only when a journal on the disk already has the session as completed under that gate,
  and a session is built, other than the first one on an empty server, only under the temporary name of a gate that a journal on the disk already
  intends for it. This holds of whatever a transaction does, in the order it does it and at
  every point at which it may stop; the journals are the one it found and those it has written.
\<close>

theorem restore_follows_journal:
  "lawful (start_states env (wo_file w)) (wo_actions (snd (transaction env op (w\<lparr>wo_actions := []\<rparr>))))"
  using law_transaction [of env "wo_file w" op] by (auto simp: triple_def law_step_def)

text \<open>
  C18: A transaction that fails leaves the journal file as it was or holding a whole valid state; one that succeeds leaves a valid state of the
  boot the system reports, with nothing left to restore.
\<close>

theorem transaction_leaves_valid_journal:
  "case transaction env op w of
     (Inl e, w') \<Rightarrow> wo_file w' = wo_file w \<or> (\<exists>s. file_holds env s (wo_file w'))
   | (Inr _, w') \<Rightarrow> journal_committed env (wo_file w')"
  using law_transaction [of env "wo_file w" op] by (auto simp: triple_def law_step_def split: prod.split sum.split)

end
