(* ===== verification/Layout_Properties.thy ===== *)
theory Layout_Properties
  imports Recovery
begin

text \<open>
  The layouts that a saved window may have, as a grammar: the parser of \<open>recovery.rs\<close> accepts its words and no others, so that the
  descent neither misses a layout nor lets another text reach tmux. The paths that
  a saved state may name are looked at too.
\<close>

definition layout_digits :: "string \<Rightarrow> bool" where
  "layout_digits d \<longleftrightarrow> d \<noteq> [] \<and> length d \<le> 10 \<and> list_all is_ascii_digit d"

definition layout_box :: "string \<Rightarrow> bool" where
  \<comment> \<open>width, height and the two offsets of a cell\<close>
  "layout_box b \<longleftrightarrow>
     (\<exists>width height x y. b = width @ CHR ''x'' # height @ CHR '','' # x @ CHR '','' # y \<and>
        layout_digits width \<and> layout_digits height \<and> layout_digits x \<and> layout_digits y)"

inductive layout_tree :: "nat \<Rightarrow> string \<Rightarrow> bool" where
  Pane: "layout_box b \<Longrightarrow> layout_digits n \<Longrightarrow> layout_tree (Suc k) (b @ CHR '','' # n)"
| Split: "layout_box b \<Longrightarrow> 2 \<le> length cells \<Longrightarrow> \<forall>c \<in> set cells. layout_tree k c \<Longrightarrow>
    (first, final) \<in> {(CHR ''['', CHR '']''), (CHR 0x7B, CHR 0x7D)} \<Longrightarrow>
    layout_tree (Suc k) (b @ first # join '','' cells @ [final])"

definition no_digit :: "string \<Rightarrow> bool" where
  "no_digit r \<longleftrightarrow> (case r of [] \<Rightarrow> True | c # _ \<Rightarrow> \<not> is_ascii_digit c)"

lemma digits_split: "list_all P d \<Longrightarrow> (case r of [] \<Rightarrow> True | c # _ \<Rightarrow> \<not> P c) \<Longrightarrow> takeWhile P (d @ r) = d"
  by (induction d) (auto split: list.splits)

lemma layout_number_iff: "layout_number s = Some r \<longleftrightarrow> (\<exists>d. s = d @ r \<and> layout_digits d \<and> no_digit r)"
proof
  assume some: "layout_number s = Some r"
  let ?d = "takeWhile is_ascii_digit s"
  have "r = dropWhile is_ascii_digit s" "?d \<noteq> []" "length ?d \<le> 10"
    using some by (auto simp: layout_number_def Let_def dropWhile_eq_drop split: if_splits)
  then have "s = ?d @ r \<and> layout_digits ?d \<and> no_digit r"
    by (auto simp: layout_digits_def no_digit_def list_all_iff dropWhile_eq_Cons_conv dest: set_takeWhileD split: list.split)
  then show "\<exists>d. s = d @ r \<and> layout_digits d \<and> no_digit r" by blast
next
  assume "\<exists>d. s = d @ r \<and> layout_digits d \<and> no_digit r"
  then obtain d where s: "s = d @ r" and d: "layout_digits d" "no_digit r" by blast
  then have "takeWhile is_ascii_digit s = d"
    by (auto intro!: digits_split simp: layout_digits_def no_digit_def)
  then show "layout_number s = Some r"
    using s d by (simp add: layout_number_def layout_digits_def)
qed

lemma layout_expect_iff: "layout_expect c s = Some r \<longleftrightarrow> s = c # r"
  by (auto simp: layout_expect_def split: list.splits)

lemma no_digit_marks [simp]: "no_digit (CHR ''x'' # r)" "no_digit (CHR '','' # r)" "no_digit (CHR ''['' # r)" "no_digit (CHR '']'' # r)"
    "no_digit (CHR 0x7B # r)" "no_digit (CHR 0x7D # r)" "no_digit []"
  by (simp_all add: no_digit_def ascii_defs)

lemma layout_number_app: "layout_digits d \<Longrightarrow> no_digit r \<Longrightarrow> layout_number (d @ r) = Some r"
  by (auto simp: layout_number_iff)

lemma layout_size_iff: "layout_size s = Some r \<longleftrightarrow> (\<exists>b. s = b @ r \<and> layout_box b \<and> no_digit r)"
proof
  assume "layout_size s = Some r"
  then obtain s1 s2 s3 s4 s5 s6 where steps: "layout_number s = Some s1" "s1 = CHR ''x'' # s2" "layout_number s2 = Some s3" "s3 = CHR '','' # s4"
      "layout_number s4 = Some s5" "s5 = CHR '','' # s6" "layout_number s6 = Some r"
    unfolding layout_size_def bind_eq_Some_conv layout_expect_iff by blast
  obtain width where width: "s = width @ s1" "layout_digits width" using steps(1) layout_number_iff by blast
  obtain height where height: "s2 = height @ s3" "layout_digits height" using steps(3) layout_number_iff by blast
  obtain x where x: "s4 = x @ s5" "layout_digits x" using steps(5) layout_number_iff by blast
  obtain y where y: "s6 = y @ r" "layout_digits y" "no_digit r" using steps(7) layout_number_iff by blast
  show "\<exists>b. s = b @ r \<and> layout_box b \<and> no_digit r"
    unfolding layout_box_def using width height x y steps(2,4,6)
    by (intro exI [of _ "width @ CHR ''x'' # height @ CHR '','' # x @ CHR '','' # y"]) auto
next
  assume "\<exists>b. s = b @ r \<and> layout_box b \<and> no_digit r"
  then show "layout_size s = Some r"
    by (auto simp: layout_box_def layout_size_def layout_expect_def layout_number_app)
qed

section \<open>The descent is sound\<close>

definition more_cells :: "string list \<Rightarrow> string" where
  "more_cells cells = concat (map ((#) (CHR '','')) cells)"

lemma more_cells_simps [simp]: "more_cells [] = []" "more_cells (c # cells) = CHR '','' # c @ more_cells cells"
  by (simp_all add: more_cells_def)

lemma join_more: "join '','' (c # cells) = c @ more_cells cells"
  by (induction cells arbitrary: c) (simp_all add: join_Cons)

lemma layout_sound:
  "layout_cell fuel k s = Some r \<Longrightarrow> \<exists>p. s = p @ r \<and> layout_tree k p"
  "layout_more fuel k s = Some (n, r) \<Longrightarrow>
    \<exists>cells. s = more_cells cells @ r \<and> length cells = n \<and> (\<forall>c \<in> set cells. layout_tree k c)"
proof (induction fuel k s and fuel k s arbitrary: r and n r rule: layout_cell_layout_more.induct)
  case (2 fuel levels s)
  obtain s' where some: "layout_size s = Some s'"
    using 2(3) by (auto split: option.splits)
  then obtain b where size: "layout_size s = Some s'" "s = b @ s'" "layout_box b"
    using layout_size_iff by blast
  obtain c rest where s': "s' = c # rest"
    using 2(3) size by (auto split: list.splits)
  show ?case
  proof (cases "c = CHR '',''")
    case True
    then have "layout_number rest = Some r"
      using 2(3) size s' by simp
    then show ?thesis
      using True size s' Pane [OF size(3)] by (auto simp: layout_number_iff)
  next
    case False
    then have bracket: "c = CHR ''['' \<or> c = CHR 0x7B"
      using 2(3) size s' by (auto split: if_splits)
    obtain t where cell: "layout_cell fuel levels rest = Some t"
      using 2(3) size s' False bracket by (auto split: option.splits)
    obtain extra u where more: "layout_more fuel levels t = Some (extra, u)"
      using 2(3) size s' False bracket cell by (auto split: option.splits)
    let ?close = "if c = CHR ''['' then CHR '']'' else CHR 0x7D"
    have closed: "extra \<noteq> 0" "u = ?close # r"
      using 2(3) size s' False bracket cell more by (auto simp: layout_expect_iff split: if_splits)
    obtain p where p: "rest = p @ t" "layout_tree levels p"
      using 2(1) [OF size(1) s' False bracket cell] by blast
    obtain cells where cells: "t = more_cells cells @ u" "length cells = extra" "\<forall>c \<in> set cells. layout_tree levels c"
      using 2(2) [OF size(1) s' False bracket cell more] by blast
    have "layout_tree (Suc levels) (b @ c # join '','' (p # cells) @ [?close])"
      using size(3) p(2) cells closed(1) bracket by (intro Split) auto
    then show ?thesis
      using size(2) s' p(1) cells(1) closed(2) by (auto simp: join_more)
  qed
next
  case (4 fuel levels s)
  show ?case
  proof (cases "\<exists>rest. s = CHR '','' # rest")
    case False
    then show ?thesis using 4(3) by (auto split: list.splits if_splits intro!: exI [of _ "[]"])
  next
    case True
    then obtain rest where s: "s = CHR '','' # rest" by blast
    obtain t where cell: "layout_cell fuel levels rest = Some t"
      using 4(3) s by (auto split: option.splits)
    obtain m where more: "layout_more fuel levels t = Some (m, r)" and n: "n = Suc m"
      using 4(3) s cell by (auto split: option.splits)
    obtain p where p: "rest = p @ t" "layout_tree levels p"
      using 4(1) [OF s refl cell] by blast
    obtain cells where "t = more_cells cells @ r" "length cells = m" "\<forall>c \<in> set cells. layout_tree levels c"
      using 4(2) [OF s refl cell more] by blast
    then show ?thesis
      using s p n by (intro exI [of _ "p # cells"]) auto
  qed
qed simp_all

section \<open>The descent is complete\<close>

lemma layout_tree_nonempty: "layout_tree k p \<Longrightarrow> p \<noteq> []"
  by (cases rule: layout_tree.cases) auto

lemma layout_more_complete:
  assumes cell: "\<And>c fuel r. c \<in> set cells \<Longrightarrow> length c < fuel \<Longrightarrow> no_digit r \<Longrightarrow> layout_cell fuel k (c @ r) = Some r"
    and "length (more_cells cells) < fuel" and r: "no_digit r" "r = [] \<or> hd r \<noteq> CHR '',''"
  shows "layout_more fuel k (more_cells cells @ r) = Some (length cells, r)"
  using assms(1,2)
proof (induction cells arbitrary: fuel)
  case Nil
  then show ?case using r by (cases fuel; cases r) auto
next
  case (Cons c cells)
  obtain f where fuel: "fuel = Suc f" using Cons.prems(2) by (cases fuel) auto
  have "no_digit (more_cells cells @ r)" using r(1) by (cases cells) auto
  then have "layout_cell f k (c @ more_cells cells @ r) = Some (more_cells cells @ r)"
    using Cons.prems fuel by auto
  moreover have "layout_more f k (more_cells cells @ r) = Some (length cells, r)"
    using Cons.prems fuel by (intro Cons.IH) auto
  ultimately show ?case by (simp add: fuel)
qed

lemma layout_complete: "layout_tree k p \<Longrightarrow> length p < fuel \<Longrightarrow> no_digit r \<Longrightarrow> layout_cell fuel k (p @ r) = Some r"
proof (induction arbitrary: fuel r rule: layout_tree.induct)
  case (Pane b n k)
  have "layout_size (b @ CHR '','' # n @ r) = Some (CHR '','' # n @ r)"
    using Pane by (auto simp: layout_size_iff)
  then show ?case
    using Pane by (simp add: layout_number_app)
next
  case (Split b cells k first final)
  obtain c more where cells: "cells = c # more" "more \<noteq> []"
    using Split.hyps(2) by (cases cells; cases "tl cells") auto
  have all: "layout_cell fuel k (x @ r) = Some r" if "x \<in> set cells" "length x < fuel" "no_digit r" for x fuel r
    using Split.IH that by blast
  have marks: "no_digit (first # r)" "no_digit (final # r)" "final \<noteq> CHR '',''" for r
    using Split.hyps(3) by auto
  let ?rest = "more_cells more @ final # r"
  have "layout_size (b @ first # c @ ?rest) = Some (first # c @ ?rest)"
    using Split.hyps(1) marks by (auto simp: layout_size_iff)
  moreover have "layout_cell fuel k (c @ ?rest) = Some ?rest"
    using Split.prems(1) cells marks(2) by (intro all) (auto simp: join_more neq_Nil_conv)
  moreover have "layout_more fuel k ?rest = Some (length more, final # r)"
    using Split.prems(1) cells marks by (intro layout_more_complete all) (auto simp: join_more)
  ultimately show ?case
    using Split.hyps(3) cells by (auto simp: join_more layout_expect_def)
qed

text \<open>
  C24: The layout test accepts exactly the texts of at most 64 KiB that are four lower-case hexadecimal digits, a comma, and a tree of cells
  of at most 129 levels, each cell a size with two offsets and either a pane number or two or more cells in brackets or braces.
\<close>

theorem layout_grammar:
  "valid_layout s \<longleftrightarrow>
     length s \<le> 65536 \<and>
     (\<exists>checksum body. s = checksum @ CHR '','' # body \<and> length checksum = 4 \<and> list_all is_lower_hex checksum \<and> layout_tree (Suc MAX_DEPTH) body)"
    (is "_ \<longleftrightarrow> _ \<and> ?word")
proof
  assume valid: "valid_layout s"
  then have "s = take 4 s @ CHR '','' # drop 5 s"
    using id_take_nth_drop [of 4 s] by (simp add: valid_layout_def)
  moreover obtain p where "drop 5 s = p @ []" "layout_tree (Suc MAX_DEPTH) p"
    using valid layout_sound(1) unfolding valid_layout_def by blast
  ultimately show "length s \<le> 65536 \<and> ?word"
    using valid by (intro conjI exI [of _ "take 4 s"] exI [of _ p]) (simp_all add: valid_layout_def)
next
  assume word: "length s \<le> 65536 \<and> ?word"
  then obtain checksum body where s: "s = checksum @ CHR '','' # body" "length checksum = 4" "list_all is_lower_hex checksum"
    and body: "layout_tree (Suc MAX_DEPTH) body" by blast
  have "layout_cell (Suc (length s)) (Suc MAX_DEPTH) (body @ []) = Some []"
    using layout_complete [OF body, of "Suc (length s)" "[]"] s by simp
  then show "valid_layout s"
    using s word layout_tree_nonempty [OF body] by (cases body) (simp_all add: valid_layout_def nth_append)
qed

section \<open>Clean paths\<close>

lemma components_join: "\<forall>c \<in> set cs. c \<noteq> [] \<and> c \<noteq> ''.'' \<and> CHR ''/'' \<notin> set c \<Longrightarrow> path_components (join ''/'' cs) = cs"
proof (induction "''/''" cs rule: join.induct)
  case (2 p)
  then show ?case by (simp add: path_components_def split_on_last)
next
  case (3 p q ps)
  then have "path_components (join ''/'' (q # ps)) = q # ps" by simp
  then show ?case using 3(2) by (simp add: path_components_def split_on_append split_on_last)
qed (simp add: path_components_def)

lemma components_collect: "path_components (path_collect (path_components s)) = path_components s"
proof -
  have "\<forall>c \<in> set (path_components s). c \<noteq> [] \<and> c \<noteq> ''.'' \<and> CHR ''/'' \<notin> set c"
    by (auto simp: path_components_def dest: split_on_no_sep)
  from components_join [OF this] show ?thesis
    by (simp add: path_collect_def path_components_def)
qed

text \<open>
  The comparison of a path with the collection of its own components holds of every absolute path: both sides are compared component by component,
  and empty components and final dots are not there. So a path with a doubled slash or a final dot passes the test for a clean path.
\<close>

lemma unclean_paths_pass: "clean_absolute ''/a//b''" "clean_absolute ''/a/.''"
proof -
  have "chars ''/a//b'' = [47, 97, 47, 47, 98]" "chars ''/a/.'' = [47, 97, 47, 46]"
    by (simp_all add: chars_def from_utf8_def)
  then show "clean_absolute ''/a//b''" "clean_absolute ''/a/.''"
    by (simp_all add: clean_absolute_def components_collect text_ok_def path_is_absolute_def has_part_def has_suffix_def is_control_def)
qed

end
