(* ===== verification/Snapshots.thy ===== *)
theory Snapshots
  imports Usage Session_State "HOL-Library.Char_ord" "HOL-Library.List_Lexorder"
begin

text \<open>
  The typed form in which the Home sends its catalog and its usage, \<open>hmux-protocol/src/snapshots.rs\<close>: the messages, the checks
  on both forms, the budget for what a decoded tree may take, and the conversions. The length of
  an encoded message and the sizes of the types are arguments; a length is in bytes.
\<close>

definition MAX_CATALOG_SESSIONS :: nat where "MAX_CATALOG_SESSIONS = 10000"
definition MAX_CATALOG_WINDOWS :: nat where "MAX_CATALOG_WINDOWS = 100000"
definition MAX_CATALOG_TAGS :: nat where "MAX_CATALOG_TAGS = 64"
definition MAX_WORKFLOWS :: nat where "MAX_WORKFLOWS = 1024"
definition MAX_WORKFLOW_NODES :: nat where "MAX_WORKFLOW_NODES = 128"
definition MAX_DECODED_SNAPSHOT_BYTES :: nat where "MAX_DECODED_SNAPSHOT_BYTES = 16777216"
definition MAX_CATALOG_TEXT :: nat where "MAX_CATALOG_TEXT = 4096"
definition MAX_CATALOG_BYTES :: nat where "MAX_CATALOG_BYTES = 4194304"
definition MAXIMUM_HOST_MEMORY_BYTES :: nat where "MAXIMUM_HOST_MEMORY_BYTES = 2 ^ 60"

datatype snapshot_error = SnapLimit | SnapInvalid

section \<open>The model\<close>

record workflow_summary =
  wf_running :: int
  wf_waiting_approval :: int
  wf_waiting_input :: int
  wf_completed :: int
  wf_failed :: int
  wf_interrupted :: int
  wf_stale :: int
  wf_updated_at :: int

record workflow_node =
  wn_id :: string
  wn_parent_id :: string
  wn_node_type :: string
  wn_provider :: string
  wn_status :: string
  wn_started_at :: int
  wn_updated_at :: int
  wn_ended_at :: int

record workflow =
  wk_id :: string
  wk_source :: string
  wk_session_id :: string
  wk_turn_id :: string
  wk_status :: string
  wk_model :: string
  wk_started_at :: int
  wk_updated_at :: int
  wk_ended_at :: int
  wk_nodes :: "workflow_node list option"

record catalog_session = session + \<comment> \<open>a session with the workflows that the inspection adds\<close>
  sn_workflow :: "workflow_summary option"
  sn_workflows :: "workflow list option"

record host_metrics =
  hm_observed_at :: string
  hm_cpu_percent :: "f64 option"
  hm_gpu_percent :: "f64 option"
  hm_memory_used_bytes :: "nat option"
  hm_memory_total_bytes :: "nat option"
  hm_disk_used_bytes :: "nat option"
  hm_disk_total_bytes :: "nat option"

record catalog =
  ct_protocol_version :: int
  ct_generated_at :: string
  ct_sessions :: "catalog_session list option"
  ct_host_metrics :: "host_metrics option"

definition go_zero_time :: string where
  "go_zero_time = ''0001-01-01T00:00:00Z''"

definition host_metrics_default :: host_metrics where
  "host_metrics_default =
     \<lparr>hm_observed_at = go_zero_time, hm_cpu_percent = None, hm_gpu_percent = None, hm_memory_used_bytes = None, hm_memory_total_bytes = None,
      hm_disk_used_bytes = None, hm_disk_total_bytes = None\<rparr>"

definition metric_percent_ok :: "f64 option \<Rightarrow> bool" where
  "metric_percent_ok v \<longleftrightarrow> (case v of None \<Rightarrow> True | Some NotFinite \<Rightarrow> False | Some (Finite r) \<Rightarrow> 0 \<le> r \<and> r \<le> 100)"

definition used_of_total :: "nat \<Rightarrow> nat option \<Rightarrow> nat option \<Rightarrow> bool" where
  "used_of_total most used whole \<longleftrightarrow>
     (case (used, whole) of
        (None, None) \<Rightarrow> True
      | (Some u, Some t) \<Rightarrow> 0 < t \<and> t \<le> most \<and> u \<le> t
      | _ \<Rightarrow> False)"

definition metrics_validate :: "(string \<Rightarrow> (int \<times> int) option) \<Rightarrow> host_metrics \<Rightarrow> bool" where
  \<comment> \<open>the argument reads an RFC 3339 time: nanoseconds since 1970 in UTC, and the offset it was written with\<close>
  "metrics_validate read_time x \<longleftrightarrow>
     (case read_time (hm_observed_at x) of
        None \<Rightarrow> False
      | Some (observed, offset) \<Rightarrow>
          observed \<noteq> - 62135596800 * 1000000000 \<and> offset = 0 \<and>
          \<not> (hm_cpu_percent x = None \<and> hm_gpu_percent x = None \<and> hm_memory_used_bytes x = None \<and> hm_memory_total_bytes x = None \<and>
             hm_disk_used_bytes x = None \<and> hm_disk_total_bytes x = None) \<and>
          metric_percent_ok (hm_cpu_percent x) \<and> metric_percent_ok (hm_gpu_percent x) \<and>
          used_of_total MAXIMUM_HOST_MEMORY_BYTES (hm_memory_used_bytes x) (hm_memory_total_bytes x) \<and>
          used_of_total (2 ^ 53) (hm_disk_used_bytes x) (hm_disk_total_bytes x))"

section \<open>The messages\<close>

record p_session =
  pi_id :: string
  pi_created_at :: int

record 'a p_items = items :: "'a list" \<comment> \<open>the messages with one repeated field\<close>

record p_summary =
  pf_running :: int
  pf_waiting_approval :: int
  pf_waiting_input :: int
  pf_completed :: int
  pf_failed :: int
  pf_interrupted :: int
  pf_stale :: int
  pf_updated_at :: int

record p_node =
  pn_id :: string
  pn_parent_id :: string
  pn_node_type :: string
  pn_provider :: string
  pn_status :: string
  pn_started_at :: int
  pn_updated_at :: int
  pn_ended_at :: int

record p_workflow =
  pk_id :: string
  pk_source :: string
  pk_session_id :: string
  pk_turn_id :: string
  pk_status :: string
  pk_model :: string
  pk_started_at :: int
  pk_updated_at :: int
  pk_ended_at :: int
  pk_nodes :: "p_node p_items option"

record p_catalog_session =
  pc_identity :: "p_session option"
  pc_name :: utext
  pc_alias :: utext
  pc_hidden :: bool
  pc_restored_from :: "p_session option"
  pc_activity_at :: int
  pc_attached_clients :: int
  pc_window_count :: int
  pc_window_names :: "utext p_items option"
  pc_active_window :: utext
  pc_current_path :: utext
  pc_current_command :: utext
  pc_profile :: string
  pc_label :: utext
  pc_tags :: "utext p_items option"
  pc_kind :: string
  pc_runtime :: string
  pc_model :: utext
  pc_state :: string
  pc_process :: string
  pc_working_since :: int
  pc_width :: int
  pc_height :: int
  pc_workflow :: "p_summary option"
  pc_workflows :: "p_workflow p_items option"

record p_metrics =
  pm_observed_at :: string
  pm_cpu_percent :: "f64 option"
  pm_gpu_percent :: "f64 option"
  pm_memory_used_bytes :: "nat option"
  pm_memory_total_bytes :: "nat option"
  pm_disk_used_bytes :: "nat option"
  pm_disk_total_bytes :: "nat option"

record p_catalog =
  pg_protocol_version :: int
  pg_generated_at :: string
  pg_sessions :: "p_catalog_session p_items option"
  pg_host_metrics :: "p_metrics option"

section \<open>Checks\<close>

type_synonym snap_check = "(snapshot_error, unit) result"

definition limit_texts :: "nat list \<Rightarrow> nat \<Rightarrow> snap_check" where
  \<comment> \<open>of the lengths of texts\<close>
  "limit_texts ls most = (if list_all (\<lambda>n. n \<le> most) ls then Ok () else Err SnapLimit)"

definition limit_strings :: "nat list \<Rightarrow> nat \<Rightarrow> snap_check" where
  "limit_strings ls most = (if most < length ls then Err SnapLimit else limit_texts ls MAX_CATALOG_TEXT)"

fun check_all :: "('a \<Rightarrow> snap_check) \<Rightarrow> 'a list \<Rightarrow> snap_check" where
  "check_all f [] = Ok ()"
| "check_all f (x # xs) = and_then (f x) (\<lambda>_. check_all f xs)"

definition check_some :: "('a \<Rightarrow> snap_check) \<Rightarrow> 'a option \<Rightarrow> snap_check" where
  "check_some f x = (case x of None \<Rightarrow> Ok () | Some a \<Rightarrow> f a)"

definition check_list :: "nat \<Rightarrow> ('a \<Rightarrow> snap_check) \<Rightarrow> 'a list \<Rightarrow> snap_check" where
  "check_list most f xs = (if most < length xs then Err SnapLimit else check_all f xs)"

definition check_identity :: "string \<Rightarrow> int \<Rightarrow> snap_check" where
  "check_identity ident created =
     (if ident = [] \<and> created = 0 then Ok ()
      else if \<not> validate_session_id ident then Err SnapInvalid
      else if created \<le> 0 then Err SnapInvalid
      else Ok ())"

definition node_texts :: "workflow_node \<Rightarrow> nat list" where
  "node_texts n = map length [wn_id n, wn_parent_id n, wn_node_type n, wn_provider n, wn_status n]"

definition workflow_texts :: "workflow \<Rightarrow> nat list" where
  "workflow_texts w = map length [wk_id w, wk_source w, wk_session_id w, wk_turn_id w, wk_status w, wk_model w]"

definition session_texts :: "catalog_session \<Rightarrow> nat list" where
  "session_texts s =
     [text_len (sn_name s), text_len (sn_alias s), text_len (sn_active_window s), text_len (sn_current_path s), text_len (sn_current_command s),
      length (sn_profile s), text_len (sn_label s), length (sn_kind s), length (sn_runtime s), text_len (sn_model s), length (sn_state s), length (sn_process s)]"

definition check_node :: "workflow_node \<Rightarrow> snap_check" where
  "check_node n = limit_texts (node_texts n) MAX_CATALOG_TEXT"

definition check_workflow :: "workflow \<Rightarrow> snap_check" where
  "check_workflow w =
     and_then (limit_texts (workflow_texts w) MAX_CATALOG_TEXT) (\<lambda>_. check_some (check_list MAX_WORKFLOW_NODES check_node) (wk_nodes w))"

definition check_session :: "catalog_session \<Rightarrow> snap_check" where
  "check_session s =
     and_then (check_identity (sn_id s) (sn_created_at s)) (\<lambda>_.
     and_then (check_some (\<lambda>r. check_identity (si_id r) (si_created_at r)) (sn_restored_from s)) (\<lambda>_.
     and_then (limit_texts (session_texts s) MAX_CATALOG_TEXT) (\<lambda>_.
     and_then (check_some (\<lambda>xs. limit_strings (map text_len xs) MAX_CATALOG_WINDOWS) (sn_window_names s)) (\<lambda>_.
     and_then (check_some (\<lambda>xs. limit_strings (map text_len xs) MAX_CATALOG_TAGS) (sn_tags s)) (\<lambda>_.
       check_some (check_list MAX_WORKFLOWS check_workflow) (sn_workflows s))))))"

definition check_generated :: "usage_clock \<Rightarrow> string \<Rightarrow> snap_check" where
  "check_generated ck t =
     and_then (limit_texts [length t] 128) (\<lambda>_. if t \<noteq> [] \<and> uk_parse ck t = None then Err SnapInvalid else Ok ())"

definition check_catalog :: "usage_clock \<Rightarrow> catalog \<Rightarrow> snap_check" where
  "check_catalog ck c =
     and_then (check_generated ck (ct_generated_at c)) (\<lambda>_. check_some (check_list MAX_CATALOG_SESSIONS check_session) (ct_sessions c))"

definition p_session_texts :: "p_catalog_session \<Rightarrow> nat list" where
  "p_session_texts s =
     [text_len (pc_name s), text_len (pc_alias s), text_len (pc_active_window s), text_len (pc_current_path s), text_len (pc_current_command s),
      length (pc_profile s), text_len (pc_label s), length (pc_kind s), length (pc_runtime s), text_len (pc_model s), length (pc_state s), length (pc_process s)]"

definition p_workflow_texts :: "p_workflow \<Rightarrow> nat list" where
  "p_workflow_texts w = map length [pk_id w, pk_source w, pk_session_id w, pk_turn_id w, pk_status w, pk_model w]"

definition p_node_texts :: "p_node \<Rightarrow> nat list" where
  "p_node_texts n = map length [pn_id n, pn_parent_id n, pn_node_type n, pn_provider n, pn_status n]"

definition identity_check_proto :: "p_session \<Rightarrow> snap_check" where
  "identity_check_proto v = check_identity (pi_id v) (pi_created_at v)"

definition check_proto_workflow :: "p_workflow \<Rightarrow> snap_check" where
  "check_proto_workflow w =
     and_then (limit_texts (p_workflow_texts w) MAX_CATALOG_TEXT) (\<lambda>_.
       check_some (\<lambda>ns. check_list MAX_WORKFLOW_NODES (\<lambda>n. limit_texts (p_node_texts n) MAX_CATALOG_TEXT) (items ns)) (pk_nodes w))"

definition check_proto_session :: "p_catalog_session \<Rightarrow> snap_check" where
  "check_proto_session s =
     (case pc_identity s of
        None \<Rightarrow> Err SnapInvalid
      | Some i \<Rightarrow>
          and_then (identity_check_proto i) (\<lambda>_.
          and_then (check_some identity_check_proto (pc_restored_from s)) (\<lambda>_.
          and_then (limit_texts (p_session_texts s) MAX_CATALOG_TEXT) (\<lambda>_.
          and_then (check_some (\<lambda>xs. limit_strings (map text_len (items xs)) MAX_CATALOG_WINDOWS) (pc_window_names s)) (\<lambda>_.
          and_then (check_some (\<lambda>xs. limit_strings (map text_len (items xs)) MAX_CATALOG_TAGS) (pc_tags s)) (\<lambda>_.
            check_some (\<lambda>ws. check_list MAX_WORKFLOWS check_proto_workflow (items ws)) (pc_workflows s)))))))"

definition check_proto_catalog :: "usage_clock \<Rightarrow> p_catalog \<Rightarrow> snap_check" where
  "check_proto_catalog ck c =
     and_then (check_generated ck (pg_generated_at c)) (\<lambda>_.
       check_some (\<lambda>ss. check_list MAX_CATALOG_SESSIONS check_proto_session (items ss)) (pg_sessions c))"

section \<open>The budget\<close>

text \<open>
  A sum that does not fit 64 bits is over the limit in any case, so the additions are not cut off here.
\<close>

fun charges :: "nat list \<Rightarrow> nat \<Rightarrow> (snapshot_error, nat) result" where
  "charges [] b = Ok b"
| "charges (n # ns) b = (if MAX_DECODED_SNAPSHOT_BYTES < b + n then Err SnapLimit else charges ns (b + n))"

record size_table = \<comment> \<open>\<open>size_of\<close> of a catalog, its metrics and so on\<close>
  zs_catalog :: nat
  zs_metrics :: nat
  zs_session :: nat
  zs_identity :: nat
  zs_string :: nat
  zs_summary :: nat
  zs_workflow :: nat
  zs_node :: nat

definition string_amounts :: "size_table \<Rightarrow> nat list \<Rightarrow> nat list" where
  "string_amounts z ls = length ls * (2 * zs_string z) # ls"

definition workflow_amounts :: "size_table \<Rightarrow> workflow \<Rightarrow> nat list" where
  "workflow_amounts z w =
     workflow_texts w @ (case wk_nodes w of None \<Rightarrow> [] | Some ns \<Rightarrow> length ns * (2 * zs_node z) # concat (map node_texts ns))"

definition session_amounts :: "size_table \<Rightarrow> catalog_session \<Rightarrow> nat list" where
  "session_amounts z s =
     length (sn_id s) # session_texts s @
     (case sn_restored_from s of None \<Rightarrow> [] | Some x \<Rightarrow> [2 * zs_identity z, length (si_id x)]) @
     (case sn_window_names s of None \<Rightarrow> [] | Some xs \<Rightarrow> string_amounts z (map text_len xs)) @
     (case sn_tags s of None \<Rightarrow> [] | Some xs \<Rightarrow> string_amounts z (map text_len xs)) @
     (case sn_workflow s of None \<Rightarrow> [] | Some _ \<Rightarrow> [2 * zs_summary z]) @
     (case sn_workflows s of None \<Rightarrow> [] | Some ws \<Rightarrow> length ws * (2 * zs_workflow z) # concat (map (workflow_amounts z) ws))"

definition budget_model_catalog :: "size_table \<Rightarrow> catalog \<Rightarrow> snap_check" where
  "budget_model_catalog z c =
     and_then (charges
       (length (ct_generated_at c) #
        (case ct_host_metrics c of None \<Rightarrow> [] | Some x \<Rightarrow> [2 * zs_metrics z, length (hm_observed_at x)]) @
        (case ct_sessions c of None \<Rightarrow> [] | Some ss \<Rightarrow> length ss * (2 * zs_session z) # concat (map (session_amounts z) ss)))
       (zs_catalog z)) (\<lambda>_. Ok ())"

definition p_workflow_amounts :: "size_table \<Rightarrow> p_workflow \<Rightarrow> nat list" where
  "p_workflow_amounts z w =
     p_workflow_texts w @ (case pk_nodes w of None \<Rightarrow> [] | Some ns \<Rightarrow> length (items ns) * (2 * zs_node z) # concat (map p_node_texts (items ns)))"

definition p_session_amounts :: "size_table \<Rightarrow> p_catalog_session \<Rightarrow> nat list" where
  "p_session_amounts z s =
     p_session_texts s @
     (case pc_restored_from s of None \<Rightarrow> [] | Some x \<Rightarrow> [2 * zs_identity z, length (pi_id x)]) @
     (case pc_window_names s of None \<Rightarrow> [] | Some xs \<Rightarrow> string_amounts z (map text_len (items xs))) @
     (case pc_tags s of None \<Rightarrow> [] | Some xs \<Rightarrow> string_amounts z (map text_len (items xs))) @
     (case pc_workflow s of None \<Rightarrow> [] | Some _ \<Rightarrow> [2 * zs_summary z]) @
     (case pc_workflows s of None \<Rightarrow> [] | Some ws \<Rightarrow> length (items ws) * (2 * zs_workflow z) # concat (map (p_workflow_amounts z) (items ws)))"

fun budget_proto_sessions :: "size_table \<Rightarrow> p_catalog_session list \<Rightarrow> nat \<Rightarrow> (snapshot_error, nat) result" where
  "budget_proto_sessions z [] b = Ok b"
| "budget_proto_sessions z (s # ss) b =
     (case pc_identity s of
        None \<Rightarrow> Err SnapInvalid
      | Some i \<Rightarrow> and_then (charges (length (pi_id i) # p_session_amounts z s) b) (budget_proto_sessions z ss))"

definition budget_proto_catalog :: "size_table \<Rightarrow> p_catalog \<Rightarrow> snap_check" where
  "budget_proto_catalog z c =
     and_then (charges
       (length (pg_generated_at c) #
        (case pg_host_metrics c of None \<Rightarrow> [] | Some x \<Rightarrow> [2 * zs_metrics z, length (pm_observed_at x)]))
       (zs_catalog z)) (\<lambda>b.
       case pg_sessions c of
         None \<Rightarrow> Ok ()
       | Some ss \<Rightarrow> and_then (charges [length (items ss) * (2 * zs_session z)] b) (\<lambda>b. and_then (budget_proto_sessions z (items ss) b) (\<lambda>_. Ok ())))"

section \<open>Conversion of the catalog\<close>

definition to_identity :: "session_identity \<Rightarrow> p_session" where
  "to_identity i = \<lparr>pi_id = si_id i, pi_created_at = si_created_at i\<rparr>"

definition from_identity :: "p_session \<Rightarrow> session_identity" where
  "from_identity i = \<lparr>si_id = pi_id i, si_created_at = pi_created_at i\<rparr>"

definition to_strings :: "utext list option \<Rightarrow> utext p_items option" where
  "to_strings xs = map_option (\<lambda>xs. \<lparr>items = xs\<rparr>) xs"

definition from_strings :: "utext p_items option \<Rightarrow> utext list option" where
  "from_strings xs = map_option items xs"

definition to_summary :: "workflow_summary \<Rightarrow> p_summary" where
  "to_summary w =
     \<lparr>pf_running = wf_running w, pf_waiting_approval = wf_waiting_approval w, pf_waiting_input = wf_waiting_input w, pf_completed = wf_completed w,
      pf_failed = wf_failed w, pf_interrupted = wf_interrupted w, pf_stale = wf_stale w, pf_updated_at = wf_updated_at w\<rparr>"

definition from_summary :: "p_summary \<Rightarrow> workflow_summary" where
  "from_summary w =
     \<lparr>wf_running = pf_running w, wf_waiting_approval = pf_waiting_approval w, wf_waiting_input = pf_waiting_input w, wf_completed = pf_completed w,
      wf_failed = pf_failed w, wf_interrupted = pf_interrupted w, wf_stale = pf_stale w, wf_updated_at = pf_updated_at w\<rparr>"

definition to_node :: "workflow_node \<Rightarrow> p_node" where
  "to_node n =
     \<lparr>pn_id = wn_id n, pn_parent_id = wn_parent_id n, pn_node_type = wn_node_type n, pn_provider = wn_provider n, pn_status = wn_status n,
      pn_started_at = wn_started_at n, pn_updated_at = wn_updated_at n, pn_ended_at = wn_ended_at n\<rparr>"

definition from_node :: "p_node \<Rightarrow> workflow_node" where
  "from_node n =
     \<lparr>wn_id = pn_id n, wn_parent_id = pn_parent_id n, wn_node_type = pn_node_type n, wn_provider = pn_provider n, wn_status = pn_status n,
      wn_started_at = pn_started_at n, wn_updated_at = pn_updated_at n, wn_ended_at = pn_ended_at n\<rparr>"

definition to_workflow :: "workflow \<Rightarrow> p_workflow" where
  "to_workflow w =
     \<lparr>pk_id = wk_id w, pk_source = wk_source w, pk_session_id = wk_session_id w, pk_turn_id = wk_turn_id w, pk_status = wk_status w,
      pk_model = wk_model w, pk_started_at = wk_started_at w, pk_updated_at = wk_updated_at w, pk_ended_at = wk_ended_at w,
      pk_nodes = map_option (\<lambda>ns. \<lparr>items = map to_node ns\<rparr>) (wk_nodes w)\<rparr>"

definition from_workflow :: "p_workflow \<Rightarrow> workflow" where
  "from_workflow w =
     \<lparr>wk_id = pk_id w, wk_source = pk_source w, wk_session_id = pk_session_id w, wk_turn_id = pk_turn_id w, wk_status = pk_status w,
      wk_model = pk_model w, wk_started_at = pk_started_at w, wk_updated_at = pk_updated_at w, wk_ended_at = pk_ended_at w,
      wk_nodes = map_option (\<lambda>ns. map from_node (items ns)) (pk_nodes w)\<rparr>"

definition to_session :: "catalog_session \<Rightarrow> p_catalog_session" where
  "to_session s =
     \<lparr>pc_identity = Some \<lparr>pi_id = sn_id s, pi_created_at = sn_created_at s\<rparr>, pc_name = sn_name s, pc_alias = sn_alias s, pc_hidden = sn_hidden s,
      pc_restored_from = map_option to_identity (sn_restored_from s), pc_activity_at = sn_activity_at s, pc_attached_clients = sn_attached s,
      pc_window_count = sn_window_count s, pc_window_names = to_strings (sn_window_names s), pc_active_window = sn_active_window s,
      pc_current_path = sn_current_path s, pc_current_command = sn_current_command s, pc_profile = sn_profile s, pc_label = sn_label s,
      pc_tags = to_strings (sn_tags s), pc_kind = sn_kind s, pc_runtime = sn_runtime s, pc_model = sn_model s, pc_state = sn_state s,
      pc_process = sn_process s, pc_working_since = sn_working_since s, pc_width = sn_width s, pc_height = sn_height s,
      pc_workflow = map_option to_summary (sn_workflow s),
      pc_workflows = map_option (\<lambda>ws. \<lparr>items = map to_workflow ws\<rparr>) (sn_workflows s)\<rparr>"

definition from_session :: "p_catalog_session \<Rightarrow> (snapshot_error, catalog_session) result" where
  "from_session s =
     (case pc_identity s of
        None \<Rightarrow> Err SnapInvalid
      | Some i \<Rightarrow> Ok
          \<lparr>sn_id = pi_id i, sn_name = pc_name s, sn_alias = pc_alias s, sn_hidden = pc_hidden s, sn_created_at = pi_created_at i,
           sn_restored_from = map_option from_identity (pc_restored_from s), sn_activity_at = pc_activity_at s, sn_attached = pc_attached_clients s,
           sn_window_count = pc_window_count s, sn_window_names = from_strings (pc_window_names s), sn_active_window = pc_active_window s,
           sn_current_path = pc_current_path s, sn_current_command = pc_current_command s, sn_profile = pc_profile s, sn_label = pc_label s,
           sn_tags = from_strings (pc_tags s), sn_kind = pc_kind s, sn_runtime = pc_runtime s, sn_model = pc_model s, sn_state = pc_state s,
           sn_process = pc_process s, sn_working_since = pc_working_since s, sn_width = pc_width s, sn_height = pc_height s, sn_pane_pid = 0,
           sn_workflow = map_option from_summary (pc_workflow s),
           sn_workflows = map_option (\<lambda>ws. map from_workflow (items ws)) (pc_workflows s)\<rparr>)"

definition to_metrics :: "host_metrics \<Rightarrow> p_metrics" where
  "to_metrics x =
     \<lparr>pm_observed_at = hm_observed_at x, pm_cpu_percent = hm_cpu_percent x, pm_gpu_percent = hm_gpu_percent x,
      pm_memory_used_bytes = hm_memory_used_bytes x, pm_memory_total_bytes = hm_memory_total_bytes x, pm_disk_used_bytes = hm_disk_used_bytes x,
      pm_disk_total_bytes = hm_disk_total_bytes x\<rparr>"

definition from_metrics :: "p_metrics \<Rightarrow> host_metrics" where
  "from_metrics x =
     \<lparr>hm_observed_at = pm_observed_at x, hm_cpu_percent = pm_cpu_percent x, hm_gpu_percent = pm_gpu_percent x,
      hm_memory_used_bytes = pm_memory_used_bytes x, hm_memory_total_bytes = pm_memory_total_bytes x, hm_disk_used_bytes = pm_disk_used_bytes x,
      hm_disk_total_bytes = pm_disk_total_bytes x\<rparr>"

record snapshot_env =
  se_clock :: usage_clock
  se_read_time :: "string \<Rightarrow> (int \<times> int) option"
  se_model_sizes :: size_table
  se_proto_sizes :: size_table
  se_catalog_len :: "p_catalog \<Rightarrow> nat"

definition normalized_metrics :: "snapshot_env \<Rightarrow> host_metrics option \<Rightarrow> host_metrics option" where
  "normalized_metrics env x = map_option (\<lambda>v. if metrics_validate (se_read_time env) v then v else host_metrics_default) x"

definition validate_catalog :: "snapshot_env \<Rightarrow> p_catalog \<Rightarrow> snap_check" where
  "validate_catalog env c =
     and_then (check_proto_catalog (se_clock env) c) (\<lambda>_.
     and_then (budget_proto_catalog (se_proto_sizes env) c) (\<lambda>_.
       if MAX_CATALOG_BYTES < se_catalog_len env c then Err SnapLimit else Ok ()))"

definition catalog_to_proto :: "snapshot_env \<Rightarrow> catalog \<Rightarrow> (snapshot_error, p_catalog) result" where
  "catalog_to_proto env c =
     (let c = c\<lparr>ct_host_metrics := normalized_metrics env (ct_host_metrics c)\<rparr> in
      and_then (check_catalog (se_clock env) c) (\<lambda>_.
      and_then (budget_model_catalog (se_model_sizes env) c) (\<lambda>_.
        let out = \<lparr>pg_protocol_version = ct_protocol_version c, pg_generated_at = ct_generated_at c,
          pg_sessions = map_option (\<lambda>ss. \<lparr>items = map to_session ss\<rparr>) (ct_sessions c),
          pg_host_metrics = map_option to_metrics (ct_host_metrics c)\<rparr> in
        and_then (validate_catalog env out) (\<lambda>_. Ok out))))"

fun from_sessions :: "p_catalog_session list \<Rightarrow> (snapshot_error, catalog_session list) result" where
  "from_sessions [] = Ok []"
| "from_sessions (s # ss) = and_then (from_session s) (\<lambda>x. and_then (from_sessions ss) (\<lambda>xs. Ok (x # xs)))"

definition catalog_from_proto :: "snapshot_env \<Rightarrow> p_catalog \<Rightarrow> (snapshot_error, catalog) result" where
  "catalog_from_proto env c =
     and_then (validate_catalog env c) (\<lambda>_.
     and_then (case pg_sessions c of None \<Rightarrow> Ok None | Some ss \<Rightarrow> and_then (from_sessions (items ss)) (\<lambda>xs. Ok (Some xs))) (\<lambda>sessions.
       let out = \<lparr>ct_protocol_version = pg_protocol_version c, ct_generated_at = (if pg_generated_at c = [] then go_zero_time else pg_generated_at c),
         ct_sessions = sessions, ct_host_metrics = normalized_metrics env (map_option from_metrics (pg_host_metrics c))\<rparr> in
       and_then (check_catalog (se_clock env) out) (\<lambda>_.
       and_then (budget_model_catalog (se_model_sizes env) out) (\<lambda>_. Ok out))))"

section \<open>Usage\<close>

record p_usage_window =
  pw_used_pct :: f64
  pw_remaining_seconds :: int
  pw_resets_at :: "string option"

record p_account_window =
  pa_used_pct :: f64
  pa_resets_at :: "string option"

record p_usage_status =
  pt_state :: string
  pt_data_source :: string
  pt_quota_source :: string
  pt_stale :: bool
  pt_quota_observed_at :: "string option"
  pt_retry_at :: "string option"
  pt_quota_weighting :: string

record p_usage_account =
  pu_number :: int
  pu_email :: utext
  pu_display_name :: utext
  pu_active :: bool
  pu_status :: string
  pu_five_hour :: "p_account_window option"
  pu_seven_day :: "p_account_window option"
  pu_tokens_per_hour :: "f64 option"
  pu_total_tokens :: "int option"
  pu_last_refresh_at :: "string option"
  pu_quota_observed_at :: "string option"
  pu_plan_type :: utext

record p_usage_body = \<comment> \<open>all of a message but its sources\<close>
  pb_schema :: int
  pb_seq :: int
  pb_generated_at_utc :: string
  pb_provider :: int
  pb_plan_type :: utext
  pb_burn_rate_per_min :: f64
  pb_burn_state :: string
  pb_today_total_tokens :: int
  pb_today_sessions :: int
  pb_rolling_5h :: "p_usage_window option"
  pb_weekly :: "p_usage_window option"
  pb_rolling_5h_observed :: bool
  pb_weekly_observed :: bool
  pb_status :: "p_usage_status option"
  pb_accounts :: "p_usage_account list"
  pb_accounts_updated_at :: "string option"

datatype p_usage = PUsage (pu_body: p_usage_body) (pu_sources: "(string \<times> p_usage option) list")

definition usage_provider_to :: "usage_provider \<Rightarrow> int" where
  "usage_provider_to pv = (case pv of UsageClaude \<Rightarrow> 1 | UsageCodex \<Rightarrow> 2)"

definition usage_provider_from :: "int \<Rightarrow> (snapshot_error, usage_provider) result" where
  "usage_provider_from pv = (if pv = 1 then Ok UsageClaude else if pv = 2 then Ok UsageCodex else Err SnapInvalid)"

definition to_window :: "usage_window \<Rightarrow> p_usage_window" where
  "to_window w = \<lparr>pw_used_pct = uw_used_pct w, pw_remaining_seconds = uw_remaining_seconds w, pw_resets_at = uw_resets_at w\<rparr>"

definition from_window :: "p_usage_window \<Rightarrow> usage_window" where
  "from_window w = \<lparr>uw_used_pct = pw_used_pct w, uw_remaining_seconds = pw_remaining_seconds w, uw_resets_at = pw_resets_at w\<rparr>"

definition to_account_window :: "account_window \<Rightarrow> p_account_window" where
  "to_account_window w = \<lparr>pa_used_pct = aw_used_pct w, pa_resets_at = aw_resets_at w\<rparr>"

definition from_account_window :: "p_account_window \<Rightarrow> account_window" where
  "from_account_window w = \<lparr>aw_used_pct = pa_used_pct w, aw_resets_at = pa_resets_at w\<rparr>"

definition to_status :: "usage_status \<Rightarrow> p_usage_status" where
  "to_status s =
     \<lparr>pt_state = ut_state s, pt_data_source = ut_data_source s, pt_quota_source = ut_quota_source s, pt_stale = ut_stale s,
      pt_quota_observed_at = ut_quota_observed_at s, pt_retry_at = ut_retry_at s, pt_quota_weighting = ut_quota_weighting s\<rparr>"

definition from_status :: "p_usage_status \<Rightarrow> usage_status" where
  "from_status s =
     \<lparr>ut_quota_weighting = pt_quota_weighting s, ut_state = pt_state s, ut_data_source = pt_data_source s, ut_quota_source = pt_quota_source s,
      ut_stale = pt_stale s, ut_quota_observed_at = pt_quota_observed_at s, ut_retry_at = pt_retry_at s\<rparr>"

definition to_account :: "usage_account \<Rightarrow> p_usage_account" where
  "to_account a =
     \<lparr>pu_number = ua_number a, pu_email = ua_email a, pu_display_name = ua_display_name a, pu_active = ua_active a, pu_status = ua_status a,
      pu_five_hour = map_option to_account_window (ua_five_hour a), pu_seven_day = map_option to_account_window (ua_seven_day a),
      pu_tokens_per_hour = ua_tokens_per_hour a, pu_total_tokens = ua_total_tokens a, pu_last_refresh_at = ua_last_refresh_at a,
      pu_quota_observed_at = ua_quota_observed_at a, pu_plan_type = ua_plan_type a\<rparr>"

definition from_account :: "p_usage_account \<Rightarrow> usage_account" where
  "from_account a =
     \<lparr>ua_number = pu_number a, ua_email = pu_email a, ua_display_name = pu_display_name a, ua_active = pu_active a, ua_status = pu_status a,
      ua_five_hour = map_option from_account_window (pu_five_hour a), ua_seven_day = map_option from_account_window (pu_seven_day a),
      ua_tokens_per_hour = pu_tokens_per_hour a, ua_total_tokens = pu_total_tokens a, ua_last_refresh_at = pu_last_refresh_at a,
      ua_quota_observed_at = pu_quota_observed_at a, ua_plan_type = pu_plan_type a\<rparr>"

definition to_body :: "usage_body \<Rightarrow> p_usage_body" where
  "to_body b =
     \<lparr>pb_schema = ub_schema b, pb_seq = ub_seq b, pb_generated_at_utc = ub_generated_at_utc b, pb_provider = usage_provider_to (ub_provider b),
      pb_plan_type = ub_plan_type b, pb_burn_rate_per_min = ub_burn_rate_per_min b, pb_burn_state = ub_burn_state b,
      pb_today_total_tokens = ub_today_total_tokens b, pb_today_sessions = ub_today_sessions b, pb_rolling_5h = Some (to_window (ub_rolling_5h b)),
      pb_weekly = Some (to_window (ub_weekly b)), pb_rolling_5h_observed = ub_rolling_5h_observed b, pb_weekly_observed = ub_weekly_observed b,
      pb_status = Some (to_status (ub_status b)), pb_accounts = map to_account (ub_accounts b), pb_accounts_updated_at = ub_accounts_updated_at b\<rparr>"

fun to_usage :: "usage_snapshot \<Rightarrow> p_usage" where
  "to_usage (Usage b sources) = PUsage (to_body b) (map (\<lambda>(name, s). (name, Some (to_usage s))) sources)"

definition from_body :: "p_usage_body \<Rightarrow> (snapshot_error, usage_body) result" where
  "from_body b =
     and_then (usage_provider_from (pb_provider b)) (\<lambda>provider.
       case (pb_rolling_5h b, pb_weekly b, pb_status b) of
         (Some rolling, Some weekly, Some status) \<Rightarrow> Ok
           \<lparr>ub_schema = pb_schema b, ub_seq = pb_seq b, ub_generated_at_utc = pb_generated_at_utc b, ub_provider = provider,
            ub_plan_type = pb_plan_type b, ub_burn_rate_per_min = pb_burn_rate_per_min b, ub_burn_state = pb_burn_state b,
            ub_today_total_tokens = pb_today_total_tokens b, ub_today_sessions = pb_today_sessions b, ub_rolling_5h = from_window rolling,
            ub_weekly = from_window weekly, ub_rolling_5h_observed = pb_rolling_5h_observed b, ub_weekly_observed = pb_weekly_observed b,
            ub_status = from_status status, ub_accounts = map from_account (pb_accounts b), ub_accounts_updated_at = pb_accounts_updated_at b\<rparr>
       | _ \<Rightarrow> Err SnapInvalid)"

fun source_insert :: "string \<Rightarrow> 'v \<Rightarrow> (string \<times> 'v) list \<Rightarrow> (string \<times> 'v) list" where
  \<comment> \<open>into a \<open>BTreeMap\<close>, the list of its entries in order\<close>
  "source_insert k v [] = [(k, v)]"
| "source_insert k v ((k', v') # m) =
     (if k < k' then (k, v) # (k', v') # m else if k = k' then (k, v) # m else (k', v') # source_insert k v m)"

fun from_usage :: "bool \<Rightarrow> p_usage \<Rightarrow> (snapshot_error, usage_snapshot) result"
  and from_sources :: "(string \<times> p_usage option) list \<Rightarrow> (string \<times> usage_snapshot) list \<Rightarrow> (snapshot_error, (string \<times> usage_snapshot) list) result" where
  "from_usage child (PUsage b sources) =
     (if child \<and> sources \<noteq> [] then Err SnapInvalid
      else if 2 < length sources \<or> USAGE_MAX_ACCOUNTS < length (pb_accounts b) then Err SnapLimit
      else and_then (from_sources sources []) (\<lambda>sources. and_then (from_body b) (\<lambda>b. Ok (Usage b sources))))"
| "from_sources [] out = Ok out"
| "from_sources ((name, s) # rest) out =
     (if 16 < length name then Err SnapLimit
      else case s of
        None \<Rightarrow> Err SnapInvalid
      | Some s \<Rightarrow>
          and_then (from_usage True s) (\<lambda>s.
            if name \<in> set (keys out) then Err SnapInvalid else from_sources rest (source_insert name s out)))"

section \<open>The check of a usage message\<close>

definition p_window_ok :: "p_usage_window \<Rightarrow> bool" where
  "p_window_ok w \<longleftrightarrow> ratio (pw_used_pct w) \<and> 0 \<le> pw_remaining_seconds w \<and> timestamp_len (pw_resets_at w)"

definition p_account_window_ok :: "p_account_window option \<Rightarrow> bool" where
  "p_account_window_ok w \<longleftrightarrow> (case w of None \<Rightarrow> True | Some w \<Rightarrow> ratio (pa_used_pct w) \<and> timestamp_len (pa_resets_at w))"

definition num_nanoseconds :: "int \<Rightarrow> int option" where
  "num_nanoseconds d = (if - (2 ^ 63) \<le> d \<and> d < 2 ^ 63 then Some d else None)"

definition p_retry_ok :: "usage_clock \<Rightarrow> p_usage_body \<Rightarrow> p_usage_status \<Rightarrow> bool" where
  "p_retry_ok ck b status \<longleftrightarrow>
     (case pt_retry_at status of
        None \<Rightarrow> True
      | Some raw \<Rightarrow>
          length raw \<le> 128 \<and> (pt_state status = ''rateLimited'' \<or> (pt_state status = ''ok'' \<and> pt_stale status)) \<and>
          (case (uk_parse ck raw, uk_parse ck (pb_generated_at_utc b)) of
             (Some reset, Some generated) \<Rightarrow>
               (case num_nanoseconds (reset - generated) of None \<Rightarrow> False | Some ns \<Rightarrow> 0 < ns \<and> ns \<le> 24 * 60 * 60 * 1000000000)
           | _ \<Rightarrow> False))"

definition p_body_ok :: "usage_clock \<Rightarrow> p_usage_body \<Rightarrow> p_usage_window \<Rightarrow> p_usage_window \<Rightarrow> p_usage_status \<Rightarrow> bool" where
  "p_body_ok ck b rolling weekly status \<longleftrightarrow>
     pb_schema b = 1 \<and> 0 \<le> pb_seq b \<and> pb_generated_at_utc b \<noteq> [] \<and> length (pb_generated_at_utc b) \<le> 128 \<and> length (pb_burn_state b) \<le> 32 \<and>
     nonnegative (pb_burn_rate_per_min b) \<and> 0 \<le> pb_today_total_tokens b \<and> 0 \<le> pb_today_sessions b \<and>
     pb_plan_type b = normalize_plan (pb_plan_type b) \<and> p_window_ok rolling \<and> p_window_ok weekly \<and> pt_state status \<noteq> [] \<and>
     length (pt_state status) \<le> 64 \<and> valid_quota_weighting (pt_quota_weighting status) \<and> length (pt_data_source status) \<le> 128 \<and>
     length (pt_quota_source status) \<le> 128 \<and> timestamp_len (pt_quota_observed_at status) \<and> p_retry_ok ck b status \<and>
     timestamp_len (pb_accounts_updated_at b)"

definition p_account_ok :: "usage_provider \<Rightarrow> p_usage_account \<Rightarrow> bool" where
  "p_account_ok provider a \<longleftrightarrow>
     0 < pu_number a \<and> \<not> (provider = UsageCodex \<and> pu_email a \<noteq> []) \<and> pu_email a = safe_label (pu_email a) \<and>
     pu_display_name a = safe_label (pu_display_name a) \<and> length (pu_status a) \<le> 64 \<and>
     p_account_window_ok (pu_five_hour a) \<and> p_account_window_ok (pu_seven_day a) \<and>
     (case pu_tokens_per_hour a of None \<Rightarrow> True | Some n \<Rightarrow> nonnegative n) \<and>
     (case pu_total_tokens a of None \<Rightarrow> True | Some n \<Rightarrow> 0 \<le> n) \<and>
     timestamp_len (pu_last_refresh_at a) \<and> timestamp_len (pu_quota_observed_at a) \<and> pu_plan_type a = normalize_plan (pu_plan_type a)"

fun p_accounts_ok :: "usage_provider \<Rightarrow> int list \<Rightarrow> p_usage_account list \<Rightarrow> bool" where
  \<comment> \<open>with the numbers of the accounts before\<close>
  "p_accounts_ok provider seen [] \<longleftrightarrow> True"
| "p_accounts_ok provider seen (a # as) \<longleftrightarrow> p_account_ok provider a \<and> pu_number a \<notin> set seen \<and> p_accounts_ok provider (pu_number a # seen) as"

fun validate_usage_inner :: "usage_clock \<Rightarrow> bool \<Rightarrow> p_usage \<Rightarrow> snap_check"
  and validate_usage_sources :: "usage_clock \<Rightarrow> usage_provider \<Rightarrow> int \<Rightarrow> string list \<Rightarrow> (string \<times> p_usage option) list \<Rightarrow> snap_check" where
  "validate_usage_inner ck child (PUsage b sources) =
     (if child \<and> sources \<noteq> [] then Err SnapInvalid
      else if 2 < length sources \<or> USAGE_MAX_ACCOUNTS < length (pb_accounts b) then Err SnapLimit
      else and_then (usage_provider_from (pb_provider b)) (\<lambda>provider.
        case (pb_rolling_5h b, pb_weekly b, pb_status b) of
          (Some rolling, Some weekly, Some status) \<Rightarrow>
            if \<not> p_body_ok ck b rolling weekly status \<or> \<not> p_accounts_ok provider [] (pb_accounts b) then Err SnapInvalid
            else validate_usage_sources ck provider (pb_provider b) [] sources
        | _ \<Rightarrow> Err SnapInvalid))"
| "validate_usage_sources ck provider number seen [] = Ok ()"
| "validate_usage_sources ck provider number seen ((name, s) # rest) =
     (if 16 < length name then Err SnapLimit
      else if name \<in> set seen then Err SnapInvalid
      else case s of
        None \<Rightarrow> Err SnapInvalid
      | Some nested \<Rightarrow>
          (case pb_status (pu_body nested) of
             None \<Rightarrow> Err SnapInvalid
           | Some status \<Rightarrow>
               if \<not> source_allowed provider name (pt_quota_source status) \<or> pb_provider (pu_body nested) \<noteq> number then Err SnapInvalid
               else and_then (validate_usage_inner ck True nested) (\<lambda>_. validate_usage_sources ck provider number (name # seen) rest)))"

definition validate_usage :: "usage_clock \<Rightarrow> (p_usage \<Rightarrow> nat) \<Rightarrow> p_usage \<Rightarrow> snap_check" where
  "validate_usage ck encoded_len s =
     and_then (validate_usage_inner ck False s) (\<lambda>_. if MAX_SNAPSHOT_BYTES < encoded_len s then Err SnapLimit else Ok ())"

definition usage_to_proto :: "usage_clock \<Rightarrow> (p_usage \<Rightarrow> nat) \<Rightarrow> usage_snapshot \<Rightarrow> (snapshot_error, p_usage) result" where
  "usage_to_proto ck encoded_len s =
     (if \<not> validate ck s then Err SnapInvalid
      else let out = to_usage s in and_then (validate_usage ck encoded_len out) (\<lambda>_. Ok out))"

definition usage_from_proto :: "usage_clock \<Rightarrow> (p_usage \<Rightarrow> nat) \<Rightarrow> p_usage \<Rightarrow> (snapshot_error, usage_snapshot) result" where
  "usage_from_proto ck encoded_len s =
     and_then (validate_usage ck encoded_len s) (\<lambda>_.
     and_then (from_usage False s) (\<lambda>out. if validate ck out then Ok out else Err SnapInvalid))"

end
