(* ===== verification/Snapshot_Properties.thy ===== *)
theory Snapshot_Properties
  imports Snapshots
begin

text \<open>
  What is sent arrives: the conversions of a catalog and of a usage snapshot are inverse to each other on what is sent, and the check of a
  usage message, which does not build the snapshot, decides whether building and checking it would succeed.
\<close>

section \<open>The catalog\<close>

lemma from_to_fields [simp]: "from_identity (to_identity i) = i" "from_summary (to_summary w) = w" "from_node (to_node n) = n" "from_metrics (to_metrics x) = x"
  by (simp_all add: from_identity_def to_identity_def from_summary_def to_summary_def from_node_def to_node_def from_metrics_def to_metrics_def)

lemma from_to_strings [simp]: "from_strings (to_strings xs) = xs"
  by (simp add: from_strings_def to_strings_def option.map_comp comp_def option.map_ident)

lemma from_to_workflow [simp]: "from_workflow (to_workflow w) = w"
  by (simp add: from_workflow_def to_workflow_def option.map_comp comp_def option.map_ident)

lemma from_to_session: "from_session (to_session s) = Ok (s\<lparr>sn_pane_pid := 0\<rparr>)"
  by (simp add: from_session_def to_session_def option.map_comp comp_def option.map_ident)

lemma from_to_sessions: "from_sessions (map to_session ss) = Ok (map (sn_pane_pid_update (\<lambda>_. 0)) ss)"
  by (induction ss) (simp_all add: from_to_session and_then_def)

lemma check_all_map: "check_all f (map g xs) = check_all (f \<circ> g) xs"
  by (induction xs) simp_all

lemma check_some_map: "check_some f (map_option g x) = check_some (f \<circ> g) x"
  by (simp add: check_some_def split: option.split)

lemma check_list_map: "check_list most f (map g xs) = check_list most (f \<circ> g) xs"
  by (simp add: check_list_def check_all_map)

lemma check_proto_to:
  "limit_texts (p_node_texts (to_node n)) MAX_CATALOG_TEXT = check_node n"
  "check_proto_workflow (to_workflow w) = check_workflow w"
  "check_proto_session (to_session s) = check_session s"
proof -
  show node: "limit_texts (p_node_texts (to_node n)) MAX_CATALOG_TEXT = check_node n" for n
    by (simp add: p_node_texts_def to_node_def check_node_def node_texts_def)
  show workflow: "check_proto_workflow (to_workflow w) = check_workflow w" for w
    by (simp add: check_proto_workflow_def check_workflow_def to_workflow_def p_workflow_texts_def workflow_texts_def check_some_map comp_def
        check_list_map node)
  show "check_proto_session (to_session s) = check_session s"
    by (simp add: check_proto_session_def check_session_def to_session_def p_session_texts_def session_texts_def check_some_map comp_def
        check_list_map workflow identity_check_proto_def to_identity_def to_strings_def)
qed

lemma unwatched [simp]:
  "check_session (s\<lparr>sn_pane_pid := p\<rparr>) = check_session s" "session_amounts z (s\<lparr>sn_pane_pid := p\<rparr>) = session_amounts z s"
  by (simp_all add: check_session_def session_texts_def session_amounts_def)

lemma normalized_twice [simp]: "normalized_metrics env (normalized_metrics env x) = normalized_metrics env x"
  by (cases x) (simp_all add: normalized_metrics_def)

lemma received_checked:
  "check_catalog ck (c\<lparr>ct_sessions := map_option (map (sn_pane_pid_update (\<lambda>_. 0))) (ct_sessions c)\<rparr>) = check_catalog ck c"
  "budget_model_catalog z (c\<lparr>ct_sessions := map_option (map (sn_pane_pid_update (\<lambda>_. 0))) (ct_sessions c)\<rparr>) = budget_model_catalog z c"
  by (simp_all add: check_catalog_def budget_model_catalog_def check_some_map comp_def check_list_map split: option.split)

lemma charges_error: "charges ns b = Err e \<Longrightarrow> e = SnapLimit"
  by (induction ns arbitrary: b) (auto split: if_splits)

definition arrived :: "snapshot_env \<Rightarrow> catalog \<Rightarrow> catalog" where
  \<comment> \<open>what the receiver of a catalog is to have\<close>
  "arrived env c =
     c\<lparr>ct_generated_at := (if ct_generated_at c = [] then go_zero_time else ct_generated_at c),
       ct_sessions := map_option (map (sn_pane_pid_update (\<lambda>_. 0))) (ct_sessions c),
       ct_host_metrics := normalized_metrics env (ct_host_metrics c)\<rparr>"

text \<open>
  C22: A catalog the Home can put into a message is read back by the gateway as it was, but for metrics that are not valid, which become
  empty, the process number of the pane, which is not sent, and a time of generation that was left empty, which becomes the zero time. The receiver
  refuses nothing that a sender passed, save a catalog without a time of generation that the twenty bytes of the zero time take over the limit of
  memory. The library that reads times is to read the zero time.
\<close>

theorem catalog_arrives:
  assumes "catalog_to_proto env c = Ok p" and "uk_parse (se_clock env) go_zero_time \<noteq> None"
  shows "catalog_from_proto env p =
    (if ct_generated_at c = [] \<and> budget_model_catalog (se_model_sizes env) (arrived env c) \<noteq> Ok () then Err SnapLimit else Ok (arrived env c))"
proof -
  let ?c = "c\<lparr>ct_host_metrics := normalized_metrics env (ct_host_metrics c)\<rparr>"
  let ?t = "if ct_generated_at c = [] then go_zero_time else ct_generated_at c"
  have sent: "check_catalog (se_clock env) ?c = Ok ()" "budget_model_catalog (se_model_sizes env) ?c = Ok ()" "validate_catalog env p = Ok ()"
    and p: "p = \<lparr>pg_protocol_version = ct_protocol_version c, pg_generated_at = ct_generated_at c,
      pg_sessions = map_option (\<lambda>ss. \<lparr>items = map to_session ss\<rparr>) (ct_sessions c),
      pg_host_metrics = map_option to_metrics (normalized_metrics env (ct_host_metrics c))\<rparr>"
    using assms(1) by (auto simp: catalog_to_proto_def Let_def and_then_Ok_iff)
  have sessions: "(case pg_sessions p of None \<Rightarrow> Ok None | Some ss \<Rightarrow> and_then (from_sessions (items ss)) (\<lambda>xs. Ok (Some xs))) =
      Ok (map_option (map (sn_pane_pid_update (\<lambda>_. 0))) (ct_sessions c))"
    by (simp add: p from_to_sessions and_then_def split: option.split)
  have out: "\<lparr>ct_protocol_version = pg_protocol_version p, ct_generated_at = (if pg_generated_at p = [] then go_zero_time else pg_generated_at p),
      ct_sessions = map_option (map (sn_pane_pid_update (\<lambda>_. 0))) (ct_sessions c),
      ct_host_metrics = normalized_metrics env (map_option from_metrics (pg_host_metrics p))\<rparr> = arrived env c"
    by (intro catalog.equality) (simp_all add: arrived_def p option.map_comp comp_def option.map_ident)
  have arrived: "arrived env c = (?c\<lparr>ct_generated_at := ?t\<rparr>)\<lparr>ct_sessions := map_option (map (sn_pane_pid_update (\<lambda>_. 0))) (ct_sessions (?c\<lparr>ct_generated_at := ?t\<rparr>))\<rparr>"
    by (simp add: arrived_def)
  have check: "check_catalog (se_clock env) (arrived env c) = Ok ()"
    unfolding arrived received_checked using sent(1) assms(2)
    by (auto simp: check_catalog_def check_generated_def limit_texts_def go_zero_time_def and_then_Ok_iff split: if_splits)
  have budget: "budget_model_catalog (se_model_sizes env) (arrived env c) = Ok ()" if "ct_generated_at c \<noteq> []"
    unfolding arrived received_checked using sent(2) that by (simp add: budget_model_catalog_def)
  have limit: "budget_model_catalog z c' = Ok () \<or> budget_model_catalog z c' = Err SnapLimit" for z c'
    by (auto simp: budget_model_catalog_def and_then_def dest: charges_error split: sum.split)
  show ?thesis
    unfolding catalog_from_proto_def sent(3) sessions Let_def and_then_simps out check using budget limit [of "se_model_sizes env" "arrived env c"] by auto
qed

definition sample_snapshot_env :: snapshot_env where
  "sample_snapshot_env =
     (let z = \<lparr>zs_catalog = 64, zs_metrics = 96, zs_session = 600, zs_identity = 32, zs_string = 24, zs_summary = 64, zs_workflow = 200, zs_node = 150\<rparr> in
      \<lparr>se_clock = \<lparr>uk_format = \<lambda>_. ''now'', uk_parse = \<lambda>t. if t \<in> {''now'', go_zero_time} then Some 0 else None\<rparr>, se_read_time = \<lambda>_. None,
       se_model_sizes = z, se_proto_sizes = z, se_catalog_len = \<lambda>_. 80\<rparr>)"

definition sample_catalog :: catalog where
  "sample_catalog =
     \<lparr>ct_protocol_version = 1, ct_generated_at = ''now'',
      ct_sessions = Some [\<lparr>sn_id = ''$1'', sn_name = [0x77], sn_alias = [], sn_hidden = False, sn_created_at = 7,
        sn_restored_from = Some \<lparr>si_id = ''$0'', si_created_at = 5\<rparr>, sn_activity_at = 9, sn_attached = 0, sn_window_count = 1,
        sn_window_names = Some [[0x61]], sn_active_window = [0x61], sn_current_path = [0x2F], sn_current_command = [], sn_profile = [], sn_label = [],
        sn_tags = None, sn_kind = ''shell'', sn_runtime = ''process'', sn_model = [], sn_state = ''running'', sn_process = ''sh'',
        sn_working_since = 0, sn_width = 80, sn_height = 24, sn_pane_pid = 4711, sn_workflow = None, sn_workflows = Some []\<rparr>],
      ct_host_metrics = Some host_metrics_default\<rparr>"

lemma sample_catalog_sent: "\<exists>p. catalog_to_proto sample_snapshot_env sample_catalog = Ok p"
  by (simp add: catalog_to_proto_def sample_snapshot_env_def sample_catalog_def Let_def normalized_metrics_def metrics_validate_def check_catalog_def
      check_generated_def limit_texts_def check_some_def check_list_def check_session_def check_identity_def validate_session_id_def session_texts_def text_len_def
      limit_strings_def budget_model_catalog_def session_amounts_def string_amounts_def validate_catalog_def check_proto_catalog_def to_session_def
      check_proto_session_def identity_check_proto_def to_identity_def p_session_texts_def to_strings_def budget_proto_catalog_def p_session_amounts_def
      host_metrics_default_def go_zero_time_def to_metrics_def MAX_CATALOG_SESSIONS_def MAX_CATALOG_WINDOWS_def MAX_CATALOG_TAGS_def MAX_WORKFLOWS_def
      MAX_DECODED_SNAPSHOT_BYTES_def MAX_CATALOG_TEXT_def MAX_CATALOG_BYTES_def len_utf8_def ascii_defs)

theorem catalog_arrives_witness:
  "\<exists>p. catalog_to_proto sample_snapshot_env sample_catalog = Ok p \<and> uk_parse (se_clock sample_snapshot_env) go_zero_time \<noteq> None \<and>
     catalog_from_proto sample_snapshot_env p = Ok (arrived sample_snapshot_env sample_catalog)"
proof -
  have "ct_generated_at sample_catalog \<noteq> []" "uk_parse (se_clock sample_snapshot_env) go_zero_time \<noteq> None"
    by (simp_all add: sample_catalog_def sample_snapshot_env_def Let_def)
  then show ?thesis
    using sample_catalog_sent catalog_arrives [of sample_snapshot_env sample_catalog] by fastforce
qed

section \<open>Usage\<close>

lemma provider_from_to [simp]: "usage_provider_from (usage_provider_to pv) = Ok pv"
  by (cases pv) (simp_all add: usage_provider_from_def usage_provider_to_def)

lemma provider_from_iff: "usage_provider_from n = Ok pv \<longleftrightarrow> n = usage_provider_to pv"
  by (cases pv) (auto simp: usage_provider_from_def usage_provider_to_def)

lemma window_conversions [simp]: "from_window (to_window w) = w" "from_account_window (to_account_window v) = v" "from_status (to_status s) = s"
  by (simp_all add: from_window_def to_window_def from_account_window_def to_account_window_def from_status_def to_status_def)

lemma from_to_account [simp]: "from_account (to_account a) = a"
  by (simp add: from_account_def to_account_def option.map_comp comp_def option.map_ident)

lemma from_to_body [simp]: "from_body (to_body b) = Ok b"
  by (simp add: from_body_def to_body_def comp_def)

lemma window_checks [simp]: "usage_window_ok (from_window w) = p_window_ok w" "account_window_ok (map_option from_account_window v) = p_account_window_ok v"
  by (simp_all add: usage_window_ok_def from_window_def p_window_ok_def account_window_ok_def p_account_window_ok_def from_account_window_def split: option.split)

lemma account_check [simp]: "account_ok pv (from_account a) = p_account_ok pv a"
  by (simp add: account_ok_def p_account_ok_def from_account_def)

lemma accounts_check:
  "p_accounts_ok pv seen as \<longleftrightarrow>
     list_all (account_ok pv) (map from_account as) \<and> distinct (map ua_number (map from_account as)) \<and> set seen \<inter> pu_number ` set as = {}"
  by (induction as arbitrary: seen) (auto simp: from_account_def account_check [unfolded from_account_def])

lemma within_day: "(case num_nanoseconds d of None \<Rightarrow> False | Some ns \<Rightarrow> 0 < ns \<and> ns \<le> 24 * 60 * 60 * 1000000000) \<longleftrightarrow> 0 < d \<and> d \<le> 86400000000000"
  by (auto simp: num_nanoseconds_def)

lemma from_body_checked:
  assumes "from_body b = Ok b'"
  obtains r w st where "pb_rolling_5h b = Some r" "pb_weekly b = Some w" "pb_status b = Some st" "pb_provider b = usage_provider_to (ub_provider b')"
    "ub_status b' = from_status st" "ub_accounts b' = map from_account (pb_accounts b)"
    "body_ok ck b' \<longleftrightarrow> p_body_ok ck b r w st \<and> length (pb_accounts b) \<le> USAGE_MAX_ACCOUNTS"
proof -
  obtain pv where pv: "usage_provider_from (pb_provider b) = Ok pv"
    using assms by (auto simp: from_body_def and_then_Ok_iff)
  then obtain r w st where parts: "pb_rolling_5h b = Some r" "pb_weekly b = Some w" "pb_status b = Some st"
    using assms by (cases "pb_rolling_5h b"; cases "pb_weekly b"; cases "pb_status b") (simp_all add: from_body_def)
  have b': "b' = \<lparr>ub_schema = pb_schema b, ub_seq = pb_seq b, ub_generated_at_utc = pb_generated_at_utc b, ub_provider = pv,
      ub_plan_type = pb_plan_type b, ub_burn_rate_per_min = pb_burn_rate_per_min b, ub_burn_state = pb_burn_state b,
      ub_today_total_tokens = pb_today_total_tokens b, ub_today_sessions = pb_today_sessions b, ub_rolling_5h = from_window r,
      ub_weekly = from_window w, ub_rolling_5h_observed = pb_rolling_5h_observed b, ub_weekly_observed = pb_weekly_observed b,
      ub_status = from_status st, ub_accounts = map from_account (pb_accounts b), ub_accounts_updated_at = pb_accounts_updated_at b\<rparr>"
    using assms by (simp add: from_body_def parts pv)
  have retry: "retry_ok ck b' = p_retry_ok ck b st"
    by (simp add: b' retry_ok_def p_retry_ok_def from_status_def within_day split: option.split)
  have "body_ok ck b' \<longleftrightarrow> p_body_ok ck b r w st \<and> length (pb_accounts b) \<le> USAGE_MAX_ACCOUNTS"
    unfolding body_ok_def p_body_ok_def retry by (simp add: b' from_status_def)
  then show thesis
    using that [OF parts] pv by (simp add: b' provider_from_iff)
qed

lemma inner_ok_iff:
  "validate_usage_inner ck child (PUsage b sources) = Ok () \<longleftrightarrow>
     \<not> (child \<and> sources \<noteq> []) \<and> length sources \<le> 2 \<and>
     (\<exists>b'. from_body b = Ok b' \<and> body_ok ck b' \<and> list_all (account_ok (ub_provider b')) (ub_accounts b') \<and> distinct (map ua_number (ub_accounts b')) \<and>
        validate_usage_sources ck (ub_provider b') (pb_provider b) [] sources = Ok ())"
  (is "?l \<longleftrightarrow> ?r")
proof (cases "\<exists>b'. from_body b = Ok b'")
  case True
  then obtain b' where b': "from_body b = Ok b'" by blast
  obtain r w st where parts: "pb_rolling_5h b = Some r" "pb_weekly b = Some w" "pb_status b = Some st" "pb_provider b = usage_provider_to (ub_provider b')"
    "ub_accounts b' = map from_account (pb_accounts b)" and ok: "body_ok ck b' \<longleftrightarrow> p_body_ok ck b r w st \<and> length (pb_accounts b) \<le> USAGE_MAX_ACCOUNTS"
    using from_body_checked [OF b', of ck] by metis
  show ?thesis
    using b' by (auto simp: parts ok accounts_check split: if_splits)
next
  case False
  then have "usage_provider_from (pb_provider b) = Ok pv \<Longrightarrow> pb_rolling_5h b = None \<or> pb_weekly b = None \<or> pb_status b = None" for pv
    by (auto simp: from_body_def split: option.splits)
  then show ?thesis
    using False by (auto simp: and_then_Ok_iff split: if_splits option.splits)
qed

lemma source_insert_set: "k \<notin> set (keys m) \<Longrightarrow> set (source_insert k v m) = insert (k, v) (set m)"
  by (induction k v m rule: source_insert.induct) (auto simp: keys_def)

lemma source_insert_length: "k \<notin> set (keys m) \<Longrightarrow> length (source_insert k v m) = Suc (length m)"
  by (induction k v m rule: source_insert.induct) (auto simp: keys_def)

definition built_source_ok :: "usage_clock \<Rightarrow> usage_provider \<Rightarrow> string \<times> usage_snapshot \<Rightarrow> bool" where
  "built_source_ok ck pv = (\<lambda>(name, child).
     source_allowed pv name (ut_quota_source (ub_status (us_body child))) \<and> ub_provider (us_body child) = pv \<and> us_sources child = [] \<and> validate ck child)"

lemma validate_built_source:
  "validate ck (Usage b sources) \<longleftrightarrow>
     body_ok ck b \<and> length sources \<le> 2 \<and> list_all (built_source_ok ck (ub_provider b)) sources \<and>
     list_all (account_ok (ub_provider b)) (ub_accounts b) \<and> distinct (map ua_number (ub_accounts b))"
  by (simp add: built_source_ok_def)

declare validate.simps [simp del] validate_usage_inner.simps [simp del]

lemma provider_of_to_body [simp]: "pb_provider (to_body b) = usage_provider_to (ub_provider b)"
  by (simp add: to_body_def)

lemma child_built:
  assumes "validate_usage_inner ck True n = Ok ()"
  obtains s where "from_usage True n = Ok s" "validate ck s" "us_sources s = []" "pb_provider (pu_body n) = usage_provider_to (ub_provider (us_body s))"
    "map_option pt_quota_source (pb_status (pu_body n)) = Some (ut_quota_source (ub_status (us_body s)))"
proof -
  obtain b sources where n: "n = PUsage b sources" by (cases n)
  obtain b' where b': "from_body b = Ok b'" "body_ok ck b'" "list_all (account_ok (ub_provider b')) (ub_accounts b')" "distinct (map ua_number (ub_accounts b'))"
    and sources: "sources = []"
    using assms by (auto simp: n inner_ok_iff)
  obtain st where "pb_status b = Some st" "pb_provider b = usage_provider_to (ub_provider b')" "ub_status b' = from_status st"
      "length (pb_accounts b) \<le> USAGE_MAX_ACCOUNTS"
    using from_body_checked [OF b'(1), of ck] b'(2) by metis
  then show thesis
    using that [of "Usage b' []"] b' by (simp add: n sources validate_built_source from_status_def)
qed

lemma sources_built:
  assumes "validate_usage_sources ck pv (usage_provider_to pv) seen ss = Ok ()" "set (keys out) = set seen" "list_all (built_source_ok ck pv) out"
  shows "\<exists>out'. from_sources ss out = Ok out' \<and> list_all (built_source_ok ck pv) out' \<and> length out' = length out + length ss"
  using assms
proof (induction ss arbitrary: seen out)
  case (Cons x ss)
  obtain name n where x: "x = (name, Some n)"
    using Cons.prems(1) by (cases x; cases "snd x") (auto split: if_splits)
  obtain st where st: "pb_status (pu_body n) = Some st" "source_allowed pv name (pt_quota_source st)" "pb_provider (pu_body n) = usage_provider_to pv"
    and inner: "validate_usage_inner ck True n = Ok ()" and rest: "validate_usage_sources ck pv (usage_provider_to pv) (name # seen) ss = Ok ()"
    and name: "length name \<le> 16" "name \<notin> set seen"
    using Cons.prems(1) by (auto simp: x and_then_Ok_iff split: if_splits option.splits)
  obtain s where s: "from_usage True n = Ok s" "validate ck s" "us_sources s = []" "usage_provider_to pv = usage_provider_to (ub_provider (us_body s))"
    "pt_quota_source st = ut_quota_source (ub_status (us_body s))"
    using child_built [OF inner] st by auto
  have pv: "ub_provider (us_body s) = pv"
    using s(4) by (metis provider_from_to Inr_inject)
  have fresh: "name \<notin> set (keys out)" using name Cons.prems(2) by simp
  have "\<exists>out'. from_sources ss (source_insert name s out) = Ok out' \<and> list_all (built_source_ok ck pv) out' \<and> length out' = length (source_insert name s out) + length ss"
  proof (rule Cons.IH [OF rest])
    show "set (keys (source_insert name s out)) = set (name # seen)"
      using Cons.prems(2) by (simp add: keys_def source_insert_set [OF fresh])
    show "list_all (built_source_ok ck pv) (source_insert name s out)"
      using Cons.prems(3) s(2,3) st(2) s(5) pv by (auto simp: list_all_iff source_insert_set [OF fresh] built_source_ok_def)
  qed
  then show ?case
    using s(1) name fresh by (auto simp: x source_insert_length [OF fresh])
qed simp

lemma usage_built:
  assumes "validate_usage_inner ck False p = Ok ()"
  shows "\<exists>s. from_usage False p = Ok s \<and> validate ck s"
proof -
  obtain b sources where p: "p = PUsage b sources" by (cases p)
  obtain b' where b': "from_body b = Ok b'" "body_ok ck b'" "list_all (account_ok (ub_provider b')) (ub_accounts b')" "distinct (map ua_number (ub_accounts b'))"
    and sources: "length sources \<le> 2" "validate_usage_sources ck (ub_provider b') (pb_provider b) [] sources = Ok ()"
    using assms by (auto simp: p inner_ok_iff)
  have parts: "pb_provider b = usage_provider_to (ub_provider b')" "length (pb_accounts b) \<le> USAGE_MAX_ACCOUNTS"
    using from_body_checked [OF b'(1), of ck] b'(2) by metis+
  obtain out where "from_sources sources [] = Ok out" "list_all (built_source_ok ck (ub_provider b')) out" "length out = length sources"
    using sources_built [of ck "ub_provider b'" "[]" sources "[]"] sources(2) parts(1) by (auto simp: keys_def)
  then show ?thesis
    using b' sources(1) parts(2) by (simp add: p validate_built_source)
qed

lemma from_sources_grow:
  assumes "from_sources ss out = Ok out'"
  shows "set out \<subseteq> set out' \<and> length out' = length out + length ss"
  using assms
proof (induction ss arbitrary: out)
  case (Cons x ss)
  then obtain name n s where step: "x = (name, Some n)" "name \<notin> set (keys out)" "from_sources ss (source_insert name s out) = Ok out'"
    by (cases x; cases "snd x") (auto simp: and_then_Ok_iff split: if_splits)
  then show ?case
    using Cons.IH [OF step(3)] by (simp add: source_insert_set source_insert_length)
qed simp

lemma built_inner:
  assumes "from_usage child n = Ok s" "validate ck s"
    and "\<And>b b' ss. n = PUsage b ss \<Longrightarrow> from_body b = Ok b' \<Longrightarrow> us_body s = b' \<Longrightarrow> from_sources ss [] = Ok (us_sources s) \<Longrightarrow>
      validate_usage_sources ck (ub_provider b') (pb_provider b) [] ss = Ok ()"
  shows "validate_usage_inner ck child n = Ok ()"
proof -
  obtain b ss where n: "n = PUsage b ss" by (cases n)
  obtain b' out where b': "from_body b = Ok b'" "from_sources ss [] = Ok out" "s = Usage b' out" "\<not> (child \<and> ss \<noteq> [])" "length ss \<le> 2"
    using assms(1) by (auto simp: n and_then_Ok_iff split: if_splits)
  then show ?thesis
    using assms(2) assms(3) [OF n] by (auto simp: n inner_ok_iff validate_built_source)
qed

lemma sources_checked:
  assumes "from_sources ss out = Ok out'" "list_all (built_source_ok ck pv) out'" "set seen = set (keys out)"
  shows "validate_usage_sources ck pv (usage_provider_to pv) seen ss = Ok ()"
  using assms
proof (induction ss arbitrary: out seen)
  case (Cons x ss)
  then obtain name n s where step: "x = (name, Some n)" "name \<notin> set (keys out)" "from_sources ss (source_insert name s out) = Ok out'"
      "from_usage True n = Ok s" "length name \<le> 16"
    by (cases x; cases "snd x") (auto simp: and_then_Ok_iff split: if_splits)
  have s: "built_source_ok ck pv (name, s)"
    using from_sources_grow [OF step(3)] Cons.prems(2) by (auto simp: source_insert_set [OF step(2)] list_all_iff)
  obtain b b' where b: "n = PUsage b []" "from_body b = Ok b'" "s = Usage b' []"
    using step(4) by (cases n) (auto simp: and_then_Ok_iff split: if_splits)
  obtain st where st: "pb_status b = Some st" "pb_provider b = usage_provider_to (ub_provider b')" "ub_status b' = from_status st"
    using from_body_checked [OF b(2), of ck] by metis
  have "validate_usage_inner ck True n = Ok ()"
    by (rule built_inner [OF step(4)]) (use s b in \<open>auto simp: built_source_ok_def\<close>)
  moreover have "validate_usage_sources ck pv (usage_provider_to pv) (name # seen) ss = Ok ()"
    by (rule Cons.IH [OF step(3) Cons.prems(2)]) (use Cons.prems(3) in \<open>simp add: keys_def source_insert_set [OF step(2)]\<close>)
  ultimately show ?case
    using step(1,2,5) s b st Cons.prems(3) by (simp add: built_source_ok_def from_status_def)
qed simp

lemma usage_inner_exact: "validate_usage_inner ck False p = Ok () \<longleftrightarrow> (\<exists>s. from_usage False p = Ok s \<and> validate ck s)"
proof
  assume "\<exists>s. from_usage False p = Ok s \<and> validate ck s"
  then obtain s where s: "from_usage False p = Ok s" "validate ck s" by blast
  show "validate_usage_inner ck False p = Ok ()"
  proof (rule built_inner [OF s])
    fix b b' ss
    assume b: "p = PUsage b ss" "from_body b = Ok b'" "us_body s = b'" "from_sources ss [] = Ok (us_sources s)"
    have "pb_provider b = usage_provider_to (ub_provider b')" using from_body_checked [OF b(2), of ck] by metis
    moreover have "list_all (built_source_ok ck (ub_provider b')) (us_sources s)"
      using s(2) b(3) by (cases s) (simp add: validate_built_source)
    ultimately show "validate_usage_sources ck (ub_provider b') (pb_provider b) [] ss = Ok ()"
      using sources_checked [OF b(4), of ck "ub_provider b'" "[]"] by (simp add: keys_def)
  qed
qed (rule usage_built)

text \<open>
  C21: The check of a usage message, which borrows the tree and builds nothing, decides whether the conversion of the message, which does not check values, gives a snapshot
  that passes the check of snapshots: a message within the size limit is accepted if and only if it does. So the check that comes before the conversion refuses
  nothing by mistake, and reading a message gives a snapshot exactly when converting and checking it would.
\<close>

theorem usage_check_exact:
  "(validate_usage ck encoded_len p = Ok () \<longleftrightarrow>
     (\<exists>s. from_usage False p = Ok s \<and> validate ck s) \<and> encoded_len p \<le> MAX_SNAPSHOT_BYTES) \<and>
   (usage_from_proto ck encoded_len p = Ok s \<longleftrightarrow>
     from_usage False p = Ok s \<and> validate ck s \<and> encoded_len p \<le> MAX_SNAPSHOT_BYTES)"
proof -
  have check: "validate_usage ck encoded_len p = Ok () \<longleftrightarrow>
      (\<exists>s. from_usage False p = Ok s \<and> validate ck s) \<and> encoded_len p \<le> MAX_SNAPSHOT_BYTES"
    by (auto simp: validate_usage_def and_then_Ok_iff usage_inner_exact)
  moreover have "usage_from_proto ck encoded_len p = Ok s \<longleftrightarrow>
      validate_usage ck encoded_len p = Ok () \<and> from_usage False p = Ok s \<and> validate ck s"
    by (auto simp: usage_from_proto_def and_then_Ok_iff)
  ultimately show ?thesis by blast
qed

section \<open>Usage arrives\<close>

lemma source_insert_end: "\<forall>k' \<in> set (keys m). k' < k \<Longrightarrow> source_insert k v m = m @ [(k, v)]"
  by (induction k v m rule: source_insert.induct) (auto simp: keys_def)

lemma allowed_name: "source_allowed pv name q \<Longrightarrow> length name \<le> 16"
  by (auto simp: source_allowed_def)

lemma child_sent:
  assumes "validate ck s" "us_sources s = []"
  shows "validate_usage_inner ck child (to_usage s) = Ok ()" "from_usage child (to_usage s) = Ok s"
proof -
  obtain b where s: "s = Usage b []" using assms(2) by (cases s) simp
  show "validate_usage_inner ck child (to_usage s) = Ok ()"
    using assms(1) by (simp add: s inner_ok_iff validate_built_source)
  have "length (pb_accounts (to_body b)) \<le> USAGE_MAX_ACCOUNTS"
    using assms(1) by (simp add: s validate_built_source body_ok_def to_body_def)
  then show "from_usage child (to_usage s) = Ok s" by (simp add: s)
qed

lemma sources_sent:
  assumes "list_all (built_source_ok ck pv) ss" "sorted_wrt (<) (keys (out @ ss))" "set seen = set (keys out)"
  shows "validate_usage_sources ck pv (usage_provider_to pv) seen (map (\<lambda>(name, s). (name, Some (to_usage s))) ss) = Ok () \<and>
    from_sources (map (\<lambda>(name, s). (name, Some (to_usage s))) ss) out = Ok (out @ ss)"
  using assms
proof (induction ss arbitrary: out seen)
  case (Cons x ss)
  obtain name s where x: "x = (name, s)" by (cases x)
  have s: "validate ck s" "us_sources s = []" "source_allowed pv name (ut_quota_source (ub_status (us_body s)))" "ub_provider (us_body s) = pv"
    using Cons.prems(1) by (auto simp: x built_source_ok_def)
  have before: "\<forall>k \<in> set (keys out). k < name"
    using Cons.prems(2) by (auto simp: x keys_def sorted_wrt_append)
  have body: "pu_body (to_usage s) = to_body (us_body s)" by (cases s) simp
  have step: "sorted_wrt (<) (keys ((out @ [(name, s)]) @ ss))" "set (name # seen) = set (keys (out @ [(name, s)]))" "list_all (built_source_ok ck pv) ss"
    using Cons.prems by (auto simp: x keys_def)
  have "validate_usage_sources ck pv (usage_provider_to pv) seen (map (\<lambda>(name, s). (name, Some (to_usage s))) (x # ss)) = Ok ()"
    using Cons.IH [OF step(3,1,2)] child_sent(1) [OF s(1,2), of True] allowed_name [OF s(3)] s(3,4) before Cons.prems(3)
    by (auto simp: x body to_body_def to_status_def)
  moreover have "from_sources (map (\<lambda>(name, s). (name, Some (to_usage s))) (x # ss)) out = Ok (out @ x # ss)"
    using Cons.IH [OF step(3,1,2)] child_sent(2) [OF s(1,2), of True] allowed_name [OF s(3)] before source_insert_end [OF before]
    by (auto simp: x)
  ultimately show ?case by blast
qed simp

text \<open>
  C40: A usage snapshot that passes the check, with its sources in the order of a map, is refused only for the size of its message; else it is sent, and what
  the gateway reads from the message is the snapshot itself.
\<close>

theorem usage_arrives:
  assumes "validate ck s" and "sorted_wrt (<) (keys (us_sources s))" and "encoded_len (to_usage s) \<le> MAX_SNAPSHOT_BYTES"
  shows "usage_to_proto ck encoded_len s = Ok (to_usage s) \<and> usage_from_proto ck encoded_len (to_usage s) = Ok s"
proof -
  obtain b sources where s: "s = Usage b sources" by (cases s)
  have ok: "list_all (built_source_ok ck (ub_provider b)) sources" "length sources \<le> 2" "length (pb_accounts (to_body b)) \<le> USAGE_MAX_ACCOUNTS"
    using assms(1) by (simp_all add: s validate_built_source body_ok_def to_body_def)
  have sent: "validate_usage_sources ck (ub_provider b) (usage_provider_to (ub_provider b)) [] (map (\<lambda>(name, s). (name, Some (to_usage s))) sources) = Ok ()"
    "from_sources (map (\<lambda>(name, s). (name, Some (to_usage s))) sources) [] = Ok sources"
    using sources_sent [OF ok(1), of "[]" "[]"] assms(2) by (simp_all add: s keys_def)
  have "validate_usage_inner ck False (to_usage s) = Ok ()"
    using assms(1,2) sent(1) by (simp add: s inner_ok_iff validate_built_source keys_def)
  then have valid: "validate_usage ck encoded_len (to_usage s) = Ok ()"
    using assms(3) by (simp add: validate_usage_def)
  have "from_usage False (to_usage s) = Ok s"
    using sent(2) ok(2,3) assms(2) by (simp add: s keys_def)
  then show ?thesis
    using assms(1) valid by (simp add: usage_to_proto_def usage_from_proto_def Let_def)
qed

theorem usage_arrives_witness:
  "let ck = \<lparr>uk_format = \<lambda>_. ''now'', uk_parse = \<lambda>_. Some 0\<rparr>; s = degraded ck UsageCodex 3 0 ''unavailable'' in
   validate ck s \<and> sorted_wrt (<) (keys (us_sources s)) \<and> usage_to_proto ck (\<lambda>_. 60) s = Ok (to_usage s) \<and> usage_from_proto ck (\<lambda>_. 60) (to_usage s) = Ok s"
proof -
  let ?ck = "\<lparr>uk_format = \<lambda>_. ''now'', uk_parse = \<lambda>_. Some (0 :: int)\<rparr>"
  have "validate ?ck (degraded ?ck UsageCodex 3 0 ''unavailable'')"
    by (simp add: degraded_def validate.simps body_ok_def nonnegative_def normalize_plan_def trim_def lowercase_text_def codes_def plan_names_def usage_window_ok_def
        usage_window_default_def ratio_def timestamp_len_def valid_quota_weighting_def retry_ok_def USAGE_MAX_ACCOUNTS_def)
  moreover have "sorted_wrt (<) (keys (us_sources (degraded ?ck UsageCodex 3 0 ''unavailable'')))"
    by (simp add: degraded_def keys_def)
  ultimately show ?thesis
    using usage_arrives [of ?ck "degraded ?ck UsageCodex 3 0 ''unavailable''" "\<lambda>_. 60"] by (simp add: MAX_SNAPSHOT_BYTES_def)
qed

end
