(* ===== verification/Spec2Isabelle.thy ===== *)
theory Spec2Isabelle
  imports Workspace_Store Admission Hub_Properties Tab_Completions Push_State Upload_Contract Session_Location
    Auth_Store_Witnesses File_Stage_Quota Completion_Tracker_Properties Quota_State_Properties Usage_Preferences_Properties Session_State_Properties Http_Auth_Properties Diagnostics_Properties
    Catalog_Properties Recovery_Properties Layout_Properties Snapshot_Properties
begin

text \<open>
  HMux, verified. HMux lets a browser work with the tmux sessions of a machine at home. A gateway
  (\<open>crates/hmux-gateway\<close>) faces the browsers and owns the accounts; a Home connector
  (\<open>crates/hmux-home\<close>) dials out to it over one WebSocket and owns tmux. They speak the messages of
  \<open>crates/hmux-protocol\<close> and share the data model and the workspace rules of \<open>crates/hmux-model\<close> and
  \<open>crates/hmux-core\<close>. This library models the state the gateway keeps, the connection between the
  two, and the shared-tab reconciliation, function by function, and proves what each part promises.

  \<^bold>\<open>How the code is modelled.\<close> A struct is a \<open>record\<close>, an enum a \<open>datatype\<close>, a \<open>Result\<close> a sum with the
  error on the left (\<open>Prelude\<close>: \<open>Err\<close>, \<open>Ok\<close>, and \<open>and_then\<close> for the question-mark operator), a hash map an
  association list with distinct keys, a \<open>Vec<u8>\<close> or a string of which only bytes are read a char
  list, a string whose characters are inspected the list of its code points with \<open>len()\<close> the length of
  its UTF-8 form. Instants and durations are nanoseconds in \<open>nat\<close>; \<open>i64\<close> values are \<open>int\<close> with the checks
  of the source written out, and words where the source shifts and masks. What runs under one lock is
  one function from the state to a result and the next state; what runs between two locks may be
  interleaved, and is a step relation. A private file is part of the state, and a write that fails may
  have happened or not. Code outside the repository is an argument: serde and prost (as a parser or a
  printer), SHA-256, HMAC, PBKDF2, base64, base32, P-256, the URI, address and RFC 3339 parsers, the
  allocator, tokio's semaphores, timers and channels (as the answer they give). What a theorem needs of
  an argument is a named hypothesis: \<open>semaphore_law\<close> and \<open>env_ok\<close> (a semaphore grants no more than it
  has), \<open>codec_law\<close> and \<open>json_law\<close> (the document a store writes can be read back), \<open>time_law\<close> and \<open>clock_law\<close> (times of
  four-digit years are read back), \<open>sha_law\<close> (hashing in pieces is
  hashing the whole), \<open>min_law\<close> (\<open>min_by_key\<close>). Each is met by a concrete instance in a witness.

  \<^bold>\<open>The theories.\<close>

  \<^item> \<open>Prelude\<close>: representation, byte classes, association lists, and the locale \<open>step_invariant\<close>, the
    contract of every state machine below: an invariant that each step keeps holds after every run.
    \<open>Transport\<close>, \<open>Payload\<close>, \<open>Hub_Invariant\<close>, \<open>Tab_Completions\<close>, \<open>Push_State\<close>, \<open>Session_Location\<close> and
    \<open>Auth_Store_Properties\<close> interpret it on their own step relations.
  \<^item> \<open>Json\<close>, \<open>Private_File\<close> (\<open>hmux-core/src/lib.rs\<close>): the JSON values the decoders read, and what the stores use
    of a private directory, the bounded read and the atomic write.
  \<^item> \<open>Sliding_Window\<close>: the locale of a rate limiter over any clock, refined once to a specification that
    remembers the whole history; \<open>Admission\<close> and the two limiters of the account store interpret it.
  \<^item> \<open>Flow\<close> (\<open>hmux-protocol/src/flow.rs\<close>): the rendering credit of a terminal view. Credit comes back in
    the order and sizes it was taken, within 32 frames and 512 KiB; the locale \<open>fifo_credit\<close> is that
    contract, interpreted by the window.
  \<^item> \<open>Wire\<close> (\<open>wire.rs\<close>): field limits and the streaming JSON writer that compacts and escapes in one
    pass; it equals the two-pass reference for every chunking.
  \<^item> \<open>Model\<close> (\<open>hmux-model/src/lib.rs\<close>): identifiers, display text, the profile inventory.
  \<^item> \<open>Workspace\<close> (\<open>hmux-model/src/workspace.rs\<close>) and \<open>Workspace_Store\<close> (\<open>hmux-core/src/workspace.rs\<close>):
    the three-way merge of the tab list, the versioned reconcile with its operation history, and the
    file transaction around it. Another device's tabs survive, a retried change is applied once, and a
    transaction leaves the old or the new file, whatever fails. The lock wait is bounded by \<open>LOCK_FUEL\<close> = 121 attempts, which
    \<open>lock_wait_terminates\<close> shows to be enough for a three-second wait in 25 ms polls that sleeps as it is asked to.
  \<^item> \<open>Admission\<close> (\<open>hmux-gateway/src/admission.rs\<close>): the login limiter and the pool of password workers.
  \<^item> \<open>Auth\<close> (\<open>auth.rs\<close>): one-time codes, credential fingerprints, the texts of the credential and session
    files and their decoders, the validation of persisted logins.
  \<^item> \<open>Auth_Store\<close> (\<open>auth_store.rs\<close>): the account store, every transaction on the locked state and the
    operations made of them; login and the security settings are two transactions with the password
    derivation, and whatever others do, in between. \<open>Auth_Store_Invariant\<close> states the invariant, what a
    transaction may do to logins, accounts and channels (\<open>follows\<close>), and the locale \<open>auth_work\<close>: a
    transaction that returns and follows keeps the store, whatever its admission. \<open>Auth_Store_Steps\<close>
    interprets it on the ten transactions. \<open>Auth_Store_Properties\<close> has the step relation, the load from
    disk and the properties; \<open>Auth_Store_Restart\<close> the round trip through the session file, under the hypothesis that
    the file at hand is read as the object it spells and its times are kept, and the one
    condition on it the store does not maintain; \<open>Auth_Store_Witnesses\<close> the properties at a concrete store.
    A login is committed under the guard \<open>unrepeated\<close>: no value the generator gives has the hash of a login that
    is still there, one just evicted to make room or any other. That is a coincidence of 256 random bits; the code
    excludes it for the logins that stay, and not for the one evicted. Of the panics of the source the model has those of accounts and
    logins that are not found; indexing and checked conversions are total functions in it, and
    that the expiry of a new login overflows the range of times is left out.
  \<^item> \<open>Transport\<close> (\<open>hmux-protocol/src/transport.rs\<close>): admission before encoding, the writer's jobs and
    deadlines, the heartbeat. A frame is written against a clock: the five seconds of the write, the deadline of the heartbeat, the
    stop of the connection and the end of the frame are instants, and the runtime polls the writer some time after one of them. The nonce is drawn until its hash is neither zero nor the last one seen;
    \<open>draw_nonce\<close> takes fuel, and \<open>draw_nonce_ends\<close> shows that any fuel beyond the first good draw is
    enough.
  \<^item> \<open>Payload\<close>, \<open>Completion_Queue\<close>, \<open>Hub\<close>, \<open>Hub_Invariant\<close>, \<open>Hub_Properties\<close> (\<open>hmux-gateway/src/hub.rs\<close>):
    the one Home generation with its pending requests, views and uploads; every locked section, every
    message of the Home, the asynchronous operations as sequences of locked sections under
    interference, the shared byte budget and the completion queue. A dispatched message and the removal of a view or an upload are one
    step together with their cleanup, where the source takes the lock again for each part of it; what is shown of them is the state
    after the last part.
  \<^item> \<open>Tab_Completions\<close> (\<open>tab_completions.rs\<close>) and \<open>Push_State\<close> (\<open>push_state.rs\<close>): two private stores. What
    is in memory is what a restart would read, whatever the writes reported.
  \<^item> \<open>Upload_Contract\<close> (\<open>upload_contract.rs\<close>): what a browser may announce, the digests of a stream cut
    anywhere, and the Home's completion checked against them. The hashing loop is a partial function in
    the option monad; it is shown to return.
  \<^item> \<open>File_Stage\<close> (\<open>hmux-home/src/filestage.rs\<close>): the Home's end of an upload, from the sweep of the spool
    under its lock to the committed directory; the outcome of every system call is an argument.
    \<open>File_Stage_Properties\<close> follows the bytes of a stage through any chunks, and shows that what the
    Home commits the gateway accepts; \<open>File_Stage_Quota\<close> has the step relation of the spool, its quota
    under failures and crashes, and what a sweep deletes. Writing and renaming do not set the time of the directory themselves; the
    steps of the spool give every directory any time instead.
  \<^item> \<open>Completion_Tracker\<close> (\<open>hmux-home/src/completion_tracker.rs\<close>, and \<open>open_record\<close> of \<open>records.rs\<close>): the cursors
    into the transcripts of running tasks. \<open>Completion_Tracker_Properties\<close> shows that the byte-wise scan in
    chunks is the division into lines, that polls of growing logs, of all sessions at once and with the cap they
    share, find each completion once, and the limits on cursors, bytes and reports.
  \<^item> \<open>Usage\<close> (\<open>hmux-usage/src/model.rs\<close>, \<open>transport.rs\<close>): the usage snapshot and the check it passes on both
    ends of the wire. \<open>Quota_State\<close> (\<open>quota_state.rs\<close>, the refresh of \<open>hmux-home/src/usage_oauth.rs\<close> and the
    stamp of \<open>usage.rs\<close>): when the Home asks a provider for its quota, and what it shows meanwhile.
    \<open>Quota_State_Properties\<close> shows that everything a refresh returns can be published, however the
    refreshes before it ended, and that a rate limit is kept; the clock satisfies \<open>clock_law\<close>, which holds of
    RFC 3339 times in years of four digits.
  \<^item> \<open>Usage_Preferences\<close> (\<open>hmux-gateway/src/usage_preferences.rs\<close>) and \<open>Usage_Preferences_Properties\<close>: the settings of
    an account as a register with compare-and-set, down to the text of the file.
  \<^item> \<open>Session_State\<close> (\<open>hmux-home/src/sessionstate.rs\<close>) and \<open>Session_State_Properties\<close>: aliases, profiles and visibility
    of sessions, bound to one lifetime of a tmux identifier. The maps of the documents are association lists, and the
    laws on the codecs keep their order, where the source's maps print sorted by key. The lock wait takes \<open>STATE_LOCK_FUEL\<close> = 81 attempts,
    enough by \<open>state_lock_enough\<close>.
  \<^item> \<open>Http_Boundary\<close> (\<open>http_boundary.rs\<close>) and \<open>Http_Auth\<close> (\<open>http_auth.rs\<close>): what a request must carry before a route
    runs, and the routes of the accounts, composed with the account store and the usage settings.
    \<open>Http_Auth_Properties\<close> shows that a forged request does nothing and that the encoded replies keep to
    their shared budget under every interleaving.
  \<^item> \<open>Diagnostics\<close> (\<open>diagnostics.rs\<close>, \<open>diagnostic_model.rs\<close>) and \<open>Diagnostics_Properties\<close>: what browsers report about
    themselves, a ring with limits per account and in all. A batch is added exactly once, and a report that
    nothing waits to be saved means that a restart reads the whole ring back; the laws are \<open>time_law\<close> (the library reads
    the times it writes in the years 1970 to 9999, and the gateway's clock stays in them) and \<open>encode_law\<close> (a document is read back).
  \<^item> \<open>Utf8\<close> and \<open>Catalog\<close> (\<open>hmux-home/src/catalog.rs\<close>): the text of tmux's answers, and the listing of sessions and windows
    made of them; \<open>Catalog_Properties\<close> shows that an accepted catalog is exactly what was listed.
  \<^item> \<open>Recovery\<close> and \<open>Restore\<close> (\<open>hmux-home/src/recovery.rs\<close>, \<open>recovery/restore.rs\<close>): what is saved of the sessions, its validation,
    the capture, and the transactions that save, synchronise and restore. A transaction is composed of steps that ask an
    environment and record what they change; the environment answers every question of tmux, the file system, the
    random source and the resolver. \<open>Recovery_Properties\<close> has the locale \<open>progress\<close>, the rules for that composition, and interprets it on the relation
    that shows what is done outside to be backed by a journal written before, and the journal file to hold a valid state
    always. \<open>Layout_Properties\<close> gives the layouts as a grammar, which the recursive descent decides; its fuel, the length of the text
    and one more, is enough by \<open>layout_complete\<close>. It also has that the test for clean paths lets doubled slashes pass.
  \<^item> \<open>Snapshots\<close> (\<open>hmux-protocol/src/snapshots.rs\<close>): the typed messages with the catalog and the usage, their checks, the budget of a decoded tree
    and the conversions. \<open>Snapshot_Properties\<close> shows that what is sent arrives, and that the check of a usage message,
    which builds nothing, accepts exactly what can be converted into a snapshot that passes its own check.
  \<^item> \<open>Session_Location\<close> (\<open>session_location.rs\<close>): which addresses are looked up, and the shared cache.

  \<^bold>\<open>Not modelled.\<close> The enrolment of \<open>bootstrap.rs\<close>; the
  HTTP acceptor and the routes other than those of the accounts, the runtime assembly and static files;
  push encryption and delivery; the protobuf and
  JSON adapters of the protocol crate but for the conversion of catalogs and usage, which are arguments of the hub (of \<open>actions.rs\<close> only the matching of
  responses is here); of the Home side the connection, the peer, the providers and workflows, and the inspection of processes, transcripts and screens that the
  recovery resolver rests on; the collection of
  usage from provider documents;
  service management, installers and command lines; generated code; the TypeScript client. Reporters
  and \<open>Debug\<close> output are left out throughout, and zeroising of secrets has no counterpart. Also left
  out are the browser upload and terminal drivers over the hub's
  leases, and on the Home side the peer.
\<close>

end
